(* ===== verification/Prelude.thy ===== *)
theory Prelude
  imports Main "HOL-Library.Word"
begin

text \<open>
  Shared vocabulary of the development: the machine types of the Rust sources, the result
  type with its three outcomes (a value, an error, a panic), the wrapping 64-bit address
  arithmetic of a release build, big-endian bytes, and the facts about lists and words that
  every component uses.
\<close>

unbundle bit_operations_syntax

section \<open>Machine types\<close>

type_synonym u8 = "8 word"
type_synonym u16 = "16 word"
type_synonym u32 = "32 word"
type_synonym u64 = "64 word"
type_synonym i16 = "16 word"
type_synonym bytes = "u8 list"

section \<open>Results\<close>

text \<open>
  A Rust function that returns \<open>Result<T, E>\<close> and may also panic has three outcomes.
  \<open>and_then\<close> is the \<open>?\<close> operator: an error or a panic ends the caller at once.
\<close>

datatype ('a, 'e) res = Ok 'a | Err 'e | Panic

primrec and_then :: "('a, 'e) res \<Rightarrow> ('a \<Rightarrow> ('b, 'e) res) \<Rightarrow> ('b, 'e) res" where
  "and_then (Ok x) f = f x"
| "and_then (Err e) f = Err e"
| "and_then Panic f = Panic"

definition ok_or :: "'a option \<Rightarrow> 'e \<Rightarrow> ('a, 'e) res" where
  "ok_or v e = (case v of None \<Rightarrow> Err e | Some x \<Rightarrow> Ok x)"

definition guard :: "bool \<Rightarrow> 'e \<Rightarrow> (unit, 'e) res" where
  "guard b e = (if b then Ok () else Err e)"

fun collect :: "('a, 'e) res list \<Rightarrow> ('a list, 'e) res" where
  "collect [] = Ok []"
| "collect (r # rs) = and_then r (\<lambda>x. and_then (collect rs) (\<lambda>xs. Ok (x # xs)))"

primrec is_ok :: "('a, 'e) res \<Rightarrow> bool" where
  "is_ok (Ok x) = True"
| "is_ok (Err e) = False"
| "is_ok Panic = False"

named_theorems res_simps "inversion of successful results"

lemma and_then_cong [fundef_cong]:
  assumes "m = m'" and "\<And>x. m' = Ok x \<Longrightarrow> f x = g x"
  shows "and_then m f = and_then m' g"
  using assms by (cases m') auto

lemma and_then_eq_Ok [res_simps]:
  "and_then m f = Ok y \<longleftrightarrow> (\<exists>x. m = Ok x \<and> f x = Ok y)"
  by (cases m) auto

lemma and_then_eq_Panic:
  "and_then m f = Panic \<longleftrightarrow> m = Panic \<or> (\<exists>x. m = Ok x \<and> f x = Panic)"
  by (cases m) auto

lemma ok_or_eq_Ok [res_simps]: "ok_or v e = Ok x \<longleftrightarrow> v = Some x"
  by (cases v) (auto simp: ok_or_def)

lemma ok_or_not_Panic [simp]: "ok_or v e \<noteq> Panic"
  by (cases v) (auto simp: ok_or_def)

lemma ok_or_Some [simp]: "ok_or (Some x) e = Ok x"
  by (simp add: ok_or_def)

lemma ok_or_None [simp]: "ok_or None e = Err e"
  by (simp add: ok_or_def)

lemma guard_eq_Ok [res_simps]: "guard b e = Ok u \<longleftrightarrow> b"
  by (simp add: guard_def)

lemma guard_True [simp]: "guard True e = Ok ()"
  by (simp add: guard_def)

lemma guard_False [simp]: "guard False e = Err e"
  by (simp add: guard_def)

lemma guard_not_Panic [simp]: "guard b e \<noteq> Panic"
  by (simp add: guard_def)

lemma collect_Ok_map [simp]: "collect (map Ok xs) = Ok xs"
  by (induction xs) auto

lemma collect_not_Panic: "Panic \<notin> set rs \<Longrightarrow> collect rs \<noteq> Panic"
  by (induction rs) (auto simp: and_then_eq_Panic)

lemma collect_eq_Ok: "collect rs = Ok xs \<longleftrightarrow> rs = map Ok xs"
  by (induction rs arbitrary: xs) (auto simp: and_then_eq_Ok Cons_eq_map_conv)

lemma is_ok_iff: "is_ok r \<longleftrightarrow> (\<exists>x. r = Ok x)"
  by (cases r) auto

section \<open>Addresses\<close>

text \<open>
  Positions in a byte slice are \<open>usize\<close> values, 64 bits wide. The workspace sets no
  \<open>overflow-checks\<close>, so a release build wraps: \<open>uadd\<close> and \<open>usub\<close> are the two
  operations whose operands the sources do not bound beforehand.
\<close>

definition uadd :: "nat \<Rightarrow> nat \<Rightarrow> nat" where
  "uadd a b = (a + b) mod 2 ^ 64"

definition usub :: "nat \<Rightarrow> nat \<Rightarrow> nat" where
  "usub a b = (a + (2 ^ 64 - b mod 2 ^ 64)) mod 2 ^ 64"

lemma uadd_small: "a + b < 2 ^ 64 \<Longrightarrow> uadd a b = a + b"
  by (simp add: uadd_def)

lemma usub_small:
  assumes "b \<le> a" and "a < 2 ^ 64"
  shows "usub a b = a - b"
proof -
  have "a + (2 ^ 64 - b) = (a - b) + 2 ^ 64"
    using assms by simp
  moreover have "b mod 2 ^ 64 = b" using assms by simp
  ultimately have "usub a b = ((a - b) + 2 ^ 64) mod 2 ^ 64"
    unfolding usub_def by metis
  also have "\<dots> = (a - b) mod 2 ^ 64"
    by (rule mod_add_self2)
  also have "\<dots> = a - b"
    using assms by (intro mod_less) linarith
  finally show ?thesis .
qed

text \<open>\<open>&xs[a..b]\<close>: a panic when the bounds are out of order or out of range.\<close>

definition sub_slice :: "'a list \<Rightarrow> nat \<Rightarrow> nat \<Rightarrow> ('a list, 'e) res" where
  "sub_slice xs a b = (if a \<le> b \<and> b \<le> length xs then Ok (take (b - a) (drop a xs)) else Panic)"

section \<open>Big-endian bytes\<close>

fun be_bytes :: "nat \<Rightarrow> 'a::len word \<Rightarrow> bytes" where
  "be_bytes 0 v = []"
| "be_bytes (Suc n) v = ucast (drop_bit (8 * n) v) # be_bytes n v"

definition be_value :: "bytes \<Rightarrow> 'a::len word" where
  "be_value bs = fold (\<lambda>b v. push_bit 8 v OR ucast b) bs 0"

lemma length_be_bytes [simp]: "length (be_bytes n v) = n"
  by (induction n) auto

lemma be_fold_be_bytes:
  fixes v :: "'a::len word" and acc :: "'b::len word"
  shows "fold (\<lambda>b w. push_bit 8 w OR ucast b) (be_bytes n v) acc =
         push_bit (8 * n) acc OR take_bit (8 * n) (ucast v)"
proof (induction n arbitrary: acc)
  case 0
  show ?case by simp
next
  case (Suc n)
  have "push_bit (8 * n) (push_bit 8 acc OR ucast (ucast (drop_bit (8 * n) v) :: u8)) OR
        take_bit (8 * n) (ucast v) = push_bit (8 * Suc n) acc OR take_bit (8 * Suc n) (ucast v)"
    by (rule bit_word_eqI) (auto simp: bit_simps algebra_simps)
  then show ?case by (simp add: Suc.IH)
qed

lemma be_value_be_bytes:
  fixes v :: "'a::len word"
  shows "(be_value (be_bytes n v) :: 'b::len word) = take_bit (8 * n) (ucast v)"
  by (simp add: be_value_def be_fold_be_bytes)

lemma be_value_be_bytes_full:
  fixes v :: "'a::len word"
  assumes "LENGTH('a) \<le> 8 * n"
  shows "be_value (be_bytes n v) = v"
  using assms by (simp add: be_value_be_bytes take_bit_word_eq_self)

text \<open>The other direction: the bytes of a value read from \<open>n\<close> bytes are those bytes.\<close>

lemma be_bytes_snoc:
  fixes v :: "'a::len word"
  shows "be_bytes (Suc n) v = be_bytes n (drop_bit 8 v) @ [ucast v]"
proof (induction n)
  case 0
  show ?case by simp
next
  case (Suc n)
  have "be_bytes (Suc (Suc n)) v = ucast (drop_bit (8 * Suc n) v) # be_bytes (Suc n) v"
    by (simp only: be_bytes.simps)
  also have "\<dots> = ucast (drop_bit (8 * n) (drop_bit 8 v)) # be_bytes n (drop_bit 8 v) @ [ucast v]"
    unfolding Suc.IH by (simp add: drop_bit_drop_bit add.commute)
  also have "\<dots> = be_bytes (Suc n) (drop_bit 8 v) @ [ucast v]"
    by (simp only: be_bytes.simps append_Cons)
  finally show ?case .
qed

lemma bit_u8: "bit (b :: u8) i \<Longrightarrow> i < 8"
  using bit_imp_le_length [of b i] by simp

lemma be_value_snoc: "be_value (bs @ [b]) = push_bit 8 (be_value bs) OR ucast b"
  by (simp add: be_value_def)

lemma be_value_bound:
  fixes bs :: bytes
  assumes "8 * length bs \<le> LENGTH('a::len)"
  shows "take_bit (8 * length bs) (be_value bs :: 'a word) = be_value bs"
  using assms
proof (induction bs rule: rev_induct)
  case Nil
  show ?case by (simp add: be_value_def)
next
  case (snoc b bs)
  let ?v = "be_value bs :: 'a word"
  have IH: "take_bit (8 * length bs) ?v = ?v"
    using snoc by simp
  have b: "bit ?v i \<Longrightarrow> i < 8 * length bs" for i
    using arg_cong [OF IH, of "\<lambda>w. bit w i"] by (simp add: bit_take_bit_iff)
  show ?case
    unfolding be_value_snoc
    by (rule bit_word_eqI) (auto simp: bit_simps dest: b bit_u8)
qed

lemma be_bytes_be_value:
  fixes bs :: bytes
  assumes "8 * length bs \<le> LENGTH('a::len)"
  shows "be_bytes (length bs) (be_value bs :: 'a word) = bs"
  using assms
proof (induction bs rule: rev_induct)
  case Nil
  show ?case by simp
next
  case (snoc b bs)
  let ?v = "be_value bs :: 'a word"
  have bound: "take_bit (8 * length bs) ?v = ?v"
    using snoc.prems by (intro be_value_bound) simp
  have v: "bit ?v i \<Longrightarrow> i < 8 * length bs" for i
    using arg_cong [OF bound, of "\<lambda>w. bit w i"] by (simp add: bit_take_bit_iff)
  have hi: "drop_bit 8 (push_bit 8 ?v OR ucast b) = ?v"
    by (rule bit_word_eqI) (use snoc.prems in \<open>auto simp: bit_simps dest: v bit_u8\<close>)
  have lo: "ucast (push_bit 8 ?v OR ucast b) = b"
    by (rule bit_word_eqI) (use snoc.prems in \<open>auto simp: bit_simps dest: bit_u8\<close>)
  show ?case
    unfolding be_value_snoc length_append_singleton be_bytes_snoc hi lo
    using snoc by simp
qed

section \<open>Words\<close>

lemma take_bit_unat_small:
  fixes w :: "'a::len word"
  assumes "unat w < 2 ^ n"
  shows "take_bit n w = w"
proof -
  have "unat (take_bit n w) = take_bit n (unat w)"
    by (simp add: unsigned_take_bit_eq)
  also have "\<dots> = unat w"
    using assms by (simp add: take_bit_nat_eq_self)
  finally show ?thesis
    by (simp add: word_unat_eq_iff)
qed

lemma u8_less: "unat (b :: u8) < 256"
proof -
  have "unat b < 2 ^ LENGTH(8)"
    by (rule unsigned_less)
  then show ?thesis by simp
qed

lemma u16_less: "unat (w :: u16) < 65536"
proof -
  have "unat w < 2 ^ LENGTH(16)"
    by (rule unsigned_less)
  then show ?thesis by simp
qed

lemma u32_less: "unat (w :: u32) < 4294967296"
proof -
  have "unat w < 2 ^ LENGTH(32)"
    by (rule unsigned_less)
  then show ?thesis by simp
qed

lemma u64_less: "unat (w :: u64) < 18446744073709551616"
proof -
  have "unat w < 2 ^ LENGTH(64)"
    by (rule unsigned_less)
  then show ?thesis by simp
qed

lemma unat_ucast_up:
  fixes w :: "'a::len word"
  assumes "LENGTH('a) \<le> LENGTH('b)"
  shows "unat (ucast w :: 'b::len word) = unat w"
  using assms by (simp add: unsigned_ucast_eq take_bit_nat_eq_self unsigned_less less_le_trans [OF unsigned_less])

lemma ucast_ucast_small:
  fixes w :: "'a::len word"
  assumes "unat w < 2 ^ LENGTH('b)"
  shows "ucast (ucast w :: 'b::len word) = w"
proof -
  have "unat (ucast w :: 'b word) = unat w"
    using assms by (simp add: unsigned_ucast_eq take_bit_nat_eq_self)
  moreover have "take_bit LENGTH('a) (unat w) = unat w"
    by (rule take_bit_nat_eq_self) (rule unsigned_less)
  ultimately have "unat (ucast (ucast w :: 'b word) :: 'a word) = unat w"
    using unsigned_ucast_eq [of "ucast w :: 'b word", where 'a = nat and 'c = 'a] by metis
  then show ?thesis
    by (rule word_unat_eq_iff [THEN iffD2])
qed

lemma ucast_ucast_up:
  fixes w :: "'a::len word"
  assumes "LENGTH('a) \<le> LENGTH('b)"
  shows "ucast (ucast w :: 'b::len word) = w"
  by (rule ucast_ucast_small) (rule less_le_trans [OF unsigned_less], use assms in simp)

lemma be_bytes_ucast:
  fixes v :: "'a::len word"
  assumes "8 * n \<le> LENGTH('b)"
  shows "be_bytes n (ucast v :: 'b::len word) = be_bytes n v"
  using assms
proof (induction n)
  case 0
  show ?case by simp
next
  case (Suc n)
  have "ucast (drop_bit (8 * n) (ucast v :: 'b word)) = (ucast (drop_bit (8 * n) v) :: u8)"
    by (rule bit_word_eqI)
      (use Suc.prems in \<open>auto simp: bit_simps dest: bit_imp_le_length\<close>)
  with Suc show ?case by simp
qed

text \<open>Saturating arithmetic: the result sticks to the type's bounds.\<close>

definition sat_add :: "'a::len word \<Rightarrow> 'a word \<Rightarrow> 'a word" where
  "sat_add a b = (if unat a + unat b < 2 ^ LENGTH('a) then a + b else - 1)"

definition sat_sub :: "'a::len word \<Rightarrow> 'a word \<Rightarrow> 'a word" where
  "sat_sub a b = (if a < b then 0 else a - b)"

lemma unat_minus_1: "unat (- 1 :: 'a::len word) = 2 ^ LENGTH('a) - 1"
  by (simp add: unsigned_minus_1_eq_mask mask_eq_exp_minus_1)

lemma unat_sat_add:
  fixes a b :: "'a::len word"
  shows "unat (sat_add a b) = min (unat a + unat b) (2 ^ LENGTH('a) - 1)"
proof (cases "unat a + unat b < 2 ^ LENGTH('a)")
  case True
  then have "unat (a + b) = unat a + unat b"
    by (simp add: unat_word_ariths)
  with True show ?thesis
    by (simp add: sat_add_def)
next
  case False
  then have "unat (sat_add a b) = 2 ^ LENGTH('a) - 1"
    unfolding sat_add_def by (simp only: if_False unat_minus_1)
  with False show ?thesis
    by simp
qed

lemma unat_sat_sub: "unat (sat_sub a b) = unat a - unat b"
  by (auto simp: sat_sub_def unat_sub word_less_nat_alt not_less word_le_nat_alt)

lemma min_add_min: "min (min x m + y) m = min (x + y) (m :: nat)"
  by simp

lemma sat_add_ge:
  fixes a b :: "'a::len word"
  shows "a \<le> sat_add a b"
proof -
  have "unat a < 2 ^ LENGTH('a)"
    by (rule unsigned_less)
  then have "unat a \<le> 2 ^ LENGTH('a) - 1"
    by linarith
  then show ?thesis
    by (simp only: word_le_nat_alt unat_sat_add min.bounded_iff) simp
qed

section \<open>Lists\<close>

lemma drop_eq_appendD:
  assumes "drop p c = xs @ ys"
  shows "drop (p + length xs) c = ys"
proof -
  have "drop (length xs) (drop p c) = ys"
    using assms by simp
  then show ?thesis by (simp add: add.commute)
qed

lemma take_drop_append:
  "drop p c = xs @ ys \<Longrightarrow> take (length xs) (drop p c) = xs"
  by simp

end
