(* ===== verification/Cbor.thy ===== *)
theory Cbor
  imports Prelude
begin

text \<open>
  The CBOR profile of \<^verbatim>\<open>host/protocol/src/lib.rs\<close>: the head writer \<open>uint\<close> and reader
  \<open>read_uint\<close>, byte strings, the bounded skipper for unknown values, and the CRC-32 that
  closes a frame. A reader takes the input and a position and returns the value with the new
  position; \<open>at\<close> states what is still unread at a position.
\<close>

section \<open>Errors and limits\<close>

datatype error =
    Truncated
  | TooLarge
  | BadCrc
  | Malformed
  | UnsupportedMajor
  | WrongSession
  | StaleSequence

definition MAX_FRAME_BYTES :: nat where
  "MAX_FRAME_BYTES = 2048"

section \<open>Heads\<close>

definition uint_enc :: "u8 \<Rightarrow> u64 \<Rightarrow> bytes" where
  "uint_enc major value =
     (if value < 24 then [push_bit 5 major OR ucast value]
      else if value \<le> 255 then [push_bit 5 major OR 24, ucast value]
      else if value \<le> 65535 then
        [push_bit 5 major OR 25, ucast (drop_bit 8 value), ucast value]
      else if value \<le> 0xffffffff then
        (push_bit 5 major OR 26) # be_bytes 4 (ucast value :: u32)
      else (push_bit 5 major OR 27) # be_bytes 8 value)"

text \<open>The head's argument length for the additional information \<open>a\<close>.\<close>

definition head_len :: "u8 \<Rightarrow> nat option" where
  "head_len a = (if a = 24 then Some 1 else if a = 25 then Some 2
                 else if a = 26 then Some 4 else if a = 27 then Some 8 else None)"

definition read_uint :: "bytes \<Rightarrow> nat \<Rightarrow> u8 \<Rightarrow> (u64 \<times> nat) option" where
  "read_uint c p expected =
     (if length c \<le> p then None
      else let first = c ! p in
        if drop_bit 5 first \<noteq> expected then None
        else let p = p + 1; a = first AND 31 in
          if a \<le> 23 then Some (ucast a, p)
          else (case head_len a of
              None \<Rightarrow> None
            | Some n \<Rightarrow>
                if length c < p + n then None
                else let v = be_value (take n (drop p c)) in
                  if a = 24 \<and> v < 24 \<or> a = 25 \<and> v \<le> 255 \<or> a = 26 \<and> v \<le> 65535
                     \<or> a = 27 \<and> v \<le> 0xffffffff
                  then None else Some (v, p + n)))"

section \<open>Byte strings\<close>

text \<open>\<open>bytes\<close>: a byte string of exactly the expected length.\<close>

definition bytes_dec :: "bytes \<Rightarrow> nat \<Rightarrow> nat \<Rightarrow> (bytes \<times> nat, error) res" where
  "bytes_dec c p expected_len =
     and_then (ok_or (read_uint c p 2) Malformed) (\<lambda>(len, p).
       if unat len \<noteq> expected_len \<or> length c < p + unat len then Err Malformed
       else Ok (take (unat len) (drop p c), p + unat len))"

text \<open>\<open>read_byte_string\<close>: a byte string of at most \<open>MAX_FRAME_BYTES\<close>.\<close>

definition read_byte_string :: "bytes \<Rightarrow> nat \<Rightarrow> (bytes \<times> nat) option" where
  "read_byte_string c p =
     (case read_uint c p 2 of
        None \<Rightarrow> None
      | Some (len, p) \<Rightarrow>
          if MAX_FRAME_BYTES < unat len \<or> length c < p + unat len then None
          else Some (take (unat len) (drop p c), p + unat len))"

section \<open>Skipping unknown values\<close>

text \<open>
  \<open>skip_value\<close> bounds nesting by its depth argument and collections by their count. The
  sum \<open>p + len\<close> of a string's end is computed before it is compared with the input's
  length and is not bounded, so it is the wrapping \<open>uadd\<close>.
\<close>

function skip_value :: "bytes \<Rightarrow> nat \<Rightarrow> nat \<Rightarrow> (nat, error) res"
  and skip_values :: "bytes \<Rightarrow> nat \<Rightarrow> nat \<Rightarrow> nat \<Rightarrow> (nat, error) res" where
  "skip_value c p depth =
     (if 4 \<le> depth then Err Malformed
      else if length c \<le> p then Err Malformed
      else let major = drop_bit 5 (c ! p) in
        if major = 0 \<or> major = 1 then
          and_then (ok_or (read_uint c p major) Malformed) (\<lambda>(_, p). Ok p)
        else if major = 2 \<or> major = 3 then
          and_then (ok_or (read_uint c p major) Malformed) (\<lambda>(len, p).
            if length c < uadd p (unat len) then Err Malformed
            else Ok (uadd p (unat len)))
        else if major = 4 \<or> major = 5 then
          and_then (ok_or (read_uint c p major) Malformed) (\<lambda>(count, p).
            if 16 < count then Err Malformed
            else skip_values c p (depth + 1) (unat count * (if major = 5 then 2 else 1)))
        else Err Malformed)"
| "skip_values c p depth 0 = Ok p"
| "skip_values c p depth (Suc n) =
     and_then (skip_value c p depth) (\<lambda>p. skip_values c p depth n)"
  by pat_completeness auto
termination
  by (relation "measures
        [\<lambda>x. case x of Inl (c, p, d) \<Rightarrow> 5 - d | Inr (c, p, d, n) \<Rightarrow> 5 - d,
         \<lambda>x. case x of Inl (c, p, d) \<Rightarrow> 0 | Inr (c, p, d, n) \<Rightarrow> Suc n]") auto

declare skip_value.simps [simp del]

text \<open>The members of one map inside a body: keys, each with a value or an inner map.\<close>

fun skip_members :: "bytes \<Rightarrow> nat \<Rightarrow> nat \<Rightarrow> (nat, error) res" where
  "skip_members c p 0 = Ok p"
| "skip_members c p (Suc n) =
     and_then (skip_value c p 0) (\<lambda>p.
     and_then
       (if p < length c \<and> drop_bit 5 (c ! p) = 5 then
          and_then (ok_or (read_uint c p 5) Malformed) (\<lambda>(inner, p).
            if 16 < inner then Err Malformed else skip_values c p 0 (unat inner * 2))
        else skip_value c p 0) (\<lambda>p. skip_members c p n))"

definition skip_body :: "bytes \<Rightarrow> nat \<Rightarrow> (nat, error) res" where
  "skip_body c p =
     (if p < length c \<and> drop_bit 5 (c ! p) = 5 then
        and_then (ok_or (read_uint c p 5) Malformed) (\<lambda>(count, p).
          if 16 < count then Err Malformed else skip_members c p (unat count))
      else skip_value c p 0)"

section \<open>CRC-32\<close>

definition crc_bit :: "u32 \<Rightarrow> u32" where
  "crc_bit c = drop_bit 1 c XOR (0xedb88320 AND (0 - (c AND 1)))"

definition crc_byte :: "u8 \<Rightarrow> u32 \<Rightarrow> u32" where
  "crc_byte b c = (crc_bit ^^ 8) (c XOR ucast b)"

definition crc32 :: "bytes \<Rightarrow> u32" where
  "crc32 bs = NOT (fold crc_byte bs 0xffffffff)"

section \<open>What is unread at a position\<close>

definition at :: "bytes \<Rightarrow> nat \<Rightarrow> bytes \<Rightarrow> bool" where
  "at c p s \<longleftrightarrow> p \<le> length c \<and> drop p c = s"

named_theorems at_simps "reading what an encoder wrote"

lemma at_start: "at c 0 c"
  by (simp add: at_def)

lemma at_append: "at c p (xs @ ys) \<Longrightarrow> at c (p + length xs) ys"
  by (cases "xs = []") (auto simp: at_def dest: drop_eq_appendD arg_cong [where f = length])

lemma at_Cons: "at c p (x # ys) \<Longrightarrow> at c (p + 1) ys"
  using at_append [of c p "[x]" ys] by simp

lemma at_nth: "at c p (x # ys) \<Longrightarrow> p < length c \<and> c ! p = x"
  by (metis Cons_nth_drop_Suc at_def drop_all leI list.distinct(1) list.inject)

lemma at_length: "at c p s \<Longrightarrow> length c = p + length s"
  by (auto simp: at_def)

lemma at_take: "at c p (xs @ ys) \<Longrightarrow> take (length xs) (drop p c) = xs"
  by (simp add: at_def)

section \<open>Reading back what \<open>uint_enc\<close> wrote\<close>

lemma head_fields:
  fixes m a :: u8
  assumes "unat m < 8" and "unat a < 32"
  shows "drop_bit 5 (push_bit 5 m OR a) = m" and "(push_bit 5 m OR a) AND 31 = a"
proof -
  have m: "take_bit 3 m = m" and a: "take_bit 5 a = a"
    using assms by (simp_all add: take_bit_unat_small)
  have bm: "bit m n \<Longrightarrow> n < 3" for n
    using arg_cong [OF m, of "\<lambda>w. bit w n"] by (simp add: bit_take_bit_iff)
  have ba: "bit a n \<Longrightarrow> n < 5" for n
    using arg_cong [OF a, of "\<lambda>w. bit w n"] by (simp add: bit_take_bit_iff)
  show "drop_bit 5 (push_bit 5 m OR a) = m"
    by (rule bit_word_eqI) (auto simp: bit_simps dest: bm ba)
  have "(push_bit 5 m OR a) AND mask 5 = a"
    by (rule bit_word_eqI) (auto simp: bit_simps dest: bm ba)
  then show "(push_bit 5 m OR a) AND 31 = a"
    by (simp add: mask_eq_exp_minus_1)
qed

lemma uint_enc_not_Nil [simp]: "uint_enc m v \<noteq> []"
  by (simp add: uint_enc_def)

lemma length_uint_enc: "length (uint_enc m v) \<le> 9"
  by (simp add: uint_enc_def)

lemma length_uint_enc_small: "v < 24 \<Longrightarrow> length (uint_enc m v) = 1"
  by (simp add: uint_enc_def)

text \<open>A head with an explicit argument of \<open>n\<close> bytes is read back when the value is canonical.\<close>

lemma read_uint_long:
  assumes at: "at c p ((push_bit 5 m OR a) # bs @ rest)"
    and m: "unat m < 8" and a: "head_len a = Some (length bs)" and v: "be_value bs = v"
    and canon: "\<not> (a = 24 \<and> v < 24 \<or> a = 25 \<and> v \<le> 255 \<or> a = 26 \<and> v \<le> 65535
                   \<or> a = 27 \<and> v \<le> 0xffffffff)"
  shows "read_uint c p m = Some (v, p + 1 + length bs)"
proof -
  have "a \<in> {24, 25, 26, 27}"
    using a by (simp add: head_len_def split: if_splits)
  then have small: "unat a < 32" and large: "\<not> a \<le> 23"
    by auto
  from at have p: "p < length c" and "c ! p = push_bit 5 m OR a"
    using at_nth by blast+
  then have first: "drop_bit 5 (c ! p) = m" "c ! p AND 31 = a"
    by (simp_all only: head_fields [OF m small])
  from at have at1: "at c (p + 1) (bs @ rest)"
    using at_Cons by blast
  then have len: "\<not> length c < p + 1 + length bs" and tk: "take (length bs) (drop (p + 1) c) = bs"
    using at_length at_take by fastforce+
  show ?thesis
    using p len tk large canon
    by (simp add: read_uint_def Let_def first a v)
qed

lemma read_uint_at:
  assumes at: "at c p (uint_enc m v @ rest)" and m: "unat m < 8"
  shows "read_uint c p m = Some (v, p + length (uint_enc m v))"
proof -
  have byte: "unat v < 256 \<Longrightarrow> be_value [ucast v] = v"
    using be_value_be_bytes [of 1 "ucast v :: u8", where 'b = 64]
    by (simp add: be_value_def ucast_ucast_small)
  have "be_bytes 2 v = [ucast (drop_bit 8 v), ucast v]"
    by (simp add: numeral_2_eq_2)
  then have two: "unat v < 65536 \<Longrightarrow> be_value [ucast (drop_bit 8 v), ucast v] = v"
    using be_value_be_bytes [of 2 v, where 'b = 64] by (simp add: take_bit_unat_small)
  have four: "unat v < 2 ^ 32 \<Longrightarrow> be_value (be_bytes 4 (ucast v :: u32)) = v"
    using be_value_be_bytes [of 4 "ucast v :: u32", where 'b = 64]
    by (simp add: ucast_ucast_small take_bit_unat_small)
  have eight: "be_value (be_bytes 8 v) = v"
    by (simp add: be_value_be_bytes_full)
  consider "v < 24" | "\<not> v < 24" "v \<le> 255" | "\<not> v \<le> 255" "v \<le> 65535"
    | "\<not> v \<le> 65535" "v \<le> 0xffffffff" | "\<not> v \<le> 0xffffffff"
    by blast
  then show ?thesis
  proof cases
    case 1
    then have vn: "unat v < 24"
      by (simp add: word_less_nat_alt)
    then have "unat (ucast v :: u8) = unat v"
      by (simp add: unsigned_ucast_eq take_bit_nat_eq_self)
    with vn have small: "unat (ucast v :: u8) < 32" and le: "(ucast v :: u8) \<le> 23"
      and rt: "ucast (ucast v :: u8) = v"
      by (simp_all add: word_le_nat_alt ucast_ucast_small)
    from at 1 have p: "p < length c" and "c ! p = push_bit 5 m OR ucast v"
      using at_nth by (fastforce simp: uint_enc_def)+
    then have first: "drop_bit 5 (c ! p) = m" "c ! p AND 31 = ucast v"
      by (simp_all only: head_fields [OF m small])
    with 1 p le rt show ?thesis
      by (simp add: read_uint_def uint_enc_def Let_def)
  next
    case 2
    then show ?thesis
      using read_uint_long [of c p m 24 "[ucast v]" rest v] at m byte
      by (auto simp: uint_enc_def head_len_def word_le_nat_alt)
  next
    case 3
    then have "\<not> v < 24" "\<not> v \<le> 255"
      by (auto simp: word_le_nat_alt word_less_nat_alt)
    with 3 show ?thesis
      using read_uint_long [of c p m 25 "[ucast (drop_bit 8 v), ucast v]" rest v] at m two
      by (auto simp: uint_enc_def head_len_def word_le_nat_alt)
  next
    case 4
    then have "\<not> v < 24" "\<not> v \<le> 255"
      by (auto simp: word_le_nat_alt word_less_nat_alt)
    with 4 show ?thesis
      using read_uint_long [of c p m 26 "be_bytes 4 (ucast v :: u32)" rest v] at m four
      by (auto simp: uint_enc_def head_len_def word_le_nat_alt)
  next
    case 5
    then have "\<not> v < 24" "\<not> v \<le> 255" "\<not> v \<le> 65535"
      by (auto simp: word_le_nat_alt word_less_nat_alt)
    with 5 show ?thesis
      using read_uint_long [of c p m 27 "be_bytes 8 v" rest v] at m eight
      by (auto simp: uint_enc_def head_len_def)
  qed
qed

text \<open>
  The reader accepts a head only in its shortest form: what it consumed is exactly what
  \<open>uint_enc\<close> writes for the value it returned.
\<close>

lemma head_split:
  fixes f :: u8
  shows "f = push_bit 5 (drop_bit 5 f) OR (f AND 31)"
    and "unat (drop_bit 5 f) < 8" and "unat (f AND 31) < 32"
proof -
  have "f = push_bit 5 (drop_bit 5 f) OR (f AND mask 5)"
    by (rule bit_word_eqI) (auto simp: bit_simps)
  then show "f = push_bit 5 (drop_bit 5 f) OR (f AND 31)"
    by (simp add: mask_eq_exp_minus_1)
  have "unat (drop_bit 5 f) = unat f div 32"
    unfolding unat_drop_bit_eq by (simp add: drop_bit_eq_div)
  then show "unat (drop_bit 5 f) < 8"
    using u8_less [of f] by simp
  have "f AND 31 \<le> 31"
    by (rule word_and_le1)
  then show "unat (f AND 31) < 32"
    by (simp add: word_le_nat_alt)
qed

lemma ucast_u8_le: "ucast (b :: u8) \<le> (255 :: u64)"
  using u8_less [of b] by (simp add: word_le_nat_alt unat_ucast_up)

lemma be_value_short:
  fixes bs :: bytes
  assumes "length bs \<le> n" and "n \<le> 7"
  shows "unat (be_value bs :: u64) < 2 ^ (8 * n)"
proof -
  have "be_value bs = take_bit (8 * length bs) (be_value bs :: u64)"
    using assms by (intro be_value_bound [symmetric]) simp
  then have "unat (be_value bs :: u64) = take_bit (8 * length bs) (unat (be_value bs :: u64))"
    by (metis unsigned_take_bit_eq)
  also have "\<dots> < 2 ^ (8 * length bs)"
    by simp
  also have "\<dots> \<le> 2 ^ (8 * n)"
    using assms by (intro power_increasing) auto
  finally show ?thesis .
qed

lemma uint_enc_of_long:
  fixes v :: u64
  assumes a: "head_len a = Some (length bs)" and v: "v = be_value bs"
    and canon: "\<not> (a = 24 \<and> v < 24 \<or> a = 25 \<and> v \<le> 255 \<or> a = 26 \<and> v \<le> 65535
                   \<or> a = 27 \<and> v \<le> 0xffffffff)"
  shows "uint_enc m v = (push_bit 5 m OR a) # bs"
proof -
  have rt: "length bs \<le> 8 \<Longrightarrow> be_bytes (length bs) v = bs"
    using be_bytes_be_value [of bs, where 'a = 64] by (simp add: v)
  consider "a = 24" "length bs = 1" | "a = 25" "length bs = 2" | "a = 26" "length bs = 4"
    | "a = 27" "length bs = 8"
    using a by (auto simp: head_len_def split: if_splits)
  then show ?thesis
  proof cases
    case 1
    then have "bs = [ucast v]"
      using rt by (simp add: numeral_eq_Suc)
    moreover have "v \<le> 255"
      using be_value_short [of bs 1] 1 v by (simp add: word_le_nat_alt)
    ultimately show ?thesis
      using canon 1 by (simp add: uint_enc_def)
  next
    case 2
    then have "bs = [ucast (drop_bit 8 v), ucast v]"
      using rt by (simp add: numeral_2_eq_2)
    moreover have "v \<le> 65535"
      using be_value_short [of bs 2] 2 v by (simp add: word_le_nat_alt)
    ultimately show ?thesis
      using canon 2 by (auto simp: uint_enc_def word_le_nat_alt word_less_nat_alt)
  next
    case 3
    then have v32: "unat v < 2 ^ 32"
      using be_value_short [of bs 4] v by simp
    then have "be_bytes 4 (ucast v :: u32) = be_bytes 4 v"
      by (intro be_bytes_ucast) simp
    then have "be_bytes 4 (ucast v :: u32) = bs"
      using rt 3 by simp
    moreover have "v \<le> 0xffffffff"
      using v32 by (simp add: word_le_nat_alt)
    ultimately show ?thesis
      using canon 3 by (auto simp: uint_enc_def word_le_nat_alt word_less_nat_alt)
  next
    case 4
    then show ?thesis
      using canon rt by (auto simp: uint_enc_def word_le_nat_alt word_less_nat_alt)
  qed
qed

lemma read_uint_Some:
  assumes "read_uint c p m = Some (v, q)"
  shows "p < q" and "q \<le> length c" and "take (q - p) (drop p c) = uint_enc m v"
proof -
  let ?f = "c ! p" and ?a = "c ! p AND 31"
  from assms have p: "p < length c" and m: "drop_bit 5 ?f = m"
    by (auto simp: read_uint_def Let_def split: if_splits)
  have f: "?f = push_bit 5 m OR ?a"
    using head_split (1) [of ?f] m by simp
  have hd: "drop p c = ?f # drop (p + 1) c"
    using p by (simp add: Cons_nth_drop_Suc)
  show "p < q" and "q \<le> length c" and "take (q - p) (drop p c) = uint_enc m v"
  proof (atomize (full), cases "?a \<le> 23")
    case True
    then have v: "v = ucast ?a" "q = p + 1"
      using assms p m by (auto simp: read_uint_def Let_def split: if_splits)
    have "unat ?a \<le> 23"
      using True by (simp add: word_le_nat_alt)
    then have "v < 24" "ucast v = ?a"
      using v by (simp_all add: word_less_nat_alt unat_ucast_up ucast_ucast_up)
    then have "uint_enc m v = [?f]"
      by (subst f) (simp add: uint_enc_def)
    with v p hd show "p < q \<and> q \<le> length c \<and> take (q - p) (drop p c) = uint_enc m v"
      by simp
  next
    case False
    then obtain n where n: "head_len ?a = Some n" and len: "p + 1 + n \<le> length c"
      and v: "v = be_value (take n (drop (p + 1) c))" and q: "q = p + 1 + n"
      and canon: "\<not> (?a = 24 \<and> v < 24 \<or> ?a = 25 \<and> v \<le> 255 \<or> ?a = 26 \<and> v \<le> 65535
                   \<or> ?a = 27 \<and> v \<le> 0xffffffff)"
      using assms p m by (auto simp: read_uint_def Let_def split: if_splits option.splits)
    have ln: "length (take n (drop (p + 1) c)) = n"
      using len by simp
    have a: "head_len ?a = Some (length (take n (drop (p + 1) c)))"
      using n ln by (simp only:)
    have "uint_enc m v = (push_bit 5 m OR ?a) # take n (drop (p + 1) c)"
      by (rule uint_enc_of_long [OF a v canon])
    then have "uint_enc m v = ?f # take n (drop (p + 1) c)"
      by (simp only: f [symmetric])
    with q hd len show "p < q \<and> q \<le> length c \<and> take (q - p) (drop p c) = uint_enc m v"
      by simp
  qed
qed

end
