(* ===== verification/Messages.thy ===== *)
theory Messages
  imports Cbor
begin

text \<open>
  The message types of \<^verbatim>\<open>host/protocol/src/lib.rs\<close>: the envelope, the snapshot with its
  metric groups, and the control bodies. Enumerations are datatypes; their \<open>as u64\<close> casts
  are the functions ending in \<open>_num\<close>. Fixed arrays are lists, whose lengths the predicates
  \<open>wf_envelope\<close>, \<open>wf_snapshot\<close> and \<open>wf_control\<close> state as Rust's types do.
\<close>

section \<open>Enumerations\<close>

datatype message_type =
    MtHello
  | MtHelloReply
  | MtPair
  | MtSnapshot
  | MtCommand
  | MtCommandReply
  | MtError

fun message_type_num :: "message_type \<Rightarrow> u64" where
  "message_type_num MtHello = 1"
| "message_type_num MtHelloReply = 2"
| "message_type_num MtPair = 3"
| "message_type_num MtSnapshot = 4"
| "message_type_num MtCommand = 5"
| "message_type_num MtCommandReply = 6"
| "message_type_num MtError = 7"

datatype availability =
    Available
  | Unsupported
  | Absent
  | TemporarilyUnavailable
  | AvError

fun availability_num :: "availability \<Rightarrow> u64" where
  "availability_num Available = 0"
| "availability_num Unsupported = 1"
| "availability_num Absent = 2"
| "availability_num TemporarilyUnavailable = 3"
| "availability_num AvError = 4"

datatype freshness = Fresh | Stale

fun freshness_num :: "freshness \<Rightarrow> u64" where
  "freshness_num Fresh = 0"
| "freshness_num Stale = 1"

datatype route_kind = RouteUnknown | RouteWifi | RouteEthernet | RouteOther | RouteNone

fun route_kind_num :: "route_kind \<Rightarrow> u64" where
  "route_kind_num RouteUnknown = 0"
| "route_kind_num RouteWifi = 1"
| "route_kind_num RouteEthernet = 2"
| "route_kind_num RouteOther = 3"
| "route_kind_num RouteNone = 4"

datatype association_context =
    CtxAvailable
  | CtxPermissionNotRequested
  | CtxDenied
  | CtxRestricted
  | CtxAuthorizedUnavailable
  | CtxUnsupported
  | CtxError

fun association_context_num :: "association_context \<Rightarrow> u64" where
  "association_context_num CtxAvailable = 0"
| "association_context_num CtxPermissionNotRequested = 1"
| "association_context_num CtxDenied = 2"
| "association_context_num CtxRestricted = 3"
| "association_context_num CtxAuthorizedUnavailable = 4"
| "association_context_num CtxUnsupported = 5"
| "association_context_num CtxError = 6"

datatype wifi_coverage = CovUnknown | CovObservable | CovOutsideSupported

fun wifi_coverage_num :: "wifi_coverage \<Rightarrow> u64" where
  "wifi_coverage_num CovUnknown = 0"
| "wifi_coverage_num CovObservable = 1"
| "wifi_coverage_num CovOutsideSupported = 2"

datatype command_operation = Unpair | CalibrationReset

fun command_operation_num :: "command_operation \<Rightarrow> u64" where
  "command_operation_num Unpair = 1"
| "command_operation_num CalibrationReset = 2"

datatype command_result = Applied | AlreadyApplied | Rejected

fun command_result_num :: "command_result \<Rightarrow> u64" where
  "command_result_num Applied = 0"
| "command_result_num AlreadyApplied = 1"
| "command_result_num Rejected = 2"

section \<open>Envelope and snapshot\<close>

record envelope =
  env_major :: u8
  env_minor :: u8
  env_kind :: message_type
  env_session :: bytes
  env_sequence :: u32
  env_utc_ms :: "u64 option"
  env_utc_uncertainty_ms :: "u32 option"
  env_local_offset_minutes :: "i16 option"

record cpu_snapshot =
  cpu_availability :: availability
  cpu_utilization_per_mille :: u16
  cpu_source_age_ms :: u32
  cpu_freshness :: freshness
  cpu_configuration_revision :: u32

record ram_snapshot =
  ram_availability :: availability
  ram_used_bytes :: u64
  ram_total_bytes :: u64
  ram_source_age_ms :: u32
  ram_freshness :: freshness

record storage_snapshot =
  sto_capacity_availability :: availability
  sto_total_bytes :: u64
  sto_available_bytes :: u64
  sto_capacity_age_ms :: u32
  sto_io_availability :: availability
  sto_read_bytes_per_s :: u64
  sto_write_bytes_per_s :: u64
  sto_io_age_ms :: u32

record battery_snapshot =
  bat_charge_availability :: availability
  bat_charge_per_mille :: u16
  bat_state :: u8
  bat_time_remaining_min :: u16
  bat_charge_age_ms :: u32
  bat_condition_availability :: availability
  bat_max_capacity_per_mille :: u16
  bat_condition :: u8
  bat_cycle_count :: u16
  bat_condition_age_ms :: u32

definition BATTERY_UNKNOWN_U16 :: u16 where
  "BATTERY_UNKNOWN_U16 = 0xffff"

definition AGENT_SLOTS :: nat where
  "AGENT_SLOTS = 5"

record agents_snapshot =
  agt_availability :: availability
  agt_source_age_ms :: u32
  agt_state :: "u8 list"

definition MAX_SSID_BYTES :: nat where
  "MAX_SSID_BYTES = 32"

definition MAX_LINKS :: nat where
  "MAX_LINKS = 8"

record network_snapshot =
  net_traffic_availability :: availability
  net_traffic_age_ms :: u32
  net_route_kind :: route_kind
  net_via_tunnel :: bool
  net_rx_bytes_per_s :: u64
  net_tx_bytes_per_s :: u64
  net_context_availability :: association_context
  net_context_age_ms :: u32
  net_coverage :: wifi_coverage
  net_channel :: u8
  net_station :: "bytes option"
  net_ssid :: bytes
  net_bssid :: "bytes option"
  net_links :: "route_kind list option"

text \<open>\<open>NetworkSnapshot::is_valid\<close>, branch by branch.\<close>

definition network_is_valid :: "network_snapshot \<Rightarrow> bool" where
  "network_is_valid n =
     (if net_via_tunnel n \<and> net_route_kind n \<in> {RouteUnknown, RouteNone} then False
      else if net_traffic_availability n \<noteq> Available
           \<and> (net_rx_bytes_per_s n \<noteq> 0 \<or> net_tx_bytes_per_s n \<noteq> 0) then False
      else if net_coverage n = CovUnknown \<and> net_channel n \<noteq> 0 then False
      else if MAX_SSID_BYTES < length (net_ssid n) then False
      else if (case net_links n of
                 None \<Rightarrow> False
               | Some links \<Rightarrow> MAX_LINKS < length links
                   \<or> list_ex (\<lambda>k. k \<notin> {RouteWifi, RouteEthernet, RouteOther}) links) then False
      else (net_ssid n = [] \<and> net_bssid n = None) \<or> net_context_availability n = CtxAvailable)"

record snapshot =
  snap_cpu :: cpu_snapshot
  snap_ram :: "ram_snapshot option"
  snap_storage :: "storage_snapshot option"
  snap_battery :: "battery_snapshot option"
  snap_agents :: "agents_snapshot option"
  snap_network :: "network_snapshot option"

text \<open>\<open>Snapshot::new\<close>: CPU alone.\<close>

definition snapshot_new :: "cpu_snapshot \<Rightarrow> snapshot" where
  "snapshot_new cpu = \<lparr>snap_cpu = cpu, snap_ram = None, snap_storage = None,
     snap_battery = None, snap_agents = None, snap_network = None\<rparr>"

section \<open>Control bodies\<close>

record hello_body =
  hel_supported_major :: u8
  hel_supported_minor :: u8
  hel_capabilities :: u32
  hel_configuration_revision :: u32
  hel_utc_ms :: "u64 option"
  hel_utc_uncertainty_ms :: "u32 option"

record pair_body =
  pair_pairing_identity :: bytes
  pair_intended_peer_identity :: bytes
  pair_matching_code :: u32

record command_body =
  cmd_command_identity :: u32
  cmd_operation :: command_operation

record command_reply_body =
  rep_command_identity :: u32
  rep_operation :: command_operation
  rep_result :: command_result

datatype control_body =
    BHello hello_body
  | BHelloReply hello_body
  | BPair pair_body
  | BCommand command_body
  | BCommandReply command_reply_body
  | BError bytes

datatype message =
    MsgSnapshot envelope snapshot
  | MsgControl envelope control_body

section \<open>Array lengths\<close>

definition wf_envelope :: "envelope \<Rightarrow> bool" where
  "wf_envelope e \<longleftrightarrow> length (env_session e) = 16"

definition wf_mac :: "bytes option \<Rightarrow> bool" where
  "wf_mac m \<longleftrightarrow> (case m of None \<Rightarrow> True | Some b \<Rightarrow> length b = 6)"

definition wf_snapshot :: "snapshot \<Rightarrow> bool" where
  "wf_snapshot s \<longleftrightarrow>
     (case snap_agents s of None \<Rightarrow> True | Some a \<Rightarrow> length (agt_state a) = AGENT_SLOTS) \<and>
     (case snap_network s of None \<Rightarrow> True | Some n \<Rightarrow> wf_mac (net_station n) \<and> wf_mac (net_bssid n))"

definition wf_control :: "control_body \<Rightarrow> bool" where
  "wf_control b \<longleftrightarrow>
     (case b of BPair p \<Rightarrow> length (pair_pairing_identity p) = 16
                  \<and> length (pair_intended_peer_identity p) = 16
      | _ \<Rightarrow> True)"

end
