(* ===== verification/Encode.thy ===== *)
theory Encode
  imports Messages
begin

text \<open>
  The encoders of \<^verbatim>\<open>host/protocol/src/lib.rs\<close>: \<open>encode_groups\<close> (with its callers
  \<open>encode_snapshot\<close> and \<open>encode_cpu\<close>), \<open>encode_frame\<close> and \<open>encode_control\<close>. A push to the
  Rust buffer is an append here, in the order of the code.
\<close>

section \<open>Pieces\<close>

definition flag :: "bool \<Rightarrow> u8" where
  "flag b = (if b then 1 else 0)"

definition put_pairs :: "(u64 \<times> u64) list \<Rightarrow> bytes" where
  "put_pairs kvs = concat (map (\<lambda>(k, v). uint_enc 0 k @ uint_enc 0 v) kvs)"

definition put_opt :: "('a \<Rightarrow> bytes) \<Rightarrow> 'a option \<Rightarrow> bytes" where
  "put_opt f v = (case v of None \<Rightarrow> [] | Some x \<Rightarrow> f x)"

definition put_bytes :: "u64 \<Rightarrow> bytes \<Rightarrow> bytes" where
  "put_bytes k b = uint_enc 0 k @ uint_enc 2 (of_nat (length b)) @ b"

text \<open>The first byte of the envelope map and its keys 0 to 5.\<close>

definition put_envelope_head :: "envelope \<Rightarrow> bytes" where
  "put_envelope_head e =
     [0xa6 + flag (env_utc_ms e \<noteq> None) + flag (env_utc_uncertainty_ms e \<noteq> None)
           + flag (env_local_offset_minutes e \<noteq> None)] @
     put_pairs [(0, ucast (env_major e)), (1, ucast (env_minor e)),
                (2, message_type_num (env_kind e))] @
     uint_enc 0 3 @ uint_enc 2 16 @ env_session e @
     put_pairs [(4, ucast (env_sequence e))] @ uint_enc 0 5"

text \<open>Keys 6 and 7, then key 8, whose range check ends the encoder with an error.\<close>

definition put_envelope_tail :: "envelope \<Rightarrow> bytes" where
  "put_envelope_tail e =
     put_opt (\<lambda>v. put_pairs [(6, v)]) (env_utc_ms e) @
     put_opt (\<lambda>v. put_pairs [(7, ucast v)]) (env_utc_uncertainty_ms e)"

definition put_offset :: "i16 option \<Rightarrow> (bytes, error) res" where
  "put_offset off =
     (case off of
        None \<Rightarrow> Ok []
      | Some offset \<Rightarrow>
          if \<not> (- 1440 \<le> sint offset \<and> sint offset \<le> 1440) then Err Malformed
          else Ok (put_pairs [(8, scast (offset + 1440))]))"

definition close_frame :: "bytes \<Rightarrow> (bytes, error) res" where
  "close_frame c =
     (if MAX_FRAME_BYTES < length c + 6 then Err TooLarge
      else Ok (be_bytes 2 (of_nat (length c + 4) :: u16) @ c @ be_bytes 4 (crc32 c)))"

section \<open>Metric groups\<close>

text \<open>Each group is written as its key in the snapshot body and then its map.\<close>

definition put_cpu :: "cpu_snapshot \<Rightarrow> bytes" where
  "put_cpu cpu = put_pairs
     [(0, availability_num (cpu_availability cpu)),
      (1, ucast (cpu_utilization_per_mille cpu)),
      (2, ucast (cpu_source_age_ms cpu)),
      (3, freshness_num (cpu_freshness cpu)),
      (4, ucast (cpu_configuration_revision cpu))]"

definition ram_map :: "ram_snapshot \<Rightarrow> bytes" where
  "ram_map ram = [0xa5] @ put_pairs
     [(0, availability_num (ram_availability ram)),
      (1, ram_used_bytes ram),
      (2, ram_total_bytes ram),
      (3, ucast (ram_source_age_ms ram)),
      (4, freshness_num (ram_freshness ram))]"

definition storage_map :: "storage_snapshot \<Rightarrow> bytes" where
  "storage_map storage = [0xa8] @ put_pairs
     [(0, availability_num (sto_capacity_availability storage)),
      (1, sto_total_bytes storage),
      (2, sto_available_bytes storage),
      (3, ucast (sto_capacity_age_ms storage)),
      (4, availability_num (sto_io_availability storage)),
      (5, sto_read_bytes_per_s storage),
      (6, sto_write_bytes_per_s storage),
      (7, ucast (sto_io_age_ms storage))]"

definition battery_map :: "battery_snapshot \<Rightarrow> bytes" where
  "battery_map battery = [0xaa] @ put_pairs
     [(0, availability_num (bat_charge_availability battery)),
      (1, ucast (bat_charge_per_mille battery)),
      (2, ucast (bat_state battery)),
      (3, ucast (bat_time_remaining_min battery)),
      (4, ucast (bat_charge_age_ms battery)),
      (5, availability_num (bat_condition_availability battery)),
      (6, ucast (bat_max_capacity_per_mille battery)),
      (7, ucast (bat_condition battery)),
      (8, ucast (bat_cycle_count battery)),
      (9, ucast (bat_condition_age_ms battery))]"

definition agents_map :: "agents_snapshot \<Rightarrow> bytes" where
  "agents_map agents = [0xa0 + 2 + of_nat AGENT_SLOTS] @
     put_pairs [(0, availability_num (agt_availability agents)),
                (1, ucast (agt_source_age_ms agents))] @
     put_pairs (map (\<lambda>(slot, state). (2 + of_nat slot, ucast state))
       (zip [0..<length (agt_state agents)] (agt_state agents)))"

definition network_map :: "network_snapshot \<Rightarrow> bytes" where
  "network_map network = [if net_links network \<noteq> None then 0xae else 0xad] @
     put_pairs
       [(0, availability_num (net_traffic_availability network)),
        (1, ucast (net_traffic_age_ms network)),
        (2, route_kind_num (net_route_kind network)),
        (3, if net_via_tunnel network then 1 else 0),
        (4, net_rx_bytes_per_s network),
        (5, net_tx_bytes_per_s network),
        (6, association_context_num (net_context_availability network)),
        (7, ucast (net_context_age_ms network)),
        (8, wifi_coverage_num (net_coverage network)),
        (9, ucast (net_channel network))] @
     put_bytes 10 (case net_station network of None \<Rightarrow> [] | Some m \<Rightarrow> m) @
     put_bytes 11 (net_ssid network) @
     put_bytes 12 (case net_bssid network of None \<Rightarrow> [] | Some m \<Rightarrow> m) @
     put_opt (\<lambda>links. put_bytes 13 (map (\<lambda>k. ucast (route_kind_num k)) links)) (net_links network)"

section \<open>Snapshots\<close>

text \<open>The values \<open>encode_groups\<close> refuses before it writes anything.\<close>

definition snapshot_refused :: "snapshot \<Rightarrow> bool" where
  "snapshot_refused s \<longleftrightarrow>
     (case snap_ram s of None \<Rightarrow> False | Some r \<Rightarrow> ram_total_bytes r < ram_used_bytes r) \<or>
     (case snap_storage s of None \<Rightarrow> False | Some t \<Rightarrow> sto_total_bytes t < sto_available_bytes t) \<or>
     (case snap_battery s of None \<Rightarrow> False | Some b \<Rightarrow>
        1000 < bat_charge_per_mille b \<or> 1000 < bat_max_capacity_per_mille b
        \<or> 4 < bat_state b \<or> 3 < bat_condition b) \<or>
     (case snap_agents s of None \<Rightarrow> False | Some a \<Rightarrow> list_ex (\<lambda>t. 3 < t) (agt_state a)) \<or>
     (case snap_network s of None \<Rightarrow> False | Some n \<Rightarrow> \<not> network_is_valid n)"

definition put_snapshot :: "snapshot \<Rightarrow> bytes" where
  "put_snapshot s =
     [0xa5 + flag (snap_ram s \<noteq> None) + flag (snap_storage s \<noteq> None)
           + flag (snap_battery s \<noteq> None) + flag (snap_agents s \<noteq> None)
           + flag (snap_network s \<noteq> None)] @
     put_cpu (snap_cpu s) @
     put_opt (\<lambda>g. uint_enc 0 5 @ ram_map g) (snap_ram s) @
     put_opt (\<lambda>g. uint_enc 0 6 @ storage_map g) (snap_storage s) @
     put_opt (\<lambda>g. uint_enc 0 7 @ battery_map g) (snap_battery s) @
     put_opt (\<lambda>g. uint_enc 0 8 @ agents_map g) (snap_agents s) @
     put_opt (\<lambda>g. uint_enc 0 9 @ network_map g) (snap_network s)"

definition encode_groups :: "envelope \<Rightarrow> snapshot \<Rightarrow> (bytes, error) res" where
  "encode_groups e s =
     (if snapshot_refused s then Err Malformed
      else and_then (put_offset (env_local_offset_minutes e)) (\<lambda>off.
        close_frame (put_envelope_head e @ put_snapshot s @ put_envelope_tail e @ off)))"

definition encode_snapshot ::
    "envelope \<Rightarrow> cpu_snapshot \<Rightarrow> ram_snapshot option \<Rightarrow> (bytes, error) res" where
  "encode_snapshot e cpu ram = encode_groups e ((snapshot_new cpu)\<lparr>snap_ram := ram\<rparr>)"

definition encode_cpu :: "envelope \<Rightarrow> cpu_snapshot \<Rightarrow> (bytes, error) res" where
  "encode_cpu e cpu = encode_snapshot e cpu None"

section \<open>Control messages\<close>

definition encode_frame :: "envelope \<Rightarrow> bytes \<Rightarrow> (bytes, error) res" where
  "encode_frame e body =
     (if 512 < length body then Err TooLarge
      else and_then (put_offset (env_local_offset_minutes e)) (\<lambda>off.
        close_frame (put_envelope_head e @ body @ put_envelope_tail e @ off)))"

definition put_hello :: "hello_body \<Rightarrow> bytes" where
  "put_hello v =
     [0xa4 + flag (hel_utc_ms v \<noteq> None) + flag (hel_utc_uncertainty_ms v \<noteq> None)] @
     put_pairs [(0, ucast (hel_supported_major v)), (1, ucast (hel_supported_minor v)),
                (2, ucast (hel_capabilities v)), (3, ucast (hel_configuration_revision v))] @
     put_opt (\<lambda>item. put_pairs [(4, item)]) (hel_utc_ms v) @
     put_opt (\<lambda>item. put_pairs [(5, ucast item)]) (hel_utc_uncertainty_ms v)"

definition put_pair :: "pair_body \<Rightarrow> bytes" where
  "put_pair v = [0xa3] @
     uint_enc 0 0 @ uint_enc 2 16 @ pair_pairing_identity v @
     uint_enc 0 1 @ uint_enc 2 16 @ pair_intended_peer_identity v @
     put_pairs [(2, ucast (pair_matching_code v))]"

fun put_control :: "envelope \<Rightarrow> control_body \<Rightarrow> (bytes, error) res" where
  "put_control e (BHello v) =
     (if env_kind e \<noteq> MtHello then Err Malformed else Ok (put_hello v))"
| "put_control e (BHelloReply v) =
     (if env_kind e \<noteq> MtHelloReply then Err Malformed else Ok (put_hello v))"
| "put_control e (BPair v) =
     (if env_kind e \<noteq> MtPair
         \<or> \<not> (100000 \<le> pair_matching_code v \<and> pair_matching_code v \<le> 999999)
      then Err Malformed else Ok (put_pair v))"
| "put_control e (BCommand v) =
     (if env_kind e \<noteq> MtCommand then Err Malformed
      else Ok ([0xa2] @ put_pairs [(0, ucast (cmd_command_identity v)),
                                   (1, command_operation_num (cmd_operation v))]))"
| "put_control e (BError v) =
     (if env_kind e \<noteq> MtError \<or> 512 - 3 < length v then Err Malformed
      else Ok (uint_enc 2 (of_nat (length v)) @ v))"
| "put_control e (BCommandReply v) =
     (if env_kind e \<noteq> MtCommandReply then Err Malformed
      else Ok ([0xa3] @ put_pairs [(0, ucast (rep_command_identity v)),
                                   (1, command_operation_num (rep_operation v)),
                                   (2, command_result_num (rep_result v))]))"

definition encode_control :: "envelope \<Rightarrow> control_body \<Rightarrow> (bytes, error) res" where
  "encode_control e body = and_then (put_control e body) (encode_frame e)"

end
