(* ===== verification/Decode.thy ===== *)
theory Decode
  imports Messages
begin

text \<open>
  The decoders of \<^verbatim>\<open>host/protocol/src/lib.rs\<close>: \<open>parse_envelope\<close>, the snapshot body with its
  five metric groups, the control bodies, and the entry points \<open>decode\<close>, \<open>decode_snapshot\<close>,
  \<open>decode_cpu\<close> and \<open>decode_control\<close>. A \<open>for\<close> loop over a map's entries is a recursion on
  the number of entries left, whose other arguments are the loop's mutable variables.
\<close>

section \<open>Conversions\<close>

definition rd :: "bytes \<Rightarrow> nat \<Rightarrow> (u64 \<times> nat, error) res" where
  "rd c p = ok_or (read_uint c p 0) Malformed"

definition try_u8 :: "u64 \<Rightarrow> (u8, error) res" where
  "try_u8 v = (if v \<le> 255 then Ok (ucast v) else Err Malformed)"

definition try_u32 :: "u64 \<Rightarrow> (u32, error) res" where
  "try_u32 v = (if v \<le> 0xffffffff then Ok (ucast v) else Err Malformed)"

definition message_type :: "u64 \<Rightarrow> (message_type, error) res" where
  "message_type value =
     (if value = 1 then Ok MtHello else if value = 2 then Ok MtHelloReply
      else if value = 3 then Ok MtPair else if value = 4 then Ok MtSnapshot
      else if value = 5 then Ok MtCommand else if value = 6 then Ok MtCommandReply
      else if value = 7 then Ok MtError else Err Malformed)"

definition availability_from :: "u64 \<Rightarrow> (availability, error) res" where
  "availability_from value =
     (if value = 0 then Ok Available else if value = 1 then Ok Unsupported
      else if value = 2 then Ok Absent else if value = 3 then Ok TemporarilyUnavailable
      else if value = 4 then Ok AvError else Err Malformed)"

definition freshness_from :: "u64 \<Rightarrow> (freshness, error) res" where
  "freshness_from value =
     (if value = 0 then Ok Fresh else if value = 1 then Ok Stale else Err Malformed)"

definition op :: "u64 \<Rightarrow> (command_operation, error) res" where
  "op value = (if value = 1 then Ok Unpair else if value = 2 then Ok CalibrationReset
               else Err Malformed)"

definition result_from :: "u64 \<Rightarrow> (command_result, error) res" where
  "result_from value =
     (if value = 0 then Ok Applied else if value = 1 then Ok AlreadyApplied
      else if value = 2 then Ok Rejected else Err Malformed)"

section \<open>The envelope\<close>

record penv =
  pe_major :: "u8 option"
  pe_minor :: "u8 option"
  pe_kind :: "u8 option"
  pe_session :: "bytes option"
  pe_sequence :: "u32 option"
  pe_body :: "bytes option"
  pe_utc_ms :: "u64 option"
  pe_uncertainty :: "u32 option"
  pe_offset :: "i16 option"

definition penv0 :: penv where
  "penv0 = \<lparr>pe_major = None, pe_minor = None, pe_kind = None, pe_session = None,
     pe_sequence = None, pe_body = None, pe_utc_ms = None, pe_uncertainty = None,
     pe_offset = None\<rparr>"

text \<open>The \<open>match key\<close> of the loop in \<open>parse_envelope\<close>.\<close>

definition envelope_entry :: "bytes \<Rightarrow> u64 \<Rightarrow> nat \<Rightarrow> penv \<Rightarrow> (penv \<times> nat, error) res" where
  "envelope_entry c key p a =
     (if key = 0 then
        and_then (rd c p) (\<lambda>(v, p). and_then (try_u8 v) (\<lambda>value.
          if value \<noteq> 1 then Err UnsupportedMajor else Ok (a\<lparr>pe_major := Some value\<rparr>, p)))
      else if key = 1 then
        and_then (rd c p) (\<lambda>(v, p). and_then (try_u8 v) (\<lambda>value.
          Ok (a\<lparr>pe_minor := Some value\<rparr>, p)))
      else if key = 2 then
        and_then (rd c p) (\<lambda>(v, p). and_then (try_u8 v) (\<lambda>value.
          Ok (a\<lparr>pe_kind := Some value\<rparr>, p)))
      else if key = 3 then
        and_then (bytes_dec c p 16) (\<lambda>(b, p). Ok (a\<lparr>pe_session := Some b\<rparr>, p))
      else if key = 4 then
        and_then (rd c p) (\<lambda>(v, p). and_then (try_u32 v) (\<lambda>value.
          Ok (a\<lparr>pe_sequence := Some value\<rparr>, p)))
      else if key = 5 then
        and_then (ok_or (pe_kind a) Malformed) (\<lambda>k.
        and_then (message_type (ucast k)) (\<lambda>kind.
        let start = p in
        and_then (skip_body c p) (\<lambda>p.
          if kind \<noteq> MtSnapshot \<and> 512 < usub p start then Err TooLarge
          else and_then (sub_slice c start p) (\<lambda>body. Ok (a\<lparr>pe_body := Some body\<rparr>, p)))))
      else if key = 6 then
        and_then (rd c p) (\<lambda>(v, p). Ok (a\<lparr>pe_utc_ms := Some v\<rparr>, p))
      else if key = 7 then
        and_then (rd c p) (\<lambda>(v, p). and_then (try_u32 v) (\<lambda>value.
          Ok (a\<lparr>pe_uncertainty := Some value\<rparr>, p)))
      else if key = 8 then
        and_then (rd c p) (\<lambda>(wire, p).
          if 2880 < wire then Err Malformed
          else Ok (a\<lparr>pe_offset := Some (ucast wire - 1440)\<rparr>, p))
      else and_then (skip_value c p 0) (\<lambda>p. Ok (a, p)))"

fun envelope_loop ::
    "bytes \<Rightarrow> nat \<Rightarrow> nat \<Rightarrow> u64 option \<Rightarrow> penv \<Rightarrow> (penv \<times> nat, error) res" where
  "envelope_loop c 0 p previous a = Ok (a, p)"
| "envelope_loop c (Suc n) p previous a =
     and_then (rd c p) (\<lambda>(key, p).
       if (case previous of None \<Rightarrow> False | Some old \<Rightarrow> key \<le> old) then Err Malformed
       else and_then (envelope_entry c key p a) (\<lambda>(a, p).
         envelope_loop c n p (Some key) a))"

text \<open>
  \<open>parse_envelope\<close> in its two halves: the checks on the frame, which yield the CBOR bytes
  between the length and the CRC, and the envelope map.
\<close>

definition frame_content :: "bytes \<Rightarrow> (bytes, error) res" where
  "frame_content frame =
     (if length frame < 7 then Err Truncated
      else let len = unat (be_value (take 2 frame) :: u16) in
        if MAX_FRAME_BYTES - 2 < len then Err TooLarge
        else if len + 2 \<noteq> length frame then Err Truncated
        else let c = drop 2 (take (length frame - 4) frame) in
          if crc32 c \<noteq> be_value (drop (length frame - 4) frame) then Err BadCrc
          else Ok c)"

definition envelope_from :: "penv \<Rightarrow> (envelope \<times> bytes, error) res" where
  "envelope_from a =
     and_then (ok_or (pe_minor a) Malformed) (\<lambda>minor.
     and_then (ok_or (pe_kind a) Malformed) (\<lambda>k.
     and_then (message_type (ucast k)) (\<lambda>kind.
     and_then (ok_or (pe_session a) Malformed) (\<lambda>session.
     and_then (ok_or (pe_sequence a) Malformed) (\<lambda>sequence.
     and_then (ok_or (pe_body a) Malformed) (\<lambda>body.
       Ok (\<lparr>env_major = 1, env_minor = minor, env_kind = kind, env_session = session,
            env_sequence = sequence, env_utc_ms = pe_utc_ms a,
            env_utc_uncertainty_ms = pe_uncertainty a,
            env_local_offset_minutes = pe_offset a\<rparr>, body)))))))"

definition parse_content :: "bytes \<Rightarrow> (envelope \<times> bytes, error) res" where
  "parse_content c =
     and_then (ok_or (read_uint c 0 5) Malformed) (\<lambda>(count, p).
     if 16 < count then Err Malformed
     else and_then (envelope_loop c (unat count) p None penv0) (\<lambda>(a, p).
       if p \<noteq> length c \<or> pe_major a = None then Err Malformed else envelope_from a))"

definition parse_envelope :: "bytes \<Rightarrow> (envelope \<times> bytes, error) res" where
  "parse_envelope frame = and_then (frame_content frame) parse_content"

section \<open>Metric groups\<close>

text \<open>
  The entry loop that the RAM, Storage, Battery and Agents decoders share word for word:
  \<open>nf\<close> known keys, larger keys skipped, a repeated key an error.
\<close>

fun group_loop ::
    "bytes \<Rightarrow> nat \<Rightarrow> nat \<Rightarrow> nat \<Rightarrow> u64 option list \<Rightarrow> (u64 option list \<times> nat, error) res" where
  "group_loop c nf 0 p value = Ok (value, p)"
| "group_loop c nf (Suc n) p value =
     and_then (rd c p) (\<lambda>(k, p).
       let key = unat k in
       if nf \<le> key then and_then (skip_value c p 0) (\<lambda>p. group_loop c nf n p value)
       else if value ! key \<noteq> None then Err Malformed
       else and_then (rd c p) (\<lambda>(v, p). group_loop c nf n p (value[key := Some v])))"

text \<open>The map head, the loop, and the values of all \<open>nf\<close> keys.\<close>

definition group_fields :: "bytes \<Rightarrow> nat \<Rightarrow> nat \<Rightarrow> (u64 option list \<times> nat, error) res" where
  "group_fields c nf p =
     and_then (ok_or (read_uint c p 5) Malformed) (\<lambda>(count, p).
       if 16 < count then Err Malformed
       else group_loop c nf (unat count) p (replicate nf None))"

definition all_fields :: "u64 option list \<Rightarrow> (u64 list, error) res" where
  "all_fields value = collect (map (\<lambda>v. ok_or v Malformed) value)"

definition decode_ram_group :: "bytes \<Rightarrow> nat \<Rightarrow> (ram_snapshot \<times> nat, error) res" where
  "decode_ram_group c p =
     and_then (group_fields c 5 p) (\<lambda>(value, p).
     and_then (ok_or (value ! 1) Malformed) (\<lambda>used.
     and_then (ok_or (value ! 2) Malformed) (\<lambda>total.
     and_then (if total < used then Ok True
               else and_then (ok_or (value ! 3) Malformed) (\<lambda>age. Ok (0xffffffff < age)))
       (\<lambda>bad.
     if bad then Err Malformed else
     and_then (ok_or (value ! 0) Malformed) (\<lambda>v0.
     and_then (availability_from v0) (\<lambda>av.
     and_then (ok_or (value ! 3) Malformed) (\<lambda>age.
     and_then (ok_or (value ! 4) Malformed) (\<lambda>v4.
     and_then (freshness_from v4) (\<lambda>fr.
       Ok (\<lparr>ram_availability = av, ram_used_bytes = used, ram_total_bytes = total,
            ram_source_age_ms = ucast age, ram_freshness = fr\<rparr>, p))))))))))"

definition decode_storage_group :: "bytes \<Rightarrow> nat \<Rightarrow> (storage_snapshot \<times> nat, error) res" where
  "decode_storage_group c p =
     and_then (group_fields c 8 p) (\<lambda>(value, p).
     and_then (all_fields value) (\<lambda>all.
     if all ! 1 < all ! 2 \<or> 0xffffffff < all ! 3 \<or> 0xffffffff < all ! 7 then Err Malformed
     else
     and_then (availability_from (all ! 0)) (\<lambda>capacity.
     and_then (availability_from (all ! 4)) (\<lambda>io.
       Ok (\<lparr>sto_capacity_availability = capacity, sto_total_bytes = all ! 1,
            sto_available_bytes = all ! 2, sto_capacity_age_ms = ucast (all ! 3),
            sto_io_availability = io, sto_read_bytes_per_s = all ! 5,
            sto_write_bytes_per_s = all ! 6, sto_io_age_ms = ucast (all ! 7)\<rparr>, p)))))"

definition decode_battery_group :: "bytes \<Rightarrow> nat \<Rightarrow> (battery_snapshot \<times> nat, error) res" where
  "decode_battery_group c p =
     and_then (group_fields c 10 p) (\<lambda>(value, p).
     and_then (all_fields value) (\<lambda>all.
     if 1000 < all ! 1 \<or> 4 < all ! 2 \<or> 65535 < all ! 3 \<or> 0xffffffff < all ! 4
        \<or> 1000 < all ! 6 \<or> 3 < all ! 7 \<or> 65535 < all ! 8 \<or> 0xffffffff < all ! 9
     then Err Malformed
     else
     and_then (availability_from (all ! 0)) (\<lambda>charge.
     and_then (availability_from (all ! 5)) (\<lambda>condition.
       Ok (\<lparr>bat_charge_availability = charge, bat_charge_per_mille = ucast (all ! 1),
            bat_state = ucast (all ! 2), bat_time_remaining_min = ucast (all ! 3),
            bat_charge_age_ms = ucast (all ! 4), bat_condition_availability = condition,
            bat_max_capacity_per_mille = ucast (all ! 6), bat_condition = ucast (all ! 7),
            bat_cycle_count = ucast (all ! 8), bat_condition_age_ms = ucast (all ! 9)\<rparr>, p)))))"

definition decode_agents_group :: "bytes \<Rightarrow> nat \<Rightarrow> (agents_snapshot \<times> nat, error) res" where
  "decode_agents_group c p =
     and_then (group_fields c (2 + AGENT_SLOTS) p) (\<lambda>(value, p).
     and_then (all_fields value) (\<lambda>all.
     if 0xffffffff < all ! 1 \<or> list_ex (\<lambda>s. 3 < s) (drop 2 all) then Err Malformed
     else
     and_then (availability_from (all ! 0)) (\<lambda>av.
       Ok (\<lparr>agt_availability = av, agt_source_age_ms = ucast (all ! 1),
            agt_state = map (\<lambda>slot. ucast (all ! (2 + slot))) [0..<AGENT_SLOTS]\<rparr>, p))))"

text \<open>The Network group's loop: integer keys 0 to 9, byte strings 10 to 12, links 13.\<close>

fun network_loop ::
    "bytes \<Rightarrow> nat \<Rightarrow> nat \<Rightarrow> u64 option list \<Rightarrow> bytes option list \<Rightarrow> bytes option
     \<Rightarrow> (u64 option list \<times> bytes option list \<times> bytes option \<times> nat, error) res" where
  "network_loop c 0 p value strs links = Ok (value, strs, links, p)"
| "network_loop c (Suc n) p value strs links =
     and_then (rd c p) (\<lambda>(k, p).
       let key = unat k in
       if 13 < key then
         and_then (skip_value c p 0) (\<lambda>p. network_loop c n p value strs links)
       else if key = 13 then
         if links \<noteq> None then Err Malformed
         else and_then (ok_or (read_byte_string c p) Malformed) (\<lambda>(b, p).
           network_loop c n p value strs (Some b))
       else if 10 \<le> key then
         if strs ! (key - 10) \<noteq> None then Err Malformed
         else and_then (ok_or (read_byte_string c p) Malformed) (\<lambda>(b, p).
           network_loop c n p value (strs[key - 10 := Some b]) links)
       else if value ! key \<noteq> None then Err Malformed
       else and_then (rd c p) (\<lambda>(v, p). network_loop c n p (value[key := Some v]) strs links))"

definition mac :: "bytes \<Rightarrow> (bytes option, error) res" where
  "mac b = (if length b = 0 then Ok None else if length b = 6 then Ok (Some b)
            else Err Malformed)"

definition link_kind :: "u8 \<Rightarrow> (route_kind, error) res" where
  "link_kind k = (if k = 1 then Ok RouteWifi else if k = 2 then Ok RouteEthernet
                  else if k = 3 then Ok RouteOther else Err Malformed)"

definition route_kind_from :: "u64 \<Rightarrow> route_kind" where
  "route_kind_from v = (if v = 0 then RouteUnknown else if v = 1 then RouteWifi
     else if v = 2 then RouteEthernet else if v = 3 then RouteOther else RouteNone)"

definition association_context_from :: "u64 \<Rightarrow> association_context" where
  "association_context_from v =
     (if v = 0 then CtxAvailable else if v = 1 then CtxPermissionNotRequested
      else if v = 2 then CtxDenied else if v = 3 then CtxRestricted
      else if v = 4 then CtxAuthorizedUnavailable else if v = 5 then CtxUnsupported
      else CtxError)"

definition wifi_coverage_from :: "u64 \<Rightarrow> wifi_coverage" where
  "wifi_coverage_from v = (if v = 0 then CovUnknown else if v = 1 then CovObservable
     else CovOutsideSupported)"

definition decode_links :: "bytes option \<Rightarrow> (route_kind list option, error) res" where
  "decode_links links =
     (case links of
        None \<Rightarrow> Ok None
      | Some kinds \<Rightarrow> and_then (collect (map link_kind kinds)) (\<lambda>ks. Ok (Some ks)))"

definition decode_network_group :: "bytes \<Rightarrow> nat \<Rightarrow> (network_snapshot \<times> nat, error) res" where
  "decode_network_group c p =
     and_then (ok_or (read_uint c p 5) Malformed) (\<lambda>(count, p).
     if 16 < count then Err Malformed
     else
     and_then (network_loop c (unat count) p (replicate 10 None) (replicate 3 None) None)
       (\<lambda>(value, strs, links, p).
     and_then (all_fields value) (\<lambda>all.
     and_then (ok_or (strs ! 0) Malformed) (\<lambda>station.
     and_then (ok_or (strs ! 1) Malformed) (\<lambda>ssid.
     and_then (ok_or (strs ! 2) Malformed) (\<lambda>bssid.
     if 0xffffffff < all ! 1 \<or> 4 < all ! 2 \<or> 1 < all ! 3 \<or> 6 < all ! 6
        \<or> 0xffffffff < all ! 7 \<or> 2 < all ! 8 \<or> 255 < all ! 9 then Err Malformed
     else
     and_then (availability_from (all ! 0)) (\<lambda>traffic.
     and_then (mac station) (\<lambda>station.
     and_then (mac bssid) (\<lambda>bssid.
     and_then (decode_links links) (\<lambda>links.
       let snapshot =
         \<lparr>net_traffic_availability = traffic, net_traffic_age_ms = ucast (all ! 1),
          net_route_kind = route_kind_from (all ! 2), net_via_tunnel = (all ! 3 = 1),
          net_rx_bytes_per_s = all ! 4, net_tx_bytes_per_s = all ! 5,
          net_context_availability = association_context_from (all ! 6),
          net_context_age_ms = ucast (all ! 7),
          net_coverage = wifi_coverage_from (all ! 8), net_channel = ucast (all ! 9),
          net_station = station, net_ssid = ssid, net_bssid = bssid, net_links = links\<rparr>
       in if \<not> network_is_valid snapshot then Err Malformed
          else Ok (snapshot, p)))))))))))"

section \<open>The snapshot body\<close>

record psnap =
  ps_cpu :: "u64 option list"
  ps_ram :: "ram_snapshot option"
  ps_storage :: "storage_snapshot option"
  ps_battery :: "battery_snapshot option"
  ps_agents :: "agents_snapshot option"
  ps_network :: "network_snapshot option"

definition psnap0 :: psnap where
  "psnap0 = \<lparr>ps_cpu = replicate 5 None, ps_ram = None, ps_storage = None,
     ps_battery = None, ps_agents = None, ps_network = None\<rparr>"

definition body_entry :: "bytes \<Rightarrow> nat \<Rightarrow> nat \<Rightarrow> psnap \<Rightarrow> (psnap \<times> nat, error) res" where
  "body_entry c q p a =
     (if q = 5 then
        if ps_ram a \<noteq> None then Err Malformed
        else and_then (decode_ram_group c p) (\<lambda>(g, p). Ok (a\<lparr>ps_ram := Some g\<rparr>, p))
      else if q = 6 then
        if ps_storage a \<noteq> None then Err Malformed
        else and_then (decode_storage_group c p) (\<lambda>(g, p). Ok (a\<lparr>ps_storage := Some g\<rparr>, p))
      else if q = 7 then
        if ps_battery a \<noteq> None then Err Malformed
        else and_then (decode_battery_group c p) (\<lambda>(g, p). Ok (a\<lparr>ps_battery := Some g\<rparr>, p))
      else if q = 8 then
        if ps_agents a \<noteq> None then Err Malformed
        else and_then (decode_agents_group c p) (\<lambda>(g, p). Ok (a\<lparr>ps_agents := Some g\<rparr>, p))
      else if q = 9 then
        if ps_network a \<noteq> None then Err Malformed
        else and_then (decode_network_group c p) (\<lambda>(g, p). Ok (a\<lparr>ps_network := Some g\<rparr>, p))
      else if 4 < q then and_then (skip_value c p 0) (\<lambda>p. Ok (a, p))
      else if ps_cpu a ! q \<noteq> None then Err Malformed
      else and_then (rd c p) (\<lambda>(value, p).
        if (q = 0 \<or> q = 3) \<and> 255 < value \<or> q = 1 \<and> 1000 < value
           \<or> (q = 2 \<or> q = 4) \<and> 0xffffffff < value then Err Malformed
        else Ok (a\<lparr>ps_cpu := (ps_cpu a)[q := Some value]\<rparr>, p)))"

fun body_loop :: "bytes \<Rightarrow> nat \<Rightarrow> nat \<Rightarrow> psnap \<Rightarrow> (psnap \<times> nat, error) res" where
  "body_loop c 0 p a = Ok (a, p)"
| "body_loop c (Suc n) p a =
     and_then (rd c p) (\<lambda>(q, p).
     and_then (body_entry c (unat q) p a) (\<lambda>(a, p). body_loop c n p a))"

definition cpu_from_fields :: "u64 option list \<Rightarrow> (cpu_snapshot, error) res" where
  "cpu_from_fields cpu =
     and_then (ok_or (cpu ! 0) Malformed) (\<lambda>f0.
     and_then (availability_from f0) (\<lambda>av.
     and_then (ok_or (cpu ! 1) Malformed) (\<lambda>f1.
     and_then (ok_or (cpu ! 2) Malformed) (\<lambda>f2.
     and_then (ok_or (cpu ! 3) Malformed) (\<lambda>f3.
     and_then (freshness_from f3) (\<lambda>fr.
     and_then (ok_or (cpu ! 4) Malformed) (\<lambda>f4.
       Ok \<lparr>cpu_availability = av, cpu_utilization_per_mille = ucast f1,
           cpu_source_age_ms = ucast f2, cpu_freshness = fr,
           cpu_configuration_revision = ucast f4\<rparr>)))))))"

definition decode_cpu_body :: "bytes \<Rightarrow> (snapshot, error) res" where
  "decode_cpu_body body =
     and_then (ok_or (read_uint body 0 5) Malformed) (\<lambda>(count, p).
     if 10 < count then Err Malformed
     else and_then (body_loop body (unat count) p psnap0) (\<lambda>(a, p).
     if p \<noteq> length body then Err Malformed
     else and_then (cpu_from_fields (ps_cpu a)) (\<lambda>cpu.
       Ok \<lparr>snap_cpu = cpu, snap_ram = ps_ram a, snap_storage = ps_storage a,
           snap_battery = ps_battery a, snap_agents = ps_agents a,
           snap_network = ps_network a\<rparr>)))"

section \<open>Control bodies\<close>

definition known_max :: "message_type \<Rightarrow> (nat, error) res" where
  "known_max kind =
     (if kind = MtHello \<or> kind = MtHelloReply then Ok 5
      else if kind = MtPair \<or> kind = MtCommandReply then Ok 2
      else if kind = MtCommand then Ok 1 else Err Malformed)"

fun control_loop ::
    "message_type \<Rightarrow> nat \<Rightarrow> bytes \<Rightarrow> nat \<Rightarrow> nat \<Rightarrow> u64 option \<Rightarrow> u64 option list \<Rightarrow> bytes option list
     \<Rightarrow> (u64 option list \<times> bytes option list \<times> nat, error) res" where
  "control_loop kind kmax c 0 p prior flds identities = Ok (flds, identities, p)"
| "control_loop kind kmax c (Suc n) p prior flds identities =
     and_then (rd c p) (\<lambda>(key, p).
       if (case prior of None \<Rightarrow> False | Some old \<Rightarrow> key \<le> old) then Err Malformed
       else if kmax < unat key then
         and_then (skip_value c p 0) (\<lambda>p.
           control_loop kind kmax c n p (Some key) flds identities)
       else if kind = MtPair \<and> unat key < 2 then
         and_then (bytes_dec c p 16) (\<lambda>(b, p).
           control_loop kind kmax c n p (Some key) flds (identities[unat key := Some b]))
       else and_then (rd c p) (\<lambda>(v, p).
         control_loop kind kmax c n p (Some key) (flds[unat key := Some v]) identities))"

definition hello_from :: "u64 option list \<Rightarrow> (hello_body, error) res" where
  "hello_from flds =
     and_then (and_then (ok_or (flds ! 0) Malformed) try_u8) (\<lambda>major.
     and_then (and_then (ok_or (flds ! 1) Malformed) try_u8) (\<lambda>minor.
     and_then (and_then (ok_or (flds ! 2) Malformed) try_u32) (\<lambda>caps.
     and_then (and_then (ok_or (flds ! 3) Malformed) try_u32) (\<lambda>rev.
     and_then (case flds ! 5 of None \<Rightarrow> Ok None
               | Some v \<Rightarrow> and_then (try_u32 v) (\<lambda>u. Ok (Some u))) (\<lambda>unc.
       Ok \<lparr>hel_supported_major = major, hel_supported_minor = minor, hel_capabilities = caps,
           hel_configuration_revision = rev, hel_utc_ms = flds ! 4,
           hel_utc_uncertainty_ms = unc\<rparr>)))))"

definition pair_from :: "u64 option list \<Rightarrow> bytes option list \<Rightarrow> (pair_body, error) res" where
  "pair_from flds identities =
     and_then (and_then (ok_or (flds ! 2) Malformed) try_u32) (\<lambda>code.
     if \<not> (100000 \<le> code \<and> code \<le> 999999) then Err Malformed
     else and_then (ok_or (identities ! 0) Malformed) (\<lambda>i0.
     and_then (ok_or (identities ! 1) Malformed) (\<lambda>i1.
       Ok \<lparr>pair_pairing_identity = i0, pair_intended_peer_identity = i1,
           pair_matching_code = code\<rparr>)))"

definition command_from :: "u64 option list \<Rightarrow> (command_body, error) res" where
  "command_from flds =
     and_then (and_then (ok_or (flds ! 0) Malformed) try_u32) (\<lambda>ident.
     and_then (and_then (ok_or (flds ! 1) Malformed) op) (\<lambda>oper.
       Ok \<lparr>cmd_command_identity = ident, cmd_operation = oper\<rparr>))"

definition command_reply_from :: "u64 option list \<Rightarrow> (command_reply_body, error) res" where
  "command_reply_from flds =
     and_then (and_then (ok_or (flds ! 0) Malformed) try_u32) (\<lambda>ident.
     and_then (and_then (ok_or (flds ! 1) Malformed) op) (\<lambda>oper.
     and_then (and_then (ok_or (flds ! 2) Malformed) result_from) (\<lambda>r.
       Ok \<lparr>rep_command_identity = ident, rep_operation = oper, rep_result = r\<rparr>)))"

definition decode_control_body :: "message_type \<Rightarrow> bytes \<Rightarrow> (control_body, error) res" where
  "decode_control_body kind c =
     (if kind = MtError then
        and_then (ok_or (read_uint c 0 2) Malformed) (\<lambda>(len, p).
          if uadd p (unat len) \<noteq> length c then Err Malformed
          else and_then (sub_slice c p (length c)) (\<lambda>b. Ok (BError b)))
      else and_then (known_max kind) (\<lambda>kmax.
        and_then (ok_or (read_uint c 0 5) Malformed) (\<lambda>(count, p).
        if 16 < count then Err Malformed
        else and_then
          (control_loop kind kmax c (unat count) p None (replicate 6 None) (replicate 2 None))
          (\<lambda>(flds, identities, p).
        if p \<noteq> length c then Err Malformed
        else case kind of
            MtHello \<Rightarrow> and_then (hello_from flds) (\<lambda>v. Ok (BHello v))
          | MtHelloReply \<Rightarrow> and_then (hello_from flds) (\<lambda>v. Ok (BHelloReply v))
          | MtPair \<Rightarrow> and_then (pair_from flds identities) (\<lambda>v. Ok (BPair v))
          | MtCommand \<Rightarrow> and_then (command_from flds) (\<lambda>v. Ok (BCommand v))
          | MtCommandReply \<Rightarrow> and_then (command_reply_from flds) (\<lambda>v. Ok (BCommandReply v))
          | _ \<Rightarrow> Err Malformed))))"

section \<open>Entry points\<close>

definition decode_snapshot :: "bytes \<Rightarrow> (envelope \<times> snapshot, error) res" where
  "decode_snapshot frame =
     and_then (parse_envelope frame) (\<lambda>(e, body).
       if env_kind e \<noteq> MtSnapshot then Err Malformed
       else and_then (decode_cpu_body body) (\<lambda>s. Ok (e, s)))"

definition decode_cpu :: "bytes \<Rightarrow> (envelope \<times> cpu_snapshot, error) res" where
  "decode_cpu frame = and_then (decode_snapshot frame) (\<lambda>(e, s). Ok (e, snap_cpu s))"

definition decode :: "bytes \<Rightarrow> (message, error) res" where
  "decode frame =
     and_then (parse_envelope frame) (\<lambda>(e, body).
       if env_kind e = MtSnapshot
       then and_then (decode_cpu_body body) (\<lambda>s. Ok (MsgSnapshot e s))
       else and_then (decode_control_body (env_kind e) body) (\<lambda>b. Ok (MsgControl e b)))"

definition decode_control :: "bytes \<Rightarrow> (envelope \<times> control_body, error) res" where
  "decode_control frame =
     and_then (parse_envelope frame) (\<lambda>(e, body).
       if env_kind e = MtSnapshot then Err Malformed
       else and_then (decode_control_body (env_kind e) body) (\<lambda>b. Ok (e, b)))"

end
