(* ===== verification/Readers.thy ===== *)
theory Readers
  imports Encode Decode
begin

text \<open>
  What an encoder piece promises the decoder that reads it: \<open>reads\<close> for a decoder with a
  value, \<open>skips\<close> for the skipper. The locale \<open>wire_codec\<close> is that promise as an interface;
  unique decodability is proved once from it, and the metric groups are its instances.
\<close>

section \<open>Contracts\<close>

definition reads :: "(bytes \<Rightarrow> nat \<Rightarrow> ('a \<times> nat, error) res) \<Rightarrow> bytes \<Rightarrow> 'a \<Rightarrow> bool" where
  "reads dec enc x \<longleftrightarrow>
     (\<forall>c p rest. at c p (enc @ rest) \<longrightarrow> dec c p = Ok (x, p + length enc))"

definition skips :: "(bytes \<Rightarrow> nat \<Rightarrow> (nat, error) res) \<Rightarrow> bytes \<Rightarrow> bool" where
  "skips dec enc \<longleftrightarrow>
     (\<forall>c p rest. length c < 2 ^ 63 \<longrightarrow> at c p (enc @ rest) \<longrightarrow> dec c p = Ok (p + length enc))"

lemma readsI:
  "(\<And>c p rest. at c p (enc @ rest) \<Longrightarrow> dec c p = Ok (x, p + length enc)) \<Longrightarrow> reads dec enc x"
  by (simp add: reads_def)

lemma readsD: "reads dec enc x \<Longrightarrow> at c p (enc @ rest) \<Longrightarrow> dec c p = Ok (x, p + length enc)"
  by (auto simp: reads_def)

lemma skipsI:
  "(\<And>c p rest. length c < 2 ^ 63 \<Longrightarrow> at c p (enc @ rest) \<Longrightarrow> dec c p = Ok (p + length enc))
   \<Longrightarrow> skips dec enc"
  by (simp add: skips_def)

lemma skipsD:
  "skips dec enc \<Longrightarrow> length c < 2 ^ 63 \<Longrightarrow> at c p (enc @ rest) \<Longrightarrow> dec c p = Ok (p + length enc)"
  unfolding skips_def by blast

locale wire_codec =
  fixes enc :: "'a \<Rightarrow> bytes"
    and dec :: "bytes \<Rightarrow> nat \<Rightarrow> ('a \<times> nat, error) res"
    and ok :: "'a \<Rightarrow> bool"
  assumes dec_enc: "ok x \<Longrightarrow> reads dec (enc x) x"
begin

lemma read_back:
  assumes "ok x" and "at c p (enc x @ rest)"
  shows "dec c p = Ok (x, p + length (enc x))"
  using dec_enc [OF assms(1)] assms(2) by (rule readsD)

text \<open>No encoding is a proper prefix of another: a value and what follows it are determined.\<close>

lemma prefix_free:
  assumes "ok x" and "ok y" and eq: "enc x @ r = enc y @ s"
  shows "x = y \<and> r = s"
proof -
  have "dec (enc x @ r) 0 = Ok (x, length (enc x))"
    using read_back [OF assms(1), of "enc x @ r" 0 r] at_start by simp
  moreover have "dec (enc x @ r) 0 = Ok (y, length (enc y))"
    using read_back [OF assms(2), of "enc y @ s" 0 s] at_start [of "enc y @ s"] eq by simp
  ultimately have "x = y" by simp
  with eq show ?thesis by simp
qed

lemma enc_inject:
  assumes "ok x" and "ok y" and "enc x = enc y"
  shows "x = y"
  using prefix_free [OF assms(1,2), of "[]" "[]"] assms(3) by simp

text \<open>A sequence of values written one after another is read back in order.\<close>

lemma concat_inject:
  assumes "list_all ok xs" and "list_all ok ys" and "length xs = length ys"
    and "concat (map enc xs) = concat (map enc ys)"
  shows "xs = ys"
  using assms
proof (induction xs arbitrary: ys)
  case Nil
  then show ?case by simp
next
  case (Cons x xs)
  then obtain y zs where ys: "ys = y # zs" by (cases ys) auto
  have "x = y \<and> concat (map enc xs) = concat (map enc zs)"
    using Cons.prems by (intro prefix_free) (auto simp: ys)
  with Cons.IH [of zs] Cons.prems show ?case by (simp add: ys)
qed

end

section \<open>Integers and byte strings\<close>

lemma reads_rd: "reads rd (uint_enc 0 v) v"
  by (rule readsI) (simp add: rd_def read_uint_at)

lemma rd_at: "at c p (uint_enc 0 v @ rest) \<Longrightarrow> rd c p = Ok (v, p + length (uint_enc 0 v))"
  by (rule readsD [OF reads_rd])

interpretation uint_wire: wire_codec "uint_enc 0" rd "\<lambda>_. True"
  by unfold_locales (rule reads_rd)

lemma map_head_at:
  assumes "at c p (uint_enc 5 n @ rest)"
  shows "read_uint c p 5 = Some (n, p + length (uint_enc 5 n))"
  using assms by (rule read_uint_at) simp

lemma unat_of_nat_u64: "n < 2 ^ 64 \<Longrightarrow> unat (of_nat n :: u64) = n"
  by (simp add: unsigned_of_nat take_bit_nat_eq_self)

text \<open>\<open>str_enc\<close> is a CBOR byte string.\<close>

definition str_enc :: "bytes \<Rightarrow> bytes" where
  "str_enc b = uint_enc 2 (of_nat (length b)) @ b"

lemma str_head_at:
  assumes "at c p (str_enc b @ rest)"
  shows "read_uint c p 2 = Some (of_nat (length b), p + length (uint_enc 2 (of_nat (length b))))"
    and "at c (p + length (uint_enc 2 (of_nat (length b)))) (b @ rest)"
  using read_uint_at [of c p 2 "of_nat (length b)" "b @ rest"] at_append [of c p] assms
  by (auto simp: str_enc_def)

lemma bytes_dec_at:
  assumes at: "at c p (str_enc b @ rest)" and len: "length b < 2 ^ 64"
  shows "bytes_dec c p (length b) = Ok (b, p + length (str_enc b))"
  using str_head_at [OF at] at_length [OF str_head_at(2) [OF at]] at_take [OF str_head_at(2) [OF at]] len
  by (simp add: bytes_dec_def unat_of_nat_u64 str_enc_def)

lemma read_byte_string_at:
  assumes at: "at c p (str_enc b @ rest)" and len: "length b \<le> MAX_FRAME_BYTES"
  shows "read_byte_string c p = Some (b, p + length (str_enc b))"
proof -
  have "length b < 2 ^ 64"
    using len by (simp add: MAX_FRAME_BYTES_def)
  with str_head_at [OF at] at_length [OF str_head_at(2) [OF at]] at_take [OF str_head_at(2) [OF at]] len
  show ?thesis
    by (simp add: read_byte_string_def unat_of_nat_u64 str_enc_def)
qed

section \<open>Key and value pairs\<close>

lemma put_pairs_Nil [simp]: "put_pairs [] = []"
  by (simp add: put_pairs_def)

lemma put_pairs_Cons: "put_pairs ((k, v) # kvs) = uint_enc 0 k @ uint_enc 0 v @ put_pairs kvs"
  by (simp add: put_pairs_def)

lemma put_pairs_append: "put_pairs (xs @ ys) = put_pairs xs @ put_pairs ys"
  by (simp add: put_pairs_def)

lemma length_put_pairs: "length (put_pairs kvs) \<le> 18 * length kvs"
proof (induction kvs)
  case Nil
  show ?case by simp
next
  case (Cons kv kvs)
  then show ?case
    using length_uint_enc [of 0 "fst kv"] length_uint_enc [of 0 "snd kv"]
    by (cases kv) (simp add: put_pairs_Cons)
qed

lemma length_str_enc: "length (str_enc b) \<le> 9 + length b"
  using length_uint_enc [of 2 "of_nat (length b)"] by (simp add: str_enc_def)

lemma group_loop_at:
  assumes "at c p (put_pairs kvs @ rest)"
    and "\<forall>k \<in> set (map fst kvs). unat k < nf \<and> vs ! unat k = None"
    and "distinct (map fst kvs)" and "length vs = nf"
  shows "group_loop c nf (length kvs) p vs =
         Ok (fold (\<lambda>(k, v) w. w[unat k := Some v]) kvs vs, p + length (put_pairs kvs))"
  using assms
proof (induction kvs arbitrary: p vs)
  case Nil
  then show ?case by simp
next
  case (Cons kv kvs)
  obtain k v where kv: "kv = (k, v)"
    by (cases kv)
  let ?q = "p + length (uint_enc 0 k)" and ?r = "p + length (uint_enc 0 k) + length (uint_enc 0 v)"
  let ?vs = "vs[unat k := Some v]"
  from Cons.prems(1) have at0: "at c p (uint_enc 0 k @ uint_enc 0 v @ put_pairs kvs @ rest)"
    by (simp add: kv put_pairs_Cons)
  note at1 = at_append [OF at0]
  note at2 = at_append [OF at1]
  have "group_loop c nf (length kvs) ?r ?vs =
      Ok (fold (\<lambda>(k, v) w. w[unat k := Some v]) kvs ?vs, ?r + length (put_pairs kvs))"
  proof (rule Cons.IH [OF at2])
    show "distinct (map fst kvs)" "length ?vs = nf"
      using Cons.prems by simp_all
    show "\<forall>k' \<in> set (map fst kvs). unat k' < nf \<and> ?vs ! unat k' = None"
    proof
      fix k' assume k': "k' \<in> set (map fst kvs)"
      with Cons.prems(3) have "k \<noteq> k'"
        by (auto simp: kv)
      then have "unat k \<noteq> unat k'"
        by (simp add: word_unat_eq_iff)
      with k' Cons.prems(2) show "unat k' < nf \<and> ?vs ! unat k' = None"
        by (auto simp: kv)
    qed
  qed
  then show ?case
    using Cons.prems(2) by (simp add: kv rd_at [OF at0] rd_at [OF at1] put_pairs_Cons add.assoc)
qed

text \<open>A whole group map: its head and its pairs.\<close>

lemma group_fields_at:
  assumes at: "at c p (uint_enc 5 (of_nat (length kvs)) @ put_pairs kvs @ rest)"
    and keys: "\<forall>k \<in> set (map fst kvs). unat k < nf" and "distinct (map fst kvs)"
    and len: "length kvs \<le> 16"
  shows "group_fields c nf p =
         Ok (fold (\<lambda>(k, v) w. w[unat k := Some v]) kvs (replicate nf None),
             p + length (uint_enc 5 (of_nat (length kvs))) + length (put_pairs kvs))"
proof -
  have "unat (of_nat (length kvs) :: u64) = length kvs"
    using len by (intro unat_of_nat_u64) simp
  moreover from this have "\<not> 16 < (of_nat (length kvs) :: u64)"
    using len by (simp add: word_less_nat_alt)
  ultimately show ?thesis
    using group_loop_at [OF at_append [OF at], of nf "replicate nf None"] assms
    by (simp add: group_fields_def map_head_at [OF at])
qed

lemma replicates:
  "replicate 2 x = [x, x]" "replicate 3 x = [x, x, x]" "replicate 5 x = [x, x, x, x, x]"
  "replicate 6 x = [x, x, x, x, x, x]" "replicate 7 x = [x, x, x, x, x, x, x]"
  "replicate 8 x = [x, x, x, x, x, x, x, x]"
  "replicate 10 x = [x, x, x, x, x, x, x, x, x, x]"
  by (simp_all add: numeral_eq_Suc)

end
