(* ===== verification/Groups_Codec.thy ===== *)
theory Groups_Codec
  imports Readers
begin

text \<open>
  Each metric group's decoder reads back what its encoder writes, for every value the encoder
  accepts; each is an instance of \<open>wire_codec\<close>.
\<close>

section \<open>Enumerations\<close>

lemma availability_from_num [simp]: "availability_from (availability_num a) = Ok a"
  by (cases a) (simp_all add: availability_from_def)

lemma freshness_from_num [simp]: "freshness_from (freshness_num f) = Ok f"
  by (cases f) (simp_all add: freshness_from_def)

lemma message_type_num_back [simp]: "message_type (message_type_num k) = Ok k"
  by (cases k) (simp_all add: message_type_def)

lemma op_num [simp]: "op (command_operation_num oper) = Ok oper"
  by (cases oper) (simp_all add: op_def)

lemma result_num [simp]: "result_from (command_result_num r) = Ok r"
  by (cases r) (simp_all add: result_from_def)

lemma route_kind_num_back [simp]: "route_kind_from (route_kind_num k) = k"
  by (cases k) (simp_all add: route_kind_from_def)

lemma association_context_num_back [simp]:
  "association_context_from (association_context_num k) = k"
  by (cases k) (simp_all add: association_context_from_def)

lemma wifi_coverage_num_back [simp]: "wifi_coverage_from (wifi_coverage_num k) = k"
  by (cases k) (simp_all add: wifi_coverage_from_def)

section \<open>Casts\<close>

lemma cast_u32 [simp]:
  "ucast (ucast (w :: u32) :: u64) = w" "ucast w \<le> (0xffffffff :: u64)"
  "\<not> (0xffffffff :: u64) < ucast w"
  using u32_less [of w] by (simp_all add: ucast_ucast_up word_le_nat_alt word_less_nat_alt unat_ucast_up)

lemma cast_u16 [simp]:
  "ucast (ucast (w :: u16) :: u64) = w" "ucast w \<le> (0xffff :: u64)"
  "\<not> (0xffff :: u64) < ucast w"
  using u16_less [of w] by (simp_all add: ucast_ucast_up word_le_nat_alt word_less_nat_alt unat_ucast_up)

lemma cast_u8 [simp]:
  "ucast (ucast (w :: u8) :: u64) = w" "ucast w \<le> (0xff :: u64)"
  "\<not> (0xff :: u64) < ucast w"
  using u8_less [of w] by (simp_all add: ucast_ucast_up word_le_nat_alt word_less_nat_alt unat_ucast_up)

lemma cast_less_u16: "(numeral n :: u64) < ucast (w :: u16) \<longleftrightarrow> unat (numeral n :: u64) < unat w"
  by (simp add: word_less_nat_alt unat_ucast_up)

lemma cast_less_u8: "(numeral n :: u64) < ucast (w :: u8) \<longleftrightarrow> unat (numeral n :: u64) < unat w"
  by (simp add: word_less_nat_alt unat_ucast_up)

section \<open>RAM, Storage and Battery\<close>

lemma map_heads:
  "[0xa2] = uint_enc 5 2" "[0xa3] = uint_enc 5 3" "[0xa4] = uint_enc 5 4" "[0xa5] = uint_enc 5 5"
  "[0xa6] = uint_enc 5 6" "[0xa7] = uint_enc 5 7" "[0xa8] = uint_enc 5 8" "[0xa9] = uint_enc 5 9"
  "[0xaa] = uint_enc 5 10" "[0xad] = uint_enc 5 13" "[0xae] = uint_enc 5 14"
  by (simp_all add: uint_enc_def)

definition ram_ok :: "ram_snapshot \<Rightarrow> bool" where
  "ram_ok r \<longleftrightarrow> ram_used_bytes r \<le> ram_total_bytes r"

lemma ram_reads:
  assumes "ram_ok r"
  shows "reads decode_ram_group (ram_map r) r"
proof (rule readsI)
  fix c p rest assume at: "at c p (ram_map r @ rest)"
  let ?kvs = "[(0, availability_num (ram_availability r)), (1, ram_used_bytes r),
      (2, ram_total_bytes r), (3, ucast (ram_source_age_ms r)),
      (4, freshness_num (ram_freshness r))] :: (u64 \<times> u64) list"
  have "at c p (uint_enc 5 (of_nat (length ?kvs)) @ put_pairs ?kvs @ rest)"
    using at by (simp add: ram_map_def map_heads)
  then have "group_fields c 5 p = Ok (fold (\<lambda>(k, v) w. w[unat k := Some v]) ?kvs (replicate 5 None),
      p + length (uint_enc 5 (of_nat (length ?kvs))) + length (put_pairs ?kvs))"
    by (rule group_fields_at) simp_all
  then show "decode_ram_group c p = Ok (r, p + length (ram_map r))"
    using assms by (simp add: decode_ram_group_def replicates ram_ok_def ram_map_def map_heads)
qed

definition storage_ok :: "storage_snapshot \<Rightarrow> bool" where
  "storage_ok t \<longleftrightarrow> sto_available_bytes t \<le> sto_total_bytes t"

lemma storage_reads:
  assumes "storage_ok t"
  shows "reads decode_storage_group (storage_map t) t"
proof (rule readsI)
  fix c p rest assume at: "at c p (storage_map t @ rest)"
  let ?kvs = "[(0, availability_num (sto_capacity_availability t)), (1, sto_total_bytes t),
      (2, sto_available_bytes t), (3, ucast (sto_capacity_age_ms t)),
      (4, availability_num (sto_io_availability t)), (5, sto_read_bytes_per_s t),
      (6, sto_write_bytes_per_s t), (7, ucast (sto_io_age_ms t))] :: (u64 \<times> u64) list"
  have "at c p (uint_enc 5 (of_nat (length ?kvs)) @ put_pairs ?kvs @ rest)"
    using at by (simp add: storage_map_def map_heads)
  then have "group_fields c 8 p = Ok (fold (\<lambda>(k, v) w. w[unat k := Some v]) ?kvs (replicate 8 None),
      p + length (uint_enc 5 (of_nat (length ?kvs))) + length (put_pairs ?kvs))"
    by (rule group_fields_at) simp_all
  then show "decode_storage_group c p = Ok (t, p + length (storage_map t))"
    using assms
    by (simp add: decode_storage_group_def all_fields_def replicates storage_ok_def
        storage_map_def map_heads linorder_not_less)
qed

definition battery_ok :: "battery_snapshot \<Rightarrow> bool" where
  "battery_ok b \<longleftrightarrow> bat_charge_per_mille b \<le> 1000 \<and> bat_max_capacity_per_mille b \<le> 1000
     \<and> bat_state b \<le> 4 \<and> bat_condition b \<le> 3"

lemma battery_reads:
  assumes "battery_ok b"
  shows "reads decode_battery_group (battery_map b) b"
proof (rule readsI)
  fix c p rest assume at: "at c p (battery_map b @ rest)"
  let ?kvs = "[(0, availability_num (bat_charge_availability b)),
      (1, ucast (bat_charge_per_mille b)), (2, ucast (bat_state b)),
      (3, ucast (bat_time_remaining_min b)), (4, ucast (bat_charge_age_ms b)),
      (5, availability_num (bat_condition_availability b)),
      (6, ucast (bat_max_capacity_per_mille b)), (7, ucast (bat_condition b)),
      (8, ucast (bat_cycle_count b)), (9, ucast (bat_condition_age_ms b))] :: (u64 \<times> u64) list"
  have "at c p (uint_enc 5 (of_nat (length ?kvs)) @ put_pairs ?kvs @ rest)"
    using at by (simp add: battery_map_def map_heads)
  then have "group_fields c 10 p = Ok (fold (\<lambda>(k, v) w. w[unat k := Some v]) ?kvs (replicate 10 None),
      p + length (uint_enc 5 (of_nat (length ?kvs))) + length (put_pairs ?kvs))"
    by (rule group_fields_at) simp_all
  moreover have "\<not> (1000 :: u64) < ucast (bat_charge_per_mille b)"
    "\<not> (1000 :: u64) < ucast (bat_max_capacity_per_mille b)"
    "\<not> (4 :: u64) < ucast (bat_state b)" "\<not> (3 :: u64) < ucast (bat_condition b)"
    using assms by (simp_all add: battery_ok_def cast_less_u16 cast_less_u8 word_le_nat_alt)
  ultimately show "decode_battery_group c p = Ok (b, p + length (battery_map b))"
    by (simp add: decode_battery_group_def all_fields_def replicates
        battery_map_def map_heads)
qed

interpretation ram_wire: wire_codec ram_map decode_ram_group ram_ok
  by unfold_locales (rule ram_reads)

interpretation storage_wire: wire_codec storage_map decode_storage_group storage_ok
  by unfold_locales (rule storage_reads)

interpretation battery_wire: wire_codec battery_map decode_battery_group battery_ok
  by unfold_locales (rule battery_reads)

section \<open>Agents\<close>

definition agents_ok :: "agents_snapshot \<Rightarrow> bool" where
  "agents_ok a \<longleftrightarrow> length (agt_state a) = AGENT_SLOTS \<and> list_all (\<lambda>t. t \<le> 3) (agt_state a)"

lemma five_elements: "length xs = 5 \<Longrightarrow> \<exists>a b c d e. xs = [a, b, c, d, e]"
  by (auto simp: numeral_eq_Suc length_Suc_conv)

lemma agents_reads:
  assumes "agents_ok a"
  shows "reads decode_agents_group (agents_map a) a"
proof (rule readsI)
  fix c p rest assume at: "at c p (agents_map a @ rest)"
  obtain s0 s1 s2 s3 s4 where st: "agt_state a = [s0, s1, s2, s3, s4]"
    using five_elements [of "agt_state a"] assms by (auto simp: agents_ok_def AGENT_SLOTS_def)
  let ?kvs = "[(0, availability_num (agt_availability a)), (1, ucast (agt_source_age_ms a)),
      (2, ucast s0), (3, ucast s1), (4, ucast s2), (5, ucast s3), (6, ucast s4)] :: (u64 \<times> u64) list"
  have map: "agents_map a = uint_enc 5 (of_nat (length ?kvs)) @ put_pairs ?kvs"
    by (simp add: agents_map_def st map_heads AGENT_SLOTS_def upt_rec put_pairs_Cons)
  have "at c p (uint_enc 5 (of_nat (length ?kvs)) @ put_pairs ?kvs @ rest)"
    using at by (simp only: map append_assoc)
  then have "group_fields c 7 p = Ok (fold (\<lambda>(k, v) w. w[unat k := Some v]) ?kvs (replicate 7 None),
      p + length (uint_enc 5 (of_nat (length ?kvs))) + length (put_pairs ?kvs))"
    by (rule group_fields_at) simp_all
  moreover have "\<not> (3 :: u64) < ucast s" if "s \<in> {s0, s1, s2, s3, s4}" for s
    using assms that by (auto simp: agents_ok_def st cast_less_u8 word_le_nat_alt)
  ultimately show "decode_agents_group c p = Ok (a, p + length (agents_map a))"
    by (simp add: decode_agents_group_def all_fields_def replicates AGENT_SLOTS_def map upt_rec
        st [symmetric])
qed

interpretation agents_wire: wire_codec agents_map decode_agents_group agents_ok
  by unfold_locales (rule agents_reads)

section \<open>Network\<close>

definition network_ok :: "network_snapshot \<Rightarrow> bool" where
  "network_ok n \<longleftrightarrow> network_is_valid n \<and> wf_mac (net_station n) \<and> wf_mac (net_bssid n)"

lemma put_bytes_str: "put_bytes k b = uint_enc 0 k @ str_enc b"
  by (simp add: put_bytes_def str_enc_def)

lemma network_loop_pairs:
  assumes "at c p (put_pairs kvs @ rest)"
    and "\<forall>k \<in> set (map fst kvs). unat k < 10 \<and> vs ! unat k = None"
    and "distinct (map fst kvs)" and "length vs = 10"
  shows "network_loop c (length kvs + n) p vs strs links =
         network_loop c n (p + length (put_pairs kvs))
           (fold (\<lambda>(k, v) w. w[unat k := Some v]) kvs vs) strs links"
  using assms
proof (induction kvs arbitrary: p vs)
  case Nil
  then show ?case by simp
next
  case (Cons kv kvs)
  obtain k v where kv: "kv = (k, v)"
    by (cases kv)
  let ?r = "p + length (uint_enc 0 k) + length (uint_enc 0 v)"
  let ?vs = "vs[unat k := Some v]"
  from Cons.prems(1) have at0: "at c p (uint_enc 0 k @ uint_enc 0 v @ put_pairs kvs @ rest)"
    by (simp add: kv put_pairs_Cons)
  note at1 = at_append [OF at0]
  note at2 = at_append [OF at1]
  have "network_loop c (length kvs + n) ?r ?vs strs links =
      network_loop c n (?r + length (put_pairs kvs))
        (fold (\<lambda>(k, v) w. w[unat k := Some v]) kvs ?vs) strs links"
  proof (rule Cons.IH [OF at2])
    show "distinct (map fst kvs)" "length ?vs = 10"
      using Cons.prems by simp_all
    show "\<forall>k' \<in> set (map fst kvs). unat k' < 10 \<and> ?vs ! unat k' = None"
    proof
      fix k' assume k': "k' \<in> set (map fst kvs)"
      with Cons.prems(3) have "k \<noteq> k'"
        by (auto simp: kv)
      then have "unat k \<noteq> unat k'"
        by (simp add: word_unat_eq_iff)
      with k' Cons.prems(2) show "unat k' < 10 \<and> ?vs ! unat k' = None"
        by (auto simp: kv)
    qed
  qed
  then show ?case
    using Cons.prems(2)
    by (auto simp: kv rd_at [OF at0] rd_at [OF at1] put_pairs_Cons add.assoc)
qed

lemma network_loop_str:
  assumes at: "at c p (put_bytes k b @ rest)"
    and "10 \<le> unat k" and "unat k < 13" and "strs ! (unat k - 10) = None"
    and "length b \<le> MAX_FRAME_BYTES"
  shows "network_loop c (Suc n) p vs strs links =
         network_loop c n (p + length (put_bytes k b)) vs (strs[unat k - 10 := Some b]) links"
proof -
  from at have at0: "at c p (uint_enc 0 k @ str_enc b @ rest)"
    by (simp add: put_bytes_str)
  note at1 = at_append [OF at0]
  show ?thesis
    using assms by (simp add: rd_at [OF at0] read_byte_string_at [OF at1] put_bytes_str add.assoc)
qed

lemma network_loop_links:
  assumes at: "at c p (put_bytes 13 b @ rest)" and "length b \<le> MAX_FRAME_BYTES"
  shows "network_loop c (Suc n) p vs strs None =
         network_loop c n (p + length (put_bytes 13 b)) vs strs (Some b)"
proof -
  from at have at0: "at c p (uint_enc 0 13 @ str_enc b @ rest)"
    by (simp add: put_bytes_str)
  note at1 = at_append [OF at0]
  show ?thesis
    using assms by (simp add: rd_at [OF at0] read_byte_string_at [OF at1] put_bytes_str add.assoc)
qed

lemma mac_back: "wf_mac m \<Longrightarrow> mac (case m of None \<Rightarrow> [] | Some b \<Rightarrow> b) = Ok m"
  by (cases m) (auto simp: wf_mac_def mac_def)

lemma mac_length: "wf_mac m \<Longrightarrow> length (case m of None \<Rightarrow> [] | Some b \<Rightarrow> b) \<le> 6"
  by (cases m) (auto simp: wf_mac_def)

lemma links_back:
  assumes "\<forall>k \<in> set ks. k \<in> {RouteWifi, RouteEthernet, RouteOther}"
  shows "decode_links (Some (map (\<lambda>k. ucast (route_kind_num k)) ks)) = Ok (Some ks)"
proof -
  have "map link_kind (map (\<lambda>k. ucast (route_kind_num k)) ks) = map Ok ks"
    using assms by (auto simp: link_kind_def)
  then have "collect (map link_kind (map (\<lambda>k. ucast (route_kind_num k)) ks)) = Ok ks"
    by (simp only: collect_Ok_map)
  then show ?thesis
    by (simp only: decode_links_def option.case and_then.simps)
qed

lemma valid_links:
  assumes "network_is_valid n" and "net_links n = Some ks"
  shows "length ks \<le> MAX_LINKS" and "\<forall>k \<in> set ks. k \<in> {RouteWifi, RouteEthernet, RouteOther}"
  using assms by (auto simp: network_is_valid_def list_ex_iff split: if_splits)

lemma valid_ssid: "network_is_valid n \<Longrightarrow> length (net_ssid n) \<le> MAX_SSID_BYTES"
  by (simp add: network_is_valid_def split: if_splits)

lemma small_enums:
  "\<not> 4 < route_kind_num k" "\<not> 6 < association_context_num x" "\<not> 2 < wifi_coverage_num y"
proof -
  show "\<not> 4 < route_kind_num k" by (cases k) simp_all
  show "\<not> 6 < association_context_num x" by (cases x) simp_all
  show "\<not> 2 < wifi_coverage_num y" by (cases y) simp_all
qed

lemma links_back_opt:
  assumes "network_is_valid n"
  shows "decode_links (map_option (map (\<lambda>k. ucast (route_kind_num k))) (net_links n)) = Ok (net_links n)"
proof (cases "net_links n")
  case None
  then show ?thesis by (simp add: decode_links_def)
next
  case (Some ks)
  then show ?thesis using links_back [OF valid_links(2) [OF assms Some]] by simp
qed

lemma tunnel_bit:
  "\<not> 1 < (if b then 1 else 0 :: u64)" "(if b then 1 else 0) = (1 :: u64) \<longleftrightarrow> b"
  by simp_all

lemma network_eta:
  "\<lparr>net_traffic_availability = net_traffic_availability n,
    net_traffic_age_ms = net_traffic_age_ms n, net_route_kind = net_route_kind n,
    net_via_tunnel = net_via_tunnel n, net_rx_bytes_per_s = net_rx_bytes_per_s n,
    net_tx_bytes_per_s = net_tx_bytes_per_s n,
    net_context_availability = net_context_availability n,
    net_context_age_ms = net_context_age_ms n, net_coverage = net_coverage n,
    net_channel = net_channel n, net_station = net_station n, net_ssid = net_ssid n,
    net_bssid = net_bssid n, net_links = net_links n\<rparr> = n"
  by simp

lemma network_reads:
  assumes "network_ok n"
  shows "reads decode_network_group (network_map n) n"
proof (rule readsI)
  fix c p rest assume at: "at c p (network_map n @ rest)"
  let ?kvs = "[(0, availability_num (net_traffic_availability n)),
      (1, ucast (net_traffic_age_ms n)), (2, route_kind_num (net_route_kind n)),
      (3, if net_via_tunnel n then 1 else 0), (4, net_rx_bytes_per_s n), (5, net_tx_bytes_per_s n),
      (6, association_context_num (net_context_availability n)),
      (7, ucast (net_context_age_ms n)), (8, wifi_coverage_num (net_coverage n)),
      (9, ucast (net_channel n))] :: (u64 \<times> u64) list"
  let ?vs = "fold (\<lambda>(k, v) w. w[unat k := Some v]) ?kvs (replicate 10 None)"
  let ?st = "case net_station n of None \<Rightarrow> [] | Some m \<Rightarrow> m"
  let ?bs = "case net_bssid n of None \<Rightarrow> [] | Some m \<Rightarrow> m"
  let ?lk = "map_option (map (\<lambda>k. ucast (route_kind_num k))) (net_links n) :: bytes option"
  let ?nl = "if net_links n = None then 0 else 1 :: nat"
  let ?hd = "uint_enc 5 (13 + of_nat ?nl)"
  let ?lp = "put_opt (put_bytes 13) ?lk"
  have val: "network_is_valid n" and macs: "wf_mac (net_station n)" "wf_mac (net_bssid n)"
    using assms by (simp_all add: network_ok_def)
  have map: "network_map n = ?hd @ put_pairs ?kvs @ put_bytes 10 ?st @ put_bytes 11 (net_ssid n) @
      put_bytes 12 ?bs @ ?lp"
    by (cases "net_links n") (simp_all add: network_map_def map_heads put_opt_def)
  have at0: "at c p (?hd @ put_pairs ?kvs @ put_bytes 10 ?st @ put_bytes 11 (net_ssid n) @
      put_bytes 12 ?bs @ ?lp @ rest)"
    using at by (simp only: map append_assoc)
  note at1 = at_append [OF at0]
  note at2 = at_append [OF at1]
  note at3 = at_append [OF at2]
  note at4 = at_append [OF at3]
  note at5 = at_append [OF at4]
  let ?p1 = "p + length ?hd"
  let ?fin = "?p1 + length (put_pairs ?kvs) + length (put_bytes 10 ?st) +
      length (put_bytes 11 (net_ssid n)) + length (put_bytes 12 ?bs) + length ?lp"
  have bounds: "length ?st \<le> MAX_FRAME_BYTES" "length (net_ssid n) \<le> MAX_FRAME_BYTES"
    "length ?bs \<le> MAX_FRAME_BYTES"
    using mac_length [OF macs(1)] mac_length [OF macs(2)] valid_ssid [OF val]
    by (simp_all add: MAX_FRAME_BYTES_def MAX_SSID_BYTES_def)
  have "network_loop c (length ?kvs + (3 + ?nl)) ?p1 (replicate 10 None) (replicate 3 None) None =
      network_loop c (3 + ?nl) (?p1 + length (put_pairs ?kvs)) ?vs (replicate 3 None) None"
    by (rule network_loop_pairs [OF at1]) simp_all
  also have "\<dots> = network_loop c ?nl (?fin - length ?lp) ?vs
      [Some ?st, Some (net_ssid n), Some ?bs] None"
    using bounds
    by (simp add: numeral_3_eq_3 network_loop_str [OF at2] network_loop_str [OF at3]
        network_loop_str [OF at4] del: network_loop.simps)
  also have "\<dots> = Ok (?vs, [Some ?st, Some (net_ssid n), Some ?bs], ?lk, ?fin)"
  proof (cases "net_links n")
    case None
    then show ?thesis by (simp add: put_opt_def)
  next
    case (Some ks)
    have len: "length (map (\<lambda>k. ucast (route_kind_num k) :: u8) ks) \<le> MAX_FRAME_BYTES"
      using valid_links(1) [OF val Some] by (simp add: MAX_LINKS_def MAX_FRAME_BYTES_def)
    have "at c (?fin - length ?lp) (put_bytes 13 (map (\<lambda>k. ucast (route_kind_num k)) ks) @ rest)"
      using at5 by (simp add: Some put_opt_def)
    from network_loop_links [OF this len] show ?thesis
      by (simp add: Some put_opt_def)
  qed
  finally have loop: "network_loop c (13 + ?nl) ?p1 (replicate 10 None) (replicate 3 None) None =
      Ok (?vs, [Some ?st, Some (net_ssid n), Some ?bs], ?lk, ?fin)"
    by simp
  have cnt: "unat (13 + of_nat ?nl :: u64) = 13 + ?nl" "\<not> 16 < (13 + of_nat ?nl :: u64)"
    by simp_all
  have "all_fields ?vs = Ok (map snd ?kvs)"
    by (simp add: all_fields_def replicates)
  moreover have "?fin = p + length (network_map n)"
    by (simp only: map length_append add.assoc)
  ultimately show "decode_network_group c p = Ok (n, p + length (network_map n))"
    using val mac_back [OF macs(1)] mac_back [OF macs(2)] links_back_opt [OF val]
    by (simp add: decode_network_group_def map_head_at [OF at0] cnt loop small_enums Let_def
        tunnel_bit network_eta split del: if_split)
qed

interpretation network_wire: wire_codec network_map decode_network_group network_ok
  by unfold_locales (rule network_reads)

end
