(* ===== verification/Body_Codec.thy ===== *)
theory Body_Codec
  imports Groups_Codec
begin

text \<open>
  The snapshot body: \<open>decode_cpu_body\<close> reads back what \<open>encode_groups\<close> writes at envelope key
  5, and \<open>skip_body\<close> finds its end.
\<close>

section \<open>Map heads with a computed count\<close>

lemma map_head_nat:
  assumes "n < 24"
  shows "[0xa0 + of_nat n] = uint_enc 5 (of_nat n)"
proof -
  define w :: u8 where "w = of_nat n"
  have small: "take_bit 5 w = w"
    using assms by (intro take_bit_unat_small) (simp add: w_def unsigned_of_nat take_bit_nat_eq_self)
  have b: "bit w i \<Longrightarrow> i < 5" for i
    using arg_cong [OF small, of "\<lambda>x. bit x i"] by (simp add: bit_take_bit_iff)
  have "push_bit 5 x AND w = 0" for x :: u8
    by (rule bit_word_eqI) (auto simp: bit_simps dest: b)
  then have "push_bit 5 5 + w = push_bit 5 5 OR w"
    by (intro disjunctive_add_eq_or)
  then have sum: "0xa0 + w = push_bit 5 5 OR w"
    by simp
  have "(of_nat n :: u64) < 24"
    using assms by (simp add: word_less_nat_alt unsigned_of_nat take_bit_nat_eq_self)
  moreover have "ucast (of_nat n :: u64) = w"
    unfolding w_def by (rule bit_word_eqI) (simp add: bit_simps)
  ultimately show ?thesis
    by (simp add: uint_enc_def sum w_def [symmetric])
qed

definition cnt :: "'a option \<Rightarrow> nat" where
  "cnt v = (case v of None \<Rightarrow> 0 | Some x \<Rightarrow> 1)"

lemma cnt_simps [simp]: "cnt None = 0" "cnt (Some x) = 1" "cnt v \<le> 1"
  by (simp_all add: cnt_def split: option.split)

lemma flag_cnt: "flag (v \<noteq> None) = of_nat (cnt v)"
  by (simp add: flag_def cnt_def split: option.split)

definition body_count :: "snapshot \<Rightarrow> nat" where
  "body_count s = 5 + (cnt (snap_ram s) + (cnt (snap_storage s) + (cnt (snap_battery s) +
     (cnt (snap_agents s) + cnt (snap_network s)))))"

lemma body_count_bound: "body_count s \<le> 10"
  using cnt_simps(3) [of "snap_ram s"] cnt_simps(3) [of "snap_storage s"]
    cnt_simps(3) [of "snap_battery s"] cnt_simps(3) [of "snap_agents s"]
    cnt_simps(3) [of "snap_network s"]
  by (simp add: body_count_def)

lemma body_head:
  "[0xa5 + flag (snap_ram s \<noteq> None) + flag (snap_storage s \<noteq> None)
      + flag (snap_battery s \<noteq> None) + flag (snap_agents s \<noteq> None)
      + flag (snap_network s \<noteq> None)] = uint_enc 5 (of_nat (body_count s))"
proof -
  have "body_count s < 24"
    using body_count_bound [of s] by simp
  from map_head_nat [OF this] show ?thesis
    unfolding flag_cnt body_count_def by (simp add: algebra_simps)
qed

section \<open>Decoding the body\<close>

text \<open>
  A snapshot the encoder admits is one its checks do not refuse.  They do not look at the
  utilization of the CPU group, which the decoder bounds: \<open>snapshot_ok\<close> are the admitted
  snapshots that also keep that bound.
\<close>

definition snapshot_admitted :: "snapshot \<Rightarrow> bool" where
  "snapshot_admitted s \<longleftrightarrow> \<not> snapshot_refused s \<and> wf_snapshot s"

definition cpu_in_bounds :: "snapshot \<Rightarrow> bool" where
  "cpu_in_bounds s \<longleftrightarrow> cpu_utilization_per_mille (snap_cpu s) \<le> 1000"

definition snapshot_ok :: "snapshot \<Rightarrow> bool" where
  "snapshot_ok s \<longleftrightarrow> snapshot_admitted s \<and> cpu_in_bounds s"

lemma snapshot_okD:
  "snapshot_ok s \<Longrightarrow> snapshot_admitted s" "snapshot_ok s \<Longrightarrow> cpu_in_bounds s"
  "snapshot_ok s \<Longrightarrow> \<not> snapshot_refused s" "snapshot_ok s \<Longrightarrow> wf_snapshot s"
  by (simp_all add: snapshot_ok_def snapshot_admitted_def)

lemma snapshot_admitted_parts:
  assumes "snapshot_admitted s"
  shows "snap_ram s = Some r \<Longrightarrow> ram_ok r"
    and "snap_storage s = Some t \<Longrightarrow> storage_ok t"
    and "snap_battery s = Some b \<Longrightarrow> battery_ok b"
    and "snap_agents s = Some a \<Longrightarrow> agents_ok a"
    and "snap_network s = Some n \<Longrightarrow> network_ok n"
  using assms
  by (auto simp: snapshot_admitted_def snapshot_refused_def wf_snapshot_def ram_ok_def storage_ok_def
      battery_ok_def agents_ok_def network_ok_def list_ex_iff list_all_iff not_less)

definition cpu_in_range :: "nat \<Rightarrow> u64 \<Rightarrow> bool" where
  "cpu_in_range q v \<longleftrightarrow> ((q = 0 \<or> q = 3) \<longrightarrow> v \<le> 255) \<and> (q = 1 \<longrightarrow> v \<le> 1000) \<and>
     ((q = 2 \<or> q = 4) \<longrightarrow> v \<le> 0xffffffff)"

lemma body_entry_cpu:
  assumes at: "at c p (uint_enc 0 v @ rest)"
    and q: "q < 5" and "ps_cpu a ! q = None" and "cpu_in_range q v"
  shows "body_entry c q p a = Ok (a\<lparr>ps_cpu := (ps_cpu a)[q := Some v]\<rparr>, p + length (uint_enc 0 v))"
proof -
  have "\<not> ((q = 0 \<or> q = 3) \<and> 255 < v \<or> q = 1 \<and> 1000 < v \<or> (q = 2 \<or> q = 4) \<and> 0xffffffff < v)"
    using assms(4) unfolding cpu_in_range_def by (meson linorder_not_less)
  moreover have "q \<noteq> 5" "q \<noteq> 6" "q \<noteq> 7" "q \<noteq> 8" "q \<noteq> 9" "\<not> 4 < q"
    using q by simp_all
  ultimately show ?thesis
    using assms(3) by (simp only: body_entry_def rd_at [OF at] if_False and_then.simps prod.case simp_thms)
qed

lemma body_step_cpu:
  assumes at: "at c p (uint_enc 0 k @ uint_enc 0 v @ rest)"
    and "unat k < 5" and "ps_cpu a ! unat k = None" and "cpu_in_range (unat k) v"
  shows "body_loop c (Suc n) p a = body_loop c n (p + length (uint_enc 0 k) + length (uint_enc 0 v))
           (a\<lparr>ps_cpu := (ps_cpu a)[unat k := Some v]\<rparr>)"
  using rd_at [OF at] body_entry_cpu [OF at_append [OF at] assms(2-4)] by simp

lemma body_cpu_pairs:
  assumes "at c p (put_pairs kvs @ rest)"
    and "\<forall>(k, v) \<in> set kvs. unat k < 5 \<and> cpu_in_range (unat k) v \<and> ps_cpu a ! unat k = None"
    and "distinct (map fst kvs)" and "length (ps_cpu a) = 5"
  shows "body_loop c (length kvs + n) p a = body_loop c n (p + length (put_pairs kvs))
     (a\<lparr>ps_cpu := fold (\<lambda>(k, v) w. w[unat k := Some v]) kvs (ps_cpu a)\<rparr>)"
  using assms
proof (induction kvs arbitrary: p a)
  case Nil
  then show ?case by simp
next
  case (Cons kv kvs)
  obtain k v where kv: "kv = (k, v)"
    by (cases kv)
  let ?a = "a\<lparr>ps_cpu := (ps_cpu a)[unat k := Some v]\<rparr>"
  from Cons.prems(1) have at0: "at c p (uint_enc 0 k @ uint_enc 0 v @ put_pairs kvs @ rest)"
    by (simp add: kv put_pairs_Cons)
  have "body_loop c (Suc (length kvs + n)) p a = body_loop c (length kvs + n)
      (p + length (uint_enc 0 k) + length (uint_enc 0 v)) ?a"
    using Cons.prems(2) by (intro body_step_cpu [OF at0]) (auto simp: kv)
  also have "\<dots> = body_loop c n
      (p + length (uint_enc 0 k) + length (uint_enc 0 v) + length (put_pairs kvs))
      (?a\<lparr>ps_cpu := fold (\<lambda>(k, v) w. w[unat k := Some v]) kvs (ps_cpu ?a)\<rparr>)"
  proof (rule Cons.IH [OF at_append [OF at_append [OF at0]]])
    show "\<forall>(k', v') \<in> set kvs. unat k' < 5 \<and> cpu_in_range (unat k') v' \<and> ps_cpu ?a ! unat k' = None"
    proof clarify
      fix k' v' assume k': "(k', v') \<in> set kvs"
      with Cons.prems(3) have "k \<noteq> k'"
        by (force simp: kv)
      then have "unat k \<noteq> unat k'"
        by (simp add: word_unat_eq_iff)
      with k' Cons.prems(2) show "unat k' < 5 \<and> cpu_in_range (unat k') v' \<and> ps_cpu ?a ! unat k' = None"
        by (auto simp: kv)
    qed
  qed (use Cons.prems in \<open>simp_all add: kv\<close>)
  finally show ?case
    by (simp add: kv put_pairs_Cons add.assoc)
qed

definition cpu_values :: "cpu_snapshot \<Rightarrow> u64 list" where
  "cpu_values cpu =
     [availability_num (cpu_availability cpu), ucast (cpu_utilization_per_mille cpu),
      ucast (cpu_source_age_ms cpu), freshness_num (cpu_freshness cpu),
      ucast (cpu_configuration_revision cpu)]"

lemma small_nums: "availability_num av \<le> 255" "freshness_num fr \<le> 255"
  by (cases av; simp) (cases fr; simp)

lemma body_cpu:
  assumes at: "at c p (put_cpu cpu @ rest)" and "cpu_utilization_per_mille cpu \<le> 1000"
  shows "body_loop c (5 + n) p psnap0 = body_loop c n (p + length (put_cpu cpu))
     (psnap0\<lparr>ps_cpu := map Some (cpu_values cpu)\<rparr>)"
proof -
  have util: "(ucast (cpu_utilization_per_mille cpu) :: u64) \<le> 1000"
    using assms(2) by (simp add: word_le_nat_alt unat_ucast_up)
  let ?kvs = "[(0, availability_num (cpu_availability cpu)),
      (1, ucast (cpu_utilization_per_mille cpu)), (2, ucast (cpu_source_age_ms cpu)),
      (3, freshness_num (cpu_freshness cpu)), (4, ucast (cpu_configuration_revision cpu))]
      :: (u64 \<times> u64) list"
  have "body_loop c (length ?kvs + n) p psnap0 = body_loop c n (p + length (put_pairs ?kvs))
     (psnap0\<lparr>ps_cpu := fold (\<lambda>(k, v) w. w[unat k := Some v]) ?kvs (ps_cpu psnap0)\<rparr>)"
    by (rule body_cpu_pairs [OF at [unfolded put_cpu_def]])
      (simp_all add: cpu_in_range_def psnap0_def small_nums util replicates)
  moreover have "length ?kvs = 5"
    by simp
  ultimately have "body_loop c (5 + n) p psnap0 = body_loop c n (p + length (put_pairs ?kvs))
     (psnap0\<lparr>ps_cpu := fold (\<lambda>(k, v) w. w[unat k := Some v]) ?kvs (ps_cpu psnap0)\<rparr>)"
    by (simp only:)
  then show ?thesis
    by (simp add: put_cpu_def psnap0_def replicates cpu_values_def)
qed

lemma psnap_same:
  "ps_ram a = None \<Longrightarrow> a\<lparr>ps_ram := None\<rparr> = a"
  "ps_storage a = None \<Longrightarrow> a\<lparr>ps_storage := None\<rparr> = a"
  "ps_battery a = None \<Longrightarrow> a\<lparr>ps_battery := None\<rparr> = a"
  "ps_agents a = None \<Longrightarrow> a\<lparr>ps_agents := None\<rparr> = a"
  "ps_network a = None \<Longrightarrow> a\<lparr>ps_network := None\<rparr> = a"
  by (cases a; simp)+

lemma body_opt_ram:
  assumes "at c p (put_opt (\<lambda>g. uint_enc 0 5 @ ram_map g) g @ rest)"
    and "\<And>r. g = Some r \<Longrightarrow> ram_ok r" and "ps_ram a = None"
  shows "body_loop c (cnt g + n) p a =
     body_loop c n (p + length (put_opt (\<lambda>g. uint_enc 0 5 @ ram_map g) g)) (a\<lparr>ps_ram := g\<rparr>)"
proof (cases g)
  case None
  with assms(3) show ?thesis by (simp add: put_opt_def psnap_same)
next
  case (Some r)
  with assms(1) have at0: "at c p (uint_enc 0 5 @ ram_map r @ rest)"
    by (simp add: put_opt_def)
  note ram_wire.read_back [OF assms(2) [OF Some] at_append [OF at0]]
  with Some assms(3) show ?thesis
    by (simp add: rd_at [OF at0] body_entry_def put_opt_def add.assoc)
qed

lemma body_opt_storage:
  assumes "at c p (put_opt (\<lambda>g. uint_enc 0 6 @ storage_map g) g @ rest)"
    and "\<And>r. g = Some r \<Longrightarrow> storage_ok r" and "ps_storage a = None"
  shows "body_loop c (cnt g + n) p a =
     body_loop c n (p + length (put_opt (\<lambda>g. uint_enc 0 6 @ storage_map g) g)) (a\<lparr>ps_storage := g\<rparr>)"
proof (cases g)
  case None
  with assms(3) show ?thesis by (simp add: put_opt_def psnap_same)
next
  case (Some r)
  with assms(1) have at0: "at c p (uint_enc 0 6 @ storage_map r @ rest)"
    by (simp add: put_opt_def)
  note storage_wire.read_back [OF assms(2) [OF Some] at_append [OF at0]]
  with Some assms(3) show ?thesis
    by (simp add: rd_at [OF at0] body_entry_def put_opt_def add.assoc)
qed

lemma body_opt_battery:
  assumes "at c p (put_opt (\<lambda>g. uint_enc 0 7 @ battery_map g) g @ rest)"
    and "\<And>r. g = Some r \<Longrightarrow> battery_ok r" and "ps_battery a = None"
  shows "body_loop c (cnt g + n) p a =
     body_loop c n (p + length (put_opt (\<lambda>g. uint_enc 0 7 @ battery_map g) g)) (a\<lparr>ps_battery := g\<rparr>)"
proof (cases g)
  case None
  with assms(3) show ?thesis by (simp add: put_opt_def psnap_same)
next
  case (Some r)
  with assms(1) have at0: "at c p (uint_enc 0 7 @ battery_map r @ rest)"
    by (simp add: put_opt_def)
  note battery_wire.read_back [OF assms(2) [OF Some] at_append [OF at0]]
  with Some assms(3) show ?thesis
    by (simp add: rd_at [OF at0] body_entry_def put_opt_def add.assoc)
qed

lemma body_opt_agents:
  assumes "at c p (put_opt (\<lambda>g. uint_enc 0 8 @ agents_map g) g @ rest)"
    and "\<And>r. g = Some r \<Longrightarrow> agents_ok r" and "ps_agents a = None"
  shows "body_loop c (cnt g + n) p a =
     body_loop c n (p + length (put_opt (\<lambda>g. uint_enc 0 8 @ agents_map g) g)) (a\<lparr>ps_agents := g\<rparr>)"
proof (cases g)
  case None
  with assms(3) show ?thesis by (simp add: put_opt_def psnap_same)
next
  case (Some r)
  with assms(1) have at0: "at c p (uint_enc 0 8 @ agents_map r @ rest)"
    by (simp add: put_opt_def)
  note agents_wire.read_back [OF assms(2) [OF Some] at_append [OF at0]]
  with Some assms(3) show ?thesis
    by (simp add: rd_at [OF at0] body_entry_def put_opt_def add.assoc)
qed

lemma body_opt_network:
  assumes "at c p (put_opt (\<lambda>g. uint_enc 0 9 @ network_map g) g @ rest)"
    and "\<And>r. g = Some r \<Longrightarrow> network_ok r" and "ps_network a = None"
  shows "body_loop c (cnt g + n) p a =
     body_loop c n (p + length (put_opt (\<lambda>g. uint_enc 0 9 @ network_map g) g)) (a\<lparr>ps_network := g\<rparr>)"
proof (cases g)
  case None
  with assms(3) show ?thesis by (simp add: put_opt_def psnap_same)
next
  case (Some r)
  with assms(1) have at0: "at c p (uint_enc 0 9 @ network_map r @ rest)"
    by (simp add: put_opt_def)
  note network_wire.read_back [OF assms(2) [OF Some] at_append [OF at0]]
  with Some assms(3) show ?thesis
    by (simp add: rd_at [OF at0] body_entry_def put_opt_def add.assoc)
qed

lemma cpu_from_values: "cpu_from_fields (map Some (cpu_values cpu)) = Ok cpu"
  by (simp add: cpu_from_fields_def cpu_values_def)

lemma decode_cpu_body_back:
  assumes ok: "snapshot_ok s"
  shows "decode_cpu_body (put_snapshot s) = Ok s"
proof -
  let ?c = "put_snapshot s" and ?cpu = "snap_cpu s"
  let ?hd = "uint_enc 5 (of_nat (body_count s))"
  let ?r = "put_opt (\<lambda>g. uint_enc 0 5 @ ram_map g) (snap_ram s)"
  let ?t = "put_opt (\<lambda>g. uint_enc 0 6 @ storage_map g) (snap_storage s)"
  let ?b = "put_opt (\<lambda>g. uint_enc 0 7 @ battery_map g) (snap_battery s)"
  let ?g = "put_opt (\<lambda>g. uint_enc 0 8 @ agents_map g) (snap_agents s)"
  let ?n = "put_opt (\<lambda>g. uint_enc 0 9 @ network_map g) (snap_network s)"
  have c: "?c = ?hd @ put_cpu ?cpu @ ?r @ ?t @ ?b @ ?g @ ?n @ []"
    by (simp only: put_snapshot_def body_head append_Nil2)
  have at0: "at ?c 0 (?hd @ put_cpu ?cpu @ ?r @ ?t @ ?b @ ?g @ ?n @ [])"
    by (subst c [symmetric]) (rule at_start)
  note at1 = at_append [OF at0]
  note at2 = at_append [OF at1]
  note at3 = at_append [OF at2]
  note at4 = at_append [OF at3]
  note at5 = at_append [OF at4]
  note at6 = at_append [OF at5]
  note parts = snapshot_admitted_parts [OF snapshot_okD(1) [OF ok]]
  have util: "cpu_utilization_per_mille ?cpu \<le> 1000"
    using snapshot_okD(2) [OF ok] by (simp add: cpu_in_bounds_def)
  let ?a1 = "psnap0\<lparr>ps_cpu := map Some (cpu_values ?cpu)\<rparr>"
  let ?a2 = "?a1\<lparr>ps_ram := snap_ram s\<rparr>"
  let ?a3 = "?a2\<lparr>ps_storage := snap_storage s\<rparr>"
  let ?a4 = "?a3\<lparr>ps_battery := snap_battery s\<rparr>"
  let ?a5 = "?a4\<lparr>ps_agents := snap_agents s\<rparr>"
  let ?a6 = "?a5\<lparr>ps_network := snap_network s\<rparr>"
  let ?q = "0 + length ?hd + length (put_cpu ?cpu) + length ?r + length ?t + length ?b + length ?g
      + length ?n"
  let ?p1 = "0 + length ?hd + length (put_cpu ?cpu)"
  let ?n5 = "cnt (snap_network s)" let ?n4 = "cnt (snap_agents s) + ?n5"
  let ?n3 = "cnt (snap_battery s) + ?n4" let ?n2 = "cnt (snap_storage s) + ?n3"
  have "body_loop ?c (5 + (cnt (snap_ram s) + ?n2)) (0 + length ?hd) psnap0 =
      body_loop ?c (cnt (snap_ram s) + ?n2) ?p1 ?a1"
    by (rule body_cpu [OF at1 util])
  also have "\<dots> = body_loop ?c ?n2 (?p1 + length ?r) ?a2"
    by (rule body_opt_ram [OF at2 parts(1)]) (simp_all add: psnap0_def)
  also have "\<dots> = body_loop ?c ?n3 (?p1 + length ?r + length ?t) ?a3"
    by (rule body_opt_storage [OF at3 parts(2)]) (simp_all add: psnap0_def)
  also have "\<dots> = body_loop ?c ?n4 (?p1 + length ?r + length ?t + length ?b) ?a4"
    by (rule body_opt_battery [OF at4 parts(3)]) (simp_all add: psnap0_def)
  also have "\<dots> = body_loop ?c ?n5 (?p1 + length ?r + length ?t + length ?b + length ?g) ?a5"
    by (rule body_opt_agents [OF at5 parts(4)]) (simp_all add: psnap0_def)
  also have "\<dots> = body_loop ?c (?n5 + 0) (?p1 + length ?r + length ?t + length ?b + length ?g) ?a5"
    by (simp only: add_0_right)
  also have "\<dots> = body_loop ?c 0 ?q ?a6"
    by (rule body_opt_network [OF at6 parts(5)]) (simp_all add: psnap0_def)
  finally have "body_loop ?c (body_count s) (0 + length ?hd) psnap0 = body_loop ?c 0 ?q ?a6"
    by (simp only: body_count_def)
  moreover have "?q = length ?c"
    by (subst c) simp
  moreover have "unat (of_nat (body_count s) :: u64) = body_count s"
    using body_count_bound [of s] by (intro unat_of_nat_u64) simp
  moreover from this have "\<not> 10 < (of_nat (body_count s) :: u64)"
    using body_count_bound [of s] by (simp add: word_less_nat_alt)
  ultimately show ?thesis
    by (simp add: decode_cpu_body_def map_head_at [OF at0] cpu_from_values psnap0_def)
qed

text \<open>
  The other side of the bound: the decoder reads the utilization at its second entry and stops
  there, whatever follows.
\<close>

lemma body_cpu_over:
  assumes at: "at c p (put_cpu cpu @ rest)" and over: "1000 < cpu_utilization_per_mille cpu"
  shows "body_loop c (5 + n) p psnap0 = Err Malformed"
proof -
  let ?av = "availability_num (cpu_availability cpu)"
  let ?u = "ucast (cpu_utilization_per_mille cpu) :: u64"
  from at have at0: "at c p (uint_enc 0 0 @ uint_enc 0 ?av @ uint_enc 0 1 @ uint_enc 0 ?u @
      put_pairs [(2, ucast (cpu_source_age_ms cpu)), (3, freshness_num (cpu_freshness cpu)),
        (4, ucast (cpu_configuration_revision cpu))] @ rest)"
    by (simp add: put_cpu_def put_pairs_Cons)
  let ?a = "psnap0\<lparr>ps_cpu := (ps_cpu psnap0)[unat (0 :: u64) := Some ?av]\<rparr>"
  let ?p = "p + length (uint_enc 0 (0 :: u64)) + length (uint_enc 0 ?av)"
  have "body_loop c (Suc (4 + n)) p psnap0 = body_loop c (4 + n) ?p ?a"
    by (rule body_step_cpu [OF at0]) (simp_all add: cpu_in_range_def psnap0_def small_nums replicates)
  moreover have "body_loop c (Suc (3 + n)) ?p ?a = Err Malformed"
  proof -
    note at1 = at_append [OF at_append [OF at0]]
    have "1000 < ?u"
      using over by (simp add: word_less_nat_alt unat_ucast_up)
    then have "body_entry c (unat (1 :: u64)) (?p + length (uint_enc 0 (1 :: u64))) ?a = Err Malformed"
      by (simp add: body_entry_def rd_at [OF at_append [OF at1]])
    then show ?thesis
      by (simp only: body_loop.simps rd_at [OF at1] and_then.simps prod.case)
  qed
  moreover have "5 + n = Suc (4 + n)" "4 + n = Suc (3 + n)"
    by simp_all
  ultimately show ?thesis
    by (simp only:)
qed

lemma decode_cpu_body_over:
  assumes "\<not> cpu_in_bounds s"
  shows "decode_cpu_body (put_snapshot s) = Err Malformed"
proof -
  let ?c = "put_snapshot s"
  let ?hd = "uint_enc 5 (of_nat (body_count s))"
  obtain tl where c: "?c = ?hd @ put_cpu (snap_cpu s) @ tl"
    unfolding put_snapshot_def body_head by blast
  have at0: "at ?c 0 (?hd @ put_cpu (snap_cpu s) @ tl)"
    by (subst c [symmetric]) (rule at_start)
  obtain n where n: "body_count s = 5 + n"
    by (simp add: body_count_def)
  have "body_loop ?c (body_count s) (0 + length ?hd) psnap0 = Err Malformed"
    unfolding n using assms
    by (intro body_cpu_over [OF at_append [OF at0, unfolded n]]) (simp add: cpu_in_bounds_def)
  moreover have u: "unat (of_nat (body_count s) :: u64) = body_count s"
    using body_count_bound [of s] by (intro unat_of_nat_u64) simp
  moreover from u have "\<not> 10 < (of_nat (body_count s) :: u64)"
    using body_count_bound [of s] by (simp add: word_less_nat_alt)
  ultimately show ?thesis
    by (simp add: decode_cpu_body_def map_head_at [OF at0])
qed

end
