(* ===== verification/Skip_Codec.thy ===== *)
theory Skip_Codec
  imports Body_Codec
begin

text \<open>
  The skipper finds the end of every body the encoders write: integers and byte strings,
  maps of them, and a snapshot's groups one level down.
\<close>

section \<open>Single values\<close>

lemma head_major:
  assumes "at c p (uint_enc m v @ rest)" and "unat m < 8"
  shows "p < length c" and "drop_bit 5 (c ! p) = m"
  using read_uint_at [OF assms] by (auto simp: read_uint_def Let_def split: if_splits)

definition simple_item :: "bytes \<Rightarrow> bool" where
  "simple_item x \<longleftrightarrow> (\<exists>v. x = uint_enc 0 v) \<or> (\<exists>b. x = str_enc b)"

lemma simple_uint [simp]: "simple_item (uint_enc 0 v)"
  by (auto simp: simple_item_def)

lemma simple_str [simp]: "simple_item (str_enc b)"
  by (auto simp: simple_item_def)

lemma skip_value_uint:
  assumes at: "at c p (uint_enc 0 v @ rest)" and "d < 4"
  shows "skip_value c p d = Ok (p + length (uint_enc 0 v))"
  using head_major [OF at] read_uint_at [OF at] assms(2)
  by (simp add: skip_value.simps [of c p d])

lemma skip_value_str:
  assumes at: "at c p (str_enc b @ rest)" and "d < 4" and len: "length c < 2 ^ 63"
  shows "skip_value c p d = Ok (p + length (str_enc b))"
proof -
  let ?h = "uint_enc 2 (of_nat (length b))"
  have at0: "at c p (?h @ b @ rest)"
    using at by (simp add: str_enc_def)
  have fin: "p + length ?h + length b \<le> length c"
    using at_length [OF at_append [OF at0]] by simp
  then have b: "unat (of_nat (length b) :: u64) = length b"
    using len by (intro unat_of_nat_u64) simp
  have "uadd (p + length ?h) (length b) = p + length ?h + length b"
    using fin len by (intro uadd_small) simp
  then show ?thesis
    using head_major [OF at0] read_uint_at [OF at0] assms(2) b fin
    by (simp add: skip_value.simps [of c p d] str_enc_def add.assoc)
qed

lemma skip_value_simple:
  assumes "simple_item x" and "d < 4"
  shows "skips (\<lambda>c p. skip_value c p d) x"
  using assms by (intro skipsI) (auto simp: simple_item_def intro: skip_value_uint skip_value_str)

lemma skip_values_items:
  assumes "list_all simple_item xs" and "d < 4"
  shows "skips (\<lambda>c p. skip_values c p d (length xs)) (concat xs)"
proof (rule skipsI)
  fix c p rest assume len: "length c < 2 ^ 63" and "at c p (concat xs @ rest)"
  then show "skip_values c p d (length xs) = Ok (p + length (concat xs))"
    using assms(1)
  proof (induction xs arbitrary: p)
    case Nil
    then show ?case by simp
  next
    case (Cons x xs)
    from Cons.prems have at: "at c p (x @ concat xs @ rest)" and "simple_item x"
      by simp_all
    from skip_value_simple [OF this(2) assms(2)] len this(1)
    have "skip_value c p d = Ok (p + length x)"
      by (rule skipsD)
    with Cons.IH [OF len at_append [OF at]] Cons.prems show ?case
      by simp
  qed
qed

section \<open>Members of a body\<close>

definition body_member :: "bytes \<Rightarrow> bool" where
  "body_member x \<longleftrightarrow> (\<exists>k y. x = uint_enc 0 k @ y \<and>
     (simple_item y \<or> (\<exists>n items. y = uint_enc 5 n @ concat items \<and> unat n \<le> 16
        \<and> length items = unat n * 2 \<and> list_all simple_item items)))"

lemma body_member_simple: "simple_item y \<Longrightarrow> body_member (uint_enc 0 k @ y)"
  by (auto simp: body_member_def)

lemma body_member_map:
  "unat n \<le> 16 \<Longrightarrow> length items = unat n * 2 \<Longrightarrow> list_all simple_item items
   \<Longrightarrow> body_member (uint_enc 0 k @ uint_enc 5 n @ concat items)"
  by (auto simp: body_member_def)

lemma simple_not_map:
  assumes "simple_item y" and "at c p (y @ rest)"
  shows "p < length c" and "drop_bit 5 (c ! p) \<noteq> 5"
proof -
  from assms(1) consider v where "y = uint_enc 0 v" | b where "y = str_enc b"
    by (auto simp: simple_item_def)
  then have "p < length c \<and> drop_bit 5 (c ! p) \<noteq> 5"
  proof cases
    case 1
    with assms(2) show ?thesis using head_major [of c p 0] by fastforce
  next
    case 2
    with assms(2) show ?thesis using head_major [of c p 2] by (fastforce simp: str_enc_def)
  qed
  then show "p < length c" and "drop_bit 5 (c ! p) \<noteq> 5"
    by simp_all
qed

lemma skip_member:
  assumes mem: "body_member x" and at: "at c p (x @ rest)" and len: "length c < 2 ^ 63"
  shows "skip_members c p (Suc n) = skip_members c (p + length x) n"
proof -
  from mem obtain k y where x: "x = uint_enc 0 k @ y" and y: "simple_item y \<or>
      (\<exists>n items. y = uint_enc 5 n @ concat items \<and> unat n \<le> 16
        \<and> length items = unat n * 2 \<and> list_all simple_item items)"
    by (auto simp: body_member_def)
  from at have at0: "at c p (uint_enc 0 k @ y @ rest)"
    by (simp add: x)
  note at1 = at_append [OF at0]
  let ?q = "p + length (uint_enc 0 k)"
  have key: "skip_value c p 0 = Ok ?q"
    using at0 by (rule skip_value_uint) simp
  from y show ?thesis
  proof
    assume s: "simple_item y"
    have "skip_value c ?q 0 = Ok (?q + length y)"
      using skip_value_simple [OF s, of 0] len at1 by (auto dest: skipsD)
    with key simple_not_map [OF s at1] show ?thesis
      by (simp add: x add.assoc)
  next
    assume "\<exists>n items. y = uint_enc 5 n @ concat items \<and> unat n \<le> 16
        \<and> length items = unat n * 2 \<and> list_all simple_item items"
    then obtain m items where y: "y = uint_enc 5 m @ concat items" and m: "unat m \<le> 16"
      and items: "length items = unat m * 2" "list_all simple_item items"
      by blast
    from at1 have at2: "at c ?q (uint_enc 5 m @ concat items @ rest)"
      by (simp add: y)
    have "skip_values c (?q + length (uint_enc 5 m)) 0 (unat m * 2) =
        Ok (?q + length (uint_enc 5 m) + length (concat items))"
      using skip_values_items [OF items(2), of 0] len at_append [OF at2] items(1)
      by (auto dest: skipsD)
    moreover have "\<not> 16 < m"
      using m by (simp add: word_less_nat_alt)
    ultimately show ?thesis
      using key head_major [OF at2] by (simp add: map_head_at [OF at2] x y add.assoc)
  qed
qed

lemma skip_members_at:
  assumes "list_all body_member ms" and "length c < 2 ^ 63" and "at c p (concat ms @ rest)"
  shows "skip_members c p (length ms) = Ok (p + length (concat ms))"
  using assms
proof (induction ms arbitrary: p)
  case Nil
  then show ?case by simp
next
  case (Cons x ms)
  from Cons.prems have at: "at c p (x @ concat ms @ rest)" and x: "body_member x"
    by simp_all
  show ?case
    using skip_member [OF x at Cons.prems(2), of "length ms"] Cons.prems
      Cons.IH [OF _ _ at_append [OF at]] by (simp add: add.assoc)
qed

lemma skip_body_map:
  assumes "list_all body_member ms" and "length ms \<le> 16"
  shows "skips skip_body (uint_enc 5 (of_nat (length ms)) @ concat ms)"
proof (rule skipsI)
  fix c p rest assume len: "length c < 2 ^ 63"
    and "at c p ((uint_enc 5 (of_nat (length ms)) @ concat ms) @ rest)"
  then have at: "at c p (uint_enc 5 (of_nat (length ms)) @ concat ms @ rest)"
    by simp
  have n: "unat (of_nat (length ms) :: u64) = length ms"
    using assms(2) by (intro unat_of_nat_u64) simp
  then have "\<not> 16 < (of_nat (length ms) :: u64)"
    using assms(2) by (simp add: word_less_nat_alt)
  with n skip_members_at [OF assms(1) len at_append [OF at]]
  show "skip_body c p = Ok (p + length (uint_enc 5 (of_nat (length ms)) @ concat ms))"
    using head_major [OF at] by (simp add: skip_body_def map_head_at [OF at] add.assoc)
qed

lemma skip_body_str: "skips skip_body (str_enc b)"
proof (rule skipsI)
  fix c p rest assume len: "length c < 2 ^ 63" and at: "at c p (str_enc b @ rest)"
  show "skip_body c p = Ok (p + length (str_enc b))"
    using simple_not_map [OF simple_str at] skip_value_str [OF at _ len, of 0]
    by (simp add: skip_body_def)
qed

end
