(* ===== verification/Envelope_Codec.thy ===== *)
theory Envelope_Codec
  imports Skip_Codec
begin

text \<open>
  The envelope: frame integrity, the strictly increasing keys, and the body between them.
  \<open>parse_envelope\<close> returns the envelope and the body that the encoders put into the frame.
\<close>

section \<open>The snapshot body can be skipped\<close>

definition pair_items :: "(u64 \<times> u64) list \<Rightarrow> bytes list" where
  "pair_items kvs = concat (map (\<lambda>(k, v). [uint_enc 0 k, uint_enc 0 v]) kvs)"

lemma pair_items_facts [simp]:
  "concat (pair_items kvs) = put_pairs kvs" "length (pair_items kvs) = length kvs * 2"
  "list_all simple_item (pair_items kvs)"
  by (induction kvs) (auto simp: pair_items_def put_pairs_def)

lemma group_member:
  assumes "m = uint_enc 5 (of_nat n) @ concat items" and "n \<le> 16" and "length items = n * 2"
    and "list_all simple_item items"
  shows "body_member (uint_enc 0 k @ m)"
proof -
  have "unat (of_nat n :: u64) = n"
    using assms(2) by (intro unat_of_nat_u64) simp
  with assms show ?thesis
    by (auto intro: body_member_map)
qed

lemma pairs_member:
  assumes "length kvs \<le> 16" and "n = of_nat (length kvs)"
  shows "body_member (uint_enc 0 k @ uint_enc 5 n @ put_pairs kvs)"
  using assms
  by (intro group_member [where n = "length kvs" and items = "pair_items kvs"]) simp_all

lemma ram_member: "body_member (uint_enc 0 k @ ram_map r)"
  unfolding ram_map_def map_heads by (rule pairs_member) simp_all

lemma storage_member: "body_member (uint_enc 0 k @ storage_map t)"
  unfolding storage_map_def map_heads by (rule pairs_member) simp_all

lemma battery_member: "body_member (uint_enc 0 k @ battery_map b)"
  unfolding battery_map_def map_heads by (rule pairs_member) simp_all

lemma agents_member:
  assumes "agents_ok a"
  shows "body_member (uint_enc 0 k @ agents_map a)"
proof -
  let ?kvs = "[(0, availability_num (agt_availability a)), (1, ucast (agt_source_age_ms a))] @
      map (\<lambda>(slot, state). (2 + of_nat slot, ucast state))
       (zip [0..<length (agt_state a)] (agt_state a)) :: (u64 \<times> u64) list"
  have len: "length (agt_state a) = 5"
    using assms by (simp add: agents_ok_def AGENT_SLOTS_def)
  have "agents_map a = uint_enc 5 7 @ put_pairs ?kvs"
    by (simp add: agents_map_def AGENT_SLOTS_def map_heads len put_pairs_append [symmetric])
  then show ?thesis
    by (simp only:) (rule pairs_member, simp_all add: len)
qed

lemma network_member: "body_member (uint_enc 0 k @ network_map n)"
proof -
  let ?kvs = "[(0, availability_num (net_traffic_availability n)),
      (1, ucast (net_traffic_age_ms n)), (2, route_kind_num (net_route_kind n)),
      (3, if net_via_tunnel n then 1 else 0), (4, net_rx_bytes_per_s n), (5, net_tx_bytes_per_s n),
      (6, association_context_num (net_context_availability n)),
      (7, ucast (net_context_age_ms n)), (8, wifi_coverage_num (net_coverage n)),
      (9, ucast (net_channel n))] :: (u64 \<times> u64) list"
  let ?lk = "case net_links n of None \<Rightarrow> []
    | Some ks \<Rightarrow> [uint_enc 0 13, str_enc (map (\<lambda>k. ucast (route_kind_num k)) ks)]"
  let ?items = "pair_items ?kvs @
    [uint_enc 0 10, str_enc (case net_station n of None \<Rightarrow> [] | Some m \<Rightarrow> m),
     uint_enc 0 11, str_enc (net_ssid n),
     uint_enc 0 12, str_enc (case net_bssid n of None \<Rightarrow> [] | Some m \<Rightarrow> m)] @ ?lk"
  have map: "network_map n = uint_enc 5 (of_nat (13 + cnt (net_links n))) @ concat ?items"
    by (cases "net_links n") (simp_all add: network_map_def map_heads put_opt_def put_bytes_str)
  show ?thesis
    by (rule group_member [OF map]) (cases "net_links n"; simp)+
qed

definition opt_list :: "('a \<Rightarrow> bytes) \<Rightarrow> 'a option \<Rightarrow> bytes list" where
  "opt_list f v = (case v of None \<Rightarrow> [] | Some x \<Rightarrow> [f x])"

lemma opt_list_facts:
  "concat (opt_list f v) = put_opt f v" "length (opt_list f v) = cnt v"
  "(\<And>x. v = Some x \<Longrightarrow> P (f x)) \<Longrightarrow> list_all P (opt_list f v)"
  by (cases v; simp add: opt_list_def put_opt_def)+

definition pair_members :: "(u64 \<times> u64) list \<Rightarrow> bytes list" where
  "pair_members kvs = map (\<lambda>(k, v). uint_enc 0 k @ uint_enc 0 v) kvs"

lemma pair_members_facts [simp]:
  "concat (pair_members kvs) = put_pairs kvs" "length (pair_members kvs) = length kvs"
  "list_all body_member (pair_members kvs)"
  by (induction kvs) (auto simp: pair_members_def put_pairs_def intro: body_member_simple)

lemma skip_snapshot:
  assumes "snapshot_admitted s"
  shows "skips skip_body (put_snapshot s)"
proof -
  let ?cpu = "snap_cpu s"
  let ?kvs = "[(0, availability_num (cpu_availability ?cpu)),
      (1, ucast (cpu_utilization_per_mille ?cpu)), (2, ucast (cpu_source_age_ms ?cpu)),
      (3, freshness_num (cpu_freshness ?cpu)), (4, ucast (cpu_configuration_revision ?cpu))]
      :: (u64 \<times> u64) list"
  let ?ms = "pair_members ?kvs @
      opt_list (\<lambda>g. uint_enc 0 5 @ ram_map g) (snap_ram s) @
      opt_list (\<lambda>g. uint_enc 0 6 @ storage_map g) (snap_storage s) @
      opt_list (\<lambda>g. uint_enc 0 7 @ battery_map g) (snap_battery s) @
      opt_list (\<lambda>g. uint_enc 0 8 @ agents_map g) (snap_agents s) @
      opt_list (\<lambda>g. uint_enc 0 9 @ network_map g) (snap_network s)"
  have len: "length ?ms = body_count s"
    by (simp add: opt_list_facts body_count_def)
  have body: "put_snapshot s = uint_enc 5 (of_nat (length ?ms)) @ concat ?ms"
    unfolding len put_snapshot_def body_head by (simp add: opt_list_facts put_cpu_def)
  have "list_all body_member ?ms"
    using snapshot_admitted_parts(4) [OF assms]
    by (auto intro!: opt_list_facts(3) ram_member storage_member battery_member agents_member
        network_member)
  then show ?thesis
    unfolding body using body_count_bound [of s] len by (intro skip_body_map) simp_all
qed

section \<open>Frame integrity\<close>

definition frame_of :: "bytes \<Rightarrow> bytes" where
  "frame_of c = be_bytes 2 (of_nat (length c + 4) :: u16) @ c @ be_bytes 4 (crc32 c)"

lemma close_frame_Ok: "close_frame c = Ok f \<longleftrightarrow> length c \<le> 2042 \<and> f = frame_of c"
  by (auto simp: close_frame_def frame_of_def MAX_FRAME_BYTES_def)

lemma length_frame_of [simp]: "length (frame_of c) = length c + 6"
  by (simp add: frame_of_def)

lemma frame_length_field:
  assumes "m < 65536"
  shows "unat (be_value (be_bytes 2 (of_nat m :: u16)) :: u16) = m"
  using assms by (simp add: be_value_be_bytes_full unsigned_of_nat take_bit_nat_eq_self)

lemma frame_content_frame_of:
  assumes "c \<noteq> []" and "length c \<le> 2042"
  shows "frame_content (frame_of c) = Ok c"
proof -
  have "take 2 (frame_of c) = be_bytes 2 (of_nat (length c + 4) :: u16)"
    by (simp add: frame_of_def)
  then have hd: "unat (be_value (take 2 (frame_of c)) :: u16) = length c + 4"
    using frame_length_field [of "length c + 4"] assms(2) by (simp only:)
  have ct: "drop 2 (take (length (frame_of c) - 4) (frame_of c)) = c"
    by (simp add: frame_of_def)
  have tl: "drop (length (frame_of c) - 4) (frame_of c) = be_bytes 4 (crc32 c)"
    by (simp add: frame_of_def)
  have crc: "be_value (be_bytes 4 (crc32 c)) = crc32 c"
    by (rule be_value_be_bytes_full) simp
  have "0 < length c"
    using assms(1) by simp
  then show ?thesis
    using assms(2)
    unfolding frame_content_def Let_def hd ct tl crc
    by (simp add: MAX_FRAME_BYTES_def)
qed

section \<open>The envelope loop\<close>

lemma envelope_step:
  assumes at: "at c p (uint_enc 0 k @ rest)"
    and "\<And>old. previous = Some old \<Longrightarrow> old < k"
    and "envelope_entry c k (p + length (uint_enc 0 k)) a = Ok (a', q)"
  shows "envelope_loop c (Suc n) p previous a = envelope_loop c n q (Some k) a'"
  using assms(2,3) by (auto simp: rd_at [OF at] not_le split: option.split)

lemma envelope_pair:
  assumes at: "at c p (put_pairs [(k, v)] @ rest)"
    and inc: "\<And>old. previous = Some old \<Longrightarrow> old < k"
    and entry: "\<And>q r. rd c q = Ok (v, r) \<Longrightarrow> envelope_entry c k q a = Ok (a', r)"
  shows "envelope_loop c (Suc n) p previous a =
         envelope_loop c n (p + length (put_pairs [(k, v)])) (Some k) a'"
proof (rule envelope_step)
  show at0: "at c p (uint_enc 0 k @ uint_enc 0 v @ rest)"
    using at by (simp add: put_pairs_Cons)
  show "envelope_entry c k (p + length (uint_enc 0 k)) a = Ok (a', p + length (put_pairs [(k, v)]))"
    using entry [OF rd_at [OF at_append [OF at0]]] by (simp add: put_pairs_Cons add.assoc)
qed (rule inc)

lemma try_back [simp]:
  "try_u8 (ucast (b :: u8)) = Ok b" "try_u32 (ucast (w :: u32)) = Ok w"
  by (simp_all add: try_u8_def try_u32_def)

lemma message_kind_cast [simp]:
  "try_u8 (message_type_num k) = Ok (ucast (message_type_num k))"
  "ucast (ucast (message_type_num k) :: u8) = message_type_num k"
  by (cases k; simp add: try_u8_def)+

text \<open>Keys 0 to 2: version and message type.\<close>

lemma envelope_versions:
  assumes at: "at c p (put_pairs [(0, 1), (1, ucast minor), (2, message_type_num kind)] @ rest)"
  shows "envelope_loop c (3 + n) p None penv0 = envelope_loop c n
     (p + length (put_pairs [(0, 1), (1, ucast minor), (2, message_type_num kind)])) (Some 2)
     (penv0\<lparr>pe_major := Some 1, pe_minor := Some minor,
       pe_kind := Some (ucast (message_type_num kind))\<rparr>)"
proof -
  from at have at0: "at c p (put_pairs [(0, 1)] @ put_pairs [(1, ucast minor)] @
      put_pairs [(2, message_type_num kind)] @ rest)"
    by (simp add: put_pairs_Cons)
  note at1 = at_append [OF at0]
  note at2 = at_append [OF at1]
  have one: "try_u8 1 = Ok 1"
    by (simp add: try_u8_def)
  let ?q1 = "p + length (put_pairs [(0, 1)])"
  let ?q2 = "?q1 + length (put_pairs [(1, ucast minor)])"
  let ?q3 = "?q2 + length (put_pairs [(2, message_type_num kind)])"
  have "envelope_loop c (Suc (Suc (Suc n))) p None penv0 =
      envelope_loop c (Suc (Suc n)) ?q1 (Some 0) (penv0\<lparr>pe_major := Some 1\<rparr>)"
    by (rule envelope_pair [OF at0]) (simp_all add: envelope_entry_def one)
  also have "\<dots> = envelope_loop c (Suc n) ?q2 (Some 1)
      (penv0\<lparr>pe_major := Some 1, pe_minor := Some minor\<rparr>)"
    by (rule envelope_pair [OF at1]) (simp_all add: envelope_entry_def)
  also have "\<dots> = envelope_loop c n ?q3 (Some 2)
      (penv0\<lparr>pe_major := Some 1, pe_minor := Some minor,
        pe_kind := Some (ucast (message_type_num kind))\<rparr>)"
    by (rule envelope_pair [OF at2]) (simp_all add: envelope_entry_def)
  finally show ?thesis
    by (simp add: put_pairs_Cons numeral_3_eq_3 add.assoc del: envelope_loop.simps)
qed

text \<open>Keys 3 to 5: session, sequence, and the body, cut out by the skipper.\<close>

lemma envelope_session:
  assumes at: "at c p (uint_enc 0 3 @ str_enc session @ rest)" and "length session = 16"
  shows "envelope_loop c (Suc n) p (Some 2) a = envelope_loop c n
     (p + length (uint_enc 0 3) + length (str_enc session)) (Some 3) (a\<lparr>pe_session := Some session\<rparr>)"
  by (rule envelope_step [OF at])
    (use bytes_dec_at [OF at_append [OF at]] assms(2) in \<open>simp_all add: envelope_entry_def\<close>)

lemma envelope_body:
  assumes at: "at c p (uint_enc 0 5 @ body @ rest)" and len: "length c < 2 ^ 63"
    and skip: "skips skip_body body" and kind: "pe_kind a = Some (ucast (message_type_num kind))"
    and size: "kind = MtSnapshot \<or> length body \<le> 512"
  shows "envelope_loop c (Suc n) p (Some 4) a = envelope_loop c n
     (p + length (uint_enc 0 5) + length body) (Some 5) (a\<lparr>pe_body := Some body\<rparr>)"
proof (rule envelope_step [OF at])
  let ?q = "p + length (uint_enc 0 5)"
  note at1 = at_append [OF at]
  have fit: "?q + length body \<le> length c"
    using at_length [OF at1] by simp
  then have "usub (?q + length body) ?q = length body"
    using len by (subst usub_small) simp_all
  moreover have "sub_slice c ?q (?q + length body) = (Ok body :: (bytes, error) res)"
    using fit at_take [OF at1] by (simp add: sub_slice_def)
  ultimately show "envelope_entry c 5 ?q a = Ok (a\<lparr>pe_body := Some body\<rparr>, ?q + length body)"
    using skipsD [OF skip len at1] kind size by (auto simp: envelope_entry_def Let_def)
qed simp

text \<open>Keys 6 to 8: the optional clock fields. The Host's offset travels biased by 1440.\<close>

lemma penv_same:
  "pe_utc_ms a = None \<Longrightarrow> a\<lparr>pe_utc_ms := None\<rparr> = a"
  "pe_uncertainty a = None \<Longrightarrow> a\<lparr>pe_uncertainty := None\<rparr> = a"
  "pe_offset a = None \<Longrightarrow> a\<lparr>pe_offset := None\<rparr> = a"
  by (cases a; simp)+

lemma envelope_utc:
  assumes at: "at c p (put_opt (\<lambda>v. put_pairs [(6, v)]) u @ rest)"
    and "old < 6" and "pe_utc_ms a = None"
  shows "\<exists>old' < 7. envelope_loop c (cnt u + n) p (Some old) a = envelope_loop c n
     (p + length (put_opt (\<lambda>v. put_pairs [(6, v)]) u)) (Some old') (a\<lparr>pe_utc_ms := u\<rparr>)"
proof (cases u)
  case None
  moreover have "old < 7"
    using assms(2) by (simp add: word_less_nat_alt)
  ultimately show ?thesis
    using assms(3) by (auto simp: put_opt_def penv_same)
next
  case (Some v)
  with at have "at c p (put_pairs [(6, v)] @ rest)"
    by (simp add: put_opt_def)
  then have "envelope_loop c (Suc n) p (Some old) a = envelope_loop c n
      (p + length (put_pairs [(6, v)])) (Some 6) (a\<lparr>pe_utc_ms := Some v\<rparr>)"
    by (rule envelope_pair) (use assms(2) in \<open>simp_all add: envelope_entry_def\<close>)
  then show ?thesis
    by (intro exI [of _ 6]) (simp add: Some put_opt_def del: envelope_loop.simps)
qed

lemma envelope_uncertainty:
  assumes at: "at c p (put_opt (\<lambda>v. put_pairs [(7, ucast v)]) u @ rest)"
    and "old < 7" and "pe_uncertainty a = None"
  shows "\<exists>old' < 8. envelope_loop c (cnt u + n) p (Some old) a = envelope_loop c n
     (p + length (put_opt (\<lambda>v. put_pairs [(7, ucast v)]) u)) (Some old') (a\<lparr>pe_uncertainty := u\<rparr>)"
proof (cases u)
  case None
  moreover have "old < 8"
    using assms(2) by (simp add: word_less_nat_alt)
  ultimately show ?thesis
    using assms(3) by (auto simp: put_opt_def penv_same)
next
  case (Some v)
  with at have "at c p (put_pairs [(7, ucast v)] @ rest)"
    by (simp add: put_opt_def)
  then have "envelope_loop c (Suc n) p (Some old) a = envelope_loop c n
      (p + length (put_pairs [(7, ucast v)])) (Some 7) (a\<lparr>pe_uncertainty := Some v\<rparr>)"
    by (rule envelope_pair) (use assms(2) in \<open>simp_all add: envelope_entry_def\<close>)
  then show ?thesis
    by (intro exI [of _ 7]) (simp add: Some put_opt_def del: envelope_loop.simps)
qed

definition offset_ok :: "i16 option \<Rightarrow> bool" where
  "offset_ok off \<longleftrightarrow> (case off of None \<Rightarrow> True | Some w \<Rightarrow> - 1440 \<le> sint w \<and> sint w \<le> 1440)"

definition offset_bytes :: "i16 option \<Rightarrow> bytes" where
  "offset_bytes = put_opt (\<lambda>w. put_pairs [(8, scast (w + 1440))])"

lemma put_offset_Ok: "put_offset off = Ok b \<longleftrightarrow> offset_ok off \<and> b = offset_bytes off"
  by (auto simp: put_offset_def offset_ok_def offset_bytes_def put_opt_def split: option.splits)

lemma put_offset_Err: "\<not> offset_ok off \<Longrightarrow> put_offset off = Err Malformed"
  by (auto simp: put_offset_def offset_ok_def split: option.splits)

lemma sint_biased:
  fixes w :: i16
  assumes "- 1440 \<le> sint w" and "sint w \<le> 1440"
  shows "sint (w + 1440) = sint w + 1440"
proof -
  have "sint (w + 1440) = signed_take_bit 15 (sint w + sint (1440 :: i16))"
    by (simp add: sint_word_ariths)
  also have "sint (1440 :: i16) = 1440"
    by simp
  also have "signed_take_bit 15 (sint w + 1440) = sint w + 1440"
    using assms by (intro signed_take_bit_int_eq_self) simp_all
  finally show ?thesis .
qed

lemma biased_offset:
  fixes w :: i16
  assumes "- 1440 \<le> sint w" and "sint w \<le> 1440"
  shows "(scast (w + 1440) :: u64) \<le> 2880" and "ucast (scast (w + 1440) :: u64) - 1440 = w"
proof -
  have up: "uint (scast x :: u64) = take_bit 64 (sint x)" for x :: i16
    by (simp only: scast_eq unsigned_of_int) simp
  have "uint (scast (w + 1440) :: u64) = take_bit 64 (sint w + 1440)"
    by (simp only: up sint_biased [OF assms])
  also have "\<dots> = sint w + 1440"
    using assms by (intro take_bit_int_eq_self) simp_all
  finally have "uint (scast (w + 1440) :: u64) \<le> 2880"
    using assms by simp
  then show "(scast (w + 1440) :: u64) \<le> 2880"
    by (simp add: word_le_def)
  have "ucast (scast x :: u64) = x" for x :: i16
    by (rule bit_word_eqI) (auto simp: bit_simps)
  from this [of "w + 1440"] show "ucast (scast (w + 1440) :: u64) - 1440 = w"
    by simp
qed

lemma envelope_offset:
  assumes at: "at c p (offset_bytes u @ rest)" and ok: "offset_ok u"
    and "old < 8" and "pe_offset a = None"
  shows "envelope_loop c (cnt u) p (Some old) a =
     Ok (a\<lparr>pe_offset := u\<rparr>, p + length (offset_bytes u))"
proof (cases u)
  case None
  with assms(4) show ?thesis
    by (simp add: offset_bytes_def put_opt_def penv_same)
next
  case (Some w)
  with ok have w: "- 1440 \<le> sint w" "sint w \<le> 1440"
    by (simp_all add: offset_ok_def)
  from at Some have "at c p (put_pairs [(8, scast (w + 1440))] @ rest)"
    by (simp add: offset_bytes_def put_opt_def)
  then have "envelope_loop c (Suc 0) p (Some old) a = envelope_loop c 0
      (p + length (put_pairs [(8, scast (w + 1440))])) (Some 8) (a\<lparr>pe_offset := Some w\<rparr>)"
    by (rule envelope_pair)
      (use assms(3) biased_offset [OF w] in \<open>simp_all add: envelope_entry_def linorder_not_less [symmetric]\<close>)
  then show ?thesis
    by (simp add: Some offset_bytes_def put_opt_def)
qed

section \<open>Parsing what an encoder framed\<close>

definition envelope_ok :: "envelope \<Rightarrow> bool" where
  "envelope_ok e \<longleftrightarrow> env_major e = 1 \<and> wf_envelope e \<and> offset_ok (env_local_offset_minutes e)"

definition envelope_count :: "envelope \<Rightarrow> nat" where
  "envelope_count e = 6 + (cnt (env_utc_ms e) + (cnt (env_utc_uncertainty_ms e)
     + cnt (env_local_offset_minutes e)))"

lemma envelope_count_bound: "envelope_count e \<le> 9"
  using cnt_simps(3) [of "env_utc_ms e"] cnt_simps(3) [of "env_utc_uncertainty_ms e"]
    cnt_simps(3) [of "env_local_offset_minutes e"]
  by (simp add: envelope_count_def)

lemma envelope_head:
  "[0xa6 + flag (env_utc_ms e \<noteq> None) + flag (env_utc_uncertainty_ms e \<noteq> None)
      + flag (env_local_offset_minutes e \<noteq> None)] = uint_enc 5 (of_nat (envelope_count e))"
proof -
  have "envelope_count e < 24"
    using envelope_count_bound [of e] by simp
  from map_head_nat [OF this] show ?thesis
    unfolding flag_cnt envelope_count_def by (simp add: algebra_simps)
qed

definition frame_body :: "envelope \<Rightarrow> bytes \<Rightarrow> bytes" where
  "frame_body e body = put_envelope_head e @ body @ put_envelope_tail e
     @ offset_bytes (env_local_offset_minutes e)"

definition penv_of :: "envelope \<Rightarrow> bytes \<Rightarrow> penv" where
  "penv_of e body = \<lparr>pe_major = Some 1, pe_minor = Some (env_minor e),
     pe_kind = Some (ucast (message_type_num (env_kind e))), pe_session = Some (env_session e),
     pe_sequence = Some (env_sequence e), pe_body = Some body, pe_utc_ms = env_utc_ms e,
     pe_uncertainty = env_utc_uncertainty_ms e, pe_offset = env_local_offset_minutes e\<rparr>"

lemma envelope_from_penv_of: "env_major e = 1 \<Longrightarrow> envelope_from (penv_of e body) = Ok (e, body)"
  by (simp add: envelope_from_def penv_of_def)

text \<open>The optional entries after the body, up to the end of the map.\<close>

lemma envelope_optional:
  assumes at: "at c p (put_envelope_tail e @ offset_bytes (env_local_offset_minutes e))"
    and ok: "offset_ok (env_local_offset_minutes e)"
    and a: "pe_utc_ms a = None" "pe_uncertainty a = None" "pe_offset a = None"
  shows "envelope_loop c (cnt (env_utc_ms e) + (cnt (env_utc_uncertainty_ms e)
           + cnt (env_local_offset_minutes e))) p (Some 5) a =
     Ok (a\<lparr>pe_utc_ms := env_utc_ms e, pe_uncertainty := env_utc_uncertainty_ms e,
          pe_offset := env_local_offset_minutes e\<rparr>, length c)"
proof -
  let ?u = "put_opt (\<lambda>v. put_pairs [(6, v)]) (env_utc_ms e)"
  let ?n = "put_opt (\<lambda>v. put_pairs [(7, ucast v)]) (env_utc_uncertainty_ms e)"
  let ?o = "offset_bytes (env_local_offset_minutes e)"
  from at have at0: "at c p (?u @ ?n @ ?o @ [])"
    by (simp add: put_envelope_tail_def)
  note at1 = at_append [OF at0]
  note at2 = at_append [OF at1]
  have len: "length c = p + length ?u + length ?n + length ?o"
    using at_length [OF at0] by simp
  obtain k1 where k1: "k1 < 7" and one: "envelope_loop c (cnt (env_utc_ms e) +
      (cnt (env_utc_uncertainty_ms e) + cnt (env_local_offset_minutes e))) p (Some 5) a =
      envelope_loop c (cnt (env_utc_uncertainty_ms e) + cnt (env_local_offset_minutes e))
        (p + length ?u) (Some k1) (a\<lparr>pe_utc_ms := env_utc_ms e\<rparr>)"
    using envelope_utc [OF at0, of 5 a] a by auto
  obtain k2 where k2: "k2 < 8" and two: "envelope_loop c (cnt (env_utc_uncertainty_ms e)
      + cnt (env_local_offset_minutes e)) (p + length ?u) (Some k1) (a\<lparr>pe_utc_ms := env_utc_ms e\<rparr>) =
      envelope_loop c (cnt (env_local_offset_minutes e)) (p + length ?u + length ?n) (Some k2)
        (a\<lparr>pe_utc_ms := env_utc_ms e, pe_uncertainty := env_utc_uncertainty_ms e\<rparr>)"
    using envelope_uncertainty [OF at1 k1, of "a\<lparr>pe_utc_ms := env_utc_ms e\<rparr>"] a by auto
  show ?thesis
    unfolding one two
    using envelope_offset [OF at2 ok k2,
        of "a\<lparr>pe_utc_ms := env_utc_ms e, pe_uncertainty := env_utc_uncertainty_ms e\<rparr>"] a len
    by simp
qed

lemma parse_content_back:
  assumes ok: "envelope_ok e" and skip: "skips skip_body body"
    and size: "env_kind e = MtSnapshot \<or> length body \<le> 512"
    and len: "length (frame_body e body) < 2 ^ 63"
  shows "parse_content (frame_body e body) = Ok (e, body)"
proof -
  let ?c = "frame_body e body" and ?hd = "uint_enc 5 (of_nat (envelope_count e))"
  let ?v = "put_pairs [(0, 1), (1, ucast (env_minor e)), (2, message_type_num (env_kind e))]"
  let ?opt = "cnt (env_utc_ms e) + (cnt (env_utc_uncertainty_ms e)
     + cnt (env_local_offset_minutes e))"
  let ?tail = "put_envelope_tail e @ offset_bytes (env_local_offset_minutes e)"
  have major: "env_major e = 1" and sess: "length (env_session e) = 16"
    and off: "offset_ok (env_local_offset_minutes e)"
    using ok by (simp_all add: envelope_ok_def wf_envelope_def)
  have c: "?c = ?hd @ ?v @ (uint_enc 0 3 @ str_enc (env_session e)) @
      put_pairs [(4, ucast (env_sequence e))] @ (uint_enc 0 5 @ body) @ ?tail"
    by (simp add: frame_body_def put_envelope_head_def envelope_head [symmetric] major str_enc_def sess)
  have at0: "at ?c 0 (?hd @ ?v @ (uint_enc 0 3 @ str_enc (env_session e)) @
      put_pairs [(4, ucast (env_sequence e))] @ (uint_enc 0 5 @ body) @ ?tail)"
    by (subst c [symmetric]) (rule at_start)
  note at1 = at_append [OF at0]
  note at2 = at_append [OF at1]
  note at3 = at_append [OF at2]
  note at4 = at_append [OF at3]
  note at5 = at_append [OF at4]
  let ?a3 = "penv0\<lparr>pe_major := Some 1, pe_minor := Some (env_minor e),
      pe_kind := Some (ucast (message_type_num (env_kind e)))\<rparr>"
  let ?a4 = "?a3\<lparr>pe_session := Some (env_session e)\<rparr>"
  let ?a5 = "?a4\<lparr>pe_sequence := Some (env_sequence e)\<rparr>"
  let ?a6 = "?a5\<lparr>pe_body := Some body\<rparr>"
  let ?p1 = "0 + length ?hd" let ?p2 = "?p1 + length ?v"
  let ?p3 = "?p2 + length (uint_enc 0 3 @ str_enc (env_session e))"
  let ?p4 = "?p3 + length (put_pairs [(4, ucast (env_sequence e))])"
  let ?p5 = "?p4 + length (uint_enc 0 5 @ body)"
  have "envelope_loop ?c (3 + Suc (Suc (Suc ?opt))) ?p1 None penv0 =
      envelope_loop ?c (Suc (Suc (Suc ?opt))) ?p2 (Some 2) ?a3"
    by (rule envelope_versions [OF at1])
  also have "\<dots> = envelope_loop ?c (Suc (Suc ?opt)) ?p3 (Some 3) ?a4"
    using envelope_session [OF at2 [unfolded append_assoc] sess, of "Suc (Suc ?opt)" ?a3]
    by (simp add: add.assoc del: envelope_loop.simps)
  also have "\<dots> = envelope_loop ?c (Suc ?opt) ?p4 (Some 4) ?a5"
    by (rule envelope_pair [OF at3]) (simp_all add: envelope_entry_def)
  also have "\<dots> = envelope_loop ?c ?opt ?p5 (Some 5) ?a6"
    using envelope_body [OF at4 [unfolded append_assoc] len skip,
        where kind = "env_kind e" and a = ?a5 and n = ?opt] size
    by (simp add: add.assoc del: envelope_loop.simps)
  also have "\<dots> = Ok (penv_of e body, length ?c)"
    using envelope_optional [OF at5 off, of ?a6] by (simp add: penv0_def penv_of_def)
  finally have loop: "envelope_loop ?c (envelope_count e) ?p1 None penv0 = Ok (penv_of e body, length ?c)"
    by (simp add: envelope_count_def numeral_eq_Suc del: envelope_loop.simps)
  have "unat (of_nat (envelope_count e) :: u64) = envelope_count e"
    using envelope_count_bound [of e] by (intro unat_of_nat_u64) simp
  moreover from this have "\<not> 16 < (of_nat (envelope_count e) :: u64)"
    using envelope_count_bound [of e] by (simp add: word_less_nat_alt)
  moreover have "pe_major (penv_of e body) = Some 1"
    by (simp add: penv_of_def)
  ultimately show ?thesis
    using loop envelope_from_penv_of [OF major, of body]
    by (simp add: parse_content_def map_head_at [OF at0])
qed

lemma parse_envelope_back:
  assumes "envelope_ok e" and "skips skip_body body"
    and "env_kind e = MtSnapshot \<or> length body \<le> 512"
    and len: "length (frame_body e body) \<le> 2042"
  shows "parse_envelope (frame_of (frame_body e body)) = Ok (e, body)"
proof -
  have "frame_body e body \<noteq> []"
    by (simp add: frame_body_def put_envelope_head_def)
  then show ?thesis
    using frame_content_frame_of [OF _ len] parse_content_back [OF assms(1-3)] len
    by (simp add: parse_envelope_def)
qed

end
