(* ===== verification/Control_Codec.thy ===== *)
theory Control_Codec
  imports Envelope_Codec
begin

text \<open>
  The control bodies: \<open>decode_control_body\<close> reads back what \<open>encode_control\<close> writes, and the
  skipper finds the end of each.
\<close>

section \<open>The control loop\<close>

lemma control_pair:
  assumes at: "at c p (put_pairs [(k, v)] @ rest)"
    and "\<And>old. prior = Some old \<Longrightarrow> old < k"
    and "unat k \<le> kmax" and "\<not> (kind = MtPair \<and> unat k < 2)"
  shows "control_loop kind kmax c (Suc n) p prior flds ids =
         control_loop kind kmax c n (p + length (put_pairs [(k, v)])) (Some k)
           (flds[unat k := Some v]) ids"
proof -
  have at0: "at c p (uint_enc 0 k @ uint_enc 0 v @ rest)"
    using at by (simp add: put_pairs_Cons)
  show ?thesis
    using assms(2-4) rd_at [OF at0] rd_at [OF at_append [OF at0]]
    by (auto simp: put_pairs_Cons add.assoc not_le split: option.split)
qed

lemma control_pairs:
  assumes "at c p (put_pairs kvs @ rest)"
    and "sorted_wrt (<) (map fst kvs)"
    and "\<forall>k \<in> set (map fst kvs). unat k \<le> kmax \<and> \<not> (kind = MtPair \<and> unat k < 2)
           \<and> (\<forall>old. prior = Some old \<longrightarrow> old < k)"
  shows "control_loop kind kmax c (length kvs) p prior flds ids =
         Ok (fold (\<lambda>(k, v) w. w[unat k := Some v]) kvs flds, ids, p + length (put_pairs kvs))"
  using assms
proof (induction kvs arbitrary: p prior flds)
  case Nil
  then show ?case by simp
next
  case (Cons kv kvs)
  obtain k v where kv: "kv = (k, v)"
    by (cases kv)
  from Cons.prems(1) have at: "at c p (put_pairs [(k, v)] @ put_pairs kvs @ rest)"
    by (simp add: kv put_pairs_Cons)
  have "control_loop kind kmax c (Suc (length kvs)) p prior flds ids =
      control_loop kind kmax c (length kvs) (p + length (put_pairs [(k, v)])) (Some k)
        (flds[unat k := Some v]) ids"
    using Cons.prems(3) by (intro control_pair [OF at]) (auto simp: kv)
  also have "\<dots> = Ok (fold (\<lambda>(k, v) w. w[unat k := Some v]) kvs (flds[unat k := Some v]), ids,
      p + length (put_pairs [(k, v)]) + length (put_pairs kvs))"
    using Cons.prems(2,3) by (intro Cons.IH [OF at_append [OF at]]) (auto simp: kv)
  finally show ?case
    by (simp add: kv put_pairs_Cons add.assoc)
qed

lemma control_identity:
  assumes at: "at c p ((uint_enc 0 k @ str_enc b) @ rest)" and "length b = 16"
    and "\<And>old. prior = Some old \<Longrightarrow> old < k" and "unat k < 2"
  shows "control_loop MtPair 2 c (Suc n) p prior flds ids =
         control_loop MtPair 2 c n (p + length (uint_enc 0 k @ str_enc b)) (Some k) flds
           (ids[unat k := Some b])"
proof -
  have at0: "at c p (uint_enc 0 k @ str_enc b @ rest)"
    using at by simp
  have "bytes_dec c (p + length (uint_enc 0 k)) 16 =
      Ok (b, p + length (uint_enc 0 k) + length (str_enc b))"
    using bytes_dec_at [OF at_append [OF at0]] assms(2) by simp
  then show ?thesis
    using assms(3,4) rd_at [OF at0] by (auto simp: add.assoc not_le split: option.split)
qed

text \<open>A body that is one map of integers: its head and loop.\<close>

lemma control_map_body:
  assumes body: "body = uint_enc 5 (of_nat (length kvs)) @ put_pairs kvs"
    and "length kvs \<le> 16" and "sorted_wrt (<) (map fst kvs)"
    and "\<forall>k \<in> set (map fst kvs). unat k \<le> kmax" and "kind \<noteq> MtPair"
  shows "read_uint body 0 5 = Some (of_nat (length kvs), length (uint_enc 5 (of_nat (length kvs))))"
    and "\<not> 16 < (of_nat (length kvs) :: u64)"
    and "control_loop kind kmax body (unat (of_nat (length kvs) :: u64))
           (length (uint_enc 5 (of_nat (length kvs)))) None flds ids =
         Ok (fold (\<lambda>(k, v) w. w[unat k := Some v]) kvs flds, ids, length body)"
proof -
  have at: "at body 0 (uint_enc 5 (of_nat (length kvs)) @ put_pairs kvs @ [])"
    using at_start [of body] by (simp add: body)
  have n: "unat (of_nat (length kvs) :: u64) = length kvs"
    using assms(2) by (intro unat_of_nat_u64) simp
  show "read_uint body 0 5 = Some (of_nat (length kvs), length (uint_enc 5 (of_nat (length kvs))))"
    using map_head_at [OF at] by simp
  show "\<not> 16 < (of_nat (length kvs) :: u64)"
    using assms(2) n by (simp add: word_less_nat_alt)
  show "control_loop kind kmax body (unat (of_nat (length kvs) :: u64))
           (length (uint_enc 5 (of_nat (length kvs)))) None flds ids =
         Ok (fold (\<lambda>(k, v) w. w[unat k := Some v]) kvs flds, ids, length body)"
    using control_pairs [OF at_append [OF at], of kmax kind None flds ids] assms(3-5) n
    by (simp add: body)
qed

section \<open>Bodies\<close>

fun control_kind :: "control_body \<Rightarrow> message_type" where
  "control_kind (BHello v) = MtHello"
| "control_kind (BHelloReply v) = MtHelloReply"
| "control_kind (BPair v) = MtPair"
| "control_kind (BCommand v) = MtCommand"
| "control_kind (BCommandReply v) = MtCommandReply"
| "control_kind (BError v) = MtError"

text \<open>What \<open>encode_control\<close> accepts beyond the matching message type.\<close>

definition control_ok :: "control_body \<Rightarrow> bool" where
  "control_ok b \<longleftrightarrow> wf_control b \<and>
     (case b of
        BPair p \<Rightarrow> 100000 \<le> pair_matching_code p \<and> pair_matching_code p \<le> 999999
      | BError d \<Rightarrow> length d \<le> 509
      | _ \<Rightarrow> True)"

definition hello_kvs :: "hello_body \<Rightarrow> (u64 \<times> u64) list" where
  "hello_kvs v =
     [(0, ucast (hel_supported_major v)), (1, ucast (hel_supported_minor v)),
      (2, ucast (hel_capabilities v)), (3, ucast (hel_configuration_revision v))] @
     (case hel_utc_ms v of None \<Rightarrow> [] | Some t \<Rightarrow> [(4, t)]) @
     (case hel_utc_uncertainty_ms v of None \<Rightarrow> [] | Some u \<Rightarrow> [(5, ucast u)])"

lemma put_hello_kvs: "put_hello v = uint_enc 5 (of_nat (length (hello_kvs v))) @ put_pairs (hello_kvs v)"
  by (cases "hel_utc_ms v"; cases "hel_utc_uncertainty_ms v")
    (simp_all add: put_hello_def hello_kvs_def put_opt_def flag_def map_heads put_pairs_Cons)

lemma hello_kvs_shape:
  "length (hello_kvs v) \<le> 6" "sorted_wrt (<) (map fst (hello_kvs v))"
  "\<forall>k \<in> set (map fst (hello_kvs v)). unat k \<le> 5"
  by (auto simp: hello_kvs_def split: option.split)

lemma hello_from_kvs:
  "hello_from (fold (\<lambda>(k, v) w. w[unat k := Some v]) (hello_kvs v) (replicate 6 None)) = Ok v"
  by (cases "hel_utc_ms v"; cases "hel_utc_uncertainty_ms v")
    (simp_all add: hello_from_def hello_kvs_def replicates)

lemma decode_hello_back:
  "decode_control_body MtHello (put_hello v) = Ok (BHello v)"
  "decode_control_body MtHelloReply (put_hello v) = Ok (BHelloReply v)"
proof -
  have len: "length (hello_kvs v) \<le> 16"
    using hello_kvs_shape(1) [of v] by simp
  note body = control_map_body [OF put_hello_kvs len hello_kvs_shape(2,3)]
  show "decode_control_body MtHello (put_hello v) = Ok (BHello v)"
    "decode_control_body MtHelloReply (put_hello v) = Ok (BHelloReply v)"
    using body [of MtHello] body [of MtHelloReply]
    by (simp_all add: decode_control_body_def known_max_def hello_from_kvs)
qed

lemma decode_command_back:
  assumes "body = uint_enc 5 2 @ put_pairs [(0, ucast (cmd_command_identity v)),
             (1, command_operation_num (cmd_operation v))]"
  shows "decode_control_body MtCommand body = Ok (BCommand v)"
proof -
  let ?kvs = "[(0, ucast (cmd_command_identity v)), (1, command_operation_num (cmd_operation v))]
      :: (u64 \<times> u64) list"
  have body: "body = uint_enc 5 (of_nat (length ?kvs)) @ put_pairs ?kvs"
    by (simp add: assms)
  note b = control_map_body [OF body, of 1 MtCommand]
  show ?thesis
    using b by (simp add: decode_control_body_def known_max_def command_from_def replicates)
qed

lemma decode_reply_back:
  assumes "body = uint_enc 5 3 @ put_pairs [(0, ucast (rep_command_identity v)),
             (1, command_operation_num (rep_operation v)), (2, command_result_num (rep_result v))]"
  shows "decode_control_body MtCommandReply body = Ok (BCommandReply v)"
proof -
  let ?kvs = "[(0, ucast (rep_command_identity v)), (1, command_operation_num (rep_operation v)),
      (2, command_result_num (rep_result v))] :: (u64 \<times> u64) list"
  have body: "body = uint_enc 5 (of_nat (length ?kvs)) @ put_pairs ?kvs"
    by (simp add: assms)
  note b = control_map_body [OF body, of 2 MtCommandReply]
  show ?thesis
    using b by (simp add: decode_control_body_def known_max_def command_reply_from_def replicates)
qed

lemma put_pair_strs:
  assumes "length (pair_pairing_identity v) = 16" and "length (pair_intended_peer_identity v) = 16"
  shows "put_pair v = uint_enc 5 3 @ (uint_enc 0 0 @ str_enc (pair_pairing_identity v)) @
    (uint_enc 0 1 @ str_enc (pair_intended_peer_identity v)) @
    put_pairs [(2, ucast (pair_matching_code v))]"
  using assms by (simp add: put_pair_def str_enc_def map_heads)

lemma decode_pair_back:
  assumes "control_ok (BPair v)"
  shows "decode_control_body MtPair (put_pair v) = Ok (BPair v)"
proof -
  have len: "length (pair_pairing_identity v) = 16" "length (pair_intended_peer_identity v) = 16"
    and code: "100000 \<le> pair_matching_code v" "pair_matching_code v \<le> 999999"
    using assms by (simp_all add: control_ok_def wf_control_def)
  let ?c = "put_pair v"
  let ?i0 = "uint_enc 0 0 @ str_enc (pair_pairing_identity v)"
  let ?i1 = "uint_enc 0 1 @ str_enc (pair_intended_peer_identity v)"
  let ?k = "put_pairs [(2, ucast (pair_matching_code v))]"
  have at0: "at ?c 0 (uint_enc 5 3 @ ?i0 @ ?i1 @ ?k @ [])"
    using at_start [of ?c] put_pair_strs [OF len] by simp
  note at1 = at_append [OF at0]
  note at2 = at_append [OF at1]
  note at3 = at_append [OF at2]
  let ?p1 = "0 + length (uint_enc 5 3)"
  have "control_loop MtPair 2 ?c (Suc (Suc (Suc 0))) ?p1 None (replicate 6 None) (replicate 2 None) =
      control_loop MtPair 2 ?c (Suc (Suc 0)) (?p1 + length ?i0) (Some 0) (replicate 6 None)
        [Some (pair_pairing_identity v), None]"
    using control_identity [OF at1 len(1), of None "Suc (Suc 0)"]
    by (simp add: replicates del: control_loop.simps)
  also have "\<dots> = control_loop MtPair 2 ?c (Suc 0) (?p1 + length ?i0 + length ?i1) (Some 1)
      (replicate 6 None) [Some (pair_pairing_identity v), Some (pair_intended_peer_identity v)]"
    using control_identity [OF at2 len(2), of "Some 0" "Suc 0"]
    by (simp del: control_loop.simps)
  also have "\<dots> = control_loop MtPair 2 ?c 0 (?p1 + length ?i0 + length ?i1 + length ?k) (Some 2)
      ((replicate 6 None)[unat (2 :: u64) := Some (ucast (pair_matching_code v))])
      [Some (pair_pairing_identity v), Some (pair_intended_peer_identity v)]"
    by (rule control_pair [OF at3]) simp_all
  also have "?p1 + length ?i0 + length ?i1 + length ?k = length ?c"
    using put_pair_strs [OF len] by simp
  finally have loop: "control_loop MtPair 2 ?c 3 ?p1 None (replicate 6 None) (replicate 2 None) =
      Ok ([None, None, Some (ucast (pair_matching_code v)), None, None, None],
          [Some (pair_pairing_identity v), Some (pair_intended_peer_identity v)], length ?c)"
    by (simp add: replicates numeral_3_eq_3 [symmetric] del: control_loop.simps(2))
  show ?thesis
    using code map_head_at [OF at0] loop
    by (simp add: decode_control_body_def known_max_def pair_from_def del: control_loop.simps)
qed

lemma decode_error_back:
  assumes "length d \<le> 509"
  shows "decode_control_body MtError (str_enc d) = Ok (BError d)"
proof -
  let ?h = "uint_enc 2 (of_nat (length d))"
  have at: "at (str_enc d) 0 (str_enc d @ [])"
    using at_start [of "str_enc d"] by simp
  have d: "unat (of_nat (length d) :: u64) = length d"
    using assms by (intro unat_of_nat_u64) simp
  have h: "length ?h \<le> 9"
    by (rule length_uint_enc)
  have "uadd (length ?h) (length d) = length (str_enc d)"
    using assms h by (subst uadd_small) (simp_all add: str_enc_def)
  then show ?thesis
    using str_head_at(1) [OF at] d
    by (simp add: decode_control_body_def sub_slice_def) (simp add: str_enc_def)
qed

section \<open>Skipping control bodies\<close>

lemma skip_pairs_body:
  assumes "length kvs \<le> 16" and "n = of_nat (length kvs)"
  shows "skips skip_body (uint_enc 5 n @ put_pairs kvs)"
  using skip_body_map [of "pair_members kvs"] assms by simp

lemma put_control_facts:
  assumes "control_ok b" and kind: "env_kind e = control_kind b"
  shows "\<exists>body. put_control e b = Ok body \<and> length body \<le> 512 \<and> skips skip_body body
     \<and> decode_control_body (control_kind b) body = Ok b"
proof -
  note pairs = length_put_pairs
  have hello: "length (put_hello v) \<le> 512 \<and> skips skip_body (put_hello v)" for v
    using hello_kvs_shape(1) [of v] pairs [of "hello_kvs v"]
      length_uint_enc [of 5 "of_nat (length (hello_kvs v))"]
    by (auto simp: put_hello_kvs intro: skip_pairs_body)
  show ?thesis
  proof (cases b)
    case (BHello v)
    with hello [of v] kind show ?thesis by (simp add: decode_hello_back)
  next
    case (BHelloReply v)
    with hello [of v] kind show ?thesis by (simp add: decode_hello_back)
  next
    case (BPair v)
    with assms have "length (pair_pairing_identity v) = 16"
      "length (pair_intended_peer_identity v) = 16"
      by (simp_all add: control_ok_def wf_control_def)
    note strs = put_pair_strs [OF this]
    let ?ms = "[uint_enc 0 0 @ str_enc (pair_pairing_identity v),
        uint_enc 0 1 @ str_enc (pair_intended_peer_identity v),
        uint_enc 0 2 @ uint_enc 0 (ucast (pair_matching_code v))]"
    have "put_pair v = uint_enc 5 (of_nat (length ?ms)) @ concat ?ms"
      by (simp add: strs put_pairs_Cons)
    moreover have "list_all body_member ?ms"
      by (simp add: body_member_simple)
    ultimately have "skips skip_body (put_pair v)"
      using skip_body_map [of ?ms] by simp
    moreover have "length (put_pair v) \<le> 512"
      using pairs [of "[(2, ucast (pair_matching_code v))]"] assms BPair
      by (simp add: put_pair_def control_ok_def wf_control_def uint_enc_def)
    ultimately show ?thesis
      using BPair assms decode_pair_back [of v] by (auto simp: control_ok_def)
  next
    case (BCommand v)
    let ?kvs = "[(0, ucast (cmd_command_identity v)), (1, command_operation_num (cmd_operation v))]
      :: (u64 \<times> u64) list"
    have "skips skip_body (uint_enc 5 2 @ put_pairs ?kvs)"
      by (rule skip_pairs_body) simp_all
    with BCommand kind decode_command_back [OF refl, of v] pairs [of ?kvs]
      length_uint_enc [of 5 2] show ?thesis
      by (simp add: map_heads)
  next
    case (BCommandReply v)
    let ?kvs = "[(0, ucast (rep_command_identity v)), (1, command_operation_num (rep_operation v)),
      (2, command_result_num (rep_result v))] :: (u64 \<times> u64) list"
    have "skips skip_body (uint_enc 5 3 @ put_pairs ?kvs)"
      by (rule skip_pairs_body) simp_all
    with BCommandReply kind decode_reply_back [OF refl, of v] pairs [of ?kvs]
      length_uint_enc [of 5 3] show ?thesis
      by (simp add: map_heads)
  next
    case (BError d)
    with assms have d: "length d \<le> 509"
      by (simp add: control_ok_def)
    then have "(of_nat (length d) :: u64) \<le> 65535"
      by (simp add: word_le_nat_alt unat_of_nat_u64)
    then have "length (str_enc d) \<le> 512"
      using d by (simp add: str_enc_def uint_enc_def)
    with BError kind d decode_error_back [OF d] skip_body_str [of d] show ?thesis
      by (simp add: str_enc_def)
  qed
qed

end
