(* ===== verification/Codec_Correct.thy ===== *)
theory Codec_Correct
  imports Control_Codec
begin

text \<open>
  The codec as a whole: encoders succeed within the frame limit on every value their checks
  admit, and every decoder entry point returns exactly what was encoded.
\<close>

section \<open>Sizes\<close>

lemma length_put_opt: "(\<And>x. v = Some x \<Longrightarrow> length (f x) \<le> n) \<Longrightarrow> length (put_opt f v) \<le> n"
  by (cases v) (simp_all add: put_opt_def)

lemma length_groups:
  "length (ram_map r) \<le> 91" "length (storage_map t) \<le> 145" "length (battery_map b) \<le> 181"
  using length_put_pairs [of "[(0, availability_num (ram_availability r)), (1, ram_used_bytes r),
      (2, ram_total_bytes r), (3, ucast (ram_source_age_ms r)),
      (4, freshness_num (ram_freshness r))]"]
    length_put_pairs [of "[(0, availability_num (sto_capacity_availability t)), (1, sto_total_bytes t),
      (2, sto_available_bytes t), (3, ucast (sto_capacity_age_ms t)),
      (4, availability_num (sto_io_availability t)), (5, sto_read_bytes_per_s t),
      (6, sto_write_bytes_per_s t), (7, ucast (sto_io_age_ms t))]"]
    length_put_pairs [of "[(0, availability_num (bat_charge_availability b)),
      (1, ucast (bat_charge_per_mille b)), (2, ucast (bat_state b)),
      (3, ucast (bat_time_remaining_min b)), (4, ucast (bat_charge_age_ms b)),
      (5, availability_num (bat_condition_availability b)),
      (6, ucast (bat_max_capacity_per_mille b)), (7, ucast (bat_condition b)),
      (8, ucast (bat_cycle_count b)), (9, ucast (bat_condition_age_ms b))]"]
  by (simp_all add: ram_map_def storage_map_def battery_map_def)

lemma length_agents: "agents_ok a \<Longrightarrow> length (agents_map a) \<le> 127"
  using length_put_pairs [of "[(0, availability_num (agt_availability a)), (1, ucast (agt_source_age_ms a))]"]
    length_put_pairs [of "map (\<lambda>(slot, state). (2 + of_nat slot, ucast state))
       (zip [0..<length (agt_state a)] (agt_state a))"]
  by (simp add: agents_map_def agents_ok_def AGENT_SLOTS_def)

lemma length_network:
  assumes "network_ok n"
  shows "length (network_map n) \<le> 305"
proof -
  have ok: "network_is_valid n" "wf_mac (net_station n)" "wf_mac (net_bssid n)"
    using assms by (simp_all add: network_ok_def)
  have pb: "length (put_bytes k x) \<le> 18 + length x" for k x
    using length_uint_enc [of 0 k] length_str_enc [of x] by (simp add: put_bytes_str)
  have links: "length (put_opt (\<lambda>links. put_bytes 13 (map (\<lambda>k. ucast (route_kind_num k)) links)) (net_links n)) \<le> 26"
  proof (rule length_put_opt)
    fix ks assume "net_links n = Some ks"
    then show "length (put_bytes 13 (map (\<lambda>k. ucast (route_kind_num k)) ks)) \<le> 26"
      using valid_links(1) [OF ok(1)] pb [of 13 "map (\<lambda>k. ucast (route_kind_num k)) ks"]
      by (simp add: MAX_LINKS_def)
  qed
  show ?thesis
    using length_put_pairs [of "[(0, availability_num (net_traffic_availability n)),
        (1, ucast (net_traffic_age_ms n)), (2, route_kind_num (net_route_kind n)),
        (3, if net_via_tunnel n then 1 else 0), (4, net_rx_bytes_per_s n), (5, net_tx_bytes_per_s n),
        (6, association_context_num (net_context_availability n)),
        (7, ucast (net_context_age_ms n)), (8, wifi_coverage_num (net_coverage n)),
        (9, ucast (net_channel n))]"]
      pb [of 10 "case net_station n of None \<Rightarrow> [] | Some m \<Rightarrow> m"] mac_length [OF ok(2)]
      pb [of 11 "net_ssid n"] valid_ssid [OF ok(1)]
      pb [of 12 "case net_bssid n of None \<Rightarrow> [] | Some m \<Rightarrow> m"] mac_length [OF ok(3)] links
    by (simp add: network_map_def MAX_SSID_BYTES_def)
qed

lemma length_snapshot:
  assumes "snapshot_admitted s"
  shows "length (put_snapshot s) \<le> 985"
proof -
  note parts = snapshot_admitted_parts [OF assms]
  have grp: "length m \<le> n \<Longrightarrow> length (uint_enc 0 k @ m) \<le> 9 + n" for k m n
    using length_uint_enc [of 0 k] by simp
  have "length (put_cpu (snap_cpu s)) \<le> 90"
    using length_put_pairs [of "[(0, availability_num (cpu_availability (snap_cpu s))),
      (1, ucast (cpu_utilization_per_mille (snap_cpu s))),
      (2, ucast (cpu_source_age_ms (snap_cpu s))), (3, freshness_num (cpu_freshness (snap_cpu s))),
      (4, ucast (cpu_configuration_revision (snap_cpu s)))]"]
    by (simp add: put_cpu_def)
  moreover have "length (put_opt (\<lambda>g. uint_enc 0 5 @ ram_map g) (snap_ram s)) \<le> 100"
    by (intro length_put_opt order.trans [OF grp [OF length_groups(1)]]) simp
  moreover have "length (put_opt (\<lambda>g. uint_enc 0 6 @ storage_map g) (snap_storage s)) \<le> 154"
    by (intro length_put_opt order.trans [OF grp [OF length_groups(2)]]) simp
  moreover have "length (put_opt (\<lambda>g. uint_enc 0 7 @ battery_map g) (snap_battery s)) \<le> 190"
    by (intro length_put_opt order.trans [OF grp [OF length_groups(3)]]) simp
  moreover have "length (put_opt (\<lambda>g. uint_enc 0 8 @ agents_map g) (snap_agents s)) \<le> 136"
    by (intro length_put_opt order.trans [OF grp [OF length_agents [OF parts(4)]]]) simp_all
  moreover have "length (put_opt (\<lambda>g. uint_enc 0 9 @ network_map g) (snap_network s)) \<le> 314"
    by (intro length_put_opt order.trans [OF grp [OF length_network [OF parts(5)]]]) simp_all
  ultimately show ?thesis
    by (simp add: put_snapshot_def)
qed

lemma length_frame_body:
  assumes "wf_envelope e"
  shows "length (frame_body e body) \<le> length body + 180"
proof -
  have u: "length (put_opt (\<lambda>v. put_pairs [(6, v)]) (env_utc_ms e)) \<le> 18"
    using length_put_pairs [of "[(6, v)]" for v] by (intro length_put_opt) simp
  have v: "length (put_opt (\<lambda>v. put_pairs [(7, ucast v)]) (env_utc_uncertainty_ms e)) \<le> 18"
    using length_put_pairs [of "[(7, ucast v)]" for v] by (intro length_put_opt) simp
  have o: "length (offset_bytes (env_local_offset_minutes e)) \<le> 18"
    unfolding offset_bytes_def using length_put_pairs [of "[(8, v)]" for v]
    by (intro length_put_opt) simp
  show ?thesis
    using assms u v o length_put_pairs [of "[(0, ucast (env_major e)), (1, ucast (env_minor e)),
        (2, message_type_num (env_kind e))]"] length_put_pairs [of "[(4, ucast (env_sequence e))]"]
      length_uint_enc [of 0 3] length_uint_enc [of 2 16] length_uint_enc [of 0 5]
    by (simp add: frame_body_def put_envelope_head_def put_envelope_tail_def wf_envelope_def)
qed

section \<open>Encoding\<close>

lemma put_offset_bytes: "offset_ok off \<Longrightarrow> put_offset off = Ok (offset_bytes off)"
  by (simp add: put_offset_Ok)

lemma encode_groups_frame:
  assumes "wf_envelope e" and "offset_ok (env_local_offset_minutes e)" and "snapshot_admitted s"
  shows "encode_groups e s = Ok (frame_of (frame_body e (put_snapshot s)))"
  using assms length_snapshot [OF assms(3)] length_frame_body [OF assms(1), of "put_snapshot s"]
  by (simp add: encode_groups_def snapshot_admitted_def close_frame_Ok frame_body_def put_offset_bytes)

lemma encode_frame_frame:
  assumes "wf_envelope e" and "offset_ok (env_local_offset_minutes e)" and "length body \<le> 512"
  shows "encode_frame e body = Ok (frame_of (frame_body e body))"
  using assms length_frame_body [OF assms(1), of body]
  by (simp add: encode_frame_def close_frame_Ok frame_body_def put_offset_bytes)

lemma decode_framed_snapshot:
  assumes "envelope_ok e" and "env_kind e = MtSnapshot" and "snapshot_admitted s"
  shows "parse_envelope (frame_of (frame_body e (put_snapshot s))) = Ok (e, put_snapshot s)"
    and "length (frame_body e (put_snapshot s)) \<le> 1165"
proof -
  show len: "length (frame_body e (put_snapshot s)) \<le> 1165"
    using length_snapshot [OF assms(3)] length_frame_body [of e "put_snapshot s"] assms(1)
    by (simp add: envelope_ok_def)
  show "parse_envelope (frame_of (frame_body e (put_snapshot s))) = Ok (e, put_snapshot s)"
    using assms len by (intro parse_envelope_back skip_snapshot) simp_all
qed

lemma control_framed:
  assumes "envelope_ok e" and "env_kind e = control_kind b" and "control_ok b"
  obtains c where "encode_control e b = Ok (frame_of c)" and "c \<noteq> []" and "length c \<le> 692"
    and "decode (frame_of c) = Ok (MsgControl e b)" and "decode_control (frame_of c) = Ok (e, b)"
proof -
  obtain body where body: "put_control e b = Ok body" "length body \<le> 512"
    and skip: "skips skip_body body" and dec: "decode_control_body (control_kind b) body = Ok b"
    using put_control_facts [OF assms(3,2)] by blast
  have wf: "wf_envelope e" "offset_ok (env_local_offset_minutes e)"
    using assms(1) by (simp_all add: envelope_ok_def)
  have len: "length (frame_body e body) \<le> 692"
    using length_frame_body [OF wf(1), of body] body(2) by simp
  have "parse_envelope (frame_of (frame_body e body)) = Ok (e, body)"
    using len body(2) by (intro parse_envelope_back assms(1) skip) simp_all
  moreover have "control_kind b \<noteq> MtSnapshot"
    by (cases b) simp_all
  moreover have "frame_body e body \<noteq> []"
    by (simp add: frame_body_def put_envelope_head_def)
  ultimately show ?thesis
    using encode_frame_frame [OF wf body(2)] body(1) dec assms(2) len
    by (intro that [of "frame_body e body"]) (simp_all add: encode_control_def decode_def decode_control_def)
qed

section \<open>Round trips\<close>

lemma admitted_snapshot_back:
  assumes "envelope_ok e" and "env_kind e = MtSnapshot" and "snapshot_admitted s"
  obtains f where "encode_groups e s = Ok f" and "length f \<le> 1171"
    and "cpu_in_bounds s \<Longrightarrow> decode f = Ok (MsgSnapshot e s) \<and> decode_snapshot f = Ok (e, s)
      \<and> decode_cpu f = Ok (e, snap_cpu s)"
    and "\<not> cpu_in_bounds s \<Longrightarrow> decode f = Err Malformed \<and> decode_snapshot f = Err Malformed
      \<and> decode_cpu f = Err Malformed"
proof (rule that)
  let ?f = "frame_of (frame_body e (put_snapshot s))"
  note parsed = decode_framed_snapshot [OF assms]
  show "encode_groups e s = Ok ?f"
    using assms by (intro encode_groups_frame) (simp_all add: envelope_ok_def)
  show "length ?f \<le> 1171"
    using parsed(2) by simp
  show "decode ?f = Ok (MsgSnapshot e s) \<and> decode_snapshot ?f = Ok (e, s)
      \<and> decode_cpu ?f = Ok (e, snap_cpu s)" if "cpu_in_bounds s"
    using parsed(1) decode_cpu_body_back [of s] that assms
    by (simp add: snapshot_ok_def decode_def decode_snapshot_def decode_cpu_def)
  show "decode ?f = Err Malformed \<and> decode_snapshot ?f = Err Malformed
      \<and> decode_cpu ?f = Err Malformed" if "\<not> cpu_in_bounds s"
    using parsed(1) decode_cpu_body_over [OF that] assms
    by (simp add: decode_def decode_snapshot_def decode_cpu_def)
qed

text \<open>
  C1. Every snapshot in an envelope of this version is either refused by the encoder's checks
  with \<open>Malformed\<close>, or encoded into a frame of at most 1171 bytes (never \<open>TooLarge\<close>).  When its
  CPU utilization is at most 1000 per mille, \<open>decode\<close>, \<open>decode_snapshot\<close> and \<open>decode_cpu\<close> give
  back the envelope and the snapshot (its CPU part) from that frame.  The encoder does not
  check that bound: with a larger utilization it still makes the frame, and all three decoders
  refuse it with \<open>Malformed\<close>.
\<close>

theorem snapshot_roundtrip:
  assumes "envelope_ok e" and "env_kind e = MtSnapshot" and "wf_snapshot s"
  shows "if snapshot_refused s then encode_groups e s = Err Malformed
     else \<exists>f. encode_groups e s = Ok f \<and> length f \<le> 1171
       \<and> (if cpu_utilization_per_mille (snap_cpu s) \<le> 1000
          then decode f = Ok (MsgSnapshot e s) \<and> decode_snapshot f = Ok (e, s)
            \<and> decode_cpu f = Ok (e, snap_cpu s)
          else decode f = Err Malformed \<and> decode_snapshot f = Err Malformed
            \<and> decode_cpu f = Err Malformed)"
proof (cases "snapshot_refused s")
  case True
  then show ?thesis
    using assms by (simp add: encode_groups_def envelope_ok_def put_offset_bytes)
next
  case False
  with assms(3) have "snapshot_admitted s"
    by (simp add: snapshot_admitted_def)
  from admitted_snapshot_back [OF assms(1,2) this] False show ?thesis
    unfolding cpu_in_bounds_def by auto
qed

definition sample_envelope :: "message_type \<Rightarrow> envelope" where
  "sample_envelope k = \<lparr>env_major = 1, env_minor = 0, env_kind = k, env_session = replicate 16 7,
     env_sequence = 9, env_utc_ms = Some 1700000000000, env_utc_uncertainty_ms = Some 20,
     env_local_offset_minutes = Some (- 300)\<rparr>"

definition sample_snapshot :: snapshot where
  "sample_snapshot =
     \<lparr>snap_cpu = \<lparr>cpu_availability = Available, cpu_utilization_per_mille = 723,
        cpu_source_age_ms = 0, cpu_freshness = Fresh, cpu_configuration_revision = 3\<rparr>,
      snap_ram = Some \<lparr>ram_availability = Available, ram_used_bytes = 8000000000,
        ram_total_bytes = 16000000000, ram_source_age_ms = 5, ram_freshness = Stale\<rparr>,
      snap_storage = Some \<lparr>sto_capacity_availability = Available, sto_total_bytes = 500,
        sto_available_bytes = 100, sto_capacity_age_ms = 1, sto_io_availability = Absent,
        sto_read_bytes_per_s = 0, sto_write_bytes_per_s = 0, sto_io_age_ms = 0\<rparr>,
      snap_battery = Some \<lparr>bat_charge_availability = Available, bat_charge_per_mille = 1000,
        bat_state = 4, bat_time_remaining_min = 65535, bat_charge_age_ms = 0,
        bat_condition_availability = Available, bat_max_capacity_per_mille = 880,
        bat_condition = 1, bat_cycle_count = 210, bat_condition_age_ms = 70000\<rparr>,
      snap_agents = Some \<lparr>agt_availability = Available, agt_source_age_ms = 100,
        agt_state = [0, 1, 2, 3, 0]\<rparr>,
      snap_network = Some \<lparr>net_traffic_availability = Available, net_traffic_age_ms = 0,
        net_route_kind = RouteWifi, net_via_tunnel = True, net_rx_bytes_per_s = 12345,
        net_tx_bytes_per_s = 678, net_context_availability = CtxAvailable,
        net_context_age_ms = 3000, net_coverage = CovObservable, net_channel = 6,
        net_station = Some [2, 0, 0, 0, 0, 1], net_ssid = [104, 111, 109, 101],
        net_bssid = Some [2, 0, 0, 0, 0, 2], net_links = Some [RouteWifi, RouteEthernet]\<rparr>\<rparr>"

lemma sample_envelope_ok: "envelope_ok (sample_envelope k)" "env_kind (sample_envelope k) = k"
  by (simp_all add: sample_envelope_def envelope_ok_def wf_envelope_def offset_ok_def)

lemma sample_snapshot_ok: "snapshot_ok sample_snapshot"
  by (simp add: sample_snapshot_def snapshot_ok_def snapshot_admitted_def cpu_in_bounds_def
      snapshot_refused_def wf_snapshot_def wf_mac_def network_is_valid_def AGENT_SLOTS_def MAX_SSID_BYTES_def MAX_LINKS_def)

definition overfull_snapshot :: snapshot where
  "overfull_snapshot = sample_snapshot\<lparr>snap_cpu := (snap_cpu sample_snapshot)
     \<lparr>cpu_utilization_per_mille := 1001\<rparr>\<rparr>"

lemma overfull_snapshot_admitted: "snapshot_admitted overfull_snapshot"
  using snapshot_okD(1) [OF sample_snapshot_ok]
  by (simp add: overfull_snapshot_def snapshot_admitted_def snapshot_refused_def wf_snapshot_def)

theorem snapshot_roundtrip_witness:
  "(\<exists>f. encode_groups (sample_envelope MtSnapshot) sample_snapshot = Ok f
     \<and> decode f = Ok (MsgSnapshot (sample_envelope MtSnapshot) sample_snapshot))
   \<and> (\<exists>f. encode_groups (sample_envelope MtSnapshot) overfull_snapshot = Ok f
     \<and> decode f = Err Malformed)"
proof -
  have "\<not> snapshot_refused sample_snapshot" "wf_snapshot sample_snapshot"
    "cpu_utilization_per_mille (snap_cpu sample_snapshot) \<le> 1000"
    using snapshot_okD [OF sample_snapshot_ok] by (simp_all add: cpu_in_bounds_def)
  moreover have "\<not> snapshot_refused overfull_snapshot" "wf_snapshot overfull_snapshot"
    "\<not> cpu_utilization_per_mille (snap_cpu overfull_snapshot) \<le> 1000"
    using overfull_snapshot_admitted
    by (simp_all add: snapshot_admitted_def) (simp add: overfull_snapshot_def)
  ultimately show ?thesis
    using snapshot_roundtrip [OF sample_envelope_ok, of sample_snapshot]
      snapshot_roundtrip [OF sample_envelope_ok, of overfull_snapshot] by auto
qed

text \<open>
  Every well-formed control message whose envelope names its type is encoded into a frame
  within the limit, and \<open>decode\<close> and \<open>decode_control\<close> give it back.
\<close>

theorem control_roundtrip:
  assumes "envelope_ok e" and "env_kind e = control_kind b" and "control_ok b"
  shows "\<exists>f. encode_control e b = Ok f \<and> length f \<le> 698 \<and> decode f = Ok (MsgControl e b)
     \<and> decode_control f = Ok (e, b)"
  using control_framed [OF assms] by fastforce

theorem control_roundtrip_witness:
  "\<exists>f. encode_control (sample_envelope MtPair) (BPair \<lparr>pair_pairing_identity = replicate 16 1,
        pair_intended_peer_identity = replicate 16 0, pair_matching_code = 123456\<rparr>) = Ok f
     \<and> decode_control f = Ok (sample_envelope MtPair, BPair \<lparr>pair_pairing_identity = replicate 16 1,
        pair_intended_peer_identity = replicate 16 0, pair_matching_code = 123456\<rparr>)"
  using control_roundtrip [of "sample_envelope MtPair" "BPair \<lparr>pair_pairing_identity = replicate 16 1,
        pair_intended_peer_identity = replicate 16 0, pair_matching_code = 123456\<rparr>"]
  by (auto simp: sample_envelope_ok control_ok_def wf_control_def)

end
