(* ===== verification/Integrity.thy ===== *)
theory Integrity
  imports Codec_Correct
begin

text \<open>
  What the CRC guarantees: one step of the shift register is linear and injective, so damage
  within four consecutive bytes always changes the checksum, and \<open>decode\<close> reports it.
\<close>

section \<open>The shift register\<close>

lemma crc_bit_alt:
  "crc_bit c = drop_bit 1 c XOR (if bit c 0 then 0xedb88320 else 0)"
proof -
  have "c AND 1 = (if bit c 0 then 1 else 0)"
    by (rule bit_word_eqI) (auto simp: bit_simps intro: gr0I)
  then show ?thesis
    by (simp add: crc_bit_def)
qed

lemma xor_cancel:
  fixes x y z :: "'a::len word"
  shows "x XOR y = x XOR z \<longleftrightarrow> y = z" and "y XOR x = z XOR x \<longleftrightarrow> y = z"
  by (auto simp: bit_eq_iff bit_xor_iff)

lemma crc_bit_xor: "crc_bit (x XOR y) = crc_bit x XOR crc_bit y"
  by (simp add: crc_bit_alt bit_xor_iff xor.assoc xor.left_commute xor.commute)

lemma bit_drop_1:
  fixes x :: "'a::len word"
  shows "bit (drop_bit 1 x) n = bit x (Suc n)"
  by (simp add: bit_drop_bit_eq)

lemma crc_bit_inject:
  assumes "crc_bit x = crc_bit y"
  shows "x = y"
proof -
  have top: "bit (crc_bit c) 31 = bit c 0" for c
    using bit_imp_le_length [of c 32] by (auto simp: crc_bit_alt bit_simps)
  have low: "bit x 0 = bit y 0"
    using top [of x] top [of y] assms by simp
  then have "drop_bit 1 x = drop_bit 1 y"
    using assms by (simp only: crc_bit_alt xor_cancel)
  then have "bit (drop_bit 1 x) n = bit (drop_bit 1 y) n" for n
    by (simp only:)
  then have "bit x (Suc n) = bit y (Suc n)" for n
    by (simp only: bit_drop_1)
  with low have "bit x n = bit y n" for n
    by (cases n) simp_all
  then show ?thesis
    by (intro bit_word_eqI) blast
qed

lemma crc_bits_xor: "(crc_bit ^^ n) (x XOR y) = (crc_bit ^^ n) x XOR (crc_bit ^^ n) y"
  by (induction n arbitrary: x y) (simp_all add: crc_bit_xor)

lemma crc_bits_inject: "(crc_bit ^^ n) x = (crc_bit ^^ n) y \<Longrightarrow> x = y"
  by (induction n arbitrary: x y) (auto dest: crc_bit_inject)

text \<open>Bits above the low end are only shifted down.\<close>

lemma crc_bits_shift:
  assumes "take_bit (32 - n) w = w" and "n \<le> 32"
  shows "(crc_bit ^^ n) (push_bit n w) = w"
  using assms
proof (induction n)
  case 0
  show ?case by simp
next
  case (Suc n)
  have b: "bit w i \<Longrightarrow> i < 32 - Suc n" for i
    using arg_cong [OF Suc.prems(1), of "\<lambda>x. bit x i"] by (simp add: bit_take_bit_iff)
  have "crc_bit (push_bit (Suc n) w) = push_bit n w"
  proof (rule bit_word_eqI)
    fix i assume "i < LENGTH(32)"
    have "\<not> bit (push_bit (Suc n) w) 0"
      by (simp only: bit_push_bit_iff) simp
    then have "crc_bit (push_bit (Suc n) w) = drop_bit 1 (push_bit (Suc n) w)"
      by (simp only: crc_bit_alt) simp
    then show "bit (crc_bit (push_bit (Suc n) w)) i = bit (push_bit n w) i"
      using b [of "i - n"] by (auto simp: bit_drop_1 bit_push_bit_iff simp del: push_bit_Suc One_nat_def drop_bit_Suc)
  qed
  moreover have "take_bit (32 - n) w = w"
    by (rule bit_word_eqI) (auto simp: bit_simps dest: b)
  ultimately show ?case
    using Suc.IH Suc.prems(2) by (simp add: funpow_Suc_right del: funpow.simps)
qed

section \<open>Bursts\<close>

fun le_word :: "bytes \<Rightarrow> u32" where
  "le_word [] = 0"
| "le_word (b # bs) = ucast b XOR push_bit 8 (le_word bs)"

lemma le_word_bound:
  "length bs \<le> 4 \<Longrightarrow> take_bit (8 * length bs) (le_word bs) = le_word bs"
proof (induction bs)
  case Nil
  show ?case by simp
next
  case (Cons b bs)
  have IH: "take_bit (8 * length bs) (le_word bs) = le_word bs"
    using Cons by simp
  have w: "bit (le_word bs) i \<Longrightarrow> i < 8 * length bs" for i
    using arg_cong [OF IH, of "\<lambda>x. bit x i"] by (simp add: bit_take_bit_iff)
  show ?case
    by (rule bit_word_eqI) (auto simp: bit_simps dest: w bit_u8)
qed

lemma ucast_u8_u32: "ucast (ucast (b :: u8) :: u32) = b"
  by (rule ucast_ucast_up) simp

lemma le_word_inject:
  "length xs = length ys \<Longrightarrow> length xs \<le> 4 \<Longrightarrow> le_word xs = le_word ys \<Longrightarrow> xs = ys"
proof (induction xs ys rule: list_induct2)
  case Nil
  show ?case by simp
next
  case (Cons x xs y ys)
  have bits: "bit (ucast x XOR push_bit 8 (le_word xs)) i = bit (ucast y XOR push_bit 8 (le_word ys)) i" for i
    using Cons.prems(2) by simp
  have low: "(take_bit 8 (ucast b XOR push_bit 8 w) :: u32) = ucast b" for b :: u8 and w
    by (rule bit_word_eqI) (auto simp: bit_simps dest: bit_u8)
  have "(ucast x :: u32) = ucast y"
    using arg_cong [OF Cons.prems(2), of "take_bit 8"] by (simp only: le_word.simps low)
  then have xy: "x = y"
    by (metis ucast_u8_u32)
  have fit: "length bs \<le> 3 \<Longrightarrow> drop_bit 8 (push_bit 8 (le_word bs)) = le_word bs" for bs
  proof -
    assume len: "length bs \<le> 3"
    have w: "bit (le_word bs) i \<Longrightarrow> i < 24" for i
      using arg_cong [OF le_word_bound [of bs], of "\<lambda>x. bit x i"] len
      by (simp add: bit_take_bit_iff)
    show "drop_bit 8 (push_bit 8 (le_word bs)) = le_word bs"
      by (rule bit_word_eqI) (auto simp: bit_simps dest: w)
  qed
  have "push_bit 8 (le_word xs) = push_bit 8 (le_word ys)"
    using Cons.prems(2) xy by (simp add: xor_cancel)
  then have "drop_bit 8 (push_bit 8 (le_word xs)) = drop_bit 8 (push_bit 8 (le_word ys))"
    by (rule arg_cong)
  moreover have "length xs \<le> 3" and "length ys \<le> 3"
    using Cons by simp_all
  ultimately have "le_word xs = le_word ys"
    by (simp only: fit)
  then show ?case
    using Cons xy by simp
qed

lemma crc_fold_burst:
  "length bs \<le> 4 \<Longrightarrow> fold crc_byte bs c = (crc_bit ^^ (8 * length bs)) (c XOR le_word bs)"
proof (induction bs arbitrary: c)
  case Nil
  show ?case by simp
next
  case (Cons b bs)
  have fit: "take_bit 24 (le_word bs) = le_word bs"
  proof -
    have w: "bit (le_word bs) i \<Longrightarrow> i < 24" for i
      using arg_cong [OF le_word_bound [of bs], of "\<lambda>x. bit x i"] Cons.prems
      by (simp add: bit_take_bit_iff)
    show ?thesis
      by (rule bit_word_eqI) (auto simp: bit_simps dest: w)
  qed
  have shift: "(crc_bit ^^ 8) (push_bit 8 (le_word bs)) = le_word bs"
    using fit by (intro crc_bits_shift) simp_all
  have "fold crc_byte (b # bs) c = fold crc_byte bs ((crc_bit ^^ 8) (c XOR ucast b))"
    by (simp add: crc_byte_def)
  also have "\<dots> = (crc_bit ^^ (8 * length bs)) ((crc_bit ^^ 8) (c XOR ucast b) XOR le_word bs)"
    using Cons by simp
  also have "\<dots> = (crc_bit ^^ (8 * length bs)) ((crc_bit ^^ 8) ((c XOR ucast b) XOR push_bit 8 (le_word bs)))"
    by (simp only: crc_bits_xor [of 8 "c XOR ucast b"] shift)
  also have "\<dots> = (crc_bit ^^ (8 * length bs + 8)) (c XOR le_word (b # bs))"
    by (simp only: funpow_add o_apply le_word.simps xor.assoc)
  finally show ?case
    by (simp add: add.commute)
qed

lemma crc_fold_inject: "fold crc_byte bs c = fold crc_byte bs d \<Longrightarrow> c = d"
proof (induction bs arbitrary: c d)
  case Nil
  then show ?case by simp
next
  case (Cons b bs)
  then have "(crc_bit ^^ 8) (c XOR ucast b) = (crc_bit ^^ 8) (d XOR ucast b)"
    by (simp add: crc_byte_def)
  then have "c XOR ucast b = d XOR ucast b"
    by (rule crc_bits_inject)
  then show ?case by (simp only: xor_cancel)
qed

lemma crc32_burst:
  assumes "length xs = length ys" and "length xs \<le> 4" and eq: "crc32 (a @ xs @ b) = crc32 (a @ ys @ b)"
  shows "xs = ys"
proof -
  let ?c = "fold crc_byte a 0xffffffff"
  have "fold crc_byte b (fold crc_byte xs ?c) = fold crc_byte b (fold crc_byte ys ?c)"
    using eq by (simp add: crc32_def)
  then have "fold crc_byte xs ?c = fold crc_byte ys ?c"
    by (rule crc_fold_inject)
  then have "(crc_bit ^^ (8 * length xs)) (?c XOR le_word xs) = (crc_bit ^^ (8 * length xs)) (?c XOR le_word ys)"
    using assms by (simp add: crc_fold_burst)
  then have "?c XOR le_word xs = ?c XOR le_word ys"
    by (rule crc_bits_inject)
  then show ?thesis
    using assms by (intro le_word_inject) (simp_all only: xor_cancel)
qed


lemma frame_content_corrupt:
  assumes "c \<noteq> []" and "length c \<le> 2042" and "crc32 c \<noteq> k"
  shows "frame_content (be_bytes 2 (of_nat (length c + 4) :: u16) @ c @ be_bytes 4 k) = Err BadCrc"
proof -
  let ?f = "be_bytes 2 (of_nat (length c + 4) :: u16) @ c @ be_bytes 4 k"
  have "take 2 ?f = be_bytes 2 (of_nat (length c + 4) :: u16)"
    by simp
  then have hd: "unat (be_value (take 2 ?f) :: u16) = length c + 4"
    using frame_length_field [of "length c + 4"] assms(2) by (simp only:)
  have ct: "drop 2 (take (length ?f - 4) ?f) = c"
    by simp
  have tl: "drop (length ?f - 4) ?f = be_bytes 4 k"
    by simp
  have crc: "be_value (be_bytes 4 k) = k"
    by (rule be_value_be_bytes_full) simp
  have "0 < length c"
    using assms(1) by simp
  then show ?thesis
    using assms(2,3)
    unfolding frame_content_def Let_def hd ct tl crc
    by (simp add: MAX_FRAME_BYTES_def)
qed

section \<open>Damage is reported\<close>

text \<open>
  C6. A frame in which up to four consecutive bytes of the CBOR content \<open>a @ xs @ b\<close> were
  changed (to \<open>a @ ys @ b\<close>) while its length field and its CRC are the sender's is rejected
  with \<open>BadCrc\<close> by every decoder, whatever the content and wherever the damage is.
\<close>

theorem burst_is_detected:
  assumes "length ys = length xs" and "length xs \<le> 4" and "ys \<noteq> xs"
    and "length (a @ xs @ b) \<le> 2042"
    and "f = be_bytes 2 (of_nat (length (a @ xs @ b) + 4) :: u16) @ (a @ ys @ b)
             @ be_bytes 4 (crc32 (a @ xs @ b))"
  shows "decode f = Err BadCrc \<and> decode_snapshot f = Err BadCrc \<and> decode_control f = Err BadCrc"
proof -
  have "crc32 (a @ ys @ b) \<noteq> crc32 (a @ xs @ b)"
    using crc32_burst [of ys xs a b] assms by auto
  moreover have "a @ ys @ b \<noteq> []"
    using assms(1,3) by auto
  moreover have "length (a @ ys @ b) = length (a @ xs @ b)"
    using assms(1) by simp
  ultimately have "frame_content f = Err BadCrc"
    using frame_content_corrupt [of "a @ ys @ b"] assms(4,5) by metis
  then show ?thesis
    by (simp_all add: decode_def decode_snapshot_def decode_control_def parse_envelope_def)
qed

theorem burst_is_detected_witness:
  "decode (be_bytes 2 (9 :: u16) @ ([0xa1] @ [2, 3, 4] @ [0]) @ be_bytes 4 (crc32 ([0xa1] @ [1, 3, 5] @ [0])))
     = Err BadCrc"
  by (rule burst_is_detected [THEN conjunct1, of "[2, 3, 4]" "[1, 3, 5]" "[0xa1]" "[0]"]) simp_all

end
