(* ===== verification/Sample_Cache.thy ===== *)
theory Sample_Cache
  imports Prelude
begin

text \<open>
  \<open>SampleCache\<close> of \<^verbatim>\<open>host/metrics/src/cache.rs\<close>, the cached sample of a slow source, against
  an abstract specification: the log of the answers the source has given.
\<close>

section \<open>The cache\<close>

record refresh_policy =
  rp_refresh_ms :: u64
  rp_retry_until_sampled :: bool

record 'a sample_cache =
  sch_policy :: refresh_policy
  sch_sample :: "('a \<times> u64) option"
  sch_next_refresh_ms :: u64
  sch_failing_since_ms :: "u64 option"

definition cache_new :: "refresh_policy \<Rightarrow> 'a sample_cache" where
  "cache_new policy = \<lparr>sch_policy = policy, sch_sample = None, sch_next_refresh_ms = 0,
     sch_failing_since_ms = None\<rparr>"

definition begin_refresh :: "u64 \<Rightarrow> 'a sample_cache \<Rightarrow> bool \<times> 'a sample_cache" where
  "begin_refresh now_ms c =
     (let due = (sch_next_refresh_ms c \<le> now_ms
                 \<or> (rp_retry_until_sampled (sch_policy c) \<and> sch_sample c = None))
      in (due, if due then c\<lparr>sch_next_refresh_ms := sat_add now_ms (rp_refresh_ms (sch_policy c))\<rparr>
               else c))"

definition succeed :: "'a \<Rightarrow> u64 \<Rightarrow> 'a sample_cache \<Rightarrow> 'a sample_cache" where
  "succeed v now_ms c = c\<lparr>sch_sample := Some (v, now_ms), sch_failing_since_ms := None\<rparr>"

definition fail :: "u64 \<Rightarrow> 'a sample_cache \<Rightarrow> 'a sample_cache" where
  "fail now_ms c = c\<lparr>sch_failing_since_ms :=
     (case sch_failing_since_ms c of None \<Rightarrow> Some now_ms | Some t \<Rightarrow> Some t)\<rparr>"

definition cache_clear :: "'a sample_cache \<Rightarrow> 'a sample_cache" where
  "cache_clear c = c\<lparr>sch_sample := None, sch_failing_since_ms := None\<rparr>"

text \<open>\<open>refresh_with\<close>; \<open>answer\<close> is what the source returns if it is asked.\<close>

definition refresh_with :: "u64 \<Rightarrow> 'a option \<Rightarrow> 'a sample_cache \<Rightarrow> 'a sample_cache" where
  "refresh_with now_ms answer c =
     (let (due, c) = begin_refresh now_ms c
      in if due then (case answer of Some v \<Rightarrow> succeed v now_ms c | None \<Rightarrow> fail now_ms c) else c)"

definition expire :: "'a sample_cache \<Rightarrow> 'a sample_cache" where
  "expire c = c\<lparr>sch_next_refresh_ms := 0\<rparr>"

record 'a cached =
  ca_value :: 'a
  ca_age_ms :: u64

definition cache_get :: "u64 \<Rightarrow> 'a sample_cache \<Rightarrow> 'a cached option" where
  "cache_get now_ms c = map_option (\<lambda>(v, sampled_ms).
     \<lparr>ca_value = v, ca_age_ms = sat_sub now_ms sampled_ms\<rparr>) (sch_sample c)"

definition wire_age_ms :: "'a cached \<Rightarrow> u32" where
  "wire_age_ms c = ucast (min (ca_age_ms c) 0xffffffff)"

section \<open>The log of a source\<close>

text \<open>
  Runs of the cache: the collector's calls, each with the source's answer. The log holds the
  calls on which the source was asked.
\<close>

datatype 'a cache_op = Refresh u64 "'a option" | Expire

fun cache_step :: "'a cache_op \<Rightarrow> 'a sample_cache \<Rightarrow> 'a sample_cache" where
  "cache_step (Refresh now_ms answer) c = refresh_with now_ms answer c"
| "cache_step Expire c = expire c"

fun asked :: "'a cache_op \<Rightarrow> 'a sample_cache \<Rightarrow> (u64 \<times> 'a option) list" where
  "asked (Refresh now_ms answer) c = (if fst (begin_refresh now_ms c) then [(now_ms, answer)] else [])"
| "asked Expire c = []"

fun cache_run :: "'a cache_op list \<Rightarrow> 'a sample_cache \<Rightarrow> (u64 \<times> 'a option) list \<times> 'a sample_cache" where
  "cache_run [] c = ([], c)"
| "cache_run (oper # ops) c =
     (let (log, d) = cache_run ops (cache_step oper c) in (asked oper c @ log, d))"

text \<open>The abstract state: the last good answer and the first failure after it.\<close>

fun last_answer :: "(u64 \<times> 'a option) list \<Rightarrow> ('a \<times> u64) option \<Rightarrow> ('a \<times> u64) option" where
  "last_answer [] s = s"
| "last_answer ((t, Some v) # log) s = last_answer log (Some (v, t))"
| "last_answer ((t, None) # log) s = last_answer log s"

fun failing_from :: "(u64 \<times> 'a option) list \<Rightarrow> u64 option \<Rightarrow> u64 option" where
  "failing_from [] s = s"
| "failing_from ((t, Some v) # log) s = failing_from log None"
| "failing_from ((t, None) # log) s = failing_from log (case s of None \<Rightarrow> Some t | Some u \<Rightarrow> Some u)"

lemma cache_run_refines:
  "cache_run ops c = (log, d) \<Longrightarrow> sch_sample d = last_answer log (sch_sample c)
     \<and> sch_failing_since_ms d = failing_from log (sch_failing_since_ms c) \<and> sch_policy d = sch_policy c"
proof (induction ops arbitrary: c log)
  case Nil
  then show ?case by simp
next
  case (Cons oper ops)
  obtain l where l: "cache_run ops (cache_step oper c) = (l, d)" "log = asked oper c @ l"
    using Cons.prems by (auto split: prod.splits)
  show ?case
    using Cons.IH [OF l(1)] l(2)
    by (cases oper) (auto simp: refresh_with_def begin_refresh_def Let_def succeed_def fail_def expire_def
        split: option.splits)
qed

section \<open>Spacing\<close>

definition spaced :: "u64 \<Rightarrow> (u64 \<times> 'a option) list \<Rightarrow> bool" where
  "spaced refresh_ms log = successively (\<lambda>a b. sat_add (fst a) refresh_ms \<le> fst b) log"

lemma cache_run_spacing:
  "cache_run ops c = (log, d) \<Longrightarrow> Expire \<notin> set ops \<Longrightarrow>
   \<not> rp_retry_until_sampled (sch_policy c) \<or> sch_sample c \<noteq> None \<Longrightarrow>
   spaced (rp_refresh_ms (sch_policy c)) log
     \<and> (log \<noteq> [] \<longrightarrow> sch_next_refresh_ms c \<le> fst (hd log))"
proof (induction ops arbitrary: c log)
  case Nil
  then show ?case by (auto simp: spaced_def)
next
  case (Cons oper ops)
  obtain l where l: "cache_run ops (cache_step oper c) = (l, d)" "log = asked oper c @ l"
    using Cons.prems(1) by (auto split: prod.splits)
  obtain t a where oper: "oper = Refresh t a"
    using Cons.prems(2) by (cases oper) auto
  have pol: "sch_policy (cache_step oper c) = sch_policy c"
    and keep: "sch_sample c \<noteq> None \<Longrightarrow> sch_sample (cache_step oper c) \<noteq> None"
    by (auto simp: oper refresh_with_def begin_refresh_def Let_def succeed_def fail_def split: option.splits)
  note IH = Cons.IH [OF l(1)]
  have tail: "spaced (rp_refresh_ms (sch_policy c)) l"
    and first: "l \<noteq> [] \<Longrightarrow> sch_next_refresh_ms (cache_step oper c) \<le> fst (hd l)"
    using IH Cons.prems pol keep by auto
  show ?case
  proof (cases "sch_next_refresh_ms c \<le> t")
    case True
    then have "sch_next_refresh_ms (cache_step oper c) = sat_add t (rp_refresh_ms (sch_policy c))"
      by (auto simp: oper refresh_with_def begin_refresh_def Let_def succeed_def fail_def split: option.splits)
    moreover have "log = (t, a) # l"
      using True l(2) by (simp add: oper begin_refresh_def Let_def)
    ultimately show ?thesis
      using tail first True by (cases l) (auto simp: spaced_def)
  next
    case False
    then have "cache_step oper c = c" "log = l"
      using Cons.prems(3) l(2) by (auto simp: oper refresh_with_def begin_refresh_def Let_def)
    then show ?thesis
      using tail first by simp
  qed
qed

section \<open>Properties\<close>

text \<open>
  C4. The cache implements its specification: after any run of calls and wakes, a new cache
  holds the source's last good answer with the time it was given, reports its age from that
  time, and dates the failure from the first failed attempt after it. No failed attempt
  re-dates or drops a value.
\<close>

theorem cache_keeps_last_answer:
  assumes "cache_run ops (cache_new policy) = (log, c)"
  shows "cache_get now c = map_option (\<lambda>(v, t). \<lparr>ca_value = v, ca_age_ms = sat_sub now t\<rparr>) (last_answer log None)
     \<and> sch_failing_since_ms c = failing_from log None"
  using cache_run_refines [OF assms] by (simp add: cache_get_def cache_new_def)

theorem cache_keeps_last_answer_witness:
  "cache_get 70 (snd (cache_run [Refresh 0 (Some (7::nat)), Refresh 60 None]
      (cache_new \<lparr>rp_refresh_ms = 30, rp_retry_until_sampled = False\<rparr>)))
     = Some \<lparr>ca_value = (7::nat), ca_age_ms = 70\<rparr>"
proof -
  let ?c = "cache_new \<lparr>rp_refresh_ms = 30, rp_retry_until_sampled = False\<rparr>"
  have run: "fst (cache_run [Refresh 0 (Some (7::nat)), Refresh 60 None] ?c) = [(0, Some (7::nat)), (60, None)]"
    by (simp add: cache_new_def refresh_with_def begin_refresh_def sat_add_def succeed_def)
  show ?thesis
    using cache_keeps_last_answer [where ops = "[Refresh 0 (Some (7::nat)), Refresh 60 None]"
        and policy = "\<lparr>rp_refresh_ms = 30, rp_retry_until_sampled = False\<rparr>" and now = 70,
        OF prod.collapse [symmetric]]
    unfolding run by (simp add: sat_sub_def)
qed

text \<open>
  A slow source is not asked too often: between two wakes, once it has been sampled (or
  unless the policy asks until then), any two successive attempts are a whole refresh interval
  apart, failed attempts included.
\<close>

theorem attempts_are_spaced:
  assumes "cache_run ops c = (log, d)" and "Expire \<notin> set ops"
    and "\<not> rp_retry_until_sampled (sch_policy c) \<or> sch_sample c \<noteq> None"
  shows "successively (\<lambda>a b. sat_add (fst a) (rp_refresh_ms (sch_policy c)) \<le> fst b) log"
  using cache_run_spacing [OF assms] by (simp add: spaced_def)

theorem attempts_are_spaced_witness:
  "successively (\<lambda>a b. sat_add (fst a) 30 \<le> fst b)
     (fst (cache_run [Refresh 0 (None :: nat option), Refresh 10 None, Refresh 30 None]
        (cache_new \<lparr>rp_refresh_ms = 30, rp_retry_until_sampled = False\<rparr>)))"
  using attempts_are_spaced [where ops = "[Refresh 0 (None :: nat option), Refresh 10 None, Refresh 30 None]"
      and c = "cache_new \<lparr>rp_refresh_ms = 30, rp_retry_until_sampled = False\<rparr>",
      OF prod.collapse [symmetric]]
  by (simp add: cache_new_def)

end
