(* ===== verification/Rust_Text.thy ===== *)
theory Rust_Text
  imports Prelude
begin

text \<open>
  The string operations of the Rust standard library that the sources use. A Rust string is
  its sequence of UTF-8 bytes, here a HOL \<open>string\<close> whose characters are bytes, so lengths and
  comparisons are those of the sources.
\<close>

section \<open>Bytes of a string\<close>

definition byte :: "char \<Rightarrow> nat" where
  "byte c = of_char c"

lemma byte_less: "byte c < 256"
  using nat_of_char_less_256 [of c] by (simp add: byte_def)

lemma byte_inject [simp]: "byte c = byte d \<longleftrightarrow> c = d"
  by (simp add: byte_def)

definition is_ascii_digit :: "char \<Rightarrow> bool" where
  "is_ascii_digit c \<longleftrightarrow> 48 \<le> byte c \<and> byte c \<le> 57"

definition is_ascii_alphabetic :: "char \<Rightarrow> bool" where
  "is_ascii_alphabetic c \<longleftrightarrow> 65 \<le> byte c \<and> byte c \<le> 90 \<or> 97 \<le> byte c \<and> byte c \<le> 122"

definition is_ascii_alphanumeric :: "char \<Rightarrow> bool" where
  "is_ascii_alphanumeric c \<longleftrightarrow> is_ascii_digit c \<or> is_ascii_alphabetic c"

definition is_ascii_hexdigit :: "char \<Rightarrow> bool" where
  "is_ascii_hexdigit c \<longleftrightarrow> is_ascii_digit c \<or> 65 \<le> byte c \<and> byte c \<le> 70 \<or> 97 \<le> byte c \<and> byte c \<le> 102"

section \<open>Searching and splitting\<close>

definition strip_prefix :: "string \<Rightarrow> string \<Rightarrow> string option" where
  "strip_prefix p s = (if take (length p) s = p then Some (drop (length p) s) else None)"

definition strip_suffix :: "string \<Rightarrow> string \<Rightarrow> string option" where
  "strip_suffix p s =
     (if length p \<le> length s \<and> drop (length s - length p) s = p
      then Some (take (length s - length p) s) else None)"

text \<open>\<open>split(c)\<close>: the pieces between the separators, always at least one.\<close>

fun split_on :: "char \<Rightarrow> string \<Rightarrow> string list" where
  "split_on x [] = [[]]"
| "split_on x (c # cs) =
     (if c = x then [] # split_on x cs
      else (case split_on x cs of [] \<Rightarrow> [[c]] | p # ps \<Rightarrow> (c # p) # ps))"

text \<open>\<open>find\<close> of one of several characters, and \<open>split_once\<close>.\<close>

definition split_at_first :: "(char \<Rightarrow> bool) \<Rightarrow> string \<Rightarrow> (string \<times> string) option" where
  "split_at_first f s =
     (case dropWhile (\<lambda>c. \<not> f c) s of
        [] \<Rightarrow> None
      | _ # rest \<Rightarrow> Some (takeWhile (\<lambda>c. \<not> f c) s, rest))"

section \<open>Numbers\<close>

fun decimal :: "string \<Rightarrow> nat \<Rightarrow> nat" where
  "decimal [] acc = acc"
| "decimal (c # cs) acc = decimal cs (acc * 10 + (byte c - 48))"

definition hex_digit :: "char \<Rightarrow> nat" where
  "hex_digit c = (if byte c \<le> 57 then byte c - 48
     else if byte c \<le> 70 then byte c - 55 else byte c - 87)"

section \<open>UTF-8\<close>

definition cont_byte :: "nat \<Rightarrow> bool" where
  "cont_byte b \<longleftrightarrow> 128 \<le> b \<and> b \<le> 191"

text \<open>The byte sequences that \<open>str::from_utf8\<close> accepts.\<close>

fun utf8_bytes :: "nat list \<Rightarrow> bool" where
  "utf8_bytes [] = True"
| "utf8_bytes (a # rest) =
     (if a < 128 then utf8_bytes rest
      else if 194 \<le> a \<and> a \<le> 223 then
        (case rest of b # r \<Rightarrow> cont_byte b \<and> utf8_bytes r | _ \<Rightarrow> False)
      else if 224 \<le> a \<and> a \<le> 239 then
        (case rest of b # c # r \<Rightarrow>
           (if a = 224 then 160 \<le> b \<and> b \<le> 191 else if a = 237 then 128 \<le> b \<and> b \<le> 159 else cont_byte b)
           \<and> cont_byte c \<and> utf8_bytes r
         | _ \<Rightarrow> False)
      else if 240 \<le> a \<and> a \<le> 244 then
        (case rest of b # c # d # r \<Rightarrow>
           (if a = 240 then 144 \<le> b \<and> b \<le> 191 else if a = 244 then 128 \<le> b \<and> b \<le> 143 else cont_byte b)
           \<and> cont_byte c \<and> cont_byte d \<and> utf8_bytes r
         | _ \<Rightarrow> False)
      else False)"

definition from_utf8 :: "string \<Rightarrow> bool" where
  "from_utf8 s = utf8_bytes (map byte s)"

lemma ascii_from_utf8: "\<forall>c \<in> set s. byte c < 128 \<Longrightarrow> from_utf8 s"
  unfolding from_utf8_def by (induction s) auto

section \<open>Facts\<close>

lemma strip_prefix_Some: "strip_prefix p s = Some r \<longleftrightarrow> s = p @ r"
  by (auto simp: strip_prefix_def) (metis append_take_drop_id)

lemma strip_suffix_Some: "strip_suffix p s = Some r \<longleftrightarrow> s = r @ p"
  by (auto simp: strip_suffix_def) (metis append_take_drop_id)

lemma split_on_not_Nil [simp]: "split_on x s \<noteq> []"
  by (induction s) (auto split: list.splits)

lemma split_on_no_sep: "x \<notin> set s \<Longrightarrow> split_on x s = [s]"
  by (induction s) auto

lemma split_on_append: "x \<notin> set p \<Longrightarrow> split_on x (p @ x # s) = p # split_on x s"
  by (induction p) auto

lemma split_on_pieces: "\<forall>p \<in> set (split_on x s). x \<notin> set p"
  by (induction s) (auto split: list.splits)

lemma decimal_append: "decimal (s @ t) n = decimal t (decimal s n)"
  by (induction s arbitrary: n) auto

lemma decimal_bound:
  "\<forall>c \<in> set s. is_ascii_digit c \<Longrightarrow> decimal s n < (n + 1) * 10 ^ length s"
proof (induction s arbitrary: n)
  case Nil
  show ?case by simp
next
  case (Cons c s)
  have "decimal s (n * 10 + (byte c - 48)) < (n * 10 + (byte c - 48) + 1) * 10 ^ length s"
    using Cons by simp
  also have "\<dots> \<le> ((n + 1) * 10) * 10 ^ length s"
    using Cons.prems by (intro mult_right_mono) (auto simp: is_ascii_digit_def)
  finally show ?case by (simp add: algebra_simps)
qed

section \<open>Printing numbers\<close>

definition digit_char :: "nat \<Rightarrow> char" where
  "digit_char d = char_of (48 + d)"

text \<open>The decimal digits of a number, as \<open>Display\<close> writes them.\<close>

fun nat_str :: "nat \<Rightarrow> string" where
  "nat_str n = (if n < 10 then [digit_char n] else nat_str (n div 10) @ [digit_char (n mod 10)])"

declare nat_str.simps [simp del]

lemma byte_digit: "d < 10 \<Longrightarrow> byte (digit_char d) = 48 + d"
  by (simp add: byte_def digit_char_def)

lemma nat_str_not_Nil [simp]: "nat_str n \<noteq> []"
  by (subst nat_str.simps) simp

lemma nat_str_digits: "\<forall>c \<in> set (nat_str n). is_ascii_digit c"
proof (induction n rule: nat_str.induct)
  case (1 n)
  then show ?case
    by (subst nat_str.simps) (auto simp: is_ascii_digit_def byte_digit)
qed

lemma decimal_nat_str: "decimal (nat_str n) 0 = n"
proof (induction n rule: nat_str.induct)
  case (1 n)
  then show ?case
    by (subst nat_str.simps) (auto simp: decimal_append byte_digit)
qed

lemma length_nat_str: "0 < n \<Longrightarrow> 10 ^ length (nat_str n) \<le> 10 * n"
proof (induction n rule: nat_str.induct)
  case (1 n)
  show ?case
  proof (cases "n < 10")
    case True
    then show ?thesis using 1 by (simp add: nat_str.simps)
  next
    case False
    have l: "length (nat_str n) = Suc (length (nat_str (n div 10)))"
      using False by (subst nat_str.simps) simp
    have "10 ^ length (nat_str (n div 10)) \<le> 10 * (n div 10)"
      using 1 False by simp
    moreover have "10 * (n div 10) \<le> n"
      by simp
    ultimately show ?thesis
      unfolding l power_Suc by linarith
  qed
qed

lemma nat_str_bound:
  assumes "n < 10 ^ k" and "0 < k"
  shows "length (nat_str n) \<le> k"
proof (cases "n = 0")
  case True
  then show ?thesis
    using assms(2) by (simp add: nat_str.simps)
next
  case False
  have "(10 :: nat) ^ length (nat_str n) < 10 ^ Suc k"
    using length_nat_str [of n] False assms(1) unfolding power_Suc by linarith
  then have "length (nat_str n) < Suc k"
    by (rule power_less_imp_less_exp [rotated]) simp
  then show ?thesis by simp
qed

lemma nat_str_leading: "0 < n \<Longrightarrow> hd (nat_str n) \<noteq> CHR ''0''"
proof (induction n rule: nat_str.induct)
  case (1 n)
  have z: "byte CHR ''0'' = 48"
    by (simp add: byte_def)
  show ?case
  proof (cases "n < 10")
    case True
    then have "byte (digit_char n) \<noteq> byte CHR ''0''"
      using 1 z by (simp add: byte_digit)
    then show ?thesis
      using True by (simp add: nat_str.simps)
  next
    case False
    then show ?thesis
      using 1 by (subst nat_str.simps) simp
  qed
qed

end
