(* ===== verification/Disk_Names.thy ===== *)
theory Disk_Names
  imports Rust_Text
begin

text \<open>
  The BSD disk names of \<^verbatim>\<open>host/metrics/src/storage.rs\<close>: from a volume to its whole disk, and
  through containers to the physical disk. What backs a container (\<open>store_of\<close>) is the
  operating system's answer, a parameter.
\<close>

section \<open>Whole disks\<close>

text \<open>The loop over \<open>tail\<close>: slices \<open>s<digits>\<close> up to the end.\<close>

function slices :: "string \<Rightarrow> bool" where
  "slices tail =
     (case strip_prefix ''s'' tail of
        Some after \<Rightarrow>
          let n = length (takeWhile is_ascii_digit after)
          in if n = 0 then False else slices (drop n after)
      | None \<Rightarrow> tail = [])"
  by pat_completeness auto
termination
  by (relation "measure length") (auto simp: strip_prefix_Some)

declare slices.simps [simp del]

definition whole_disk_name :: "string \<Rightarrow> string option" where
  "whole_disk_name bsd_name =
     (let name = (case strip_prefix ''/dev/'' bsd_name of Some n \<Rightarrow> n | None \<Rightarrow> bsd_name)
      in case strip_prefix ''disk'' name of
           None \<Rightarrow> None
         | Some rest \<Rightarrow>
             let digits = length (takeWhile is_ascii_digit rest)
             in if digits = 0 then None
                else if slices (drop digits rest) then Some (take (4 + digits) name) else None)"

section \<open>Physical disks\<close>

fun follow :: "(string \<Rightarrow> string option) \<Rightarrow> nat \<Rightarrow> string \<Rightarrow> string option" where
  "follow store_of 0 current = None"
| "follow store_of (Suc n) current =
     (case store_of current of
        None \<Rightarrow> Some current
      | Some store \<Rightarrow>
          (case whole_disk_name store of
             None \<Rightarrow> None
           | Some nxt \<Rightarrow> if nxt = current then Some current else follow store_of n nxt))"

definition physical_disk_name :: "string \<Rightarrow> (string \<Rightarrow> string option) \<Rightarrow> string option" where
  "physical_disk_name bsd_name store_of =
     (case whole_disk_name bsd_name of
        None \<Rightarrow> None
      | Some current \<Rightarrow> follow store_of 4 current)"

section \<open>Facts\<close>

definition is_number :: "string \<Rightarrow> bool" where
  "is_number ds \<longleftrightarrow> ds \<noteq> [] \<and> list_all is_ascii_digit ds"

definition slice :: "string \<Rightarrow> string" where
  "slice ds = ''s'' @ ds"

lemma takeWhile_number:
  "list_all is_ascii_digit ds \<Longrightarrow> (rest = [] \<or> \<not> is_ascii_digit (hd rest)) \<Longrightarrow>
   takeWhile is_ascii_digit (ds @ rest) = ds"
  by (cases rest; induction ds) auto

lemma take_disk: "take (4 + n) (''disk'' @ x) = ''disk'' @ take n x"
  by (simp add: eval_nat_numeral)

lemma s_not_digit: "\<not> is_ascii_digit CHR ''s''" "\<not> is_ascii_digit CHR ''/''"
  by (simp_all add: is_ascii_digit_def byte_def)

lemma slices_concat:
  "list_all is_number ds \<Longrightarrow> slices (concat (map slice ds))"
proof (induction ds)
  case Nil
  show ?case by (simp add: slices.simps strip_prefix_def)
next
  case (Cons d ds)
  let ?rest = "concat (map slice ds)"
  have "takeWhile is_ascii_digit (d @ ?rest) = d"
    using Cons.prems by (intro takeWhile_number) (cases ds; auto simp: is_number_def slice_def s_not_digit)+
  moreover have "strip_prefix ''s'' (slice d @ ?rest) = Some (d @ ?rest)"
    by (simp add: strip_prefix_Some slice_def)
  moreover have "d \<noteq> []" and "slices ?rest"
    using Cons by (auto simp: is_number_def list_all_iff)
  ultimately show ?case
    by (subst slices.simps) (simp add: Let_def)
qed

lemma whole_disk_of_slices:
  assumes "is_number ds" and "list_all is_number sl"
  shows "whole_disk_name (''disk'' @ ds @ concat (map slice sl)) = Some (''disk'' @ ds)"
proof -
  have "takeWhile is_ascii_digit (ds @ concat (map slice sl)) = ds"
    using assms by (intro takeWhile_number) (cases sl; auto simp: is_number_def slice_def s_not_digit)+
  moreover have "ds \<noteq> []"
    using assms(1) by (simp add: is_number_def)
  moreover have "strip_prefix ''/dev/'' (''disk'' @ x) = None" for x
    by (simp add: strip_prefix_def)
  moreover have "strip_prefix ''disk'' (''disk'' @ x) = Some x" for x
    by (simp add: strip_prefix_Some)
  ultimately show ?thesis
    using slices_concat [OF assms(2)] take_disk [of "length ds" "ds @ concat (map slice sl)"]
    by (simp add: whole_disk_name_def Let_def del: append_Cons)
qed

lemma whole_disk_shape:
  assumes "whole_disk_name s = Some n"
  shows "\<exists>ds. n = ''disk'' @ ds \<and> is_number ds"
proof -
  obtain name rest where r: "strip_prefix ''disk'' name = Some rest"
    and n: "n = take (4 + length (takeWhile is_ascii_digit rest)) name"
    and d: "takeWhile is_ascii_digit rest \<noteq> []"
    using assms by (auto simp: whole_disk_name_def Let_def split: option.splits if_splits)
  have "n = ''disk'' @ takeWhile is_ascii_digit rest"
    using r take_disk [of "length (takeWhile is_ascii_digit rest)" rest] takeWhile_eq_take [of is_ascii_digit rest]
    by (simp add: n strip_prefix_Some)
  moreover have "list_all is_ascii_digit (takeWhile is_ascii_digit rest)"
    by (auto simp: list_all_iff dest: set_takeWhileD)
  ultimately show ?thesis
    using d by (auto simp: is_number_def)
qed

lemma whole_disk_fixed:
  assumes "whole_disk_name s = Some n"
  shows "whole_disk_name n = Some n"
  using whole_disk_shape [OF assms] whole_disk_of_slices [of _ "[]"] by auto

section \<open>Chains of stores\<close>

text \<open>
  The chain a disk stands on, as the system tells it: \<open>backed k cur n\<close> when the disk of the store
  of \<open>cur\<close>, the disk of its store and so on, each another one than before, is \<open>n\<close> after \<open>k\<close>
  steps. It ends at a disk without a store, or one that is the disk of its own store.
\<close>

inductive backed :: "(string \<Rightarrow> string option) \<Rightarrow> nat \<Rightarrow> string \<Rightarrow> string \<Rightarrow> bool"
  for store_of where
  backed_here: "backed store_of 0 cur cur"
| backed_step: "store_of cur = Some t \<Longrightarrow> whole_disk_name t = Some nxt \<Longrightarrow> nxt \<noteq> cur \<Longrightarrow>
    backed store_of k nxt n \<Longrightarrow> backed store_of (Suc k) cur n"

inductive_simps backed_0 [simp]: "backed store_of 0 cur n"
inductive_simps backed_Suc: "backed store_of (Suc k) cur n"

definition chain_end :: "(string \<Rightarrow> string option) \<Rightarrow> string \<Rightarrow> bool" where
  "chain_end store_of n \<longleftrightarrow> (case store_of n of None \<Rightarrow> True | Some t \<Rightarrow> whole_disk_name t = Some n)"

definition chain_broken :: "(string \<Rightarrow> string option) \<Rightarrow> string \<Rightarrow> bool" where
  "chain_broken store_of n \<longleftrightarrow> (case store_of n of None \<Rightarrow> False | Some t \<Rightarrow> whole_disk_name t = None)"

lemma less_Suc_split: "(\<exists>k < Suc m. P k) \<longleftrightarrow> P 0 \<or> (\<exists>k < m. P (Suc k))"
  using less_Suc_eq_0_disj by auto

lemma follow_Some_iff:
  "follow store_of m cur = Some n \<longleftrightarrow> (\<exists>k < m. backed store_of k cur n \<and> chain_end store_of n)"
proof (induction m arbitrary: cur)
  case (Suc m)
  then show ?case
    unfolding less_Suc_split
    by (auto simp: backed_Suc chain_end_def split: option.splits)
qed simp

lemma follow_None_iff:
  "follow store_of m cur = None \<longleftrightarrow>
     (\<exists>n. backed store_of m cur n) \<or> (\<exists>k < m. \<exists>n. backed store_of k cur n \<and> chain_broken store_of n)"
proof (induction m arbitrary: cur)
  case (Suc m)
  then show ?case
    unfolding less_Suc_split
    by (auto simp: backed_Suc chain_broken_def split: option.splits)
qed auto

section \<open>Properties\<close>

text \<open>
  Every volume of a disk resolves to that disk: a whole-disk name followed by any slices,
  with or without the \<open>/dev/\<close> prefix, gives the whole-disk name, which is its own.
\<close>

theorem volumes_share_their_disk:
  assumes "is_number ds" and "list_all is_number sl"
  shows "whole_disk_name (''disk'' @ ds @ concat (map slice sl)) = Some (''disk'' @ ds)
     \<and> whole_disk_name (''/dev/disk'' @ ds @ concat (map slice sl)) = Some (''disk'' @ ds)"
proof -
  have "whole_disk_name (''/dev/'' @ s) = whole_disk_name s" if "\<exists>t. s = ''disk'' @ t" for s
    using that by (auto simp: whole_disk_name_def strip_prefix_def)
  then show ?thesis
    using whole_disk_of_slices [OF assms] by (metis append_Cons append_Nil)
qed

theorem volumes_share_their_disk_witness:
  "whole_disk_name ''disk3s1s1'' = Some ''disk3'' \<and> whole_disk_name ''/dev/disk3s1s1'' = Some ''disk3''"
proof -
  have "is_number ''3'' \<and> list_all is_number [''1'', ''1'']"
    by (simp add: is_number_def is_ascii_digit_def byte_def)
  then show ?thesis
    using volumes_share_their_disk [of "''3''" "[''1'', ''1'']"] by (simp add: slice_def)
qed

text \<open>
  C37. The physical disk is where the chain of backing stores ends, within four disks. The result is
  \<open>n\<close> exactly when the argument names a disk, the chain of stores leads from it to \<open>n\<close> in at most
  three steps, and ends there: nothing backs \<open>n\<close>, or it backs itself. There is none exactly when
  the argument names no disk, a store met within three steps names none, or the chain goes on for
  four steps, as every loop of two or more disks does. In particular all volumes of a container have
  the physical disk of the container.
\<close>

theorem physical_disk_ends_the_chain:
  "(physical_disk_name s store_of = Some n \<longleftrightarrow>
      (\<exists>cur k. whole_disk_name s = Some cur \<and> k \<le> 3 \<and> backed store_of k cur n \<and> chain_end store_of n))
   \<and> (physical_disk_name s store_of = None \<longleftrightarrow>
      (case whole_disk_name s of None \<Rightarrow> True
       | Some cur \<Rightarrow> (\<exists>m. backed store_of 4 cur m)
           \<or> (\<exists>k m. k \<le> 3 \<and> backed store_of k cur m \<and> chain_broken store_of m)))
   \<and> (is_number ds \<and> list_all is_number sl \<longrightarrow>
      physical_disk_name (''disk'' @ ds @ concat (map slice sl)) store_of
        = physical_disk_name (''disk'' @ ds) store_of)"
proof (intro conjI impI)
  have less: "k < 4 \<longleftrightarrow> k \<le> 3" for k :: nat
    by auto
  show "physical_disk_name s store_of = Some n \<longleftrightarrow>
      (\<exists>cur k. whole_disk_name s = Some cur \<and> k \<le> 3 \<and> backed store_of k cur n \<and> chain_end store_of n)"
    by (simp add: physical_disk_name_def follow_Some_iff less split: option.split)
  show "physical_disk_name s store_of = None \<longleftrightarrow>
      (case whole_disk_name s of None \<Rightarrow> True
       | Some cur \<Rightarrow> (\<exists>m. backed store_of 4 cur m)
           \<or> (\<exists>k m. k \<le> 3 \<and> backed store_of k cur m \<and> chain_broken store_of m))"
    by (simp add: physical_disk_name_def follow_None_iff less split: option.split)
  show "physical_disk_name (''disk'' @ ds @ concat (map slice sl)) store_of
      = physical_disk_name (''disk'' @ ds) store_of" if "is_number ds \<and> list_all is_number sl"
    using that whole_disk_of_slices [of ds sl] whole_disk_of_slices [of ds "[]"]
    by (simp add: physical_disk_name_def)
qed

theorem physical_disk_ends_the_chain_witness:
  "physical_disk_name ''disk3s5'' (\<lambda>d. if d = ''disk3'' then Some ''disk0s2'' else None) = Some ''disk0''
     \<and> physical_disk_name ''disk3s5s1'' (\<lambda>d. if d = ''disk3'' then Some ''disk0s2'' else Some ''disk3'') = None"
proof -
  have n: "is_number ''3'' \<and> is_number ''5'' \<and> is_number ''0'' \<and> is_number ''2'' \<and> is_number ''1''"
    by (simp add: is_number_def is_ascii_digit_def byte_def)
  have w: "whole_disk_name ''disk3s5'' = Some ''disk3''" "whole_disk_name ''disk0s2'' = Some ''disk0''"
    "whole_disk_name ''disk3'' = Some ''disk3''" "whole_disk_name ''disk3s5s1'' = Some ''disk3''"
    using whole_disk_of_slices [of "''3''" "[''5'']"] whole_disk_of_slices [of "''0''" "[''2'']"]
      whole_disk_of_slices [of "''3''" "[]"] whole_disk_of_slices [of "''3''" "[''5'', ''1'']"] n
    by (simp_all add: slice_def)
  let ?one = "\<lambda>d. if d = ''disk3'' then Some ''disk0s2'' else None"
  let ?loop = "\<lambda>d. if d = ''disk3'' then Some ''disk0s2'' else Some ''disk3''"
  have "backed ?one (Suc 0) ''disk3'' ''disk0''" "chain_end ?one ''disk0''"
    using w by (auto simp: backed_Suc chain_end_def)
  then have "physical_disk_name ''disk3s5'' ?one = Some ''disk0''"
    using physical_disk_ends_the_chain [THEN conjunct1, of "''disk3s5''" ?one "''disk0''"] w(1) by fastforce
  moreover have "backed ?loop (Suc (Suc (Suc (Suc 0)))) ''disk3'' ''disk3''"
    using w by (auto simp: backed_Suc)
  then have "physical_disk_name ''disk3s5s1'' ?loop = None"
    using physical_disk_ends_the_chain [THEN conjunct2, THEN conjunct1, of "''disk3s5s1''" ?loop] w(4)
    by (auto simp: numeral_eq_Suc)
  ultimately show ?thesis
    by blast
qed

end
