(* ===== verification/Samplers.thy ===== *)
theory Samplers
  imports Prelude
begin

text \<open>
  The sampling seam of \<^verbatim>\<open>host/metrics/src/lib.rs\<close> and the disk rate of \<^verbatim>\<open>storage.rs\<close>: a value
  with its availability, the two counter samplers and the scripted collector. The locale
  \<open>sampler\<close> is what a collector relies on: a well-formed sample, no value after a reset, and
  a state that remembers the last reading only.
\<close>

section \<open>Samples\<close>

datatype metric_availability =
    MAvailable
  | MUnsupported
  | MAbsent
  | MTemporarilyUnavailable
  | MError

record 'a metric_sample =
  ms_availability :: metric_availability
  ms_value :: "'a option"

definition ms_available :: "'a \<Rightarrow> 'a metric_sample" where
  "ms_available v = \<lparr>ms_availability = MAvailable, ms_value = Some v\<rparr>"

definition ms_unavailable :: "metric_availability \<Rightarrow> 'a metric_sample" where
  "ms_unavailable a = \<lparr>ms_availability = a, ms_value = None\<rparr>"

definition ms_map :: "('a \<Rightarrow> 'b) \<Rightarrow> 'a metric_sample \<Rightarrow> 'b metric_sample" where
  "ms_map f s = \<lparr>ms_availability = ms_availability s, ms_value = map_option f (ms_value s)\<rparr>"

text \<open>A sample holds a value exactly when it is available.\<close>

definition ms_wf :: "'a metric_sample \<Rightarrow> bool" where
  "ms_wf s \<longleftrightarrow> (ms_availability s = MAvailable) = (ms_value s \<noteq> None)"

lemma ms_simps [simp]:
  "ms_availability (ms_available v) = MAvailable" "ms_value (ms_available v) = Some v"
  "ms_availability (ms_unavailable a) = a" "ms_value (ms_unavailable a) = None"
  "ms_map f (ms_available v) = ms_available (f v)" "ms_map f (ms_unavailable a) = ms_unavailable a"
  "ms_availability (ms_map f s) = ms_availability s"
  "ms_value (ms_map f s) = map_option f (ms_value s)"
  "ms_wf (ms_available v)" "ms_wf (ms_map f s) = ms_wf s"
  "ms_wf (ms_unavailable a) = (a \<noteq> MAvailable)"
  by (simp_all add: ms_available_def ms_unavailable_def ms_map_def ms_wf_def)

section \<open>The scripted collector\<close>

record 'a scripted_collector =
  sc_script :: "'a metric_sample list"
  sc_next :: nat

definition sc_new :: "'a metric_sample list \<Rightarrow> ('a scripted_collector, unit) res" where
  "sc_new script = (if script = [] then Panic else Ok \<lparr>sc_script = script, sc_next = 0\<rparr>)"

definition sc_collect :: "'a scripted_collector \<Rightarrow> 'a metric_sample \<times> 'a scripted_collector" where
  "sc_collect c = (sc_script c ! min (sc_next c) (length (sc_script c) - 1),
     c\<lparr>sc_next := sc_next c + 1\<rparr>)"

section \<open>Byte counters\<close>

definition MAX_RATE_SAMPLE_GAP_MS :: u64 where
  "MAX_RATE_SAMPLE_GAP_MS = 5000"

type_synonym 'k rate_baseline = "('k \<times> (u64 \<times> u64) \<times> u64) option"

text \<open>\<open>per_s\<close>: computed in 128 bits, so the product does not wrap, and saturated.\<close>

definition per_s :: "u64 \<Rightarrow> u64 \<Rightarrow> u64" where
  "per_s elapsed delta = of_nat (min (unat delta * 1000 div unat elapsed) (2 ^ 64 - 1))"

definition rate_sample ::
    "'k rate_baseline \<Rightarrow> 'k \<Rightarrow> u64 \<times> u64 \<Rightarrow> u64 \<Rightarrow> (u64 \<times> u64) metric_sample \<times> 'k rate_baseline" where
  "rate_sample baseline key counters now_ms =
     (let unavailable = ms_unavailable MTemporarilyUnavailable;
          baseline' = Some (key, counters, now_ms)
      in case baseline of
           None \<Rightarrow> (unavailable, baseline')
         | Some (before_key, before, before_ms) \<Rightarrow>
             let same_key = (key = before_key);
                 gap_ok = (before_ms < now_ms \<and> now_ms - before_ms \<le> MAX_RATE_SAMPLE_GAP_MS);
                 monotonic = (fst before \<le> fst counters \<and> snd before \<le> snd counters)
             in if \<not> same_key \<or> \<not> gap_ok \<or> \<not> monotonic then (unavailable, baseline')
                else (ms_available (per_s (now_ms - before_ms) (fst counters - fst before),
                                    per_s (now_ms - before_ms) (snd counters - snd before)),
                      baseline'))"

definition rate_reset :: "'k rate_baseline \<Rightarrow> 'k rate_baseline" where
  "rate_reset baseline = None"

section \<open>CPU ticks\<close>

record cpu_ticks =
  tk_user :: u32
  tk_system :: u32
  tk_idle :: u32
  tk_nice :: u32

type_synonym cpu_baseline = "(cpu_ticks \<times> u64) option"

text \<open>
  The sums of the differences are taken in 64 bits, which four 32-bit values and the factor
  1000 do not exceed, so they are natural numbers here.
\<close>

definition cpu_sample :: "cpu_baseline \<Rightarrow> cpu_ticks \<Rightarrow> u64 \<Rightarrow> u16 metric_sample \<times> cpu_baseline" where
  "cpu_sample baseline ticks now_ms =
     (let unavailable = ms_unavailable MTemporarilyUnavailable; baseline' = Some (ticks, now_ms)
      in case baseline of
           None \<Rightarrow> (unavailable, baseline')
         | Some (before, before_ms) \<Rightarrow>
             let gap_ok = (before_ms < now_ms \<and> now_ms - before_ms \<le> MAX_RATE_SAMPLE_GAP_MS);
                 monotonic = (tk_user before \<le> tk_user ticks \<and> tk_system before \<le> tk_system ticks
                   \<and> tk_idle before \<le> tk_idle ticks \<and> tk_nice before \<le> tk_nice ticks)
             in if \<not> gap_ok \<or> \<not> monotonic then (unavailable, baseline')
                else let busy = unat (tk_user ticks - tk_user before)
                       + unat (tk_nice ticks - tk_nice before)
                       + unat (tk_system ticks - tk_system before);
                         total = busy + unat (tk_idle ticks - tk_idle before)
                     in if total = 0 then (unavailable, baseline')
                        else (ms_available (of_nat ((busy * 1000 + total div 2) div total)), baseline'))"

definition cpu_reset :: "cpu_baseline \<Rightarrow> cpu_baseline" where
  "cpu_reset baseline = None"

section \<open>Disk rate\<close>

record disk_counters =
  dc_read_bytes :: u64
  dc_write_bytes :: u64

record disk_rate =
  dr_read_bytes_per_s :: u64
  dr_write_bytes_per_s :: u64

definition disk_sample ::
    "unit rate_baseline \<Rightarrow> disk_counters \<Rightarrow> u64 \<Rightarrow> disk_rate metric_sample \<times> unit rate_baseline" where
  "disk_sample baseline counters now_ms =
     (let (sample, baseline) = rate_sample baseline () (dc_read_bytes counters, dc_write_bytes counters) now_ms
      in (ms_map (\<lambda>(r, w). \<lparr>dr_read_bytes_per_s = r, dr_write_bytes_per_s = w\<rparr>) sample, baseline))"

section \<open>What a collector relies on\<close>

locale sampler =
  fixes sample :: "'s \<Rightarrow> 'i \<Rightarrow> u64 \<Rightarrow> 'o metric_sample \<times> 's"
    and reset :: "'s \<Rightarrow> 's"
    and base :: "'i \<Rightarrow> u64 \<Rightarrow> 's"
    and ok :: "'o \<Rightarrow> bool"
  assumes wf: "ms_wf (fst (sample s i t))"
    and value_ok: "ms_value (fst (sample s i t)) = Some v \<Longrightarrow> ok v"
    and after_reset: "ms_value (fst (sample (reset s) i t)) = None"
    and rebaselines: "snd (sample s i t) = base i t"
begin

text \<open>A run of readings with their times, and the samples it gives.\<close>

fun run :: "'s \<Rightarrow> ('i \<times> u64) list \<Rightarrow> 'o metric_sample list" where
  "run s [] = []"
| "run s ((i, t) # xs) = fst (sample s i t) # run (snd (sample s i t)) xs"

lemma run_ok: "m \<in> set (run s xs) \<Longrightarrow> ms_wf m \<and> (\<forall>v. ms_value m = Some v \<longrightarrow> ok v)"
  by (induction s xs rule: run.induct) (auto simp: wf value_ok)

text \<open>A sample depends on the last two readings only.\<close>

lemma run_snoc:
  "run s (xs @ [(i, t), (j, u)]) = run s (xs @ [(i, t)]) @ [fst (sample (base i t) j u)]"
  by (induction s xs rule: run.induct) (simp_all add: rebaselines)

lemma no_value_across_reset:
  "run (reset s) ((i, t) # xs) = m # ms \<Longrightarrow> ms_value m = None"
  by (auto simp: after_reset)

end

section \<open>The samplers keep the contract\<close>

lemma cpu_round:
  fixes busy total :: nat
  assumes "busy \<le> total" and "0 < total"
  defines "v \<equiv> (busy * 1000 + total div 2) div total"
  shows "v \<le> 1000" and "2 * (v * total) \<le> 2 * (busy * 1000) + total"
    and "2 * (busy * 1000) \<le> 2 * (v * total) + total"
proof -
  have "busy * 1000 + total div 2 < (1000 + 1) * total"
    using assms(1,2) by simp
  then have "v < 1000 + 1"
    unfolding v_def by (rule less_mult_imp_div_less)
  then show "v \<le> 1000" by simp
  have "v * total + (busy * 1000 + total div 2) mod total = busy * 1000 + total div 2"
    unfolding v_def by simp
  moreover have "(busy * 1000 + total div 2) mod total < total"
    using assms(2) by simp
  moreover have "2 * (total div 2) \<le> total" and "total \<le> 2 * (total div 2) + 1"
    by simp_all
  ultimately show "2 * (v * total) \<le> 2 * (busy * 1000) + total"
    and "2 * (busy * 1000) \<le> 2 * (v * total) + total"
    by linarith+
qed

lemma word_gap:
  fixes a b :: u64
  assumes "b < a"
  shows "unat (a - b) = unat a - unat b"
    and "a - b \<le> MAX_RATE_SAMPLE_GAP_MS \<longleftrightarrow> unat a - unat b \<le> 5000"
proof -
  show eq: "unat (a - b) = unat a - unat b"
    using assms by (intro unat_sub) simp
  show "a - b \<le> MAX_RATE_SAMPLE_GAP_MS \<longleftrightarrow> unat a - unat b \<le> 5000"
    unfolding word_le_nat_alt eq by (simp add: MAX_RATE_SAMPLE_GAP_MS_def)
qed

definition cpu_busy :: "cpu_ticks \<Rightarrow> cpu_ticks \<Rightarrow> nat" where
  "cpu_busy a b = (unat (tk_user b) - unat (tk_user a)) + (unat (tk_nice b) - unat (tk_nice a))
     + (unat (tk_system b) - unat (tk_system a))"

definition cpu_total :: "cpu_ticks \<Rightarrow> cpu_ticks \<Rightarrow> nat" where
  "cpu_total a b = cpu_busy a b + (unat (tk_idle b) - unat (tk_idle a))"

lemma cpu_sample_Some:
  assumes "ms_value (fst (cpu_sample b ticks now)) = Some v"
  obtains before t where "b = Some (before, t)" and "t < now" and "unat now - unat t \<le> 5000"
    and "tk_user before \<le> tk_user ticks" and "tk_system before \<le> tk_system ticks"
    and "tk_idle before \<le> tk_idle ticks" and "tk_nice before \<le> tk_nice ticks"
    and "0 < cpu_total before ticks"
    and "unat v = (cpu_busy before ticks * 1000 + cpu_total before ticks div 2) div cpu_total before ticks"
proof -
  obtain before t where b: "b = Some (before, t)"
    using assms by (cases b) (auto simp: cpu_sample_def Let_def)
  have gap: "t < now" "now - t \<le> MAX_RATE_SAMPLE_GAP_MS"
    and mono: "tk_user before \<le> tk_user ticks" "tk_system before \<le> tk_system ticks"
      "tk_idle before \<le> tk_idle ticks" "tk_nice before \<le> tk_nice ticks"
    using assms by (auto simp: cpu_sample_def Let_def b split: if_splits)
  have total: "unat (tk_user ticks - tk_user before) + unat (tk_nice ticks - tk_nice before)
      + unat (tk_system ticks - tk_system before) = cpu_busy before ticks"
    "cpu_busy before ticks + unat (tk_idle ticks - tk_idle before) = cpu_total before ticks"
    using mono by (simp_all add: cpu_busy_def cpu_total_def unat_sub)
  have pos: "cpu_total before ticks \<noteq> 0"
    using assms gap mono by (auto simp: cpu_sample_def Let_def b total(1) total(2) [symmetric] split: if_splits)
  have v: "v = of_nat ((cpu_busy before ticks * 1000 + cpu_total before ticks div 2) div cpu_total before ticks)"
    using assms gap mono by (simp_all add: cpu_sample_def Let_def b total split: if_splits del: add_is_0 add_gr_0)
  have "(cpu_busy before ticks * 1000 + cpu_total before ticks div 2) div cpu_total before ticks \<le> 1000"
    using pos by (intro cpu_round(1)) (simp add: cpu_total_def, simp only: neq0_conv)
  then have "unat v = (cpu_busy before ticks * 1000 + cpu_total before ticks div 2) div cpu_total before ticks"
    unfolding v by (simp add: unsigned_of_nat take_bit_nat_eq_self)
  then show ?thesis
    using that b gap mono pos word_gap(2) [OF gap(1)] by simp
qed

interpretation cpu: sampler cpu_sample cpu_reset "\<lambda>ticks t. Some (ticks, t)" "\<lambda>v. v \<le> 1000"
proof
  show "ms_wf (fst (cpu_sample s i t))" for s i t
    by (simp add: cpu_sample_def Let_def split: option.splits)
  show "v \<le> 1000" if "ms_value (fst (cpu_sample s i t)) = Some v" for s i t v
    using that by (rule cpu_sample_Some)
      (use cpu_round(1) in \<open>simp add: word_le_nat_alt cpu_total_def\<close>)
  show "ms_value (fst (cpu_sample (cpu_reset s) i t)) = None" for s i t
    by (simp add: cpu_sample_def cpu_reset_def)
  show "snd (cpu_sample s i t) = Some (i, t)" for s i t
    by (simp add: cpu_sample_def Let_def split: option.splits)
qed

interpretation rate: sampler "\<lambda>s (key, counters) t. rate_sample s key counters t" rate_reset
    "\<lambda>(key, counters) t. Some (key, counters, t)" "\<lambda>v. True"
  by unfold_locales (auto simp: rate_sample_def rate_reset_def Let_def split: option.splits)

interpretation disk: sampler disk_sample rate_reset
    "\<lambda>c t. Some ((), (dc_read_bytes c, dc_write_bytes c), t)" "\<lambda>v. True"
  by unfold_locales
    (auto simp: disk_sample_def rate_sample_def rate_reset_def Let_def split: option.splits)

section \<open>Properties\<close>

text \<open>
  C5. CPU utilization is exact to the rounding. Whenever the sampler reports a value, the two
  readings are at most five seconds apart, no counter went back, at least one tick elapsed,
  and the value is the busy share of the elapsed ticks in per mille rounded to nearest, so it
  never exceeds 1000; in a run of any readings every sample is well formed in that sense.
\<close>

theorem cpu_utilization_is_exact:
  assumes "ms_value (fst (cpu_sample b ticks now)) = Some v"
  shows "v \<le> 1000 \<and> (\<exists>before t. b = Some (before, t) \<and> t < now \<and> unat now - unat t \<le> 5000
     \<and> 0 < cpu_total before ticks
     \<and> 2 * (unat v * cpu_total before ticks) \<le> 2 * (cpu_busy before ticks * 1000) + cpu_total before ticks
     \<and> 2 * (cpu_busy before ticks * 1000) \<le> 2 * (unat v * cpu_total before ticks) + cpu_total before ticks)"
proof -
  obtain before t where b: "b = Some (before, t)" "t < now" "unat now - unat t \<le> 5000"
    and pos: "0 < cpu_total before ticks"
    and v: "unat v = (cpu_busy before ticks * 1000 + cpu_total before ticks div 2) div cpu_total before ticks"
    using assms by (rule cpu_sample_Some)
  have le: "cpu_busy before ticks \<le> cpu_total before ticks"
    by (simp add: cpu_total_def)
  have "v \<le> 1000"
    using cpu.value_ok [OF assms] .
  then show ?thesis
    using b pos cpu_round [OF le pos] unfolding v [symmetric] by blast
qed

theorem cpu_utilization_is_exact_witness:
  "ms_value (fst (cpu_sample (Some (\<lparr>tk_user = 10, tk_system = 0, tk_idle = 10, tk_nice = 0\<rparr>, 1000))
     \<lparr>tk_user = 11, tk_system = 0, tk_idle = 12, tk_nice = 0\<rparr> 2000)) = Some 333 \<and> (333 :: u16) \<le> 1000"
proof -
  let ?b = "Some (\<lparr>tk_user = 10, tk_system = 0, tk_idle = 10, tk_nice = 0\<rparr>, 1000) :: cpu_baseline"
  let ?t = "\<lparr>tk_user = 11, tk_system = 0, tk_idle = 12, tk_nice = 0\<rparr>"
  have "ms_value (fst (cpu_sample ?b ?t 2000)) = Some 333"
    by (simp add: cpu_sample_def MAX_RATE_SAMPLE_GAP_MS_def)
  from this cpu_utilization_is_exact [OF this] show ?thesis by blast
qed

text \<open>
  A byte rate exists exactly when it means something: the source is the one of the
  previous reading, the clock moved forward by at most five seconds and neither counter went
  back; then each rate is the difference per second rounded down (saturated at the 64-bit
  maximum), and an idle source has rate zero. The new reading is always the next baseline.
\<close>

theorem rate_is_exact:
  "(ms_value (fst (rate_sample b key (r, w) now)) \<noteq> None \<longleftrightarrow>
      (\<exists>r0 w0 t. b = Some (key, (r0, w0), t) \<and> t < now \<and> unat now - unat t \<le> 5000
        \<and> r0 \<le> r \<and> w0 \<le> w))
   \<and> (\<forall>rr ww r0 w0 t. ms_value (fst (rate_sample b key (r, w) now)) = Some (rr, ww)
        \<longrightarrow> b = Some (key, (r0, w0), t)
        \<longrightarrow> unat rr = min ((unat r - unat r0) * 1000 div (unat now - unat t)) (2 ^ 64 - 1)
          \<and> unat ww = min ((unat w - unat w0) * 1000 div (unat now - unat t)) (2 ^ 64 - 1))
   \<and> snd (rate_sample b key (r, w) now) = Some (key, (r, w), now)"
proof (intro conjI allI impI)
  have per: "unat (per_s e d) = min (unat d * 1000 div unat e) (2 ^ 64 - 1)" for e d
    by (simp add: per_s_def unsigned_of_nat take_bit_nat_eq_self)
  show "ms_value (fst (rate_sample b key (r, w) now)) \<noteq> None \<longleftrightarrow>
      (\<exists>r0 w0 t. b = Some (key, (r0, w0), t) \<and> t < now \<and> unat now - unat t \<le> 5000 \<and> r0 \<le> r \<and> w0 \<le> w)"
    by (cases b) (auto simp: rate_sample_def Let_def word_gap split: if_splits)
  show "snd (rate_sample b key (r, w) now) = Some (key, (r, w), now)"
    using rate.rebaselines [of b "(key, r, w)" now] by simp
  fix rr ww r0 w0 t
  assume v: "ms_value (fst (rate_sample b key (r, w) now)) = Some (rr, ww)"
    and b: "b = Some (key, (r0, w0), t)"
  then have c: "t < now" "r0 \<le> r" "w0 \<le> w" "rr = per_s (now - t) (r - r0)" "ww = per_s (now - t) (w - w0)"
    by (auto simp: rate_sample_def Let_def split: if_splits)
  then show "unat rr = min ((unat r - unat r0) * 1000 div (unat now - unat t)) (2 ^ 64 - 1)"
    and "unat ww = min ((unat w - unat w0) * 1000 div (unat now - unat t)) (2 ^ 64 - 1)"
    by (simp_all only: c per word_gap(1) unat_sub)
qed

theorem rate_is_exact_witness:
  "ms_value (fst (rate_sample (Some ((), (0, 7), 1000)) () (3000, 7) 3000)) \<noteq> None"
proof -
  have "(1000 :: u64) < 3000 \<and> unat (3000 :: u64) - unat (1000 :: u64) \<le> 5000 \<and> (0 :: u64) \<le> 3000"
    by simp
  then show ?thesis
    using rate_is_exact [of "Some ((), (0, 7), 1000)" "()" 3000 7 3000] by blast
qed

end
