(* ===== verification/Flat_Json.thy ===== *)
theory Flat_Json
  imports Rust_Text
begin

text \<open>
  The reader of \<^verbatim>\<open>host/metrics/src/flat_json.rs\<close>: one flat JSON object per line. The index \<open>p\<close>
  of the source is the remaining suffix here.
\<close>

section \<open>The reader\<close>

definition MAX_LINE_BYTES :: nat where
  "MAX_LINE_BYTES = 512"

definition MAX_FIELDS :: nat where
  "MAX_FIELDS = 16"

definition MAX_KEY_BYTES :: nat where
  "MAX_KEY_BYTES = 24"

definition MAX_STRING_BYTES :: nat where
  "MAX_STRING_BYTES = 128"

datatype flat_json_error = TooLong | NotJson

datatype jvalue = JStr string | JInt int | JBool bool | JNull

definition skip_ws :: "string \<Rightarrow> string" where
  "skip_ws s = dropWhile (\<lambda>c. c = CHR '' '') s"

text \<open>The loop over a string's characters; \<open>k\<close> is \<open>*p - start\<close>.\<close>

fun str_body :: "nat \<Rightarrow> nat \<Rightarrow> string \<Rightarrow> (string \<times> string, flat_json_error) res" where
  "str_body mx k [] = Err NotJson"
| "str_body mx k (c # r) =
     (if c = CHR 0x22 then Ok ([], r)
      else if c = CHR 0x5C \<or> byte c < 32 \<or> mx < k then Err NotJson
      else and_then (str_body mx (k + 1) r) (\<lambda>(v, r). Ok (c # v, r)))"

definition json_str :: "string \<Rightarrow> nat \<Rightarrow> (string \<times> string, flat_json_error) res" where
  "json_str s mx =
     (case s of
        [] \<Rightarrow> Err NotJson
      | c # r \<Rightarrow> if c = CHR 0x22 then str_body mx 0 r else Err NotJson)"

definition json_number :: "string \<Rightarrow> (jvalue \<times> string, flat_json_error) res" where
  "json_number s =
     (let digits = hd s # takeWhile is_ascii_digit (tl s);
          magnitude = dropWhile (\<lambda>c. c = CHR ''-'') digits
      in if magnitude = [] \<or> 15 < length magnitude
            \<or> (1 < length magnitude \<and> hd magnitude = CHR ''0'') then Err NotJson
         else Ok (JInt (if hd s = CHR ''-'' then - int (decimal magnitude 0) else int (decimal magnitude 0)),
                  dropWhile is_ascii_digit (tl s)))"

definition json_value :: "string \<Rightarrow> (jvalue \<times> string, flat_json_error) res" where
  "json_value s =
     (case s of
        [] \<Rightarrow> Err NotJson
      | c # _ \<Rightarrow>
          if c = CHR 0x22 then and_then (json_str s MAX_STRING_BYTES) (\<lambda>(v, r). Ok (JStr v, r))
          else if c = CHR ''t'' \<and> strip_prefix ''true'' s \<noteq> None then Ok (JBool True, drop 4 s)
          else if c = CHR ''f'' \<and> strip_prefix ''false'' s \<noteq> None then Ok (JBool False, drop 5 s)
          else if c = CHR ''n'' \<and> strip_prefix ''null'' s \<noteq> None then Ok (JNull, drop 4 s)
          else if is_ascii_digit c \<or> c = CHR ''-'' then json_number s
          else Err NotJson)"

text \<open>One member: key, colon, value.\<close>

definition json_member :: "string \<Rightarrow> (string \<times> jvalue \<times> string, flat_json_error) res" where
  "json_member s =
     and_then (json_str (skip_ws s) MAX_KEY_BYTES) (\<lambda>(key, s).
     case skip_ws s of
       [] \<Rightarrow> Err NotJson
     | c # s \<Rightarrow>
         if c \<noteq> CHR '':'' then Err NotJson
         else and_then (json_value (skip_ws s)) (\<lambda>(v, s). Ok (key, v, s)))"

function json_members ::
    "(string \<times> jvalue) list \<Rightarrow> string \<Rightarrow> ((string \<times> jvalue) list \<times> string, flat_json_error) res" where
  "json_members flds s =
     and_then (json_member s) (\<lambda>(key, v, s).
     if key \<in> set (map fst flds) \<or> MAX_FIELDS \<le> length flds then Err NotJson
     else
       let flds = flds @ [(key, v)] in
       case skip_ws s of
         [] \<Rightarrow> Err NotJson
       | c # s \<Rightarrow>
           if c = CHR '','' then json_members flds s
           else if c = CHR ''}'' then Ok (flds, s)
           else Err NotJson)"
  by pat_completeness auto
termination
  by (relation "measure (\<lambda>(flds, s). MAX_FIELDS - length flds)") auto

declare json_members.simps [simp del]

definition parse_flat_object :: "string \<Rightarrow> ((string \<times> jvalue) list, flat_json_error) res" where
  "parse_flat_object line =
     (if MAX_LINE_BYTES < length line then Err TooLong
      else if \<not> from_utf8 line then Err NotJson
      else
        case skip_ws line of
          [] \<Rightarrow> Err NotJson
        | c # s \<Rightarrow>
            if c \<noteq> CHR ''{'' then Err NotJson
            else and_then
              (case skip_ws s of
                 [] \<Rightarrow> json_members [] (skip_ws s)
               | c # r \<Rightarrow> if c = CHR ''}'' then Ok ([], r) else json_members [] (skip_ws s))
              (\<lambda>(flds, s). if skip_ws s \<noteq> [] then Err NotJson else Ok flds))"

section \<open>What the reader returns\<close>

definition plain :: "char \<Rightarrow> bool" where
  "plain c \<longleftrightarrow> c \<noteq> CHR 0x22 \<and> c \<noteq> CHR 0x5C \<and> 32 \<le> byte c"

lemma str_body_Ok:
  "str_body mx k s = Ok (v, r) \<longleftrightarrow>
     s = v @ CHR 0x22 # r \<and> list_all plain v \<and> (v = [] \<or> length v + k \<le> mx + 1)"
proof (induction s arbitrary: k v)
  case Nil
  show ?case by simp
next
  case (Cons c s)
  show ?case
  proof (cases "c = CHR 0x22")
    case True
    then show ?thesis
      by (cases v) (auto simp: plain_def)
  next
    case False
    then show ?thesis
      using Cons.IH
      by (cases v) (auto simp: and_then_eq_Ok plain_def split: prod.splits)
  qed
qed

lemma json_str_Ok:
  "json_str s mx = Ok (v, r) \<longleftrightarrow>
     s = CHR 0x22 # v @ CHR 0x22 # r \<and> list_all plain v \<and> length v \<le> mx + 1"
  by (cases s) (auto simp: json_str_def str_body_Ok)

definition value_ok :: "jvalue \<Rightarrow> bool" where
  "value_ok v \<longleftrightarrow> (case v of
      JStr s \<Rightarrow> list_all plain s \<and> length s \<le> MAX_STRING_BYTES + 1
    | JInt n \<Rightarrow> \<bar>n\<bar> < 10 ^ 15
    | _ \<Rightarrow> True)"

definition field_ok :: "string \<times> jvalue \<Rightarrow> bool" where
  "field_ok f \<longleftrightarrow> list_all plain (fst f) \<and> length (fst f) \<le> MAX_KEY_BYTES + 1 \<and> value_ok (snd f)"

lemma json_number_Ok:
  assumes "json_number s = Ok (v, r)" and "is_ascii_digit (hd s) \<or> hd s = CHR ''-''"
  shows "value_ok v"
proof -
  define m where "m = dropWhile (\<lambda>c. c = CHR ''-'') (hd s # takeWhile is_ascii_digit (tl s))"
  have "length m \<le> 15" and v: "v = JInt (if hd s = CHR ''-'' then - int (decimal m 0) else int (decimal m 0))"
    using assms by (auto simp: json_number_def Let_def m_def split: if_splits)
  moreover have "\<forall>c \<in> set m. is_ascii_digit c"
    unfolding m_def using assms(2)
    by (auto dest: set_takeWhileD set_dropWhileD split: if_splits)
  ultimately have "decimal m 0 < 10 ^ 15"
    using decimal_bound [of m 0] power_increasing [of "length m" 15 "10 :: nat"] by fastforce
  then have "int (decimal m 0) < 10 ^ 15"
    by (metis of_nat_less_iff of_nat_numeral of_nat_power)
  then show ?thesis
    by (simp add: v value_ok_def)
qed

lemma json_value_Ok:
  assumes "json_value s = Ok (v, r)"
  shows "value_ok v"
proof (cases s)
  case Nil
  then show ?thesis
    using assms by (simp add: json_value_def)
next
  case (Cons c t)
  note unfolded = assms [unfolded json_value_def Cons list.case]
  show ?thesis
  proof (cases "c = CHR 0x22")
    case True
    then obtain u where "json_str (c # t) MAX_STRING_BYTES = Ok (u, r)" "v = JStr u"
      using unfolded by (auto simp: and_then_eq_Ok)
    then show ?thesis
      by (simp add: json_str_Ok value_ok_def)
  next
    case False
    note rest = unfolded [unfolded if_not_P [OF False]]
    show ?thesis
    proof (cases "is_ascii_digit c \<or> c = CHR ''-''")
      case True
      have bool: "value_ok (JBool b)" "value_ok JNull" for b
        by (simp_all add: value_ok_def)
      have num: "json_number (c # t) = Ok (v, r) \<Longrightarrow> value_ok v"
        using json_number_Ok [of "c # t" v r] True by simp
      show ?thesis
        using rest num bool by (auto simp del: One_nat_def split: if_split_asm)
    next
      case False
      then show ?thesis
        using rest by (auto simp: value_ok_def split: if_split_asm)
    qed
  qed
qed

lemma json_member_Ok:
  assumes "json_member s = Ok (k, v, r)"
  shows "field_ok (k, v)"
proof -
  obtain t c u where key: "json_str (skip_ws s) MAX_KEY_BYTES = Ok (k, t)" and "skip_ws t = c # u"
    and v: "json_value (skip_ws u) = Ok (v, r)"
    using assms by (cases "json_str (skip_ws s) MAX_KEY_BYTES")
      (auto simp: json_member_def and_then_eq_Ok simp del: not_Cons_self2 split: list.split_asm if_split_asm)
  show ?thesis
    using key json_value_Ok [OF v] by (simp add: field_ok_def json_str_Ok)
qed

lemma json_members_Ok:
  "json_members flds s = Ok (out, r) \<Longrightarrow> distinct (map fst flds) \<Longrightarrow> list_all field_ok flds \<Longrightarrow>
   length flds \<le> MAX_FIELDS \<Longrightarrow>
   distinct (map fst out) \<and> list_all field_ok out \<and> length out \<le> MAX_FIELDS"
proof (induction flds s rule: json_members.induct)
  case (1 flds s)
  obtain k v t where m: "json_member s = Ok (k, v, t)"
    and new: "k \<notin> set (map fst flds)" "length flds < MAX_FIELDS"
    using 1(2) by (subst (asm) json_members.simps)
      (auto simp: and_then_eq_Ok split: prod.splits if_splits)
  let ?f = "flds @ [(k, v)]"
  have f: "distinct (map fst ?f)" "list_all field_ok ?f" "length ?f \<le> MAX_FIELDS"
    using 1(3-5) new json_member_Ok [OF m] by simp_all
  obtain c u where c: "skip_ws t = c # u"
    using 1(2) m new by (subst (asm) json_members.simps) (auto simp: Let_def split: list.splits)
  show ?case
  proof (cases "c = CHR '',''")
    case True
    have "json_members ?f u = Ok (out, r)"
      using 1(2) m new c True by (subst (asm) json_members.simps) (simp add: Let_def not_le)
    then show ?thesis
      using 1(1) [OF m refl refl _ refl c True] new f by (simp add: not_le)
  next
    case False
    then have "out = ?f"
      using 1(2) m new c by (subst (asm) json_members.simps) (simp add: Let_def not_le split: if_splits)
    then show ?thesis
      using f by simp
  qed
qed

lemma parse_flat_object_Ok:
  assumes "parse_flat_object line = Ok flds"
  shows "distinct (map fst flds) \<and> list_all field_ok flds \<and> length flds \<le> MAX_FIELDS"
proof -
  obtain s r where "json_members [] s = Ok (flds, r) \<or> flds = []"
    using assms
    by (auto simp: parse_flat_object_def and_then_eq_Ok split: if_splits list.splits prod.splits)
  then show ?thesis
    using json_members_Ok [of "[]" s flds r] by auto
qed

text \<open>No line makes the reader panic.\<close>

lemma str_body_not_Panic: "str_body mx k s \<noteq> Panic"
  by (induction s arbitrary: k) (auto simp: and_then_eq_Panic)

lemma json_member_not_Panic: "json_member s \<noteq> Panic"
proof -
  have s: "json_str s mx \<noteq> Panic" for s mx
    by (auto simp: json_str_def str_body_not_Panic split: list.splits)
  have v: "json_value s \<noteq> Panic" for s
    by (simp add: json_value_def json_number_def and_then_eq_Panic s Let_def split: list.split prod.split)
  show ?thesis
    by (simp add: json_member_def and_then_eq_Panic s v split: list.split prod.split)
qed

lemma json_members_not_Panic: "json_members flds s \<noteq> Panic"
proof (induction flds s rule: json_members.induct)
  case (1 flds s)
  then show ?case
    by (subst json_members.simps)
      (auto simp: and_then_eq_Panic json_member_not_Panic Let_def split: list.split)
qed

lemma parse_flat_object_not_Panic: "parse_flat_object line \<noteq> Panic"
  by (auto simp: parse_flat_object_def and_then_eq_Panic json_members_not_Panic split: list.split)

section \<open>The lines that the reader accepts in their shortest form\<close>

fun print_value :: "jvalue \<Rightarrow> string" where
  "print_value (JStr s) = CHR 0x22 # s @ [CHR 0x22]"
| "print_value (JInt n) = (if n < 0 then CHR ''-'' # nat_str (nat (- n)) else nat_str (nat n))"
| "print_value (JBool b) = (if b then ''true'' else ''false'')"
| "print_value JNull = ''null''"

definition print_member :: "string \<times> jvalue \<Rightarrow> string" where
  "print_member f = CHR 0x22 # fst f @ CHR 0x22 # CHR '':'' # print_value (snd f)"

fun print_members :: "(string \<times> jvalue) list \<Rightarrow> string" where
  "print_members [] = []"
| "print_members [f] = print_member f"
| "print_members (f # fs) = print_member f @ CHR '','' # print_members fs"

definition print_object :: "(string \<times> jvalue) list \<Rightarrow> string" where
  "print_object fs = CHR ''{'' # print_members fs @ [CHR ''}'']"

text \<open>What may follow a value: nothing that would extend a number.\<close>

definition stops :: "string \<Rightarrow> bool" where
  "stops r \<longleftrightarrow> r = [] \<or> \<not> is_ascii_digit (hd r)"

lemma take_digits:
  assumes "\<forall>c \<in> set ds. is_ascii_digit c" and "stops r"
  shows "takeWhile is_ascii_digit (ds @ r) = ds" and "dropWhile is_ascii_digit (ds @ r) = r"
proof -
  have "takeWhile is_ascii_digit r = []" and "dropWhile is_ascii_digit r = r"
    using assms(2) by (cases r; simp add: stops_def)+
  then show "takeWhile is_ascii_digit (ds @ r) = ds" and "dropWhile is_ascii_digit (ds @ r) = r"
    using assms(1) by (simp_all add: takeWhile_append dropWhile_append)
qed

lemma not_digits [simp]:
  "\<not> is_ascii_digit CHR ''-''" "\<not> is_ascii_digit CHR 0x22" "\<not> is_ascii_digit CHR '' ''"
  "\<not> is_ascii_digit CHR ''t''" "\<not> is_ascii_digit CHR ''f''" "\<not> is_ascii_digit CHR ''n''"
  "\<not> is_ascii_digit CHR '',''" "\<not> is_ascii_digit CHR ''}''"
  by (simp_all add: is_ascii_digit_def byte_def)

lemma json_number_nat:
  assumes "n < 10 ^ 15" and "stops r"
  shows "json_number (nat_str n @ r) = Ok (JInt (int n), r)"
    and "json_number (CHR ''-'' # nat_str n @ r) = Ok (JInt (- int n), r)"
proof -
  obtain d ds where ds: "nat_str n = d # ds"
    by (cases "nat_str n") auto
  have dig: "is_ascii_digit d" "\<forall>c \<in> set ds. is_ascii_digit c" "\<forall>c \<in> set (nat_str n). is_ascii_digit c"
    using nat_str_digits [of n] ds by auto
  have minus: "d \<noteq> CHR ''-''"
    using dig(1) not_digits(1) by blast
  have len: "length (nat_str n) \<le> 15"
    using nat_str_bound [OF assms(1)] by simp
  have lead: "1 < length (nat_str n) \<Longrightarrow> d \<noteq> CHR ''0''"
    using nat_str_leading [of n] ds by (cases "n = 0") (auto simp: nat_str.simps)
  note td = take_digits [OF dig(2) assms(2)] take_digits [OF dig(3) assms(2)]
  have mag: "dropWhile (\<lambda>c. c = CHR ''-'') (d # ds) = d # ds"
    using minus by simp
  have dec: "decimal (d # ds) 0 = n"
    using decimal_nat_str [of n] ds by simp
  show "json_number (nat_str n @ r) = Ok (JInt (int n), r)"
    using len lead minus dec unfolding json_number_def Let_def ds append_Cons list.sel td mag by auto
  have "json_number (CHR ''-'' # nat_str n @ r) = Ok (JInt (- int (decimal (nat_str n) 0)), r)"
    using len lead minus td(3,4) unfolding json_number_def Let_def list.sel td by (auto simp: ds)
  then show "json_number (CHR ''-'' # nat_str n @ r) = Ok (JInt (- int n), r)"
    by (simp add: decimal_nat_str)
qed

lemma json_value_print:
  assumes "value_ok v" and "stops r"
  shows "json_value (print_value v @ r) = Ok (v, r)"
proof (cases v)
  case (JStr s)
  then have "json_str (CHR 0x22 # s @ CHR 0x22 # r) MAX_STRING_BYTES = Ok (s, r)"
    using assms(1) by (simp add: json_str_Ok value_ok_def)
  then show ?thesis
    by (simp add: JStr json_value_def)
next
  case (JInt n)
  then have b: "\<bar>n\<bar> < 10 ^ 15"
    using assms(1) by (simp add: value_ok_def)
  then have bn: "nat n < 10 ^ 15" "nat (- n) < 10 ^ 15"
    by (simp_all add: nat_less_iff)
  have other: "is_ascii_digit c \<Longrightarrow> c \<noteq> CHR 0x22 \<and> c \<noteq> CHR ''t'' \<and> c \<noteq> CHR ''f'' \<and> c \<noteq> CHR ''n''" for c
    using not_digits by blast
  obtain d ds where ds: "nat_str (nat n) = d # ds" "is_ascii_digit d"
    using nat_str_digits [of "nat n"] by (cases "nat_str (nat n)") auto
  show ?thesis
  proof (cases "n < 0")
    case True
    then show ?thesis
      using json_number_nat(2) [OF bn(2) assms(2)] by (simp add: JInt json_value_def)
  next
    case False
    have "json_value (d # ds @ r) = json_number (d # ds @ r)"
      using ds(2) other [OF ds(2)] by (simp add: json_value_def)
    then show ?thesis
      using json_number_nat(1) [OF bn(1) assms(2)] False ds(1) by (simp add: JInt)
  qed
next
  case (JBool b)
  then show ?thesis
    by (cases b) (simp_all add: json_value_def strip_prefix_def)
next
  case JNull
  then show ?thesis
    by (simp add: json_value_def strip_prefix_def)
qed

lemma skip_ws_stays [simp]: "c \<noteq> CHR '' '' \<Longrightarrow> skip_ws (c # s) = c # s"
  by (simp add: skip_ws_def)

lemma print_value_head: "value_ok v \<Longrightarrow> \<exists>c t. print_value v = c # t \<and> c \<noteq> CHR '' ''"
proof (cases v)
  case (JInt n)
  obtain d ds where "nat_str (nat n) = d # ds" "is_ascii_digit d"
    using nat_str_digits [of "nat n"] by (cases "nat_str (nat n)") auto
  moreover have "d \<noteq> CHR '' ''"
    using not_digits(3) \<open>is_ascii_digit d\<close> by blast
  ultimately show ?thesis
    by (simp add: JInt)
qed simp_all

lemma json_member_print:
  assumes "field_ok (k, v)" and "stops r"
  shows "json_member (print_member (k, v) @ r) = Ok (k, v, r)"
proof -
  have "json_str (CHR 0x22 # k @ CHR 0x22 # CHR '':'' # print_value v @ r) MAX_KEY_BYTES
      = Ok (k, CHR '':'' # print_value v @ r)"
    using assms(1) by (simp add: json_str_Ok field_ok_def)
  moreover have "value_ok v"
    using assms(1) by (simp add: field_ok_def)
  moreover from this have "skip_ws (print_value v @ r) = print_value v @ r"
    using print_value_head by fastforce
  ultimately show ?thesis
    using json_value_print [of v r] assms(2) by (simp add: json_member_def print_member_def)
qed

lemma json_members_print:
  "fs \<noteq> [] \<Longrightarrow> list_all field_ok fs \<Longrightarrow> distinct (map fst (flds @ fs)) \<Longrightarrow>
   length (flds @ fs) \<le> MAX_FIELDS \<Longrightarrow>
   json_members flds (print_members fs @ CHR ''}'' # r) = Ok (flds @ fs, r)"
proof (induction fs arbitrary: flds rule: print_members.induct)
  case 1
  then show ?case by simp
next
  case (2 f)
  then show ?case
    using json_member_print [of "fst f" "snd f" "CHR ''}'' # r"]
    by (subst json_members.simps) (simp add: stops_def)
next
  case (3 f g fs)
  then have "json_members (flds @ [f]) (print_members (g # fs) @ CHR ''}'' # r) = Ok (flds @ f # g # fs, r)"
    using "3.IH" [of "flds @ [f]"] "3.prems" by auto
  moreover have "json_member (print_member f @ CHR '','' # print_members (g # fs) @ CHR ''}'' # r)
      = Ok (fst f, snd f, CHR '','' # print_members (g # fs) @ CHR ''}'' # r)"
    using 3 json_member_print [of "fst f" "snd f"] by (simp add: stops_def)
  moreover have "fst f \<notin> set (map fst flds)" and "length flds < MAX_FIELDS"
    using 3 by auto
  ultimately show ?case
    by (subst json_members.simps) (simp del: print_members.simps(3) add: print_members.simps(3) [of f g fs])
qed

lemma parse_print_object:
  assumes "list_all field_ok fs" and "distinct (map fst fs)" and "length fs \<le> MAX_FIELDS"
    and "length (print_object fs) \<le> MAX_LINE_BYTES" and "from_utf8 (print_object fs)"
  shows "parse_flat_object (print_object fs) = Ok fs"
proof (cases fs)
  case Nil
  then show ?thesis
    using assms(4,5) by (simp add: parse_flat_object_def print_object_def skip_ws_def)
next
  case (Cons f gs)
  then obtain t where t: "print_members fs = CHR 0x22 # t"
    by (cases gs) (simp_all add: print_member_def)
  have "json_members [] (print_members fs @ [CHR ''}'']) = Ok (fs, [])"
    using json_members_print [of fs "[]" "[]"] assms Cons by simp
  then show ?thesis
    using assms(4,5) t by (simp add: parse_flat_object_def print_object_def) (simp add: skip_ws_def)
qed

section \<open>Properties\<close>

text \<open>
  Whatever line the daemon's sockets receive, an accepted object has at most 16 fields
  with distinct keys, and every key, string and integer is bounded: strings have no quote,
  backslash or control character, keys at most 25 and strings at most 129 bytes, integers at
  most 15 digits. A line over 512 bytes is refused as such.
\<close>

theorem flat_objects_are_bounded:
  "(MAX_LINE_BYTES < length line \<longrightarrow> parse_flat_object line = Err TooLong)
   \<and> (\<forall>flds. parse_flat_object line = Ok flds \<longrightarrow>
        length line \<le> MAX_LINE_BYTES \<and> from_utf8 line \<and> length flds \<le> MAX_FIELDS
        \<and> distinct (map fst flds) \<and> list_all field_ok flds)"
  using parse_flat_object_Ok [of line]
  by (auto simp: parse_flat_object_def split: if_splits)

theorem flat_objects_are_bounded_witness:
  "parse_flat_object (replicate 513 CHR '' '') = Err TooLong"
  using flat_objects_are_bounded [of "replicate 513 CHR '' ''"] by (simp add: MAX_LINE_BYTES_def)

text \<open>
  Every such object is readable: any fields within these bounds, written without spaces,
  are read back exactly when the line fits.
\<close>

theorem flat_object_roundtrip:
  assumes "list_all field_ok fs" and "distinct (map fst fs)" and "length fs \<le> MAX_FIELDS"
    and "length (print_object fs) \<le> MAX_LINE_BYTES" and "from_utf8 (print_object fs)"
  shows "parse_flat_object (print_object fs) = Ok fs"
  by (rule parse_print_object [OF assms])

lemma plain_letter: "plain CHR ''a''" "plain CHR ''v''"
  by (simp_all add: plain_def byte_def)

theorem flat_object_roundtrip_witness:
  "parse_flat_object (print_object [(''v'', JInt (- 12)), (''a'', JStr (replicate 129 CHR ''a''))])
     = Ok [(''v'', JInt (- 12)), (''a'', JStr (replicate 129 CHR ''a''))]"
proof (rule flat_object_roundtrip)
  show "list_all field_ok [(''v'', JInt (- 12)), (''a'', JStr (replicate 129 CHR ''a''))]"
    using plain_letter by (simp add: field_ok_def value_ok_def MAX_STRING_BYTES_def MAX_KEY_BYTES_def list_all_iff)
  have n: "nat_str 12 = ''12''"
    by (simp add: nat_str.simps digit_char_def char_of_def bit_0)
  show "length (print_object [(''v'', JInt (- 12)), (''a'', JStr (replicate 129 CHR ''a''))]) \<le> MAX_LINE_BYTES"
    by (simp add: print_object_def print_member_def n MAX_LINE_BYTES_def)
  show "from_utf8 (print_object [(''v'', JInt (- 12)), (''a'', JStr (replicate 129 CHR ''a''))])"
    by (rule ascii_from_utf8) (simp add: print_object_def print_member_def n byte_def)
qed (simp_all add: MAX_FIELDS_def)

end
