(* ===== verification/Wifi_Context.thy ===== *)
theory Wifi_Context
  imports Flat_Json
begin

text \<open>
  \<^verbatim>\<open>host/metrics/src/wifi_context.rs\<close>: the WiFi association context a separate provider process
  supplies, the bounded parser of its messages, and the tracker that decides what the daemon
  reports and for how long.
\<close>

section \<open>Context\<close>

datatype context_availability =
    CaAvailable
  | CaPermissionNotRequested
  | CaDenied
  | CaRestricted
  | CaAuthorizedUnavailable
  | CaUnsupported
  | CaError

datatype permission_status =
    PsNotRequested
  | PsDenied
  | PsRestricted
  | PsGranted
  | PsUnsupported
  | PsError

text \<open>The tables \<open>NAMES\<close> and their two lookups \<open>name_of\<close> and \<open>from_name\<close>.\<close>

definition context_names :: "(context_availability \<times> string) list" where
  "context_names =
     [(CaAvailable, ''available''), (CaPermissionNotRequested, ''not_requested''),
      (CaDenied, ''denied''), (CaRestricted, ''restricted''),
      (CaAuthorizedUnavailable, ''authorized_unavailable''), (CaUnsupported, ''unsupported''),
      (CaError, ''error'')]"

definition permission_names :: "(permission_status \<times> string) list" where
  "permission_names =
     [(PsNotRequested, ''not_requested''), (PsDenied, ''denied''), (PsRestricted, ''restricted''),
      (PsGranted, ''granted''), (PsUnsupported, ''unsupported''), (PsError, ''error'')]"

definition name_of :: "('a \<times> string) list \<Rightarrow> 'a \<Rightarrow> (string, unit) res" where
  "name_of table v = (case map_of table v of Some name \<Rightarrow> Ok name | None \<Rightarrow> Panic)"

definition from_name :: "('a \<times> string) list \<Rightarrow> string \<Rightarrow> 'a option" where
  "from_name table name = map_option fst (find (\<lambda>(v, n). n = name) table)"

datatype wifi_band = Ghz2_4 | Ghz5 | Ghz6

record assoc_context =
  ac_availability :: context_availability
  ac_band :: "wifi_band option"
  ac_channel :: "u16 option"
  ac_ssid :: "bytes option"
  ac_bssid :: "bytes option"

definition ac_unavailable :: "context_availability \<Rightarrow> assoc_context" where
  "ac_unavailable a = \<lparr>ac_availability = a, ac_band = None, ac_channel = None, ac_ssid = None,
     ac_bssid = None\<rparr>"

record context_reading =
  cr_context :: assoc_context
  cr_age_ms :: u32

section \<open>The fixture provider\<close>

record fixture_provider =
  fp_script :: "context_reading list"
  fp_next :: nat

definition fp_new :: "context_reading list \<Rightarrow> (fixture_provider, unit) res" where
  "fp_new script = (if script = [] then Panic else Ok \<lparr>fp_script = script, fp_next = 0\<rparr>)"

definition fp_absent :: "(fixture_provider, unit) res" where
  "fp_absent = fp_new [\<lparr>cr_context = ac_unavailable CaPermissionNotRequested, cr_age_ms = 0\<rparr>]"

definition fp_latest :: "fixture_provider \<Rightarrow> context_reading \<times> fixture_provider" where
  "fp_latest p = (fp_script p ! min (fp_next p) (length (fp_script p) - 1), p\<lparr>fp_next := fp_next p + 1\<rparr>)"

section \<open>The tracker\<close>

definition CONTEXT_SILENCE_LIMIT_MS :: u64 where
  "CONTEXT_SILENCE_LIMIT_MS = 15000"

record context_tracker =
  ct_permission :: "permission_status option"
  ct_connected :: bool
  ct_sample :: "(assoc_context \<times> u64 \<times> u32) option"

definition ct_default :: context_tracker where
  "ct_default = \<lparr>ct_permission = None, ct_connected = False, ct_sample = None\<rparr>"

fun availability_for :: "permission_status \<Rightarrow> context_availability" where
  "availability_for PsNotRequested = CaPermissionNotRequested"
| "availability_for PsDenied = CaDenied"
| "availability_for PsRestricted = CaRestricted"
| "availability_for PsGranted = CaAuthorizedUnavailable"
| "availability_for PsUnsupported = CaUnsupported"
| "availability_for PsError = CaError"

definition on_connected :: "context_tracker \<Rightarrow> context_tracker" where
  "on_connected t = t\<lparr>ct_connected := True\<rparr>"

definition on_disconnected :: "context_tracker \<Rightarrow> context_tracker" where
  "on_disconnected t = t\<lparr>ct_connected := False\<rparr>"

definition on_permission :: "permission_status \<Rightarrow> context_tracker \<Rightarrow> context_tracker" where
  "on_permission status t =
     t\<lparr>ct_permission := Some status,
       ct_sample := map_option (\<lambda>(ctx, at_ms, age_ms).
         let keep = (status = PsGranted \<and> ac_availability ctx = CaAvailable)
         in (if keep then ctx
             else ctx\<lparr>ac_availability := availability_for status, ac_ssid := None, ac_bssid := None\<rparr>,
             at_ms, age_ms)) (ct_sample t)\<rparr>"

definition on_context :: "assoc_context \<Rightarrow> u32 \<Rightarrow> u64 \<Rightarrow> context_tracker \<Rightarrow> context_tracker" where
  "on_context ctx age_ms now_ms t = t\<lparr>ct_sample := Some (ctx, now_ms, age_ms)\<rparr>"

definition reading_now :: "context_availability \<Rightarrow> context_reading" where
  "reading_now a = \<lparr>cr_context = ac_unavailable a, cr_age_ms = 0\<rparr>"

definition ct_reading :: "u64 \<Rightarrow> context_tracker \<Rightarrow> context_reading" where
  "ct_reading now_ms t =
     (case ct_sample t of
        Some (ctx, at_ms, age_ms) \<Rightarrow>
          let age = sat_sub now_ms at_ms + ucast age_ms
          in if age < CONTEXT_SILENCE_LIMIT_MS then \<lparr>cr_context = ctx, cr_age_ms = ucast age\<rparr>
             else reading_now
               (case ct_permission t of
                  Some s \<Rightarrow>
                    if s \<in> {PsNotRequested, PsDenied, PsRestricted, PsUnsupported}
                    then availability_for s else CaError
                | None \<Rightarrow> CaError)
      | None \<Rightarrow>
          reading_now
            (case (ct_permission t, ct_connected t) of
               (None, _) \<Rightarrow> CaPermissionNotRequested
             | (Some status, True) \<Rightarrow> availability_for status
             | (Some status, False) \<Rightarrow>
                 if status = PsGranted then CaError else availability_for status))"

section \<open>Provider messages\<close>

definition IPC_VERSION :: int where
  "IPC_VERSION = 1"

definition MAX_TEXT_FIELD :: nat where
  "MAX_TEXT_FIELD = 32"

datatype provider_message =
    PmHello string string
  | PmPermissionStatus u64 permission_status
  | PmContext u64 u64 u32 assoc_context

datatype message_error =
    MeTooLong
  | MeNotJson
  | MeBadVersion
  | MeUnknownType
  | MeMissingField
  | MeBadField

definition from_flat :: "flat_json_error \<Rightarrow> message_error" where
  "from_flat e = (case e of TooLong \<Rightarrow> MeTooLong | NotJson \<Rightarrow> MeNotJson)"

type_synonym fields = "(string \<times> jvalue) list"

definition fld_str :: "fields \<Rightarrow> string \<Rightarrow> (string, message_error) res" where
  "fld_str f key = (case map_of f key of
      Some (JStr s) \<Rightarrow> Ok s | Some _ \<Rightarrow> Err MeBadField | None \<Rightarrow> Err MeMissingField)"

definition fld_uint :: "fields \<Rightarrow> string \<Rightarrow> nat \<Rightarrow> (u64, message_error) res" where
  "fld_uint f key mx = (case map_of f key of
      Some (JInt n) \<Rightarrow> if 0 \<le> n \<and> nat n \<le> mx then Ok (of_int n) else Err MeBadField
    | Some _ \<Rightarrow> Err MeBadField | None \<Rightarrow> Err MeMissingField)"

definition fld_nullable_str :: "fields \<Rightarrow> string \<Rightarrow> (string option, message_error) res" where
  "fld_nullable_str f key = (case map_of f key of
      Some (JStr s) \<Rightarrow> Ok (Some s) | Some JNull \<Rightarrow> Ok None
    | Some _ \<Rightarrow> Err MeBadField | None \<Rightarrow> Err MeMissingField)"

definition label_text :: "string \<Rightarrow> (string, message_error) res" where
  "label_text s =
     (if s = [] \<or> MAX_TEXT_FIELD < length s
         \<or> \<not> list_all (\<lambda>c. is_ascii_alphanumeric c \<or> c \<in> set ''._- '') s
      then Err MeBadField else Ok s)"

fun hex_pairs :: "string \<Rightarrow> bytes" where
  "hex_pairs (a # b # s) = of_nat (16 * hex_digit a + hex_digit b) # hex_pairs s"
| "hex_pairs _ = []"

definition hex_bytes :: "string \<Rightarrow> nat \<Rightarrow> (bytes, message_error) res" where
  "hex_bytes s mx =
     (if length s mod 2 \<noteq> 0 \<or> mx * 2 < length s \<or> \<not> list_all is_ascii_hexdigit s
      then Err MeBadField else Ok (hex_pairs s))"

definition parse_mac :: "string \<Rightarrow> (bytes, message_error) res" where
  "parse_mac s =
     (let parts = split_on CHR '':'' s
      in if length parts \<noteq> 6 \<or> list_ex (\<lambda>p. length p \<noteq> 2) parts then Err MeBadField
         else collect (map (\<lambda>p. and_then (hex_bytes p 1) (\<lambda>b. Ok (hd b))) parts))"

definition parse_band :: "string option \<Rightarrow> (wifi_band option, message_error) res" where
  "parse_band b = (case b of
      None \<Rightarrow> Ok None
    | Some s \<Rightarrow> if s = ''2.4'' then Ok (Some Ghz2_4) else if s = ''5'' then Ok (Some Ghz5)
        else if s = ''6'' then Ok (Some Ghz6) else Err MeBadField)"

definition parse_channel :: "jvalue option \<Rightarrow> (u16 option, message_error) res" where
  "parse_channel v = (case v of
      Some JNull \<Rightarrow> Ok None
    | Some (JInt c) \<Rightarrow> if 1 \<le> c \<and> c \<le> 233 then Ok (Some (of_int c)) else Err MeBadField
    | Some _ \<Rightarrow> Err MeBadField
    | None \<Rightarrow> Err MeMissingField)"

text \<open>\<open>map(f).transpose()\<close> of an optional value.\<close>

definition transpose :: "('a \<Rightarrow> ('b, 'e) res) \<Rightarrow> 'a option \<Rightarrow> ('b option, 'e) res" where
  "transpose f v = (case v of None \<Rightarrow> Ok None | Some x \<Rightarrow> and_then (f x) (\<lambda>y. Ok (Some y)))"

definition parse_context :: "fields \<Rightarrow> (provider_message, message_error) res" where
  "parse_context f =
     and_then (fld_str f ''availability'') (\<lambda>a.
     and_then (ok_or (from_name context_names a) MeBadField) (\<lambda>availability.
     and_then (fld_nullable_str f ''band'') (\<lambda>b.
     and_then (parse_band b) (\<lambda>band.
     and_then (parse_channel (map_of f ''channel'')) (\<lambda>channel.
     and_then (fld_nullable_str f ''ssid_hex'') (\<lambda>sh.
     and_then (transpose (\<lambda>s. hex_bytes s 32) sh) (\<lambda>ssid.
     and_then (fld_nullable_str f ''bssid'') (\<lambda>bs.
     and_then (transpose parse_mac bs) (\<lambda>bssid.
     if (ssid \<noteq> None \<or> bssid \<noteq> None) \<and> availability \<noteq> CaAvailable then Err MeBadField
     else
     and_then (fld_uint f ''seq'' (2 ^ 32 - 1)) (\<lambda>seq.
     and_then (fld_uint f ''t_ms'' (2 ^ 53)) (\<lambda>t_ms.
     and_then (fld_uint f ''age_ms'' (2 ^ 32 - 1)) (\<lambda>age_ms.
       Ok (PmContext seq t_ms (ucast age_ms)
         \<lparr>ac_availability = availability, ac_band = band, ac_channel = channel,
          ac_ssid = ssid, ac_bssid = bssid\<rparr>)))))))))))))"

definition parse_provider_message :: "string \<Rightarrow> (provider_message, message_error) res" where
  "parse_provider_message line =
     (case parse_flat_object line of
        Panic \<Rightarrow> Panic
      | Err e \<Rightarrow> Err (from_flat e)
      | Ok f \<Rightarrow>
          and_then (case map_of f ''v'' of
              Some (JInt v) \<Rightarrow> if v = IPC_VERSION then Ok () else Err MeBadVersion
            | Some _ \<Rightarrow> Err MeBadField
            | None \<Rightarrow> Err MeMissingField) (\<lambda>_.
          and_then (fld_str f ''type'') (\<lambda>type.
          if type = ''hello'' then
            and_then (and_then (fld_str f ''provider'') label_text) (\<lambda>provider.
            and_then (and_then (fld_str f ''provider_version'') label_text) (\<lambda>version.
              Ok (PmHello provider version)))
          else if type = ''permission_status'' then
            and_then (fld_uint f ''seq'' (2 ^ 32 - 1)) (\<lambda>seq.
            and_then (fld_str f ''status'') (\<lambda>s.
            and_then (ok_or (from_name permission_names s) MeBadField) (\<lambda>status.
              Ok (PmPermissionStatus seq status))))
          else if type = ''context'' then parse_context f
          else Err MeUnknownType)))"

section \<open>What a parsed message guarantees\<close>

definition ctx_ok :: "assoc_context \<Rightarrow> bool" where
  "ctx_ok c \<longleftrightarrow> (ac_ssid c \<noteq> None \<or> ac_bssid c \<noteq> None \<longrightarrow> ac_availability c = CaAvailable)
     \<and> (\<forall>s. ac_ssid c = Some s \<longrightarrow> length s \<le> 32)
     \<and> (\<forall>b. ac_bssid c = Some b \<longrightarrow> length b = 6)
     \<and> (\<forall>n. ac_channel c = Some n \<longrightarrow> 1 \<le> unat n \<and> unat n \<le> 233)"

lemma length_hex_pairs: "length (hex_pairs s) = length s div 2"
  by (induction s rule: hex_pairs.induct) auto

lemma hex_bytes_Ok: "hex_bytes s mx = Ok b \<Longrightarrow> length b = length s div 2 \<and> length b \<le> mx"
  by (auto simp: hex_bytes_def length_hex_pairs split: if_splits)

lemma length_collect: "collect rs = Ok xs \<Longrightarrow> length xs = length rs"
  by (auto simp: collect_eq_Ok)

lemma parse_mac_Ok: "parse_mac s = Ok b \<Longrightarrow> length b = 6"
  by (auto simp: parse_mac_def Let_def dest: length_collect split: if_splits)

lemma unat_of_int:
  assumes "0 \<le> n" and "nat n < 2 ^ LENGTH('a::len)"
  shows "unat (of_int n :: 'a word) = nat n"
proof -
  obtain m where "n = int m"
    using assms(1) nonneg_int_cases by blast
  then show ?thesis
    using assms(2) by (simp add: unsigned_of_nat take_bit_nat_eq_self)
qed

lemma parse_channel_Ok:
  assumes "parse_channel v = Ok (Some n)"
  shows "1 \<le> unat n \<and> unat n \<le> 233"
proof -
  obtain c where c: "1 \<le> c" "c \<le> 233" "n = of_int c"
    using assms by (auto simp: parse_channel_def split: option.splits jvalue.splits if_splits)
  then have "nat c < 2 ^ LENGTH(16)" and "1 \<le> nat c" and "nat c \<le> 233"
    by (simp_all add: nat_less_iff le_nat_iff)
  then show ?thesis
    using c unat_of_int [of c, where 'a = 16] by simp
qed

lemma transpose_Ok: "transpose f v = Ok (Some y) \<Longrightarrow> \<exists>x. f x = Ok y"
  by (auto simp: transpose_def and_then_eq_Ok split: option.splits)

lemma fld_uint_Ok:
  assumes "fld_uint f k mx = Ok v" and "mx < 2 ^ 64"
  shows "unat v \<le> mx"
proof -
  obtain n where n: "0 \<le> n" "nat n \<le> mx" "v = of_int n"
    using assms(1) by (auto simp: fld_uint_def split: option.splits jvalue.splits if_splits)
  then show ?thesis
    using assms(2) unat_of_int [of n, where 'a = 64] by simp
qed

lemma parse_context_Ok:
  assumes "parse_context f = Ok m"
  obtains seq t_ms age c where "m = PmContext seq t_ms age c" and "ctx_ok c"
    and "unat seq < 2 ^ 32" and "unat t_ms \<le> 2 ^ 53"
proof -
  obtain availability band channel sh ssid bs bssid seq t_ms age where
    ch: "parse_channel (map_of f ''channel'') = Ok channel"
    and ssid: "transpose (\<lambda>s. hex_bytes s 32) sh = Ok ssid"
    and bssid: "transpose parse_mac bs = Ok bssid"
    and av: "(ssid \<noteq> None \<or> bssid \<noteq> None) \<longrightarrow> availability = CaAvailable"
    and seq: "fld_uint f ''seq'' (2 ^ 32 - 1) = Ok seq" and t: "fld_uint f ''t_ms'' (2 ^ 53) = Ok t_ms"
    and m: "m = PmContext seq t_ms (ucast (age :: u64))
         \<lparr>ac_availability = availability, ac_band = band, ac_channel = channel,
          ac_ssid = ssid, ac_bssid = bssid\<rparr>"
    using assms by (auto simp: parse_context_def and_then_eq_Ok split: if_split_asm)
  have "ctx_ok \<lparr>ac_availability = availability, ac_band = band, ac_channel = channel,
          ac_ssid = ssid, ac_bssid = bssid\<rparr>"
    using av ch ssid bssid
    by (auto simp: ctx_ok_def dest!: transpose_Ok hex_bytes_Ok parse_mac_Ok dest: parse_channel_Ok)
  then show ?thesis
    using that m fld_uint_Ok [OF seq] fld_uint_Ok [OF t] by simp
qed

section \<open>Runs of the tracker\<close>

datatype tracker_event =
    TConnected
  | TDisconnected
  | TPermission permission_status
  | TContext assoc_context u32 u64

fun tracker_step :: "tracker_event \<Rightarrow> context_tracker \<Rightarrow> context_tracker" where
  "tracker_step TConnected t = on_connected t"
| "tracker_step TDisconnected t = on_disconnected t"
| "tracker_step (TPermission status) t = on_permission status t"
| "tracker_step (TContext ctx age_ms now_ms) t = on_context ctx age_ms now_ms t"

text \<open>The states reached from the default by events whose contexts passed the parser.\<close>

inductive tracker_run :: "context_tracker \<Rightarrow> bool" where
  tracker_start: "tracker_run ct_default"
| tracker_next: "tracker_run t \<Longrightarrow> (\<And>c a n. e = TContext c a n \<Longrightarrow> ctx_ok c) \<Longrightarrow>
     tracker_run (tracker_step e t)"

lemma ctx_ok_unavailable: "ctx_ok (ac_unavailable a)"
  by (simp add: ctx_ok_def ac_unavailable_def)

lemma tracker_run_ok: "tracker_run t \<Longrightarrow> ct_sample t = Some (c, a, n) \<Longrightarrow> ctx_ok c"
proof (induction arbitrary: c a n rule: tracker_run.induct)
  case tracker_start
  then show ?case by (simp add: ct_default_def)
next
  case (tracker_next t e)
  show ?case
  proof (cases e)
    case (TPermission s)
    then obtain d where d: "ct_sample t = Some (d, a, n)"
      and c: "c = (if s = PsGranted \<and> ac_availability d = CaAvailable then d
         else d\<lparr>ac_availability := availability_for s, ac_ssid := None, ac_bssid := None\<rparr>)"
      using tracker_next.prems by (auto simp: on_permission_def Let_def)
    show ?thesis
      using tracker_next.IH [OF d] by (simp add: c ctx_ok_def)
  qed (use tracker_next in \<open>auto simp: on_connected_def on_disconnected_def on_context_def\<close>)
qed

definition has_values :: "assoc_context \<Rightarrow> bool" where
  "has_values c \<longleftrightarrow> ac_band c \<noteq> None \<or> ac_channel c \<noteq> None \<or> ac_ssid c \<noteq> None \<or> ac_bssid c \<noteq> None"

lemma reading_now_simps [simp]:
  "cr_context (reading_now a) = ac_unavailable a" "cr_age_ms (reading_now a) = 0"
  "\<not> has_values (ac_unavailable a)" "ac_ssid (ac_unavailable a) = None"
  "ac_bssid (ac_unavailable a) = None" "ac_availability (ac_unavailable a) = a"
  by (simp_all add: reading_now_def has_values_def ac_unavailable_def)

lemma age_no_wrap:
  fixes age :: u32 and now at :: u64
  assumes "unat now + 2 ^ 32 \<le> 2 ^ 64"
  shows "unat (sat_sub now at + ucast age) = unat now - unat at + unat age"
proof -
  have "unat (sat_sub now at) + unat (ucast age :: u64) < 2 ^ 64"
    using u32_less [of age] assms by (simp add: unat_sat_sub unat_ucast_up)
  then show ?thesis
    by (simp add: unat_word_ariths unat_sat_sub unat_ucast_up)
qed

lemma ct_reading_cases:
  assumes "unat now + 2 ^ 32 \<le> 2 ^ 64"
  obtains (fresh) c at age where "ct_sample t = Some (c, at, age)"
      and "unat now - unat at + unat age < 15000" and "cr_context (ct_reading now t) = c"
      and "unat (cr_age_ms (ct_reading now t)) = unat now - unat at + unat age"
  | (bare) a where "ct_reading now t = reading_now a"
proof (cases "ct_sample t")
  case None
  then show ?thesis
    using bare by (simp add: ct_reading_def)
next
  case (Some s)
  obtain c at age where s: "ct_sample t = Some (c, at, age)"
    using Some by (cases s) auto
  note n = age_no_wrap [OF assms, of at age]
  show ?thesis
  proof (cases "sat_sub now at + ucast age < CONTEXT_SILENCE_LIMIT_MS")
    case True
    then have lt: "unat now - unat at + unat age < 15000"
      using n by (simp add: word_less_nat_alt CONTEXT_SILENCE_LIMIT_MS_def)
    have "unat (ucast (sat_sub now at + ucast age) :: u32) = unat now - unat at + unat age"
      unfolding n [symmetric] using lt n
      by (simp add: unsigned_ucast_eq take_bit_nat_eq_self del: unsigned_numeral)
    then show ?thesis
      using True s lt by (intro fresh [OF s lt]) (simp_all add: ct_reading_def Let_def)
  next
    case False
    then show ?thesis
      using s by (intro bare) (simp add: ct_reading_def Let_def)
  qed
qed

section \<open>Properties\<close>

lemma parse_provider_message_not_Panic: "parse_provider_message line \<noteq> Panic"
proof -
  have "collect (map (\<lambda>p. and_then (hex_bytes p 1) (\<lambda>b. Ok (hd b))) ps) \<noteq> Panic" for ps
    by (rule collect_not_Panic) (auto simp: hex_bytes_def split: if_splits)
  then have mac: "parse_mac s \<noteq> Panic" for s
    by (simp add: parse_mac_def Let_def)
  have calls: "hex_bytes s n \<noteq> Panic" "fld_str f k \<noteq> Panic" "fld_uint f k mx \<noteq> Panic"
    "fld_nullable_str f k \<noteq> Panic" "label_text s \<noteq> Panic" "parse_band b \<noteq> Panic"
    "parse_channel v \<noteq> Panic" for s n f k mx b v
    by (auto simp: hex_bytes_def fld_str_def fld_uint_def fld_nullable_str_def label_text_def
        parse_band_def parse_channel_def split: option.splits jvalue.splits)
  have tr: "transpose parse_mac x \<noteq> Panic" "transpose (\<lambda>s. hex_bytes s n) x \<noteq> Panic" for x n
    using mac calls by (auto simp: transpose_def and_then_eq_Panic split: option.splits)
  have ctx: "parse_context f \<noteq> Panic" for f
    by (auto simp: parse_context_def and_then_eq_Panic calls tr)
  show ?thesis
    using parse_flat_object_not_Panic [of line]
    by (auto simp: parse_provider_message_def and_then_eq_Panic calls ctx
        split: res.splits option.splits jvalue.splits)
qed

text \<open>
  No line makes the provider parser panic, and an accepted context is well formed: SSID
  and BSSID only with availability \<open>available\<close>, an SSID of at most 32 bytes, a BSSID of six,
  a channel from 1 to 233, sequence and time within their bounds.
\<close>

theorem provider_messages_are_wellformed:
  "parse_provider_message line \<noteq> Panic
   \<and> (\<forall>seq t_ms age c. parse_provider_message line = Ok (PmContext seq t_ms age c) \<longrightarrow>
        ctx_ok c \<and> unat seq < 2 ^ 32 \<and> unat t_ms \<le> 2 ^ 53)
   \<and> (\<forall>p v. parse_provider_message line = Ok (PmHello p v) \<longrightarrow>
        p \<noteq> [] \<and> v \<noteq> [] \<and> length p \<le> MAX_TEXT_FIELD \<and> length v \<le> MAX_TEXT_FIELD)"
proof (intro conjI allI impI)
  show "parse_provider_message line \<noteq> Panic"
    by (rule parse_provider_message_not_Panic)
next
  fix seq t_ms age c
  assume "parse_provider_message line = Ok (PmContext seq t_ms age c)"
  then obtain f where "parse_context f = Ok (PmContext seq t_ms age c)"
    by (auto simp: parse_provider_message_def and_then_eq_Ok split: res.splits if_split_asm)
  then show "ctx_ok c" and "unat seq < 2 ^ 32" and "unat t_ms \<le> 2 ^ 53"
    by (auto elim: parse_context_Ok)
next
  fix p v
  assume "parse_provider_message line = Ok (PmHello p v)"
  then have "(\<exists>f. parse_context f = Ok (PmHello p v)) \<or> (\<exists>a b. label_text a = Ok p \<and> label_text b = Ok v)"
    by (auto simp: parse_provider_message_def and_then_eq_Ok split: res.splits if_split_asm)
  then have "\<exists>a b. label_text a = Ok p \<and> label_text b = Ok v"
    by (auto elim: parse_context_Ok)
  then show "p \<noteq> []" and "v \<noteq> []" and "length p \<le> MAX_TEXT_FIELD" and "length v \<le> MAX_TEXT_FIELD"
    by (auto simp: label_text_def split: if_split_asm)
qed

theorem provider_messages_are_wellformed_witness:
  "parse_provider_message ''{'' \<noteq> Panic"
  using provider_messages_are_wellformed [of "''{''"] by blast

text \<open>
  What the tracker reports is current and permitted. In every state reached by any events,
  a reading that carries any value is the last context received, at its true age, which is
  below fifteen seconds; and it carries an SSID or BSSID only with availability \<open>available\<close>.
\<close>

theorem readings_are_current:
  assumes "tracker_run t" and "unat now + 2 ^ 32 \<le> 2 ^ 64"
  shows "ctx_ok (cr_context (ct_reading now t)) \<and> unat (cr_age_ms (ct_reading now t)) < 15000
     \<and> (has_values (cr_context (ct_reading now t)) \<longrightarrow>
          (\<exists>at age. ct_sample t = Some (cr_context (ct_reading now t), at, age)
             \<and> unat (cr_age_ms (ct_reading now t)) = unat now - unat at + unat age))"
  using assms(2)
proof (cases rule: ct_reading_cases [where t = t])
  case (fresh c at age)
  then show ?thesis
    using tracker_run_ok [OF assms(1) fresh(1)] by auto
next
  case (bare a)
  then show ?thesis
    by (simp add: ctx_ok_unavailable)
qed

theorem readings_are_current_witness:
  "unat (cr_age_ms (ct_reading 20000 (tracker_step
      (TContext ((ac_unavailable CaDenied)\<lparr>ac_channel := Some 6\<rparr>) 1000 10000) ct_default))) < 15000"
proof -
  have "tracker_run (tracker_step (TContext ((ac_unavailable CaDenied)\<lparr>ac_channel := Some 6\<rparr>) 1000 10000) ct_default)"
    by (rule tracker_next [OF tracker_start]) (auto simp: ctx_ok_def ac_unavailable_def)
  from readings_are_current [OF this, of 20000] show ?thesis by simp
qed

text \<open>
  A withdrawn permission takes effect at once: after any status but \<open>granted\<close>, no reading
  carries an SSID or a BSSID until the provider sends a new context, whatever other events
  follow and however fresh the old context was.
\<close>

theorem refusal_drops_identity:
  assumes "status \<noteq> PsGranted" and "\<forall>e \<in> set es. \<forall>c a n. e \<noteq> TContext c a n"
  shows "ac_ssid (cr_context (ct_reading now (fold tracker_step es (on_permission status t)))) = None
     \<and> ac_bssid (cr_context (ct_reading now (fold tracker_step es (on_permission status t)))) = None"
proof -
  define bare where "bare = (\<lambda>t :: context_tracker. \<forall>c a n. ct_sample t = Some (c, a, n) \<longrightarrow> ac_ssid c = None \<and> ac_bssid c = None)"
  have keep: "bare (tracker_step e t)" if "bare t" "\<forall>c a n. e \<noteq> TContext c a n" for e t
    using that unfolding bare_def
    by (cases e) (auto simp: on_connected_def on_disconnected_def on_permission_def Let_def)
  have "bare (on_permission status t)"
    using assms(1) by (auto simp: bare_def on_permission_def Let_def)
  then have "bare (fold tracker_step es (on_permission status t))"
    using assms(2) keep by (induction es arbitrary: t rule: rev_induct) auto
  then show ?thesis
    by (auto simp: bare_def ct_reading_def Let_def split: option.splits)
qed

theorem refusal_drops_identity_witness:
  "ac_ssid (cr_context (ct_reading 5 (fold tracker_step [TDisconnected] (on_permission PsDenied
     (tracker_step (TContext ((ac_unavailable CaAvailable)\<lparr>ac_ssid := Some [1]\<rparr>) 0 4) ct_default))))) = None"
  by (rule refusal_drops_identity [THEN conjunct1]) simp_all

end
