(* ===== verification/Network_Metrics.thy ===== *)
theory Network_Metrics
  imports Samplers Wifi_Context "HOL-Library.Product_Lexorder"
begin

text \<open>
  The Network collector of \<^verbatim>\<open>host/metrics/src/network.rs\<close>: the primary route, the links whose
  traffic is totalled with one rate baseline each, the WiFi coverage, and the two halves of a
  reading. What the operating system shows (\<open>system_view\<close>) and what the context provider says
  are inputs of each collection.
\<close>

section \<open>The system's view\<close>

datatype if_kind = IfWifi | IfEthernet | IfOther | IfTunnel | IfLoopback

datatype net_route = NrUnknown | NrWifi | NrEthernet | NrOther | NrNone

record interface_counters =
  ic_rx_bytes :: u64
  ic_tx_bytes :: u64

record network_rate =
  nr_rx_bytes_per_s :: u64
  nr_tx_bytes_per_s :: u64

record interface_info =
  if_name :: string
  if_index :: u32
  if_kind :: if_kind
  if_up_running :: bool
  if_link_active :: bool
  if_station :: "bytes option"
  if_counters :: "interface_counters option"

record default_route =
  rt_interface :: string
  rt_scoped :: bool

record system_view =
  sv_interfaces :: "interface_info list"
  sv_default_routes :: "default_route list"

record primary_route =
  pr_interface :: string
  pr_index :: u32
  pr_kind :: net_route
  pr_via_tunnel :: bool
  pr_station :: "bytes option"

section \<open>The primary route\<close>

fun route_kind_of :: "if_kind \<Rightarrow> net_route" where
  "route_kind_of IfWifi = NrWifi"
| "route_kind_of IfEthernet = NrEthernet"
| "route_kind_of IfOther = NrOther"
| "route_kind_of IfTunnel = NrOther"
| "route_kind_of IfLoopback = NrUnknown"

definition usable :: "system_view \<Rightarrow> default_route \<Rightarrow> bool" where
  "usable v r = list_ex (\<lambda>i. if_name i = rt_interface r \<and> if_up_running i \<and> if_kind i \<noteq> IfLoopback)
     (sv_interfaces v)"

text \<open>\<open>expect\<close> is the panic.\<close>

definition interface_of :: "system_view \<Rightarrow> default_route \<Rightarrow> (interface_info, unit) res" where
  "interface_of v r =
     (case find (\<lambda>i. if_name i = rt_interface r) (sv_interfaces v) of
        Some i \<Rightarrow> Ok i | None \<Rightarrow> Panic)"

definition select_primary_route :: "system_view \<Rightarrow> (primary_route option, unit) res" where
  "select_primary_route v =
     (case (case find (\<lambda>r. \<not> rt_scoped r) (filter (usable v) (sv_default_routes v)) of
              Some r \<Rightarrow> Some r
            | None \<Rightarrow> find (usable v) (sv_default_routes v)) of
        None \<Rightarrow> Ok None
      | Some chosen \<Rightarrow>
          and_then (interface_of v chosen) (\<lambda>primary.
          if if_kind primary \<noteq> IfTunnel then
            Ok (Some \<lparr>pr_interface = if_name primary, pr_index = if_index primary,
              pr_kind = route_kind_of (if_kind primary), pr_via_tunnel = False,
              pr_station = if_station primary\<rparr>)
          else
            and_then (collect (map (interface_of v) (filter (usable v) (sv_default_routes v)))) (\<lambda>is.
            Ok (Some \<lparr>pr_interface = if_name primary, pr_index = if_index primary,
              pr_kind = (case find (\<lambda>i. if_kind i \<noteq> IfTunnel) is of
                 None \<Rightarrow> NrOther | Some i \<Rightarrow> route_kind_of (if_kind i)),
              pr_via_tunnel = True, pr_station = None\<rparr>))))"

section \<open>Coverage\<close>

datatype coverage = CoUnknown | CoObservable | CoOutsideSupported

definition coverage_for :: "wifi_band option \<Rightarrow> u16 option \<Rightarrow> coverage \<times> u8" where
  "coverage_for band channel =
     (let unknown = (CoUnknown, 0) in
      if (case channel of Some c \<Rightarrow> c \<noteq> 0 \<and> 233 < c | None \<Rightarrow> False) then unknown
      else
        let channel = (case channel of Some c \<Rightarrow> if c = 0 then None else Some c | None \<Rightarrow> None)
        in case (band, channel) of
             (Some Ghz2_4, None) \<Rightarrow> (CoObservable, 0)
           | (Some Ghz2_4, Some c) \<Rightarrow> if c \<le> 14 then (CoObservable, ucast c) else unknown
           | (Some Ghz5, None) \<Rightarrow> (CoOutsideSupported, 0)
           | (Some Ghz6, None) \<Rightarrow> (CoOutsideSupported, 0)
           | (Some Ghz5, Some c) \<Rightarrow>
               if 32 \<le> c \<and> c \<le> 177 then (CoOutsideSupported, ucast c) else unknown
           | (Some Ghz6, Some c) \<Rightarrow> (CoOutsideSupported, ucast c)
           | (None, Some c) \<Rightarrow> if 14 < c then (CoOutsideSupported, ucast c) else unknown
           | (None, None) \<Rightarrow> unknown)"

section \<open>Links\<close>

definition MAX_ACTIVE_LINKS :: nat where
  "MAX_ACTIVE_LINKS = 8"

fun rank :: "if_kind \<Rightarrow> nat" where
  "rank IfWifi = 0"
| "rank IfEthernet = 1"
| "rank _ = 2"

definition active_links :: "system_view \<Rightarrow> primary_route option \<Rightarrow> interface_info list" where
  "active_links v primary =
     take MAX_ACTIVE_LINKS
       (sort_key (\<lambda>i. (rank (if_kind i), if_index i))
         (filter (\<lambda>i. if_link_active i \<and> if_kind i \<in> {IfWifi, IfEthernet}
             \<or> (case primary of None \<Rightarrow> False
                | Some p \<Rightarrow> \<not> pr_via_tunnel p \<and> pr_interface p = if_name i \<and> if_kind i = IfOther))
           (sv_interfaces v)))"

fun net_link_kind :: "if_kind \<Rightarrow> net_route" where
  "net_link_kind IfWifi = NrWifi"
| "net_link_kind IfEthernet = NrEthernet"
| "net_link_kind _ = NrOther"

section \<open>The collector\<close>

record traffic_half =
  th_availability :: metric_availability
  th_route_kind :: net_route
  th_via_tunnel :: bool
  th_rate :: "network_rate option"
  th_links :: "net_route list"

record wifi_half =
  wh_availability :: context_availability
  wh_age_ms :: u32
  wh_coverage :: coverage
  wh_channel :: u8
  wh_station :: "bytes option"
  wh_ssid :: bytes
  wh_bssid :: "bytes option"

record network_reading =
  ng_traffic :: traffic_half
  ng_wifi :: wifi_half

text \<open>\<open>RateSampler\<close> and the map of samplers, by interface name.\<close>

definition net_rate_sample ::
    "string rate_baseline \<Rightarrow> string \<Rightarrow> interface_counters \<Rightarrow> u64 \<Rightarrow> network_rate metric_sample \<times> string rate_baseline" where
  "net_rate_sample baseline key counters now_ms =
     (let (sample, baseline) = rate_sample baseline key (ic_rx_bytes counters, ic_tx_bytes counters) now_ms
      in (ms_map (\<lambda>(r, t). \<lparr>nr_rx_bytes_per_s = r, nr_tx_bytes_per_s = t\<rparr>) sample, baseline))"

type_synonym samplers = "string \<rightharpoonup> string rate_baseline"

definition hex2 :: "u8 \<Rightarrow> string" where
  "hex2 b = (let d = (\<lambda>n. if n < 10 then digit_char n else char_of (87 + n))
     in [d (unat b div 16), d (unat b mod 16)])"

definition link_key :: "interface_info \<Rightarrow> string" where
  "link_key i = if_name i @ ''#'' @ nat_str (unat (if_index i)) @ ''#''
     @ (case if_station i of None \<Rightarrow> [] | Some m \<Rightarrow> concat (map hex2 m))"

text \<open>
  The loop over the links: the samplers, the names seen, the total so far and the availability.
\<close>

fun link_loop ::
    "u64 \<Rightarrow> interface_info list \<Rightarrow> samplers \<Rightarrow> string set \<Rightarrow> network_rate option \<Rightarrow> metric_availability
     \<Rightarrow> samplers \<times> string set \<times> network_rate option \<times> metric_availability" where
  "link_loop now_ms [] samplers seen tot availability = (samplers, seen, tot, availability)"
| "link_loop now_ms (link # links) samplers seen tot availability =
     (let seen = insert (if_name link) seen in
      case if_counters link of
        None \<Rightarrow> link_loop now_ms links samplers seen None MError
      | Some counters \<Rightarrow>
          let entry = (case samplers (if_name link) of None \<Rightarrow> None | Some b \<Rightarrow> b);
              (sample, b) = net_rate_sample entry (link_key link) counters now_ms;
              samplers = samplers(if_name link \<mapsto> b)
          in case (ms_value sample, tot) of
               (Some rate, Some acc) \<Rightarrow>
                 link_loop now_ms links samplers seen
                   (Some \<lparr>nr_rx_bytes_per_s = sat_add (nr_rx_bytes_per_s acc) (nr_rx_bytes_per_s rate),
                          nr_tx_bytes_per_s = sat_add (nr_tx_bytes_per_s acc) (nr_tx_bytes_per_s rate)\<rparr>)
                   availability
             | (None, _) \<Rightarrow>
                 link_loop now_ms links samplers seen None
                   (if availability \<noteq> MError then ms_availability sample else availability)
             | (Some _, None) \<Rightarrow> link_loop now_ms links samplers seen tot availability)"

definition traffic :: "samplers \<Rightarrow> system_view option \<Rightarrow> u64 \<Rightarrow> (traffic_half \<times> samplers, unit) res" where
  "traffic samplers view now_ms =
     (case view of
        None \<Rightarrow> Ok (\<lparr>th_availability = MError, th_route_kind = NrUnknown, th_via_tunnel = False,
                    th_rate = None, th_links = []\<rparr>, Map.empty)
      | Some v \<Rightarrow>
          and_then (select_primary_route v) (\<lambda>route.
          let links = active_links v route; kinds = map (\<lambda>i. net_link_kind (if_kind i)) links
          in case route of
               None \<Rightarrow> Ok (\<lparr>th_availability = MAbsent, th_route_kind = NrNone, th_via_tunnel = False,
                           th_rate = None, th_links = kinds\<rparr>, Map.empty)
             | Some r \<Rightarrow>
                 let (samplers, seen, tot, availability) =
                       link_loop now_ms links samplers {}
                         (Some \<lparr>nr_rx_bytes_per_s = 0, nr_tx_bytes_per_s = 0\<rparr>) MAvailable
                 in Ok (\<lparr>th_availability = (if links = [] then MError else availability),
                         th_route_kind = pr_kind r, th_via_tunnel = pr_via_tunnel r,
                         th_rate = (if links = [] then None else tot), th_links = kinds\<rparr>,
                        samplers |` seen)))"

definition find_map :: "('a \<Rightarrow> 'b option) \<Rightarrow> 'a list \<Rightarrow> 'b option" where
  "find_map f xs = (case find (\<lambda>x. f x \<noteq> None) xs of None \<Rightarrow> None | Some x \<Rightarrow> f x)"

definition wifi :: "system_view option \<Rightarrow> context_reading \<Rightarrow> wifi_half" where
  "wifi view latest =
     (let up = (\<lambda>i. if_kind i = IfWifi \<and> if_up_running i);
          interfaces = (case view of None \<Rightarrow> [] | Some v \<Rightarrow> sv_interfaces v);
          station = find_map if_station (filter up interfaces);
          wifi_active = list_ex up interfaces;
          ctx = cr_context latest
      in if \<not> wifi_active then
           \<lparr>wh_availability = ac_availability ctx, wh_age_ms = 0, wh_coverage = CoUnknown,
            wh_channel = 0, wh_station = None, wh_ssid = [], wh_bssid = None\<rparr>
         else
           let (cov, ch) = coverage_for (ac_band ctx) (ac_channel ctx);
               available = (ac_availability ctx = CaAvailable)
           in \<lparr>wh_availability = ac_availability ctx, wh_age_ms = cr_age_ms latest,
               wh_coverage = cov, wh_channel = ch, wh_station = station,
               wh_ssid = (if available then (case ac_ssid ctx of None \<Rightarrow> [] | Some s \<Rightarrow> s) else []),
               wh_bssid = (if available then ac_bssid ctx else None)\<rparr>)"

text \<open>\<open>collect\<close>, with the view and the provider's reading at this second, and \<open>on_wake\<close>.\<close>

definition net_collect ::
    "samplers \<Rightarrow> system_view option \<Rightarrow> context_reading \<Rightarrow> u64
     \<Rightarrow> (network_reading metric_sample \<times> samplers, unit) res" where
  "net_collect samplers view latest now_ms =
     and_then (traffic samplers view now_ms) (\<lambda>(t, samplers).
       Ok (ms_available \<lparr>ng_traffic = t, ng_wifi = wifi view latest\<rparr>, samplers))"

definition net_on_wake :: "samplers \<Rightarrow> samplers" where
  "net_on_wake samplers = Map.empty"

end
