(* ===== verification/Network_Correct.thy ===== *)
theory Network_Correct
  imports Network_Metrics
begin

text \<open>
  What a Network reading guarantees: the primary route is a usable interface, each half is
  consistent with its own availability, totals are the sums of the links' rates, and nothing
  is measured across a wake.
\<close>

section \<open>The primary route\<close>

definition distinct_names :: "system_view \<Rightarrow> bool" where
  "distinct_names v \<longleftrightarrow> distinct (map if_name (sv_interfaces v))"

lemma find_by_name:
  "distinct (map if_name is) \<Longrightarrow> i \<in> set is \<Longrightarrow> if_name i = n \<Longrightarrow>
   find (\<lambda>i. if_name i = n) is = Some i"
  by (induction "is") (auto simp: rev_image_eqI)

lemma interface_of_usable:
  assumes "usable v r"
  obtains i where "interface_of v r = Ok i"
proof -
  have "\<exists>i. find (\<lambda>i. if_name i = rt_interface r) (sv_interfaces v) = Some i"
    using assms by (fastforce simp: usable_def list_ex_iff find_None_iff split: option.splits
        intro: ccontr)
  then show ?thesis
    using that by (auto simp: interface_of_def)
qed

lemma interface_of_distinct:
  assumes "distinct_names v" and "usable v r"
  obtains i where "interface_of v r = Ok i" and "i \<in> set (sv_interfaces v)"
    and "if_name i = rt_interface r" and "if_up_running i" and "if_kind i \<noteq> IfLoopback"
proof -
  obtain i where i: "i \<in> set (sv_interfaces v)" "if_name i = rt_interface r" "if_up_running i"
    "if_kind i \<noteq> IfLoopback"
    using assms(2) by (auto simp: usable_def list_ex_iff)
  then have "interface_of v r = Ok i"
    using find_by_name [OF assms(1) [unfolded distinct_names_def] i(1,2)] by (simp add: interface_of_def)
  with i that show ?thesis by blast
qed

lemma interfaces_Ok:
  "\<exists>is. collect (map (interface_of v) (filter (usable v) rs)) = Ok is"
proof (induction rs)
  case Nil
  show ?case by simp
next
  case (Cons r rs)
  then show ?case
    by (auto elim: interface_of_usable)
qed

text \<open>The route the search settles on.\<close>

definition chosen_route :: "system_view \<Rightarrow> default_route option" where
  "chosen_route v =
     (case find (\<lambda>r. \<not> rt_scoped r) (filter (usable v) (sv_default_routes v)) of
        Some r \<Rightarrow> Some r
      | None \<Rightarrow> find (usable v) (sv_default_routes v))"

lemma find_SomeD: "find P xs = Some x \<Longrightarrow> x \<in> set xs \<and> P x"
  by (induction xs) (auto split: if_splits)

lemma chosen_route_scoped:
  assumes "find (\<lambda>r. \<not> rt_scoped r) (filter (usable v) (sv_default_routes v)) = None"
  shows "chosen_route v = find (usable v) (sv_default_routes v)"
    and "\<forall>q \<in> set (sv_default_routes v). usable v q \<longrightarrow> rt_scoped q"
  using assms by (simp add: chosen_route_def) (use assms in \<open>auto simp: find_None_iff\<close>)

lemma chosen_route_unscoped:
  assumes "find (\<lambda>r. \<not> rt_scoped r) (filter (usable v) (sv_default_routes v)) = Some q"
  shows "chosen_route v = Some q \<and> q \<in> set (sv_default_routes v) \<and> usable v q \<and> \<not> rt_scoped q"
  using assms find_SomeD [OF assms] by (simp add: chosen_route_def)

lemma chosen_route_Some:
  assumes "chosen_route v = Some r"
  shows "r \<in> set (sv_default_routes v) \<and> usable v r
     \<and> (rt_scoped r \<longrightarrow> (\<forall>q \<in> set (sv_default_routes v). usable v q \<longrightarrow> rt_scoped q))"
proof (cases "find (\<lambda>r. \<not> rt_scoped r) (filter (usable v) (sv_default_routes v))")
  case None
  from chosen_route_scoped [OF None] show ?thesis
    using assms find_SomeD by metis
next
  case (Some q)
  from chosen_route_unscoped [OF Some] show ?thesis
    using assms by simp
qed

lemma chosen_route_None:
  "chosen_route v = None \<longleftrightarrow> (\<forall>r \<in> set (sv_default_routes v). \<not> usable v r)"
proof (cases "find (\<lambda>r. \<not> rt_scoped r) (filter (usable v) (sv_default_routes v))")
  case None
  from chosen_route_scoped [OF None] show ?thesis
    by (auto simp: find_None_iff)
next
  case (Some q)
  from chosen_route_unscoped [OF Some] show ?thesis
    by auto
qed

lemma select_unfold:
  "select_primary_route v =
     (case chosen_route v of
        None \<Rightarrow> Ok None
      | Some chosen \<Rightarrow>
          and_then (interface_of v chosen) (\<lambda>primary.
          if if_kind primary \<noteq> IfTunnel then
            Ok (Some \<lparr>pr_interface = if_name primary, pr_index = if_index primary,
              pr_kind = route_kind_of (if_kind primary), pr_via_tunnel = False,
              pr_station = if_station primary\<rparr>)
          else
            and_then (collect (map (interface_of v) (filter (usable v) (sv_default_routes v)))) (\<lambda>is.
            Ok (Some \<lparr>pr_interface = if_name primary, pr_index = if_index primary,
              pr_kind = (case find (\<lambda>i. if_kind i \<noteq> IfTunnel) is of
                 None \<Rightarrow> NrOther | Some i \<Rightarrow> route_kind_of (if_kind i)),
              pr_via_tunnel = True, pr_station = None\<rparr>))))"
  by (simp add: select_primary_route_def chosen_route_def)

lemma select_Ok: "\<exists>r. select_primary_route v = Ok r"
proof (cases "chosen_route v")
  case None
  then show ?thesis by (simp add: select_unfold)
next
  case (Some r)
  obtain i where "interface_of v r = Ok i"
    using chosen_route_Some [OF Some] interface_of_usable by blast
  moreover obtain "is" where "collect (map (interface_of v) (filter (usable v) (sv_default_routes v))) = Ok is"
    using interfaces_Ok by blast
  ultimately show ?thesis
    using Some by (simp add: select_unfold)
qed

lemma route_kind_real: "k \<noteq> IfLoopback \<Longrightarrow> route_kind_of k \<notin> {NrUnknown, NrNone}"
  by (cases k) simp_all

lemma collect_members:
  "collect (map f rs) = Ok is \<Longrightarrow> i \<in> set is \<Longrightarrow> \<exists>r \<in> set rs. f r = Ok i"
  by (induction rs arbitrary: "is") (auto simp: and_then_eq_Ok)

lemma select_Some:
  assumes "distinct_names v" and "select_primary_route v = Ok (Some p)"
  obtains r i where "chosen_route v = Some r" and "i \<in> set (sv_interfaces v)"
    and "if_name i = rt_interface r" and "if_up_running i" and "if_kind i \<noteq> IfLoopback"
    and "pr_interface p = if_name i" and "pr_via_tunnel p = (if_kind i = IfTunnel)"
    and "pr_kind p \<notin> {NrUnknown, NrNone}"
proof -
  obtain r where r: "chosen_route v = Some r"
    using assms(2) by (cases "chosen_route v") (auto simp: select_unfold)
  obtain i where i: "interface_of v r = Ok i" "i \<in> set (sv_interfaces v)" "if_name i = rt_interface r"
    "if_up_running i" "if_kind i \<noteq> IfLoopback"
    using chosen_route_Some [OF r] interface_of_distinct [OF assms(1)] by blast
  have kinds: "if_kind j \<noteq> IfLoopback"
    if mem: "collect (map (interface_of v) (filter (usable v) (sv_default_routes v))) = Ok is" "j \<in> set is" for "is" j
  proof -
    obtain q where "usable v q" "interface_of v q = Ok j"
      using collect_members [OF mem] by auto
    then show ?thesis
      using interface_of_distinct [OF assms(1)] by (metis res.inject(1))
  qed
  have p: "pr_interface p = if_name i" "pr_via_tunnel p = (if_kind i = IfTunnel)"
    using assms(2) r i(1) by (auto simp: select_unfold and_then_eq_Ok split: if_split_asm)
  have "pr_kind p \<notin> {NrUnknown, NrNone}"
  proof (cases "if_kind i = IfTunnel")
    case True
    then obtain "is" where c: "collect (map (interface_of v) (filter (usable v) (sv_default_routes v))) = Ok is"
      and k: "pr_kind p = (case find (\<lambda>i. if_kind i \<noteq> IfTunnel) is of
         None \<Rightarrow> NrOther | Some i \<Rightarrow> route_kind_of (if_kind i))"
      using assms(2) r i(1) by (auto simp: select_unfold and_then_eq_Ok)
    show ?thesis
    proof (cases "find (\<lambda>i. if_kind i \<noteq> IfTunnel) is")
      case None
      then show ?thesis using k by simp
    next
      case (Some j)
      then have "if_kind j \<noteq> IfLoopback"
        using kinds [OF c] by (metis find_Some_iff nth_mem)
      then show ?thesis
        using k Some route_kind_real by simp
    qed
  next
    case False
    then show ?thesis
      using assms(2) r i(1,5) route_kind_real by (auto simp: select_unfold)
  qed
  with that r i p show ?thesis by blast
qed

text \<open>
  The primary route is never a guess and its search never panics. With distinct interface
  names there is none exactly when no default route has a usable interface; otherwise it is the
  up, non-loopback interface of a default route, of an unscoped one whenever one is usable; it
  counts as a tunnel exactly when that interface is one, and its kind is a real one.
\<close>

theorem primary_route_is_usable:
  assumes "distinct_names v"
  shows "\<exists>r. select_primary_route v = Ok r
     \<and> (r = None \<longleftrightarrow> (\<forall>q \<in> set (sv_default_routes v). \<not> usable v q))
     \<and> (\<forall>p. r = Some p \<longrightarrow> pr_kind p \<notin> {NrUnknown, NrNone} \<and>
          (\<exists>q \<in> set (sv_default_routes v). \<exists>i \<in> set (sv_interfaces v).
             pr_interface p = rt_interface q \<and> if_name i = rt_interface q \<and> if_up_running i
             \<and> if_kind i \<noteq> IfLoopback \<and> pr_via_tunnel p = (if_kind i = IfTunnel)
             \<and> (rt_scoped q \<longrightarrow> (\<forall>u \<in> set (sv_default_routes v). usable v u \<longrightarrow> rt_scoped u))))"
proof -
  obtain r where r: "select_primary_route v = Ok r"
    using select_Ok by blast
  have none: "r = None \<longleftrightarrow> (\<forall>q \<in> set (sv_default_routes v). \<not> usable v q)"
  proof (cases "chosen_route v")
    case None
    then have "r = None"
      using r by (simp add: select_unfold)
    then show ?thesis
      using None chosen_route_None [of v] by simp
  next
    case (Some q)
    then have "r \<noteq> None"
      using r by (auto simp: select_unfold and_then_eq_Ok split: if_split_asm)
    then show ?thesis
      using Some chosen_route_None [of v] by (metis option.distinct(1))
  qed
  have "pr_kind p \<notin> {NrUnknown, NrNone} \<and>
      (\<exists>q \<in> set (sv_default_routes v). \<exists>i \<in> set (sv_interfaces v).
             pr_interface p = rt_interface q \<and> if_name i = rt_interface q \<and> if_up_running i
             \<and> if_kind i \<noteq> IfLoopback \<and> pr_via_tunnel p = (if_kind i = IfTunnel)
             \<and> (rt_scoped q \<longrightarrow> (\<forall>u \<in> set (sv_default_routes v). usable v u \<longrightarrow> rt_scoped u)))"
    if p: "r = Some p" for p
  proof -
    obtain q i where "chosen_route v = Some q" "i \<in> set (sv_interfaces v)" "if_name i = rt_interface q"
      "if_up_running i" "if_kind i \<noteq> IfLoopback" "pr_interface p = if_name i"
      "pr_via_tunnel p = (if_kind i = IfTunnel)" "pr_kind p \<notin> {NrUnknown, NrNone}"
      using select_Some [OF assms] r p by metis
    then show ?thesis
      using chosen_route_Some by metis
  qed
  with r none show ?thesis by blast
qed

definition sample_wifi_interface :: interface_info where
  "sample_wifi_interface = \<lparr>if_name = ''en0'', if_index = 4, if_kind = IfWifi, if_up_running = True,
     if_link_active = True, if_station = Some [2, 0, 0, 0, 0, 1],
     if_counters = Some \<lparr>ic_rx_bytes = 1000, ic_tx_bytes = 50\<rparr>\<rparr>"

definition sample_view :: system_view where
  "sample_view = \<lparr>sv_interfaces = [sample_wifi_interface],
     sv_default_routes = [\<lparr>rt_interface = ''en0'', rt_scoped = False\<rparr>]\<rparr>"

lemma sample_view_distinct: "distinct_names sample_view"
  by (simp add: distinct_names_def sample_view_def)

theorem primary_route_is_usable_witness:
  "\<exists>p. select_primary_route sample_view = Ok (Some p) \<and> pr_via_tunnel p = False"
  using primary_route_is_usable [OF sample_view_distinct]
  by (auto simp: sample_view_def usable_def sample_wifi_interface_def)

section \<open>The links' rates\<close>

text \<open>What one link contributes: its rate against its own baseline.\<close>

definition entry_of :: "samplers \<Rightarrow> interface_info \<Rightarrow> string rate_baseline" where
  "entry_of samplers link = (case samplers (if_name link) of None \<Rightarrow> None | Some b \<Rightarrow> b)"

definition link_rate :: "samplers \<Rightarrow> u64 \<Rightarrow> interface_info \<Rightarrow> network_rate option" where
  "link_rate samplers now_ms link =
     (case if_counters link of None \<Rightarrow> None
      | Some c \<Rightarrow> ms_value (fst (net_rate_sample (entry_of samplers link) (link_key link) c now_ms)))"

definition link_baseline :: "u64 \<Rightarrow> interface_info \<Rightarrow> string rate_baseline option" where
  "link_baseline now_ms link = map_option
     (\<lambda>c. Some (link_key link, (ic_rx_bytes c, ic_tx_bytes c), now_ms)) (if_counters link)"

definition rate_plus :: "network_rate \<Rightarrow> network_rate \<Rightarrow> network_rate" where
  "rate_plus a b = \<lparr>nr_rx_bytes_per_s = sat_add (nr_rx_bytes_per_s a) (nr_rx_bytes_per_s b),
     nr_tx_bytes_per_s = sat_add (nr_tx_bytes_per_s a) (nr_tx_bytes_per_s b)\<rparr>"

fun sum_rates :: "samplers \<Rightarrow> u64 \<Rightarrow> interface_info list \<Rightarrow> network_rate option \<Rightarrow> network_rate option" where
  "sum_rates s t [] acc = acc"
| "sum_rates s t (i # is) acc =
     sum_rates s t is (case (link_rate s t i, acc) of (Some r, Some a) \<Rightarrow> Some (rate_plus a r) | _ \<Rightarrow> None)"

lemma net_rate_sample_baseline:
  "snd (net_rate_sample b k c t) = Some (k, (ic_rx_bytes c, ic_tx_bytes c), t)"
  using rate.rebaselines [of b "(k, (ic_rx_bytes c, ic_tx_bytes c))" t]
  by (auto simp: net_rate_sample_def Let_def split: prod.split)

lemma net_rate_sample_wf: "ms_wf (fst (net_rate_sample b k c t))"
  using rate.wf [of b "(k, (ic_rx_bytes c, ic_tx_bytes c))" t]
  by (auto simp: net_rate_sample_def Let_def split: prod.split)

lemma net_rate_sample_pair:
  "net_rate_sample b k c t = (fst (net_rate_sample b k c t), Some (k, (ic_rx_bytes c, ic_tx_bytes c), t))"
  by (metis net_rate_sample_baseline prod.collapse)

text \<open>One turn of the loop, by what the link contributes.\<close>

lemma link_loop_step:
  "link_loop t (i # is) s seen tot av =
     link_loop t is
       (case link_baseline t i of None \<Rightarrow> s | Some b \<Rightarrow> s(if_name i \<mapsto> b))
       (insert (if_name i) seen)
       (case (link_rate s t i, tot) of (Some r, Some a) \<Rightarrow> Some (rate_plus a r) | _ \<Rightarrow> None)
       (case if_counters i of None \<Rightarrow> MError
        | Some c \<Rightarrow> if link_rate s t i = None \<and> av \<noteq> MError
            then ms_availability (fst (net_rate_sample (entry_of s i) (link_key i) c t)) else av)"
proof (cases "if_counters i")
  case None
  then show ?thesis
    by (simp add: link_rate_def link_baseline_def)
next
  case (Some c)
  have "net_rate_sample (entry_of s i) (link_key i) c t
      = (fst (net_rate_sample (entry_of s i) (link_key i) c t),
         Some (link_key i, (ic_rx_bytes c, ic_tx_bytes c), t))"
    by (rule net_rate_sample_pair)
  then obtain m where m: "net_rate_sample (entry_of s i) (link_key i) c t
      = (m, Some (link_key i, (ic_rx_bytes c, ic_tx_bytes c), t))"
    by blast
  then show ?thesis
    by (simp add: Some link_rate_def link_baseline_def rate_plus_def entry_of_def Let_def
        split: option.splits)
qed

lemma link_rate_other:
  "n \<noteq> if_name i \<Longrightarrow> link_rate (s(n \<mapsto> b)) t i = link_rate s t i"
  by (auto simp: link_rate_def entry_of_def split: option.split)

lemma sum_rates_other:
  "n \<notin> if_name ` set is \<Longrightarrow> sum_rates (s(n \<mapsto> b)) t is acc = sum_rates s t is acc"
  by (induction "is" arbitrary: acc) (simp_all add: link_rate_other)

lemma link_loop_Some:
  assumes "distinct (map if_name is)"
    and "link_loop t is s seen tot av = (s', seen', tot', av')"
  shows "tot' = sum_rates s t is tot \<and> seen' = seen \<union> if_name ` set is
    \<and> ((tot \<noteq> None \<longleftrightarrow> av = MAvailable) \<longrightarrow> (tot' \<noteq> None \<longleftrightarrow> av' = MAvailable))
    \<and> (\<forall>i \<in> set is. \<forall>b. link_baseline t i = Some b \<longrightarrow> s' (if_name i) = Some b)
    \<and> (\<forall>n. n \<notin> if_name ` set is \<longrightarrow> s' n = s n)"
  using assms
proof (induction "is" arbitrary: s seen tot av)
  case Nil
  then show ?case by simp
next
  case (Cons i "is")
  let ?s = "case link_baseline t i of None \<Rightarrow> s | Some b \<Rightarrow> s(if_name i \<mapsto> b)"
  let ?tot = "case (link_rate s t i, tot) of (Some r, Some a) \<Rightarrow> Some (rate_plus a r) | _ \<Rightarrow> None"
  let ?av = "case if_counters i of None \<Rightarrow> MError
        | Some c \<Rightarrow> if link_rate s t i = None \<and> av \<noteq> MError
            then ms_availability (fst (net_rate_sample (entry_of s i) (link_key i) c t)) else av"
  have fresh: "if_name i \<notin> if_name ` set is" and dist: "distinct (map if_name is)"
    using Cons.prems(1) by auto
  have "link_loop t is ?s (insert (if_name i) seen) ?tot ?av = (s', seen', tot', av')"
    using Cons.prems(2) by (simp only: link_loop_step)
  note IH = Cons.IH [OF dist this]
  have avail: "(?tot \<noteq> None \<longleftrightarrow> ?av = MAvailable)" if "tot \<noteq> None \<longleftrightarrow> av = MAvailable"
    using that net_rate_sample_wf
    by (auto simp: link_rate_def ms_wf_def split: option.splits)
  have sums: "sum_rates ?s t is ?tot = sum_rates s t (i # is) tot"
    using sum_rates_other [OF fresh] by (simp split: option.split)
  show ?case
    using IH avail sums fresh by (auto split: option.splits)
qed

section \<open>The halves of a reading\<close>

lemma active_links_subset: "set (active_links v route) \<subseteq> set (sv_interfaces v)"
  using set_take_subset by (fastforce simp: active_links_def)

lemma distinct_active_links:
  assumes "distinct_names v"
  shows "distinct (map if_name (active_links v route))"
proof -
  let ?fs = "filter (\<lambda>i. if_link_active i \<and> if_kind i \<in> {IfWifi, IfEthernet}
             \<or> (case route of None \<Rightarrow> False
                | Some p \<Rightarrow> \<not> pr_via_tunnel p \<and> pr_interface p = if_name i \<and> if_kind i = IfOther))
           (sv_interfaces v)"
  let ?xs = "sort_key (\<lambda>i. (rank (if_kind i), if_index i)) ?fs"
  have "distinct (map if_name ?fs)"
    using assms by (auto simp: distinct_names_def distinct_map inj_on_def)
  then have "distinct (map if_name ?xs)"
    by (simp add: distinct_map)
  then show ?thesis
    by (simp add: active_links_def take_map [symmetric] distinct_take del: take_map)
qed

lemma length_active_links: "length (active_links v route) \<le> 8"
  by (simp add: active_links_def MAX_ACTIVE_LINKS_def)

lemma net_link_kind_range: "net_link_kind k \<in> {NrWifi, NrEthernet, NrOther}"
  by (cases k) simp_all

text \<open>What each half of every reading keeps.\<close>

definition traffic_ok :: "traffic_half \<Rightarrow> bool" where
  "traffic_ok h \<longleftrightarrow> (th_rate h \<noteq> None \<longleftrightarrow> th_availability h = MAvailable)
     \<and> length (th_links h) \<le> 8 \<and> set (th_links h) \<subseteq> {NrWifi, NrEthernet, NrOther}
     \<and> (th_via_tunnel h \<longrightarrow> th_route_kind h \<notin> {NrUnknown, NrNone})
     \<and> (th_route_kind h = NrNone \<longleftrightarrow> th_availability h = MAbsent)"

definition mac_ok :: "bytes option \<Rightarrow> bool" where
  "mac_ok m \<longleftrightarrow> (\<forall>b. m = Some b \<longrightarrow> length b = 6)"

definition wifi_ok :: "wifi_half \<Rightarrow> bool" where
  "wifi_ok w \<longleftrightarrow> (wh_coverage w = CoUnknown \<longrightarrow> wh_channel w = 0)
     \<and> length (wh_ssid w) \<le> 32 \<and> mac_ok (wh_station w) \<and> mac_ok (wh_bssid w)
     \<and> (wh_ssid w \<noteq> [] \<or> wh_bssid w \<noteq> None \<longrightarrow> wh_availability w = CaAvailable)"

text \<open>The view names each interface once, and its addresses have six bytes.\<close>

definition view_ok :: "system_view \<Rightarrow> bool" where
  "view_ok v \<longleftrightarrow> distinct_names v \<and> (\<forall>i \<in> set (sv_interfaces v). mac_ok (if_station i))"

lemma net_rate_availability:
  "ms_availability (fst (net_rate_sample b k c t)) \<noteq> MAbsent"
  by (auto simp: net_rate_sample_def rate_sample_def Let_def split: option.splits)

lemma link_loop_availability:
  "link_loop t is s seen tot av = (s', seen', tot', av') \<Longrightarrow> av \<noteq> MAbsent \<Longrightarrow> av' \<noteq> MAbsent"
proof (induction "is" arbitrary: s seen tot av)
  case Nil
  then show ?case by simp
next
  case (Cons i "is")
  let ?av = "case if_counters i of None \<Rightarrow> MError
        | Some c \<Rightarrow> if link_rate s t i = None \<and> av \<noteq> MError
            then ms_availability (fst (net_rate_sample (entry_of s i) (link_key i) c t)) else av"
  have "?av \<noteq> MAbsent"
    using Cons.prems(2) by (simp add: net_rate_availability split: option.split)
  then show ?case
    using Cons.prems(1) Cons.IH unfolding link_loop_step by blast
qed

text \<open>The traffic half of a view, by its route.\<close>

definition routed_half ::
    "system_view \<Rightarrow> primary_route \<Rightarrow> network_rate option \<Rightarrow> metric_availability \<Rightarrow> traffic_half" where
  "routed_half v r tot av = \<lparr>th_availability = (if active_links v (Some r) = [] then MError else av),
       th_route_kind = pr_kind r, th_via_tunnel = pr_via_tunnel r,
       th_rate = (if active_links v (Some r) = [] then None else tot),
       th_links = map (\<lambda>i. net_link_kind (if_kind i)) (active_links v (Some r))\<rparr>"

lemma routed_half_ok:
  assumes "tot \<noteq> None \<longleftrightarrow> av = MAvailable" and "av \<noteq> MAbsent" and "pr_kind r \<notin> {NrUnknown, NrNone}"
  shows "traffic_ok (routed_half v r tot av)"
  using assms length_active_links net_link_kind_range
  by (auto simp: routed_half_def traffic_ok_def)

lemma traffic_route:
  assumes "view_ok v" and "select_primary_route v = Ok (Some r)"
  obtains s' tot av where "traffic s (Some v) t = Ok (routed_half v r tot av,
     s' |` (if_name ` set (active_links v (Some r))))"
    and "tot = sum_rates s t (active_links v (Some r)) (Some \<lparr>nr_rx_bytes_per_s = 0, nr_tx_bytes_per_s = 0\<rparr>)"
    and "tot \<noteq> None \<longleftrightarrow> av = MAvailable" and "av \<noteq> MAbsent"
    and "\<And>i b. i \<in> set (active_links v (Some r)) \<Longrightarrow> link_baseline t i = Some b \<Longrightarrow> s' (if_name i) = Some b"
proof -
  let ?z = "Some \<lparr>nr_rx_bytes_per_s = 0, nr_tx_bytes_per_s = 0\<rparr> :: network_rate option"
  obtain s' seen tot av where l: "link_loop t (active_links v (Some r)) s {} ?z MAvailable = (s', seen, tot, av)"
    by (metis prod_cases4)
  have d: "distinct (map if_name (active_links v (Some r)))"
    using assms(1) by (simp add: view_ok_def distinct_active_links)
  note loop = link_loop_Some [OF d l]
  have "av \<noteq> MAbsent"
    using link_loop_availability [OF l] by simp
  moreover have seen: "seen = if_name ` set (active_links v (Some r))"
    using loop by simp
  have "traffic s (Some v) t = Ok (routed_half v r tot av,
     s' |` seen)"
    by (simp add: traffic_def Let_def assms(2) l routed_half_def)
  ultimately show ?thesis
    using that [of tot av s'] loop unfolding seen by blast
qed

lemma traffic_ok:
  assumes "\<And>v. view = Some v \<Longrightarrow> view_ok v"
  obtains h s' where "traffic s view t = Ok (h, s')" and "traffic_ok h"
    and "(th_availability h = MError \<and> view = None) \<or> (\<exists>v. view = Some v)"
proof (cases view)
  case None
  then show ?thesis
    using that by (simp add: traffic_def traffic_ok_def)
next
  case (Some v)
  then have v: "view_ok v" using assms by simp
  have kinds: "length (map (\<lambda>i. net_link_kind (if_kind i)) (active_links v q)) \<le> 8"
    "set (map (\<lambda>i. net_link_kind (if_kind i)) (active_links v q)) \<subseteq> {NrWifi, NrEthernet, NrOther}" for q
    using length_active_links net_link_kind_range by auto
  obtain q where q: "select_primary_route v = Ok q"
    using select_Ok by blast
  show ?thesis
  proof (cases q)
    case None
    show ?thesis
      by (rule that, use Some None q in \<open>simp add: traffic_def Let_def\<close>)
        (use Some kinds in \<open>simp_all add: traffic_ok_def del: set_map\<close>)
  next
    case (Some r)
    then have sel: "select_primary_route v = Ok (Some r)" using q by simp
    have "pr_kind r \<notin> {NrUnknown, NrNone}"
      using select_Some [OF _ sel] v by (metis view_ok_def)
    note kind = this
    show ?thesis
    proof (rule traffic_route [OF v sel, of s t])
      fix s' tot av
      assume "traffic s (Some v) t
          = Ok (routed_half v r tot av, s' |` (if_name ` set (active_links v (Some r))))"
        and "tot \<noteq> None \<longleftrightarrow> av = MAvailable" and "av \<noteq> MAbsent"
      then show ?thesis
        using that \<open>view = Some v\<close> routed_half_ok kind by blast
    qed
  qed
qed

lemma coverage_for_unknown: "coverage_for b c = (CoUnknown, ch) \<Longrightarrow> ch = 0"
  by (auto simp: coverage_for_def Let_def split: option.splits wifi_band.splits if_splits)

lemma find_map_Some: "find_map f xs = Some y \<Longrightarrow> \<exists>x \<in> set xs. f x = Some y"
  by (auto simp: find_map_def dest: find_SomeD split: option.splits)

lemma wifi_ok:
  assumes "\<And>v. view = Some v \<Longrightarrow> view_ok v" and "ctx_ok (cr_context latest)"
  shows "wifi_ok (wifi view latest)"
proof -
  let ?is = "case view of None \<Rightarrow> [] | Some v \<Rightarrow> sv_interfaces v"
  have "mac_ok (find_map if_station (filter (\<lambda>i. if_kind i = IfWifi \<and> if_up_running i) ?is))"
    using assms(1) by (fastforce simp: mac_ok_def view_ok_def dest!: find_map_Some split: option.splits)
  then show ?thesis
    using assms(2) coverage_for_unknown
    by (auto simp: wifi_ok_def wifi_def Let_def ctx_ok_def mac_ok_def split: prod.splits option.splits)
qed

lemma net_collect_ok:
  assumes "\<And>v. view = Some v \<Longrightarrow> view_ok v" and "ctx_ok (cr_context latest)"
  obtains g s' where "net_collect s view latest t = Ok (ms_available g, s')"
    and "traffic_ok (ng_traffic g)" and "wifi_ok (ng_wifi g)"
proof (rule traffic_ok [OF assms(1), of view s t])
  fix h s'
  assume "traffic s view t = Ok (h, s')" and "traffic_ok h"
  then show ?thesis
    using that [of "\<lparr>ng_traffic = h, ng_wifi = wifi view latest\<rparr>" s'] wifi_ok [OF assms]
    by (simp add: net_collect_def)
qed

section \<open>Totals\<close>

definition rx_of :: "network_rate option \<Rightarrow> nat" where
  "rx_of r = (case r of None \<Rightarrow> 0 | Some r \<Rightarrow> unat (nr_rx_bytes_per_s r))"

definition tx_of :: "network_rate option \<Rightarrow> nat" where
  "tx_of r = (case r of None \<Rightarrow> 0 | Some r \<Rightarrow> unat (nr_tx_bytes_per_s r))"

lemma sum_rates_None [simp]: "sum_rates s t is None = None"
  by (induction "is") (simp_all split: option.split)

lemma sum_rates_Some:
  assumes "sum_rates s t is (Some a) = Some tot"
  shows "(\<forall>i \<in> set is. link_rate s t i \<noteq> None)
    \<and> unat (nr_rx_bytes_per_s tot)
        = min (unat (nr_rx_bytes_per_s a) + (\<Sum>i\<leftarrow>is. rx_of (link_rate s t i))) (2 ^ 64 - 1)
    \<and> unat (nr_tx_bytes_per_s tot)
        = min (unat (nr_tx_bytes_per_s a) + (\<Sum>i\<leftarrow>is. tx_of (link_rate s t i))) (2 ^ 64 - 1)"
  using assms
proof (induction "is" arbitrary: a)
  case Nil
  then show ?case
    using u64_less [of "nr_rx_bytes_per_s a"] u64_less [of "nr_tx_bytes_per_s a"] by simp
next
  case (Cons i "is")
  obtain r where r: "link_rate s t i = Some r"
    using Cons.prems by (cases "link_rate s t i") auto
  have "sum_rates s t is (Some (rate_plus a r)) = Some tot"
    using Cons.prems r by simp
  from Cons.IH [OF this] show ?case
    by (simp add: r rate_plus_def unat_sat_add rx_of_def tx_of_def min_add_min add.assoc)
qed

lemma net_collect_rate:
  assumes "view_ok v" and "net_collect s (Some v) latest t = Ok (m, s')"
    and "ms_value m = Some g" and "th_rate (ng_traffic g) = Some tot"
  obtains r where "select_primary_route v = Ok (Some r)" and "active_links v (Some r) \<noteq> []"
    and "sum_rates s t (active_links v (Some r)) (Some \<lparr>nr_rx_bytes_per_s = 0, nr_tx_bytes_per_s = 0\<rparr>) = Some tot"
    and "th_links (ng_traffic g) = map (\<lambda>i. net_link_kind (if_kind i)) (active_links v (Some r))"
    and "\<And>i b. i \<in> set (active_links v (Some r)) \<Longrightarrow> link_baseline t i = Some b \<Longrightarrow> s' (if_name i) = Some b"
    and "dom s' \<subseteq> if_name ` set (active_links v (Some r))"
proof -
  obtain h where h: "traffic s (Some v) t = Ok (h, s')" "th_rate h = Some tot" "ng_traffic g = h"
    using assms(2-4) by (auto simp: net_collect_def and_then_eq_Ok)
  obtain r where sel: "select_primary_route v = Ok (Some r)"
    using select_Ok [of v] h(1,2) by (auto simp: traffic_def and_then_eq_Ok Let_def split: option.splits)
  show ?thesis
  proof (rule traffic_route [OF assms(1) sel, of s t])
    fix s'' tot' av
    assume eq: "traffic s (Some v) t
          = Ok (routed_half v r tot' av, s'' |` (if_name ` set (active_links v (Some r))))"
      and tot: "tot' = sum_rates s t (active_links v (Some r)) (Some \<lparr>nr_rx_bytes_per_s = 0, nr_tx_bytes_per_s = 0\<rparr>)"
      and base: "\<And>i b. i \<in> set (active_links v (Some r)) \<Longrightarrow> link_baseline t i = Some b \<Longrightarrow> s'' (if_name i) = Some b"
    have ne: "active_links v (Some r) \<noteq> []" "tot' = Some tot"
      using eq h(1,2) by (auto simp: routed_half_def split: if_splits)
    show ?thesis
      using that [OF sel ne(1)] ne tot base eq h by (auto simp: routed_half_def)
  qed
qed

section \<open>Properties\<close>

text \<open>
  A total is the sum of its links. When the system view is well formed and a traffic rate
  is reported, there is a primary route, every active link gave a rate of its own against its
  previous reading, and each direction's total is the sum of theirs, saturated at the 64-bit
  maximum, with one link kind listed for each link summed; the samplers kept afterwards are
  exactly those links', each holding the counters just read.
\<close>

theorem traffic_totals_links:
  assumes "view_ok v" and "net_collect s (Some v) latest t = Ok (m, s')"
    and "ms_value m = Some g" and "th_rate (ng_traffic g) = Some tot"
  shows "\<exists>r links. select_primary_route v = Ok (Some r) \<and> links = active_links v (Some r)
     \<and> links \<noteq> [] \<and> (\<forall>i \<in> set links. link_rate s t i \<noteq> None)
     \<and> th_links (ng_traffic g) = map (\<lambda>i. net_link_kind (if_kind i)) links
     \<and> unat (nr_rx_bytes_per_s tot) = min (\<Sum>i\<leftarrow>links. rx_of (link_rate s t i)) (2 ^ 64 - 1)
     \<and> unat (nr_tx_bytes_per_s tot) = min (\<Sum>i\<leftarrow>links. tx_of (link_rate s t i)) (2 ^ 64 - 1)
     \<and> dom s' = if_name ` set links
     \<and> (\<forall>i \<in> set links. \<exists>c. if_counters i = Some c
          \<and> s' (if_name i) = Some (Some (link_key i, (ic_rx_bytes c, ic_tx_bytes c), t)))"
proof (rule net_collect_rate [OF assms])
  fix r
  let ?links = "active_links v (Some r)"
  assume r: "select_primary_route v = Ok (Some r)" "?links \<noteq> []"
    "sum_rates s t ?links (Some \<lparr>nr_rx_bytes_per_s = 0, nr_tx_bytes_per_s = 0\<rparr>) = Some tot"
    "th_links (ng_traffic g) = map (\<lambda>i. net_link_kind (if_kind i)) ?links"
    and base: "\<And>i b. i \<in> set ?links \<Longrightarrow> link_baseline t i = Some b \<Longrightarrow> s' (if_name i) = Some b"
    and dom: "dom s' \<subseteq> if_name ` set ?links"
  note sums = sum_rates_Some [OF r(3), simplified]
  have kept: "\<exists>c. if_counters i = Some c
          \<and> s' (if_name i) = Some (Some (link_key i, (ic_rx_bytes c, ic_tx_bytes c), t))"
    if "i \<in> set ?links" for i
    using that sums base [OF that] by (auto simp: link_rate_def link_baseline_def split: option.splits)
  then have "dom s' = if_name ` set ?links"
    using dom by blast
  with r kept sums show ?thesis by auto
qed

definition sample_counters :: "u64 \<Rightarrow> u64 \<Rightarrow> system_view" where
  "sample_counters rx tx = sample_view\<lparr>sv_interfaces :=
     [sample_wifi_interface\<lparr>if_counters := Some \<lparr>ic_rx_bytes = rx, ic_tx_bytes = tx\<rparr>\<rparr>]\<rparr>"

definition sample_context :: context_reading where
  "sample_context = reading_now CaDenied"

lemma sample_counters_ok: "view_ok (sample_counters rx tx)"
  by (simp add: view_ok_def distinct_names_def sample_counters_def sample_view_def
      sample_wifi_interface_def mac_ok_def)

lemma sample_route:
  "select_primary_route (sample_counters rx tx) = Ok (Some \<lparr>pr_interface = ''en0'', pr_index = 4,
     pr_kind = NrWifi, pr_via_tunnel = False, pr_station = Some [2, 0, 0, 0, 0, 1]\<rparr>)"
  by (simp add: select_primary_route_def sample_counters_def sample_view_def sample_wifi_interface_def
      usable_def interface_of_def)

definition sample_samplers :: samplers where
  "sample_samplers = [''en0'' \<mapsto> Some (link_key sample_wifi_interface, (1000, 50), 1000)]"

lemma sample_collect:
  "\<exists>m s' g tot. net_collect sample_samplers (Some (sample_counters 3000 50)) sample_context 2000 = Ok (m, s')
     \<and> ms_value m = Some g \<and> th_rate (ng_traffic g) = Some tot \<and> nr_rx_bytes_per_s tot = 2000"
proof -
  have links: "active_links (sample_counters 3000 50) q
      = [sample_wifi_interface\<lparr>if_counters := Some \<lparr>ic_rx_bytes = 3000, ic_tx_bytes = 50\<rparr>\<rparr>]" for q
    by (simp add: active_links_def sample_counters_def sample_view_def sample_wifi_interface_def
        MAX_ACTIVE_LINKS_def)
  have key: "link_key (sample_wifi_interface\<lparr>if_counters := c\<rparr>) = link_key sample_wifi_interface"
    "if_name sample_wifi_interface = ''en0''" for c
    by (simp_all add: link_key_def sample_wifi_interface_def)
  have rate: "net_rate_sample (Some (k, (1000, 50), 1000)) k \<lparr>ic_rx_bytes = 3000, ic_tx_bytes = 50\<rparr> 2000
      = (ms_available \<lparr>nr_rx_bytes_per_s = 2000, nr_tx_bytes_per_s = 0\<rparr>, Some (k, (3000, 50), 2000))" for k
    by (simp add: net_rate_sample_def rate_sample_def MAX_RATE_SAMPLE_GAP_MS_def per_s_def)
  show ?thesis
    by (simp add: net_collect_def traffic_def Let_def sample_route links key rate sample_samplers_def
        sat_add_def)
qed

theorem traffic_totals_links_witness:
  "\<exists>m s' g tot. net_collect sample_samplers (Some (sample_counters 3000 50)) sample_context 2000 = Ok (m, s')
     \<and> ms_value m = Some g \<and> th_rate (ng_traffic g) = Some tot \<and> nr_rx_bytes_per_s tot = 2000
     \<and> dom s' = if_name ` set (active_links (sample_counters 3000 50)
          (Some \<lparr>pr_interface = ''en0'', pr_index = 4, pr_kind = NrWifi, pr_via_tunnel = False,
             pr_station = Some [2, 0, 0, 0, 0, 1]\<rparr>))"
proof -
  obtain m s' g tot where c: "net_collect sample_samplers (Some (sample_counters 3000 50)) sample_context 2000 = Ok (m, s')"
    "ms_value m = Some g" "th_rate (ng_traffic g) = Some tot" "nr_rx_bytes_per_s tot = 2000"
    using sample_collect by blast
  from traffic_totals_links [OF sample_counters_ok c(1-3)] c show ?thesis
    by (auto simp: sample_route)
qed

lemma no_rate_from_empty:
  assumes "\<And>v. view = Some v \<Longrightarrow> view_ok v" and "net_collect Map.empty view l t = Ok (m, s')"
    and "ms_value m = Some g"
  shows "th_rate (ng_traffic g) = None"
proof -
  have "link_rate Map.empty t i = None" for i
    by (simp add: link_rate_def entry_of_def net_rate_sample_def rate_sample_def split: option.split)
  then have none: "sum_rates Map.empty t is acc = None" if "is \<noteq> []" for "is" acc
    using that by (cases "is") simp_all
  show ?thesis
  proof (rule ccontr)
    assume "th_rate (ng_traffic g) \<noteq> None"
    then obtain tot where tot: "th_rate (ng_traffic g) = Some tot" by blast
    obtain v where v: "view = Some v"
      using assms(2,3) tot by (cases view) (auto simp: net_collect_def traffic_def)
    show False
      by (rule net_collect_rate [OF assms(1) [OF v] assms(2) [unfolded v] assms(3) tot])
        (use none in simp)
  qed
qed

text \<open>
  Nothing is measured across a gap. After a wake, a second whose system view could not be
  read, or a second without a primary route, the next collection reports no traffic rate
  whatever its view, its counters and its time are, so a rate always compares two readings
  of one continuous connection.
\<close>

theorem no_rate_across_gap:
  assumes "\<And>v. view = Some v \<Longrightarrow> view_ok v"
    and "s0 = net_on_wake s \<or>
      (net_collect s view l0 t0 = Ok (m0, s0) \<and> ms_value m0 = Some g0
        \<and> th_route_kind (ng_traffic g0) \<in> {NrUnknown, NrNone})"
    and "\<And>v. view' = Some v \<Longrightarrow> view_ok v"
    and "net_collect s0 view' l t = Ok (m, s')" and "ms_value m = Some g"
  shows "th_rate (ng_traffic g) = None \<and> s0 = Map.empty"
proof -
  have empty: "s0 = Map.empty"
    using assms(2)
  proof
    assume "s0 = net_on_wake s"
    then show ?thesis by (simp add: net_on_wake_def)
  next
    assume c: "net_collect s view l0 t0 = Ok (m0, s0) \<and> ms_value m0 = Some g0
        \<and> th_route_kind (ng_traffic g0) \<in> {NrUnknown, NrNone}"
    then obtain h where h: "traffic s view t0 = Ok (h, s0)" "th_route_kind h \<in> {NrUnknown, NrNone}"
      by (auto simp: net_collect_def and_then_eq_Ok)
    show ?thesis
    proof (cases view)
      case None
      then show ?thesis using h(1) by (simp add: traffic_def)
    next
      case (Some v)
      obtain q where q: "select_primary_route v = Ok q"
        using select_Ok by blast
      show ?thesis
      proof (cases q)
        case None
        then show ?thesis using h(1) q Some by (simp add: traffic_def Let_def)
      next
        case (Some r)
        then have "pr_kind r \<notin> {NrUnknown, NrNone}"
          using select_Some assms(1) q \<open>view = Some v\<close> by (metis view_ok_def)
        moreover have "th_route_kind h = pr_kind r"
          using h(1) q Some \<open>view = Some v\<close> by (auto simp: traffic_def Let_def split: prod.splits)
        ultimately show ?thesis using h(2) by simp
      qed
    qed
  qed
  show ?thesis
    using no_rate_from_empty [OF assms(3) assms(4) [unfolded empty] assms(5)] empty by blast
qed

theorem no_rate_across_gap_witness:
  "\<exists>m s' g. net_collect (net_on_wake sample_samplers) (Some (sample_counters 3000 50)) sample_context 2000
       = Ok (m, s') \<and> ms_value m = Some g \<and> th_rate (ng_traffic g) = None"
proof -
  obtain g s' where c: "net_collect (net_on_wake sample_samplers) (Some (sample_counters 3000 50)) sample_context 2000
      = Ok (ms_available g, s')"
    by (rule net_collect_ok [of "Some (sample_counters 3000 50)" sample_context])
      (auto simp: sample_counters_ok sample_context_def ctx_ok_unavailable)
  have g: "ms_value (ms_available g) = Some g" by simp
  have "th_rate (ng_traffic g) = None \<and> net_on_wake sample_samplers = Map.empty"
    by (rule no_rate_across_gap [of None "net_on_wake sample_samplers" sample_samplers,
          OF _ disjI1 [OF refl] _ c g]) (auto simp: sample_counters_ok)
  with c g show ?thesis by blast
qed

end
