(* ===== verification/Battery_Charge.thy ===== *)
theory Battery_Charge
  imports Samplers "HOL-Library.Signed_Division"
begin

text \<open>
  The battery readings of \<^verbatim>\<open>host/metrics/src/battery.rs\<close> and \<open>charge_reading\<close>, which turns
  the raw values of the power source into them. The raw values are 64-bit signed integers and
  the arithmetic wraps at that width.
\<close>

section \<open>Readings\<close>

datatype battery_state = BsUnknown | BsCharging | BsDischarging | BsCharged | BsAcNotCharging

fun battery_state_num :: "battery_state \<Rightarrow> u8" where
  "battery_state_num BsUnknown = 0"
| "battery_state_num BsCharging = 1"
| "battery_state_num BsDischarging = 2"
| "battery_state_num BsCharged = 3"
| "battery_state_num BsAcNotCharging = 4"

datatype battery_condition = BcUnknown | BcNormal | BcServiceRecommended | BcPoor

fun battery_condition_num :: "battery_condition \<Rightarrow> u8" where
  "battery_condition_num BcUnknown = 0"
| "battery_condition_num BcNormal = 1"
| "battery_condition_num BcServiceRecommended = 2"
| "battery_condition_num BcPoor = 3"

record battery_charge_reading =
  bcr_per_mille :: u16
  bcr_state :: battery_state
  bcr_time_remaining_min :: "u16 option"

record battery_condition_reading =
  bco_max_capacity_per_mille :: "u16 option"
  bco_condition :: battery_condition
  bco_cycle_count :: "u16 option"

datatype power_profile = NoBattery | Battery battery_condition_reading

section \<open>Charge\<close>

type_synonym i64 = "64 word"

text \<open>\<open>/\<close> of signed integers rounds toward zero.\<close>

definition i64_div :: "i64 \<Rightarrow> i64 \<Rightarrow> i64" where
  "i64_div a b = word_of_int (sint a sdiv sint b)"

definition charge_reading ::
    "i64 \<Rightarrow> i64 \<Rightarrow> bool option \<Rightarrow> bool option \<Rightarrow> bool option \<Rightarrow> i64 option \<Rightarrow> i64 option
     \<Rightarrow> battery_charge_reading option" where
  "charge_reading current mx is_charging is_charged on_ac time_to_empty time_to_full =
     (if sint mx \<le> 0 \<or> sint current < 0 \<or> sint mx < sint current then None
      else
        let per_mille = ucast (i64_div (current * 1000 + i64_div mx 2) mx) :: u16;
            state =
              (if is_charging = Some True then BsCharging
               else if on_ac = Some True then
                 (if is_charged = Some True \<or> 1000 \<le> per_mille then BsCharged else BsAcNotCharging)
               else if on_ac = Some False then BsDischarging
               else BsUnknown);
            minutes = (case state of BsCharging \<Rightarrow> time_to_full | BsDischarging \<Rightarrow> time_to_empty | _ \<Rightarrow> None);
            time_remaining_min = (case minutes of None \<Rightarrow> None
              | Some m \<Rightarrow> if 0 \<le> sint m \<and> sint m < 65535 then Some (ucast m) else None)
        in Some \<lparr>bcr_per_mille = per_mille, bcr_state = state,
             bcr_time_remaining_min = time_remaining_min\<rparr>)"

section \<open>The rounding\<close>

lemma sint_small:
  assumes "0 \<le> k" and "k < 2 ^ 63"
  shows "sint (word_of_int k :: i64) = k"
  using assms by (simp add: sint_sbintrunc' signed_take_bit_int_eq_self_iff)

lemma ucast_small:
  fixes w :: i64
  assumes "0 \<le> sint w" and "sint w < 65536"
  shows "int (unat (ucast w :: u16)) = sint w"
proof -
  have "uint w = sint w"
    using assms by (simp add: uint_sint take_bit_int_eq_self)
  then have "uint (ucast w :: u16) = sint w"
    using assms by (simp add: unsigned_ucast_eq take_bit_int_eq_self)
  then show ?thesis by simp
qed

lemma half_of: "0 < sint m \<Longrightarrow> i64_div m 2 = word_of_int (sint m div 2)"
  by (simp add: i64_div_def signed_divide_int_def)

lemma le_div_int:
  fixes k x m :: int
  assumes "0 < m"
  shows "k \<le> x div m \<longleftrightarrow> k * m \<le> x"
proof -
  have "(x - k * m) div m = x div m - k"
    using div_mult_self1 [of m x "- k"] assms by simp
  then show ?thesis
    using pos_imp_zdiv_nonneg_iff [OF assms, of "x - k * m"] by simp
qed

lemma rounded_share:
  fixes c m :: int
  assumes "0 < m" and "0 \<le> c" and "c \<le> m"
  shows "0 \<le> (c * 1000 + m div 2) div m" and "(c * 1000 + m div 2) div m \<le> 1000"
    and "1000 \<le> (c * 1000 + m div 2) div m \<longleftrightarrow> 1000 * m \<le> c * 1000 + m div 2"
proof -
  show "0 \<le> (c * 1000 + m div 2) div m"
    using assms by (simp add: pos_imp_zdiv_nonneg_iff)
  have "\<not> 1001 \<le> (c * 1000 + m div 2) div m"
    using assms le_div_int [OF assms(1), of 1001 "c * 1000 + m div 2"] by simp
  then show "(c * 1000 + m div 2) div m \<le> 1000" by simp
  show "1000 \<le> (c * 1000 + m div 2) div m \<longleftrightarrow> 1000 * m \<le> c * 1000 + m div 2"
    using assms(1) by (rule le_div_int)
qed

lemma nonneg_sdiv: "0 \<le> x \<Longrightarrow> 0 < m \<Longrightarrow> x sdiv m = x div (m :: int)"
  by (cases "x = 0") (auto simp: signed_divide_int_def)

text \<open>With a capacity below \<open>2^53\<close> no step leaves the 64-bit range.\<close>

lemma charge_no_wrap:
  fixes c m :: i64
  assumes "0 < sint m" and "0 \<le> sint c" and "sint c \<le> sint m" and "sint m < 2 ^ 53"
  shows "sint (i64_div (c * 1000 + i64_div m 2) m) = (sint c * 1000 + sint m div 2) div sint m"
proof -
  have "c * 1000 + i64_div m 2 = word_of_int (sint c) * word_of_int 1000 + word_of_int (sint m div 2)"
    unfolding half_of [OF assms(1)] by simp
  also have "\<dots> = word_of_int (sint c * 1000 + sint m div 2)"
    by (simp only: wi_hom_add wi_hom_mult)
  finally have s: "sint (c * 1000 + i64_div m 2) = sint c * 1000 + sint m div 2"
    using assms by (simp add: sint_small del: of_int_add of_int_mult)
  show ?thesis
    using assms(1,2) rounded_share [OF assms(1-3)] unfolding i64_div_def [of _ m] s
    by (simp add: nonneg_sdiv sint_small)
qed

lemma nat_le_1000: "unat (1000 :: u16) = 1000"
  by simp

lemma charge_reading_Some:
  assumes "0 < sint mx" and "0 \<le> sint c" and "sint c \<le> sint mx" and "sint mx < 2 ^ 53"
  obtains r where "charge_reading c mx chg full ac te tf = Some r"
    and "int (unat (bcr_per_mille r)) = (sint c * 1000 + sint mx div 2) div sint mx"
    and "bcr_per_mille r \<le> 1000"
    and "bcr_state r = (if chg = Some True then BsCharging
            else if ac = Some True then
              (if full = Some True \<or> 1000 * sint mx \<le> sint c * 1000 + sint mx div 2 then BsCharged
               else BsAcNotCharging)
            else if ac = Some False then BsDischarging else BsUnknown)"
    and "bcr_time_remaining_min r = (case (case bcr_state r of BsCharging \<Rightarrow> tf | BsDischarging \<Rightarrow> te | _ \<Rightarrow> None) of
            None \<Rightarrow> None | Some m \<Rightarrow> if 0 \<le> sint m \<and> sint m < 65535 then Some (ucast m) else None)"
proof -
  let ?w = "i64_div (c * 1000 + i64_div mx 2) mx"
  note share = rounded_share [OF assms(1-3)]
  have w: "sint ?w = (sint c * 1000 + sint mx div 2) div sint mx"
    using charge_no_wrap [OF assms] .
  have q: "int (unat (ucast ?w :: u16)) = (sint c * 1000 + sint mx div 2) div sint mx"
    using ucast_small [of ?w] share unfolding w by simp
  have le: "(ucast ?w :: u16) \<le> 1000"
    using q share(2) unfolding word_le_nat_alt nat_le_1000 by linarith
  have ge: "1000 \<le> (ucast ?w :: u16) \<longleftrightarrow> 1000 * sint mx \<le> sint c * 1000 + sint mx div 2"
    using q share(3) unfolding word_le_nat_alt nat_le_1000 by linarith
  show ?thesis
    using assms(1-3) q le ge
    by (intro that) (auto simp: charge_reading_def Let_def)
qed

section \<open>Properties\<close>

text \<open>
  The charge is the rounded share of the capacity. For capacities below \<open>2^53\<close> an
  impossible pair of values gives no reading; any other gives the charge in per mille rounded to
  nearest, never above 1000; charging wins over every other state, a source on external
  power is charged (when it says so or the share rounds to 1000) or idle, one on battery
  discharges; and minutes appear only while charging or discharging, are the reported ones,
  and are below 65535, the value the wire reserves for unknown.
\<close>

theorem charge_is_exact:
  assumes "sint mx < 2 ^ 53"
  shows "(charge_reading c mx chg full ac te tf = None \<longleftrightarrow> sint mx \<le> 0 \<or> sint c < 0 \<or> sint mx < sint c)
    \<and> (\<forall>r. charge_reading c mx chg full ac te tf = Some r \<longrightarrow>
          int (unat (bcr_per_mille r)) = (sint c * 1000 + sint mx div 2) div sint mx
        \<and> bcr_per_mille r \<le> 1000
        \<and> bcr_state r = (if chg = Some True then BsCharging
            else if ac = Some True then
              (if full = Some True \<or> 1000 * sint mx \<le> sint c * 1000 + sint mx div 2 then BsCharged
               else BsAcNotCharging)
            else if ac = Some False then BsDischarging else BsUnknown)
        \<and> (\<forall>m. bcr_time_remaining_min r = Some m \<longrightarrow> unat m < 65535
            \<and> (\<exists>t. (bcr_state r = BsCharging \<and> tf = Some t \<or> bcr_state r = BsDischarging \<and> te = Some t)
                 \<and> int (unat m) = sint t)))"
proof (cases "sint mx \<le> 0 \<or> sint c < 0 \<or> sint mx < sint c")
  case True
  then show ?thesis
    by (auto simp: charge_reading_def)
next
  case False
  then have pos: "0 < sint mx" "0 \<le> sint c" "sint c \<le> sint mx"
    by simp_all
  obtain r where r: "charge_reading c mx chg full ac te tf = Some r"
    "int (unat (bcr_per_mille r)) = (sint c * 1000 + sint mx div 2) div sint mx"
    "bcr_per_mille r \<le> 1000"
    "bcr_state r = (if chg = Some True then BsCharging
            else if ac = Some True then
              (if full = Some True \<or> 1000 * sint mx \<le> sint c * 1000 + sint mx div 2 then BsCharged
               else BsAcNotCharging)
            else if ac = Some False then BsDischarging else BsUnknown)"
    "bcr_time_remaining_min r = (case (case bcr_state r of BsCharging \<Rightarrow> tf | BsDischarging \<Rightarrow> te | _ \<Rightarrow> None) of
            None \<Rightarrow> None | Some m \<Rightarrow> if 0 \<le> sint m \<and> sint m < 65535 then Some (ucast m) else None)"
    by (rule charge_reading_Some [OF pos assms])
  have "unat m < 65535 \<and> (\<exists>t. (bcr_state r = BsCharging \<and> tf = Some t \<or> bcr_state r = BsDischarging \<and> te = Some t)
                 \<and> int (unat m) = sint t)" if m: "bcr_time_remaining_min r = Some m" for m
  proof -
    obtain t where t: "bcr_state r = BsCharging \<and> tf = Some t \<or> bcr_state r = BsDischarging \<and> te = Some t"
      "0 \<le> sint t" "sint t < 65535" "m = ucast t"
      using m unfolding r(5) by (auto split: option.splits battery_state.splits if_splits)
    then have "int (unat m) = sint t"
      using ucast_small [of t] by simp
    then have "unat m < 65535"
      using t(3) by linarith
    with t \<open>int (unat m) = sint t\<close> show ?thesis by blast
  qed
  with False r(1-4) show ?thesis by simp
qed

theorem charge_is_exact_witness:
  "\<exists>r. charge_reading 915 1000 (Some False) None (Some False) (Some 215) None = Some r
     \<and> bcr_per_mille r \<le> 1000 \<and> bcr_state r = BsDischarging"
proof -
  have "sint (1000 :: i64) < 2 ^ 53" by simp
  from charge_is_exact [OF this, of 915 "Some False" None "Some False" "Some 215" None] show ?thesis
    by (cases "charge_reading 915 1000 (Some False) None (Some False) (Some 215) None") simp_all
qed

end
