(* ===== verification/Agents.thy ===== *)
theory Agents
  imports Rust_Text
begin

text \<open>
  Agent activity, \<^verbatim>\<open>host/metrics/src/agents.rs\<close>: the allowlist of resolved executable paths,
  the classification of a process listing, the agents' event files, and the state that both
  give together.
\<close>

section \<open>Agents and their states\<close>

type_synonym i32 = "32 word"

datatype agent = Codex | Claude | Grok | Gemini | OpenCode

fun slug :: "agent \<Rightarrow> string" where
  "slug Codex = ''codex''"
| "slug Claude = ''claude''"
| "slug Grok = ''grok''"
| "slug Gemini = ''gemini''"
| "slug OpenCode = ''opencode''"

fun agent_index :: "agent \<Rightarrow> nat" where
  "agent_index Codex = 0"
| "agent_index Claude = 1"
| "agent_index Grok = 2"
| "agent_index Gemini = 3"
| "agent_index OpenCode = 4"

definition AGENT_COUNT :: nat where
  "AGENT_COUNT = 5"

definition AGENTS :: "agent list" where
  "AGENTS = [Codex, Claude, Grok, Gemini, OpenCode]"

definition from_slug :: "string \<Rightarrow> agent option" where
  "from_slug s = find (\<lambda>a. slug a = s) AGENTS"

datatype agent_state = NotRunning | RunningActivityUnknown | Busy | Idle

fun agent_state_num :: "agent_state \<Rightarrow> u8" where
  "agent_state_num NotRunning = 0"
| "agent_state_num RunningActivityUnknown = 1"
| "agent_state_num Busy = 2"
| "agent_state_num Idle = 3"

record process_record =
  proc_uid :: u32
  proc_pid :: i32
  proc_path :: string

section \<open>The allowlist\<close>

definition MAX_PATH_BYTES :: nat where
  "MAX_PATH_BYTES = 1024"

datatype seg = Lit string | Versioned string string

datatype root = RootAbsolute | RootHome

datatype shape = Executable "seg list" | Bundle "seg list"

record entry =
  en_agent :: agent
  en_root :: root
  en_shape :: shape

definition ALLOWLIST :: "entry list" where
  "ALLOWLIST =
    [\<lparr>en_agent = Codex, en_root = RootAbsolute, en_shape = Executable
       [Lit ''opt'', Lit ''homebrew'', Lit ''Caskroom'', Lit ''codex'', Versioned '''' '''', Lit ''bin'', Lit ''codex'']\<rparr>,
     \<lparr>en_agent = Codex, en_root = RootAbsolute, en_shape = Executable
       [Lit ''usr'', Lit ''local'', Lit ''Caskroom'', Lit ''codex'', Versioned '''' '''', Lit ''bin'', Lit ''codex'']\<rparr>,
     \<lparr>en_agent = Codex, en_root = RootAbsolute, en_shape = Executable
       [Lit ''opt'', Lit ''homebrew'', Lit ''Cellar'', Lit ''codex'', Versioned '''' '''', Lit ''bin'', Lit ''codex'']\<rparr>,
     \<lparr>en_agent = Codex, en_root = RootAbsolute, en_shape = Executable
       [Lit ''usr'', Lit ''local'', Lit ''Cellar'', Lit ''codex'', Versioned '''' '''', Lit ''bin'', Lit ''codex'']\<rparr>,
     \<lparr>en_agent = Codex, en_root = RootHome, en_shape = Executable
       [Lit ''.vscode'', Lit ''extensions'', Versioned ''openai.chatgpt-'' ''-darwin-arm64'', Lit ''bin'', Lit ''macos-aarch64'', Lit ''codex'']\<rparr>,
     \<lparr>en_agent = Codex, en_root = RootAbsolute, en_shape = Bundle
       [Lit ''Applications'', Lit ''Codex.app'']\<rparr>,
     \<lparr>en_agent = Claude, en_root = RootAbsolute, en_shape = Executable
       [Lit ''opt'', Lit ''homebrew'', Lit ''Caskroom'', Lit ''claude-code@latest'', Versioned '''' '''', Lit ''claude'']\<rparr>,
     \<lparr>en_agent = Claude, en_root = RootAbsolute, en_shape = Executable
       [Lit ''opt'', Lit ''homebrew'', Lit ''Caskroom'', Lit ''claude-code'', Versioned '''' '''', Lit ''claude'']\<rparr>,
     \<lparr>en_agent = Claude, en_root = RootAbsolute, en_shape = Executable
       [Lit ''usr'', Lit ''local'', Lit ''Caskroom'', Lit ''claude-code@latest'', Versioned '''' '''', Lit ''claude'']\<rparr>,
     \<lparr>en_agent = Claude, en_root = RootAbsolute, en_shape = Executable
       [Lit ''usr'', Lit ''local'', Lit ''Caskroom'', Lit ''claude-code'', Versioned '''' '''', Lit ''claude'']\<rparr>,
     \<lparr>en_agent = Claude, en_root = RootHome, en_shape = Executable
       [Lit ''.local'', Lit ''share'', Lit ''claude'', Lit ''versions'', Versioned '''' '''']\<rparr>,
     \<lparr>en_agent = Claude, en_root = RootHome, en_shape = Executable
       [Lit ''.vscode'', Lit ''extensions'', Versioned ''anthropic.claude-code-'' ''-darwin-arm64'', Lit ''resources'', Lit ''native-binary'', Lit ''claude'']\<rparr>,
     \<lparr>en_agent = Claude, en_root = RootAbsolute, en_shape = Bundle
       [Lit ''Applications'', Lit ''Claude.app'']\<rparr>,
     \<lparr>en_agent = Grok, en_root = RootHome, en_shape = Executable
       [Lit ''.grok'', Lit ''bin'', Lit ''grok'']\<rparr>,
     \<lparr>en_agent = Grok, en_root = RootHome, en_shape = Executable
       [Lit ''.grok'', Lit ''downloads'', Versioned ''grok-'' ''-macos-aarch64'']\<rparr>,
     \<lparr>en_agent = Grok, en_root = RootHome, en_shape = Executable
       [Lit ''.grok'', Lit ''downloads'', Versioned ''grok-'' ''-macos-x86_64'']\<rparr>,
     \<lparr>en_agent = Gemini, en_root = RootHome, en_shape = Executable
       [Lit ''.local'', Lit ''bin'', Lit ''agy'']\<rparr>,
     \<lparr>en_agent = OpenCode, en_root = RootAbsolute, en_shape = Executable
       [Lit ''opt'', Lit ''homebrew'', Lit ''Cellar'', Lit ''opencode-v2'', Versioned '''' '''', Lit ''bin'', Lit ''opencode'']\<rparr>,
     \<lparr>en_agent = OpenCode, en_root = RootAbsolute, en_shape = Executable
       [Lit ''usr'', Lit ''local'', Lit ''Cellar'', Lit ''opencode-v2'', Versioned '''' '''', Lit ''bin'', Lit ''opencode'']\<rparr>]"

section \<open>Matching a path\<close>

definition numeric :: "string \<Rightarrow> bool" where
  "numeric p \<longleftrightarrow> p \<noteq> [] \<and> length p \<le> 9 \<and> list_all is_ascii_digit p"

definition is_semver :: "string \<Rightarrow> bool" where
  "is_semver text =
     (let (core, tail) = (case split_at_first (\<lambda>c. c = CHR ''-'' \<or> c = CHR ''+'') text of
            Some (core, tail) \<Rightarrow> (core, Some tail) | None \<Rightarrow> (text, None))
      in (case split_on CHR ''.'' core of
            [a, b, c] \<Rightarrow> numeric a \<and> numeric b \<and> numeric c | _ \<Rightarrow> False)
         \<and> (case tail of None \<Rightarrow> True
            | Some t \<Rightarrow> t \<noteq> [] \<and> length t \<le> 32
                \<and> list_all (\<lambda>c. is_ascii_alphanumeric c \<or> c = CHR ''.'' \<or> c = CHR ''-'') t))"

fun segment_matches :: "seg \<Rightarrow> string \<Rightarrow> bool" where
  "segment_matches (Lit text) actual = (actual = text)"
| "segment_matches (Versioned prefix suffix) actual =
     (case strip_prefix prefix actual of None \<Rightarrow> False
      | Some rest \<Rightarrow> (case strip_suffix suffix rest of None \<Rightarrow> False | Some v \<Rightarrow> is_semver v))"

definition is_resolved_path :: "string \<Rightarrow> bool" where
  "is_resolved_path path =
     (if length path < 2 \<or> MAX_PATH_BYTES < length path \<or> hd path \<noteq> CHR ''/'' then False
      else if list_ex (\<lambda>c. byte c = 0) path then False
      else list_all (\<lambda>s. s \<noteq> [] \<and> s \<noteq> ''.'' \<and> s \<noteq> ''..'') (split_on CHR ''/'' (tl path)))"

definition segments :: "string \<Rightarrow> string list" where
  "segments path = split_on CHR ''/'' (tl path)"

text \<open>The comparison of \<open>rest\<close> with the pattern, once the root is taken off.\<close>

definition pattern_matches :: "shape \<Rightarrow> string list \<Rightarrow> bool" where
  "pattern_matches shape rest =
     (let (pattern, need_contents) = (case shape of Executable p \<Rightarrow> (p, False) | Bundle p \<Rightarrow> (p, True))
      in if length rest < length pattern
            \<or> \<not> list_all (\<lambda>(seg, actual). segment_matches seg actual) (zip pattern rest) then False
         else
           let after = drop (length pattern) rest
           in if need_contents then 2 \<le> length after \<and> hd after = ''Contents'' else after = [])"

definition entry_matches :: "entry \<Rightarrow> string list \<Rightarrow> string list option \<Rightarrow> bool" where
  "entry_matches e path_segments home_segments =
     (case en_root e of
        RootAbsolute \<Rightarrow> pattern_matches (en_shape e) path_segments
      | RootHome \<Rightarrow>
          (case home_segments of None \<Rightarrow> False
           | Some home \<Rightarrow>
               if length path_segments < length home \<or> take (length home) path_segments \<noteq> home then False
               else pattern_matches (en_shape e) (drop (length home) path_segments)))"

definition identify :: "string \<Rightarrow> string \<Rightarrow> agent option" where
  "identify path home =
     (if \<not> is_resolved_path path then None
      else
        let path_segments = segments path;
            home_segments = (if is_resolved_path home then Some (segments home) else None)
        in map_option en_agent (find (\<lambda>e. entry_matches e path_segments home_segments) ALLOWLIST))"

section \<open>Presence\<close>

fun classify_loop ::
    "process_record list \<Rightarrow> u32 \<Rightarrow> string \<Rightarrow> agent_state list \<Rightarrow> agent_state list" where
  "classify_loop [] current_uid home state = state"
| "classify_loop (r # rs) current_uid home state =
     (if proc_uid r \<noteq> current_uid then classify_loop rs current_uid home state
      else case identify (proc_path r) home of
          Some agent \<Rightarrow> classify_loop rs current_uid home (state[agent_index agent := RunningActivityUnknown])
        | None \<Rightarrow> classify_loop rs current_uid home state)"

definition classify :: "process_record list \<Rightarrow> u32 \<Rightarrow> string \<Rightarrow> agent_state list" where
  "classify records current_uid home =
     classify_loop records current_uid home (replicate AGENT_COUNT NotRunning)"

section \<open>Event files\<close>

datatype hook_activity = HookBusy | HookIdle

record hook_record =
  hk_agent :: agent
  hk_pid :: i32
  hk_activity :: hook_activity
  hk_age_ms :: u64

definition HOOK_BUSY_TIMEOUT_MS :: u64 where
  "HOOK_BUSY_TIMEOUT_MS = 15 * 60000"

definition int_str :: "int \<Rightarrow> string" where
  "int_str n = (if n < 0 then CHR ''-'' # nat_str (nat (- n)) else nat_str (nat n))"

definition hook_file_name :: "agent \<Rightarrow> i32 \<Rightarrow> string" where
  "hook_file_name agent pid = slug agent @ ''-'' @ int_str (sint pid)"

text \<open>\<open>parse::<i32>()\<close> of a string of digits.\<close>

definition parse_i32 :: "string \<Rightarrow> i32 option" where
  "parse_i32 digits = (if decimal digits 0 < 2 ^ 31 then Some (of_nat (decimal digits 0)) else None)"

definition parse_hook_file :: "string \<Rightarrow> string \<Rightarrow> (agent \<times> i32 \<times> hook_activity) option" where
  "parse_hook_file name contents =
     (case split_at_first (\<lambda>c. c = CHR ''-'') name of
        None \<Rightarrow> None
      | Some (slug_text, digits) \<Rightarrow>
      (case from_slug slug_text of
        None \<Rightarrow> None
      | Some agent \<Rightarrow>
          if digits = [] \<or> \<not> list_all is_ascii_digit digits then None
          else
      (case parse_i32 digits of
        None \<Rightarrow> None
      | Some pid \<Rightarrow>
          if sint pid \<le> 0 then None
          else
            let text = (case strip_suffix [CHR 0x0A] contents of Some t \<Rightarrow> t | None \<Rightarrow> contents)
            in if text = ''busy'' then Some (agent, pid, HookBusy)
               else if text = ''idle'' then Some (agent, pid, HookIdle)
               else None)))"

section \<open>Activity\<close>

definition running :: "agent \<Rightarrow> process_record list \<Rightarrow> u32 \<Rightarrow> string \<Rightarrow> i32 \<Rightarrow> bool" where
  "running agent records current_uid home pid =
     list_ex (\<lambda>r. proc_uid r = current_uid \<and> proc_pid r = pid \<and> identify (proc_path r) home = Some agent)
       records"

fun hooks_loop :: "hook_record list \<Rightarrow> bool \<Rightarrow> agent_state" where
  "hooks_loop [] reported = (if reported then Idle else RunningActivityUnknown)"
| "hooks_loop (h # hs) reported =
     (if hk_activity h = HookBusy \<and> hk_age_ms h < HOOK_BUSY_TIMEOUT_MS then Busy
      else hooks_loop hs True)"

definition from_hooks ::
    "agent \<Rightarrow> process_record list \<Rightarrow> u32 \<Rightarrow> string \<Rightarrow> hook_record list \<Rightarrow> agent_state" where
  "from_hooks agent records current_uid home hooks =
     hooks_loop (filter (\<lambda>h. hk_agent h = agent \<and> running agent records current_uid home (hk_pid h)) hooks)
       False"

fun activity_loop ::
    "agent list \<Rightarrow> process_record list \<Rightarrow> u32 \<Rightarrow> string \<Rightarrow> hook_record list \<Rightarrow> agent_state list
     \<Rightarrow> agent_state list" where
  "activity_loop [] records current_uid home hooks states = states"
| "activity_loop (agent # agents) records current_uid home hooks states =
     (let i = agent_index agent
      in activity_loop agents records current_uid home hooks
           (if states ! i \<noteq> NotRunning
            then states[i := from_hooks agent records current_uid home hooks] else states))"

definition classify_activity ::
    "process_record list \<Rightarrow> u32 \<Rightarrow> string \<Rightarrow> hook_record list \<Rightarrow> agent_state list" where
  "classify_activity records current_uid home hooks =
     activity_loop AGENTS records current_uid home hooks (classify records current_uid home)"

end
