(* ===== verification/Collectors.thy ===== *)
theory Collectors
  imports Samplers Sample_Cache Battery_Charge Agents
begin

text \<open>
  The collectors of \<^verbatim>\<open>host/platform-macos/src\<close> for CPU, memory, storage, battery and agents.
  What the operating system answers when a collector asks it is an input of that call; the
  calls themselves (Mach, IOKit, libproc, the profiler process) are not modelled.
\<close>

section \<open>CPU and memory\<close>

definition cpu_collect :: "cpu_baseline \<Rightarrow> cpu_ticks option \<Rightarrow> u64 \<Rightarrow> u16 metric_sample \<times> cpu_baseline" where
  "cpu_collect base source now_ms =
     (case source of
        Some ticks \<Rightarrow> cpu_sample base ticks now_ms
      | None \<Rightarrow> (ms_unavailable MError, cpu_reset base))"

definition cpu_on_wake :: "cpu_baseline \<Rightarrow> cpu_baseline" where
  "cpu_on_wake base = cpu_reset base"

record ram_reading =
  rrd_used_bytes :: u64
  rrd_total_bytes :: u64

definition ram_collect :: "(u64 \<times> u64) option \<Rightarrow> ram_reading metric_sample" where
  "ram_collect source =
     (case source of
        Some (tot, free) \<Rightarrow>
          if 0 < tot \<and> free \<le> tot
          then ms_available \<lparr>rrd_used_bytes = tot - free, rrd_total_bytes = tot\<rparr>
          else ms_unavailable MError
      | None \<Rightarrow> ms_unavailable MError)"

section \<open>Storage\<close>

definition CAPACITY_REFRESH_MS :: u64 where
  "CAPACITY_REFRESH_MS = 30000"

record storage_capacity_reading =
  cap_total_bytes :: u64
  cap_available_bytes :: u64

record storage_reading =
  srd_capacity :: "storage_capacity_reading metric_sample"
  srd_capacity_age_ms :: u32
  srd_io :: "disk_rate metric_sample"

type_synonym disk_samplers = "string \<rightharpoonup> unit rate_baseline"

record storage_collector =
  stc_capacity :: "storage_capacity_reading sample_cache"
  stc_samplers :: disk_samplers

definition storage_new :: storage_collector where
  "storage_new = \<lparr>stc_capacity = cache_new \<lparr>rp_refresh_ms = CAPACITY_REFRESH_MS, rp_retry_until_sampled = True\<rparr>,
     stc_samplers = Map.empty\<rparr>"

definition storage_capacity ::
    "storage_capacity_reading sample_cache \<Rightarrow> storage_capacity_reading option \<Rightarrow> u64
     \<Rightarrow> storage_capacity_reading metric_sample \<times> u32 \<times> storage_capacity_reading sample_cache" where
  "storage_capacity cache source now_ms =
     (let cache = refresh_with now_ms source cache
      in case cache_get now_ms cache of
           Some c \<Rightarrow> (ms_available (ca_value c), wire_age_ms c, cache)
         | None \<Rightarrow> (ms_unavailable MError, 0, cache))"

fun disk_loop ::
    "u64 \<Rightarrow> (string \<times> disk_counters) list \<Rightarrow> disk_samplers \<Rightarrow> disk_rate option \<Rightarrow> metric_availability
     \<Rightarrow> disk_samplers \<times> disk_rate option \<times> metric_availability" where
  "disk_loop now_ms [] samplers tot availability = (samplers, tot, availability)"
| "disk_loop now_ms ((device, counters) # disks) samplers tot availability =
     (let entry = (case samplers device of None \<Rightarrow> None | Some b \<Rightarrow> b);
          (sample, b) = disk_sample entry counters now_ms;
          samplers = samplers(device \<mapsto> b)
      in case (ms_value sample, tot) of
           (Some rate, Some acc) \<Rightarrow>
             disk_loop now_ms disks samplers
               (Some \<lparr>dr_read_bytes_per_s = sat_add (dr_read_bytes_per_s acc) (dr_read_bytes_per_s rate),
                      dr_write_bytes_per_s = sat_add (dr_write_bytes_per_s acc) (dr_write_bytes_per_s rate)\<rparr>)
               availability
         | (None, _) \<Rightarrow> disk_loop now_ms disks samplers None (ms_availability sample)
         | (Some _, None) \<Rightarrow> disk_loop now_ms disks samplers tot availability)"

definition storage_io ::
    "disk_samplers \<Rightarrow> (string \<times> disk_counters) list option \<Rightarrow> u64 \<Rightarrow> disk_rate metric_sample \<times> disk_samplers" where
  "storage_io samplers source now_ms =
     (case source of
        None \<Rightarrow> (ms_unavailable MError, Map.empty)
      | Some disks \<Rightarrow>
          if disks = [] then (ms_unavailable MError, Map.empty)
          else
            let (samplers, tot, availability) =
                  disk_loop now_ms disks samplers
                    (Some \<lparr>dr_read_bytes_per_s = 0, dr_write_bytes_per_s = 0\<rparr>) MAvailable;
                samplers = samplers |` (fst ` set disks)
            in (case tot of Some rate \<Rightarrow> ms_available rate | None \<Rightarrow> ms_unavailable availability, samplers))"

definition storage_collect ::
    "storage_collector \<Rightarrow> storage_capacity_reading option \<Rightarrow> (string \<times> disk_counters) list option \<Rightarrow> u64
     \<Rightarrow> storage_reading metric_sample \<times> storage_collector" where
  "storage_collect c capacity_source counter_source now_ms =
     (let (capacity, age, cache) = storage_capacity (stc_capacity c) capacity_source now_ms;
          (io, samplers) = storage_io (stc_samplers c) counter_source now_ms
      in (ms_available \<lparr>srd_capacity = capacity, srd_capacity_age_ms = age, srd_io = io\<rparr>,
          \<lparr>stc_capacity = cache, stc_samplers = samplers\<rparr>))"

definition storage_on_wake :: "storage_collector \<Rightarrow> storage_collector" where
  "storage_on_wake c = \<lparr>stc_capacity = expire (stc_capacity c), stc_samplers = Map.empty\<rparr>"

section \<open>Agents\<close>

definition REFRESH_MS :: u64 where
  "REFRESH_MS = 5000"

definition RETAIN_MS :: u64 where
  "RETAIN_MS = 15000"

record agents_reading =
  ard_states :: "agent_state list"
  ard_age_ms :: u32

record agents_collector =
  agc_uid :: u32
  agc_home :: string
  agc_presence :: "agent_state list sample_cache"

definition agents_new :: "u32 \<Rightarrow> string \<Rightarrow> agents_collector" where
  "agents_new uid home = \<lparr>agc_uid = uid, agc_home = home,
     agc_presence = cache_new \<lparr>rp_refresh_ms = REFRESH_MS, rp_retry_until_sampled = False\<rparr>\<rparr>"

definition agents_collect ::
    "agents_collector \<Rightarrow> process_record list option \<Rightarrow> hook_record list \<Rightarrow> u64
     \<Rightarrow> agents_reading metric_sample \<times> agents_collector" where
  "agents_collect c source hooks now_ms =
     (let presence = refresh_with now_ms
            (map_option (\<lambda>records. classify_activity records (agc_uid c) (agc_home c) hooks) source)
            (agc_presence c);
          failing_since = sch_failing_since_ms presence;
          sample =
            (case cache_get now_ms presence of
               Some cached \<Rightarrow>
                 if RETAIN_MS \<le> ca_age_ms cached \<and> failing_since \<noteq> None then ms_unavailable MError
                 else ms_available \<lparr>ard_states = ca_value cached, ard_age_ms = wire_age_ms cached\<rparr>
             | None \<Rightarrow> ms_unavailable
                 (case failing_since of
                    Some since \<Rightarrow> if RETAIN_MS \<le> sat_sub now_ms since then MError else MTemporarilyUnavailable
                  | None \<Rightarrow> MTemporarilyUnavailable))
      in (sample, c\<lparr>agc_presence := presence\<rparr>))"

definition agents_on_wake :: "agents_collector \<Rightarrow> agents_collector" where
  "agents_on_wake c = c\<lparr>agc_presence := expire (agc_presence c)\<rparr>"

section \<open>Battery\<close>

definition CHARGE_REFRESH_MS :: u64 where
  "CHARGE_REFRESH_MS = 30000"

definition CONDITION_REFRESH_MS :: u64 where
  "CONDITION_REFRESH_MS = 3600000"

definition CONDITION_RETRY_MS :: u64 where
  "CONDITION_RETRY_MS = 300000"

definition CONDITION_ABANDON_MS :: u64 where
  "CONDITION_ABANDON_MS = 15000"

record battery_reading =
  brd_charge :: "battery_charge_reading metric_sample"
  brd_charge_age_ms :: u32
  brd_condition :: "battery_condition_reading metric_sample"
  brd_condition_age_ms :: u32

datatype charge_probe = ProbeNoBattery | ProbeBattery battery_charge_reading | ProbeFailed

datatype profile_error = PeTooLarge | PeMalformed | PeNoPowerSection | PeNoUsableFields

datatype profile_failure = PfProfile profile_error | PfSpawn | PfTimeout | PfExitStatus

type_synonym profile_result = "profile_failure + power_profile"

datatype condition_cache = CcNone | CcAbsent | CcSample battery_condition_reading u64

record slot =
  sl_generation :: u64
  sl_started_ms :: "u64 option"
  sl_done :: "(u64 \<times> profile_result) option"

text \<open>
  \<open>bac_threads\<close> holds the profiler threads that have not finished: the generation each captured
  and the time it was started at. A thread takes the slot's lock once, at its end.
\<close>

record battery_collector =
  bac_charge :: "battery_charge_reading sample_cache"
  bac_no_battery :: bool
  bac_charge_power_source :: "string option option"
  bac_slot :: slot
  bac_condition :: condition_cache
  bac_condition_failure :: "profile_failure option"
  bac_next_condition_ms :: u64
  bac_threads :: "(u64 \<times> u64) list"

definition battery_new :: battery_collector where
  "battery_new = \<lparr>
     bac_charge = cache_new \<lparr>rp_refresh_ms = CHARGE_REFRESH_MS, rp_retry_until_sampled = False\<rparr>,
     bac_no_battery = False, bac_charge_power_source = None,
     bac_slot = \<lparr>sl_generation = 0, sl_started_ms = None, sl_done = None\<rparr>,
     bac_condition = CcNone, bac_condition_failure = None, bac_next_condition_ms = 0,
     bac_threads = []\<rparr>"

definition charge_collect ::
    "battery_collector \<Rightarrow> string option \<Rightarrow> charge_probe \<Rightarrow> u64
     \<Rightarrow> (battery_charge_reading metric_sample \<times> u32) \<times> battery_collector" where
  "charge_collect c power_source charge_source now_ms =
     (let cache = (case bac_charge_power_source c of
            Some before \<Rightarrow> if before \<noteq> power_source then expire (bac_charge c) else bac_charge c
          | None \<Rightarrow> bac_charge c);
          (due, cache) = begin_refresh now_ms cache;
          c = c\<lparr>bac_charge := cache\<rparr>;
          c = (if due then
                 (case charge_source of
                    ProbeBattery reading \<Rightarrow>
                      c\<lparr>bac_charge_power_source := Some power_source,
                        bac_charge := succeed reading now_ms cache, bac_no_battery := False\<rparr>
                  | ProbeNoBattery \<Rightarrow>
                      c\<lparr>bac_charge_power_source := Some power_source,
                        bac_charge := cache_clear cache, bac_no_battery := True\<rparr>
                  | ProbeFailed \<Rightarrow>
                      c\<lparr>bac_charge_power_source := Some power_source,
                        bac_charge := fail now_ms cache, bac_no_battery := False\<rparr>)
               else c)
      in (case cache_get now_ms (bac_charge c) of
            Some cached \<Rightarrow> (ms_available (ca_value cached), wire_age_ms cached)
          | None \<Rightarrow> (ms_unavailable (if bac_no_battery c then MAbsent else MError), 0),
          c))"

text \<open>\<open>start_run_if_due\<close>; \<open>spawned\<close> says whether the thread could be created.\<close>

definition start_run_if_due :: "bool \<Rightarrow> u64 \<Rightarrow> battery_collector \<Rightarrow> battery_collector" where
  "start_run_if_due spawned now_ms c =
     (if now_ms < bac_next_condition_ms c then c
      else if sl_started_ms (bac_slot c) \<noteq> None then c
      else if spawned then
        c\<lparr>bac_slot := (bac_slot c)\<lparr>sl_started_ms := Some now_ms\<rparr>,
          bac_threads := (sl_generation (bac_slot c), now_ms) # bac_threads c\<rparr>
      else
        c\<lparr>bac_slot := (bac_slot c)\<lparr>sl_started_ms := None\<rparr>,
          bac_condition_failure := Some PfSpawn,
          bac_next_condition_ms := sat_add now_ms CONDITION_RETRY_MS\<rparr>)"

text \<open>The end of a thread: its answer counts only in the generation it was started in.\<close>

definition finish_run :: "u64 \<times> u64 \<Rightarrow> profile_result \<Rightarrow> battery_collector \<Rightarrow> battery_collector" where
  "finish_run thread result c =
     (let slot = bac_slot c
      in c\<lparr>bac_slot := (if sl_generation slot = fst thread
              then slot\<lparr>sl_done := Some (snd thread, result)\<rparr> else slot),
           bac_threads := remove1 thread (bac_threads c)\<rparr>)"

definition battery_age :: "u64 \<Rightarrow> u64 \<Rightarrow> u32" where
  "battery_age now_ms sampled_ms = ucast (min (sat_sub now_ms sampled_ms) 0xffffffff)"

definition apply_finished :: "u64 \<Rightarrow> battery_collector \<Rightarrow> battery_collector" where
  "apply_finished now_ms c =
     (let slot = bac_slot c; finished = sl_done slot;
          abandoned = (finished = None
            \<and> (case sl_started_ms slot of None \<Rightarrow> False | Some s \<Rightarrow> CONDITION_ABANDON_MS < sat_sub now_ms s));
          slot = slot\<lparr>sl_done := None\<rparr>;
          slot = (if finished \<noteq> None \<or> abandoned then slot\<lparr>sl_started_ms := None\<rparr> else slot);
          slot = (if abandoned then slot\<lparr>sl_generation := sl_generation slot + 1\<rparr> else slot);
          c = c\<lparr>bac_slot := slot\<rparr>
      in case finished of
           Some (started_ms, Inr (Battery reading)) \<Rightarrow>
             c\<lparr>bac_condition := CcSample reading started_ms, bac_condition_failure := None,
               bac_next_condition_ms := sat_add started_ms CONDITION_REFRESH_MS\<rparr>
         | Some (started_ms, Inr NoBattery) \<Rightarrow>
             c\<lparr>bac_condition := CcAbsent, bac_condition_failure := None,
               bac_next_condition_ms := sat_add started_ms CONDITION_REFRESH_MS\<rparr>
         | Some (_, Inl failure) \<Rightarrow>
             c\<lparr>bac_condition_failure := Some failure,
               bac_next_condition_ms := sat_add now_ms CONDITION_RETRY_MS\<rparr>
         | None \<Rightarrow>
             if abandoned then
               c\<lparr>bac_condition_failure := Some PfTimeout,
                 bac_next_condition_ms := sat_add now_ms CONDITION_RETRY_MS\<rparr>
             else c)"

definition condition_collect ::
    "battery_collector \<Rightarrow> bool \<Rightarrow> u64 \<Rightarrow> (battery_condition_reading metric_sample \<times> u32) \<times> battery_collector" where
  "condition_collect c spawned now_ms =
     (let c = start_run_if_due spawned now_ms (apply_finished now_ms c)
      in (case bac_condition c of
            CcSample reading at_ms \<Rightarrow> (ms_available reading, battery_age now_ms at_ms)
          | CcAbsent \<Rightarrow> (ms_unavailable MAbsent, 0)
          | CcNone \<Rightarrow>
              (ms_unavailable
                 (case bac_condition_failure c of
                    None \<Rightarrow> MTemporarilyUnavailable
                  | Some (PfProfile PeNoPowerSection) \<Rightarrow> MUnsupported
                  | Some (PfProfile PeNoUsableFields) \<Rightarrow> MUnsupported
                  | Some _ \<Rightarrow> MError), 0),
          c))"

definition battery_collect ::
    "battery_collector \<Rightarrow> string option \<Rightarrow> charge_probe \<Rightarrow> bool \<Rightarrow> u64
     \<Rightarrow> battery_reading metric_sample \<times> battery_collector" where
  "battery_collect c power_source charge_source spawned now_ms =
     (let ((charge, charge_age), c) = charge_collect c power_source charge_source now_ms;
          ((condition, condition_age), c) = condition_collect c spawned now_ms
      in (ms_available \<lparr>brd_charge = charge, brd_charge_age_ms = charge_age,
            brd_condition = condition, brd_condition_age_ms = condition_age\<rparr>, c))"

definition battery_on_wake :: "battery_collector \<Rightarrow> battery_collector" where
  "battery_on_wake c = c\<lparr>bac_charge := expire (bac_charge c)\<rparr>"

end
