(* ===== verification/Agents_Correct.thy ===== *)
theory Agents_Correct
  imports Agents
begin

text \<open>
  What agent activity guarantees: a path is a supported agent exactly when its text is an
  allowlisted one, an event file names its process, and the five states say exactly what the
  processes and their event files say.
\<close>

section \<open>Paths and their segments\<close>

fun path_of :: "string list \<Rightarrow> string" where
  "path_of [] = []"
| "path_of (s # ss) = CHR ''/'' # s @ path_of ss"

lemma path_of_append [simp]: "path_of (xs @ ys) = path_of xs @ path_of ys"
  by (induction xs) simp_all

lemma path_of_split: "path_of (split_on CHR ''/'' s) = CHR ''/'' # s"
  by (induction s) (auto split: list.splits)

lemma split_path_of:
  "ss \<noteq> [] \<Longrightarrow> \<forall>s \<in> set ss. CHR ''/'' \<notin> set s \<Longrightarrow> split_on CHR ''/'' (tl (path_of ss)) = ss"
proof (induction ss)
  case Nil
  then show ?case by simp
next
  case (Cons s ss)
  show ?case
  proof (cases "ss = []")
    case True
    then show ?thesis using Cons.prems by (simp add: split_on_no_sep)
  next
    case False
    then have "path_of ss = CHR ''/'' # tl (path_of ss)"
      by (cases ss) simp_all
    then have "split_on CHR ''/'' (s @ path_of ss) = s # split_on CHR ''/'' (tl (path_of ss))"
      using Cons.prems split_on_append [of "CHR ''/''" s "tl (path_of ss)"] by simp
    then show ?thesis
      using Cons False by simp
  qed
qed

lemma resolved_path_of:
  assumes "is_resolved_path p"
  shows "p = path_of (segments p)"
proof -
  have "p = CHR ''/'' # tl p"
    using assms by (cases p) (auto simp: is_resolved_path_def split: if_splits)
  then show ?thesis
    by (metis path_of_split segments_def)
qed

lemma segments_no_slash: "s \<in> set (segments p) \<Longrightarrow> CHR ''/'' \<notin> set s"
  using split_on_pieces unfolding segments_def by fast

lemma path_of_inject:
  assumes "path_of xs = path_of ys" and "\<forall>s \<in> set xs. CHR ''/'' \<notin> set s"
    and "\<forall>s \<in> set ys. CHR ''/'' \<notin> set s"
  shows "xs = ys"
proof (cases "xs = [] \<or> ys = []")
  case True
  then show ?thesis
    using assms(1) by (cases xs; cases ys) auto
next
  case False
  then show ?thesis
    using split_path_of assms by metis
qed

section \<open>Rows of the allowlist as path texts\<close>

text \<open>
  A row describes the paths \<open>base/inst\<close> or, for a bundle, \<open>base/inst/Contents/\<dots>\<close>, where the base
  is empty or the home directory and the segments \<open>inst\<close> are instances of the row's pattern.
\<close>

fun row_paths :: "shape \<Rightarrow> string \<Rightarrow> string \<Rightarrow> bool" where
  "row_paths (Executable pattern) base p \<longleftrightarrow>
     (\<exists>inst. list_all2 segment_matches pattern inst \<and> p = base @ path_of inst)"
| "row_paths (Bundle pattern) base p \<longleftrightarrow>
     (\<exists>inst tail. list_all2 segment_matches pattern inst
        \<and> p = base @ path_of (inst @ [''Contents'']) @ CHR ''/'' # tail)"

definition row_matches :: "entry \<Rightarrow> string \<Rightarrow> string \<Rightarrow> bool" where
  "row_matches e p home \<longleftrightarrow>
     (case en_root e of RootAbsolute \<Rightarrow> row_paths (en_shape e) [] p
      | RootHome \<Rightarrow> is_resolved_path home \<and> row_paths (en_shape e) home p)"

lemma list_all2_prefix:
  "(length ps \<le> length xs \<and> list_all (\<lambda>(p, x). P p x) (zip ps xs))
     \<longleftrightarrow> list_all2 P ps (take (length ps) xs)"
  by (induction ps arbitrary: xs) (case_tac xs; auto)+

lemma pattern_matches_iff:
  "pattern_matches (Executable pattern) rest \<longleftrightarrow> list_all2 segment_matches pattern rest"
  "pattern_matches (Bundle pattern) rest \<longleftrightarrow>
     (\<exists>inst tail. rest = inst @ ''Contents'' # tail \<and> tail \<noteq> [] \<and> list_all2 segment_matches pattern inst)"
proof -
  show "pattern_matches (Executable pattern) rest \<longleftrightarrow> list_all2 segment_matches pattern rest"
  proof (cases "length rest = length pattern")
    case True
    then show ?thesis
      using list_all2_prefix [of pattern rest segment_matches] by (auto simp: pattern_matches_def)
  next
    case False
    then show ?thesis
      by (auto simp: pattern_matches_def dest: list_all2_lengthD)
  qed
  have "pattern_matches (Bundle pattern) rest \<longleftrightarrow>
     list_all2 segment_matches pattern (take (length pattern) rest)
       \<and> 2 \<le> length (drop (length pattern) rest) \<and> hd (drop (length pattern) rest) = ''Contents''"
    using list_all2_prefix [of pattern rest segment_matches]
    by (auto simp: pattern_matches_def not_less)
  also have "\<dots> \<longleftrightarrow> (\<exists>inst tail. rest = inst @ ''Contents'' # tail \<and> tail \<noteq> []
       \<and> list_all2 segment_matches pattern inst)" (is "?a \<longleftrightarrow> ?b")
  proof
    assume a: ?a
    obtain c tail where d: "drop (length pattern) rest = c # tail" "tail \<noteq> []"
    proof (cases "drop (length pattern) rest")
      case Nil
      then show ?thesis using a by (simp del: drop_eq_Nil length_drop)
    next
      case (Cons c tail)
      then show ?thesis using a that [of c tail] by (cases tail) (simp_all del: length_drop)
    qed
    then have "rest = take (length pattern) rest @ ''Contents'' # tail"
      using a by (metis append_take_drop_id list.sel(1))
    with a d(2) show ?b by blast
  next
    assume ?b
    then obtain inst tail where "rest = inst @ ''Contents'' # tail" "tail \<noteq> []"
      "list_all2 segment_matches pattern inst" by blast
    moreover from this have "length inst = length pattern"
      by (metis list_all2_lengthD)
    ultimately show ?a
      by (cases tail) simp_all
  qed
  finally show "pattern_matches (Bundle pattern) rest \<longleftrightarrow>
     (\<exists>inst tail. rest = inst @ ''Contents'' # tail \<and> tail \<noteq> [] \<and> list_all2 segment_matches pattern inst)" .
qed

text \<open>Segments without a slash, as every row's instances are.\<close>

lemma strip_parts:
  "segment_matches s x \<Longrightarrow> (case s of Lit t \<Rightarrow> x = t | Versioned p q \<Rightarrow> \<exists>v. x = p @ v @ q \<and> is_semver v)"
  by (cases s) (auto simp: strip_prefix_Some strip_suffix_Some split: option.splits)

lemma numeric_plain: "numeric p \<Longrightarrow> c \<in> set p \<Longrightarrow> c \<noteq> CHR ''/''"
  by (auto simp: numeric_def list_all_iff is_ascii_digit_def byte_def)

lemma split_at_first_Some:
  assumes "split_at_first f s = Some (a, b)"
  shows "\<exists>d. s = a @ d # b \<and> f d \<and> (\<forall>c \<in> set a. \<not> f c)"
proof -
  obtain d where d: "dropWhile (\<lambda>c. \<not> f c) s = d # b" and a: "a = takeWhile (\<lambda>c. \<not> f c) s"
    using assms by (auto simp: split_at_first_def split: list.splits)
  have "s = a @ d # b"
    using takeWhile_dropWhile_id [of "\<lambda>c. \<not> f c" s] d a by simp
  moreover have "f d"
    using d dropWhile_eq_Cons_conv by metis
  moreover have "\<forall>c \<in> set a. \<not> f c"
    using a by (auto dest: set_takeWhileD)
  ultimately show ?thesis by blast
qed

lemma split_at_first_append:
  "\<forall>c \<in> set a. \<not> f c \<Longrightarrow> f d \<Longrightarrow> split_at_first f (a @ d # b) = Some (a, b)"
  by (simp add: split_at_first_def dropWhile_append3 takeWhile_append2)

lemma tail_plain: "is_ascii_alphanumeric c \<or> c = CHR ''.'' \<or> c = CHR ''-'' \<Longrightarrow> c \<noteq> CHR ''/''"
  by (auto simp: is_ascii_alphanumeric_def is_ascii_digit_def is_ascii_alphabetic_def byte_def)

lemma triple_case:
  "(case xs of [a, b, c] \<Rightarrow> P a b c | _ \<Rightarrow> False) \<longleftrightarrow> (\<exists>a b c. xs = [a, b, c] \<and> P a b c)"
  by (auto split: list.splits)

lemma split_on_chars: "d \<in> set c \<Longrightarrow> d = x \<or> (\<exists>q \<in> set (split_on x c). d \<in> set q)"
  by (induction c) (auto split: list.splits)

lemma core_no_slash:
  assumes "split_on CHR ''.'' c = [x, y, z]" and "numeric x" and "numeric y" and "numeric z"
  shows "CHR ''/'' \<notin> set c"
proof
  assume "CHR ''/'' \<in> set c"
  then obtain q where "q \<in> {x, y, z}" "CHR ''/'' \<in> set q"
    using split_on_chars [of "CHR ''/''" c "CHR ''.''"] assms(1) by auto
  then show False
    using numeric_plain assms(2-4) by auto
qed

lemma semver_no_slash:
  assumes "is_semver v"
  shows "CHR ''/'' \<notin> set v"
proof (cases "split_at_first (\<lambda>c. c = CHR ''-'' \<or> c = CHR ''+'') v")
  case None
  then show ?thesis
    using assms core_no_slash unfolding is_semver_def Let_def triple_case None option.case prod.case
    by blast
next
  case (Some ct)
  obtain c t where ct: "ct = (c, t)" by (cases ct)
  have sv: "(\<exists>x y z. split_on CHR ''.'' c = [x, y, z] \<and> numeric x \<and> numeric y \<and> numeric z)
      \<and> list_all (\<lambda>c. is_ascii_alphanumeric c \<or> c = CHR ''.'' \<or> c = CHR ''-'') t"
    using assms unfolding is_semver_def Let_def triple_case Some ct option.case prod.case by blast
  obtain d where v: "v = c @ d # t" "d = CHR ''-'' \<or> d = CHR ''+''"
    using split_at_first_Some [OF Some [unfolded ct]] by blast
  have "CHR ''/'' \<notin> set c"
    using sv core_no_slash by blast
  moreover have "CHR ''/'' \<notin> set t"
    using sv tail_plain by (auto simp: list_all_iff)
  ultimately show ?thesis
    using v by auto
qed

section \<open>Matching is being in a row\<close>

fun plain_seg :: "seg \<Rightarrow> bool" where
  "plain_seg (Lit t) = (CHR ''/'' \<notin> set t)"
| "plain_seg (Versioned p q) = (CHR ''/'' \<notin> set p \<and> CHR ''/'' \<notin> set q)"

fun shape_segs :: "shape \<Rightarrow> seg list" where
  "shape_segs (Executable p) = p"
| "shape_segs (Bundle p) = p"

lemma allowlist_plain_all: "list_all (\<lambda>e. list_all plain_seg (shape_segs (en_shape e))) ALLOWLIST"
  by (simp add: ALLOWLIST_def)

lemma allowlist_plain: "e \<in> set ALLOWLIST \<Longrightarrow> s \<in> set (shape_segs (en_shape e)) \<Longrightarrow> plain_seg s"
  using allowlist_plain_all by (simp add: list_all_iff)

lemma segment_no_slash:
  assumes "segment_matches s x" and "plain_seg s"
  shows "CHR ''/'' \<notin> set x"
proof (cases s)
  case (Lit t)
  then show ?thesis using assms by simp
next
  case (Versioned p q)
  obtain v where "x = p @ v @ q" "is_semver v"
    using strip_parts [OF assms(1)] Versioned by auto
  then show ?thesis
    using assms(2) semver_no_slash Versioned by simp
qed

lemma instance_no_slash:
  "list_all2 segment_matches pattern inst \<Longrightarrow> \<forall>s \<in> set pattern. plain_seg s \<Longrightarrow>
   \<forall>x \<in> set inst. CHR ''/'' \<notin> set x"
  by (induction rule: list_all2_induct) (auto dest: segment_no_slash)

lemma segments_path_of_append:
  "\<forall>s \<in> set xs. CHR ''/'' \<notin> set s \<Longrightarrow>
   segments (path_of xs @ CHR ''/'' # tail) = xs @ split_on CHR ''/'' tail"
proof (induction xs)
  case Nil
  then show ?case by (simp add: segments_def)
next
  case (Cons s ss)
  obtain r where r: "path_of ss @ CHR ''/'' # tail = CHR ''/'' # r"
    by (cases ss) simp_all
  then have "segments (path_of ss @ CHR ''/'' # tail) = split_on CHR ''/'' r"
    by (simp add: segments_def)
  then show ?case
    using Cons r by (simp add: segments_def split_on_append)
qed

lemma shape_iff:
  assumes "is_resolved_path p" and "\<forall>s \<in> set hs. CHR ''/'' \<notin> set s"
    and "\<forall>s \<in> set (shape_segs shape). plain_seg s"
  shows "(take (length hs) (segments p) = hs \<and> pattern_matches shape (drop (length hs) (segments p)))
     \<longleftrightarrow> row_paths shape (path_of hs) p" (is "?l \<longleftrightarrow> ?r")
proof
  assume l: ?l
  obtain r where r: "segments p = hs @ r" "pattern_matches shape r"
    using l by (metis append_take_drop_id)
  have p: "p = path_of hs @ path_of r"
    using resolved_path_of [OF assms(1)] r(1) by simp
  show ?r
  proof (cases shape)
    case (Executable pattern)
    then show ?thesis using r(2) p by (auto simp: pattern_matches_iff)
  next
    case (Bundle pattern)
    then obtain inst tail where t: "r = inst @ ''Contents'' # tail" "tail \<noteq> []"
      "list_all2 segment_matches pattern inst"
      using r(2) by (auto simp: pattern_matches_iff)
    then obtain u where "path_of tail = CHR ''/'' # u"
      by (cases tail) simp_all
    then have "p = path_of hs @ path_of (inst @ [''Contents'']) @ CHR ''/'' # u"
      using p t(1) by simp
    then show ?thesis
      using Bundle t(3) by auto
  qed
next
  assume r: ?r
  show ?l
  proof (cases shape)
    case (Executable pattern)
    then obtain inst where i: "list_all2 segment_matches pattern inst" "p = path_of (hs @ inst)"
      using r by auto
    have "hs @ inst \<noteq> []"
      using assms(1) i(2) by (auto simp: is_resolved_path_def)
    moreover have "\<forall>x \<in> set inst. CHR ''/'' \<notin> set x"
      using instance_no_slash [OF i(1)] assms(3) Executable by simp
    ultimately have "segments p = hs @ inst"
      unfolding segments_def i(2) using assms(2) by (intro split_path_of) auto
    then show ?thesis
      using i(1) Executable by (simp add: pattern_matches_iff)
  next
    case (Bundle pattern)
    then obtain inst tail where i: "list_all2 segment_matches pattern inst"
      "p = path_of ((hs @ inst) @ [''Contents'']) @ CHR ''/'' # tail"
      using r by auto
    have "\<forall>x \<in> set inst. CHR ''/'' \<notin> set x"
      using instance_no_slash [OF i(1)] assms(3) Bundle by simp
    then have "segments p = ((hs @ inst) @ [''Contents'']) @ split_on CHR ''/'' tail"
      unfolding i(2) using assms(2) by (intro segments_path_of_append) auto
    then have "segments p = hs @ (inst @ ''Contents'' # split_on CHR ''/'' tail)"
      by simp
    moreover have "split_on CHR ''/'' tail \<noteq> []" by simp
    ultimately show ?thesis
      using i(1) Bundle pattern_matches_iff(2)
      by (metis append_eq_conv_conj)
  qed
qed

lemma take_self: "take (length hs) xs = hs \<Longrightarrow> \<not> length xs < length hs"
  by (metis length_take min_less_iff_conj nat_neq_iff)

lemma entry_matches_iff:
  assumes "is_resolved_path p" and "e \<in> set ALLOWLIST"
  shows "entry_matches e (segments p) (if is_resolved_path home then Some (segments home) else None)
     \<longleftrightarrow> row_matches e p home"
proof (cases "en_root e")
  case RootAbsolute
  then show ?thesis
    using shape_iff [of p "[]" "en_shape e"] assms allowlist_plain
    by (simp add: entry_matches_def row_matches_def)
next
  case RootHome
  show ?thesis
  proof (cases "is_resolved_path home")
    case True
    have "\<forall>s \<in> set (segments home). CHR ''/'' \<notin> set s"
      using segments_no_slash by blast
    from shape_iff [OF assms(1) this] show ?thesis
      using RootHome True assms(2) allowlist_plain resolved_path_of [OF True, symmetric]
      by (auto simp: entry_matches_def row_matches_def dest: take_self)
  qed (simp add: RootHome entry_matches_def row_matches_def)
qed

section \<open>Event file names\<close>

lemma from_slug_slug [simp]: "from_slug (slug a) = Some a"
  by (cases a) (simp_all add: from_slug_def AGENTS_def)

lemma slug_no_dash: "CHR ''-'' \<notin> set (slug a)"
  by (cases a) simp_all

lemma sint_bound: "sint (p :: i32) < 2147483648" "- 2147483648 \<le> sint (p :: i32)"
  using sint_lt [of p] sint_ge [of p] by simp_all

lemma parse_i32_print:
  assumes "0 \<le> sint p"
  shows "parse_i32 (nat_str (nat (sint p))) = Some p"
proof -
  have "nat (sint p) < 2 ^ 31"
    using assms sint_bound(1) [of p] by (simp add: nat_less_iff)
  moreover have "of_nat (nat (sint p)) = p"
    unfolding of_nat_nat [OF assms] by simp
  ultimately show ?thesis
    unfolding parse_i32_def decimal_nat_str by (simp only: if_True)
qed

lemma parse_hook_file_name:
  "parse_hook_file (hook_file_name a p) contents =
     (if sint p \<le> 0 then None
      else let text = (case strip_suffix [CHR 0x0A] contents of Some t \<Rightarrow> t | None \<Rightarrow> contents)
         in if text = ''busy'' then Some (a, p, HookBusy)
            else if text = ''idle'' then Some (a, p, HookIdle) else None)"
proof -
  have "split_at_first (\<lambda>c. c = CHR ''-'') (hook_file_name a p) = Some (slug a, int_str (sint p))"
    using slug_no_dash unfolding hook_file_name_def
    by (auto intro!: split_at_first_append)
  moreover have "sint p < 0 \<Longrightarrow> \<not> list_all is_ascii_digit (int_str (sint p))"
    by (simp add: int_str_def is_ascii_digit_def byte_def)
  moreover have "0 \<le> sint p \<Longrightarrow> list_all is_ascii_digit (int_str (sint p)) \<and> int_str (sint p) \<noteq> []
      \<and> parse_i32 (int_str (sint p)) = Some p"
    using nat_str_digits by (simp add: int_str_def list_all_iff parse_i32_print)
  ultimately show ?thesis
    by (cases "sint p < 0") (simp_all add: parse_hook_file_def Let_def)
qed

lemma parse_hook_file_positive:
  assumes "parse_hook_file n c = Some r"
  shows "0 < sint (fst (snd r))"
proof -
  obtain s d where 1: "split_at_first (\<lambda>c. c = CHR ''-'') n = Some (s, d)"
    using assms unfolding parse_hook_file_def by (cases "split_at_first (\<lambda>c. c = CHR ''-'') n") auto
  obtain a where 2: "from_slug s = Some a"
    using assms unfolding parse_hook_file_def 1 option.case prod.case by (cases "from_slug s") auto
  have 3: "\<not> (d = [] \<or> \<not> list_all is_ascii_digit d)"
    using assms unfolding parse_hook_file_def 1 option.case prod.case 2 by (cases "d = [] \<or> \<not> list_all is_ascii_digit d") auto
  obtain p where 4: "parse_i32 d = Some p"
    using assms 3 unfolding parse_hook_file_def 1 option.case prod.case 2 by (cases "parse_i32 d") auto
  define body where "body = (case strip_suffix [CHR 0x0A] c of Some t \<Rightarrow> t | None \<Rightarrow> c)"
  have "parse_hook_file n c = (if sint p \<le> 0 then None
      else if body = ''busy'' then Some (a, p, HookBusy)
      else if body = ''idle'' then Some (a, p, HookIdle) else None)"
    using 3 unfolding parse_hook_file_def 1 option.case prod.case 2 4 body_def by (simp add: Let_def)
  then show ?thesis
    using assms by (cases "sint p \<le> 0"; cases "body = ''busy''"; cases "body = ''idle''") auto
qed

section \<open>States\<close>

definition own_process :: "u32 \<Rightarrow> string \<Rightarrow> agent \<Rightarrow> process_record \<Rightarrow> bool" where
  "own_process uid home a r \<longleftrightarrow> proc_uid r = uid \<and> identify (proc_path r) home = Some a"

lemma agent_index_less: "agent_index a < 5"
  by (cases a) simp_all

lemma agent_index_inject [simp]: "agent_index a = agent_index b \<longleftrightarrow> a = b"
  by (cases a; cases b) simp_all

lemma classify_loop_nth:
  "length st = 5 \<Longrightarrow>
   length (classify_loop rs uid home st) = 5 \<and>
   classify_loop rs uid home st ! agent_index a =
     (if \<exists>r \<in> set rs. own_process uid home a r then RunningActivityUnknown else st ! agent_index a)"
proof (induction rs arbitrary: st)
  case Nil
  then show ?case by simp
next
  case (Cons r rs)
  show ?case
  proof (cases "proc_uid r = uid \<and> identify (proc_path r) home \<noteq> None")
    case True
    then obtain b where b: "identify (proc_path r) home = Some b" by blast
    from Cons.IH [of "st[agent_index b := RunningActivityUnknown]"] Cons.prems show ?thesis
      using True b agent_index_less [of b]
      by (auto simp: own_process_def nth_list_update)
  next
    case False
    then show ?thesis
      using Cons by (auto simp: own_process_def split: option.split)
  qed
qed

lemma classify_nth:
  "length (classify rs uid home) = 5"
  "classify rs uid home ! agent_index a =
     (if \<exists>r \<in> set rs. own_process uid home a r then RunningActivityUnknown else NotRunning)"
  using classify_loop_nth [of "replicate AGENT_COUNT NotRunning"] agent_index_less [of a]
  by (simp_all add: classify_def AGENT_COUNT_def)

lemma activity_loop_nth:
  "distinct as \<Longrightarrow> length st = 5 \<Longrightarrow>
   length (activity_loop as rs uid home hooks st) = 5 \<and>
   activity_loop as rs uid home hooks st ! agent_index a =
     (if a \<in> set as \<and> st ! agent_index a \<noteq> NotRunning then from_hooks a rs uid home hooks
      else st ! agent_index a)"
  by (induction "as" arbitrary: st) (auto simp: Let_def nth_list_update agent_index_less)

lemma AGENTS_all: "distinct AGENTS" "a \<in> set AGENTS"
  by (simp add: AGENTS_def) (cases a; simp add: AGENTS_def)

lemma classify_activity_nth:
  "length (classify_activity rs uid home hooks) = 5"
  "classify_activity rs uid home hooks ! agent_index a =
     (if \<exists>r \<in> set rs. own_process uid home a r then from_hooks a rs uid home hooks else NotRunning)"
  using activity_loop_nth [OF AGENTS_all(1) classify_nth(1), of rs uid home hooks rs uid home a]
    AGENTS_all(2) [of a]
  by (auto simp: classify_activity_def classify_nth(2))

lemma hooks_loop_cases:
  "hooks_loop hs rep = Busy \<longleftrightarrow> (\<exists>h \<in> set hs. hk_activity h = HookBusy \<and> hk_age_ms h < HOOK_BUSY_TIMEOUT_MS)"
  "hooks_loop hs rep \<noteq> Busy \<Longrightarrow> hooks_loop hs rep = (if rep \<or> hs \<noteq> [] then Idle else RunningActivityUnknown)"
  by (induction hs arbitrary: rep) auto

text \<open>The event files of an agent's own running processes.\<close>

definition own_hook :: "u32 \<Rightarrow> string \<Rightarrow> process_record list \<Rightarrow> agent \<Rightarrow> hook_record \<Rightarrow> bool" where
  "own_hook uid home rs a h \<longleftrightarrow> hk_agent h = a \<and> (\<exists>r \<in> set rs. own_process uid home a r \<and> proc_pid r = hk_pid h)"

lemma own_hooks:
  "set (filter (\<lambda>h. hk_agent h = a \<and> running a rs uid home (hk_pid h)) hooks)
     = {h \<in> set hooks. own_hook uid home rs a h}"
  by (auto simp: own_hook_def running_def own_process_def list_ex_iff)

section \<open>Properties\<close>

text \<open>
  C36. A process is a supported agent exactly when its path's text says so. No agent is found
  on a relative, over-long or unnormalised path; on any other, one is found exactly when the
  path is an instance of a row of the allowlist (absolute, or under a usable home directory;
  for a bundle, anything below its \<open>Contents\<close> directory), and it is that row's agent.
\<close>

theorem identify_is_exact:
  "(identify p home \<noteq> None \<longleftrightarrow> is_resolved_path p \<and> (\<exists>e \<in> set ALLOWLIST. row_matches e p home))
   \<and> (\<forall>a. identify p home = Some a \<longrightarrow> (\<exists>e \<in> set ALLOWLIST. en_agent e = a \<and> row_matches e p home))"
proof (cases "is_resolved_path p")
  case True
  let ?f = "\<lambda>e. entry_matches e (segments p) (if is_resolved_path home then Some (segments home) else None)"
  have id: "identify p home = map_option en_agent (find ?f ALLOWLIST)"
    using True by (simp add: identify_def Let_def)
  show ?thesis
  proof (cases "find ?f ALLOWLIST")
    case None
    then have "\<forall>e \<in> set ALLOWLIST. \<not> row_matches e p home"
      using entry_matches_iff [OF True] by (simp add: find_None_iff)
    with None show ?thesis using id by simp
  next
    case (Some e)
    then have "e \<in> set ALLOWLIST" "?f e"
      by (auto simp: find_Some_iff)
    then have "e \<in> set ALLOWLIST" "row_matches e p home"
      using entry_matches_iff [OF True] by blast+
    with Some True show ?thesis using id by auto
  qed
qed (simp add: identify_def)

lemma sample_identify:
  "identify ''/Users/ann/.grok/bin/grok'' ''/Users/ann'' = Some Grok"
  by code_simp

theorem identify_is_exact_witness:
  "\<exists>e \<in> set ALLOWLIST. en_agent e = Grok \<and> row_matches e ''/Users/ann/.grok/bin/grok'' ''/Users/ann''"
  using identify_is_exact [of "''/Users/ann/.grok/bin/grok''" "''/Users/ann''"] sample_identify by blast

text \<open>
  The five states say what is known and no more. For every agent: not running means no
  process of the user is one of its executables; busy means one of its running processes last
  reported busy less than the timeout ago; idle means its running processes have reported
  and none is busy; unknown means none has reported. Other users' processes, stale event
  files and their order play no part.
\<close>

theorem states_mean_what_they_say:
  "length (classify_activity rs uid home hooks) = 5
   \<and> (let s = classify_activity rs uid home hooks ! agent_index a;
          run = (\<exists>r \<in> set rs. own_process uid home a r);
          busy = (\<exists>h \<in> set hooks. own_hook uid home rs a h \<and> hk_activity h = HookBusy
                    \<and> hk_age_ms h < HOOK_BUSY_TIMEOUT_MS);
          reported = (\<exists>h \<in> set hooks. own_hook uid home rs a h)
      in (s = NotRunning \<longleftrightarrow> \<not> run) \<and> (s = Busy \<longleftrightarrow> run \<and> busy)
         \<and> (s = Idle \<longleftrightarrow> run \<and> reported \<and> \<not> busy)
         \<and> (s = RunningActivityUnknown \<longleftrightarrow> run \<and> \<not> reported))"
proof -
  let ?hs = "filter (\<lambda>h. hk_agent h = a \<and> running a rs uid home (hk_pid h)) hooks"
  have set: "set ?hs = {h \<in> set hooks. own_hook uid home rs a h}"
    by (rule own_hooks)
  have nonempty: "?hs \<noteq> [] \<longleftrightarrow> (\<exists>h \<in> set hooks. own_hook uid home rs a h)"
    unfolding set_empty [symmetric] set by blast
  have busy: "from_hooks a rs uid home hooks = Busy \<longleftrightarrow>
      (\<exists>h \<in> set hooks. own_hook uid home rs a h \<and> hk_activity h = HookBusy \<and> hk_age_ms h < HOOK_BUSY_TIMEOUT_MS)"
    unfolding from_hooks_def hooks_loop_cases(1) set by blast
  have other: "from_hooks a rs uid home hooks \<noteq> Busy \<Longrightarrow> from_hooks a rs uid home hooks
      = (if \<exists>h \<in> set hooks. own_hook uid home rs a h then Idle else RunningActivityUnknown)"
    unfolding from_hooks_def using hooks_loop_cases(2) [of ?hs False] nonempty by simp
  have busy_reported: "(\<exists>h \<in> set hooks. own_hook uid home rs a h \<and> hk_activity h = HookBusy
      \<and> hk_age_ms h < HOOK_BUSY_TIMEOUT_MS) \<Longrightarrow> (\<exists>h \<in> set hooks. own_hook uid home rs a h)"
    by blast
  show ?thesis
    unfolding Let_def classify_activity_nth(2)
    using classify_activity_nth(1) busy other busy_reported
    by (cases "from_hooks a rs uid home hooks = Busy") (auto split: if_splits)
qed

text \<open>
  An event file belongs to one process. The name written for an agent's process, with
  the contents written for an activity, is read back as that agent, process and activity, for
  every positive process id; the names of other ids are ignored, two processes never share a
  name, and no file is read as one of a process whose id is not positive.
\<close>

theorem hook_file_roundtrip:
  "(parse_hook_file (hook_file_name a p) (''busy'' @ [CHR 0x0A]) = (if 0 < sint p then Some (a, p, HookBusy) else None))
   \<and> (parse_hook_file (hook_file_name a p) (''idle'' @ [CHR 0x0A]) = (if 0 < sint p then Some (a, p, HookIdle) else None))
   \<and> (hook_file_name a p = hook_file_name b q \<and> 0 < sint p \<and> 0 < sint q \<longrightarrow> a = b \<and> p = q)
   \<and> (\<forall>n c r. parse_hook_file n c = Some r \<longrightarrow> 0 < sint (fst (snd r)))"
proof (intro conjI impI allI)
  have strip: "strip_suffix [CHR 0x0A] (s @ [CHR 0x0A]) = Some s" for s
    by (simp add: strip_suffix_Some)
  show busy: "parse_hook_file (hook_file_name a p) (''busy'' @ [CHR 0x0A])
      = (if 0 < sint p then Some (a, p, HookBusy) else None)" for a p
    unfolding parse_hook_file_name strip by auto
  show "parse_hook_file (hook_file_name a p) (''idle'' @ [CHR 0x0A])
      = (if 0 < sint p then Some (a, p, HookIdle) else None)"
    unfolding parse_hook_file_name strip by auto
  show "a = b" "p = q" if "hook_file_name a p = hook_file_name b q \<and> 0 < sint p \<and> 0 < sint q"
    using busy [of a p] busy [of b q] that by auto
  show "0 < sint (fst (snd r))" if "parse_hook_file n c = Some r" for n c r
    using parse_hook_file_positive [OF that] .
qed

theorem hook_file_roundtrip_witness:
  "parse_hook_file (hook_file_name Claude 4242) (''busy'' @ [CHR 0x0A]) = Some (Claude, 4242, HookBusy)
   \<and> hook_file_name Claude 4242 \<noteq> hook_file_name Codex 4242"
  using hook_file_roundtrip [of Claude 4242 Codex 4242] by auto

end
