(* ===== verification/Collectors_Correct.thy ===== *)
theory Collectors_Correct
  imports Collectors Agents_Correct
begin

text \<open>
  The contract of a collector (the trait \<open>Collector\<close> of \<^verbatim>\<open>host/metrics/src/lib.rs\<close>) as a locale,
  the collectors of \<^verbatim>\<open>platform-macos\<close> as its instances, and what each of them guarantees.
\<close>

section \<open>The contract\<close>

datatype 'i collector_event = Collect 'i u64 | Wake

locale collector =
  fixes collect :: "'s \<Rightarrow> 'i \<Rightarrow> u64 \<Rightarrow> 'o metric_sample \<times> 's"
    and wake :: "'s \<Rightarrow> 's"
    and inv :: "'s \<Rightarrow> bool"
    and input_ok :: "'i \<Rightarrow> bool"
    and reading_ok :: "'o \<Rightarrow> bool"
  assumes sample_wf: "inv s \<Longrightarrow> input_ok i \<Longrightarrow> ms_wf (fst (collect s i t))"
    and reading: "inv s \<Longrightarrow> input_ok i \<Longrightarrow> ms_value (fst (collect s i t)) = Some v \<Longrightarrow> reading_ok v"
    and keeps: "inv s \<Longrightarrow> input_ok i \<Longrightarrow> inv (snd (collect s i t))"
    and wakes: "inv s \<Longrightarrow> inv (wake s)"
begin

fun step :: "'i collector_event \<Rightarrow> 's \<Rightarrow> 's" where
  "step (Collect i t) s = snd (collect s i t)"
| "step Wake s = wake s"

definition event_ok :: "'i collector_event \<Rightarrow> bool" where
  "event_ok e \<longleftrightarrow> (case e of Collect i t \<Rightarrow> input_ok i | Wake \<Rightarrow> True)"

lemma step_inv: "inv s \<Longrightarrow> event_ok e \<Longrightarrow> inv (step e s)"
  by (cases e) (simp_all add: keeps wakes event_ok_def)

lemma run_inv: "inv s \<Longrightarrow> \<forall>e \<in> set es. event_ok e \<Longrightarrow> inv (fold step es s)"
  by (induction es arbitrary: s) (simp_all add: step_inv)

text \<open>Whatever happened before, the next sample is well formed and its value admissible.\<close>

lemma run_sample:
  assumes "inv s" and "\<forall>e \<in> set es. event_ok e" and "input_ok i"
  shows "ms_wf (fst (collect (fold step es s) i t))
    \<and> (\<forall>v. ms_value (fst (collect (fold step es s) i t)) = Some v \<longrightarrow> reading_ok v)"
  using run_inv [OF assms(1,2)] sample_wf reading assms(3) by blast

end

section \<open>The cache under a collector\<close>

lemma begin_refresh_simps [simp]:
  "sch_sample (snd (begin_refresh t c)) = sch_sample c"
  "sch_failing_since_ms (snd (begin_refresh t c)) = sch_failing_since_ms c"
  by (simp_all add: begin_refresh_def Let_def)

lemma expire_simps [simp]:
  "sch_sample (expire c) = sch_sample c" "fst (begin_refresh t (expire c))"
  "sch_failing_since_ms (expire c) = sch_failing_since_ms c"
  by (simp_all add: expire_def begin_refresh_def)

lemma refresh_with_sample:
  "sch_sample (refresh_with t a c) =
     (case a of Some v \<Rightarrow> if fst (begin_refresh t c) then Some (v, t) else sch_sample c | None \<Rightarrow> sch_sample c)"
  by (cases "begin_refresh t c")
    (auto simp: refresh_with_def succeed_def fail_def begin_refresh_def Let_def split: option.splits)

lemma refresh_with_policy [simp]: "sch_policy (refresh_with t a c) = sch_policy c"
  by (auto simp: refresh_with_def begin_refresh_def succeed_def fail_def Let_def split: option.splits)

lemma cache_get_Some:
  "cache_get t c = Some d \<longleftrightarrow> (\<exists>s. sch_sample c = Some (ca_value d, s) \<and> ca_age_ms d = sat_sub t s)"
  by (cases d) (auto simp: cache_get_def)

lemma cache_get_None: "cache_get t c = None \<longleftrightarrow> sch_sample c = None"
  by (auto simp: cache_get_def)

lemma unat_min: "unat (min a b) = min (unat a) (unat b)"
  by (simp add: min_def word_le_nat_alt)

lemma unat_wire_age: "unat (wire_age_ms c) = min (unat (ca_age_ms c)) (2 ^ 32 - 1)"
proof -
  have "unat (min (ca_age_ms c) 0xffffffff) = min (unat (ca_age_ms c)) (2 ^ 32 - 1)"
    by (simp add: unat_min)
  then show ?thesis
    unfolding wire_age_ms_def by (simp add: unsigned_ucast_eq take_bit_nat_eq_self)
qed

section \<open>CPU and memory\<close>

interpretation cpuc: collector cpu_collect cpu_on_wake "\<lambda>_. True" "\<lambda>_. True" "\<lambda>v. v \<le> 1000"
proof
  show "ms_wf (fst (cpu_collect s i t))" for s i t
    by (simp add: cpu_collect_def cpu.wf split: option.split)
  show "v \<le> 1000" if "ms_value (fst (cpu_collect s i t)) = Some v" for s i t v
    using that cpu.value_ok by (auto simp: cpu_collect_def split: option.splits)
qed auto

definition ram_ok_reading :: "ram_reading \<Rightarrow> bool" where
  "ram_ok_reading r \<longleftrightarrow> rrd_used_bytes r \<le> rrd_total_bytes r \<and> 0 < rrd_total_bytes r"

interpretation ramc: collector "\<lambda>s i t. (ram_collect i, s)" "\<lambda>s. s" "\<lambda>_ :: unit. True" "\<lambda>_. True" ram_ok_reading
proof
  show "ms_wf (fst (ram_collect i, s))" for i and s :: unit
    by (auto simp: ram_collect_def split: option.splits)
  show "ram_ok_reading v" if "ms_value (fst (ram_collect i, s)) = Some v" for i v and s :: unit
    using that word_sub_le
    by (auto simp: ram_collect_def ram_ok_reading_def split: option.splits if_splits)
qed auto

section \<open>Storage\<close>

definition disk_entry :: "disk_samplers \<Rightarrow> string \<Rightarrow> unit rate_baseline" where
  "disk_entry s d = (case s d of None \<Rightarrow> None | Some b \<Rightarrow> b)"

definition disk_link_rate :: "disk_samplers \<Rightarrow> u64 \<Rightarrow> string \<times> disk_counters \<Rightarrow> disk_rate option" where
  "disk_link_rate s t dc = ms_value (fst (disk_sample (disk_entry s (fst dc)) (snd dc) t))"

definition disk_baseline :: "u64 \<Rightarrow> disk_counters \<Rightarrow> unit rate_baseline" where
  "disk_baseline t c = Some ((), (dc_read_bytes c, dc_write_bytes c), t)"

definition disk_plus :: "disk_rate \<Rightarrow> disk_rate \<Rightarrow> disk_rate" where
  "disk_plus a b = \<lparr>dr_read_bytes_per_s = sat_add (dr_read_bytes_per_s a) (dr_read_bytes_per_s b),
     dr_write_bytes_per_s = sat_add (dr_write_bytes_per_s a) (dr_write_bytes_per_s b)\<rparr>"

lemma disk_loop_step:
  "disk_loop t (dc # disks) s tot av =
     disk_loop t disks (s(fst dc \<mapsto> disk_baseline t (snd dc)))
       (case (disk_link_rate s t dc, tot) of (Some r, Some a) \<Rightarrow> Some (disk_plus a r) | _ \<Rightarrow> None)
       (if disk_link_rate s t dc = None
        then ms_availability (fst (disk_sample (disk_entry s (fst dc)) (snd dc) t)) else av)"
proof -
  obtain d c where dc: "dc = (d, c)" by (cases dc)
  obtain m where m: "disk_sample (disk_entry s d) c t = (m, disk_baseline t c)"
    using disk.rebaselines [of "disk_entry s d" c t] by (metis disk_baseline_def prod.collapse)
  then show ?thesis
    by (simp add: dc disk_link_rate_def disk_plus_def disk_entry_def Let_def split: option.split)
qed

fun disk_total :: "disk_samplers \<Rightarrow> u64 \<Rightarrow> (string \<times> disk_counters) list \<Rightarrow> disk_rate option \<Rightarrow> disk_rate option" where
  "disk_total s t [] acc = acc"
| "disk_total s t (d # ds) acc =
     disk_total s t ds (case (disk_link_rate s t d, acc) of (Some r, Some a) \<Rightarrow> Some (disk_plus a r) | _ \<Rightarrow> None)"

lemma disk_total_other:
  "n \<notin> fst ` set ds \<Longrightarrow> disk_total (s(n \<mapsto> b)) t ds acc = disk_total s t ds acc"
proof (induction ds arbitrary: acc)
  case (Cons d ds)
  then have "disk_link_rate (s(n \<mapsto> b)) t d = disk_link_rate s t d"
    by (auto simp: disk_link_rate_def disk_entry_def)
  then show ?case
    using Cons.IH Cons.prems by (simp del: fun_upd_apply)
qed simp

lemma disk_loop_result:
  assumes "distinct (map fst ds)" and "disk_loop t ds s tot av = (s', tot', av')"
  shows "tot' = disk_total s t ds tot
    \<and> ((tot \<noteq> None \<longleftrightarrow> av = MAvailable) \<longrightarrow> (tot' \<noteq> None \<longleftrightarrow> av' = MAvailable))
    \<and> (\<forall>(d, c) \<in> set ds. s' d = Some (disk_baseline t c)) \<and> (\<forall>n. n \<notin> fst ` set ds \<longrightarrow> s' n = s n)"
  using assms
proof (induction ds arbitrary: s tot av)
  case Nil
  then show ?case by simp
next
  case (Cons dc ds)
  let ?s = "s(fst dc \<mapsto> disk_baseline t (snd dc))"
  let ?tot = "case (disk_link_rate s t dc, tot) of (Some r, Some a) \<Rightarrow> Some (disk_plus a r) | _ \<Rightarrow> None"
  let ?m = "fst (disk_sample (disk_entry s (fst dc)) (snd dc) t)"
  let ?av = "if disk_link_rate s t dc = None then ms_availability ?m else av"
  have fresh: "fst dc \<notin> fst ` set ds" and dist: "distinct (map fst ds)"
    using Cons.prems(1) by auto
  have "disk_loop t ds ?s ?tot ?av = (s', tot', av')"
    using Cons.prems(2) by (simp only: disk_loop_step)
  note IH = Cons.IH [OF dist this]
  have "(?tot \<noteq> None \<longleftrightarrow> ?av = MAvailable)" if "tot \<noteq> None \<longleftrightarrow> av = MAvailable"
    using that disk.wf [of "disk_entry s (fst dc)" "snd dc" t]
    by (auto simp: ms_wf_def disk_link_rate_def split: option.splits)
  moreover have "disk_total ?s t ds ?tot = disk_total s t (dc # ds) tot"
    using disk_total_other [OF fresh] by (simp only: disk_total.simps)
  moreover have "s' (fst dc) = Some (disk_baseline t (snd dc))"
    using IH fresh by simp
  ultimately show ?case
    using IH by (cases dc) (simp only: list.set, auto)
qed

lemma storage_io_wf:
  assumes "\<And>ds. source = Some ds \<Longrightarrow> distinct (map fst ds)"
  shows "ms_wf (fst (storage_io s source t))"
proof (cases "source = None \<or> source = Some []")
  case True
  then show ?thesis by (auto simp: storage_io_def)
next
  case False
  then obtain ds where ds: "source = Some ds" "ds \<noteq> []" by auto
  obtain s' tot av where l: "disk_loop t ds s (Some \<lparr>dr_read_bytes_per_s = 0, dr_write_bytes_per_s = 0\<rparr>)
      MAvailable = (s', tot, av)"
    by (metis prod_cases3)
  from disk_loop_result [OF assms [OF ds(1)] l] show ?thesis
    using ds l by (auto simp: storage_io_def split: option.split)
qed

definition disks_ok :: "storage_capacity_reading option \<times> (string \<times> disk_counters) list option \<Rightarrow> bool" where
  "disks_ok i \<longleftrightarrow> (\<forall>ds. snd i = Some ds \<longrightarrow> distinct (map fst ds))"

definition storage_reading_ok :: "storage_reading \<Rightarrow> bool" where
  "storage_reading_ok r \<longleftrightarrow> ms_wf (srd_capacity r) \<and> ms_wf (srd_io r)
     \<and> (ms_value (srd_capacity r) = None \<longrightarrow> srd_capacity_age_ms r = 0)"

lemma storage_capacity_ok:
  "ms_wf (fst (storage_capacity c a t))"
  "ms_value (fst (storage_capacity c a t)) = None \<Longrightarrow> fst (snd (storage_capacity c a t)) = 0"
  by (auto simp: storage_capacity_def Let_def split: option.splits)

interpretation stoc: collector "\<lambda>s (cap, disks) t. storage_collect s cap disks t" storage_on_wake "\<lambda>_. True"
    disks_ok storage_reading_ok
proof
  show "ms_wf (fst ((\<lambda>(cap, disks) t. storage_collect s cap disks t) i t))" for s i t
    by (auto simp: storage_collect_def Let_def split: prod.splits)
  show "storage_reading_ok v"
    if "disks_ok i" "ms_value (fst ((\<lambda>(cap, disks) t. storage_collect s cap disks t) i t)) = Some v" for s i t v
  proof -
    obtain cap disks where i: "i = (cap, disks)" by (cases i)
    have "ms_wf (fst (storage_io (stc_samplers s) disks t))"
      using that(1) i by (intro storage_io_wf) (simp add: disks_ok_def)
    then show ?thesis
      using that(2) i storage_capacity_ok [of "stc_capacity s" cap t]
      by (auto simp: storage_collect_def Let_def storage_reading_ok_def split: prod.splits)
  qed
qed auto

section \<open>Disk totals\<close>

definition read_of :: "disk_rate option \<Rightarrow> nat" where
  "read_of r = (case r of None \<Rightarrow> 0 | Some r \<Rightarrow> unat (dr_read_bytes_per_s r))"

definition write_of :: "disk_rate option \<Rightarrow> nat" where
  "write_of r = (case r of None \<Rightarrow> 0 | Some r \<Rightarrow> unat (dr_write_bytes_per_s r))"

lemma disk_total_None [simp]: "disk_total s t ds None = None"
  by (induction ds) (simp_all split: option.split)

lemma disk_total_Some:
  assumes "disk_total s t ds (Some a) = Some tot"
  shows "(\<forall>d \<in> set ds. disk_link_rate s t d \<noteq> None)
    \<and> unat (dr_read_bytes_per_s tot)
        = min (unat (dr_read_bytes_per_s a) + (\<Sum>d\<leftarrow>ds. read_of (disk_link_rate s t d))) (2 ^ 64 - 1)
    \<and> unat (dr_write_bytes_per_s tot)
        = min (unat (dr_write_bytes_per_s a) + (\<Sum>d\<leftarrow>ds. write_of (disk_link_rate s t d))) (2 ^ 64 - 1)"
  using assms
proof (induction ds arbitrary: a)
  case Nil
  then show ?case
    using u64_less [of "dr_read_bytes_per_s a"] u64_less [of "dr_write_bytes_per_s a"] by simp
next
  case (Cons d ds)
  obtain r where r: "disk_link_rate s t d = Some r"
    using Cons.prems by (cases "disk_link_rate s t d") auto
  have "disk_total s t ds (Some (disk_plus a r)) = Some tot"
    using Cons.prems r by simp
  from Cons.IH [OF this] show ?case
    by (simp add: r disk_plus_def unat_sat_add read_of_def write_of_def min_add_min add.assoc)
qed

text \<open>
  Disk throughput is the sum over the disks. When the devices are listed once each and a
  throughput is reported, every device gave a rate against its own previous counters and each
  direction is the sum of theirs, saturated at the 64-bit maximum; afterwards a baseline is kept for
  exactly the devices listed. A device seen for the first time leaves the total unavailable.
\<close>

theorem disk_throughput_is_the_sum:
  assumes "distinct (map fst ds)"
  shows "ms_wf (fst (storage_io s (Some ds) t)) \<and> dom (snd (storage_io s (Some ds) t)) = fst ` set ds
    \<and> (\<forall>(d, c) \<in> set ds. snd (storage_io s (Some ds) t) d = Some (disk_baseline t c))
    \<and> (\<forall>tot. ms_value (fst (storage_io s (Some ds) t)) = Some tot \<longrightarrow>
         ds \<noteq> [] \<and> (\<forall>d \<in> set ds. disk_link_rate s t d \<noteq> None)
         \<and> unat (dr_read_bytes_per_s tot) = min (\<Sum>d\<leftarrow>ds. read_of (disk_link_rate s t d)) (2 ^ 64 - 1)
         \<and> unat (dr_write_bytes_per_s tot) = min (\<Sum>d\<leftarrow>ds. write_of (disk_link_rate s t d)) (2 ^ 64 - 1))
    \<and> ((\<exists>d \<in> set ds. s (fst d) = None) \<longrightarrow> ms_value (fst (storage_io s (Some ds) t)) = None)"
proof -
  let ?z = "Some \<lparr>dr_read_bytes_per_s = 0, dr_write_bytes_per_s = 0\<rparr> :: disk_rate option"
  obtain s1 tot av where l: "disk_loop t ds s ?z MAvailable = (s1, tot, av)"
    by (metis prod_cases3)
  note loop = disk_loop_result [OF assms l]
  have io: "storage_io s (Some ds) t = (if ds = [] then (ms_unavailable MError, Map.empty)
      else (case tot of Some rate \<Rightarrow> ms_available rate | None \<Rightarrow> ms_unavailable av, s1 |` (fst ` set ds)))"
    using l by (simp add: storage_io_def)
  have wf: "ms_wf (fst (storage_io s (Some ds) t))"
    using assms by (intro storage_io_wf) simp
  have dom: "dom (s1 |` (fst ` set ds)) = fst ` set ds"
    using loop by (force simp: restrict_map_def dom_def split: if_splits)
  have sums: "ds \<noteq> [] \<and> (\<forall>d \<in> set ds. disk_link_rate s t d \<noteq> None)
           \<and> unat (dr_read_bytes_per_s r) = min (\<Sum>d\<leftarrow>ds. read_of (disk_link_rate s t d)) (2 ^ 64 - 1)
           \<and> unat (dr_write_bytes_per_s r) = min (\<Sum>d\<leftarrow>ds. write_of (disk_link_rate s t d)) (2 ^ 64 - 1)"
    if "ms_value (fst (storage_io s (Some ds) t)) = Some r" for r
  proof -
    have "ds \<noteq> []" "disk_total s t ds ?z = Some r"
      using that io loop by (auto split: if_splits option.splits)
    with disk_total_Some [OF this(2)] show ?thesis by simp
  qed
  have "ms_value (fst (storage_io s (Some ds) t)) = None" if "d \<in> set ds" "s (fst d) = None" for d
  proof (rule ccontr)
    assume "ms_value (fst (storage_io s (Some ds) t)) \<noteq> None"
    then have "disk_link_rate s t d \<noteq> None"
      using sums that(1) by blast
    then show False
      using that(2) by (simp add: disk_link_rate_def disk_entry_def disk_sample_def rate_sample_def)
  qed
  then have new: "(\<exists>d \<in> set ds. s (fst d) = None) \<longrightarrow> ms_value (fst (storage_io s (Some ds) t)) = None"
    by blast
  have base: "\<forall>(d, c) \<in> set ds. (s1 |` (fst ` set ds)) d = Some (disk_baseline t c)"
    using loop by (force simp: restrict_map_def)
  have kept: "snd (storage_io s (Some ds) t) = s1 |` (fst ` set ds)"
    using io by (cases "ds = []") simp_all
  show ?thesis
    unfolding kept by (intro conjI allI impI wf dom base) (use sums new in simp_all)
qed

theorem disk_throughput_is_the_sum_witness:
  "ms_value (fst (storage_io [''disk0'' \<mapsto> Some ((), (1000, 0), 1000)]
     (Some [(''disk0'', \<lparr>dc_read_bytes = 3000, dc_write_bytes = 0\<rparr>),
            (''disk4'', \<lparr>dc_read_bytes = 0, dc_write_bytes = 0\<rparr>)]) 2000)) = None"
  by (rule disk_throughput_is_the_sum [THEN conjunct2, THEN conjunct2, THEN conjunct2, THEN conjunct2, THEN mp])
    simp_all

section \<open>Agents\<close>

text \<open>A collector and the inputs of its calls so far, newest first.\<close>

type_synonym scan = "u64 \<times> process_record list option \<times> hook_record list"

fun agents_run :: "scan list \<Rightarrow> agents_collector \<Rightarrow> agents_collector" where
  "agents_run [] c = c"
| "agents_run ((t, source, hooks) # older) c = snd (agents_collect (agents_run older c) source hooks t)"

definition from_scan :: "u32 \<Rightarrow> string \<Rightarrow> scan list \<Rightarrow> agent_state list \<Rightarrow> u64 \<Rightarrow> bool" where
  "from_scan uid home scans states t \<longleftrightarrow> (\<exists>records hooks. (t, Some records, hooks) \<in> set scans
     \<and> states = classify_activity records uid home hooks)"

lemma agents_run_cache:
  "agc_uid (agents_run scans (agents_new uid home)) = uid
   \<and> agc_home (agents_run scans (agents_new uid home)) = home
   \<and> (\<forall>v t. sch_sample (agc_presence (agents_run scans (agents_new uid home))) = Some (v, t)
        \<longrightarrow> from_scan uid home scans v t)"
proof (induction scans)
  case Nil
  then show ?case by (simp add: agents_new_def cache_new_def)
next
  case (Cons x older)
  obtain t source hooks where x: "x = (t, source, hooks)" by (cases x)
  from Cons show ?case
    by (fastforce simp: x agents_collect_def Let_def refresh_with_sample from_scan_def
        split: option.splits if_splits)
qed

definition agents_reading_ok :: "agents_reading \<Rightarrow> bool" where
  "agents_reading_ok r \<longleftrightarrow> length (ard_states r) = 5"

definition presence_ok :: "agents_collector \<Rightarrow> bool" where
  "presence_ok c \<longleftrightarrow> (\<forall>v t. sch_sample (agc_presence c) = Some (v, t) \<longrightarrow> length v = 5)"

lemma agents_collect_value:
  "ms_value (fst (agents_collect c source hooks t)) = Some r \<Longrightarrow>
   \<exists>s. sch_sample (agc_presence (snd (agents_collect c source hooks t))) = Some (ard_states r, s)
     \<and> unat (ard_age_ms r) = min (unat t - unat s) (2 ^ 32 - 1)
     \<and> (sch_failing_since_ms (agc_presence (snd (agents_collect c source hooks t))) \<noteq> None
          \<longrightarrow> unat t - unat s < 15000)"
  by (auto simp: agents_collect_def Let_def cache_get_Some unat_wire_age unat_sat_sub RETAIN_MS_def
      word_le_nat_alt not_le split: option.splits if_splits)

interpretation agtc: collector "\<lambda>s (source, hooks) t. agents_collect s source hooks t" agents_on_wake
    presence_ok "\<lambda>_. True" agents_reading_ok
proof
  show "ms_wf (fst ((\<lambda>(source, hooks) t. agents_collect s source hooks t) i t))" for s i t
    by (auto simp: agents_collect_def Let_def split: option.splits prod.splits)
  have keeps: "presence_ok (snd (agents_collect s source hooks t))" if "presence_ok s" for s source hooks t
    using that classify_activity_nth(1)
    by (auto simp: presence_ok_def agents_collect_def Let_def refresh_with_sample split: option.splits if_splits)
  show "presence_ok (snd ((\<lambda>(source, hooks) t. agents_collect s source hooks t) i t))"
    if "presence_ok s" for s i t
    using keeps [OF that] by (cases i) simp
  show "agents_reading_ok v"
    if "presence_ok s" "ms_value (fst ((\<lambda>(source, hooks) t. agents_collect s source hooks t) i t)) = Some v" for s i t v
    using that keeps agents_collect_value
    by (cases i) (fastforce simp: presence_ok_def agents_reading_ok_def)
  show "presence_ok (agents_on_wake s)" if "presence_ok s" for s
    using that by (simp add: presence_ok_def agents_on_wake_def)
qed

text \<open>
  A presence shown is a real one of known age. Whatever scans have succeeded or failed
  before, the states the agents collector reports are the classification of one of the listings
  it was given, the reported age is the time since that listing (up to the field's maximum), and
  once the scans fail no state older than fifteen seconds is reported.
\<close>

theorem presence_is_real:
  assumes "ms_value (fst (agents_collect (agents_run scans (agents_new uid home)) source hooks now)) = Some r"
  shows "\<exists>t. from_scan uid home ((now, source, hooks) # scans) (ard_states r) t
     \<and> unat (ard_age_ms r) = min (unat now - unat t) (2 ^ 32 - 1)
     \<and> (sch_failing_since_ms (agc_presence (agents_run ((now, source, hooks) # scans) (agents_new uid home))) \<noteq> None
          \<longrightarrow> unat now - unat t < 15000)"
  using agents_collect_value [OF assms] agents_run_cache [of "(now, source, hooks) # scans" uid home]
  by auto

theorem presence_is_real_witness:
  "\<exists>t. from_scan 501 ''/Users/ann'' [(1000, None, []), (0, Some [], [])] (replicate 5 NotRunning) t"
proof -
  have classified: "classify_activity [] 501 ''/Users/ann'' [] = replicate 5 NotRunning"
    by (simp add: classify_activity_def classify_def AGENTS_def AGENT_COUNT_def numeral_eq_Suc)
  have "ms_value (fst (agents_collect (agents_run [(0, Some [], [])] (agents_new 501 ''/Users/ann'')) None [] 1000))
      = Some \<lparr>ard_states = replicate 5 NotRunning, ard_age_ms = 1000\<rparr>"
    by (simp add: agents_collect_def agents_new_def Let_def refresh_with_def begin_refresh_def cache_new_def
        succeed_def cache_get_def sat_add_def sat_sub_def REFRESH_MS_def RETAIN_MS_def wire_age_ms_def
        classified min_def)
  from presence_is_real [OF this] show ?thesis by auto
qed

end
