(* ===== verification/Battery_Runs.thy ===== *)
theory Battery_Runs
  imports Collectors_Correct
begin

text \<open>
  The battery collector as a state machine: its calls, the wakes, and the ends of the profiler
  threads, in any order. The collector's two locked sections within one call are one step here,
  because a thread that ends between them either is the current one, and then its answer waits
  for the next call as it does after the call, or is an abandoned one, and changes nothing.
\<close>

section \<open>Steps\<close>

text \<open>The log holds the answers that arrived while their run was the current one.\<close>

type_synonym answer = "(u64 \<times> u64) \<times> profile_result"

inductive battery_reach :: "nat \<Rightarrow> answer list \<Rightarrow> battery_collector \<Rightarrow> bool" where
  start: "battery_reach 0 [] battery_new"
| call: "battery_reach n log c \<Longrightarrow>
    battery_reach (Suc n) log (snd (battery_collect c power_source probe spawned now))"
| finish: "battery_reach n log c \<Longrightarrow> thread \<in> set (bac_threads c) \<Longrightarrow>
    battery_reach (Suc n)
      (if sl_generation (bac_slot c) = fst thread then (thread, result) # log else log)
      (finish_run thread result c)"
| wake: "battery_reach n log c \<Longrightarrow> battery_reach (Suc n) log (battery_on_wake c)"

definition current :: "battery_collector \<Rightarrow> (u64 \<times> u64) list" where
  "current c = filter (\<lambda>th. fst th = sl_generation (bac_slot c)) (bac_threads c)"

definition slot_ok :: "answer list \<Rightarrow> battery_collector \<Rightarrow> bool" where
  "slot_ok log c \<longleftrightarrow>
     (case sl_started_ms (bac_slot c) of
        None \<Rightarrow> sl_done (bac_slot c) = None \<and> current c = []
      | Some s \<Rightarrow>
          (case sl_done (bac_slot c) of
             None \<Rightarrow> current c = [(sl_generation (bac_slot c), s)]
           | Some (t, r) \<Rightarrow> t = s \<and> current c = [] \<and> ((sl_generation (bac_slot c), s), r) \<in> set log))"

definition condition_ok :: "answer list \<Rightarrow> battery_collector \<Rightarrow> bool" where
  "condition_ok log c \<longleftrightarrow>
     (case bac_condition c of
        CcNone \<Rightarrow> True
      | CcAbsent \<Rightarrow> \<exists>th. (th, Inr NoBattery) \<in> set log
      | CcSample v t \<Rightarrow> \<exists>g. ((g, t), Inr (Battery v)) \<in> set log)"

definition generations_ok :: "nat \<Rightarrow> battery_collector \<Rightarrow> bool" where
  "generations_ok n c \<longleftrightarrow> unat (sl_generation (bac_slot c)) \<le> n
     \<and> (\<forall>th \<in> set (bac_threads c). unat (fst th) \<le> unat (sl_generation (bac_slot c)))"

definition battery_inv :: "nat \<Rightarrow> answer list \<Rightarrow> battery_collector \<Rightarrow> bool" where
  "battery_inv n log c \<longleftrightarrow> slot_ok log c \<and> condition_ok log c \<and> generations_ok n c"

lemmas battery_inv_defs = battery_inv_def slot_ok_def condition_ok_def generations_ok_def current_def

section \<open>Each step keeps the invariant\<close>

lemma charge_collect_keeps:
  "bac_slot (snd (charge_collect c ps probe now)) = bac_slot c
   \<and> bac_threads (snd (charge_collect c ps probe now)) = bac_threads c
   \<and> bac_condition (snd (charge_collect c ps probe now)) = bac_condition c"
  by (auto simp: charge_collect_def Let_def split: prod.split charge_probe.split)

lemma inv_fields:
  assumes "bac_slot d = bac_slot c" and "current d = current c"
    and "set (bac_threads d) \<subseteq> set (bac_threads c)" and "bac_condition d = bac_condition c"
    and "battery_inv n log c"
  shows "battery_inv n log d"
proof -
  have "slot_ok log d" "condition_ok log d"
    using assms(5) unfolding battery_inv_def slot_ok_def condition_ok_def assms(1,2,4) by blast+
  moreover have "generations_ok n d"
    using assms(3,5) unfolding battery_inv_def generations_ok_def assms(1) by blast
  ultimately show ?thesis by (simp add: battery_inv_def)
qed

lemma inv_charge: "battery_inv n log c \<Longrightarrow> battery_inv n log (snd (charge_collect c ps probe now))"
  using inv_fields [of _ c] charge_collect_keeps [of c ps probe now] unfolding current_def by auto

lemma inv_mono: "battery_inv n log c \<Longrightarrow> n \<le> m \<Longrightarrow> battery_inv m log c"
  by (auto simp: battery_inv_defs)

lemma inv_apply:
  assumes inv: "battery_inv n log c" and n: "Suc n < 2 ^ 64"
  shows "battery_inv (Suc n) log (apply_finished now c)"
proof (cases "sl_done (bac_slot c)")
  case (Some d)
  obtain s r where d: "d = (s, r)" by (cases d)
  have st: "sl_started_ms (bac_slot c) = Some s" "current c = []"
    "((sl_generation (bac_slot c), s), r) \<in> set log"
    using inv Some d by (auto simp: battery_inv_defs split: option.splits)
  have slot: "bac_slot (apply_finished now c) = (bac_slot c)\<lparr>sl_done := None, sl_started_ms := None\<rparr>"
    "bac_threads (apply_finished now c) = bac_threads c"
    using Some d by (auto simp: apply_finished_def Let_def split: sum.split power_profile.split)
  have "condition_ok log (apply_finished now c)"
    using inv Some d st(3) unfolding battery_inv_def condition_ok_def
    by (cases r) (auto simp: apply_finished_def Let_def split: power_profile.split condition_cache.splits)
  then show ?thesis
    using inv slot st(2) by (auto simp: battery_inv_defs)
next
  case None
  show ?thesis
  proof (cases "case sl_started_ms (bac_slot c) of None \<Rightarrow> False | Some s \<Rightarrow> CONDITION_ABANDON_MS < sat_sub now s")
    case True
    let ?g = "sl_generation (bac_slot c)"
    have g: "unat ?g \<le> n" "\<forall>th \<in> set (bac_threads c). unat (fst th) \<le> unat ?g"
      using inv by (auto simp: battery_inv_defs)
    have next_g: "unat (?g + 1) = Suc (unat ?g)"
      using g(1) n by (simp add: unat_word_ariths)
    have slot: "bac_slot (apply_finished now c)
        = (bac_slot c)\<lparr>sl_done := None, sl_started_ms := None, sl_generation := ?g + 1\<rparr>"
      "bac_threads (apply_finished now c) = bac_threads c"
      "bac_condition (apply_finished now c) = bac_condition c"
      using None True by (simp_all add: apply_finished_def Let_def)
    have "fst th \<noteq> ?g + 1" if "th \<in> set (bac_threads c)" for th
      using g(2) that next_g by force
    then have "filter (\<lambda>th. fst th = ?g + 1) (bac_threads c) = []"
      by (simp add: filter_empty_conv)
    moreover have "generations_ok (Suc n) (apply_finished now c)"
      using g next_g slot by (fastforce simp: generations_ok_def)
    ultimately show ?thesis
      using inv slot by (simp add: battery_inv_defs)
  next
    case False
    then have "apply_finished now c = c"
      using None by (simp add: apply_finished_def Let_def)
    then show ?thesis
      using inv_mono [OF inv] by simp
  qed
qed

lemma inv_start:
  assumes "battery_inv n log c"
  shows "battery_inv n log (start_run_if_due spawned now c)"
proof (cases "bac_next_condition_ms c \<le> now \<and> sl_started_ms (bac_slot c) = None")
  case True
  then have "sl_done (bac_slot c) = None" "current c = []"
    using assms by (auto simp: battery_inv_defs)
  with True assms show ?thesis
    by (auto simp: start_run_if_due_def battery_inv_defs)
next
  case False
  then have "start_run_if_due spawned now c = c"
    by (auto simp: start_run_if_due_def)
  then show ?thesis using assms by simp
qed

lemma inv_collect:
  assumes "battery_inv n log c" and "Suc n < 2 ^ 64"
  shows "battery_inv (Suc n) log (snd (battery_collect c ps probe spawned now))"
proof -
  let ?c = "snd (charge_collect c ps probe now)"
  have "snd (battery_collect c ps probe spawned now)
      = start_run_if_due spawned now (apply_finished now ?c)"
    by (simp add: battery_collect_def condition_collect_def Let_def split: prod.split)
  then show ?thesis
    using inv_start [OF inv_apply [OF inv_charge [OF assms(1)] assms(2)]] by simp
qed

lemma filter_remove1_other:
  "\<not> P x \<Longrightarrow> filter P (remove1 x xs) = filter P xs"
  by (induction xs) auto

lemma inv_finish:
  assumes inv: "battery_inv n log c" and th: "th \<in> set (bac_threads c)"
  shows "battery_inv n (if sl_generation (bac_slot c) = fst th then (th, r) # log else log) (finish_run th r c)"
proof (cases "sl_generation (bac_slot c) = fst th")
  case True
  then have mem: "th \<in> set (current c)"
    using th by (simp add: current_def)
  then obtain s where s: "sl_started_ms (bac_slot c) = Some s" "sl_done (bac_slot c) = None"
      "current c = [(sl_generation (bac_slot c), s)]"
    using inv by (auto simp: battery_inv_def slot_ok_def split: option.splits)
  then have t: "th = (sl_generation (bac_slot c), s)"
    using mem by simp
  have "filter (\<lambda>x. fst x = sl_generation (bac_slot c)) (remove1 th (bac_threads c)) = []"
    using s(3) t by (simp add: filter_remove1 current_def)
  then have "slot_ok ((th, r) # log) (finish_run th r c)"
    using s(1) t by (simp add: slot_ok_def current_def finish_run_def Let_def)
  moreover have "condition_ok ((th, r) # log) (finish_run th r c)"
    using inv unfolding battery_inv_def condition_ok_def
    by (cases "bac_condition c") (auto simp: finish_run_def Let_def)
  moreover have "generations_ok n (finish_run th r c)"
    using inv True set_remove1_subset [of th "bac_threads c"]
    by (auto simp: battery_inv_def generations_ok_def finish_run_def Let_def)
  ultimately show ?thesis
    using True by (simp add: battery_inv_def)
next
  case False
  then have "filter (\<lambda>x. fst x = sl_generation (bac_slot c)) (remove1 th (bac_threads c)) = current c"
    by (auto simp: current_def intro: filter_remove1_other)
  then have "battery_inv n log (finish_run th r c)"
    using inv False set_remove1_subset [of th "bac_threads c"]
    by (intro inv_fields [of "finish_run th r c" c]) (simp_all add: finish_run_def Let_def current_def)
  with False show ?thesis by simp
qed

lemma battery_reach_inv: "battery_reach n log c \<Longrightarrow> n < 2 ^ 64 \<Longrightarrow> battery_inv n log c"
proof (induction rule: battery_reach.induct)
  case start
  then show ?case by (simp add: battery_new_def battery_inv_defs)
next
  case (call n log c)
  then show ?case by (intro inv_collect) simp_all
next
  case (finish n log c thread result)
  then have "battery_inv n log c" by simp
  from inv_mono [OF inv_finish [OF this finish.hyps(2)]] show ?case by simp
next
  case (wake n log c)
  then have "battery_inv n log (battery_on_wake c)"
    by (intro inv_fields [of "battery_on_wake c" c]) (simp_all add: battery_on_wake_def current_def)
  then show ?case
    by (rule inv_mono) simp
qed

section \<open>Properties\<close>

lemma unat_battery_age: "unat (battery_age now t) = min (unat now - unat t) (2 ^ 32 - 1)"
proof -
  have "unat (min (sat_sub now t) 0xffffffff) = min (unat now - unat t) (2 ^ 32 - 1)"
    by (simp add: unat_min unat_sat_sub)
  then show ?thesis
    unfolding battery_age_def by (simp add: unsigned_ucast_eq take_bit_nat_eq_self)
qed

lemma condition_collect_value:
  assumes "battery_inv n log c" and "Suc n < 2 ^ 64"
    and "ms_value (fst (fst (condition_collect c spawned now))) = Some v"
  shows "\<exists>g t. ((g, t), Inr (Battery v)) \<in> set log
    \<and> unat (snd (fst (condition_collect c spawned now))) = min (unat now - unat t) (2 ^ 32 - 1)"
proof -
  let ?c = "start_run_if_due spawned now (apply_finished now c)"
  obtain t where t: "bac_condition ?c = CcSample v t"
    "snd (fst (condition_collect c spawned now)) = battery_age now t"
    using assms(3) by (auto simp: condition_collect_def Let_def split: condition_cache.splits)
  have "condition_ok log ?c"
    using inv_start [OF inv_apply [OF assms(1,2)]] by (simp add: battery_inv_def)
  then show ?thesis
    using t unat_battery_age by (auto simp: condition_ok_def)
qed

text \<open>
  C32. The profiler runs one at a time and only its own answers count. In any interleaving of
  fewer than \<open>2^64\<close> calls, wakes and thread ends: at most one unfinished thread is the current run,
  none is while the slot is free, and a battery condition is only ever reported when a
  thread answered with it while it was the current run, at the age since that run was started;
  the late answer of an abandoned run is never seen.
\<close>

theorem profiler_answers_are_current:
  assumes "battery_reach n log c" and "Suc n < 2 ^ 64"
  shows "length (current c) \<le> 1 \<and> (sl_started_ms (bac_slot c) = None \<longrightarrow> current c = [])
    \<and> (\<forall>ps probe spawned now r v.
         ms_value (fst (battery_collect c ps probe spawned now)) = Some r \<and> ms_value (brd_condition r) = Some v \<longrightarrow>
         (\<exists>g t. ((g, t), Inr (Battery v)) \<in> set log
            \<and> unat (brd_condition_age_ms r) = min (unat now - unat t) (2 ^ 32 - 1)))"
proof (intro conjI allI impI)
  have inv: "battery_inv n log c"
    using battery_reach_inv [OF assms(1)] assms(2) by simp
  then show "length (current c) \<le> 1" and "sl_started_ms (bac_slot c) = None \<Longrightarrow> current c = []"
    by (auto simp: battery_inv_def slot_ok_def split: option.splits)
  fix ps probe spawned now r v
  assume r: "ms_value (fst (battery_collect c ps probe spawned now)) = Some r \<and> ms_value (brd_condition r) = Some v"
  let ?c = "snd (charge_collect c ps probe now)"
  have eq: "brd_condition r = fst (fst (condition_collect ?c spawned now))"
    "brd_condition_age_ms r = snd (fst (condition_collect ?c spawned now))"
    using r by (auto simp: battery_collect_def Let_def split: prod.splits)
  show "\<exists>g t. ((g, t), Inr (Battery v)) \<in> set log
            \<and> unat (brd_condition_age_ms r) = min (unat now - unat t) (2 ^ 32 - 1)"
    using condition_collect_value [OF inv_charge [OF inv] assms(2)] r unfolding eq by blast
qed

definition sample_condition :: battery_condition_reading where
  "sample_condition = \<lparr>bco_max_capacity_per_mille = Some 910, bco_condition = BcNormal, bco_cycle_count = Some 312\<rparr>"

definition sample_started :: battery_collector where
  "sample_started = snd (battery_collect battery_new None ProbeFailed True 0)"

lemma sample_started_slot:
  "bac_slot sample_started = \<lparr>sl_generation = 0, sl_started_ms = Some 0, sl_done = None\<rparr>"
  "bac_threads sample_started = [(0, 0)]"
  by (simp_all add: sample_started_def battery_collect_def charge_collect_def condition_collect_def
      battery_new_def Let_def begin_refresh_def cache_new_def apply_finished_def start_run_if_due_def
      fail_def cache_get_def split: prod.split)

theorem profiler_answers_are_current_witness:
  "length (current (finish_run (0, 0) (Inr (Battery sample_condition)) sample_started)) \<le> 1
   \<and> bac_threads sample_started = [(0, 0)]"
proof -
  have "battery_reach 1 [] sample_started"
    unfolding sample_started_def One_nat_def by (intro battery_reach.intros)
  then have reach: "battery_reach (Suc 1) [((0, 0), Inr (Battery sample_condition))]
      (finish_run (0, 0) (Inr (Battery sample_condition)) sample_started)"
    using battery_reach.finish [of 1 "[]" sample_started "(0, 0)" "Inr (Battery sample_condition)"]
    by (simp add: sample_started_slot)
  from profiler_answers_are_current [OF this] show ?thesis
    by (simp add: sample_started_slot)
qed

text \<open>
  A hung profiler is given up and retried. When the current run has not answered for more
  than fifteen seconds, the next call frees the slot and counts a timeout without waiting for
  the thread; a call at least five minutes later starts a new run in a new generation (if the thread
  can be created), so whatever the old thread answers then is dropped.
\<close>

theorem hung_profiler_is_retried:
  assumes "sl_started_ms (bac_slot c) = Some s" and "sl_done (bac_slot c) = None"
    and "15000 < unat now - unat s" and "unat now + 300000 < 2 ^ 64"
    and "unat now + 300000 \<le> unat later"
    and "c1 = snd (condition_collect c spawned now)" and "c2 = snd (condition_collect c1 True later)"
  shows "sl_started_ms (bac_slot c1) = None \<and> bac_condition_failure c1 = Some PfTimeout
    \<and> bac_condition c1 = bac_condition c
    \<and> sl_started_ms (bac_slot c2) = Some later
    \<and> sl_generation (bac_slot c2) = sl_generation (bac_slot c) + 1
    \<and> (sl_generation (bac_slot c) + 1, later) \<in> set (bac_threads c2)
    \<and> bac_slot (finish_run (sl_generation (bac_slot c), s) r c2) = bac_slot c2"
proof -
  have late: "CONDITION_ABANDON_MS < sat_sub now s"
    using assms(3) by (simp add: word_less_nat_alt unat_sat_sub CONDITION_ABANDON_MS_def)
  have retry: "unat (sat_add now CONDITION_RETRY_MS) = unat now + 300000"
    using assms(4) by (simp add: unat_sat_add CONDITION_RETRY_MS_def)
  let ?a = "apply_finished now c"
  have a: "sl_started_ms (bac_slot ?a) = None" "sl_done (bac_slot ?a) = None"
    "sl_generation (bac_slot ?a) = sl_generation (bac_slot c) + 1"
    "bac_next_condition_ms ?a = sat_add now CONDITION_RETRY_MS"
    "bac_condition_failure ?a = Some PfTimeout" "bac_condition ?a = bac_condition c"
    using assms(1,2) late by (simp_all add: apply_finished_def Let_def)
  have "now < sat_add now CONDITION_RETRY_MS"
    using retry by (simp add: word_less_nat_alt)
  then have "start_run_if_due spawned now ?a = ?a"
    using a(4) by (simp add: start_run_if_due_def)
  then have c1: "c1 = ?a"
    using assms(6) by (simp add: condition_collect_def Let_def)
  have idle: "apply_finished later c1 = c1"
    using a(1,2) unfolding c1 by (simp add: apply_finished_def Let_def)
  have "\<not> later < sat_add now CONDITION_RETRY_MS"
    using retry assms(5) by (simp add: word_less_nat_alt)
  then have c2: "c2 = c1\<lparr>bac_slot := (bac_slot c1)\<lparr>sl_started_ms := Some later\<rparr>,
      bac_threads := (sl_generation (bac_slot c1), later) # bac_threads c1\<rparr>"
    using assms(7) a(1,4) idle unfolding c1
    by (simp add: condition_collect_def Let_def start_run_if_due_def)
  show ?thesis
    using a c2 unfolding c1 by (simp add: finish_run_def Let_def)
qed

theorem hung_profiler_is_retried_witness:
  "sl_started_ms (bac_slot (snd (condition_collect (snd (condition_collect sample_started False 20000)) True 400000)))
     = Some 400000"
  using hung_profiler_is_retried [OF _ _ _ _ _ refl refl, of sample_started 0 20000 400000 False undefined]
  by (simp add: sample_started_slot)

text \<open>
  Plugging and unplugging show at once. When the providing power source differs from the one
  of the last probe, the charge is read on this very call, whatever its cache says: a battery's
  reading is reported with age zero, and a host that turns out to have no battery is reported
  absent, never as an empty one.
\<close>

theorem power_change_is_read_at_once:
  assumes "bac_charge_power_source c = Some before" and "before \<noteq> power_source"
  shows "fst (charge_collect c power_source (ProbeBattery r) now) = (ms_available r, 0)
    \<and> fst (charge_collect c power_source ProbeNoBattery now) = (ms_unavailable MAbsent, 0)
    \<and> (\<forall>probe. bac_charge_power_source (snd (charge_collect c power_source probe now)) = Some power_source)"
proof -
  have due: "begin_refresh now (expire (bac_charge c))
      = (True, snd (begin_refresh now (expire (bac_charge c))))"
    by (metis expire_simps(2) prod.collapse)
  then obtain cache where cache: "begin_refresh now (expire (bac_charge c)) = (True, cache)" by blast
  have "sat_sub now now = 0"
    by (simp add: sat_sub_def)
  then show ?thesis
    using assms cache
    by (auto simp: charge_collect_def succeed_def cache_clear_def cache_get_def wire_age_ms_def Let_def
        split: charge_probe.split option.split)
qed

theorem power_change_is_read_at_once_witness:
  "fst (charge_collect (battery_new\<lparr>bac_charge_power_source := Some (Some ''AC Power'')\<rparr>) (Some ''Battery Power'')
     ProbeNoBattery 0) = (ms_unavailable MAbsent, 0)"
  using power_change_is_read_at_once [of "battery_new\<lparr>bac_charge_power_source := Some (Some ''AC Power'')\<rparr>"
      "Some ''AC Power''" "Some ''Battery Power''" undefined 0]
  by simp

end
