(* ===== verification/Metric_Groups.thy ===== *)
theory Metric_Groups
  imports Codec_Correct Network_Correct Battery_Runs
begin

text \<open>
  The metric groups of \<^verbatim>\<open>host/hostcore/src/groups\<close>, which turn one second of each collector
  into its wire group, and \<open>Collectors\<close> of \<^verbatim>\<open>link.rs\<close>, which runs them all. The text of the log
  lines (floating-point formatting) is not modelled; the report keeps the rest.
\<close>

section \<open>The report and the availabilities\<close>

record report =
  rpt_availability :: "(string \<times> availability) list"
  rpt_cpu_per_mille :: "u16 option"
  rpt_ram_bytes :: "(u64 \<times> u64) option"

definition report_default :: report where
  "report_default = \<lparr>rpt_availability = [], rpt_cpu_per_mille = None, rpt_ram_bytes = None\<rparr>"

definition report_status :: "string \<Rightarrow> availability \<Rightarrow> report \<Rightarrow> report" where
  "report_status name a r = r\<lparr>rpt_availability := rpt_availability r @ [(name, a)]\<rparr>"

definition report_set_cpu :: "u16 option \<Rightarrow> report \<Rightarrow> report" where
  "report_set_cpu v r = r\<lparr>rpt_cpu_per_mille := v\<rparr>"

definition report_set_ram :: "(u64 \<times> u64) option \<Rightarrow> report \<Rightarrow> report" where
  "report_set_ram v r = r\<lparr>rpt_ram_bytes := v\<rparr>"

fun wire_availability :: "metric_availability \<Rightarrow> availability" where
  "wire_availability MAvailable = Available"
| "wire_availability MUnsupported = Unsupported"
| "wire_availability MAbsent = Absent"
| "wire_availability MTemporarilyUnavailable = TemporarilyUnavailable"
| "wire_availability MError = AvError"

definition without_value :: "metric_availability \<Rightarrow> availability" where
  "without_value a = (if wire_availability a = Available then AvError else wire_availability a)"

definition worst :: "availability \<Rightarrow> availability \<Rightarrow> availability" where
  "worst a b = (if a = Available then b else a)"

section \<open>The wire groups\<close>

definition cpu_wire :: "u16 metric_sample \<Rightarrow> cpu_snapshot" where
  "cpu_wire sample = \<lparr>
     cpu_availability = wire_availability (ms_availability sample),
     cpu_utilization_per_mille = (case ms_value sample of None \<Rightarrow> 0 | Some v \<Rightarrow> v),
     cpu_source_age_ms = 0, cpu_freshness = Fresh, cpu_configuration_revision = 0\<rparr>"

definition ram_wire_group :: "ram_reading metric_sample \<Rightarrow> ram_snapshot" where
  "ram_wire_group sample = \<lparr>
     ram_availability = wire_availability (ms_availability sample),
     ram_used_bytes = (case ms_value sample of None \<Rightarrow> 0 | Some r \<Rightarrow> rrd_used_bytes r),
     ram_total_bytes = (case ms_value sample of None \<Rightarrow> 0 | Some r \<Rightarrow> rrd_total_bytes r),
     ram_source_age_ms = 0, ram_freshness = Fresh\<rparr>"

definition option_filter :: "('a \<Rightarrow> bool) \<Rightarrow> 'a option \<Rightarrow> 'a option" where
  "option_filter f v = (case v of None \<Rightarrow> None | Some x \<Rightarrow> if f x then Some x else None)"

definition storage_snapshot_of :: "storage_reading option \<Rightarrow> storage_snapshot option" where
  "storage_snapshot_of reading = map_option (\<lambda>reading.
     let capacity = option_filter (\<lambda>c. cap_available_bytes c \<le> cap_total_bytes c)
           (ms_value (srd_capacity reading));
         io = ms_value (srd_io reading)
     in \<lparr>sto_capacity_availability = (case capacity of
             Some _ \<Rightarrow> Available | None \<Rightarrow> without_value (ms_availability (srd_capacity reading))),
         sto_total_bytes = (case capacity of None \<Rightarrow> 0 | Some c \<Rightarrow> cap_total_bytes c),
         sto_available_bytes = (case capacity of None \<Rightarrow> 0 | Some c \<Rightarrow> cap_available_bytes c),
         sto_capacity_age_ms = (if capacity \<noteq> None then srd_capacity_age_ms reading else 0),
         sto_io_availability = wire_availability (ms_availability (srd_io reading)),
         sto_read_bytes_per_s = (case io of None \<Rightarrow> 0 | Some r \<Rightarrow> dr_read_bytes_per_s r),
         sto_write_bytes_per_s = (case io of None \<Rightarrow> 0 | Some r \<Rightarrow> dr_write_bytes_per_s r),
         sto_io_age_ms = 0\<rparr>) reading"

definition battery_snapshot_of :: "battery_reading option \<Rightarrow> battery_snapshot option" where
  "battery_snapshot_of reading = map_option (\<lambda>reading.
     let charge = ms_value (brd_charge reading); condition = ms_value (brd_condition reading)
     in \<lparr>bat_charge_availability = (if charge \<noteq> None then Available
           else without_value (ms_availability (brd_charge reading))),
         bat_charge_per_mille = (case charge of None \<Rightarrow> 0 | Some c \<Rightarrow> min (bcr_per_mille c) 1000),
         bat_state = (case charge of None \<Rightarrow> 0 | Some c \<Rightarrow> battery_state_num (bcr_state c)),
         bat_time_remaining_min = (case Option.bind charge bcr_time_remaining_min of
             None \<Rightarrow> BATTERY_UNKNOWN_U16 | Some m \<Rightarrow> m),
         bat_charge_age_ms = (if charge \<noteq> None then brd_charge_age_ms reading else 0),
         bat_condition_availability = (if condition \<noteq> None then Available
           else without_value (ms_availability (brd_condition reading))),
         bat_max_capacity_per_mille = (case Option.bind condition bco_max_capacity_per_mille of
             None \<Rightarrow> 0 | Some c \<Rightarrow> c),
         bat_condition = (case condition of None \<Rightarrow> 0 | Some c \<Rightarrow> battery_condition_num (bco_condition c)),
         bat_cycle_count = (case Option.bind condition bco_cycle_count of
             None \<Rightarrow> BATTERY_UNKNOWN_U16 | Some n \<Rightarrow> n),
         bat_condition_age_ms = (if condition \<noteq> None then brd_condition_age_ms reading else 0)\<rparr>) reading"

definition agents_snapshot_of :: "agents_reading metric_sample \<Rightarrow> agents_snapshot" where
  "agents_snapshot_of sample =
     (case ms_value sample of
        Some reading \<Rightarrow> \<lparr>agt_availability = Available, agt_source_age_ms = ard_age_ms reading,
          agt_state = map agent_state_num (ard_states reading)\<rparr>
      | None \<Rightarrow> \<lparr>agt_availability = without_value (ms_availability sample), agt_source_age_ms = 0,
          agt_state = replicate AGENT_SLOTS 0\<rparr>)"

fun wire_route :: "net_route \<Rightarrow> route_kind" where
  "wire_route NrUnknown = RouteUnknown"
| "wire_route NrWifi = RouteWifi"
| "wire_route NrEthernet = RouteEthernet"
| "wire_route NrOther = RouteOther"
| "wire_route NrNone = RouteNone"

fun wire_context :: "context_availability \<Rightarrow> association_context" where
  "wire_context CaAvailable = CtxAvailable"
| "wire_context CaPermissionNotRequested = CtxPermissionNotRequested"
| "wire_context CaDenied = CtxDenied"
| "wire_context CaRestricted = CtxRestricted"
| "wire_context CaAuthorizedUnavailable = CtxAuthorizedUnavailable"
| "wire_context CaUnsupported = CtxUnsupported"
| "wire_context CaError = CtxError"

fun wire_coverage :: "coverage \<Rightarrow> wifi_coverage" where
  "wire_coverage CoUnknown = CovUnknown"
| "wire_coverage CoObservable = CovObservable"
| "wire_coverage CoOutsideSupported = CovOutsideSupported"

definition network_no_reading :: network_snapshot where
  "network_no_reading = \<lparr>net_traffic_availability = AvError, net_traffic_age_ms = 0,
     net_route_kind = RouteUnknown, net_via_tunnel = False, net_rx_bytes_per_s = 0,
     net_tx_bytes_per_s = 0, net_context_availability = CtxError, net_context_age_ms = 0,
     net_coverage = CovUnknown, net_channel = 0, net_station = None, net_ssid = [],
     net_bssid = None, net_links = None\<rparr>"

definition network_wire :: "network_reading \<Rightarrow> network_snapshot" where
  "network_wire reading =
     (let t = ng_traffic reading; w = ng_wifi reading
      in \<lparr>net_traffic_availability =
             (if th_availability t = MAvailable \<and> th_rate t = None then AvError
              else wire_availability (th_availability t)),
          net_traffic_age_ms = 0,
          net_route_kind = wire_route (th_route_kind t),
          net_via_tunnel = th_via_tunnel t,
          net_rx_bytes_per_s = (case th_rate t of None \<Rightarrow> 0 | Some r \<Rightarrow> nr_rx_bytes_per_s r),
          net_tx_bytes_per_s = (case th_rate t of None \<Rightarrow> 0 | Some r \<Rightarrow> nr_tx_bytes_per_s r),
          net_context_availability = wire_context (wh_availability w),
          net_context_age_ms = wh_age_ms w,
          net_coverage = wire_coverage (wh_coverage w),
          net_channel = wh_channel w,
          net_station = wh_station w, net_ssid = wh_ssid w, net_bssid = wh_bssid w,
          net_links = Some (map wire_route (th_links t))\<rparr>)"

definition network_snapshot_of :: "network_reading option \<Rightarrow> network_snapshot" where
  "network_snapshot_of reading =
     (case reading of
        None \<Rightarrow> network_no_reading
      | Some reading \<Rightarrow>
          let snapshot = network_wire reading
          in if network_is_valid snapshot then snapshot
             else snapshot\<lparr>net_traffic_availability := AvError, net_rx_bytes_per_s := 0,
               net_tx_bytes_per_s := 0, net_via_tunnel := False,
               net_context_availability := CtxError, net_coverage := CovUnknown,
               net_channel := 0, net_ssid := [], net_bssid := None, net_links := None\<rparr>)"

section \<open>One second of every group\<close>

text \<open>The collectors behind the groups (memory keeps no state) and the answers of one second.\<close>

record groups =
  grp_cpu :: cpu_baseline
  grp_storage :: storage_collector
  grp_battery :: battery_collector
  grp_agents :: agents_collector
  grp_network :: samplers

record inputs =
  in_ticks :: "cpu_ticks option"
  in_memory :: "(u64 \<times> u64) option"
  in_capacity :: "storage_capacity_reading option"
  in_disks :: "(string \<times> disk_counters) list option"
  in_power_source :: "string option"
  in_charge :: charge_probe
  in_spawned :: bool
  in_processes :: "process_record list option"
  in_hooks :: "hook_record list"
  in_view :: "system_view option"
  in_context :: context_reading

definition groups_new :: "u32 \<Rightarrow> string \<Rightarrow> groups" where
  "groups_new uid home = \<lparr>grp_cpu = None, grp_storage = storage_new, grp_battery = battery_new,
     grp_agents = agents_new uid home, grp_network = Map.empty\<rparr>"

definition cpu_collect_into ::
    "groups \<Rightarrow> inputs \<Rightarrow> u64 \<Rightarrow> snapshot \<times> report \<Rightarrow> (snapshot \<times> report) \<times> groups" where
  "cpu_collect_into g i now_ms sr =
     (let (sample, c) = cpu_collect (grp_cpu g) (in_ticks i) now_ms;
          cpu = cpu_wire sample
      in (((fst sr)\<lparr>snap_cpu := cpu\<rparr>,
           report_set_cpu (ms_value sample) (report_status ''cpu'' (cpu_availability cpu) (snd sr))),
          g\<lparr>grp_cpu := c\<rparr>))"

definition ram_collect_into ::
    "groups \<Rightarrow> inputs \<Rightarrow> u64 \<Rightarrow> snapshot \<times> report \<Rightarrow> (snapshot \<times> report) \<times> groups" where
  "ram_collect_into g i now_ms sr =
     (let sample = ram_collect (in_memory i); ram = ram_wire_group sample
      in (((fst sr)\<lparr>snap_ram := Some ram\<rparr>,
           report_set_ram (map_option (\<lambda>r. (rrd_used_bytes r, rrd_total_bytes r)) (ms_value sample))
             (report_status ''ram'' (ram_availability ram) (snd sr))),
          g))"

definition storage_collect_into ::
    "groups \<Rightarrow> inputs \<Rightarrow> u64 \<Rightarrow> snapshot \<times> report \<Rightarrow> (snapshot \<times> report) \<times> groups" where
  "storage_collect_into g i now_ms sr =
     (let (sample, c) = storage_collect (grp_storage g) (in_capacity i) (in_disks i) now_ms;
          storage = storage_snapshot_of (ms_value sample)
      in (((fst sr)\<lparr>snap_storage := storage\<rparr>,
           case storage of None \<Rightarrow> snd sr
           | Some s \<Rightarrow> report_status ''storage''
               (worst (sto_capacity_availability s) (sto_io_availability s)) (snd sr)),
          g\<lparr>grp_storage := c\<rparr>))"

definition battery_collect_into ::
    "groups \<Rightarrow> inputs \<Rightarrow> u64 \<Rightarrow> snapshot \<times> report \<Rightarrow> (snapshot \<times> report) \<times> groups" where
  "battery_collect_into g i now_ms sr =
     (let (sample, c) = battery_collect (grp_battery g) (in_power_source i) (in_charge i) (in_spawned i) now_ms;
          battery = battery_snapshot_of (ms_value sample)
      in (((fst sr)\<lparr>snap_battery := battery\<rparr>,
           case battery of None \<Rightarrow> snd sr
           | Some b \<Rightarrow> report_status ''battery''
               (worst (bat_charge_availability b) (bat_condition_availability b)) (snd sr)),
          g\<lparr>grp_battery := c\<rparr>))"

definition agents_collect_into ::
    "groups \<Rightarrow> inputs \<Rightarrow> u64 \<Rightarrow> snapshot \<times> report \<Rightarrow> (snapshot \<times> report) \<times> groups" where
  "agents_collect_into g i now_ms sr =
     (let (sample, c) = agents_collect (grp_agents g) (in_processes i) (in_hooks i) now_ms;
          agents = agents_snapshot_of sample
      in (((fst sr)\<lparr>snap_agents := Some agents\<rparr>,
           report_status ''agents'' (agt_availability agents) (snd sr)),
          g\<lparr>grp_agents := c\<rparr>))"

text \<open>The search for the primary route holds an \<open>expect\<close>, so this group alone could panic.\<close>

definition network_collect_into ::
    "groups \<Rightarrow> inputs \<Rightarrow> u64 \<Rightarrow> snapshot \<times> report \<Rightarrow> ((snapshot \<times> report) \<times> groups, unit) res" where
  "network_collect_into g i now_ms sr =
     and_then (net_collect (grp_network g) (in_view i) (in_context i) now_ms) (\<lambda>(sample, c).
       let network = network_snapshot_of (ms_value sample)
       in Ok (((fst sr)\<lparr>snap_network := Some network\<rparr>,
               report_status ''network'' (net_traffic_availability network) (snd sr)),
              g\<lparr>grp_network := c\<rparr>))"

definition groups_collect ::
    "groups \<Rightarrow> inputs \<Rightarrow> u64 \<Rightarrow> ((snapshot \<times> report) \<times> groups, unit) res" where
  "groups_collect g i now_ms =
     (let sr = (snapshot_new \<lparr>cpu_availability = TemporarilyUnavailable, cpu_utilization_per_mille = 0,
                  cpu_source_age_ms = 0, cpu_freshness = Fresh, cpu_configuration_revision = 0\<rparr>,
                report_default);
          (sr, g) = cpu_collect_into g i now_ms sr;
          (sr, g) = ram_collect_into g i now_ms sr;
          (sr, g) = storage_collect_into g i now_ms sr;
          (sr, g) = battery_collect_into g i now_ms sr;
          (sr, g) = agents_collect_into g i now_ms sr
      in network_collect_into g i now_ms sr)"

definition groups_wake :: "groups \<Rightarrow> groups" where
  "groups_wake g = \<lparr>grp_cpu = cpu_on_wake (grp_cpu g), grp_storage = storage_on_wake (grp_storage g),
     grp_battery = battery_on_wake (grp_battery g), grp_agents = agents_on_wake (grp_agents g),
     grp_network = net_on_wake (grp_network g)\<rparr>"

end
