(* ===== verification/Panics.thy ===== *)
theory Panics
  imports Codec_Correct
begin

text \<open>
  When a decoder can panic. The only unchecked sum of the parser is the end of a skipped
  string; without a length of eight bytes (heads \<open>0x5b\<close> and \<open>0x7b\<close>) it cannot wrap, every
  reader moves forward inside the input, and the body's slice is in range.
\<close>

section \<open>Readers move forward\<close>

lemma read_uint_bound:
  assumes "read_uint c p m = Some (v, q)"
  shows "p < q \<and> q \<le> length c"
  using read_uint_Some [OF assms] by blast

lemma rd_bound: "rd c p = Ok (v, q) \<Longrightarrow> p < q \<and> q \<le> length c"
  by (auto simp: rd_def ok_or_eq_Ok dest: read_uint_bound)

text \<open>Inputs that hold no head of an eight-byte string length.\<close>

definition tame :: "bytes \<Rightarrow> bool" where
  "tame c \<longleftrightarrow> 0x5b \<notin> set c \<and> 0x7b \<notin> set c \<and> length c < 2 ^ 32"

lemma tame_read:
  assumes "tame c" and m: "m = 2 \<or> m = 3" and r: "read_uint c p m = Some (v, q)"
  shows "unat v < 2 ^ 32"
proof -
  let ?f = "c ! p"
  have p: "p < length c" and f: "drop_bit 5 ?f = m"
    using r by (auto simp: read_uint_def Let_def split: if_splits)
  then have "?f \<noteq> 0x5b" and "?f \<noteq> 0x7b"
    using assms(1) nth_mem [OF p] by (auto simp: tame_def simp del: nth_mem)
  moreover have "?f = push_bit 5 m OR (?f AND 31)"
    using head_split(1) [of ?f] f by simp
  ultimately have a: "?f AND 31 \<noteq> 27"
    using m by auto
  show ?thesis
  proof (cases "?f AND 31 \<le> 23")
    case True
    then have "v = ucast (?f AND 31)"
      using r p f by (auto simp: read_uint_def Let_def split: if_splits)
    then show ?thesis
      using head_split(3) [of ?f] by (simp add: unat_ucast_up)
  next
    case False
    then obtain n where n: "head_len (?f AND 31) = Some n" and v: "v = be_value (take n (drop (p + 1) c))"
      using r p f by (auto simp: read_uint_def Let_def split: if_splits option.splits)
    then have "n \<le> 4"
      using a by (auto simp: head_len_def split: if_splits)
    then show ?thesis
      using be_value_short [of "take n (drop (p + 1) c)" 4] v by simp
  qed
qed

lemma tame_uadd:
  assumes "tame c" and "m = 2 \<or> m = 3" and "read_uint c p m = Some (v, q)"
  shows "uadd q (unat v) = q + unat v"
proof -
  have "q < 2 ^ 32"
    using read_uint_bound [OF assms(3)] assms(1) by (simp add: tame_def)
  then show ?thesis
    using tame_read [OF assms] by (intro uadd_small) simp
qed

lemma skip_bound:
  "skip_value c p d = Ok q \<Longrightarrow> tame c \<Longrightarrow> p < q \<and> q \<le> length c"
  "skip_values c p d n = Ok q \<Longrightarrow> tame c \<Longrightarrow> p \<le> length c \<Longrightarrow> p \<le> q \<and> q \<le> length c"
proof (induction c p d and c p d n arbitrary: q and q rule: skip_value_skip_values.induct)
  case (1 c p d)
  let ?m = "drop_bit 5 (c ! p)"
  have guards: "\<not> 4 \<le> d" "\<not> length c \<le> p"
    using "1.prems"(1) by (auto simp: skip_value.simps split: if_splits)
  note unfolded = "1.prems"(1) [unfolded skip_value.simps [of c p d] Let_def]
  consider "?m = 0 \<or> ?m = 1" | "?m = 2 \<or> ?m = 3" | "?m = 4 \<or> ?m = 5"
    | "\<not> (?m = 0 \<or> ?m = 1)" "\<not> (?m = 2 \<or> ?m = 3)" "\<not> (?m = 4 \<or> ?m = 5)"
    by blast
  then show ?case
  proof cases
    case 1
    then show ?thesis
      using unfolded guards
      by (auto simp: and_then_eq_Ok ok_or_eq_Ok dest: read_uint_bound split: prod.splits)
  next
    case 2
    then obtain v r where r: "read_uint c p ?m = Some (v, r)"
      and q: "q = uadd r (unat v)" "\<not> length c < uadd r (unat v)"
      using unfolded guards
      by (auto simp: and_then_eq_Ok ok_or_eq_Ok split: prod.splits if_splits)
    then show ?thesis
      using tame_uadd [OF "1.prems"(2) 2 r] read_uint_bound [OF r] by simp
  next
    case 3
    then obtain v r where r: "read_uint c p ?m = Some (v, r)" and le: "\<not> 16 < v"
      and q: "skip_values c r (d + 1) (unat v * (if ?m = 5 then 2 else 1)) = Ok q"
      using unfolded guards
      by (auto simp: and_then_eq_Ok ok_or_eq_Ok split: prod.splits if_splits)
    have "r \<le> q \<and> q \<le> length c"
      using "1.IH" [OF guards refl, of "(v, r)" v r] 3 r le q "1.prems"(2) read_uint_bound [OF r]
      by (auto simp: ok_or_def)
    then show ?thesis
      using read_uint_bound [OF r] by simp
  next
    case 4
    then show ?thesis
      using unfolded guards by simp
  qed
next
  case (2 c p d)
  then show ?case by simp
next
  case (3 c p d n)
  then obtain r where "skip_value c p d = Ok r" "skip_values c r d n = Ok q"
    by (auto simp: and_then_eq_Ok)
  then show ?case
    using 3 by fastforce
qed


lemma skip_members_bound:
  "skip_members c p n = Ok q \<Longrightarrow> tame c \<Longrightarrow> p \<le> length c \<Longrightarrow> p \<le> q \<and> q \<le> length c"
proof (induction n arbitrary: p)
  case 0
  then show ?case by simp
next
  case (Suc n)
  then obtain r where r: "skip_value c p 0 = Ok r"
    by (auto simp: and_then_eq_Ok)
  have pr: "p < r \<and> r \<le> length c"
    using skip_bound(1) [OF r Suc.prems(2)] .
  obtain t where t: "(if r < length c \<and> drop_bit 5 (c ! r) = 5
         then and_then (ok_or (read_uint c r 5) Malformed) (\<lambda>(inner, p).
            if 16 < inner then Err Malformed else skip_values c p 0 (unat inner * 2))
         else skip_value c r 0) = Ok t" and n: "skip_members c t n = Ok q"
    using Suc.prems(1) r by (auto simp only: skip_members.simps and_then.simps and_then_eq_Ok)
  have "r \<le> t \<and> t \<le> length c"
  proof (cases "r < length c \<and> drop_bit 5 (c ! r) = 5")
    case True
    then obtain v u where u: "read_uint c r 5 = Some (v, u)" and s: "skip_values c u 0 (unat v * 2) = Ok t"
      using t by (auto simp: and_then_eq_Ok ok_or_eq_Ok split: prod.splits if_splits)
    then show ?thesis
      using read_uint_bound [OF u] skip_bound(2) [OF s Suc.prems(2)] by simp
  next
    case False
    then show ?thesis
      using t skip_bound(1) [OF _ Suc.prems(2)] by fastforce
  qed
  then show ?case
    using Suc.IH [OF n Suc.prems(2)] pr by simp
qed

lemma skip_body_bound:
  assumes "skip_body c p = Ok q" and "tame c" and "p \<le> length c"
  shows "p \<le> q \<and> q \<le> length c"
proof (cases "p < length c \<and> drop_bit 5 (c ! p) = 5")
  case True
  then obtain v u where u: "read_uint c p 5 = Some (v, u)" and s: "skip_members c u (unat v) = Ok q"
    using assms(1) by (auto simp: skip_body_def and_then_eq_Ok ok_or_eq_Ok split: prod.splits if_splits)
  then show ?thesis
    using read_uint_bound [OF u] skip_members_bound [OF s assms(2)] by simp
next
  case False
  then show ?thesis
    using assms skip_bound(1) [of c p 0 q] by (auto simp: skip_body_def)
qed

section \<open>Functions without a panicking operation\<close>

named_theorems no_panic "calls that cannot panic"

lemma skip_not_Panic [no_panic]: "skip_value c p d \<noteq> Panic" "skip_values c p d n \<noteq> Panic"
proof (induction c p d and c p d n rule: skip_value_skip_values.induct)
  case (1 c p d)
  then show ?case
    by (subst skip_value.simps) (auto simp: and_then_eq_Panic Let_def ok_or_eq_Ok)
qed (auto simp: and_then_eq_Panic)

lemma skip_members_not_Panic [no_panic]: "skip_members c p n \<noteq> Panic"
  by (induction n arbitrary: p) (auto simp: and_then_eq_Panic no_panic)

lemma readers_not_Panic [no_panic]:
  "rd c p \<noteq> Panic" "bytes_dec c p n \<noteq> Panic" "skip_body c p \<noteq> Panic" "try_u8 v \<noteq> Panic"
  "try_u32 v \<noteq> Panic" "message_type v \<noteq> Panic" "availability_from v \<noteq> Panic"
  "freshness_from v \<noteq> Panic" "op v \<noteq> Panic" "result_from v \<noteq> Panic" "known_max k \<noteq> Panic"
  "link_kind w \<noteq> Panic" "mac b \<noteq> Panic"
  by (auto simp: and_then_eq_Panic no_panic rd_def bytes_dec_def skip_body_def try_u8_def try_u32_def
      message_type_def availability_from_def freshness_from_def op_def result_from_def
      known_max_def link_kind_def mac_def)

lemma all_fields_not_Panic [no_panic]: "all_fields vs \<noteq> Panic"
  unfolding all_fields_def by (rule collect_not_Panic) (auto dest: sym)

lemma decode_links_not_Panic [no_panic]: "decode_links l \<noteq> Panic"
proof -
  have "collect (map link_kind k) \<noteq> Panic" for k
    by (rule collect_not_Panic) (use readers_not_Panic(12) in \<open>auto simp: image_iff eq_commute\<close>)
  then show ?thesis
    by (auto simp: decode_links_def and_then_eq_Panic split: option.splits)
qed

lemma group_loop_not_Panic [no_panic]: "group_loop c nf n p value \<noteq> Panic"
  by (induction n arbitrary: p "value") (auto simp: and_then_eq_Panic no_panic Let_def)

lemma group_fields_not_Panic [no_panic]: "group_fields c nf p \<noteq> Panic"
  by (auto simp: group_fields_def and_then_eq_Panic no_panic)

lemma network_loop_not_Panic [no_panic]: "network_loop c n p value strs links \<noteq> Panic"
  by (induction n arbitrary: p "value" strs links) (auto simp: and_then_eq_Panic no_panic Let_def)

lemma groups_not_Panic [no_panic]:
  "decode_ram_group c p \<noteq> Panic" "decode_storage_group c p \<noteq> Panic"
  "decode_battery_group c p \<noteq> Panic" "decode_agents_group c p \<noteq> Panic"
  "decode_network_group c p \<noteq> Panic"
  by (auto simp: and_then_eq_Panic no_panic decode_ram_group_def decode_storage_group_def Let_def
      decode_battery_group_def decode_agents_group_def decode_network_group_def)

lemma body_not_Panic [no_panic]: "body_loop c n p a \<noteq> Panic"
proof (induction n arbitrary: p a)
  case 0
  show ?case by simp
next
  case (Suc n)
  have "body_entry c q p a \<noteq> Panic" for q p a
    by (simp add: body_entry_def and_then_eq_Panic no_panic split: prod.splits)
  then show ?case
    using Suc by (auto simp: and_then_eq_Panic no_panic)
qed

lemma decode_cpu_body_not_Panic [no_panic]: "decode_cpu_body b \<noteq> Panic"
  by (auto simp: decode_cpu_body_def cpu_from_fields_def and_then_eq_Panic no_panic)

lemma control_loop_not_Panic [no_panic]: "control_loop k m c n p prior fl ids \<noteq> Panic"
  by (induction n arbitrary: p prior fl ids) (auto simp: and_then_eq_Panic no_panic)

lemma bodies_not_Panic [no_panic]:
  "hello_from fl \<noteq> Panic" "pair_from fl ids \<noteq> Panic" "command_from fl \<noteq> Panic"
  "command_reply_from fl \<noteq> Panic"
  by (auto simp: hello_from_def pair_from_def command_from_def command_reply_from_def
      and_then_eq_Panic no_panic split: option.splits)

lemma decode_control_body_not_Panic [no_panic]: "decode_control_body k c \<noteq> Panic"
proof (cases "k = MtError")
  case True
  then show ?thesis
    by (auto simp: decode_control_body_def and_then_eq_Panic ok_or_eq_Ok sub_slice_def
        dest: read_uint_bound)
next
  case False
  then show ?thesis
    by (auto simp: decode_control_body_def and_then_eq_Panic no_panic split: message_type.splits)
qed

lemma envelope_from_not_Panic [no_panic]: "envelope_from a \<noteq> Panic"
  by (auto simp: envelope_from_def and_then_eq_Panic no_panic)

lemma frame_content_not_Panic [no_panic]: "frame_content f \<noteq> Panic"
  by (auto simp: frame_content_def Let_def)


section \<open>The envelope\<close>

lemma envelope_entry_not_Panic:
  assumes "tame c" and "p \<le> length c"
  shows "envelope_entry c key p a \<noteq> Panic"
proof -
  have "sub_slice c p q \<noteq> Panic" if "skip_body c p = Ok q" for q
    using skip_body_bound [OF that assms] by (simp add: sub_slice_def)
  then show ?thesis
    by (auto simp: envelope_entry_def and_then_eq_Panic no_panic Let_def split: prod.splits)
qed

lemma envelope_loop_not_Panic: "tame c \<Longrightarrow> envelope_loop c n p previous a \<noteq> Panic"
proof (induction n arbitrary: p previous a)
  case 0
  show ?case by simp
next
  case (Suc n)
  have "envelope_entry c key q a \<noteq> Panic" if "rd c p = Ok (key, q)" for key q
    using rd_bound [OF that] Suc.prems by (intro envelope_entry_not_Panic) simp_all
  then show ?case
    using Suc by (auto simp: and_then_eq_Panic no_panic split: option.splits)
qed

lemma frame_content_facts:
  assumes "frame_content f = Ok c"
  shows "set c \<subseteq> set f" and "length c + 6 = length f" and "length f \<le> 2048"
    and "c = drop 2 (take (length f - 4) f)" and "crc32 c = be_value (drop (length f - 4) f)"
    and "unat (be_value (take 2 f) :: u16) = length c + 4"
proof -
  have long: "\<not> length f < 7"
    using assms by (auto simp: frame_content_def)
  note unfolded = assms [unfolded frame_content_def Let_def if_not_P [OF long]]
  have len: "unat (be_value (take 2 f) :: u16) \<le> 2046"
    and eq: "unat (be_value (take 2 f) :: u16) + 2 = length f"
    using unfolded by (simp_all add: MAX_FRAME_BYTES_def split: if_splits)
  show c: "c = drop 2 (take (length f - 4) f)" and "crc32 c = be_value (drop (length f - 4) f)"
    using unfolded by (simp_all split: if_splits)
  show "set c \<subseteq> set f"
    unfolding c by (meson in_set_dropD in_set_takeD subsetI)
  show lc: "length c + 6 = length f"
    unfolding c using long by simp
  show "length f \<le> 2048" and "unat (be_value (take 2 f) :: u16) = length c + 4"
    using len eq lc by simp_all
qed

lemma frame_content_tame:
  "frame_content f = Ok c \<Longrightarrow> 0x5b \<notin> set f \<Longrightarrow> 0x7b \<notin> set f \<Longrightarrow> tame c"
  using frame_content_facts(1-3) [of f c] by (auto simp: tame_def)

lemma parse_envelope_not_Panic:
  assumes "0x5b \<notin> set f" and "0x7b \<notin> set f"
  shows "parse_envelope f \<noteq> Panic"
  using frame_content_tame [OF _ assms]
  by (auto simp: parse_envelope_def parse_content_def and_then_eq_Panic no_panic envelope_loop_not_Panic)

section \<open>Panics of the decoders\<close>

text \<open>
  The content of a frame whose body is a string, of bytes or of text, with a length that wraps
  the position from 15, where the head ends, to \<open>q\<close>; the body starts at 6.
\<close>

definition wrapping_length :: "nat \<Rightarrow> u64" where
  "wrapping_length q = of_nat (2 ^ 64 - 15 + q)"

definition wrapping_content :: "message_type \<Rightarrow> u8 \<Rightarrow> nat \<Rightarrow> bytes \<Rightarrow> bytes" where
  "wrapping_content k major q tail = uint_enc 5 3 @ uint_enc 0 0 @ uint_enc 0 1 @ uint_enc 0 2
     @ uint_enc 0 (message_type_num k) @ uint_enc 0 5 @ uint_enc major (wrapping_length q) @ tail"

lemma unat_wrapping_length: "q < 6 \<Longrightarrow> unat (wrapping_length q) = 2 ^ 64 - 15 + q"
  unfolding wrapping_length_def by (intro unat_of_nat_u64) simp

lemma length_wrapping_head:
  assumes "q < 6"
  shows "length (uint_enc major (wrapping_length q)) = 9"
proof -
  have "\<not> wrapping_length q \<le> 0xffffffff" "\<not> wrapping_length q \<le> 65535" "\<not> wrapping_length q \<le> 255"
    "\<not> wrapping_length q < 24"
    using unat_wrapping_length [OF assms] by (simp_all add: word_le_nat_alt word_less_nat_alt)
  then show ?thesis
    by (simp add: uint_enc_def)
qed

lemma message_type_num_small: "message_type_num k < 24" "message_type_num k \<le> 255"
  by (cases k; simp)+

lemma message_type_of_num: "message_type (ucast (ucast (message_type_num k) :: u8)) = Ok k"
  by (cases k) (simp_all add: message_type_def)

lemma wrapping_content_reads:
  fixes k major q tail
  defines "c \<equiv> wrapping_content k major q tail"
  assumes q: "q < 6" and major: "major = 2 \<or> major = 3"
  shows "read_uint c 0 5 = Some (3, 1)" and "rd c 1 = Ok (0, 2)" and "rd c 2 = Ok (1, 3)"
    and "rd c 3 = Ok (2, 4)" and "rd c 4 = Ok (message_type_num k, 5)" and "rd c 5 = Ok (5, 6)"
    and "skip_body c 6 = Ok q" and "length c = 15 + length tail"
proof -
  have one: "length (uint_enc 5 3) = 1" "length (uint_enc 0 0) = 1" "length (uint_enc 0 1) = 1"
    "length (uint_enc 0 2) = 1" "length (uint_enc 0 (message_type_num k)) = 1" "length (uint_enc 0 5) = 1"
    by (simp_all add: length_uint_enc_small message_type_num_small)
  have at0: "at c 0 (uint_enc 5 3 @ uint_enc 0 0 @ uint_enc 0 1 @ uint_enc 0 2
      @ uint_enc 0 (message_type_num k) @ uint_enc 0 5 @ uint_enc major (wrapping_length q) @ tail)"
    using at_start [of c] by (simp only: c_def wrapping_content_def)
  note at1 = at_append [OF at0, unfolded one, simplified]
  note at2 = at_append [OF at1, unfolded one, simplified]
  note at3 = at_append [OF at2, unfolded one, simplified]
  note at4 = at_append [OF at3, unfolded one, simplified]
  note at5 = at_append [OF at4, unfolded one, simplified]
  have at6: "at c 6 (uint_enc major (wrapping_length q) @ tail)"
    using at_append [OF at5] one by (simp add: eval_nat_numeral)
  show len: "length c = 15 + length tail"
    by (simp add: c_def wrapping_content_def one length_wrapping_head [OF q])
  show "read_uint c 0 5 = Some (3, 1)"
    using read_uint_at [OF at0] one by simp
  show "rd c 1 = Ok (0, 2)" "rd c 2 = Ok (1, 3)" "rd c 3 = Ok (2, 4)" "rd c 4 = Ok (message_type_num k, 5)"
    "rd c 5 = Ok (5, 6)"
    using rd_at [OF at1] rd_at [OF at2] rd_at [OF at3] rd_at [OF at4] rd_at [OF at5] one
    by (simp_all add: eval_nat_numeral)
  have m: "unat major < 8" "drop_bit 5 (c ! 6) = major"
  proof -
    show "unat major < 8"
      using major by auto
    then have "read_uint c 6 major = Some (wrapping_length q, 6 + length (uint_enc major (wrapping_length q)))"
      by (rule read_uint_at [OF at6])
    then show "drop_bit 5 (c ! 6) = major"
      by (simp add: read_uint_def Let_def split: if_splits)
  qed
  have "read_uint c 6 major = Some (wrapping_length q, 15)"
    using read_uint_at [OF at6 m(1)] length_wrapping_head [OF q] by simp
  moreover have "uadd 15 (unat (wrapping_length q)) = q"
    using q by (simp add: uadd_def unat_wrapping_length)
  ultimately show "skip_body c 6 = Ok q"
    using m(2) major q len by (auto simp: skip_body_def skip_value.simps)
qed

lemma wrapping_content_ends:
  assumes "q < 6" and "major = 2 \<or> major = 3"
  shows "parse_content (wrapping_content k major q tail) = (if k = MtSnapshot then Panic else Err TooLarge)"
proof -
  let ?c = "wrapping_content k major q tail"
  note reads = wrapping_content_reads [OF assms, of k tail]
  have "512 < usub q 6" "\<not> 6 \<le> q"
    using assms(1) by (simp_all add: usub_def)
  then have "envelope_loop ?c (Suc (Suc (Suc 0))) 1 None penv0 = (if k = MtSnapshot then Panic else Err TooLarge)"
    using message_type_num_small(2) [of k] message_type_of_num [of k]
    by (simp add: reads [unfolded One_nat_def] envelope_entry_def try_u8_def penv0_def sub_slice_def)
  then have "envelope_loop ?c 3 1 None penv0 = (if k = MtSnapshot then Panic else Err TooLarge)"
    by (simp only: numeral_3_eq_3)
  then show ?thesis
    by (simp add: parse_content_def reads(1))
qed

text \<open>
  C34. No decoder panics on a byte sequence, of any length, without the two bytes \<open>0x5b\<close> and
  \<open>0x7b\<close> that announce a string length of eight bytes: every other input gives a message or
  an error.
\<close>

theorem decoders_do_not_panic:
  assumes "0x5b \<notin> set f" and "0x7b \<notin> set f"
  shows "decode f \<noteq> Panic \<and> decode_snapshot f \<noteq> Panic \<and> decode_cpu f \<noteq> Panic
     \<and> decode_control f \<noteq> Panic"
  using parse_envelope_not_Panic [OF assms]
  by (auto simp: decode_def decode_snapshot_def decode_cpu_def decode_control_def and_then_eq_Panic
      no_panic split: if_splits)

theorem decoders_do_not_panic_witness:
  "decode (replicate 64 0xff) \<noteq> Panic \<and> decode_control (replicate 64 0xff) \<noteq> Panic"
  using decoders_do_not_panic [of "replicate 64 0xff"] by simp

text \<open>
  C40. The exception is real, and it is that of snapshots. Take any frame with a correct CRC whose
  content is an envelope of three entries, the version, the type and as the body a string, of bytes
  or of text, with a length of \<open>2 ^ 64 - 15 + q\<close> for a \<open>q\<close> below 6, whatever comes after: in \<open>skip_value\<close> the end of the
  string wraps around to position \<open>q\<close>, before the body's start. When the type is a snapshot,
  \<open>parse_envelope\<close> slices with its bounds out of order, and all four decoders panic. For every other
  type the size of the body wraps too and its limit turns the frame away with \<open>TooLarge\<close>.
\<close>

theorem wrapping_length_panics:
  assumes "q < 6" and "major = 2 \<or> major = 3" and "length tail \<le> 2027"
    and "f = frame_of (wrapping_content k major q tail)"
  shows "length f = 21 + length tail
    \<and> (if k = MtSnapshot
       then decode f = Panic \<and> decode_snapshot f = Panic \<and> decode_cpu f = Panic \<and> decode_control f = Panic
       else decode f = Err TooLarge \<and> decode_snapshot f = Err TooLarge \<and> decode_cpu f = Err TooLarge
         \<and> decode_control f = Err TooLarge)"
proof -
  let ?c = "wrapping_content k major q tail"
  have len: "length ?c = 15 + length tail"
    by (rule wrapping_content_reads(8) [OF assms(1,2)])
  then have "?c \<noteq> []" "length ?c \<le> 2042"
    using assms(3) by auto
  then have "frame_content f = Ok ?c"
    using frame_content_frame_of [of ?c] assms(4) by simp
  then have parsed: "parse_envelope f = (if k = MtSnapshot then Panic else Err TooLarge)"
    by (simp add: parse_envelope_def wrapping_content_ends [OF assms(1,2)])
  have "length f = 21 + length tail"
    using len assms(4) by simp
  then show ?thesis
    by (simp add: parsed decode_def decode_snapshot_def decode_cpu_def decode_control_def)
qed

theorem wrapping_length_panics_witness:
  "decode (frame_of [0xa3, 0x00, 0x01, 0x02, 0x04, 0x05,
     0x5b, 0xff, 0xff, 0xff, 0xff, 0xff, 0xff, 0xff, 0xf2]) = Panic"
proof -
  have "wrapping_content MtSnapshot 2 1 [] = [0xa3, 0x00, 0x01, 0x02, 0x04, 0x05,
     0x5b, 0xff, 0xff, 0xff, 0xff, 0xff, 0xff, 0xff, 0xf2]"
  proof -
    have eight: "8 = Suc (Suc (Suc (Suc (Suc (Suc (Suc (Suc 0)))))))"
      by simp
    have "wrapping_length 1 = 0xfffffffffffffff2"
      by (simp add: wrapping_length_def)
    moreover have "be_bytes 8 (0xfffffffffffffff2 :: u64) = [0xff, 0xff, 0xff, 0xff, 0xff, 0xff, 0xff, 0xf2]"
      unfolding eight be_bytes.simps by simp
    ultimately show ?thesis
      by (simp add: wrapping_content_def uint_enc_def)
  qed
  with wrapping_length_panics [of 1 2 "[]" _ MtSnapshot, OF _ _ _ refl] show ?thesis
    by simp
qed

end
