(* ===== verification/Frame_Stream.thy ===== *)
theory Frame_Stream
  imports Panics
begin

text \<open>
  \<open>FrameStream\<close> of \<^verbatim>\<open>host/protocol/src/lib.rs\<close>: frames are cut out of a byte stream that may
  also hold log text and damage. The locale \<open>framer\<close> states what a consumer relies on, and
  derives that the way the bytes arrive in chunks does not matter.
\<close>

section \<open>The framer\<close>

record frame_stream =
  fs_buffer :: bytes
  fs_dropped_bytes :: nat

definition fs_default :: frame_stream where
  "fs_default = \<lparr>fs_buffer = [], fs_dropped_bytes = 0\<rparr>"

definition fs_push :: "frame_stream \<Rightarrow> bytes \<Rightarrow> frame_stream" where
  "fs_push s bs = s\<lparr>fs_buffer := fs_buffer s @ bs\<rparr>"

definition buffered_bytes :: "frame_stream \<Rightarrow> nat" where
  "buffered_bytes s = length (fs_buffer s)"

definition drop_leading_byte :: "frame_stream \<Rightarrow> frame_stream" where
  "drop_leading_byte s =
     (if fs_buffer s \<noteq> [] then
        s\<lparr>fs_buffer := tl (fs_buffer s), fs_dropped_bytes := fs_dropped_bytes s + 1\<rparr>
      else s)"

text \<open>
  The loop of \<open>next_frame\<close>. Every pass that goes on has removed one byte of the buffer, so the
  recursion is over its length.
\<close>

function next_frame :: "frame_stream \<Rightarrow> bytes option \<times> frame_stream" where
  "next_frame s =
     (if length (fs_buffer s) < 2 then (None, s)
      else let b = fs_buffer s; n = unat (be_value (take 2 b) :: u16) in
        if \<not> (5 \<le> n \<and> n \<le> MAX_FRAME_BYTES - 2) then next_frame (drop_leading_byte s)
        else if length b < n + 2 then (None, s)
        else let fin = n + 2; crc = be_value (take 4 (drop (fin - 4) b)) in
          if crc32 (take (fin - 4 - 2) (drop 2 b)) \<noteq> crc then next_frame (drop_leading_byte s)
          else (Some (take fin b), s\<lparr>fs_buffer := drop fin b\<rparr>))"
  by pat_completeness auto
termination
  by (relation "measure (\<lambda>s. length (fs_buffer s))") (auto simp: drop_leading_byte_def)

declare next_frame.simps [simp del]

text \<open>\<open>while let Some(frame) = stream.next_frame()\<close>, the loop of every consumer.\<close>

section \<open>One pass of the loop\<close>

text \<open>What a pass decides depends only on the bytes it has looked at.\<close>

datatype verdict = Wait | Discard | Cut nat

definition verdict :: "bytes \<Rightarrow> verdict" where
  "verdict b =
     (if length b < 2 then Wait
      else let n = unat (be_value (take 2 b) :: u16) in
        if \<not> (5 \<le> n \<and> n \<le> 2046) then Discard
        else if length b < n + 2 then Wait
        else if crc32 (take (n - 4) (drop 2 b)) \<noteq> be_value (take 4 (drop (n - 2) b)) then Discard
        else Cut (n + 2))"

lemma next_frame_verdict:
  "next_frame s = (case verdict (fs_buffer s) of
      Wait \<Rightarrow> (None, s)
    | Discard \<Rightarrow> next_frame (drop_leading_byte s)
    | Cut n \<Rightarrow> (Some (take n (fs_buffer s)), s\<lparr>fs_buffer := drop n (fs_buffer s)\<rparr>))"
  by (subst next_frame.simps) (simp add: verdict_def Let_def MAX_FRAME_BYTES_def)

lemma verdict_Discard: "verdict b = Discard \<Longrightarrow> b \<noteq> []"
  by (auto simp: verdict_def)

lemma verdict_Cut: "verdict b = Cut n \<Longrightarrow> 7 \<le> n \<and> n \<le> length b \<and> n \<le> 2048"
  by (auto simp: verdict_def Let_def split: if_splits)

lemma verdict_Wait: "verdict b = Wait \<Longrightarrow> length b < 2048"
  by (auto simp: verdict_def Let_def split: if_splits)

lemma verdict_stable: "verdict b \<noteq> Wait \<Longrightarrow> verdict (b @ x) = verdict b"
  by (auto simp: verdict_def Let_def split: if_splits)

lemma verdict_content:
  assumes "verdict b = Cut n"
  shows "\<exists>c. frame_content (take n b) = Ok c"
proof -
  let ?n = "unat (be_value (take 2 b) :: u16)"
  have n: "n = ?n + 2" "5 \<le> ?n" "?n \<le> 2046" "?n + 2 \<le> length b"
    and crc: "crc32 (take (?n - 4) (drop 2 b)) = be_value (take 4 (drop (?n - 2) b))"
    using assms by (auto simp: verdict_def Let_def split: if_splits)
  have len: "length (take n b) = n" and hd: "take 2 (take n b) = take 2 b"
    using n by (simp_all add: min_def)
  have ct: "drop 2 (take (n - 4) (take n b)) = take (?n - 4) (drop 2 b)"
    using n by (simp add: drop_take min_def)
  have tl: "drop (n - 4) (take n b) = take 4 (drop (?n - 2) b)"
    using n by (simp add: drop_take)
  show ?thesis
    unfolding frame_content_def Let_def len hd ct tl
    using n crc by (simp add: MAX_FRAME_BYTES_def)
qed

lemma verdict_frame_of:
  assumes "c \<noteq> []" and "length c \<le> 2042"
  shows "verdict (frame_of c @ x) = Cut (length c + 6)"
proof -
  have hd: "take 2 (frame_of c @ x) = be_bytes 2 (of_nat (length c + 4) :: u16)"
    by (simp add: frame_of_def)
  have n: "unat (be_value (take 2 (frame_of c @ x)) :: u16) = length c + 4"
    unfolding hd using assms(2) by (intro frame_length_field) simp
  have "0 < length c"
    using assms(1) by simp
  then have "Suc 0 \<le> length c"
    by (simp only: Suc_le_eq)
  moreover have "be_value (be_bytes 4 (crc32 c)) = crc32 c"
    by (rule be_value_be_bytes_full) simp
  ultimately show ?thesis
    unfolding verdict_def Let_def n using assms(2) by (simp add: frame_of_def)
qed

text \<open>Induction over the passes of \<open>next_frame\<close>.\<close>

lemma drop_leading_byte_measure:
  "verdict (fs_buffer s) = Discard \<Longrightarrow> length (fs_buffer (drop_leading_byte s)) < length (fs_buffer s)"
  using verdict_Discard by (auto simp: drop_leading_byte_def)

lemma next_frame_induct [case_names Wait Discard Cut]:
  assumes "\<And>s. verdict (fs_buffer s) = Wait \<Longrightarrow> P s"
    and "\<And>s. verdict (fs_buffer s) = Discard \<Longrightarrow> P (drop_leading_byte s) \<Longrightarrow> P s"
    and "\<And>s n. verdict (fs_buffer s) = Cut n \<Longrightarrow> P s"
  shows "P s"
proof (induction s rule: measure_induct_rule [of "\<lambda>s. length (fs_buffer s)"])
  case (less s)
  show ?case
    using assms less drop_leading_byte_measure by (cases "verdict (fs_buffer s)") blast+
qed

section \<open>Every frame has a valid length and CRC, and no byte is lost\<close>

definition accounted :: "frame_stream \<Rightarrow> nat" where
  "accounted s = buffered_bytes s + fs_dropped_bytes s"

lemma accounted_drop: "accounted (drop_leading_byte s) = accounted s"
  by (cases "fs_buffer s") (auto simp: accounted_def buffered_bytes_def drop_leading_byte_def)

lemma next_frame_Some:
  "next_frame s = (Some f, t) \<Longrightarrow> 7 \<le> length f \<and> length f \<le> 2048
     \<and> (\<exists>c. frame_content f = Ok c) \<and> accounted s = length f + accounted t
     \<and> buffered_bytes t < buffered_bytes s \<and> fs_dropped_bytes s \<le> fs_dropped_bytes t"
proof (induction s arbitrary: f t rule: next_frame_induct)
  case (Wait s)
  then show ?case by (simp add: next_frame_verdict)
next
  case (Discard s)
  then have "next_frame (drop_leading_byte s) = (Some f, t)"
    by (simp add: next_frame_verdict [of s])
  from Discard.IH [OF this] show ?case
    using accounted_drop [of s] drop_leading_byte_measure [OF Discard.hyps]
    by (auto simp: accounted_def buffered_bytes_def)
next
  case (Cut s n)
  then have f: "f = take n (fs_buffer s)" and t: "t = s\<lparr>fs_buffer := drop n (fs_buffer s)\<rparr>"
    by (simp_all add: next_frame_verdict [of s])
  show ?case
    using verdict_Cut [OF Cut.hyps] verdict_content [OF Cut.hyps] unfolding f t
    by (simp add: accounted_def buffered_bytes_def) linarith
qed

lemma next_frame_None:
  "next_frame s = (None, t) \<Longrightarrow> accounted t = accounted s \<and> verdict (fs_buffer t) = Wait
     \<and> next_frame t = (None, t) \<and> buffered_bytes t \<le> buffered_bytes s"
proof (induction s arbitrary: t rule: next_frame_induct)
  case (Wait s)
  then have "t = s"
    by (simp add: next_frame_verdict [of s])
  then show ?case
    using Wait next_frame_verdict [of s] by simp
next
  case (Discard s)
  then have "next_frame (drop_leading_byte s) = (None, t)"
    by (simp add: next_frame_verdict [of s])
  from Discard.IH [OF this] show ?case
    using accounted_drop [of s] drop_leading_byte_measure [OF Discard.hyps]
    by (auto simp: buffered_bytes_def)
next
  case (Cut s n)
  then show ?case by (simp add: next_frame_verdict [of s])
qed

section \<open>Chunks\<close>

lemma push_drop: "verdict (fs_buffer s) = Discard \<Longrightarrow>
    drop_leading_byte (fs_push s x) = fs_push (drop_leading_byte s) x"
  using verdict_Discard by (auto simp: drop_leading_byte_def fs_push_def)

lemma verdict_push: "verdict (fs_buffer s) \<noteq> Wait \<Longrightarrow> verdict (fs_buffer (fs_push s x)) = verdict (fs_buffer s)"
  by (simp add: fs_push_def verdict_stable)

lemma next_frame_push_Some:
  "next_frame s = (Some f, t) \<Longrightarrow> next_frame (fs_push s x) = (Some f, fs_push t x)"
proof (induction s arbitrary: f t rule: next_frame_induct)
  case (Wait s)
  then show ?case by (simp add: next_frame_verdict [of s])
next
  case (Discard s)
  then show ?case
    by (simp add: next_frame_verdict [of s] next_frame_verdict [of "fs_push s x"] verdict_push push_drop)
next
  case (Cut s n)
  have "verdict (fs_buffer (fs_push s x)) = Cut n" and "n \<le> length (fs_buffer s)"
    using verdict_Cut [OF Cut.hyps] Cut.hyps verdict_push by simp_all
  then show ?case
    using Cut by (simp add: next_frame_verdict [of s] next_frame_verdict [of "fs_push s x"])
      (auto simp: fs_push_def)
qed

lemma next_frame_push_None:
  "next_frame s = (None, t) \<Longrightarrow> next_frame (fs_push s x) = next_frame (fs_push t x)"
proof (induction s arbitrary: t rule: next_frame_induct)
  case (Wait s)
  then show ?case by (simp add: next_frame_verdict [of s])
next
  case (Discard s)
  then show ?case
    by (simp add: next_frame_verdict [of s] next_frame_verdict [of "fs_push s x"] verdict_push push_drop)
next
  case (Cut s n)
  then show ?case by (simp add: next_frame_verdict [of s])
qed


section \<open>The contract of an incremental framer\<close>

locale framer =
  fixes nxt :: "'s \<Rightarrow> 'f option \<times> 's"
    and push :: "'s \<Rightarrow> 'b list \<Rightarrow> 's"
    and sz :: "'s \<Rightarrow> nat"
  assumes found: "nxt s = (Some f, t) \<Longrightarrow> nxt (push s x) = (Some f, push t x)"
    and idle: "nxt s = (None, t) \<Longrightarrow> nxt (push s x) = nxt (push t x)"
    and shrinks: "nxt s = (Some f, t) \<Longrightarrow> sz t < sz s"
begin

inductive drains :: "'s \<Rightarrow> 'f list \<Rightarrow> 's \<Rightarrow> bool" where
  drains_None: "nxt s = (None, t) \<Longrightarrow> drains s [] t"
| drains_Some: "nxt s = (Some f, t) \<Longrightarrow> drains t fs u \<Longrightarrow> drains s (f # fs) u"

inductive_cases drains_NilE: "drains s [] u"

inductive_cases drains_ConsE: "drains s (f # fs) u"

lemma drains_total: "\<exists>fs t. drains s fs t"
proof (induction s rule: measure_induct_rule [of sz])
  case (less s)
  obtain f t where n: "nxt s = (f, t)"
    by fastforce
  then show ?case
    using less shrinks by (cases f) (blast intro: drains.intros)+
qed

lemma drains_deterministic: "drains s fs t \<Longrightarrow> drains s gs u \<Longrightarrow> fs = gs \<and> t = u"
proof (induction arbitrary: gs u rule: drains.induct)
  case (drains_None s t)
  from drains_None(2) show ?case
    by cases (use drains_None(1) in simp_all)
next
  case (drains_Some s f t fs v)
  from drains_Some.prems obtain hs where "gs = f # hs" and "drains t hs u"
    by cases (use drains_Some.hyps(1) in simp_all)
  then show ?case
    using drains_Some.IH by simp
qed

lemma drains_same: "nxt s = nxt t \<Longrightarrow> drains t fs u \<Longrightarrow> drains s fs u"
  using drains.cases [of t fs u] drains.intros by metis

lemma drains_push:
  "drains s fs t \<Longrightarrow> drains (push t x) gs u \<Longrightarrow> drains (push s x) (fs @ gs) u"
proof (induction rule: drains.induct)
  case (drains_None s t)
  then show ?case
    using drains_same [OF idle [OF drains_None(1), of x]] by simp
next
  case (drains_Some s f t fs v)
  then show ?case
    using drains.drains_Some [OF found [OF drains_Some.hyps(1)]] by simp
qed

end

interpretation stream: framer next_frame fs_push buffered_bytes
  by unfold_locales
    (use next_frame_push_Some next_frame_push_None next_frame_Some in \<open>blast+\<close>)

section \<open>Draining a stream\<close>

text \<open>All complete frames of the stream, and the stream when the loop ends.\<close>

function drain :: "frame_stream \<Rightarrow> bytes list \<times> frame_stream" where
  "drain s = (case next_frame s of
      (None, t) \<Rightarrow> ([], t)
    | (Some f, t) \<Rightarrow> let (fs, u) = drain t in (f # fs, u))"
  by pat_completeness auto
termination
  by (relation "measure buffered_bytes") (auto dest: next_frame_Some [OF sym])

declare drain.simps [simp del]

lemma drain_drains: "drain s = (fs, t) \<longleftrightarrow> stream.drains s fs t"
proof -
  have "stream.drains s (fst (drain s)) (snd (drain s))"
  proof (induction s rule: drain.induct)
    case (1 s)
    show ?case
    proof (cases "next_frame s")
      case (Pair f t)
      then show ?thesis
        using "1.IH" [OF Pair [symmetric]] stream.drains.intros
        by (cases f) (auto simp: drain.simps [of s] split: prod.splits)
    qed
  qed
  then show ?thesis
    using stream.drains_deterministic by (metis fst_conv snd_conv surj_pair)
qed


lemma drain_push:
  assumes "drain s = (fs, t)" and "drain (fs_push t x) = (gs, u)"
  shows "drain (fs_push s x) = (fs @ gs, u)"
  using assms stream.drains_push by (simp add: drain_drains)

lemma drain_facts:
  "drain s = (fs, t) \<Longrightarrow> (\<forall>f \<in> set fs. \<exists>c. frame_content f = Ok c)
     \<and> accounted s = length (concat fs) + accounted t \<and> buffered_bytes t < 2048
     \<and> fs_dropped_bytes s \<le> fs_dropped_bytes t"
proof (induction s arbitrary: fs t rule: drain.induct)
  case (1 s)
  obtain f v where n: "next_frame s = (f, v)"
    by fastforce
  show ?case
  proof (cases f)
    case None
    then show ?thesis
      using "1.prems" n next_frame_None [of s v] verdict_Wait [of "fs_buffer v"]
      by (auto simp: drain.simps [of s] buffered_bytes_def accounted_def)
  next
    case (Some g)
    then obtain gs where gs: "drain v = (gs, t)" "fs = g # gs"
      using "1.prems" n by (auto simp: drain.simps [of s] split: prod.splits)
    show ?thesis
      using "1.IH" [OF n [symmetric] Some gs(1)] next_frame_Some [of s g v] n Some gs(2)
      by auto
  qed
qed

lemma drain_frames:
  "\<forall>c \<in> set cs. c \<noteq> [] \<and> length c \<le> 2042 \<Longrightarrow>
   drain (fs_push \<lparr>fs_buffer = [], fs_dropped_bytes = d\<rparr> (concat (map frame_of cs)))
     = (map frame_of cs, \<lparr>fs_buffer = [], fs_dropped_bytes = d\<rparr>)"
proof (induction cs)
  case Nil
  show ?case
    by (simp add: drain.simps fs_push_def next_frame.simps)
next
  case (Cons c cs)
  let ?s = "\<lparr>fs_buffer = frame_of c @ concat (map frame_of cs), fs_dropped_bytes = d\<rparr>"
  have "verdict (fs_buffer ?s) = Cut (length c + 6)"
    using verdict_frame_of Cons.prems by simp
  then have "next_frame ?s = (Some (frame_of c), \<lparr>fs_buffer = concat (map frame_of cs), fs_dropped_bytes = d\<rparr>)"
    by (simp add: next_frame_verdict)
  then show ?case
    using Cons by (simp add: drain.simps [of ?s] fs_push_def)
qed

section \<open>Properties\<close>

text \<open>
  C35. How the bytes arrive does not matter: reading all frames after each of two chunks gives
  the same frames, in the same order, the same buffer and the same count of dropped bytes as
  reading them after the two chunks together, whatever the bytes are.
\<close>

theorem stream_chunks:
  "drain (fs_push s (a @ b)) =
     (let (fs, t) = drain (fs_push s a); (gs, u) = drain (fs_push t b) in (fs @ gs, u))"
proof -
  obtain fs t where a: "drain (fs_push s a) = (fs, t)"
    by fastforce
  obtain gs u where b: "drain (fs_push t b) = (gs, u)"
    by fastforce
  have "fs_push s (a @ b) = fs_push (fs_push s a) b"
    by (simp add: fs_push_def)
  then show ?thesis
    using drain_push [OF a b] a b by simp
qed

text \<open>
  Whatever is pushed, every frame returned has a valid length and CRC, each pushed byte is
  in exactly one of the returned frames, the dropped bytes or the buffer, and the buffer that
  remains when the loop ends is shorter than one frame of maximal size, so it does not grow
  with the input.
\<close>

theorem stream_conserves_bytes:
  assumes "drain (fs_push s bs) = (fs, t)"
  shows "length bs + buffered_bytes s + fs_dropped_bytes s
       = length (concat fs) + buffered_bytes t + fs_dropped_bytes t
     \<and> buffered_bytes t < MAX_FRAME_BYTES
     \<and> (\<forall>f \<in> set fs. 7 \<le> length f \<and> length f \<le> MAX_FRAME_BYTES \<and> is_ok (frame_content f))"
proof -
  have "7 \<le> length f \<and> length f \<le> 2048" if "frame_content f = Ok c" for f c
    using frame_content_facts(2,3) [OF that] that by (cases "length f < 7") (auto simp: frame_content_def)
  then show ?thesis
    using drain_facts [OF assms]
    by (auto simp: accounted_def buffered_bytes_def fs_push_def MAX_FRAME_BYTES_def is_ok_iff)
qed

theorem stream_conserves_bytes_witness:
  "buffered_bytes (snd (drain (fs_push fs_default [1, 2, 3]))) < MAX_FRAME_BYTES"
  using stream_conserves_bytes [of fs_default "[1, 2, 3]", OF prod.collapse [symmetric]] by blast

text \<open>
  A run of well-formed frames on an idle stream is cut at the frame boundaries: exactly the
  frames written come out, in order, with nothing dropped and nothing left in the buffer.
\<close>

theorem stream_returns_written_frames:
  assumes "\<forall>c \<in> set cs. c \<noteq> [] \<and> length c \<le> MAX_FRAME_BYTES - 6" and "fs_buffer s = []"
  shows "drain (fs_push s (concat (map frame_of cs))) = (map frame_of cs, s)"
  using drain_frames [of cs "fs_dropped_bytes s"] assms by (cases s) (simp add: MAX_FRAME_BYTES_def)

theorem stream_returns_written_frames_witness:
  "drain (fs_push fs_default (concat (map frame_of [[1, 2], [3]]))) = (map frame_of [[1, 2], [3]], fs_default)"
  using stream_returns_written_frames [of "[[1, 2], [3]]" fs_default]
  by (simp add: fs_default_def MAX_FRAME_BYTES_def)

end
