(* ===== verification/Session.thy ===== *)
theory Session
  imports Codec_Correct
begin

text \<open>
  \<open>SessionReceiver\<close> of \<^verbatim>\<open>host/protocol/src/lib.rs\<close>: the gate that lets each sequence number
  of a session pass at most once, in increasing order.
\<close>

section \<open>The gate\<close>

record session_receiver =
  rcv_session :: "bytes option"
  rcv_last_sequence :: u32

definition rcv_default :: session_receiver where
  "rcv_default = \<lparr>rcv_session = None, rcv_last_sequence = 0\<rparr>"

definition rcv_reset :: "session_receiver \<Rightarrow> bytes \<Rightarrow> session_receiver" where
  "rcv_reset r session = r\<lparr>rcv_session := Some session, rcv_last_sequence := 0\<rparr>"

text \<open>\<open>accept\<close>; the state is returned with the result, since it changes before an error too.\<close>

definition rcv_accept :: "session_receiver \<Rightarrow> envelope \<Rightarrow> (unit, error) res \<times> session_receiver" where
  "rcv_accept r e =
     (let gate = (\<lambda>r. if env_sequence e \<le> rcv_last_sequence r then (Err StaleSequence, r)
                      else (Ok (), r\<lparr>rcv_last_sequence := env_sequence e\<rparr>))
      in case rcv_session r of
           None \<Rightarrow> gate (rcv_reset r (env_session e))
         | Some session \<Rightarrow> if session \<noteq> env_session e then (Err WrongSession, r) else gate r)"

text \<open>The envelopes of a run that pass, and the receiver after the run.\<close>

fun accepted :: "session_receiver \<Rightarrow> envelope list \<Rightarrow> envelope list \<times> session_receiver" where
  "accepted r [] = ([], r)"
| "accepted r (e # es) =
     (case rcv_accept r e of
        (Ok u, r') \<Rightarrow> let (xs, t) = accepted r' es in (e # xs, t)
      | (_, r') \<Rightarrow> accepted r' es)"

section \<open>One step\<close>

lemma rcv_accept_Ok:
  "rcv_accept r e = (Ok u, r') \<longleftrightarrow>
     (case rcv_session r of None \<Rightarrow> env_sequence e \<noteq> 0
      | Some s \<Rightarrow> s = env_session e \<and> rcv_last_sequence r < env_sequence e)
     \<and> r' = r\<lparr>rcv_session := Some (env_session e), rcv_last_sequence := env_sequence e\<rparr>"
  by (cases "rcv_session r") (auto simp: rcv_accept_def rcv_reset_def Let_def not_le word_gt_0)

lemma rcv_accept_session:
  "rcv_accept r e = (x, r') \<Longrightarrow> rcv_session r = Some s \<Longrightarrow>
     rcv_session r' = Some s \<and> rcv_last_sequence r \<le> rcv_last_sequence r'"
  by (auto simp: rcv_accept_def Let_def split: if_splits)

lemma accepted_in_session:
  assumes "rcv_session r = Some s"
  shows "\<forall>e \<in> set (fst (accepted r es)). env_session e = s \<and> rcv_last_sequence r < env_sequence e"
    and "sorted_wrt (\<lambda>a b. env_sequence a < env_sequence b) (fst (accepted r es))"
  using assms
proof (atomize (full), induction es arbitrary: r)
  case Nil
  show ?case by simp
next
  case (Cons e es)
  obtain x r' where x: "rcv_accept r e = (x, r')"
    by fastforce
  have s: "rcv_session r' = Some s" and le: "rcv_last_sequence r \<le> rcv_last_sequence r'"
    using rcv_accept_session [OF x] Cons.prems by auto
  show ?case
  proof (cases x)
    case (Ok u)
    then have "env_session e = s" "rcv_last_sequence r < env_sequence e"
      "rcv_last_sequence r' = env_sequence e"
      using rcv_accept_Ok [of r e u r'] x Cons.prems by auto
    then show ?thesis
      using Cons.IH [OF s] x Ok by (auto split: prod.splits intro: less_trans)
  next
    case (Err e')
    then show ?thesis
      using Cons.IH [OF s] x le by (auto intro: le_less_trans)
  next
    case Panic
    then show ?thesis
      using Cons.IH [OF s] x le by (auto intro: le_less_trans)
  qed
qed

text \<open>A strictly increasing run of the right session passes entirely.\<close>

lemma accepted_all:
  "rcv_session r = Some s \<Longrightarrow> \<forall>e \<in> set es. env_session e = s \<Longrightarrow>
   sorted_wrt (<) (rcv_last_sequence r # map env_sequence es) \<Longrightarrow> fst (accepted r es) = es"
proof (induction es arbitrary: r)
  case Nil
  show ?case by simp
next
  case (Cons e es)
  let ?r = "r\<lparr>rcv_session := Some (env_session e), rcv_last_sequence := env_sequence e\<rparr>"
  have "rcv_accept r e = (Ok (), ?r)"
    using Cons.prems by (subst rcv_accept_Ok) simp
  moreover have "fst (accepted ?r es) = es"
    using Cons.prems by (intro Cons.IH) simp_all
  ultimately show ?case
    by (cases "accepted ?r es") simp
qed

section \<open>Properties\<close>

text \<open>
  No replay: whatever envelopes arrive, in whatever order and from whatever sessions, the
  ones a fresh or a reset receiver lets pass all belong to one session, have a sequence number
  above zero, and come in strictly increasing order of it, so none passes twice.
\<close>

theorem session_never_replays:
  assumes "r = rcv_default \<or> r = rcv_reset r0 s"
  shows "\<exists>t. (\<forall>e \<in> set (fst (accepted r es)). env_session e = t \<and> 0 < env_sequence e)
     \<and> sorted_wrt (\<lambda>a b. env_sequence a < env_sequence b) (fst (accepted r es))
     \<and> (r = rcv_reset r0 s \<longrightarrow> t = s)"
proof -
  have reset: "(\<forall>e \<in> set (fst (accepted (rcv_reset q u) xs)). env_session e = u \<and> 0 < env_sequence e)
     \<and> sorted_wrt (\<lambda>a b. env_sequence a < env_sequence b) (fst (accepted (rcv_reset q u) xs))" for q u xs
    using accepted_in_session [of "rcv_reset q u" u xs] by (simp add: rcv_reset_def)
  have "accepted rcv_default (e # xs) = accepted (rcv_reset rcv_default (env_session e)) (e # xs)" for e xs
    by (simp add: rcv_accept_def rcv_reset_def rcv_default_def Let_def)
  then have "\<exists>u. accepted rcv_default es = accepted (rcv_reset rcv_default u) es" if "es \<noteq> []"
    using that by (cases es) blast+
  moreover have "rcv_default \<noteq> rcv_reset r0 s"
    by (cases r0) (simp add: rcv_default_def rcv_reset_def)
  ultimately have fresh: "\<exists>u. (\<forall>e \<in> set (fst (accepted rcv_default es)). env_session e = u \<and> 0 < env_sequence e)
     \<and> sorted_wrt (\<lambda>a b. env_sequence a < env_sequence b) (fst (accepted rcv_default es))"
    using reset by (cases "es = []") (simp, metis)
  show ?thesis
  proof (cases "r = rcv_default")
    case True
    then show ?thesis
      using fresh \<open>rcv_default \<noteq> rcv_reset r0 s\<close> by blast
  next
    case False
    then show ?thesis
      using assms reset by blast
  qed
qed

theorem session_never_replays_witness:
  "\<exists>t. \<forall>e \<in> set (fst (accepted rcv_default [sample_envelope MtSnapshot, sample_envelope MtSnapshot])).
     env_session e = t \<and> 0 < env_sequence e"
  using session_never_replays [of rcv_default rcv_default "[]"
      "[sample_envelope MtSnapshot, sample_envelope MtSnapshot]"] by blast

end
