(* ===== verification/Host_Client.thy ===== *)
theory Host_Client
  imports Frame_Stream Session
begin

text \<open>
  \<open>HostClient\<close> of \<^verbatim>\<open>host/transport/src/client.rs\<close>: the host's side of the handshake (Hello,
  HelloReply, Pair, Pair), then snapshots and commands. The state is a record, each method a
  function that returns the new state with the method's result.
\<close>

section \<open>State\<close>

definition ZERO :: bytes where
  "ZERO = replicate 16 0"

datatype refusal =
    Incompatible
  | NotPairedWithYou
  | Declined
  | BadRequest
  | UnknownRefusal u8

definition refusal_from_body :: "bytes \<Rightarrow> refusal" where
  "refusal_from_body body =
     (case body of
        [] \<Rightarrow> UnknownRefusal 0
      | other # _ \<Rightarrow>
          if other = 1 then Incompatible else if other = 2 then NotPairedWithYou
          else if other = 3 then Declined else if other = 4 then BadRequest
          else UnknownRefusal other)"

datatype phase =
    Idle
  | HelloSent
  | PairSent
  | Live
  | Refused refusal

datatype event =
    Negotiated u8 u8
  | Paired bytes
  | EvRefused refusal
  | EvCommandReply u32 command_operation command_result

record client_output =
  out_frames :: "bytes list"
  out_events :: "event list"

definition output0 :: client_output where
  "output0 = \<lparr>out_frames = [], out_events = []\<rparr>"

record host_client =
  hc_host :: bytes
  hc_known_device :: "bytes option"
  hc_code :: u32
  hc_session :: bytes
  hc_phase :: phase
  hc_stream :: frame_stream
  hc_sequence :: u32
  hc_next_command :: u32
  hc_minor :: u8
  hc_local_offset_minutes :: "i16 option"

definition hc_new :: "bytes \<Rightarrow> bytes option \<Rightarrow> u32 \<Rightarrow> bytes \<Rightarrow> host_client" where
  "hc_new host known_device code session =
     \<lparr>hc_host = host, hc_known_device = known_device, hc_code = code, hc_session = session,
      hc_phase = Idle, hc_stream = fs_default, hc_sequence = 0, hc_next_command = 1,
      hc_minor = 0, hc_local_offset_minutes = None\<rparr>"

definition set_local_offset_minutes :: "i16 option \<Rightarrow> host_client \<Rightarrow> host_client" where
  "set_local_offset_minutes offset c = c\<lparr>hc_local_offset_minutes := offset\<rparr>"

definition hc_envelope :: "host_client \<Rightarrow> message_type \<Rightarrow> bytes \<Rightarrow> u32 \<Rightarrow> envelope" where
  "hc_envelope c kind session sequence =
     \<lparr>env_major = 1, env_minor = hc_minor c, env_kind = kind, env_session = session,
      env_sequence = sequence, env_utc_ms = None, env_utc_uncertainty_ms = None,
      env_local_offset_minutes = hc_local_offset_minutes c\<rparr>"

section \<open>Handshake\<close>

definition hc_start :: "u64 option \<Rightarrow> host_client \<Rightarrow> (bytes, error) res \<times> host_client" where
  "hc_start utc_ms c =
     (let c = c\<lparr>hc_phase := HelloSent\<rparr> in
      (encode_control (hc_envelope c MtHello ZERO 1)
         (BHello \<lparr>hel_supported_major = 1, hel_supported_minor = 0, hel_capabilities = 0,
            hel_configuration_revision = 0, hel_utc_ms = utc_ms,
            hel_utc_uncertainty_ms = None\<rparr>), c))"

definition push_event :: "event \<Rightarrow> client_output \<Rightarrow> client_output" where
  "push_event e out = out\<lparr>out_events := out_events out @ [e]\<rparr>"

definition push_frame :: "bytes \<Rightarrow> client_output \<Rightarrow> client_output" where
  "push_frame f out = out\<lparr>out_frames := out_frames out @ [f]\<rparr>"

definition pair_frame :: "host_client \<Rightarrow> (bytes, error) res" where
  "pair_frame c =
     encode_control (hc_envelope c MtPair (hc_session c) 2)
       (BPair \<lparr>pair_pairing_identity = hc_host c,
          pair_intended_peer_identity = (case hc_known_device c of None \<Rightarrow> ZERO | Some d \<Rightarrow> d),
          pair_matching_code = hc_code c\<rparr>)"

text \<open>The \<open>match (self.phase, body)\<close> of \<open>handle\<close>, arm by arm, the guards as conditions.\<close>

definition handle_control ::
    "envelope \<Rightarrow> control_body \<Rightarrow> host_client \<Rightarrow> client_output \<Rightarrow> host_client \<times> client_output" where
  "handle_control e body c out =
     (case (hc_phase c, body) of
        (HelloSent, BHelloReply reply) \<Rightarrow>
          let c = c\<lparr>hc_minor := 0\<rparr>;
              out = push_event (Negotiated (hel_supported_major reply) (hel_supported_minor reply)) out
          in (case pair_frame c of
                Ok frame \<Rightarrow> (c\<lparr>hc_phase := PairSent\<rparr>, push_frame frame out)
              | _ \<Rightarrow> (c, out))
      | (PairSent, BPair pair) \<Rightarrow>
          if env_session e = hc_session c \<and> pair_intended_peer_identity pair = hc_host c
             \<and> pair_matching_code pair = hc_code c
          then (c\<lparr>hc_phase := Live, hc_sequence := 0\<rparr>,
                push_event (Paired (pair_pairing_identity pair)) out)
          else (c, out)
      | (HelloSent, BError body) \<Rightarrow>
          (c\<lparr>hc_phase := Refused (refusal_from_body body)\<rparr>,
           push_event (EvRefused (refusal_from_body body)) out)
      | (PairSent, BError body) \<Rightarrow>
          (c\<lparr>hc_phase := Refused (refusal_from_body body)\<rparr>,
           push_event (EvRefused (refusal_from_body body)) out)
      | (Live, BCommandReply reply) \<Rightarrow>
          if env_session e = hc_session c
          then (c, push_event (EvCommandReply (rep_command_identity reply) (rep_operation reply)
                     (rep_result reply)) out)
          else (c, out)
      | _ \<Rightarrow> (c, out))"

definition handle :: "message \<Rightarrow> host_client \<Rightarrow> client_output \<Rightarrow> host_client \<times> client_output" where
  "handle message c out =
     (case message of
        MsgSnapshot _ _ \<Rightarrow> (c, out)
      | MsgControl e body \<Rightarrow> handle_control e body c out)"

lemma handle_stream [simp]: "hc_stream (fst (handle m c out)) = hc_stream c"
  by (auto simp: handle_def handle_control_def Let_def split: message.splits phase.splits
      control_body.splits res.splits)

lemma handle_stream_eq: "handle m c out = (c', out') \<Longrightarrow> hc_stream c' = hc_stream c"
  using handle_stream [of m c out] by simp

text \<open>\<open>receive\<close>: a frame that does not decode is passed over, a panic of the decoder ends it.\<close>

function receive_loop :: "host_client \<Rightarrow> client_output \<Rightarrow> (host_client \<times> client_output, error) res" where
  "receive_loop c out =
     (case next_frame (hc_stream c) of
        (None, t) \<Rightarrow> Ok (c\<lparr>hc_stream := t\<rparr>, out)
      | (Some frame, t) \<Rightarrow>
          let c = c\<lparr>hc_stream := t\<rparr> in
          (case decode frame of
             Ok message \<Rightarrow> let (c, out) = handle message c out in receive_loop c out
           | Err _ \<Rightarrow> receive_loop c out
           | Panic \<Rightarrow> Panic))"
  by pat_completeness auto
termination
  by (relation "measure (\<lambda>(c, out). buffered_bytes (hc_stream c))")
    (auto dest!: next_frame_Some [OF sym] handle_stream_eq split: prod.splits)


declare receive_loop.simps [simp del]

definition hc_receive :: "bytes \<Rightarrow> host_client \<Rightarrow> (host_client \<times> client_output, error) res" where
  "hc_receive bs c = receive_loop (c\<lparr>hc_stream := fs_push (hc_stream c) bs\<rparr>) output0"

section \<open>Sending\<close>

text \<open>\<open>.ok()\<close> on a result.\<close>

definition res_ok :: "('a, 'e) res \<Rightarrow> 'a option" where
  "res_ok r = (case r of Ok x \<Rightarrow> Some x | _ \<Rightarrow> None)"

definition next_sequence :: "host_client \<Rightarrow> u32 \<times> host_client" where
  "next_sequence c = (hc_sequence c + 1, c\<lparr>hc_sequence := hc_sequence c + 1\<rparr>)"

definition hc_snapshot :: "snapshot \<Rightarrow> u64 option \<Rightarrow> host_client \<Rightarrow> bytes option \<times> host_client" where
  "hc_snapshot s utc_ms c =
     (if hc_phase c \<noteq> Live then (None, c)
      else let (sequence, c) = next_sequence c;
               e = hc_envelope c MtSnapshot (hc_session c) sequence
           in (res_ok (encode_groups (e\<lparr>env_utc_ms := utc_ms\<rparr>) s), c))"

definition retry_command ::
    "u32 \<Rightarrow> command_operation \<Rightarrow> host_client \<Rightarrow> bytes option \<times> host_client" where
  "retry_command identity operation c =
     (if hc_phase c \<noteq> Live then (None, c)
      else let (sequence, c) = next_sequence c;
               e = hc_envelope c MtCommand (hc_session c) sequence
           in (res_ok (encode_control e
                 (BCommand \<lparr>cmd_command_identity = identity, cmd_operation = operation\<rparr>)), c))"

definition hc_command ::
    "command_operation \<Rightarrow> host_client \<Rightarrow> (u32 \<times> bytes) option \<times> host_client" where
  "hc_command operation c =
     (let identity = hc_next_command c;
          (frame, c) = retry_command identity operation (c\<lparr>hc_next_command := identity + 1\<rparr>)
      in (map_option (Pair identity) frame, c))"

section \<open>The connection as a state machine\<close>

datatype client_op =
    OpStart "u64 option"
  | OpReceive bytes
  | OpSnapshot snapshot "u64 option"
  | OpCommand command_operation
  | OpRetry u32 command_operation
  | OpOffset "i16 option"

definition frames_out :: "bytes list \<Rightarrow> client_output" where
  "frames_out fs = \<lparr>out_frames = fs, out_events = []\<rparr>"

definition opt_frames :: "'a option \<Rightarrow> 'a list" where
  "opt_frames v = (case v of None \<Rightarrow> [] | Some x \<Rightarrow> [x])"

fun client_step :: "client_op \<Rightarrow> host_client \<Rightarrow> (host_client \<times> client_output, error) res" where
  "client_step (OpStart utc) c =
     (let (f, c) = hc_start utc c in Ok (c, frames_out (opt_frames (res_ok f))))"
| "client_step (OpReceive bs) c = hc_receive bs c"
| "client_step (OpSnapshot s utc) c =
     (let (f, c) = hc_snapshot s utc c in Ok (c, frames_out (opt_frames f)))"
| "client_step (OpCommand operation) c =
     (let (f, c) = hc_command operation c in Ok (c, frames_out (map snd (opt_frames f))))"
| "client_step (OpRetry identity operation) c =
     (let (f, c) = retry_command identity operation c in Ok (c, frames_out (opt_frames f)))"
| "client_step (OpOffset offset) c = Ok (set_local_offset_minutes offset c, output0)"

text \<open>Runs of a connection: the states reached from a new client, with all output so far.\<close>

inductive client_run :: "host_client \<Rightarrow> host_client \<Rightarrow> bytes list \<Rightarrow> event list \<Rightarrow> bool" for c0 where
  run_start: "client_run c0 c0 [] []"
| run_step: "client_run c0 c fs es \<Longrightarrow> client_step oper c = Ok (c', out) \<Longrightarrow>
     client_run c0 c' (fs @ out_frames out) (es @ out_events out)"


section \<open>Receiving, frame by frame\<close>

definition append_output :: "client_output \<Rightarrow> client_output \<Rightarrow> client_output" where
  "append_output a b = \<lparr>out_frames = out_frames a @ out_frames b, out_events = out_events a @ out_events b\<rparr>"

lemma append_output_simps [simp]:
  "append_output output0 b = b" "append_output a output0 = a"
  "append_output (append_output a b) c = append_output a (append_output b c)"
  "out_frames (append_output a b) = out_frames a @ out_frames b"
  "out_events (append_output a b) = out_events a @ out_events b"
  by (simp_all add: append_output_def output0_def)

lemma push_append:
  "push_event e (append_output a b) = append_output a (push_event e b)"
  "push_frame f (append_output a b) = append_output a (push_frame f b)"
  by (simp_all add: append_output_def push_event_def push_frame_def)

lemma handle_append:
  "handle m c (append_output a b) = apsnd (append_output a) (handle m c b)"
  by (auto simp: handle_def handle_control_def push_append Let_def split: message.splits phase.splits
      control_body.splits res.splits)

lemma handle_output: "handle m c out = apsnd (append_output out) (handle m c output0)"
  using handle_append [of m c out output0] by simp

lemma pair_frame_stream [simp]: "pair_frame (c\<lparr>hc_stream := t\<rparr>) = pair_frame c"
  by (simp add: pair_frame_def hc_envelope_def)

lemma handle_set_stream:
  "handle m (c\<lparr>hc_stream := t\<rparr>) out = apfst (\<lambda>c. c\<lparr>hc_stream := t\<rparr>) (handle m c out)"
proof -
  have "pair_frame (c\<lparr>hc_stream := t, hc_minor := 0\<rparr>) = pair_frame (c\<lparr>hc_minor := 0\<rparr>)"
    by (simp add: pair_frame_def hc_envelope_def)
  then show ?thesis
    by (auto simp: handle_def handle_control_def Let_def split: message.splits phase.splits
        control_body.splits res.splits)
qed

text \<open>What the client does with one frame, and with a list of them.\<close>

definition deliver :: "bytes \<Rightarrow> host_client \<times> client_output \<Rightarrow> (host_client \<times> client_output, error) res" where
  "deliver f = (\<lambda>(c, out). case decode f of
     Ok m \<Rightarrow> Ok (handle m c out) | Err _ \<Rightarrow> Ok (c, out) | Panic \<Rightarrow> Panic)"

fun deliver_all :: "bytes list \<Rightarrow> host_client \<times> client_output \<Rightarrow> (host_client \<times> client_output, error) res" where
  "deliver_all [] x = Ok x"
| "deliver_all (f # fs) x = and_then (deliver f x) (deliver_all fs)"

lemma deliver_all_append:
  "deliver_all (fs @ gs) x = and_then (deliver_all fs x) (deliver_all gs)"
proof (induction fs arbitrary: x)
  case Nil
  show ?case by simp
next
  case (Cons f fs)
  then show ?case by (cases "deliver f x") simp_all
qed

definition set_stream :: "frame_stream \<Rightarrow> host_client \<times> client_output \<Rightarrow> host_client \<times> client_output" where
  "set_stream t = apfst (\<lambda>c. c\<lparr>hc_stream := t\<rparr>)"

lemma deliver_set_stream:
  "deliver f (set_stream t x) = and_then (deliver f x) (\<lambda>y. Ok (set_stream t y))"
  by (cases x) (auto simp: deliver_def set_stream_def handle_set_stream split: res.splits)

lemma deliver_all_set_stream:
  "deliver_all fs (set_stream t x) = and_then (deliver_all fs x) (\<lambda>y. Ok (set_stream t y))"
proof (induction fs arbitrary: x)
  case Nil
  show ?case by simp
next
  case (Cons f fs)
  then show ?case by (cases "deliver f x") (simp_all add: deliver_set_stream)
qed

lemma set_stream_twice [simp]: "set_stream t (set_stream u x) = set_stream t x"
  by (cases x) (simp add: set_stream_def)

lemma receive_loop_deliver:
  "drain (hc_stream c) = (fs, t) \<Longrightarrow>
     receive_loop c out = and_then (deliver_all fs (c, out)) (\<lambda>y. Ok (set_stream t y))"
proof (induction c out arbitrary: fs t rule: receive_loop.induct)
  case (1 c out)
  obtain f v where n: "next_frame (hc_stream c) = (f, v)"
    by fastforce
  show ?case
  proof (cases f)
    case None
    then show ?thesis
      using "1.prems" n by (simp add: drain.simps [of "hc_stream c"] receive_loop.simps [of c] set_stream_def)
  next
    case (Some g)
    then obtain gs where gs: "drain v = (gs, t)" "fs = g # gs"
      using "1.prems" n by (auto simp: drain.simps [of "hc_stream c"] split: prod.splits)
    let ?c = "c\<lparr>hc_stream := v\<rparr>"
    note IH = "1.IH" [OF n [symmetric] Some refl]
    have set: "(?c, out) = set_stream v (c, out)"
      by (simp add: set_stream_def)
    have step: "receive_loop c out = and_then (deliver g (?c, out)) (\<lambda>(c, out). receive_loop c out)"
      using n Some by (subst receive_loop.simps) (simp add: deliver_def split: res.splits)
    have "deliver g (?c, out) = Ok (d, o') \<Longrightarrow>
        receive_loop d o' = and_then (deliver_all gs (d, o')) (\<lambda>y. Ok (set_stream t y))" for d o'
    proof (cases "decode g")
      case (Ok m)
      moreover assume "deliver g (?c, out) = Ok (d, o')"
      ultimately have h: "handle m ?c out = (d, o')"
        by (simp add: deliver_def)
      then have "drain (hc_stream d) = (gs, t)"
        using handle_stream_eq [OF h] gs by simp
      then show ?thesis
        using IH(1) [OF Ok h [symmetric] refl] by simp
    next
      case (Err e)
      moreover assume "deliver g (?c, out) = Ok (d, o')"
      ultimately show ?thesis
        using IH(2) [OF Err] gs by (auto simp: deliver_def)
    qed (simp add: deliver_def)
    then have "receive_loop c out =
        and_then (deliver g (?c, out)) (\<lambda>x. and_then (deliver_all gs x) (\<lambda>y. Ok (set_stream t y)))"
      unfolding step by (cases "deliver g (?c, out)") auto
    also have "\<dots> = and_then (deliver_all fs (set_stream v (c, out))) (\<lambda>y. Ok (set_stream t y))"
      unfolding gs set by (cases "deliver g (set_stream v (c, out))") simp_all
    also have "\<dots> = and_then (deliver_all fs (c, out)) (\<lambda>y. Ok (set_stream t y))"
      unfolding deliver_all_set_stream by (cases "deliver_all fs (c, out)") simp_all
    finally show ?thesis .
  qed
qed

lemma hc_receive_deliver:
  assumes "drain (fs_push (hc_stream c) bs) = (fs, t)"
  shows "hc_receive bs c = and_then (deliver_all fs (c, output0)) (\<lambda>y. Ok (set_stream t y))"
proof -
  let ?c = "c\<lparr>hc_stream := fs_push (hc_stream c) bs\<rparr>"
  have "hc_receive bs c = and_then (deliver_all fs (?c, output0)) (\<lambda>y. Ok (set_stream t y))"
    unfolding hc_receive_def using assms by (intro receive_loop_deliver) simp
  moreover have "(?c, output0) = set_stream (fs_push (hc_stream c) bs) (c, output0)"
    by (simp add: set_stream_def)
  ultimately show ?thesis
    by (cases "deliver_all fs (c, output0)") (simp_all add: deliver_all_set_stream)
qed

lemma deliver_output:
  "deliver f (c, append_output a b) = and_then (deliver f (c, b)) (\<lambda>y. Ok (apsnd (append_output a) y))"
  by (auto simp: deliver_def handle_append split: res.splits)

lemma deliver_all_output:
  "deliver_all fs (c, append_output a b) =
     and_then (deliver_all fs (c, b)) (\<lambda>y. Ok (apsnd (append_output a) y))"
proof (induction fs arbitrary: c b)
  case Nil
  show ?case by simp
next
  case (Cons f fs)
  then show ?case
    by (cases "deliver f (c, b)") (auto simp: deliver_output)
qed


section \<open>Transitions\<close>

lemma handle_to_Live:
  assumes "hc_phase c \<noteq> Live" and "hc_phase (fst (handle m c out)) = Live"
  obtains e p where "m = MsgControl e (BPair p)" and "hc_phase c = PairSent"
    and "env_session e = hc_session c" and "pair_intended_peer_identity p = hc_host c"
    and "pair_matching_code p = hc_code c"
    and "handle m c out = (c\<lparr>hc_phase := Live, hc_sequence := 0\<rparr>,
            push_event (Paired (pair_pairing_identity p)) out)"
  using assms
  by (auto simp: handle_def handle_control_def Let_def split: message.splits phase.splits
      control_body.splits res.splits if_splits)

lemma handle_Live: "hc_phase c = Live \<Longrightarrow> fst (handle m c out) = c"
  by (auto simp: handle_def handle_control_def Let_def split: message.splits control_body.splits)

lemma handle_identity:
  "hc_session (fst (handle m c out)) = hc_session c" "hc_host (fst (handle m c out)) = hc_host c"
  "hc_code (fst (handle m c out)) = hc_code c"
  "hc_known_device (fst (handle m c out)) = hc_known_device c"
  by (auto simp: handle_def handle_control_def Let_def split: message.splits phase.splits
      control_body.splits res.splits)

lemma handle_events: "set (out_events out) \<subseteq> set (out_events (snd (handle m c out)))"
  by (auto simp: handle_def handle_control_def Let_def push_event_def push_frame_def
      split: message.splits phase.splits control_body.splits res.splits)

lemma deliver_Ok: "deliver f (c, out) = Ok y \<longleftrightarrow>
    (\<exists>m. decode f = Ok m \<and> y = handle m c out) \<or> (\<exists>e. decode f = Err e \<and> y = (c, out))"
  by (auto simp: deliver_def split: res.splits)

lemma deliver_all_to_Live:
  "deliver_all fs (c, out) = Ok (d, o') \<Longrightarrow>
     hc_session d = hc_session c \<and> hc_host d = hc_host c \<and> hc_code d = hc_code c
     \<and> set (out_events out) \<subseteq> set (out_events o')
     \<and> (hc_phase c \<noteq> Live \<longrightarrow> hc_phase d = Live \<longrightarrow>
          (\<exists>f \<in> set fs. \<exists>e p. decode f = Ok (MsgControl e (BPair p)) \<and> env_session e = hc_session c
            \<and> pair_intended_peer_identity p = hc_host c \<and> pair_matching_code p = hc_code c
            \<and> Paired (pair_pairing_identity p) \<in> set (out_events o')))"
proof (induction fs arbitrary: c out)
  case Nil
  then show ?case by simp
next
  case (Cons f fs)
  then obtain c1 o1 where f: "deliver f (c, out) = Ok (c1, o1)" and fs: "deliver_all fs (c1, o1) = Ok (d, o')"
    by (auto simp: and_then_eq_Ok)
  note IH = Cons.IH [OF fs]
  from f consider m where "decode f = Ok m" "(c1, o1) = handle m c out" | "c1 = c" "o1 = out"
    unfolding deliver_Ok by blast
  then show ?case
  proof cases
    case 1
    then have same: "hc_session c1 = hc_session c" "hc_host c1 = hc_host c" "hc_code c1 = hc_code c"
      and ev: "set (out_events out) \<subseteq> set (out_events o1)"
      using handle_identity [of m c out] handle_events [of out m c]
      by (simp_all add: 1(2) [symmetric])
    show ?thesis
    proof (cases "hc_phase c \<noteq> Live \<and> hc_phase c1 = Live")
      case True
      then obtain e p where "m = MsgControl e (BPair p)" "env_session e = hc_session c"
        "pair_intended_peer_identity p = hc_host c" "pair_matching_code p = hc_code c"
        "o1 = push_event (Paired (pair_pairing_identity p)) out"
        using handle_to_Live [of c m out] 1(2) by (metis Pair_inject fst_conv)
      then show ?thesis
        using IH same ev 1(1) by (auto simp: push_event_def)
    next
      case False
      then show ?thesis
        using IH same ev by auto
    qed
  next
    case 2
    then show ?thesis
      using IH by auto
  qed
qed

lemma hc_receive_Ok:
  assumes "hc_receive bs c = Ok (d, out)"
  obtains fs t d' where "drain (fs_push (hc_stream c) bs) = (fs, t)"
    and "deliver_all fs (c, output0) = Ok (d', out)" and "d = d'\<lparr>hc_stream := t\<rparr>"
proof -
  obtain fs t where d: "drain (fs_push (hc_stream c) bs) = (fs, t)"
    by fastforce
  then show ?thesis
    using assms that hc_receive_deliver [OF d]
    by (auto simp: and_then_eq_Ok set_stream_def)
qed

section \<open>Chunks\<close>

text \<open>
  The chunks in which the serial port delivers the device's bytes do not matter: receiving
  two chunks one after the other ends in the same client state, with the same frames and events
  in the same order, as receiving them at once (and a panic of the decoder is the same too).
\<close>

theorem receive_chunks:
  "hc_receive (a @ b) c =
     and_then (hc_receive a c) (\<lambda>(d, o1).
     and_then (hc_receive b d) (\<lambda>(e, o2). Ok (e, append_output o1 o2)))"
proof -
  obtain fs t where a: "drain (fs_push (hc_stream c) a) = (fs, t)"
    by fastforce
  obtain gs u where b: "drain (fs_push t b) = (gs, u)"
    by fastforce
  have push: "fs_push (hc_stream c) (a @ b) = fs_push (fs_push (hc_stream c) a) b"
    by (simp add: fs_push_def)
  have ab: "drain (fs_push (hc_stream c) (a @ b)) = (fs @ gs, u)"
    unfolding push by (rule drain_push [OF a b])
  show ?thesis
  proof (cases "deliver_all fs (c, output0)")
    case (Ok y)
    then obtain d o1 where y: "deliver_all fs (c, output0) = Ok (d, o1)"
      by (cases y) simp
    have "deliver_all gs (d, append_output o1 output0) =
        and_then (deliver_all gs (d, output0)) (\<lambda>y. Ok (apsnd (append_output o1) y))"
      by (rule deliver_all_output)
    moreover have "deliver_all gs (set_stream t (d, output0)) =
        and_then (deliver_all gs (d, output0)) (\<lambda>y. Ok (set_stream t y))"
      by (rule deliver_all_set_stream)
    ultimately show ?thesis
      using hc_receive_deliver [OF ab] hc_receive_deliver [OF a] y
        hc_receive_deliver [of "d\<lparr>hc_stream := t\<rparr>" b gs u] b
      by (cases "deliver_all gs (d, output0)")
        (auto simp: deliver_all_append set_stream_def)
  qed (use hc_receive_deliver [OF ab] hc_receive_deliver [OF a] in \<open>simp_all add: deliver_all_append\<close>)
qed

end
