(* ===== verification/Client_Runs.thy ===== *)
theory Client_Runs
  imports Host_Client
begin

text \<open>
  Runs of \<open>HostClient\<close>: what leaves the host before the pairing is confirmed, that the frames
  of a live connection pass the receiver's session gate, and that the handshake succeeds.
\<close>

section \<open>Frames of a well-formed client\<close>

definition client_wf :: "host_client \<Rightarrow> bool" where
  "client_wf c \<longleftrightarrow> length (hc_session c) = 16 \<and> length (hc_host c) = 16
     \<and> (case hc_known_device c of None \<Rightarrow> True | Some d \<Rightarrow> length d = 16)"

lemma encode_control_offset:
  assumes "encode_control e b = Ok f"
  shows "offset_ok (env_local_offset_minutes e)"
  using assms
  by (auto simp: encode_control_def encode_frame_def and_then_eq_Ok put_offset_Ok split: if_splits)

lemma hc_envelope_simps [simp]:
  "env_kind (hc_envelope c k s n) = k" "env_session (hc_envelope c k s n) = s"
  "env_sequence (hc_envelope c k s n) = n"
  "env_local_offset_minutes (hc_envelope c k s n) = hc_local_offset_minutes c"
  by (simp_all add: hc_envelope_def)

lemma hc_envelope_ok:
  "length s = 16 \<Longrightarrow> offset_ok (hc_local_offset_minutes c) \<Longrightarrow> envelope_ok (hc_envelope c k s n)"
  by (simp add: envelope_ok_def wf_envelope_def hc_envelope_def)

lemma encoded_control_decodes:
  assumes "encode_control (hc_envelope c (control_kind b) s n) b = Ok f" and "length s = 16"
    and "control_ok b"
  shows "decode f = Ok (MsgControl (hc_envelope c (control_kind b) s n) b)"
proof -
  have "offset_ok (hc_local_offset_minutes c)"
    using encode_control_offset [OF assms(1)] by simp
  then show ?thesis
    using control_framed [OF hc_envelope_ok [OF assms(2)] hc_envelope_simps(1) assms(3), of c n] assms(1)
    by (metis res.inject(1))
qed

lemma start_frame_decodes:
  assumes "fst (hc_start utc c) = Ok f"
  shows "\<exists>e b. decode f = Ok (MsgControl e b) \<and> env_kind e = MtHello"
  using assms encoded_control_decodes [of "c\<lparr>hc_phase := HelloSent\<rparr>" "BHello v" ZERO 1 f for v]
  by (fastforce simp: hc_start_def ZERO_def control_ok_def wf_control_def hc_envelope_def)

lemma pair_frame_Ok:
  assumes "pair_frame c = Ok f"
  shows "100000 \<le> hc_code c \<and> hc_code c \<le> 999999"
  using assms by (auto simp: pair_frame_def encode_control_def and_then_eq_Ok split: if_splits)

lemma pair_frame_decodes:
  assumes "pair_frame c = Ok f" and "client_wf c"
  shows "decode f = Ok (MsgControl (hc_envelope c MtPair (hc_session c) 2)
    (BPair \<lparr>pair_pairing_identity = hc_host c,
       pair_intended_peer_identity = (case hc_known_device c of None \<Rightarrow> ZERO | Some d \<Rightarrow> d),
       pair_matching_code = hc_code c\<rparr>))"
  using assms pair_frame_Ok [OF assms(1)]
    encoded_control_decodes [of c "BPair \<lparr>pair_pairing_identity = hc_host c,
       pair_intended_peer_identity = (case hc_known_device c of None \<Rightarrow> ZERO | Some d \<Rightarrow> d),
       pair_matching_code = hc_code c\<rparr>" "hc_session c" 2 f]
  by (auto simp: pair_frame_def client_wf_def control_ok_def wf_control_def ZERO_def split: option.splits)

section \<open>Before the pairing\<close>

definition opening_frame :: "bytes \<Rightarrow> bool" where
  "opening_frame f \<longleftrightarrow> (\<exists>e b. decode f = Ok (MsgControl e b) \<and> env_kind e \<in> {MtHello, MtPair})"

lemma handle_frames:
  assumes "client_wf c" and "f \<in> set (out_frames (snd (handle m c out)))"
  shows "f \<in> set (out_frames out) \<or> opening_frame f"
proof -
  have "opening_frame f" if "pair_frame (c\<lparr>hc_minor := 0\<rparr>) = Ok f" for f
    using pair_frame_decodes [OF that] assms(1)
    by (simp add: opening_frame_def client_wf_def)
  then show ?thesis
    using assms(2)
    by (auto simp: handle_def handle_control_def Let_def push_event_def push_frame_def
        split: message.splits phase.splits control_body.splits res.splits if_splits)
qed

lemma handle_wf: "client_wf (fst (handle m c out)) = client_wf c"
  by (simp add: client_wf_def handle_identity)

lemma deliver_all_wf: "deliver_all fs (c, out) = Ok (d, o') \<Longrightarrow> client_wf c \<Longrightarrow>
    client_wf d \<and> (\<forall>f \<in> set (out_frames o'). f \<in> set (out_frames out) \<or> opening_frame f)"
proof (induction fs arbitrary: c out)
  case Nil
  then show ?case by simp
next
  case (Cons f fs)
  then obtain c1 o1 where f: "deliver f (c, out) = Ok (c1, o1)" and fs: "deliver_all fs (c1, o1) = Ok (d, o')"
    by (auto simp: and_then_eq_Ok)
  from f consider m where "(c1, o1) = handle m c out" | "c1 = c" "o1 = out"
    unfolding deliver_Ok by blast
  then have "client_wf c1 \<and> (\<forall>f \<in> set (out_frames o1). f \<in> set (out_frames out) \<or> opening_frame f)"
    using Cons.prems(2) handle_wf handle_frames by cases (metis fst_conv snd_conv, simp)
  then show ?case
    using Cons.IH [OF fs] by blast
qed

lemma hc_receive_wf:
  assumes "hc_receive bs c = Ok (d, out)" and "client_wf c"
  shows "client_wf d \<and> (\<forall>f \<in> set (out_frames out). opening_frame f)"
  using assms deliver_all_wf by (elim hc_receive_Ok) (fastforce simp: client_wf_def output0_def)

definition unpaired :: "event list \<Rightarrow> bool" where
  "unpaired es \<longleftrightarrow> (\<forall>d. Paired d \<notin> set es)"

lemma quiet_before_pairing:
  "client_step oper c = Ok (d, out) \<Longrightarrow> client_wf c \<Longrightarrow> hc_phase c \<noteq> Live \<Longrightarrow>
   unpaired (out_events out) \<Longrightarrow> hc_phase d \<noteq> Live \<and> (\<forall>f \<in> set (out_frames out). opening_frame f)"
proof (cases oper)
  case (OpStart utc)
  assume "client_step oper c = Ok (d, out)"
  then show ?thesis
    using start_frame_decodes [of utc c] OpStart
    by (auto simp: frames_out_def opt_frames_def res_ok_def opening_frame_def Let_def
        split: res.splits prod.splits) (auto simp: hc_start_def Let_def)
next
  case (OpReceive bs)
  assume r: "client_step oper c = Ok (d, out)" and wf: "client_wf c" and ph: "hc_phase c \<noteq> Live"
    and un: "unpaired (out_events out)"
  from r OpReceive have recv: "hc_receive bs c = Ok (d, out)"
    by simp
  from recv have "hc_phase d \<noteq> Live"
  proof (rule hc_receive_Ok)
    fix fs t d' assume "deliver_all fs (c, output0) = Ok (d', out)" "d = d'\<lparr>hc_stream := t\<rparr>"
    then show ?thesis
      using deliver_all_to_Live ph un by (fastforce simp: unpaired_def)
  qed
  then show ?thesis
    using hc_receive_wf [OF recv wf] by simp
qed (auto simp: hc_snapshot_def hc_command_def retry_command_def frames_out_def opt_frames_def
    set_local_offset_minutes_def output0_def Let_def)

lemma client_step_wf:
  "client_step oper c = Ok (d, out) \<Longrightarrow> client_wf c \<Longrightarrow> client_wf d"
  using hc_receive_wf
  by (cases oper) (auto simp: client_wf_def hc_start_def hc_snapshot_def hc_command_def retry_command_def
      next_sequence_def set_local_offset_minutes_def Let_def split: if_splits)

lemma client_run_quiet:
  "client_run c0 c fs es \<Longrightarrow> client_wf c0 \<Longrightarrow> hc_phase c0 = Idle \<Longrightarrow>
   client_wf c \<and> (unpaired es \<longrightarrow> hc_phase c \<noteq> Live \<and> (\<forall>f \<in> set fs. opening_frame f))"
proof (induction rule: client_run.induct)
  case run_start
  then show ?case by simp
next
  case (run_step c fs es oper c' out)
  then show ?case
    using client_step_wf [OF run_step.hyps(2)] quiet_before_pairing [OF run_step.hyps(2)]
    by (auto simp: unpaired_def)
qed

text \<open>
  C3. Before the device has confirmed the pairing nothing but the two opening messages leaves
  the host: in every run of a new client, whatever is called and received in whatever order,
  as long as no \<open>Paired\<close> event was raised the client is not live and every frame it handed out
  decodes to a Hello or a Pair message, never to a snapshot or a command.
\<close>

theorem nothing_leaves_before_pairing:
  assumes "client_run (hc_new host known code session) c fs es"
    and "client_wf (hc_new host known code session)" and "\<forall>d. Paired d \<notin> set es"
  shows "hc_phase c \<noteq> Live
     \<and> (\<forall>f \<in> set fs. \<exists>e b. decode f = Ok (MsgControl e b) \<and> env_kind e \<in> {MtHello, MtPair})"
  using client_run_quiet [OF assms(1,2)] assms(3)
  by (simp add: hc_new_def unpaired_def opening_frame_def)

definition sample_client :: host_client where
  "sample_client = hc_new (replicate 16 1) None 123456 (replicate 16 7)"

lemma sample_client_run:
  "client_run sample_client (snd (hc_start None sample_client))
     (opt_frames (res_ok (fst (hc_start None sample_client)))) []"
  using run_step [OF run_start, of "OpStart None" sample_client "snd (hc_start None sample_client)"
      "frames_out (opt_frames (res_ok (fst (hc_start None sample_client))))"]
  by (simp add: frames_out_def case_prod_beta)

theorem nothing_leaves_before_pairing_witness:
  "hc_phase (snd (hc_start None sample_client)) \<noteq> Live"
  using nothing_leaves_before_pairing [OF sample_client_run [unfolded sample_client_def]]
  by (simp add: sample_client_def client_wf_def hc_new_def)

section \<open>A live connection\<close>

definition message_envelope :: "message \<Rightarrow> envelope" where
  "message_envelope m = (case m of MsgSnapshot e _ \<Rightarrow> e | MsgControl e _ \<Rightarrow> e)"

fun run_ops :: "client_op list \<Rightarrow> host_client \<Rightarrow> (host_client \<times> bytes list, error) res" where
  "run_ops [] c = Ok (c, [])"
| "run_ops (oper # ops) c =
     and_then (client_step oper c) (\<lambda>(c, out).
     and_then (run_ops ops c) (\<lambda>(c, fs). Ok (c, out_frames out @ fs)))"

text \<open>
  The calls of a live connection, whatever the snapshot; those that put a frame on the wire,
  and those whose frame can be read: the encoder does not check the CPU utilization, which the
  decoder bounds.
\<close>

fun live_op :: "client_op \<Rightarrow> bool" where
  "live_op (OpSnapshot s utc) = wf_snapshot s"
| "live_op (OpCommand operation) = True"
| "live_op (OpRetry identity operation) = True"
| "live_op (OpReceive bs) = True"
| "live_op _ = False"

fun framed_op :: "client_op \<Rightarrow> bool" where
  "framed_op (OpSnapshot s utc) = (\<not> snapshot_refused s)"
| "framed_op (OpCommand operation) = True"
| "framed_op (OpRetry identity operation) = True"
| "framed_op _ = False"

fun readable_op :: "client_op \<Rightarrow> bool" where
  "readable_op (OpSnapshot s utc) = (\<not> snapshot_refused s \<and> cpu_utilization_per_mille (snap_cpu s) \<le> 1000)"
| "readable_op oper = framed_op oper"

text \<open>What the message of a call says.\<close>

fun carries :: "client_op \<Rightarrow> message \<Rightarrow> bool" where
  "carries (OpSnapshot s utc) (MsgSnapshot e t) = (t = s \<and> env_utc_ms e = utc)"
| "carries (OpCommand operation) (MsgControl e (BCommand b)) = (cmd_operation b = operation)"
| "carries (OpRetry identity operation) (MsgControl e (BCommand b)) =
     (cmd_operation b = operation \<and> cmd_command_identity b = identity)"
| "carries _ _ = False"

definition op_outcome :: "client_op \<Rightarrow> bytes \<Rightarrow> bool" where
  "op_outcome oper f \<longleftrightarrow>
     (if readable_op oper then \<exists>m. decode f = Ok m \<and> carries oper m else decode f = Err Malformed)"

definition messages_of :: "bytes list \<Rightarrow> message list" where
  "messages_of = List.map_filter (\<lambda>f. res_ok (decode f))"

lemma messages_of_simps [simp]:
  "messages_of [] = []"
  "decode f = Ok m \<Longrightarrow> messages_of (f # fs) = m # messages_of fs"
  "decode f = Err x \<Longrightarrow> messages_of (f # fs) = messages_of fs"
  "decode f = Panic \<Longrightarrow> messages_of (f # fs) = messages_of fs"
  by (simp_all add: messages_of_def res_ok_def)

definition live_client :: "host_client \<Rightarrow> bool" where
  "live_client c \<longleftrightarrow> hc_phase c = Live \<and> length (hc_session c) = 16
     \<and> offset_ok (hc_local_offset_minutes c)"

definition same_link :: "host_client \<Rightarrow> host_client \<Rightarrow> bool" where
  "same_link c d \<longleftrightarrow> hc_phase d = hc_phase c \<and> hc_session d = hc_session c
     \<and> hc_local_offset_minutes d = hc_local_offset_minutes c"

lemma handle_Live_frames:
  "hc_phase c = Live \<Longrightarrow> out_frames (snd (handle m c out)) = out_frames out"
  by (auto simp: handle_def handle_control_def push_event_def split: message.splits control_body.splits)

lemma deliver_all_Live:
  "deliver_all fs (c, out) = Ok (d, o') \<Longrightarrow> hc_phase c = Live \<Longrightarrow> d = c \<and> out_frames o' = out_frames out"
proof (induction fs arbitrary: c out)
  case Nil
  then show ?case by simp
next
  case (Cons f fs)
  then obtain c1 o1 where f: "deliver f (c, out) = Ok (c1, o1)" and fs: "deliver_all fs (c1, o1) = Ok (d, o')"
    by (auto simp: and_then_eq_Ok)
  from f consider m where "(c1, o1) = handle m c out" | "c1 = c" "o1 = out"
    unfolding deliver_Ok by blast
  then have "c1 = c \<and> out_frames o1 = out_frames out"
    using handle_Live [OF Cons.prems(2)] handle_Live_frames [OF Cons.prems(2)]
    by cases (metis fst_conv snd_conv, simp)
  then show ?case
    using Cons.IH [OF fs] Cons.prems(2) by simp
qed

lemma encode_snapshot_frame:
  assumes "envelope_ok e" and "env_kind e = MtSnapshot" and "snapshot_ok s"
  obtains f where "encode_groups e s = Ok f" and "decode f = Ok (MsgSnapshot e s)"
  using admitted_snapshot_back [OF assms(1,2) snapshot_okD(1) [OF assms(3)]] snapshot_okD(2) [OF assms(3)]
  by metis

definition snapshot_envelope :: "host_client \<Rightarrow> u64 option \<Rightarrow> envelope" where
  "snapshot_envelope c utc = (hc_envelope (c\<lparr>hc_sequence := hc_sequence c + 1\<rparr>) MtSnapshot
     (hc_session c) (hc_sequence c + 1))\<lparr>env_utc_ms := utc\<rparr>"

lemma snapshot_envelope_facts:
  assumes "live_client c"
  shows "envelope_ok (snapshot_envelope c utc)"
    and "env_kind (snapshot_envelope c utc) = MtSnapshot"
    and "env_session (snapshot_envelope c utc) = hc_session c"
    and "env_sequence (snapshot_envelope c utc) = hc_sequence c + 1"
    and "env_utc_ms (snapshot_envelope c utc) = utc"
    and "hc_snapshot s utc c = (res_ok (encode_groups (snapshot_envelope c utc) s),
           c\<lparr>hc_sequence := hc_sequence c + 1\<rparr>)"
  using assms hc_envelope_ok [of "hc_session c" "c\<lparr>hc_sequence := hc_sequence c + 1\<rparr>" MtSnapshot
      "hc_sequence c + 1"]
  by (simp_all add: snapshot_envelope_def live_client_def envelope_ok_def wf_envelope_def hc_snapshot_def
      next_sequence_def)

lemma live_send:
  assumes "client_step oper c = Ok (d, out)" and "live_client c" and "live_op oper"
    and "framed_op oper"
  obtains f where "out_frames out = [f]" and "op_outcome oper f"
    and "\<And>m. decode f = Ok m \<Longrightarrow> env_session (message_envelope m) = hc_session c
           \<and> env_sequence (message_envelope m) = hc_sequence c + 1"
    and "hc_sequence d = hc_sequence c + 1" and "same_link c d"
proof -
  have live: "hc_phase c = Live" "length (hc_session c) = 16" "offset_ok (hc_local_offset_minutes c)"
    using assms(2) by (simp_all add: live_client_def)
  note that' = that
  have command: thesis
    if "retry_command i operation c' = (fo, d)" "out_frames out = opt_frames fo"
      "c' = c\<lparr>hc_next_command := n\<rparr>" "readable_op oper"
      "\<And>e. carries oper (MsgControl e (BCommand \<lparr>cmd_command_identity = i, cmd_operation = operation\<rparr>))"
    for i operation fo c' n
  proof -
    let ?e = "hc_envelope (c'\<lparr>hc_sequence := hc_sequence c + 1\<rparr>) MtCommand (hc_session c) (hc_sequence c + 1)"
    let ?b = "BCommand \<lparr>cmd_command_identity = i, cmd_operation = operation\<rparr>"
    have "envelope_ok ?e"
      using live that(3) by (intro hc_envelope_ok) simp_all
    then obtain ct where "encode_control ?e ?b = Ok (frame_of ct)"
      "decode (frame_of ct) = Ok (MsgControl ?e ?b)"
      using control_framed [of ?e ?b] by (auto simp: control_ok_def wf_control_def)
    with that live show thesis
      using that'
      by (intro that' [of "frame_of ct"])
        (auto simp: retry_command_def next_sequence_def res_ok_def opt_frames_def message_envelope_def
          same_link_def op_outcome_def)
  qed
  show ?thesis
  proof (cases oper)
    case (OpSnapshot s utc)
    note e = snapshot_envelope_facts [OF assms(2), where utc = utc]
    have "snapshot_admitted s"
      using assms(3,4) OpSnapshot by (simp add: snapshot_admitted_def)
    then obtain f where f: "encode_groups (snapshot_envelope c utc) s = Ok f"
      and good: "cpu_in_bounds s \<Longrightarrow> decode f = Ok (MsgSnapshot (snapshot_envelope c utc) s)"
      and bad: "\<not> cpu_in_bounds s \<Longrightarrow> decode f = Err Malformed"
      using admitted_snapshot_back [OF e(1,2)] by metis
    have step: "hc_sequence d = hc_sequence c + 1" "same_link c d" "out_frames out = [f]"
      using assms(1) OpSnapshot e(6) [where s = s] f
      by (auto simp: frames_out_def res_ok_def opt_frames_def same_link_def)
    show ?thesis
    proof (cases "cpu_in_bounds s")
      case True
      moreover have "\<not> snapshot_refused s"
        using assms(4) OpSnapshot by simp
      ultimately show ?thesis
        using good step e
        by (intro that [of f])
          (simp_all add: OpSnapshot op_outcome_def message_envelope_def cpu_in_bounds_def)
    next
      case False
      with bad step show ?thesis
        by (intro that [of f]) (simp_all add: OpSnapshot op_outcome_def cpu_in_bounds_def)
    qed
  next
    case (OpCommand operation)
    obtain fo where fo: "retry_command (hc_next_command c) operation
        (c\<lparr>hc_next_command := hc_next_command c + 1\<rparr>) = (fo, d)" "out_frames out = opt_frames fo"
      using assms(1) OpCommand
      by (auto simp: hc_command_def Let_def frames_out_def opt_frames_def split: prod.splits option.splits)
    show ?thesis
      by (rule command [OF fo refl]) (simp_all add: OpCommand)
  next
    case (OpRetry i operation)
    obtain fo where fo: "retry_command i operation c = (fo, d)" "out_frames out = opt_frames fo"
      using assms(1) OpRetry by (auto simp: frames_out_def split: prod.splits)
    show ?thesis
      by (rule command [OF fo, of "hc_next_command c"]) (simp_all add: OpRetry)
  qed (use assms(4) in simp_all)
qed

text \<open>The other calls hand out nothing; a refused snapshot has used a sequence number.\<close>

lemma live_silent:
  assumes "client_step oper c = Ok (d, out)" and "live_client c" and "live_op oper"
    and "\<not> framed_op oper"
  shows "out_frames out = [] \<and> (hc_sequence d = hc_sequence c \<or> hc_sequence d = hc_sequence c + 1)
    \<and> same_link c d"
proof (cases oper)
  case (OpSnapshot s utc)
  note e = snapshot_envelope_facts [OF assms(2), where utc = utc]
  have "encode_groups (snapshot_envelope c utc) s = Err Malformed"
    using assms(4) OpSnapshot e(1,2) by (simp add: encode_groups_def envelope_ok_def put_offset_bytes)
  then show ?thesis
    using assms(1) OpSnapshot e(6) [where s = s]
    by (auto simp: frames_out_def res_ok_def opt_frames_def same_link_def)
next
  case (OpReceive bs)
  then have "hc_receive bs c = Ok (d, out)"
    using assms by simp
  then show ?thesis
  proof (rule hc_receive_Ok)
    fix fs t d' assume "deliver_all fs (c, output0) = Ok (d', out)" "d = d'\<lparr>hc_stream := t\<rparr>"
    then show ?thesis
      using deliver_all_Live assms(2) by (fastforce simp: live_client_def output0_def same_link_def)
  qed
qed (use assms in simp_all)

lemma word_next_less:
  fixes n :: u32
  assumes "unat n + 1 < 2 ^ 32"
  shows "n < n + 1" and "unat (n + 1) = unat n + 1"
proof -
  show u: "unat (n + 1) = unat n + 1"
    using assms by (subst unat_word_ariths) simp
  show "n < n + 1"
    using u by (simp add: word_less_nat_alt)
qed

lemma live_run:
  "run_ops ops c = Ok (d, fs) \<Longrightarrow> live_client c \<Longrightarrow> list_all live_op ops \<Longrightarrow>
   unat (hc_sequence c) + length ops < 2 ^ 32 \<Longrightarrow>
   list_all2 op_outcome (filter framed_op ops) fs
     \<and> (\<forall>m \<in> set (messages_of fs). env_session (message_envelope m) = hc_session c)
     \<and> sorted_wrt (<) (hc_sequence c # map (\<lambda>m. env_sequence (message_envelope m)) (messages_of fs))"
proof (induction ops arbitrary: c fs)
  case Nil
  then show ?case by auto
next
  case (Cons oper ops)
  obtain c1 out fs1 where step: "client_step oper c = Ok (c1, out)"
    and rest: "run_ops ops c1 = Ok (d, fs1)" and fs: "fs = out_frames out @ fs1"
    using Cons.prems(1) by (auto simp: and_then_eq_Ok)
  note next' = word_next_less [of "hc_sequence c"]
  have IH: "list_all2 op_outcome (filter framed_op ops) fs1
     \<and> (\<forall>m \<in> set (messages_of fs1). env_session (message_envelope m) = hc_session c)
     \<and> sorted_wrt (<) (hc_sequence c1 # map (\<lambda>m. env_sequence (message_envelope m)) (messages_of fs1))"
    if "same_link c c1" "hc_sequence c1 = hc_sequence c \<or> hc_sequence c1 = hc_sequence c + 1"
  proof -
    have "live_client c1" "hc_session c1 = hc_session c"
      using that(1) Cons.prems(2) by (simp_all add: live_client_def same_link_def)
    moreover have "unat (hc_sequence c1) + length ops < 2 ^ 32"
      using that(2) next'(2) Cons.prems(4) by auto
    ultimately show ?thesis
      using Cons.IH [OF rest] Cons.prems(3) by simp
  qed
  have less: "hc_sequence c < hc_sequence c + 1"
    using next'(1) Cons.prems(4) by simp
  show ?case
  proof (cases "framed_op oper")
    case True
    obtain f where f: "out_frames out = [f]" "op_outcome oper f"
      and m: "\<And>m. decode f = Ok m \<Longrightarrow> env_session (message_envelope m) = hc_session c
           \<and> env_sequence (message_envelope m) = hc_sequence c + 1"
      and c1: "hc_sequence c1 = hc_sequence c + 1" "same_link c c1"
      using live_send [OF step Cons.prems(2) _ True] Cons.prems(3) by auto
    note ih = IH [OF c1(2) disjI2 [OF c1(1)]]
    show ?thesis
      using ih m f c1(1) True fs less
      by (cases "decode f") (auto intro: less_trans)
  next
    case False
    have out: "out_frames out = []" "same_link c c1"
      and s: "hc_sequence c1 = hc_sequence c \<or> hc_sequence c1 = hc_sequence c + 1"
      using live_silent [OF step Cons.prems(2) _ False] Cons.prems(3) by auto
    show ?thesis
      using IH [OF out(2) s] s out(1) False fs less by (auto intro: less_trans)
  qed
qed

text \<open>
  C33. On a live connection no frame is lost at the receiver's gate, whatever snapshots and
  commands are sent and whatever bytes come in, as long as the 32-bit sequence numbers do not
  wrap.  Each call to send puts exactly one frame on the wire, in order, unless it is a snapshot
  the encoder refuses.  The frame decodes to what was sent, except that of a snapshot with a
  CPU utilization above 1000 per mille, which the encoder lets through and no receiver can read.
  A \<open>SessionReceiver\<close> bound to the session that has seen no later number accepts every frame
  that decodes, in the order sent.
\<close>

theorem live_frames_are_accepted:
  assumes "live_client c" and "list_all live_op ops" and "run_ops ops c = Ok (d, fs)"
    and "unat (hc_sequence c) + length ops < 2 ^ 32"
    and "rcv_session r = Some (hc_session c)" and "rcv_last_sequence r \<le> hc_sequence c"
  shows "list_all2 (\<lambda>oper f. if readable_op oper then \<exists>m. decode f = Ok m \<and> carries oper m
        else decode f = Err Malformed) (filter framed_op ops) fs
     \<and> fst (accepted r (map message_envelope (messages_of fs))) = map message_envelope (messages_of fs)"
proof -
  have ms: "list_all2 op_outcome (filter framed_op ops) fs"
    "\<forall>m \<in> set (messages_of fs). env_session (message_envelope m) = hc_session c"
    "sorted_wrt (<) (hc_sequence c # map (\<lambda>m. env_sequence (message_envelope m)) (messages_of fs))"
    using live_run [OF assms(3,1,2,4)] by blast+
  have "fst (accepted r (map message_envelope (messages_of fs))) = map message_envelope (messages_of fs)"
    using ms(2,3) assms(5,6) by (intro accepted_all) (auto intro: le_less_trans simp: comp_def)
  with ms(1) show ?thesis
    by (simp add: op_outcome_def [abs_def])
qed

definition sample_live :: host_client where
  "sample_live = sample_client\<lparr>hc_phase := Live\<rparr>"

lemma sample_live_ok: "live_client sample_live"
  by (simp add: live_client_def sample_live_def sample_client_def hc_new_def offset_ok_def)

theorem live_frames_are_accepted_witness:
  "\<exists>d f g h. run_ops [OpSnapshot sample_snapshot None, OpSnapshot overfull_snapshot None, OpCommand Unpair]
       sample_live = Ok (d, [f, g, h])
     \<and> (\<exists>e. decode f = Ok (MsgSnapshot e sample_snapshot)) \<and> decode g = Err Malformed
     \<and> (\<exists>m. decode h = Ok m \<and> carries (OpCommand Unpair) m)
     \<and> length (fst (accepted (rcv_reset rcv_default (replicate 16 7))
         (map message_envelope (messages_of [f, g, h])))) = 2"
proof -
  let ?ops = "[OpSnapshot sample_snapshot None, OpSnapshot overfull_snapshot None, OpCommand Unpair]"
  obtain d fs where run: "run_ops ?ops sample_live = Ok (d, fs)"
    by (cases "run_ops ?ops sample_live") (auto simp: case_prod_beta)
  have "\<not> snapshot_refused sample_snapshot" "wf_snapshot sample_snapshot"
    "cpu_utilization_per_mille (snap_cpu sample_snapshot) \<le> 1000"
    "\<not> snapshot_refused overfull_snapshot" "wf_snapshot overfull_snapshot"
    "\<not> cpu_utilization_per_mille (snap_cpu overfull_snapshot) \<le> 1000"
    using snapshot_okD [OF sample_snapshot_ok] overfull_snapshot_admitted
    by (simp_all add: cpu_in_bounds_def snapshot_admitted_def) (simp add: overfull_snapshot_def)
  note ok = this
  have acc: "list_all2 (\<lambda>oper f. if readable_op oper then \<exists>m. decode f = Ok m \<and> carries oper m
        else decode f = Err Malformed) (filter framed_op ?ops) fs
    \<and> fst (accepted (rcv_reset rcv_default (replicate 16 7)) (map message_envelope (messages_of fs)))
      = map message_envelope (messages_of fs)"
    using ok by (intro live_frames_are_accepted [OF sample_live_ok _ run])
      (auto simp: sample_live_def sample_client_def hc_new_def rcv_reset_def)
  then obtain f g h where fs: "fs = [f, g, h]"
    using ok by (auto simp: list_all2_Cons1)
  obtain m m' where m: "decode f = Ok m" "carries (OpSnapshot sample_snapshot None) m"
    "decode g = Err Malformed" "decode h = Ok m'" "carries (OpCommand Unpair) m'"
    using acc fs ok by auto
  then obtain e where "m = MsgSnapshot e sample_snapshot"
    by (cases m) auto
  then show ?thesis
    using run acc m by (auto simp: fs)
qed

section \<open>The handshake\<close>

lemma drain_one:
  assumes "c \<noteq> []" and "length c \<le> 2042" and "fs_buffer s = []"
  shows "drain (fs_push s (frame_of c)) = ([frame_of c], s)"
  using drain_frames [of "[c]" "fs_dropped_bytes s"] assms by (cases s) simp

lemma receive_control:
  assumes "envelope_ok e" and "env_kind e = control_kind b" and "control_ok b"
    and "encode_control e b = Ok f" and "fs_buffer (hc_stream c) = []"
  shows "hc_receive f c = Ok (handle_control e b c output0)"
proof -
  obtain ct where f: "f = frame_of ct" "ct \<noteq> []" "length ct \<le> 692"
    and dec: "decode f = Ok (MsgControl e b)"
    using control_framed [OF assms(1-3)] assms(4) by (metis res.inject(1))
  have "drain (fs_push (hc_stream c) f) = ([f], hc_stream c)"
    unfolding f(1) using drain_one f(2,3) assms(5) by simp
  then have "hc_receive f c = and_then (deliver f (c, output0)) (\<lambda>y. Ok (set_stream (hc_stream c) y))"
    using hc_receive_deliver [of c f "[f]" "hc_stream c"] by (cases "deliver f (c, output0)") auto
  also have "\<dots> = Ok (set_stream (hc_stream c) (handle (MsgControl e b) c output0))"
    by (simp add: deliver_def dec)
  also have "set_stream (hc_stream c) (handle (MsgControl e b) c output0) = handle (MsgControl e b) c output0"
    unfolding set_stream_def handle_set_stream [symmetric] by simp
  finally show ?thesis
    by (simp add: handle_def)
qed

lemma handshake_steps:
  assumes c0: "c0 = hc_new host known code session" "client_wf c0"
    and code: "100000 \<le> code" "code \<le> 999999"
    and reply: "envelope_ok e1" "env_kind e1 = MtHelloReply" "encode_control e1 (BHelloReply v) = Ok f1"
    and pair: "envelope_ok e2" "env_kind e2 = MtPair" "env_session e2 = session"
      "length device = 16" "encode_control e2 (BPair \<lparr>pair_pairing_identity = device,
         pair_intended_peer_identity = host, pair_matching_code = code\<rparr>) = Ok f2"
  shows "\<exists>c1 c2 f e p.
      hc_receive f1 (snd (hc_start utc c0)) = Ok (c1, \<lparr>out_frames = [f], out_events =
        [Negotiated (hel_supported_major v) (hel_supported_minor v)]\<rparr>)
    \<and> decode f = Ok (MsgControl e (BPair p)) \<and> env_session e = session
    \<and> pair_pairing_identity p = host \<and> pair_matching_code p = code
    \<and> hc_receive f2 c1 = Ok (c2, \<lparr>out_frames = [], out_events = [Paired device]\<rparr>)
    \<and> hc_phase c2 = Live \<and> hc_sequence c2 = 0 \<and> hc_phase c1 = PairSent"
proof -
  let ?h = "snd (hc_start utc c0)" and ?p = "\<lparr>pair_pairing_identity = device,
         pair_intended_peer_identity = host, pair_matching_code = code\<rparr>"
  let ?c1 = "?h\<lparr>hc_minor := 0, hc_phase := PairSent\<rparr>" and ?hp = "?h\<lparr>hc_minor := 0\<rparr>"
  have h: "?h = c0\<lparr>hc_phase := HelloSent\<rparr>"
    by (simp add: hc_start_def Let_def)
  have wf: "client_wf ?hp"
    using c0(2) by (simp add: h client_wf_def)
  let ?b = "BPair \<lparr>pair_pairing_identity = hc_host ?hp,
       pair_intended_peer_identity = (case hc_known_device ?hp of None \<Rightarrow> ZERO | Some d \<Rightarrow> d),
       pair_matching_code = hc_code ?hp\<rparr>"
  have "envelope_ok (hc_envelope ?hp MtPair session 2)"
    using c0
    by (intro hc_envelope_ok) (simp_all add: hc_start_def Let_def client_wf_def hc_new_def offset_ok_def)
  moreover have "control_ok ?b"
    using wf code c0(1)
    by (auto simp: control_ok_def wf_control_def client_wf_def ZERO_def hc_start_def Let_def hc_new_def split: option.splits)
  ultimately obtain f where "encode_control (hc_envelope ?hp MtPair session 2) ?b = Ok f"
    using control_framed [of "hc_envelope ?hp MtPair session 2" ?b] by auto
  then have f: "pair_frame ?hp = Ok f"
    using c0 by (simp add: pair_frame_def hc_start_def Let_def hc_new_def)
  have "hc_receive f1 ?h = Ok (handle_control e1 (BHelloReply v) ?h output0)"
    using reply c0 by (intro receive_control) (simp_all add: control_ok_def wf_control_def hc_start_def Let_def hc_new_def fs_default_def)
  then have one: "hc_receive f1 ?h = Ok (?c1, \<lparr>out_frames = [f], out_events =
      [Negotiated (hel_supported_major v) (hel_supported_minor v)]\<rparr>)"
    using f by (simp add: handle_control_def h push_event_def push_frame_def output0_def)
  have "length host = 16"
    using c0 by (simp add: client_wf_def hc_new_def)
  then have "hc_receive f2 ?c1 = Ok (handle_control e2 (BPair ?p) ?c1 output0)"
    using pair code c0
    by (intro receive_control) (simp_all add: control_ok_def wf_control_def hc_start_def Let_def hc_new_def fs_default_def)
  then have two: "hc_receive f2 ?c1 = Ok (?c1\<lparr>hc_phase := Live, hc_sequence := 0\<rparr>,
      \<lparr>out_frames = [], out_events = [Paired device]\<rparr>)"
    using pair c0 by (simp add: handle_control_def hc_start_def Let_def hc_new_def push_event_def output0_def)
  show ?thesis
    by (rule exI [of _ ?c1], rule exI [of _ "?c1\<lparr>hc_phase := Live, hc_sequence := 0\<rparr>"], intro exI conjI,
        rule one, rule pair_frame_decodes [OF f wf], simp_all only: two)
      (simp_all add: c0(1) hc_start_def Let_def hc_new_def)
qed

text \<open>
  The handshake completes. A new client that has sent its Hello and receives the frame of
  any device's HelloReply answers with exactly one frame, the Pair message with its session,
  its identity and its code; when it then receives the device's Pair for this session, this
  host and this code, it is live with its sequence at zero and reports the device's identity.
\<close>

theorem handshake_completes:
  assumes c0: "c0 = hc_new host known code session" "client_wf c0"
    and code: "100000 \<le> code" "code \<le> 999999"
    and reply: "envelope_ok e1" "env_kind e1 = MtHelloReply" "encode_control e1 (BHelloReply v) = Ok f1"
    and pair: "envelope_ok e2" "env_kind e2 = MtPair" "env_session e2 = session"
      "length device = 16" "encode_control e2 (BPair \<lparr>pair_pairing_identity = device,
         pair_intended_peer_identity = host, pair_matching_code = code\<rparr>) = Ok f2"
  shows "\<exists>c1 c2 f e p.
      hc_receive f1 (snd (hc_start utc c0)) = Ok (c1, \<lparr>out_frames = [f], out_events =
        [Negotiated (hel_supported_major v) (hel_supported_minor v)]\<rparr>)
    \<and> decode f = Ok (MsgControl e (BPair p)) \<and> env_session e = session
    \<and> pair_pairing_identity p = host \<and> pair_matching_code p = code
    \<and> hc_receive f2 c1 = Ok (c2, \<lparr>out_frames = [], out_events = [Paired device]\<rparr>)
    \<and> hc_phase c2 = Live \<and> hc_sequence c2 = 0"
  using handshake_steps [OF assms, of utc] by blast

text \<open>The frames with which a device answers the sample client.\<close>

definition sample_reply :: hello_body where
  "sample_reply = \<lparr>hel_supported_major = 1, hel_supported_minor = 0, hel_capabilities = 0,
    hel_configuration_revision = 0, hel_utc_ms = None, hel_utc_uncertainty_ms = None\<rparr>"

definition sample_pair :: pair_body where
  "sample_pair = \<lparr>pair_pairing_identity = replicate 16 9, pair_intended_peer_identity = replicate 16 1,
    pair_matching_code = 123456\<rparr>"

lemma sample_device_frames:
  obtains f1 f2 where "encode_control (sample_envelope MtHelloReply) (BHelloReply sample_reply) = Ok f1"
    and "encode_control (sample_envelope MtPair) (BPair sample_pair) = Ok f2"
proof -
  have ok: "control_ok (BHelloReply sample_reply)" "control_ok (BPair sample_pair)"
    by (simp_all add: control_ok_def wf_control_def sample_reply_def sample_pair_def)
  obtain c where c: "encode_control (sample_envelope MtHelloReply) (BHelloReply sample_reply) = Ok (frame_of c)"
    by (rule control_framed [OF sample_envelope_ok(1) _ ok(1)]) (simp_all add: sample_envelope_ok)
  obtain d where d: "encode_control (sample_envelope MtPair) (BPair sample_pair) = Ok (frame_of d)"
    by (rule control_framed [OF sample_envelope_ok(1) _ ok(2)]) (simp_all add: sample_envelope_ok)
  from c d show ?thesis
    by (rule that)
qed

lemma sample_client_facts:
  "client_wf sample_client" "env_session (sample_envelope MtPair) = replicate 16 7"
  "100000 \<le> (123456 :: u32)" "123456 \<le> (999999 :: u32)" "length (replicate 16 (9 :: u8)) = 16"
  by (simp_all add: client_wf_def sample_client_def hc_new_def) (simp only: sample_envelope_def envelope.simps)

theorem handshake_completes_witness:
  "\<exists>f1 f2 c1 c2 o1.
      hc_receive f1 (snd (hc_start None sample_client)) = Ok (c1, o1)
    \<and> hc_receive f2 c1 = Ok (c2, \<lparr>out_frames = [], out_events = [Paired (replicate 16 9)]\<rparr>)
    \<and> hc_phase c2 = Live"
proof -
  obtain f1 f2 where f: "encode_control (sample_envelope MtHelloReply) (BHelloReply sample_reply) = Ok f1"
    "encode_control (sample_envelope MtPair) (BPair sample_pair) = Ok f2"
    by (rule sample_device_frames)
  note s = sample_client_facts
  show ?thesis
    using handshake_completes [OF sample_client_def s(1,3,4) sample_envelope_ok f(1) sample_envelope_ok s(2,5)
        f(2) [unfolded sample_pair_def], of None]
    by blast
qed

end
