(* ===== verification/Metric_Groups_Correct.thy ===== *)
theory Metric_Groups_Correct
  imports Metric_Groups Client_Runs
begin

text \<open>
  From collectors to the wire: every collector keeps the contract \<open>collector\<close>, every wire group
  made from a contract-abiding sample is one the codecs accept, and so one second of
  collection always gives a snapshot that a live client sends and a display decodes.
\<close>

section \<open>Battery and network keep the contract\<close>

definition capacity_ok :: "battery_condition_reading \<Rightarrow> bool" where
  "capacity_ok r \<longleftrightarrow> (\<forall>c. bco_max_capacity_per_mille r = Some c \<longrightarrow> c \<le> 1000)"

definition answer_ok :: "profile_result \<Rightarrow> bool" where
  "answer_ok r \<longleftrightarrow> (\<forall>v. r = Inr (Battery v) \<longrightarrow> capacity_ok v)"

definition battery_state_ok :: "battery_collector \<Rightarrow> bool" where
  "battery_state_ok c \<longleftrightarrow> (\<forall>v t. bac_condition c = CcSample v t \<longrightarrow> capacity_ok v)
     \<and> (\<forall>t r. sl_done (bac_slot c) = Some (t, r) \<longrightarrow> answer_ok r)"

definition battery_reading_ok :: "battery_reading \<Rightarrow> bool" where
  "battery_reading_ok r \<longleftrightarrow> ms_wf (brd_charge r) \<and> ms_wf (brd_condition r)
     \<and> (\<forall>v. ms_value (brd_condition r) = Some v \<longrightarrow> capacity_ok v)"

lemma apply_finished_ok: "battery_state_ok c \<Longrightarrow> battery_state_ok (apply_finished now c)"
  by (auto simp: battery_state_ok_def apply_finished_def answer_ok_def Let_def
      split: option.splits sum.splits power_profile.splits)

lemma start_run_ok: "battery_state_ok c \<Longrightarrow> battery_state_ok (start_run_if_due sp now c)"
  by (auto simp: battery_state_ok_def start_run_if_due_def)

lemma charge_collect_ok: "battery_state_ok c \<Longrightarrow> battery_state_ok (snd (charge_collect c ps probe now))"
  using charge_collect_keeps [of c ps probe now] by (simp add: battery_state_ok_def)

lemma charge_collect_wf: "ms_wf (fst (fst (charge_collect c ps probe now)))"
  by (auto simp: charge_collect_def Let_def split: option.splits prod.splits)

lemma condition_collect_ok:
  assumes "battery_state_ok c"
  shows "battery_state_ok (snd (condition_collect c sp now))"
    and "ms_wf (fst (fst (condition_collect c sp now)))"
    and "ms_value (fst (fst (condition_collect c sp now))) = Some v \<Longrightarrow> capacity_ok v"
proof -
  let ?c = "start_run_if_due sp now (apply_finished now c)"
  have ok: "battery_state_ok ?c"
    by (intro start_run_ok apply_finished_ok assms)
  then show "battery_state_ok (snd (condition_collect c sp now))"
    by (simp add: condition_collect_def Let_def)
  show "ms_wf (fst (fst (condition_collect c sp now)))"
    by (auto simp: condition_collect_def Let_def
        split: condition_cache.splits option.splits profile_failure.splits profile_error.splits)
  show "capacity_ok v" if "ms_value (fst (fst (condition_collect c sp now))) = Some v"
    using ok that by (auto simp: battery_state_ok_def condition_collect_def Let_def split: condition_cache.splits)
qed

interpretation batc: collector "\<lambda>c (power_source, probe, spawned) t. battery_collect c power_source probe spawned t"
    battery_on_wake battery_state_ok "\<lambda>_. True" battery_reading_ok
proof
  fix c and i :: "string option \<times> charge_probe \<times> bool" and t v
  obtain ps probe sp where i: "i = (ps, probe, sp)" by (cases i)
  let ?c = "snd (charge_collect c ps probe t)"
  have eq: "battery_collect c ps probe sp t =
      (ms_available \<lparr>brd_charge = fst (fst (charge_collect c ps probe t)),
          brd_charge_age_ms = snd (fst (charge_collect c ps probe t)),
          brd_condition = fst (fst (condition_collect ?c sp t)),
          brd_condition_age_ms = snd (fst (condition_collect ?c sp t))\<rparr>,
       snd (condition_collect ?c sp t))"
    by (simp add: battery_collect_def Let_def split: prod.split)
  show "ms_wf (fst ((\<lambda>(power_source, probe, spawned) t. battery_collect c power_source probe spawned t) i t))"
    by (simp add: i eq)
  assume ok: "battery_state_ok c"
  note cond = condition_collect_ok [OF charge_collect_ok [OF ok, of ps probe t], of sp t]
  show "battery_state_ok (snd ((\<lambda>(power_source, probe, spawned) t. battery_collect c power_source probe spawned t) i t))"
    by (simp add: i eq cond(1))
  show "battery_reading_ok v"
    if "ms_value (fst ((\<lambda>(power_source, probe, spawned) t. battery_collect c power_source probe spawned t) i t)) = Some v"
    using that cond(2,3) charge_collect_wf by (auto simp: i eq battery_reading_ok_def)
next
  show "battery_state_ok (battery_on_wake c)" if "battery_state_ok c" for c
    using that by (simp add: battery_state_ok_def battery_on_wake_def)
qed

definition view_input_ok :: "system_view option \<times> context_reading \<Rightarrow> bool" where
  "view_input_ok i \<longleftrightarrow> (\<forall>v. fst i = Some v \<longrightarrow> view_ok v) \<and> ctx_ok (cr_context (snd i))"

definition network_reading_ok :: "network_reading \<Rightarrow> bool" where
  "network_reading_ok g \<longleftrightarrow> traffic_ok (ng_traffic g) \<and> wifi_ok (ng_wifi g)"

text \<open>\<open>net_collect\<close> without its panic, which a well-formed view excludes.\<close>

definition net_collect_value :: "samplers \<Rightarrow> system_view option \<times> context_reading \<Rightarrow> u64
    \<Rightarrow> network_reading metric_sample \<times> samplers" where
  "net_collect_value s i t = (case net_collect s (fst i) (snd i) t of
      Ok r \<Rightarrow> r | _ \<Rightarrow> (ms_unavailable MError, s))"

lemma net_collect_value:
  assumes "view_input_ok i"
  obtains g s' where "net_collect s (fst i) (snd i) t = Ok (ms_available g, s')"
    and "net_collect_value s i t = (ms_available g, s')" and "network_reading_ok g"
  using net_collect_ok [of "fst i" "snd i" s t] assms that
  by (auto simp: view_input_ok_def net_collect_value_def network_reading_ok_def)

interpretation netc: collector net_collect_value net_on_wake "\<lambda>_. True" view_input_ok network_reading_ok
proof
  fix s i t v
  assume i: "view_input_ok i"
  obtain g s' where "net_collect_value s i t = (ms_available g, s')" "network_reading_ok g"
    using net_collect_value [OF i] by metis
  then show "ms_wf (fst (net_collect_value s i t))"
    and "ms_value (fst (net_collect_value s i t)) = Some v \<Longrightarrow> network_reading_ok v"
    by auto
qed auto

section \<open>Wire groups of admissible samples\<close>

lemma cpu_wire_ok:
  assumes "\<And>v. ms_value m = Some v \<Longrightarrow> v \<le> 1000"
  shows "cpu_utilization_per_mille (cpu_wire m) \<le> 1000"
  using assms by (simp add: cpu_wire_def split: option.split)

lemma ram_wire_ok:
  assumes "\<And>v. ms_value m = Some v \<Longrightarrow> ram_ok_reading v"
  shows "ram_ok (ram_wire_group m)"
  using assms by (simp add: ram_wire_group_def ram_ok_def ram_ok_reading_def split: option.split)

lemma storage_wire_ok: "storage_snapshot_of r = Some s \<Longrightarrow> storage_ok s"
  by (auto simp: storage_snapshot_of_def storage_ok_def option_filter_def Let_def split: option.splits if_splits)

lemma battery_num_bounds: "battery_state_num b \<le> 4" "battery_condition_num c \<le> 3"
  by (cases b; simp) (cases c; simp)

lemma battery_wire_ok:
  assumes "battery_snapshot_of r = Some s" and "\<And>v. r = Some v \<Longrightarrow> battery_reading_ok v"
  shows "battery_ok s"
  using assms battery_num_bounds
  by (fastforce simp: battery_snapshot_of_def battery_ok_def battery_reading_ok_def capacity_ok_def Let_def
      split: option.splits bind_splits)

lemma agent_state_num_bound: "agent_state_num s \<le> 3"
  by (cases s) simp_all

lemma agents_wire_ok:
  assumes "\<And>v. ms_value m = Some v \<Longrightarrow> agents_reading_ok v"
  shows "agents_ok (agents_snapshot_of m)"
  using assms agent_state_num_bound
  by (auto simp: agents_snapshot_of_def agents_ok_def agents_reading_ok_def AGENT_SLOTS_def list_all_iff
      split: option.splits)

lemma wire_route_simps:
  "wire_route k \<in> {RouteUnknown, RouteNone} \<longleftrightarrow> k \<in> {NrUnknown, NrNone}"
  "wire_route k \<in> {RouteWifi, RouteEthernet, RouteOther} \<longleftrightarrow> k \<in> {NrWifi, NrEthernet, NrOther}"
  by (cases k; simp)+

lemma wire_context_available: "wire_context a = CtxAvailable \<longleftrightarrow> a = CaAvailable"
  by (cases a) simp_all

lemma wire_coverage_unknown: "wire_coverage c = CovUnknown \<longleftrightarrow> c = CoUnknown"
  by (cases c) simp_all

lemma wire_availability_available: "wire_availability a = Available \<longleftrightarrow> a = MAvailable"
  by (cases a) simp_all

lemma network_wire_valid:
  assumes "network_reading_ok g"
  shows "network_is_valid (network_wire g)" and "wf_mac (net_station (network_wire g))"
    and "wf_mac (net_bssid (network_wire g))"
proof -
  have t: "th_rate (ng_traffic g) \<noteq> None \<longleftrightarrow> th_availability (ng_traffic g) = MAvailable"
    "length (th_links (ng_traffic g)) \<le> 8" "set (th_links (ng_traffic g)) \<subseteq> {NrWifi, NrEthernet, NrOther}"
    "th_via_tunnel (ng_traffic g) \<Longrightarrow> th_route_kind (ng_traffic g) \<notin> {NrUnknown, NrNone}"
    using assms by (auto simp: network_reading_ok_def traffic_ok_def)
  have w: "wh_coverage (ng_wifi g) = CoUnknown \<Longrightarrow> wh_channel (ng_wifi g) = 0"
    "length (wh_ssid (ng_wifi g)) \<le> 32" "mac_ok (wh_station (ng_wifi g))" "mac_ok (wh_bssid (ng_wifi g))"
    "wh_ssid (ng_wifi g) \<noteq> [] \<or> wh_bssid (ng_wifi g) \<noteq> None \<Longrightarrow> wh_availability (ng_wifi g) = CaAvailable"
    using assms by (auto simp: network_reading_ok_def wifi_ok_def)
  have tunnel: "\<not> (net_via_tunnel (network_wire g) \<and> net_route_kind (network_wire g) \<in> {RouteUnknown, RouteNone})"
    using t(4) wire_route_simps(1) by (auto simp: network_wire_def Let_def)
  have rate: "\<not> (net_traffic_availability (network_wire g) \<noteq> Available
      \<and> (net_rx_bytes_per_s (network_wire g) \<noteq> 0 \<or> net_tx_bytes_per_s (network_wire g) \<noteq> 0))"
    using t(1) by (auto simp: network_wire_def Let_def wire_availability_available split: option.splits)
  have links: "\<not> (MAX_LINKS < length (map wire_route (th_links (ng_traffic g)))
      \<or> list_ex (\<lambda>k. k \<notin> {RouteWifi, RouteEthernet, RouteOther}) (map wire_route (th_links (ng_traffic g))))"
    using t(2,3) wire_route_simps(2) by (auto simp: MAX_LINKS_def list_ex_iff)
  have ident: "wh_ssid (ng_wifi g) = [] \<and> wh_bssid (ng_wifi g) = None \<or> wh_availability (ng_wifi g) = CaAvailable"
    using w(5) by blast
  have context_half: "net_coverage (network_wire g) = CovUnknown \<longrightarrow> net_channel (network_wire g) = 0"
    "length (net_ssid (network_wire g)) \<le> MAX_SSID_BYTES"
    "net_ssid (network_wire g) = [] \<and> net_bssid (network_wire g) = None
      \<or> net_context_availability (network_wire g) = CtxAvailable"
    using w(1,2) ident
    by (auto simp: network_wire_def Let_def wire_coverage_unknown wire_context_available MAX_SSID_BYTES_def)
  have "net_links (network_wire g) = Some (map wire_route (th_links (ng_traffic g)))"
    by (simp add: network_wire_def Let_def)
  then show "network_is_valid (network_wire g)"
    unfolding network_is_valid_def using tunnel rate links context_half by auto
  show "wf_mac (net_station (network_wire g))" "wf_mac (net_bssid (network_wire g))"
    using w(3,4) by (auto simp: network_wire_def Let_def wf_mac_def mac_ok_def split: option.split)
qed

lemma network_snapshot_of_ok:
  assumes "network_reading_ok g"
  shows "network_snapshot_of (Some g) = network_wire g" and "network_ok (network_snapshot_of (Some g))"
  using network_wire_valid [OF assms] by (simp_all add: network_snapshot_of_def Let_def network_ok_def)

lemma snapshot_okI:
  assumes "cpu_utilization_per_mille (snap_cpu s) \<le> 1000"
    and "\<And>r. snap_ram s = Some r \<Longrightarrow> ram_ok r" and "\<And>t. snap_storage s = Some t \<Longrightarrow> storage_ok t"
    and "\<And>b. snap_battery s = Some b \<Longrightarrow> battery_ok b" and "\<And>a. snap_agents s = Some a \<Longrightarrow> agents_ok a"
    and "\<And>n. snap_network s = Some n \<Longrightarrow> network_ok n"
  shows "snapshot_ok s"
  using assms
  by (auto simp: snapshot_ok_def snapshot_admitted_def cpu_in_bounds_def snapshot_refused_def
      wf_snapshot_def ram_ok_def storage_ok_def
      battery_ok_def agents_ok_def network_ok_def list_ex_iff list_all_iff not_less split: option.split)

section \<open>One second\<close>

definition groups_ok :: "groups \<Rightarrow> bool" where
  "groups_ok g \<longleftrightarrow> battery_state_ok (grp_battery g) \<and> presence_ok (grp_agents g)"

definition inputs_ok :: "inputs \<Rightarrow> bool" where
  "inputs_ok i \<longleftrightarrow> disks_ok (in_capacity i, in_disks i) \<and> view_input_ok (in_view i, in_context i)"

lemma groups_new_ok: "groups_ok (groups_new uid home)"
  by (simp add: groups_ok_def groups_new_def battery_state_ok_def battery_new_def presence_ok_def
      agents_new_def cache_new_def)

lemma groups_wake_ok: "groups_ok g \<Longrightarrow> groups_ok (groups_wake g)"
  using batc.wakes agtc.wakes by (simp add: groups_ok_def groups_wake_def)

text \<open>The snapshot of one second, written out.\<close>

lemma groups_collect_Ok:
  assumes "groups_ok g" and "inputs_ok i"
  obtains s r g' n where "groups_collect g i t = Ok ((s, r), g')"
    and "snap_cpu s = cpu_wire (fst (cpu_collect (grp_cpu g) (in_ticks i) t))"
    and "snap_ram s = Some (ram_wire_group (ram_collect (in_memory i)))"
    and "snap_storage s = storage_snapshot_of
      (ms_value (fst (storage_collect (grp_storage g) (in_capacity i) (in_disks i) t)))"
    and "snap_battery s = battery_snapshot_of
      (ms_value (fst (battery_collect (grp_battery g) (in_power_source i) (in_charge i) (in_spawned i) t)))"
    and "snap_agents s = Some (agents_snapshot_of
      (fst (agents_collect (grp_agents g) (in_processes i) (in_hooks i) t)))"
    and "snap_network s = Some (network_wire n)" and "network_reading_ok n"
    and "groups_ok g'" and "map fst (rpt_availability r) = [''cpu'', ''ram'', ''storage'', ''battery'', ''agents'', ''network'']"
    and "net_collect (grp_network g) (in_view i) (in_context i) t = Ok (ms_available n, grp_network g')"
proof -
  obtain n s' where n: "net_collect (grp_network g) (in_view i) (in_context i) t = Ok (ms_available n, s')"
    "network_reading_ok n"
    using net_collect_value [of "(in_view i, in_context i)" "grp_network g" t] assms(2)
    unfolding inputs_ok_def by (metis fst_conv snd_conv)
  have bat: "battery_state_ok (snd (battery_collect (grp_battery g) (in_power_source i) (in_charge i) (in_spawned i) t))"
    using batc.keeps [of "grp_battery g" "(in_power_source i, in_charge i, in_spawned i)" t] assms(1)
    by (simp add: groups_ok_def)
  have agt: "presence_ok (snd (agents_collect (grp_agents g) (in_processes i) (in_hooks i) t))"
    using agtc.keeps [of "grp_agents g" "(in_processes i, in_hooks i)" t] assms(1)
    by (simp add: groups_ok_def)
  have sto: "\<exists>x. storage_snapshot_of
      (ms_value (fst (storage_collect (grp_storage g) (in_capacity i) (in_disks i) t))) = Some x"
    by (auto simp: storage_collect_def storage_snapshot_of_def Let_def split: prod.split)
  have bts: "\<exists>x. battery_snapshot_of (ms_value (fst (battery_collect (grp_battery g) (in_power_source i)
      (in_charge i) (in_spawned i) t))) = Some x"
    by (auto simp: battery_collect_def battery_snapshot_of_def Let_def split: prod.split)
  obtain mc cc ms cs mb cb ma ca where calls:
    "cpu_collect (grp_cpu g) (in_ticks i) t = (mc, cc)"
    "storage_collect (grp_storage g) (in_capacity i) (in_disks i) t = (ms, cs)"
    "battery_collect (grp_battery g) (in_power_source i) (in_charge i) (in_spawned i) t = (mb, cb)"
    "agents_collect (grp_agents g) (in_processes i) (in_hooks i) t = (ma, ca)"
    by (metis prod.collapse)
  let ?s = "\<lparr>snap_cpu = cpu_wire mc, snap_ram = Some (ram_wire_group (ram_collect (in_memory i))),
      snap_storage = storage_snapshot_of (ms_value ms), snap_battery = battery_snapshot_of (ms_value mb),
      snap_agents = Some (agents_snapshot_of ma), snap_network = Some (network_wire n)\<rparr>"
  let ?g = "\<lparr>grp_cpu = cc, grp_storage = cs, grp_battery = cb, grp_agents = ca, grp_network = s'\<rparr>"
  have "\<exists>r. groups_collect g i t = Ok ((?s, r), ?g)
      \<and> map fst (rpt_availability r) = [''cpu'', ''ram'', ''storage'', ''battery'', ''agents'', ''network'']"
    using n sto bts unfolding calls fst_conv snd_conv
    by (auto simp: groups_collect_def cpu_collect_into_def ram_collect_into_def
        storage_collect_into_def battery_collect_into_def agents_collect_into_def network_collect_into_def
        snapshot_new_def report_default_def report_status_def report_set_cpu_def report_set_ram_def
        network_snapshot_of_ok Let_def calls)
  then obtain r where r: "groups_collect g i t = Ok ((?s, r), ?g)
      \<and> map fst (rpt_availability r) = [''cpu'', ''ram'', ''storage'', ''battery'', ''agents'', ''network'']"
    by (rule exE)
  have kept: "groups_ok ?g"
    using bat agt unfolding calls by (simp add: groups_ok_def)
  show ?thesis
    by (rule that [OF r [THEN conjunct1] _ _ _ _ _ _ n(2) kept r [THEN conjunct2]]) (simp_all add: calls n(1))
qed

lemma collected_snapshot_ok:
  assumes "groups_ok g" and "inputs_ok i" and "groups_collect g i t = Ok ((s, r), g')"
  shows "snapshot_ok s"
proof (rule groups_collect_Ok [OF assms(1,2), of t])
  fix s' r' g'' n
  assume eq: "groups_collect g i t = Ok ((s', r'), g'')"
    and cpu: "snap_cpu s' = cpu_wire (fst (cpu_collect (grp_cpu g) (in_ticks i) t))"
    and ram: "snap_ram s' = Some (ram_wire_group (ram_collect (in_memory i)))"
    and sto: "snap_storage s' = storage_snapshot_of
      (ms_value (fst (storage_collect (grp_storage g) (in_capacity i) (in_disks i) t)))"
    and bat: "snap_battery s' = battery_snapshot_of
      (ms_value (fst (battery_collect (grp_battery g) (in_power_source i) (in_charge i) (in_spawned i) t)))"
    and agt: "snap_agents s' = Some (agents_snapshot_of
      (fst (agents_collect (grp_agents g) (in_processes i) (in_hooks i) t)))"
    and net: "snap_network s' = Some (network_wire n)" and n: "network_reading_ok n"
  have states: "battery_state_ok (grp_battery g)" "presence_ok (grp_agents g)"
    using assms(1) by (simp_all add: groups_ok_def)
  have ram_reading: "ram_ok_reading v" if "ms_value (ram_collect x) = Some v" for x v
    using ramc.reading [where v = v and i = x] that by simp
  have "snapshot_ok s'"
  proof (rule snapshot_okI)
    show "cpu_utilization_per_mille (snap_cpu s') \<le> 1000"
      unfolding cpu using cpuc.reading by (intro cpu_wire_ok) simp
    show "ram_ok x" if "snap_ram s' = Some x" for x
      using that ram_reading unfolding ram by (auto intro: ram_wire_ok)
    show "storage_ok x" if "snap_storage s' = Some x" for x
      using that storage_wire_ok unfolding sto by blast
    show "battery_ok x" if "snap_battery s' = Some x" for x
      using that batc.reading [OF states(1), of "(in_power_source i, in_charge i, in_spawned i)" t]
      unfolding bat by (intro battery_wire_ok) simp_all
    show "agents_ok x" if "snap_agents s' = Some x" for x
      using that agtc.reading [OF states(2), of "(in_processes i, in_hooks i)" t]
      unfolding agt by (auto intro: agents_wire_ok)
    show "network_ok x" if "snap_network s' = Some x" for x
      using that network_snapshot_of_ok [OF n] unfolding net by auto
  qed
  then show ?thesis
    using eq assms(3) by simp
qed

lemma live_snapshot:
  assumes "live_client c" and "snapshot_ok s"
  obtains f e where "fst (hc_snapshot s utc c) = Some f" and "decode f = Ok (MsgSnapshot e s)"
    and "env_session e = hc_session c"
proof -
  let ?c = "c\<lparr>hc_sequence := hc_sequence c + 1\<rparr>"
  let ?e = "(hc_envelope ?c MtSnapshot (hc_session c) (hc_sequence c + 1))\<lparr>env_utc_ms := utc\<rparr>"
  have live: "hc_phase c = Live" "length (hc_session c) = 16" "offset_ok (hc_local_offset_minutes c)"
    using assms(1) by (simp_all add: live_client_def)
  have "envelope_ok ?e"
    using hc_envelope_ok [of "hc_session c" ?c MtSnapshot "hc_sequence c + 1"] live
    by (simp add: envelope_ok_def wf_envelope_def)
  moreover have "env_kind ?e = MtSnapshot" "env_session ?e = hc_session c"
    by (simp_all add: hc_envelope_def)
  ultimately obtain f where "encode_groups ?e s = Ok f" "decode f = Ok (MsgSnapshot ?e s)"
    using encode_snapshot_frame [of ?e s] assms(2) by metis
  then show ?thesis
    using live that [of f ?e] \<open>env_session ?e = hc_session c\<close>
    by (simp add: hc_snapshot_def next_sequence_def res_ok_def)
qed

section \<open>A run of seconds\<close>

datatype second = Second inputs u64 | Slept | ProfilerEnds "u64 \<times> u64" profile_result

fun second_step :: "second \<Rightarrow> groups \<Rightarrow> groups" where
  "second_step (Second i t) g = (case groups_collect g i t of Ok (_, g') \<Rightarrow> g' | _ \<Rightarrow> g)"
| "second_step Slept g = groups_wake g"
| "second_step (ProfilerEnds th r) g = g\<lparr>grp_battery := finish_run th r (grp_battery g)\<rparr>"

fun second_ok :: "second \<Rightarrow> bool" where
  "second_ok (Second i t) = inputs_ok i"
| "second_ok Slept = True"
| "second_ok (ProfilerEnds th r) = answer_ok r"

lemma second_step_ok: "groups_ok g \<Longrightarrow> second_ok e \<Longrightarrow> groups_ok (second_step e g)"
proof (cases e)
  case (Second i t)
  assume "groups_ok g" "second_ok e"
  then have "groups_ok g" "inputs_ok i"
    using Second by simp_all
  then show ?thesis
    by (rule groups_collect_Ok [of g i t]) (simp add: Second)
next
  case (ProfilerEnds th r)
  assume "groups_ok g" "second_ok e"
  then show ?thesis
    using ProfilerEnds by (auto simp: groups_ok_def battery_state_ok_def finish_run_def Let_def)
qed (simp add: groups_wake_ok)

lemma seconds_ok: "groups_ok g \<Longrightarrow> \<forall>e \<in> set es. second_ok e \<Longrightarrow> groups_ok (fold second_step es g)"
  by (induction es arbitrary: g) (simp_all add: second_step_ok)

section \<open>Values only when available\<close>

lemma cpu_wire_zero:
  "ms_wf m \<Longrightarrow> cpu_availability (cpu_wire m) \<noteq> Available \<Longrightarrow> cpu_utilization_per_mille (cpu_wire m) = 0"
  by (auto simp: cpu_wire_def ms_wf_def wire_availability_available split: option.split)

lemma ram_wire_zero:
  "ms_wf m \<Longrightarrow> ram_availability (ram_wire_group m) \<noteq> Available \<Longrightarrow>
   ram_used_bytes (ram_wire_group m) = 0 \<and> ram_total_bytes (ram_wire_group m) = 0"
  by (auto simp: ram_wire_group_def ms_wf_def wire_availability_available split: option.split)

lemma storage_wire_zero:
  assumes "ms_wf (srd_io v)"
  shows "\<exists>d. storage_snapshot_of (Some v) = Some d
        \<and> (sto_capacity_availability d \<noteq> Available \<longrightarrow>
             sto_total_bytes d = 0 \<and> sto_available_bytes d = 0 \<and> sto_capacity_age_ms d = 0)
        \<and> (sto_io_availability d \<noteq> Available \<longrightarrow> sto_read_bytes_per_s d = 0 \<and> sto_write_bytes_per_s d = 0)"
  using assms
  by (auto simp: storage_snapshot_of_def Let_def ms_wf_def wire_availability_available split: option.split)

lemma battery_wire_zero:
  "\<exists>b. battery_snapshot_of (Some v) = Some b
        \<and> (bat_charge_availability b \<noteq> Available \<longrightarrow> bat_charge_per_mille b = 0 \<and> bat_state b = 0
             \<and> bat_time_remaining_min b = BATTERY_UNKNOWN_U16 \<and> bat_charge_age_ms b = 0)
        \<and> (bat_condition_availability b \<noteq> Available \<longrightarrow> bat_max_capacity_per_mille b = 0
             \<and> bat_condition b = 0 \<and> bat_cycle_count b = BATTERY_UNKNOWN_U16 \<and> bat_condition_age_ms b = 0)"
  by (auto simp: battery_snapshot_of_def Let_def split: option.split)

lemma agents_wire_zero:
  "agt_availability (agents_snapshot_of m) \<noteq> Available \<Longrightarrow>
   agt_state (agents_snapshot_of m) = replicate 5 0 \<and> agt_source_age_ms (agents_snapshot_of m) = 0"
  by (auto simp: agents_snapshot_of_def AGENT_SLOTS_def split: option.split)

section \<open>Properties\<close>

text \<open>
  C2. Whatever the collectors have been through, the next second is sent and understood. Start
  the groups, let any seconds, wakes and profiler answers pass; then a second of well-formed
  inputs never panics, its snapshot is one the encoder accepts, the network group is the
  collected one (the defensive fallback is not taken), and a live client turns it into a frame
  that decodes to exactly that snapshot.
\<close>

theorem every_second_is_sent:
  assumes "\<forall>e \<in> set es. second_ok e" and "inputs_ok i" and "live_client c"
  shows "\<exists>s r g' n f e. groups_collect (fold second_step es (groups_new uid home)) i t = Ok ((s, r), g')
    \<and> snapshot_ok s \<and> snap_network s = Some (network_wire n)
    \<and> fst (hc_snapshot s utc c) = Some f \<and> decode f = Ok (MsgSnapshot e s) \<and> env_session e = hc_session c"
proof -
  have ok: "groups_ok (fold second_step es (groups_new uid home))"
    using seconds_ok [OF groups_new_ok assms(1)] .
  obtain s r g' n where g: "groups_collect (fold second_step es (groups_new uid home)) i t = Ok ((s, r), g')"
    "snap_network s = Some (network_wire n)"
    by (rule groups_collect_Ok [OF ok assms(2), of t])
  have s: "snapshot_ok s"
    using collected_snapshot_ok [OF ok assms(2) g(1)] .
  show ?thesis
    by (rule live_snapshot [OF assms(3) s, of utc]) (use g s in blast)
qed

definition sample_inputs :: inputs where
  "sample_inputs = \<lparr>in_ticks = None, in_memory = Some (16, 4), in_capacity = None, in_disks = None,
     in_power_source = None, in_charge = ProbeNoBattery, in_spawned = True, in_processes = None,
     in_hooks = [], in_view = Some (sample_counters 3000 50), in_context = sample_context\<rparr>"

lemma sample_inputs_ok: "inputs_ok sample_inputs"
  using sample_counters_ok ctx_ok_unavailable
  by (simp add: inputs_ok_def sample_inputs_def disks_ok_def view_input_ok_def sample_context_def)

theorem every_second_is_sent_witness:
  "\<exists>s r g' f e. groups_collect (fold second_step [Second sample_inputs 0, Slept, ProfilerEnds (0, 0) (Inr NoBattery)]
      (groups_new 501 ''/Users/ann'')) sample_inputs 1000 = Ok ((s, r), g')
     \<and> fst (hc_snapshot s None sample_live) = Some f \<and> decode f = Ok (MsgSnapshot e s)"
  using every_second_is_sent [of "[Second sample_inputs 0, Slept, ProfilerEnds (0, 0) (Inr NoBattery)]"
      sample_inputs sample_live 501 "''/Users/ann''" 1000 None]
  by (auto simp: sample_inputs_ok sample_live_ok answer_ok_def)

text \<open>
  What is not available is never a number. In the snapshot of any second of well-formed
  inputs, a half whose availability is not \<open>available\<close> carries no value: zero where zero is no
  measurement of it, the unknown sentinel for minutes and cycles, no age of a cached
  sample, and no network name or BSSID; and the memory, storage and link-rate numbers
  appear only in an available half.
\<close>

theorem unavailable_is_never_a_number:
  assumes "groups_ok g" and "inputs_ok i" and "groups_collect g i t = Ok ((s, r), g')"
  shows "(cpu_availability (snap_cpu s) \<noteq> Available \<longrightarrow> cpu_utilization_per_mille (snap_cpu s) = 0)
    \<and> (\<exists>m. snap_ram s = Some m \<and> (ram_availability m \<noteq> Available \<longrightarrow> ram_used_bytes m = 0 \<and> ram_total_bytes m = 0))
    \<and> (\<exists>d. snap_storage s = Some d
        \<and> (sto_capacity_availability d \<noteq> Available \<longrightarrow>
             sto_total_bytes d = 0 \<and> sto_available_bytes d = 0 \<and> sto_capacity_age_ms d = 0)
        \<and> (sto_io_availability d \<noteq> Available \<longrightarrow> sto_read_bytes_per_s d = 0 \<and> sto_write_bytes_per_s d = 0))
    \<and> (\<exists>b. snap_battery s = Some b
        \<and> (bat_charge_availability b \<noteq> Available \<longrightarrow> bat_charge_per_mille b = 0 \<and> bat_state b = 0
             \<and> bat_time_remaining_min b = BATTERY_UNKNOWN_U16 \<and> bat_charge_age_ms b = 0)
        \<and> (bat_condition_availability b \<noteq> Available \<longrightarrow> bat_max_capacity_per_mille b = 0
             \<and> bat_condition b = 0 \<and> bat_cycle_count b = BATTERY_UNKNOWN_U16 \<and> bat_condition_age_ms b = 0))
    \<and> (\<exists>a. snap_agents s = Some a
        \<and> (agt_availability a \<noteq> Available \<longrightarrow> agt_state a = replicate 5 0 \<and> agt_source_age_ms a = 0))
    \<and> (\<exists>n. snap_network s = Some n
        \<and> (net_traffic_availability n \<noteq> Available \<longrightarrow> net_rx_bytes_per_s n = 0 \<and> net_tx_bytes_per_s n = 0)
        \<and> (net_context_availability n \<noteq> CtxAvailable \<longrightarrow> net_ssid n = [] \<and> net_bssid n = None))"
proof (rule groups_collect_Ok [OF assms(1,2), of t])
  fix s' r' g'' n
  assume eq: "groups_collect g i t = Ok ((s', r'), g'')"
    and cpu: "snap_cpu s' = cpu_wire (fst (cpu_collect (grp_cpu g) (in_ticks i) t))"
    and ram: "snap_ram s' = Some (ram_wire_group (ram_collect (in_memory i)))"
    and sto: "snap_storage s' = storage_snapshot_of
      (ms_value (fst (storage_collect (grp_storage g) (in_capacity i) (in_disks i) t)))"
    and bat: "snap_battery s' = battery_snapshot_of
      (ms_value (fst (battery_collect (grp_battery g) (in_power_source i) (in_charge i) (in_spawned i) t)))"
    and agt: "snap_agents s' = Some (agents_snapshot_of
      (fst (agents_collect (grp_agents g) (in_processes i) (in_hooks i) t)))"
    and net: "snap_network s' = Some (network_wire n)" and n: "network_reading_ok n"
  have s: "s = s'"
    using eq assms(3) by simp
  have io: "ms_wf (srd_io v)"
    if "ms_value (fst (storage_collect (grp_storage g) (in_capacity i) (in_disks i) t)) = Some v" for v
    using stoc.reading [where s = "grp_storage g" and i = "(in_capacity i, in_disks i)" and t = t and v = v] that assms(2)
    by (simp add: inputs_ok_def storage_reading_ok_def)
  have some: "\<exists>v. ms_value (fst (storage_collect (grp_storage g) (in_capacity i) (in_disks i) t)) = Some v"
    "\<exists>v. ms_value (fst (battery_collect (grp_battery g) (in_power_source i) (in_charge i) (in_spawned i) t)) = Some v"
    by (simp_all add: storage_collect_def battery_collect_def Let_def split: prod.split)
  have cpu_wf: "ms_wf (fst (cpu_collect (grp_cpu g) (in_ticks i) t))"
    using cpuc.sample_wf by simp
  have ram_wf: "ms_wf (ram_collect (in_memory i))"
    using ramc.sample_wf [where i = "in_memory i"] by simp
  note valid = network_wire_valid(1) [OF n]
  show ?thesis
    unfolding s
  proof (intro conjI)
    show "cpu_availability (snap_cpu s') \<noteq> Available \<longrightarrow> cpu_utilization_per_mille (snap_cpu s') = 0"
      unfolding cpu using cpu_wire_zero [OF cpu_wf] by blast
    show "\<exists>m. snap_ram s' = Some m \<and> (ram_availability m \<noteq> Available \<longrightarrow> ram_used_bytes m = 0 \<and> ram_total_bytes m = 0)"
      unfolding ram using ram_wire_zero [OF ram_wf] by blast
    show "\<exists>d. snap_storage s' = Some d
        \<and> (sto_capacity_availability d \<noteq> Available \<longrightarrow>
             sto_total_bytes d = 0 \<and> sto_available_bytes d = 0 \<and> sto_capacity_age_ms d = 0)
        \<and> (sto_io_availability d \<noteq> Available \<longrightarrow> sto_read_bytes_per_s d = 0 \<and> sto_write_bytes_per_s d = 0)"
      unfolding sto using some(1) storage_wire_zero io by metis
    show "\<exists>b. snap_battery s' = Some b
        \<and> (bat_charge_availability b \<noteq> Available \<longrightarrow> bat_charge_per_mille b = 0 \<and> bat_state b = 0
             \<and> bat_time_remaining_min b = BATTERY_UNKNOWN_U16 \<and> bat_charge_age_ms b = 0)
        \<and> (bat_condition_availability b \<noteq> Available \<longrightarrow> bat_max_capacity_per_mille b = 0
             \<and> bat_condition b = 0 \<and> bat_cycle_count b = BATTERY_UNKNOWN_U16 \<and> bat_condition_age_ms b = 0)"
      unfolding bat using some(2) battery_wire_zero by metis
    show "\<exists>a. snap_agents s' = Some a
        \<and> (agt_availability a \<noteq> Available \<longrightarrow> agt_state a = replicate 5 0 \<and> agt_source_age_ms a = 0)"
      unfolding agt using agents_wire_zero by blast
    show "\<exists>n. snap_network s' = Some n
        \<and> (net_traffic_availability n \<noteq> Available \<longrightarrow> net_rx_bytes_per_s n = 0 \<and> net_tx_bytes_per_s n = 0)
        \<and> (net_context_availability n \<noteq> CtxAvailable \<longrightarrow> net_ssid n = [] \<and> net_bssid n = None)"
      unfolding net using valid by (auto simp: network_is_valid_def split: if_splits)
  qed
qed

theorem unavailable_is_never_a_number_witness:
  "\<exists>s r g' b. groups_collect (groups_new 501 ''/Users/ann'') sample_inputs 1000 = Ok ((s, r), g')
     \<and> snap_battery s = Some b
     \<and> (bat_charge_availability b \<noteq> Available \<longrightarrow> bat_time_remaining_min b = BATTERY_UNKNOWN_U16)"
proof (rule groups_collect_Ok [OF groups_new_ok sample_inputs_ok, of 501 "''/Users/ann''" 1000])
  fix s r g'
  assume eq: "groups_collect (groups_new 501 ''/Users/ann'') sample_inputs 1000 = Ok ((s, r), g')"
  from unavailable_is_never_a_number [OF groups_new_ok sample_inputs_ok eq] eq show ?thesis
    by blast
qed

end
