(* ===== verification/Utf8_Text.thy ===== *)
theory Utf8_Text
  imports Rust_Text
begin

text \<open>
  Characters of a UTF-8 string. A Rust \<open>&str\<close> is a sequence of encoded characters; code that
  walks it by bytes and copies whole characters, as the strict JSON reader of
  \<^verbatim>\<open>host/cli/src/hooks/json.rs\<close> does, rests on the facts proved here.
\<close>

section \<open>Characters\<close>

text \<open>\<open>char::len_utf8\<close> of the character that starts with a byte.\<close>

definition char_len :: "char \<Rightarrow> nat" where
  "char_len c = (if byte c < 128 then 1 else if byte c < 224 then 2 else if byte c < 240 then 3 else 4)"

text \<open>\<open>char::from_u32\<close> and \<open>String::push\<close>: the encoding of a scalar value, if it is one.\<close>

definition scalar :: "nat \<Rightarrow> bool" where
  "scalar n \<longleftrightarrow> n < 0xD800 \<or> 0xE000 \<le> n \<and> n < 0x110000"

definition utf8_char :: "nat \<Rightarrow> string" where
  "utf8_char n =
     map char_of
       (if n < 0x80 then [n]
        else if n < 0x800 then [192 + n div 64, 128 + n mod 64]
        else if n < 0x10000 then [224 + n div 4096, 128 + n div 64 mod 64, 128 + n mod 64]
        else [240 + n div 262144, 128 + n div 4096 mod 64, 128 + n div 64 mod 64, 128 + n mod 64])"

section \<open>Facts\<close>

lemma char_len_pos [simp]: "0 < char_len c"
  by (simp add: char_len_def)

lemma char_of_byte_id [simp]: "char_of (byte c) = c"
  by (simp add: byte_def)

lemma byte_char_of: "n < 256 \<Longrightarrow> byte (char_of n) = n"
  by (simp add: byte_def)

lemma from_utf8_Nil [simp]: "from_utf8 []"
  by (simp add: from_utf8_def)

lemma from_utf8_ascii [simp]: "byte c < 128 \<Longrightarrow> from_utf8 (c # s) = from_utf8 s"
  by (simp add: from_utf8_def)

lemma utf8_bytes_append: "utf8_bytes xs \<Longrightarrow> utf8_bytes (xs @ ys) = utf8_bytes ys"
  by (induction xs rule: utf8_bytes.induct)
    (auto simp del: utf8_bytes.simps(2) simp: utf8_bytes.simps(2) split: if_split_asm list.splits)

lemma from_utf8_append: "from_utf8 s \<Longrightarrow> from_utf8 (s @ t) = from_utf8 t"
  by (simp add: from_utf8_def utf8_bytes_append)

text \<open>The first character of a valid text: it starts the text, its bytes are there, and none of
  the bytes of a character that is not ASCII is ASCII.\<close>

lemma utf8_first:
  assumes "from_utf8 (c # r)"
  shows "\<not> cont_byte (byte c)"
    and "char_len c - 1 \<le> length r"
    and "from_utf8 (c # take (char_len c - 1) r)"
    and "from_utf8 (drop (char_len c - 1) r)"
    and "128 \<le> byte c \<Longrightarrow> \<forall>d \<in> set (take (char_len c - 1) r). 128 \<le> byte d"
proof -
  consider "byte c < 128" | "194 \<le> byte c \<and> byte c < 224"
    | "224 \<le> byte c \<and> byte c < 240" | "240 \<le> byte c \<and> byte c < 245"
    using assms by (fastforce simp: from_utf8_def split: if_split_asm)
  then have "\<not> cont_byte (byte c) \<and> char_len c - 1 \<le> length r
    \<and> from_utf8 (c # take (char_len c - 1) r) \<and> from_utf8 (drop (char_len c - 1) r)
    \<and> (128 \<le> byte c \<longrightarrow> (\<forall>d \<in> set (take (char_len c - 1) r). 128 \<le> byte d))"
  proof cases
    case 1
    then show ?thesis
      using assms by (simp add: from_utf8_def char_len_def cont_byte_def)
  next
    case 2
    then show ?thesis
      using assms
      by (cases r) (auto simp: from_utf8_def char_len_def cont_byte_def split: if_split_asm)
  next
    case 3
    then obtain a b r' where r: "r = a # b # r'"
      using assms by (cases r; cases "tl r") (auto simp: from_utf8_def split: if_split_asm)
    show ?thesis
      using 3 assms unfolding r
      by (auto simp: from_utf8_def char_len_def cont_byte_def split: if_split_asm)
  next
    case 4
    then obtain a b d r' where r: "r = a # b # d # r'"
      using assms by (cases r; cases "tl r"; cases "tl (tl r)") (auto simp: from_utf8_def split: if_split_asm)
    show ?thesis
      using 4 assms unfolding r
      by (auto simp: from_utf8_def char_len_def cont_byte_def split: if_split_asm)
  qed
  then show "\<not> cont_byte (byte c)" "char_len c - 1 \<le> length r"
    "from_utf8 (c # take (char_len c - 1) r)" "from_utf8 (drop (char_len c - 1) r)"
    "128 \<le> byte c \<Longrightarrow> \<forall>d \<in> set (take (char_len c - 1) r). 128 \<le> byte d"
    by auto
qed

text \<open>Induction over the characters of a valid text.\<close>

lemma utf8_induct [consumes 1, case_names Nil Char]:
  assumes "from_utf8 s" and "P []"
    and step: "\<And>c r. from_utf8 (c # r) \<Longrightarrow> P (drop (char_len c - 1) r) \<Longrightarrow> P (c # r)"
  shows "P s"
  using assms(1)
proof (induction s rule: length_induct)
  case (1 s)
  then show ?case
    using assms(2) step utf8_first(4) by (cases s) auto
qed

text \<open>The byte sequences of three and four bytes, by their payloads.\<close>

lemma utf8_three:
  assumes "a < 16" "b < 64" "c < 64" "a = 0 \<longrightarrow> 32 \<le> b" "a = 13 \<longrightarrow> b < 32"
  shows "utf8_bytes [224 + a, 128 + b, 128 + c]"
  using assms by (simp add: cont_byte_def) linarith

lemma utf8_four:
  assumes "a < 5" "b < 64" "c < 64" "d < 64" "a = 0 \<longrightarrow> 16 \<le> b" "a = 4 \<longrightarrow> b < 16"
  shows "utf8_bytes [240 + a, 128 + b, 128 + c, 128 + d]"
  using assms by (simp add: cont_byte_def) linarith

lemma map_byte_char_of: "\<forall>n \<in> set ns. n < 256 \<Longrightarrow> map byte (map char_of ns) = ns"
  by (induction ns) (auto simp: byte_char_of)

lemma from_utf8_utf8_char:
  assumes "scalar n"
  shows "from_utf8 (utf8_char n)"
proof -
  consider "n < 0x80" | "0x80 \<le> n" "n < 0x800" | "0x800 \<le> n" "n < 0x10000" | "0x10000 \<le> n"
    by linarith
  then show ?thesis
  proof cases
    case 1
    then show ?thesis
      by (simp add: utf8_char_def from_utf8_def byte_char_of)
  next
    case 2
    then have "2 \<le> n div 64" "n div 64 < 32"
      by auto
    then show ?thesis
      using 2 by (auto simp: utf8_char_def from_utf8_def byte_char_of cont_byte_def)
  next
    case 3
    define a b c where abc: "a = n div 4096" "b = n div 64 mod 64" "c = n mod 64"
    have bc: "b < 64" "c < 64"
      by (simp_all add: abc)
    define m where "m = n div 64"
    have m: "32 \<le> m" "m < 1024"
      using 3 by (simp_all add: m_def less_eq_div_iff_mult_less_eq div_less_iff_less_mult)
    have "n < 864 * 64 \<or> 896 * 64 \<le> n"
      using assms by (auto simp: scalar_def)
    then have gap: "m < 864 \<or> 896 \<le> m"
      unfolding m_def by (simp add: less_eq_div_iff_mult_less_eq div_less_iff_less_mult)
    have am: "a = m div 64" and bm: "b = m mod 64"
      using div_mult2_eq [of n 64 64] by (simp_all add: abc m_def)
    have a: "a < 16"
      using m unfolding am by (simp add: div_less_iff_less_mult)
    have e: "m = a * 64 + b"
      unfolding am bm by simp
    have lo: "a = 0 \<longrightarrow> 32 \<le> b"
      using m e by simp
    have hi: "a = 13 \<longrightarrow> b < 32"
      using gap bc e by auto
    have "utf8_char n = map char_of [224 + a, 128 + b, 128 + c]"
      using 3 by (simp add: utf8_char_def abc)
    moreover have "map byte (map char_of [224 + a, 128 + b, 128 + c]) = [224 + a, 128 + b, 128 + c]"
      using a bc by (intro map_byte_char_of) simp
    ultimately show ?thesis
      using utf8_three [OF a bc lo hi] by (simp only: from_utf8_def)
  next
    case 4
    define a b c d where abcd: "a = n div 262144" "b = n div 4096 mod 64" "c = n div 64 mod 64" "d = n mod 64"
    have bcd: "b < 64" "c < 64" "d < 64"
      by (simp_all add: abcd)
    define m where "m = n div 4096"
    have n: "n < 0x110000"
      using 4 assms by (simp add: scalar_def)
    have m: "16 \<le> m" "m < 272"
      using 4 n by (simp_all add: m_def less_eq_div_iff_mult_less_eq div_less_iff_less_mult)
    have am: "a = m div 64" and bm: "b = m mod 64"
      using div_mult2_eq [of n 4096 64] by (simp_all add: abcd m_def)
    have a: "a < 5"
      using m unfolding am by (simp add: div_less_iff_less_mult)
    have e: "m = a * 64 + b"
      unfolding am bm by simp
    have lo: "a = 0 \<longrightarrow> 16 \<le> b"
      using m e by simp
    have hi: "a = 4 \<longrightarrow> b < 16"
      using m e by auto
    have "utf8_char n = map char_of [240 + a, 128 + b, 128 + c, 128 + d]"
      using 4 by (simp add: utf8_char_def abcd)
    moreover have "map byte (map char_of [240 + a, 128 + b, 128 + c, 128 + d]) = [240 + a, 128 + b, 128 + c, 128 + d]"
      using a bcd by (intro map_byte_char_of) simp
    ultimately show ?thesis
      using utf8_four [OF a bcd lo hi] by (simp only: from_utf8_def)
  qed
qed

section \<open>White space\<close>

text \<open>
  The characters \<open>str::trim\<close> removes, as their UTF-8 bytes: the ASCII ones, then U+0085, U+00A0,
  U+1680, U+2000 to U+200A, U+2028, U+2029, U+202F, U+205F and U+3000.
\<close>

definition white_space :: "string list" where
  "white_space = map (map char_of)
     ([[9], [10], [11], [12], [13], [32], [0xC2, 0x85], [0xC2, 0xA0], [0xE1, 0x9A, 0x80 :: nat]]
      @ map (\<lambda>b. [0xE2, 0x80, b]) ([0x80..<0x8B] @ [0xA8, 0xA9, 0xAF])
      @ [[0xE2, 0x81, 0x9F], [0xE3, 0x80, 0x80]])"

lemma white_space_not_Nil: "w \<in> set white_space \<Longrightarrow> w \<noteq> []"
  by (auto simp: white_space_def)

text \<open>\<open>trim_start\<close> and \<open>trim_end\<close>, a character at a time.\<close>

function trim_start :: "string \<Rightarrow> string" where
  "trim_start s = (case find (\<lambda>w. take (length w) s = w) white_space of
      None \<Rightarrow> s | Some w \<Rightarrow> trim_start (drop (length w) s))"
  by pat_completeness auto
termination
proof (relation "measure length")
  fix s :: string and w
  assume "find (\<lambda>w. take (length w) s = w) white_space = Some w"
  then have "w \<in> set white_space" "take (length w) s = w"
    by (auto simp: find_Some_iff in_set_conv_nth)
  then have "w \<noteq> []" and "length (take (length w) s) = length w"
    using white_space_not_Nil by auto
  moreover from this(2) have "length w \<le> length s"
    by simp
  ultimately show "(drop (length w) s, s) \<in> measure length"
    by (cases w) auto
qed simp

declare trim_start.simps [simp del]

function trim_end :: "string \<Rightarrow> string" where
  "trim_end s = (case find (\<lambda>w. strip_suffix w s \<noteq> None) white_space of
      None \<Rightarrow> s | Some w \<Rightarrow> trim_end (take (length s - length w) s))"
  by pat_completeness auto
termination
proof (relation "measure length")
  fix s :: string and w
  assume "find (\<lambda>w. strip_suffix w s \<noteq> None) white_space = Some w"
  then have "w \<in> set white_space" "length w \<le> length s"
    by (auto simp: find_Some_iff in_set_conv_nth strip_suffix_def split: if_splits)
  moreover from this(1) have "w \<noteq> []"
    by (rule white_space_not_Nil)
  moreover from this have "0 < length w"
    by simp
  ultimately show "(take (length s - length w) s, s) \<in> measure length"
    by (simp del: length_greater_0_conv)
qed simp

declare trim_end.simps [simp del]

definition trim :: "string \<Rightarrow> string" where
  "trim s = trim_end (trim_start s)"

text \<open>A text that no white space character starts or ends is its own trimming.\<close>

lemma trim_start_same:
  assumes "\<And>w. w \<in> set white_space \<Longrightarrow> take (length w) s \<noteq> w"
  shows "trim_start s = s"
  using assms find_None_iff [of "\<lambda>w. take (length w) s = w" white_space]
  by (subst trim_start.simps) auto

lemma trim_end_same:
  assumes "\<And>w. w \<in> set white_space \<Longrightarrow> strip_suffix w s = None"
  shows "trim_end s = s"
  using assms find_None_iff [of "\<lambda>w. strip_suffix w s \<noteq> None" white_space]
  by (subst trim_end.simps) auto

lemma trim_start_hd:
  assumes "s \<noteq> []" and "\<forall>w \<in> set white_space. hd w \<noteq> hd s"
  shows "trim_start s = s"
proof (rule trim_start_same, rule notI)
  fix w
  assume w: "w \<in> set white_space" "take (length w) s = w"
  then show False
    using assms white_space_not_Nil [OF w(1)] by (metis hd_take length_greater_0_conv)
qed

lemma trim_end_last:
  assumes "s \<noteq> []" and "\<forall>w \<in> set white_space. last w \<noteq> last s"
  shows "trim_end s = s"
proof (rule trim_end_same)
  fix w
  assume w: "w \<in> set white_space"
  show "strip_suffix w s = None"
  proof (cases "strip_suffix w s")
    case (Some r)
    then have "s = r @ w"
      by (simp add: strip_suffix_Some)
    then have "last s = last w"
      using white_space_not_Nil [OF w] by simp
    then show ?thesis
      using assms(2) w by auto
  qed
qed

lemma trim_Nil [simp]: "trim [] = []"
proof -
  have "take (length w) [] \<noteq> w" "strip_suffix w [] = None" if "w \<in> set white_space" for w
    using white_space_not_Nil [OF that] by (auto simp: strip_suffix_def)
  then show ?thesis
    by (simp add: trim_def trim_start_same trim_end_same)
qed

end
