(* ===== verification/Identity_File.thy ===== *)
theory Identity_File
  imports Utf8_Text
begin

text \<open>
  The stored pairing identity, \<^verbatim>\<open>host/hostcore/src/identity.rs\<close>: the Host's own identity and the
  display it is paired with, kept in one small text file. The file's content and what the system
  answers to reads and writes are arguments.
\<close>

section \<open>Text of the standard library\<close>

text \<open>\<open>str::lines\<close>: a carriage return goes with the newline it precedes.\<close>

definition rust_lines :: "string \<Rightarrow> string list" where
  "rust_lines s =
     (let ps = split_on CHR 0x0A s
      in map (\<lambda>p. case strip_suffix [CHR 0x0D] p of Some q \<Rightarrow> q | None \<Rightarrow> p) (butlast ps)
         @ (if last ps = [] then [] else [last ps]))"

section \<open>The identity\<close>

record identity =
  id_host :: "u8 list"
  id_device :: "u8 list option"

definition lower_hex :: "nat \<Rightarrow> char" where
  "lower_hex n = (if n < 10 then char_of (48 + n) else char_of (87 + n))"

definition hex_text :: "u8 list \<Rightarrow> string" where
  "hex_text bs = concat (map (\<lambda>b. [lower_hex (unat b div 16), lower_hex (unat b mod 16)]) bs)"

definition hex_digit_value :: "char \<Rightarrow> nat option" where
  "hex_digit_value c = (if is_ascii_hexdigit c then Some (hex_digit c) else None)"

text \<open>\<open>u8::from_str_radix(_, 16)\<close> of two bytes: it takes a plus sign too.\<close>

definition hex_pair :: "char \<Rightarrow> char \<Rightarrow> u8 option" where
  "hex_pair a b =
     (if a = CHR ''+'' then map_option of_nat (hex_digit_value b)
      else (case (hex_digit_value a, hex_digit_value b) of
              (Some x, Some y) \<Rightarrow> Some (of_nat (16 * x + y)) | _ \<Rightarrow> None))"

fun unhex_pairs :: "string \<Rightarrow> u8 list option" where
  "unhex_pairs [] = Some []"
| "unhex_pairs [a] = None"
| "unhex_pairs (a # b # s) =
     (case hex_pair a b of None \<Rightarrow> None
      | Some v \<Rightarrow> map_option ((#) v) (unhex_pairs s))"

definition unhex :: "string \<Rightarrow> u8 list option" where
  "unhex text = (if length text \<noteq> 32 then None else unhex_pairs text)"

text \<open>The loop over the lines: a later line of the same name replaces an earlier one.\<close>

fun parse_lines :: "string list \<Rightarrow> u8 list option \<times> u8 list option \<Rightarrow> u8 list option \<times> u8 list option" where
  "parse_lines [] found = found"
| "parse_lines (line # ls) (host, device) =
     (case split_at_first (\<lambda>c. c = CHR ''='') line of
        Some (key, v) \<Rightarrow>
          if key = ''host'' then parse_lines ls (unhex (trim v), device)
          else if key = ''device'' then parse_lines ls (host, unhex (trim v))
          else parse_lines ls (host, device)
      | None \<Rightarrow> parse_lines ls (host, device))"

definition parse_identity :: "string \<Rightarrow> identity option" where
  "parse_identity text =
     (let (host, device) = parse_lines (rust_lines text) (None, None)
      in map_option (\<lambda>h. \<lparr>id_host = h, id_device = device\<rparr>) host)"

definition identity_text :: "identity \<Rightarrow> string" where
  "identity_text i = ''host='' @ hex_text (id_host i) @ [CHR 0x0A]
     @ (case id_device i of None \<Rightarrow> [] | Some d \<Rightarrow> ''device='' @ hex_text d @ [CHR 0x0A])"

definition short_form :: "u8 list \<Rightarrow> string" where
  "short_form i = hex_text (take 4 i)"

section \<open>The file\<close>

text \<open>
  A write succeeds, or fails and leaves something behind. A read of a file that is there may fail
  too: the code takes the failure for a missing file.
\<close>

datatype disk_write = Written | NotWritten "string option"

text \<open>The result of an operation on the file: \<open>None\<close> is an input or output error.\<close>

definition save_in :: "disk_write \<Rightarrow> identity \<Rightarrow> string option \<Rightarrow> unit option \<times> string option" where
  "save_in w i file = (case w of
      Written \<Rightarrow> (Some (), Some (identity_text i))
    | NotWritten left \<Rightarrow> (None, left))"

definition load_or_create_in ::
    "bool \<Rightarrow> u8 list option \<Rightarrow> disk_write \<Rightarrow> string option \<Rightarrow> identity option \<times> string option" where
  "load_or_create_in readable random w file =
     (case (case (if readable then file else None) of None \<Rightarrow> None
            | Some text \<Rightarrow> if from_utf8 text then parse_identity text else None) of
        Some i \<Rightarrow> (Some i, file)
      | None \<Rightarrow>
          (case random of
             None \<Rightarrow> (None, file)
           | Some host \<Rightarrow>
               let i = \<lparr>id_host = host, id_device = None\<rparr>; (saved, file) = save_in w i file
               in (map_option (\<lambda>_. i) saved, file)))"

section \<open>Reading what was written\<close>

definition hexes :: "string \<Rightarrow> bool" where
  "hexes s \<longleftrightarrow> (\<forall>c \<in> set s. is_ascii_hexdigit c)"

lemma hex_text_Cons:
  "hex_text (b # bs) = lower_hex (unat b div 16) # lower_hex (unat b mod 16) # hex_text bs"
  by (simp add: hex_text_def)

lemma lower_hex_value: "n < 16 \<Longrightarrow> hex_digit_value (lower_hex n) = Some n"
  by (auto simp: hex_digit_value_def lower_hex_def is_ascii_hexdigit_def is_ascii_digit_def
      hex_digit_def byte_def)

lemma lower_hex_digit: "n < 16 \<Longrightarrow> is_ascii_hexdigit (lower_hex n)"
  using lower_hex_value [of n] by (auto simp: hex_digit_value_def split: if_splits)

lemma u8_below_256: "unat (b :: u8) < 256"
  using unsigned_less [of b] by simp

lemma hexes_hex_text: "hexes (hex_text bs)"
  using u8_below_256 by (induction bs) (auto simp: hexes_def hex_text_def lower_hex_digit less_mult_imp_div_less)

lemma length_hex_text [simp]: "length (hex_text bs) = 2 * length bs"
  by (induction bs) (auto simp: hex_text_def)

lemma unhex_hex_text:
  assumes "length bs = 16"
  shows "unhex (hex_text bs) = Some bs"
proof -
  have pair: "hex_pair (lower_hex (unat b div 16)) (lower_hex (unat b mod 16)) = Some b" for b :: u8
  proof -
    have "unat b < 256"
      by (rule u8_below_256)
    then have d: "unat b div 16 < 16"
      by (simp add: less_mult_imp_div_less)
    have "hex_digit_value CHR ''+'' = None"
      by (simp add: hex_digit_value_def is_ascii_hexdigit_def is_ascii_digit_def byte_def)
    then have "lower_hex (unat b div 16) \<noteq> CHR ''+''"
      using lower_hex_value [OF d] by auto
    moreover have "16 * (unat b div 16) + unat b mod 16 = unat b"
      by simp
    ultimately show ?thesis
      using lower_hex_value [OF d] by (simp add: hex_pair_def lower_hex_value del: of_nat_add of_nat_mult)
  qed
  have "unhex_pairs (hex_text bs) = Some bs" for bs
    by (induction bs) (simp_all add: hex_text_Cons pair, simp add: hex_text_def)
  then show ?thesis
    by (simp add: unhex_def assms)
qed

lemma white_space_ends: "\<forall>w \<in> set white_space. \<not> is_ascii_hexdigit (hd w) \<and> \<not> is_ascii_hexdigit (last w)"
  by (simp add: white_space_def is_ascii_hexdigit_def is_ascii_digit_def byte_def upt_conv_Cons)

lemma trim_hexes:
  assumes "hexes s"
  shows "trim s = s"
proof (cases "s = []")
  case False
  have "\<forall>w \<in> set white_space. hd w \<noteq> hd s \<and> last w \<noteq> last s"
    using white_space_ends assms False by (metis hexes_def hd_in_set last_in_set)
  then show ?thesis
    using trim_start_hd [OF False] trim_end_last [OF False] by (simp add: trim_def)
qed simp

definition identity_ok :: "identity \<Rightarrow> bool" where
  "identity_ok i \<longleftrightarrow> length (id_host i) = 16 \<and> (\<forall>d. id_device i = Some d \<longrightarrow> length d = 16)"

lemma hexes_no:
  assumes "hexes s"
  shows "CHR 0x0A \<notin> set s" and "CHR 0x0D \<notin> set s" and "CHR ''='' \<notin> set s" and "\<forall>c \<in> set s. byte c < 128"
proof -
  have "\<not> is_ascii_hexdigit CHR 0x0A" "\<not> is_ascii_hexdigit CHR 0x0D" "\<not> is_ascii_hexdigit CHR ''=''"
    by (simp_all add: is_ascii_hexdigit_def is_ascii_digit_def byte_def)
  then show "CHR 0x0A \<notin> set s" and "CHR 0x0D \<notin> set s" and "CHR ''='' \<notin> set s"
    using assms by (auto simp: hexes_def)
  show "\<forall>c \<in> set s. byte c < 128"
    using assms by (auto simp: hexes_def is_ascii_hexdigit_def is_ascii_digit_def)
qed

lemma split_at_newline:
  "x \<notin> set l \<Longrightarrow> split_on x (l @ x # r) = l # split_on x r"
  by (induction l) auto

lemma strip_cr: "CHR 0x0D \<notin> set p \<Longrightarrow> strip_suffix [CHR 0x0D] p = None"
proof -
  assume no: "CHR 0x0D \<notin> set p"
  have "drop (length p - 1) p \<noteq> [CHR 0x0D]"
    using no in_set_dropD [of "CHR 0x0D" "length p - 1" p] by (metis list.set_intros(1))
  then show ?thesis
    by (simp add: strip_suffix_def)
qed

lemma rust_lines_written:
  assumes "\<forall>l \<in> set ls. CHR 0x0A \<notin> set l \<and> CHR 0x0D \<notin> set l"
  shows "rust_lines (concat (map (\<lambda>l. l @ [CHR 0x0A]) ls)) = ls"
proof -
  have "split_on CHR 0x0A (concat (map (\<lambda>l. l @ [CHR 0x0A]) ls)) = ls @ [[]]"
    using assms by (induction ls) (auto simp: split_at_newline)
  moreover have "map (\<lambda>p. case strip_suffix [CHR 0x0D] p of Some q \<Rightarrow> q | None \<Rightarrow> p) ls = ls"
    using assms by (simp add: map_idI strip_cr)
  ultimately show ?thesis
    by (simp add: rust_lines_def)
qed

lemma identity_line:
  assumes "CHR ''='' \<notin> set key" and "hexes v"
  shows "split_at_first (\<lambda>c. c = CHR ''='') (key @ CHR ''='' # v) = Some (key, v)"
proof -
  have "takeWhile (\<lambda>c. \<not> c = CHR ''='') (key @ CHR ''='' # v) = key"
    "dropWhile (\<lambda>c. \<not> c = CHR ''='') (key @ CHR ''='' # v) = CHR ''='' # v"
    using assms(1) by (induction key) auto
  then show ?thesis
    by (simp add: split_at_first_def)
qed

lemma parse_identity_text:
  assumes "identity_ok i"
  shows "parse_identity (identity_text i) = Some i" and "from_utf8 (identity_text i)"
proof -
  let ?lines = "(''host'' @ CHR ''='' # hex_text (id_host i))
    # (case id_device i of None \<Rightarrow> [] | Some d \<Rightarrow> [''device'' @ CHR ''='' # hex_text d])"
  have written: "identity_text i = concat (map (\<lambda>l. l @ [CHR 0x0A]) ?lines)"
    by (simp add: identity_text_def split: option.split)
  have lines: "rust_lines (identity_text i) = ?lines"
    unfolding written by (rule rust_lines_written) (auto simp: hexes_no [OF hexes_hex_text] split: option.split)
  have hl: "split_at_first (\<lambda>c. c = CHR ''='') (''host'' @ CHR ''='' # hex_text (id_host i))
      = Some (''host'', hex_text (id_host i))"
    by (rule identity_line [OF _ hexes_hex_text]) simp
  have dl: "split_at_first (\<lambda>c. c = CHR ''='') (''device'' @ CHR ''='' # hex_text d)
      = Some (''device'', hex_text d)" for d
    by (rule identity_line [OF _ hexes_hex_text]) simp
  have h: "unhex (trim (hex_text (id_host i))) = Some (id_host i)"
    using assms by (simp add: identity_ok_def trim_hexes [OF hexes_hex_text] unhex_hex_text)
  have d: "unhex (trim (hex_text d)) = Some d" if "id_device i = Some d" for d
    using assms that by (simp add: identity_ok_def trim_hexes [OF hexes_hex_text] unhex_hex_text)
  have found: "parse_lines ?lines (None, None) = (Some (id_host i), id_device i)"
  proof (cases "id_device i")
    case None
    then show ?thesis
      using hl h by simp
  next
    case (Some e)
    then show ?thesis
      using hl h dl [of e] d [OF Some] by simp
  qed
  show "parse_identity (identity_text i) = Some i"
    by (simp only: parse_identity_def lines found) simp
  show "from_utf8 (identity_text i)"
    using hexes_no(4) [OF hexes_hex_text]
    by (intro ascii_from_utf8) (auto simp: identity_text_def byte_def split: option.splits)
qed

lemma load_saved:
  "identity_ok k \<Longrightarrow> load_or_create_in True r w (Some (identity_text k)) = (Some k, Some (identity_text k))"
  using parse_identity_text by (simp add: load_or_create_in_def)

lemma load_unreadable:
  "load_or_create_in False (Some h) Written file =
     (Some \<lparr>id_host = h, id_device = None\<rparr>, Some (identity_text \<lparr>id_host = h, id_device = None\<rparr>))"
  by (simp add: load_or_create_in_def save_in_def Let_def)

text \<open>A load ends with the identity it found, or with a fresh one it has written.\<close>

lemma load_cases:
  assumes "load_or_create_in readable random w file = (Some j, file')"
    and "\<forall>r. random = Some r \<longrightarrow> length r = 16"
  obtains (found) s where "readable" and "file = Some s" and "from_utf8 s"
      and "parse_identity s = Some j" and "file' = file"
    | (fresh) "identity_ok j" and "id_device j = None" and "file' = Some (identity_text j)"
proof (cases "case (if readable then file else None) of None \<Rightarrow> None
    | Some text \<Rightarrow> if from_utf8 text then parse_identity text else None")
  case None
  then obtain host where "random = Some host" "w = Written" and j: "j = \<lparr>id_host = host, id_device = None\<rparr>"
    and f: "file' = Some (identity_text j)"
    using assms(1) by (auto simp: load_or_create_in_def save_in_def split: option.splits disk_write.splits)
  then show ?thesis
    using assms(2) by (intro fresh) (simp_all add: identity_ok_def)
next
  case (Some k)
  then have "k = j" "file' = file"
    using assms(1) by (simp_all add: load_or_create_in_def)
  moreover obtain s where "readable" "file = Some s" "from_utf8 s" "parse_identity s = Some k"
    using Some by (auto split: option.splits if_splits)
  ultimately show ?thesis
    using found by blast
qed

text \<open>
  C28. The pairing survives a restart, as long as the file can be read. An identity written to the
  file is the one a later read of it gives; once the identity has been loaded, whether read or made
  up then, every later load whose read works gives the same one and leaves the file as it is, so the
  Host keeps the identity displays know it by; and forgetting the display keeps the Host's own
  identity. A load whose read fails is taken for the first use: a fresh identity without a display
  is written over the stored one, and it is the one every later load finds.
\<close>
theorem identity_is_stable:
  assumes "identity_ok i"
    and "load_or_create_in readable random w file = (Some j, file')" and "\<forall>r. random = Some r \<longrightarrow> length r = 16"
    and "length h = 16"
  shows "load_or_create_in True r0 w0 (snd (save_in Written i file0)) = (Some i, snd (save_in Written i file0))
    \<and> load_or_create_in True r1 w1 file' = (Some j, file')
    \<and> (identity_ok j \<longrightarrow> load_or_create_in True r2 w2 (snd (save_in Written (j\<lparr>id_device := None\<rparr>) file'))
      = (Some (j\<lparr>id_device := None\<rparr>), Some (identity_text (j\<lparr>id_device := None\<rparr>))))
    \<and> fst (load_or_create_in False (Some h) Written file') = Some \<lparr>id_host = h, id_device = None\<rparr>
    \<and> fst (load_or_create_in True r3 w3 (snd (load_or_create_in False (Some h) Written file')))
      = Some \<lparr>id_host = h, id_device = None\<rparr>"
proof (intro conjI impI)
  show "load_or_create_in True r0 w0 (snd (save_in Written i file0)) = (Some i, snd (save_in Written i file0))"
    using load_saved [OF assms(1)] by (simp add: save_in_def)
  show "load_or_create_in True r1 w1 file' = (Some j, file')"
    using assms(2,3)
  proof (cases rule: load_cases)
    case (found s)
    then show ?thesis by (simp add: load_or_create_in_def)
  next
    case fresh
    then show ?thesis by (simp add: load_saved)
  qed
  show "load_or_create_in True r2 w2 (snd (save_in Written (j\<lparr>id_device := None\<rparr>) file'))
      = (Some (j\<lparr>id_device := None\<rparr>), Some (identity_text (j\<lparr>id_device := None\<rparr>)))" if "identity_ok j"
    using load_saved [of "j\<lparr>id_device := None\<rparr>"] that by (simp add: identity_ok_def save_in_def)
  have "identity_ok \<lparr>id_host = h, id_device = None\<rparr>"
    using assms(4) by (simp add: identity_ok_def)
  then show "fst (load_or_create_in False (Some h) Written file') = Some \<lparr>id_host = h, id_device = None\<rparr>"
    "fst (load_or_create_in True r3 w3 (snd (load_or_create_in False (Some h) Written file')))
      = Some \<lparr>id_host = h, id_device = None\<rparr>"
    by (simp_all add: load_unreadable load_saved)
qed

theorem identity_is_stable_witness:
  "\<exists>file'. load_or_create_in True (Some (replicate 16 7)) Written None
       = (Some \<lparr>id_host = replicate 16 7, id_device = None\<rparr>, file')
     \<and> load_or_create_in True None (NotWritten None) file'
       = (Some \<lparr>id_host = replicate 16 7, id_device = None\<rparr>, file')
     \<and> fst (load_or_create_in False (Some (replicate 16 8)) Written file')
       = Some \<lparr>id_host = replicate 16 8, id_device = None\<rparr>"
proof -
  let ?j = "\<lparr>id_host = replicate 16 7, id_device = None\<rparr>"
  have "load_or_create_in True (Some (replicate 16 7)) Written None = (Some ?j, Some (identity_text ?j))"
    by (simp add: load_or_create_in_def save_in_def Let_def)
  moreover have "identity_ok ?j"
    by (simp add: identity_ok_def)
  ultimately show ?thesis
    using identity_is_stable [of ?j True "Some (replicate 16 7)" Written None ?j "Some (identity_text ?j)"
        "replicate 16 8" None "NotWritten None"]
    by auto
qed

end
