(* ===== verification/Link.thy ===== *)
theory Link
  imports Metric_Groups_Correct Identity_File
begin

text \<open>
  The Host's session over the serial port, \<^verbatim>\<open>host/hostcore/src/link.rs\<close>: connecting, serving one
  snapshot per second, and commands. The port, the clocks and the observer answer as arguments, one
  record for each turn of a loop; instants are nanoseconds. What is written to the port is the list
  of the byte strings handed to it, in order.
\<close>

section \<open>Errors and times\<close>

datatype link_error = LkIo | LkRefused refusal | LkTimeout string | LkCancelled

definition SNAPSHOT_PERIOD_MS :: u64 where
  "SNAPSHOT_PERIOD_MS = 1000"

definition SNAPSHOT_PERIOD :: nat where
  "SNAPSHOT_PERIOD = 1000000000"

definition HELLO_RETRY :: nat where
  "HELLO_RETRY = 1500000000"

definition WAKE_GAP_MS :: u64 where
  "WAKE_GAP_MS = 5000"

definition slept :: "u64 \<Rightarrow> u64 \<Rightarrow> bool" where
  "slept before now \<longleftrightarrow> SNAPSHOT_PERIOD_MS + WAKE_GAP_MS < sat_sub now before"

text \<open>The code the operator compares, from four random bytes.\<close>

definition le_value :: "bytes \<Rightarrow> nat" where
  "le_value bs = foldr (\<lambda>b n. unat b + 256 * n) bs 0"

definition matching_code :: "bytes \<Rightarrow> u32" where
  "matching_code bs = 100000 + of_nat (le_value bs) mod 900000"

section \<open>Connecting\<close>

datatype progress = PgOpened | PgNegotiated u8 u8 | PgAwaitingConfirmation u32 | PgPaired

text \<open>One turn of the handshake loop: three readings of the clock, the caller's wish to stop, the
  answers of the port, and whether the identity could be stored.\<close>

record connect_env =
  ce_now :: nat
  ce_hello_now :: nat
  ce_hello_sent :: nat
  ce_cancel :: bool
  ce_link_written :: bool
  ce_offset :: "i16 option"
  ce_utc_ms :: u64
  ce_hello_written :: bool
  ce_read :: "bytes option"
  ce_frames_written :: nat
  ce_saved :: bool

record connect_state =
  lc_client :: host_client
  lc_identity :: identity
  lc_last_hello :: "nat option"
  lc_announced :: bool
  lc_progress :: "progress list"
  lc_written :: "bytes list"

datatype link_end = LinkUp | LinkFailed link_error | LinkPanic | LinkGoing

definition LINK_COMMAND :: bytes where
  "LINK_COMMAND = [67, 89, 68, 58, 76, 73, 78, 75, 10]"

definition report_progress :: "progress \<Rightarrow> connect_state \<Rightarrow> connect_state" where
  "report_progress p s = s\<lparr>lc_progress := lc_progress s @ [p]\<rparr>"

text \<open>The Hello, when one is due: the link command, then the message. \<open>False\<close> is a failed write.\<close>

definition send_hello :: "connect_env \<Rightarrow> connect_state \<Rightarrow> bool \<times> connect_state" where
  "send_hello env s =
     (if hc_phase (lc_client s) \<noteq> PairSent
         \<and> (case lc_last_hello s of None \<Rightarrow> True | Some t \<Rightarrow> HELLO_RETRY \<le> ce_hello_now env - t) then
        if \<not> ce_link_written env then (False, s)
        else
          let s = s\<lparr>lc_written := lc_written s @ [LINK_COMMAND],
                    lc_client := set_local_offset_minutes (ce_offset env) (lc_client s)\<rparr>;
              (hello, c) = hc_start (Some (ce_utc_ms env)) (lc_client s);
              s = s\<lparr>lc_client := c\<rparr>
          in (case hello of
                Ok f \<Rightarrow> if ce_hello_written env
                  then (True, s\<lparr>lc_written := lc_written s @ [f], lc_last_hello := Some (ce_hello_sent env)\<rparr>)
                  else (False, s)
              | _ \<Rightarrow> (False, s))
      else (True, s))"

text \<open>The events of one read, in order; the first that ends the attempt ends the loop.\<close>

fun connect_events :: "bool \<Rightarrow> event list \<Rightarrow> connect_state \<Rightarrow> link_end \<times> connect_state" where
  "connect_events saved [] s = (LinkGoing, s)"
| "connect_events saved (e # es) s =
     (case e of
        Negotiated major minor \<Rightarrow> connect_events saved es (report_progress (PgNegotiated major minor) s)
      | EvRefused reason \<Rightarrow> (LinkFailed (LkRefused reason), s)
      | Paired device \<Rightarrow>
          if id_device (lc_identity s) \<noteq> Some device then
            let s = s\<lparr>lc_identity := (lc_identity s)\<lparr>id_device := Some device\<rparr>\<rparr>
            in if saved then (LinkUp, report_progress PgPaired s) else (LinkFailed LkIo, s)
          else (LinkUp, report_progress PgPaired s)
      | EvCommandReply identity operation result \<Rightarrow> connect_events saved es s)"

definition connect_turn :: "connect_env \<Rightarrow> connect_state \<Rightarrow> link_end \<times> connect_state" where
  "connect_turn env s =
     (if ce_cancel env then (LinkFailed LkCancelled, s)
      else
        let (sent, s) = send_hello env s
        in if \<not> sent then (LinkFailed LkIo, s)
           else
             (case ce_read env of
                None \<Rightarrow> (LinkFailed LkIo, s)
              | Some bs \<Rightarrow>
                  (case hc_receive bs (lc_client s) of
                     Ok (c, out) \<Rightarrow>
                       let s = s\<lparr>lc_client := c,
                             lc_written := lc_written s @ take (ce_frames_written env) (out_frames out)\<rparr>
                       in if ce_frames_written env < length (out_frames out) then (LinkFailed LkIo, s)
                          else
                            let (ended, s) = connect_events (ce_saved env) (out_events out) s
                            in if ended = LinkGoing \<and> hc_phase (lc_client s) = PairSent \<and> \<not> lc_announced s
                               then (LinkGoing, report_progress (PgAwaitingConfirmation (hc_code (lc_client s)))
                                       (s\<lparr>lc_announced := True\<rparr>))
                               else (ended, s)
                   | _ \<Rightarrow> (LinkPanic, s))))"

fun connect_loop :: "nat \<Rightarrow> connect_env list \<Rightarrow> connect_state \<Rightarrow> link_end \<times> connect_state" where
  "connect_loop deadline [] s = (LinkGoing, s)"
| "connect_loop deadline (env # envs) s =
     (if deadline \<le> ce_now env then (LinkFailed (LkTimeout ''waiting for the display to pair''), s)
      else
        let (ended, s) = connect_turn env s
        in if ended = LinkGoing then connect_loop deadline envs s else (ended, s))"

text \<open>The wait for the board to boot; its list is what the caller's wish to stop was at each look.\<close>

definition sleep_cancellable :: "bool list \<Rightarrow> link_error option" where
  "sleep_cancellable wishes = (if True \<in> set wishes then Some LkCancelled else None)"

definition connect_start :: "identity \<Rightarrow> u32 \<Rightarrow> bytes \<Rightarrow> connect_state" where
  "connect_start identity code session =
     \<lparr>lc_client = hc_new (id_host identity) (id_device identity) code session,
      lc_identity = identity, lc_last_hello = None, lc_announced = False,
      lc_progress = [PgOpened], lc_written = []\<rparr>"

text \<open>The whole attempt; \<open>None\<close> for the random bytes is a failed read of them. The clock of
  the turns counts from the start of the loop, so that \<open>started.elapsed()\<close> is \<open>ce_now\<close>.\<close>

definition connect_with ::
    "bool list \<Rightarrow> bytes option \<Rightarrow> bytes option \<Rightarrow> nat \<Rightarrow> connect_env list \<Rightarrow> identity
     \<Rightarrow> link_end \<times> connect_state" where
  "connect_with wishes code_bytes session deadline envs identity =
     (let s0 = connect_start identity 0 [] in
      case sleep_cancellable wishes of
        Some e \<Rightarrow> (LinkFailed e, s0)
      | None \<Rightarrow>
          (case code_bytes of
             None \<Rightarrow> (LinkFailed LkIo, s0)
           | Some cb \<Rightarrow>
               (case session of
                  None \<Rightarrow> (LinkFailed LkIo, s0)
                | Some session \<Rightarrow>
                    connect_loop deadline envs (connect_start identity (matching_code cb) session))))"

section \<open>Commands\<close>

text \<open>The answers of the port during a command: whether the first write succeeded and, for each
  attempt, its reads and whether the retry could be written.\<close>

record command_env =
  cv_sent :: bool
  cv_reads :: "nat \<Rightarrow> bytes option list"
  cv_resent :: "nat \<Rightarrow> bool"

definition reply_to :: "u32 \<Rightarrow> event list \<Rightarrow> command_result option" where
  "reply_to identity es = (case find (\<lambda>e. case e of
        EvCommandReply i operation result \<Rightarrow> i = identity | _ \<Rightarrow> False) es of
      Some (EvCommandReply i operation result) \<Rightarrow> Some result | _ \<Rightarrow> None)"

text \<open>The reads of one attempt: \<open>Ok None\<close> when no reply came in time.\<close>

fun command_reads ::
    "u32 \<Rightarrow> bytes option list \<Rightarrow> host_client \<Rightarrow> (command_result option, link_error) res \<times> host_client" where
  "command_reads identity [] c = (Ok None, c)"
| "command_reads identity (r # rs) c =
     (case r of
        None \<Rightarrow> (Err LkIo, c)
      | Some bs \<Rightarrow>
          (case hc_receive bs c of
             Ok (c, out) \<Rightarrow>
               (case reply_to identity (out_events out) of
                  Some result \<Rightarrow> (Ok (Some result), c)
                | None \<Rightarrow> command_reads identity rs c)
           | _ \<Rightarrow> (Panic, c)))"

text \<open>The attempts left, with what they write.\<close>

fun command_attempts ::
    "nat \<Rightarrow> command_env \<Rightarrow> u32 \<Rightarrow> command_operation \<Rightarrow> host_client
     \<Rightarrow> (command_result, link_error) res \<times> bytes list \<times> host_client" where
  "command_attempts 0 env identity operation c = (Err (LkTimeout ''waiting for the command reply''), [], c)"
| "command_attempts (Suc n) env identity operation c =
     (case command_reads identity (cv_reads env (4 - n)) c of
        (Ok (Some result), c) \<Rightarrow> (Ok result, [], c)
      | (Ok None, c) \<Rightarrow>
          (case retry_command identity operation c of
             (None, c) \<Rightarrow> command_attempts n env identity operation c
           | (Some f, c) \<Rightarrow>
               if cv_resent env (4 - n) then
                 let (r, fs, c) = command_attempts n env identity operation c in (r, f # fs, c)
               else (Err LkIo, [], c))
      | (Err e, c) \<Rightarrow> (Err e, [], c)
      | (Panic, c) \<Rightarrow> (Panic, [], c))"

definition link_command ::
    "command_env \<Rightarrow> command_operation \<Rightarrow> host_client
     \<Rightarrow> (command_result, link_error) res \<times> bytes list \<times> host_client" where
  "link_command env operation c =
     (case hc_command operation c of
        (None, c) \<Rightarrow> (Err (LkTimeout ''sending: the link is not paired''), [], c)
      | (Some (identity, f), c) \<Rightarrow>
          if \<not> cv_sent env then (Err LkIo, [], c)
          else let (r, fs, c) = command_attempts 5 env identity operation c in (r, f # fs, c))"

section \<open>Serving\<close>

datatype serve_end = ServeStopped | ServeResync | ServeUnpaired

datatype serve_action = ActContinue | ActStop | ActCommand command_operation

text \<open>
  One turn of the two nested loops: \<open>sv_now\<close> is the instant the inner loop's condition reads, so
  that the turn is the start of the next second once it has reached \<open>next\<close>, and a poll before. The
  other fields are the answers that a turn of either kind reads.
\<close>

record serve_env =
  sv_now :: nat
  sv_wall :: u64
  sv_mono :: u64
  sv_inputs :: inputs
  sv_offset :: "i16 option"
  sv_utc_ms :: u64
  sv_written :: bool
  sv_action :: serve_action
  sv_command :: command_env
  sv_after :: nat
  sv_after_wall :: u64
  sv_after_mono :: u64
  sv_read :: "bytes option"

record serve_state =
  ss_client :: host_client
  ss_groups :: groups
  ss_next :: nat
  ss_last_wall :: u64
  ss_last_mono :: u64

text \<open>How a turn ends: the loop goes on, \<open>serve\<close> returns, or it panics.\<close>

datatype serve_result = ServeGoing | ServeEnds serve_end | ServeFails link_error | ServePanics

text \<open>What the observer is told.\<close>

datatype observed = ObSnapshot snapshot report
  | ObCommand command_operation "(command_result, link_error) res"

type_synonym turn = "serve_result \<times> bytes list \<times> observed list \<times> serve_state"

definition serve_tick :: "serve_env \<Rightarrow> serve_state \<Rightarrow> turn" where
  "serve_tick env s =
     (if slept (ss_last_wall s) (sv_wall env) \<or> slept (ss_last_mono s) (sv_mono env)
      then (ServeEnds ServeResync, [], [], s\<lparr>ss_groups := groups_wake (ss_groups s)\<rparr>)
      else
        let s = s\<lparr>ss_last_wall := sv_wall env, ss_last_mono := sv_mono env\<rparr>
        in (case groups_collect (ss_groups s) (sv_inputs env) (sv_mono env) of
              Ok ((snapshot, report), g) \<Rightarrow>
                let s = s\<lparr>ss_groups := g\<rparr>;
                    c = set_local_offset_minutes (sv_offset env) (ss_client s);
                    (frame, c) = hc_snapshot snapshot (Some (sv_utc_ms env)) c;
                    s = s\<lparr>ss_client := c\<rparr>
                in (case frame of
                      None \<Rightarrow> (ServeFails (LkTimeout ''sending: the link is no longer paired''), [], [], s)
                    | Some f \<Rightarrow>
                        if \<not> sv_written env then (ServeFails LkIo, [], [], s)
                        else (ServeGoing, [f], [ObSnapshot snapshot report],
                              s\<lparr>ss_next := ss_next s + SNAPSHOT_PERIOD\<rparr>))
            | _ \<Rightarrow> (ServePanics, [], [], s)))"

text \<open>The end of a poll: up to 512 bytes are read and handed to the client.\<close>

definition serve_read :: "bytes option \<Rightarrow> serve_state \<Rightarrow> serve_result \<times> serve_state" where
  "serve_read r s =
     (case r of
        None \<Rightarrow> (ServeFails LkIo, s)
      | Some bs \<Rightarrow>
          (case hc_receive bs (ss_client s) of
             Ok (c, out) \<Rightarrow>
               (case find (\<lambda>e. case e of EvRefused reason \<Rightarrow> True | _ \<Rightarrow> False) (out_events out) of
                  Some (EvRefused reason) \<Rightarrow> (ServeFails (LkRefused reason), s\<lparr>ss_client := c\<rparr>)
                | _ \<Rightarrow> (ServeGoing, s\<lparr>ss_client := c\<rparr>))
           | _ \<Rightarrow> (ServePanics, s)))"

definition serve_poll :: "serve_env \<Rightarrow> serve_state \<Rightarrow> turn" where
  "serve_poll env s =
     (case sv_action env of
        ActStop \<Rightarrow> (ServeEnds ServeStopped, [], [], s)
      | ActContinue \<Rightarrow> let (r, s) = serve_read (sv_read env) s in (r, [], [], s)
      | ActCommand operation \<Rightarrow>
          let (result, fs, c) = link_command (sv_command env) operation (ss_client s);
              s = s\<lparr>ss_client := c\<rparr>
          in if result = Panic then (ServePanics, fs, [], s)
             else if result \<in> {Ok Applied, Ok AlreadyApplied} \<and> operation = Unpair
             then (ServeEnds ServeUnpaired, fs, [ObCommand operation result], s)
             else
               let s = s\<lparr>ss_next := sv_after env, ss_last_wall := sv_after_wall env,
                         ss_last_mono := sv_after_mono env\<rparr>;
                   (r, s) = serve_read (sv_read env) s
               in (r, fs, [ObCommand operation result], s))"

definition serve_turn :: "serve_env \<Rightarrow> serve_state \<Rightarrow> turn" where
  "serve_turn env s = (if sv_now env < ss_next s then serve_poll env s else serve_tick env s)"

fun serve_loop :: "serve_env list \<Rightarrow> serve_state \<Rightarrow> turn" where
  "serve_loop [] s = (ServeGoing, [], [], s)"
| "serve_loop (env # envs) s =
     (let (r, fs, obs, s) = serve_turn env s
      in if r = ServeGoing then
           let (r', fs', obs', s') = serve_loop envs s in (r', fs @ fs', obs @ obs', s')
         else (r, fs, obs, s))"

definition serve_start :: "nat \<Rightarrow> u64 \<Rightarrow> u64 \<Rightarrow> groups \<Rightarrow> host_client \<Rightarrow> serve_state" where
  "serve_start now wall clock g c =
     \<lparr>ss_client = c, ss_groups = g, ss_next = now, ss_last_wall = wall, ss_last_mono = clock\<rparr>"

end
