(* ===== verification/Link_Correct.thy ===== *)
theory Link_Correct
  imports Link
begin

text \<open>
  What a served link keeps: the client stays live, every second is a decodable snapshot in
  sequence, a command is asked for under one identity and answered by a reply to it, and nothing is
  measured across a sleep that is noticed.
\<close>

section \<open>A live client\<close>

definition reply_event :: "event \<Rightarrow> bool" where
  "reply_event e \<longleftrightarrow> (\<exists>i operation r. e = EvCommandReply i operation r)"

lemma handle_Live_events:
  "hc_phase c = Live \<Longrightarrow> \<forall>e \<in> set (out_events out). reply_event e \<Longrightarrow>
   \<forall>e \<in> set (out_events (snd (handle m c out))). reply_event e"
  by (auto simp: handle_def handle_control_def push_event_def reply_event_def
      split: message.splits control_body.splits)

lemma deliver_all_Live_events:
  "deliver_all fs (c, out) = Ok (d, o') \<Longrightarrow> hc_phase c = Live \<Longrightarrow> \<forall>e \<in> set (out_events out). reply_event e \<Longrightarrow>
   \<forall>e \<in> set (out_events o'). reply_event e"
proof (induction fs arbitrary: c out)
  case (Cons f fs)
  then obtain c1 o1 where f: "deliver f (c, out) = Ok (c1, o1)" and fs: "deliver_all fs (c1, o1) = Ok (d, o')"
    by (auto simp: and_then_eq_Ok)
  from f consider m where "(c1, o1) = handle m c out" | "c1 = c" "o1 = out"
    unfolding deliver_Ok by blast
  then have "c1 = c \<and> (\<forall>e \<in> set (out_events o1). reply_event e)"
    using handle_Live [OF Cons.prems(2)] handle_Live_events [OF Cons.prems(2,3)] Cons.prems(3)
    by cases (metis fst_conv snd_conv, simp)
  then show ?case
    using Cons.IH [OF fs] Cons.prems(2) by simp
qed simp

text \<open>What a read does to a live client: only its framer moves.\<close>

lemma receive_Live:
  assumes "hc_receive bs c = Ok (d, out)" and "hc_phase c = Live"
  obtains t where "d = c\<lparr>hc_stream := t\<rparr>" and "\<forall>e \<in> set (out_events out). reply_event e"
  using assms(1)
proof (rule hc_receive_Ok)
  fix fs t d'
  assume r: "deliver_all fs (c, output0) = Ok (d', out)" "d = d'\<lparr>hc_stream := t\<rparr>"
  show thesis
    using deliver_all_Live [OF r(1) assms(2)] deliver_all_Live_events [OF r(1) assms(2)] r(2)
    by (intro that [of t]) (auto simp: output0_def)
qed

text \<open>What the client keeps over any sending and receiving of a live link.\<close>

definition linked :: "host_client \<Rightarrow> host_client \<Rightarrow> bool" where
  "linked c d \<longleftrightarrow> hc_phase d = Live \<and> hc_session d = hc_session c
     \<and> hc_local_offset_minutes d = hc_local_offset_minutes c"

lemma linked_live: "live_client c \<Longrightarrow> linked c d \<Longrightarrow> live_client d"
  by (simp add: live_client_def linked_def)

lemma linked_trans: "linked c d \<Longrightarrow> linked d e \<Longrightarrow> linked c e"
  by (simp add: linked_def)

lemma linked_refl: "live_client c \<Longrightarrow> linked c c"
  by (simp add: live_client_def linked_def)

section \<open>Frames in sequence\<close>

text \<open>
  Frames of a session with rising sequence numbers above \<open>a\<close> and up to \<open>b\<close>; \<open>P\<close> is what each
  number's frame is.
\<close>

definition frames_between :: "(u32 \<Rightarrow> bytes \<Rightarrow> bool) \<Rightarrow> u32 \<Rightarrow> bytes list \<Rightarrow> u32 \<Rightarrow> bool" where
  "frames_between P a fs b \<longleftrightarrow> a \<le> b \<and> (\<exists>ns. list_all2 P ns fs \<and> sorted_wrt (<) (a # ns) \<and> (\<forall>n \<in> set ns. n \<le> b))"

lemma frames_between_Nil: "a \<le> b \<Longrightarrow> frames_between P a [] b"
  by (simp add: frames_between_def)

lemma frames_between_append:
  assumes "frames_between P a fs b" and "frames_between P b gs c"
  shows "frames_between P a (fs @ gs) c"
proof -
  obtain ns ms where ns: "list_all2 P ns fs" "sorted_wrt (<) (a # ns)" "\<forall>n \<in> set ns. n \<le> b" "a \<le> b"
    and ms: "list_all2 P ms gs" "sorted_wrt (<) (b # ms)" "\<forall>n \<in> set ms. n \<le> c" "b \<le> c"
    using assms by (auto simp: frames_between_def)
  have "n < m" if "n \<in> set ns" "m \<in> set ms" for n m
  proof -
    have "n \<le> b" "b < m"
      using that ns(3) ms(2) by simp_all
    then show ?thesis
      by (rule order.strict_trans1)
  qed
  moreover have "a < m" if "m \<in> set ms" for m
  proof -
    have "b < m"
      using that ms(2) by simp
    with ns(4) show ?thesis
      by (rule order.strict_trans1)
  qed
  ultimately have "sorted_wrt (<) (a # ns @ ms)"
    using ns(2) ms(2) by (auto simp: sorted_wrt_append)
  moreover have "\<forall>n \<in> set (ns @ ms). n \<le> c"
    using ns(3) ms(3,4) by auto
  ultimately show ?thesis
    using list_all2_appendI [OF ns(1) ms(1)] order.trans [OF ns(4) ms(4)]
    unfolding frames_between_def by blast
qed

lemma frames_between_one: "P n f \<Longrightarrow> a < n \<Longrightarrow> frames_between P a [f] n"
  unfolding frames_between_def by (intro conjI exI [of _ "[n]"]) (simp_all add: less_imp_le)

lemma frames_between_mono: "frames_between P a fs b \<Longrightarrow> b \<le> c \<Longrightarrow> frames_between P a fs c"
  using frames_between_append [OF _ frames_between_Nil, of P a fs b c] by simp

lemma frames_between_weaken:
  assumes "frames_between P a fs b" and "\<And>n f. P n f \<Longrightarrow> Q n f"
  shows "frames_between Q a fs b"
proof -
  obtain ns where ns: "list_all2 P ns fs" "sorted_wrt (<) (a # ns)" "\<forall>n \<in> set ns. n \<le> b" "a \<le> b"
    using assms(1) by (auto simp: frames_between_def)
  have "list_all2 Q ns fs"
    using ns(1) assms(2) by (rule list_all2_mono)
  with ns(2-4) show ?thesis
    unfolding frames_between_def by blast
qed

section \<open>Commands\<close>

definition command_frame :: "bytes \<Rightarrow> u32 \<Rightarrow> command_operation \<Rightarrow> u32 \<Rightarrow> bytes \<Rightarrow> bool" where
  "command_frame session identity operation n f \<longleftrightarrow>
     (\<exists>e. decode f = Ok (MsgControl e (BCommand \<lparr>cmd_command_identity = identity, cmd_operation = operation\<rparr>))
        \<and> env_session e = session \<and> env_sequence e = n)"

lemma retry_live:
  assumes "live_client c"
  obtains f where "retry_command identity operation c = (Some f, c\<lparr>hc_sequence := hc_sequence c + 1\<rparr>)"
    and "command_frame (hc_session c) identity operation (hc_sequence c + 1) f"
proof -
  have live: "hc_phase c = Live" "length (hc_session c) = 16" "offset_ok (hc_local_offset_minutes c)"
    using assms by (simp_all add: live_client_def)
  let ?e = "hc_envelope (c\<lparr>hc_sequence := hc_sequence c + 1\<rparr>) MtCommand (hc_session c) (hc_sequence c + 1)"
  let ?b = "BCommand \<lparr>cmd_command_identity = identity, cmd_operation = operation\<rparr>"
  have "envelope_ok ?e"
    using live by (intro hc_envelope_ok) simp_all
  then obtain ct where "encode_control ?e ?b = Ok (frame_of ct)" "decode (frame_of ct) = Ok (MsgControl ?e ?b)"
    using control_framed [of ?e ?b] by (auto simp: control_ok_def wf_control_def)
  with live show thesis
    by (intro that [of "frame_of ct"])
      (auto simp: retry_command_def next_sequence_def res_ok_def command_frame_def)
qed

text \<open>What a step did to the client: its link, and how far its sequence number moved.\<close>

definition moved :: "nat \<Rightarrow> host_client \<Rightarrow> host_client \<Rightarrow> bool" where
  "moved k c d \<longleftrightarrow> linked c d \<and> unat (hc_sequence d) \<le> unat (hc_sequence c) + k \<and> hc_sequence c \<le> hc_sequence d"

lemma moved_trans: "moved j c d \<Longrightarrow> moved k d e \<Longrightarrow> moved (j + k) c e"
  by (auto simp: moved_def linked_def)

lemma moved_next:
  "live_client c \<Longrightarrow> unat (hc_sequence c) + 1 < 2 ^ 32 \<Longrightarrow> moved 1 c (c\<lparr>hc_sequence := hc_sequence c + 1\<rparr>)"
  using word_next_less [of "hc_sequence c"] by (simp add: moved_def linked_def live_client_def)

lemma command_reads_live:
  "command_reads identity rs c = (r, d) \<Longrightarrow> live_client c \<Longrightarrow>
   moved 0 c d \<and> hc_sequence d = hc_sequence c \<and> hc_next_command d = hc_next_command c"
proof (induction rs arbitrary: c)
  case Nil
  then show ?case
    by (auto simp: moved_def linked_refl)
next
  case (Cons x rs)
  show ?case
  proof (cases "\<exists>bs c' out. x = Some bs \<and> hc_receive bs c = Ok (c', out)")
    case False
    then show ?thesis
      using Cons.prems by (auto simp: moved_def linked_refl split: option.splits res.splits prod.splits)
  next
    case True
    then obtain bs c' out where x: "x = Some bs" and rx: "hc_receive bs c = Ok (c', out)"
      by blast
    obtain t where c': "c' = c\<lparr>hc_stream := t\<rparr>"
      using receive_Live [OF rx] Cons.prems(2) by (auto simp: live_client_def)
    have m: "moved 0 c c'" "hc_sequence c' = hc_sequence c" "hc_next_command c' = hc_next_command c" "live_client c'"
      using Cons.prems(2) by (simp_all add: moved_def linked_def live_client_def c')
    show ?thesis
    proof (cases "reply_to identity (out_events out)")
      case None
      then have "command_reads identity rs c' = (r, d)"
        using Cons.prems(1) x rx by simp
      then show ?thesis
        using Cons.IH [OF _ m(4)] moved_trans [OF m(1), of 0 d] m(2,3) by auto
    next
      case (Some result)
      then show ?thesis
        using Cons.prems(1) x rx m by auto
    qed
  qed
qed

lemma command_attempts_live:
  "command_attempts n env identity operation c = (r, fs, d) \<Longrightarrow> live_client c \<Longrightarrow>
   unat (hc_sequence c) + n < 2 ^ 32 \<Longrightarrow>
   moved n c d \<and> length fs \<le> n \<and> hc_next_command d = hc_next_command c
   \<and> frames_between (command_frame (hc_session c) identity operation) (hc_sequence c) fs (hc_sequence d)"
proof (induction n arbitrary: c fs)
  case 0
  then show ?case
    by (auto simp: moved_def linked_refl frames_between_Nil)
next
  case (Suc n)
  obtain x c1 where reads: "command_reads identity (cv_reads env (4 - n)) c = (x, c1)"
    by fastforce
  note c1 = command_reads_live [OF reads Suc.prems(2)]
  have live1: "live_client c1" and same: "hc_session c1 = hc_session c"
    using c1 linked_live [OF Suc.prems(2)] by (auto simp: moved_def linked_def)
  have stop: ?case if "fs = []" "d = c1"
    using that c1 by (auto simp: moved_def frames_between_Nil)
  show ?case
  proof (cases "x = Ok None")
    case False
    then show ?thesis
      using Suc.prems(1) reads stop by (auto split: res.splits option.splits)
  next
    case True
    obtain f where f: "retry_command identity operation c1 = (Some f, c1\<lparr>hc_sequence := hc_sequence c1 + 1\<rparr>)"
      "command_frame (hc_session c1) identity operation (hc_sequence c1 + 1) f"
      by (rule retry_live [OF live1])
    let ?c2 = "c1\<lparr>hc_sequence := hc_sequence c1 + 1\<rparr>"
    have step: "moved 1 c1 ?c2"
      using moved_next [OF live1] Suc.prems(3) c1 by simp
    have s2: "hc_sequence ?c2 = hc_sequence c1 + 1" and less: "hc_sequence c1 < hc_sequence ?c2"
      using word_next_less [of "hc_sequence c1"] Suc.prems(3) c1 by simp_all
    have live2: "live_client ?c2"
      using live1 by (simp add: live_client_def)
    show ?thesis
    proof (cases "cv_resent env (4 - n)")
      case False
      then have "fs = []" "d = ?c2"
        using Suc.prems(1) reads True f(1) by simp_all
      then show ?thesis
        using moved_trans [OF c1 [THEN conjunct1] step] less c1 Suc.prems(2)
        by (auto simp: moved_def frames_between_Nil)
    next
      case resent: True
      obtain gs where gs: "command_attempts n env identity operation ?c2 = (r, gs, d)" "fs = f # gs"
        using Suc.prems(1) reads True f(1) resent by (auto split: prod.splits)
      have "unat (hc_sequence ?c2) + n < 2 ^ 32"
        using word_next_less(2) [of "hc_sequence c1"] Suc.prems(3) c1 by simp
      then have ih: "moved n ?c2 d" "length gs \<le> n" "hc_next_command d = hc_next_command ?c2"
        "frames_between (command_frame (hc_session ?c2) identity operation) (hc_sequence ?c2) gs (hc_sequence d)"
        using Suc.IH [OF gs(1) live2] by auto
      have "frames_between (command_frame (hc_session c) identity operation) (hc_sequence c) [f] (hc_sequence ?c2)"
        using f(2) less c1 same by (intro frames_between_one) simp_all
      then have "frames_between (command_frame (hc_session c) identity operation) (hc_sequence c) fs (hc_sequence d)"
        using frames_between_append [of _ _ "[f]" _ gs] ih(4) same gs(2) by simp
      moreover have "moved (Suc n) c d"
        using moved_trans [OF moved_trans [OF c1 [THEN conjunct1] step] ih(1)] by simp
      ultimately show ?thesis
        using ih(2,3) gs(2) c1 by simp
    qed
  qed
qed

text \<open>
  Where an answer comes from: the frames the framer of this client cuts from the bytes read, in
  order, and the first of them that is a reply of the session with this identity.
\<close>

fun frames_heard :: "frame_stream \<Rightarrow> bytes list \<Rightarrow> bytes list" where
  "frames_heard s [] = []"
| "frames_heard s (bs # bss) =
     fst (drain (fs_push s bs)) @ frames_heard (snd (drain (fs_push s bs))) bss"

fun stream_after :: "frame_stream \<Rightarrow> bytes list \<Rightarrow> frame_stream" where
  "stream_after s [] = s"
| "stream_after s (bs # bss) = stream_after (snd (drain (fs_push s bs))) bss"

definition frame_reply :: "bytes \<Rightarrow> u32 \<Rightarrow> bytes \<Rightarrow> command_result option" where
  "frame_reply session identity f = (case decode f of
      Ok (MsgControl e (BCommandReply b)) \<Rightarrow>
        if env_session e = session \<and> rep_command_identity b = identity then Some (rep_result b) else None
    | _ \<Rightarrow> None)"

fun first_reply :: "bytes \<Rightarrow> u32 \<Rightarrow> bytes list \<Rightarrow> command_result option" where
  "first_reply session identity [] = None"
| "first_reply session identity (f # fs) = (case frame_reply session identity f of
      Some result \<Rightarrow> Some result | None \<Rightarrow> first_reply session identity fs)"

text \<open>The reads of the attempts from \<open>j\<close> up to \<open>k\<close>, and what was heard in reads that all worked.\<close>

definition attempt_reads :: "command_env \<Rightarrow> nat \<Rightarrow> nat \<Rightarrow> bytes option list" where
  "attempt_reads env j k = concat (map (cv_reads env) [j..<k])"

definition heard :: "host_client \<Rightarrow> u32 \<Rightarrow> bytes option list \<Rightarrow> command_result option \<Rightarrow> bool" where
  "heard c identity rs answer \<longleftrightarrow> None \<notin> set rs
     \<and> first_reply (hc_session c) identity (frames_heard (hc_stream c) (map the rs)) = answer"

lemma frames_heard_append:
  "frames_heard s (xs @ ys) = frames_heard s xs @ frames_heard (stream_after s xs) ys"
  by (induction xs arbitrary: s) simp_all

lemma stream_after_append: "stream_after s (xs @ ys) = stream_after (stream_after s xs) ys"
  by (induction xs arbitrary: s) simp_all

lemma first_reply_append:
  "first_reply session identity (fs @ gs) = (case first_reply session identity fs of
     Some result \<Rightarrow> Some result | None \<Rightarrow> first_reply session identity gs)"
  by (induction fs) (auto split: option.split)

lemma reply_to_simps [simp]:
  "reply_to identity [] = None"
  "reply_to identity (EvCommandReply i operation result # es)
     = (if i = identity then Some result else reply_to identity es)"
  "\<not> reply_event e \<Longrightarrow> reply_to identity (e # es) = reply_to identity es"
  by (auto simp: reply_to_def reply_event_def split: event.splits)

lemma reply_to_append:
  "reply_to identity (es @ fs) = (case reply_to identity es of
     Some result \<Rightarrow> Some result | None \<Rightarrow> reply_to identity fs)"
proof (induction es)
  case (Cons e es)
  show ?case
  proof (cases "reply_event e")
    case True
    then show ?thesis
      using Cons.IH by (auto simp: reply_event_def)
  qed (use Cons.IH in simp)
qed simp

lemma handle_Live_reply:
  assumes "hc_phase c = Live" and "decode f = Ok m"
  shows "reply_to identity (out_events (snd (handle m c out))) = (case reply_to identity (out_events out) of
     Some result \<Rightarrow> Some result | None \<Rightarrow> frame_reply (hc_session c) identity f)"
proof (cases "\<exists>e b. m = MsgControl e (BCommandReply b)")
  case True
  then show ?thesis
    using assms by (auto simp: handle_def handle_control_def push_event_def frame_reply_def reply_to_append
        split: option.split)
next
  case False
  then have "snd (handle m c out) = out" "frame_reply (hc_session c) identity f = None"
    using assms by (auto simp: handle_def handle_control_def frame_reply_def split: message.splits control_body.splits)
  then show ?thesis
    by (simp split: option.split)
qed

lemma deliver_all_Live_reply:
  "deliver_all fs (c, out) = Ok (d, o') \<Longrightarrow> hc_phase c = Live \<Longrightarrow>
   reply_to identity (out_events o') = (case reply_to identity (out_events out) of
     Some result \<Rightarrow> Some result | None \<Rightarrow> first_reply (hc_session c) identity fs)"
proof (induction fs arbitrary: c out)
  case Nil
  then show ?case
    by (simp split: option.split)
next
  case (Cons f fs)
  then obtain c1 o1 where f: "deliver f (c, out) = Ok (c1, o1)" and fs: "deliver_all fs (c1, o1) = Ok (d, o')"
    by (auto simp: and_then_eq_Ok)
  from f have "c1 = c \<and> reply_to identity (out_events o1) = (case reply_to identity (out_events out) of
     Some result \<Rightarrow> Some result | None \<Rightarrow> frame_reply (hc_session c) identity f)"
  proof (cases "decode f")
    case (Ok m)
    then have "(c1, o1) = handle m c out"
      using f by (simp add: deliver_def)
    then show ?thesis
      using handle_Live [OF Cons.prems(2)] handle_Live_reply [OF Cons.prems(2) Ok, of identity out]
      by (metis fst_conv snd_conv)
  qed (use f in \<open>auto simp: deliver_def frame_reply_def split: option.split\<close>)
  then show ?case
    using Cons.IH [OF fs] Cons.prems(2) by (simp split: option.split)
qed

lemma receive_reply:
  assumes "hc_receive bs c = Ok (d, out)" and "hc_phase c = Live"
  shows "d = c\<lparr>hc_stream := snd (drain (fs_push (hc_stream c) bs))\<rparr>"
    and "reply_to identity (out_events out)
      = first_reply (hc_session c) identity (fst (drain (fs_push (hc_stream c) bs)))"
proof -
  obtain fs t d' where r: "drain (fs_push (hc_stream c) bs) = (fs, t)"
    "deliver_all fs (c, output0) = Ok (d', out)" "d = d'\<lparr>hc_stream := t\<rparr>"
    using hc_receive_Ok [OF assms(1)] by metis
  show "d = c\<lparr>hc_stream := snd (drain (fs_push (hc_stream c) bs))\<rparr>"
    using deliver_all_Live [OF r(2) assms(2)] r(1,3) by simp
  show "reply_to identity (out_events out)
      = first_reply (hc_session c) identity (fst (drain (fs_push (hc_stream c) bs)))"
    using deliver_all_Live_reply [OF r(2) assms(2)] r(1) by (simp add: output0_def)
qed

lemma command_reads_heard:
  "command_reads identity rs c = (r, d) \<Longrightarrow> hc_phase c = Live \<Longrightarrow>
   (r = Ok None \<longrightarrow> heard c identity rs None \<and> d = c\<lparr>hc_stream := stream_after (hc_stream c) (map the rs)\<rparr>)
   \<and> (\<forall>result. r = Ok (Some result) \<longrightarrow> (\<exists>m. heard c identity (take m rs) (Some result)))"
proof (induction rs arbitrary: c)
  case Nil
  then show ?case
    by (auto simp: heard_def)
next
  case (Cons x rs)
  show ?case
  proof (cases "\<exists>bs c' out. x = Some bs \<and> hc_receive bs c = Ok (c', out)")
    case False
    then show ?thesis
      using Cons.prems by (auto split: option.splits res.splits)
  next
    case True
    then obtain bs c' out where x: "x = Some bs" and rx: "hc_receive bs c = Ok (c', out)"
      by blast
    let ?t = "snd (drain (fs_push (hc_stream c) bs))" and ?fs = "fst (drain (fs_push (hc_stream c) bs))"
    note got = receive_reply [OF rx Cons.prems(2)]
    show ?thesis
    proof (cases "first_reply (hc_session c) identity ?fs")
      case None
      have live: "hc_phase c' = Live" "hc_session c' = hc_session c" "hc_stream c' = ?t"
        using got(1) Cons.prems(2) by simp_all
      have add: "heard c' identity qs a \<Longrightarrow> heard c identity (x # qs) a" for qs a
        using None x live by (simp add: heard_def first_reply_append)
      have "command_reads identity rs c' = (r, d)"
        using Cons.prems(1) x rx None got(2) by simp
      note ih = Cons.IH [OF this live(1)]
      show ?thesis
      proof (intro conjI impI allI)
        assume "r = Ok None"
        then show "heard c identity (x # rs) None"
          and "d = c\<lparr>hc_stream := stream_after (hc_stream c) (map the (x # rs))\<rparr>"
          using ih add x got(1) by simp_all
      next
        fix result assume "r = Ok (Some result)"
        then obtain m where "heard c' identity (take m rs) (Some result)"
          using ih by blast
        then have "heard c identity (take (Suc m) (x # rs)) (Some result)"
          using add by simp
        then show "\<exists>m. heard c identity (take m (x # rs)) (Some result)"
          by blast
      qed
    next
      case (Some result)
      then have "r = Ok (Some result)"
        using Cons.prems(1) x rx got(2) by simp
      moreover have "heard c identity (take 1 (x # rs)) (Some result)"
        using Some x by (simp add: heard_def)
      ultimately show ?thesis
        by blast
    qed
  qed
qed

lemma heard_further:
  assumes "heard c identity rs None" and "heard d identity qs a"
    and "hc_session d = hc_session c" and "hc_stream d = stream_after (hc_stream c) (map the rs)"
  shows "heard c identity (rs @ qs) a"
  using assms by (simp add: heard_def frames_heard_append first_reply_append)

lemma attempt_reads_first: "j < k \<Longrightarrow> attempt_reads env j k = cv_reads env j @ attempt_reads env (Suc j) k"
  by (simp add: attempt_reads_def upt_conv_Cons)

lemma command_reads_errors: "command_reads identity rs c = (r, d) \<Longrightarrow> r \<noteq> Err (LkTimeout x)"
  by (induction rs arbitrary: c) (auto split: option.splits res.splits prod.splits)

lemma command_attempts_heard:
  "command_attempts n env identity operation c = (r, fs, d) \<Longrightarrow> live_client c \<Longrightarrow> n \<le> 5 \<Longrightarrow>
   (\<forall>result. r = Ok result \<longrightarrow> (\<exists>k m. 5 - n \<le> k \<and> k < 5
      \<and> heard c identity (attempt_reads env (5 - n) k @ take m (cv_reads env k)) (Some result)))
   \<and> (\<forall>x. r = Err (LkTimeout x) \<longrightarrow> heard c identity (attempt_reads env (5 - n) 5) None)"
proof (induction n arbitrary: c fs)
  case 0
  then show ?case
    by (auto simp: heard_def attempt_reads_def)
next
  case (Suc n)
  let ?j = "4 - n"
  have j: "5 - Suc n = ?j" "?j < 5" "Suc ?j = 5 - n"
    using Suc.prems(3) by simp_all
  have phase: "hc_phase c = Live"
    using Suc.prems(2) by (simp add: live_client_def)
  obtain x c1 where reads: "command_reads identity (cv_reads env ?j) c = (x, c1)"
    by fastforce
  note got = command_reads_heard [OF reads phase]
  show ?case
  proof (cases "x = Ok None")
    case False
    show ?thesis
    proof (cases "\<exists>result. x = Ok (Some result)")
      case True
      then obtain result m where x: "x = Ok (Some result)" and m: "heard c identity (take m (cv_reads env ?j)) (Some result)"
        using got by blast
      have "attempt_reads env ?j ?j = []"
        by (simp add: attempt_reads_def)
      then have "heard c identity (attempt_reads env ?j ?j @ take m (cv_reads env ?j)) (Some result)"
        using m by simp
      moreover have "r = Ok result"
        using Suc.prems(1) reads x by simp
      ultimately show ?thesis
        unfolding j(1) using j(2) by blast
    next
      case None: False
      have "\<And>y. x \<noteq> Err (LkTimeout y)"
        using command_reads_errors [OF reads] by blast
      then show ?thesis
        using Suc.prems(1) reads None False by (auto split: res.splits option.splits)
    qed
  next
    case True
    then have none: "heard c identity (cv_reads env ?j) None"
      and c1: "c1 = c\<lparr>hc_stream := stream_after (hc_stream c) (map the (cv_reads env ?j))\<rparr>"
      using got by blast+
    have live1: "live_client c1"
      using Suc.prems(2) by (simp add: live_client_def c1)
    obtain f where f: "retry_command identity operation c1 = (Some f, c1\<lparr>hc_sequence := hc_sequence c1 + 1\<rparr>)"
      by (rule retry_live [OF live1])
    let ?c2 = "c1\<lparr>hc_sequence := hc_sequence c1 + 1\<rparr>"
    have live2: "live_client ?c2"
      using live1 by (simp add: live_client_def)
    have more: "heard ?c2 identity qs a \<Longrightarrow> heard c identity (cv_reads env ?j @ qs) a" for qs a
      using heard_further [OF none, of ?c2 qs a] c1 by simp
    show ?thesis
    proof (cases "cv_resent env ?j")
      case False
      then show ?thesis
        using Suc.prems(1) reads True f by auto
    next
      case resent: True
      obtain gs where gs: "command_attempts n env identity operation ?c2 = (r, gs, d)"
        using Suc.prems(1) reads True f resent by (auto split: prod.splits)
      have n: "n \<le> 5"
        using Suc.prems(3) by simp
      note ih = Suc.IH [OF gs live2 n]
      show ?thesis
      proof (intro conjI allI impI)
        fix result assume "r = Ok result"
        then obtain k m where k: "5 - n \<le> k" "k < 5"
          and h: "heard ?c2 identity (attempt_reads env (5 - n) k @ take m (cv_reads env k)) (Some result)"
          using ih by blast
        have "attempt_reads env ?j k = cv_reads env ?j @ attempt_reads env (5 - n) k"
          using attempt_reads_first [of ?j k env] k(1) j(3) by simp
        then show "\<exists>k m. 5 - Suc n \<le> k \<and> k < 5
            \<and> heard c identity (attempt_reads env (5 - Suc n) k @ take m (cv_reads env k)) (Some result)"
          using more [OF h] k j by (intro exI [of _ k] exI [of _ m]) simp
      next
        fix y assume "r = Err (LkTimeout y)"
        then have "heard ?c2 identity (attempt_reads env (5 - n) 5) None"
          using ih by blast
        then show "heard c identity (attempt_reads env (5 - Suc n) 5) None"
          using more j attempt_reads_first [of ?j 5 env] by simp
      qed
    qed
  qed
qed

lemma link_command_live:
  assumes "link_command env operation c = (r, fs, d)" and "live_client c"
    and "unat (hc_sequence c) + 6 < 2 ^ 32"
  shows "moved 6 c d \<and> length fs \<le> 6 \<and> hc_next_command d = hc_next_command c + 1
    \<and> frames_between (command_frame (hc_session c) (hc_next_command c) operation) (hc_sequence c) fs (hc_sequence d)
    \<and> (\<forall>result. r = Ok result \<longrightarrow> (\<exists>k m. k < 5
        \<and> heard c (hc_next_command c) (attempt_reads env 0 k @ take m (cv_reads env k)) (Some result)))
    \<and> (\<forall>x. r = Err (LkTimeout x) \<longrightarrow> heard c (hc_next_command c) (attempt_reads env 0 5) None)"
proof -
  let ?c = "c\<lparr>hc_next_command := hc_next_command c + 1\<rparr>"
  let ?i = "hc_next_command c"
  have live: "live_client ?c"
    using assms(2) by (simp add: live_client_def)
  obtain f where f: "retry_command ?i operation ?c = (Some f, ?c\<lparr>hc_sequence := hc_sequence ?c + 1\<rparr>)"
    "command_frame (hc_session ?c) ?i operation (hc_sequence ?c + 1) f"
    by (rule retry_live [OF live])
  let ?d = "?c\<lparr>hc_sequence := hc_sequence ?c + 1\<rparr>"
  have cmd: "hc_command operation c = (Some (?i, f), ?d)"
    using f(1) by (simp add: hc_command_def Let_def)
  have step: "moved 1 c ?d" and less: "hc_sequence c < hc_sequence c + 1"
    and up: "unat (hc_sequence ?d) = unat (hc_sequence c) + 1"
    using assms(2,3) word_next_less [of "hc_sequence c"] by (simp_all add: moved_def linked_def live_client_def)
  show ?thesis
  proof (cases "cv_sent env")
    case False
    then show ?thesis
      using assms(1) cmd step up by (auto simp: link_command_def moved_def frames_between_Nil)
  next
    case True
    obtain gs where gs: "command_attempts 5 env ?i operation ?d = (r, gs, d)" "fs = f # gs"
      using assms(1) cmd True by (auto simp: link_command_def split: prod.splits)
    have live2: "live_client ?d"
      using assms(2) by (simp add: live_client_def)
    have ok: "moved 5 ?d d" "length gs \<le> 5" "hc_next_command d = hc_next_command ?d"
      "frames_between (command_frame (hc_session ?d) ?i operation) (hc_sequence ?d) gs (hc_sequence d)"
      using command_attempts_live [OF gs(1) live2] up assms(3) by auto
    have "frames_between (command_frame (hc_session c) ?i operation) (hc_sequence c) [f] (hc_sequence ?d)"
      using f(2) less by (intro frames_between_one) simp_all
    then have "frames_between (command_frame (hc_session c) ?i operation) (hc_sequence c) fs (hc_sequence d)"
      using frames_between_append [of _ _ "[f]" _ gs] ok(4) gs(2) by simp
    moreover have "moved 6 c d"
      using moved_trans [OF step ok(1)] by simp
    moreover have "heard ?d i rs a = heard c i rs a" for i rs a
      by (simp add: heard_def)
    ultimately show ?thesis
      using ok(2,3) gs(2) command_attempts_heard [OF gs(1) live2] by simp
  qed
qed

text \<open>
  C27. A command is asked for once however often it is sent. On a live link whose sequence numbers do
  not wrap every frame of a command,
  its first and up to five retries, decodes to that operation under one identity with a rising
  sequence number, so that the display can tell a repeat from a second request; and the next command
  has the next identity. The result returned is that of the first reply with this identity and this
  session among the frames this client's framer cuts from the bytes read since the command was
  sent, over at most five attempts; and the command times out only when all reads worked and there
  was no such reply among them.
\<close>
theorem command_keeps_its_identity:
  assumes "link_command env operation c = (r, fs, d)" and "live_client c"
    and "unat (hc_sequence c) + 6 < 2 ^ 32"
  shows "length fs \<le> 6 \<and> hc_next_command d = hc_next_command c + 1
    \<and> (\<exists>ns. sorted_wrt (<) (hc_sequence c # ns)
         \<and> list_all2 (\<lambda>n f. \<exists>e. decode f = Ok (MsgControl e (BCommand
               \<lparr>cmd_command_identity = hc_next_command c, cmd_operation = operation\<rparr>))
             \<and> env_session e = hc_session c \<and> env_sequence e = n) ns fs)
    \<and> (\<forall>result. r = Ok result \<longrightarrow> (\<exists>k m. k < 5
        \<and> heard c (hc_next_command c) (attempt_reads env 0 k @ take m (cv_reads env k)) (Some result)))
    \<and> (\<forall>x. r = Err (LkTimeout x) \<longrightarrow> heard c (hc_next_command c) (attempt_reads env 0 5) None)"
  using link_command_live [OF assms] unfolding frames_between_def command_frame_def by blast

definition sample_command :: command_env where
  "sample_command = \<lparr>cv_sent = True, cv_reads = (\<lambda>k. [Some []]), cv_resent = (\<lambda>k. True)\<rparr>"

text \<open>A display that answers the first command of the sample client at once.\<close>

definition answering :: "bytes \<Rightarrow> command_env" where
  "answering f = \<lparr>cv_sent = True, cv_reads = (\<lambda>k. [Some f]), cv_resent = (\<lambda>k. True)\<rparr>"

lemma sample_answer:
  obtains f fs d where "link_command (answering f) operation sample_live = (Ok Applied, fs, d)"
    and "hc_stream d = fs_default"
proof -
  let ?e = "sample_envelope MtCommandReply"
  let ?b = "BCommandReply \<lparr>rep_command_identity = 1, rep_operation = operation, rep_result = Applied\<rparr>"
  have ok: "env_kind ?e = control_kind ?b" "control_ok ?b"
    by (simp_all add: sample_envelope_ok control_ok_def wf_control_def)
  obtain ct where f: "encode_control ?e ?b = Ok (frame_of ct)"
    by (rule control_framed [OF sample_envelope_ok(1) ok])
  let ?c = "sample_live\<lparr>hc_next_command := hc_next_command sample_live + 1\<rparr>"
  have live: "live_client ?c"
    using sample_live_ok by (simp add: live_client_def)
  obtain g where g: "retry_command (hc_next_command sample_live) operation ?c
      = (Some g, ?c\<lparr>hc_sequence := hc_sequence ?c + 1\<rparr>)"
    by (rule retry_live [OF live])
  let ?d = "?c\<lparr>hc_sequence := hc_sequence ?c + 1\<rparr>"
  have "hc_receive (frame_of ct) ?d = Ok (handle_control ?e ?b ?d output0)"
    by (rule receive_control [OF sample_envelope_ok(1) ok f])
      (simp add: sample_live_def sample_client_def hc_new_def fs_default_def)
  then have "command_reads 1 [Some (frame_of ct)] ?d = (Ok (Some Applied), ?d)"
    by (simp add: handle_control_def sample_live_def sample_client_def hc_new_def push_event_def output0_def
        sample_envelope_def)
  moreover have "hc_command operation sample_live = (Some (1, g), ?d)"
    using g by (simp add: hc_command_def Let_def sample_live_def sample_client_def hc_new_def)
  ultimately have "link_command (answering (frame_of ct)) operation sample_live = (Ok Applied, [g], ?d)"
    by (simp add: link_command_def answering_def eval_nat_numeral)
  moreover have "hc_stream ?d = fs_default"
    by (simp add: sample_live_def sample_client_def hc_new_def)
  ultimately show ?thesis
    by (rule that)
qed

theorem command_keeps_its_identity_witness:
  "\<exists>f fs d k m. link_command (answering f) Unpair sample_live = (Ok Applied, fs, d)
     \<and> length fs \<le> 6 \<and> hc_next_command d = 2
     \<and> heard sample_live 1 (attempt_reads (answering f) 0 k @ take m (cv_reads (answering f) k)) (Some Applied)"
proof -
  obtain f fs d where cmd: "link_command (answering f) Unpair sample_live = (Ok Applied, fs, d)"
    by (rule sample_answer)
  have "unat (hc_sequence sample_live) + 6 < 2 ^ 32" and "hc_next_command sample_live = 1"
    by (simp_all add: sample_live_def sample_client_def hc_new_def)
  then obtain k m where "length fs \<le> 6 \<and> hc_next_command d = 2
     \<and> heard sample_live 1 (attempt_reads (answering f) 0 k @ take m (cv_reads (answering f) k)) (Some Applied)"
    using command_keeps_its_identity [OF cmd sample_live_ok] by auto
  with cmd show ?thesis
    by blast
qed

section \<open>Serving\<close>

definition serve_ok :: "serve_state \<Rightarrow> bool" where
  "serve_ok s \<longleftrightarrow> live_client (ss_client s) \<and> groups_ok (ss_groups s)"

definition serve_env_ok :: "serve_env \<Rightarrow> bool" where
  "serve_env_ok env \<longleftrightarrow> inputs_ok (sv_inputs env) \<and> offset_ok (sv_offset env)"

text \<open>A frame of the session with its number.\<close>

definition sent_frame :: "bytes \<Rightarrow> u32 \<Rightarrow> bytes \<Rightarrow> bool" where
  "sent_frame session n f \<longleftrightarrow>
     (\<exists>m. decode f = Ok m \<and> env_session (message_envelope m) = session \<and> env_sequence (message_envelope m) = n)"

definition snapshots_in :: "bytes list \<Rightarrow> snapshot list" where
  "snapshots_in fs = concat (map (\<lambda>f. case decode f of Ok (MsgSnapshot e s) \<Rightarrow> [s] | _ \<Rightarrow> []) fs)"

definition snapshots_shown :: "observed list \<Rightarrow> snapshot list" where
  "snapshots_shown obs = concat (map (\<lambda>x. case x of ObSnapshot s r \<Rightarrow> [s] | ObCommand oper r \<Rightarrow> []) obs)"

text \<open>What a turn, or a run of turns, did.\<close>

definition turned :: "nat \<Rightarrow> serve_state \<Rightarrow> turn \<Rightarrow> bool" where
  "turned k s t \<longleftrightarrow> (case t of (r, fs, obs, s') \<Rightarrow>
     serve_ok s' \<and> hc_session (ss_client s') = hc_session (ss_client s)
     \<and> unat (hc_sequence (ss_client s')) \<le> unat (hc_sequence (ss_client s)) + k
     \<and> frames_between (sent_frame (hc_session (ss_client s))) (hc_sequence (ss_client s)) fs
         (hc_sequence (ss_client s'))
     \<and> snapshots_in fs = snapshots_shown obs \<and> list_all snapshot_ok (snapshots_in fs)
     \<and> (\<forall>e. r = ServeFails e \<longrightarrow> e = LkIo))"

lemma turned_still:
  "serve_ok s \<Longrightarrow> serve_ok s' \<Longrightarrow> hc_session (ss_client s') = hc_session (ss_client s) \<Longrightarrow>
   hc_sequence (ss_client s') = hc_sequence (ss_client s) \<Longrightarrow> (\<forall>e. r = ServeFails e \<longrightarrow> e = LkIo) \<Longrightarrow>
   turned k s (r, [], [], s')"
  by (auto simp: turned_def frames_between_Nil snapshots_in_def snapshots_shown_def)

lemma snapshots_append [simp]:
  "snapshots_in (fs @ gs) = snapshots_in fs @ snapshots_in gs"
  "snapshots_shown (xs @ ys) = snapshots_shown xs @ snapshots_shown ys"
  by (simp_all add: snapshots_in_def snapshots_shown_def)

lemma turned_then:
  assumes "turned j s (r, fs, obs, s1)" and "turned k s1 (r', fs', obs', s2)"
  shows "turned (j + k) s (r', fs @ fs', obs @ obs', s2)"
proof -
  have "frames_between (sent_frame (hc_session (ss_client s))) (hc_sequence (ss_client s)) (fs @ fs')
      (hc_sequence (ss_client s2))"
    using assms by (intro frames_between_append) (auto simp: turned_def)
  then show ?thesis
    using assms by (auto simp: turned_def)
qed

lemma snapshot_live:
  assumes "live_client c" and "snapshot_ok s" and "unat (hc_sequence c) + 1 < 2 ^ 32"
  obtains f e where "hc_snapshot s utc c = (Some f, c\<lparr>hc_sequence := hc_sequence c + 1\<rparr>)"
    and "decode f = Ok (MsgSnapshot e s)" and "sent_frame (hc_session c) (hc_sequence c + 1) f"
    and "hc_sequence c < hc_sequence c + 1" and "unat (hc_sequence c + 1) = unat (hc_sequence c) + 1"
proof -
  let ?c = "c\<lparr>hc_sequence := hc_sequence c + 1\<rparr>"
  let ?e = "(hc_envelope ?c MtSnapshot (hc_session c) (hc_sequence c + 1))\<lparr>env_utc_ms := utc\<rparr>"
  have live: "hc_phase c = Live" "length (hc_session c) = 16" "offset_ok (hc_local_offset_minutes c)"
    using assms(1) by (simp_all add: live_client_def)
  have e: "env_kind ?e = MtSnapshot" "env_session ?e = hc_session c" "env_sequence ?e = hc_sequence c + 1"
    by (simp_all add: hc_envelope_def)
  have "envelope_ok ?e"
    using hc_envelope_ok [of "hc_session c" ?c MtSnapshot "hc_sequence c + 1"] live
    by (simp add: envelope_ok_def wf_envelope_def)
  then obtain f where "encode_groups ?e s = Ok f" "decode f = Ok (MsgSnapshot ?e s)"
    using encode_snapshot_frame [of ?e s] assms(2) e(1) by metis
  with live e word_next_less [OF assms(3)] show ?thesis
    by (intro that [of f ?e])
      (simp_all add: hc_snapshot_def next_sequence_def res_ok_def sent_frame_def message_envelope_def)
qed

lemma serve_tick_turned:
  assumes "serve_ok s" and "serve_env_ok env" and "unat (hc_sequence (ss_client s)) + 6 < 2 ^ 32"
  shows "turned 6 s (serve_tick env s)"
    and "\<not> slept (ss_last_wall s) (sv_wall env) \<Longrightarrow> \<not> slept (ss_last_mono s) (sv_mono env) \<Longrightarrow> sv_written env \<Longrightarrow>
      \<exists>f e snapshot report s'. serve_tick env s = (ServeGoing, [f], [ObSnapshot snapshot report], s')
        \<and> decode f = Ok (MsgSnapshot e snapshot) \<and> snapshot_ok snapshot
        \<and> ss_next s' = ss_next s + SNAPSHOT_PERIOD
        \<and> ss_last_wall s' = sv_wall env \<and> ss_last_mono s' = sv_mono env"
proof -
  let ?gap = "slept (ss_last_wall s) (sv_wall env) \<or> slept (ss_last_mono s) (sv_mono env)"
  have ok: "live_client (ss_client s)" "groups_ok (ss_groups s)" "inputs_ok (sv_inputs env)" "offset_ok (sv_offset env)"
    using assms(1,2) by (simp_all add: serve_ok_def serve_env_ok_def)
  obtain snapshot report g where g: "groups_collect (ss_groups s) (sv_inputs env) (sv_mono env) = Ok ((snapshot, report), g)"
    "groups_ok g"
    by (rule groups_collect_Ok [OF ok(2,3), of "sv_mono env"])
  have snapshot: "snapshot_ok snapshot"
    by (rule collected_snapshot_ok [OF ok(2,3) g(1)])
  let ?c = "set_local_offset_minutes (sv_offset env) (ss_client s)"
  have c: "live_client ?c" "hc_sequence ?c = hc_sequence (ss_client s)" "hc_session ?c = hc_session (ss_client s)"
    using ok(1,4) by (simp_all add: live_client_def set_local_offset_minutes_def)
  obtain f e where f: "hc_snapshot snapshot (Some (sv_utc_ms env)) ?c = (Some f, ?c\<lparr>hc_sequence := hc_sequence ?c + 1\<rparr>)"
    "decode f = Ok (MsgSnapshot e snapshot)" "sent_frame (hc_session ?c) (hc_sequence ?c + 1) f"
    "hc_sequence ?c < hc_sequence ?c + 1" "unat (hc_sequence ?c + 1) = unat (hc_sequence ?c) + 1"
    using snapshot_live [OF c(1) snapshot, of "Some (sv_utc_ms env)"] assms(3) c(2) by auto
  let ?s = "s\<lparr>ss_last_wall := sv_wall env, ss_last_mono := sv_mono env, ss_groups := g,
      ss_client := ?c\<lparr>hc_sequence := hc_sequence ?c + 1\<rparr>\<rparr>"
  have tick: "serve_tick env s = (if ?gap then (ServeEnds ServeResync, [], [], s\<lparr>ss_groups := groups_wake (ss_groups s)\<rparr>)
      else if \<not> sv_written env then (ServeFails LkIo, [], [], ?s)
      else (ServeGoing, [f], [ObSnapshot snapshot report], ?s\<lparr>ss_next := ss_next s + SNAPSHOT_PERIOD\<rparr>))"
    using g(1) f(1) by (simp add: serve_tick_def Let_def)
  have live: "live_client (?c\<lparr>hc_sequence := hc_sequence ?c + 1\<rparr>)"
    using c(1) by (simp add: live_client_def)
  have frames: "frames_between (sent_frame (hc_session (ss_client s))) (hc_sequence (ss_client s)) [f] (hc_sequence ?c + 1)"
    using f(3,4) c(2,3) by (intro frames_between_one) simp_all
  have up: "hc_sequence (ss_client s) \<le> hc_sequence ?c + 1"
    using f(4) c(2) by simp
  show "turned 6 s (serve_tick env s)"
    unfolding tick using assms(1) ok(2) groups_wake_ok live g(2) frames f(5) c(2,3) up f(2) snapshot
    by (auto simp: turned_def serve_ok_def frames_between_Nil snapshots_in_def snapshots_shown_def)
  show "\<exists>f e snapshot report s'. serve_tick env s = (ServeGoing, [f], [ObSnapshot snapshot report], s')
        \<and> decode f = Ok (MsgSnapshot e snapshot) \<and> snapshot_ok snapshot
        \<and> ss_next s' = ss_next s + SNAPSHOT_PERIOD
        \<and> ss_last_wall s' = sv_wall env \<and> ss_last_mono s' = sv_mono env"
    if "\<not> slept (ss_last_wall s) (sv_wall env)" "\<not> slept (ss_last_mono s) (sv_mono env)" "sv_written env"
    unfolding tick using that f(2) snapshot by simp
qed

lemma serve_read_turned:
  assumes "serve_read x s = (r, s')" and "serve_ok s"
  shows "turned 0 s (r, [], [], s')"
proof (cases "\<exists>bs c out. x = Some bs \<and> hc_receive bs (ss_client s) = Ok (c, out)")
  case False
  then have "s' = s" "\<forall>e. r = ServeFails e \<longrightarrow> e = LkIo"
    using assms(1) by (auto simp: serve_read_def split: option.splits res.splits)
  then show ?thesis
    using assms(2) by (simp add: turned_still)
next
  case True
  then obtain bs c out where x: "x = Some bs" and rx: "hc_receive bs (ss_client s) = Ok (c, out)"
    by blast
  obtain t where c: "c = (ss_client s)\<lparr>hc_stream := t\<rparr>" and es: "\<forall>e \<in> set (out_events out). reply_event e"
    using receive_Live [OF rx] assms(2) by (auto simp: serve_ok_def live_client_def)
  have "find (\<lambda>e. case e of EvRefused reason \<Rightarrow> True | _ \<Rightarrow> False) (out_events out) = None"
    using es by (auto simp: find_None_iff reply_event_def)
  then have "r = ServeGoing" "s' = s\<lparr>ss_client := c\<rparr>"
    using assms(1) x rx by (simp_all add: serve_read_def)
  then show ?thesis
    using assms(2) by (intro turned_still) (simp_all add: serve_ok_def live_client_def c)
qed

lemma command_frames_no_snapshot:
  assumes "frames_between (command_frame session identity operation) a fs b"
  shows "snapshots_in fs = []"
proof -
  obtain ns where "list_all2 (command_frame session identity operation) ns fs"
    using assms by (auto simp: frames_between_def)
  then show ?thesis
    by (induction rule: list_all2_induct) (auto simp: snapshots_in_def command_frame_def)
qed

lemma command_turned:
  assumes "link_command env operation (ss_client s) = (r, fs, c)" and "serve_ok s"
    and "unat (hc_sequence (ss_client s)) + 6 < 2 ^ 32" and "\<forall>e. res = ServeFails e \<longrightarrow> e = LkIo"
    and "snapshots_shown obs = []"
  shows "turned 6 s (res, fs, obs, s\<lparr>ss_client := c\<rparr>)"
proof -
  have live: "live_client (ss_client s)"
    using assms(2) by (simp add: serve_ok_def)
  have l: "moved 6 (ss_client s) c"
    "frames_between (command_frame (hc_session (ss_client s)) (hc_next_command (ss_client s)) operation)
       (hc_sequence (ss_client s)) fs (hc_sequence c)"
    using link_command_live [OF assms(1) live assms(3)] by auto
  have "frames_between (sent_frame (hc_session (ss_client s))) (hc_sequence (ss_client s)) fs (hc_sequence c)"
    by (rule frames_between_weaken [OF l(2)]) (auto simp: command_frame_def sent_frame_def message_envelope_def)
  then show ?thesis
    using assms(2,4,5) l(1) linked_live [OF live] command_frames_no_snapshot [OF l(2)]
    by (auto simp: turned_def serve_ok_def moved_def linked_def)
qed

lemma command_silent:
  assumes "link_command env operation c = (r, fs, d)" and "live_client c"
    and "unat (hc_sequence c) + 6 < 2 ^ 32"
  shows "snapshots_in fs = []"
  using link_command_live [OF assms] command_frames_no_snapshot by blast

lemma serve_poll_silent:
  assumes "serve_poll env s = (r, fs, obs, s')" and "serve_ok s"
    and "unat (hc_sequence (ss_client s)) + 6 < 2 ^ 32"
  shows "snapshots_in fs = [] \<and> snapshots_shown obs = []"
proof (cases "sv_action env")
  case (ActCommand operation)
  obtain result gs c where cmd: "link_command (sv_command env) operation (ss_client s) = (result, gs, c)"
    by (rule prod_cases3)
  have "fs = gs \<and> (obs = [] \<or> obs = [ObCommand operation result])"
    using assms(1) ActCommand cmd by (auto simp: serve_poll_def Let_def split: if_splits prod.splits)
  moreover have "snapshots_in gs = []"
    using command_silent [OF cmd] assms(2,3) by (simp add: serve_ok_def)
  ultimately show ?thesis
    by (auto simp: snapshots_shown_def)
qed (use assms(1) in \<open>auto simp: serve_poll_def snapshots_in_def snapshots_shown_def split: prod.splits\<close>)

lemma turned_timing:
  "turned k s (r, fs, obs, s') \<Longrightarrow>
   turned k s (r, fs, obs, s'\<lparr>ss_next := a, ss_last_wall := b, ss_last_mono := d\<rparr>)"
  by (auto simp: turned_def serve_ok_def)

lemma serve_poll_turned:
  assumes "serve_ok s" and "unat (hc_sequence (ss_client s)) + 6 < 2 ^ 32"
  shows "turned 6 s (serve_poll env s)"
proof (cases "sv_action env")
  case ActContinue
  obtain r s' where r: "serve_read (sv_read env) s = (r, s')"
    by fastforce
  have "turned 6 s (ServeGoing, [], [], s)"
    by (rule turned_still) (use assms(1) in simp_all)
  from turned_then [OF this serve_read_turned [OF r assms(1)]] show ?thesis
    using ActContinue r by (simp add: serve_poll_def)
next
  case ActStop
  then show ?thesis
    using assms(1) by (simp add: serve_poll_def turned_still)
next
  case (ActCommand operation)
  obtain result fs c where cmd: "link_command (sv_command env) operation (ss_client s) = (result, fs, c)"
    by (rule prod_cases3)
  let ?s = "s\<lparr>ss_client := c\<rparr>"
  let ?t = "?s\<lparr>ss_next := sv_after env, ss_last_wall := sv_after_wall env, ss_last_mono := sv_after_mono env\<rparr>"
  have t: "turned 6 s (res, fs, obs, ?s)"
    if "\<forall>e. res = ServeFails e \<longrightarrow> e = LkIo" "snapshots_shown obs = []" for res obs
    by (rule command_turned [OF cmd assms that])
  have shown: "snapshots_shown [ObCommand operation result] = []"
    by (simp add: snapshots_shown_def)
  obtain r s' where r: "serve_read (sv_read env) ?t = (r, s')"
    by fastforce
  have t1: "turned 6 s (ServeGoing, fs, [ObCommand operation result], ?t)"
    using turned_timing [OF t [OF _ shown]] by simp
  have "serve_ok ?t"
    using t1 by (simp add: turned_def)
  then have "turned (6 + 0) s (r, fs @ [], [ObCommand operation result] @ [], s')"
    by (intro turned_then [OF t1 serve_read_turned [OF r]])
  moreover have "turned 6 s (ServePanics, fs, [], ?s)" "turned 6 s (ServeEnds ServeUnpaired, fs, [ObCommand operation result], ?s)"
    using t [of ServePanics "[]"] t [OF _ shown, of "ServeEnds ServeUnpaired"] by (simp_all add: snapshots_shown_def)
  ultimately show ?thesis
    using ActCommand cmd r by (auto simp: serve_poll_def Let_def)
qed

lemma serve_turn_turned:
  "serve_ok s \<Longrightarrow> serve_env_ok env \<Longrightarrow> unat (hc_sequence (ss_client s)) + 6 < 2 ^ 32 \<Longrightarrow>
   turned 6 s (serve_turn env s)"
  by (simp add: serve_turn_def serve_poll_turned serve_tick_turned(1))

lemma serve_loop_turned:
  "serve_ok s \<Longrightarrow> list_all serve_env_ok envs \<Longrightarrow>
   unat (hc_sequence (ss_client s)) + 6 * length envs < 2 ^ 32 \<Longrightarrow>
   turned (6 * length envs) s (serve_loop envs s)"
proof (induction envs arbitrary: s)
  case Nil
  then show ?case
    by (simp add: turned_still)
next
  case (Cons env envs)
  obtain r fs obs s1 where turn: "serve_turn env s = (r, fs, obs, s1)"
    by (rule prod_cases4)
  have t: "turned 6 s (r, fs, obs, s1)"
    using serve_turn_turned [of s env] Cons.prems turn by simp
  show ?case
  proof (cases "r = ServeGoing")
    case True
    obtain r' fs' obs' s2 where rest: "serve_loop envs s1 = (r', fs', obs', s2)"
      by (rule prod_cases4)
    have "serve_ok s1" "unat (hc_sequence (ss_client s1)) + 6 * length envs < 2 ^ 32"
      using t Cons.prems(3) by (auto simp: turned_def)
    then have "turned (6 * length envs) s1 (r', fs', obs', s2)"
      using Cons.IH [of s1] Cons.prems(2) rest by simp
    then have "turned (6 + 6 * length envs) s (r', fs @ fs', obs @ obs', s2)"
      using turned_then [of 6 s ServeGoing fs obs s1] t True by simp
    then show ?thesis
      using turn rest True by simp
  next
    case False
    have "turned (6 + 6 * length envs) s (r, fs, obs, s1)"
      using t by (auto simp: turned_def)
    then show ?thesis
      using turn False by simp
  qed
qed

text \<open>
  C25. A served link sends what it shows and ends only for a reason. Over any run of seconds, polls,
  commands and bytes from the display, on a live link with well-formed inputs and sequence numbers
  that do not wrap: every frame written decodes and belongs to the session, the numbers rise
  strictly, so the display's session gate passes them all; the snapshots on the wire are, in order
  and unchanged, the ones the observer was shown, each one the encoder admits; and no error ends the
  loop but one of the port (a refusal or an unpaired link is impossible there).
\<close>
theorem served_link_is_in_sequence:
  assumes "live_client (ss_client s)" and "groups_ok (ss_groups s)"
    and "\<forall>env \<in> set envs. inputs_ok (sv_inputs env) \<and> offset_ok (sv_offset env)"
    and "unat (hc_sequence (ss_client s)) + 6 * length envs < 2 ^ 32"
    and "serve_loop envs s = (r, fs, obs, s')"
  shows "(\<exists>ns ms. map decode fs = map Ok ms \<and> sorted_wrt (<) (hc_sequence (ss_client s) # ns)
      \<and> map (\<lambda>m. env_sequence (message_envelope m)) ms = ns
      \<and> (\<forall>m \<in> set ms. env_session (message_envelope m) = hc_session (ss_client s)))
    \<and> snapshots_in fs = snapshots_shown obs \<and> list_all snapshot_ok (snapshots_shown obs)
    \<and> (\<forall>e. r = ServeFails e \<longrightarrow> e = LkIo)
    \<and> live_client (ss_client s')"
proof -
  have t: "turned (6 * length envs) s (r, fs, obs, s')"
    using serve_loop_turned [of s envs] assms
    by (auto simp: serve_ok_def serve_env_ok_def list_all_iff)
  have "frames_between (sent_frame (hc_session (ss_client s))) (hc_sequence (ss_client s)) fs
      (hc_sequence (ss_client s'))"
    using t by (simp add: turned_def)
  then obtain ns where ns: "list_all2 (sent_frame (hc_session (ss_client s))) ns fs"
    "sorted_wrt (<) (hc_sequence (ss_client s) # ns)"
    by (auto simp: frames_between_def)
  from ns(1) have "\<exists>ms. map decode fs = map Ok ms \<and> map (\<lambda>m. env_sequence (message_envelope m)) ms = ns
      \<and> (\<forall>m \<in> set ms. env_session (message_envelope m) = hc_session (ss_client s))"
  proof (induction rule: list_all2_induct)
    case (Cons n ns f fs)
    then obtain m ms where "decode f = Ok m" "env_session (message_envelope m) = hc_session (ss_client s)"
      "env_sequence (message_envelope m) = n" "map decode fs = map Ok ms"
      "map (\<lambda>m. env_sequence (message_envelope m)) ms = ns"
      "\<forall>m \<in> set ms. env_session (message_envelope m) = hc_session (ss_client s)"
      unfolding sent_frame_def by blast
    then show ?case
      by (intro exI [of _ "m # ms"]) simp
  qed simp
  then show ?thesis
    using ns(2) t by (auto simp: turned_def serve_ok_def)
qed

definition sample_serve :: serve_state where
  "sample_serve = serve_start 0 0 0 (groups_new 501 ''/Users/ann'') sample_live"

definition sample_second :: serve_env where
  "sample_second = \<lparr>sv_now = 0, sv_wall = 0, sv_mono = 0, sv_inputs = sample_inputs, sv_offset = Some 60,
     sv_utc_ms = 5, sv_written = True, sv_action = ActContinue, sv_command = sample_command, sv_after = 0,
     sv_after_wall = 0, sv_after_mono = 0, sv_read = Some []\<rparr>"

lemma sample_serve_ok:
  "live_client (ss_client sample_serve)" "groups_ok (ss_groups sample_serve)"
  "hc_sequence (ss_client sample_serve) = 0"
  using sample_live_ok groups_new_ok by (simp_all add: sample_serve_def serve_start_def sample_live_def
      sample_client_def hc_new_def)

theorem served_link_is_in_sequence_witness:
  "\<exists>r fs obs s'. serve_loop [sample_second, sample_second] sample_serve = (r, fs, obs, s')
     \<and> snapshots_in fs = snapshots_shown obs \<and> live_client (ss_client s')"
proof -
  obtain r fs obs s' where run: "serve_loop [sample_second, sample_second] sample_serve = (r, fs, obs, s')"
    by (rule prod_cases4)
  have env: "\<forall>env \<in> set [sample_second, sample_second]. inputs_ok (sv_inputs env) \<and> offset_ok (sv_offset env)"
    using sample_inputs_ok by (simp add: sample_second_def offset_ok_def)
  have seq: "unat (hc_sequence (ss_client sample_serve)) + 6 * length [sample_second, sample_second] < 2 ^ 32"
    by (simp add: sample_serve_ok)
  from served_link_is_in_sequence [OF sample_serve_ok(1,2) env seq run] run show ?thesis
    by blast
qed

section \<open>After a sleep\<close>

lemma woken_no_rates:
  assumes "groups_ok g" and "inputs_ok i" and "groups_collect (groups_wake g) i t = Ok ((s, r), g')"
  shows "cpu_availability (snap_cpu s) \<noteq> Available"
    and "snap_storage s = Some d \<Longrightarrow> sto_io_availability d \<noteq> Available"
    and "snap_network s = Some n \<Longrightarrow> net_traffic_availability n \<noteq> Available"
proof -
  have "cpu_availability (snap_cpu s) \<noteq> Available
    \<and> (\<forall>d. snap_storage s = Some d \<longrightarrow> sto_io_availability d \<noteq> Available)
    \<and> (\<forall>n. snap_network s = Some n \<longrightarrow> net_traffic_availability n \<noteq> Available)"
  proof (rule groups_collect_Ok [OF groups_wake_ok [OF assms(1)] assms(2), of t])
    fix s' r' g'' n
    let ?g = "groups_wake g"
    assume eq: "groups_collect ?g i t = Ok ((s', r'), g'')"
      and cpu: "snap_cpu s' = cpu_wire (fst (cpu_collect (grp_cpu ?g) (in_ticks i) t))"
      and sto: "snap_storage s' = storage_snapshot_of
        (ms_value (fst (storage_collect (grp_storage ?g) (in_capacity i) (in_disks i) t)))"
      and net: "snap_network s' = Some (network_wire n)" and n: "network_reading_ok n"
      and nc: "net_collect (grp_network ?g) (in_view i) (in_context i) t = Ok (ms_available n, grp_network g'')"
    have s: "s' = s"
      using eq assms(3) by simp
    have "ms_availability (fst (cpu_collect (grp_cpu ?g) (in_ticks i) t)) \<noteq> MAvailable"
      by (simp add: groups_wake_def cpu_on_wake_def cpu_reset_def cpu_collect_def cpu_sample_def Let_def
          split: option.split)
    then have c: "cpu_availability (snap_cpu s') \<noteq> Available"
      by (simp add: cpu cpu_wire_def wire_availability_available)
    have io: "ms_availability (fst (storage_io Map.empty (in_disks i) t)) \<noteq> MAvailable"
    proof (cases "in_disks i = None \<or> in_disks i = Some []")
      case True
      then show ?thesis
        by (auto simp: storage_io_def)
    next
      case False
      then obtain ds where ds: "in_disks i = Some ds" "ds \<noteq> []"
        by auto
      have dist: "distinct (map fst ds)"
        using assms(2) ds(1) by (simp add: inputs_ok_def disks_ok_def)
      let ?z = "Some \<lparr>dr_read_bytes_per_s = 0, dr_write_bytes_per_s = 0\<rparr> :: disk_rate option"
      obtain s1 tot av where l: "disk_loop t ds Map.empty ?z MAvailable = (s1, tot, av)"
        by (metis prod_cases3)
      have "disk_link_rate Map.empty t d = None" for d
        by (simp add: disk_link_rate_def disk_entry_def disk_sample_def rate_sample_def)
      then have "disk_total Map.empty t ds acc = None" for acc
        using ds(2) by (cases ds) simp_all
      then have "tot = None" "av \<noteq> MAvailable"
        using disk_loop_result [OF dist l] by auto
      then show ?thesis
        using ds l by (simp add: storage_io_def)
    qed
    have "sto_io_availability d \<noteq> Available" if "snap_storage s' = Some d" for d
      using that io
      by (auto simp: sto groups_wake_def storage_on_wake_def storage_collect_def storage_snapshot_of_def
          Let_def wire_availability_available split: prod.splits)
    moreover have "net_traffic_availability (network_wire n) \<noteq> Available"
    proof -
      have "view_input_ok (in_view i, in_context i)"
        using assms(2) by (simp add: inputs_ok_def)
      then have "\<And>v. in_view i = Some v \<Longrightarrow> view_ok v"
        by (auto simp: view_input_ok_def)
      moreover have "net_collect Map.empty (in_view i) (in_context i) t = Ok (ms_available n, grp_network g'')"
        using nc by (simp add: groups_wake_def net_on_wake_def)
      ultimately have "th_rate (ng_traffic n) = None"
        using no_rate_from_empty [of "in_view i" _ t "ms_available n" "grp_network g''" n] ms_simps(2) [of n] by blast
      then show ?thesis
        by (auto simp: network_wire_def Let_def wire_availability_available split: metric_availability.splits)
    qed
    ultimately show ?thesis
      using c net by (auto simp: s)
  qed
  then show "cpu_availability (snap_cpu s) \<noteq> Available"
    and "snap_storage s = Some d \<Longrightarrow> sto_io_availability d \<noteq> Available"
    and "snap_network s = Some n \<Longrightarrow> net_traffic_availability n \<noteq> Available"
    by blast+
qed

lemma serve_turn_slept:
  assumes "slept (ss_last_wall s) (sv_wall env) \<or> slept (ss_last_mono s) (sv_mono env)"
    and "\<not> sv_now env < ss_next s"
  shows "serve_turn env s = (ServeEnds ServeResync, [], [], s\<lparr>ss_groups := groups_wake (ss_groups s)\<rparr>)"
  using assms by (simp add: serve_turn_def serve_tick_def)

lemma serve_read_times:
  assumes "serve_read x s = (r, s')"
  shows "ss_groups s' = ss_groups s \<and> ss_last_wall s' = ss_last_wall s \<and> ss_last_mono s' = ss_last_mono s
    \<and> ss_next s' = ss_next s"
  using assms by (auto simp: serve_read_def split: option.splits res.splits event.splits prod.splits)

text \<open>A poll keeps the readings of the clocks, a command in it replaces them by those after it.\<close>

lemma serve_poll_times:
  assumes "serve_poll env s = (ServeGoing, fs, obs, s')"
  shows "ss_groups s' = ss_groups s
    \<and> (if \<exists>operation. sv_action env = ActCommand operation
       then ss_last_wall s' = sv_after_wall env \<and> ss_last_mono s' = sv_after_mono env \<and> ss_next s' = sv_after env
       else ss_last_wall s' = ss_last_wall s \<and> ss_last_mono s' = ss_last_mono s \<and> ss_next s' = ss_next s)"
proof (cases "sv_action env")
  case ActContinue
  then show ?thesis
    using assms serve_read_times [of "sv_read env" s] by (auto simp: serve_poll_def Let_def split: prod.splits)
next
  case ActStop
  then show ?thesis
    using assms by (simp add: serve_poll_def)
next
  case (ActCommand operation)
  obtain result gs c where cmd: "link_command (sv_command env) operation (ss_client s) = (result, gs, c)"
    by (rule prod_cases3)
  let ?t = "s\<lparr>ss_client := c, ss_next := sv_after env, ss_last_wall := sv_after_wall env,
      ss_last_mono := sv_after_mono env\<rparr>"
  obtain r x where r: "serve_read (sv_read env) ?t = (r, x)"
    by fastforce
  then have "s' = x"
    using assms ActCommand cmd by (auto simp: serve_poll_def Let_def split: if_splits)
  then show ?thesis
    using serve_read_times [OF r] ActCommand by simp
qed

text \<open>
  C26. A rate never spans a sleep that is noticed, and a second that was awake is shown. At the start
  of a second, when either the wall clock or the monotonic clock is more than six seconds (the period
  of one second and the wake gap of five) past the last second or the last command, \<open>serve\<close> writes
  nothing, shows nothing and asks for a new session, and the first collection after it, whatever the
  machine answers, reports no processor load, no disk rate and no link rate as available. When
  neither clock has jumped and the port takes the frame, exactly one frame is written; it decodes to
  the very snapshot the observer is shown, and the deadline moves by one second. The polls in between
  send no snapshot and leave the readings of the clocks alone, except one with a command: it takes
  over the readings after the command and keeps the samples, however long the Mac slept before it,
  so that such a sleep is not noticed at the next second.
\<close>

theorem nothing_spans_a_sleep:
  assumes "live_client (ss_client s)" and "groups_ok (ss_groups s)"
    and "inputs_ok (sv_inputs env)" and "offset_ok (sv_offset env)"
    and "unat (hc_sequence (ss_client s)) + 6 < 2 ^ 32"
  shows "if sv_now env < ss_next s
    then \<exists>r fs obs s'. serve_turn env s = (r, fs, obs, s') \<and> snapshots_in fs = [] \<and> snapshots_shown obs = []
      \<and> (r = ServeGoing \<longrightarrow> ss_groups s' = ss_groups s
        \<and> (if \<exists>operation. sv_action env = ActCommand operation
           then ss_last_wall s' = sv_after_wall env \<and> ss_last_mono s' = sv_after_mono env
             \<and> ss_next s' = sv_after env
           else ss_last_wall s' = ss_last_wall s \<and> ss_last_mono s' = ss_last_mono s \<and> ss_next s' = ss_next s))
    else if slept (ss_last_wall s) (sv_wall env) \<or> slept (ss_last_mono s) (sv_mono env)
    then \<exists>s'. serve_turn env s = (ServeEnds ServeResync, [], [], s')
      \<and> (\<forall>i t. inputs_ok i \<longrightarrow> (\<exists>x r g'. groups_collect (ss_groups s') i t = Ok ((x, r), g')
        \<and> cpu_availability (snap_cpu x) \<noteq> Available
        \<and> (\<forall>d. snap_storage x = Some d \<longrightarrow> sto_io_availability d \<noteq> Available)
        \<and> (\<forall>n. snap_network x = Some n \<longrightarrow> net_traffic_availability n \<noteq> Available)))
    else sv_written env \<longrightarrow> (\<exists>f e x r s'. serve_turn env s = (ServeGoing, [f], [ObSnapshot x r], s')
      \<and> decode f = Ok (MsgSnapshot e x) \<and> ss_next s' = ss_next s + SNAPSHOT_PERIOD)"
proof -
  have ok: "serve_ok s" "serve_env_ok env"
    using assms(1-4) by (simp_all add: serve_ok_def serve_env_ok_def)
  consider (poll) "sv_now env < ss_next s"
    | (gap) "\<not> sv_now env < ss_next s" "slept (ss_last_wall s) (sv_wall env) \<or> slept (ss_last_mono s) (sv_mono env)"
    | (awake) "\<not> sv_now env < ss_next s" "\<not> (slept (ss_last_wall s) (sv_wall env) \<or> slept (ss_last_mono s) (sv_mono env))"
    by blast
  then show ?thesis
  proof cases
    case poll
    obtain r fs obs s' where p: "serve_poll env s = (r, fs, obs, s')"
      by (rule prod_cases4)
    have "snapshots_in fs = []" "snapshots_shown obs = []"
      using serve_poll_silent [OF p ok(1) assms(5)] by simp_all
    then show ?thesis
      using poll p serve_poll_times [of env s fs obs s'] by (simp add: serve_turn_def)
  next
    case gap
    have "\<exists>x r g'. groups_collect (groups_wake (ss_groups s)) i t = Ok ((x, r), g')
          \<and> cpu_availability (snap_cpu x) \<noteq> Available
          \<and> (\<forall>d. snap_storage x = Some d \<longrightarrow> sto_io_availability d \<noteq> Available)
          \<and> (\<forall>n. snap_network x = Some n \<longrightarrow> net_traffic_availability n \<noteq> Available)"
      if i: "inputs_ok i" for i t
    proof -
      obtain x r g' where g: "groups_collect (groups_wake (ss_groups s)) i t = Ok ((x, r), g')"
        by (rule groups_collect_Ok [OF groups_wake_ok [OF assms(2)] i, of t])
      show ?thesis
        using g woken_no_rates [OF assms(2) i g] by blast
    qed
    then show ?thesis
      using gap serve_turn_slept [OF gap(2,1)] by simp
  next
    case awake
    from serve_tick_turned(2) [OF ok assms(5)] awake show ?thesis
      by (auto simp: serve_turn_def)
  qed
qed

text \<open>A command of the sample link an hour after its last second: the next second is none that slept.\<close>

definition sample_late :: "bytes \<Rightarrow> serve_env" where
  "sample_late f = sample_second\<lparr>sv_action := ActCommand CalibrationReset, sv_command := answering f,
     sv_now := 5, sv_after := 10, sv_after_wall := 3600000, sv_after_mono := 3600000\<rparr>"

lemma receive_nothing:
  assumes "hc_stream c = fs_default"
  shows "hc_receive [] c = Ok (c, output0)"
proof -
  have "drain (fs_push fs_default []) = ([], fs_default)"
    by (simp add: drain.simps fs_push_def fs_default_def next_frame.simps)
  then show ?thesis
    using hc_receive_deliver [of c "[]" "[]" fs_default] assms by (simp add: set_stream_def)
qed

theorem nothing_spans_a_sleep_witness:
  "(\<exists>s'. serve_turn (sample_second\<lparr>sv_wall := 6001\<rparr>) sample_serve = (ServeEnds ServeResync, [], [], s'))
   \<and> (\<exists>f e x r s'. serve_turn sample_second sample_serve = (ServeGoing, [f], [ObSnapshot x r], s')
      \<and> decode f = Ok (MsgSnapshot e x) \<and> ss_next s' = 1000000000)
   \<and> (\<exists>f fs obs s'. serve_turn (sample_late f) (sample_serve\<lparr>ss_next := 1000\<rparr>) = (ServeGoing, fs, obs, s')
      \<and> slept (ss_last_wall sample_serve) 3600001 \<and> \<not> slept (ss_last_wall s') 3600001
      \<and> ss_groups s' = ss_groups sample_serve)"
proof -
  have times: "ss_next sample_serve = 0" "ss_last_wall sample_serve = 0" "ss_last_mono sample_serve = 0"
    "ss_client sample_serve = sample_live"
    by (simp_all add: sample_serve_def serve_start_def)
  have seq: "unat (hc_sequence (ss_client sample_serve)) + 6 < 2 ^ 32"
    by (simp add: sample_serve_ok)
  have slept: "slept 0 6001" "\<not> slept 0 0" "slept 0 3600001" "\<not> slept 3600000 3600001"
    by (simp_all add: slept_def SNAPSHOT_PERIOD_MS_def WAKE_GAP_MS_def sat_sub_def)
  obtain f fs d where cmd: "link_command (answering f) CalibrationReset sample_live = (Ok Applied, fs, d)"
    "hc_stream d = fs_default"
    by (rule sample_answer)
  let ?s = "sample_serve\<lparr>ss_next := 1000\<rparr>"
  obtain obs s' where late: "serve_turn (sample_late f) ?s = (ServeGoing, fs, obs, s')"
    using cmd receive_nothing [OF cmd(2)]
    by (simp add: serve_turn_def serve_poll_def serve_read_def sample_late_def sample_second_def times
        output0_def)
  have "ss_last_wall s' = 3600000 \<and> ss_groups s' = ss_groups sample_serve"
    using nothing_spans_a_sleep [of ?s "sample_late f"] late sample_serve_ok seq sample_inputs_ok
    by (simp add: sample_late_def sample_second_def offset_ok_def)
  with late slept times have "serve_turn (sample_late f) ?s = (ServeGoing, fs, obs, s')
      \<and> slept (ss_last_wall sample_serve) 3600001 \<and> \<not> slept (ss_last_wall s') 3600001
      \<and> ss_groups s' = ss_groups sample_serve"
    by simp
  moreover have "\<exists>s'. serve_turn (sample_second\<lparr>sv_wall := 6001\<rparr>) sample_serve = (ServeEnds ServeResync, [], [], s')"
    using nothing_spans_a_sleep [of sample_serve "sample_second\<lparr>sv_wall := 6001\<rparr>"] slept sample_serve_ok seq
      times sample_inputs_ok by (auto simp: sample_second_def offset_ok_def)
  moreover have "\<exists>f e x r s'. serve_turn sample_second sample_serve = (ServeGoing, [f], [ObSnapshot x r], s')
      \<and> decode f = Ok (MsgSnapshot e x) \<and> ss_next s' = 1000000000"
    using nothing_spans_a_sleep [of sample_serve sample_second] slept sample_serve_ok seq times sample_inputs_ok
    by (auto simp: sample_second_def offset_ok_def SNAPSHOT_PERIOD_def)
  ultimately show ?thesis
    by blast
qed

end
