(* ===== verification/Control_Requests.thy ===== *)
theory Control_Requests
  imports Flat_Json
begin

text \<open>
  The requests and replies of the daemon's control socket, \<^verbatim>\<open>host/hostcore/src/control.rs\<close>: one
  flat JSON object per line each way. Text is a list of bytes; a character above 127 is several
  bytes there, each of which the writer copies.
\<close>

section \<open>Requests\<close>

definition CONTROL_IPC_VERSION :: int where
  "CONTROL_IPC_VERSION = 1"

definition MAX_REQUEST_BYTES :: nat where
  "MAX_REQUEST_BYTES = MAX_LINE_BYTES"

definition MAX_RESPONSE_BYTES :: nat where
  "MAX_RESPONSE_BYTES = 8192"

datatype request = RqStatus | RqMonitors | RqPairStart "string option" | RqPairCancel | RqUnpair
  | RqResetCalibration | RqForget | RqStop

datatype request_error = ReTooLong | ReMalformed | ReBadVersion | ReUnknownCommand

definition valid_port :: "string \<Rightarrow> bool" where
  "valid_port path \<longleftrightarrow> (case strip_prefix ''/dev/'' path of
      None \<Rightarrow> False
    | Some name \<Rightarrow> name \<noteq> [] \<and> length name \<le> 64
        \<and> list_all (\<lambda>c. is_ascii_alphanumeric c \<or> c \<in> set ''._-'') name)"

definition request_error_of :: "flat_json_error \<Rightarrow> request_error" where
  "request_error_of e = (case e of TooLong \<Rightarrow> ReTooLong | NotJson \<Rightarrow> ReMalformed)"

text \<open>The match on the command's name, once the port is known.\<close>

definition request_named :: "string \<Rightarrow> string option \<Rightarrow> (request, request_error) res" where
  "request_named cmd port =
     (if cmd = ''status'' then Ok RqStatus
      else if cmd = ''monitors'' then Ok RqMonitors
      else if cmd = ''pair_start'' then Ok (RqPairStart port)
      else if cmd = ''pair_cancel'' then Ok RqPairCancel
      else if cmd = ''unpair'' then Ok RqUnpair
      else if cmd = ''reset_calibration'' then Ok RqResetCalibration
      else if cmd = ''forget'' then Ok RqForget
      else if cmd = ''stop'' then Ok RqStop
      else Err ReUnknownCommand)"

definition parse_request :: "string \<Rightarrow> (request, request_error) res" where
  "parse_request line =
     (case parse_flat_object line of
        Panic \<Rightarrow> Panic
      | Err e \<Rightarrow> Err (request_error_of e)
      | Ok fields \<Rightarrow>
          let get = map_of fields in
          case get ''v'' of
            Some (JInt v) \<Rightarrow>
              if v \<noteq> CONTROL_IPC_VERSION then Err ReBadVersion
              else (case get ''cmd'' of
                  Some (JStr cmd) \<Rightarrow>
                    (case get ''port'' of
                       None \<Rightarrow> request_named cmd None
                     | Some JNull \<Rightarrow> request_named cmd None
                     | Some (JStr p) \<Rightarrow> if valid_port p then request_named cmd (Some p) else Err ReMalformed
                     | Some _ \<Rightarrow> Err ReMalformed)
                | _ \<Rightarrow> Err ReMalformed)
          | _ \<Rightarrow> Err ReMalformed)"

section \<open>Writing JSON\<close>

definition hex_char :: "nat \<Rightarrow> char" where
  "hex_char n = (if n < 10 then char_of (48 + n) else char_of (87 + n))"

text \<open>One character of a string literal; \<open>{:04x}\<close> of a control character has two zeros first.\<close>

definition json_escape :: "char \<Rightarrow> string" where
  "json_escape c =
     (if c = CHR 0x22 then [CHR 0x5C, CHR 0x22]
      else if c = CHR 0x5C then [CHR 0x5C, CHR 0x5C]
      else if c = CHR 0x0A then [CHR 0x5C, CHR ''n'']
      else if c = CHR 0x0D then [CHR 0x5C, CHR ''r'']
      else if c = CHR 0x09 then [CHR 0x5C, CHR ''t'']
      else if byte c < 0x20
      then [CHR 0x5C, CHR ''u'', CHR ''0'', CHR ''0'', hex_char (byte c div 16), hex_char (byte c mod 16)]
      else [c])"

definition json_string :: "string \<Rightarrow> string" where
  "json_string text = CHR 0x22 # concat (map json_escape text) @ [CHR 0x22]"

text \<open>\<open>JsonObject\<close> is what it has written so far.\<close>

type_synonym json_object = string

definition jo_new :: json_object where
  "jo_new = ''{''"

definition jo_key :: "json_object \<Rightarrow> string \<Rightarrow> json_object" where
  "jo_key o' key = (if 1 < length o' then o' @ '','' else o') @ json_string key @ '':''"

definition jo_raw :: "json_object \<Rightarrow> string \<Rightarrow> string \<Rightarrow> json_object" where
  "jo_raw o' key json = jo_key o' key @ json"

definition jo_str :: "json_object \<Rightarrow> string \<Rightarrow> string \<Rightarrow> json_object" where
  "jo_str o' key v = jo_raw o' key (json_string v)"

definition jo_opt_str :: "json_object \<Rightarrow> string \<Rightarrow> string option \<Rightarrow> json_object" where
  "jo_opt_str o' key v = (case v of Some v \<Rightarrow> jo_str o' key v | None \<Rightarrow> jo_raw o' key ''null'')"

definition jo_num :: "json_object \<Rightarrow> string \<Rightarrow> u64 \<Rightarrow> json_object" where
  "jo_num o' key v = jo_raw o' key (nat_str (unat v))"

definition jo_opt_num :: "json_object \<Rightarrow> string \<Rightarrow> u64 option \<Rightarrow> json_object" where
  "jo_opt_num o' key v = (case v of Some v \<Rightarrow> jo_num o' key v | None \<Rightarrow> jo_raw o' key ''null'')"

definition jo_finish :: "json_object \<Rightarrow> string" where
  "jo_finish o' = o' @ ''}''"

definition jo_object :: "json_object \<Rightarrow> string \<Rightarrow> json_object \<Rightarrow> json_object" where
  "jo_object o' key v = jo_raw o' key (jo_finish v)"

definition ok_response :: "string \<Rightarrow> (string \<times> string) option \<Rightarrow> string" where
  "ok_response cmd body = (case body of
      Some (key, json) \<Rightarrow> ''{\"v\":'' @ nat_str (nat CONTROL_IPC_VERSION) @ '',\"ok\":true,\"cmd\":''
        @ json_string cmd @ '',\"'' @ key @ ''\":'' @ json @ ''}''
    | None \<Rightarrow> ''{\"v\":'' @ nat_str (nat CONTROL_IPC_VERSION) @ '',\"ok\":true,\"cmd\":''
        @ json_string cmd @ ''}'')"

definition error_response :: "string \<Rightarrow> string \<Rightarrow> string" where
  "error_response code message = ''{\"v\":'' @ nat_str (nat CONTROL_IPC_VERSION)
     @ '',\"ok\":false,\"error\":'' @ json_string code @ '',\"message\":'' @ json_string message @ ''}''"

text \<open>The request lines of the command-line client.\<close>

definition simple_request :: "string \<Rightarrow> string" where
  "simple_request cmd = ''{\"v\":'' @ nat_str (nat CONTROL_IPC_VERSION) @ '',\"cmd\":'' @ json_string cmd @ ''}''"

definition daemon_command_line :: "string \<Rightarrow> string option \<Rightarrow> string" where
  "daemon_command_line cmd port = (case port of
      Some port \<Rightarrow> ''{\"v\":'' @ nat_str (nat CONTROL_IPC_VERSION) @ '',\"cmd\":'' @ json_string cmd
        @ '',\"port\":'' @ json_string port @ ''}''
    | None \<Rightarrow> simple_request cmd)"

section \<open>A reader of string literals\<close>

text \<open>
  What JSON says a literal means, for the escapes of the ASCII characters: the text up to the
  closing quote and what follows it.
\<close>

definition hex_value :: "char \<Rightarrow> nat" where
  "hex_value c = (if is_ascii_digit c then byte c - 48 else byte c - 87)"

fun read_literal :: "string \<Rightarrow> (string \<times> string) option" where
  "read_literal [] = None"
| "read_literal (c # s) =
     (if c = CHR 0x22 then Some ([], s)
      else if c = CHR 0x5C then
        (case s of
           [] \<Rightarrow> None
         | e # s \<Rightarrow>
             if e = CHR 0x22 \<or> e = CHR 0x5C then map_option (\<lambda>(t, r). (e # t, r)) (read_literal s)
             else if e = CHR ''n'' then map_option (\<lambda>(t, r). (CHR 0x0A # t, r)) (read_literal s)
             else if e = CHR ''r'' then map_option (\<lambda>(t, r). (CHR 0x0D # t, r)) (read_literal s)
             else if e = CHR ''t'' then map_option (\<lambda>(t, r). (CHR 0x09 # t, r)) (read_literal s)
             else if e = CHR ''u'' then
               (case s of
                  a # b # h # l # s \<Rightarrow>
                    if a = CHR ''0'' \<and> b = CHR ''0'' then
                      map_option (\<lambda>(t, r). (char_of (hex_value h * 16 + hex_value l) # t, r)) (read_literal s)
                    else None
                | _ \<Rightarrow> None)
             else None)
      else if byte c < 0x20 then None
      else map_option (\<lambda>(t, r). (c # t, r)) (read_literal s))"

lemma hex_value_char: "n < 16 \<Longrightarrow> hex_value (hex_char n) = n"
  by (auto simp: hex_value_def hex_char_def is_ascii_digit_def byte_def)

lemma char_of_byte: "char_of (byte c) = c"
  by (simp add: byte_def)

lemma read_literal_escape:
  "read_literal (json_escape c @ s) = map_option (\<lambda>(t, r). (c # t, r)) (read_literal s)"
proof -
  have "char_of (hex_value (hex_char (byte c div 16)) * 16 + hex_value (hex_char (byte c mod 16))) = c"
    using byte_less [of c] by (simp add: hex_value_char char_of_byte)
  moreover have "\<not> byte c < 32 \<or> (c \<noteq> CHR 0x22 \<and> c \<noteq> CHR 0x5C)"
    by (auto simp: byte_def)
  ultimately show ?thesis
    by (simp add: json_escape_def) 
qed

lemma read_literal_written:
  "read_literal (concat (map json_escape t) @ CHR 0x22 # rest) = Some (t, rest)"
  by (induction t) (simp_all add: read_literal_escape)

section \<open>Lines of requests and replies\<close>

definition printable :: "string \<Rightarrow> bool" where
  "printable s \<longleftrightarrow> (\<forall>c \<in> set s. 32 \<le> byte c)"

named_theorems printables

lemma printable_append [printables]: "printable (s @ t) \<longleftrightarrow> printable s \<and> printable t"
  by (auto simp: printable_def)

lemma printable_Cons: "printable (c # t) \<longleftrightarrow> 32 \<le> byte c \<and> printable t"
  by (auto simp: printable_def)

lemma printable_Nil [simp]: "printable []"
  by (simp add: printable_def)

lemma printable_json_string [printables]: "printable (json_string t)"
proof -
  have "32 \<le> byte (hex_char n)" if "n < 16" for n
    using that by (auto simp: hex_char_def byte_def)
  then have "\<forall>c \<in> set (json_escape d). 32 \<le> byte c" for d
    using byte_less [of d] by (auto simp: json_escape_def byte_def)
  then show ?thesis
    by (auto simp: json_string_def printable_def byte_def)
qed

text \<open>
  A string literal says its text and no more. Whatever text is written, whatever follows, a
  JSON reader finds exactly that text up to the closing quote; and the literal holds no control
  character, so that no text ends the line it is written on.
\<close>
theorem json_string_is_exact:
  "json_string t = CHR 0x22 # tl (json_string t)
   \<and> read_literal (tl (json_string t) @ rest) = Some (t, rest)
   \<and> printable (json_string t)"
  using printable_json_string [of t] by (simp add: json_string_def read_literal_written)

lemma printable_nat_str [printables]: "printable (nat_str n)"
  using nat_str_digits [of n] by (fastforce simp: printable_def is_ascii_digit_def)

lemma printable_jo [printables]:
  "printable jo_new"
  "printable o' \<Longrightarrow> printable json \<Longrightarrow> printable (jo_raw o' key json)"
  "printable o' \<Longrightarrow> printable (jo_str o' key v)"
  "printable o' \<Longrightarrow> printable (jo_opt_str o' key w)"
  "printable o' \<Longrightarrow> printable (jo_num o' key n)"
  "printable o' \<Longrightarrow> printable (jo_opt_num o' key m)"
  "printable o' \<Longrightarrow> printable p \<Longrightarrow> printable (jo_object o' key p)"
  "printable o' \<Longrightarrow> printable (jo_finish o')"
  unfolding jo_opt_str_def jo_opt_num_def jo_object_def jo_num_def jo_str_def jo_finish_def
    jo_raw_def jo_key_def jo_new_def
  by (auto simp: printables printable_Cons byte_def split: option.splits)

lemma printable_responses [printables]:
  "printable (error_response code message)"
  "(\<forall>key json. body = Some (key, json) \<longrightarrow> printable key \<and> printable json) \<Longrightarrow> printable (ok_response cmd body)"
  by (auto simp: error_response_def ok_response_def printables printable_Cons byte_def split: option.splits)

lemma json_string_plain: "list_all plain t \<Longrightarrow> json_string t = CHR 0x22 # t @ [CHR 0x22]"
proof -
  have "plain c \<Longrightarrow> json_escape c = [c]" for c
    by (auto simp: plain_def json_escape_def byte_def)
  then have "list_all plain t \<Longrightarrow> concat (map json_escape t) = t"
    by (induction t) auto
  then show "list_all plain t \<Longrightarrow> json_string t = CHR 0x22 # t @ [CHR 0x22]"
    by (simp add: json_string_def)
qed

lemma version_text: "nat_str (nat CONTROL_IPC_VERSION) = ''1''"
  by (simp add: CONTROL_IPC_VERSION_def nat_str.simps digit_char_def char_of_def bit_0)

text \<open>The fields that a line of the client is written from.\<close>

definition request_fields :: "string \<Rightarrow> string option \<Rightarrow> (string \<times> jvalue) list" where
  "request_fields cmd port = [(''v'', JInt 1), (''cmd'', JStr cmd)]
     @ (case port of None \<Rightarrow> [] | Some p \<Rightarrow> [(''port'', JStr p)])"

lemma daemon_command_line_fields:
  "list_all plain cmd \<Longrightarrow> (\<forall>p. port = Some p \<longrightarrow> list_all plain p)
   \<Longrightarrow> daemon_command_line cmd port = print_object (request_fields cmd port)"
  using version_text
  by (auto simp: daemon_command_line_def simple_request_def request_fields_def print_object_def
      print_member_def json_string_plain CONTROL_IPC_VERSION_def split: option.splits)

lemma valid_port_iff:
  "valid_port p \<longleftrightarrow> (\<exists>name. p = ''/dev/'' @ name \<and> name \<noteq> [] \<and> length name \<le> 64
     \<and> (\<forall>c \<in> set name. is_ascii_alphanumeric c \<or> c \<in> set ''._-''))"
proof
  assume "valid_port p"
  then obtain name where n: "strip_prefix ''/dev/'' p = Some name" and "name \<noteq> []" "length name \<le> 64"
    "\<forall>c \<in> set name. is_ascii_alphanumeric c \<or> c \<in> set ''._-''"
    by (auto simp: valid_port_def list_all_iff split: option.splits)
  moreover have "p = ''/dev/'' @ name"
    using n append_take_drop_id [of "length ''/dev/''" p]
    by (simp add: strip_prefix_def del: append_take_drop_id split: if_splits)
  ultimately show "\<exists>name. p = ''/dev/'' @ name \<and> name \<noteq> [] \<and> length name \<le> 64
     \<and> (\<forall>c \<in> set name. is_ascii_alphanumeric c \<or> c \<in> set ''._-'')"
    by blast
next
  assume "\<exists>name. p = ''/dev/'' @ name \<and> name \<noteq> [] \<and> length name \<le> 64
     \<and> (\<forall>c \<in> set name. is_ascii_alphanumeric c \<or> c \<in> set ''._-'')"
  then obtain name where "p = ''/dev/'' @ name" "name \<noteq> []" "length name \<le> 64"
    "\<forall>c \<in> set name. is_ascii_alphanumeric c \<or> c \<in> set ''._-''"
    by blast
  moreover from this(1) have "strip_prefix ''/dev/'' p = Some name"
    by (simp add: strip_prefix_def)
  ultimately show "valid_port p"
    by (simp add: valid_port_def list_all_iff)
qed

definition letters :: "string \<Rightarrow> bool" where
  "letters t \<longleftrightarrow> (\<forall>c \<in> set t. 32 \<le> byte c \<and> byte c < 128 \<and> c \<noteq> CHR 0x22 \<and> c \<noteq> CHR 0x5C)"

lemma letters_plain: "letters t \<Longrightarrow> list_all plain t"
  by (auto simp: letters_def plain_def list_all_iff)

lemma letters_append: "letters (s @ t) \<longleftrightarrow> letters s \<and> letters t"
  by (auto simp: letters_def)

lemma valid_port_letters:
  assumes "valid_port p"
  shows "letters p" and "length p \<le> 69"
proof -
  obtain name where p: "p = ''/dev/'' @ name" and l: "length name \<le> 64"
    and c: "\<forall>c \<in> set name. is_ascii_alphanumeric c \<or> c \<in> set ''._-''"
    using assms by (auto simp: valid_port_iff)
  have "letters ''/dev/''" "letters ''._-''"
    by (simp_all add: letters_def byte_def)
  moreover have "letters name"
    unfolding letters_def
  proof
    fix c assume "c \<in> set name"
    then consider "is_ascii_alphanumeric c" | "c \<in> set ''._-''"
      using c by blast
    then show "32 \<le> byte c \<and> byte c < 128 \<and> c \<noteq> CHR 0x22 \<and> c \<noteq> CHR 0x5C"
    proof cases
      case 1
      then show ?thesis
        by (auto simp: is_ascii_alphanumeric_def is_ascii_digit_def is_ascii_alphabetic_def)
          (auto simp: byte_def)
    next
      case 2
      then show ?thesis
        using \<open>letters ''._-''\<close> by (auto simp: letters_def)
    qed
  qed
  ultimately show "letters p" and "length p \<le> 69"
    using l by (simp_all add: p letters_append del: append.simps)
qed

lemma request_line_read:
  assumes "letters cmd" and "length cmd \<le> 32" and "\<forall>p. port = Some p \<longrightarrow> valid_port p"
  shows "parse_request (daemon_command_line cmd port) = request_named cmd port"
proof -
  have p: "letters p \<and> length p \<le> 69" if "port = Some p" for p
    using assms(3) valid_port_letters that by blast
  have line: "daemon_command_line cmd port = print_object (request_fields cmd port)"
    using daemon_command_line_fields [OF letters_plain [OF assms(1)], of port] letters_plain p by blast
  have one: "nat_str (Suc 0) = ''1''"
    by (simp add: nat_str.simps digit_char_def char_of_def bit_0)
  have keys: "letters ''v''" "letters ''cmd''" "letters ''port''"
    by (simp_all add: letters_def byte_def)
  have "parse_flat_object (print_object (request_fields cmd port)) = Ok (request_fields cmd port)"
  proof (rule parse_print_object)
    show "list_all field_ok (request_fields cmd port)"
      using keys [THEN letters_plain] letters_plain [OF assms(1)] assms(2) p
      by (auto simp: request_fields_def field_ok_def value_ok_def MAX_KEY_BYTES_def MAX_STRING_BYTES_def
          letters_plain split: option.splits dest!: p)
    show "distinct (map fst (request_fields cmd port))" and "length (request_fields cmd port) \<le> MAX_FIELDS"
      by (simp_all add: request_fields_def MAX_FIELDS_def split: option.split)
    show "length (print_object (request_fields cmd port)) \<le> MAX_LINE_BYTES"
      using assms(2) p by (auto simp: request_fields_def print_object_def print_member_def one
          MAX_LINE_BYTES_def split: option.split dest!: p)
    show "from_utf8 (print_object (request_fields cmd port))"
      using assms(1) p by (intro ascii_from_utf8) (auto simp: request_fields_def print_object_def
          print_member_def one letters_def byte_def split: option.split dest!: p)
  qed
  then show ?thesis
    using assms(3)
    by (simp add: line parse_request_def request_fields_def CONTROL_IPC_VERSION_def split: option.split)
qed

lemma request_named_not_Panic [simp]: "request_named cmd port \<noteq> Panic"
  by (simp add: request_named_def)

lemma parse_request_not_Panic: "parse_request line \<noteq> Panic"
  using parse_flat_object_not_Panic [of line]
  by (auto simp: parse_request_def Let_def split: res.split option.split jvalue.split)

lemma request_named_port: "request_named cmd port = Ok (RqPairStart q) \<Longrightarrow> q = port"
  by (auto simp: request_named_def split: if_splits)

lemma parse_request_port:
  assumes "parse_request line = Ok (RqPairStart (Some p))"
  shows "valid_port p"
  using assms
  by (auto simp: parse_request_def Let_def dest!: request_named_port
      split: res.splits option.splits jvalue.splits if_splits)

text \<open>The commands that carry no argument.\<close>

definition plain_commands :: "(string \<times> request) list" where
  "plain_commands = [(''status'', RqStatus), (''monitors'', RqMonitors), (''pair_start'', RqPairStart None),
     (''pair_cancel'', RqPairCancel), (''unpair'', RqUnpair), (''reset_calibration'', RqResetCalibration),
     (''forget'', RqForget), (''stop'', RqStop)]"

lemma plain_commands_read:
  "\<forall>c \<in> set plain_commands. letters (fst c) \<and> length (fst c) \<le> 32 \<and> request_named (fst c) None = Ok (snd c)"
  by (simp add: plain_commands_def letters_def request_named_def byte_def)

text \<open>
  The daemon understands its client and opens nothing but a serial device. Every line the
  command line writes is read as the command it stands for, with its port; no line at all makes
  the reader panic; and a pairing request that names a port, however it was written, names
  \<^verbatim>\<open>/dev/\<close> and one file name of at most 64 letters, digits, dots, underscores and dashes, so
  never a path into another directory.
\<close>
theorem requests_are_understood:
  "((cmd, r) \<in> set plain_commands \<longrightarrow> parse_request (daemon_command_line cmd None) = Ok r)
   \<and> (valid_port p \<longrightarrow> parse_request (daemon_command_line ''pair_start'' (Some p)) = Ok (RqPairStart (Some p)))
   \<and> parse_request line \<noteq> Panic
   \<and> (parse_request line = Ok (RqPairStart (Some p)) \<longrightarrow>
        (\<exists>name. p = ''/dev/'' @ name \<and> name \<noteq> [] \<and> length name \<le> 64 \<and> CHR ''/'' \<notin> set name))"
proof (intro conjI impI)
  assume "(cmd, r) \<in> set plain_commands"
  then show "parse_request (daemon_command_line cmd None) = Ok r"
    using plain_commands_read request_line_read [of cmd None] by fastforce
next
  assume "valid_port p"
  moreover have "letters ''pair_start''"
    by (simp add: letters_def byte_def)
  ultimately have "parse_request (daemon_command_line ''pair_start'' (Some p)) = request_named ''pair_start'' (Some p)"
    using request_line_read [of "''pair_start''" "Some p"] by simp
  then show "parse_request (daemon_command_line ''pair_start'' (Some p)) = Ok (RqPairStart (Some p))"
    by (simp add: request_named_def)
next
  show "parse_request line \<noteq> Panic"
    by (rule parse_request_not_Panic)
next
  assume "parse_request line = Ok (RqPairStart (Some p))"
  then obtain name where n: "p = ''/dev/'' @ name" "name \<noteq> []" "length name \<le> 64"
    "\<forall>c \<in> set name. is_ascii_alphanumeric c \<or> c \<in> set ''._-''"
    using parse_request_port valid_port_iff by blast
  moreover have "\<not> is_ascii_alphanumeric CHR ''/''"
    by (simp add: is_ascii_alphanumeric_def is_ascii_digit_def is_ascii_alphabetic_def byte_def)
  ultimately have "CHR ''/'' \<notin> set name"
    by auto
  with n show "\<exists>name. p = ''/dev/'' @ name \<and> name \<noteq> [] \<and> length name \<le> 64 \<and> CHR ''/'' \<notin> set name"
    by blast
qed

theorem requests_are_understood_witness:
  "parse_request (daemon_command_line ''pair_start'' (Some ''/dev/cu.usbmodem1'')) =
     Ok (RqPairStart (Some ''/dev/cu.usbmodem1''))
   \<and> parse_request (daemon_command_line ''unpair'' None) = Ok RqUnpair"
proof -
  have "valid_port ''/dev/cu.usbmodem1''"
    by (simp add: valid_port_def strip_prefix_def is_ascii_alphanumeric_def is_ascii_digit_def
        is_ascii_alphabetic_def byte_def)
  moreover have "(''unpair'', RqUnpair) \<in> set plain_commands"
    by (simp add: plain_commands_def)
  ultimately show ?thesis
    using requests_are_understood [of "''unpair''" RqUnpair "''/dev/cu.usbmodem1''"] by blast
qed

end
