(* ===== verification/Supervisor.thy ===== *)
theory Supervisor
  imports Link Control_Requests
begin

text \<open>
  The daemon's supervisor, \<^verbatim>\<open>host/hostcore/src/daemon.rs\<close>: the thread that chooses a port, connects,
  serves and answers the commands of the control socket. The commands that arrive, the ports that
  exist and the answers of the port are arguments of each turn; connecting and serving are those of
  the theory of the link. The identity file is part of the state. What was done to the outside is
  kept in order: the ports opened, the bytes written, the commands taken, the replies and the log.
\<close>

section \<open>The link state reported by the status\<close>

datatype link_state = LsNoDevice | LsDeviceFound | LsPairingRequired | LsPairedConnected | LsStale

fun link_state_name :: "link_state \<Rightarrow> string" where
  "link_state_name LsNoDevice = ''no_device''"
| "link_state_name LsDeviceFound = ''device_found''"
| "link_state_name LsPairingRequired = ''pairing_required''"
| "link_state_name LsPairedConnected = ''paired_connected''"
| "link_state_name LsStale = ''stale''"

record link_status =
  ls_state :: link_state
  ls_detail :: "string option"
  ls_port :: "string option"
  ls_pairing_code :: "u32 option"
  ls_pairing_identity :: "string option"
  ls_sessions :: u64

record shared =
  sd_link :: link_status
  sd_last_snapshot_utc_ms :: "u64 option"
  sd_last_snapshot_ms :: "u64 option"
  sd_snapshots :: u64
  sd_groups :: "(string \<times> string) list"

definition shared_new :: shared where
  "shared_new = \<lparr>sd_link = \<lparr>ls_state = LsNoDevice, ls_detail = None, ls_port = None, ls_pairing_code = None,
       ls_pairing_identity = None, ls_sessions = 0\<rparr>,
     sd_last_snapshot_utc_ms = None, sd_last_snapshot_ms = None, sd_snapshots = 0, sd_groups = []\<rparr>"

fun availability_name :: "availability \<Rightarrow> string" where
  "availability_name Available = ''available''"
| "availability_name Unsupported = ''unsupported''"
| "availability_name Absent = ''absent''"
| "availability_name TemporarilyUnavailable = ''temporarily_unavailable''"
| "availability_name AvError = ''error''"

section \<open>The supervisor\<close>

record pair_control =
  pr_requested :: bool
  pr_port :: "string option"
  pr_parked :: "string option"

record supervisor =
  su_shared :: shared
  su_pair :: pair_control
  su_groups :: groups
  su_file :: "string option"
  su_opened :: "string list"
  su_written :: "bytes list"
  su_taken :: "request list"
  su_replies :: "(request \<times> string) list"
  su_log :: "string list"

definition supervisor_new :: "groups \<Rightarrow> string option \<Rightarrow> supervisor" where
  "supervisor_new g file = \<lparr>su_shared = shared_new,
     su_pair = \<lparr>pr_requested = False, pr_port = None, pr_parked = None\<rparr>, su_groups = g, su_file = file,
     su_opened = [], su_written = [], su_taken = [], su_replies = [], su_log = []\<rparr>"

definition log_line :: "string \<Rightarrow> supervisor \<Rightarrow> supervisor" where
  "log_line line u = u\<lparr>su_log := su_log u @ [line]\<rparr>"

definition update_pair :: "(pair_control \<Rightarrow> pair_control) \<Rightarrow> supervisor \<Rightarrow> supervisor" where
  "update_pair f u = u\<lparr>su_pair := f (su_pair u)\<rparr>"

definition not_requested :: "pair_control \<Rightarrow> pair_control" where
  "not_requested p = p\<lparr>pr_requested := False, pr_port := None\<rparr>"

definition park :: "string option \<Rightarrow> pair_control \<Rightarrow> pair_control" where
  "park port p = p\<lparr>pr_parked := port\<rparr>"

definition link_line :: "link_state \<Rightarrow> string option \<Rightarrow> string option \<Rightarrow> string" where
  "link_line state detail port = ''link '' @ link_state_name state
     @ (case port of None \<Rightarrow> [] | Some p \<Rightarrow> '' on '' @ p)
     @ (case detail of None \<Rightarrow> [] | Some d \<Rightarrow> '': '' @ d)"

definition set_link ::
    "link_state \<Rightarrow> string option \<Rightarrow> string option \<Rightarrow> u32 option \<Rightarrow> supervisor \<Rightarrow> supervisor" where
  "set_link state detail port code u =
     (let s = su_shared u; l = sd_link s;
          changed = ls_state l \<noteq> state \<or> ls_detail l \<noteq> detail \<or> ls_port l \<noteq> port;
          s = s\<lparr>sd_link := l\<lparr>ls_state := state, ls_detail := detail, ls_port := port, ls_pairing_code := code\<rparr>\<rparr>;
          s = (if state \<noteq> LsPairedConnected then s\<lparr>sd_groups := []\<rparr> else s);
          u = u\<lparr>su_shared := s\<rparr>
      in if changed then log_line (link_line state detail port) u else u)"

definition set_identity :: "bytes option \<Rightarrow> supervisor \<Rightarrow> supervisor" where
  "set_identity device u =
     u\<lparr>su_shared := (su_shared u)\<lparr>sd_link := (sd_link (su_shared u))\<lparr>ls_pairing_identity := map_option short_form device\<rparr>\<rparr>\<rparr>"

text \<open>A command is taken off the channel, and answered.\<close>

definition take_command :: "request \<Rightarrow> supervisor \<Rightarrow> supervisor" where
  "take_command r u = u\<lparr>su_taken := su_taken u @ [r]\<rparr>"

definition reply :: "request \<Rightarrow> string \<Rightarrow> supervisor \<Rightarrow> supervisor" where
  "reply r response u = u\<lparr>su_replies := su_replies u @ [(r, response)]\<rparr>"

section \<open>Without a link\<close>

text \<open>The system's answers to the operations on the identity file.\<close>

record file_env =
  fe_readable :: bool
  fe_random :: "u8 list option"
  fe_created :: disk_write
  fe_saved :: disk_write
  fe_error :: string

definition load_identity :: "file_env \<Rightarrow> supervisor \<Rightarrow> identity option \<times> supervisor" where
  "load_identity env u =
     (let (i, file) = load_or_create_in (fe_readable env) (fe_random env) (fe_created env) (su_file u)
      in (i, u\<lparr>su_file := file\<rparr>))"

definition forget :: "file_env \<Rightarrow> supervisor \<Rightarrow> unit option \<times> supervisor" where
  "forget env u =
     (case load_identity env u of
        (None, u) \<Rightarrow> (None, u)
      | (Some i, u) \<Rightarrow>
          let (saved, file) = save_in (fe_saved env) (i\<lparr>id_device := None\<rparr>) (su_file u);
              u = u\<lparr>su_file := file\<rparr>
          in (case saved of
                None \<Rightarrow> (None, u)
              | Some _ \<Rightarrow> (Some (), log_line ''forgot the stored display''
                  (update_pair (park None) (set_identity None u)))))"

definition handle_idle :: "file_env \<Rightarrow> request \<Rightarrow> supervisor \<Rightarrow> supervisor" where
  "handle_idle env r u =
     (case r of
        RqPairStart port \<Rightarrow>
          (case load_identity env u of
             (None, u) \<Rightarrow> reply r (error_response ''identity'' (fe_error env)) u
           | (Some i, u) \<Rightarrow>
               if id_device i \<noteq> None
               then reply r (error_response ''already_paired'' ''a display is already paired; unpair it first'') u
               else reply r (ok_response ''pair_start'' None)
                 (update_pair (\<lambda>p. \<lparr>pr_requested = True, pr_port = port, pr_parked = None\<rparr>) u))
      | RqPairCancel \<Rightarrow> reply r (ok_response ''pair_cancel'' None) (update_pair not_requested u)
      | RqForget \<Rightarrow>
          (case forget env u of
             (Some _, u) \<Rightarrow> reply r (ok_response ''forget'' None) u
           | (None, u) \<Rightarrow> reply r (error_response ''identity'' (fe_error env)) u)
      | _ \<Rightarrow> reply r (error_response ''not_connected'' ''no paired display is connected'') u)"

text \<open>A wait: it ends after its time, or with the first command.\<close>

definition idle_wait :: "file_env \<Rightarrow> request option \<Rightarrow> supervisor \<Rightarrow> supervisor" where
  "idle_wait env command u =
     (case command of None \<Rightarrow> u | Some r \<Rightarrow> handle_idle env r (take_command r u))"

datatype port_choice = PcNone | PcAmbiguous nat | PcOne string

definition pick_port :: "string option \<Rightarrow> (string \<Rightarrow> bool) \<Rightarrow> string list \<Rightarrow> supervisor \<Rightarrow> port_choice" where
  "pick_port config_port exists candidates u =
     (case (case pr_port (su_pair u) of None \<Rightarrow> config_port | Some p \<Rightarrow> Some p) of
        Some p \<Rightarrow> if exists p then PcOne p else PcNone
      | None \<Rightarrow> (case candidates of
            [] \<Rightarrow> PcNone
          | [p] \<Rightarrow> PcOne p
          | found \<Rightarrow> PcAmbiguous (length found)))"

section \<open>Connecting\<close>

text \<open>One look at the wish to stop: the stop flag, or the commands waiting then.\<close>

record look =
  lo_stopped :: bool
  lo_commands :: "request list"

fun drain_commands :: "request list \<Rightarrow> supervisor \<Rightarrow> bool \<times> supervisor" where
  "drain_commands [] u = (False, u)"
| "drain_commands (r # rs) u =
     (let u = take_command r u in
      if r = RqPairCancel then (True, reply r (ok_response ''pair_cancel'' None) (update_pair not_requested u))
      else drain_commands rs (reply r (error_response ''busy'' ''a connection attempt is in progress'') u))"

definition wants_cancel :: "look \<Rightarrow> supervisor \<Rightarrow> bool \<times> supervisor" where
  "wants_cancel l u = (if lo_stopped l then (True, u) else drain_commands (lo_commands l) u)"

definition show_progress :: "string \<Rightarrow> progress \<Rightarrow> supervisor \<Rightarrow> supervisor" where
  "show_progress port p u =
     (case p of
        PgOpened \<Rightarrow> set_link LsDeviceFound (Some ''connecting'') (Some port) None u
      | PgNegotiated major minor \<Rightarrow> set_link LsDeviceFound (Some ''connecting'') (Some port) None u
      | PgAwaitingConfirmation code \<Rightarrow>
          set_link LsPairingRequired (Some ''confirm the matching code on the display'') (Some port) (Some code) u
      | PgPaired \<Rightarrow> u)"

fun boot_wait :: "look list \<Rightarrow> supervisor \<Rightarrow> bool \<times> supervisor" where
  "boot_wait [] u = (False, u)"
| "boot_wait (l # ls) u = (let (wish, u) = wants_cancel l u in if wish then (True, u) else boot_wait ls u)"

text \<open>The loop of \<open>connect_with\<close>, its callback \<open>cancel\<close> being the supervisor's.\<close>

fun dial_loop ::
    "nat \<Rightarrow> (look \<times> connect_env) list \<Rightarrow> connect_state \<Rightarrow> supervisor \<Rightarrow> link_end \<times> connect_state \<times> supervisor" where
  "dial_loop deadline [] s u = (LinkGoing, s, u)"
| "dial_loop deadline ((l, env) # rest) s u =
     (if deadline \<le> ce_now env then (LinkFailed (LkTimeout ''waiting for the display to pair''), s, u)
      else
        let (wish, u) = wants_cancel l u; (ended, s) = connect_turn (env\<lparr>ce_cancel := wish\<rparr>) s
        in if ended = LinkGoing then dial_loop deadline rest s u else (ended, s, u))"

record dial_env =
  de_open :: "string option"
  de_boot :: "look list"
  de_code :: "bytes option"
  de_session :: "bytes option"
  de_deadline :: nat
  de_turns :: "(look \<times> connect_env) list"
  de_save :: disk_write
  de_error :: string

definition dial :: "dial_env \<Rightarrow> identity \<Rightarrow> supervisor \<Rightarrow> link_end \<times> connect_state \<times> supervisor" where
  "dial env i u =
     (let s0 = connect_start i 0 []; (wish, u) = boot_wait (de_boot env) u in
      if wish then (LinkFailed LkCancelled, s0, u)
      else
        (case (de_code env, de_session env) of
           (Some cb, Some session) \<Rightarrow>
             dial_loop (de_deadline env)
               (map (\<lambda>(l, e). (l, e\<lparr>ce_saved := (de_save env = Written)\<rparr>)) (de_turns env))
               (connect_start i (matching_code cb) session) u
         | _ \<Rightarrow> (LinkFailed LkIo, s0, u)))"

text \<open>The text of a failure, \<open>io\<close> being that of an input or output error.\<close>

definition refusal_debug :: "refusal \<Rightarrow> string" where
  "refusal_debug r = (case r of
      Incompatible \<Rightarrow> ''Incompatible'' | NotPairedWithYou \<Rightarrow> ''NotPairedWithYou'' | Declined \<Rightarrow> ''Declined''
    | BadRequest \<Rightarrow> ''BadRequest'' | UnknownRefusal v \<Rightarrow> ''Unknown('' @ nat_str (unat v) @ '')'')"

definition link_error_text :: "string \<Rightarrow> link_error \<Rightarrow> string" where
  "link_error_text io e = (case e of
      LkIo \<Rightarrow> ''serial error: '' @ io
    | LkRefused r \<Rightarrow>
        (case r of
           Incompatible \<Rightarrow> ''the display speaks an incompatible protocol version''
         | NotPairedWithYou \<Rightarrow> ''the display is paired with another Mac; unpair it from that Mac, or send ''
             @ ''DEV:UNPAIR on its console''
         | Declined \<Rightarrow> ''pairing was declined or timed out on the display''
         | _ \<Rightarrow> ''the display refused the request ('' @ refusal_debug r @ '')'')
    | LkTimeout what \<Rightarrow> ''timed out '' @ what
    | LkCancelled \<Rightarrow> ''stopped'')"

definition after_failed_connect ::
    "file_env \<Rightarrow> request option \<Rightarrow> string \<Rightarrow> link_error \<Rightarrow> string \<Rightarrow> supervisor \<Rightarrow> supervisor" where
  "after_failed_connect env command io error port u =
     (if error = LkCancelled then u
      else if error = LkIo then
        idle_wait env command (set_link LsStale (Some (''serial error: '' @ io)) (Some port) None u)
      else if error = LkRefused Incompatible then
        update_pair (park (Some port))
          (set_link LsDeviceFound (Some ''the display speaks an incompatible protocol version'') (Some port) None u)
      else
        let pairing = error \<in> {LkRefused NotPairedWithYou, LkRefused Declined,
              LkTimeout ''waiting for the display to pair''}
        in update_pair (park (Some port) \<circ> not_requested)
             (set_link (if pairing then LsPairingRequired else LsStale) (Some (link_error_text io error)) (Some port) None u))"

section \<open>Serving\<close>

text \<open>What the observer finds: the stop flag, the next command, and the clocks after a snapshot.\<close>

record poll_env =
  pl_stopped :: bool
  pl_command :: "request option"
  pl_now_ms :: u64
  pl_utc_ms :: u64
  pl_error :: string

definition on_snapshot :: "poll_env \<Rightarrow> report \<Rightarrow> supervisor \<Rightarrow> supervisor" where
  "on_snapshot env report u =
     u\<lparr>su_shared := (su_shared u)\<lparr>sd_snapshots := sd_snapshots (su_shared u) + 1,
         sd_last_snapshot_ms := Some (pl_now_ms env), sd_last_snapshot_utc_ms := Some (pl_utc_ms env),
         sd_groups := map (\<lambda>(name, a). (name, availability_name a)) (rpt_availability report)\<rparr>\<rparr>"

text \<open>\<open>poll\<close>, with the command that waits for its result.\<close>

definition observer_poll :: "poll_env \<Rightarrow> supervisor \<Rightarrow> serve_action \<times> request option \<times> supervisor" where
  "observer_poll env u =
     (if pl_stopped env then (ActStop, None, u)
      else
        (case pl_command env of
           None \<Rightarrow> (ActContinue, None, u)
         | Some r \<Rightarrow>
             let u = take_command r u in
             (case r of
                RqUnpair \<Rightarrow> (ActCommand Unpair, Some r, u)
              | RqResetCalibration \<Rightarrow> (ActCommand CalibrationReset, Some r, u)
              | RqPairCancel \<Rightarrow> (ActContinue, None, reply r (ok_response ''pair_cancel'' None) u)
              | RqForget \<Rightarrow> (ActContinue, None,
                  reply r (error_response ''paired_connected'' ''unpair the connected display instead'') u)
              | _ \<Rightarrow> (ActContinue, None, reply r (error_response ''already_paired'' ''a display is already paired'') u))))"

definition on_command ::
    "poll_env \<Rightarrow> request option \<Rightarrow> command_operation \<Rightarrow> (command_result, link_error) res \<Rightarrow> supervisor \<Rightarrow> supervisor" where
  "on_command env pending operation result u =
     (case pending of
        None \<Rightarrow> u
      | Some r \<Rightarrow>
          let name = (if operation = Unpair then ''unpair'' else ''reset_calibration'') in
          (case result of
             Ok Rejected \<Rightarrow> reply r (error_response ''rejected'' ''the display rejected the command'') u
           | Ok _ \<Rightarrow> reply r (ok_response name None) u
           | Err e \<Rightarrow> reply r (error_response ''link_error'' (link_error_text (pl_error env) e)) u
           | Panic \<Rightarrow> u))"

definition observe :: "poll_env \<Rightarrow> request option \<Rightarrow> observed \<Rightarrow> supervisor \<Rightarrow> supervisor" where
  "observe env pending ob u =
     (case ob of
        ObSnapshot snapshot report \<Rightarrow> on_snapshot env report u
      | ObCommand operation result \<Rightarrow> on_command env pending operation result u)"

text \<open>One turn of \<open>serve\<close>, the observer being the supervisor's; a turn that is a poll asks it first.\<close>

definition watched_turn ::
    "poll_env \<Rightarrow> serve_env \<Rightarrow> serve_state \<Rightarrow> supervisor
     \<Rightarrow> serve_result \<times> serve_state \<times> supervisor" where
  "watched_turn p env s u =
     (let (action, pending, u) = (if sv_now env < ss_next s then observer_poll p u else (ActContinue, None, u));
          (r, fs, obs, s) = serve_turn (env\<lparr>sv_action := action\<rparr>) s;
          u = fold (observe p pending) obs (u\<lparr>su_written := su_written u @ fs\<rparr>)
      in (r, s, u))"

fun watched_loop ::
    "(poll_env \<times> serve_env) list \<Rightarrow> serve_state \<Rightarrow> supervisor
     \<Rightarrow> serve_result \<times> serve_state \<times> supervisor" where
  "watched_loop [] s u = (ServeGoing, s, u)"
| "watched_loop ((p, env) # rest) s u =
     (let (r, s, u) = watched_turn p env s u
      in if r = ServeGoing then watched_loop rest s u else (r, s, u))"

section \<open>The loop\<close>

text \<open>
  The answers to one turn of \<open>run\<close>. The turn waits once at most, with \<open>te_command\<close> the command that
  ends the wait.
\<close>

record turn_env =
  te_stopped :: bool
  te_exists :: "string \<Rightarrow> bool"
  te_candidates :: "string list"
  te_file :: file_env
  te_command :: "request option"
  te_wait :: file_env
  te_dial :: dial_env
  te_now :: nat
  te_wall :: u64
  te_clock :: u64
  te_serve :: "(poll_env \<times> serve_env) list"
  te_serve_error :: string
  te_forget :: file_env

text \<open>\<open>SupBusy\<close>: the answers given end in the middle of an attempt or of serving.\<close>

datatype sup_result = SupGoing | SupStopped | SupPanics | SupBusy

definition wait_here :: "turn_env \<Rightarrow> supervisor \<Rightarrow> supervisor" where
  "wait_here env u = idle_wait (te_wait env) (te_command env) u"

definition after_serve :: "turn_env \<Rightarrow> string \<Rightarrow> serve_result \<Rightarrow> supervisor \<Rightarrow> sup_result \<times> supervisor" where
  "after_serve env port r u =
     (case r of
        ServeGoing \<Rightarrow> (SupBusy, u)
      | ServePanics \<Rightarrow> (SupPanics, u)
      | ServeEnds ServeStopped \<Rightarrow> (SupStopped, set_link LsNoDevice (Some ''daemon stopped'') None None u)
      | ServeEnds ServeResync \<Rightarrow>
          (SupGoing, set_link LsStale (Some ''resynchronizing after sleep/wake'') (Some port) None u)
      | ServeEnds ServeUnpaired \<Rightarrow>
          let (done, u) = forget (te_forget env) u;
              u = (if done = None
                   then log_line (''cannot forget the display: '' @ fe_error (te_forget env)) u else u)
          in (SupGoing, update_pair (park (Some port))
                (set_link LsPairingRequired (Some ''unpaired; start pairing to use a display'') (Some port) None u))
      | ServeFails e \<Rightarrow>
          let u = set_link LsStale (Some (link_error_text (te_serve_error env) e)) (Some port) None u
          in (SupGoing, (case e of LkRefused _ \<Rightarrow> update_pair (park (Some port)) u | _ \<Rightarrow> wait_here env u)))"

definition serve_port :: "turn_env \<Rightarrow> string \<Rightarrow> connect_state \<Rightarrow> supervisor \<Rightarrow> sup_result \<times> supervisor" where
  "serve_port env port cs u =
     (let u = update_pair not_requested u;
          u = set_identity (id_device (lc_identity cs)) u;
          u = set_link LsPairedConnected None (Some port) None u;
          s = serve_start (te_now env) (te_wall env) (te_clock env) (su_groups u) (lc_client cs);
          (r, s, u) = watched_loop (te_serve env) s u
      in after_serve env port r (u\<lparr>su_groups := ss_groups s\<rparr>))"

definition connect_port :: "turn_env \<Rightarrow> string \<Rightarrow> identity \<Rightarrow> supervisor \<Rightarrow> sup_result \<times> supervisor" where
  "connect_port env port i u =
     (let u = set_link LsDeviceFound (Some ''connecting'') (Some port) None u; d = te_dial env in
      case de_open d of
        Some e \<Rightarrow> (SupGoing, wait_here env
          (set_link LsStale (Some (''cannot open the port: '' @ e)) (Some port) None u))
      | None \<Rightarrow>
          let u = u\<lparr>su_opened := su_opened u @ [port],
                su_shared := (su_shared u)\<lparr>sd_link := (sd_link (su_shared u))\<lparr>ls_sessions := ls_sessions (sd_link (su_shared u)) + 1\<rparr>\<rparr>\<rparr>;
              (ended, cs, u) = dial d i u;
              u = fold (show_progress port) (lc_progress cs) (u\<lparr>su_written := su_written u @ lc_written cs\<rparr>);
              u = (if lc_identity cs \<noteq> i
                   then u\<lparr>su_file := snd (save_in (de_save d) (lc_identity cs) (su_file u))\<rparr> else u)
          in (case ended of
                LinkGoing \<Rightarrow> (SupBusy, u)
              | LinkPanic \<Rightarrow> (SupPanics, u)
              | LinkFailed e \<Rightarrow>
                  (SupGoing, after_failed_connect (te_wait env) (te_command env) (de_error d) e port u)
              | LinkUp \<Rightarrow> serve_port env port cs u))"

definition try_port :: "turn_env \<Rightarrow> string \<Rightarrow> supervisor \<Rightarrow> sup_result \<times> supervisor" where
  "try_port env port u =
     (case load_identity (te_file env) u of
        (None, u) \<Rightarrow> (SupGoing, wait_here env
          (set_link LsStale (Some (''cannot read the pairing identity: '' @ fe_error (te_file env))) (Some port) None u))
      | (Some i, u) \<Rightarrow>
          let u = set_identity (id_device i) u in
          if pr_parked (su_pair u) = Some port then (SupGoing, wait_here env u)
          else if id_device i = None \<and> \<not> pr_requested (su_pair u) then
            (SupGoing, wait_here env (set_link LsPairingRequired
               (Some ''a display is attached; start pairing to use it'') (Some port) None u))
          else connect_port env port i u)"

definition sup_turn :: "string option \<Rightarrow> turn_env \<Rightarrow> supervisor \<Rightarrow> sup_result \<times> supervisor" where
  "sup_turn config_port env u =
     (if te_stopped env then (SupStopped, set_link LsNoDevice (Some ''daemon stopped'') None None u)
      else
        (case pick_port config_port (te_exists env) (te_candidates env) u of
           PcNone \<Rightarrow> (SupGoing, wait_here env (set_link LsNoDevice None None None (update_pair (park None) u)))
         | PcAmbiguous n \<Rightarrow> (SupGoing, wait_here env (set_link LsDeviceFound
             (Some (nat_str n @ '' candidate devices; name one with --port or pair_start'')) None None u))
         | PcOne port \<Rightarrow> try_port env port u))"

fun sup_run :: "string option \<Rightarrow> turn_env list \<Rightarrow> supervisor \<Rightarrow> sup_result \<times> supervisor" where
  "sup_run config_port [] u = (SupGoing, u)"
| "sup_run config_port (env # envs) u =
     (let (r, u) = sup_turn config_port env u
      in if r = SupGoing then sup_run config_port envs u else (r, u))"

end
