(* ===== verification/Link_Dial.thy ===== *)
theory Link_Dial
  imports Link
begin

text \<open>
  The handshake over the port, \<open>Link::connect_with\<close>: what it writes before it is paired, what a
  link that comes up rests on, and when the stored identity changes.
\<close>

section \<open>Where a pairing comes from\<close>

lemma handle_Paired:
  assumes "Paired x \<in> set (out_events (snd (handle m c out)))"
  shows "Paired x \<in> set (out_events out)
    \<or> hc_phase (fst (handle m c out)) = Live \<and> (\<exists>e p. m = MsgControl e (BPair p) \<and> env_session e = hc_session c
        \<and> pair_intended_peer_identity p = hc_host c \<and> pair_matching_code p = hc_code c
        \<and> pair_pairing_identity p = x)"
  using assms
  by (auto simp: handle_def handle_control_def Let_def push_event_def push_frame_def split: message.splits
      phase.splits control_body.splits res.splits if_splits)

text \<open>A frame that names \<open>x\<close> as the display paired with this very attempt of the client.\<close>

definition confirms :: "host_client \<Rightarrow> bytes \<Rightarrow> bytes \<Rightarrow> bool" where
  "confirms c x f \<longleftrightarrow> (\<exists>e p. decode f = Ok (MsgControl e (BPair p)) \<and> env_session e = hc_session c
     \<and> pair_intended_peer_identity p = hc_host c \<and> pair_matching_code p = hc_code c
     \<and> pair_pairing_identity p = x)"

definition same_attempt :: "host_client \<Rightarrow> host_client \<Rightarrow> bool" where
  "same_attempt c d \<longleftrightarrow> hc_session d = hc_session c \<and> hc_host d = hc_host c \<and> hc_code d = hc_code c"

lemma confirms_same: "same_attempt c d \<Longrightarrow> confirms d = confirms c"
  by (simp add: same_attempt_def confirms_def fun_eq_iff)

lemma deliver_all_Paired:
  "deliver_all fs (c, out) = Ok (d, o') \<Longrightarrow> Paired x \<in> set (out_events o') \<Longrightarrow>
   Paired x \<in> set (out_events out) \<or> hc_phase d = Live \<and> (\<exists>f \<in> set fs. confirms c x f)"
proof (induction fs arbitrary: c out)
  case Nil
  then show ?case by simp
next
  case (Cons f fs)
  then obtain c1 o1 where f: "deliver f (c, out) = Ok (c1, o1)" and fs: "deliver_all fs (c1, o1) = Ok (d, o')"
    by (auto simp: and_then_eq_Ok)
  from f consider m where "decode f = Ok m" "(c1, o1) = handle m c out" | "c1 = c" "o1 = out"
    unfolding deliver_Ok by blast
  then show ?case
  proof cases
    case 1
    then have "same_attempt c c1"
      using handle_identity [of m c out] by (simp add: same_attempt_def 1(2) [symmetric])
    moreover have "hc_phase c1 = Live \<Longrightarrow> hc_phase d = Live"
      using deliver_all_Live [OF fs] by blast
    ultimately show ?thesis
      using Cons.IH [OF fs Cons.prems(2)] confirms_same [of c c1] handle_Paired [of x m c out] 1
      by (auto simp: confirms_def) (metis fst_conv snd_conv)+
  next
    case 2
    then show ?thesis
      using Cons.IH [OF fs Cons.prems(2)] by auto
  qed
qed

text \<open>A read of a client that is not yet paired.\<close>

lemma stream_chunks_pair:
  assumes "drain (fs_push s a) = (fs, t)" and "drain (fs_push t b) = (gs, u)"
  shows "drain (fs_push s (a @ b)) = (fs @ gs, u)"
proof -
  have "fs_push s (a @ b) = fs_push (fs_push s a) b"
    by (simp add: fs_push_def)
  then show ?thesis
    using drain_push [OF assms] by simp
qed

lemma receive_dialing:
  assumes "hc_receive bs c = Ok (d, out)" and "client_wf c" and "hc_phase c \<noteq> Live"
    and "snd (drain (fs_push fs_default heard)) = hc_stream c"
  shows "client_wf d" and "same_attempt c d" and "\<forall>f \<in> set (out_frames out). opening_frame f"
    and "snd (drain (fs_push fs_default (heard @ bs))) = hc_stream d"
    and "hc_phase d = Live \<Longrightarrow> \<exists>x. Paired x \<in> set (out_events out)"
    and "Paired x \<in> set (out_events out) \<Longrightarrow>
      hc_phase d = Live \<and> (\<exists>f \<in> set (fst (drain (fs_push fs_default (heard @ bs)))). confirms c x f)"
proof -
  show "client_wf d" "\<forall>f \<in> set (out_frames out). opening_frame f"
    using hc_receive_wf [OF assms(1,2)] by simp_all
  from assms(1) obtain fs t d' where r: "drain (fs_push (hc_stream c) bs) = (fs, t)"
    "deliver_all fs (c, output0) = Ok (d', out)" "d = d'\<lparr>hc_stream := t\<rparr>"
    by (rule hc_receive_Ok)
  obtain gs where "drain (fs_push fs_default heard) = (gs, hc_stream c)"
    using assms(4) by (metis prod.collapse)
  then have all: "drain (fs_push fs_default (heard @ bs)) = (gs @ fs, t)"
    using stream_chunks_pair r(1) by blast
  show "same_attempt c d" "hc_phase d = Live \<Longrightarrow> \<exists>x. Paired x \<in> set (out_events out)"
    using deliver_all_to_Live [OF r(2)] assms(3) r(3) by (auto simp: same_attempt_def)
  show "snd (drain (fs_push fs_default (heard @ bs))) = hc_stream d"
    using all r(3) by simp
  show "Paired x \<in> set (out_events out) \<Longrightarrow>
      hc_phase d = Live \<and> (\<exists>f \<in> set (fst (drain (fs_push fs_default (heard @ bs)))). confirms c x f)"
    using deliver_all_Paired [OF r(2)] all r(3) by (auto simp: output0_def)
qed

section \<open>One attempt\<close>

text \<open>
  The frames an attempt has written and what it has reported; then the state of an attempt that is
  going on, after the bytes \<open>heard\<close>, and of one that has ended.
\<close>

definition discreet :: "host_client \<Rightarrow> connect_state \<Rightarrow> bool" where
  "discreet c0 s \<longleftrightarrow> (\<forall>f \<in> set (lc_written s). f = LINK_COMMAND \<or> opening_frame f)
     \<and> (\<forall>n. PgAwaitingConfirmation n \<in> set (lc_progress s) \<longrightarrow> n = hc_code c0)"

definition dialing :: "host_client \<Rightarrow> identity \<Rightarrow> bytes \<Rightarrow> connect_state \<Rightarrow> bool" where
  "dialing c0 idn heard s \<longleftrightarrow> client_wf (lc_client s) \<and> hc_phase (lc_client s) \<noteq> Live
     \<and> same_attempt c0 (lc_client s) \<and> lc_identity s = idn \<and> discreet c0 s
     \<and> PgPaired \<notin> set (lc_progress s)
     \<and> snd (drain (fs_push fs_default heard)) = hc_stream (lc_client s)"

definition dialed :: "host_client \<Rightarrow> identity \<Rightarrow> bytes \<Rightarrow> link_end \<Rightarrow> connect_state \<Rightarrow> bool" where
  "dialed c0 idn heard ended s \<longleftrightarrow> discreet c0 s
     \<and> (PgPaired \<in> set (lc_progress s) \<longleftrightarrow> ended = LinkUp)
     \<and> (lc_identity s \<noteq> idn \<longrightarrow> ended = LinkUp \<or> ended = LinkFailed LkIo)
     \<and> (ended = LinkUp \<longrightarrow> hc_phase (lc_client s) = Live \<and> same_attempt c0 (lc_client s))
     \<and> (ended = LinkUp \<or> lc_identity s \<noteq> idn \<longrightarrow>
         (\<exists>x. lc_identity s = idn\<lparr>id_device := Some x\<rparr>
            \<and> (\<exists>f \<in> set (fst (drain (fs_push fs_default heard))). confirms c0 x f)))"

lemma dialing_dialed: "dialing c0 idn heard s \<Longrightarrow> ended \<noteq> LinkUp \<Longrightarrow> dialed c0 idn heard ended s"
  by (simp add: dialing_def dialed_def)

lemma heard_more: "set (fst (drain (fs_push fs_default a))) \<subseteq> set (fst (drain (fs_push fs_default (a @ b))))"
  using stream_chunks_pair [of fs_default a _ _ b]
  by (metis UnI1 fst_conv prod.collapse set_append subsetI)

lemma dialed_more: "dialed c0 idn a ended s \<Longrightarrow> dialed c0 idn (a @ b) ended s"
  using heard_more [of a b] unfolding dialed_def by blast

lemma hc_start_opens:
  assumes "hc_start utc c = (r, d)"
  shows "d = c\<lparr>hc_phase := HelloSent\<rparr>" and "r = Ok f \<Longrightarrow> opening_frame f"
  using assms start_frame_decodes [of utc c f]
  by (auto simp: opening_frame_def) (simp add: hc_start_def Let_def)

lemma send_hello_dialing:
  assumes "send_hello env s = (sent, s')" and "dialing c0 idn heard s"
  shows "dialing c0 idn heard s'"
proof -
  let ?c = "set_local_offset_minutes (ce_offset env) (lc_client s)"
  obtain r d where r: "hc_start (Some (ce_utc_ms env)) ?c = (r, d)"
    by fastforce
  have d: "client_wf d = client_wf (lc_client s)" "hc_phase d = HelloSent" "hc_stream d = hc_stream (lc_client s)"
    "same_attempt c0 d = same_attempt c0 (lc_client s)"
    by (simp_all add: hc_start_opens(1) [OF r] client_wf_def same_attempt_def set_local_offset_minutes_def)
  show ?thesis
    using assms hc_start_opens(2) [OF r] d unfolding send_hello_def
    by (auto simp: r dialing_def discreet_def Let_def split: if_splits res.splits)
qed

text \<open>The events of a read: what is reported, what is stored, and how the attempt ends.\<close>

definition answered :: "host_client \<Rightarrow> event list \<Rightarrow> connect_state \<Rightarrow> link_end \<Rightarrow> connect_state \<Rightarrow> bool" where
  "answered c0 es s ended s' \<longleftrightarrow> lc_client s' = lc_client s
   \<and> (discreet c0 s \<longrightarrow> discreet c0 s')
   \<and> (PgPaired \<notin> set (lc_progress s) \<longrightarrow> (PgPaired \<in> set (lc_progress s') \<longleftrightarrow> ended = LinkUp))
   \<and> (if ended = LinkGoing then lc_identity s' = lc_identity s \<and> (\<forall>x. Paired x \<notin> set es)
      else lc_identity s' = lc_identity s \<and> ended \<noteq> LinkUp
        \<or> (ended = LinkUp \<or> ended = LinkFailed LkIo)
          \<and> (\<exists>x. Paired x \<in> set es \<and> lc_identity s' = (lc_identity s)\<lparr>id_device := Some x\<rparr>))"

lemma answered_more:
  assumes "answered c0 es t ended s'" and "lc_client t = lc_client s" and "lc_identity t = lc_identity s"
    and "discreet c0 s \<longrightarrow> discreet c0 t" and "PgPaired \<in> set (lc_progress t) \<longleftrightarrow> PgPaired \<in> set (lc_progress s)"
    and "\<forall>x. e \<noteq> Paired x"
  shows "answered c0 (e # es) s ended s'"
  using assms(1,4-6) unfolding answered_def assms(2,3) by (cases "ended = LinkGoing") auto

lemma connect_events_answered:
  "connect_events saved es s = (ended, s') \<Longrightarrow> answered c0 es s ended s'"
proof (induction es arbitrary: s)
  case Nil
  then show ?case by (simp add: answered_def)
next
  case (Cons e es)
  show ?case
  proof (cases e)
    case (Negotiated major minor)
    let ?t = "report_progress (PgNegotiated major minor) s"
    have "answered c0 es ?t ended s'"
      using Cons Negotiated by simp
    then show ?thesis
      by (rule answered_more) (auto simp: report_progress_def discreet_def Negotiated)
  next
    case (Paired x)
    have "id_device (lc_identity s) = Some x \<Longrightarrow> lc_identity s = (lc_identity s)\<lparr>id_device := Some x\<rparr>"
      by simp
    then show ?thesis
      using Cons.prems Paired
      by (auto simp: answered_def report_progress_def discreet_def Let_def split: if_splits)
  next
    case (EvRefused r)
    then show ?thesis
      using Cons.prems by (auto simp: answered_def)
  next
    case (EvCommandReply i oper r)
    then show ?thesis
      using Cons by (intro answered_more [of c0 es s ended s' s]) simp_all
  qed
qed

lemma connect_turn_dialed:
  assumes "connect_turn env s = (ended, s')" and "dialing c0 idn heard s"
  defines "later \<equiv> heard @ (case ce_read env of None \<Rightarrow> [] | Some bs \<Rightarrow> bs)"
  shows "if ended = LinkGoing then dialing c0 idn later s' else dialed c0 idn later ended s'"
proof -
  obtain sent s1 where hello: "send_hello env s = (sent, s1)"
    by fastforce
  have s1: "dialing c0 idn heard s1"
    using send_hello_dialing [OF hello assms(2)] .
  have early: ?thesis if "s' = s1 \<or> s' = s" "ended \<noteq> LinkUp" "ended \<noteq> LinkGoing"
    using that dialing_dialed [OF s1] dialing_dialed [OF assms(2)] dialed_more later_def by auto
  show ?thesis
  proof (cases "\<exists>bs c out. \<not> ce_cancel env \<and> sent \<and> ce_read env = Some bs \<and> hc_receive bs (lc_client s1) = Ok (c, out)")
    case False
    then have "(s' = s1 \<or> s' = s) \<and> ended \<noteq> LinkUp \<and> ended \<noteq> LinkGoing"
      using assms(1) hello by (auto simp: connect_turn_def split: if_splits option.splits res.splits)
    then show ?thesis
      using early by blast
  next
    case True
    then obtain bs c out where ok: "\<not> ce_cancel env" "sent" "ce_read env = Some bs"
      "hc_receive bs (lc_client s1) = Ok (c, out)" by blast
    let ?s2 = "s1\<lparr>lc_client := c, lc_written := lc_written s1 @ take (ce_frames_written env) (out_frames out)\<rparr>"
    obtain e3 s3 where ev: "connect_events (ce_saved env) (out_events out) ?s2 = (e3, s3)"
      by fastforce
    have more: "later = heard @ bs"
      using ok(3) by (simp add: later_def)
    have d1: "client_wf (lc_client s1)" "hc_phase (lc_client s1) \<noteq> Live" "same_attempt c0 (lc_client s1)"
      "lc_identity s1 = idn" "discreet c0 s1" "PgPaired \<notin> set (lc_progress s1)"
      "snd (drain (fs_push fs_default heard)) = hc_stream (lc_client s1)"
      using s1 by (simp_all add: dialing_def)
    note r = receive_dialing [OF ok(4) d1(1,2,7)]
    have open2: "discreet c0 ?s2"
      using d1(5) r(3) set_take_subset [of "ce_frames_written env" "out_frames out"]
      unfolding discreet_def by auto
    have same: "same_attempt c0 c"
      using d1(3) r(2) by (simp add: same_attempt_def)
    have conf: "confirms (lc_client s1) = confirms c0"
      by (rule confirms_same [OF d1(3)])
    have s2: "lc_client ?s2 = c" "lc_identity ?s2 = idn" "lc_progress ?s2 = lc_progress s1"
      using d1(4) by simp_all
    have f: "lc_client s3 = c" "discreet c0 s3" "PgPaired \<in> set (lc_progress s3) \<longleftrightarrow> e3 = LinkUp"
      "if e3 = LinkGoing then lc_identity s3 = idn \<and> (\<forall>x. Paired x \<notin> set (out_events out))
       else lc_identity s3 = idn \<and> e3 \<noteq> LinkUp
         \<or> (e3 = LinkUp \<or> e3 = LinkFailed LkIo)
          \<and> (\<exists>x. Paired x \<in> set (out_events out) \<and> lc_identity s3 = idn\<lparr>id_device := Some x\<rparr>)"
      using connect_events_answered [OF ev, of c0, unfolded answered_def s2] open2 d1(6) by blast+
    have up: "dialed c0 idn later e3 s3" if "e3 \<noteq> LinkGoing"
    proof (cases "lc_identity s3 = idn \<and> e3 \<noteq> LinkUp")
      case True
      then show ?thesis
        using f(2,3) by (simp add: dialed_def)
    next
      case False
      then obtain x where x: "e3 = LinkUp \<or> e3 = LinkFailed LkIo" "Paired x \<in> set (out_events out)"
        "lc_identity s3 = idn\<lparr>id_device := Some x\<rparr>"
        using f(4) \<open>e3 \<noteq> LinkGoing\<close> by (auto split: if_splits)
      have "hc_phase c = Live" "\<exists>g \<in> set (fst (drain (fs_push fs_default later))). confirms c0 x g"
        using r(6) [OF x(2)] by (simp_all add: more conf)
      then show ?thesis
        unfolding dialed_def using f(1-3) same x(1,3) by blast
    qed
    have going: "dialing c0 idn later s3" if "e3 = LinkGoing"
      using f that r(1,4,5) same by (auto simp: dialing_def more)
    have announced: "dialing c0 idn later (report_progress (PgAwaitingConfirmation (hc_code (lc_client s3))) (s3\<lparr>lc_announced := True\<rparr>))"
      if "dialing c0 idn later s3"
      using that by (auto simp: dialing_def discreet_def report_progress_def same_attempt_def)
    have part: "dialed c0 idn later (LinkFailed LkIo) ?s2"
      using open2 d1(4,6) by (simp add: dialed_def)
    show ?thesis
      using assms(1) hello ok ev up going announced part
      by (auto simp: connect_turn_def Let_def split: if_splits)
  qed
qed

definition heard_in :: "connect_env list \<Rightarrow> bytes" where
  "heard_in envs = concat (map (\<lambda>env. case ce_read env of None \<Rightarrow> [] | Some bs \<Rightarrow> bs) envs)"

lemma connect_loop_dialed:
  "connect_loop deadline envs s = (ended, s') \<Longrightarrow> dialing c0 idn heard s \<Longrightarrow>
   if ended = LinkGoing then dialing c0 idn (heard @ heard_in envs) s'
   else dialed c0 idn (heard @ heard_in envs) ended s'"
proof (induction envs arbitrary: s heard)
  case Nil
  then show ?case by (simp add: heard_in_def)
next
  case (Cons env envs)
  let ?more = "heard @ (case ce_read env of None \<Rightarrow> [] | Some bs \<Rightarrow> bs)"
  have all: "heard @ heard_in (env # envs) = ?more @ heard_in envs"
    by (simp add: heard_in_def)
  obtain e1 s1 where t: "connect_turn env s = (e1, s1)"
    by fastforce
  note turn = connect_turn_dialed [OF t Cons.prems(2)]
  show ?case
  proof (cases "deadline \<le> ce_now env")
    case True
    then show ?thesis
      using Cons.prems(1) dialing_dialed [OF Cons.prems(2)] dialed_more by auto
  next
    case False
    then show ?thesis
      using Cons.prems(1) t turn Cons.IH [of s1 ?more] dialed_more [of c0 idn ?more ended s' "heard_in envs"]
      unfolding all by (cases "e1 = LinkGoing") simp_all
  qed
qed

lemma matching_code_range: "100000 \<le> matching_code bs" "matching_code bs \<le> 999999"
proof -
  have "unat (of_nat (le_value bs) mod 900000 :: u32) < 900000"
    by (simp add: unat_mod)
  then have "unat (matching_code bs) = 100000 + unat (of_nat (le_value bs) mod 900000 :: u32)"
    "unat (of_nat (le_value bs) mod 900000 :: u32) < 900000"
    unfolding matching_code_def by (subst unat_word_ariths; simp)+
  then show "100000 \<le> matching_code bs" "matching_code bs \<le> 999999"
    by (simp_all add: word_le_nat_alt)
qed

lemma connect_start_dialing:
  assumes "length (id_host i) = 16" and "\<forall>d. id_device i = Some d \<longrightarrow> length d = 16" and "length ss = 16"
  shows "dialing (lc_client (connect_start i code ss)) i [] (connect_start i code ss)"
  using assms by (auto simp: dialing_def discreet_def connect_start_def hc_new_def client_wf_def
      same_attempt_def fs_push_def fs_default_def drain.simps next_frame.simps split: option.splits)

text \<open>A link comes up with another identity than before only when that could be stored.\<close>

lemma connect_events_saved:
  "connect_events saved es s = (ended, s') \<Longrightarrow> ended = LinkUp \<or> ended = LinkGoing \<Longrightarrow>
   saved \<or> lc_identity s' = lc_identity s"
proof (induction es arbitrary: s)
  case (Cons e es)
  show ?case
  proof (cases e)
    case (Negotiated major minor)
    then show ?thesis
      using Cons.IH [of "report_progress (PgNegotiated major minor) s"] Cons.prems by (simp add: report_progress_def)
  qed (use Cons in \<open>auto simp: report_progress_def Let_def split: if_splits\<close>)
qed simp

lemma send_hello_identity: "send_hello env s = (sent, s') \<Longrightarrow> lc_identity s' = lc_identity s"
  by (auto simp: send_hello_def Let_def split: if_splits res.splits prod.splits)

lemma connect_turn_saved:
  assumes "connect_turn env s = (ended, s')" and "ended = LinkUp \<or> ended = LinkGoing"
  shows "ce_saved env \<or> lc_identity s' = lc_identity s"
proof -
  obtain sent s1 where hello: "send_hello env s = (sent, s1)"
    by fastforce
  obtain bs c out where ok: "\<not> ce_cancel env" "sent" "ce_read env = Some bs" "hc_receive bs (lc_client s1) = Ok (c, out)"
    using assms hello by (auto simp: connect_turn_def split: if_splits option.splits res.splits)
  let ?s2 = "s1\<lparr>lc_client := c, lc_written := lc_written s1 @ take (ce_frames_written env) (out_frames out)\<rparr>"
  obtain e3 s3 where ev: "connect_events (ce_saved env) (out_events out) ?s2 = (e3, s3)"
    by fastforce
  have "e3 = ended" "lc_identity s' = lc_identity s3"
    using assms hello ok ev by (auto simp: connect_turn_def Let_def report_progress_def split: if_splits)
  then show ?thesis
    using connect_events_saved [OF ev] assms(2) send_hello_identity [OF hello] by auto
qed

lemma connect_loop_saved:
  "connect_loop deadline envs s = (LinkUp, s') \<Longrightarrow> \<forall>env \<in> set envs. \<not> ce_saved env \<Longrightarrow>
   lc_identity s' = lc_identity s"
proof (induction envs arbitrary: s)
  case (Cons env envs)
  obtain e1 s1 where t: "connect_turn env s = (e1, s1)"
    by fastforce
  show ?case
    using Cons t connect_turn_saved [OF t] by (cases "e1 = LinkGoing") (auto split: if_splits)
qed simp

text \<open>The identity a confirmation names has sixteen bytes.\<close>

lemma bytes_dec_length: "bytes_dec c p n = Ok (b, q) \<Longrightarrow> length b = n"
  by (auto simp: bytes_dec_def and_then_eq_Ok split: if_splits option.splits)

definition sixteen :: "bytes option \<Rightarrow> bool" where
  "sixteen v \<longleftrightarrow> (case v of None \<Rightarrow> True | Some bs \<Rightarrow> length bs = 16)"

lemma sixteen_simps [simp]: "sixteen None" "sixteen (Some bs) = (length bs = 16)"
  by (simp_all add: sixteen_def)

lemma control_loop_identities:
  "control_loop kind kmax c n p prior flds ids = Ok (flds', ids', q) \<Longrightarrow> list_all sixteen ids \<Longrightarrow>
   list_all sixteen ids' \<and> length ids' = length ids"
proof (induction n arbitrary: p prior flds ids)
  case (Suc n)
  obtain key p1 where k: "rd c p = Ok (key, p1)" "\<not> (case prior of None \<Rightarrow> False | Some old \<Rightarrow> key \<le> old)"
    using Suc.prems(1) by (auto simp: and_then_eq_Ok split: if_splits)
  show ?case
  proof (cases "\<not> kmax < unat key \<and> kind = MtPair \<and> unat key < 2")
    case True
    then obtain b p2 where b: "bytes_dec c p1 16 = Ok (b, p2)"
      "control_loop kind kmax c n p2 (Some key) flds (ids[unat key := Some b]) = Ok (flds', ids', q)"
      using Suc.prems(1) k by (auto simp: and_then_eq_Ok)
    have "list_all sixteen (ids[unat key := Some b])"
      using Suc.prems(2) bytes_dec_length [OF b(1)] set_update_subset_insert [of ids "unat key" "Some b"]
      by (auto simp: list_all_iff)
    then show ?thesis
      using Suc.IH [OF b(2)] by simp
  next
    case False
    then obtain p2 flds2 where "control_loop kind kmax c n p2 (Some key) flds2 ids = Ok (flds', ids', q)"
      using Suc.prems(1) k by (auto simp: and_then_eq_Ok split: if_splits)
    then show ?thesis
      using Suc.IH Suc.prems(2) by blast
  qed
qed simp

lemma decoded_pair_identity:
  assumes "decode f = Ok (MsgControl e (BPair p))"
  shows "length (pair_pairing_identity p) = 16"
proof -
  obtain c where c: "decode_control_body (env_kind e) c = Ok (BPair p)"
    using assms by (auto simp: decode_def and_then_eq_Ok split: if_splits prod.splits)
  then have kind: "env_kind e = MtPair"
    by (cases "env_kind e") (auto simp: decode_control_body_def and_then_eq_Ok known_max_def split: if_splits)
  then obtain n q flds ids p' where l: "control_loop MtPair 2 c n q None (replicate 6 None) (replicate 2 None) = Ok (flds, ids, p')"
    "pair_from flds ids = Ok p"
    using c by (auto simp: decode_control_body_def and_then_eq_Ok known_max_def split: if_splits)
  have "list_all sixteen ids \<and> length ids = 2"
    using control_loop_identities [OF l(1)] by (simp add: list_all_iff)
  moreover have "ids ! 0 = Some (pair_pairing_identity p)"
    using l(2) by (auto simp: pair_from_def and_then_eq_Ok ok_or_def split: if_splits option.splits)
  ultimately show ?thesis
    by (metis list_all_length sixteen_simps(2) zero_less_numeral)
qed

text \<open>
  C7. Connecting gives nothing away and trusts only the display that confirms this attempt. Whatever
  the display, the clock and the port answer, every byte string written to the port is the link
  command or a frame that decodes to a Hello or a Pair; the code shown to the operator is the one of
  this attempt, six digits long. A link comes up, and the operator is told so, only when a frame
  among the bytes read decodes to a Pair for this host, in this session, with this code; the stored
  identity then names the display of that frame, and the client is live in that session. The stored
  display changes on no other path but a save that failed.
\<close>

theorem connecting_trusts_only_the_confirmed:
  assumes "connect_with wishes code_bytes session deadline envs identity = (ended, s)"
    and "length (id_host identity) = 16" and "\<forall>d. id_device identity = Some d \<longrightarrow> length d = 16"
    and "\<forall>ss. session = Some ss \<longrightarrow> length ss = 16"
  shows "(\<forall>f \<in> set (lc_written s). f = LINK_COMMAND
        \<or> (\<exists>e b. decode f = Ok (MsgControl e b) \<and> env_kind e \<in> {MtHello, MtPair}))
    \<and> (\<forall>n. PgAwaitingConfirmation n \<in> set (lc_progress s) \<longrightarrow>
        (\<exists>cb. code_bytes = Some cb \<and> n = matching_code cb \<and> 100000 \<le> n \<and> n \<le> 999999))
    \<and> (PgPaired \<in> set (lc_progress s) \<longleftrightarrow> ended = LinkUp)
    \<and> (lc_identity s \<noteq> identity \<longrightarrow> ended = LinkUp \<or> ended = LinkFailed LkIo)
    \<and> (ended = LinkUp \<longrightarrow> hc_phase (lc_client s) = Live \<and> session = Some (hc_session (lc_client s)))
    \<and> (ended = LinkUp \<or> lc_identity s \<noteq> identity \<longrightarrow>
        (\<exists>f e p ss cb. f \<in> set (fst (drain (fs_push fs_default (heard_in envs))))
          \<and> decode f = Ok (MsgControl e (BPair p)) \<and> session = Some ss \<and> code_bytes = Some cb
          \<and> env_session e = ss \<and> pair_intended_peer_identity p = id_host identity
          \<and> pair_matching_code p = matching_code cb
          \<and> lc_identity s = identity\<lparr>id_device := Some (pair_pairing_identity p)\<rparr>))"
proof (cases "sleep_cancellable wishes = None \<and> code_bytes \<noteq> None \<and> session \<noteq> None")
  case False
  then have "s = connect_start identity 0 [] \<and> (\<exists>e. ended = LinkFailed e)"
    using assms(1) by (auto simp: connect_with_def Let_def split: option.splits)
  then show ?thesis
    by (auto simp: connect_start_def)
next
  case True
  then obtain cb ss where r: "code_bytes = Some cb" "session = Some ss"
    by blast
  let ?s0 = "connect_start identity (matching_code cb) ss"
  let ?c0 = "lc_client ?s0"
  have c0: "hc_session ?c0 = ss" "hc_host ?c0 = id_host identity" "hc_code ?c0 = matching_code cb"
    by (simp_all add: connect_start_def hc_new_def)
  have "dialing ?c0 identity [] ?s0"
    using assms(2-4) r by (intro connect_start_dialing) simp_all
  moreover have "connect_loop deadline envs ?s0 = (ended, s)"
    using assms(1) True r by (simp add: connect_with_def)
  ultimately have "dialed ?c0 identity (heard_in envs) ended s"
    using connect_loop_dialed dialing_dialed by (metis append_Nil link_end.distinct(5))
  then show ?thesis
    using r c0 matching_code_range [of cb]
    by (auto simp: dialed_def discreet_def opening_frame_def same_attempt_def confirms_def)
qed

text \<open>An attempt that comes up: the sample device answers the Hello, then confirms the pairing.\<close>

definition sample_identity :: identity where
  "sample_identity = \<lparr>id_host = replicate 16 1, id_device = None\<rparr>"

definition sample_turn :: "bytes \<Rightarrow> connect_env" where
  "sample_turn bs = \<lparr>ce_now = 0, ce_hello_now = 0, ce_hello_sent = 0, ce_cancel = False, ce_link_written = True,
     ce_offset = None, ce_utc_ms = 5, ce_hello_written = True, ce_read = Some bs, ce_frames_written = 1,
     ce_saved = True\<rparr>"

lemma sample_hello:
  obtains f where "hc_start (Some 5) sample_client = (Ok f, sample_client\<lparr>hc_phase := HelloSent\<rparr>)"
proof -
  let ?b = "BHello \<lparr>hel_supported_major = 1, hel_supported_minor = 0, hel_capabilities = 0,
    hel_configuration_revision = 0, hel_utc_ms = Some 5, hel_utc_uncertainty_ms = None\<rparr>"
  let ?c = "sample_client\<lparr>hc_phase := HelloSent\<rparr>"
  have "envelope_ok (hc_envelope ?c MtHello ZERO 1)" "control_ok ?b"
    by (auto simp: sample_client_def hc_new_def offset_ok_def ZERO_def control_ok_def wf_control_def
        intro!: hc_envelope_ok)
  then obtain f where "encode_control (hc_envelope ?c MtHello ZERO 1) ?b = Ok (frame_of f)"
    using control_framed [of "hc_envelope ?c MtHello ZERO 1" ?b] by auto
  then show ?thesis
    by (intro that [of "frame_of f"]) (simp add: hc_start_def)
qed

lemma sample_attempt:
  obtains f1 f2 s where "connect_with [False] (Some [160, 91, 0, 0]) (Some (replicate 16 7)) 75000000000
      [sample_turn f1, sample_turn f2] sample_identity = (LinkUp, s)"
proof -
  obtain f1 f2 where f: "encode_control (sample_envelope MtHelloReply) (BHelloReply sample_reply) = Ok f1"
    "encode_control (sample_envelope MtPair) (BPair sample_pair) = Ok f2"
    by (rule sample_device_frames)
  obtain h where h: "hc_start (Some 5) sample_client = (Ok h, sample_client\<lparr>hc_phase := HelloSent\<rparr>)"
    by (rule sample_hello)
  note c = sample_client_facts
  obtain c1 c2 g where r: "hc_receive f1 (sample_client\<lparr>hc_phase := HelloSent\<rparr>) = Ok (c1, \<lparr>out_frames = [g], out_events =
        [Negotiated (hel_supported_major sample_reply) (hel_supported_minor sample_reply)]\<rparr>)"
    "hc_receive f2 c1 = Ok (c2, \<lparr>out_frames = [], out_events = [Paired (replicate 16 9)]\<rparr>)" "hc_phase c1 = PairSent"
    using handshake_steps [OF sample_client_def c(1,3,4) sample_envelope_ok f(1) sample_envelope_ok c(2,5)
        f(2) [unfolded sample_pair_def], of "Some 5"] h by auto
  have "matching_code [160, 91, 0, 0] = 123456"
    by (simp add: matching_code_def le_value_def)
  then have start: "lc_client (connect_start sample_identity (matching_code [160, 91, 0, 0]) (replicate 16 7)) = sample_client"
    by (simp add: connect_start_def sample_identity_def sample_client_def)
  have offset: "set_local_offset_minutes None sample_client = sample_client" "hc_phase sample_client = Idle"
    by (simp_all add: set_local_offset_minutes_def sample_client_def hc_new_def)
  let ?s = "connect_start sample_identity (matching_code [160, 91, 0, 0]) (replicate 16 7)"
  obtain s1 where one: "connect_turn (sample_turn f1) ?s = (LinkGoing, s1)" "lc_client s1 = c1" "lc_identity s1 = sample_identity"
    using r(1,3) h start offset
    by (auto simp: connect_turn_def send_hello_def sample_turn_def report_progress_def Let_def connect_start_def)
  obtain s2 where two: "connect_turn (sample_turn f2) s1 = (LinkUp, s2)"
    using r(2,3) one(2,3)
    by (auto simp: connect_turn_def send_hello_def sample_turn_def report_progress_def Let_def sample_identity_def)
  have "connect_loop 75000000000 [sample_turn f1, sample_turn f2] ?s = (LinkUp, s2)"
    by (simp add: one(1) two) (simp add: sample_turn_def)
  then show ?thesis
    by (intro that [of f1 f2 s2]) (simp add: connect_with_def sleep_cancellable_def)
qed

theorem connecting_trusts_only_the_confirmed_witness:
  "\<exists>f1 f2 s. connect_with [False] (Some [160, 91, 0, 0]) (Some (replicate 16 7)) 75000000000
      [sample_turn f1, sample_turn f2] sample_identity = (LinkUp, s)
    \<and> PgPaired \<in> set (lc_progress s) \<and> hc_session (lc_client s) = replicate 16 7
    \<and> id_device (lc_identity s) \<noteq> None"
proof -
  obtain f1 f2 s where run: "connect_with [False] (Some [160, 91, 0, 0]) (Some (replicate 16 7)) 75000000000
      [sample_turn f1, sample_turn f2] sample_identity = (LinkUp, s)"
    by (rule sample_attempt)
  have "length (id_host sample_identity) = 16" "\<forall>d. id_device sample_identity = Some d \<longrightarrow> length d = 16"
    "\<forall>ss. Some (replicate 16 (7::u8)) = Some ss \<longrightarrow> length ss = 16"
    by (simp_all add: sample_identity_def)
  note t = connecting_trusts_only_the_confirmed [OF run this]
  have "\<exists>x. lc_identity s = sample_identity\<lparr>id_device := Some x\<rparr>"
    using t by blast
  then have "id_device (lc_identity s) \<noteq> None"
    by auto
  moreover have "PgPaired \<in> set (lc_progress s)" "Some (replicate 16 7) = Some (hc_session (lc_client s))"
    using t by blast+
  ultimately show ?thesis
    using run by (metis option.inject)
qed

end
