(* ===== verification/Supervisor_Correct.thy ===== *)
theory Supervisor_Correct
  imports Supervisor Link_Dial
begin

text \<open>
  What the supervisor promises over any run: the status it reports is that of the link, no display is
  opened without consent or again after it refused, and every command is answered once.
\<close>

section \<open>The fields an operation changes\<close>

declare log_line_def [simp] update_pair_def [simp] take_command_def [simp] reply_def [simp]
  not_requested_def [simp] park_def [simp]

lemma set_link_fields [simp]:
  "su_pair (set_link st d p c u) = su_pair u" "su_groups (set_link st d p c u) = su_groups u"
  "su_file (set_link st d p c u) = su_file u" "su_opened (set_link st d p c u) = su_opened u"
  "su_written (set_link st d p c u) = su_written u" "su_taken (set_link st d p c u) = su_taken u"
  "su_replies (set_link st d p c u) = su_replies u"
  "sd_link (su_shared (set_link st d p c u)) = (sd_link (su_shared u))
     \<lparr>ls_state := st, ls_detail := d, ls_port := p, ls_pairing_code := c\<rparr>"
  "sd_groups (su_shared (set_link st d p c u)) = (if st \<noteq> LsPairedConnected then [] else sd_groups (su_shared u))"
  by (simp_all add: set_link_def Let_def)

lemma set_identity_fields [simp]:
  "su_pair (set_identity i u) = su_pair u" "su_groups (set_identity i u) = su_groups u"
  "su_file (set_identity i u) = su_file u" "su_opened (set_identity i u) = su_opened u"
  "su_written (set_identity i u) = su_written u" "su_taken (set_identity i u) = su_taken u"
  "su_replies (set_identity i u) = su_replies u"
  "sd_link (su_shared (set_identity i u)) = (sd_link (su_shared u))\<lparr>ls_pairing_identity := map_option short_form i\<rparr>"
  "sd_groups (su_shared (set_identity i u)) = sd_groups (su_shared u)"
  by (simp_all add: set_identity_def)

section \<open>The stored identity\<close>

definition stored :: "string option \<Rightarrow> identity option" where
  "stored file = (case file of None \<Rightarrow> None
     | Some text \<Rightarrow> if from_utf8 text then parse_identity text else None)"

definition stored_device :: "string option \<Rightarrow> bytes option" where
  "stored_device file = (case stored file of None \<Rightarrow> None | Some i \<Rightarrow> id_device i)"

text \<open>What a failed write leaves names no display; fresh identities have sixteen bytes.\<close>

definition write_ok :: "disk_write \<Rightarrow> bool" where
  "write_ok w \<longleftrightarrow> (case w of Written \<Rightarrow> True | NotWritten left \<Rightarrow> stored_device left = None)"

definition file_env_ok :: "file_env \<Rightarrow> bool" where
  "file_env_ok env \<longleftrightarrow> (\<forall>r. fe_random env = Some r \<longrightarrow> length r = 16) \<and> write_ok (fe_created env) \<and> write_ok (fe_saved env)"

lemma unhex_pairs_length: "unhex_pairs s = Some bs \<Longrightarrow> length s = 2 * length bs"
  by (induction s arbitrary: bs rule: unhex_pairs.induct) (auto split: option.splits)

lemma unhex_length: "unhex s = Some bs \<Longrightarrow> length bs = 16"
proof -
  assume "unhex s = Some bs"
  then have "length s = 32" "unhex_pairs s = Some bs"
    by (simp_all add: unhex_def split: if_splits)
  then show "length bs = 16"
    using unhex_pairs_length [of s bs] by simp
qed

lemma sixteen_unhex: "sixteen (unhex s)"
  using unhex_length by (simp add: sixteen_def split: option.split)

lemma parse_lines_sixteen:
  "sixteen h \<Longrightarrow> sixteen d \<Longrightarrow> sixteen (fst (parse_lines ls (h, d))) \<and> sixteen (snd (parse_lines ls (h, d)))"
proof (induction ls arbitrary: h d)
  case (Cons l ls)
  show ?case
  proof (cases "split_at_first (\<lambda>c. c = CHR ''='') l")
    case (Some kv)
    then show ?thesis
      using Cons sixteen_unhex by (cases kv) simp
  qed (use Cons in simp)
qed simp

lemma parse_identity_ok: "parse_identity t = Some i \<Longrightarrow> identity_ok i"
  using parse_lines_sixteen [of None None "rust_lines t"]
  by (auto simp: parse_identity_def identity_ok_def sixteen_def split: prod.splits option.splits)

lemma stored_ok: "stored file = Some i \<Longrightarrow> identity_ok i"
  using parse_identity_ok by (auto simp: stored_def split: option.splits if_splits)

lemma stored_text: "identity_ok i \<Longrightarrow> stored (Some (identity_text i)) = Some i"
  by (simp add: stored_def parse_identity_text)

lemma save_in_stored:
  assumes "save_in w i file = (r, file')" and "identity_ok i" and "write_ok w"
  shows "if r = None then stored_device file' = None else stored file' = Some i"
  using assms stored_text by (auto simp: save_in_def write_ok_def split: disk_write.splits)

text \<open>
  What a load gives is in the file afterwards; its display is the one that was stored, or none when
  the file could not be read.
\<close>

lemma load_stored:
  assumes "load_identity env u = (r, u')" and "file_env_ok env"
  shows "u' = u\<lparr>su_file := su_file u'\<rparr>"
    and "r = Some i \<Longrightarrow> stored (su_file u') = Some i \<and> identity_ok i
      \<and> (id_device i = stored_device (su_file u) \<or> id_device i = None)"
    and "r = None \<Longrightarrow> stored_device (su_file u') = None \<or> su_file u' = su_file u"
proof -
  have load: "load_or_create_in (fe_readable env) (fe_random env) (fe_created env) (su_file u) = (r, su_file u')"
    and "u' = u\<lparr>su_file := su_file u'\<rparr>"
    using assms(1) by (auto simp: load_identity_def split: prod.splits)
  then show "u' = u\<lparr>su_file := su_file u'\<rparr>" by simp
  have random: "\<forall>x. fe_random env = Some x \<longrightarrow> length x = 16"
    using assms(2) by (simp add: file_env_ok_def)
  show "stored (su_file u') = Some i \<and> identity_ok i
      \<and> (id_device i = stored_device (su_file u) \<or> id_device i = None)" if "r = Some i"
    using load [unfolded that] random
  proof (cases rule: load_cases)
    case (found s)
    then have "stored (su_file u) = Some i"
      by (simp add: stored_def)
    then show ?thesis
      using found(5) stored_ok by (simp add: stored_device_def)
  next
    case fresh
    then show ?thesis
      by (simp add: stored_text)
  qed
  show "stored_device (su_file u') = None \<or> su_file u' = su_file u" if "r = None"
    using load assms(2) that
    by (auto simp: load_or_create_in_def save_in_def file_env_ok_def write_ok_def
        split: option.splits disk_write.splits if_splits)
qed

section \<open>Commands that are answered\<close>

definition reply_text :: "string \<Rightarrow> bool" where
  "reply_text t \<longleftrightarrow> (\<exists>cmd. t = ok_response cmd None) \<or> (\<exists>code message. t = error_response code message)"

lemma reply_texts [simp]: "reply_text (ok_response cmd None)" "reply_text (error_response code message)"
  by (auto simp: reply_text_def)

text \<open>Every command taken has been answered, with an acknowledgement or an error.\<close>

definition balanced :: "supervisor \<Rightarrow> bool" where
  "balanced u \<longleftrightarrow> map fst (su_replies u) = su_taken u \<and> (\<forall>x \<in> set (su_replies u). reply_text (snd x))"

text \<open>Between two states only commands were answered; one of them may have been a cancel.\<close>

definition answers :: "supervisor \<Rightarrow> supervisor \<Rightarrow> bool" where
  "answers u v \<longleftrightarrow> su_shared v = su_shared u \<and> su_groups v = su_groups u \<and> su_file v = su_file u
     \<and> su_opened v = su_opened u \<and> su_written v = su_written u
     \<and> (su_pair v = su_pair u \<or> su_pair v = not_requested (su_pair u)) \<and> (balanced u \<longrightarrow> balanced v)"

lemma answers_refl: "answers u u"
  by (simp add: answers_def)

lemma answers_trans: "answers u v \<Longrightarrow> answers v w \<Longrightarrow> answers u w"
  by (auto simp: answers_def)

lemma drain_commands_answers: "drain_commands rs u = (w, v) \<Longrightarrow> answers u v"
proof (induction rs arbitrary: u)
  case (Cons r rs)
  show ?case
  proof (cases "r = RqPairCancel")
    case True
    then show ?thesis
      using Cons.prems by (auto simp: answers_def balanced_def)
  next
    case False
    then have "answers (reply r (error_response ''busy'' ''a connection attempt is in progress'') (take_command r u)) v"
      using Cons by (simp add: Let_def)
    then show ?thesis
      by (auto simp: answers_def balanced_def)
  qed
qed (simp add: answers_refl)

lemma wants_cancel_answers: "wants_cancel l u = (w, v) \<Longrightarrow> answers u v"
  using drain_commands_answers answers_refl by (auto simp: wants_cancel_def split: if_splits)

lemma boot_wait_answers: "boot_wait ls u = (w, v) \<Longrightarrow> answers u v"
proof (induction ls arbitrary: u)
  case (Cons l ls)
  obtain wish x where x: "wants_cancel l u = (wish, x)"
    by fastforce
  show ?case
    using Cons x wants_cancel_answers [OF x] answers_trans by (cases wish) auto
qed (simp add: answers_refl)

text \<open>The supervisor's loop is that of the link, with what its callback answered.\<close>

definition recancelled :: "connect_env \<Rightarrow> connect_env \<Rightarrow> bool" where
  "recancelled e t \<longleftrightarrow> (\<exists>w. e = t\<lparr>ce_cancel := w\<rparr>)"

lemma recancelled_refl: "recancelled e e"
  unfolding recancelled_def by (rule exI [of _ "ce_cancel e"]) simp

lemma recancelled_cancel: "recancelled (e\<lparr>ce_cancel := w\<rparr>) e"
  by (auto simp: recancelled_def)

lemma recancelled_all: "list_all2 recancelled es es"
  by (simp add: list.rel_refl recancelled_refl)

lemma dial_loop_connects:
  "dial_loop deadline ts s u = (ended, s', v) \<Longrightarrow>
   answers u v \<and> (\<exists>envs. connect_loop deadline envs s = (ended, s')
     \<and> list_all2 recancelled envs (map snd ts))"
proof (induction ts arbitrary: s u)
  case Nil
  then show ?case
    by (auto simp: answers_refl intro!: exI [of _ "[]"])
next
  case (Cons t ts)
  obtain l env where t: "t = (l, env)"
    by (cases t)
  show ?case
  proof (cases "deadline \<le> ce_now env")
    case True
    then show ?thesis
      using Cons.prems t by (auto simp: answers_refl recancelled_refl intro!: exI [of _ "env # map snd ts"] recancelled_all)
  next
    case False
    obtain w x where x: "wants_cancel l u = (w, x)"
      by fastforce
    obtain e1 s1 where turn: "connect_turn (env\<lparr>ce_cancel := w\<rparr>) s = (e1, s1)"
      by fastforce
    show ?thesis
    proof (cases "e1 = LinkGoing")
      case True
      then have "dial_loop deadline ts s1 x = (ended, s', v)"
        using Cons.prems False t x turn by simp
      from Cons.IH [OF this] obtain envs where "answers x v" "connect_loop deadline envs s1 = (ended, s')"
        "list_all2 recancelled envs (map snd ts)" by blast
      then show ?thesis
        using wants_cancel_answers [OF x] answers_trans False t turn True
        by (auto simp: recancelled_cancel intro!: exI [of _ "env\<lparr>ce_cancel := w\<rparr> # envs"])
    next
      case e1: False
      then show ?thesis
        using Cons.prems wants_cancel_answers [OF x] False t x turn
        by (auto simp: recancelled_cancel intro!: exI [of _ "env\<lparr>ce_cancel := w\<rparr> # map snd ts"] recancelled_all)
    qed
  qed
qed

lemma handle_idle_balanced: "balanced u \<Longrightarrow> balanced (handle_idle env r (take_command r u))"
  by (auto simp: handle_idle_def forget_def load_identity_def balanced_def Let_def split: request.split
      option.splits prod.splits)

lemma idle_wait_balanced: "balanced u \<Longrightarrow> balanced (idle_wait env command u)"
  using handle_idle_balanced by (simp add: idle_wait_def split: option.split)

text \<open>What the observer is told in a turn: a snapshot, or the result of the command it asked for.\<close>

lemma serve_turn_observed:
  assumes "serve_turn (env\<lparr>sv_action := a\<rparr>) s = (r, fs, obs, s')"
  shows "if sv_now env < ss_next s then
      (case a of ActCommand operation \<Rightarrow> r = ServePanics \<and> obs = []
          \<or> (\<exists>res. obs = [ObCommand operation res] \<and> res \<noteq> Panic)
       | _ \<Rightarrow> obs = [])
    else obs = [] \<or> (\<exists>x rep. obs = [ObSnapshot x rep])"
proof (cases "sv_now env < ss_next s")
  case True
  then show ?thesis
    using assms by (auto simp: serve_turn_def serve_poll_def Let_def split: serve_action.splits prod.splits if_splits)
next
  case False
  then show ?thesis
    using assms by (auto simp: serve_turn_def serve_tick_def Let_def split: res.splits prod.splits if_splits option.splits)
qed

text \<open>Between two states of a served link: the link's status, the pairing and the file stay.\<close>

definition serves :: "supervisor \<Rightarrow> supervisor \<Rightarrow> bool" where
  "serves u v \<longleftrightarrow> sd_link (su_shared v) = sd_link (su_shared u) \<and> su_pair v = su_pair u
     \<and> su_file v = su_file u \<and> su_opened v = su_opened u"

lemma observer_poll_serves:
  "observer_poll p u = (a, pending, v) \<Longrightarrow> serves u v \<and> (balanced u \<longrightarrow>
     (case a of ActCommand operation \<Rightarrow> (\<exists>r. pending = Some r \<and> su_taken v = map fst (su_replies v) @ [r]
          \<and> (\<forall>x \<in> set (su_replies v). reply_text (snd x)))
      | _ \<Rightarrow> pending = None \<and> balanced v))"
  by (auto simp: observer_poll_def serves_def balanced_def Let_def split: option.splits request.splits if_splits)

lemma on_command_serves:
  "serves u (on_command p pending operation res u)"
  "res \<noteq> Panic \<Longrightarrow> su_taken u = map fst (su_replies u) @ [r] \<Longrightarrow> \<forall>x \<in> set (su_replies u). reply_text (snd x) \<Longrightarrow>
   balanced (on_command p (Some r) operation res u)"
  by (auto simp: on_command_def serves_def balanced_def Let_def split: res.split command_result.split option.split)

lemma on_snapshot_serves: "serves u (on_snapshot p report u)" "balanced (on_snapshot p report u) = balanced u"
  by (simp_all add: on_snapshot_def serves_def balanced_def)

lemma serves_trans: "serves u v \<Longrightarrow> serves v w \<Longrightarrow> serves u w"
  by (simp add: serves_def)

lemma watched_turn_serves:
  assumes "watched_turn p env s u = (r, s', v)"
  shows "serves u v \<and> (balanced u \<longrightarrow> r \<noteq> ServePanics \<longrightarrow> balanced v)"
proof -
  obtain a pending x where poll: "(if sv_now env < ss_next s then observer_poll p u else (ActContinue, None, u)) = (a, pending, x)"
    by (rule prod_cases3)
  obtain r1 fs obs s1 where turn: "serve_turn (env\<lparr>sv_action := a\<rparr>) s = (r1, fs, obs, s1)"
    by (rule prod_cases4)
  define y where "y = x\<lparr>su_written := su_written x @ fs\<rparr>"
  have y: "serves u y" "serves x y" "su_taken y = su_taken x" "su_replies y = su_replies x" "balanced y = balanced x"
    using poll observer_poll_serves [of p u a pending x]
    by (auto simp: y_def serves_def balanced_def split: if_splits)
  have v: "v = fold (observe p pending) obs y" "r = r1"
    using assms poll turn by (simp_all add: watched_turn_def y_def Let_def)
  note obs = serve_turn_observed [OF turn]
  show ?thesis
  proof (cases "sv_now env < ss_next s")
    case False
    then have "a = ActContinue" "pending = None" "x = u"
      using poll by auto
    then show ?thesis
      using obs False v y on_snapshot_serves serves_trans [OF y(1)] by (auto simp: observe_def)
  next
    case True
    then have o: "observer_poll p u = (a, pending, x)"
      using poll by simp
    show ?thesis
    proof (cases a)
      case (ActCommand operation)
      then show ?thesis
        using obs True v y observer_poll_serves [OF o] on_command_serves serves_trans [OF y(1)]
        by (auto simp: observe_def)
    qed (use obs True v y observer_poll_serves [OF o] in auto)
  qed
qed

lemma watched_loop_serves:
  "watched_loop ts s u = (r, s', v) \<Longrightarrow> serves u v \<and> (balanced u \<longrightarrow> r \<noteq> ServePanics \<longrightarrow> balanced v)"
proof (induction ts arbitrary: s u)
  case Nil
  then show ?case by (simp add: serves_def)
next
  case (Cons t ts)
  obtain p env where t: "t = (p, env)"
    by (cases t)
  obtain r1 s1 x where x: "watched_turn p env s u = (r1, s1, x)"
    by (rule prod_cases3)
  show ?case
    using Cons t x watched_turn_serves [OF x] serves_trans by (cases "r1 = ServeGoing") auto
qed

section \<open>Every command is answered\<close>

lemma forget_balanced: "forget env u = (d, v) \<Longrightarrow> balanced u \<Longrightarrow> balanced v"
  by (auto simp: forget_def load_identity_def balanced_def Let_def split: option.splits prod.splits)

lemma balanced_simps [simp]:
  "balanced (set_link st d p c u) = balanced u" "balanced (set_identity i u) = balanced u"
  "balanced (u\<lparr>su_pair := q\<rparr>) = balanced u" "balanced (u\<lparr>su_groups := g\<rparr>) = balanced u"
  "balanced (u\<lparr>su_file := f\<rparr>) = balanced u" "balanced (u\<lparr>su_written := w\<rparr>) = balanced u"
  "balanced (u\<lparr>su_opened := o', su_shared := sh\<rparr>) = balanced u" "balanced (u\<lparr>su_log := l\<rparr>) = balanced u"
  by (simp_all add: balanced_def)

lemma show_progress_balanced: "balanced (fold (show_progress port) ps u) = balanced u"
  by (induction ps arbitrary: u) (simp_all add: show_progress_def split: progress.split)

lemma after_failed_connect_balanced: "balanced u \<Longrightarrow> balanced (after_failed_connect env command io e port u)"
  by (simp add: after_failed_connect_def Let_def idle_wait_balanced)

lemma after_serve_balanced:
  "after_serve env port r u = (res, v) \<Longrightarrow> balanced u \<Longrightarrow> balanced v"
  using forget_balanced [of "te_forget env" u]
  by (auto simp: after_serve_def wait_here_def Let_def idle_wait_balanced split: serve_result.splits serve_end.splits
      link_error.splits prod.splits)

lemma dial_answers: "dial env i u = (ended, cs, v) \<Longrightarrow> answers u v"
proof -
  assume d: "dial env i u = (ended, cs, v)"
  obtain wish x where x: "boot_wait (de_boot env) u = (wish, x)"
    by fastforce
  show ?thesis
    using d x boot_wait_answers [OF x] dial_loop_connects answers_trans
    by (fastforce simp: dial_def Let_def split: if_splits option.splits)
qed

lemma serve_port_balanced:
  assumes "serve_port env port cs u = (res, v)" and "balanced u" and "res \<noteq> SupPanics"
  shows "balanced v"
proof -
  let ?u = "set_link LsPairedConnected None (Some port) None
    (set_identity (id_device (lc_identity cs)) (update_pair not_requested u))"
  obtain r s x where w: "watched_loop (te_serve env)
      (serve_start (te_now env) (te_wall env) (te_clock env) (su_groups ?u) (lc_client cs)) ?u = (r, s, x)"
    by (rule prod_cases3)
  have v: "after_serve env port r (x\<lparr>su_groups := ss_groups s\<rparr>) = (res, v)"
    using assms(1) w by (simp add: serve_port_def Let_def)
  then have "r \<noteq> ServePanics"
    using assms(3) by (auto simp: after_serve_def)
  moreover have "balanced ?u"
    using assms(2) by simp
  ultimately have "balanced x"
    using watched_loop_serves [OF w] by blast
  then show ?thesis
    using after_serve_balanced [OF v] by simp
qed

text \<open>An attempt that was made: the port opened, the dialling, and what the supervisor is left with.\<close>

definition dialled :: "turn_env \<Rightarrow> string \<Rightarrow> identity \<Rightarrow> supervisor \<Rightarrow> link_end \<times> connect_state \<times> supervisor" where
  "dialled env port i u =
     (let u = set_link LsDeviceFound (Some ''connecting'') (Some port) None u;
          u = u\<lparr>su_opened := su_opened u @ [port],
                su_shared := (su_shared u)\<lparr>sd_link := (sd_link (su_shared u))\<lparr>ls_sessions := ls_sessions (sd_link (su_shared u)) + 1\<rparr>\<rparr>\<rparr>;
          (ended, cs, u) = dial (te_dial env) i u;
          u = fold (show_progress port) (lc_progress cs) (u\<lparr>su_written := su_written u @ lc_written cs\<rparr>)
      in (ended, cs, if lc_identity cs \<noteq> i
          then u\<lparr>su_file := snd (save_in (de_save (te_dial env)) (lc_identity cs) (su_file u))\<rparr> else u))"

lemma connect_port_cases:
  assumes "connect_port env port i u = (res, v)"
  obtains (unopened) e where "de_open (te_dial env) = Some e" and "res = SupGoing"
      and "v = wait_here env (set_link LsStale (Some (''cannot open the port: '' @ e)) (Some port) None
          (set_link LsDeviceFound (Some ''connecting'') (Some port) None u))"
  | (going) cs where "dialled env port i u = (LinkGoing, cs, v)" and "res = SupBusy"
  | (panic) cs where "dialled env port i u = (LinkPanic, cs, v)" and "res = SupPanics"
  | (failed) e cs x where "dialled env port i u = (LinkFailed e, cs, x)" and "res = SupGoing"
      and "v = after_failed_connect (te_wait env) (te_command env) (de_error (te_dial env)) e port x"
  | (up) cs x where "dialled env port i u = (LinkUp, cs, x)" and "serve_port env port cs x = (res, v)"
  using assms by (auto simp: connect_port_def dialled_def Let_def split: option.splits prod.splits link_end.splits)

lemma dialled_balanced: "dialled env port i u = (ended, cs, v) \<Longrightarrow> balanced u \<Longrightarrow> balanced v"
proof -
  assume d: "dialled env port i u = (ended, cs, v)" and b: "balanced u"
  let ?u = "set_link LsDeviceFound (Some ''connecting'') (Some port) None u"
  let ?o = "?u\<lparr>su_opened := su_opened ?u @ [port],
    su_shared := (su_shared ?u)\<lparr>sd_link := (sd_link (su_shared ?u))\<lparr>ls_sessions := ls_sessions (sd_link (su_shared ?u)) + 1\<rparr>\<rparr>\<rparr>"
  obtain x where x: "dial (te_dial env) i ?o = (ended, cs, x)"
    using d by (auto simp: dialled_def Let_def split: prod.splits)
  have "balanced x"
    using dial_answers [OF x] b by (simp add: answers_def)
  then show "balanced v"
    using d x by (auto simp: dialled_def Let_def show_progress_balanced)
qed

lemma wait_here_balanced: "balanced u \<Longrightarrow> balanced (wait_here env u)"
  by (simp add: wait_here_def idle_wait_balanced)

lemma connect_port_balanced:
  assumes "connect_port env port i u = (res, v)" and "balanced u" and "res \<noteq> SupPanics"
  shows "balanced v"
  using assms(1)
proof (cases rule: connect_port_cases)
  case unopened
  then show ?thesis
    using assms(2) by (simp add: wait_here_balanced)
next
  case going
  then show ?thesis
    using dialled_balanced assms(2) by blast
next
  case (failed e cs x)
  then show ?thesis
    using dialled_balanced assms(2) after_failed_connect_balanced by blast
next
  case (up cs x)
  then show ?thesis
    using dialled_balanced assms(2,3) serve_port_balanced by blast
qed (use assms(3) in simp)

lemma load_identity_balanced: "load_identity env u = (r, v) \<Longrightarrow> balanced v = balanced u"
  by (auto simp: load_identity_def split: prod.splits)

lemma sup_turn_balanced:
  assumes "sup_turn cp env u = (res, v)" and "balanced u" and "res \<noteq> SupPanics"
  shows "balanced v"
proof (cases "te_stopped env")
  case True
  then show ?thesis
    using assms by (auto simp: sup_turn_def)
next
  case run: False
  show ?thesis
  proof (cases "pick_port cp (te_exists env) (te_candidates env) u")
    case (PcOne port)
    obtain r x where x: "load_identity (te_file env) u = (r, x)"
      by fastforce
    have bx: "balanced x"
      using load_identity_balanced [OF x] assms(2) by simp
    have t: "try_port env port u = (res, v)"
      using assms(1) run PcOne by (simp add: sup_turn_def)
    show ?thesis
    proof (cases r)
      case None
      then show ?thesis
        using t x bx by (auto simp: try_port_def wait_here_balanced)
    next
      case (Some i)
      then show ?thesis
        using t x bx assms(3) connect_port_balanced [of env port i "set_identity (id_device i) x" res v]
        by (auto simp: try_port_def Let_def wait_here_balanced split: if_splits)
    qed
  qed (use assms run in \<open>auto simp: sup_turn_def wait_here_balanced\<close>)
qed

lemma sup_run_balanced:
  "sup_run cp envs u = (res, v) \<Longrightarrow> balanced u \<Longrightarrow> res \<noteq> SupPanics \<Longrightarrow> balanced v"
proof (induction envs arbitrary: u)
  case (Cons env envs)
  obtain r x where x: "sup_turn cp env u = (r, x)"
    by fastforce
  show ?case
    using Cons x sup_turn_balanced [OF x] by (cases "r = SupGoing") auto
qed simp

section \<open>The status is that of the link\<close>

definition status_ok :: "supervisor \<Rightarrow> bool" where
  "status_ok u \<longleftrightarrow> (ls_state (sd_link (su_shared u)) \<noteq> LsPairedConnected \<longrightarrow> sd_groups (su_shared u) = [])
     \<and> (\<forall>c. ls_pairing_code (sd_link (su_shared u)) = Some c \<longrightarrow>
          ls_state (sd_link (su_shared u)) = LsPairingRequired \<and> ls_port (sd_link (su_shared u)) \<noteq> None
          \<and> 100000 \<le> c \<and> c \<le> 999999)"

definition resting :: "supervisor \<Rightarrow> bool" where
  "resting u \<longleftrightarrow> ls_state (sd_link (su_shared u)) \<noteq> LsPairedConnected \<and> status_ok u"

text \<open>While connected, the display whose identity is reported is the one stored.\<close>

definition connected_ok :: "supervisor \<Rightarrow> bool" where
  "connected_ok u \<longleftrightarrow> status_ok u \<and> ls_port (sd_link (su_shared u)) \<noteq> None
     \<and> (\<exists>d. stored_device (su_file u) = Some d \<and> ls_pairing_identity (sd_link (su_shared u)) = Some (short_form d))"

lemma resting_set_link:
  "st \<noteq> LsPairedConnected \<Longrightarrow> (\<forall>c. code = Some c \<longrightarrow> st = LsPairingRequired \<and> p \<noteq> None \<and> 100000 \<le> c \<and> c \<le> 999999) \<Longrightarrow>
   resting (set_link st d p code u)"
  by (simp add: resting_def status_ok_def)

lemma resting_simps [simp]:
  "resting (set_identity i u) = resting u" "resting (u\<lparr>su_pair := q\<rparr>) = resting u"
  "resting (u\<lparr>su_groups := g\<rparr>) = resting u" "resting (u\<lparr>su_file := f\<rparr>) = resting u"
  "resting (u\<lparr>su_written := w\<rparr>) = resting u" "resting (u\<lparr>su_log := l\<rparr>) = resting u"
  "resting (u\<lparr>su_taken := t\<rparr>) = resting u" "resting (u\<lparr>su_replies := rs\<rparr>) = resting u"
  "resting (u\<lparr>su_opened := o', su_shared := sh\<lparr>sd_link := lk\<lparr>ls_sessions := n\<rparr>\<rparr>\<rparr>) = resting (u\<lparr>su_shared := sh\<lparr>sd_link := lk\<rparr>\<rparr>)"
  by (simp_all add: resting_def status_ok_def)

lemma load_identity_resting: "load_identity env u = (r, v) \<Longrightarrow> resting v = resting u"
  by (auto simp: load_identity_def split: prod.splits)

lemma forget_resting: "forget env u = (r, v) \<Longrightarrow> resting v = resting u"
  by (auto simp: forget_def load_identity_def Let_def split: prod.splits option.splits)

lemma handle_idle_resting: "resting (handle_idle env r u) = resting u"
  by (auto simp: handle_idle_def load_identity_resting forget_resting split: request.split option.split prod.split)

lemma wait_resting: "resting (idle_wait env command u) = resting u" "resting (wait_here e u) = resting u"
  by (simp_all add: wait_here_def idle_wait_def handle_idle_resting split: option.split)

lemma show_progress_resting:
  "\<forall>c. PgAwaitingConfirmation c \<in> set ps \<longrightarrow> 100000 \<le> c \<and> c \<le> 999999 \<Longrightarrow> resting u \<Longrightarrow>
   resting (fold (show_progress port) ps u)"
proof (induction ps arbitrary: u)
  case (Cons p ps)
  have "resting (show_progress port p u)"
    using Cons.prems by (cases p) (auto simp: show_progress_def intro!: resting_set_link)
  then show ?case
    using Cons by simp
qed simp

lemma answers_resting: "answers u v \<Longrightarrow> resting v = resting u"
  by (simp add: answers_def resting_def status_ok_def)

text \<open>What a dialling ends with, for the supervisor.\<close>

definition dial_ok :: "dial_env \<Rightarrow> bool" where
  "dial_ok env \<longleftrightarrow> (\<forall>ss. de_session env = Some ss \<longrightarrow> length ss = 16) \<and> write_ok (de_save env)"

lemma recancelled_saved:
  "list_all2 recancelled envs (map snd (map (\<lambda>(l, e). (l, e\<lparr>ce_saved := b\<rparr>)) ts)) \<Longrightarrow> \<forall>env \<in> set envs. ce_saved env = b"
proof (induction ts arbitrary: envs)
  case (Cons t ts)
  then show ?case
    by (cases t) (auto simp: list_all2_Cons2 recancelled_def)
qed simp

lemma dial_trusts:
  assumes "dial env i u = (ended, cs, v)" and "identity_ok i" and "dial_ok env"
  shows "\<forall>c. PgAwaitingConfirmation c \<in> set (lc_progress cs) \<longrightarrow> 100000 \<le> c \<and> c \<le> 999999"
    and "ended = LinkUp \<Longrightarrow> \<exists>x. lc_identity cs = i\<lparr>id_device := Some x\<rparr> \<and> length x = 16
      \<and> (lc_identity cs \<noteq> i \<longrightarrow> de_save env = Written)"
proof -
  have "(\<forall>c. PgAwaitingConfirmation c \<in> set (lc_progress cs) \<longrightarrow> 100000 \<le> c \<and> c \<le> 999999)
    \<and> (ended = LinkUp \<longrightarrow> (\<exists>x. lc_identity cs = i\<lparr>id_device := Some x\<rparr> \<and> length x = 16
      \<and> (lc_identity cs \<noteq> i \<longrightarrow> de_save env = Written)))"
  proof (cases "\<exists>cb ss x. boot_wait (de_boot env) u = (False, x) \<and> de_code env = Some cb \<and> de_session env = Some ss")
    case False
    then have "cs = connect_start i 0 [] \<and> ended \<noteq> LinkUp"
      using assms(1) by (auto simp: dial_def Let_def split: prod.splits if_splits option.splits)
    then show ?thesis
      by (simp add: connect_start_def)
  next
    case True
    then obtain cb ss x where r: "boot_wait (de_boot env) u = (False, x)" "de_code env = Some cb" "de_session env = Some ss"
      by blast
    let ?ts = "map (\<lambda>(l, e). (l, e\<lparr>ce_saved := (de_save env = Written)\<rparr>)) (de_turns env)"
    let ?s0 = "connect_start i (matching_code cb) ss"
    have "dial_loop (de_deadline env) ?ts ?s0 x = (ended, cs, v)"
      using assms(1) r by (simp add: dial_def)
    from dial_loop_connects [OF this] obtain envs where c: "connect_loop (de_deadline env) envs ?s0 = (ended, cs)"
      and saved: "\<forall>e \<in> set envs. ce_saved e = (de_save env = Written)"
      using recancelled_saved by blast
    have start: "dialing (lc_client ?s0) i [] ?s0"
      using assms(2,3) r(3) by (intro connect_start_dialing) (auto simp: identity_ok_def dial_ok_def)
    have code: "hc_code (lc_client ?s0) = matching_code cb" "lc_identity ?s0 = i"
      by (simp_all add: connect_start_def hc_new_def)
    note d = connect_loop_dialed [OF c start]
    have "discreet (lc_client ?s0) cs"
      using d by (auto simp: dialing_def dialed_def split: if_splits)
    then have "\<forall>c. PgAwaitingConfirmation c \<in> set (lc_progress cs) \<longrightarrow> 100000 \<le> c \<and> c \<le> 999999"
      using matching_code_range code(1) by (auto simp: discreet_def)
    moreover have "\<exists>x. lc_identity cs = i\<lparr>id_device := Some x\<rparr> \<and> length x = 16
      \<and> (lc_identity cs \<noteq> i \<longrightarrow> de_save env = Written)" if up: "ended = LinkUp"
    proof -
      obtain x f where x: "lc_identity cs = i\<lparr>id_device := Some x\<rparr>" "confirms (lc_client ?s0) x f"
        using d up by (auto simp: dialed_def)
      have "length x = 16"
        using x(2) decoded_pair_identity by (auto simp: confirms_def)
      moreover have "lc_identity cs \<noteq> i \<longrightarrow> de_save env = Written"
        using connect_loop_saved [OF c [unfolded up]] saved code(2) by auto
      ultimately show ?thesis
        using x(1) by blast
    qed
    ultimately show ?thesis
      by blast
  qed
  then show "\<forall>c. PgAwaitingConfirmation c \<in> set (lc_progress cs) \<longrightarrow> 100000 \<le> c \<and> c \<le> 999999"
    and "ended = LinkUp \<Longrightarrow> \<exists>x. lc_identity cs = i\<lparr>id_device := Some x\<rparr> \<and> length x = 16
      \<and> (lc_identity cs \<noteq> i \<longrightarrow> de_save env = Written)"
    by blast+
qed

lemma show_progress_keeps:
  "su_file (fold (show_progress port) ps u) = su_file u" "su_opened (fold (show_progress port) ps u) = su_opened u"
  "su_pair (fold (show_progress port) ps u) = su_pair u"
  by (induction ps arbitrary: u) (simp_all add: show_progress_def split: progress.split)

lemma dialled_ok:
  assumes "dialled env port i u = (ended, cs, v)" and "identity_ok i" and "dial_ok (te_dial env)"
    and "stored (su_file u) = Some i"
  shows "resting v" and "su_opened v = su_opened u @ [port]"
    and "ended = LinkUp \<Longrightarrow> \<exists>x. id_device (lc_identity cs) = Some x \<and> stored_device (su_file v) = Some x"
    and "su_pair v = su_pair u \<or> su_pair v = not_requested (su_pair u)"
proof -
  let ?u = "set_link LsDeviceFound (Some ''connecting'') (Some port) None u"
  let ?o = "?u\<lparr>su_opened := su_opened ?u @ [port],
    su_shared := (su_shared ?u)\<lparr>sd_link := (sd_link (su_shared ?u))\<lparr>ls_sessions := ls_sessions (sd_link (su_shared ?u)) + 1\<rparr>\<rparr>\<rparr>"
  obtain x where x: "dial (te_dial env) i ?o = (ended, cs, x)"
    using assms(1) by (auto simp: dialled_def Let_def split: prod.splits)
  let ?f = "fold (show_progress port) (lc_progress cs) (x\<lparr>su_written := su_written x @ lc_written cs\<rparr>)"
  have v: "v = (if lc_identity cs \<noteq> i
      then ?f\<lparr>su_file := snd (save_in (de_save (te_dial env)) (lc_identity cs) (su_file ?f))\<rparr> else ?f)"
    using assms(1) x by (simp add: dialled_def Let_def)
  note a = dial_answers [OF x]
  have "resting ?o"
    by (simp add: resting_def status_ok_def)
  then have "resting ?f"
    using answers_resting [OF a] dial_trusts(1) [OF x assms(2,3)] by (intro show_progress_resting) simp_all
  then show "resting v"
    by (simp add: v)
  show "su_opened v = su_opened u @ [port]"
    using a by (simp add: v show_progress_keeps answers_def)
  show "su_pair v = su_pair u \<or> su_pair v = not_requested (su_pair u)"
    using a by (simp add: v show_progress_keeps answers_def)
  assume "ended = LinkUp"
  from dial_trusts(2) [OF x assms(2,3) this] obtain d where d: "lc_identity cs = i\<lparr>id_device := Some d\<rparr>" "length d = 16"
    "lc_identity cs \<noteq> i \<longrightarrow> de_save (te_dial env) = Written" by blast
  have "stored_device (su_file v) = Some d"
  proof (cases "lc_identity cs = i")
    case True
    then have "id_device i = Some d"
      using d(1) by (metis identity.select_convs(2) identity.surjective identity.update_convs(2))
    then show ?thesis
      using True a assms(4) by (simp add: v show_progress_keeps answers_def stored_device_def)
  next
    case False
    have "identity_ok (lc_identity cs)"
      using d(1,2) assms(2) by (simp add: identity_ok_def)
    then show ?thesis
      using False d by (simp add: v save_in_def stored_device_def stored_text)
  qed
  then show "\<exists>x. id_device (lc_identity cs) = Some x \<and> stored_device (su_file v) = Some x"
    using d(1) by simp
qed

lemma after_serve_resting:
  assumes "after_serve env port r u = (res, v)"
  shows "if r = ServeGoing then res = SupBusy \<and> v = u
    else res \<noteq> SupBusy \<and> (res = SupPanics \<or> resting v)"
proof -
  have "resting v" if "r = ServeEnds ServeUnpaired"
    using assms that by (auto simp: after_serve_def Let_def intro!: resting_set_link split: prod.splits)
  then show ?thesis
    using assms
    by (auto simp: after_serve_def Let_def wait_resting intro!: resting_set_link split: serve_result.splits
        serve_end.splits link_error.splits prod.splits)
qed

lemma serves_connected:
  "serves u v \<Longrightarrow> ls_state (sd_link (su_shared u)) = LsPairedConnected \<Longrightarrow> connected_ok u \<Longrightarrow>
   ls_state (sd_link (su_shared v)) = LsPairedConnected \<and> connected_ok v"
  by (simp add: serves_def connected_ok_def status_ok_def)

definition told :: "sup_result \<Rightarrow> supervisor \<Rightarrow> bool" where
  "told res v \<longleftrightarrow> res = SupPanics \<or> resting v
     \<or> res = SupBusy \<and> ls_state (sd_link (su_shared v)) = LsPairedConnected \<and> connected_ok v"

lemma serve_port_told:
  assumes "serve_port env port cs u = (res, v)"
    and "id_device (lc_identity cs) = Some x" and "stored_device (su_file u) = Some x"
  shows "told res v"
proof -
  let ?u = "set_link LsPairedConnected None (Some port) None
    (set_identity (id_device (lc_identity cs)) (update_pair not_requested u))"
  obtain r s y where w: "watched_loop (te_serve env)
      (serve_start (te_now env) (te_wall env) (te_clock env) (su_groups ?u) (lc_client cs)) ?u = (r, s, y)"
    by (rule prod_cases3)
  have v: "after_serve env port r (y\<lparr>su_groups := ss_groups s\<rparr>) = (res, v)"
    using assms(1) w by (simp add: serve_port_def Let_def)
  have "connected_ok ?u"
    using assms(2,3) by (simp add: connected_ok_def status_ok_def)
  then have "ls_state (sd_link (su_shared y)) = LsPairedConnected \<and> connected_ok y"
    using watched_loop_serves [OF w] by (intro serves_connected [of ?u]) simp_all
  then show ?thesis
    using after_serve_resting [OF v] by (auto simp: told_def connected_ok_def status_ok_def split: if_splits)
qed

lemma after_failed_connect_resting: "resting u \<Longrightarrow> resting (after_failed_connect env command io e port u)"
  by (auto simp: after_failed_connect_def Let_def wait_resting intro!: resting_set_link)

lemma sup_turn_told:
  assumes "sup_turn cp env u = (res, v)" and "resting u" and "file_env_ok (te_file env)" and "dial_ok (te_dial env)"
  shows "told res v"
proof (cases "te_stopped env")
  case True
  then show ?thesis
    using assms(1) by (auto simp: sup_turn_def told_def intro!: resting_set_link)
next
  case run: False
  show ?thesis
  proof (cases "pick_port cp (te_exists env) (te_candidates env) u")
    case (PcOne port)
    obtain r x where x: "load_identity (te_file env) u = (r, x)"
      by fastforce
    have t: "try_port env port u = (res, v)"
      using assms(1) run PcOne by (simp add: sup_turn_def)
    show ?thesis
    proof (cases "\<exists>i. r = Some i \<and> connect_port env port i (set_identity (id_device i) x) = (res, v)")
      case False
      then show ?thesis
        using t x assms(2) load_identity_resting [OF x]
        by (auto simp: try_port_def told_def wait_resting Let_def intro!: resting_set_link split: option.splits if_splits)
    next
      case True
      then obtain i where i: "r = Some i" "connect_port env port i (set_identity (id_device i) x) = (res, v)"
        by blast
      have st: "stored (su_file (set_identity (id_device i) x)) = Some i" "identity_ok i"
        using load_stored(2) [OF x assms(3) i(1)] by simp_all
      note ok = dialled_ok [OF _ st(2) assms(4) st(1)]
      from i(2) show ?thesis
      proof (cases rule: connect_port_cases)
        case unopened
        then show ?thesis
          by (auto simp: told_def wait_resting intro!: resting_set_link)
      next
        case (going cs)
        then show ?thesis
          using ok(1) by (auto simp: told_def)
      next
        case (panic cs)
        then show ?thesis
          by (simp add: told_def)
      next
        case (failed e cs y)
        then show ?thesis
          using ok(1) after_failed_connect_resting by (auto simp: told_def)
      next
        case (up cs y)
        then show ?thesis
          using ok(3) [OF up(1)] serve_port_told by blast
      qed
    qed
  qed (use assms(1) run in \<open>auto simp: sup_turn_def told_def wait_resting intro!: resting_set_link\<close>)
qed

lemma sup_turn_going: "sup_turn cp env u = (SupGoing, v) \<Longrightarrow> told SupGoing v \<Longrightarrow> resting v"
  by (simp add: told_def)

lemma sup_run_told:
  "sup_run cp envs u = (res, v) \<Longrightarrow> resting u \<Longrightarrow>
   \<forall>env \<in> set envs. file_env_ok (te_file env) \<and> dial_ok (te_dial env) \<Longrightarrow> told res v"
proof (induction envs arbitrary: u)
  case Nil
  then show ?case by (simp add: told_def)
next
  case (Cons env envs)
  obtain r x where x: "sup_turn cp env u = (r, x)"
    by fastforce
  have "told r x"
    using sup_turn_told [OF x] Cons.prems by simp
  then show ?case
    using Cons x by (cases "r = SupGoing") (auto simp: told_def)
qed

lemma supervisor_new_ok: "balanced (supervisor_new g file)" "resting (supervisor_new g file)"
  by (simp_all add: supervisor_new_def balanced_def resting_def status_ok_def shared_new_def)

text \<open>
  C10. Every command is answered, once and in order. In any run of the supervisor that does not end in
  a panic of its thread, the commands answered are exactly the commands taken off the channel of the
  control socket, in that order: those that come while the daemon waits, those drained during an
  attempt to connect, and those the served link carries out, whatever their result. Each answer is an
  acknowledgement or an error message of the socket's protocol.
\<close>

theorem every_command_is_answered:
  assumes "sup_run config_port envs (supervisor_new g file) = (res, u)" and "res \<noteq> SupPanics"
  shows "map fst (su_replies u) = su_taken u
    \<and> (\<forall>x \<in> set (su_replies u). (\<exists>cmd. snd x = ok_response cmd None)
      \<or> (\<exists>code message. snd x = error_response code message))"
  using sup_run_balanced [OF assms(1) supervisor_new_ok(1) assms(2)] by (simp_all add: balanced_def reply_text_def)

text \<open>
  C9. The status the daemon reports is that of the link, whatever happens. After any run of the
  supervisor from its start that does not end in a panic of its thread, with any ports, commands,
  identity files (of which a failed write leaves none that names a display) and answers of the
  display: metrics are listed only while a paired display is connected; a pairing code is shown only
  while the operator has to confirm it, with the port, and has six digits; and when the link is
  reported connected it is being served, on a port that is named, and the display whose identity is
  reported is the one stored in the identity file.
\<close>

theorem status_tells_the_link:
  assumes "sup_run config_port envs (supervisor_new g file) = (res, u)" and "res \<noteq> SupPanics"
    and "\<forall>env \<in> set envs. file_env_ok (te_file env) \<and> dial_ok (te_dial env)"
    and "l = sd_link (su_shared u)"
  shows "(ls_state l \<noteq> LsPairedConnected \<longrightarrow> sd_groups (su_shared u) = [])
    \<and> (\<forall>c. ls_pairing_code l = Some c \<longrightarrow> ls_state l = LsPairingRequired \<and> ls_port l \<noteq> None
          \<and> 100000 \<le> c \<and> c \<le> 999999)
    \<and> (ls_state l = LsPairedConnected \<longrightarrow> res = SupBusy \<and> ls_port l \<noteq> None
        \<and> (\<exists>d. stored_device (su_file u) = Some d \<and> ls_pairing_identity l = Some (short_form d)))"
  using sup_run_told [OF assms(1) supervisor_new_ok(2) assms(3)] assms(2)
  by (auto simp: told_def resting_def connected_ok_def status_ok_def assms(4))

lemma show_progress_taken: "su_taken (fold (show_progress port) ps u) = su_taken u"
  by (induction ps arbitrary: u) (simp_all add: show_progress_def split: progress.split)

definition sample_file_env :: file_env where
  "sample_file_env = \<lparr>fe_readable = True, fe_random = Some (replicate 16 1), fe_created = Written, fe_saved = Written, fe_error = ''no''\<rparr>"

definition sample_dial :: dial_env where
  "sample_dial = \<lparr>de_open = None, de_boot = [], de_code = Some [160, 91, 0, 0], de_session = Some (replicate 16 7),
     de_deadline = 75000000000, de_turns = [], de_save = Written, de_error = ''no''\<rparr>"

text \<open>A turn with one port attached, and a command.\<close>

definition sample_turn_env :: "request option \<Rightarrow> turn_env" where
  "sample_turn_env command = \<lparr>te_stopped = False, te_exists = (\<lambda>p. True), te_candidates = [''/dev/cu.usbserial-1''],
     te_file = sample_file_env, te_command = command, te_wait = sample_file_env, te_dial = sample_dial, te_now = 0,
     te_wall = 0, te_clock = 0, te_serve = [], te_serve_error = ''no'', te_forget = sample_file_env\<rparr>"

lemma sample_turn_env_ok:
  "file_env_ok (te_file (sample_turn_env r))" "dial_ok (te_dial (sample_turn_env r))"
  "file_env_ok (te_wait (sample_turn_env r))"
  by (simp_all add: sample_turn_env_def file_env_ok_def dial_ok_def sample_file_env_def sample_dial_def write_ok_def)

definition sample_groups :: groups where
  "sample_groups = groups_new 501 ''/Users/ann''"

lemma sample_pair_start:
  "\<exists>u. sup_turn None (sample_turn_env (Some (RqPairStart None))) (supervisor_new sample_groups None) = (SupGoing, u)
     \<and> pr_requested (su_pair u) \<and> pr_port (su_pair u) = None \<and> pr_parked (su_pair u) = None
     \<and> su_file u = Some (identity_text sample_identity) \<and> su_taken u = [RqPairStart None]"
  by (simp add: sample_turn_env_def sup_turn_def pick_port_def supervisor_new_def try_port_def load_identity_def
      load_or_create_in_def save_in_def sample_file_env_def wait_here_def idle_wait_def handle_idle_def Let_def
      parse_identity_text identity_ok_def sample_identity_def)

text \<open>Looks that find nothing.\<close>

definition quiet_look :: look where
  "quiet_look = \<lparr>lo_stopped = False, lo_commands = []\<rparr>"

lemma dial_loop_quiet:
  "\<forall>e \<in> set envs. \<not> ce_cancel e \<Longrightarrow>
   dial_loop deadline (map (Pair quiet_look) envs) s u = (let (ended, s') = connect_loop deadline envs s in (ended, s', u))"
proof (induction envs arbitrary: s)
  case (Cons e envs)
  have same: "e\<lparr>ce_cancel := False\<rparr> = e"
    using Cons.prems by (simp add: connect_env.equality)
  have IH: "dial_loop deadline (map (Pair quiet_look) envs) t u
      = (let (ended, s') = connect_loop deadline envs t in (ended, s', u))" for t
    using Cons by simp
  show ?case
    using IH by (simp add: wants_cancel_def quiet_look_def same split: prod.split)
qed simp

definition sample_link_env :: "bytes \<Rightarrow> bytes \<Rightarrow> turn_env" where
  "sample_link_env f1 f2 = (sample_turn_env None)\<lparr>te_dial := sample_dial\<lparr>
     de_turns := map (Pair quiet_look) [sample_turn f1, sample_turn f2]\<rparr>\<rparr>"

lemma sample_link_env_ok:
  "file_env_ok (te_file (sample_link_env f1 f2))" "dial_ok (te_dial (sample_link_env f1 f2))"
  using sample_turn_env_ok by (simp_all add: sample_link_env_def sample_turn_env_def dial_ok_def)

lemma sample_connected:
  obtains f1 f2 u where "sup_run None [sample_turn_env (Some (RqPairStart None)), sample_link_env f1 f2]
      (supervisor_new sample_groups None) = (SupBusy, u)" and "ls_state (sd_link (su_shared u)) = LsPairedConnected"
    and "su_taken u = [RqPairStart None]"
proof -
  obtain f1 f2 s where "connect_with [False] (Some [160, 91, 0, 0]) (Some (replicate 16 7)) 75000000000
      [sample_turn f1, sample_turn f2] sample_identity = (LinkUp, s)"
    by (rule sample_attempt)
  then have c: "connect_loop 75000000000 [sample_turn f1, sample_turn f2]
      (connect_start sample_identity (matching_code [160, 91, 0, 0]) (replicate 16 7)) = (LinkUp, s)"
    by (simp add: connect_with_def sleep_cancellable_def)
  have turns: "map (\<lambda>(l, e). (l, e\<lparr>ce_saved := True\<rparr>)) (map (Pair quiet_look) [sample_turn f1, sample_turn f2])
      = map (Pair quiet_look) [sample_turn f1, sample_turn f2]"
    by (simp add: sample_turn_def)
  have d: "dial (te_dial (sample_link_env f1 f2)) sample_identity x = (LinkUp, s, x)" for x
    using c dial_loop_quiet [of "[sample_turn f1, sample_turn f2]" 75000000000] turns
    by (simp add: dial_def sample_link_env_def sample_dial_def sample_turn_def)
  obtain u where u: "sup_turn None (sample_turn_env (Some (RqPairStart None))) (supervisor_new sample_groups None) = (SupGoing, u)"
    "pr_requested (su_pair u)" "pr_port (su_pair u) = None" "pr_parked (su_pair u) = None"
    "su_file u = Some (identity_text sample_identity)" "su_taken u = [RqPairStart None]"
    using sample_pair_start by blast
  have load: "load_identity (te_file (sample_link_env f1 f2)) u = (Some sample_identity, u)"
    using u(5) by (simp add: load_identity_def load_or_create_in_def parse_identity_text identity_ok_def
        sample_identity_def sample_link_env_def sample_turn_env_def sample_file_env_def)
  have env: "\<not> te_stopped (sample_link_env f1 f2)" "te_candidates (sample_link_env f1 f2) = [''/dev/cu.usbserial-1'']"
    "de_open (te_dial (sample_link_env f1 f2)) = None" "te_serve (sample_link_env f1 f2) = []"
    by (simp_all add: sample_link_env_def sample_turn_env_def sample_dial_def)
  have "pick_port None (te_exists (sample_link_env f1 f2)) (te_candidates (sample_link_env f1 f2)) u = PcOne ''/dev/cu.usbserial-1''"
    using u(3) env(2) by (simp add: pick_port_def)
  then obtain v where v: "sup_turn None (sample_link_env f1 f2) u = (SupBusy, v)"
    "ls_state (sd_link (su_shared v)) = LsPairedConnected" "su_taken v = [RqPairStart None]"
    using u(2,4,6) env load
    by (auto simp: sup_turn_def try_port_def connect_port_def d serve_port_def after_serve_def Let_def
        show_progress_taken split: if_splits)
  have "sup_run None [sample_turn_env (Some (RqPairStart None)), sample_link_env f1 f2]
      (supervisor_new sample_groups None) = (SupBusy, v)"
    by (simp add: u(1) v(1))
  then show ?thesis
    using v(2,3) by (rule that)
qed

theorem status_tells_the_link_witness:
  "\<exists>f1 f2 u d. sup_run None [sample_turn_env (Some (RqPairStart None)), sample_link_env f1 f2]
      (supervisor_new sample_groups None) = (SupBusy, u)
    \<and> ls_state (sd_link (su_shared u)) = LsPairedConnected
    \<and> stored_device (su_file u) = Some d \<and> ls_pairing_identity (sd_link (su_shared u)) = Some (short_form d)"
proof -
  obtain f1 f2 u where run: "sup_run None [sample_turn_env (Some (RqPairStart None)), sample_link_env f1 f2]
      (supervisor_new sample_groups None) = (SupBusy, u)" "ls_state (sd_link (su_shared u)) = LsPairedConnected"
    by (rule sample_connected)
  have "\<forall>env \<in> set [sample_turn_env (Some (RqPairStart None)), sample_link_env f1 f2].
      file_env_ok (te_file env) \<and> dial_ok (te_dial env)"
    using sample_turn_env_ok sample_link_env_ok by simp
  from status_tells_the_link [OF run(1) _ this refl] run show ?thesis
    by blast
qed

theorem every_command_is_answered_witness:
  "\<exists>f1 f2 u. sup_run None [sample_turn_env (Some (RqPairStart None)), sample_link_env f1 f2]
      (supervisor_new sample_groups None) = (SupBusy, u) \<and> map fst (su_replies u) = [RqPairStart None]"
proof -
  obtain f1 f2 u where run: "sup_run None [sample_turn_env (Some (RqPairStart None)), sample_link_env f1 f2]
      (supervisor_new sample_groups None) = (SupBusy, u)" "su_taken u = [RqPairStart None]"
    by (rule sample_connected)
  show ?thesis
    using every_command_is_answered [OF run(1)] run by (intro exI conjI) (rule run(1), simp)
qed

end
