(* ===== verification/Supervisor_Safety.thy ===== *)
theory Supervisor_Safety
  imports Supervisor_Correct
begin

text \<open>
  When the supervisor leaves the displays alone: without a stored display and without a request to
  pair no port is opened, and a port whose display refused is not opened again until it is gone or
  the operator acts.
\<close>

section \<open>Without consent\<close>

definition unpaired_host :: "supervisor \<Rightarrow> bool" where
  "unpaired_host u \<longleftrightarrow> stored_device (su_file u) = None \<and> \<not> pr_requested (su_pair u)"

text \<open>Between two states nothing was opened and nothing was written to a port.\<close>

definition untouched :: "supervisor \<Rightarrow> supervisor \<Rightarrow> bool" where
  "untouched u v \<longleftrightarrow> su_opened v = su_opened u \<and> su_written v = su_written u"

lemma untouched_refl: "untouched u u"
  by (simp add: untouched_def)

lemma untouched_trans: "untouched u v \<Longrightarrow> untouched v w \<Longrightarrow> untouched u w"
  by (simp add: untouched_def)

lemma set_link_quiet [simp]:
  "untouched u (set_link st d p c v) = untouched u v" "unpaired_host (set_link st d p c v) = unpaired_host v"
  "untouched u (set_identity i v) = untouched u v" "unpaired_host (set_identity i v) = unpaired_host v"
  "untouched u (v\<lparr>su_pair := q\<rparr>) = untouched u v"
  by (simp_all add: untouched_def unpaired_host_def)

lemma load_identity_untouched: "load_identity env u = (r, v) \<Longrightarrow> untouched u v \<and> su_pair v = su_pair u"
  by (auto simp: load_identity_def untouched_def split: prod.splits)

lemma load_identity_unpaired:
  assumes "load_identity env u = (r, v)" and "file_env_ok env" and "unpaired_host u"
  shows "unpaired_host v" and "r = Some i \<Longrightarrow> id_device i = None"
proof -
  have "stored_device (su_file v) = None \<and> (\<forall>i. r = Some i \<longrightarrow> id_device i = None)"
    using load_stored(2,3) [OF assms(1,2)] assms(3)
    by (cases r) (auto simp: unpaired_host_def stored_device_def split: option.splits)
  then show "unpaired_host v" "r = Some i \<Longrightarrow> id_device i = None"
    using load_identity_untouched [OF assms(1)] assms(3) by (simp_all add: unpaired_host_def)
qed

lemma forget_untouched: "forget env u = (r, v) \<Longrightarrow> untouched u v \<and> pr_requested (su_pair v) = pr_requested (su_pair u)
    \<and> pr_port (su_pair v) = pr_port (su_pair u)"
  by (auto simp: forget_def load_identity_def untouched_def Let_def split: option.splits prod.splits)

lemma forget_unpaired:
  assumes "forget env u = (r, v)" and "file_env_ok env" and "unpaired_host u \<or> r \<noteq> None"
  shows "stored_device (su_file v) = None"
proof -
  obtain i x where x: "load_identity env u = (i, x)"
    by fastforce
  show ?thesis
  proof (cases i)
    case None
    then have "v = x" "r = None"
      using assms(1) x by (simp_all add: forget_def)
    then show ?thesis
      using load_identity_unpaired(1) [OF x assms(2)] assms(3) by (simp add: unpaired_host_def)
  next
    case (Some k)
    obtain w f where w: "save_in (fe_saved env) (k\<lparr>id_device := None\<rparr>) (su_file x) = (w, f)"
      by fastforce
    have "identity_ok (k\<lparr>id_device := None\<rparr>)"
      using load_stored(2) [OF x assms(2) Some] by (simp add: identity_ok_def)
    then have "stored_device f = None"
      using save_in_stored [OF w] assms(2) by (auto simp: file_env_ok_def stored_device_def split: if_splits)
    moreover have "su_file v = f"
      using assms(1) x Some w by (auto simp: forget_def Let_def split: option.splits)
    ultimately show ?thesis
      by simp
  qed
qed

lemma handle_idle_quiet:
  assumes "file_env_ok env" and "\<forall>port. r \<noteq> RqPairStart port" and "unpaired_host u"
  shows "unpaired_host (handle_idle env r u)"
proof (cases "r = RqForget")
  case True
  obtain d v where f: "forget env u = (d, v)"
    by fastforce
  then have "unpaired_host v"
    using forget_unpaired [OF f assms(1)] forget_untouched [OF f] assms(3) by (simp add: unpaired_host_def)
  then show ?thesis
    using True f by (cases d) (simp_all add: handle_idle_def unpaired_host_def)
qed (use assms(2,3) in \<open>auto simp: handle_idle_def unpaired_host_def split: request.splits\<close>)

lemma handle_idle_untouched: "untouched u (handle_idle env r u)"
proof (cases r)
  case (RqPairStart port)
  obtain i v where l: "load_identity env u = (i, v)"
    by fastforce
  then show ?thesis
    using RqPairStart load_identity_untouched [OF l]
    by (auto simp: handle_idle_def untouched_def split: option.split)
next
  case RqForget
  obtain d v where f: "forget env u = (d, v)"
    by fastforce
  then show ?thesis
    using RqForget forget_untouched [OF f] by (auto simp: handle_idle_def untouched_def split: option.split)
qed (simp_all add: handle_idle_def untouched_def)

lemma wait_quiet:
  assumes "file_env_ok (te_wait env)" and "\<forall>port. te_command env \<noteq> Some (RqPairStart port)" and "unpaired_host u"
  shows "unpaired_host (wait_here env u)"
proof (cases "te_command env")
  case (Some r)
  have "unpaired_host (take_command r u)"
    using assms(3) by (simp add: unpaired_host_def)
  then show ?thesis
    using Some assms handle_idle_quiet [of "te_wait env" r "take_command r u"]
    by (simp add: wait_here_def idle_wait_def)
qed (use assms(3) in \<open>simp add: wait_here_def idle_wait_def\<close>)

lemma wait_untouched: "untouched u (wait_here env u)"
  using handle_idle_untouched by (fastforce simp: wait_here_def idle_wait_def untouched_def split: option.split)

lemma wait_untouched' [simp]: "untouched u v \<Longrightarrow> untouched u (wait_here env v)"
  using wait_untouched untouched_trans by blast

lemma unconsented_turn:
  assumes "sup_turn cp env u = (res, v)" and "file_env_ok (te_file env)" "file_env_ok (te_wait env)"
    and "\<forall>port. te_command env \<noteq> Some (RqPairStart port)" and "unpaired_host u"
  shows "untouched u v \<and> unpaired_host v \<and> (res = SupGoing \<or> res = SupStopped)"
proof (cases "te_stopped env")
  case True
  then show ?thesis
    using assms(1,5) by (auto simp: sup_turn_def untouched_refl)
next
  case run: False
  note quiet = wait_quiet [OF assms(3,4)]
  show ?thesis
  proof (cases "pick_port cp (te_exists env) (te_candidates env) u")
    case PcNone
    have "unpaired_host (u\<lparr>su_pair := (su_pair u)\<lparr>pr_parked := None\<rparr>\<rparr>)"
      using assms(5) by (simp add: unpaired_host_def)
    then show ?thesis
      using assms(1) run PcNone by (auto simp: sup_turn_def untouched_refl quiet)
  next
    case PcAmbiguous
    then show ?thesis
      using assms(1,5) run by (auto simp: sup_turn_def untouched_refl quiet)
  next
    case (PcOne port)
    obtain r x where x: "load_identity (te_file env) u = (r, x)"
      by fastforce
    have un: "unpaired_host x" "\<And>i. r = Some i \<Longrightarrow> id_device i = None"
      using load_identity_unpaired [OF x assms(2,5)] by blast+
    have "try_port env port u = (res, v)"
      using assms(1) run PcOne by (simp add: sup_turn_def)
    then have "res = SupGoing \<and> (\<exists>y. v = wait_here env y \<and> unpaired_host y \<and> untouched u y)"
      using x un load_identity_untouched [OF x]
      by (cases r; cases "pr_parked (su_pair x) = Some port")
        (auto simp: try_port_def Let_def unpaired_host_def [of x] intro!: exI)
    then show ?thesis
      using quiet by auto
  qed
qed

text \<open>
  C8. No display is touched without consent. From any state of the supervisor in which no display is
  stored and pairing was not asked for, and over any turns in which no \<open>pair_start\<close> arrives, whatever
  ports appear, whatever is done to the identity file and whichever other commands come, no port is
  opened, not a byte is written to one, and no display becomes stored.
\<close>

theorem nothing_without_consent:
  assumes "sup_run config_port envs u = (res, v)"
    and "stored_device (su_file u) = None" and "\<not> pr_requested (su_pair u)"
    and "\<forall>env \<in> set envs. file_env_ok (te_file env) \<and> file_env_ok (te_wait env)
      \<and> (\<forall>port. te_command env \<noteq> Some (RqPairStart port))"
  shows "su_opened v = su_opened u \<and> su_written v = su_written u \<and> stored_device (su_file v) = None
    \<and> (res = SupGoing \<or> res = SupStopped)"
proof -
  have "sup_run config_port envs u = (res, v) \<Longrightarrow> unpaired_host u \<Longrightarrow>
      untouched u v \<and> unpaired_host v \<and> (res = SupGoing \<or> res = SupStopped)"
    using assms(4)
  proof (induction envs arbitrary: u)
    case (Cons env envs)
    obtain r x where x: "sup_turn config_port env u = (r, x)"
      by fastforce
    have t: "untouched u x \<and> unpaired_host x \<and> (r = SupGoing \<or> r = SupStopped)"
      using unconsented_turn [OF x] Cons.prems by simp
    show ?case
      using Cons x t untouched_trans by (cases "r = SupGoing") auto
  qed (simp add: untouched_refl)
  then show ?thesis
    using assms(1-3) by (simp add: unpaired_host_def untouched_def)
qed

theorem nothing_without_consent_witness:
  "\<exists>res v. sup_run None [sample_turn_env None, sample_turn_env (Some RqForget)] (supervisor_new sample_groups None) = (res, v)
     \<and> su_opened v = [] \<and> su_written v = []"
proof -
  let ?u = "supervisor_new sample_groups None" and ?envs = "[sample_turn_env None, sample_turn_env (Some RqForget)]"
  obtain res v where run: "sup_run None ?envs ?u = (res, v)"
    by fastforce
  have u: "stored_device (su_file ?u) = None" "\<not> pr_requested (su_pair ?u)" "su_opened ?u = []" "su_written ?u = []"
    by (simp_all add: supervisor_new_def stored_device_def stored_def)
  have "te_command (sample_turn_env c) = c" for c
    by (simp add: sample_turn_env_def)
  then have "\<forall>env \<in> set ?envs. file_env_ok (te_file env) \<and> file_env_ok (te_wait env)
      \<and> (\<forall>port. te_command env \<noteq> Some (RqPairStart port))"
    using sample_turn_env_ok by simp
  from nothing_without_consent [OF run u(1,2) this] run u(3,4) show ?thesis
    by auto
qed

section \<open>After a refusal\<close>

definition parked_at :: "string \<Rightarrow> supervisor \<Rightarrow> bool" where
  "parked_at p u \<longleftrightarrow> pr_parked (su_pair u) = Some p \<and> (pr_port (su_pair u) = None \<or> pr_port (su_pair u) = Some p)"

lemma parked_simps [simp]:
  "parked_at p (set_link st d q c u) = parked_at p u" "parked_at p (set_identity i u) = parked_at p u"
  by (simp_all add: parked_at_def)

lemma handle_idle_parked:
  "\<forall>q. r \<noteq> RqPairStart q \<Longrightarrow> r \<noteq> RqForget \<Longrightarrow> parked_at p u \<Longrightarrow> parked_at p (handle_idle env r (take_command r u))"
  by (cases r) (auto simp: handle_idle_def parked_at_def)

lemma parked_turn:
  assumes "sup_turn cp env u = (res, v)" and "parked_at p u" and "cp = None \<or> cp = Some p"
    and "te_exists env p" "te_candidates env = [p]"
    and "\<forall>q. te_command env \<noteq> Some (RqPairStart q)" "te_command env \<noteq> Some RqForget"
  shows "untouched u v \<and> parked_at p v \<and> (res = SupGoing \<or> res = SupStopped)"
proof (cases "te_stopped env")
  case True
  then show ?thesis
    using assms(1,2) by (auto simp: sup_turn_def untouched_refl)
next
  case run: False
  have wait: "parked_at p (wait_here env y)" if "parked_at p y" for y
    using that assms(6,7) handle_idle_parked by (auto simp: wait_here_def idle_wait_def split: option.split)
  obtain r x where x: "load_identity (te_file env) u = (r, x)"
    by fastforce
  have px: "parked_at p x" "untouched u x"
    using load_identity_untouched [OF x] assms(2) by (simp_all add: parked_at_def)
  have "pick_port cp (te_exists env) (te_candidates env) u = PcOne p"
    using assms(2-5) by (auto simp: pick_port_def parked_at_def)
  then have "try_port env p u = (res, v)"
    using assms(1) run by (simp add: sup_turn_def)
  then have "res = SupGoing \<and> (\<exists>y. v = wait_here env y \<and> parked_at p y \<and> untouched u y)"
    using x px by (cases r) (auto simp: try_port_def Let_def parked_at_def [of p x] intro!: exI)
  then show ?thesis
    using wait by auto
qed

text \<open>
  C11. A display that refused is left alone. Opening a port resets the board behind it, so after an
  attempt that ended in a refusal of any kind the supervisor does not open that port again, nor write
  to it, as long as it stays the one attached and the operator neither starts pairing nor forgets
  the display; other commands do not change that.
\<close>

theorem refused_port_is_left_alone:
  assumes "u = after_failed_connect env0 command io (LkRefused reason) p u0"
    and "pr_port (su_pair u0) = None \<or> pr_port (su_pair u0) = Some p" and "config_port = None \<or> config_port = Some p"
    and "\<forall>env \<in> set envs. te_exists env p \<and> te_candidates env = [p]
      \<and> (\<forall>q. te_command env \<noteq> Some (RqPairStart q)) \<and> te_command env \<noteq> Some RqForget"
    and "sup_run config_port envs u = (res, v)"
  shows "su_opened v = su_opened u0 \<and> su_written v = su_written u0 \<and> pr_parked (su_pair v) = Some p
    \<and> (res = SupGoing \<or> res = SupStopped)"
proof -
  have start: "parked_at p u" "untouched u0 u"
    using assms(1,2) by (auto simp: after_failed_connect_def Let_def parked_at_def untouched_def)
  have "sup_run config_port envs u = (res, v) \<Longrightarrow> parked_at p u \<Longrightarrow>
      untouched u v \<and> parked_at p v \<and> (res = SupGoing \<or> res = SupStopped)" for u
    using assms(4)
  proof (induction envs arbitrary: u)
    case (Cons env envs)
    obtain r x where x: "sup_turn config_port env u = (r, x)"
      by fastforce
    have t: "untouched u x \<and> parked_at p x \<and> (r = SupGoing \<or> r = SupStopped)"
      using parked_turn [OF x Cons.prems(2) assms(3)] Cons.prems(3) by simp
    show ?case
      using Cons x t untouched_trans by (cases "r = SupGoing") auto
  qed (simp add: untouched_refl)
  from this [OF assms(5) start(1)] start(2) show ?thesis
    by (simp add: untouched_def parked_at_def)
qed

theorem refused_port_is_left_alone_witness:
  "\<exists>res v. sup_run None [sample_turn_env None, sample_turn_env (Some RqPairCancel)]
      (after_failed_connect sample_file_env None ''no'' (LkRefused Declined) ''/dev/cu.usbserial-1''
        (supervisor_new sample_groups None)) = (res, v)
     \<and> su_opened v = [] \<and> pr_parked (su_pair v) = Some ''/dev/cu.usbserial-1''"
proof -
  let ?envs = "[sample_turn_env None, sample_turn_env (Some RqPairCancel)]" and ?p = "''/dev/cu.usbserial-1''"
  let ?u0 = "supervisor_new sample_groups None"
  obtain res v where run: "sup_run None ?envs (after_failed_connect sample_file_env None ''no'' (LkRefused Declined) ?p ?u0) = (res, v)"
    by fastforce
  have u0: "pr_port (su_pair ?u0) = None \<or> pr_port (su_pair ?u0) = Some ?p" "su_opened ?u0 = []"
    by (simp_all add: supervisor_new_def)
  have env: "\<forall>env \<in> set ?envs. te_exists env ?p \<and> te_candidates env = [?p]
      \<and> (\<forall>q. te_command env \<noteq> Some (RqPairStart q)) \<and> te_command env \<noteq> Some RqForget"
    by (simp add: sample_turn_env_def)
  from refused_port_is_left_alone [OF refl u0(1) _ env run] run u0(2) show ?thesis
    by auto
qed

end
