(* ===== verification/Line_Reader.thy ===== *)
theory Line_Reader
  imports Rust_Text
begin

text \<open>
  The bounded line reader of \<^verbatim>\<open>host/platform-macos/src/ipc.rs\<close> that both local sockets read
  through, one byte at a time, and that it cuts the lines out of the stream.
\<close>

section \<open>The reader\<close>

text \<open>\<open>MAX_CONSECUTIVE_BAD\<close>: bad lines in a row before a connection is dropped.\<close>

definition MAX_CONSECUTIVE_BAD :: nat where
  "MAX_CONSECUTIVE_BAD = 16"

datatype line_event = LePending | LeLine string | LeOverflowed | LeOversizedEnd

record line_reader =
  lr_max :: nat
  lr_line :: string
  lr_discarding :: bool

definition lr_new :: "nat \<Rightarrow> line_reader" where
  "lr_new bound = \<lparr>lr_max = bound, lr_line = [], lr_discarding = False\<rparr>"

definition lr_push :: "line_reader \<Rightarrow> char \<Rightarrow> line_event \<times> line_reader" where
  "lr_push r b =
     (if b = CHR 0x0A then
        if lr_discarding r then (LeOversizedEnd, r\<lparr>lr_discarding := False\<rparr>)
        else (LeLine (lr_line r), r\<lparr>lr_line := []\<rparr>)
      else if lr_discarding r then (LePending, r)
      else if lr_max r \<le> length (lr_line r) then (LeOverflowed, r\<lparr>lr_discarding := True, lr_line := []\<rparr>)
      else (LePending, r\<lparr>lr_line := lr_line r @ [b]\<rparr>))"

section \<open>Reading a stream\<close>

text \<open>The events of a stream, the uneventful bytes left out.\<close>

fun lr_run :: "line_reader \<Rightarrow> string \<Rightarrow> line_event list \<times> line_reader" where
  "lr_run r [] = ([], r)"
| "lr_run r (b # bs) =
     (let (e, r) = lr_push r b; (es, r) = lr_run r bs
      in (if e = LePending then es else e # es, r))"

lemma lr_run_append:
  "lr_run r (xs @ ys) =
     (let (es, r) = lr_run r xs; (es', r) = lr_run r ys in (es @ es', r))"
  by (induction xs arbitrary: r) (simp_all add: Let_def split: prod.split)

text \<open>What a reader can be in the middle of: a line within the bound, or the rest of one over it.\<close>

definition lr_ok :: "line_reader \<Rightarrow> bool" where
  "lr_ok r \<longleftrightarrow> length (lr_line r) \<le> lr_max r \<and> (lr_discarding r \<longrightarrow> lr_line r = [])"

lemma lr_new_ok [simp]: "lr_ok (lr_new bound)"
  by (simp add: lr_ok_def lr_new_def)

lemma lr_push_ok: "lr_ok r \<Longrightarrow> lr_push r b = (e, r') \<Longrightarrow> lr_ok r' \<and> lr_max r' = lr_max r"
  by (auto simp: lr_ok_def lr_push_def split: if_splits)

lemma lr_run_ok: "lr_ok r \<Longrightarrow> lr_run r bs = (es, r') \<Longrightarrow> lr_ok r' \<and> lr_max r' = lr_max r"
proof (induction bs arbitrary: r es)
  case (Cons b bs)
  obtain e s where b: "lr_push r b = (e, s)"
    by fastforce
  obtain es' where "lr_run s bs = (es', r')"
    using Cons.prems(2) b by (auto simp: Let_def split: prod.splits)
  then show ?case
    using Cons.IH [of s] lr_push_ok [OF Cons.prems(1) b] by auto
qed simp

text \<open>The lines of a stream by their newlines, and what the reader should say of each.\<close>

definition le_of :: "nat \<Rightarrow> string \<Rightarrow> line_event list" where
  "le_of bound l = (if length l \<le> bound then [LeLine l] else [LeOverflowed, LeOversizedEnd])"

lemma lr_run_discarding:
  "CHR 0x0A \<notin> set bs \<Longrightarrow> lr_discarding r \<Longrightarrow> lr_run r bs = ([], r)"
  by (induction bs arbitrary: r) (auto simp: lr_push_def Let_def)

lemma lr_run_short:
  "CHR 0x0A \<notin> set bs \<Longrightarrow> \<not> lr_discarding r \<Longrightarrow> length (lr_line r) + length bs \<le> lr_max r
   \<Longrightarrow> lr_run r bs = ([], r\<lparr>lr_line := lr_line r @ bs\<rparr>)"
  by (induction bs arbitrary: r) (auto simp: lr_push_def Let_def)

lemma lr_run_long:
  assumes "CHR 0x0A \<notin> set bs" and "\<not> lr_discarding r" and "length (lr_line r) \<le> lr_max r"
    and "lr_max r < length (lr_line r) + length bs"
  shows "lr_run r bs = ([LeOverflowed], r\<lparr>lr_discarding := True, lr_line := []\<rparr>)"
proof -
  define n where "n = lr_max r - length (lr_line r)"
  have n: "n < length bs"
    using assms(3,4) by (simp add: n_def)
  obtain b rest where rest: "drop n bs = b # rest"
    using n by (cases "drop n bs") auto
  have bs: "bs = take n bs @ b # rest"
    using rest append_take_drop_id [of n bs] by simp
  have no: "CHR 0x0A \<notin> set (take n bs)" "b \<noteq> CHR 0x0A" "CHR 0x0A \<notin> set rest"
    using assms(1) by (subst (asm) bs, auto)+
  have short: "lr_run r (take n bs) = ([], r\<lparr>lr_line := lr_line r @ take n bs\<rparr>)"
    using lr_run_short [OF no(1) assms(2)] n assms(3) by (simp add: n_def)
  have "lr_run (r\<lparr>lr_line := lr_line r @ take n bs\<rparr>) (b # rest)
      = ([LeOverflowed], r\<lparr>lr_discarding := True, lr_line := []\<rparr>)"
    using no(2) n assms(2,3)
    by (simp add: lr_push_def n_def lr_run_discarding [OF no(3)] Let_def)
  then show ?thesis
    by (subst bs, simp add: lr_run_append short Let_def)
qed

text \<open>One line and its newline, from a reader at the start of a line.\<close>

lemma lr_run_line:
  assumes "CHR 0x0A \<notin> set l"
  shows "lr_run (lr_new bound) (l @ [CHR 0x0A]) = (le_of bound l, lr_new bound)"
proof (cases "length l \<le> bound")
  case True
  then have "lr_run (lr_new bound) l = ([], (lr_new bound)\<lparr>lr_line := l\<rparr>)"
    using lr_run_short [OF assms, of "lr_new bound"] by (simp add: lr_new_def)
  then show ?thesis
    using True by (simp add: lr_run_append lr_push_def le_of_def lr_new_def)
next
  case False
  then have "lr_run (lr_new bound) l = ([LeOverflowed], (lr_new bound)\<lparr>lr_discarding := True\<rparr>)"
    using lr_run_long [OF assms, of "lr_new bound"] by (simp add: lr_new_def)
  then show ?thesis
    using False by (simp add: lr_run_append lr_push_def le_of_def lr_new_def)
qed

lemma lr_run_tail:
  assumes "CHR 0x0A \<notin> set l"
  shows "lr_run (lr_new bound) l =
    (if length l \<le> bound then ([], (lr_new bound)\<lparr>lr_line := l\<rparr>)
     else ([LeOverflowed], (lr_new bound)\<lparr>lr_discarding := True\<rparr>))"
  using lr_run_short [OF assms, of "lr_new bound"] lr_run_long [OF assms, of "lr_new bound"]
  by (simp add: lr_new_def)

lemma split_on_line:
  "CHR 0x0A \<notin> set l \<Longrightarrow> split_on CHR 0x0A (l @ CHR 0x0A # bs) = l # split_on CHR 0x0A bs"
  by (induction l) auto

lemma split_on_tail: "c \<notin> set l \<Longrightarrow> split_on c l = [l]"
  by (induction l) auto

lemma split_newlines_not_Nil: "split_on c s \<noteq> []"
  by (induction s) (auto split: list.splits)

text \<open>
  C30. The bounded reader finds exactly the lines. Of any stream of bytes it reports, in order,
  every piece between newlines that is within the bound, as it is; a longer piece is reported once
  as overflowed when it passes the bound and once as ended at its newline, and none of it as a
  line; what is buffered is the last, unfinished piece, never longer than the bound, and nothing of
  one that has passed it.
\<close>
theorem line_reader_finds_lines:
  "\<exists>ls l. split_on CHR 0x0A bs = ls @ [l]
     \<and> lr_run (lr_new bound) bs =
         (concat (map (le_of bound) ls) @ (if length l \<le> bound then [] else [LeOverflowed]),
          if length l \<le> bound then (lr_new bound)\<lparr>lr_line := l\<rparr> else (lr_new bound)\<lparr>lr_discarding := True\<rparr>)"
proof (induction "length bs" arbitrary: bs rule: less_induct)
  case less
  show ?case
  proof (cases "CHR 0x0A \<in> set bs")
    case False
    then show ?thesis
      using lr_run_tail [OF False, of bound] split_on_tail [OF False] by auto
  next
    case True
    then obtain p q where bs: "bs = p @ CHR 0x0A # q" and p: "CHR 0x0A \<notin> set p"
      by (meson split_list_first)
    obtain ls l where ih: "split_on CHR 0x0A q = ls @ [l]"
      "lr_run (lr_new bound) q =
         (concat (map (le_of bound) ls) @ (if length l \<le> bound then [] else [LeOverflowed]),
          if length l \<le> bound then (lr_new bound)\<lparr>lr_line := l\<rparr> else (lr_new bound)\<lparr>lr_discarding := True\<rparr>)"
      using less [of q] bs by auto
    have "lr_run (lr_new bound) bs = (let (es, r) = lr_run (lr_new bound) (p @ [CHR 0x0A]);
        (es', r) = lr_run r q in (es @ es', r))"
      using lr_run_append [of "lr_new bound" "p @ [CHR 0x0A]" q] bs by simp
    then have "lr_run (lr_new bound) bs =
       (concat (map (le_of bound) (p # ls)) @ (if length l \<le> bound then [] else [LeOverflowed]),
        if length l \<le> bound then (lr_new bound)\<lparr>lr_line := l\<rparr> else (lr_new bound)\<lparr>lr_discarding := True\<rparr>)"
      by (simp add: lr_run_line [OF p] Let_def prod.case_eq_if ih(2))
    moreover have "split_on CHR 0x0A bs = (p # ls) @ [l]"
      using split_on_line [OF p] ih(1) bs by simp
    ultimately show ?thesis
      by blast
  qed
qed

end
