(* ===== verification/Control_Socket.thy ===== *)
theory Control_Socket
  imports Control_Requests Line_Reader
begin

text \<open>
  The connections of the daemon's control socket, \<^verbatim>\<open>host/hostcore/src/control.rs\<close>. What the
  system answers (the bytes of a read, whether a write succeeded, the clock) and the handler are
  arguments; the counters are shared by all connections.
\<close>

section \<open>Counters\<close>

record control_stats =
  ctl_accepted :: u64
  ctl_requests :: u64
  ctl_wrong_uid :: u64
  ctl_malformed :: u64
  ctl_oversized :: u64
  ctl_bad_version :: u64
  ctl_unknown_command :: u64
  ctl_busy :: u64
  ctl_closed_for_bad_lines :: u64

definition control_stats_default :: control_stats where
  "control_stats_default = \<lparr>ctl_accepted = 0, ctl_requests = 0, ctl_wrong_uid = 0, ctl_malformed = 0,
     ctl_oversized = 0, ctl_bad_version = 0, ctl_unknown_command = 0, ctl_busy = 0,
     ctl_closed_for_bad_lines = 0\<rparr>"

section \<open>One connection\<close>

record connection =
  cn_lines :: line_reader
  cn_consecutive_bad :: u32
  cn_line_started :: nat

definition cn_new :: "nat \<Rightarrow> connection" where
  "cn_new now = \<lparr>cn_lines = lr_new MAX_REQUEST_BYTES, cn_consecutive_bad = 0, cn_line_started = now\<rparr>"

text \<open>What the environment answers when a byte ends a line.\<close>

record reply_env =
  re_handle :: "request \<Rightarrow> control_stats \<Rightarrow> string"
  re_written :: bool
  re_now :: nat

text \<open>
  The reply to a line (\<open>None\<close>: one over the bound), whether the connection is closed after it
  whatever happens, and the counters.
\<close>

definition bump_bad :: "connection \<Rightarrow> connection" where
  "bump_bad c = c\<lparr>cn_consecutive_bad := cn_consecutive_bad c + 1\<rparr>"

definition line_reply ::
    "reply_env \<Rightarrow> string option \<Rightarrow> connection \<Rightarrow> control_stats \<Rightarrow>
     (string \<times> bool \<times> connection \<times> control_stats, unit) res" where
  "line_reply env line c s =
     (case line of
        None \<Rightarrow> Ok (error_response ''oversized'' ''request line too long'', False, bump_bad c,
          s\<lparr>ctl_oversized := ctl_oversized s + 1\<rparr>)
      | Some line \<Rightarrow>
          (case parse_request line of
             Panic \<Rightarrow> Panic
           | Ok request \<Rightarrow>
               let s = s\<lparr>ctl_requests := ctl_requests s + 1\<rparr>;
                   response = re_handle env request s
               in Ok (if MAX_RESPONSE_BYTES < length response
                      then error_response ''response_too_large'' ''response too large'' else response,
                      False, c\<lparr>cn_consecutive_bad := 0\<rparr>, s)
           | Err e \<Rightarrow>
               (case e of
                  ReBadVersion \<Rightarrow> Ok (error_response ''unsupported_version'' ''only v1 is supported'', True, c,
                    s\<lparr>ctl_bad_version := ctl_bad_version s + 1\<rparr>)
                | ReUnknownCommand \<Rightarrow> Ok (error_response ''unknown_command'' ''no such command'', False,
                    bump_bad c, s\<lparr>ctl_unknown_command := ctl_unknown_command s + 1\<rparr>)
                | ReTooLong \<Rightarrow> Ok (error_response ''oversized'' ''request line too long'', False,
                    bump_bad c, s\<lparr>ctl_oversized := ctl_oversized s + 1\<rparr>)
                | ReMalformed \<Rightarrow> Ok (error_response ''malformed'' ''not a valid request'', False,
                    bump_bad c, s\<lparr>ctl_malformed := ctl_malformed s + 1\<rparr>))))"

text \<open>
  The rest of the loop's body for such a line: the reply is written with its newline, the next
  line's clock starts, and a broken peer is closed. The result is what was written and whether the
  connection ends.
\<close>

definition answer ::
    "reply_env \<Rightarrow> string option \<Rightarrow> connection \<Rightarrow> control_stats \<Rightarrow>
     (string \<times> bool \<times> connection \<times> control_stats, unit) res" where
  "answer env line c s =
     and_then (line_reply env line c s) (\<lambda>(reply, closes, c, s).
       if closes \<or> \<not> re_written env then Ok (reply @ [CHR 0x0A], True, c, s)
       else
         let c = c\<lparr>cn_line_started := re_now env\<rparr>
         in if MAX_CONSECUTIVE_BAD \<le> unat (cn_consecutive_bad c)
            then Ok (reply @ [CHR 0x0A], True, c, s\<lparr>ctl_closed_for_bad_lines := ctl_closed_for_bad_lines s + 1\<rparr>)
            else Ok (reply @ [CHR 0x0A], False, c, s))"

fun serve_bytes ::
    "(char \<times> reply_env) list \<Rightarrow> connection \<Rightarrow> control_stats \<Rightarrow>
     (string list \<times> bool \<times> connection \<times> control_stats, unit) res" where
  "serve_bytes [] c s = Ok ([], False, c, s)"
| "serve_bytes ((b, env) # bs) c s =
     (let (event, lines) = lr_push (cn_lines c) b; c = c\<lparr>cn_lines := lines\<rparr>;
          reply = (\<lambda>line. and_then (answer env line c s) (\<lambda>(reply, closed, c, s).
            if closed then Ok ([reply], True, c, s)
            else and_then (serve_bytes bs c s) (\<lambda>(replies, closed, c, s). Ok (reply # replies, closed, c, s))))
      in case event of
           LePending \<Rightarrow> serve_bytes bs c s
         | LeOverflowed \<Rightarrow> serve_bytes bs c s
         | LeOversizedEnd \<Rightarrow> reply None
         | LeLine line \<Rightarrow> reply (Some line))"

datatype read_result = RdEof | RdBytes "(char \<times> reply_env) list" | RdWait | RdError

text \<open>The loop, over the stop flag, the clock and the answer of each read.\<close>

fun serve_connection ::
    "nat \<Rightarrow> (bool \<times> nat \<times> read_result) list \<Rightarrow> connection \<Rightarrow> control_stats \<Rightarrow>
     (string list \<times> bool \<times> connection \<times> control_stats, unit) res" where
  "serve_connection line_deadline [] c s = Ok ([], False, c, s)"
| "serve_connection line_deadline ((stop, now, read) # reads) c s =
     (if stop \<or> line_deadline \<le> now - cn_line_started c then Ok ([], True, c, s)
      else (case read of
          RdEof \<Rightarrow> Ok ([], True, c, s)
        | RdError \<Rightarrow> Ok ([], True, c, s)
        | RdWait \<Rightarrow> serve_connection line_deadline reads c s
        | RdBytes bs \<Rightarrow> and_then (serve_bytes bs c s) (\<lambda>(replies, closed, c, s).
            if closed then Ok (replies, True, c, s)
            else and_then (serve_connection line_deadline reads c s) (\<lambda>(replies', closed, c, s).
              Ok (replies @ replies', closed, c, s)))))"

section \<open>Accepting connections\<close>

definition MAX_CONNECTIONS :: nat where
  "MAX_CONNECTIONS = 8"

text \<open>\<open>cs_workers\<close> is the number of connection threads that have not ended.\<close>

record control_server =
  cs_stats :: control_stats
  cs_active :: u64
  cs_workers :: nat

definition cs_new :: control_server where
  "cs_new = \<lparr>cs_stats = control_stats_default, cs_active = 0, cs_workers = 0\<rparr>"

text \<open>A connection from a peer, with whether a thread could be created for it.\<close>

definition accept_peer :: "u32 \<Rightarrow> u32 option \<Rightarrow> bool \<Rightarrow> control_server \<Rightarrow> control_server" where
  "accept_peer expected_uid peer spawned v =
     (let s = cs_stats v in
      if peer \<noteq> Some expected_uid then v\<lparr>cs_stats := s\<lparr>ctl_wrong_uid := ctl_wrong_uid s + 1\<rparr>\<rparr>
      else if MAX_CONNECTIONS \<le> unat (cs_active v) then v\<lparr>cs_stats := s\<lparr>ctl_busy := ctl_busy s + 1\<rparr>\<rparr>
      else v\<lparr>cs_stats := s\<lparr>ctl_accepted := ctl_accepted s + 1\<rparr>, cs_active := cs_active v + 1,
             cs_workers := cs_workers v + (if spawned then 1 else 0)\<rparr>)"

text \<open>A connection thread ends.\<close>

definition worker_ends :: "control_server \<Rightarrow> control_server" where
  "worker_ends v = v\<lparr>cs_active := cs_active v - 1, cs_workers := cs_workers v - 1\<rparr>"

section \<open>What a connection keeps\<close>

text \<open>The counters of lines.\<close>

definition tally :: "control_stats \<Rightarrow> u64" where
  "tally s = ctl_requests s + ctl_oversized s + ctl_bad_version s + ctl_unknown_command s + ctl_malformed s"

definition conn_ok :: "connection \<Rightarrow> bool" where
  "conn_ok c \<longleftrightarrow> lr_ok (cn_lines c) \<and> lr_max (cn_lines c) = MAX_REQUEST_BYTES
     \<and> unat (cn_consecutive_bad c) < MAX_CONSECUTIVE_BAD"

definition env_ok :: "reply_env \<Rightarrow> bool" where
  "env_ok env \<longleftrightarrow> (\<forall>request s. printable (re_handle env request s))"

definition reply_ok :: "string \<Rightarrow> bool" where
  "reply_ok reply \<longleftrightarrow> (\<exists>t. reply = t @ [CHR 0x0A] \<and> printable t \<and> length t \<le> MAX_RESPONSE_BYTES)"

lemma error_response_short:
  "length code \<le> 100 \<Longrightarrow> length message \<le> 100 \<Longrightarrow> length (error_response code message) \<le> MAX_RESPONSE_BYTES"
proof -
  have e: "length (json_escape c) \<le> 6" for c
    by (simp add: json_escape_def)
  have "length (json_string t) \<le> 6 * length t + 2" for t
  proof (induction t)
    case (Cons c t)
    then show ?case
      using e [of c] by (simp add: json_string_def)
  qed (simp add: json_string_def)
  from this [of code] this [of message]
  show "length code \<le> 100 \<Longrightarrow> length message \<le> 100 \<Longrightarrow> ?thesis"
    using version_text by (simp add: error_response_def MAX_RESPONSE_BYTES_def)
qed

lemma line_reply_total:
  obtains reply closes c' s' where "line_reply env line c s = Ok (reply, closes, c', s')"
  using parse_request_not_Panic
  by (cases "line_reply env line c s")
    (auto simp: line_reply_def Let_def split: option.splits res.splits request_error.splits)

lemma line_reply_ok:
  assumes "line_reply env line c s = Ok (reply, closes, c', s')" and "env_ok env"
  shows "printable reply" and "length reply \<le> MAX_RESPONSE_BYTES" and "tally s' = tally s + 1"
    and "cn_lines c' = cn_lines c"
    and "cn_consecutive_bad c' = cn_consecutive_bad c + 1 \<or> cn_consecutive_bad c' = cn_consecutive_bad c \<and> closes
      \<or> cn_consecutive_bad c' = 0"
  using assms
  by (auto simp: line_reply_def tally_def Let_def env_ok_def bump_bad_def error_response_short
      printables split: option.splits res.splits request_error.splits if_splits)

lemma answer_total:
  obtains reply closed c' s' where "answer env line c s = Ok (reply, closed, c', s')"
proof -
  obtain reply closes d u where "line_reply env line c s = Ok (reply, closes, d, u)"
    by (rule line_reply_total)
  then show thesis
    using that by (fastforce simp: answer_def Let_def)
qed

lemma answer_ok:
  assumes "answer env line c s = Ok (reply, closed, c', s')" and "conn_ok c" and "env_ok env"
  shows "reply_ok reply \<and> tally s' = tally s + 1 \<and> cn_lines c' = cn_lines c \<and> (\<not> closed \<longrightarrow> conn_ok c')"
proof -
  obtain t closes d u where r: "line_reply env line c s = Ok (t, closes, d, u)"
    by (rule line_reply_total)
  note ok = line_reply_ok [OF r assms(3)]
  have "unat (cn_consecutive_bad c + 1) \<le> 16"
    using assms(2) by (simp add: conn_ok_def MAX_CONSECUTIVE_BAD_def unat_word_ariths)
  moreover have "reply = t @ [CHR 0x0A]"
    using assms(1) r by (auto simp: answer_def Let_def split: if_splits)
  ultimately show ?thesis
    using assms(1,2) r ok
    by (auto simp: answer_def Let_def reply_ok_def tally_def conn_ok_def MAX_CONSECUTIVE_BAD_def split: if_splits)
qed

definition newlines :: "string \<Rightarrow> nat" where
  "newlines bs = count_list bs CHR 0x0A"

text \<open>The end of a run of bytes: how it left the connection and what it wrote.\<close>

definition served ::
    "control_stats \<Rightarrow> string \<Rightarrow> string list \<times> bool \<times> connection \<times> control_stats \<Rightarrow> bool" where
  "served s bs out \<longleftrightarrow> (case out of (replies, closed, c', s') \<Rightarrow>
     list_all reply_ok replies \<and> tally s' = tally s + of_nat (length replies)
     \<and> length replies \<le> newlines bs
     \<and> length (lr_line (cn_lines c')) \<le> MAX_REQUEST_BYTES
     \<and> (\<not> closed \<longrightarrow> conn_ok c' \<and> length replies = newlines bs))"

lemma lr_push_event:
  "lr_push r b = (e, r') \<Longrightarrow> (b = CHR 0x0A) = (e = LeOversizedEnd \<or> (\<exists>l. e = LeLine l))"
  by (auto simp: lr_push_def split: if_splits)

lemma serve_bytes_ok:
  "conn_ok c \<Longrightarrow> list_all (\<lambda>(b, env). env_ok env) bs \<Longrightarrow>
   \<exists>out. serve_bytes bs c s = Ok out \<and> served s (map fst bs) out"
proof (induction bs arbitrary: c s)
  case Nil
  then show ?case
    by (simp add: served_def newlines_def conn_ok_def lr_ok_def)
next
  case (Cons x bs)
  obtain b env where x: "x = (b, env)"
    by (cases x)
  obtain e lines where push: "lr_push (cn_lines c) b = (e, lines)"
    by fastforce
  let ?c = "c\<lparr>cn_lines := lines\<rparr>"
  have c: "conn_ok ?c" and env: "env_ok env" "list_all (\<lambda>(b, env). env_ok env) bs"
    using Cons.prems lr_push_ok [OF _ push] by (simp_all add: conn_ok_def x)
  show ?case
  proof (cases "b = CHR 0x0A")
    case False
    then have "serve_bytes (x # bs) c s = serve_bytes bs ?c s"
      using push lr_push_event [OF push] by (cases e) (auto simp: x)
    then show ?thesis
      using Cons.IH [OF c env(2), of s] False by (simp add: x served_def newlines_def)
  next
    case True
    then obtain line where line: "serve_bytes (x # bs) c s =
        and_then (answer env line ?c s) (\<lambda>(reply, closed, c, s).
            if closed then Ok ([reply], True, c, s)
            else and_then (serve_bytes bs c s) (\<lambda>(replies, closed, c, s). Ok (reply # replies, closed, c, s)))"
      using push lr_push_event [OF push] by (cases e) (auto simp: x)
    obtain reply closed d u where a: "answer env line ?c s = Ok (reply, closed, d, u)"
      by (rule answer_total)
    note ok = answer_ok [OF a c env(1)]
    show ?thesis
    proof (cases closed)
      case True
      then show ?thesis
        using line a ok c \<open>b = CHR 0x0A\<close>
        by (simp add: served_def newlines_def x conn_ok_def lr_ok_def)
    next
      case False
      then obtain replies cl d' u' where "serve_bytes bs d u = Ok (replies, cl, d', u')"
        "served u (map fst bs) (replies, cl, d', u')"
        using Cons.IH [of d u] ok env(2) by (metis prod_cases4)
      then show ?thesis
        using line a ok False \<open>b = CHR 0x0A\<close> by (simp add: served_def newlines_def x)
    qed
  qed
qed

definition bytes_of :: "read_result \<Rightarrow> (char \<times> reply_env) list" where
  "bytes_of read = (case read of RdBytes bs \<Rightarrow> bs | _ \<Rightarrow> [])"

definition read_bytes :: "(bool \<times> nat \<times> read_result) list \<Rightarrow> (char \<times> reply_env) list" where
  "read_bytes reads = concat (map (\<lambda>(stop, now, read). bytes_of read) reads)"

lemma newlines_append [simp]: "newlines (xs @ ys) = newlines xs + newlines ys"
  by (simp add: newlines_def)

lemma serve_connection_ok:
  "conn_ok c \<Longrightarrow> list_all (\<lambda>(b, env). env_ok env) (read_bytes reads) \<Longrightarrow>
   \<exists>out. serve_connection dl reads c s = Ok out \<and> served s (map fst (read_bytes reads)) out"
proof (induction reads arbitrary: c s)
  case Nil
  then show ?case
    by (simp add: served_def newlines_def conn_ok_def lr_ok_def read_bytes_def)
next
  case (Cons x reads)
  obtain stop now read where x: "x = (stop, now, read)"
    by (cases x)
  have ended: "served s bs ([], True, c, s)" for bs
    using Cons.prems(1) by (simp add: served_def conn_ok_def lr_ok_def)
  have rest: "read_bytes ((stop', now', read') # reads) = bytes_of read' @ read_bytes reads" for stop' now' read'
    by (simp add: read_bytes_def)
  have envs: "list_all (\<lambda>(b, env). env_ok env) (bytes_of read)"
    "list_all (\<lambda>(b, env). env_ok env) (read_bytes reads)"
    using Cons.prems(2) by (simp_all add: rest x)
  show ?case
  proof (cases "stop \<or> dl \<le> now - cn_line_started c")
    case True
    then show ?thesis
      using ended by (simp add: x)
  next
    case going: False
    show ?thesis
    proof (cases read)
      case (RdBytes bs)
      obtain r1 cl1 d u where b: "serve_bytes bs c s = Ok (r1, cl1, d, u)"
        "served s (map fst bs) (r1, cl1, d, u)"
        using serve_bytes_ok [OF Cons.prems(1), of bs s] envs(1) by (auto simp: RdBytes bytes_of_def)
      show ?thesis
      proof (cases cl1)
        case True
        then show ?thesis
          using going b by (simp add: x RdBytes rest bytes_of_def served_def)
      next
        case False
        then have "conn_ok d"
          using b(2) by (simp add: served_def)
        then obtain r2 cl2 d' u' where "serve_connection dl reads d u = Ok (r2, cl2, d', u')"
          "served u (map fst (read_bytes reads)) (r2, cl2, d', u')"
          using Cons.IH [of d u] envs(2) by (metis prod_cases4)
        then show ?thesis
          using going b False by (simp add: x RdBytes rest bytes_of_def served_def)
      qed
    next
      case RdWait
      then show ?thesis
        using going Cons.IH [OF Cons.prems(1) envs(2), of s] by (simp add: x rest bytes_of_def)
    qed (use going ended in \<open>simp_all add: x\<close>)
  qed
qed

text \<open>
  A client of the control socket is answered line for line, within bounds. Whatever bytes
  arrive in whatever reads, a connection never panics; it writes one reply, of one line of at most
  8192 bytes, to each line that was ended while it was open, and counts that line under exactly one
  of five counters; it buffers at most one request of 512 bytes; and it stays open only while fewer
  than sixteen bad lines came in a row.
\<close>
theorem control_lines_are_answered:
  assumes "\<forall>(b, env) \<in> set (read_bytes reads). \<forall>request s. printable (re_handle env request s)"
  shows "\<exists>replies closed c s'. serve_connection line_deadline reads (cn_new t) s = Ok (replies, closed, c, s')
    \<and> (\<forall>reply \<in> set replies. \<exists>l. reply = l @ [CHR 0x0A] \<and> CHR 0x0A \<notin> set l \<and> length l \<le> 8192)
    \<and> tally s' = tally s + of_nat (length replies)
    \<and> length replies \<le> newlines (map fst (read_bytes reads))
    \<and> length (lr_line (cn_lines c)) \<le> 512
    \<and> (\<not> closed \<longrightarrow> length replies = newlines (map fst (read_bytes reads))
         \<and> unat (cn_consecutive_bad c) < 16)"
proof -
  have new: "conn_ok (cn_new t)"
    by (simp add: conn_ok_def cn_new_def MAX_CONSECUTIVE_BAD_def) (simp add: lr_new_def)
  have "list_all (\<lambda>(b, env). env_ok env) (read_bytes reads)"
    using assms by (fastforce simp: list_all_iff env_ok_def)
  then obtain replies closed c s' where
    out: "serve_connection line_deadline reads (cn_new t) s = Ok (replies, closed, c, s')"
      "served s (map fst (read_bytes reads)) (replies, closed, c, s')"
    using serve_connection_ok [OF new, of reads line_deadline s] by auto
  have "\<exists>l. reply = l @ [CHR 0x0A] \<and> CHR 0x0A \<notin> set l \<and> length l \<le> 8192" if "reply_ok reply" for reply
    using that by (fastforce simp: reply_ok_def printable_def MAX_RESPONSE_BYTES_def byte_def)
  then show ?thesis
    using out by (auto simp: served_def list_all_iff conn_ok_def MAX_CONSECUTIVE_BAD_def
        MAX_REQUEST_BYTES_def MAX_LINE_BYTES_def)
qed

definition sample_env :: reply_env where
  "sample_env = \<lparr>re_handle = (\<lambda>request s. ok_response ''stop'' None), re_written = True, re_now = 5\<rparr>"

theorem control_lines_are_answered_witness:
  "\<exists>replies closed c s'. serve_connection 10
      [(False, 0, RdBytes (map (\<lambda>b. (b, sample_env)) (''x'' @ [CHR 0x0A, CHR 0x0A]))), (False, 1, RdWait)]
      (cn_new 0) control_stats_default = Ok (replies, closed, c, s')
    \<and> length replies \<le> 2 \<and> tally s' = tally control_stats_default + of_nat (length replies)"
proof -
  let ?reads = "[(False, 0, RdBytes (map (\<lambda>b. (b, sample_env)) (''x'' @ [CHR 0x0A, CHR 0x0A]))), (False, 1, RdWait)]
    :: (bool \<times> nat \<times> read_result) list"
  have env: "\<forall>(b, env) \<in> set (read_bytes ?reads). \<forall>request s. printable (re_handle env request s)"
    by (simp add: read_bytes_def bytes_of_def sample_env_def printables)
  have "newlines (map fst (read_bytes ?reads)) = 2"
    by (simp add: read_bytes_def bytes_of_def newlines_def)
  then show ?thesis
    using control_lines_are_answered [OF env, of 10 0 control_stats_default] by metis
qed

section \<open>The slots of the server\<close>

datatype server_event = Arrives "u32 option" bool | WorkerEnds

fun server_step :: "u32 \<Rightarrow> server_event \<Rightarrow> control_server \<Rightarrow> control_server" where
  "server_step expected_uid (Arrives peer spawned) v = accept_peer expected_uid peer spawned v"
| "server_step expected_uid WorkerEnds v = (if cs_workers v = 0 then v else worker_ends v)"

text \<open>How many connections got no thread while a slot was taken for them.\<close>

fun lost_slots :: "u32 \<Rightarrow> server_event list \<Rightarrow> control_server \<Rightarrow> nat" where
  "lost_slots expected_uid [] v = 0"
| "lost_slots expected_uid (e # es) v =
     (case e of
        Arrives peer spawned \<Rightarrow>
          if peer = Some expected_uid \<and> unat (cs_active v) < MAX_CONNECTIONS \<and> \<not> spawned then 1 else 0
      | WorkerEnds \<Rightarrow> 0) + lost_slots expected_uid es (server_step expected_uid e v)"

lemma server_slots:
  assumes "unat (cs_active v) = cs_workers v + k" and "cs_workers v + k \<le> MAX_CONNECTIONS"
  shows "unat (cs_active (fold (server_step uid) es v))
      = cs_workers (fold (server_step uid) es v) + k + lost_slots uid es v
    \<and> unat (cs_active (fold (server_step uid) es v)) \<le> MAX_CONNECTIONS"
  using assms
proof (induction es arbitrary: v k)
  case (Cons e es)
  show ?case
  proof (cases e)
    case (Arrives peer spawned)
    let ?n = "if peer = Some uid \<and> unat (cs_active v) < MAX_CONNECTIONS \<and> \<not> spawned then 1 else 0 :: nat"
    have "unat (cs_active (server_step uid e v)) = cs_workers (server_step uid e v) + (k + ?n)
        \<and> cs_workers (server_step uid e v) + (k + ?n) \<le> MAX_CONNECTIONS"
      using Cons.prems
      by (auto simp: Arrives accept_peer_def Let_def MAX_CONNECTIONS_def unat_word_ariths)
    then show ?thesis
      using Cons.IH [of "server_step uid e v" "k + ?n"] by (simp add: Arrives add.assoc)
  next
    case WorkerEnds
    have "unat (cs_active (server_step uid e v)) = cs_workers (server_step uid e v) + k
        \<and> cs_workers (server_step uid e v) + k \<le> MAX_CONNECTIONS"
    proof (cases "cs_workers v = 0")
      case False
      then have "1 \<le> cs_active v"
        using Cons.prems(1) by (simp add: word_le_nat_alt)
      then have "unat (cs_active v - 1) = unat (cs_active v) - 1"
        by (simp add: unat_sub)
      then show ?thesis
        using Cons.prems False by (simp add: WorkerEnds worker_ends_def)
    qed (use Cons.prems in \<open>simp_all add: WorkerEnds\<close>)
    then show ?thesis
      using Cons.IH [of "server_step uid e v" k] by (simp add: WorkerEnds)
  qed
qed simp

text \<open>
  C29. The daemon never runs more than eight control connections, and a connection that got no
  thread holds its slot for good. In every run of the server the slots taken are the connection
  threads still running and, besides, one for every connection whose thread could not be created:
  after eight of those every later connection is refused as busy with no thread running at all.
\<close>
theorem control_slots:
  "let v = fold (server_step uid) es cs_new in
     cs_workers v \<le> 8
     \<and> unat (cs_active v) = cs_workers v + lost_slots uid es cs_new
     \<and> (lost_slots uid es cs_new = 8 \<longrightarrow> cs_workers v = 0
          \<and> accept_peer uid (Some uid) True v
            = v\<lparr>cs_stats := (cs_stats v)\<lparr>ctl_busy := ctl_busy (cs_stats v) + 1\<rparr>\<rparr>)"
  using server_slots [of cs_new 0 uid es]
  by (simp add: cs_new_def MAX_CONNECTIONS_def accept_peer_def Let_def)

lemma lost_slots_replicate:
  "unat (cs_active v) + n \<le> 8 \<Longrightarrow> lost_slots uid (replicate n (Arrives (Some uid) False)) v = n"
proof (induction n arbitrary: v)
  case (Suc n)
  have "unat (cs_active v + 1) = unat (cs_active v) + 1"
    using Suc.prems by (simp add: unat_word_ariths)
  then show ?case
    using Suc.IH [of "server_step uid (Arrives (Some uid) False) v"] Suc.prems
    by (simp add: accept_peer_def MAX_CONNECTIONS_def Let_def)
qed simp

theorem control_slots_witness:
  "cs_workers (fold (server_step 501) (replicate 8 (Arrives (Some 501) False)) cs_new) = 0"
proof -
  have "lost_slots 501 (replicate 8 (Arrives (Some 501) False)) cs_new = 8"
    by (rule lost_slots_replicate) (simp add: cs_new_def)
  then show ?thesis
    using control_slots [of 501 "replicate 8 (Arrives (Some 501) False)"] unfolding Let_def by blast
qed

end
