(* ===== verification/Provider_Socket.thy ===== *)
theory Provider_Socket
  imports Wifi_Context Line_Reader
begin

text \<open>
  The daemon's side of the Wi-Fi context provider socket,
  \<^verbatim>\<open>host/platform-macos/src/wifi_context_server.rs\<close>: one provider at a time, the newest
  connection replacing the one before. Instants are nanoseconds, as \<open>Instant\<close> compares them; what
  the system answers is an argument.
\<close>

section \<open>A provider's connection\<close>

definition MAX_MESSAGES_PER_SECOND :: nat where
  "MAX_MESSAGES_PER_SECOND = 20"

definition one_second :: nat where
  "one_second = 1000000000"

record provider_stats =
  pst_accepted :: u64
  pst_replaced :: u64
  pst_wrong_uid :: u64
  pst_malformed :: u64
  pst_oversized :: u64
  pst_out_of_order :: u64
  pst_rate_limited :: u64
  pst_bad_version :: u64
  pst_closed_for_bad_lines :: u64
  pst_applied :: u64

record provider_conn =
  pc_lines :: line_reader
  pc_hello_seen :: bool
  pc_last_seq :: "u64 option"
  pc_last_t_ms :: u64
  pc_consecutive_bad :: u32
  pc_recent :: "nat list"

definition pc_new :: provider_conn where
  "pc_new = \<lparr>pc_lines = lr_new MAX_LINE_BYTES, pc_hello_seen = False, pc_last_seq = None,
     pc_last_t_ms = 0, pc_consecutive_bad = 0, pc_recent = []\<rparr>"

datatype verdict = Keep | Close

text \<open>What the handling of a line reads from outside: the instant, the collector's clock, and
  whether the acknowledgement could be written.\<close>

record line_env =
  le_now :: nat
  le_now_ms :: u64
  le_written :: bool

text \<open>What became of a line.\<close>

datatype line_outcome = LoBlank | LoRateLimited | LoBadVersion | LoMalformed | LoOutOfOrder
  | LoApplied provider_message

type_synonym line_result = "verdict \<times> line_outcome \<times> provider_conn \<times> context_tracker \<times> provider_stats"

definition bad_line :: "provider_conn \<Rightarrow> provider_stats \<Rightarrow> verdict \<times> provider_conn \<times> provider_stats" where
  "bad_line c s =
     (let c = c\<lparr>pc_consecutive_bad := pc_consecutive_bad c + 1\<rparr>
      in if MAX_CONSECUTIVE_BAD \<le> unat (pc_consecutive_bad c)
         then (Close, c, s\<lparr>pst_closed_for_bad_lines := pst_closed_for_bad_lines s + 1\<rparr>)
         else (Keep, c, s))"

fun ordered :: "provider_conn \<Rightarrow> provider_message \<Rightarrow> bool" where
  "ordered c (PmHello provider version) = True"
| "ordered c (PmPermissionStatus seq status) = (case pc_last_seq c of None \<Rightarrow> True | Some l \<Rightarrow> l < seq)"
| "ordered c (PmContext seq t_ms age_ms context) =
     ((case pc_last_seq c of None \<Rightarrow> True | Some l \<Rightarrow> l < seq) \<and> pc_last_t_ms c \<le> t_ms)"

fun is_hello :: "provider_message \<Rightarrow> bool" where
  "is_hello (PmHello provider version) = True"
| "is_hello (PmPermissionStatus seq status) = False"
| "is_hello (PmContext seq t_ms age_ms context) = False"

text \<open>A message in its place reaches the tracker.\<close>

fun apply_message ::
    "line_env \<Rightarrow> provider_message \<Rightarrow> provider_conn \<Rightarrow> context_tracker \<Rightarrow> provider_stats
     \<Rightarrow> verdict \<times> provider_conn \<times> context_tracker \<times> provider_stats" where
  "apply_message env (PmHello provider version) c t s =
     (if le_written env then Keep else Close, c\<lparr>pc_hello_seen := True\<rparr>, on_connected t, s)"
| "apply_message env (PmPermissionStatus seq status) c t s =
     (Keep, c\<lparr>pc_last_seq := Some seq\<rparr>, on_permission status t, s\<lparr>pst_applied := pst_applied s + 1\<rparr>)"
| "apply_message env (PmContext seq t_ms age_ms context) c t s =
     (Keep, c\<lparr>pc_last_seq := Some seq, pc_last_t_ms := t_ms\<rparr>, on_context context age_ms (le_now_ms env) t,
      s\<lparr>pst_applied := pst_applied s + 1\<rparr>)"

text \<open>A parsed message, with its place checked.\<close>

definition take_message ::
    "line_env \<Rightarrow> provider_message \<Rightarrow> provider_conn \<Rightarrow> context_tracker \<Rightarrow> provider_stats \<Rightarrow> line_result" where
  "take_message env message c t s =
     (if is_hello message = pc_hello_seen c then
        let (v, c, s) = bad_line c (s\<lparr>pst_malformed := pst_malformed s + 1\<rparr>) in (v, LoMalformed, c, t, s)
      else if \<not> ordered c message then
        let (v, c, s) = bad_line c (s\<lparr>pst_out_of_order := pst_out_of_order s + 1\<rparr>) in (v, LoOutOfOrder, c, t, s)
      else
        let (v, c, t, s) = apply_message env message (c\<lparr>pc_consecutive_bad := 0\<rparr>) t s
        in (v, LoApplied message, c, t, s))"

definition handle_line ::
    "line_env \<Rightarrow> string \<Rightarrow> provider_conn \<Rightarrow> context_tracker \<Rightarrow> provider_stats \<Rightarrow> (line_result, unit) res" where
  "handle_line env line c t s =
     (let c = c\<lparr>pc_recent := dropWhile (\<lambda>at'. one_second \<le> le_now env - at') (pc_recent c)\<rparr>
      in if MAX_MESSAGES_PER_SECOND \<le> length (pc_recent c)
         then Ok (Keep, LoRateLimited, c, t, s\<lparr>pst_rate_limited := pst_rate_limited s + 1\<rparr>)
         else
           let c = c\<lparr>pc_recent := pc_recent c @ [le_now env]\<rparr>
           in (case parse_provider_message line of
                 Panic \<Rightarrow> Panic
               | Ok message \<Rightarrow> Ok (take_message env message c t s)
               | Err e \<Rightarrow>
                   if e = MeBadVersion
                   then Ok (Close, LoBadVersion, c, t, s\<lparr>pst_bad_version := pst_bad_version s + 1\<rparr>)
                   else let (v, c, s) = bad_line c (s\<lparr>pst_malformed := pst_malformed s + 1\<rparr>)
                        in Ok (v, LoMalformed, c, t, s)))"

text \<open>One byte; the outcome is of the line it ended.\<close>

definition feed ::
    "line_env \<Rightarrow> char \<Rightarrow> provider_conn \<Rightarrow> context_tracker \<Rightarrow> provider_stats \<Rightarrow> (line_result, unit) res" where
  "feed env b c t s =
     (let (event, lines) = lr_push (pc_lines c) b; c = c\<lparr>pc_lines := lines\<rparr>
      in case event of
           LePending \<Rightarrow> Ok (Keep, LoBlank, c, t, s)
         | LeOversizedEnd \<Rightarrow> Ok (Keep, LoBlank, c, t, s)
         | LeOverflowed \<Rightarrow>
             let (v, c, s) = bad_line c (s\<lparr>pst_oversized := pst_oversized s + 1\<rparr>) in Ok (v, LoBlank, c, t, s)
         | LeLine line \<Rightarrow> if line = [] then Ok (Keep, LoBlank, c, t, s) else handle_line env line c t s)"

section \<open>The server\<close>

record provider_server =
  psv_current :: "provider_conn option"
  psv_tracker :: context_tracker
  psv_stats :: provider_stats

definition close_conn :: "provider_conn \<Rightarrow> context_tracker \<Rightarrow> context_tracker" where
  "close_conn c t = (if pc_hello_seen c then on_disconnected t else t)"

definition close_current :: "provider_server \<Rightarrow> provider_server" where
  "close_current v = (case psv_current v of
      None \<Rightarrow> v
    | Some c \<Rightarrow> v\<lparr>psv_current := None, psv_tracker := close_conn c (psv_tracker v)\<rparr>)"

text \<open>A peer taken off the queue: its user, and whether its socket could be prepared.\<close>

definition accept_provider :: "u32 \<Rightarrow> u32 option \<times> bool \<Rightarrow> provider_server \<Rightarrow> provider_server" where
  "accept_provider expected_uid peer v =
     (let s = psv_stats v in
      if fst peer \<noteq> Some expected_uid then v\<lparr>psv_stats := s\<lparr>pst_wrong_uid := pst_wrong_uid s + 1\<rparr>\<rparr>
      else if \<not> snd peer then v
      else
        let s = s\<lparr>pst_accepted := pst_accepted s + 1\<rparr>;
            v = (case psv_current v of
                   None \<Rightarrow> v\<lparr>psv_stats := s\<rparr>
                 | Some old \<Rightarrow> v\<lparr>psv_stats := s\<lparr>pst_replaced := pst_replaced s + 1\<rparr>,
                     psv_tracker := close_conn old (psv_tracker v)\<rparr>)
        in v\<lparr>psv_current := Some pc_new\<rparr>)"

text \<open>The bytes of one read, up to the one that closes the connection.\<close>

fun feed_all :: "(char \<times> line_env) list \<Rightarrow> provider_conn \<Rightarrow> provider_server \<Rightarrow> (provider_server, unit) res" where
  "feed_all [] c v = Ok (v\<lparr>psv_current := Some c\<rparr>)"
| "feed_all ((b, env) # bs) c v =
     and_then (feed env b c (psv_tracker v) (psv_stats v)) (\<lambda>(verdict, outcome, c, t, s).
       let v = v\<lparr>psv_tracker := t, psv_stats := s\<rparr>
       in case verdict of
            Keep \<Rightarrow> feed_all bs c v
          | Close \<Rightarrow> Ok (close_current (v\<lparr>psv_current := Some c\<rparr>)))"

datatype provider_read = PrEof | PrBytes "(char \<times> line_env) list" | PrWait | PrError

text \<open>One pass of the loop: the peer waiting, if any, then a read of the current connection.\<close>

definition serve_pass ::
    "u32 \<Rightarrow> (u32 option \<times> bool) option \<times> provider_read \<Rightarrow> provider_server \<Rightarrow> (provider_server, unit) res" where
  "serve_pass expected_uid input v =
     (let v = (case fst input of None \<Rightarrow> v | Some peer \<Rightarrow> accept_provider expected_uid peer v)
      in case psv_current v of
           None \<Rightarrow> Ok v
         | Some c \<Rightarrow>
             (case snd input of
                PrEof \<Rightarrow> Ok (close_current v)
              | PrError \<Rightarrow> Ok (close_current v)
              | PrWait \<Rightarrow> Ok v
              | PrBytes bs \<Rightarrow> feed_all bs c v))"

fun serve_passes ::
    "u32 \<Rightarrow> ((u32 option \<times> bool) option \<times> provider_read) list \<Rightarrow> provider_server \<Rightarrow> (provider_server, unit) res" where
  "serve_passes expected_uid [] v = Ok v"
| "serve_passes expected_uid (input # inputs) v =
     and_then (serve_pass expected_uid input v) (serve_passes expected_uid inputs)"

definition provider_server_new :: provider_server where
  "provider_server_new = \<lparr>psv_current = None, psv_tracker = ct_default,
     psv_stats = \<lparr>pst_accepted = 0, pst_replaced = 0, pst_wrong_uid = 0, pst_malformed = 0,
       pst_oversized = 0, pst_out_of_order = 0, pst_rate_limited = 0, pst_bad_version = 0,
       pst_closed_for_bad_lines = 0, pst_applied = 0\<rparr>\<rparr>"

section \<open>The lines of one connection\<close>

definition message_of :: "line_outcome \<Rightarrow> provider_message list" where
  "message_of out = (case out of LoApplied m \<Rightarrow> [m] | _ \<Rightarrow> [])"

text \<open>The handled lines of a connection with their instants, up to its end.\<close>

fun lines_run ::
    "(line_env \<times> string) list \<Rightarrow> provider_conn \<Rightarrow> context_tracker \<Rightarrow> provider_stats
     \<Rightarrow> (nat \<times> line_outcome) list" where
  "lines_run [] c t s = []"
| "lines_run ((env, line) # ls) c t s =
     (case handle_line env line c t s of
        Ok (v, out, c, t, s) \<Rightarrow> (le_now env, out) # (if v = Keep then lines_run ls c t s else [])
      | _ \<Rightarrow> [])"

lemma handle_line_total:
  obtains v out c' t' s' where "handle_line env line c t s = Ok (v, out, c', t', s')"
  using parse_provider_message_not_Panic
  by (cases "handle_line env line c t s")
    (auto simp: handle_line_def Let_def split: res.splits if_splits prod.splits)

text \<open>What a handled line leaves of the connection.\<close>

definition same_place :: "provider_conn \<Rightarrow> provider_conn \<Rightarrow> bool" where
  "same_place c c' \<longleftrightarrow> pc_hello_seen c' = pc_hello_seen c \<and> pc_last_seq c' = pc_last_seq c
     \<and> pc_last_t_ms c' = pc_last_t_ms c"

lemma bad_line_place: "bad_line c s = (v, c', s') \<Longrightarrow> same_place c c' \<and> pc_recent c' = pc_recent c"
  by (auto simp: bad_line_def same_place_def Let_def split: if_splits)

lemma take_message_place:
  assumes "take_message env m c t s = (v, out, c', t', s')"
  shows "pc_recent c' = pc_recent c"
    and "out = LoMalformed \<and> same_place c c' \<and> t' = t \<or> out = LoOutOfOrder \<and> same_place c c' \<and> t' = t
      \<or> out = LoApplied m \<and> is_hello m = (\<not> pc_hello_seen c) \<and> ordered c m
        \<and> apply_message env m (c\<lparr>pc_consecutive_bad := 0\<rparr>) t s = (v, c', t', s')"
proof -
  have "pc_recent c' = pc_recent c \<and> (out = LoMalformed \<and> same_place c c' \<and> t' = t
      \<or> out = LoOutOfOrder \<and> same_place c c' \<and> t' = t
      \<or> out = LoApplied m \<and> is_hello m = (\<not> pc_hello_seen c) \<and> ordered c m
        \<and> apply_message env m (c\<lparr>pc_consecutive_bad := 0\<rparr>) t s = (v, c', t', s'))"
  proof (cases "is_hello m = pc_hello_seen c \<or> \<not> ordered c m")
    case True
    then show ?thesis
      using assms by (auto simp: take_message_def Let_def dest: bad_line_place split: prod.splits if_splits)
  next
    case False
    then show ?thesis
      using assms by (cases m) (auto simp: take_message_def Let_def split: prod.splits)
  qed
  then show "pc_recent c' = pc_recent c"
    and "out = LoMalformed \<and> same_place c c' \<and> t' = t \<or> out = LoOutOfOrder \<and> same_place c c' \<and> t' = t
      \<or> out = LoApplied m \<and> is_hello m = (\<not> pc_hello_seen c) \<and> ordered c m
        \<and> apply_message env m (c\<lparr>pc_consecutive_bad := 0\<rparr>) t s = (v, c', t', s')"
    by blast+
qed

definition recent_after :: "nat \<Rightarrow> nat list \<Rightarrow> nat list" where
  "recent_after now recent = dropWhile (\<lambda>at'. one_second \<le> now - at') recent"

lemma handle_line_cases:
  assumes "handle_line env line c t s = Ok (v, out, c', t', s')"
  shows "if MAX_MESSAGES_PER_SECOND \<le> length (recent_after (le_now env) (pc_recent c))
    then out = LoRateLimited \<and> pc_recent c' = recent_after (le_now env) (pc_recent c)
    else out \<noteq> LoRateLimited \<and> pc_recent c' = recent_after (le_now env) (pc_recent c) @ [le_now env]"
    and "same_place c c' \<and> message_of out = [] \<and> t' = t
      \<or> (\<exists>m d u. out = LoApplied m \<and> is_hello m = (\<not> pc_hello_seen c) \<and> ordered c m
           \<and> same_place c d \<and> apply_message env m d t u = (v, c', t', s'))"
proof -
  let ?now = "le_now env"
  let ?d = "c\<lparr>pc_recent := recent_after ?now (pc_recent c)\<rparr>"
  let ?e = "c\<lparr>pc_recent := recent_after ?now (pc_recent c) @ [?now]\<rparr>"
  have place: "same_place c ?d" "same_place c ?e" and ord: "ordered ?e m = ordered c m" for m
    by (cases m; simp add: same_place_def)+
  note line = assms [unfolded handle_line_def Let_def, folded recent_after_def]
  have "(if MAX_MESSAGES_PER_SECOND \<le> length (recent_after ?now (pc_recent c))
    then out = LoRateLimited \<and> pc_recent c' = recent_after ?now (pc_recent c)
    else out \<noteq> LoRateLimited \<and> pc_recent c' = recent_after ?now (pc_recent c) @ [?now])
    \<and> (same_place c c' \<and> message_of out = [] \<and> t' = t
      \<or> (\<exists>m d u. out = LoApplied m \<and> is_hello m = (\<not> pc_hello_seen c) \<and> ordered c m
           \<and> same_place c d \<and> apply_message env m d t u = (v, c', t', s')))"
  proof (cases "MAX_MESSAGES_PER_SECOND \<le> length (recent_after ?now (pc_recent c))")
    case True
    then show ?thesis
      using line place(1) by (auto simp: message_of_def)
  next
    case False
    show ?thesis
    proof (cases "parse_provider_message line")
      case (Ok m)
      then have m: "take_message env m ?e t s = (v, out, c', t', s')"
        using line False by simp
      have recent: "pc_recent c' = recent_after ?now (pc_recent c) @ [?now]"
        using take_message_place(1) [OF m] by simp
      from take_message_place(2) [OF m] show ?thesis
      proof (elim disjE conjE)
        assume "out = LoApplied m" and "is_hello m = (\<not> pc_hello_seen ?e)" and "ordered ?e m"
          and "apply_message env m (?e\<lparr>pc_consecutive_bad := 0\<rparr>) t s = (v, c', t', s')"
        moreover have "same_place c (?e\<lparr>pc_consecutive_bad := 0\<rparr>)"
          by (simp add: same_place_def)
        ultimately have "\<exists>m d u. out = LoApplied m \<and> is_hello m = (\<not> pc_hello_seen c) \<and> ordered c m
           \<and> same_place c d \<and> apply_message env m d t u = (v, c', t', s')"
          using ord by auto
        then show ?thesis
          using False recent by auto
      qed (use False recent in \<open>simp_all add: message_of_def same_place_def\<close>)
    next
      case (Err e)
      then show ?thesis
        using line False place(2) bad_line_place
        by (fastforce simp: message_of_def same_place_def split: if_splits prod.splits)
    next
      case Panic
      then show ?thesis
        using parse_provider_message_not_Panic by blast
    qed
  qed
  then show "if MAX_MESSAGES_PER_SECOND \<le> length (recent_after (le_now env) (pc_recent c))
    then out = LoRateLimited \<and> pc_recent c' = recent_after (le_now env) (pc_recent c)
    else out \<noteq> LoRateLimited \<and> pc_recent c' = recent_after (le_now env) (pc_recent c) @ [le_now env]"
    and "same_place c c' \<and> message_of out = [] \<and> t' = t
      \<or> (\<exists>m d u. out = LoApplied m \<and> is_hello m = (\<not> pc_hello_seen c) \<and> ordered c m
           \<and> same_place c d \<and> apply_message env m d t u = (v, c', t', s'))"
    by blast+
qed

subsection \<open>Order\<close>

fun seq_of :: "provider_message \<Rightarrow> u64" where
  "seq_of (PmHello provider version) = 0"
| "seq_of (PmPermissionStatus seq status) = seq"
| "seq_of (PmContext seq t_ms age_ms context) = seq"

fun time_of :: "provider_message \<Rightarrow> u64 option" where
  "time_of (PmHello provider version) = None"
| "time_of (PmPermissionStatus seq status) = None"
| "time_of (PmContext seq t_ms age_ms context) = Some t_ms"

text \<open>A later message of a connection: a higher number, and no earlier time.\<close>

definition follows :: "provider_message \<Rightarrow> provider_message \<Rightarrow> bool" where
  "follows m n \<longleftrightarrow> seq_of m < seq_of n
     \<and> (\<forall>a b. time_of m = Some a \<longrightarrow> time_of n = Some b \<longrightarrow> a \<le> b)"

definition in_order :: "provider_conn \<Rightarrow> provider_message list \<Rightarrow> bool" where
  "in_order c ms \<longleftrightarrow> (\<forall>m \<in> set ms. \<not> is_hello m \<and> ordered c m) \<and> sorted_wrt follows ms"

lemma apply_message_order:
  assumes "apply_message env m d t u = (v, c', t', s')" and "same_place c d" and "\<not> is_hello m"
    and "ordered c m" and "in_order c' ms"
  shows "in_order c (m # ms)"
proof -
  have "ordered c n \<and> follows m n" if "ordered c' n" "\<not> is_hello n" for n
    using assms(1-4) that
    by (cases m; cases n) (auto simp: same_place_def follows_def split: option.splits)
  then show ?thesis
    using assms(3-5) by (auto simp: in_order_def)
qed

lemma in_order_same_place: "same_place c c' \<Longrightarrow> in_order c' ms = in_order c ms"
proof -
  assume "same_place c c'"
  then have "ordered c' m = ordered c m" for m
    by (cases m) (simp_all add: same_place_def)
  then show ?thesis
    by (simp add: in_order_def)
qed

definition run_messages :: "(nat \<times> line_outcome) list \<Rightarrow> provider_message list" where
  "run_messages log = concat (map (message_of \<circ> snd) log)"

lemma lines_run_order:
  "in_order c (run_messages (lines_run ls c t s))" if "pc_hello_seen c"
  using that
proof (induction ls arbitrary: c t s)
  case Nil
  then show ?case
    by (simp add: run_messages_def in_order_def)
next
  case (Cons x ls)
  obtain env line where x: "x = (env, line)"
    by (cases x)
  obtain v out c' t' s' where h: "handle_line env line c t s = Ok (v, out, c', t', s')"
    by (rule handle_line_total)
  let ?rest = "if v = Keep then lines_run ls c' t' s' else []"
  have log: "lines_run (x # ls) c t s = (le_now env, out) # ?rest"
    by (simp add: x h)
  have rest: "in_order c' (run_messages ?rest)" if "pc_hello_seen c'"
    using Cons.IH [OF that, of t' s'] by (simp add: run_messages_def in_order_def)
  from handle_line_cases(2) [OF h] show ?case
  proof (elim disjE exE conjE)
    assume "same_place c c'" "message_of out = []"
    moreover from this(1) have "pc_hello_seen c'"
      using Cons.prems by (simp add: same_place_def)
    ultimately show ?case
      using rest in_order_same_place unfolding log by (simp add: run_messages_def)
  next
    fix m d u
    assume m: "out = LoApplied m" "is_hello m = (\<not> pc_hello_seen c)" "ordered c m" "same_place c d"
      "apply_message env m d t u = (v, c', t', s')"
    have "pc_hello_seen c'"
      using m Cons.prems by (cases m) (auto simp: same_place_def)
    then show ?case
      using apply_message_order [OF m(5,4) _ m(3) rest] m(1,2) Cons.prems unfolding log
      by (simp add: run_messages_def message_of_def)
  qed
qed

text \<open>Before the hello nothing but a hello gets through.\<close>

lemma lines_run_hello:
  "\<not> pc_hello_seen c \<Longrightarrow>
   run_messages (lines_run ls c t s) = []
   \<or> (\<exists>m ms c'. run_messages (lines_run ls c t s) = m # ms \<and> is_hello m \<and> in_order c' ms)"
proof (induction ls arbitrary: c t s)
  case Nil
  then show ?case
    by (simp add: run_messages_def)
next
  case (Cons x ls)
  obtain env line where x: "x = (env, line)"
    by (cases x)
  obtain v out c' t' s' where h: "handle_line env line c t s = Ok (v, out, c', t', s')"
    by (rule handle_line_total)
  let ?rest = "if v = Keep then lines_run ls c' t' s' else []"
  have log: "lines_run (x # ls) c t s = (le_now env, out) # ?rest"
    by (simp add: x h)
  from handle_line_cases(2) [OF h] show ?case
  proof (elim disjE exE conjE)
    assume "same_place c c'" "message_of out = []"
    moreover from this(1) have "\<not> pc_hello_seen c'"
      using Cons.prems by (simp add: same_place_def)
    ultimately show ?case
      using Cons.IH [of c' t' s'] unfolding log by (auto simp: run_messages_def)
  next
    fix m d u
    assume m: "out = LoApplied m" "is_hello m = (\<not> pc_hello_seen c)" "same_place c d"
      "apply_message env m d t u = (v, c', t', s')"
    have hello: "is_hello m"
      using m(2) Cons.prems by simp
    then have "pc_hello_seen c'"
      using m(4) by (cases m) auto
    then have "in_order c' (run_messages ?rest)"
      using lines_run_order [of c' ls t' s'] by (simp add: run_messages_def in_order_def)
    moreover have "run_messages (lines_run (x # ls) c t s) = m # run_messages ?rest"
      unfolding log by (simp add: run_messages_def message_of_def m(1))
    ultimately show ?case
      using hello by metis
  qed
qed

subsection \<open>Pace\<close>

definition spaced :: "nat list \<Rightarrow> bool" where
  "spaced ts \<longleftrightarrow> (\<forall>i. i + 20 < length ts \<longrightarrow> one_second \<le> ts ! (i + 20) - ts ! i)"

definition run_taken :: "(nat \<times> line_outcome) list \<Rightarrow> nat list" where
  "run_taken log = map fst (filter (\<lambda>e. snd e \<noteq> LoRateLimited) log)"

lemma spaced_snoc:
  assumes "spaced (old @ recent)" and "length recent < 20" and "\<forall>d \<in> set old. one_second \<le> now - d"
  shows "spaced (old @ recent @ [now])"
  unfolding spaced_def
proof (intro allI impI)
  fix i
  assume i: "i + 20 < length (old @ recent @ [now])"
  show "one_second \<le> (old @ recent @ [now]) ! (i + 20) - (old @ recent @ [now]) ! i"
  proof (cases "i + 20 < length (old @ recent)")
    case True
    then have "(old @ recent @ [now]) ! (i + 20) = (old @ recent) ! (i + 20)"
      "(old @ recent @ [now]) ! i = (old @ recent) ! i"
      unfolding append_assoc [symmetric] nth_append [of "old @ recent"] by simp_all
    then show ?thesis
      using assms(1) True by (simp add: spaced_def)
  next
    case False
    then have e: "i + 20 = length (old @ recent)"
      using i by simp
    then have o: "i < length old"
      using assms(2) by simp
    have "(old @ recent @ [now]) ! (i + 20) = now"
      unfolding e append_assoc [symmetric] by (rule nth_append_length)
    moreover have "(old @ recent @ [now]) ! i = old ! i"
      using o by (simp add: nth_append)
    ultimately show ?thesis
      using assms(3) o by simp
  qed
qed

lemma lines_run_paced:
  assumes "sorted_wrt (\<le>) (now # map (le_now \<circ> fst) ls)" and "spaced (old @ pc_recent c)"
    and "\<forall>d \<in> set old. one_second \<le> now - d"
  shows "spaced (old @ pc_recent c @ run_taken (lines_run ls c t s))"
  using assms
proof (induction ls arbitrary: c t s old now)
  case Nil
  then show ?case
    by (simp add: run_taken_def)
next
  case (Cons x ls)
  obtain env line where x: "x = (env, line)"
    by (cases x)
  obtain v out c' t' s' where h: "handle_line env line c t s = Ok (v, out, c', t', s')"
    by (rule handle_line_total)
  let ?rest = "if v = Keep then lines_run ls c' t' s' else []"
  let ?late = "\<lambda>d. one_second \<le> le_now env - d"
  define pop where "pop = takeWhile ?late (pc_recent c)"
  define keep where "keep = recent_after (le_now env) (pc_recent c)"
  have split: "pc_recent c = pop @ keep"
    by (simp add: pop_def keep_def recent_after_def)
  have old: "\<forall>d \<in> set (old @ pop). ?late d"
    using Cons.prems(1,3) by (fastforce simp: x pop_def dest: set_takeWhileD)
  have log: "lines_run (x # ls) c t s = (le_now env, out) # ?rest"
    by (simp add: x h)
  have sorted: "sorted_wrt (\<le>) (le_now env # map (le_now \<circ> fst) ls)"
    using Cons.prems(1) by (simp add: x comp_def)
  have ih: "spaced (old' @ pc_recent c' @ run_taken ?rest)"
    if "spaced (old' @ pc_recent c')" and "\<forall>d \<in> set old'. ?late d" for old'
    using Cons.IH [OF sorted that, of t' s'] that(1) by (simp add: run_taken_def)
  have spaced: "spaced ((old @ pop) @ keep)"
    using Cons.prems(2) by (simp add: split)
  show ?case
  proof (cases "MAX_MESSAGES_PER_SECOND \<le> length keep")
    case True
    then have "out = LoRateLimited" and r: "pc_recent c' = keep"
      using handle_line_cases(1) [OF h] by (simp_all add: keep_def)
    then show ?thesis
      using ih [OF _ old] spaced by (simp add: log split run_taken_def)
  next
    case False
    then have "out \<noteq> LoRateLimited" and r: "pc_recent c' = keep @ [le_now env]"
      using handle_line_cases(1) [OF h] by (simp_all add: keep_def)
    moreover have "spaced ((old @ pop) @ keep @ [le_now env])"
      using spaced_snoc [OF spaced _ old] False by (simp add: MAX_MESSAGES_PER_SECOND_def)
    ultimately show ?thesis
      using ih [OF _ old] by (simp add: log split run_taken_def)
  qed
qed

text \<open>
  C31. A provider cannot flood, reorder or skip its greeting. Of the lines of one connection, in
  whatever number and at whatever speed, any twenty-one that are looked at span at least one
  second; what reaches the tracker starts with exactly one hello, and the messages after it have
  strictly rising sequence numbers and, the contexts among them, times that never go back.
\<close>
theorem provider_is_paced_and_ordered:
  assumes "sorted (map (le_now \<circ> fst) ls)"
  shows "let log = lines_run ls pc_new t s; taken = run_taken log; messages = run_messages log in
    (\<forall>i. i + 20 < length taken \<longrightarrow> one_second \<le> taken ! (i + 20) - taken ! i)
    \<and> (messages = [] \<or>
       (is_hello (hd messages) \<and> (\<forall>m \<in> set (tl messages). \<not> is_hello m) \<and> sorted_wrt follows (tl messages)))"
proof -
  have paced: "spaced (run_taken (lines_run ls pc_new t s))"
    using lines_run_paced [of 0 ls "[]" pc_new t s] assms by (simp add: spaced_def pc_new_def)
  have "\<not> pc_hello_seen pc_new"
    by (simp add: pc_new_def)
  then have "run_messages (lines_run ls pc_new t s) = []
      \<or> (\<exists>m ms c'. run_messages (lines_run ls pc_new t s) = m # ms \<and> is_hello m \<and> in_order c' ms)"
    by (rule lines_run_hello)
  then show ?thesis
    using paced by (auto simp: Let_def spaced_def in_order_def)
qed

lemma lines_run_times: "fst ` set (lines_run ls c t s) \<subseteq> (le_now \<circ> fst) ` set ls"
proof (induction ls arbitrary: c t s)
  case (Cons x ls)
  obtain env line where x: "x = (env, line)"
    by (cases x)
  obtain v out c' t' s' where "handle_line env line c t s = Ok (v, out, c', t', s')"
    by (rule handle_line_total)
  then show ?case
    using Cons [of c' t' s'] by (auto simp: x)
qed simp

definition sample_line :: line_env where
  "sample_line = \<lparr>le_now = 7, le_now_ms = 0, le_written = True\<rparr>"

theorem provider_is_paced_and_ordered_witness:
  "let log = lines_run (replicate 30 (sample_line, ''x'')) pc_new ct_default (psv_stats provider_server_new)
   in length (run_taken log) \<le> 20"
proof -
  let ?ls = "replicate 30 (sample_line, ''x'')"
  let ?log = "lines_run ?ls pc_new ct_default (psv_stats provider_server_new)"
  have sorted: "sorted (map (le_now \<circ> fst) ?ls)"
    by (simp add: map_replicate_const sorted_iff_nth_mono)
  have seven: "set (run_taken ?log) \<subseteq> {7}"
    using lines_run_times [of ?ls pc_new ct_default "psv_stats provider_server_new"]
    by (auto simp: run_taken_def sample_line_def)
  have "\<not> 20 < length (run_taken ?log)"
  proof
    assume long: "20 < length (run_taken ?log)"
    then have "run_taken ?log ! 20 \<in> {7}" "run_taken ?log ! 0 \<in> {7}"
      using seven nth_mem [OF long] nth_mem [of 0 "run_taken ?log"] by fastforce+
    then show False
      using provider_is_paced_and_ordered [OF sorted, of ct_default "psv_stats provider_server_new"] long
      by (auto simp: Let_def one_second_def dest: spec [of _ 0])
  qed
  then show ?thesis
    by (simp add: Let_def)
qed

section \<open>The server and the tracker\<close>

definition psv_ok :: "provider_server \<Rightarrow> bool" where
  "psv_ok v \<longleftrightarrow> (ct_connected (psv_tracker v) \<longleftrightarrow> (\<exists>c. psv_current v = Some c \<and> pc_hello_seen c))"

lemma connected_simps [simp]:
  "ct_connected (on_connected t)" "\<not> ct_connected (on_disconnected t)"
  "ct_connected (on_permission status t) = ct_connected t"
  "ct_connected (on_context ctx age now t) = ct_connected t"
  by (simp_all add: on_connected_def on_disconnected_def on_permission_def on_context_def)

lemma apply_message_connected:
  "apply_message env m c t s = (v, c', t', s') \<Longrightarrow> ct_connected t = pc_hello_seen c \<Longrightarrow>
   ct_connected t' = pc_hello_seen c'"
  by (cases m) auto

lemma feed_total:
  obtains v out c' t' s' where "feed env b c t s = Ok (v, out, c', t', s')"
proof -
  obtain e lines where push: "lr_push (pc_lines c) b = (e, lines)"
    by fastforce
  show thesis
  proof (cases e)
    case (LeLine line)
    obtain v out c' t' s' where
      "handle_line env line (c\<lparr>pc_lines := lines\<rparr>) t s = Ok (v, out, c', t', s')"
      by (rule handle_line_total)
    then show thesis
      using that push LeLine by (cases "line = []") (auto simp: feed_def)
  next
    case LeOverflowed
    obtain v c' s' where "bad_line (c\<lparr>pc_lines := lines\<rparr>) (s\<lparr>pst_oversized := pst_oversized s + 1\<rparr>) = (v, c', s')"
      by (rule prod_cases3)
    then show thesis
      using that push LeOverflowed by (simp add: feed_def)
  qed (use that push in \<open>simp_all add: feed_def\<close>)
qed

lemma feed_connected:
  assumes "feed env b c t s = Ok (v, out, c', t', s')" and "ct_connected t = pc_hello_seen c"
  shows "ct_connected t' = pc_hello_seen c'"
proof -
  obtain e lines where push: "lr_push (pc_lines c) b = (e, lines)"
    by fastforce
  let ?c = "c\<lparr>pc_lines := lines\<rparr>"
  have "same_place ?c c' \<and> t' = t \<or> (\<exists>line. handle_line env line ?c t s = Ok (v, out, c', t', s'))"
  proof (cases e)
    case (LeLine line)
    then show ?thesis
      using assms(1) push by (cases "line = []") (auto simp: feed_def same_place_def)
  next
    case LeOverflowed
    then show ?thesis
      using assms(1) push by (auto simp: feed_def dest!: bad_line_place split: prod.splits)
  qed (use assms(1) push in \<open>auto simp: feed_def same_place_def\<close>)
  then show ?thesis
  proof (elim disjE exE)
    fix line
    assume h: "handle_line env line ?c t s = Ok (v, out, c', t', s')"
    from handle_line_cases(2) [OF h] show ?thesis
    proof (elim disjE exE conjE)
      fix m d u
      assume m: "same_place ?c d" "apply_message env m d t u = (v, c', t', s')"
      have "ct_connected t = pc_hello_seen d"
        using m(1) assms(2) by (simp add: same_place_def)
      then show ?thesis
        by (rule apply_message_connected [OF m(2)])
    qed (use assms(2) in \<open>simp add: same_place_def\<close>)
  qed (use assms(2) in \<open>simp add: same_place_def\<close>)
qed

lemma close_current_ok: "psv_ok v \<Longrightarrow> psv_ok (close_current v)"
  by (auto simp: psv_ok_def close_current_def close_conn_def split: option.split)

lemma feed_all_ok:
  "ct_connected (psv_tracker v) = pc_hello_seen c \<Longrightarrow> \<exists>v'. feed_all bs c v = Ok v' \<and> psv_ok v'"
proof (induction bs arbitrary: c v)
  case (Cons x bs)
  obtain b env where x: "x = (b, env)"
    by (cases x)
  obtain verdict out c' t' s' where f: "feed env b c (psv_tracker v) (psv_stats v) = Ok (verdict, out, c', t', s')"
    by (rule feed_total)
  have ok: "ct_connected t' = pc_hello_seen c'"
    by (rule feed_connected [OF f Cons.prems])
  show ?case
  proof (cases verdict)
    case Keep
    then show ?thesis
      using Cons.IH [of "v\<lparr>psv_tracker := t', psv_stats := s'\<rparr>" c'] ok f by (simp add: x Let_def)
  next
    case Close
    moreover have "psv_ok (close_current (v\<lparr>psv_tracker := t', psv_stats := s', psv_current := Some c'\<rparr>))"
      using ok by (intro close_current_ok) (simp add: psv_ok_def)
    ultimately show ?thesis
      using f by (simp add: x Let_def)
  qed
qed (simp add: psv_ok_def)

lemma accept_provider_ok: "psv_ok v \<Longrightarrow> psv_ok (accept_provider uid peer v)"
  by (auto simp: psv_ok_def accept_provider_def close_conn_def pc_new_def Let_def split: option.splits)

lemma serve_pass_ok:
  assumes "psv_ok v"
  shows "\<exists>v'. serve_pass uid input v = Ok v' \<and> psv_ok v'"
proof -
  define w where "w = (case fst input of None \<Rightarrow> v | Some peer \<Rightarrow> accept_provider uid peer v)"
  have w: "psv_ok w"
    using assms accept_provider_ok by (auto simp: w_def split: option.split)
  have pass: "serve_pass uid input v = (case psv_current w of None \<Rightarrow> Ok w
      | Some c \<Rightarrow> (case snd input of PrEof \<Rightarrow> Ok (close_current w) | PrError \<Rightarrow> Ok (close_current w)
          | PrWait \<Rightarrow> Ok w | PrBytes bs \<Rightarrow> feed_all bs c w))"
    unfolding serve_pass_def Let_def w_def [symmetric] by (rule refl)
  show ?thesis
  proof (cases "psv_current w")
    case None
    then show ?thesis
      using w pass by simp
  next
    case (Some c)
    have "ct_connected (psv_tracker w) = pc_hello_seen c"
      using w Some by (simp add: psv_ok_def)
    then show ?thesis
      using w pass close_current_ok [OF w] feed_all_ok Some by (cases "snd input") auto
  qed
qed

lemma serve_passes_ok: "psv_ok v \<Longrightarrow> \<exists>v'. serve_passes uid inputs v = Ok v' \<and> psv_ok v'"
proof (induction inputs arbitrary: v)
  case (Cons input inputs)
  then show ?case
    using serve_pass_ok [OF Cons.prems, of uid input] by auto
qed simp

text \<open>
  The tracker is connected exactly while a provider is. Whatever peers arrive and whatever
  bytes they send, in whatever passes of the loop, the server never panics, and afterwards the
  tracker counts as connected exactly when the current connection has said its hello: not after a
  connection ended or was closed for its lines, and not while a new one, which replaced a greeted
  one, has not greeted yet. A peer of another user changes nothing but a counter.
\<close>
theorem tracker_follows_provider:
  "(\<exists>v. serve_passes uid inputs provider_server_new = Ok v
     \<and> (ct_connected (psv_tracker v) \<longleftrightarrow> (\<exists>c. psv_current v = Some c \<and> pc_hello_seen c)))
   \<and> (peer \<noteq> Some uid \<longrightarrow> accept_provider uid (peer, prepared) w =
        w\<lparr>psv_stats := (psv_stats w)\<lparr>pst_wrong_uid := pst_wrong_uid (psv_stats w) + 1\<rparr>\<rparr>)"
proof (intro conjI impI)
  have "psv_ok provider_server_new"
    by (simp add: psv_ok_def provider_server_new_def ct_default_def)
  then show "\<exists>v. serve_passes uid inputs provider_server_new = Ok v
     \<and> (ct_connected (psv_tracker v) \<longleftrightarrow> (\<exists>c. psv_current v = Some c \<and> pc_hello_seen c))"
    using serve_passes_ok [of provider_server_new uid inputs] by (auto simp: psv_ok_def)
qed (simp add: accept_provider_def Let_def)

theorem tracker_follows_provider_witness:
  "accept_provider 501 (Some 502, True) provider_server_new = provider_server_new
     \<lparr>psv_stats := (psv_stats provider_server_new)\<lparr>pst_wrong_uid := 1\<rparr>\<rparr>"
  using tracker_follows_provider [of 501 "[]" "Some 502" True provider_server_new]
  by (simp add: provider_server_new_def)

end
