(* ===== verification/Daemon_Handler.thy ===== *)
theory Daemon_Handler
  imports Supervisor_Safety Control_Socket Provider_Socket
begin

text \<open>
  The daemon's side of the control socket, \<open>DaemonHandler\<close> of \<^verbatim>\<open>host/hostcore/src/daemon.rs\<close>: the
  status and the list of monitors are written from the state the supervisor shares, every other
  request goes to the supervisor. Then that whatever is asked is answered by one JSON object.
\<close>

section \<open>The status\<close>

text \<open>The provider's socket, when it could be started: its counters and its tracker.\<close>

record handler_env =
  he_version :: string
  he_pid :: u64
  he_uid :: u64
  he_started_ms :: u64
  he_now_ms :: u64
  he_provider :: "(provider_stats \<times> context_tracker) option"
  he_candidates :: "string list"

definition opt_str :: "string option \<Rightarrow> string" where
  "opt_str v = (case v of None \<Rightarrow> ''null'' | Some s \<Rightarrow> json_string s)"

definition provider_counters :: "provider_stats \<Rightarrow> string" where
  "provider_counters stats = jo_finish
     (let o' = jo_new; o' = jo_num o' ''accepted'' (pst_accepted stats); o' = jo_num o' ''replaced'' (pst_replaced stats);
          o' = jo_num o' ''wrong_uid'' (pst_wrong_uid stats); o' = jo_num o' ''malformed'' (pst_malformed stats);
          o' = jo_num o' ''oversized'' (pst_oversized stats); o' = jo_num o' ''out_of_order'' (pst_out_of_order stats);
          o' = jo_num o' ''rate_limited'' (pst_rate_limited stats); o' = jo_num o' ''bad_version'' (pst_bad_version stats);
          o' = jo_num o' ''closed_for_bad_lines'' (pst_closed_for_bad_lines stats)
      in jo_num o' ''applied'' (pst_applied stats))"

text \<open>The provider's state, the availability of the context, the permission, and the counters.\<close>

definition provider_status ::
    "u64 \<Rightarrow> (provider_stats \<times> context_tracker) option
     \<Rightarrow> (string \<times> string \<times> string option \<times> string, unit) res" where
  "provider_status now provider =
     (case provider of
        None \<Rightarrow> Ok (''server_unavailable'', ''not_requested'', None, ''null'')
      | Some (stats, t) \<Rightarrow>
          let state = (if ct_connected t then ''connected''
                       else if 0 < pst_accepted stats then ''disconnected'' else ''never_connected'')
          in and_then (name_of context_names (ac_availability (cr_context (ct_reading now t)))) (\<lambda>context.
             and_then (case ct_permission t of None \<Rightarrow> Ok None
                       | Some p \<Rightarrow> and_then (name_of permission_names p) (\<lambda>n. Ok (Some n))) (\<lambda>permission.
             Ok (state, context, permission, provider_counters stats))))"

text \<open>\<open>{c:06}\<close>\<close>

definition padded_code :: "u32 \<Rightarrow> string" where
  "padded_code c = (let s = nat_str (unat c) in replicate (6 - length s) CHR ''0'' @ s)"

definition link_object :: "u64 \<Rightarrow> shared \<Rightarrow> json_object" where
  "link_object now s =
     (let l = sd_link s; o' = jo_new; o' = jo_str o' ''state'' (link_state_name (ls_state l));
          o' = jo_opt_str o' ''detail'' (ls_detail l); o' = jo_opt_str o' ''port'' (ls_port l);
          o' = jo_opt_str o' ''pairing_identity'' (ls_pairing_identity l);
          o' = jo_opt_str o' ''pairing_code'' (map_option padded_code (ls_pairing_code l));
          o' = jo_num o' ''sessions'' (ls_sessions l); o' = jo_num o' ''snapshots'' (sd_snapshots s);
          o' = jo_opt_num o' ''last_snapshot_utc_ms'' (sd_last_snapshot_utc_ms s)
      in jo_opt_num o' ''last_snapshot_age_ms'' (map_option (\<lambda>t. sat_sub now t) (sd_last_snapshot_ms s)))"

definition control_object :: "control_stats \<Rightarrow> json_object" where
  "control_object control =
     (let o' = jo_new; o' = jo_num o' ''accepted'' (ctl_accepted control); o' = jo_num o' ''requests'' (ctl_requests control);
          o' = jo_num o' ''wrong_uid'' (ctl_wrong_uid control); o' = jo_num o' ''malformed'' (ctl_malformed control);
          o' = jo_num o' ''oversized'' (ctl_oversized control); o' = jo_num o' ''bad_version'' (ctl_bad_version control);
          o' = jo_num o' ''unknown_command'' (ctl_unknown_command control); o' = jo_num o' ''busy'' (ctl_busy control)
      in jo_num o' ''closed_for_bad_lines'' (ctl_closed_for_bad_lines control))"

definition daemon_status :: "handler_env \<Rightarrow> shared \<Rightarrow> control_stats \<Rightarrow> (string, unit) res" where
  "daemon_status env s control =
     (let now = he_now_ms env; metrics = foldl (\<lambda>o' (name, a). jo_str o' name a) jo_new (sd_groups s)
      in and_then (provider_status now (he_provider env)) (\<lambda>(provider_state, context, permission, counters).
         let daemon = jo_num (jo_num (jo_num (jo_str jo_new ''version'' (he_version env)) ''pid'' (he_pid env))
               ''uptime_s'' (sat_sub now (he_started_ms env) div 1000)) ''uid'' (he_uid env);
             wifi = jo_opt_str (jo_str (jo_str jo_new ''provider'' provider_state) ''availability'' context)
               ''permission'' permission;
             all_counters = jo_object (jo_raw jo_new ''provider'' counters) ''control'' (control_object control);
             o' = jo_object jo_new ''daemon'' daemon; o' = jo_object o' ''link'' (link_object now s);
             o' = jo_object o' ''metrics'' metrics; o' = jo_object o' ''wifi_context'' wifi;
             o' = jo_object o' ''counters'' all_counters
         in Ok (jo_finish o')))"

text \<open>\<open>list.join(",")\<close>\<close>

fun join :: "string list \<Rightarrow> string" where
  "join [] = []"
| "join [s] = s"
| "join (s # t # ss) = s @ CHR '','' # join (t # ss)"

definition monitor_entry :: "shared \<Rightarrow> string \<Rightarrow> string" where
  "monitor_entry s port =
     (let current = (ls_port (sd_link s) = Some port)
      in ''{\"port\":'' @ json_string port
         @ '',\"pairing_identity\":'' @ opt_str (if current then ls_pairing_identity (sd_link s) else None)
         @ '',\"state\":'' @ json_string (if current then link_state_name (ls_state (sd_link s)) else ''unknown'') @ ''}'')"

definition monitors :: "handler_env \<Rightarrow> shared \<Rightarrow> string" where
  "monitors env s = ''['' @ join (map (monitor_entry s) (he_candidates env)) @ '']''"

section \<open>The handler\<close>

text \<open>What became of a command handed to the supervisor.\<close>

datatype sup_answer = SaStopping | SaReply string | SaTimeout

definition request_name :: "request \<Rightarrow> string" where
  "request_name r = (case r of
      RqPairStart port \<Rightarrow> ''pair_start'' | RqPairCancel \<Rightarrow> ''pair_cancel'' | RqUnpair \<Rightarrow> ''unpair''
    | RqResetCalibration \<Rightarrow> ''reset_calibration'' | _ \<Rightarrow> ''forget'')"

text \<open>The reply, and whether the stop flag was set.\<close>

definition daemon_handle ::
    "handler_env \<Rightarrow> shared \<Rightarrow> sup_answer \<Rightarrow> request \<Rightarrow> control_stats \<Rightarrow> (string \<times> bool, unit) res" where
  "daemon_handle env s ans r control =
     (case r of
        RqStatus \<Rightarrow> and_then (daemon_status env s control) (\<lambda>text.
          Ok (ok_response ''status'' (Some (''status'', text)), False))
      | RqMonitors \<Rightarrow> Ok (ok_response ''monitors'' (Some (''monitors'', monitors env s)), False)
      | RqStop \<Rightarrow> Ok (ok_response ''stop'' None, True)
      | _ \<Rightarrow> Ok (case ans of
            SaStopping \<Rightarrow> error_response ''stopping'' ''the daemon is stopping''
          | SaReply response \<Rightarrow> response
          | SaTimeout \<Rightarrow> error_response ''timeout'' (request_name r @ '' timed out''), False))"

section \<open>JSON\<close>

text \<open>
  The grammar of JSON (RFC 8259) for texts without white space between their tokens, stated
  independently of the code that writes them. Inside a string literal a quote or a backslash stands
  only in an escape, and a control character not at all; a number is a whole one, without a leading
  zero.
\<close>

inductive literal_body :: "string \<Rightarrow> bool" where
  body_end: "literal_body []"
| body_plain: "32 \<le> byte c \<Longrightarrow> c \<noteq> CHR 0x22 \<Longrightarrow> c \<noteq> CHR 0x5C \<Longrightarrow> literal_body s \<Longrightarrow> literal_body (c # s)"
| body_escape: "c \<in> {CHR 0x22, CHR 0x5C, CHR ''/'', CHR ''b'', CHR ''f'', CHR ''n'', CHR ''r'', CHR ''t''} \<Longrightarrow>
    literal_body s \<Longrightarrow> literal_body (CHR 0x5C # c # s)"
| body_unicode: "list_all is_ascii_hexdigit [a, b, c, d] \<Longrightarrow> literal_body s \<Longrightarrow>
    literal_body (CHR 0x5C # CHR ''u'' # a # b # c # d # s)"

definition string_literal :: "string \<Rightarrow> bool" where
  "string_literal s \<longleftrightarrow> (\<exists>b. literal_body b \<and> s = CHR 0x22 # b @ [CHR 0x22])"

definition whole_number :: "string \<Rightarrow> bool" where
  "whole_number s \<longleftrightarrow> s \<noteq> [] \<and> list_all is_ascii_digit s \<and> (hd s = CHR ''0'' \<longrightarrow> s = ''0'')"

definition member :: "string \<times> string \<Rightarrow> string" where
  "member kv = fst kv @ CHR '':'' # snd kv"

inductive json :: "string \<Rightarrow> bool" where
  json_text: "string_literal s \<Longrightarrow> json s"
| json_num: "whole_number s \<Longrightarrow> json s"
| json_null: "json ''null''"
| json_true: "json ''true''"
| json_false: "json ''false''"
| json_array: "\<forall>v \<in> set vs. json v \<Longrightarrow> json (''['' @ join vs @ '']'')"
| json_object: "\<forall>kv \<in> set ms. string_literal (fst kv) \<and> json (snd kv) \<Longrightarrow>
    json (''{'' @ join (map member ms) @ ''}'')"

text \<open>What the program writes is in the grammar.\<close>

lemma hex_char_digit: "n < 16 \<Longrightarrow> is_ascii_hexdigit (hex_char n)"
  by (auto simp: hex_char_def is_ascii_hexdigit_def is_ascii_digit_def byte_def)

lemma literal_escaped:
  assumes "literal_body s"
  shows "literal_body (json_escape c @ s)"
proof -
  have hex: "literal_body (CHR 0x5C # CHR ''u'' # CHR ''0'' # CHR ''0'' # hex_char (byte c div 16)
      # hex_char (byte c mod 16) # s)" if "byte c < 32"
    using that hex_char_digit [of "byte c div 16"] hex_char_digit [of "byte c mod 16"]
    by (intro body_unicode assms) (simp add: is_ascii_hexdigit_def is_ascii_digit_def byte_def)
  have esc: "literal_body (CHR 0x5C # x # s)" if "x \<in> set [CHR 0x22, CHR 0x5C, CHR ''n'', CHR ''r'', CHR ''t'']" for x
    using that by (intro body_escape assms) auto
  consider "c = CHR 0x22" | "c = CHR 0x5C" | "c = CHR 0x0A" | "c = CHR 0x0D" | "c = CHR 0x09"
    | "c \<noteq> CHR 0x22" "c \<noteq> CHR 0x5C" "c \<noteq> CHR 0x0A" "c \<noteq> CHR 0x0D" "c \<noteq> CHR 0x09"
    by blast
  then show ?thesis
  proof cases
    case 6
    then show ?thesis
      using hex body_plain [OF _ 6(1,2) assms]
      by (cases "byte c < 32") (simp_all add: json_escape_def)
  qed (use esc in \<open>simp_all add: json_escape_def\<close>)
qed

lemma literal_string: "string_literal (json_string t)"
proof -
  have "literal_body (concat (map json_escape t))"
    by (induction t) (simp_all add: body_end literal_escaped)
  then show ?thesis
    by (auto simp: string_literal_def json_string_def)
qed

lemma whole_nat_str: "whole_number (nat_str n)"
proof (cases "n = 0")
  case True
  moreover have "nat_str 0 = ''0''"
    by code_simp
  ultimately show ?thesis
    by (simp add: whole_number_def is_ascii_digit_def byte_def)
next
  case False
  then show ?thesis
    using nat_str_leading [of n] nat_str_digits [of n] by (simp add: whole_number_def list_all_iff)
qed

lemmas json_written = json_text [OF literal_string] json_num [OF whole_nat_str]

text \<open>An object that is being written.\<close>

definition members_of :: "json_object \<Rightarrow> (string \<times> string) list \<Rightarrow> bool" where
  "members_of o' ms \<longleftrightarrow> o' = ''{'' @ join (map member ms) \<and> (\<forall>kv \<in> set ms. string_literal (fst kv) \<and> json (snd kv))"

lemma join_snoc: "join (ss @ [s]) = (if ss = [] then s else join ss @ CHR '','' # s)"
  by (induction ss rule: join.induct) auto

lemma join_not_Nil: "ss \<noteq> [] \<Longrightarrow> \<forall>s \<in> set ss. s \<noteq> [] \<Longrightarrow> join ss \<noteq> []"
  by (induction ss rule: join.induct) auto

lemma member_not_Nil: "member kv \<noteq> []"
  by (simp add: member_def)

definition writing :: "json_object \<Rightarrow> bool" where
  "writing o' \<longleftrightarrow> (\<exists>ms. members_of o' ms)"

named_theorems writings

lemma writing_new [writings]: "writing jo_new"
  by (auto simp: writing_def members_of_def jo_new_def intro: exI [of _ "[]"])

lemma writing_raw [writings]:
  assumes "writing o'" and "json v"
  shows "writing (jo_raw o' key v)"
proof -
  obtain ms where ms: "members_of o' ms"
    using assms(1) by (auto simp: writing_def)
  have "1 < length o' \<longleftrightarrow> ms \<noteq> []"
    using ms join_not_Nil [of "map member ms"] member_not_Nil by (auto simp: members_of_def)
  then have "members_of (jo_raw o' key v) (ms @ [(json_string key, v)])"
    using ms assms(2) literal_string by (auto simp: members_of_def jo_raw_def jo_key_def join_snoc member_def)
  then show ?thesis
    by (auto simp: writing_def)
qed

lemma writing_more [writings]:
  "writing o' \<Longrightarrow> writing (jo_str o' key s)" "writing o' \<Longrightarrow> writing (jo_num o' key n)"
  "writing o' \<Longrightarrow> writing (jo_opt_str o' key v)" "writing o' \<Longrightarrow> writing (jo_opt_num o' key w)"
  by (auto simp: jo_str_def jo_num_def jo_opt_str_def jo_opt_num_def intro!: writing_raw json_written json_null
      split: option.split)

lemma json_finish [writings]: "writing o' \<Longrightarrow> json (jo_finish o')"
  using json_object by (fastforce simp: writing_def members_of_def jo_finish_def)

lemma writing_object [writings]: "writing o' \<Longrightarrow> writing p \<Longrightarrow> writing (jo_object o' key p)"
  by (simp add: jo_object_def writing_raw json_finish)

lemma json_opt_str: "json (opt_str v)"
  by (simp add: opt_str_def json_written json_null split: option.split)

lemma quoted:
  "json_string ''v'' = ''\"v\"''" "json_string ''ok'' = ''\"ok\"''" "json_string ''cmd'' = ''\"cmd\"''"
  "json_string ''error'' = ''\"error\"''" "json_string ''message'' = ''\"message\"''"
  "json_string ''status'' = ''\"status\"''" "json_string ''monitors'' = ''\"monitors\"''"
  "json_string ''port'' = ''\"port\"''" "json_string ''pairing_identity'' = ''\"pairing_identity\"''"
  "json_string ''state'' = ''\"state\"''"
  by (simp_all add: json_string_def json_escape_def byte_def)

text \<open>An object of named members.\<close>

lemma json_named:
  assumes "\<forall>kv \<in> set ms. json (snd kv)"
  shows "json (''{'' @ join (map (\<lambda>(k, v). json_string k @ CHR '':'' # v) ms) @ ''}'')"
proof -
  have "map (\<lambda>(k, v). json_string k @ CHR '':'' # v) ms = map member (map (\<lambda>(k, v). (json_string k, v)) ms)"
    by (auto simp: member_def)
  moreover have "\<forall>kv \<in> set (map (\<lambda>(k, v). (json_string k, v)) ms). string_literal (fst kv) \<and> json (snd kv)"
    using assms literal_string by auto
  ultimately show ?thesis
    using json_object by metis
qed

lemma json_error_response: "json (error_response code message)"
  using json_named [of "[(''v'', nat_str (nat CONTROL_IPC_VERSION)), (''ok'', ''false''),
      (''error'', json_string code), (''message'', json_string message)]"]
  by (simp add: error_response_def quoted json_written json_false)

lemma json_ok_response:
  "json (ok_response cmd None)"
  "json_string k = CHR 0x22 # k @ [CHR 0x22] \<Longrightarrow> json v \<Longrightarrow> json (ok_response cmd (Some (k, v)))"
  using json_named [of "[(''v'', nat_str (nat CONTROL_IPC_VERSION)), (''ok'', ''true''), (''cmd'', json_string cmd)]"]
    json_named [of "[(''v'', nat_str (nat CONTROL_IPC_VERSION)), (''ok'', ''true''), (''cmd'', json_string cmd), (k, v)]"]
  by (simp_all add: ok_response_def quoted json_written json_true)

lemma json_monitors: "json (monitors env s)"
proof -
  have "json (monitor_entry s port)" for port
    using json_named [of "[(''port'', json_string port),
        (''pairing_identity'', opt_str (if ls_port (sd_link s) = Some port then ls_pairing_identity (sd_link s) else None)),
        (''state'', json_string (if ls_port (sd_link s) = Some port then link_state_name (ls_state (sd_link s)) else ''unknown''))]"]
    by (simp add: monitor_entry_def Let_def quoted json_opt_str json_written)
  then show ?thesis
    using json_array [of "map (monitor_entry s) (he_candidates env)"] by (simp add: monitors_def)
qed

lemma provider_status_Ok:
  obtains st cx permission counters where
    "provider_status now provider = Ok (st, cx, permission, counters)" and "json counters"
proof (cases provider)
  case None
  then show ?thesis
    using that json_null by (simp add: provider_status_def)
next
  case (Some st)
  obtain stats t where st: "st = (stats, t)"
    by (cases st)
  have "json (provider_counters stats)"
    by (simp add: provider_counters_def Let_def writings)
  moreover have "\<exists>n. name_of context_names a = Ok n" "\<exists>n. name_of permission_names p = Ok n" for a p
    by (cases a; simp add: name_of_def context_names_def) (cases p; simp add: name_of_def permission_names_def)
  moreover obtain c where "name_of context_names (ac_availability (cr_context (ct_reading now t))) = Ok c"
    using calculation(2) by blast
  moreover obtain p where "(case ct_permission t of None \<Rightarrow> Ok None
      | Some p \<Rightarrow> and_then (name_of permission_names p) (\<lambda>n. Ok (Some n))) = (Ok p :: (string option, unit) res)"
  proof (cases "ct_permission t")
    case (Some q)
    obtain n where "name_of permission_names q = Ok n"
      using calculation(3) by blast
    then show ?thesis
      using Some that [of "Some n"] by simp
  qed (use that in simp)
  ultimately show ?thesis
    using that Some st by (simp add: provider_status_def Let_def)
qed

lemma daemon_status_json: "\<exists>text. daemon_status env s control = Ok text \<and> json text"
proof -
  have metrics: "writing o' \<Longrightarrow> writing (foldl (\<lambda>o' (name, a). jo_str o' name a) o' gs)" for o' gs
    by (induction gs arbitrary: o') (auto simp: writings)
  obtain st cx permission counters where
    p: "provider_status (he_now_ms env) (he_provider env) = Ok (st, cx, permission, counters)" "json counters"
    by (rule provider_status_Ok)
  show ?thesis
    using p metrics [OF writing_new]
    by (simp add: daemon_status_def Let_def link_object_def control_object_def writings)
qed

section \<open>Every reply is one JSON object on one line\<close>

lemma printable_marks: "printable ''null''" "printable ''true''" "printable ''false''" "printable ''[''" "printable '']''"
    "printable ''{''" "printable ''}''" "32 \<le> byte (CHR '','')" "32 \<le> byte (CHR '':'')"
  by (simp_all add: printable_def byte_def)

lemma printable_join: "\<forall>s \<in> set ss. printable s \<Longrightarrow> printable (join ss)"
  by (induction ss rule: join.induct) (simp_all add: printables printable_Cons printable_marks)

lemma literal_printable: "literal_body s \<Longrightarrow> printable s"
proof (induction rule: literal_body.induct)
  case (body_escape c s)
  then have "32 \<le> byte c"
    by (auto simp: byte_def)
  with body_escape show ?case
    by (simp add: printable_Cons byte_def)
next
  case (body_unicode a b c d s)
  have "32 \<le> byte x" if "is_ascii_hexdigit x" for x
    using that by (auto simp: is_ascii_hexdigit_def is_ascii_digit_def)
  with body_unicode show ?case
    by (simp add: printable_Cons) (simp add: byte_def)
qed (simp_all add: printable_Cons)

lemma json_printable: "json v \<Longrightarrow> printable v"
proof (induction rule: json.induct)
  case (json_text s)
  then show ?case
    using literal_printable by (auto simp: string_literal_def printable_Cons printable_append byte_def printable_def)
next
  case (json_num s)
  then show ?case
    by (auto simp: whole_number_def printable_def list_all_iff is_ascii_digit_def)
next
  case (json_array vs)
  then have "printable (join vs)"
    by (intro printable_join) simp
  then show ?case
    using printable_marks(4,5) by (simp only: printable_append)
next
  case (json_object ms)
  have "printable k" if "string_literal k" for k
    using that literal_printable by (auto simp: string_literal_def printable_Cons printable_append byte_def printable_def)
  then have "printable (join (map member ms))"
    using json_object by (intro printable_join) (auto simp: member_def printable_append printable_Cons printable_marks)
  then show ?case
    using printable_marks(6,7) by (simp only: printable_append)
qed (simp_all only: printables printable_marks)

lemma reply_text_json: "reply_text t \<Longrightarrow> json t"
  using json_error_response json_ok_response(1) by (auto simp: reply_text_def)

lemma responses_open: "hd (error_response code message) = CHR ''{''" "hd (ok_response cmd body) = CHR ''{''"
  by (simp_all add: error_response_def ok_response_def split: option.split)

lemma reply_text_open: "reply_text t \<Longrightarrow> hd t = CHR ''{''"
  using responses_open by (auto simp: reply_text_def)

text \<open>
  C12. Whatever is asked of the daemon is answered by one JSON object on one line. The status and the
  monitors, whatever state the supervisor is in and whatever texts a device, a path or an error has
  put into it; the acknowledgement of \<open>stop\<close>, the only request that sets the stop flag; and every
  answer the supervisor gives in a run, or the error when it gives none: each is an object in the
  grammar of JSON, its strings well-formed literals, without a control character, so that the
  socket's framing by lines holds.
\<close>

theorem every_request_gets_json:
  assumes "sup_run config_port envs (supervisor_new g file) = (res, u)" and "res \<noteq> SupPanics"
    and "\<forall>t. ans = SaReply t \<longrightarrow> (r, t) \<in> set (su_replies u)"
  shows "\<exists>text. daemon_handle env (su_shared v) ans r control = Ok (text, r = RqStop)
    \<and> json text \<and> hd text = CHR ''{'' \<and> (\<forall>c \<in> set text. 32 \<le> byte c)"
proof -
  have "balanced u"
    using sup_run_balanced [OF assms(1) supervisor_new_ok(1) assms(2)] .
  then have "reply_text t" if "ans = SaReply t" for t
    using assms(3) that by (fastforce simp: balanced_def)
  then have sup: "json x \<and> hd x = CHR ''{''"
    if "x = (case ans of SaStopping \<Rightarrow> error_response ''stopping'' ''the daemon is stopping''
      | SaReply response \<Rightarrow> response | SaTimeout \<Rightarrow> error_response ''timeout'' message)" for x message
    using that reply_text_json reply_text_open json_error_response responses_open by (cases ans) simp_all
  obtain t where "daemon_status env (su_shared v) control = Ok t" "json t"
    using daemon_status_json by blast
  then have "\<exists>text. daemon_handle env (su_shared v) ans r control = Ok (text, r = RqStop) \<and> json text
      \<and> hd text = CHR ''{''"
    using sup [OF refl] json_monitors json_ok_response responses_open quoted(6,7)
    by (cases r) (simp_all add: daemon_handle_def)
  then show ?thesis
    using json_printable by (auto simp: printable_def)
qed

definition sample_handler :: handler_env where
  "sample_handler = \<lparr>he_version = ''1.2.3'', he_pid = 7, he_uid = 501, he_started_ms = 2 ^ 64 - 1, he_now_ms = 0,
     he_provider = None, he_candidates = [''/dev/cu.usbserial-1'']\<rparr>"

theorem every_request_gets_json_witness:
  "\<exists>text. daemon_handle sample_handler (su_shared (supervisor_new sample_groups None)) SaTimeout RqMonitors
      control_stats_default = Ok (text, False)
     \<and> json text \<and> hd text = CHR ''{'' \<and> (\<forall>c \<in> set text. 32 \<le> byte c)"
  using every_request_gets_json [of None "[]" sample_groups None SupGoing "supervisor_new sample_groups None" SaTimeout
      RqMonitors sample_handler "supervisor_new sample_groups None" control_stats_default]
  by simp

end
