(* ===== verification/Hook_Json.thy ===== *)
theory Hook_Json
  imports Utf8_Text
begin

text \<open>
  The strict JSON reader and writer of \<^verbatim>\<open>host/cli/src/hooks/json.rs\<close>, through which the agents' hook
  configurations are edited. The parser's position \<open>p\<close> in the text is the remaining suffix here, so a
  refusal inside the parser carries what was left; \<open>parse_limited\<close> turns that into the byte offset
  the message names. \<open>&text[p..]\<close> panics off a character boundary, and so does the model.
\<close>

section \<open>Values\<close>

definition MAX_BYTES :: nat where
  "MAX_BYTES = 2 ^ 20"

definition MAX_DEPTH :: nat where
  "MAX_DEPTH = 32"

datatype hjson =
    Null
  | Bool bool
  | Num string
  | Str string
  | Arr "hjson list"
  | Obj "(string \<times> hjson) list"

definition hj_get :: "hjson \<Rightarrow> string \<Rightarrow> hjson option" where
  "hj_get v key = (case v of Obj flds \<Rightarrow> map_option snd (find (\<lambda>f. fst f = key) flds) | _ \<Rightarrow> None)"

definition as_str :: "hjson \<Rightarrow> string option" where
  "as_str v = (case v of Str t \<Rightarrow> Some t | _ \<Rightarrow> None)"

definition as_array :: "hjson \<Rightarrow> hjson list option" where
  "as_array v = (case v of Arr items \<Rightarrow> Some items | _ \<Rightarrow> None)"

text \<open>The first field of that key is replaced in place; without one, a field is appended.\<close>

fun set_field :: "string \<Rightarrow> hjson \<Rightarrow> (string \<times> hjson) list \<Rightarrow> (string \<times> hjson) list" where
  "set_field key v [] = [(key, v)]"
| "set_field key v (f # flds) =
     (if fst f = key then (key, v) # flds else f # set_field key v flds)"

definition hj_set :: "hjson \<Rightarrow> string \<Rightarrow> hjson \<Rightarrow> hjson" where
  "hj_set o' key v = (case o' of Obj flds \<Rightarrow> Obj (set_field key v flds) | _ \<Rightarrow> o')"

definition hj_remove :: "hjson \<Rightarrow> string \<Rightarrow> hjson \<times> bool" where
  "hj_remove o' key = (case o' of
      Obj flds \<Rightarrow>
        (let kept = filter (\<lambda>f. fst f \<noteq> key) flds in (Obj kept, length kept \<noteq> length flds))
    | _ \<Rightarrow> (o', False))"

definition is_empty_object :: "hjson \<Rightarrow> bool" where
  "is_empty_object v = (v = Obj [])"

section \<open>Refusals\<close>

datatype why =
    UnexpectedData
  | TooDeep
  | NoComments
  | UnexpectedCharacter
  | UnexpectedEnd
  | ExpectedCommaOr char
  | ExpectedKey
  | DuplicateKey string
  | ExpectedColon
  | BadUEscape
  | UnterminatedString
  | LoneSurrogate
  | BadEscape
  | ControlCharacter
  | BadNumber

datatype json_error = LargerThan nat | AtByte why nat

text \<open>\<open>fail\<close> with \<open>self.p\<close> at the suffix \<open>s\<close>.\<close>

definition hj_fail :: "string \<Rightarrow> why \<Rightarrow> ('a, why \<times> nat) res" where
  "hj_fail s w = Err (w, length s)"

section \<open>The reader\<close>

definition is_json_ws :: "char \<Rightarrow> bool" where
  "is_json_ws c \<longleftrightarrow> c = CHR '' '' \<or> c = CHR 0x09 \<or> c = CHR 0x0A \<or> c = CHR 0x0D"

definition hj_skip_ws :: "string \<Rightarrow> string" where
  "hj_skip_ws s = dropWhile is_json_ws s"

definition hj_hex4 :: "string \<Rightarrow> (nat \<times> string, why \<times> nat) res" where
  "hj_hex4 s =
     (if 4 \<le> length s \<and> list_all is_ascii_hexdigit (take 4 s)
      then Ok (foldl (\<lambda>n c. n * 16 + hex_digit c) 0 (take 4 s), drop 4 s)
      else hj_fail s BadUEscape)"

text \<open>What follows \<open>\\u\<close>: one escape, or two that form a surrogate pair.\<close>

definition hj_unicode :: "string \<Rightarrow> (string \<times> string, why \<times> nat) res" where
  "hj_unicode s =
     and_then (hj_hex4 s) (\<lambda>(first, s).
     and_then
       (if 0xD800 \<le> first \<and> first < 0xDC00 then
          (case strip_prefix [CHR 0x5C, CHR ''u''] s of
             None \<Rightarrow> hj_fail s LoneSurrogate
           | Some s \<Rightarrow>
               and_then (hj_hex4 s) (\<lambda>(second, s).
               if 0xDC00 \<le> second \<and> second < 0xE000
               then Ok (0x10000 + (first - 0xD800) * 1024 + (second - 0xDC00), s)
               else hj_fail s LoneSurrogate))
        else Ok (first, s))
       (\<lambda>(code, s). if scalar code then Ok (utf8_char code, s) else hj_fail s LoneSurrogate))"

text \<open>One escape, after its backslash.\<close>

definition hj_escape :: "string \<Rightarrow> (string \<times> string, why \<times> nat) res" where
  "hj_escape s =
     (case s of
        [] \<Rightarrow> hj_fail s UnterminatedString
      | esc # r \<Rightarrow>
          if esc = CHR 0x22 then Ok ([CHR 0x22], r)
          else if esc = CHR 0x5C then Ok ([CHR 0x5C], r)
          else if esc = CHR ''/'' then Ok (''/'', r)
          else if esc = CHR ''b'' then Ok ([CHR 0x08], r)
          else if esc = CHR ''f'' then Ok ([CHR 0x0C], r)
          else if esc = CHR ''n'' then Ok ([CHR 0x0A], r)
          else if esc = CHR ''r'' then Ok ([CHR 0x0D], r)
          else if esc = CHR ''t'' then Ok ([CHR 0x09], r)
          else if esc = CHR ''u'' then hj_unicode r
          else hj_fail s BadEscape)"

lemma hj_hex4_shorter: "hj_hex4 s = Ok (n, r) \<Longrightarrow> length r < length s"
  by (auto simp: hj_hex4_def hj_fail_def split: if_split_asm)

lemma hj_unicode_shorter: "hj_unicode s = Ok (t, r) \<Longrightarrow> length r < length s"
  by (auto simp: hj_unicode_def hj_fail_def and_then_eq_Ok strip_prefix_Some
      dest!: hj_hex4_shorter split: if_split_asm option.splits)

lemma hj_escape_shorter: "hj_escape s = Ok (t, r) \<Longrightarrow> length r < length s"
  by (auto simp: hj_escape_def hj_fail_def dest!: hj_unicode_shorter split: list.splits if_split_asm)

text \<open>The loop of \<open>string\<close>, after the opening quote.\<close>

function hj_string :: "string \<Rightarrow> (string \<times> string, why \<times> nat) res" where
  "hj_string s =
     (case s of
        [] \<Rightarrow> hj_fail s UnterminatedString
      | c # r \<Rightarrow>
          if c = CHR 0x22 then Ok ([], r)
          else if c = CHR 0x5C then
            and_then (hj_escape r) (\<lambda>(t, r).
            and_then (hj_string r) (\<lambda>(out, r). Ok (t @ out, r)))
          else if byte c < 0x20 then hj_fail s ControlCharacter
          else if cont_byte (byte c) then Panic
          else
            (let n = char_len c - 1 in
             and_then (hj_string (drop n r)) (\<lambda>(out, rest). Ok (c # take n r @ out, rest))))"
  by pat_completeness auto
termination
  by (relation "measure length") (auto dest: hj_escape_shorter)

declare hj_string.simps [simp del]

definition hj_digits :: "string \<Rightarrow> nat \<times> string" where
  "hj_digits s = (length (takeWhile is_ascii_digit s), dropWhile is_ascii_digit s)"

definition hj_minus :: "string \<Rightarrow> string" where
  "hj_minus s = (case s of [] \<Rightarrow> s | c # r \<Rightarrow> if c = CHR ''-'' then r else s)"

definition hj_int :: "string \<Rightarrow> (string, why \<times> nat) res" where
  "hj_int s =
     (case s of
        [] \<Rightarrow> hj_fail s BadNumber
      | c # r \<Rightarrow>
          if c = CHR ''0'' then Ok r
          else if is_ascii_digit c then Ok (snd (hj_digits s))
          else hj_fail s BadNumber)"

definition hj_some_digits :: "string \<Rightarrow> (string, why \<times> nat) res" where
  "hj_some_digits s =
     (case hj_digits s of (k, s) \<Rightarrow> if k = 0 then hj_fail s BadNumber else Ok s)"

definition hj_fraction :: "string \<Rightarrow> (string, why \<times> nat) res" where
  "hj_fraction s =
     (case s of
        [] \<Rightarrow> Ok s
      | c # r \<Rightarrow> if c = CHR ''.'' then hj_some_digits r else Ok s)"

definition hj_exponent :: "string \<Rightarrow> (string, why \<times> nat) res" where
  "hj_exponent s =
     (case s of
        [] \<Rightarrow> Ok s
      | c # r \<Rightarrow>
          if c = CHR ''e'' \<or> c = CHR ''E'' then
            hj_some_digits (case r of [] \<Rightarrow> r | d # q \<Rightarrow> if d = CHR ''+'' \<or> d = CHR ''-'' then q else r)
          else Ok s)"

definition hj_number :: "string \<Rightarrow> (hjson \<times> string, why \<times> nat) res" where
  "hj_number s =
     and_then (hj_int (hj_minus s)) (\<lambda>r.
     and_then (hj_fraction r) (\<lambda>r.
     and_then (hj_exponent r) (\<lambda>r. Ok (Num (take (length s - length r) s), r))))"

definition bad_delimiter :: "string \<Rightarrow> char \<Rightarrow> ('a, why \<times> nat) res" where
  "bad_delimiter s close =
     (case s of
        [] \<Rightarrow> hj_fail s (ExpectedCommaOr close)
      | c # _ \<Rightarrow> if c = CHR ''/'' then hj_fail s NoComments else hj_fail s (ExpectedCommaOr close))"

text \<open>The arms of \<open>value\<close> that read no container. A literal that is not all there is a stray character.\<close>

definition hj_scalar :: "string \<Rightarrow> (hjson \<times> string, why \<times> nat) res" where
  "hj_scalar s =
     (case s of
        [] \<Rightarrow> hj_fail s UnexpectedEnd
      | c # r \<Rightarrow>
          if c = CHR 0x22 then and_then (hj_string r) (\<lambda>(t, r). Ok (Str t, r))
          else
            (case (strip_prefix ''true'' s, strip_prefix ''false'' s, strip_prefix ''null'' s) of
               (Some r, _, _) \<Rightarrow> Ok (Bool True, r)
             | (None, Some r, _) \<Rightarrow> Ok (Bool False, r)
             | (None, None, Some r) \<Rightarrow> Ok (Null, r)
             | (None, None, None) \<Rightarrow>
                 if c = CHR ''-'' \<or> is_ascii_digit c then hj_number s
                 else if c = CHR ''/'' then hj_fail s NoComments
                 else hj_fail s UnexpectedCharacter))"

text \<open>A key of an object up to its value: the first half of the body of the loop of \<open>object\<close>.\<close>

definition hj_key :: "(string \<times> hjson) list \<Rightarrow> string \<Rightarrow> (string \<times> string, why \<times> nat) res" where
  "hj_key flds s =
     (case hj_skip_ws s of
        [] \<Rightarrow> hj_fail [] ExpectedKey
      | c # r \<Rightarrow>
          if c \<noteq> CHR 0x22 then hj_fail (c # r) (if c = CHR ''/'' then NoComments else ExpectedKey)
          else
            and_then (hj_string r) (\<lambda>(key, s).
            if key \<in> set (map fst flds) then hj_fail s (DuplicateKey key)
            else
              (case hj_skip_ws s of
                 [] \<Rightarrow> hj_fail [] ExpectedColon
               | c # r \<Rightarrow> if c \<noteq> CHR '':'' then hj_fail (c # r) ExpectedColon else Ok (key, hj_skip_ws r))))"

text \<open>After an element: whether another follows, and the text after the delimiter.\<close>

definition hj_next :: "char \<Rightarrow> string \<Rightarrow> (bool \<times> string, why \<times> nat) res" where
  "hj_next close s =
     (case hj_skip_ws s of
        [] \<Rightarrow> bad_delimiter [] close
      | c # r \<Rightarrow>
          if c = CHR '','' then Ok (True, r)
          else if c = close then Ok (False, r)
          else bad_delimiter (c # r) close)"

text \<open>
  \<open>value\<close>, the loop of \<open>object\<close> with the fields read so far, and the loop of \<open>array\<close> with the items.
\<close>

function (domintros)
    hj_value :: "nat \<Rightarrow> string \<Rightarrow> (hjson \<times> string, why \<times> nat) res"
  and hj_fields :: "nat \<Rightarrow> (string \<times> hjson) list \<Rightarrow> string \<Rightarrow> (hjson \<times> string, why \<times> nat) res"
  and hj_items :: "nat \<Rightarrow> hjson list \<Rightarrow> string \<Rightarrow> (hjson \<times> string, why \<times> nat) res" where
  "hj_value d s =
     (if MAX_DEPTH \<le> d then hj_fail s TooDeep
      else (case s of
        [] \<Rightarrow> hj_fail s UnexpectedEnd
      | c # r \<Rightarrow>
          if c = CHR ''{'' then
            (let r = hj_skip_ws r in
             if r \<noteq> [] \<and> hd r = CHR ''}'' then Ok (Obj [], tl r) else hj_fields d [] r)
          else if c = CHR ''['' then
            (let r = hj_skip_ws r in
             if r \<noteq> [] \<and> hd r = CHR '']'' then Ok (Arr [], tl r) else hj_items d [] r)
          else hj_scalar s))"
| "hj_fields d flds s =
     and_then (hj_key flds s) (\<lambda>(key, s).
     and_then (hj_value (d + 1) s) (\<lambda>(v, s).
     and_then (hj_next CHR ''}'' s) (\<lambda>(more, s).
     if more then hj_fields d (flds @ [(key, v)]) s else Ok (Obj (flds @ [(key, v)]), s))))"
| "hj_items d items s =
     and_then (hj_value (d + 1) (hj_skip_ws s)) (\<lambda>(v, s).
     and_then (hj_next CHR '']'' s) (\<lambda>(more, s).
     if more then hj_items d (items @ [v]) s else Ok (Arr (items @ [v]), s)))"
  by pat_completeness auto

subsection \<open>Every step consumes what it reads\<close>

lemma hj_skip_ws_shorter: "length (hj_skip_ws s) \<le> length s"
  by (simp add: hj_skip_ws_def length_dropWhile_le)

lemma hj_skip_ws_Cons: "hj_skip_ws s = c # r \<Longrightarrow> length r < length s"
  using hj_skip_ws_shorter [of s] by simp

lemma hj_string_shorter: "hj_string s = Ok (t, r) \<Longrightarrow> length r < length s"
proof (induction s arbitrary: t r rule: hj_string.induct)
  case (1 s)
  from "1.prems" show ?case
    by (subst (asm) hj_string.simps)
      (fastforce simp: hj_fail_def and_then_eq_Ok Let_def dest: hj_escape_shorter "1.IH"
        split: list.splits if_split_asm)
qed

lemma hj_key_Ok:
  "hj_key flds s = Ok (key, r) \<longleftrightarrow>
     (\<exists>q s1 r1. hj_skip_ws s = CHR 0x22 # q \<and> hj_string q = Ok (key, s1)
        \<and> key \<notin> set (map fst flds) \<and> hj_skip_ws s1 = CHR '':'' # r1 \<and> r = hj_skip_ws r1)"
  by (cases "hj_skip_ws s")
    (auto simp: hj_key_def hj_fail_def and_then_eq_Ok neq_Nil_conv split: list.split_asm if_split_asm)

lemma hj_key_shorter: "hj_key flds s = Ok (key, r) \<Longrightarrow> length r < length s"
  using hj_skip_ws_shorter
  by (fastforce simp: hj_key_Ok dest!: hj_skip_ws_Cons hj_string_shorter intro: le_less_trans)

lemma hj_next_shorter: "hj_next close s = Ok (more', r) \<Longrightarrow> length r < length s"
  by (auto simp: hj_next_def bad_delimiter_def hj_fail_def dest!: hj_skip_ws_Cons
      split: list.splits if_split_asm)

text \<open>A number's stages each drop a prefix; the integer part is not empty.\<close>

lemma hj_digits_split: "\<exists>p. s = p @ snd (hj_digits s) \<and> list_all is_ascii_digit p \<and> length p = fst (hj_digits s)"
  by (rule exI [of _ "takeWhile is_ascii_digit s"]) (auto simp: hj_digits_def list_all_iff dest: set_takeWhileD)

lemma hj_minus_split: "\<exists>p. s = p @ hj_minus s \<and> set p \<subseteq> {CHR ''-''}"
  by (cases s) (auto simp: hj_minus_def)

lemma hj_int_split:
  assumes "hj_int s = Ok r"
  shows "\<exists>p. s = p @ r \<and> p \<noteq> [] \<and> list_all is_ascii_digit p"
proof (cases s)
  case Nil
  then show ?thesis
    using assms by (simp add: hj_int_def hj_fail_def)
next
  case (Cons c q)
  have zero: "is_ascii_digit CHR ''0''"
    by (simp add: is_ascii_digit_def byte_def)
  show ?thesis
  proof (cases "c = CHR ''0''")
    case True
    then show ?thesis
      using assms zero unfolding Cons by (intro exI [of _ "[c]"]) (simp add: hj_int_def)
  next
    case False
    then have "is_ascii_digit c" "r = snd (hj_digits s)"
      using assms unfolding Cons by (auto simp: hj_int_def hj_fail_def split: if_split_asm)
    then show ?thesis
      using hj_digits_split [of s] unfolding Cons by (auto simp: hj_digits_def)
  qed
qed

lemma hj_some_digits_split:
  "hj_some_digits s = Ok r \<Longrightarrow> \<exists>p. s = p @ r \<and> p \<noteq> [] \<and> list_all is_ascii_digit p"
  using hj_digits_split [of s]
  by (auto simp: hj_some_digits_def hj_fail_def split: prod.splits if_split_asm)

definition number_char :: "char \<Rightarrow> bool" where
  "number_char c \<longleftrightarrow> is_ascii_digit c \<or> c \<in> {CHR ''-'', CHR ''+'', CHR ''.'', CHR ''e'', CHR ''E''}"

lemma digits_number_char: "list_all is_ascii_digit p \<Longrightarrow> list_all number_char p"
  by (auto simp: list_all_iff number_char_def)

lemma hj_fraction_split: "hj_fraction s = Ok r \<Longrightarrow> \<exists>p. s = p @ r \<and> list_all number_char p"
  by (cases s) (auto simp: hj_fraction_def number_char_def digits_number_char
      dest!: hj_some_digits_split split: if_split_asm)

lemma hj_exponent_split: "hj_exponent s = Ok r \<Longrightarrow> \<exists>p. s = p @ r \<and> list_all number_char p"
  by (cases s; cases "tl s") (auto simp: hj_exponent_def number_char_def digits_number_char
      dest!: hj_some_digits_split split: if_split_asm)

lemma hj_number_split:
  assumes "hj_number s = Ok (v, r)"
  shows "\<exists>p. s = p @ r \<and> p \<noteq> [] \<and> list_all number_char p \<and> v = Num p"
proof -
  obtain a b where i: "hj_int (hj_minus s) = Ok a" and f: "hj_fraction a = Ok b"
    and e: "hj_exponent b = Ok r" and v: "v = Num (take (length s - length r) s)"
    using assms by (auto simp: hj_number_def and_then_eq_Ok)
  obtain p1 p2 p3 p4 where "s = p1 @ hj_minus s" "hj_minus s = p2 @ a" "a = p3 @ b" "b = p4 @ r"
    "p2 \<noteq> []" "set p1 \<subseteq> {CHR ''-''}" "list_all is_ascii_digit p2" "list_all number_char p3"
    "list_all number_char p4"
    using hj_minus_split hj_int_split [OF i] hj_fraction_split [OF f] hj_exponent_split [OF e] by metis
  then have "s = (p1 @ p2 @ p3 @ p4) @ r" "p1 @ p2 @ p3 @ p4 \<noteq> []" "list_all number_char (p1 @ p2 @ p3 @ p4)"
    by (auto simp: digits_number_char list_all_iff number_char_def)
  then show ?thesis
    using v by (metis append_eq_conv_conj diff_add_inverse2 length_append)
qed

lemma hj_number_shorter: "hj_number s = Ok (v, r) \<Longrightarrow> length r < length s"
  by (auto dest!: hj_number_split)

lemma strip_prefix_shorter: "strip_prefix p s = Some r \<Longrightarrow> p \<noteq> [] \<Longrightarrow> length r < length s"
  by (auto simp: strip_prefix_Some)

lemma hj_scalar_shorter: "hj_scalar s = Ok (v, r) \<Longrightarrow> length r < length s"
  by (cases s)
    (auto simp: hj_scalar_def hj_fail_def and_then_eq_Ok split: option.split_asm if_split_asm
      dest: strip_prefix_shorter hj_number_shorter hj_string_shorter)

text \<open>
  The recursive calls of the two loops take what \<open>value\<close> left, so that the recursion ends is proved
  from a fact about the function's own results: a value takes at least one byte.
\<close>

lemma reader_shorter:
  "hj_value_hj_fields_hj_items_dom (Inl (d, s)) \<Longrightarrow> hj_value d s = Ok (v, r) \<Longrightarrow> length r < length s"
  "hj_value_hj_fields_hj_items_dom (Inr (Inl (d, flds, s))) \<Longrightarrow> hj_fields d flds s = Ok (v, r) \<Longrightarrow> length r < length s"
  "hj_value_hj_fields_hj_items_dom (Inr (Inr (d, items, s))) \<Longrightarrow> hj_items d items s = Ok (v, r) \<Longrightarrow> length r < length s"
proof (induction d s and d flds s and d items s arbitrary: v r and v r and v r
    rule: hj_value_hj_fields_hj_items.pinduct)
  case (1 d s)
  have ws: "length (tl (hj_skip_ws q)) \<le> length q" for q
    using hj_skip_ws_shorter [of q] by simp
  note got = "1.prems" [unfolded hj_value.psimps [OF "1.hyps"]]
  show ?case
  proof (cases s)
    case Nil
    then show ?thesis using got by (simp add: hj_fail_def split: if_split_asm)
  next
    case (Cons c q)
    have obj: "length r < Suc (length q)" if "hj_fields d [] (hj_skip_ws q) = Ok (v, r)" "c = CHR ''{''" "\<not> MAX_DEPTH \<le> d"
      "\<not> (hj_skip_ws q \<noteq> [] \<and> hd (hj_skip_ws q) = CHR ''}'')"
      using "1.IH"(1) [OF that(3) Cons that(2) refl that(4,1)] hj_skip_ws_shorter [of q] by simp
    have arr: "length r < Suc (length q)" if "hj_items d [] (hj_skip_ws q) = Ok (v, r)" "c = CHR ''[''" "\<not> MAX_DEPTH \<le> d"
      "\<not> (hj_skip_ws q \<noteq> [] \<and> hd (hj_skip_ws q) = CHR '']'')"
      using "1.IH"(2) [OF that(3) Cons _ that(2) refl that(4,1)] that(2) hj_skip_ws_shorter [of q] by simp
    show ?thesis
    proof (cases "c = CHR ''{'' \<or> c = CHR ''[''")
      case True
      have "length r < Suc (length q)" if "r = tl (hj_skip_ws q)"
        using hj_skip_ws_shorter [of q] that by simp
      then show ?thesis
        using got obj arr True unfolding Cons by (auto simp: hj_fail_def Let_def split: if_split_asm)
    next
      case False
      then show ?thesis
        using got unfolding Cons by (auto simp: hj_fail_def dest: hj_scalar_shorter split: if_split_asm)
    qed
  qed
next
  case (2 d flds s)
  note got = "2.prems" [unfolded hj_fields.psimps [OF "2.hyps"]]
  then obtain key s1 v1 s2 more' s3 where k: "hj_key flds s = Ok (key, s1)"
    and v1: "hj_value (d + 1) s1 = Ok (v1, s2)" and n: "hj_next CHR ''}'' s2 = Ok (more', s3)"
    by (auto simp: and_then_eq_Ok)
  have "length s3 < length s"
    using hj_key_shorter [OF k] "2.IH"(1) [OF k refl v1] hj_next_shorter [OF n] by linarith
  then show ?case
    using got k v1 n "2.IH"(2) [OF k refl v1 refl n refl] by (auto split: if_split_asm)
next
  case (3 d items s)
  note got = "3.prems" [unfolded hj_items.psimps [OF "3.hyps"]]
  then obtain v1 s2 more' s3 where v1: "hj_value (d + 1) (hj_skip_ws s) = Ok (v1, s2)"
    and n: "hj_next CHR '']'' s2 = Ok (more', s3)"
    by (auto simp: and_then_eq_Ok)
  have "length s3 < length s"
    using hj_skip_ws_shorter [of s] "3.IH"(1) [OF v1] hj_next_shorter [OF n] by linarith
  then show ?case
    using got v1 n "3.IH"(2) [OF v1 refl n refl] by (auto split: if_split_asm)
qed

termination hj_value
proof (relation "measure (\<lambda>x. case x of Inl (d, s) \<Rightarrow> 2 * length s
    | Inr (Inl (d, flds, s)) \<Rightarrow> 2 * length s + 1 | Inr (Inr (d, items, s)) \<Rightarrow> 2 * length s + 1)",
    goal_cases)
  case 1
  show ?case by simp
next
  case (2 d s c r q)
  then show ?case using hj_skip_ws_shorter [of r] by simp
next
  case (3 d s c r q)
  then show ?case using hj_skip_ws_shorter [of r] by simp
next
  case (4 d flds s x key s1)
  then show ?case using hj_key_shorter [of flds s key s1] by simp
next
  case (5 d flds s x key s1 y v s2 z more' s3)
  then have "length s1 < length s" "length s2 < length s1" "length s3 < length s2"
    using hj_key_shorter [of flds s key s1] reader_shorter(1) [of "d + 1" s1 v s2]
      hj_next_shorter [of "CHR ''}''" s2 more' s3] by auto
  then show ?case by simp
next
  case (6 d items s)
  then show ?case using hj_skip_ws_shorter [of s] by simp
next
  case (7 d items s y v s2 z more' s3)
  then have "length s2 < length (hj_skip_ws s)" "length s3 < length s2"
    using reader_shorter(1) [of "d + 1" "hj_skip_ws s" v s2] hj_next_shorter [of "CHR '']''" s2 more' s3] by auto
  then show ?case using hj_skip_ws_shorter [of s] by simp
qed

declare hj_value.simps [simp del] hj_fields.simps [simp del] hj_items.simps [simp del]

text \<open>\<open>parse_limited\<close> and \<open>parse\<close>: one value and nothing but white space around it.\<close>

definition hj_document :: "string \<Rightarrow> (hjson, why \<times> nat) res" where
  "hj_document text =
     and_then (hj_value 0 (hj_skip_ws text)) (\<lambda>(v, s).
     let s = hj_skip_ws s in if s \<noteq> [] then hj_fail s UnexpectedData else Ok v)"

definition parse_limited :: "string \<Rightarrow> nat \<Rightarrow> (hjson, json_error) res" where
  "parse_limited text max_bytes =
     (if max_bytes < length text then Err (LargerThan max_bytes)
      else (case hj_document text of
        Ok v \<Rightarrow> Ok v
      | Err (w, left) \<Rightarrow> Err (AtByte w (length text - left))
      | Panic \<Rightarrow> Panic))"

definition hj_parse :: "string \<Rightarrow> (hjson, json_error) res" where
  "hj_parse text = parse_limited text MAX_BYTES"

section \<open>The writer\<close>

definition hex_lower :: "nat \<Rightarrow> char" where
  "hex_lower n = char_of (if n < 10 then 48 + n else 87 + n)"

text \<open>
  One character of \<open>write_string\<close>, by its bytes: the bytes of a character that is not ASCII are
  none of the escaped ones and are written as they are.
\<close>

definition write_char :: "char \<Rightarrow> string" where
  "write_char c =
     (if c = CHR 0x22 then [CHR 0x5C, CHR 0x22]
      else if c = CHR 0x5C then [CHR 0x5C, CHR 0x5C]
      else if c = CHR 0x0A then [CHR 0x5C, CHR ''n'']
      else if c = CHR 0x0D then [CHR 0x5C, CHR ''r'']
      else if c = CHR 0x09 then [CHR 0x5C, CHR ''t'']
      else if c = CHR 0x08 then [CHR 0x5C, CHR ''b'']
      else if c = CHR 0x0C then [CHR 0x5C, CHR ''f'']
      else if byte c < 0x20
      then [CHR 0x5C, CHR ''u'', CHR ''0'', CHR ''0'', hex_lower (byte c div 16), hex_lower (byte c mod 16)]
      else [c])"

definition write_string :: "string \<Rightarrow> string" where
  "write_string text = [CHR 0x22] @ concat (map write_char text) @ [CHR 0x22]"

definition hj_indent :: "nat \<Rightarrow> string" where
  "hj_indent d = concat (replicate d ''  '')"

text \<open>The rows of an array or object, each indented, a comma after each but the last.\<close>

fun hj_rows :: "nat \<Rightarrow> string list \<Rightarrow> string" where
  "hj_rows d [] = []"
| "hj_rows d [row] = hj_indent d @ row @ [CHR 0x0A]"
| "hj_rows d (row # rows) = hj_indent d @ row @ '','' @ [CHR 0x0A] @ hj_rows d rows"

lemma field_size [termination_simp]: "f \<in> set flds \<Longrightarrow> size (snd f) < Suc (size_list (size_prod (\<lambda>_. 0) size) flds)"
  by (induction flds) (auto split: prod.splits)

fun write_value :: "hjson \<Rightarrow> nat \<Rightarrow> string" where
  "write_value Null d = ''null''"
| "write_value (Bool b) d = (if b then ''true'' else ''false'')"
| "write_value (Num text) d = text"
| "write_value (Str text) d = write_string text"
| "write_value (Arr items) d =
     (if items = [] then ''[]''
      else ''['' @ [CHR 0x0A] @ hj_rows (d + 1) (map (\<lambda>item. write_value item (d + 1)) items)
        @ hj_indent d @ '']'')"
| "write_value (Obj flds) d =
     (if flds = [] then ''{}''
      else ''{'' @ [CHR 0x0A]
        @ hj_rows (d + 1) (map (\<lambda>f. write_string (fst f) @ '': '' @ write_value (snd f) (d + 1)) flds)
        @ hj_indent d @ ''}'')"

definition pretty :: "hjson \<Rightarrow> string" where
  "pretty v = write_value v 0 @ [CHR 0x0A]"

fun comma_list :: "string list \<Rightarrow> string" where
  "comma_list [] = []"
| "comma_list [x] = x"
| "comma_list (x # xs) = x @ '','' @ comma_list xs"

fun write_compact :: "hjson \<Rightarrow> string" where
  "write_compact (Arr items) = ''['' @ comma_list (map write_compact items) @ '']''"
| "write_compact (Obj flds) =
     ''{'' @ comma_list (map (\<lambda>f. write_string (fst f) @ '':'' @ write_compact (snd f)) flds) @ ''}''"
| "write_compact v = write_value v 0"

definition compact :: "hjson \<Rightarrow> string" where
  "compact v = write_compact v"

end
