(* ===== verification/Hook_Adapters.thy ===== *)
theory Hook_Adapters
  imports Agents Hook_Json
begin

text \<open>
  The hook adapters of \<^verbatim>\<open>host/cli/src/hooks/adapters.rs\<close>: the table of agents, the classification of
  a configuration, and the edits that install and remove our hooks. All of it is pure; the text of a
  configuration, the path of the program and whether a file exists are arguments. A refusal is a
  constructor of \<open>config_error\<close> with what its message prints.
\<close>

section \<open>Searching and replacing in text\<close>

text \<open>\<open>find\<close> of a pattern with the text before and after it, \<open>contains\<close>, \<open>replace\<close> (of a pattern that
  is not empty) and the first word of \<open>split_whitespace\<close>.\<close>

fun find_split :: "string \<Rightarrow> string \<Rightarrow> (string \<times> string) option" where
  "find_split pat [] = (if pat = [] then Some ([], []) else None)"
| "find_split pat (c # s) =
     (case strip_prefix pat (c # s) of
        Some r \<Rightarrow> Some ([], r)
      | None \<Rightarrow> map_option (\<lambda>(before, after). (c # before, after)) (find_split pat s))"

definition contains :: "string \<Rightarrow> string \<Rightarrow> bool" where
  "contains pat s \<longleftrightarrow> find_split pat s \<noteq> None"

function replace_all :: "string \<Rightarrow> string \<Rightarrow> string \<Rightarrow> string" where
  "replace_all pat to [] = []"
| "replace_all pat to (c # s) =
     (if strip_prefix pat (c # s) \<noteq> None then to @ replace_all pat to (drop (length pat - 1) s)
      else c # replace_all pat to s)"
  by pat_completeness auto
termination
  by (relation "measure (\<lambda>(_, _, s). length s)") auto

definition starts_white :: "string \<Rightarrow> bool" where
  "starts_white s \<longleftrightarrow> list_ex (\<lambda>w. take (length w) s = w) white_space"

fun until_white :: "string \<Rightarrow> string" where
  "until_white [] = []"
| "until_white (c # s) = (if starts_white (c # s) then [] else c # until_white s)"

definition first_word :: "string \<Rightarrow> string option" where
  "first_word s = (let t = trim_start s in if t = [] then None else Some (until_white t))"

section \<open>The table\<close>

datatype hook_shape = GroupShape | FlatShape

record event_spec =
  es_event :: string
  es_activity :: hook_activity
  es_matcher :: "string option"
  es_shape :: hook_shape

datatype scope = Shared | WholeFile | OwnKey

datatype format = JsonFormat string scope "u32 option" | Plugin

record adapter =
  ad_agent :: agent
  ad_config_dir :: string
  ad_file :: string
  ad_format :: format
  ad_events :: "event_spec list"

definition ad_slug :: "adapter \<Rightarrow> string" where
  "ad_slug a = slug (ad_agent a)"

definition group_event :: "string \<Rightarrow> hook_activity \<Rightarrow> string option \<Rightarrow> event_spec" where
  "group_event event activity matcher =
     \<lparr>es_event = event, es_activity = activity, es_matcher = matcher, es_shape = GroupShape\<rparr>"

definition flat_event :: "string \<Rightarrow> hook_activity \<Rightarrow> event_spec" where
  "flat_event event activity =
     \<lparr>es_event = event, es_activity = activity, es_matcher = None, es_shape = FlatShape\<rparr>"

definition ADAPTERS :: "adapter list" where
  "ADAPTERS =
    [\<lparr>ad_agent = Codex, ad_config_dir = ''.codex'', ad_file = ''.codex/hooks.json'',
      ad_format = JsonFormat ''hooks'' Shared (Some 5),
      ad_events =
        [group_event ''UserPromptSubmit'' HookBusy None,
         group_event ''PreToolUse'' HookBusy None,
         group_event ''PostToolUse'' HookBusy None,
         group_event ''PermissionRequest'' HookIdle None,
         group_event ''Stop'' HookIdle None,
         group_event ''SessionEnd'' HookIdle None,
         group_event ''Interrupt'' HookIdle None]\<rparr>,
     \<lparr>ad_agent = Claude, ad_config_dir = ''.claude'', ad_file = ''.claude/settings.json'',
      ad_format = JsonFormat ''hooks'' Shared (Some 5),
      ad_events =
        [group_event ''UserPromptSubmit'' HookBusy None,
         group_event ''PreToolUse'' HookBusy (Some ''*''),
         group_event ''PostToolUse'' HookBusy (Some ''*''),
         group_event ''Stop'' HookIdle None,
         group_event ''Notification'' HookIdle None,
         group_event ''SessionEnd'' HookIdle None]\<rparr>,
     \<lparr>ad_agent = Grok, ad_config_dir = ''.grok'', ad_file = ''.grok/hooks/cyd-system-monitor.json'',
      ad_format = JsonFormat ''hooks'' WholeFile None,
      ad_events =
        [group_event ''UserPromptSubmit'' HookBusy None,
         group_event ''PreToolUse'' HookBusy None,
         group_event ''PostToolUse'' HookBusy None,
         group_event ''PostToolUseFailure'' HookBusy None,
         group_event ''Notification'' HookIdle (Some ''permission_prompt|idle_prompt''),
         group_event ''Stop'' HookIdle None,
         group_event ''StopFailure'' HookIdle None,
         group_event ''StopCancelled'' HookIdle None,
         group_event ''SessionEnd'' HookIdle None]\<rparr>,
     \<lparr>ad_agent = Gemini, ad_config_dir = ''.gemini'', ad_file = ''.gemini/config/hooks.json'',
      ad_format = JsonFormat ''cyd-activity'' OwnKey None,
      ad_events =
        [flat_event ''PreInvocation'' HookBusy,
         group_event ''PreToolUse'' HookBusy (Some ''.*''),
         group_event ''PostToolUse'' HookBusy (Some ''.*''),
         flat_event ''Stop'' HookIdle]\<rparr>,
     \<lparr>ad_agent = OpenCode, ad_config_dir = ''.config/opencode'',
      ad_file = ''.config/opencode/plugins/cyd-system-monitor.js'',
      ad_format = Plugin, ad_events = []\<rparr>]"

definition adapter_for :: "string \<Rightarrow> adapter option" where
  "adapter_for name = find (\<lambda>a. ad_slug a = name) ADAPTERS"

section \<open>Our command line\<close>

fun activity_word :: "hook_activity \<Rightarrow> string" where
  "activity_word HookBusy = ''busy''"
| "activity_word HookIdle = ''idle''"

definition quote_path :: "string \<Rightarrow> string" where
  "quote_path binary = replace_all [CHR 0x27] [CHR 0x27, CHR 0x5C, CHR 0x27, CHR 0x27] binary"

definition command_line :: "string \<Rightarrow> string \<Rightarrow> hook_activity \<Rightarrow> string" where
  "command_line binary name activity =
     [CHR 0x27] @ quote_path binary @ [CHR 0x27] @ '' agent-event '' @ name @ '' ''
     @ activity_word activity @ '' 2>/dev/null || true''"

definition marker :: "string \<Rightarrow> string" where
  "marker name = ''agent-event '' @ name @ '' ''"

definition is_ours :: "string \<Rightarrow> string \<Rightarrow> bool" where
  "is_ours command name = contains (marker name) command"

definition parse_command :: "string \<Rightarrow> string \<Rightarrow> (string \<times> hook_activity option) option" where
  "parse_command command name =
     (case find_split (marker name) command of
        None \<Rightarrow> None
      | Some (before, after) \<Rightarrow>
          (let head = trim before;
               path = (case strip_prefix [CHR 0x27] head of
                   None \<Rightarrow> head
                 | Some h \<Rightarrow>
                     (case strip_suffix [CHR 0x27] h of
                        None \<Rightarrow> head
                      | Some quoted \<Rightarrow> replace_all [CHR 0x27, CHR 0x5C, CHR 0x27, CHR 0x27] [CHR 0x27] quoted));
               word = first_word after;
               activity = (if word = Some ''busy'' then Some HookBusy
                           else if word = Some ''idle'' then Some HookIdle else None)
           in Some (path, activity)))"

section \<open>States\<close>

datatype event_state = EventOk | EventMissing | EventOutdated string

datatype config_error =
    BadJson json_error
  | TopLevelNotObject
  | KeyNotObject string
  | EventNotList string
  | NotJsonAdapter
  | ContainerVanished
  | NotOurPlugin

datatype hook_state =
    Installed
  | Partial string
  | Outdated string
  | NotInstalled
  | AgentNotInstalled
  | Unreadable config_error

definition is_fine :: "hook_state \<Rightarrow> bool" where
  "is_fine s \<longleftrightarrow> s = Installed \<or> s = AgentNotInstalled"

section \<open>Finding our handlers\<close>

definition handler_command :: "hjson \<Rightarrow> string option" where
  "handler_command item = (case hj_get item ''command'' of None \<Rightarrow> None | Some v \<Rightarrow> as_str v)"

text \<open>The handlers \<open>for_each_handler\<close> visits, in order, and what \<open>for_each_handler_mut\<close> makes of a list.\<close>

definition item_handlers :: "hjson \<Rightarrow> hjson list" where
  "item_handlers item =
     (if handler_command item \<noteq> None then [item]
      else (case hj_get item ''hooks'' of
        Some (Arr inner) \<Rightarrow> filter (\<lambda>h. handler_command h \<noteq> None) inner
      | _ \<Rightarrow> []))"

definition handlers :: "hjson list \<Rightarrow> hjson list" where
  "handlers items = concat (map item_handlers items)"

definition map_item :: "(hjson \<Rightarrow> hjson) \<Rightarrow> hjson \<Rightarrow> hjson" where
  "map_item f item =
     (if handler_command item \<noteq> None then f item
      else (case hj_get item ''hooks'' of
        Some (Arr inner) \<Rightarrow>
          hj_set item ''hooks'' (Arr (map (\<lambda>h. if handler_command h \<noteq> None then f h else h) inner))
      | _ \<Rightarrow> item))"

definition hook_container :: "hjson \<Rightarrow> string \<Rightarrow> (hjson option, config_error) res" where
  "hook_container root key =
     (case root of
        Obj _ \<Rightarrow>
          (case hj_get root key of
             None \<Rightarrow> Ok None
           | Some (Obj flds) \<Rightarrow> Ok (Some (Obj flds))
           | Some _ \<Rightarrow> Err (KeyNotObject key))
      | _ \<Rightarrow> Err TopLevelNotObject)"

definition event_list :: "hjson option \<Rightarrow> string \<Rightarrow> (hjson list, config_error) res" where
  "event_list box event =
     (case (case box of None \<Rightarrow> None | Some c \<Rightarrow> hj_get c event) of
        None \<Rightarrow> Ok []
      | Some (Arr items) \<Rightarrow> Ok items
      | Some _ \<Rightarrow> Err (EventNotList event))"

section \<open>Classification\<close>

definition judge :: "string \<Rightarrow> string \<Rightarrow> hook_activity \<Rightarrow> string \<Rightarrow> (string \<Rightarrow> bool) \<Rightarrow> event_state" where
  "judge command name want binary exists =
     (case parse_command command name of
        None \<Rightarrow> EventOutdated ''unrecognised command''
      | Some (path, activity) \<Rightarrow>
          if path \<noteq> binary then EventOutdated (''pointing at '' @ path)
          else if activity \<noteq> Some want then
            EventOutdated (''reporting the wrong state (expected '' @ activity_word want @ '')'')
          else if \<not> exists path then EventOutdated (''binary '' @ path @ '' does not exist'')
          else EventOk)"

text \<open>One pass over an event's handlers: the first complaint and whether one was in order.\<close>

definition see_handler ::
    "string \<Rightarrow> hook_activity \<Rightarrow> string \<Rightarrow> (string \<Rightarrow> bool) \<Rightarrow> hjson \<Rightarrow> string option \<times> bool \<Rightarrow> string option \<times> bool" where
  "see_handler name want binary exists h seen =
     (case seen of (bad, seen_ok) \<Rightarrow>
        (let command = (case handler_command h of Some c \<Rightarrow> c | None \<Rightarrow> []) in
         if \<not> is_ours command name then (bad, seen_ok)
         else (case judge command name want binary exists of
             EventOutdated why \<Rightarrow> (case bad of None \<Rightarrow> Some why | Some b \<Rightarrow> Some b, seen_ok)
           | _ \<Rightarrow> (bad, True))))"

definition event_verdict ::
    "string \<Rightarrow> hook_activity \<Rightarrow> string \<Rightarrow> (string \<Rightarrow> bool) \<Rightarrow> hjson list \<Rightarrow> event_state" where
  "event_verdict name want binary exists items =
     (case fold (see_handler name want binary exists) (handlers items) (None, False) of
        (Some why, _) \<Rightarrow> EventOutdated why
      | (None, True) \<Rightarrow> EventOk
      | (None, False) \<Rightarrow> EventMissing)"

definition inspect_json ::
    "adapter \<Rightarrow> hjson \<Rightarrow> string \<Rightarrow> (string \<Rightarrow> bool) \<Rightarrow> ((string \<times> event_state) list, config_error) res" where
  "inspect_json a root binary exists =
     (case ad_format a of
        Plugin \<Rightarrow> Err NotJsonAdapter
      | JsonFormat key _ _ \<Rightarrow>
          and_then (hook_container root key) (\<lambda>box.
          collect (map (\<lambda>spec.
              and_then (event_list box (es_event spec)) (\<lambda>items.
              Ok (es_event spec, event_verdict (ad_slug a) (es_activity spec) binary exists items)))
            (ad_events a))))"

fun join_with :: "string \<Rightarrow> string list \<Rightarrow> string" where
  "join_with sep [] = []"
| "join_with sep [x] = x"
| "join_with sep (x # xs) = x @ sep @ join_with sep xs"

text \<open>Events with the same complaint are listed together.\<close>

fun add_complaint :: "string \<Rightarrow> string \<Rightarrow> (string \<times> string list) list \<Rightarrow> (string \<times> string list) list" where
  "add_complaint event why [] = [(why, [event])]"
| "add_complaint event why ((w, events) # rest) =
     (if w = why then (w, events @ [event]) # rest else (w, events) # add_complaint event why rest)"

definition complain :: "string \<times> event_state \<Rightarrow> (string \<times> string list) list \<Rightarrow> (string \<times> string list) list" where
  "complain s grouped =
     (case snd s of EventOutdated why \<Rightarrow> add_complaint (fst s) why grouped | _ \<Rightarrow> grouped)"

definition summarize :: "(string \<times> event_state) list \<Rightarrow> hook_state" where
  "summarize states =
     (let missing = map fst (filter (\<lambda>s. snd s = EventMissing) states);
          outdated = map (\<lambda>(why, events). join_with '', '' events @ '': '' @ why) (fold complain states [])
      in if length missing = length states then NotInstalled
         else if missing \<noteq> [] then
           Partial (''missing '' @ join_with '', '' missing
             @ (if outdated \<noteq> [] then ''; outdated: '' @ join_with '', '' outdated else []))
         else if outdated \<noteq> [] then Outdated (join_with ''; '' outdated)
         else Installed)"

section \<open>The OpenCode plugin\<close>

text \<open>\<^verbatim>\<open>host/integrations/opencode/cyd-system-monitor.js\<close>, line by line.\<close>

definition TEMPLATE_LINES :: "string list" where
  "TEMPLATE_LINES =
     [''// SPDX-License-Identifier: GPL-3.0-only'',
      ''// CYD System Monitor: reports OpenCode busy/idle by running `cyd-host agent-event opencode`.'',
      ''// Reads only the event type name; never a prompt, message, tool call or session record.'',
      ''import { spawnSync } from \"node:child_process\"'',
      '''',
      ''// Set this to the installed host binary's absolute path (or export CYD_HOST_BIN).'',
      ''const CYD_HOST = process.env.CYD_HOST_BIN || \"/absolute/path/to/cyd-host\"'',
      '''',
      ''const BUSY = [\"session.execution.started\", \"permission.replied\"]'',
      ''const IDLE = ['',
      ''  \"session.execution.succeeded\",'',
      ''  \"session.execution.failed\",'',
      ''  \"session.execution.interrupted\",'',
      ''  \"permission.asked\",'',
      ''  \"session.deleted\",'',
      '']'',
      '''',
      ''// Synchronous so an idle report is not lost when the process exits right after a turn.'',
      ''const report = (state) => {'',
      ''  spawnSync(CYD_HOST, [\"agent-event\", \"opencode\", state], { stdio: \"ignore\", timeout: 2000 })'',
      ''}'',
      '''',
      ''export default {'',
      ''  id: \"cyd-system-monitor\",'',
      ''  setup: async (ctx) => {'',
      ''    ctx.tool.hook(\"execute.before\", () => report(\"busy\"))'',
      ''    ctx.tool.hook(\"execute.after\", () => report(\"busy\"))'',
      ''    ;(async () => {'',
      ''      for await (const event of ctx.event.subscribe({ types: [...BUSY, ...IDLE] })) {'',
      ''        report(BUSY.includes(event.type) ? \"busy\" : \"idle\")'',
      ''      }'',
      ''    })().catch(() => {})'',
      ''  },'',
      ''}'']"

definition PLUGIN_TEMPLATE :: string where
  "PLUGIN_TEMPLATE = concat (map (\<lambda>l. l @ [CHR 0x0A]) TEMPLATE_LINES)"

definition PLUGIN_PLACEHOLDER :: string where
  "PLUGIN_PLACEHOLDER = ''/absolute/path/to/cyd-host''"

definition PLUGIN_ID :: string where
  "PLUGIN_ID = ''id: \"cyd-system-monitor\"''"

definition PLUGIN_CALL :: string where
  "PLUGIN_CALL = ''\"agent-event\", \"opencode\"''"

text \<open>
  \<open>js_escape\<close> by the bytes of its characters: U+2028 and U+2029 are the two characters of three bytes
  among the escaped ones.
\<close>

definition js_hex :: "nat \<Rightarrow> string" where
  "js_hex n = [CHR 0x5C, CHR ''u'', hex_lower (n div 4096), hex_lower (n div 256 mod 16),
     hex_lower (n div 16 mod 16), hex_lower (n mod 16)]"

function js_escape :: "string \<Rightarrow> string" where
  "js_escape [] = []"
| "js_escape (c # s) =
     (if c = CHR 0x22 then [CHR 0x5C, CHR 0x22] @ js_escape s
      else if c = CHR 0x5C then [CHR 0x5C, CHR 0x5C] @ js_escape s
      else if byte c < 0x20 \<or> c = CHR 0x7F then js_hex (byte c) @ js_escape s
      else if strip_prefix [CHR 0xE2, CHR 0x80, CHR 0xA8] (c # s) \<noteq> None then js_hex 0x2028 @ js_escape (drop 2 s)
      else if strip_prefix [CHR 0xE2, CHR 0x80, CHR 0xA9] (c # s) \<noteq> None then js_hex 0x2029 @ js_escape (drop 2 s)
      else c # js_escape s)"
  by pat_completeness auto
termination
  by (relation "measure length") auto

definition plugin_source :: "string \<Rightarrow> string" where
  "plugin_source binary = replace_all PLUGIN_PLACEHOLDER (js_escape binary) PLUGIN_TEMPLATE"

definition plugin_is_ours :: "string \<Rightarrow> bool" where
  "plugin_is_ours text \<longleftrightarrow> contains PLUGIN_ID text \<and> contains PLUGIN_CALL text"

text \<open>
  \<open>u32::from_str_radix(_, 16)\<close> of at most four characters, which takes a leading plus sign. Four
  characters with one that is not ASCII are refused as their first four bytes are.
\<close>

definition from_hex :: "string \<Rightarrow> nat option" where
  "from_hex s =
     (let digits = (case s of [] \<Rightarrow> [] | c # r \<Rightarrow> if c = CHR ''+'' then r else s) in
      if digits \<noteq> [] \<and> list_all is_ascii_hexdigit digits
      then Some (foldl (\<lambda>n c. n * 16 + hex_digit c) 0 digits) else None)"

text \<open>The text of a JavaScript literal up to its closing quote.\<close>

function js_unescape :: "string \<Rightarrow> string option" where
  "js_unescape [] = None"
| "js_unescape (c # s) =
     (if c = CHR 0x22 then Some []
      else if c = CHR 0x5C then
        (case s of
           [] \<Rightarrow> None
         | e # r \<Rightarrow>
             if e = CHR ''u'' then
               (case from_hex (take 4 r) of
                  None \<Rightarrow> None
                | Some n \<Rightarrow>
                    if scalar n then map_option ((@) (utf8_char n)) (js_unescape (drop 4 r)) else None)
             else map_option ((#) e) (js_unescape r))
      else map_option ((#) c) (js_unescape s))"
  by pat_completeness auto
termination
  by (relation "measure length") auto

definition plugin_path :: "string \<Rightarrow> string option" where
  "plugin_path text =
     (case find_split ''|| \"'' text of
        None \<Rightarrow> None
      | Some (_, rest) \<Rightarrow> js_unescape rest)"

definition classify_json :: "adapter \<Rightarrow> string \<Rightarrow> string \<Rightarrow> (string \<Rightarrow> bool) \<Rightarrow> (hook_state, config_error) res" where
  "classify_json a text binary exists =
     (case hj_parse text of
        Ok root \<Rightarrow>
          (case inspect_json a root binary exists of
             Ok states \<Rightarrow> Ok (summarize states)
           | Err reason \<Rightarrow> Ok (Unreadable reason)
           | Panic \<Rightarrow> Panic)
      | Err e \<Rightarrow> Ok (Unreadable (BadJson e))
      | Panic \<Rightarrow> Panic)"

definition hook_classify ::
    "adapter \<Rightarrow> string option \<Rightarrow> string \<Rightarrow> (string \<Rightarrow> bool) \<Rightarrow> (hook_state, config_error) res" where
  "hook_classify a text binary exists =
     (case text of
        None \<Rightarrow> Ok NotInstalled
      | Some text \<Rightarrow>
          (case ad_format a of
             Plugin \<Rightarrow> Ok
               (if text = plugin_source binary then
                  (if exists binary then Installed
                   else Outdated (''binary '' @ binary @ '' does not exist''))
                else if plugin_is_ours text then
                  Outdated (''plugin differs from this cyd-host'' @ [CHR 0x27] @ ''s, pointing at ''
                    @ (case plugin_path text of None \<Rightarrow> ''an unknown path'' | Some p \<Rightarrow> p))
                else Unreadable NotOurPlugin)
           | JsonFormat _ _ _ \<Rightarrow> classify_json a text binary exists))"

section \<open>Installing\<close>

datatype edit = Unchanged | Write string | Delete

definition new_entry :: "adapter \<Rightarrow> event_spec \<Rightarrow> string \<Rightarrow> u32 option \<Rightarrow> hjson" where
  "new_entry a spec binary timeout =
     (let h = Obj [(''type'', Str ''command''),
                   (''command'', Str (command_line binary (ad_slug a) (es_activity spec)))];
          h = (case timeout of None \<Rightarrow> h | Some n \<Rightarrow> hj_set h ''timeout'' (Num (nat_str (unat n))))
      in case es_shape spec of
           FlatShape \<Rightarrow> h
         | GroupShape \<Rightarrow>
             (let g = Obj [];
                  g = (case es_matcher spec of None \<Rightarrow> g | Some m \<Rightarrow> hj_set g ''matcher'' (Str m))
              in hj_set g ''hooks'' (Arr [h])))"

definition ours :: "string \<Rightarrow> hjson \<Rightarrow> bool" where
  "ours name h = (case handler_command h of None \<Rightarrow> False | Some c \<Rightarrow> is_ours c name)"

text \<open>A handler of ours is pointed at the program; another is left alone.\<close>

definition repoint :: "string \<Rightarrow> string \<Rightarrow> u32 option \<Rightarrow> hjson \<Rightarrow> hjson" where
  "repoint name want timeout h =
     (if ours name h then
        (let h = hj_set h ''command'' (Str want) in
         case (timeout, hj_get h ''timeout'') of
           (Some n, None) \<Rightarrow> hj_set h ''timeout'' (Num (nat_str (unat n)))
         | _ \<Rightarrow> h)
      else h)"

definition merge_list :: "adapter \<Rightarrow> event_spec \<Rightarrow> string \<Rightarrow> u32 option \<Rightarrow> hjson list \<Rightarrow> hjson list" where
  "merge_list a spec binary timeout items =
     (let want = command_line binary (ad_slug a) (es_activity spec);
          found = list_ex (ours (ad_slug a)) (handlers items);
          items = map (map_item (repoint (ad_slug a) want timeout)) items
      in if found then items else items @ [new_entry a spec binary timeout])"

definition merge_event ::
    "adapter \<Rightarrow> string \<Rightarrow> u32 option \<Rightarrow> hjson \<Rightarrow> event_spec \<Rightarrow> (hjson, config_error) res" where
  "merge_event a binary timeout events spec =
     (let events = (if hj_get events (es_event spec) = None
                    then hj_set events (es_event spec) (Arr []) else events) in
      case hj_get events (es_event spec) of
        Some (Arr items) \<Rightarrow> Ok (hj_set events (es_event spec) (Arr (merge_list a spec binary timeout items)))
      | _ \<Rightarrow> Err (EventNotList (es_event spec)))"

fun merge_events ::
    "adapter \<Rightarrow> string \<Rightarrow> u32 option \<Rightarrow> event_spec list \<Rightarrow> hjson \<Rightarrow> (hjson, config_error) res" where
  "merge_events a binary timeout [] events = Ok events"
| "merge_events a binary timeout (spec # specs) events =
     and_then (merge_event a binary timeout events spec) (merge_events a binary timeout specs)"

definition merge :: "adapter \<Rightarrow> hjson \<Rightarrow> string \<Rightarrow> (hjson, config_error) res" where
  "merge a root binary =
     (case ad_format a of
        Plugin \<Rightarrow> Err NotJsonAdapter
      | JsonFormat key _ timeout \<Rightarrow>
          and_then (hook_container root key) (\<lambda>_.
          (let root = (if hj_get root key = None then hj_set root key (Obj []) else root) in
           case hj_get root key of
             None \<Rightarrow> Err ContainerVanished
           | Some events \<Rightarrow>
               and_then (merge_events a binary timeout (ad_events a) events) (\<lambda>events.
               Ok (hj_set root key events)))))"

definition map_err :: "('e \<Rightarrow> 'f) \<Rightarrow> ('a, 'e) res \<Rightarrow> ('a, 'f) res" where
  "map_err f m = (case m of Ok x \<Rightarrow> Ok x | Err e \<Rightarrow> Err (f e) | Panic \<Rightarrow> Panic)"

definition read_json :: "string \<Rightarrow> (hjson, config_error) res" where
  "read_json text = map_err BadJson (hj_parse text)"

definition read_existing :: "string option \<Rightarrow> (hjson option, config_error) res" where
  "read_existing existing =
     (case existing of
        None \<Rightarrow> Ok None
      | Some text \<Rightarrow> and_then (read_json text) (\<lambda>root. Ok (Some root)))"

definition hook_install :: "adapter \<Rightarrow> string option \<Rightarrow> string \<Rightarrow> (edit, config_error) res" where
  "hook_install a existing binary =
     (case ad_format a of
        Plugin \<Rightarrow>
          (let want = plugin_source binary in
           case existing of
             None \<Rightarrow> Ok (Write want)
           | Some text \<Rightarrow>
               if text = want then Ok Unchanged
               else if \<not> plugin_is_ours text then Err NotOurPlugin
               else Ok (Write want))
      | JsonFormat _ scope _ \<Rightarrow>
          and_then (read_existing existing) (\<lambda>parsed.
          (let root = (case (parsed, scope) of
                 (Some root, Shared) \<Rightarrow> root
               | (Some root, OwnKey) \<Rightarrow> root
               | _ \<Rightarrow> Obj []) in
           and_then (merge a root binary) (\<lambda>root.
           if parsed = Some root then Ok Unchanged else Ok (Write (pretty root))))))"

section \<open>Removing\<close>

text \<open>One item of an event's list without our handlers, and whether any went; \<open>None\<close> when it goes.\<close>

definition strip_item :: "string \<Rightarrow> hjson \<Rightarrow> hjson option \<times> bool" where
  "strip_item name item =
     (if handler_command item \<noteq> None then (if ours name item then (None, True) else (Some item, False))
      else (case hj_get item ''hooks'' of
        Some (Arr inner) \<Rightarrow>
          (let kept = filter (\<lambda>h. \<not> ours name h) inner in
           if length kept \<noteq> length inner then
             (if kept = [] then None else Some (hj_set item ''hooks'' (Arr kept)), True)
           else (Some item, False))
      | _ \<Rightarrow> (Some item, False)))"

definition strip_ours :: "string \<Rightarrow> hjson list \<Rightarrow> hjson list \<times> bool" where
  "strip_ours name items =
     (List.map_filter (\<lambda>item. fst (strip_item name item)) items,
      list_ex (\<lambda>item. snd (strip_item name item)) items)"

text \<open>One field of the container: the kept field, and whether a handler of ours went.\<close>

definition strip_field :: "string \<Rightarrow> string \<times> hjson \<Rightarrow> (string \<times> hjson) option \<times> bool" where
  "strip_field name f =
     (case snd f of
        Arr items \<Rightarrow>
          (case strip_ours name items of (kept, touched) \<Rightarrow>
             (if touched \<and> kept = [] then None else Some (fst f, Arr kept), touched))
      | _ \<Rightarrow> (Some f, False))"

definition strip_fields :: "string \<Rightarrow> (string \<times> hjson) list \<Rightarrow> (string \<times> hjson) list \<times> bool" where
  "strip_fields name flds =
     (List.map_filter (\<lambda>f. fst (strip_field name f)) flds, list_ex (\<lambda>f. snd (strip_field name f)) flds)"

definition remove_shared :: "string \<Rightarrow> string \<Rightarrow> hjson \<Rightarrow> hjson \<times> bool" where
  "remove_shared name key root =
     (case hj_get root key of
        Some (Obj flds) \<Rightarrow>
          (case strip_fields name flds of (kept, removed) \<Rightarrow>
             (let root = hj_set root key (Obj kept) in
              (if removed \<and> kept = [] then fst (hj_remove root key) else root, removed)))
      | _ \<Rightarrow> (root, False))"

definition hook_remove :: "adapter \<Rightarrow> string option \<Rightarrow> (edit, config_error) res" where
  "hook_remove a existing =
     (case existing of
        None \<Rightarrow> Ok Unchanged
      | Some text \<Rightarrow>
          (case ad_format a of
             Plugin \<Rightarrow> if plugin_is_ours text then Ok Delete else Err NotOurPlugin
           | JsonFormat key scope _ \<Rightarrow>
               if scope = WholeFile then Ok Delete
               else
                 and_then (read_json text) (\<lambda>root.
                 and_then (hook_container root key) (\<lambda>_.
                 (let (root, removed) = (if scope = OwnKey then hj_remove root key
                                         else remove_shared (ad_slug a) key root)
                  in if \<not> removed then Ok Unchanged
                     else if is_empty_object root then Ok Delete
                     else Ok (Write (pretty root)))))))"

end
