(* ===== verification/Disk.thy ===== *)
theory Disk
  imports Hook_Adapters
begin

text \<open>
  The file system as \<^verbatim>\<open>cli/src/hooks/files.rs\<close> uses it: files with their bytes, their mode and
  whether the bytes have reached the medium, directories, and links; the calls the code makes,
  each of which the system may refuse; and every state the disk has been in, so that what a crash
  would leave behind can be stated. A path is the list of its components; a path stands for what
  the system finds under it, so links above the last component need no model. Other processes do
  not write to the same directory meanwhile.
\<close>

section \<open>The disk\<close>

type_synonym path = "string list"

datatype io_error = NotFound | AlreadyExists | OtherIo nat

text \<open>A file's last field says whether its content is on the medium.\<close>

datatype node = File string u32 bool | Dir u32 | Link path

type_synonym disk = "path \<rightharpoonup> node"

text \<open>
  What the system does with a call: it serves it, or it refuses it with an error number, a write after
  some of its bytes. That nothing is at a path, or something is, it says only when it is so.
\<close>

datatype fate = Works | Fails nat nat

record world =
  wo_disk :: disk
  wo_past :: "disk list"
  wo_luck :: "fate list"
  wo_umask :: u32

type_synonym ('a, 'e, 'x) act = "'x world_scheme \<Rightarrow> ('a, 'e) res \<times> 'x world_scheme"

definition return :: "'a \<Rightarrow> ('a, 'e, 'x) act" where
  "return x w = (Ok x, w)"

definition refuse :: "'e \<Rightarrow> ('a, 'e, 'x) act" where
  "refuse e w = (Err e, w)"

definition abort :: "('a, 'e, 'x) act" where
  "abort w = (Panic, w)"

definition bind_act :: "('a, 'e, 'x) act \<Rightarrow> ('a \<Rightarrow> ('b, 'e, 'x) act) \<Rightarrow> ('b, 'e, 'x) act" where
  "bind_act m f w =
     (case m w of
        (Ok x, w') \<Rightarrow> f x w'
      | (Err e, w') \<Rightarrow> (Err e, w')
      | (Panic, w') \<Rightarrow> (Panic, w'))"

definition on_error :: "('e \<Rightarrow> 'f) \<Rightarrow> ('a, 'e, 'x) act \<Rightarrow> ('a, 'f, 'x) act" where
  "on_error f m w = (case m w of (r, w') \<Rightarrow> (map_err f r, w'))"

text \<open>The result as a value: the caller looks at the error itself.\<close>

definition outcome :: "('a, 'e, 'x) act \<Rightarrow> (('a, 'e) res, 'f, 'x) act" where
  "outcome m w = (case m w of (r, w') \<Rightarrow> (Ok r, w'))"

section \<open>System calls\<close>

text \<open>
  A call that works gives its result and the states the disk goes through, in order; one that
  fails goes through the states of its partial effect.
\<close>

definition advance :: "disk list \<Rightarrow> 'x world_scheme \<Rightarrow> 'x world_scheme" where
  "advance ds w =
     w\<lparr>wo_disk := (if ds = [] then wo_disk w else last ds), wo_past := rev ds @ wo_past w\<rparr>"

definition sys_call ::
    "(disk \<Rightarrow> ('a, io_error) res \<times> disk list) \<Rightarrow> (nat \<Rightarrow> disk \<Rightarrow> disk list) \<Rightarrow> ('a, io_error, 'x) act" where
  "sys_call op part w =
     (let w' = w\<lparr>wo_luck := tl (wo_luck w)\<rparr> in
      case wo_luck w of
        Fails e n # _ \<Rightarrow> (Err (OtherIo e), advance (part n (wo_disk w)) w')
      | _ \<Rightarrow> (case op (wo_disk w) of (r, ds) \<Rightarrow> (r, advance ds w')))"

definition nothing :: "nat \<Rightarrow> disk \<Rightarrow> disk list" where
  "nothing n d = []"

definition ask :: "(disk \<Rightarrow> ('a, io_error) res) \<Rightarrow> ('a, io_error, 'x) act" where
  "ask f = sys_call (\<lambda>d. (f d, [])) nothing"

text \<open>Links are followed up to the limit of the system, 32.\<close>

fun follow_links :: "nat \<Rightarrow> disk \<Rightarrow> path \<Rightarrow> (path, io_error) res" where
  "follow_links 0 d p = Err (OtherIo 62)"
| "follow_links (Suc n) d p = (case d p of Some (Link t) \<Rightarrow> follow_links n d t | _ \<Rightarrow> Ok p)"

definition found :: "disk \<Rightarrow> path \<Rightarrow> (path \<times> node, io_error) res" where
  "found d p =
     and_then (follow_links 33 d p) (\<lambda>q.
     case d q of None \<Rightarrow> Err NotFound | Some x \<Rightarrow> Ok (q, x))"

definition has_dir :: "disk \<Rightarrow> path \<Rightarrow> bool" where
  "has_dir d p \<longleftrightarrow> p = [] \<or> (case found d p of Ok (_, Dir _) \<Rightarrow> True | _ \<Rightarrow> False)"

text \<open>\<open>fs::symlink_metadata\<close>, \<open>fs::metadata\<close>, \<open>fs::canonicalize\<close> and \<open>Path::is_dir\<close>.\<close>

definition lstat :: "path \<Rightarrow> (node, io_error, 'x) act" where
  "lstat p = ask (\<lambda>d. case d p of None \<Rightarrow> Err NotFound | Some x \<Rightarrow> Ok x)"

definition stat :: "path \<Rightarrow> (node, io_error, 'x) act" where
  "stat p = ask (\<lambda>d. and_then (found d p) (\<lambda>(q, x). Ok x))"

definition canonicalize :: "path \<Rightarrow> (path, io_error, 'x) act" where
  "canonicalize p = ask (\<lambda>d. and_then (found d p) (\<lambda>(q, x). Ok q))"

definition is_dir :: "path \<Rightarrow> (bool, 'e, 'x) act" where
  "is_dir p =
     bind_act (outcome (ask (\<lambda>d. if has_dir d p then Ok () else Err NotFound))) (\<lambda>r. return (is_ok r))"

text \<open>
  Opening for reading, reading what was opened, and the mode of an open file. An open file is named
  by the path that the links lead to.
\<close>

definition open_file :: "path \<Rightarrow> (path, io_error, 'x) act" where
  "open_file p = ask (\<lambda>d. and_then (found d p) (\<lambda>(q, x). Ok q))"

definition read_all :: "path \<Rightarrow> (string, io_error, 'x) act" where
  "read_all q = ask (\<lambda>d. case d q of Some (File c m s) \<Rightarrow> Ok c | _ \<Rightarrow> Err (OtherIo 21))"

definition node_mode :: "node \<Rightarrow> u32" where
  "node_mode x = (case x of File c m s \<Rightarrow> m | Dir m \<Rightarrow> m | Link t \<Rightarrow> 0)"

definition handle_mode :: "path \<Rightarrow> (u32, io_error, 'x) act" where
  "handle_mode q = ask (\<lambda>d. case d q of None \<Rightarrow> Err NotFound | Some x \<Rightarrow> Ok (node_mode x))"

text \<open>Creating: with \<open>create_new\<close>, and with \<open>create\<close> and \<open>truncate\<close>, which follows links.\<close>

definition no_place :: "disk \<Rightarrow> path \<Rightarrow> io_error option" where
  "no_place d p =
     (if has_dir d (butlast p) then None
      else if d (butlast p) = None then Some NotFound else Some (OtherIo 20))"

definition made :: "disk \<Rightarrow> path \<Rightarrow> node \<Rightarrow> (path, io_error) res \<times> disk list" where
  "made d p x = (case no_place d p of Some e \<Rightarrow> (Err e, []) | None \<Rightarrow> (Ok p, [d(p \<mapsto> x)]))"

definition create_new :: "path \<Rightarrow> u32 \<Rightarrow> (path, io_error, 'x) act" where
  "create_new p mode w =
     sys_call (\<lambda>d. if d p \<noteq> None then (Err AlreadyExists, [])
                   else made d p (File [] (mode AND NOT (wo_umask w)) False)) nothing w"

definition create_truncate :: "path \<Rightarrow> u32 \<Rightarrow> (path, io_error, 'x) act" where
  "create_truncate p mode w =
     sys_call (\<lambda>d. case follow_links 33 d p of
         Ok q \<Rightarrow>
           (case d q of
              None \<Rightarrow> made d q (File [] (mode AND NOT (wo_umask w)) False)
            | Some (File c m s) \<Rightarrow> (Ok q, [d(q \<mapsto> File [] m False)])
            | Some _ \<Rightarrow> (Err (OtherIo 21), []))
       | Err e \<Rightarrow> (Err e, [])
       | Panic \<Rightarrow> (Panic, [])) nothing w"

text \<open>The states of a file while \<open>n\<close> bytes of a text are written to it.\<close>

definition written :: "path \<Rightarrow> string \<Rightarrow> nat \<Rightarrow> disk \<Rightarrow> disk list" where
  "written q text n d =
     (case d q of
        Some (File c m s) \<Rightarrow> map (\<lambda>k. d(q \<mapsto> File (c @ take k text) m False)) [1..<Suc (min n (length text))]
      | _ \<Rightarrow> [])"

definition write_all :: "path \<Rightarrow> string \<Rightarrow> (unit, io_error, 'x) act" where
  "write_all q text =
     sys_call (\<lambda>d. case d q of
         Some (File c m s) \<Rightarrow> (Ok (), written q text (length text) d)
       | _ \<Rightarrow> (Err (OtherIo 9), [])) (written q text)"

text \<open>\<open>io::copy\<close> from one open file to another.\<close>

definition copy_all :: "path \<Rightarrow> path \<Rightarrow> (unit, io_error, 'x) act" where
  "copy_all source q =
     sys_call (\<lambda>d. case (d source, d q) of
         (Some (File text _ _), Some (File _ _ _)) \<Rightarrow> (Ok (), written q text (length text) d)
       | _ \<Rightarrow> (Err (OtherIo 21), []))
       (\<lambda>n d. case d source of Some (File text _ _) \<Rightarrow> written q text n d | _ \<Rightarrow> [])"

definition set_mode :: "path \<Rightarrow> u32 \<Rightarrow> (unit, io_error, 'x) act" where
  "set_mode q mode =
     sys_call (\<lambda>d. case d q of
         Some (File c m s) \<Rightarrow> (Ok (), [d(q \<mapsto> File c mode s)])
       | _ \<Rightarrow> (Err (OtherIo 9), [])) nothing"

definition sync_all :: "path \<Rightarrow> (unit, io_error, 'x) act" where
  "sync_all q =
     sys_call (\<lambda>d. case d q of
         Some (File c m s) \<Rightarrow> (Ok (), [d(q \<mapsto> File c m True)])
       | _ \<Rightarrow> (Err (OtherIo 9), [])) nothing"

definition rename :: "path \<Rightarrow> path \<Rightarrow> (unit, io_error, 'x) act" where
  "rename p q =
     sys_call (\<lambda>d. case (d p, d q) of
         (None, _) \<Rightarrow> (Err NotFound, [])
       | (_, Some (Dir _)) \<Rightarrow> (Err (OtherIo 21), [])
       | (Some x, _) \<Rightarrow> (Ok (), [d(p := None, q := Some x)])) nothing"

definition remove_file :: "path \<Rightarrow> (unit, io_error, 'x) act" where
  "remove_file p =
     sys_call (\<lambda>d. case d p of
         None \<Rightarrow> (Err NotFound, [])
       | Some (Dir _) \<Rightarrow> (Err (OtherIo 1), [])
       | Some _ \<Rightarrow> (Ok (), [d(p := None)])) nothing"

definition mkdir :: "path \<Rightarrow> u32 \<Rightarrow> (path, io_error, 'x) act" where
  "mkdir p mode w =
     sys_call (\<lambda>d. if d p \<noteq> None \<or> p = [] then (Err AlreadyExists, [])
                   else made d p (Dir (mode AND NOT (wo_umask w)))) nothing w"

text \<open>\<open>DirBuilder::recursive(true).create\<close>, on the reversed path.\<close>

definition if_dir :: "path \<Rightarrow> io_error \<Rightarrow> (unit, io_error, 'x) act" where
  "if_dir p e = bind_act (is_dir p) (\<lambda>b. if b then return () else refuse e)"

fun make_dirs :: "u32 \<Rightarrow> string list \<Rightarrow> (unit, io_error, 'x) act" where
  "make_dirs mode [] = return ()"
| "make_dirs mode (n # up) =
     bind_act (outcome (mkdir (rev (n # up)) mode)) (\<lambda>r.
     case r of
       Err NotFound \<Rightarrow>
         bind_act (make_dirs mode up) (\<lambda>_.
         bind_act (outcome (mkdir (rev (n # up)) mode)) (\<lambda>r.
         case r of Err e \<Rightarrow> if_dir (rev (n # up)) e | _ \<Rightarrow> return ()))
     | Err e \<Rightarrow> if_dir (rev (n # up)) e
     | _ \<Rightarrow> return ())"

section \<open>Rules\<close>

text \<open>
  \<open>runs P m Q R\<close>: from a disk with \<open>P\<close> the action \<open>m\<close> ends with \<open>Q\<close> of its result and the disk, and every
  state of the disk on the way satisfies \<open>R\<close>.
\<close>

definition runs ::
    "(disk \<Rightarrow> bool) \<Rightarrow> ('a, 'e, 'x) act \<Rightarrow> (('a, 'e) res \<Rightarrow> disk \<Rightarrow> bool) \<Rightarrow> (disk \<Rightarrow> bool) \<Rightarrow> bool" where
  "runs P m Q R \<longleftrightarrow>
     (\<forall>w r w'. P (wo_disk w) \<longrightarrow> m w = (r, w') \<longrightarrow>
        Q r (wo_disk w')
      \<and> (\<exists>ds. wo_past w' = ds @ wo_past w \<and> (\<forall>d \<in> set ds. R d)))"

named_theorems run_rules "rules of the logic of actions"

lemma runsI:
  assumes "\<And>w r w'. P (wo_disk w) \<Longrightarrow> m w = (r, w') \<Longrightarrow> Q r (wo_disk w')
    \<and> (\<exists>ds. wo_past w' = ds @ wo_past w \<and> (\<forall>d \<in> set ds. R d))"
  shows "runs P m Q R"
  using assms by (simp add: runs_def)

lemma runsD:
  assumes "runs P m Q R" and "P (wo_disk w)" and "m w = (r, w')"
  shows "Q r (wo_disk w')" and "\<exists>ds. wo_past w' = ds @ wo_past w \<and> (\<forall>d \<in> set ds. R d)"
  using assms by (simp_all add: runs_def)

lemma runs_return [run_rules]: "(\<And>d. P d \<Longrightarrow> Q (Ok x) d) \<Longrightarrow> runs P (return x) Q R"
  by (auto simp: runs_def return_def)

lemma runs_refuse [run_rules]: "(\<And>d. P d \<Longrightarrow> Q (Err e) d) \<Longrightarrow> runs P (refuse e) Q R"
  by (auto simp: runs_def refuse_def)

lemma runs_abort [run_rules]: "(\<And>d. P d \<Longrightarrow> Q Panic d) \<Longrightarrow> runs P abort Q R"
  by (auto simp: runs_def abort_def)

lemma runs_bind:
  assumes "runs P m (\<lambda>r d. case r of Ok x \<Rightarrow> M x d | Err e \<Rightarrow> Q (Err e) d | Panic \<Rightarrow> Q Panic d) R"
    and "\<And>x. runs (M x) (f x) Q R"
  shows "runs P (bind_act m f) Q R"
proof (rule runsI)
  fix w r w'
  assume p: "P (wo_disk w)" and b: "bind_act m f w = (r, w')"
  obtain r1 w1 where m: "m w = (r1, w1)" by fastforce
  note one = runsD [OF assms(1) p m]
  show "Q r (wo_disk w') \<and> (\<exists>ds. wo_past w' = ds @ wo_past w \<and> (\<forall>d \<in> set ds. R d))"
  proof (cases r1)
    case (Ok x)
    then have "f x w1 = (r, w')" using b m by (simp add: bind_act_def)
    moreover have "M x (wo_disk w1)" using one(1) Ok by simp
    ultimately have two: "Q r (wo_disk w')" "\<exists>ds. wo_past w' = ds @ wo_past w1 \<and> (\<forall>d \<in> set ds. R d)"
      using runsD [OF assms(2)] by blast+
    obtain ds ds' where "wo_past w1 = ds @ wo_past w" "wo_past w' = ds' @ wo_past w1"
      and "\<forall>d \<in> set ds. R d" "\<forall>d \<in> set ds'. R d"
      using one(2) two(2) by blast
    then have "wo_past w' = (ds' @ ds) @ wo_past w \<and> (\<forall>d \<in> set (ds' @ ds). R d)"
      by auto
    then show ?thesis
      using two(1) by blast
  qed (use b m one in \<open>auto simp: bind_act_def\<close>)
qed

lemma runs_outcome [run_rules]:
  fixes Q :: "(('a, 'e) res, 'f) res \<Rightarrow> disk \<Rightarrow> bool"
  assumes "runs P m (\<lambda>r d. Q (Ok r) d) R"
  shows "runs P (outcome m) Q R"
proof (rule runsI)
  fix w w' and r :: "(('a, 'e) res, 'f) res"
  assume p: "P (wo_disk w)" and o: "outcome m w = (r, w')"
  obtain r1 where "m w = (r1, w')" "r = Ok r1"
    using o by (auto simp: outcome_def split: prod.splits)
  then show "Q r (wo_disk w') \<and> (\<exists>ds. wo_past w' = ds @ wo_past w \<and> (\<forall>d \<in> set ds. R d))"
    using runsD [OF assms p] by simp
qed

lemma runs_on_error [run_rules]:
  assumes "runs P m (\<lambda>r d. Q (map_err f r) d) R"
  shows "runs P (on_error f m) Q R"
proof (rule runsI)
  fix w r w'
  assume p: "P (wo_disk w)" and o: "on_error f m w = (r, w')"
  obtain r1 where "m w = (r1, w')" "r = map_err f r1"
    using o by (auto simp: on_error_def split: prod.splits)
  then show "Q r (wo_disk w') \<and> (\<exists>ds. wo_past w' = ds @ wo_past w \<and> (\<forall>d \<in> set ds. R d))"
    using runsD [OF assms p] by simp
qed

lemma runs_mono:
  assumes "runs P m Q R" and "\<And>d. P' d \<Longrightarrow> P d" and "\<And>r d. Q r d \<Longrightarrow> Q' r d" and "\<And>d. R d \<Longrightarrow> R' d"
  shows "runs P' m Q' R'"
  using assms unfolding runs_def by meson

lemma runs_if [run_rules]:
  "(b \<Longrightarrow> runs P m Q R) \<Longrightarrow> (\<not> b \<Longrightarrow> runs P m' Q R) \<Longrightarrow> runs P (if b then m else m') Q R"
  by simp

definition now :: "disk list \<Rightarrow> disk \<Rightarrow> disk" where
  "now ds d = (if ds = [] then d else last ds)"

lemma now_simps [simp]: "now [] d = d" "now [x] d = x"
  by (simp_all add: now_def)

lemma advance_facts [simp]:
  "wo_disk (advance ds w) = now ds (wo_disk w)" "wo_past (advance ds w) = rev ds @ wo_past w"
  by (simp_all add: advance_def now_def)

lemma runs_sys_call:
  assumes "\<And>d r ds. P d \<Longrightarrow> op d = (r, ds) \<Longrightarrow> Q r (now ds d) \<and> (\<forall>x \<in> set ds. R x)"
    and "\<And>d n e. P d \<Longrightarrow> Q (Err (OtherIo e)) (now (part n d) d) \<and> (\<forall>x \<in> set (part n d). R x)"
  shows "runs P (sys_call op part) Q R"
proof (rule runsI)
  fix w r w'
  assume p: "P (wo_disk w)" and s: "sys_call op part w = (r, w')"
  obtain r1 ds where op: "op (wo_disk w) = (r1, ds)" by fastforce
  let ?w = "w\<lparr>wo_luck := tl (wo_luck w)\<rparr>"
  consider "r = r1" "w' = advance ds ?w" | e n where "r = Err (OtherIo e)" "w' = advance (part n (wo_disk w)) ?w"
    using s op by (auto simp: sys_call_def Let_def split: list.split_asm fate.split_asm)
  then show "Q r (wo_disk w') \<and> (\<exists>ds. wo_past w' = ds @ wo_past w \<and> (\<forall>d \<in> set ds. R d))"
  proof cases
    case 1
    then show ?thesis using assms(1) [OF p op] by simp
  next
    case (2 e n)
    have "Q r (wo_disk w')" using 2 assms(2) [OF p, of e n] by simp
    moreover have "wo_past w' = rev (part n (wo_disk w)) @ wo_past w"
      "\<forall>d \<in> set (rev (part n (wo_disk w))). R d"
      using 2 assms(2) [OF p, of e n] by simp_all
    ultimately show ?thesis by blast
  qed
qed

lemma runs_ask [run_rules]:
  "(\<And>d. P d \<Longrightarrow> Q (f d) d) \<Longrightarrow> (\<And>d e. P d \<Longrightarrow> Q (Err (OtherIo e)) d) \<Longrightarrow> runs P (ask f) Q R"
  unfolding ask_def by (rule runs_sys_call) (auto simp: nothing_def)

end
