(* ===== verification/Hook_Files.thy ===== *)
theory Hook_Files
  imports Disk
begin

text \<open>
  The file access under the hook adapters, \<^verbatim>\<open>cli/src/hooks/files.rs\<close>: a configuration is read whole
  or refused, and an edit backs up what is there and then replaces the file by a renamed temporary,
  so that at every moment, and after a crash at any moment, the configuration is the old one or the
  new one in full. The theorems hold for every pattern of failing system calls.
\<close>

section \<open>Reading\<close>

datatype file_error =
    CannotRead path io_error
  | TooLarge path
  | NotUtf8 path
  | Cannot string path io_error
  | NoDirectory
  | DoesNotExist path
  | TooManyBackups path

definition NEW_FILE_MODE :: u32 where
  "NEW_FILE_MODE = 420"

definition read_config :: "path \<Rightarrow> (string option, file_error, 'x) act" where
  "read_config p =
     bind_act (outcome (open_file p)) (\<lambda>r.
     case r of
       Err NotFound \<Rightarrow> return None
     | Err e \<Rightarrow> refuse (CannotRead p e)
     | Panic \<Rightarrow> abort
     | Ok q \<Rightarrow>
         bind_act (on_error (CannotRead p) (read_all q)) (\<lambda>text.
         let bytes = take (MAX_BYTES + 1) text in
         if MAX_BYTES < length bytes then refuse (TooLarge p)
         else if \<not> from_utf8 bytes then refuse (NotUtf8 p)
         else return (Some bytes)))"

section \<open>Writing\<close>

definition file_name :: "path \<Rightarrow> string" where
  "file_name p = (if p = [] then [] else last p)"

definition with_file_name :: "path \<Rightarrow> string \<Rightarrow> path" where
  "with_file_name p name = butlast p @ [name]"

definition bak_path :: "path \<Rightarrow> string \<Rightarrow> nat \<Rightarrow> path" where
  "bak_path p stamp attempt =
     with_file_name p (file_name p @ ''.bak-cyd-'' @ stamp
       @ (if attempt = 0 then [] else ''-'' @ nat_str attempt))"

definition source_mode :: "path \<Rightarrow> (u32, file_error, 'x) act" where
  "source_mode source =
     bind_act (outcome (handle_mode source)) (\<lambda>r.
     return (case r of Ok m \<Rightarrow> m AND 4095 | _ \<Rightarrow> NEW_FILE_MODE))"

fun backup_from :: "path \<Rightarrow> string \<Rightarrow> nat list \<Rightarrow> (path, file_error, 'x) act" where
  "backup_from p stamp [] = refuse (TooManyBackups p)"
| "backup_from p stamp (attempt # rest) =
     (let target = bak_path p stamp attempt in
      bind_act (on_error (Cannot ''back up'' p) (open_file p)) (\<lambda>source.
      bind_act (source_mode source) (\<lambda>mode.
      bind_act (outcome (create_new target mode)) (\<lambda>r.
      case r of
        Ok out \<Rightarrow>
          bind_act (on_error (Cannot ''write'' target) (copy_all source out)) (\<lambda>_. return target)
      | Err AlreadyExists \<Rightarrow> backup_from p stamp rest
      | Err e \<Rightarrow> refuse (Cannot ''write'' target e)
      | Panic \<Rightarrow> abort))))"

definition backup :: "path \<Rightarrow> string \<Rightarrow> (path, file_error, 'x) act" where
  "backup p stamp = backup_from p stamp [0..<100]"

definition temp_path :: "nat \<Rightarrow> path \<Rightarrow> path" where
  "temp_path pid p = with_file_name p (''.'' @ file_name p @ ''.cyd-tmp-'' @ nat_str pid)"

definition write_temp :: "path \<Rightarrow> path \<Rightarrow> string \<Rightarrow> u32 \<Rightarrow> (unit, io_error, 'x) act" where
  "write_temp temp p text mode =
     bind_act (create_truncate temp mode) (\<lambda>file.
     bind_act (write_all file text) (\<lambda>_.
     bind_act (set_mode file mode) (\<lambda>_.
     bind_act (sync_all file) (\<lambda>_.
     rename temp p))))"

definition write_atomic :: "nat \<Rightarrow> path \<Rightarrow> string \<Rightarrow> u32 \<Rightarrow> (unit, file_error, 'x) act" where
  "write_atomic pid p text mode =
     bind_act (outcome (write_temp (temp_path pid p) p text mode)) (\<lambda>written.
     case written of
       Err e \<Rightarrow> bind_act (outcome (remove_file (temp_path pid p))) (\<lambda>_. refuse (Cannot ''write'' p e))
     | Ok _ \<Rightarrow> return ()
     | Panic \<Rightarrow> abort)"

text \<open>A configuration kept as a link is edited in place.\<close>

definition real_path :: "path \<Rightarrow> (path, file_error, 'x) act" where
  "real_path p =
     bind_act (outcome (lstat p)) (\<lambda>r.
     case r of
       Ok (Link _) \<Rightarrow> on_error (Cannot ''resolve'' p) (canonicalize p)
     | _ \<Rightarrow> return p)"

definition ensure_dir :: "path \<Rightarrow> path \<Rightarrow> (unit, file_error, 'x) act" where
  "ensure_dir p config_dir =
     (if p = [] then refuse NoDirectory
      else
        bind_act (is_dir (butlast p)) (\<lambda>there.
        if there then return ()
        else
          bind_act (is_dir config_dir) (\<lambda>installed.
          if \<not> installed then refuse (DoesNotExist config_dir)
          else on_error (Cannot ''create'' (butlast p)) (make_dirs 448 (rev (butlast p))))))"

definition delete_file :: "path \<Rightarrow> (unit, file_error, 'x) act" where
  "delete_file p =
     bind_act (outcome (remove_file p)) (\<lambda>r.
     case r of
       Err NotFound \<Rightarrow> return ()
     | Err e \<Rightarrow> refuse (Cannot ''delete'' p e)
     | Ok _ \<Rightarrow> return ()
     | Panic \<Rightarrow> abort)"

definition back_up_existing :: "path \<Rightarrow> string \<Rightarrow> node option \<Rightarrow> (path option, file_error, 'x) act" where
  "back_up_existing p stamp existing =
     (case existing of
        Some _ \<Rightarrow> bind_act (backup p stamp) (\<lambda>b. return (Some b))
      | None \<Rightarrow> return None)"

text \<open>\<open>apply\<close> once the path is resolved and the file has been looked up.\<close>

definition replace_file ::
    "nat \<Rightarrow> path \<Rightarrow> edit \<Rightarrow> path \<Rightarrow> string \<Rightarrow> node option \<Rightarrow> (path option, file_error, 'x) act" where
  "replace_file pid p e config_dir stamp existing =
     bind_act (back_up_existing p stamp existing) (\<lambda>backup.
     bind_act
       (case e of
          Unchanged \<Rightarrow> return ()
        | Delete \<Rightarrow> delete_file p
        | Write text \<Rightarrow>
            bind_act (ensure_dir p config_dir) (\<lambda>_.
            write_atomic pid p text
              (case existing of None \<Rightarrow> NEW_FILE_MODE | Some x \<Rightarrow> node_mode x AND 4095)))
       (\<lambda>_. return backup))"

definition hook_apply ::
    "nat \<Rightarrow> path \<Rightarrow> edit \<Rightarrow> path \<Rightarrow> string \<Rightarrow> (path option, file_error, 'x) act" where
  "hook_apply pid p e config_dir stamp =
     (if e = Unchanged then return None
      else
        bind_act (real_path p) (\<lambda>p.
        bind_act (outcome (stat p)) (\<lambda>r.
        replace_file pid p e config_dir stamp (case r of Ok x \<Rightarrow> Some x | _ \<Rightarrow> None))))"

end
