(* ===== verification/Hook_Stamp.thy ===== *)
theory Hook_Stamp
  imports Rust_Text Agents
begin

text \<open>
  The time stamp in the name of a backup, \<open>timestamp\<close> of \<^verbatim>\<open>cli/src/hooks/files.rs\<close>: the civil date is
  computed from the day number in closed form. It is the date of the Gregorian calendar, stated here
  as the calendar is: by counting days from the first of January 1970.
\<close>

section \<open>The code\<close>

text \<open>The numbers are \<open>i64\<close>; the days of a \<open>u64\<close> of seconds are far below its bound. The divisors are positive.\<close>

definition year_of_era :: "int \<Rightarrow> int" where
  "year_of_era doe = (doe - doe div 1460 + doe div 36524 - doe div 146096) div 365"

definition month_day :: "int \<Rightarrow> int \<times> int" where
  "month_day doy =
     (let mp = (5 * doy + 2) div 153 in (if mp < 10 then mp + 3 else mp - 9, doy - (153 * mp + 2) div 5 + 1))"

definition civil_date :: "int \<Rightarrow> int \<times> int \<times> int" where
  "civil_date days =
     (let z = days + 719468;
          era = z div 146097;
          doe = z mod 146097;
          yoe = year_of_era doe;
          doy = doe - (365 * yoe + yoe div 4 - yoe div 100)
      in case month_day doy of
           (month, day) \<Rightarrow> (yoe + era * 400 + (if month \<le> 2 then 1 else 0), month, day))"

definition padded :: "nat \<Rightarrow> nat \<Rightarrow> string" where
  "padded width n = replicate (width - length (nat_str n)) CHR ''0'' @ nat_str n"

definition timestamp :: "nat \<Rightarrow> string" where
  "timestamp unix_seconds =
     (let rest = unix_seconds mod 86400 in
      case civil_date (int (unix_seconds div 86400)) of
        (year, month, day) \<Rightarrow>
          padded 4 (nat year) @ padded 2 (nat month) @ padded 2 (nat day)
          @ padded 2 (rest div 3600) @ padded 2 (rest mod 3600 div 60) @ padded 2 (rest mod 60))"

section \<open>The calendar\<close>

definition leap :: "int \<Rightarrow> bool" where
  "leap year \<longleftrightarrow> year mod 4 = 0 \<and> (year mod 100 \<noteq> 0 \<or> year mod 400 = 0)"

definition days_in :: "int \<Rightarrow> int \<Rightarrow> int" where
  "days_in year month =
     (if month = 2 then if leap year then 29 else 28
      else if month \<in> {4, 6, 9, 11} then 30 else 31)"

definition next_day :: "int \<times> int \<times> int \<Rightarrow> int \<times> int \<times> int" where
  "next_day = (\<lambda>(year, month, day).
     if day < days_in year month then (year, month, day + 1)
     else if month < 12 then (year, month + 1, 1)
     else (year + 1, 1, 1))"

definition calendar :: "nat \<Rightarrow> int \<times> int \<times> int" where
  "calendar days = (next_day ^^ days) (1970, 1, 1)"

section \<open>Years of an era\<close>

text \<open>The first day of a year that begins in March, within its era of 400 years.\<close>

definition year_start :: "int \<Rightarrow> int" where
  "year_start y = 365 * y + y div 4 - y div 100"

definition year_end :: "int \<Rightarrow> int" where
  "year_end y = (if y = 399 then 146096 else year_start (y + 1) - 1)"

lemma year_table:
  "\<forall>y \<in> set (map int [0..<400]). year_of_era (year_start y) = y \<and> year_of_era (year_end y) = y
     \<and> year_end y = year_start y + (if leap (y + 1) then 365 else 364)"
  by code_simp

lemma year_facts:
  assumes "0 \<le> y" and "y < 400"
  shows "year_of_era (year_start y) = y" and "year_of_era (year_end y) = y"
    and "year_end y = year_start y + (if leap (y + 1) then 365 else 364)"
proof -
  have "y \<in> set (map int [0..<400])" using assms by (auto simp: image_iff intro!: bexI [of _ "nat y"])
  then show "year_of_era (year_start y) = y" "year_of_era (year_end y) = y"
    "year_end y = year_start y + (if leap (y + 1) then 365 else 364)"
    using year_table by blast+
qed

lemma month_table:
  "\<forall>d \<in> set (map int [0..<366]). case month_day d of (m, day) \<Rightarrow> 1 \<le> m \<and> m \<le> 12 \<and>
     (if m = 2 then day = d - 336 \<and> 337 \<le> d \<and> (d < 365 \<longrightarrow> month_day (d + 1) = (2, day + 1))
      else if day < days_in 1 m then month_day (d + 1) = (m, day + 1)
      else month_day (d + 1) = (if m = 12 then 1 else m + 1, 1))"
  by code_simp

lemma year_of_era_mono:
  assumes "0 \<le> a" and "a \<le> b" and "b \<le> 146096"
  shows "year_of_era a \<le> year_of_era b"
  using assms(2,3)
proof (induction b rule: int_ge_induct)
  case (step b)
  have "(b + 1) div 1460 \<le> (b + 1460) div 1460" by (rule zdiv_mono1) simp_all
  then have "(b + 1) div 1460 \<le> b div 1460 + 1" by simp
  moreover have "b div 36524 \<le> (b + 1) div 36524" by (rule zdiv_mono1) simp_all
  moreover have "(b + 1) div 36524 - (b + 1) div 146096 \<ge> b div 36524 - b div 146096"
  proof (cases "b + 1 = 146096")
    case True
    then have "b = 146095" by simp
    then show ?thesis by simp
  next
    case False
    then have "(b + 1) div 146096 = 0" "b div 146096 = 0"
      using step assms(1) by (simp_all add: div_pos_pos_trivial)
    then show ?thesis using \<open>b div 36524 \<le> (b + 1) div 36524\<close> by simp
  qed
  ultimately have "b - b div 1460 + b div 36524 - b div 146096
      \<le> (b + 1) - (b + 1) div 1460 + (b + 1) div 36524 - (b + 1) div 146096"
    by linarith
  then have "year_of_era b \<le> year_of_era (b + 1)"
    unfolding year_of_era_def by (intro zdiv_mono1) simp_all
  then show ?case using step by simp
qed simp

lemma year_covered:
  assumes "0 \<le> doe"
  shows "doe < year_start (int n) \<Longrightarrow> \<exists>y. 0 \<le> y \<and> y < int n \<and> year_start y \<le> doe \<and> doe < year_start (y + 1)"
proof (induction n)
  case (Suc n)
  show ?case
  proof (cases "doe < year_start (int n)")
    case True
    then show ?thesis using Suc.IH by auto
  next
    case False
    then show ?thesis using Suc.prems by (intro exI [of _ "int n"]) (simp add: add.commute)
  qed
qed (use assms in \<open>simp add: year_start_def\<close>)

text \<open>The closed form finds the year a day lies in.\<close>

lemma year_of_era_unique:
  assumes "0 \<le> y" and "y < 400" and "year_start y \<le> doe" and "doe \<le> year_end y"
  shows "year_of_era doe = y" and "0 \<le> doe" and "doe \<le> 146096"
proof -
  show d: "0 \<le> doe" using assms(1,3) by (simp add: year_start_def)
  have start: "0 \<le> year_start y" using assms(1) by (simp add: year_start_def)
  have last: "year_end y \<le> 146096"
  proof (cases "y = 399")
    case False
    then have "(y + 1) div 4 \<le> 399 div 4" "0 \<le> (y + 1) div 100" "y + 1 \<le> 399"
      using assms(1,2) by (auto intro!: zdiv_mono1)
    then show ?thesis using False by (simp add: year_end_def year_start_def)
  qed (simp add: year_end_def)
  then show "doe \<le> 146096" using assms(4) by simp
  have "year_of_era (year_start y) \<le> year_of_era doe" "year_of_era doe \<le> year_of_era (year_end y)"
    using start last d assms(3,4) by (auto intro!: year_of_era_mono)
  then show "year_of_era doe = y" using year_facts [OF assms(1,2)] by simp
qed

lemma year_of_era_exact:
  assumes "0 \<le> doe" and "doe \<le> 146096"
  shows "0 \<le> year_of_era doe" and "year_of_era doe < 400"
    and "year_start (year_of_era doe) \<le> doe" and "doe \<le> year_end (year_of_era doe)"
proof -
  obtain y where y: "0 \<le> y" "y < 400" "year_start y \<le> doe" "doe \<le> year_end y"
  proof (cases "doe < 146096")
    case True
    have "year_start (int 400) = 146096" by (simp add: year_start_def)
    then obtain y where "0 \<le> y" "y < 400" "year_start y \<le> doe" "doe < year_start (y + 1)"
      using year_covered [OF assms(1), of 400] True by auto
    then show ?thesis using that [of y] True by (auto simp: year_end_def)
  next
    case False
    then show ?thesis using that [of 399] assms(2) by (simp add: year_end_def year_start_def)
  qed
  then show "0 \<le> year_of_era doe" "year_of_era doe < 400"
    "year_start (year_of_era doe) \<le> doe" "doe \<le> year_end (year_of_era doe)"
    using year_of_era_unique(1) [OF y] by simp_all
qed

section \<open>Day by day\<close>

lemma month_step:
  assumes "0 \<le> doy" and "doy \<le> 365" and "month_day doy = (m, day)"
  shows "1 \<le> m \<and> m \<le> 12 \<and>
     (if m = 2 then day = doy - 336 \<and> 337 \<le> doy \<and> (doy < 365 \<longrightarrow> month_day (doy + 1) = (2, day + 1))
      else if day < days_in y m then month_day (doy + 1) = (m, day + 1)
      else month_day (doy + 1) = (if m = 12 then 1 else m + 1, 1))"
proof -
  have "doy \<in> set (map int [0..<366])" using assms by (auto simp: image_iff intro!: bexI [of _ "nat doy"])
  moreover have "m \<noteq> 2 \<Longrightarrow> days_in y m = days_in 1 m" by (simp add: days_in_def)
  ultimately show ?thesis using month_table assms(3) by fastforce
qed

lemma civil_parts:
  assumes "0 \<le> yoe" and "yoe < 400" and "0 \<le> doy" and "doy \<le> (if leap (yoe + 1) then 365 else 364)"
    and "month_day doy = (m, day)"
  shows "civil_date (era * 146097 + year_start yoe + doy - 719468) = (yoe + era * 400 + (if m \<le> 2 then 1 else 0), m, day)"
proof -
  let ?doe = "year_start yoe + doy"
  have "?doe \<le> year_end yoe" using year_facts(3) [OF assms(1,2)] assms(4) by simp
  then have y: "year_of_era ?doe = yoe" "0 \<le> ?doe" "?doe \<le> 146096"
    using year_of_era_unique [OF assms(1,2), of ?doe] assms(3) by simp_all
  have "0 \<le> x \<Longrightarrow> x \<le> 146096 \<Longrightarrow> (era * 146097 + x) div 146097 = era \<and> (era * 146097 + x) mod 146097 = x" for x
    by simp
  from this [OF y(2,3)] show ?thesis
    using y(1) assms(5) by (simp add: civil_date_def Let_def year_start_def add.assoc)
qed

lemma leap_era: "leap (y + era * 400) = leap y"
proof -
  have "y + era * 400 = y + (era * 100) * 4" "y + era * 400 = y + (era * 4) * 100" by simp_all
  then have "(y + era * 400) mod 4 = y mod 4" "(y + era * 400) mod 100 = y mod 100" "(y + era * 400) mod 400 = y mod 400"
    by (metis mod_mult_self1)+
  then show ?thesis by (simp add: leap_def)
qed

lemma civil_next: "civil_date (days + 1) = next_day (civil_date days)"
proof -
  define era where "era = (days + 719468) div 146097"
  define doe where "doe = (days + 719468) mod 146097"
  define yoe where "yoe = year_of_era doe"
  define doy where "doy = doe - year_start yoe"
  obtain m day where md: "month_day doy = (m, day)" by fastforce
  have "0 \<le> doe" "doe \<le> 146096" unfolding doe_def using pos_mod_bound [of 146097 "days + 719468"] by simp_all
  note yoe = year_of_era_exact [OF this, folded yoe_def]
  have doy: "0 \<le> doy" "doy \<le> (if leap (yoe + 1) then 365 else 364)"
    using yoe year_facts(3) [OF yoe(1,2)] by (simp_all add: doy_def)
  have days: "days = era * 146097 + year_start yoe + doy - 719468"
    by (simp add: doy_def era_def doe_def)
  let ?year = "yoe + era * 400 + (if m \<le> 2 then 1 else 0)"
  have now: "civil_date days = (?year, m, day)"
    unfolding days by (rule civil_parts [OF yoe(1,2) doy md])
  have le: "doy \<le> 365" using doy by (simp split: if_split_asm)
  note step = month_step [OF doy(1) le md, of ?year]
  have feb: "m = 2 \<Longrightarrow> leap ?year = leap (yoe + 1)"
    using leap_era [of "yoe + 1" era] by (simp add: add.assoc add.commute [of 1])
  show ?thesis
  proof (cases "doy = (if leap (yoe + 1) then 365 else 364)")
    case False
    then have d: "0 \<le> doy + 1" "doy + 1 \<le> (if leap (yoe + 1) then 365 else 364)" using doy by (auto split: if_split_asm)
    have "days + 1 = era * 146097 + year_start yoe + (doy + 1) - 719468" using days by simp
    note later = civil_parts [OF yoe(1,2) d, of _ _ era, folded this]
    show ?thesis
    proof (cases "m = 2")
      case True
      then show ?thesis
        using later step now feb d doy False by (auto simp: next_day_def days_in_def split: if_split_asm)
    next
      case False
      then show ?thesis
        using later step now by (auto simp: next_day_def split: if_split_asm)
    qed
  next
    case True
    have "month_day 364 = (2, 28)" "month_day 365 = (2, 29)" by (simp_all add: month_day_def)
    then have here: "m = 2" "day = (if leap (yoe + 1) then 29 else 28)"
      using True md by (auto split: if_split_asm)
    have first: "month_day 0 = (3, 1)" by (simp add: month_day_def)
    have "year_end yoe = year_start yoe + doy" using True year_facts(3) [OF yoe(1,2)] by simp
    then have next_start: "days + 1 = era * 146097 + year_end yoe + 1 - 719468" using days by simp
    have "civil_date (days + 1) = (yoe + 1 + era * 400, 3, 1)"
    proof (cases "yoe = 399")
      case True
      then have start: "days + 1 = (era + 1) * 146097 + year_start 0 + 0 - 719468"
        using next_start by (simp add: year_end_def year_start_def algebra_simps)
      have "civil_date ((era + 1) * 146097 + year_start 0 + 0 - 719468)
          = (0 + (era + 1) * 400 + (if (3::int) \<le> 2 then 1 else 0), 3, 1)"
        by (rule civil_parts) (simp_all add: first)
      then show ?thesis
        unfolding start using True by simp
    next
      case False
      then have start: "days + 1 = era * 146097 + year_start (yoe + 1) + 0 - 719468"
        using next_start by (simp add: year_end_def)
      have "civil_date (era * 146097 + year_start (yoe + 1) + 0 - 719468)
          = (yoe + 1 + era * 400 + (if (3::int) \<le> 2 then 1 else 0), 3, 1)"
        by (rule civil_parts) (use yoe(1,2) False in \<open>simp_all add: first\<close>)
      then show ?thesis
        unfolding start by simp
    qed
    then show ?thesis
      using now here feb by (simp add: next_day_def days_in_def)
  qed
qed

lemma calendar_civil: "calendar days = civil_date (int days)"
proof (induction days)
  case 0
  have "civil_date 0 = (1970, 1, 1)" by code_simp
  then show ?case by (simp add: calendar_def)
next
  case (Suc days)
  then show ?case
    using civil_next [of "int days"] by (simp add: calendar_def add.commute)
qed

text \<open>
  C38. The stamp of a backup is the date and time of the calendar: counting days from the first of
  January 1970, with the lengths of the months and the leap years of the Gregorian calendar, gives
  what the code computes in closed form, for every number of seconds.
\<close>

theorem stamps_are_calendar_time:
  "timestamp unix_seconds =
     (case calendar (unix_seconds div 86400) of
        (year, month, day) \<Rightarrow>
          padded 4 (nat year) @ padded 2 (nat month) @ padded 2 (nat day)
          @ padded 2 (unix_seconds mod 86400 div 3600) @ padded 2 (unix_seconds mod 3600 div 60)
          @ padded 2 (unix_seconds mod 60))"
proof -
  have "unix_seconds mod 86400 mod 3600 = unix_seconds mod 3600" "unix_seconds mod 86400 mod 60 = unix_seconds mod 60"
    by (simp_all add: mod_mod_cancel)
  then show ?thesis
    by (simp add: timestamp_def calendar_civil Let_def)
qed

end
