(* ===== verification/Hook_Json_Correct.thy ===== *)
theory Hook_Json_Correct
  imports Hook_Json
begin

text \<open>
  What the hook configuration's JSON reader and writer promise: every value the writer prints is read
  back as it was, in the indented and in the compact form, and every text is answered with a
  well-formed value or an error, never with a panic.
\<close>

section \<open>Well-formed values\<close>

text \<open>The numbers of RFC 8259, as a grammar.\<close>

definition digits :: "string \<Rightarrow> bool" where
  "digits s \<longleftrightarrow> s \<noteq> [] \<and> list_all is_ascii_digit s"

definition int_text :: "string \<Rightarrow> bool" where
  "int_text s \<longleftrightarrow> s = ''0'' \<or> digits s \<and> hd s \<noteq> CHR ''0''"

definition fraction_text :: "string \<Rightarrow> bool" where
  "fraction_text s \<longleftrightarrow> s = [] \<or> hd s = CHR ''.'' \<and> digits (tl s)"

definition exponent_text :: "string \<Rightarrow> bool" where
  "exponent_text s \<longleftrightarrow> s = [] \<or> hd s \<in> set ''eE'' \<and>
     (digits (tl s) \<or> tl s \<noteq> [] \<and> hd (tl s) \<in> set ''+-'' \<and> digits (tl (tl s)))"

definition number_text :: "string \<Rightarrow> bool" where
  "number_text s \<longleftrightarrow> (\<exists>m i f e. s = m @ i @ f @ e \<and> (m = [] \<or> m = ''-'')
     \<and> int_text i \<and> fraction_text f \<and> exponent_text e)"

text \<open>Numbers as written, UTF-8 texts, and objects whose keys differ.\<close>

fun json_ok :: "hjson \<Rightarrow> bool" where
  "json_ok Null = True"
| "json_ok (Bool b) = True"
| "json_ok (Num t) = number_text t"
| "json_ok (Str t) = from_utf8 t"
| "json_ok (Arr items) = (\<forall>v \<in> set items. json_ok v)"
| "json_ok (Obj flds) =
     (distinct (map fst flds) \<and> (\<forall>f \<in> set flds. from_utf8 (fst f) \<and> json_ok (snd f)))"

text \<open>At most \<open>n\<close> levels of nesting.\<close>

fun nested :: "nat \<Rightarrow> hjson \<Rightarrow> bool" where
  "nested 0 v = False"
| "nested (Suc n) (Arr items) = (\<forall>v \<in> set items. nested n v)"
| "nested (Suc n) (Obj flds) = (\<forall>f \<in> set flds. nested n (snd f))"
| "nested (Suc n) v = True"

section \<open>Numbers\<close>

definition stops :: "string \<Rightarrow> bool" where
  "stops s \<longleftrightarrow> s = [] \<or> \<not> number_char (hd s)"

lemma stops_Cons [simp]: "stops (c # s) \<longleftrightarrow> \<not> number_char c"
  by (simp add: stops_def)

lemma stops_Nil [simp]: "stops []"
  by (simp add: stops_def)

lemma hj_digits_append:
  assumes "list_all is_ascii_digit p" and "s = [] \<or> \<not> is_ascii_digit (hd s)"
  shows "hj_digits (p @ s) = (length p, s)"
proof -
  have "takeWhile is_ascii_digit (p @ s) = p" "dropWhile is_ascii_digit (p @ s) = s"
    using assms by (induction p) (auto simp: neq_Nil_conv dropWhile_eq_self_iff takeWhile_eq_Nil_iff)
  then show ?thesis
    by (simp add: hj_digits_def)
qed

lemma hj_some_digits_iff:
  "hj_some_digits s = Ok r \<longleftrightarrow> (\<exists>p. s = p @ r \<and> digits p \<and> (r = [] \<or> \<not> is_ascii_digit (hd r)))"
proof
  assume "hj_some_digits s = Ok r"
  then have "dropWhile is_ascii_digit s = r" "takeWhile is_ascii_digit s \<noteq> []"
    by (auto simp: hj_some_digits_def hj_digits_def hj_fail_def split: if_split_asm)
  then show "\<exists>p. s = p @ r \<and> digits p \<and> (r = [] \<or> \<not> is_ascii_digit (hd r))"
    using hd_dropWhile [of is_ascii_digit s]
    by (intro exI [of _ "takeWhile is_ascii_digit s"])
      (auto simp: digits_def list_all_iff dest: set_takeWhileD)
next
  assume "\<exists>p. s = p @ r \<and> digits p \<and> (r = [] \<or> \<not> is_ascii_digit (hd r))"
  then obtain p where "s = p @ r" "digits p" "r = [] \<or> \<not> is_ascii_digit (hd r)"
    by blast
  then show "hj_some_digits s = Ok r"
    using hj_digits_append [of p r] by (simp add: hj_some_digits_def digits_def)
qed

lemma digit_chars:
  "\<not> is_ascii_digit CHR ''-''" "\<not> is_ascii_digit CHR ''+''" "\<not> is_ascii_digit CHR ''.''"
  "\<not> is_ascii_digit CHR ''e''" "\<not> is_ascii_digit CHR ''E''" "is_ascii_digit CHR ''0''"
  by (simp_all add: is_ascii_digit_def byte_def)

lemma number_charI:
  "is_ascii_digit c \<Longrightarrow> number_char c" "number_char CHR ''.''" "number_char CHR ''e''" "number_char CHR ''E''"
  by (simp_all add: number_char_def)

lemma hj_int_Ok:
  assumes "hj_int s = Ok r"
  shows "\<exists>i. s = i @ r \<and> int_text i"
proof (cases "s \<noteq> [] \<and> hd s = CHR ''0''")
  case True
  then show ?thesis
    using assms by (intro exI [of _ "''0''"]) (auto simp: hj_int_def int_text_def neq_Nil_conv)
next
  case False
  then have "hd s \<noteq> CHR ''0''" "is_ascii_digit (hd s)" "s \<noteq> []" "r = dropWhile is_ascii_digit s"
    using assms by (auto simp: hj_int_def hj_fail_def hj_digits_def split: list.splits if_split_asm)
  then show ?thesis
    by (intro exI [of _ "takeWhile is_ascii_digit s"])
      (auto simp: int_text_def digits_def list_all_iff neq_Nil_conv dest: set_takeWhileD)
qed

lemma hj_int_text:
  assumes "int_text i" and "r = [] \<or> \<not> is_ascii_digit (hd r)"
  shows "hj_int (i @ r) = Ok r"
proof (cases "i = ''0''")
  case True
  then show ?thesis by (simp add: hj_int_def)
next
  case False
  then obtain c q where i: "i = c # q" "is_ascii_digit c" "c \<noteq> CHR ''0''" "list_all is_ascii_digit (c # q)"
    using assms(1) by (auto simp: int_text_def digits_def neq_Nil_conv)
  then show ?thesis
    using hj_digits_append [OF i(4) assms(2)] by (simp add: hj_int_def)
qed

lemma hj_fraction_Ok:
  assumes "hj_fraction s = Ok r"
  shows "\<exists>f. s = f @ r \<and> fraction_text f"
proof (cases "s \<noteq> [] \<and> hd s = CHR ''.''")
  case True
  then obtain q p where "s = CHR ''.'' # q" "q = p @ r" "digits p"
    using assms by (auto simp: hj_fraction_def hj_some_digits_iff neq_Nil_conv)
  then show ?thesis
    by (intro exI [of _ "CHR ''.'' # p"]) (simp add: fraction_text_def)
next
  case False
  then have "r = s"
    using assms by (auto simp: hj_fraction_def split: list.splits)
  then show ?thesis
    by (intro exI [of _ "[]"]) (simp add: fraction_text_def)
qed

lemma hj_fraction_text:
  assumes "fraction_text f" and "r = [] \<or> \<not> is_ascii_digit (hd r) \<and> hd r \<noteq> CHR ''.''"
  shows "hj_fraction (f @ r) = Ok r"
proof (cases f)
  case Nil
  then show ?thesis
    using assms(2) by (cases r) (auto simp: hj_fraction_def)
next
  case (Cons c q)
  then have "hj_some_digits (q @ r) = Ok r" "c = CHR ''.''"
    using assms by (auto simp: fraction_text_def hj_some_digits_iff)
  then show ?thesis
    by (simp add: hj_fraction_def Cons)
qed

lemma hj_exponent_Ok:
  assumes "hj_exponent s = Ok r"
  shows "\<exists>e. s = e @ r \<and> exponent_text e"
proof (cases "s \<noteq> [] \<and> hd s \<in> set ''eE''")
  case True
  then obtain c q where s: "s = c # q" and c: "c \<in> set ''eE''"
    by (auto simp: neq_Nil_conv)
  let ?t = "case q of [] \<Rightarrow> q | d # t \<Rightarrow> if d = CHR ''+'' \<or> d = CHR ''-'' then t else q"
  have "hj_some_digits ?t = Ok r"
    using assms c by (auto simp: hj_exponent_def s)
  then obtain p where t: "?t = p @ r" and p: "digits p"
    by (auto simp: hj_some_digits_iff)
  show ?thesis
  proof (cases "q \<noteq> [] \<and> hd q \<in> set ''+-''")
    case True
    then have "q = hd q # p @ r"
      using t by (cases q) auto
    then show ?thesis
      using c p True by (intro exI [of _ "c # hd q # p"]) (auto simp: s exponent_text_def)
  next
    case False
    then have "q = p @ r"
      using t by (cases q) (auto split: if_split_asm)
    then show ?thesis
      using c p by (intro exI [of _ "c # p"]) (auto simp: s exponent_text_def)
  qed
next
  case False
  then have "r = s"
    using assms by (auto simp: hj_exponent_def split: list.splits if_split_asm)
  then show ?thesis
    by (intro exI [of _ "[]"]) (simp add: exponent_text_def)
qed

lemma hj_exponent_text:
  assumes "exponent_text e" and "stops r"
  shows "hj_exponent (e @ r) = Ok r"
proof (cases e)
  case Nil
  then show ?thesis
    using assms(2) by (cases r) (auto simp: hj_exponent_def number_char_def)
next
  case (Cons c q)
  have r: "r = [] \<or> \<not> is_ascii_digit (hd r)"
    using assms(2) by (auto simp: stops_def number_char_def)
  have c: "c = CHR ''e'' \<or> c = CHR ''E''" and q: "q \<noteq> []"
    using assms(1) by (auto simp: exponent_text_def Cons digits_def)
  consider "digits q" | "hd q \<in> set ''+-''" "digits (tl q)"
    using assms(1) by (auto simp: exponent_text_def Cons)
  then show ?thesis
  proof cases
    case 1
    then have "hd q \<noteq> CHR ''+''" "hd q \<noteq> CHR ''-''"
      using q digit_chars by (auto simp: digits_def neq_Nil_conv)
    moreover have "hj_some_digits (q @ r) = Ok r"
      using 1 r by (auto simp: hj_some_digits_iff)
    ultimately show ?thesis
      using c q by (cases q) (auto simp: hj_exponent_def Cons)
  next
    case 2
    then have "hj_some_digits (tl q @ r) = Ok r"
      using r by (auto simp: hj_some_digits_iff)
    then show ?thesis
      using c q 2 by (cases q) (auto simp: hj_exponent_def Cons)
  qed
qed

text \<open>The reader's numbers are exactly the grammar's.\<close>

lemma hj_number_Ok:
  assumes "hj_number s = Ok (v, r)"
  shows "\<exists>p. s = p @ r \<and> p \<noteq> [] \<and> v = Num p \<and> number_text p"
proof -
  obtain a b where i: "hj_int (hj_minus s) = Ok a" and f: "hj_fraction a = Ok b"
    and e: "hj_exponent b = Ok r"
    using assms by (auto simp: hj_number_def and_then_eq_Ok)
  have m: "s = hj_minus s \<or> s = ''-'' @ hj_minus s"
    by (auto simp: hj_minus_def split: list.splits)
  obtain it ft et where t: "hj_minus s = it @ a" "a = ft @ b" "b = et @ r"
    "int_text it" "fraction_text ft" "exponent_text et"
    using hj_int_Ok [OF i] hj_fraction_Ok [OF f] hj_exponent_Ok [OF e] by blast
  obtain m' where "s = (m' @ it @ ft @ et) @ r" "m' = [] \<or> m' = ''-''"
    using m t by (metis append.assoc append_Nil)
  moreover obtain p where "s = p @ r" "p \<noteq> []" "v = Num p"
    using hj_number_split [OF assms] by blast
  ultimately show ?thesis
    using t(4-6) unfolding number_text_def by (metis append_same_eq)
qed

lemma hj_number_text:
  assumes "number_text p" and "stops r"
  shows "hj_number (p @ r) = Ok (Num p, r)"
proof -
  obtain m i f e where p: "p = m @ i @ f @ e" and m: "m = [] \<or> m = ''-''"
    and t: "int_text i" "fraction_text f" "exponent_text e"
    using assms(1) by (auto simp: number_text_def)
  have nd: "q = [] \<or> \<not> is_ascii_digit (hd q)" if "stops q" for q
    using that by (auto simp: stops_def number_char_def)
  have e: "e @ r = [] \<or> \<not> is_ascii_digit (hd (e @ r)) \<and> hd (e @ r) \<noteq> CHR ''.''"
    using t(3) assms(2) digit_chars by (cases e) (auto simp: exponent_text_def stops_def number_char_def)
  then have f: "f @ e @ r = [] \<or> \<not> is_ascii_digit (hd (f @ e @ r))"
    using t(2) digit_chars by (cases f) (auto simp: fraction_text_def)
  obtain c q where i: "i = c # q" "is_ascii_digit c"
    using t(1) digit_chars by (auto simp: int_text_def digits_def neq_Nil_conv)
  then have "hj_minus (p @ r) = i @ f @ e @ r"
    using m digit_chars by (auto simp: p hj_minus_def)
  then show ?thesis
    using hj_int_text [OF t(1) f] hj_fraction_text [OF t(2) e] hj_exponent_text [OF t(3) assms(2)]
    by (simp add: hj_number_def)
qed

lemma number_text_hd: "number_text p \<Longrightarrow> p \<noteq> [] \<and> (hd p = CHR ''-'' \<or> is_ascii_digit (hd p))"
  using digit_chars by (auto simp: number_text_def int_text_def digits_def neq_Nil_conv)

section \<open>Reading is safe\<close>

text \<open>
  An outcome of one reading step on the text \<open>s\<close>: a value with a property and a valid rest no longer
  than \<open>s\<close>, or a refusal at a position of \<open>s\<close>; never a panic.
\<close>

definition sound :: "string \<Rightarrow> ('a \<Rightarrow> bool) \<Rightarrow> ('a \<times> string, why \<times> nat) res \<Rightarrow> bool" where
  "sound s P m \<longleftrightarrow> (case m of
      Ok (v, r) \<Rightarrow> P v \<and> from_utf8 r \<and> length r \<le> length s
    | Err (w, left) \<Rightarrow> left \<le> length s
    | Panic \<Rightarrow> False)"

lemma sound_Ok [simp]: "sound s P (Ok (v, r)) \<longleftrightarrow> P v \<and> from_utf8 r \<and> length r \<le> length s"
  by (simp add: sound_def)

lemma sound_fail [simp]: "sound s P (hj_fail t w) \<longleftrightarrow> length t \<le> length s"
  by (simp add: sound_def hj_fail_def)

lemma sound_longer: "sound r P m \<Longrightarrow> length r \<le> length s \<Longrightarrow> sound s P m"
  by (auto simp: sound_def split: res.splits)

lemma sound_and_then:
  assumes "sound s P m"
    and "\<And>v r. m = Ok (v, r) \<Longrightarrow> P v \<Longrightarrow> from_utf8 r \<Longrightarrow> length r \<le> length s \<Longrightarrow> sound r Q (f (v, r))"
  shows "sound s Q (and_then m f)"
proof (cases m)
  case (Ok x)
  then show ?thesis
    using assms by (cases x) (fastforce simp: sound_def split: res.splits)
qed (use assms(1) in \<open>auto simp: sound_def\<close>)

lemma from_utf8_drop_ascii: "list_all (\<lambda>c. byte c < 128) p \<Longrightarrow> from_utf8 (p @ s) = from_utf8 s"
  by (induction p) auto

lemma from_utf8_dropWhile: "from_utf8 s \<Longrightarrow> (\<And>c. f c \<Longrightarrow> byte c < 128) \<Longrightarrow> from_utf8 (dropWhile f s)"
  by (induction s) auto

lemma ws_ascii: "is_json_ws c \<Longrightarrow> byte c < 128"
  by (auto simp: is_json_ws_def byte_def)

lemma from_utf8_skip_ws: "from_utf8 s \<Longrightarrow> from_utf8 (hj_skip_ws s)"
  unfolding hj_skip_ws_def by (rule from_utf8_dropWhile) (auto dest: ws_ascii)

lemma from_utf8_tl: "from_utf8 (c # s) \<Longrightarrow> byte c < 128 \<Longrightarrow> from_utf8 s"
  by simp

lemma hj_hex4_sound: "from_utf8 s \<Longrightarrow> sound s (\<lambda>n. True) (hj_hex4 s)"
proof -
  assume u: "from_utf8 s"
  show ?thesis
  proof (cases "4 \<le> length s \<and> list_all is_ascii_hexdigit (take 4 s)")
    case True
    then have "list_all (\<lambda>c. byte c < 128) (take 4 s)"
      by (auto simp: list_all_iff is_ascii_hexdigit_def is_ascii_digit_def)
    then have "from_utf8 (drop 4 s)"
      using u from_utf8_drop_ascii [of "take 4 s" "drop 4 s"] by simp
    then show ?thesis
      using True by (simp add: hj_hex4_def)
  qed (auto simp: hj_hex4_def)
qed

lemma hj_unicode_sound: "from_utf8 s \<Longrightarrow> sound s from_utf8 (hj_unicode s)"
  unfolding hj_unicode_def
proof (rule sound_and_then [OF hj_hex4_sound], assumption, unfold prod.case, rule sound_and_then)
  fix first r
  assume r: "from_utf8 r"
  show "sound r (\<lambda>code. True)
    (if 0xD800 \<le> first \<and> first < 0xDC00 then
       (case strip_prefix [CHR 0x5C, CHR ''u''] r of
          None \<Rightarrow> hj_fail r LoneSurrogate
        | Some s \<Rightarrow>
            and_then (hj_hex4 s) (\<lambda>(second, s).
            if 0xDC00 \<le> second \<and> second < 0xE000
            then Ok (0x10000 + (first - 0xD800) * 1024 + (second - 0xDC00), s)
            else hj_fail s LoneSurrogate))
     else Ok (first, r))"
  proof (cases "strip_prefix [CHR 0x5C, CHR ''u''] r")
    case (Some q)
    then have q: "r = CHR 0x5C # CHR ''u'' # q" "from_utf8 q"
      using r by (auto simp: strip_prefix_Some byte_def)
    have "sound q (\<lambda>code. True) (and_then (hj_hex4 q) (\<lambda>(second, s).
        if 0xDC00 \<le> second \<and> second < 0xE000
        then Ok (0x10000 + (first - 0xD800) * 1024 + (second - 0xDC00), s)
        else hj_fail s LoneSurrogate))"
      by (rule sound_and_then [OF hj_hex4_sound [OF q(2)]]) simp
    from sound_longer [OF this, of r] show ?thesis
      using r Some q(1) by simp
  qed (use r in simp)
qed (auto intro: from_utf8_utf8_char)

lemma hj_escape_sound:
  assumes "from_utf8 s"
  shows "sound s from_utf8 (hj_escape s)"
proof (cases s)
  case (Cons c r)
  show ?thesis
  proof (cases "byte c < 128")
    case True
    then have r: "from_utf8 r"
      using assms by (simp add: Cons)
    show ?thesis
      using r sound_longer [OF hj_unicode_sound [OF r], of s] sound_longer [OF hj_unicode_sound [OF r], of "CHR ''u'' # r"]
      by (simp add: hj_escape_def Cons byte_def)
  next
    case False
    then have "\<forall>d \<in> set [CHR 0x22, CHR 0x5C, CHR ''/'', CHR ''b'', CHR ''f'', CHR ''n'', CHR ''r'', CHR ''t'', CHR ''u'']. c \<noteq> d"
      by (auto simp: byte_def)
    then show ?thesis
      by (simp add: hj_escape_def Cons)
  qed
qed (simp add: hj_escape_def)

lemma hj_string_sound: "from_utf8 s \<Longrightarrow> sound s from_utf8 (hj_string s)"
proof (induction s rule: hj_string.induct)
  case (1 s)
  show ?case
  proof (cases s)
    case Nil
    then show ?thesis by (simp add: hj_string.simps)
  next
    case (Cons c r)
    consider "c = CHR 0x22" | "c = CHR 0x5C" | "c \<noteq> CHR 0x22" "c \<noteq> CHR 0x5C" "byte c < 0x20"
      | "c \<noteq> CHR 0x22" "c \<noteq> CHR 0x5C" "\<not> byte c < 0x20"
      by blast
    then show ?thesis
    proof cases
      case 1
      then show ?thesis
        using "1.prems" by (simp add: Cons hj_string.simps byte_def)
    next
      case 2
      have "from_utf8 r"
        using "1.prems" 2 by (simp add: Cons byte_def)
      then have "sound r from_utf8 (and_then (hj_escape r) (\<lambda>(t, r).
          and_then (hj_string r) (\<lambda>(out, r). Ok (t @ out, r))))"
        using "1.IH"(1) [OF Cons] 2
        by (intro sound_and_then [OF hj_escape_sound])
          (auto intro!: sound_and_then [where P = from_utf8] simp: from_utf8_append)
      then show ?thesis
        using 2 by (subst hj_string.simps) (simp add: Cons sound_longer)
    next
      case 3
      then show ?thesis
        by (subst hj_string.simps) (simp add: Cons)
    next
      case 4
      let ?n = "char_len c - 1"
      note u = utf8_first [OF "1.prems" [unfolded Cons]]
      have "sound (drop ?n r) from_utf8
          (and_then (hj_string (drop ?n r)) (\<lambda>(out, rest). Ok (c # take ?n r @ out, rest)))"
        using "1.IH"(2) [OF Cons 4 u(1) refl u(4)] u(3)
        by (auto intro!: sound_and_then [where P = from_utf8] simp: from_utf8_append [where s = "c # take ?n r", simplified])
      then show ?thesis
        using 4 u(1) by (subst hj_string.simps) (simp add: Cons sound_longer Let_def)
    qed
  qed
qed

lemma and_then_eq_Err: "and_then m f = Err e \<longleftrightarrow> m = Err e \<or> (\<exists>x. m = Ok x \<and> f x = Err e)"
  by (cases m) auto

lemma number_char_ascii: "number_char c \<Longrightarrow> byte c < 128"
  by (auto simp: number_char_def is_ascii_digit_def byte_def)

lemma number_no_panic [simp]:
  "hj_some_digits s \<noteq> Panic" "hj_int s \<noteq> Panic" "hj_fraction s \<noteq> Panic" "hj_exponent s \<noteq> Panic"
proof -
  show some: "hj_some_digits s \<noteq> Panic" for s
    by (simp add: hj_some_digits_def hj_fail_def split: prod.split)
  show "hj_int s \<noteq> Panic"
    by (simp add: hj_int_def hj_fail_def split: list.split)
  show "hj_fraction s \<noteq> Panic" "hj_exponent s \<noteq> Panic"
    using some by (simp_all add: hj_fraction_def hj_exponent_def split: list.split)
qed

lemma hj_number_sound:
  assumes "from_utf8 s"
  shows "sound s (\<lambda>v. \<exists>p. v = Num p \<and> number_text p) (hj_number s)"
proof -
  have minus: "length (hj_minus s) \<le> length s"
    by (auto simp: hj_minus_def split: list.splits)
  have some: "left \<le> length t" if "hj_some_digits t = Err (w, left)" for t w left
    using that hj_digits_split [of t]
    by (auto simp: hj_some_digits_def hj_fail_def split: prod.splits if_split_asm)
  have int: "left \<le> length t" if "hj_int t = Err (w, left)" for t w left
    using that by (auto simp: hj_int_def hj_fail_def split: list.splits if_split_asm)
  have frac: "left \<le> length t" if "hj_fraction t = Err (w, left)" for t w left
    using that some by (fastforce simp: hj_fraction_def split: list.splits if_split_asm)
  have expo: "left \<le> length t" if "hj_exponent t = Err (w, left)" for t w left
    using that some by (fastforce simp: hj_exponent_def split: list.splits if_split_asm)
  show ?thesis
  proof (cases "hj_number s")
    case (Ok x)
    obtain v r where x: "x = (v, r)" by (cases x)
    obtain p where p: "s = p @ r" "v = Num p" "number_text p"
      using hj_number_Ok Ok unfolding x by blast
    obtain q where q: "s = q @ r" "list_all number_char q"
      using hj_number_split Ok unfolding x by blast
    then have "list_all (\<lambda>c. byte c < 128) p"
      using p(1) number_char_ascii by (simp add: list_all_iff)
    then show ?thesis
      using assms p from_utf8_drop_ascii unfolding Ok x by simp
  next
    case (Err x)
    obtain w left where x: "x = (w, left)" by (cases x)
    consider "hj_int (hj_minus s) = Err (w, left)"
      | a where "hj_int (hj_minus s) = Ok a" "hj_fraction a = Err (w, left)"
      | a b where "hj_int (hj_minus s) = Ok a" "hj_fraction a = Ok b" "hj_exponent b = Err (w, left)"
      using Err unfolding x hj_number_def by (auto simp: and_then_eq_Err)
    then have "left \<le> length s"
    proof cases
      case 1
      then show ?thesis using int minus le_trans by blast
    next
      case (2 a)
      then show ?thesis using frac [of a] hj_int_split [of "hj_minus s" a] minus by auto
    next
      case (3 a b)
      then show ?thesis
        using expo [of b] hj_int_split [of "hj_minus s" a] hj_fraction_split [of a b] minus by auto
    qed
    then show ?thesis
      by (simp add: sound_def Err x)
  next
    case Panic
    then show ?thesis
      by (auto simp: hj_number_def and_then_eq_Panic)
  qed
qed

text \<open>What a value read at depth \<open>d\<close> is.\<close>

definition good :: "nat \<Rightarrow> hjson \<Rightarrow> bool" where
  "good d v \<longleftrightarrow> json_ok v \<and> nested (MAX_DEPTH - d) v"

lemma good_scalar:
  assumes "d < MAX_DEPTH"
  shows "good d Null" "good d (Bool b)" "good d (Num t) \<longleftrightarrow> number_text t" "good d (Str t) \<longleftrightarrow> from_utf8 t"
    "good d (Arr items) \<longleftrightarrow> (\<forall>v \<in> set items. good (Suc d) v)"
    "good d (Obj flds) \<longleftrightarrow> distinct (map fst flds) \<and> (\<forall>f \<in> set flds. from_utf8 (fst f) \<and> good (Suc d) (snd f))"
proof -
  obtain n where "MAX_DEPTH - d = Suc n" "MAX_DEPTH - Suc d = n"
    using assms by (metis Suc_diff_Suc)
  then show "good d Null" "good d (Bool b)" "good d (Num t) \<longleftrightarrow> number_text t" "good d (Str t) \<longleftrightarrow> from_utf8 t"
    "good d (Arr items) \<longleftrightarrow> (\<forall>v \<in> set items. good (Suc d) v)"
    "good d (Obj flds) \<longleftrightarrow> distinct (map fst flds) \<and> (\<forall>f \<in> set flds. from_utf8 (fst f) \<and> good (Suc d) (snd f))"
    by (auto simp: good_def)
qed

lemma strip_prefix_utf8:
  "strip_prefix p s = Some r \<Longrightarrow> list_all (\<lambda>c. byte c < 128) p \<Longrightarrow> from_utf8 s \<Longrightarrow>
     from_utf8 r \<and> length r \<le> length s"
  by (auto simp: strip_prefix_Some from_utf8_drop_ascii)

lemma hj_scalar_sound:
  assumes "from_utf8 s" and "d < MAX_DEPTH"
  shows "sound s (good d) (hj_scalar s)"
proof (cases s)
  case Nil
  then show ?thesis by (simp add: hj_scalar_def)
next
  case (Cons c r)
  note good = good_scalar [OF assms(2)]
  have lit: "from_utf8 q \<and> length q \<le> length s"
    if "strip_prefix p s = Some q" "p \<in> {''true'', ''false'', ''null''}" for p q
    by (rule strip_prefix_utf8 [OF that(1) _ assms(1)]) (use that(2) in \<open>auto simp: byte_def\<close>)
  have str: "sound s (good d) (and_then (hj_string r) (\<lambda>(t, r). Ok (Str t, r)))" if "c = CHR 0x22"
  proof -
    have "from_utf8 r"
      using assms(1) that by (simp add: Cons byte_def)
    then have "sound r (good d) (and_then (hj_string r) (\<lambda>(t, r). Ok (Str t, r)))"
      by (intro sound_and_then [OF hj_string_sound]) (auto simp: good)
    then show ?thesis
      by (rule sound_longer) (simp add: Cons)
  qed
  have num: "sound s (good d) (hj_number s)"
    using hj_number_sound [OF assms(1)] by (auto simp: sound_def good split: res.splits)
  show ?thesis
    using str num lit
    by (auto simp: hj_scalar_def good list.case(2) [of _ _ c r, folded Cons] split: option.split)
qed

lemma skip_ws_cases:
  assumes "from_utf8 s"
  obtains "hj_skip_ws s = []"
  | c r where "hj_skip_ws s = c # r" "from_utf8 (c # r)" "Suc (length r) \<le> length s"
  using from_utf8_skip_ws [OF assms] hj_skip_ws_shorter [of s] by (cases "hj_skip_ws s") auto

lemma hj_next_sound:
  assumes "from_utf8 s" and "byte close < 128"
  shows "sound s (\<lambda>_. True) (hj_next close s)"
  using assms(1)
proof (cases rule: skip_ws_cases)
  case 1
  then show ?thesis by (simp add: hj_next_def bad_delimiter_def)
next
  case (2 c r)
  then show ?thesis
    using assms(2) by (auto simp: hj_next_def bad_delimiter_def byte_def)
qed

lemma hj_key_sound:
  assumes "from_utf8 s"
  shows "sound s (\<lambda>key. key \<notin> set (map fst flds) \<and> from_utf8 key) (hj_key flds s)"
  using assms
proof (cases rule: skip_ws_cases)
  case 1
  then show ?thesis by (simp add: hj_key_def)
next
  case (2 c r)
  show ?thesis
  proof (cases "c = CHR 0x22")
    case False
    then show ?thesis
      using 2 by (simp add: hj_key_def)
  next
    case True
    then have r: "from_utf8 r"
      using 2 by (simp add: byte_def)
    let ?rest = "\<lambda>(key, s). if key \<in> set (map fst flds) then hj_fail s (DuplicateKey key)
            else (case hj_skip_ws s of
                 [] \<Rightarrow> hj_fail [] ExpectedColon
               | c # r \<Rightarrow> if c \<noteq> CHR '':'' then hj_fail (c # r) ExpectedColon else Ok (key, hj_skip_ws r))"
    have "sound r (\<lambda>key. key \<notin> set (map fst flds) \<and> from_utf8 key) (and_then (hj_string r) ?rest)"
    proof (rule sound_and_then [OF hj_string_sound [OF r]])
      fix key t
      assume key: "from_utf8 key" and t: "from_utf8 t"
      from t show "sound t (\<lambda>key. key \<notin> set (map fst flds) \<and> from_utf8 key) (?rest (key, t))"
      proof (cases rule: skip_ws_cases)
        case (2 d q)
        then show ?thesis
          using key hj_skip_ws_shorter [of q] by (auto simp: byte_def from_utf8_skip_ws)
      qed simp
    qed
    then show ?thesis
      using 2 True by (simp add: hj_key_def sound_longer)
  qed
qed

text \<open>The reader is safe: on a valid text it never panics and what it accepts is well formed.\<close>

lemma reader_sound:
  "from_utf8 s \<Longrightarrow> sound s (good d) (hj_value d s)"
  "from_utf8 s \<Longrightarrow> d < MAX_DEPTH \<Longrightarrow> good d (Obj flds) \<Longrightarrow> sound s (good d) (hj_fields d flds s)"
  "from_utf8 s \<Longrightarrow> d < MAX_DEPTH \<Longrightarrow> good d (Arr items) \<Longrightarrow> sound s (good d) (hj_items d items s)"
proof (induction d s and d flds s and d items s rule: hj_value_hj_fields_hj_items.induct)
  case (1 d s)
  show ?case
  proof (cases "MAX_DEPTH \<le> d")
    case True
    then show ?thesis by (simp add: hj_value.simps)
  next
    case False
    then have d: "d < MAX_DEPTH" by simp
    show ?thesis
    proof (cases s)
      case Nil
      then show ?thesis using False by (simp add: hj_value.simps)
    next
      case (Cons c r)
      consider "c = CHR ''{''" | "c = CHR ''[''" | "c \<noteq> CHR ''{''" "c \<noteq> CHR ''[''"
        by blast
      then show ?thesis
      proof cases
        case 1
        have r: "from_utf8 r" "from_utf8 (hj_skip_ws r)"
          using "1.prems" from_utf8_skip_ws by (auto simp: Cons 1 byte_def)
        have "sound s (good d) (hj_fields d [] (hj_skip_ws r))"
          if "\<not> (hj_skip_ws r \<noteq> [] \<and> hd (hj_skip_ws r) = CHR ''}'')"
          by (rule sound_longer [OF "1.IH"(1) [OF False Cons 1 refl that r(2) d]])
            (use hj_skip_ws_shorter [of r] in \<open>simp_all add: Cons good_scalar [OF d]\<close>)
        then show ?thesis
          using False r hj_skip_ws_shorter [of r] 1
          by (cases "hj_skip_ws r") (auto simp: hj_value.simps Cons Let_def good_scalar [OF d] byte_def)
      next
        case 2
        have r: "from_utf8 r" "from_utf8 (hj_skip_ws r)"
          using "1.prems" from_utf8_skip_ws by (auto simp: Cons 2 byte_def)
        have "sound s (good d) (hj_items d [] (hj_skip_ws r))"
          if "\<not> (hj_skip_ws r \<noteq> [] \<and> hd (hj_skip_ws r) = CHR '']'')"
          by (rule sound_longer [OF "1.IH"(2) [OF False Cons _ 2 refl that r(2) d]])
            (use 2 hj_skip_ws_shorter [of r] in \<open>simp_all add: Cons good_scalar [OF d]\<close>)
        then show ?thesis
          using False r hj_skip_ws_shorter [of r] 2
          by (cases "hj_skip_ws r") (auto simp: hj_value.simps Cons Let_def good_scalar [OF d] byte_def)
      next
        case 3
        then show ?thesis
          using hj_scalar_sound [OF "1.prems" d] False by (simp add: hj_value.simps Cons)
      qed
    qed
  qed
next
  case (2 d flds s)
  show ?case
    unfolding hj_fields.simps [of d flds s]
  proof (rule sound_and_then [OF hj_key_sound [OF "2.prems"(1), of flds]], unfold prod.case,
      rule sound_and_then [OF "2.IH"(1)], assumption, rule refl, assumption, unfold prod.case,
      rule sound_and_then [OF hj_next_sound], assumption)
    fix key s1 v s2 more' s3
    assume k: "hj_key flds s = Ok (key, s1)" "key \<notin> set (map fst flds) \<and> from_utf8 key"
      and v: "hj_value (d + 1) s1 = Ok (v, s2)" "good (d + 1) v"
      and n: "hj_next CHR ''}'' s2 = Ok (more', s3)" "from_utf8 s3"
    have "good d (Obj (flds @ [(key, v)]))"
      using "2.prems"(3) k v by (auto simp: good_scalar [OF "2.prems"(2)])
    then show "sound s3 (good d) (case (more', s3) of (more, s) \<Rightarrow>
        if more then hj_fields d (flds @ [(key, v)]) s else Ok (Obj (flds @ [(key, v)]), s))"
      using "2.IH"(2) [OF k(1) refl v(1) refl n(1) refl _ n(2) "2.prems"(2)] n by simp
  qed (simp_all add: byte_def)
next
  case (3 d items s)
  show ?case
    unfolding hj_items.simps [of d items s]
  proof (rule sound_longer [OF _ hj_skip_ws_shorter [of s]],
      rule sound_and_then [OF "3.IH"(1) [OF from_utf8_skip_ws [OF "3.prems"(1)]]], unfold prod.case,
      rule sound_and_then [OF hj_next_sound], assumption)
    fix v s2 more' s3
    assume v: "hj_value (d + 1) (hj_skip_ws s) = Ok (v, s2)" "good (d + 1) v"
      and n: "hj_next CHR '']'' s2 = Ok (more', s3)" "from_utf8 s3"
    have "good d (Arr (items @ [v]))"
      using "3.prems"(3) v by (auto simp: good_scalar [OF "3.prems"(2)])
    then show "sound s3 (good d) (case (more', s3) of (more, s) \<Rightarrow>
        if more then hj_items d (items @ [v]) s else Ok (Arr (items @ [v]), s))"
      using "3.IH"(2) [OF v(1) refl n(1) refl _ n(2) "3.prems"(2)] n by simp
  qed (simp add: byte_def)
qed

section \<open>What is written is read back\<close>

subsection \<open>Strings\<close>

lemma hex_lower_digit:
  assumes "n < 16"
  shows "is_ascii_hexdigit (hex_lower n)" "hex_digit (hex_lower n) = n"
  using assms
  by (auto simp: hex_lower_def is_ascii_hexdigit_def is_ascii_digit_def hex_digit_def byte_char_of)

lemma hj_unicode_control:
  assumes "byte c < 0x20"
  shows "hj_unicode ([CHR ''0'', CHR ''0'', hex_lower (byte c div 16), hex_lower (byte c mod 16)] @ rest)
    = Ok ([c], rest)"
proof -
  have "byte c div 16 < 16" "byte c mod 16 < 16" "scalar (byte c)"
    using assms by (auto simp: scalar_def)
  moreover have "byte c div 16 * 16 + byte c mod 16 = byte c"
    by simp
  moreover have "is_ascii_hexdigit CHR ''0''" "hex_digit CHR ''0'' = 0"
    by (simp_all add: is_ascii_hexdigit_def is_ascii_digit_def hex_digit_def byte_def)
  moreover have "utf8_char (byte c) = [c]"
    using assms by (simp add: utf8_char_def)
  ultimately show ?thesis
    using assms by (simp add: hj_unicode_def hj_hex4_def hex_lower_digit)
qed

lemma write_char_cases:
  obtains "write_char c = [c]" "c \<noteq> CHR 0x22" "c \<noteq> CHR 0x5C" "\<not> byte c < 0x20"
  | e where "write_char c = CHR 0x5C # e" "\<And>rest. hj_escape (e @ rest) = Ok ([c], rest)"
proof -
  let ?esc = "{CHR 0x22, CHR 0x5C, CHR 0x0A, CHR 0x0D, CHR 0x09, CHR 0x08, CHR 0x0C}"
  consider "c \<in> ?esc" | "c \<notin> ?esc" "byte c < 0x20" | "c \<notin> ?esc" "\<not> byte c < 0x20"
    by blast
  then show ?thesis
  proof cases
    case 1
    then show ?thesis
      by (intro that(2) [of "tl (write_char c)"]) (auto simp: write_char_def hj_escape_def)
  next
    case 2
    let ?e = "[CHR ''0'', CHR ''0'', hex_lower (byte c div 16), hex_lower (byte c mod 16)]"
    show ?thesis
    proof (rule that(2) [of "CHR ''u'' # ?e"])
      show "write_char c = CHR 0x5C # CHR ''u'' # ?e"
        using 2 by (simp add: write_char_def)
      show "hj_escape ((CHR ''u'' # ?e) @ rest) = Ok ([c], rest)" for rest
        using hj_unicode_control [OF 2(2), of rest] by (simp add: hj_escape_def)
    qed
  next
    case 3
    then show ?thesis
      by (intro that(1)) (auto simp: write_char_def)
  qed
qed

lemma write_char_high:
  assumes "128 \<le> byte c"
  shows "write_char c = [c]"
proof -
  have "c \<notin> {CHR 0x22, CHR 0x5C, CHR 0x0A, CHR 0x0D, CHR 0x09, CHR 0x08, CHR 0x0C}"
    using assms by (auto simp: byte_def)
  then show ?thesis
    using assms by (simp add: write_char_def)
qed

lemma hj_string_step:
  assumes "from_utf8 (c # r)"
  shows "hj_string (concat (map write_char (c # take (char_len c - 1) r)) @ s)
    = and_then (hj_string s) (\<lambda>(out, q). Ok (c # take (char_len c - 1) r @ out, q))"
proof (cases "byte c < 128")
  case True
  then have n: "char_len c - 1 = 0"
    by (simp add: char_len_def)
  show ?thesis
  proof (cases c rule: write_char_cases)
    case 1
    moreover have "\<not> cont_byte (byte c)"
      using True by (simp add: cont_byte_def)
    ultimately show ?thesis
      using n by (subst hj_string.simps) (simp add: Let_def)
  next
    case (2 e)
    then show ?thesis
      using n by (subst hj_string.simps) simp
  qed
next
  case False
  let ?q = "take (char_len c - 1) r"
  note u = utf8_first [OF assms]
  have q: "map write_char (c # ?q) = map (\<lambda>x. [x]) (c # ?q)"
    using False u(5) write_char_high by auto
  then have "concat (map write_char (c # ?q)) = c # ?q"
    unfolding q by (simp add: concat_map_singleton)
  moreover have "c \<noteq> CHR 0x22" "c \<noteq> CHR 0x5C"
    using False by (auto simp: byte_def)
  moreover have "length ?q = char_len c - 1"
    using u(2) by simp
  ultimately show ?thesis
    using False u(1) by (subst hj_string.simps) (simp add: Let_def)
qed

lemma hj_string_written:
  assumes "from_utf8 t"
  shows "hj_string (concat (map write_char t) @ CHR 0x22 # rest) = Ok (t, rest)"
  using assms
proof (induction t rule: utf8_induct)
  case Nil
  show ?case by (simp add: hj_string.simps)
next
  case (Char c r)
  let ?n = "char_len c - 1"
  have "concat (map write_char (c # r)) = concat (map write_char (c # take ?n r)) @ concat (map write_char (drop ?n r))"
    by (metis append_Cons append_take_drop_id concat_append map_append)
  then show ?case
    using hj_string_step [OF Char.hyps, of "concat (map write_char (drop ?n r)) @ CHR 0x22 # rest"] Char.IH
    by simp
qed

subsection \<open>Values\<close>

text \<open>\<open>t\<close> is a text of the value \<open>v\<close> at depth \<open>d\<close>: it is read as \<open>v\<close> whatever delimiter follows.\<close>

definition reads :: "nat \<Rightarrow> string \<Rightarrow> hjson \<Rightarrow> bool" where
  "reads d t v \<longleftrightarrow> t \<noteq> [] \<and> \<not> is_json_ws (hd t) \<and> hd t \<noteq> CHR '']''
     \<and> (\<forall>rest. stops rest \<longrightarrow> hj_value d (t @ rest) = Ok (v, rest))"

definition blank :: "string \<Rightarrow> bool" where
  "blank s \<longleftrightarrow> list_all is_json_ws s"

lemma skip_blank: "blank w \<Longrightarrow> hj_skip_ws (w @ s) = hj_skip_ws s"
  by (induction w) (auto simp: blank_def hj_skip_ws_def)

lemma skip_text: "t \<noteq> [] \<Longrightarrow> \<not> is_json_ws (hd t) \<Longrightarrow> hj_skip_ws (t @ s) = t @ s"
  by (cases t) (auto simp: hj_skip_ws_def)

lemma skip_char: "hj_skip_ws (c # s) = (if is_json_ws c then hj_skip_ws s else c # s)"
  by (simp add: hj_skip_ws_def)

lemma skip_idem [simp]: "hj_skip_ws (hj_skip_ws s) = hj_skip_ws s"
  by (simp add: hj_skip_ws_def dropWhile_idem)

lemma items_skip: "hj_items d items (hj_skip_ws s) = hj_items d items s"
  by (simp add: hj_items.simps [of d items])

lemma fields_skip: "hj_fields d flds (hj_skip_ws s) = hj_fields d flds s"
  by (simp add: hj_fields.simps [of d flds] hj_key_def)

lemma ws_chars:
  "is_json_ws CHR 0x0A" "is_json_ws CHR '' ''" "\<not> is_json_ws CHR '',''" "\<not> is_json_ws CHR ''}''"
  "\<not> is_json_ws CHR '']''" "\<not> is_json_ws CHR '':''" "\<not> is_json_ws CHR 0x22"
  "\<not> is_json_ws CHR ''{''" "\<not> is_json_ws CHR ''[''"
  by (simp_all add: is_json_ws_def)

lemma stop_chars:
  "\<not> number_char CHR 0x0A" "\<not> number_char CHR '',''" "\<not> number_char CHR ''}''" "\<not> number_char CHR '']''"
  by (simp_all add: number_char_def is_ascii_digit_def byte_def)

lemma blank_indent: "blank (hj_indent d)"
  by (induction d) (auto simp: hj_indent_def blank_def ws_chars)

lemma next_comma: "blank w \<Longrightarrow> close \<noteq> CHR '','' \<Longrightarrow> hj_next close (w @ CHR '','' # s) = Ok (True, s)"
  by (simp add: hj_next_def skip_blank skip_char ws_chars)

lemma next_close:
  "blank w \<Longrightarrow> close = CHR ''}'' \<or> close = CHR '']'' \<Longrightarrow> hj_next close (w @ close # s) = Ok (False, s)"
  by (auto simp: hj_next_def skip_blank skip_char ws_chars)

text \<open>One element, with white space before it and before its delimiter.\<close>

lemma items_step:
  assumes "reads (Suc d) t v" and "blank w" and "stops rest"
  shows "hj_items d items (w @ t @ rest) =
    and_then (hj_next CHR '']'' rest) (\<lambda>(more, s).
      if more then hj_items d (items @ [v]) s else Ok (Arr (items @ [v]), s))"
  using assms by (subst hj_items.simps) (simp add: reads_def skip_blank skip_text)

definition reads_field :: "nat \<Rightarrow> string \<Rightarrow> string \<times> hjson \<Rightarrow> bool" where
  "reads_field d t f \<longleftrightarrow> from_utf8 (fst f)
     \<and> (\<exists>w u. t = write_string (fst f) @ CHR '':'' # w @ u \<and> blank w \<and> reads d u (snd f))"

lemma fields_step:
  assumes "reads_field (Suc d) t f" and "blank w" and "stops rest" and "fst f \<notin> set (map fst flds)"
  shows "hj_fields d flds (w @ t @ rest) =
    and_then (hj_next CHR ''}'' rest) (\<lambda>(more, s).
      if more then hj_fields d (flds @ [f]) s else Ok (Obj (flds @ [f]), s))"
proof -
  obtain w' u where t: "t = write_string (fst f) @ CHR '':'' # w' @ u" "blank w'" "reads (Suc d) u (snd f)"
    and k: "from_utf8 (fst f)"
    using assms(1) by (auto simp: reads_field_def)
  have "hj_key flds (w @ t @ rest) = Ok (fst f, u @ rest)"
    using hj_string_written [OF k, of "CHR '':'' # w' @ u @ rest"] t assms(2,4)
    by (simp add: hj_key_Ok write_string_def skip_blank skip_char ws_chars skip_text reads_def)
  then show ?thesis
    using t assms(3) unfolding hj_fields.simps [of d flds "w @ t @ rest"]
    by (simp add: reads_def) (simp only: prod.collapse)
qed

text \<open>
  Elements separated by commas and closed by a bracket, with any white space around each: the
  indented rows and the compact lists are both such texts.
\<close>

inductive laid :: "char \<Rightarrow> string list \<Rightarrow> string \<Rightarrow> bool" for close where
  laid_last: "blank w \<Longrightarrow> blank z \<Longrightarrow> laid close [t] (w @ t @ z @ [close])"
| laid_more: "blank w \<Longrightarrow> blank z \<Longrightarrow> laid close ts s \<Longrightarrow> laid close (t # ts) (w @ t @ z @ CHR '','' # s)"

lemma stops_delimiter: "blank z \<Longrightarrow> \<not> number_char c \<Longrightarrow> stops (z @ c # s)"
  by (cases z) (auto simp: blank_def is_json_ws_def number_char_def is_ascii_digit_def byte_def)

lemma items_laid:
  assumes "laid CHR '']'' ts s" and "list_all2 (reads (Suc d)) ts vs"
  shows "hj_items d items (s @ rest) = Ok (Arr (items @ vs), rest)"
  using assms
proof (induction arbitrary: vs items rule: laid.induct)
  case (laid_last w z t)
  then show ?case
    using items_step [of d t _ w "z @ CHR '']'' # rest" items] next_close [of z "CHR '']''" rest]
    by (auto simp: list_all2_Cons1 stops_delimiter stop_chars)
next
  case (laid_more w z ts s t)
  then obtain v vs' where v: "vs = v # vs'" "reads (Suc d) t v" "list_all2 (reads (Suc d)) ts vs'"
    by (auto simp: list_all2_Cons1)
  then show ?case
    using items_step [OF v(2) laid_more.hyps(1), of "z @ CHR '','' # s @ rest" items] laid_more
      next_comma [of z "CHR '']''" "s @ rest"]
    by (simp add: stops_delimiter stop_chars)
qed

lemma fields_laid:
  assumes "laid CHR ''}'' ts s" and "list_all2 (reads_field (Suc d)) ts fs" and "distinct (map fst (flds @ fs))"
  shows "hj_fields d flds (s @ rest) = Ok (Obj (flds @ fs), rest)"
  using assms
proof (induction arbitrary: fs flds rule: laid.induct)
  case (laid_last w z t)
  then show ?case
    using fields_step [of d t _ w "z @ CHR ''}'' # rest" flds] next_close [of z "CHR ''}''" rest]
    by (auto simp: list_all2_Cons1 stops_delimiter stop_chars)
next
  case (laid_more w z ts s t)
  then obtain f fs' where f: "fs = f # fs'" "reads_field (Suc d) t f" "list_all2 (reads_field (Suc d)) ts fs'"
    by (auto simp: list_all2_Cons1)
  then have "fst f \<notin> set (map fst flds)" "distinct (map fst ((flds @ [f]) @ fs'))"
    using laid_more.prems(2) by auto
  then show ?case
    using fields_step [OF f(2) laid_more.hyps(1), of "z @ CHR '','' # s @ rest" flds] laid_more.hyps(2)
      laid_more.IH [OF f(3)] next_comma [of z "CHR ''}''" "s @ rest"] f(1)
    by (simp add: stops_delimiter stop_chars)
qed

lemma laid_rows:
  "rows \<noteq> [] \<Longrightarrow> blank w \<Longrightarrow> blank z \<Longrightarrow> laid close rows (w @ hj_rows k rows @ z @ [close])"
proof (induction rows arbitrary: w rule: induct_list012)
  case (2 row)
  then show ?case
    using laid_last [of "w @ hj_indent k" "CHR 0x0A # z" close row] blank_indent [of k]
    by (simp add: blank_def ws_chars)
next
  case (3 row row' rows)
  have "laid close (row' # rows) ([CHR 0x0A] @ hj_rows k (row' # rows) @ z @ [close])"
    by (rule "3.IH") (use 3 in \<open>simp_all add: blank_def ws_chars\<close>)
  then show ?case
    using laid_more [of "w @ hj_indent k" "[]" close "row' # rows" _ row] 3 blank_indent [of k]
    by (simp add: blank_def)
qed simp

lemma laid_commas: "ts \<noteq> [] \<Longrightarrow> laid close ts (comma_list ts @ [close])"
proof (induction ts rule: induct_list012)
  case (2 t)
  then show ?case
    using laid_last [of "[]" "[]" close t] by (simp add: blank_def)
next
  case (3 t t' ts)
  then show ?case
    using laid_more [of "[]" "[]" close "t' # ts" _ t] by (simp add: blank_def)
qed simp

lemma laid_not_Nil: "laid close ts s \<Longrightarrow> \<forall>t \<in> set ts. t \<noteq> [] \<and> \<not> is_json_ws (hd t) \<and> hd t \<noteq> close \<Longrightarrow>
  hj_skip_ws (s @ rest) \<noteq> [] \<and> hd (hj_skip_ws (s @ rest)) \<noteq> close"
  by (cases rule: laid.cases) (auto simp: skip_blank skip_char neq_Nil_conv)

lemma in_list_all2: "list_all2 P ts vs \<Longrightarrow> t \<in> set ts \<Longrightarrow> \<exists>v. P t v"
  by (induction rule: list_all2_induct) auto

lemma reads_array:
  assumes "list_all2 (reads (Suc d)) ts vs" and "laid CHR '']'' ts s" and "d < MAX_DEPTH"
  shows "reads d (''['' @ s) (Arr vs)"
proof -
  have "hj_skip_ws (s @ rest) \<noteq> [] \<and> hd (hj_skip_ws (s @ rest)) \<noteq> CHR '']''" for rest
    using in_list_all2 [OF assms(1)] by (intro laid_not_Nil [OF assms(2)]) (auto simp: reads_def)
  moreover have "hj_items d [] (hj_skip_ws (s @ rest)) = Ok (Arr vs, rest)" for rest
    using items_laid [OF assms(2,1), of "[]" rest] by (simp add: items_skip)
  ultimately show ?thesis
    using assms(3) by (simp add: reads_def ws_chars hj_value.simps Let_def)
qed

lemma reads_object:
  assumes "list_all2 (reads_field (Suc d)) ts fs" and "laid CHR ''}'' ts s" and "d < MAX_DEPTH"
    and "distinct (map fst fs)"
  shows "reads d (''{'' @ s) (Obj fs)"
proof -
  have "hj_skip_ws (s @ rest) \<noteq> [] \<and> hd (hj_skip_ws (s @ rest)) \<noteq> CHR ''}''" for rest
    using in_list_all2 [OF assms(1)]
    by (intro laid_not_Nil [OF assms(2)]) (fastforce simp: reads_field_def write_string_def ws_chars)
  moreover have "hj_fields d [] (hj_skip_ws (s @ rest)) = Ok (Obj fs, rest)" for rest
    using fields_laid [OF assms(2,1), of "[]" rest] assms(4) by (simp add: fields_skip)
  ultimately show ?thesis
    using assms(3) by (simp add: reads_def ws_chars hj_value.simps Let_def)
qed

lemma reads_empty:
  assumes "d < MAX_DEPTH"
  shows "reads d ''[]'' (Arr [])" "reads d ''{}'' (Obj [])"
  using assms by (simp_all add: reads_def ws_chars hj_value.simps skip_char Let_def)

lemma reads_literal:
  assumes "d < MAX_DEPTH"
  shows "reads d ''null'' Null" "reads d ''true'' (Bool True)" "reads d ''false'' (Bool False)"
  using assms
  by (simp_all add: reads_def is_json_ws_def hj_value.simps hj_scalar_def strip_prefix_def)

lemma reads_number:
  assumes "d < MAX_DEPTH" and "number_text t"
  shows "reads d t (Num t)"
proof -
  obtain c q where t: "t = c # q" and c: "c = CHR ''-'' \<or> is_ascii_digit c"
    using number_text_hd [OF assms(2)] by (cases t) auto
  have n: "c \<notin> {CHR ''{'', CHR ''['', CHR 0x22, CHR '']'', CHR ''t'', CHR ''f'', CHR ''n'', CHR '' '', CHR 0x09, CHR 0x0A, CHR 0x0D}"
    using c by (auto simp: is_ascii_digit_def byte_def)
  have "hj_value d (t @ rest) = Ok (Num t, rest)" if "stops rest" for rest
    using hj_number_text [OF assms(2) that] n c assms(1)
    by (simp add: t hj_value.simps hj_scalar_def strip_prefix_def)
  then show ?thesis
    using n by (simp add: reads_def t is_json_ws_def)
qed

lemma reads_string:
  assumes "d < MAX_DEPTH" and "from_utf8 t"
  shows "reads d (write_string t) (Str t)"
  using assms(1) hj_string_written [OF assms(2)]
  by (simp add: reads_def write_string_def ws_chars hj_value.simps hj_scalar_def)

lemmas reads_scalar = reads_literal reads_number reads_string reads_empty

lemma good_depth: "good d v \<Longrightarrow> d < MAX_DEPTH"
  by (cases "MAX_DEPTH - d") (auto simp: good_def)

lemma good_text: "good d (Num t) \<Longrightarrow> number_text t" "good d (Str t) \<Longrightarrow> from_utf8 t"
  by (simp_all add: good_def)

lemma list_all2_map_self: "(\<And>x. x \<in> set xs \<Longrightarrow> P (f x) x) \<Longrightarrow> list_all2 P (map f xs) xs"
  by (induction xs) auto

lemma reads_written: "good d v \<Longrightarrow> reads d (write_value v k) v"
proof (induction v k arbitrary: d rule: write_value.induct)
  case (5 items k)
  note d = good_depth [OF "5.prems"]
  show ?case
  proof (cases "items = []")
    case False
    let ?ts = "map (\<lambda>item. write_value item (k + 1)) items"
    have "list_all2 (reads (Suc d)) ?ts items"
      using "5.IH" [OF False] "5.prems" by (intro list_all2_map_self) (auto simp: good_scalar [OF d])
    moreover have "laid CHR '']'' ?ts ([CHR 0x0A] @ hj_rows (k + 1) ?ts @ hj_indent k @ '']'')"
      using False by (intro laid_rows) (auto simp: blank_indent, simp add: blank_def ws_chars)
    ultimately show ?thesis
      using reads_array [OF _ _ d] False by fastforce
  qed (simp add: reads_empty [OF d])
next
  case (6 flds k)
  note d = good_depth [OF "6.prems"]
  show ?case
  proof (cases "flds = []")
    case False
    let ?ts = "map (\<lambda>f. write_string (fst f) @ '': '' @ write_value (snd f) (k + 1)) flds"
    have "list_all2 (reads_field (Suc d)) ?ts flds"
    proof (rule list_all2_map_self)
      fix f assume f: "f \<in> set flds"
      then have "reads (Suc d) (write_value (snd f) (k + 1)) (snd f)" "from_utf8 (fst f)"
        using "6.IH" [OF False f] "6.prems" by (auto simp: good_scalar [OF d])
      then show "reads_field (Suc d) (write_string (fst f) @ '': '' @ write_value (snd f) (k + 1)) f"
        unfolding reads_field_def
        by (intro conjI exI [of _ "'' ''"] exI [of _ "write_value (snd f) (k + 1)"])
          (simp_all add: blank_def ws_chars)
    qed
    moreover have "laid CHR ''}'' ?ts ([CHR 0x0A] @ hj_rows (k + 1) ?ts @ hj_indent k @ ''}'')"
      using False by (intro laid_rows) (auto simp: blank_indent, simp add: blank_def ws_chars)
    moreover have "distinct (map fst flds)"
      using "6.prems" by (simp add: good_scalar [OF d])
    ultimately show ?thesis
      using reads_object [OF _ _ d] False by fastforce
  qed (simp add: reads_empty [OF d])
qed (auto intro!: reads_scalar dest: good_depth good_text)

lemma reads_compact: "good d v \<Longrightarrow> reads d (write_compact v) v"
proof (induction v arbitrary: d rule: write_compact.induct)
  case (1 items)
  note d = good_depth [OF "1.prems"]
  show ?case
  proof (cases "items = []")
    case False
    let ?ts = "map write_compact items"
    have "list_all2 (reads (Suc d)) ?ts items"
      using "1.IH" "1.prems" by (intro list_all2_map_self) (auto simp: good_scalar [OF d])
    moreover have "laid CHR '']'' ?ts (comma_list ?ts @ '']'')"
      using False by (intro laid_commas) simp
    ultimately show ?thesis
      using reads_array [OF _ _ d] by fastforce
  qed (simp add: reads_empty [OF d])
next
  case (2 flds)
  note d = good_depth [OF "2.prems"]
  show ?case
  proof (cases "flds = []")
    case False
    let ?ts = "map (\<lambda>f. write_string (fst f) @ '':'' @ write_compact (snd f)) flds"
    have "list_all2 (reads_field (Suc d)) ?ts flds"
    proof (rule list_all2_map_self)
      fix f assume f: "f \<in> set flds"
      then have "reads (Suc d) (write_compact (snd f)) (snd f)" "from_utf8 (fst f)"
        using "2.IH" [OF f] "2.prems" by (auto simp: good_scalar [OF d])
      then show "reads_field (Suc d) (write_string (fst f) @ '':'' @ write_compact (snd f)) f"
        unfolding reads_field_def
        by (intro conjI exI [of _ "[]"] exI [of _ "write_compact (snd f)"]) (simp_all add: blank_def)
    qed
    moreover have "laid CHR ''}'' ?ts (comma_list ?ts @ ''}'')"
      using False by (intro laid_commas) simp
    moreover have "distinct (map fst flds)"
      using "2.prems" by (simp add: good_scalar [OF d])
    ultimately show ?thesis
      using reads_object [OF _ _ d] by fastforce
  qed (simp add: reads_empty [OF d])
qed (auto intro!: reads_scalar dest: good_depth good_text)

lemma document_reads:
  assumes "reads 0 t v" and "blank w"
  shows "hj_document (t @ w) = Ok v"
proof -
  have "stops w"
    using assms(2) by (cases w) (auto simp: blank_def is_json_ws_def number_char_def is_ascii_digit_def byte_def)
  moreover have "hj_skip_ws w = []"
    using skip_blank [OF assms(2), of "[]"] by (simp add: hj_skip_ws_def)
  ultimately show ?thesis
    using assms by (auto simp: hj_document_def reads_def skip_text)
qed

lemma parse_limited_document:
  "hj_document text = Ok v \<Longrightarrow> length text \<le> n \<Longrightarrow> parse_limited text n = Ok v"
  by (simp add: parse_limited_def)

lemma pretty_document: "good 0 v \<Longrightarrow> hj_document (pretty v) = Ok v"
  unfolding pretty_def by (rule document_reads [OF reads_written]) (simp_all add: blank_def ws_chars)

lemma compact_document: "good 0 v \<Longrightarrow> hj_document (compact v) = Ok v"
  using document_reads [OF reads_compact, of v "[]"] by (simp add: compact_def blank_def)

lemma document_good:
  assumes "from_utf8 text"
  shows "hj_document text = Ok v \<Longrightarrow> good 0 v" and "hj_document text = Err (w, left) \<Longrightarrow> left \<le> length text"
    and "hj_document text \<noteq> Panic"
proof -
  have "sound (hj_skip_ws text) (good 0) (hj_value 0 (hj_skip_ws text))"
    by (rule reader_sound(1) [OF from_utf8_skip_ws [OF assms]])
  then have *: "case hj_document text of Ok v \<Rightarrow> good 0 v | Err (w, left) \<Rightarrow> left \<le> length text | Panic \<Rightarrow> False"
    using hj_skip_ws_shorter [of "text"] hj_skip_ws_shorter
    by (auto simp: hj_document_def sound_def hj_fail_def Let_def split: res.splits prod.splits intro: le_trans)
  show "hj_document text = Ok v \<Longrightarrow> good 0 v" "hj_document text = Err (w, left) \<Longrightarrow> left \<le> length text"
    "hj_document text \<noteq> Panic"
    using * by auto
qed

text \<open>
  C23. What is written is read back. A well-formed value of at most 32 levels is read back as it was
  from its indented text, and from its compact text, whatever its strings, numbers and key order,
  when the text is within the size limit of the reader.
\<close>

theorem config_roundtrip:
  assumes "json_ok v" and "nested MAX_DEPTH v"
  shows "(length (pretty v) \<le> MAX_BYTES \<longrightarrow> hj_parse (pretty v) = Ok v)
    \<and> (length (compact v) \<le> n \<longrightarrow> parse_limited (compact v) n = Ok v)"
  using assms
  by (simp add: hj_parse_def parse_limited_document pretty_document compact_document good_def)

definition sample_config :: hjson where
  "sample_config = Obj [(''model'', Str [CHR 0xC3, CHR 0xA9, CHR 0x22, CHR 0x0A, CHR 0x01]),
     (''hooks'', Obj [(''Stop'', Arr [Num ''-1.5e+3'', Null, Arr []])])]"

lemma sample_config_ok: "json_ok sample_config" "nested MAX_DEPTH sample_config"
proof -
  have "number_text ''-1.5e+3''"
    unfolding number_text_def
    by (intro exI [of _ "''-''"] exI [of _ "''1''"] exI [of _ "''.5''"] exI [of _ "''e+3''"])
      (simp add: int_text_def fraction_text_def exponent_text_def digits_def is_ascii_digit_def byte_def)
  then show "json_ok sample_config"
    by (simp add: sample_config_def from_utf8_def cont_byte_def byte_def)
  show "nested MAX_DEPTH sample_config"
    by (simp add: sample_config_def MAX_DEPTH_def numeral_eq_Suc)
qed

lemma config_roundtrip_witness:
  "hj_parse (pretty sample_config) = Ok sample_config
   \<and> parse_limited (compact sample_config) 60 = Ok sample_config"
proof -
  have "length (pretty sample_config) \<le> MAX_BYTES" "length (compact sample_config) \<le> 60"
    by (simp_all add: sample_config_def pretty_def compact_def write_string_def write_char_def hj_indent_def
        byte_def MAX_BYTES_def)
  then show ?thesis
    using config_roundtrip [OF sample_config_ok, of 60] by simp
qed

text \<open>
  C24. Reading is safe. Whatever UTF-8 text a configuration holds, the reader answers without a
  panic: a value it accepts is well formed, has distinct keys in every object and at most 32 levels,
  and comes from a text within the limit; a refusal names a position of the text or the limit.
\<close>

theorem config_reading_is_safe:
  assumes "from_utf8 text"
  shows "(\<exists>v. hj_parse text = Ok v \<and> json_ok v \<and> nested MAX_DEPTH v \<and> length text \<le> MAX_BYTES)
    \<or> (\<exists>w at. hj_parse text = Err (AtByte w at) \<and> at \<le> length text \<and> length text \<le> MAX_BYTES)
    \<or> (hj_parse text = Err (LargerThan MAX_BYTES) \<and> MAX_BYTES < length text)"
  using document_good [OF assms]
  by (auto simp: hj_parse_def parse_limited_def good_def split: res.split)

lemma config_reading_is_safe_witness:
  "hj_parse ''{\"hooks\":01}'' = Err (AtByte (ExpectedCommaOr CHR ''}'') 10)
   \<and> hj_parse ''{\"hooks\":01}'' \<noteq> Panic"
proof -
  have "from_utf8 ''{\"hooks\":01}''"
    by (simp add: from_utf8_def byte_def)
  moreover have "hj_parse ''{\"hooks\":01}'' = Err (AtByte (ExpectedCommaOr CHR ''}'') 10)"
    by (simp add: hj_parse_def parse_limited_def hj_document_def hj_value.simps hj_fields.simps hj_key_def
        hj_next_def bad_delimiter_def hj_scalar_def hj_number_def hj_minus_def hj_int_def hj_fraction_def
        hj_exponent_def hj_fail_def hj_string.simps skip_char is_json_ws_def strip_prefix_def is_ascii_digit_def
        char_len_def cont_byte_def byte_def MAX_DEPTH_def MAX_BYTES_def)
  ultimately show ?thesis
    using config_reading_is_safe [of "''{\"hooks\":01}''"] by auto
qed

end
