(* ===== verification/Hook_Codex.thy ===== *)
theory Hook_Codex
  imports Hook_Json_Correct Hook_Adapters
begin

text \<open>
  The trust of the hooks in Codex, \<^verbatim>\<open>cli/src/hooks/codex.rs\<close>: which hooks need a grant and how their
  state is described, the requests to the app server, one line of JSON each, and the wait for the
  reply among the lines the server writes. Times are milliseconds since the server was started.
\<close>

section \<open>Hooks\<close>

record codex_hook =
  ch_key :: string
  ch_trust_status :: string
  ch_current_hash :: string
  ch_ours :: bool

definition needs_grant :: "codex_hook list \<Rightarrow> (string \<times> string) list" where
  "needs_grant hooks =
     map (\<lambda>h. (ch_key h, ch_current_hash h))
       (filter (\<lambda>h. ch_current_hash h \<noteq> [])
         (filter (\<lambda>h. ch_ours h \<and> (ch_trust_status h = ''untrusted'' \<or> ch_trust_status h = ''modified'')) hooks))"

definition trust_count :: "codex_hook list \<Rightarrow> string \<Rightarrow> nat" where
  "trust_count hooks status = length (filter (\<lambda>h. ch_trust_status h = status) hooks)"

definition describe_trust :: "codex_hook list \<Rightarrow> string" where
  "describe_trust hooks =
     (let ours = filter ch_ours hooks in
      if ours = [] then ''no cyd-host hooks loaded by Codex''
      else
        (let unrun = length ours - trust_count ours ''trusted'' - trust_count ours ''managed'' in
         if unrun = 0 then ''all '' @ nat_str (length ours) @ '' hooks trusted''
         else
           (let parts = map (\<lambda>status. nat_str (trust_count ours status) @ '' '' @ status)
                  (filter (\<lambda>status. 0 < trust_count ours status) [''untrusted'', ''modified'']);
                parts = (if parts = [] then [nat_str unrun @ '' in an unknown state''] else parts)
            in nat_str unrun @ '' of '' @ nat_str (length ours) @ '' hooks not trusted (''
                 @ join_with '', '' parts
                 @ ''); `cyd-host hooks install codex --trust` trusts them'')))"

section \<open>The exchange\<close>

definition TIMEOUT :: nat where
  "TIMEOUT = 15000"

definition MAX_REPLY_BYTES :: nat where
  "MAX_REPLY_BYTES = 4 * 2 ^ 20"

datatype rpc_error =
    CannotRunCodex
  | ClosedItsInput
  | NoAnswerInTime
  | CodexExited
  | CodexSays string string
  | NoResult string
  | UnexpectedReply
  | HomeNotUtf8

text \<open>
  The lines the reader thread passes on, each with the time it does, and \<open>None\<close> when the output ends;
  the times at which requests fail; the time that handling one line takes.
\<close>

record session =
  se_lines :: "(nat \<times> string option) list"
  se_now :: nat
  se_deadline :: nat
  se_cost :: nat
  se_sent :: "string list"
  se_closed :: nat

definition hx_object :: "(string \<times> hjson) list \<Rightarrow> hjson" where
  "hx_object flds = Obj flds"

text \<open>A message is one line; writing fails once the server has closed its input, after \<open>se_closed\<close> messages.\<close>

definition send :: "hjson \<Rightarrow> session \<Rightarrow> (unit, rpc_error) res \<times> session" where
  "send message s =
     (if length (se_sent s) < se_closed s
      then (Ok (), s\<lparr>se_sent := se_sent s @ [compact message @ [CHR 0x0A]]\<rparr>)
      else (Err ClosedItsInput, s))"

text \<open>What a line answers to a request: nothing, an error, or a result.\<close>

definition hx_answer :: "string \<Rightarrow> nat \<Rightarrow> string \<Rightarrow> (hjson, rpc_error) res option" where
  "hx_answer name n line =
     (case parse_limited line MAX_REPLY_BYTES of
        Err _ \<Rightarrow> None
      | Panic \<Rightarrow> Some Panic
      | Ok message \<Rightarrow>
          if hj_get message ''id'' \<noteq> Some (Num (nat_str n)) then None
          else
            (case hj_get message ''error'' of
               Some failure \<Rightarrow>
                 Some (Err (CodexSays name
                   (case hj_get failure ''message'' of
                      Some v \<Rightarrow> (case as_str v of Some why \<Rightarrow> why | None \<Rightarrow> ''error'')
                    | None \<Rightarrow> ''error'')))
             | None \<Rightarrow> Some (ok_or (hj_get message ''result'') (NoResult name))))"

text \<open>
  \<open>recv_timeout\<close> with the time left: a line that is waiting is taken, also after the deadline; with
  none waiting the next one is awaited until the deadline.
\<close>

fun await_answer ::
    "string \<Rightarrow> nat \<Rightarrow> nat \<Rightarrow> nat \<Rightarrow> nat \<Rightarrow> (nat \<times> string option) list
      \<Rightarrow> (hjson, rpc_error) res \<times> nat \<times> (nat \<times> string option) list" where
  "await_answer name n cost deadline now [] = (Err NoAnswerInTime, max now deadline, [])"
| "await_answer name n cost deadline now ((t, x) # q) =
     (if now < t \<and> deadline < t then (Err NoAnswerInTime, max now deadline, (t, x) # q)
      else
        (case x of
           None \<Rightarrow> (Err CodexExited, max now t, (t, x) # q)
         | Some line \<Rightarrow>
             (case hx_answer name n line of
                Some r \<Rightarrow> (r, max now t + cost, q)
              | None \<Rightarrow> await_answer name n cost deadline (max now t + cost) q)))"

definition hx_request :: "nat \<Rightarrow> string \<Rightarrow> hjson \<Rightarrow> session \<Rightarrow> (hjson, rpc_error) res \<times> session" where
  "hx_request n name params s =
     (case send (hx_object [(''id'', Num (nat_str n)), (''method'', Str name), (''params'', params)]) s of
        (Ok _, s) \<Rightarrow>
          (case await_answer name n (se_cost s) (se_deadline s) (se_now s) (se_lines s) of
             (r, now, q) \<Rightarrow> (r, s\<lparr>se_now := now, se_lines := q\<rparr>))
      | (Err e, s) \<Rightarrow> (Err e, s)
      | (Panic, s) \<Rightarrow> (Panic, s))"

text \<open>
  \<open>Session::start\<close> once the program runs, with the version of the build: the server's lines, its
  closing and the handling time are what the run of the program brings.
\<close>

definition start_session :: "string \<Rightarrow> session \<Rightarrow> (unit, rpc_error) res \<times> session" where
  "start_session version s =
     (let s = s\<lparr>se_now := 0, se_deadline := TIMEOUT, se_sent := []\<rparr>;
          info = hx_object [(''name'', Str ''cyd-host''), (''version'', Str version)]
      in case hx_request 0 ''initialize'' (hx_object [(''clientInfo'', info)]) s of
           (Ok _, s) \<Rightarrow> send (hx_object [(''method'', Str ''initialized'')]) s
         | (Err e, s) \<Rightarrow> (Err e, s)
         | (Panic, s) \<Rightarrow> (Panic, s))"

definition and_item :: "'a option \<Rightarrow> ('a \<Rightarrow> 'b option) \<Rightarrow> 'b option" where
  "and_item v f = (case v of None \<Rightarrow> None | Some x \<Rightarrow> f x)"

definition read_hook :: "hjson \<Rightarrow> codex_hook option" where
  "read_hook hook =
     and_item (and_item (hj_get hook ''key'') as_str) (\<lambda>key.
     and_item (and_item (hj_get hook ''trustStatus'') as_str) (\<lambda>status.
     Some \<lparr>ch_key = key, ch_trust_status = status,
       ch_current_hash = (case and_item (hj_get hook ''currentHash'') as_str of None \<Rightarrow> [] | Some h \<Rightarrow> h),
       ch_ours = contains ''agent-event codex '' (compact hook)\<rparr>))"

definition parse_hooks :: "hjson \<Rightarrow> (codex_hook list, rpc_error) res" where
  "parse_hooks result =
     and_then (ok_or
       (and_item (and_item (hj_get result ''data'') as_array) (\<lambda>data.
        and_item (case data of [] \<Rightarrow> None | first # _ \<Rightarrow> Some first) (\<lambda>first.
        and_item (hj_get first ''hooks'') as_array))) UnexpectedReply) (\<lambda>hooks.
     Ok (List.map_filter read_hook hooks))"

text \<open>\<open>AppServer::list\<close> and \<open>AppServer::grant\<close>; no session when the program cannot be run.\<close>

definition app_list ::
    "string \<Rightarrow> string \<Rightarrow> session option \<Rightarrow> (codex_hook list, rpc_error) res \<times> session option" where
  "app_list version home run =
     (case run of
        None \<Rightarrow> (Err CannotRunCodex, None)
      | Some s \<Rightarrow>
          (case start_session version s of
             (Ok _, s) \<Rightarrow>
               if \<not> from_utf8 home then (Err HomeNotUtf8, Some s)
               else
                 (case hx_request 1 ''hooks/list'' (hx_object [(''cwds'', Arr [Str home])]) s of
                    (r, s) \<Rightarrow> (and_then r parse_hooks, Some s))
           | (Err e, s) \<Rightarrow> (Err e, Some s)
           | (Panic, s) \<Rightarrow> (Panic, Some s)))"

definition grant_params :: "(string \<times> string) list \<Rightarrow> hjson" where
  "grant_params grants =
     hx_object
       [(''edits'', Arr [hx_object
           [(''keyPath'', Str ''hooks.state''),
            (''value'', Obj (map (\<lambda>g. (fst g, hx_object [(''trusted_hash'', Str (snd g))])) grants)),
            (''mergeStrategy'', Str ''upsert'')]]),
        (''filePath'', Null), (''expectedVersion'', Null), (''reloadUserConfig'', Bool True)]"

definition app_grant ::
    "string \<Rightarrow> string \<Rightarrow> (string \<times> string) list \<Rightarrow> session option \<Rightarrow> (unit, rpc_error) res \<times> session option" where
  "app_grant version home grants run =
     (if \<not> from_utf8 home then (Err HomeNotUtf8, run)
      else
        case run of
          None \<Rightarrow> (Err CannotRunCodex, None)
        | Some s \<Rightarrow>
            (case start_session version s of
               (Ok _, s) \<Rightarrow>
                 (case hx_request 2 ''config/batchWrite'' (grant_params grants) s of
                    (r, s) \<Rightarrow> (and_then r (\<lambda>_. Ok ()), Some s))
             | (Err e, s) \<Rightarrow> (Err e, Some s)
             | (Panic, s) \<Rightarrow> (Panic, Some s)))"

end
