(* ===== verification/Hook_Commands.thy ===== *)
theory Hook_Commands
  imports Hook_Files Hook_Stamp Hook_Codex
begin

text \<open>
  The \<open>hooks\<close> commands, \<^verbatim>\<open>cli/src/hooks/mod.rs\<close>: the arguments, the state of an agent's hooks, the
  installation and the removal for one agent, and the run over the agents. Codex is behind the
  interface of the code, a list of hooks and a grant; the grants made are part of the world. Printed
  lines are values, one constructor for each message.
\<close>

section \<open>Arguments\<close>

datatype hook_action = StatusAction | InstallAction | RemoveAction

record hook_args =
  ha_action :: hook_action
  ha_adapters :: "adapter list"
  ha_binary :: "string option"
  ha_dry_run :: bool
  ha_trust :: bool
  ha_check :: bool

datatype args_error = NeedsAction | NeedsPath | UnknownOption string | UnknownAgent string

fun parse_rest :: "string list \<Rightarrow> hook_args \<Rightarrow> (hook_args, args_error) res" where
  "parse_rest [] parsed = Ok parsed"
| "parse_rest (arg # rest) parsed =
     (if arg = ''--cyd-host'' then
        (case rest of
           [] \<Rightarrow> Err NeedsPath
         | path # rest \<Rightarrow> parse_rest rest (parsed\<lparr>ha_binary := Some path\<rparr>))
      else if arg = ''--dry-run'' \<and> ha_action parsed \<noteq> StatusAction then
        parse_rest rest (parsed\<lparr>ha_dry_run := True\<rparr>)
      else if arg = ''--trust'' \<and> ha_action parsed \<noteq> RemoveAction then
        parse_rest rest (parsed\<lparr>ha_trust := True\<rparr>)
      else if arg = ''--check'' \<and> ha_action parsed = StatusAction then
        parse_rest rest (parsed\<lparr>ha_check := True\<rparr>)
      else if strip_prefix ''-'' arg \<noteq> None then Err (UnknownOption arg)
      else
        (case adapter_for arg of
           None \<Rightarrow> Err (UnknownAgent arg)
         | Some adapter \<Rightarrow>
             parse_rest rest
               (if list_ex (\<lambda>a. ad_slug a = arg) (ha_adapters parsed) then parsed
                else parsed\<lparr>ha_adapters := ha_adapters parsed @ [adapter]\<rparr>)))"

definition parse_action :: "string list \<Rightarrow> (hook_action, args_error) res" where
  "parse_action args =
     (case args of
        [] \<Rightarrow> Err NeedsAction
      | first # _ \<Rightarrow>
          if first = ''status'' then Ok StatusAction
          else if first = ''install'' then Ok InstallAction
          else if first = ''remove'' then Ok RemoveAction
          else Err NeedsAction)"

definition parse_args :: "string list \<Rightarrow> (hook_args, args_error) res" where
  "parse_args args =
     and_then (parse_action args) (\<lambda>action.
     and_then (parse_rest (tl args)
         \<lparr>ha_action = action, ha_adapters = [], ha_binary = None, ha_dry_run = False,
           ha_trust = False, ha_check = False\<rparr>) (\<lambda>parsed.
     Ok (if ha_adapters parsed = [] then parsed\<lparr>ha_adapters := ADAPTERS\<rparr> else parsed)))"

section \<open>One agent\<close>

text \<open>
  \<open>Context\<close>: the home directory, the program the hooks run, the time, the process, and what Codex
  lists and answers to a grant.
\<close>

record hook_context =
  cx_home :: path
  cx_binary :: string
  cx_seconds :: nat
  cx_pid :: nat
  cx_list :: "(codex_hook list, rpc_error) res"
  cx_grant :: "(string \<times> string) list \<Rightarrow> (unit, rpc_error) res"

record host = world +
  ho_granted :: "(string \<times> string) list list"

type_synonym 'a command = "('a, file_error, \<lparr>ho_granted :: (string \<times> string) list list\<rparr>) act"

definition under :: "path \<Rightarrow> string \<Rightarrow> path" where
  "under home name = home @ split_on CHR ''/'' name"

definition cx_file :: "hook_context \<Rightarrow> adapter \<Rightarrow> path" where
  "cx_file cx a = under (cx_home cx) (ad_file a)"

definition cx_dir :: "hook_context \<Rightarrow> adapter \<Rightarrow> path" where
  "cx_dir cx a = under (cx_home cx) (ad_config_dir a)"

definition agent_installed :: "hook_context \<Rightarrow> adapter \<Rightarrow> (bool, file_error, 'x) act" where
  "agent_installed cx a = is_dir (cx_dir cx a)"

text \<open>\<open>binary_exists\<close>: an absolute path is looked up, links and all.\<close>

definition binary_exists :: "disk \<Rightarrow> string \<Rightarrow> bool" where
  "binary_exists d name =
     (case found d (split_on CHR ''/'' (tl name)) of Ok (_, File _ _ _) \<Rightarrow> True | _ \<Rightarrow> False)"

datatype judged = Judged hook_state | CannotSee file_error

datatype left_why = FileWhy file_error | ConfigWhy config_error

datatype line =
    StateLine judged
  | TrustLine string
  | TrustUnknown rpc_error
  | AgentSkipped
  | LeftAlone left_why
  | AlreadyInstalled
  | WouldWrite path judged
  | InstalledIn path
  | BackupAt path
  | CommandFailed file_error
  | WouldTrust
  | TrustedHooks nat
  | NothingToRemove
  | NoneOfOurs
  | WouldRemove path
  | RemovedFrom path "path option"

record command_outcome =
  co_slug :: string
  co_lines :: "line list"
  co_fine :: bool

definition done_with :: "adapter \<Rightarrow> line list \<Rightarrow> bool \<Rightarrow> command_outcome" where
  "done_with a ls fine = \<lparr>co_slug = ad_slug a, co_lines = ls, co_fine = fine\<rparr>"

definition judge_text :: "hook_context \<Rightarrow> adapter \<Rightarrow> string option \<Rightarrow> judged command" where
  "judge_text cx a existing w =
     (case hook_classify a existing (cx_binary cx) (binary_exists (wo_disk w)) of
        Ok state \<Rightarrow> (Ok (Judged state), w)
      | Err why \<Rightarrow> (Ok (Judged (Unreadable why)), w)
      | Panic \<Rightarrow> (Panic, w))"

definition read_state :: "hook_context \<Rightarrow> adapter \<Rightarrow> judged command" where
  "read_state cx a =
     bind_act (agent_installed cx a) (\<lambda>installed.
     if \<not> installed then return (Judged AgentNotInstalled)
     else
       bind_act (outcome (read_config (cx_file cx a))) (\<lambda>r.
       case r of
         Ok existing \<Rightarrow> judge_text cx a existing
       | Err why \<Rightarrow> return (CannotSee why)
       | Panic \<Rightarrow> abort))"

text \<open>\<open>list\<close> asks Codex; a panic of the exchange would be one of the command.\<close>

definition listed :: "hook_context \<Rightarrow> ((codex_hook list, rpc_error) res \<Rightarrow> 'a command) \<Rightarrow> 'a command" where
  "listed cx f = (if cx_list cx = Panic then abort else f (cx_list cx))"

definition trust_line :: "hook_context \<Rightarrow> line command" where
  "trust_line cx =
     listed cx (\<lambda>r.
     case r of
       Ok hooks \<Rightarrow> return (TrustLine (describe_trust hooks))
     | Err why \<Rightarrow> return (TrustUnknown why)
     | Panic \<Rightarrow> abort)"

definition hooks_present :: "judged \<Rightarrow> bool" where
  "hooks_present state \<longleftrightarrow> state \<noteq> Judged NotInstalled \<and> state \<noteq> Judged AgentNotInstalled"

definition judged_fine :: "judged \<Rightarrow> bool" where
  "judged_fine state = (case state of Judged s \<Rightarrow> is_fine s | CannotSee _ \<Rightarrow> False)"

definition status_one :: "hook_context \<Rightarrow> adapter \<Rightarrow> bool \<Rightarrow> command_outcome command" where
  "status_one cx a trust =
     bind_act (read_state cx a) (\<lambda>state.
     if trust \<and> hooks_present state \<and> ad_agent a = Codex then
       bind_act (trust_line cx) (\<lambda>l. return (done_with a [StateLine state, l] (judged_fine state)))
     else return (done_with a [StateLine state] (judged_fine state)))"

definition record_grant :: "(string \<times> string) list \<Rightarrow> unit command" where
  "record_grant grants w = (Ok (), w\<lparr>ho_granted := ho_granted w @ [grants]\<rparr>)"

definition grant_trust :: "hook_context \<Rightarrow> line command" where
  "grant_trust cx =
     listed cx (\<lambda>r.
     case r of
       Err why \<Rightarrow> return (TrustUnknown why)
     | Panic \<Rightarrow> abort
     | Ok hooks \<Rightarrow>
         (let grants = needs_grant hooks in
          if grants = [] then return (TrustLine (describe_trust hooks))
          else
            bind_act (record_grant grants) (\<lambda>_.
            case cx_grant cx grants of
              Ok _ \<Rightarrow> return (TrustedHooks (length grants))
            | Err why \<Rightarrow> return (TrustUnknown why)
            | Panic \<Rightarrow> abort)))"

text \<open>The end of an installation: the trust, where it is asked for, and the outcome.\<close>

definition with_trust :: "hook_context \<Rightarrow> adapter \<Rightarrow> bool \<Rightarrow> bool \<Rightarrow> line list \<Rightarrow> command_outcome command" where
  "with_trust cx a dry_run trust ls =
     (if trust \<and> ad_agent a = Codex then
        (if dry_run then return (done_with a (ls @ [WouldTrust]) True)
         else bind_act (grant_trust cx) (\<lambda>l. return (done_with a (ls @ [l]) True)))
      else return (done_with a ls True))"

definition stamp_of :: "hook_context \<Rightarrow> string" where
  "stamp_of cx = timestamp (cx_seconds cx)"

definition install_edit :: "hook_context \<Rightarrow> adapter \<Rightarrow> bool \<Rightarrow> bool \<Rightarrow> string option \<Rightarrow> edit \<Rightarrow> command_outcome command" where
  "install_edit cx a dry_run trust existing e =
     (if e = Unchanged then with_trust cx a dry_run trust [AlreadyInstalled]
      else if dry_run then
        bind_act (judge_text cx a existing) (\<lambda>before.
        with_trust cx a dry_run trust [WouldWrite (cx_file cx a) before])
      else
        bind_act (outcome (hook_apply (cx_pid cx) (cx_file cx a) e (cx_dir cx a) (stamp_of cx))) (\<lambda>r.
        case r of
          Ok bk \<Rightarrow>
            with_trust cx a dry_run trust
              (InstalledIn (cx_file cx a) # (case bk of None \<Rightarrow> [] | Some b \<Rightarrow> [BackupAt b]))
        | Err why \<Rightarrow> return (done_with a [CommandFailed why] False)
        | Panic \<Rightarrow> abort))"

definition install_one :: "hook_context \<Rightarrow> adapter \<Rightarrow> bool \<Rightarrow> bool \<Rightarrow> command_outcome command" where
  "install_one cx a dry_run trust =
     bind_act (agent_installed cx a) (\<lambda>installed.
     if \<not> installed then return (done_with a [AgentSkipped] True)
     else
       bind_act (outcome (read_config (cx_file cx a))) (\<lambda>r.
       case r of
         Err why \<Rightarrow> return (done_with a [LeftAlone (FileWhy why)] False)
       | Panic \<Rightarrow> abort
       | Ok existing \<Rightarrow>
           (case hook_install a existing (cx_binary cx) of
              Err why \<Rightarrow> return (done_with a [LeftAlone (ConfigWhy why)] False)
            | Panic \<Rightarrow> abort
            | Ok e \<Rightarrow> install_edit cx a dry_run trust existing e)))"

definition remove_edit :: "hook_context \<Rightarrow> adapter \<Rightarrow> bool \<Rightarrow> edit \<Rightarrow> command_outcome command" where
  "remove_edit cx a dry_run e =
     (if e = Unchanged then return (done_with a [NoneOfOurs] True)
      else if dry_run then return (done_with a [WouldRemove (cx_file cx a)] True)
      else
        bind_act (outcome (hook_apply (cx_pid cx) (cx_file cx a) e (cx_dir cx a) (stamp_of cx))) (\<lambda>r.
        case r of
          Ok bk \<Rightarrow> return (done_with a [RemovedFrom (cx_file cx a) bk] True)
        | Err why \<Rightarrow> return (done_with a [CommandFailed why] False)
        | Panic \<Rightarrow> abort))"

definition remove_one :: "hook_context \<Rightarrow> adapter \<Rightarrow> bool \<Rightarrow> command_outcome command" where
  "remove_one cx a dry_run =
     bind_act (agent_installed cx a) (\<lambda>installed.
     if \<not> installed then return (done_with a [NothingToRemove] True)
     else
       bind_act (outcome (read_config (cx_file cx a))) (\<lambda>r.
       case r of
         Err why \<Rightarrow> return (done_with a [LeftAlone (FileWhy why)] False)
       | Panic \<Rightarrow> abort
       | Ok existing \<Rightarrow>
           (case hook_remove a existing of
              Err why \<Rightarrow> return (done_with a [LeftAlone (ConfigWhy why)] False)
            | Panic \<Rightarrow> abort
            | Ok e \<Rightarrow> remove_edit cx a dry_run e)))"

section \<open>The command\<close>

definition run_one :: "hook_args \<Rightarrow> hook_context \<Rightarrow> adapter \<Rightarrow> command_outcome command" where
  "run_one args cx a =
     (case ha_action args of
        StatusAction \<Rightarrow> status_one cx a (ha_trust args)
      | InstallAction \<Rightarrow> install_one cx a (ha_dry_run args) (ha_trust args)
      | RemoveAction \<Rightarrow> remove_one cx a (ha_dry_run args))"

fun execute_all :: "hook_args \<Rightarrow> hook_context \<Rightarrow> adapter list \<Rightarrow> command_outcome list command" where
  "execute_all args cx [] = return []"
| "execute_all args cx (a # as) =
     bind_act (run_one args cx a) (\<lambda>o'.
     bind_act (execute_all args cx as) (\<lambda>os.
     return (o' # os)))"

definition hooks_execute :: "hook_args \<Rightarrow> hook_context \<Rightarrow> command_outcome list command" where
  "hooks_execute args cx = execute_all args cx (ha_adapters args)"

definition exit_success :: "hook_args \<Rightarrow> command_outcome list \<Rightarrow> bool" where
  "exit_success args outcomes \<longleftrightarrow>
     list_all co_fine outcomes \<or> ha_action args = StatusAction \<and> \<not> ha_check args"

text \<open>\<open>binary_path\<close>: an absolute path of UTF-8 text without control characters.\<close>

datatype path_error = NotAbsolute | NoOwnPath | PathNotUtf8 | PathHasControl

fun has_control :: "string \<Rightarrow> bool" where
  "has_control [] = False"
| "has_control (c # s) =
     (byte c < 0x20 \<or> byte c = 0x7F
      \<or> byte c = 0xC2 \<and> (case s of [] \<Rightarrow> False | d # _ \<Rightarrow> 0x80 \<le> byte d \<and> byte d < 0xA0)
      \<or> has_control s)"

definition binary_path :: "string option \<Rightarrow> string option \<Rightarrow> (string, path_error) res" where
  "binary_path requested own =
     and_then
       (case requested of
          Some path \<Rightarrow> if strip_prefix ''/'' path = None then Err NotAbsolute else Ok path
        | None \<Rightarrow> ok_or own NoOwnPath) (\<lambda>path.
     if \<not> from_utf8 path then Err PathNotUtf8
     else if has_control path then Err PathHasControl
     else Ok path)"

definition home_dir :: "string option \<Rightarrow> path option" where
  "home_dir home =
     (case home of
        None \<Rightarrow> None
      | Some text \<Rightarrow>
          if strip_prefix ''/'' text = None then None
          else Some (filter (\<lambda>part. part \<noteq> [] \<and> part \<noteq> ''.'') (split_on CHR ''/'' (tl text))))"

text \<open>
  \<open>command\<close>: whether the program exits with success, and what it did. The environment gives \<open>HOME\<close>,
  the path of the program itself, the time, the process and Codex.
\<close>

datatype refused = BadArgs args_error | NoHome | BadPath path_error

record environment =
  en_home :: "string option"
  en_own_path :: "string option"
  en_seconds :: nat
  en_pid :: nat
  en_list :: "path \<Rightarrow> (codex_hook list, rpc_error) res"
  en_grant :: "path \<Rightarrow> (string \<times> string) list \<Rightarrow> (unit, rpc_error) res"

definition context_of :: "environment \<Rightarrow> path \<Rightarrow> string \<Rightarrow> hook_context" where
  "context_of en home binary =
     \<lparr>cx_home = home, cx_binary = binary, cx_seconds = en_seconds en, cx_pid = en_pid en,
       cx_list = en_list en home, cx_grant = en_grant en home\<rparr>"

definition hooks_command ::
    "environment \<Rightarrow> string list \<Rightarrow> (command_outcome list \<times> bool, refused) res command" where
  "hooks_command en args =
     (case parse_args args of
        Err why \<Rightarrow> return (Err (BadArgs why))
      | Panic \<Rightarrow> abort
      | Ok parsed \<Rightarrow>
          (case home_dir (en_home en) of
             None \<Rightarrow> return (Err NoHome)
           | Some home \<Rightarrow>
               (case binary_path (ha_binary parsed) (en_own_path en) of
                  Err why \<Rightarrow> return (Err (BadPath why))
                | Panic \<Rightarrow> abort
                | Ok binary \<Rightarrow>
                    bind_act (hooks_execute parsed (context_of en home binary)) (\<lambda>outcomes.
                    return (Ok (outcomes, exit_success parsed outcomes))))))"

end
