(* ===== verification/Hook_Files_Safe.thy ===== *)
theory Hook_Files_Safe
  imports Hook_Files
begin

text \<open>
  What the file access under the hook adapters guarantees, whatever system calls fail and wherever
  the process stops: a reader of the configuration finds the old content or the new content in full,
  nothing else that was on the disk changes, and a change comes after a complete backup.
\<close>

section \<open>Each action from a given disk\<close>

lemma runs_at:
  assumes "\<And>d1. P d1 \<Longrightarrow> runs (\<lambda>d. d = d1) m Q R"
  shows "runs P m Q R"
  using assms unfolding runs_def by blast

lemma runs_fact: "(F \<Longrightarrow> runs P m Q R) \<Longrightarrow> runs (\<lambda>d. P d \<and> F) m Q R"
  by (auto simp: runs_def)

text \<open>What a reader of a path finds: the file, directory or nothing behind its links.\<close>

definition seen :: "disk \<Rightarrow> path \<Rightarrow> node option" where
  "seen d p = (case found d p of Ok (q, x) \<Rightarrow> Some x | _ \<Rightarrow> None)"

lemma follow_total: "follow_links n d p \<noteq> Panic"
  by (induction n d p rule: follow_links.induct) (auto split: option.split node.split)

lemma found_total: "found d p \<noteq> Panic"
  using follow_total by (auto simp: found_def and_then_eq_Panic split: option.split)

lemma follow_end: "follow_links n d p = Ok q \<Longrightarrow> d q \<noteq> Some (Link t)"
  by (induction n d p rule: follow_links.induct) (auto split: option.split_asm node.split_asm)

lemma follow_same: "follow_links n d p = Ok q \<Longrightarrow> q \<noteq> p \<Longrightarrow> \<exists>t. d p = Some (Link t)"
  by (cases n) (auto split: option.split_asm node.split_asm)

text \<open>Following links does not depend on what is not a link, nor on what was not there.\<close>

lemma follow_cong:
  assumes "\<And>p. (\<exists>t. d p = Some (Link t)) \<or> (\<exists>t. d' p = Some (Link t)) \<Longrightarrow> d' p = d p"
  shows "follow_links n d' p = follow_links n d p"
proof (induction n arbitrary: p)
  case (Suc n)
  show ?case
  proof (cases "(\<exists>t. d p = Some (Link t)) \<or> (\<exists>t. d' p = Some (Link t))")
    case True
    then show ?thesis using assms [OF True] Suc by (auto split: option.split node.split)
  next
    case False
    then show ?thesis by (auto split: option.split node.split)
  qed
qed simp

lemma seen_file: "d p = Some (File c m s) \<Longrightarrow> seen d p = Some (File c m s)"
  by (simp add: seen_def found_def numeral_eq_Suc)

section \<open>Writing\<close>

lemma written_states:
  assumes "x \<in> set (written q text n d)"
  shows "\<exists>c m s. x = d(q \<mapsto> File c m s)"
proof -
  obtain c m s where "d q = Some (File c m s)"
    using assms by (cases "d q"; cases "the (d q)") (simp_all add: written_def)
  then obtain k where "x = d(q \<mapsto> File (c @ take k text) m False)"
    using assms unfolding written_def by force
  then show ?thesis by blast
qed

lemma written_now:
  assumes "d q = Some (File [] m s)"
  shows "\<exists>s'. now (written q t (length t) d) d = d(q \<mapsto> File t m s')"
proof (cases t)
  case Nil
  then have "now (written q t (length t) d) d = d(q \<mapsto> File t m s)"
    using assms by (simp add: written_def fun_upd_idem)
  then show ?thesis ..
next
  case (Cons c t')
  then have "now (written q t (length t) d) d = d(q \<mapsto> File t m False)"
    using assms by (simp add: written_def now_def last_map)
  then show ?thesis ..
qed

lemma written_some: "\<exists>x. now (written q t n d) d = d(q := x)"
proof (cases "written q t n d = []")
  case True
  then have "now (written q t n d) d = d(q := d q)" by simp
  then show ?thesis ..
next
  case False
  then have "last (written q t n d) \<in> set (written q t n d)" by simp
  then show ?thesis
    using False written_states [of "last (written q t n d)" q t n d] by (auto simp: now_def)
qed

text \<open>
  The temporary: from a disk without it, nothing but it changes until the rename, which puts the
  whole text, on the medium, in the place of the configuration.
\<close>

definition scratch :: "disk \<Rightarrow> path \<Rightarrow> disk \<Rightarrow> bool" where
  "scratch d1 temp d \<longleftrightarrow> (\<exists>x. d = d1(temp := x))"

lemma scratch_refl [simp]: "scratch d1 temp d1"
proof -
  have "d1 = d1(temp := d1 temp)" by simp
  then show ?thesis unfolding scratch_def by blast
qed

lemma scratch_upd [simp]: "scratch d1 temp (d1(temp := x))"
  by (auto simp: scratch_def)

lemma runs_create:
  assumes "d1 temp = None"
  shows "runs (\<lambda>d. d = d1) (create_truncate temp mode)
    (\<lambda>r d. case r of Ok file \<Rightarrow> file = temp \<and> (\<exists>m. d = d1(temp \<mapsto> File [] m False)) | _ \<Rightarrow> scratch d1 temp d)
    (scratch d1 temp)"
proof (rule runs_at)
  fix d assume d: "d = d1"
  have "follow_links 33 d1 temp = Ok temp"
    using assms by (simp add: numeral_eq_Suc)
  then show "runs (\<lambda>x. x = d) (create_truncate temp mode)
    (\<lambda>r d. case r of Ok file \<Rightarrow> file = temp \<and> (\<exists>m. d = d1(temp \<mapsto> File [] m False)) | _ \<Rightarrow> scratch d1 temp d)
    (scratch d1 temp)"
    using assms d unfolding runs_def create_truncate_def
    by (auto simp: sys_call_def Let_def made_def nothing_def split: list.splits fate.splits option.splits)
qed

lemma runs_then:
  assumes "runs P m Q1 R1" and "\<And>d. R1 d \<Longrightarrow> R d"
    and "\<And>x d. Q1 (Ok x) d \<Longrightarrow> M x d" and "\<And>e d. Q1 (Err e) d \<Longrightarrow> Q (Err e) d" and "\<And>d. Q1 Panic d \<Longrightarrow> Q Panic d"
    and "\<And>x. runs (M x) (f x) Q R"
  shows "runs P (bind_act m f) Q R"
proof (rule runs_bind)
  show "runs P m (\<lambda>r d. case r of Ok x \<Rightarrow> M x d | Err e \<Rightarrow> Q (Err e) d | Panic \<Rightarrow> Q Panic d) R"
    by (rule runs_mono [OF assms(1)]) (auto intro: assms(2-5) split: res.split)
qed (rule assms(6))

lemma runs_call_at:
  assumes "\<And>d r ds. P d \<Longrightarrow> op d = (r, ds) \<Longrightarrow> Q r (now ds d)"
    and "\<And>d r ds x. P d \<Longrightarrow> op d = (r, ds) \<Longrightarrow> x \<in> set ds \<Longrightarrow> R x"
    and "\<And>d e. P d \<Longrightarrow> Q (Err (OtherIo e)) d"
  shows "runs P (sys_call op nothing) Q R"
  using assms by (intro runs_sys_call) (auto simp: nothing_def)

definition replaced :: "disk \<Rightarrow> path \<Rightarrow> string \<Rightarrow> disk \<Rightarrow> bool" where
  "replaced d1 p t d \<longleftrightarrow> (\<exists>mode. d = d1(p \<mapsto> File t mode True))"

definition temp_file :: "disk \<Rightarrow> path \<Rightarrow> string \<Rightarrow> bool \<Rightarrow> disk \<Rightarrow> bool" where
  "temp_file d1 temp t s d \<longleftrightarrow> (\<exists>m s'. d = d1(temp \<mapsto> File t m s') \<and> (s \<longrightarrow> s'))"

lemma temp_fileI [intro, simp]: "(s \<longrightarrow> s') \<Longrightarrow> temp_file d1 temp t s (d1(temp \<mapsto> File t m s'))"
  by (auto simp: temp_file_def)

lemma temp_fileE:
  assumes "temp_file d1 temp t s d"
  obtains m s' where "d = d1(temp \<mapsto> File t m s')" "s \<longrightarrow> s'"
  using assms by (auto simp: temp_file_def)

lemma temp_file_scratch: "temp_file d1 temp t s d \<Longrightarrow> scratch d1 temp d"
  by (auto simp: temp_file_def)

lemma runs_write_all:
  "runs (temp_file d1 temp [] False) (write_all temp t)
    (\<lambda>r d. case r of Ok _ \<Rightarrow> temp_file d1 temp t False d | _ \<Rightarrow> scratch d1 temp d) (scratch d1 temp)"
  unfolding write_all_def
proof (rule runs_sys_call)
  fix d n and e :: nat
  assume "temp_file d1 temp [] False d"
  then obtain m s where d: "d = d1(temp \<mapsto> File [] m s)" by (auto simp: temp_file_def)
  have some: "scratch d1 temp (now (written temp t n d) d)"
    using written_some [of temp t n d] d by auto
  have all: "\<forall>x \<in> set (written temp t n d). scratch d1 temp x"
    using written_states d by fastforce
  show "(case Err (OtherIo e) :: (unit, io_error) res of Ok x \<Rightarrow> temp_file d1 temp t False (now (written temp t n d) d)
      | _ \<Rightarrow> scratch d1 temp (now (written temp t n d) d)) \<and> (\<forall>x \<in> set (written temp t n d). scratch d1 temp x)"
    using some all by simp
next
  fix d and r :: "(unit, io_error) res" and ds
  assume "temp_file d1 temp [] False d"
    and op: "(case d temp of Some (File c m s) \<Rightarrow> (Ok (), written temp t (length t) d)
      | _ \<Rightarrow> (Err (OtherIo 9), [])) = (r, ds)"
  then obtain m s where d: "d = d1(temp \<mapsto> File [] m s)" by (auto simp: temp_file_def)
  have r: "r = Ok ()" "ds = written temp t (length t) d"
    using op d by auto
  have "\<exists>s'. now ds d = d1(temp \<mapsto> File t m s')"
    using written_now [of d temp m s t] d r by auto
  moreover have "\<forall>x \<in> set ds. scratch d1 temp x"
    using written_states d r by fastforce
  ultimately show "(case r of Ok x \<Rightarrow> temp_file d1 temp t False (now ds d) | _ \<Rightarrow> scratch d1 temp (now ds d))
      \<and> (\<forall>x \<in> set ds. scratch d1 temp x)"
    using r by (auto simp: temp_file_def)
qed

lemma runs_set_mode:
  "runs (temp_file d1 temp t s) (set_mode temp mode)
    (\<lambda>r d. case r of Ok _ \<Rightarrow> temp_file d1 temp t s d | _ \<Rightarrow> scratch d1 temp d) (scratch d1 temp)"
  unfolding set_mode_def
  by (rule runs_call_at) (auto elim!: temp_fileE)

lemma runs_sync_all:
  "runs (temp_file d1 temp t s) (sync_all temp)
    (\<lambda>r d. case r of Ok _ \<Rightarrow> temp_file d1 temp t True d | _ \<Rightarrow> scratch d1 temp d) (scratch d1 temp)"
  unfolding sync_all_def
  by (rule runs_call_at) (auto elim!: temp_fileE)

lemma runs_rename:
  assumes "d1 temp = None" and "temp \<noteq> p"
  shows "runs (temp_file d1 temp t True) (rename temp p)
    (\<lambda>r d. case r of Ok _ \<Rightarrow> replaced d1 p t d | _ \<Rightarrow> scratch d1 temp d) (replaced d1 p t)"
proof -
  have "d1(temp := None, p \<mapsto> x) = d1(p \<mapsto> x)" for x
    using assms by (simp add: fun_upd_idem)
  then have "d1(temp \<mapsto> y, temp := None, p \<mapsto> x) = d1(p \<mapsto> x)" for x y
    by simp
  then show ?thesis
    unfolding rename_def using assms
    by (intro runs_call_at) (auto simp: temp_file_def replaced_def split: option.split_asm node.split_asm)
qed

text \<open>The two ways the disk can be while a configuration is replaced.\<close>

definition replacing :: "disk \<Rightarrow> path \<Rightarrow> path \<Rightarrow> string \<Rightarrow> disk \<Rightarrow> bool" where
  "replacing d1 temp p t d \<longleftrightarrow> scratch d1 temp d \<or> replaced d1 p t d"

lemma replacingI [intro]:
  "scratch d1 temp d \<Longrightarrow> replacing d1 temp p t d" "replaced d1 p t d \<Longrightarrow> replacing d1 temp p t d"
  by (simp_all add: replacing_def)

lemma runs_write_temp:
  assumes "d1 temp = None" and "temp \<noteq> p"
  shows "runs (\<lambda>d. d = d1) (write_temp temp p t mode)
    (\<lambda>r d. case r of Ok _ \<Rightarrow> replaced d1 p t d | _ \<Rightarrow> scratch d1 temp d) (replacing d1 temp p t)"
    (is "runs ?P ?m ?Q ?R")
proof -
  have rename: "runs (temp_file d1 temp t True) (rename temp p) ?Q ?R"
    by (rule runs_mono, rule runs_rename, rule assms(1), rule assms(2)) auto
  have sync: "runs (temp_file d1 temp t False) (bind_act (sync_all temp) (\<lambda>_. rename temp p)) ?Q ?R"
    by (rule runs_then [OF runs_sync_all _ _ _ _ rename]) auto
  have set_mode: "runs (temp_file d1 temp t False)
      (bind_act (set_mode temp mode) (\<lambda>_. bind_act (sync_all temp) (\<lambda>_. rename temp p))) ?Q ?R"
    by (rule runs_then [OF runs_set_mode _ _ _ _ sync]) auto
  have "runs (temp_file d1 temp [] False) (bind_act (write_all temp t)
      (\<lambda>_. bind_act (set_mode temp mode) (\<lambda>_. bind_act (sync_all temp) (\<lambda>_. rename temp p)))) ?Q ?R"
    by (rule runs_then [OF runs_write_all _ _ _ _ set_mode]) auto
  then have body: "runs (\<lambda>d. h = temp \<and> temp_file d1 temp [] False d) (bind_act (write_all h t)
      (\<lambda>_. bind_act (set_mode h mode) (\<lambda>_. bind_act (sync_all h) (\<lambda>_. rename temp p)))) ?Q ?R" for h
    by (auto simp: runs_def)
  show ?thesis
    unfolding write_temp_def
    by (rule runs_then [OF runs_create [of d1 temp mode, OF assms(1)] _ _ _ _ body]) auto
qed

lemma runs_write_atomic:
  assumes "d1 (temp_path pid p) = None" and "temp_path pid p \<noteq> p"
  shows "runs (\<lambda>d. d = d1) (write_atomic pid p t mode)
    (\<lambda>r d. case r of Ok _ \<Rightarrow> replaced d1 p t d | _ \<Rightarrow> scratch d1 (temp_path pid p) d)
    (replacing d1 (temp_path pid p) p t)" (is "runs ?P ?m ?Q ?R")
proof -
  let ?temp = "temp_path pid p"
  have clean: "runs (scratch d1 ?temp)
      (bind_act (outcome (remove_file ?temp)) (\<lambda>_. refuse (Cannot ''write'' p e))) ?Q ?R" for e
    unfolding remove_file_def
    by (intro runs_bind [where M = "\<lambda>_. scratch d1 ?temp"] runs_outcome runs_call_at runs_refuse)
      (auto simp: replacing_def scratch_def split: option.split_asm node.split_asm)
  show ?thesis
    unfolding write_atomic_def
  proof (rule runs_bind [where M = "\<lambda>r d. case r of Ok _ \<Rightarrow> replaced d1 p t d | _ \<Rightarrow> scratch d1 ?temp d"])
    fix r :: "(unit, io_error) res"
    show "runs (\<lambda>d. case r of Ok _ \<Rightarrow> replaced d1 p t d | _ \<Rightarrow> scratch d1 ?temp d)
        (case r of Err e \<Rightarrow> bind_act (outcome (remove_file ?temp)) (\<lambda>_. refuse (Cannot ''write'' p e))
           | Ok _ \<Rightarrow> return () | Panic \<Rightarrow> abort)
        ?Q ?R"
    proof (cases r)
      case (Err e)
      then show ?thesis using clean by simp
    qed (auto intro!: runs_return runs_abort)
  qed (intro runs_outcome, simp add: runs_write_temp assms)
qed

section \<open>Backing up\<close>

definition is_bak :: "path \<Rightarrow> path \<Rightarrow> bool" where
  "is_bak p b \<longleftrightarrow> (\<exists>stamp n. b = bak_path p stamp n)"

lemma names_differ: "''.'' @ n @ ''.cyd-tmp-'' @ x \<noteq> n @ ''.bak-cyd-'' @ y"
proof (induction n)
  case (Cons c n)
  then show ?case by (cases "c = CHR ''.''") auto
qed simp

lemma bak_not_temp: "is_bak p b \<Longrightarrow> b \<noteq> temp_path pid p"
  using names_differ by (fastforce simp: is_bak_def bak_path_def temp_path_def with_file_name_def)

lemma sibling_differs:
  assumes "p \<noteq> []" and "name \<noteq> file_name p"
  shows "with_file_name p name \<noteq> p"
  using assms by (metis append_butlast_last_id butlast_snoc file_name_def last_snoc with_file_name_def)

lemma bak_not_self: "p \<noteq> [] \<Longrightarrow> is_bak p b \<Longrightarrow> b \<noteq> p"
  by (auto simp: is_bak_def bak_path_def sibling_differs)

lemma temp_not_self: "p \<noteq> [] \<Longrightarrow> temp_path pid p \<noteq> p"
  unfolding temp_path_def by (rule sibling_differs) (auto dest: arg_cong [where f = length])

definition backing :: "disk \<Rightarrow> path \<Rightarrow> disk \<Rightarrow> bool" where
  "backing d1 p d \<longleftrightarrow> d = d1 \<or> (\<exists>b y. is_bak p b \<and> d1 b = None \<and> d = d1(b \<mapsto> y))"

definition backed :: "disk \<Rightarrow> path \<Rightarrow> path \<Rightarrow> disk \<Rightarrow> bool" where
  "backed d1 p b d \<longleftrightarrow> is_bak p b \<and> d1 b = None
     \<and> (\<exists>c m s m' s'. seen d1 p = Some (File c m s) \<and> d = d1(b \<mapsto> File c m' s'))"

lemma backed_backing: "backed d1 p b d \<Longrightarrow> backing d1 p d"
  by (auto simp: backed_def backing_def)

lemma backingI: "is_bak p b \<Longrightarrow> d1 b = None \<Longrightarrow> backing d1 p (d1(b \<mapsto> y))"
  unfolding backing_def by blast

lemma backedI:
  "is_bak p b \<Longrightarrow> d1 b = None \<Longrightarrow> seen d1 p = Some (File c m s) \<Longrightarrow> backed d1 p b (d1(b \<mapsto> File c m' s'))"
  unfolding backed_def by blast

lemma map_err_simps [simp]: "map_err f (Ok x) = Ok x" "map_err f (Err e) = Err (f e)" "map_err f Panic = Panic"
  by (simp_all add: map_err_def)

lemma map_err_Ok: "map_err f r = Ok x \<longleftrightarrow> r = Ok x"
  by (cases r) simp_all

lemma runs_copy:
  assumes "source \<noteq> out"
  shows "runs (\<lambda>d. \<exists>m. d = d1(out \<mapsto> File [] m False)) (copy_all source out)
    (\<lambda>r d. case r of Ok _ \<Rightarrow> \<exists>c m s m' s'. d1 source = Some (File c m s) \<and> d = d1(out \<mapsto> File c m' s')
                   | _ \<Rightarrow> \<exists>y. d = d1(out \<mapsto> y))
    (\<lambda>d. \<exists>y. d = d1(out \<mapsto> y))"
proof -
  have some: "\<exists>y. now (written out t n (d1(out \<mapsto> File [] m False))) (d1(out \<mapsto> File [] m False)) = d1(out \<mapsto> y)" for t n m
  proof (cases "written out t n (d1(out \<mapsto> File [] m False)) = []")
    case False
    then have "last (written out t n (d1(out \<mapsto> File [] m False))) \<in> set (written out t n (d1(out \<mapsto> File [] m False)))"
      by simp
    then show ?thesis using False written_states by (fastforce simp: now_def)
  qed auto
  have all: "\<forall>x \<in> set (written out t n (d1(out \<mapsto> File [] m False))). \<exists>y. x = d1(out \<mapsto> y)" for t n m
    using written_states by fastforce
  have full: "\<exists>s'. now (written out t (length t) (d1(out \<mapsto> File [] m False))) (d1(out \<mapsto> File [] m False))
      = d1(out \<mapsto> File t m s')" for t m
    using written_now [of "d1(out \<mapsto> File [] m False)" out m False t] by simp
  show ?thesis
    unfolding copy_all_def
  proof (rule runs_sys_call)
    fix d n and e :: nat
    assume "\<exists>m. d = d1(out \<mapsto> File [] m False)"
    then obtain m where d: "d = d1(out \<mapsto> File [] m False)" ..
    let ?ds = "case d source of Some (File text _ _) \<Rightarrow> written out text n d | _ \<Rightarrow> []"
    have "?ds = [] \<or> (\<exists>t. ?ds = written out t n d)"
      by (auto split: option.split node.split)
    then have "(\<exists>y. now ?ds d = d1(out \<mapsto> y)) \<and> (\<forall>x \<in> set ?ds. \<exists>y. x = d1(out \<mapsto> y))"
    proof
      assume "\<exists>t. ?ds = written out t n d"
      then show ?thesis using some all d by force
    qed (simp add: d, blast)
    then show "(case Err (OtherIo e) :: (unit, io_error) res of
        Ok _ \<Rightarrow> \<exists>c m s m' s'. d1 source = Some (File c m s) \<and> now ?ds d = d1(out \<mapsto> File c m' s')
      | _ \<Rightarrow> \<exists>y. now ?ds d = d1(out \<mapsto> y)) \<and> (\<forall>x \<in> set ?ds. \<exists>y. x = d1(out \<mapsto> y))"
      by simp
  next
    fix d r ds
    assume "\<exists>m. d = d1(out \<mapsto> File [] m False)"
    then obtain m where d: "d = d1(out \<mapsto> File [] m False)" ..
    assume op: "(case (d source, d out) of
         (Some (File text _ _), Some (File _ _ _)) \<Rightarrow> (Ok (), written out text (length text) d)
       | _ \<Rightarrow> (Err (OtherIo 21), [])) = (r, ds)"
    show "(case r of Ok _ \<Rightarrow> \<exists>c m s m' s'. d1 source = Some (File c m s) \<and> now ds d = d1(out \<mapsto> File c m' s')
        | _ \<Rightarrow> \<exists>y. now ds d = d1(out \<mapsto> y)) \<and> (\<forall>x \<in> set ds. \<exists>y. x = d1(out \<mapsto> y))"
    proof (cases "\<exists>c m s. d1 source = Some (File c m s)")
      case True
      then obtain c m1 s where c: "d1 source = Some (File c m1 s)" by blast
      then have "r = Ok ()" "ds = written out c (length c) d"
        using op d assms by auto
      then show ?thesis
        using c full [of c m] all [of c _ m] d by auto
    next
      case False
      then have "is_ok r = False" "r \<noteq> Panic" "ds = []"
        using op d assms by (auto split: option.split_asm node.split_asm)
      then show ?thesis using d by (cases r) auto
    qed
  qed
qed

lemma runs_create_new:
  "runs (\<lambda>d. d = d1) (create_new b mode)
    (\<lambda>r d. case r of Ok out \<Rightarrow> out = b \<and> d1 b = None \<and> (\<exists>m. d = d1(b \<mapsto> File [] m False)) | _ \<Rightarrow> d = d1)
    (\<lambda>d. d1 b = None \<and> (\<exists>y. d = d1(b \<mapsto> y)))"
  unfolding runs_def create_new_def
  by (auto simp: sys_call_def Let_def made_def nothing_def split: list.splits fate.splits option.splits if_splits)

lemma found_end: "found d p = Ok (q, x) \<Longrightarrow> d q = Some x \<and> seen d p = Some x"
  by (auto simp: found_def seen_def and_then_eq_Ok split: option.split_asm)

lemma runs_backup_from:
  "runs (\<lambda>d. d = d1) (backup_from p stamp attempts :: (path, file_error, 'x) act)
    (\<lambda>r d. case r of Ok b \<Rightarrow> backed d1 p b d | _ \<Rightarrow> backing d1 p d) (backing d1 p)"
  (is "runs ?P _ ?Q ?R")
proof (induction attempts)
  case Nil
  show ?case by (auto intro!: runs_refuse simp: backing_def)
next
  case (Cons attempt rest)
  let ?b = "bak_path p stamp attempt"
  have bak: "is_bak p ?b" by (auto simp: is_bak_def)
  let ?open = "\<lambda>source d. d = d1 \<and> (\<exists>x. found d1 p = Ok (source, x))"
  let ?made = "\<lambda>source r d. (\<exists>x. found d1 p = Ok (source, x)) \<and> (case r of Ok out \<Rightarrow> out = ?b \<and> d1 ?b = None \<and> (\<exists>m. d = d1(?b \<mapsto> File [] m False)) | _ \<Rightarrow> d = d1)"
  have copy: "runs (?made source (Ok out))
      (bind_act (on_error (Cannot ''write'' ?b) (copy_all source out)) (\<lambda>_. return ?b)) ?Q ?R" for source out
  proof (cases "\<exists>x. found d1 p = Ok (source, x) \<and> out = ?b \<and> d1 ?b = None")
    case True
    then obtain x where f: "found d1 p = Ok (source, x)" "out = ?b" "d1 ?b = None" by blast
    have src: "d1 source = Some x" "seen d1 p = Some x" using found_end [OF f(1)] by auto
    then have ne: "source \<noteq> out" using f by auto
    have copied: "runs (?made source (Ok out)) (on_error (Cannot ''write'' ?b) (copy_all source out))
        (\<lambda>r d. case r of Ok _ \<Rightarrow> backed d1 p ?b d | _ \<Rightarrow> backing d1 p d) ?R"
    proof (intro runs_on_error runs_mono [OF runs_copy [of source out d1, OF ne]])
      fix r :: "(unit, io_error) res" and d
      assume "case r of Ok _ \<Rightarrow> \<exists>c m s m' s'. d1 source = Some (File c m s) \<and> d = d1(out \<mapsto> File c m' s')
        | _ \<Rightarrow> \<exists>y. d = d1(out \<mapsto> y)"
      then show "case map_err (Cannot ''write'' ?b) r of Ok _ \<Rightarrow> backed d1 p ?b d | _ \<Rightarrow> backing d1 p d"
        using f src bak by (cases r) (auto intro: backedI backingI)
    qed (use f bak in \<open>auto intro: backingI\<close>)
    show ?thesis
      by (rule runs_then [OF copied _ _ _ _ runs_return]) auto
  next
    case False
    then show ?thesis by (auto simp: runs_def)
  qed
  have again: "runs (?made source (Err e)) (backup_from p stamp rest :: (path, file_error, 'x) act) ?Q ?R" for source e
    by (rule runs_mono, rule Cons.IH) auto
  have next_step: "runs (?made source r)
      (case r of
         Ok out \<Rightarrow> bind_act (on_error (Cannot ''write'' ?b) (copy_all source out)) (\<lambda>_. return ?b)
       | Err AlreadyExists \<Rightarrow> (backup_from p stamp rest :: (path, file_error, 'x) act)
       | Err e \<Rightarrow> refuse (Cannot ''write'' ?b e)
       | Panic \<Rightarrow> abort) ?Q ?R" for source r
  proof (cases r)
    case (Ok out)
    then show ?thesis using copy by simp
  next
    case (Err e)
    then show ?thesis
      using again [of source e] by (cases e) (auto intro!: runs_refuse simp: backing_def)
  qed (auto intro!: runs_abort simp: backing_def)
  have create: "runs (?open source) (bind_act (outcome (create_new ?b mode)) (\<lambda>r. case r of
         Ok out \<Rightarrow> bind_act (on_error (Cannot ''write'' ?b) (copy_all source out)) (\<lambda>_. return ?b)
       | Err AlreadyExists \<Rightarrow> (backup_from p stamp rest :: (path, file_error, 'x) act)
       | Err e \<Rightarrow> refuse (Cannot ''write'' ?b e)
       | Panic \<Rightarrow> abort)) ?Q ?R" for source mode
  proof (rule runs_bind [where M = "?made source"])
    show "runs (?open source) (outcome (create_new ?b mode) :: (_, file_error, 'x) act)
        (\<lambda>r d. case r of Ok x \<Rightarrow> ?made source x d | Err e \<Rightarrow> ?Q (Err e) d | Panic \<Rightarrow> ?Q Panic d) ?R"
      by (rule runs_fact, rule runs_outcome, rule runs_mono [OF runs_create_new [of d1 ?b mode]])
        (use bak in \<open>auto intro: backingI split: res.split\<close>)
  qed (rule next_step)
  have mode: "runs (?open source) (bind_act (source_mode source) (\<lambda>mode. bind_act (outcome (create_new ?b mode)) (\<lambda>r. case r of
         Ok out \<Rightarrow> bind_act (on_error (Cannot ''write'' ?b) (copy_all source out)) (\<lambda>_. return ?b)
       | Err AlreadyExists \<Rightarrow> (backup_from p stamp rest :: (path, file_error, 'x) act)
       | Err e \<Rightarrow> refuse (Cannot ''write'' ?b e)
       | Panic \<Rightarrow> abort))) ?Q ?R" for source
    unfolding source_mode_def handle_mode_def
    by (rule runs_bind [OF _ create], rule runs_bind [where M = "\<lambda>_. ?open source"])
      (auto intro!: runs_outcome runs_ask runs_return simp: backing_def split: res.split)
  show ?case
    unfolding backup_from.simps Let_def open_file_def
    by (rule runs_bind [OF _ mode])
      (auto intro!: runs_on_error runs_ask simp: backing_def and_then_eq_Ok map_err_Ok split: res.split)
qed

text \<open>Actions that keep a condition of the disk at every moment.\<close>

definition keeps :: "(disk \<Rightarrow> bool) \<Rightarrow> ('a, 'e, 'x) act \<Rightarrow> bool" where
  "keeps G m \<longleftrightarrow> runs G m (\<lambda>_. G) G"

lemma keeps_bind: "keeps G m \<Longrightarrow> (\<And>x. keeps G (f x)) \<Longrightarrow> keeps G (bind_act m f)"
  unfolding keeps_def
  by (rule runs_bind [where M = "\<lambda>_. G"]) (auto intro!: runs_mono [of G m "\<lambda>_. G" G] split: res.split)

lemma keeps_pure: "keeps G (return x)" "keeps G (refuse e)" "keeps G abort"
  by (auto simp: keeps_def intro: runs_return runs_refuse runs_abort)

lemma keeps_outcome: "keeps G m \<Longrightarrow> keeps G (outcome m)"
  unfolding keeps_def by (rule runs_outcome)

lemma keeps_on_error: "keeps G m \<Longrightarrow> keeps G (on_error f m)"
  unfolding keeps_def by (rule runs_on_error)

lemma keeps_if: "(b \<Longrightarrow> keeps G m) \<Longrightarrow> (\<not> b \<Longrightarrow> keeps G m') \<Longrightarrow> keeps G (if b then m else m')"
  by simp

lemma keeps_ask: "keeps G (ask f)"
  unfolding keeps_def by (rule runs_ask)

lemma keeps_res:
  "(\<And>x. r = Ok x \<Longrightarrow> keeps G (f x)) \<Longrightarrow> (\<And>e. r = Err e \<Longrightarrow> keeps G (g e)) \<Longrightarrow> keeps G h
    \<Longrightarrow> keeps G (case r of Ok x \<Rightarrow> f x | Err e \<Rightarrow> g e | Panic \<Rightarrow> h)"
  by (cases r) auto

lemma keeps_io_error:
  "keeps G m \<Longrightarrow> keeps G a \<Longrightarrow> (\<And>n. keeps G (b n))
    \<Longrightarrow> keeps G (case e of NotFound \<Rightarrow> m | AlreadyExists \<Rightarrow> a | OtherIo n \<Rightarrow> b n)"
  by (cases e) auto

lemmas keeps_rules = keeps_pure keeps_bind keeps_outcome keeps_on_error keeps_if keeps_ask keeps_res

lemma keeps_is_dir: "keeps G (is_dir p)"
  unfolding is_dir_def by (intro keeps_rules)

lemma keeps_if_dir: "keeps G (if_dir p e)"
  unfolding if_dir_def by (intro keeps_rules keeps_is_dir)

text \<open>Directories are made only where nothing was, above the file.\<close>

definition grown :: "disk \<Rightarrow> nat \<Rightarrow> disk \<Rightarrow> bool" where
  "grown d1 n d \<longleftrightarrow> (\<forall>p. d p = d1 p \<or> d1 p = None \<and> length p \<le> n)"

lemma grown_refl: "grown d1 n d1"
  by (simp add: grown_def)

lemma keeps_mkdir:
  assumes "length p \<le> n"
  shows "keeps (grown d1 n) (mkdir p mode)"
  unfolding keeps_def
proof (rule runs_at)
  fix d assume g: "grown d1 n d"
  have upd: "d p = None \<Longrightarrow> grown d1 n (d(p \<mapsto> x))" for x
    using g assms unfolding grown_def by (metis fun_upd_apply)
  show "runs (\<lambda>x. x = d) (mkdir p mode) (\<lambda>_. grown d1 n) (grown d1 n)"
    unfolding runs_def mkdir_def
    using g upd
    by (auto simp: sys_call_def Let_def made_def nothing_def split: list.splits fate.splits option.splits if_splits)
qed

lemma keeps_make_dirs: "length rp \<le> n \<Longrightarrow> keeps (grown d1 n) (make_dirs mode rp :: (unit, io_error, 'x) act)"
proof (induction rp)
  case (Cons c up)
  have mk: "keeps (grown d1 n) (mkdir (rev (c # up)) mode)"
    using Cons.prems by (intro keeps_mkdir) simp
  have up: "keeps (grown d1 n) (make_dirs mode up :: (unit, io_error, 'x) act)"
    using Cons by simp
  show ?case
    unfolding make_dirs.simps
    by (intro keeps_rules keeps_io_error keeps_if_dir mk up)
qed (auto intro!: keeps_rules)

lemma keeps_ensure_dir: "keeps (grown d1 (length p - 1)) (ensure_dir p config_dir)"
  unfolding ensure_dir_def
  by (intro keeps_rules keeps_is_dir keeps_make_dirs) simp

section \<open>The whole edit\<close>

definition extends :: "disk \<Rightarrow> disk \<Rightarrow> bool" where
  "extends d0 d \<longleftrightarrow> (\<forall>p. d0 p \<noteq> None \<longrightarrow> d p = d0 p)"

definition quiet :: "disk \<Rightarrow> path \<Rightarrow> disk \<Rightarrow> bool" where
  "quiet d0 p d \<longleftrightarrow> extends d0 d \<and> d p = d0 p"

definition edited :: "disk \<Rightarrow> path \<Rightarrow> edit \<Rightarrow> disk \<Rightarrow> bool" where
  "edited d0 p e d \<longleftrightarrow> (\<exists>d2. quiet d0 p d2 \<and>
     (case e of Unchanged \<Rightarrow> False | Write t \<Rightarrow> replaced d2 p t d | Delete \<Rightarrow> d = d2(p := None)))"

text \<open>A complete copy of the old content under a name that was free.\<close>

definition saved :: "disk \<Rightarrow> path \<Rightarrow> path \<Rightarrow> disk \<Rightarrow> bool" where
  "saved d0 p b d \<longleftrightarrow> is_bak p b \<and> d0 b = None
     \<and> (\<exists>c m s m' s'. seen d0 p = Some (File c m s) \<and> d b = Some (File c m' s'))"

definition saved_if :: "disk \<Rightarrow> path \<Rightarrow> node option \<Rightarrow> path option \<Rightarrow> disk \<Rightarrow> bool" where
  "saved_if d0 p existing bk d \<longleftrightarrow> (existing \<noteq> None \<longrightarrow> (\<exists>b. bk = Some b \<and> saved d0 p b d))"

definition ready :: "nat \<Rightarrow> disk \<Rightarrow> path \<Rightarrow> node option \<Rightarrow> path option \<Rightarrow> disk \<Rightarrow> bool" where
  "ready pid d0 p existing bk d \<longleftrightarrow>
     quiet d0 p d \<and> d (temp_path pid p) = None \<and> saved_if d0 p existing bk d"

definition every_moment :: "disk \<Rightarrow> path \<Rightarrow> edit \<Rightarrow> node option \<Rightarrow> disk \<Rightarrow> bool" where
  "every_moment d0 p e existing d \<longleftrightarrow> quiet d0 p d \<or> edited d0 p e d \<and> (\<exists>bk. saved_if d0 p existing bk d)"

lemma quiet_refl [simp]: "quiet d0 p d0"
  by (simp add: quiet_def extends_def)

lemma quiet_upd: "quiet d0 p d \<Longrightarrow> d0 b = None \<Longrightarrow> b \<noteq> p \<Longrightarrow> quiet d0 p (d(b := x))"
  by (auto simp: quiet_def extends_def)

lemma backed_ready:
  assumes "p \<noteq> []" and "d0 (temp_path pid p) = None" and "backed d0 p b d"
  shows "ready pid d0 p existing (Some b) d"
  using assms quiet_upd [of d0 p d0 b] bak_not_self [of p b] bak_not_temp [of p b pid]
  by (auto simp: backed_def ready_def saved_if_def saved_def)

lemma backing_quiet: "p \<noteq> [] \<Longrightarrow> backing d0 p d \<Longrightarrow> quiet d0 p d"
  using quiet_upd bak_not_self by (fastforce simp: backing_def)

lemma grown_ready:
  assumes "p \<noteq> []" and "ready pid d0 p existing bk d1" and "grown d1 (length p - 1) d"
  shows "ready pid d0 p existing bk d"
proof -
  have same: "d q = d1 q" if "d1 q \<noteq> None \<or> length p \<le> length q" for q
    using assms(1,3) that unfolding grown_def
    by (metis One_nat_def diff_less leD length_greater_0_conv less_le_trans zero_less_one order_le_less_trans)
  have "length (temp_path pid p) = length p"
    using assms(1) by (simp add: temp_path_def with_file_name_def)
  then show ?thesis
    using assms(2) same unfolding ready_def quiet_def extends_def saved_if_def saved_def
    by (metis option.distinct(1) order_refl)
qed

lemma scratch_quiet:
  assumes "p \<noteq> []" and "d0 (temp_path pid p) = None" and "ready pid d0 p existing bk d2" and "scratch d2 (temp_path pid p) d"
  shows "quiet d0 p d"
  using assms quiet_upd temp_not_self by (auto simp: scratch_def ready_def)

lemma replaced_edited:
  assumes "p \<noteq> []" and "ready pid d0 p existing bk d2" and "replaced d2 p t d"
  shows "edited d0 p (Write t) d \<and> saved_if d0 p existing bk d"
  using assms bak_not_self by (auto simp: edited_def ready_def saved_if_def saved_def replaced_def)

lemma deleted_edited:
  assumes "p \<noteq> []" and "ready pid d0 p existing bk d2"
  shows "edited d0 p Delete (d2(p := None)) \<and> saved_if d0 p existing bk (d2(p := None))"
  using assms bak_not_self by (auto simp: edited_def ready_def saved_if_def saved_def)

lemma ready_moment: "ready pid d0 p existing bk d \<Longrightarrow> every_moment d0 p e existing d"
  by (simp add: ready_def every_moment_def)

lemma runs_delete:
  "runs (\<lambda>d. d = d1) (delete_file p)
    (\<lambda>r d. case r of Ok _ \<Rightarrow> d = d1(p := None) | _ \<Rightarrow> d = d1) (\<lambda>d. d = d1(p := None))"
  unfolding delete_file_def
proof (rule runs_bind)
  let ?M = "\<lambda>r d. case r of Ok _ \<Rightarrow> d = d1(p := None) | Err NotFound \<Rightarrow> d = d1(p := None) | _ \<Rightarrow> d = d1"
  show "runs (\<lambda>d. d = d1) (outcome (remove_file p) :: (_, file_error, 'x) act) (\<lambda>r d. case r of Ok x \<Rightarrow> ?M x d
      | Err e \<Rightarrow> (case Err e of Ok _ \<Rightarrow> d = d1(p := None) | _ \<Rightarrow> d = d1)
      | Panic \<Rightarrow> (case Panic of Ok _ \<Rightarrow> d = d1(p := None) | _ \<Rightarrow> d = d1)) (\<lambda>d. d = d1(p := None))"
    unfolding remove_file_def
    by (rule runs_outcome, rule runs_call_at)
      (auto simp: fun_upd_idem split: option.split_asm node.split_asm)
  show "runs (?M r)
      (case r of Ok _ \<Rightarrow> return () | Err NotFound \<Rightarrow> return () | Err e \<Rightarrow> refuse (Cannot ''delete'' p e) | Panic \<Rightarrow> abort)
      (\<lambda>r d. case r of Ok _ \<Rightarrow> d = d1(p := None) | _ \<Rightarrow> d = d1) (\<lambda>d. d = d1(p := None))"
    for r :: "(unit, io_error) res"
    by (auto intro!: runs_return runs_refuse runs_abort split: res.split io_error.split)
qed

lemma runs_change:
  fixes d0 :: disk
  assumes "p \<noteq> []" and "d0 (temp_path pid p) = None" and "e \<noteq> Unchanged"
  shows "runs (ready pid d0 p existing bk)
    (case e of
          Unchanged \<Rightarrow> return ()
        | Delete \<Rightarrow> delete_file p
        | Write text \<Rightarrow> bind_act (ensure_dir p config_dir) (\<lambda>_. write_atomic pid p text mode))
    (\<lambda>r d. case r of Ok _ \<Rightarrow> edited d0 p e d \<and> saved_if d0 p existing bk d | _ \<Rightarrow> quiet d0 p d)
    (every_moment d0 p e existing)" (is "runs ?P _ ?Q ?R")
proof (cases e)
  case Delete
  have "runs ?P (delete_file p) ?Q ?R"
  proof (rule runs_at)
    fix d1 assume r: "?P d1"
    show "runs (\<lambda>d. d = d1) (delete_file p) ?Q ?R"
      using r deleted_edited [OF assms(1) r] Delete
      by (intro runs_mono [OF runs_delete]) (auto simp: ready_def every_moment_def split: res.split)
  qed
  then show ?thesis using Delete by simp
next
  case (Write t)
  have dir: "runs ?P (ensure_dir p config_dir) (\<lambda>_. ?P) ?R"
  proof (rule runs_at)
    fix d1 assume r: "?P d1"
    show "runs (\<lambda>d. d = d1) (ensure_dir p config_dir) (\<lambda>_. ?P) ?R"
      using grown_ready [OF assms(1) r] ready_moment [of pid d0 p existing bk _ e]
      by (intro runs_mono [OF keeps_ensure_dir [of d1 p config_dir, unfolded keeps_def]]) (auto simp: grown_refl)
  qed
  have replace: "runs ?P (write_atomic pid p t mode) ?Q ?R"
  proof (rule runs_at)
    fix d1 assume r: "?P d1"
    have "d1 (temp_path pid p) = None" using r by (simp add: ready_def)
    then show "runs (\<lambda>d. d = d1) (write_atomic pid p t mode) ?Q ?R"
      using scratch_quiet [OF assms(1,2) r] replaced_edited [OF assms(1) r] temp_not_self [OF assms(1)] Write
      by (intro runs_mono [OF runs_write_atomic]) (auto simp: replacing_def every_moment_def split: res.split)
  qed
  have "runs ?P (bind_act (ensure_dir p config_dir) (\<lambda>_. write_atomic pid p t mode)) ?Q ?R"
    by (rule runs_then [OF dir _ _ _ _ replace]) (auto simp: ready_def)
  then show ?thesis
    using Write by simp
qed (use assms(3) in simp)

lemma runs_replace_file:
  assumes "p \<noteq> []" and "d0 (temp_path pid p) = None" and "e \<noteq> Unchanged"
  shows "runs (\<lambda>d. d = d0) (replace_file pid p e config_dir stamp existing)
    (\<lambda>r d. case r of Ok bk \<Rightarrow> edited d0 p e d \<and> saved_if d0 p existing bk d | _ \<Rightarrow> quiet d0 p d)
    (every_moment d0 p e existing)" (is "runs ?P _ ?Q ?R")
proof -
  have backed: "runs ?P (back_up_existing p stamp existing)
      (\<lambda>r d. case r of Ok bk \<Rightarrow> ready pid d0 p existing bk d | _ \<Rightarrow> quiet d0 p d) ?R"
  proof (cases existing)
    case None
    then show ?thesis
      using assms(2) by (auto intro!: runs_return simp: back_up_existing_def ready_def saved_if_def)
  next
    case (Some x)
    have b: "runs ?P (backup p stamp) (\<lambda>r d. case r of Ok b \<Rightarrow> ready pid d0 p existing (Some b) d | _ \<Rightarrow> quiet d0 p d) ?R"
      unfolding backup_def
      using backed_ready [of p d0 pid _ _ existing, OF assms(1,2)] backing_quiet [OF assms(1)]
      by (intro runs_mono [OF runs_backup_from]) (auto simp: every_moment_def split: res.split)
    show ?thesis
      unfolding back_up_existing_def Some option.case
      by (rule runs_then [OF b [unfolded Some] _ _ _ _ runs_return]) (auto simp: Some)
  qed
  show ?thesis
    unfolding replace_file_def
  proof (rule runs_bind)
    show "runs ?P (back_up_existing p stamp existing) (\<lambda>r d. case r of Ok bk \<Rightarrow> ready pid d0 p existing bk d
        | Err e \<Rightarrow> ?Q (Err e) d | Panic \<Rightarrow> ?Q Panic d) ?R"
      by (rule runs_mono [OF backed]) (auto split: res.split)
  qed (rule runs_then [OF runs_change [of p d0 pid, OF assms] _ _ _ _ runs_return], auto)
qed

end
