(* ===== verification/Hook_Files_Crash.thy ===== *)
theory Hook_Files_Crash
  imports Hook_Files_Safe
begin

text \<open>
  An edit of a configuration, seen by whoever reads it: through every failure and at every moment the
  reader finds the old configuration or the whole new one, which is on the medium, and what the edit
  replaces has a complete copy. A configuration behind a link is covered.
\<close>

section \<open>Reading through links\<close>

lemma follow_keep:
  assumes "\<And>x l. d0 x = Some (Link l) \<Longrightarrow> d x = d0 x" and "\<And>l. d q \<noteq> Some (Link l)"
    and "follow_links n d0 p = Ok q"
  shows "follow_links n d p = Ok q"
  using assms(3)
proof (induction n arbitrary: p)
  case (Suc n)
  show ?case
  proof (cases "\<exists>l. d0 p = Some (Link l)")
    case True
    then show ?thesis using Suc assms(1) by fastforce
  next
    case False
    then have "q = p" using Suc.prems by (auto split: option.split_asm node.split_asm)
    then show ?thesis using assms(2) by (auto split: option.split node.split)
  qed
qed simp

lemma seen_end: "follow_links 33 d p = Ok q \<Longrightarrow> seen d p = d q"
  by (simp add: seen_def found_def del: follow_links.simps split: option.split)

lemma seen_follow: "seen d p = Some x \<Longrightarrow> \<exists>q. follow_links 33 d p = Ok q \<and> d q = Some x"
  by (auto simp: seen_def found_def and_then_eq_Ok simp del: follow_links.simps split: res.split_asm option.split_asm)

lemma found_follow: "found d p = Ok (q, x) \<Longrightarrow> follow_links 33 d p = Ok q \<and> d q = Some x"
  by (auto simp: found_def and_then_eq_Ok simp del: follow_links.simps split: option.split_asm)

lemma follow_plain: "(\<And>l. d p \<noteq> Some (Link l)) \<Longrightarrow> follow_links 33 d p = Ok p"
  by (auto simp: numeral_eq_Suc split: option.split node.split)

text \<open>The paths an edit may be carried out at: the path itself, and what its links lead to.\<close>

definition place :: "disk \<Rightarrow> path \<Rightarrow> path \<Rightarrow> bool" where
  "place d p t \<longleftrightarrow> t = p \<or> (\<exists>x. found d p = Ok (t, x))"

definition dangling :: "disk \<Rightarrow> path \<Rightarrow> bool" where
  "dangling d p \<longleftrightarrow> (\<exists>l. d p = Some (Link l)) \<and> seen d p = None"

text \<open>What a reader of the configuration finds when the edit is done.\<close>

definition becomes :: "edit \<Rightarrow> node option \<Rightarrow> bool" where
  "becomes e x \<longleftrightarrow>
     (case e of Unchanged \<Rightarrow> False | Write t \<Rightarrow> \<exists>mode. x = Some (File t mode True) | Delete \<Rightarrow> x = None)"

lemma place_end:
  assumes "place d0 p t" and "\<not> dangling d0 p"
  obtains q where "follow_links 33 d0 p = Ok q" "t = p \<or> t = q" "d0 p = None \<Longrightarrow> q = p" "q \<noteq> p \<Longrightarrow> d0 q \<noteq> None"
proof (cases "\<exists>l. d0 p = Some (Link l)")
  case True
  then obtain x where "seen d0 p = Some x" using assms(2) by (auto simp: dangling_def)
  then obtain q where q: "follow_links 33 d0 p = Ok q" "d0 q = Some x" using seen_follow by blast
  have t: "t = p \<or> t = q"
    using assms(1) found_follow q(1) by (fastforce simp: place_def)
  show ?thesis
    by (rule that [OF q(1) t]) (use True q(2) in auto)
next
  case False
  then have p: "follow_links 33 d0 p = Ok p" by (intro follow_plain) auto
  then have t: "t = p"
    using assms(1) found_follow by (fastforce simp: place_def)
  show ?thesis
    by (rule that [OF p]) (use t in auto)
qed

lemma quiet_seen:
  assumes "place d0 p t" and "\<not> dangling d0 p" and "quiet d0 t d"
  shows "seen d p = seen d0 p"
proof -
  obtain q where q: "follow_links 33 d0 p = Ok q" "t = p \<or> t = q" "d0 p = None \<Longrightarrow> q = p" "q \<noteq> p \<Longrightarrow> d0 q \<noteq> None"
    using place_end [OF assms(1,2)] by metis
  have "d q = d0 q"
    using q(2-4) assms(3) by (cases "q = p") (auto simp: quiet_def extends_def)
  moreover from this have "follow_links 33 d p = Ok q"
    using assms(3) follow_end [OF q(1)] by (intro follow_keep [OF _ _ q(1)]) (auto simp: quiet_def extends_def)
  ultimately show ?thesis using seen_end q(1) by metis
qed

lemma edited_change:
  assumes "edited d0 t e d"
  obtains d2 x where "quiet d0 t d2" "d = d2(t := x)" "becomes e x" "\<And>l. x \<noteq> Some (Link l)"
  using assms by (cases e) (auto simp: edited_def replaced_def becomes_def)

lemma edited_seen:
  assumes "place d0 p t" and "\<not> dangling d0 p" and "edited d0 t e d"
  shows "becomes e (seen d p)"
proof -
  obtain d2 x where d: "quiet d0 t d2" "d = d2(t := x)" and x: "becomes e x" "\<And>l. x \<noteq> Some (Link l)"
    using edited_change [OF assms(3)] by metis
  have "seen d p = x"
  proof (cases "t = p")
    case True
    then have "follow_links 33 d p = Ok p" using d x by (intro follow_plain) simp
    then show ?thesis using seen_end True d by fastforce
  next
    case False
    then have q: "follow_links 33 d0 p = Ok t" using assms(1) found_follow by (auto simp: place_def)
    have "follow_links 33 d p = Ok t"
      using d x follow_end [OF q] by (intro follow_keep [OF _ _ q]) (auto simp: quiet_def extends_def)
    then show ?thesis using seen_end d by fastforce
  qed
  then show ?thesis using x by simp
qed

lemma edited_frame: "edited d0 t e d \<Longrightarrow> x \<noteq> t \<Longrightarrow> d0 x \<noteq> None \<Longrightarrow> d x = d0 x"
  by (erule edited_change) (auto simp: quiet_def extends_def)

section \<open>Every edit\<close>

text \<open>The names of the temporaries are free, and no link leads to the root.\<close>

definition temp_free :: "nat \<Rightarrow> disk \<Rightarrow> path \<Rightarrow> bool" where
  "temp_free pid d p \<longleftrightarrow> (\<forall>t. place d p t \<longrightarrow> t \<noteq> [] \<and> d (temp_path pid t) = None)"

lemma runs_real_path:
  "runs (\<lambda>d. d = d0) (real_path p) (\<lambda>r d. d = d0 \<and> (case r of Ok t \<Rightarrow> place d0 p t | _ \<Rightarrow> True)) R"
  unfolding real_path_def
proof (rule runs_bind [where M = "\<lambda>r d. d = d0"])
  show "runs (\<lambda>d. d = d0) (outcome (lstat p) :: (_, file_error, 'x) act)
    (\<lambda>r d. case r of Ok x \<Rightarrow> d = d0 | Err e \<Rightarrow> d = d0 \<and> (case Err e of Ok t \<Rightarrow> place d0 p t | _ \<Rightarrow> True)
      | Panic \<Rightarrow> d = d0 \<and> (case Panic of Ok t \<Rightarrow> place d0 p t | _ \<Rightarrow> True)) R"
    unfolding lstat_def by (rule runs_outcome, rule runs_ask) auto
  have "runs (\<lambda>d. d = d0) (on_error f (canonicalize p))
    (\<lambda>r d. d = d0 \<and> (case r of Ok t \<Rightarrow> place d0 p t | _ \<Rightarrow> True)) R" for f :: "io_error \<Rightarrow> file_error"
    unfolding canonicalize_def
    by (rule runs_on_error, rule runs_ask) (auto simp: map_err_Ok and_then_eq_Ok place_def split: res.split)
  moreover have "runs (\<lambda>d. d = d0) (return p) (\<lambda>r d. d = d0 \<and> (case r of Ok t \<Rightarrow> place d0 p t | _ \<Rightarrow> True)) R"
    by (auto intro!: runs_return simp: place_def)
  ultimately show "runs (\<lambda>d. d = d0) (case r of Ok (Link _) \<Rightarrow> on_error (Cannot ''resolve'' p) (canonicalize p) | _ \<Rightarrow> return p)
    (\<lambda>r d. d = d0 \<and> (case r of Ok t \<Rightarrow> place d0 p t | _ \<Rightarrow> True)) R" for r
    by (auto split: res.split node.split)
qed

definition old_or_new :: "disk \<Rightarrow> path \<Rightarrow> edit \<Rightarrow> disk \<Rightarrow> bool" where
  "old_or_new d0 p e d \<longleftrightarrow>
     (seen d p = seen d0 p \<or> becomes e (seen d p))
     \<and> (\<forall>x. d0 x \<noteq> None \<longrightarrow> \<not> place d0 p x \<longrightarrow> d x = d0 x)"

lemma moment_old_or_new:
  assumes "place d0 p t" and "\<not> dangling d0 p" and "every_moment d0 t e existing d"
  shows "old_or_new d0 p e d"
proof (cases "quiet d0 t d")
  case True
  then show ?thesis
    using quiet_seen [OF assms(1,2) True] by (simp add: old_or_new_def quiet_def extends_def)
next
  case False
  then have e: "edited d0 t e d" using assms(3) by (simp add: every_moment_def)
  have "d x = d0 x" if "d0 x \<noteq> None" "\<not> place d0 p x" for x
    using edited_frame [OF e, of x] that assms(1) by blast
  then show ?thesis
    using edited_seen [OF assms(1,2) e] by (simp add: old_or_new_def)
qed

lemma runs_hook_apply:
  assumes "temp_free pid d0 p" and "\<not> dangling d0 p"
  shows "runs (\<lambda>d. d = d0) (hook_apply pid p e config_dir stamp)
    (\<lambda>r d. old_or_new d0 p e d \<and> (if is_ok r \<and> e \<noteq> Unchanged then becomes e (seen d p) else seen d p = seen d0 p))
    (old_or_new d0 p e)" (is "runs ?P _ ?Q ?R")
proof (cases "e = Unchanged")
  case True
  then show ?thesis
    unfolding hook_apply_def if_P [OF True] by (intro runs_return) (simp add: old_or_new_def)
next
  case False
  have same: "?Q (Err x) d0" "?Q Panic d0" for x :: file_error by (simp_all add: old_or_new_def)
  have replace: "runs (\<lambda>d. d = d0 \<and> place d0 p t) (replace_file pid t e config_dir stamp existing) ?Q ?R" for t existing
  proof (rule runs_fact)
    assume t: "place d0 p t"
    have f: "t \<noteq> []" "d0 (temp_path pid t) = None" using assms(1) t by (auto simp: temp_free_def)
    have final: "?Q r d" if "case r of Ok bk \<Rightarrow> edited d0 t e d \<and> saved_if d0 t existing bk d | _ \<Rightarrow> quiet d0 t d"
      for r :: "(path option, file_error) res" and d
    proof -
      have "every_moment d0 t e existing d" using that by (cases r) (auto simp: every_moment_def)
      then have "old_or_new d0 p e d" by (rule moment_old_or_new [OF t assms(2)])
      then show ?thesis
        using that quiet_seen [OF t assms(2), of d] edited_seen [OF t assms(2), of e d] False
        by (cases r) auto
    qed
    show "runs ?P (replace_file pid t e config_dir stamp existing) ?Q ?R"
      by (rule runs_mono [OF runs_replace_file [of t d0 pid, OF f False]])
        (use final moment_old_or_new [OF t assms(2)] in auto)
  qed
  have stat: "runs (\<lambda>d. d = d0 \<and> place d0 p t)
      (bind_act (outcome (stat t)) (\<lambda>r. replace_file pid t e config_dir stamp (case r of Ok x \<Rightarrow> Some x | _ \<Rightarrow> None))) ?Q ?R" for t
    by (rule runs_bind [OF _ replace]) (unfold stat_def, rule runs_outcome, rule runs_ask, auto)
  show ?thesis
    unfolding hook_apply_def if_not_P [OF False]
  proof (rule runs_bind [OF _ stat])
    show "runs ?P (real_path p :: (path, file_error, 'x) act)
        (\<lambda>r d. case r of Ok t \<Rightarrow> d = d0 \<and> place d0 p t | Err x \<Rightarrow> ?Q (Err x) d | Panic \<Rightarrow> ?Q Panic d) ?R"
      using same by (intro runs_mono [OF runs_real_path [of d0 p ?R]]) (auto split: res.split)
  qed
qed

text \<open>
  C0. For every pattern of failing calls, every moment of an edit and its end: who reads the
  configuration finds the old content or the whole new content, on the medium; an answer of success
  means the new one and an error the old one; and no other file, backup or directory that was there
  is touched.
\<close>

theorem config_is_old_or_new:
  assumes "temp_free pid (wo_disk w) p" and "\<not> dangling (wo_disk w) p" and "wo_past w = []"
    and "hook_apply pid p e config_dir stamp w = (r, w')"
  shows "(\<forall>d \<in> set (wo_past w').
      (seen d p = seen (wo_disk w) p \<or> becomes e (seen d p))
      \<and> (\<forall>x. wo_disk w x \<noteq> None \<longrightarrow> \<not> place (wo_disk w) p x \<longrightarrow> d x = wo_disk w x))
    \<and> (if is_ok r \<and> e \<noteq> Unchanged then becomes e (seen (wo_disk w') p)
       else seen (wo_disk w') p = seen (wo_disk w) p)"
  using runsD [OF runs_hook_apply [OF assms(1,2)] refl assms(4)] assms(3)
  by (auto simp: old_or_new_def)

section \<open>Backups\<close>

text \<open>The system serves the calls that look the configuration up.\<close>

definition looks_up :: "'x world_scheme \<Rightarrow> bool" where
  "looks_up w \<longleftrightarrow> set (take 3 (wo_luck w)) \<subseteq> {Works}"

lemma ask_works:
  assumes "wo_luck w = [] \<or> hd (wo_luck w) = Works"
  shows "ask f w = (f (wo_disk w), w\<lparr>wo_luck := tl (wo_luck w)\<rparr>)"
  using assms by (cases "wo_luck w") (auto simp: ask_def sys_call_def advance_def)

text \<open>The lookups lead to the file itself.\<close>

lemma served: "looks_up w \<Longrightarrow> n < 3 \<Longrightarrow> drop n (wo_luck w) = [] \<or> hd (drop n (wo_luck w)) = Works"
  using nth_mem [of n "take 3 (wo_luck w)"]
  by (cases "drop n (wo_luck w) = []") (auto simp: looks_up_def hd_drop_conv_nth)

lemma lookup_works:
  assumes "looks_up (w :: 'x world_scheme)" and "seen (wo_disk w) p = Some x"
  obtains t w1 w2 where "real_path p w = (Ok t, w1)"
    "(outcome (stat t) :: ((node, io_error) res, file_error, 'x) act) w1 = (Ok (Ok x), w2)"
    "wo_disk w2 = wo_disk w" "wo_past w2 = wo_past w" "place (wo_disk w) p t" "seen (wo_disk w) t = Some x"
proof -
  let ?d = "wo_disk w" and ?after = "\<lambda>n. w\<lparr>wo_luck := drop n (wo_luck w)\<rparr>"
  obtain q where q: "found ?d p = Ok (q, x)"
    using assms(2) by (auto simp: seen_def split: res.split_asm)
  have luck: "wo_luck w = [] \<or> hd (wo_luck w) = Works"
    "tl (wo_luck w) = [] \<or> hd (tl (wo_luck w)) = Works"
    "tl (tl (wo_luck w)) = [] \<or> hd (tl (tl (wo_luck w))) = Works"
    using served [OF assms(1), of 0] served [OF assms(1), of 1] served [OF assms(1), of 2]
    by (simp_all add: drop_Suc numeral_2_eq_2)
  show ?thesis
  proof (cases "\<exists>l. ?d p = Some (Link l)")
    case True
    have end_q: "?d q = Some x" "\<And>l. ?d q \<noteq> Some (Link l)"
      using found_follow [OF q] follow_end by fastforce+
    then have "found ?d q = Ok (q, x)"
      using follow_plain [of ?d q] by (simp add: found_def del: follow_links.simps)
    moreover have "place ?d p q" "seen ?d q = Some x"
      using q end_q seen_end [OF follow_plain [of ?d q]] by (auto simp: place_def)
    moreover have "real_path p w = (Ok q, ?after 2)"
      using True q luck
      by (auto simp: real_path_def bind_act_def outcome_def lstat_def ask_works canonicalize_def on_error_def drop_Suc numeral_2_eq_2)
    moreover have "(outcome (stat q) :: ((node, io_error) res, file_error, 'x) act) (?after 2) = (Ok (Ok x), ?after 3)"
      using calculation(1) luck by (simp add: outcome_def stat_def ask_works drop_Suc numeral_eq_Suc)
    ultimately show ?thesis
      by (intro that [of q "?after 2" "?after 3"]) simp_all
  next
    case False
    have "follow_links 33 ?d p = Ok p" by (rule follow_plain) (use False in auto)
    then have "?d p \<noteq> None" using found_follow [OF q] by (auto simp del: follow_links.simps)
    moreover have "place ?d p p" by (simp add: place_def)
    moreover have "real_path p w = (Ok p, ?after 1)"
      using False luck \<open>?d p \<noteq> None\<close>
      by (auto simp: real_path_def bind_act_def outcome_def lstat_def ask_works return_def drop_Suc split: node.split)
    moreover have "(outcome (stat p) :: ((node, io_error) res, file_error, 'x) act) (?after 1) = (Ok (Ok x), ?after 2)"
      using q luck by (simp add: outcome_def stat_def ask_works drop_Suc numeral_eq_Suc)
    ultimately show ?thesis
      using assms(2) by (intro that [of p "?after 1" "?after 2"]) simp_all
  qed
qed

text \<open>
  C18. While the system serves the three calls that look the configuration up, and whatever happens to
  every other call, there is a copy of the old content under a new name at every moment at which the
  configuration is not the old one; a successful edit names that copy, and it is there at the end.
\<close>

theorem every_change_is_backed_up:
  assumes "temp_free pid (wo_disk (w :: 'x world_scheme)) p" and "\<not> dangling (wo_disk w) p" and "wo_past w = []"
    and "hook_apply pid p e config_dir stamp w = (r, w')" and "e \<noteq> Unchanged"
    and "looks_up w" and "seen (wo_disk w) p = Some (File c m s)"
  shows "(\<forall>d \<in> set (wo_past w'). seen d p = seen (wo_disk w) p
      \<or> (\<exists>b m' s'. wo_disk w b = None \<and> d b = Some (File c m' s')))
    \<and> (\<forall>bk. r = Ok bk \<longrightarrow> (\<exists>b m' s'. bk = Some b \<and> wo_disk w b = None \<and> wo_disk w' b = Some (File c m' s')))"
proof -
  obtain t w1 w2 where t: "real_path p w = (Ok t, w1)"
      "(outcome (stat t) :: ((node, io_error) res, file_error, 'x) act) w1 = (Ok (Ok (File c m s)), w2)"
    and w2: "wo_disk w2 = wo_disk w" "wo_past w2 = wo_past w" and pl: "place (wo_disk w) p t"
    and c: "seen (wo_disk w) t = Some (File c m s)"
    using lookup_works [OF assms(6,7)] .
  have f: "t \<noteq> []" "wo_disk w (temp_path pid t) = None"
    using assms(1) pl by (auto simp: temp_free_def)
  have "replace_file pid t e config_dir stamp (Some (File c m s)) w2 = (r, w')"
    using assms(4,5) t by (simp add: hook_apply_def bind_act_def)
  note run = runsD [OF runs_replace_file [of t "wo_disk w" pid, OF f assms(5)] w2(1) this]
  have kept: "\<exists>b m' s'. bk = Some b \<and> wo_disk w b = None \<and> d b = Some (File c m' s')"
    if "saved_if (wo_disk w) t (Some (File c m s)) bk d" for d bk
    using that c by (auto simp: saved_if_def saved_def)
  have "seen d p = seen (wo_disk w) p \<or> (\<exists>b m' s'. wo_disk w b = None \<and> d b = Some (File c m' s'))"
    if "d \<in> set (wo_past w')" for d
  proof -
    have "every_moment (wo_disk w) t e (Some (File c m s)) d"
      using run(2) that w2(2) assms(3) by auto
    then show ?thesis
      using quiet_seen [OF pl assms(2), of d] kept [of _ d] by (auto simp: every_moment_def)
  qed
  then show ?thesis
    using run(1) kept by auto
qed

section \<open>An edit in full\<close>

text \<open>A home directory with one configuration, and an edit that the system serves throughout.\<close>

definition old_disk :: disk where
  "old_disk = [[''h''] \<mapsto> Dir 493, [''h'', ''s''] \<mapsto> File ''old'' 384 True]"

definition at_ease :: "fate list \<Rightarrow> world" where
  "at_ease luck = \<lparr>wo_disk = old_disk, wo_past = [], wo_luck = luck, wo_umask = 18\<rparr>"

definition an_edit :: "fate list \<Rightarrow> (path option, file_error) res \<times> world" where
  "an_edit luck = hook_apply 7 [''h'', ''s''] (Write ''new'') [''h''] ''z'' (at_ease luck)"

lemma an_edit_works: "fst (an_edit []) = Ok (Some [''h'', ''s.bak-cyd-z''])"
  by code_simp

lemma settings_plain: "found old_disk [''h'', ''s''] = Ok ([''h'', ''s''], File ''old'' 384 True)"
  by (simp add: found_def old_disk_def numeral_eq_Suc)

lemma settings_ready:
  "temp_free 7 old_disk [''h'', ''s'']" "\<not> dangling old_disk [''h'', ''s'']"
  "seen old_disk [''h'', ''s''] = Some (File ''old'' 384 True)"
  using settings_plain
  by (auto simp: temp_free_def place_def dangling_def seen_def old_disk_def temp_path_def with_file_name_def file_name_def)

lemma config_is_old_or_new_witness:
  "(\<forall>d \<in> set (wo_past (snd (an_edit []))). seen d [''h'', ''s''] = seen old_disk [''h'', ''s'']
      \<or> becomes (Write ''new'') (seen d [''h'', ''s'']))
   \<and> becomes (Write ''new'') (seen (wo_disk (snd (an_edit []))) [''h'', ''s''])"
proof -
  have w: "wo_disk (at_ease []) = old_disk" "wo_past (at_ease []) = []" by (simp_all add: at_ease_def)
  have "hook_apply 7 [''h'', ''s''] (Write ''new'') [''h''] ''z'' (at_ease []) = (fst (an_edit []), snd (an_edit []))"
    by (simp add: an_edit_def)
  from config_is_old_or_new [OF _ _ w(2) this] settings_ready(1,2)
  show ?thesis by (simp add: w an_edit_works)
qed

lemma every_change_is_backed_up_witness:
  "\<exists>m' s'. wo_disk (snd (an_edit [])) [''h'', ''s.bak-cyd-z''] = Some (File ''old'' m' s')"
proof -
  have w: "wo_disk (at_ease []) = old_disk" "wo_past (at_ease []) = []" "looks_up (at_ease [])"
    by (simp_all add: at_ease_def looks_up_def)
  have "hook_apply 7 [''h'', ''s''] (Write ''new'') [''h''] ''z'' (at_ease []) = (fst (an_edit []), snd (an_edit []))"
    by (simp add: an_edit_def)
  from every_change_is_backed_up [OF _ _ w(2) this _ w(3)] settings_ready
  show ?thesis by (simp add: w an_edit_works)
qed

section \<open>A refused lookup\<close>

text \<open>\<open>goes\<close>: while the system serves every call, an action takes one disk to another with a result.\<close>

definition lucky :: "'x world_scheme \<Rightarrow> bool" where
  "lucky w \<longleftrightarrow> set (wo_luck w) \<subseteq> {Works}"

definition goes :: "u32 \<Rightarrow> disk \<Rightarrow> ('a, 'e, 'x) act \<Rightarrow> ('a, 'e) res \<Rightarrow> disk \<Rightarrow> bool" where
  "goes u d m r d' \<longleftrightarrow>
     (\<forall>w. lucky w \<longrightarrow> wo_umask w = u \<longrightarrow> wo_disk w = d \<longrightarrow>
        (\<exists>w'. m w = (r, w') \<and> lucky w' \<and> wo_umask w' = u \<and> wo_disk w' = d'))"

lemma goes_return: "goes u d (return x) (Ok x) d"
  by (simp add: goes_def return_def)

lemma goes_bind: "goes u d m (Ok x) d1 \<Longrightarrow> goes u d1 (f x) r d2 \<Longrightarrow> goes u d (bind_act m f) r d2"
  unfolding goes_def bind_act_def by fastforce

lemma goes_outcome: "goes u d m r d' \<Longrightarrow> goes u d (outcome m) (Ok r) d'"
  unfolding goes_def outcome_def by fastforce

lemma goes_sys: "op d = (r, ds) \<Longrightarrow> goes u d (sys_call op part) r (now ds d)"
  by (auto simp: goes_def sys_call_def lucky_def advance_def now_def Let_def split: list.splits fate.splits
      dest: in_set_dropD)

lemma goes_sys_umask:
  assumes "\<And>w. wo_umask w = u \<Longrightarrow> m w = sys_call op part w" and "op d = (r, ds)"
  shows "goes u d m r (now ds d)"
  using goes_sys [of op d r ds u part, OF assms(2)] assms(1) by (simp add: goes_def)

lemma now_written:
  "d q = Some (File c m False) \<Longrightarrow>
   now (written q text (length text) d) d = d(q \<mapsto> File (c @ text) m False)"
  by (cases "text") (auto simp: written_def now_def fun_upd_idem)

text \<open>The temporary, through its creation, its bytes, its mode and its renaming.\<close>

lemma goes_write_temp:
  assumes "d p = Some (File c m s)" and "p \<noteq> temp" and "d temp = None" and "has_dir d (butlast temp)"
  shows "goes u d (write_temp temp p text mode :: (unit, io_error, 'x) act) (Ok ()) (d(p \<mapsto> File text mode True))"
proof -
  let ?m = "mode AND NOT u"
  let ?d1 = "d(temp \<mapsto> File [] ?m False)" and ?d2 = "d(temp \<mapsto> File text ?m False)"
  let ?d3 = "d(temp \<mapsto> File text mode False)" and ?d4 = "d(temp \<mapsto> File text mode True)"
  have "follow_links 33 d temp = Ok temp"
    by (rule follow_plain) (simp add: assms(3))
  let ?op = "\<lambda>d. case follow_links 33 d temp of
         Ok q \<Rightarrow>
           (case d q of
              None \<Rightarrow> made d q (File [] ?m False)
            | Some (File c m s) \<Rightarrow> (Ok q, [d(q \<mapsto> File [] m False)])
            | Some _ \<Rightarrow> (Err (OtherIo 21), []))
       | Err e \<Rightarrow> (Err e, [])
       | Panic \<Rightarrow> (Panic, [])"
  have "?op d = (Ok temp, [?d1])"
    using \<open>follow_links 33 d temp = Ok temp\<close> assms(3,4) by (simp add: made_def no_place_def del: follow_links.simps)
  note one = this
  have two: "create_truncate temp mode w = sys_call ?op nothing w" if "wo_umask w = u" for w :: "'x world_scheme"
    unfolding create_truncate_def that ..
  have "goes u d (create_truncate temp mode :: (path, io_error, 'x) act) (Ok temp) (now [?d1] d)"
    using two one by (rule goes_sys_umask)
  then have 1: "goes u d (create_truncate temp mode :: (path, io_error, 'x) act) (Ok temp) ?d1"
    by simp
  have "goes u ?d1 (write_all temp text) (Ok ()) (now (written temp text (length text) ?d1) ?d1)"
    unfolding write_all_def by (rule goes_sys) simp
  then have 2: "goes u ?d1 (write_all temp text) (Ok ()) ?d2"
    using now_written [of ?d1 temp "[]" ?m "text"] by simp
  have 3: "goes u ?d2 (set_mode temp mode) (Ok ()) ?d3"
    unfolding set_mode_def by (rule goes_sys [where ds = "[?d3]", simplified]) simp
  have 4: "goes u ?d3 (sync_all temp) (Ok ()) ?d4"
    unfolding sync_all_def by (rule goes_sys [where ds = "[?d4]", simplified]) simp
  have "?d4(temp := None, p \<mapsto> File text mode True) = d(p \<mapsto> File text mode True)"
    using assms(2,3) by (auto simp: fun_upd_def)
  then have 5: "goes u ?d4 (rename temp p) (Ok ()) (d(p \<mapsto> File text mode True))"
    unfolding rename_def using assms(1,2)
    by (intro goes_sys [where ds = "[d(p \<mapsto> File text mode True)]", simplified]) simp
  show ?thesis
    unfolding write_temp_def
    by (intro goes_bind [OF 1] goes_bind [OF 2] goes_bind [OF 3] goes_bind [OF 4] 5)
qed

lemma temp_path_facts:
  assumes "p \<noteq> []"
  shows "temp_path pid p \<noteq> p" and "butlast (temp_path pid p) = butlast p"
proof -
  have "length (last p) < length (last (temp_path pid p))"
    using assms by (simp add: temp_path_def with_file_name_def file_name_def)
  then show "temp_path pid p \<noteq> p"
    by auto
  show "butlast (temp_path pid p) = butlast p"
    by (simp add: temp_path_def with_file_name_def)
qed

text \<open>What an edit makes of a file that it takes for missing.\<close>

lemma goes_replace_missing:
  assumes "d p = Some (File c m s)" and "p \<noteq> []" and "d (temp_path pid p) = None" and "has_dir d (butlast p)"
    and "e \<noteq> Unchanged"
  shows "goes u d (replace_file pid p e config_dir stamp None) (Ok None)
    (d(p := (case e of Write text \<Rightarrow> Some (File text NEW_FILE_MODE True) | _ \<Rightarrow> None)))"
proof (cases e)
  case Unchanged
  then show ?thesis using assms(5) by simp
next
  case (Write new)
  note t = temp_path_facts [OF assms(2), of pid]
  let ?d = "d(p \<mapsto> File new NEW_FILE_MODE True)"
  have "goes u d (is_dir (butlast p) :: (bool, file_error, 'x) act) (Ok True) d"
    unfolding is_dir_def ask_def
    using goes_return [of u d True]
    by (intro goes_bind [OF goes_outcome [OF goes_sys [where ds = "[]" and r = "Ok ()", simplified]]])
      (simp_all add: assms(4))
  then have "goes u d (ensure_dir p config_dir :: (unit, file_error, 'x) act) (Ok ()) d"
    unfolding ensure_dir_def if_not_P [OF assms(2)] by (rule goes_bind) (simp add: goes_return)
  moreover have "goes u d (write_atomic pid p new NEW_FILE_MODE :: (unit, file_error, 'x) act) (Ok ()) ?d"
    unfolding write_atomic_def
    by (rule goes_bind [OF goes_outcome [OF goes_write_temp [OF assms(1) _ assms(3)]]])
      (simp_all add: t t(1) [THEN not_sym] assms(4) goes_return)
  ultimately show ?thesis
    by (auto simp: replace_file_def back_up_existing_def Write intro!: goes_bind goes_return)
next
  case Delete
  have "goes u d (remove_file p) (Ok ()) (d(p := None))"
    unfolding remove_file_def by (rule goes_sys [where ds = "[d(p := None)]", simplified]) (simp add: assms(1))
  then have "goes u d (delete_file p :: (unit, file_error, 'x) act) (Ok ()) (d(p := None))"
    unfolding delete_file_def by (rule goes_bind [OF goes_outcome]) (simp add: goes_return)
  then show ?thesis
    by (auto simp: replace_file_def back_up_existing_def Delete intro!: goes_bind goes_return)
qed

text \<open>
  C20. Without that hypothesis there is no backup, in any edit of any configuration that is a plain
  file in a directory, with the name of the temporary free. When the system
  serves every call but the one that looks the file up, whose error number may be any, the edit takes
  the file for missing: it succeeds and reports no backup, a written configuration is readable by
  everyone whatever the mode of the old one was, and no other path of the disk has changed, so
  that nothing keeps the old content.
\<close>

theorem failed_lookup_skips_the_backup:
  assumes "wo_disk (w :: 'x world_scheme) p = Some (File c m s)" and "p \<noteq> []"
    and "wo_disk w (temp_path pid p) = None" and "has_dir (wo_disk w) (butlast p)" and "e \<noteq> Unchanged"
    and "wo_luck w = Works # Fails errno n # luck" and "set luck \<subseteq> {Works}"
    and "hook_apply pid p e config_dir stamp w = (r, w')"
  shows "r = Ok None
    \<and> wo_disk w' p = (case e of Write text \<Rightarrow> Some (File text 420 True) | _ \<Rightarrow> None)
    \<and> (\<forall>x. x \<noteq> p \<longrightarrow> wo_disk w' x = wo_disk w x)"
proof -
  let ?w1 = "w\<lparr>wo_luck := Fails errno n # luck\<rparr>" and ?w2 = "w\<lparr>wo_luck := luck\<rparr>"
  let ?d = "(wo_disk w)(p := (case e of Write text \<Rightarrow> Some (File text NEW_FILE_MODE True) | _ \<Rightarrow> None))"
  have "real_path p w = (Ok p, ?w1)"
    using assms(1,6) by (simp add: real_path_def bind_act_def outcome_def lstat_def ask_works return_def)
  moreover have "(outcome (stat p) :: ((node, io_error) res, file_error, 'x) act) ?w1 = (Ok (Err (OtherIo errno)), ?w2)"
    by (simp add: outcome_def stat_def ask_def sys_call_def advance_def nothing_def)
  ultimately have run: "replace_file pid p e config_dir stamp None ?w2 = (r, w')"
    using assms(5,8) by (simp add: hook_apply_def bind_act_def)
  have "lucky ?w2" "wo_disk ?w2 = wo_disk w"
    using assms(7) by (simp_all add: lucky_def)
  with goes_replace_missing [OF assms(1-5), of "wo_umask ?w2" config_dir stamp]
  have "r = Ok None" "wo_disk w' = ?d"
    unfolding goes_def using run by fastforce+
  then show ?thesis
    by (simp add: NEW_FILE_MODE_def split: edit.split)
qed

lemma failed_lookup_skips_the_backup_witness:
  "fst (an_edit [Works, Fails 5 0]) = Ok None
   \<and> wo_disk (snd (an_edit [Works, Fails 5 0])) [''h'', ''s''] = Some (File ''new'' 420 True)"
proof -
  let ?w = "at_ease [Works, Fails 5 0]"
  have d: "wo_disk ?w [''h'', ''s''] = Some (File ''old'' 384 True)" "wo_disk ?w (temp_path 7 [''h'', ''s'']) = None"
    by (simp_all add: at_ease_def old_disk_def temp_path_def with_file_name_def file_name_def)
  have h: "has_dir (wo_disk ?w) (butlast [''h'', ''s''])"
    by (simp add: at_ease_def old_disk_def has_dir_def found_def numeral_eq_Suc)
  have "hook_apply 7 [''h'', ''s''] (Write ''new'') [''h''] ''z'' ?w
      = (fst (an_edit [Works, Fails 5 0]), snd (an_edit [Works, Fails 5 0]))"
    by (simp add: an_edit_def)
  from failed_lookup_skips_the_backup [OF d(1) _ d(2) h _ _ _ this, of 5 0 "[]"] show ?thesis
    by (simp add: at_ease_def)
qed

end
