(* ===== verification/Hook_Text.thy ===== *)
theory Hook_Text
  imports Hook_Adapters
begin

text \<open>
  The command line of a hook is read back: what \<open>command_line\<close> writes for a program's path, with its
  quotes escaped for the shell, \<open>parse_command\<close> recognises as ours and decodes to the same path and
  activity.
\<close>

section \<open>Finding\<close>

lemma find_split_Some: "find_split pat s = Some (a, b) \<Longrightarrow> s = a @ pat @ b"
  by (induction s arbitrary: a) (auto simp: strip_prefix_Some split: option.split_asm if_split_asm)

lemma find_split_here: "find_split pat (pat @ b) = Some ([], b)"
proof (cases "pat @ b")
  case (Cons c s)
  then have "strip_prefix pat (c # s) = Some b"
    by (metis strip_prefix_Some)
  then show ?thesis
    unfolding Cons by simp
qed simp

lemma find_split_found: "\<exists>a' b'. find_split pat (a @ pat @ b) = Some (a', b')"
proof (induction a)
  case Nil
  show ?case by (simp add: find_split_here)
next
  case (Cons c a)
  then show ?case
    by (auto split: option.split)
qed

lemma contains_iff: "contains pat s \<longleftrightarrow> (\<exists>a b. s = a @ pat @ b)"
  using find_split_Some find_split_found unfolding contains_def by fastforce

text \<open>The first occurrence, when no earlier one starts.\<close>

lemma find_split_first:
  assumes "\<And>x y. a = x @ y \<Longrightarrow> y \<noteq> [] \<Longrightarrow> strip_prefix pat (y @ pat @ b) = None"
  shows "find_split pat (a @ pat @ b) = Some (a, b)"
  using assms
proof (induction a)
  case Nil
  show ?case by (simp add: find_split_here)
next
  case (Cons c a)
  have "strip_prefix pat (c # a @ pat @ b) = None"
    using Cons.prems [of "[]" "c # a"] by simp
  moreover have "find_split pat (a @ pat @ b) = Some (a, b)"
    by (rule Cons.IH, rule Cons.prems [of "c # _"]) simp_all
  ultimately show ?case by simp
qed

section \<open>Quoting for the shell\<close>

definition quote_char :: "char \<Rightarrow> string" where
  "quote_char c = (if c = CHR 0x27 then [CHR 0x27, CHR 0x5C, CHR 0x27, CHR 0x27] else [c])"

lemma quote_path_map: "quote_path b = concat (map quote_char b)"
  by (induction b) (auto simp: quote_path_def quote_char_def strip_prefix_def)

lemma unquote_path:
  "replace_all [CHR 0x27, CHR 0x5C, CHR 0x27, CHR 0x27] [CHR 0x27] (quote_path b) = b"
proof (induction b)
  case Nil
  show ?case by (simp add: quote_path_map)
next
  case (Cons c b)
  then show ?case
    by (simp add: quote_path_map quote_char_def strip_prefix_def)
qed

lemma from_utf8_quote_path: "from_utf8 b \<Longrightarrow> from_utf8 (quote_path b)"
proof (induction b rule: utf8_induct)
  case Nil
  show ?case by (simp add: quote_path_map)
next
  case (Char c r)
  let ?n = "char_len c - 1"
  note u = utf8_first [OF Char.hyps]
  have split: "quote_path (c # r) = quote_char c @ concat (map quote_char (take ?n r)) @ quote_path (drop ?n r)"
    unfolding quote_path_map by (metis append_take_drop_id concat_append list.simps(9) concat.simps(2) map_append)
  show ?case
  proof (cases "byte c < 128")
    case True
    then have "?n = 0" "from_utf8 (quote_char c)"
      by (auto simp: char_len_def quote_char_def byte_def)
    then show ?thesis
      using Char.IH split by (simp add: from_utf8_append)
  next
    case False
    have "x \<noteq> CHR 0x27" if "x \<in> set (c # take ?n r)" for x
      using that False u(5) by (auto simp: byte_def)
    then have "map quote_char (c # take ?n r) = map (\<lambda>x. [x]) (c # take ?n r)"
      unfolding map_eq_conv by (simp add: quote_char_def)
    then have "concat (map quote_char (c # take ?n r)) = c # take ?n r"
      by (simp only: concat_map_singleton list.map_ident)
    then have "quote_char c @ concat (map quote_char (take ?n r)) = c # take ?n r"
      by simp
    then show ?thesis
      using Char.IH split u(3) from_utf8_append [OF u(3)] by (metis append.assoc)
  qed
qed

text \<open>A text without quotes and backslashes that the quoted path contains is in the path.\<close>

lemma quoted_prefix:
  "quote_path b = m @ y \<Longrightarrow> CHR 0x27 \<notin> set m \<Longrightarrow> \<exists>y'. b = m @ y'"
proof (induction m arbitrary: b)
  case (Cons d m)
  then obtain c q where b: "b = c # q"
    by (cases b) (auto simp: quote_path_map)
  then have "c \<noteq> CHR 0x27" "d = c" "quote_path q = m @ y"
    using Cons.prems by (auto simp: quote_path_map quote_char_def split: if_split_asm)
  then show ?case
    using Cons.IH [of q] Cons.prems(2) b by auto
qed simp

lemma quoted_contains:
  assumes "contains m (quote_path b)" and "m \<noteq> []" and "set m \<inter> {CHR 0x27, CHR 0x5C} = {}"
  shows "contains m b"
proof -
  obtain x y where "quote_path b = x @ m @ y"
    using assms(1) by (auto simp: contains_iff)
  then show ?thesis
  proof (induction b arbitrary: x)
    case Nil
    then show ?case
      using assms(2) by (simp add: quote_path_map)
  next
    case (Cons c b)
    have q: "quote_path (c # b) = quote_char c @ quote_path b"
      by (simp add: quote_path_map)
    obtain d m' where m: "m = d # m'" "d \<noteq> CHR 0x27" "d \<noteq> CHR 0x5C"
      using assms(2,3) by (cases m) auto
    have IH: "quote_path b = x' @ m @ y \<Longrightarrow> contains m (c # b)" for x'
      using Cons.IH [of x'] by (metis append_Cons contains_iff)
    show ?case
    proof (cases "c = CHR 0x27")
      case True
      then have "CHR 0x27 # CHR 0x5C # CHR 0x27 # CHR 0x27 # quote_path b = x @ d # m' @ y"
        using Cons.prems q by (simp add: quote_char_def m(1))
      then obtain x' where "quote_path b = x' @ d # m' @ y"
        using m(2,3) by (auto simp: Cons_eq_append_conv)
      then show ?thesis
        using IH [of x'] m(1) by simp
    next
      case False
      then have e: "c # quote_path b = x @ m @ y"
        using Cons.prems q by (simp add: quote_char_def)
      show ?thesis
      proof (cases x)
        case Nil
        then have "c = d" "quote_path b = m' @ y"
          using e m(1) by auto
        moreover have "CHR 0x27 \<notin> set m'"
          using assms(3) m(1) by auto
        ultimately obtain y' where "b = m' @ y'"
          using quoted_prefix by blast
        then show ?thesis
          using \<open>c = d\<close> m(1) by (metis append_Cons append_Nil contains_iff)
      next
        case (Cons z x')
        then show ?thesis
          using IH [of x'] e by simp
      qed
    qed
  qed
qed

section \<open>The command line\<close>

lemma white_space_bytes:
  "\<forall>w \<in> set white_space. (byte (hd w) \<in> {9, 10, 11, 12, 13, 32} \<or> 128 \<le> byte (hd w))
     \<and> (byte (last w) \<in> {9, 10, 11, 12, 13, 32} \<or> 128 \<le> byte (last w))"
  by (simp add: white_space_def upt_conv_Cons byte_def)

lemma white_space_ends_with:
  "byte c \<notin> {9, 10, 11, 12, 13, 32} \<Longrightarrow> byte c < 128 \<Longrightarrow> \<forall>w \<in> set white_space. hd w \<noteq> c \<and> last w \<noteq> c"
  using white_space_bytes by (metis not_le)

lemma char_of_32: "char_of (32 :: nat) = CHR '' ''"
  using char_of_byte_id [of "CHR '' ''"] by (simp add: byte_def)

lemma space_is_white: "'' '' \<in> set white_space"
  by (simp add: white_space_def char_of_32)

lemma only_space_ends:
  assumes "w \<in> set white_space" and "last w = CHR '' ''"
  shows "w = '' ''"
proof -
  have "\<forall>w \<in> set white_space. byte (last w) = 32 \<longrightarrow> w = [char_of (32 :: nat)]"
    by (simp add: white_space_def upt_conv_Cons byte_def)
  then show ?thesis
    using assms by (simp add: char_of_32 byte_def)
qed

lemma find_only:
  assumes "x \<in> set xs" and "P x" and "\<And>y. y \<in> set xs \<Longrightarrow> P y \<Longrightarrow> y = x"
  shows "find P xs = Some x"
proof (cases "find P xs")
  case None
  then show ?thesis
    using assms(1,2) by (simp add: find_None_iff)
next
  case (Some y)
  then have "y \<in> set xs" "P y"
    by (auto simp: find_Some_iff)
  then show ?thesis
    using assms(3) Some by simp
qed

lemma trim_quoted: "trim (CHR 0x27 # q @ [CHR 0x27, CHR '' '']) = CHR 0x27 # q @ [CHR 0x27]"
proof -
  have e: "\<forall>w \<in> set white_space. hd w \<noteq> CHR 0x27 \<and> last w \<noteq> CHR 0x27"
    by (rule white_space_ends_with) (simp_all add: byte_def)
  let ?s = "CHR 0x27 # q @ [CHR 0x27, CHR '' '']"
  have start: "trim_start ?s = ?s"
    by (rule trim_start_hd) (use e in simp_all)
  have "find (\<lambda>w. strip_suffix w ?s \<noteq> None) white_space = Some '' ''"
  proof -
    have "w = '' ''" if w: "w \<in> set white_space" "strip_suffix w ?s \<noteq> None" for w
    proof -
      obtain r where "?s = r @ w"
        using w(2) by (auto simp: strip_suffix_Some)
      then have "last w = last ?s"
        using white_space_not_Nil [OF w(1)] by (metis last_appendR)
      then show ?thesis
        using only_space_ends [OF w(1)] by simp
    qed
    moreover have "strip_suffix '' '' ?s \<noteq> None"
      using strip_suffix_Some [of "'' ''" ?s "CHR 0x27 # q @ [CHR 0x27]"] by simp
    ultimately show ?thesis
      by (intro find_only space_is_white)
  qed
  then have "trim_end ?s = trim_end (take (length ?s - 1) ?s)"
    by (subst trim_end.simps) simp
  also have "take (length ?s - 1) ?s = CHR 0x27 # q @ [CHR 0x27]"
    by simp
  also have "trim_end (CHR 0x27 # q @ [CHR 0x27]) = CHR 0x27 # q @ [CHR 0x27]"
    by (rule trim_end_last) (use e in simp_all)
  finally show ?thesis
    using start by (simp add: trim_def)
qed

lemma first_word_activity: "first_word (activity_word act @ '' '' @ s) = Some (activity_word act)"
proof -
  have e: "\<forall>w \<in> set white_space. hd w \<noteq> c" if "c \<in> set ''busyidle''" for c
    using white_space_ends_with [of c] that by (auto simp: byte_def)
  have start: "trim_start (activity_word act @ '' '' @ s) = activity_word act @ '' '' @ s"
    by (rule trim_start_hd; cases act) (use e in simp_all)
  have white: "\<not> starts_white (c # t)" if "c \<in> set ''busyidle''" for c t
  proof
    assume "starts_white (c # t)"
    then obtain w where w: "w \<in> set white_space" "take (length w) (c # t) = w"
      by (auto simp: starts_white_def list_ex_iff)
    then have "hd w = c"
      using white_space_not_Nil [OF w(1)] by (metis hd_take length_greater_0_conv list.sel(1))
    then show False
      using e [OF that] w(1) by blast
  qed
  have "starts_white (CHR '' '' # t)" for t
    using space_is_white by (auto simp: starts_white_def list_ex_iff intro!: bexI [of _ "'' ''"])
  then have "until_white (activity_word act @ '' '' @ s) = activity_word act"
    using white by (cases act) simp_all
  then show ?thesis
    unfolding first_word_def start by (cases act) simp_all
qed

lemma marker_chars:
  assumes "n = slug g"
  shows "set (marker n) \<inter> {CHR 0x27, CHR 0x5C} = {}" and "marker n \<noteq> []" and "hd (marker n) = CHR ''a''"
    and "2 < length (marker n)"
  using assms by (cases g; simp add: marker_def)+

text \<open>A path that does not itself contain the marker.\<close>

definition plain_path :: "string \<Rightarrow> string \<Rightarrow> bool" where
  "plain_path n b \<longleftrightarrow> \<not> contains (marker n) b"

lemma command_line_split:
  "command_line b n act =
     (CHR 0x27 # quote_path b @ [CHR 0x27, CHR '' '']) @ marker n @ activity_word act @ '' '' @ ''2>/dev/null || true''"
  by (simp add: command_line_def marker_def)

lemma no_early_marker:
  assumes n: "n = slug g" and p: "plain_path n b"
    and a: "CHR 0x27 # quote_path b @ [CHR 0x27, CHR '' ''] = x @ y" and y: "y \<noteq> []"
  shows "strip_prefix (marker n) (y @ marker n @ r) = None"
proof (cases "strip_prefix (marker n) (y @ marker n @ r)")
  case (Some q)
  note m = marker_chars [OF n]
  let ?m = "marker n" and ?Q = "quote_path b"
  have e: "y @ ?m @ r = ?m @ q"
    using Some by (simp add: strip_prefix_Some)
  then consider u where "y = ?m @ u" | u where "?m = y @ u"
    by (metis append_eq_append_conv2)
  then show ?thesis
  proof cases
    case (1 u)
    have "x \<noteq> []"
      using a 1 m(2,3) by (auto dest: arg_cong [of _ _ hd])
    then obtain x' where "x = CHR 0x27 # x'"
      using a by (cases x) auto
    then have "?Q @ [CHR 0x27, CHR '' ''] = (x' @ ?m) @ u"
      using a 1 by simp
    then consider v where "?Q = x' @ ?m @ v" | v where "x' @ ?m = ?Q @ v" "v @ u = [CHR 0x27, CHR '' '']"
      by (metis append.assoc append_eq_append_conv2)
    then show ?thesis
    proof cases
      case 1
      then have "contains ?m ?Q"
        by (auto simp: contains_iff)
      then have "contains ?m b"
        by (rule quoted_contains [OF _ m(2,1)])
      then show ?thesis
        using p by (simp add: plain_path_def)
    next
      case 2
      show ?thesis
      proof (cases v)
        case Nil
        then have "contains ?m ?Q"
          using 2(1) unfolding contains_iff by (intro exI [of _ x'] exI [of _ "[]"]) simp
        then have "contains ?m b"
          by (rule quoted_contains [OF _ m(2,1)])
        then show ?thesis
          using p by (simp add: plain_path_def)
      next
        case (Cons c v')
        then have "c = CHR 0x27" "length v \<le> 2"
          using 2(2) by (auto simp: append_eq_Cons_conv Cons_eq_append_conv)
        moreover obtain w where "?m = w @ v"
        proof -
          consider us where "x' = ?Q @ us" "us @ ?m = v" | us where "?m = us @ v"
            using 2(1) by (auto simp: append_eq_append_conv2)
          then show ?thesis
            by cases (use m(4) \<open>length v \<le> 2\<close> that in auto)
        qed
        ultimately show ?thesis
          using m(1) Cons by auto
      qed
    qed
  next
    case (2 u)
    then have no: "CHR 0x27 \<notin> set y"
      using m(1) by auto
    have "y \<noteq> '' ''"
      using 2 m(3) by auto
    obtain v c where v: "y = v @ [c]"
      using y by (cases y rule: rev_cases) auto
    then have "x @ v = CHR 0x27 # quote_path b @ [CHR 0x27]" "c = CHR '' ''"
      using a by (auto simp flip: append_assoc append_Cons)
    then have "last (x @ v) = CHR 0x27"
      by simp
    moreover have "v \<noteq> []"
      using v \<open>c = CHR '' ''\<close> \<open>y \<noteq> '' ''\<close> by auto
    ultimately have "CHR 0x27 \<in> set v"
      using last_in_set [of v] by simp
    then show ?thesis
      using no v by simp
  qed
qed simp

lemma parse_our_command:
  assumes "n = slug g" and "plain_path n b"
  shows "parse_command (command_line b n act) n = Some (b, Some act)"
proof -
  let ?a = "CHR 0x27 # quote_path b @ [CHR 0x27, CHR '' '']"
  have f: "find_split (marker n) (command_line b n act)
      = Some (?a, activity_word act @ '' '' @ ''2>/dev/null || true'')"
    unfolding command_line_split
    by (rule find_split_first, rule no_early_marker [OF assms]) simp_all
  have "strip_suffix [CHR 0x27] (quote_path b @ [CHR 0x27]) = Some (quote_path b)"
    by (simp add: strip_suffix_Some)
  then show ?thesis
    unfolding parse_command_def f option.case prod.case trim_quoted first_word_activity
    by (cases act) (simp_all add: strip_prefix_def unquote_path)
qed

lemma our_command: "is_ours (command_line b n act) n"
  unfolding is_ours_def contains_iff command_line_split by blast

end
