(* ===== verification/Hook_Merge.thy ===== *)
theory Hook_Merge
  imports Hook_Text Hook_Json_Correct
begin

text \<open>
  What the merge of our handlers into a configuration does: it keeps the configuration well formed,
  every handler of ours afterwards runs the given program, there is one for each event, and merging
  again changes nothing.
\<close>

section \<open>Fields\<close>

lemma find_set_field: "find (\<lambda>f. fst f = k) (set_field key v flds) =
    (if k = key then Some (key, v) else find (\<lambda>f. fst f = k) flds)"
  by (induction flds) auto

lemma hj_get_set [simp]:
  "hj_get (hj_set (Obj flds) key v) k = (if k = key then Some v else hj_get (Obj flds) k)"
  by (simp add: hj_get_def hj_set_def find_set_field)

lemma set_field_same: "find (\<lambda>f. fst f = key) flds = Some (k, v) \<Longrightarrow> set_field key v flds = flds"
  by (induction flds) (auto split: if_split_asm)

lemma hj_set_same: "hj_get o' key = Some v \<Longrightarrow> hj_set o' key v = o'"
  by (auto simp: hj_get_def hj_set_def set_field_same split: hjson.splits)

lemma find_Some_in: "find P xs = Some x \<Longrightarrow> x \<in> set xs \<and> P x"
  by (auto simp: find_Some_iff)

lemma hj_get_Some: "hj_get o' key = Some v \<Longrightarrow> \<exists>flds. o' = Obj flds \<and> (key, v) \<in> set flds"
  by (auto simp: hj_get_def dest!: find_Some_in split: hjson.split_asm)

lemma map_fst_set_field:
  "map fst (set_field key v flds) = map fst flds @ (if key \<in> set (map fst flds) then [] else [key])"
  by (induction flds) auto

lemma set_set_field: "set (set_field key v flds) \<subseteq> insert (key, v) (set flds)"
  by (induction flds) auto

lemma filter_set_field: "filter (\<lambda>f. fst f \<noteq> key) (set_field key v flds) = filter (\<lambda>f. fst f \<noteq> key) flds"
  by (induction flds) auto

lemma good_Obj_set:
  assumes "good d (Obj flds)" and "from_utf8 key" and "good (Suc d) v"
  shows "good d (hj_set (Obj flds) key v)"
  using assms set_set_field [of key v flds] good_depth [OF assms(1)]
  by (auto simp: hj_set_def good_scalar map_fst_set_field)

lemma good_get: "good d o' \<Longrightarrow> hj_get o' key = Some v \<Longrightarrow> good (Suc d) v"
  using good_depth [of d o'] by (fastforce simp: good_scalar dest!: hj_get_Some)

lemma good_Arr: "good d (Arr items) \<Longrightarrow> d < MAX_DEPTH \<and> (\<forall>v \<in> set items. good (Suc d) v)"
  using good_depth [of d "Arr items"] by (simp add: good_scalar)

section \<open>Handlers\<close>

lemma handler_command_Obj: "handler_command h \<noteq> None \<Longrightarrow> \<exists>flds. h = Obj flds"
  by (auto simp: handler_command_def split: option.split_asm dest!: hj_get_Some)

lemma handler_command_set:
  "handler_command (hj_set (Obj flds) key v) =
     (if key = ''command'' then as_str v else handler_command (Obj flds))"
  by (auto simp: handler_command_def)

lemma ours_handler: "ours n h \<Longrightarrow> handler_command h \<noteq> None"
  by (auto simp: ours_def split: option.split_asm)

lemma repoint_ours:
  assumes "ours n h"
  shows "handler_command (repoint n want t h) = Some want"
proof -
  obtain flds where h: "h = Obj flds"
    using handler_command_Obj [OF ours_handler [OF assms]] by blast
  obtain flds' where s: "hj_set (Obj flds) ''command'' (Str want) = Obj flds'"
    by (simp add: hj_set_def)
  have c: "handler_command (Obj flds') = Some want"
    using handler_command_set [of flds "''command''" "Str want"] by (simp add: s as_str_def)
  then show ?thesis
    using assms by (auto simp: repoint_def h s handler_command_set Let_def split: option.split)
qed

lemma repoint_other: "\<not> ours n h \<Longrightarrow> repoint n want t h = h"
  by (simp add: repoint_def)

lemma repoint_handler: "handler_command (repoint n want t h) = None \<longleftrightarrow> handler_command h = None"
  using ours_handler [of n h] repoint_ours [of n h want t] by (cases "ours n h") (auto simp: repoint_other)

text \<open>A handler of ours that already runs the command and has its timeout is left as it is.\<close>

definition pointed :: "string \<Rightarrow> u32 option \<Rightarrow> hjson \<Rightarrow> bool" where
  "pointed want t h \<longleftrightarrow> hj_get h ''command'' = Some (Str want) \<and> (t \<noteq> None \<longrightarrow> hj_get h ''timeout'' \<noteq> None)"

lemma repoint_pointed: "pointed want t h \<Longrightarrow> repoint n want t h = h"
  by (auto simp: pointed_def repoint_def hj_set_same Let_def split: option.split)

lemma pointed_repoint:
  assumes "ours n h"
  shows "pointed want t (repoint n want t h)"
proof -
  obtain flds where h: "h = Obj flds"
    using handler_command_Obj [OF ours_handler [OF assms]] by blast
  obtain flds' where s: "hj_set (Obj flds) ''command'' (Str want) = Obj flds'"
    by (simp add: hj_set_def)
  have c: "hj_get (Obj flds') ''command'' = Some (Str want)"
    using hj_get_set [of flds "''command''" "Str want" "''command''"] by (simp add: s)
  show ?thesis
    using assms c by (auto simp: pointed_def repoint_def h s Let_def split: option.split)
qed

lemma number_text_nat_str [simp]: "number_text (nat_str n)"
proof -
  have "int_text (nat_str n)"
  proof (cases "n = 0")
    case True
    have "digit_char 0 = CHR ''0''"
      using char_of_byte_id [of "CHR ''0''"] by (simp add: byte_def digit_char_def)
    then show ?thesis
      using True by (simp add: nat_str.simps int_text_def)
  next
    case False
    then show ?thesis
      using nat_str_digits [of n] nat_str_leading [of n] by (simp add: int_text_def digits_def list_all_iff)
  qed
  then show ?thesis
    unfolding number_text_def
    by (intro exI [of _ "[]"] exI [of _ "nat_str n"]) (simp add: fraction_text_def exponent_text_def)
qed

lemma good_repoint:
  assumes "good d h" and "from_utf8 want"
  shows "good d (repoint n want t h)"
proof (cases "ours n h")
  case True
  obtain flds where h: "h = Obj flds"
    using handler_command_Obj [OF ours_handler [OF True]] by blast
  have d: "Suc d < MAX_DEPTH"
    using good_get [OF assms(1)] good_depth ours_handler [OF True]
    by (fastforce simp: handler_command_def split: option.split_asm)
  have "good d (hj_set (Obj flds) ''command'' (Str want))"
    using assms h d by (intro good_Obj_set) (auto simp: good_scalar from_utf8_def byte_def)
  moreover obtain flds' where s: "hj_set (Obj flds) ''command'' (Str want) = Obj flds'"
    by (simp add: hj_set_def)
  ultimately have "good d (Obj flds')" "good d (hj_set (Obj flds') ''timeout'' (Num (nat_str k)))" for k
    using d by (auto intro!: good_Obj_set simp: good_scalar from_utf8_def byte_def)
  then show ?thesis
    using True by (auto simp: repoint_def h s Let_def split: option.split)
qed (use assms in \<open>simp add: repoint_other\<close>)

section \<open>Lists of handlers\<close>

lemma item_handlers_map:
  assumes "\<And>h. handler_command (f h) = None \<longleftrightarrow> handler_command h = None"
  shows "item_handlers (map_item f item) = map f (item_handlers item)"
proof (cases "handler_command item = None")
  case False
  then show ?thesis
    using assms by (simp add: item_handlers_def map_item_def)
next
  case True
  show ?thesis
  proof (cases "\<exists>inner. hj_get item ''hooks'' = Some (Arr inner)")
    case False
    then show ?thesis
      using True by (auto simp: item_handlers_def map_item_def split: option.split hjson.split)
  next
    case inner: True
    then obtain inner flds where i: "hj_get item ''hooks'' = Some (Arr inner)" "item = Obj flds"
      using hj_get_Some by blast
    let ?g = "\<lambda>h. if handler_command h \<noteq> None then f h else h"
    have m: "map_item f item = hj_set (Obj flds) ''hooks'' (Arr (map ?g inner))"
      using True i by (simp add: map_item_def)
    have "filter (\<lambda>h. handler_command h \<noteq> None) (map ?g inner) = map f (filter (\<lambda>h. handler_command h \<noteq> None) inner)"
      using assms by (induction inner) auto
    then show ?thesis
      using True i unfolding m by (simp add: item_handlers_def handler_command_set)
  qed
qed

lemma handlers_map:
  assumes "\<And>h. handler_command (f h) = None \<longleftrightarrow> handler_command h = None"
  shows "handlers (map (map_item f) items) = map f (handlers items)"
  by (induction items) (auto simp: handlers_def item_handlers_map [OF assms])

lemma map_item_same: "\<forall>h \<in> set (item_handlers item). f h = h \<Longrightarrow> map_item f item = item"
proof (cases "handler_command item = None")
  case True
  assume same: "\<forall>h \<in> set (item_handlers item). f h = h"
  show ?thesis
  proof (cases "\<exists>inner. hj_get item ''hooks'' = Some (Arr inner)")
    case False
    then show ?thesis
      using True by (auto simp: map_item_def split: option.split hjson.split)
  next
    case inner: True
    then obtain inner where i: "hj_get item ''hooks'' = Some (Arr inner)"
      by blast
    have "(if handler_command h \<noteq> None then f h else h) = h" if "h \<in> set inner" for h
      using same that True i by (auto simp: item_handlers_def)
    then have "map (\<lambda>h. if handler_command h \<noteq> None then f h else h) inner = inner"
      by (simp add: map_idI)
    then show ?thesis
      using True i by (simp add: map_item_def hj_set_same)
  qed
qed (simp add: item_handlers_def map_item_def)

lemma good_map_item:
  assumes "good d item" and "\<And>e h. good e h \<Longrightarrow> good e (f h)"
  shows "good d (map_item f item)"
proof (cases "\<exists>inner. hj_get item ''hooks'' = Some (Arr inner)")
  case False
  then show ?thesis
    using assms by (auto simp: map_item_def split: option.split hjson.split)
next
  case True
  then obtain inner flds where i: "hj_get item ''hooks'' = Some (Arr inner)" "item = Obj flds"
    using hj_get_Some by blast
  have "good (Suc d) (Arr inner)"
    using good_get assms(1) i(1) by blast
  then have "good (Suc d) (Arr (map (\<lambda>h. if handler_command h \<noteq> None then f h else h) inner))"
    using assms(2) good_depth [of "Suc d" "Arr inner"] by (auto simp: good_scalar)
  then show ?thesis
    using assms i by (auto simp: map_item_def from_utf8_def byte_def intro!: good_Obj_set)
qed

lemma handlers_are: "h \<in> set (handlers items) \<Longrightarrow> handler_command h \<noteq> None"
  by (auto simp: handlers_def item_handlers_def split: if_split_asm option.split_asm hjson.split_asm)

section \<open>New entries\<close>

definition our_handler :: "adapter \<Rightarrow> event_spec \<Rightarrow> string \<Rightarrow> u32 option \<Rightarrow> hjson" where
  "our_handler a spec binary timeout =
     Obj ([(''type'', Str ''command''),
           (''command'', Str (command_line binary (ad_slug a) (es_activity spec)))]
          @ (case timeout of None \<Rightarrow> [] | Some n \<Rightarrow> [(''timeout'', Num (nat_str (unat n)))]))"

lemma new_entry_eq:
  "new_entry a spec binary timeout =
     (case es_shape spec of
        FlatShape \<Rightarrow> our_handler a spec binary timeout
      | GroupShape \<Rightarrow>
          Obj ((case es_matcher spec of None \<Rightarrow> [] | Some m \<Rightarrow> [(''matcher'', Str m)])
               @ [(''hooks'', Arr [our_handler a spec binary timeout])]))"
  by (auto simp: new_entry_def our_handler_def hj_set_def split: option.split hook_shape.split)

lemma our_handler_command:
  "handler_command (our_handler a spec binary timeout) = Some (command_line binary (ad_slug a) (es_activity spec))"
  by (simp add: handler_command_def our_handler_def hj_get_def as_str_def)

lemma our_handler_pointed:
  "pointed (command_line binary (ad_slug a) (es_activity spec)) timeout (our_handler a spec binary timeout)"
  by (auto simp: pointed_def our_handler_def hj_get_def split: option.split)

lemma our_handler_ours: "ours (ad_slug a) (our_handler a spec binary timeout)"
  using our_command by (simp add: ours_def our_handler_command)

lemma handlers_new_entry: "handlers [new_entry a spec binary timeout] = [our_handler a spec binary timeout]"
proof -
  have "handler_command (Obj ((case es_matcher spec of None \<Rightarrow> [] | Some m \<Rightarrow> [(''matcher'', Str m)])
      @ [(''hooks'', Arr [our_handler a spec binary timeout])])) = None"
    by (simp add: handler_command_def hj_get_def split: option.split)
  moreover have "hj_get (Obj ((case es_matcher spec of None \<Rightarrow> [] | Some m \<Rightarrow> [(''matcher'', Str m)])
      @ [(''hooks'', Arr [our_handler a spec binary timeout])])) ''hooks'' = Some (Arr [our_handler a spec binary timeout])"
    by (simp add: hj_get_def split: option.split)
  ultimately show ?thesis
    by (simp add: handlers_def new_entry_eq item_handlers_def our_handler_command split: hook_shape.split)
qed

lemma from_utf8_lit: "\<forall>c \<in> set s. byte c < 128 \<Longrightarrow> from_utf8 s"
  by (rule ascii_from_utf8)

lemma from_utf8_command_line:
  assumes "from_utf8 binary"
  shows "from_utf8 (command_line binary (slug g) act)"
proof -
  have a: "from_utf8 ([CHR 0x27] @ '' agent-event '' @ slug g @ '' '' @ activity_word act @ '' 2>/dev/null || true'')"
    by (cases g; cases act) (simp_all add: from_utf8_def byte_def)
  have b: "from_utf8 ([CHR 0x27] @ quote_path binary)"
    using from_utf8_quote_path [OF assms] by (simp add: byte_def)
  show ?thesis
    using from_utf8_append [OF b] a by (simp add: command_line_def)
qed

lemma good_new_entry:
  assumes "Suc (Suc (Suc d)) < MAX_DEPTH" and "from_utf8 binary" and "\<forall>m. es_matcher spec = Some m \<longrightarrow> from_utf8 m"
  shows "good d (new_entry a spec binary timeout)"
proof -
  have h: "good e (our_handler a spec binary timeout)" if "Suc e < MAX_DEPTH" for e
    using that from_utf8_command_line [OF assms(2)]
    by (auto simp: our_handler_def good_scalar ad_slug_def from_utf8_lit byte_def split: option.split)
  show ?thesis
    using h assms(1,3) by (auto simp: new_entry_eq good_scalar from_utf8_lit byte_def split: option.split hook_shape.split)
qed

section \<open>Merging one event's list\<close>

text \<open>Every handler of ours in the list runs the command, and there is one.\<close>

definition settled :: "adapter \<Rightarrow> string \<Rightarrow> u32 option \<Rightarrow> event_spec \<Rightarrow> hjson list \<Rightarrow> bool" where
  "settled a binary timeout spec items \<longleftrightarrow>
     (\<forall>h \<in> set (handlers items). ours (ad_slug a) h \<longrightarrow>
        pointed (command_line binary (ad_slug a) (es_activity spec)) timeout h)
     \<and> (\<exists>h \<in> set (handlers items). ours (ad_slug a) h)"

lemma handlers_append: "handlers (xs @ ys) = handlers xs @ handlers ys"
  by (simp add: handlers_def)

lemma ours_repoint:
  "ours (ad_slug a) (repoint (ad_slug a) (command_line b (ad_slug a) act) t h) = ours (ad_slug a) h"
  using repoint_ours [of "ad_slug a" h] our_command by (cases "ours (ad_slug a) h") (auto simp: ours_def repoint_other)

lemma merge_list_settled: "settled a binary timeout spec (merge_list a spec binary timeout items)"
proof -
  let ?n = "ad_slug a" and ?want = "command_line binary (ad_slug a) (es_activity spec)"
  let ?hs = "handlers (map (map_item (repoint ?n ?want timeout)) items)"
  have hs: "?hs = map (repoint ?n ?want timeout) (handlers items)"
    by (rule handlers_map) (rule repoint_handler)
  have "\<forall>h \<in> set ?hs. ours ?n h \<longrightarrow> pointed ?want timeout h"
    unfolding hs by (auto simp: ours_repoint intro: pointed_repoint)
  moreover have "\<exists>h \<in> set ?hs. ours ?n h" if "list_ex (ours ?n) (handlers items)"
    using that unfolding hs by (auto simp: list_ex_iff ours_repoint)
  ultimately show ?thesis
    using our_handler_pointed our_handler_ours
    by (auto simp: settled_def merge_list_def Let_def handlers_append handlers_new_entry)
qed

lemma merge_list_stable:
  assumes "settled a binary timeout spec items"
  shows "merge_list a spec binary timeout items = items"
proof -
  let ?f = "repoint (ad_slug a) (command_line binary (ad_slug a) (es_activity spec)) timeout"
  have "?f h = h" if "h \<in> set (handlers items)" for h
    using assms that repoint_pointed by (cases "ours (ad_slug a) h") (auto simp: settled_def repoint_other)
  then have "map (map_item ?f) items = items"
    by (intro map_idI map_item_same) (auto simp: handlers_def)
  moreover have "list_ex (ours (ad_slug a)) (handlers items)"
    using assms by (auto simp: settled_def list_ex_iff)
  ultimately show ?thesis
    by (simp add: merge_list_def)
qed

lemma good_merge_list:
  assumes "good d (Arr items)" and "d + 4 < MAX_DEPTH" and "from_utf8 binary"
    and "\<forall>m. es_matcher spec = Some m \<longrightarrow> from_utf8 m"
  shows "good d (Arr (merge_list a spec binary timeout items))"
proof -
  have d: "d < MAX_DEPTH"
    using assms(2) by simp
  have "good (Suc d) (map_item (repoint (ad_slug a) (command_line binary (ad_slug a) (es_activity spec)) timeout) v)"
    if "v \<in> set items" for v
    using that assms(1) from_utf8_command_line [OF assms(3)]
    by (intro good_map_item good_repoint) (auto simp: good_scalar [OF d] ad_slug_def)
  moreover have "good (Suc d) (new_entry a spec binary timeout)"
    using assms by (intro good_new_entry) auto
  ultimately show ?thesis
    by (auto simp: merge_list_def good_scalar [OF d] Let_def)
qed

end
