(* ===== verification/Hook_Install.thy ===== *)
theory Hook_Install
  imports Hook_Merge
begin

text \<open>
  Installing: the edit is written once, a second install changes nothing, and the configuration it
  leaves is classified as installed, or as outdated when the program it names does not exist.
\<close>

section \<open>Merging the events\<close>

definition box_settled :: "adapter \<Rightarrow> string \<Rightarrow> u32 option \<Rightarrow> event_spec list \<Rightarrow> hjson \<Rightarrow> bool" where
  "box_settled a binary timeout specs box \<longleftrightarrow>
     (\<forall>spec \<in> set specs. \<exists>items. hj_get box (es_event spec) = Some (Arr items) \<and> settled a binary timeout spec items)"

definition is_obj :: "hjson \<Rightarrow> bool" where
  "is_obj v \<longleftrightarrow> (\<exists>flds. v = Obj flds)"

lemma is_obj_Obj [simp]: "is_obj (Obj flds)"
  by (simp add: is_obj_def)

lemma is_obj_set [simp]: "is_obj (hj_set v key x) = is_obj v"
  by (auto simp: is_obj_def hj_set_def split: hjson.split)

lemma get_set_obj: "is_obj v \<Longrightarrow> hj_get (hj_set v key x) k = (if k = key then Some x else hj_get v k)"
  by (auto simp: is_obj_def)

text \<open>What one step does to an object: the event's list is merged, the rest is as it was.\<close>

lemma merge_event_Ok:
  assumes "merge_event a binary timeout box spec = Ok box'" and "is_obj box"
  shows "\<exists>items. (hj_get box (es_event spec) = Some (Arr items) \<or> hj_get box (es_event spec) = None \<and> items = [])
      \<and> hj_get box' (es_event spec) = Some (Arr (merge_list a spec binary timeout items))"
    and "k \<noteq> es_event spec \<Longrightarrow> hj_get box' k = hj_get box k"
    and "is_obj box'"
  using assms
  by (auto simp: merge_event_def Let_def get_set_obj split: if_split_asm option.split_asm hjson.split_asm)

lemma merge_event_stable:
  assumes "hj_get box (es_event spec) = Some (Arr items)" and "settled a binary timeout spec items"
  shows "merge_event a binary timeout box spec = Ok box"
  using assms by (simp add: merge_event_def merge_list_stable hj_set_same)

lemma merge_events_Ok:
  assumes "merge_events a binary timeout specs box = Ok box'" and "is_obj box"
    and "distinct (map es_event specs)"
  shows "box_settled a binary timeout specs box' \<and> is_obj box'
    \<and> (\<forall>k. k \<notin> es_event ` set specs \<longrightarrow> hj_get box' k = hj_get box k)"
  using assms
proof (induction specs arbitrary: box)
  case Nil
  then show ?case by (simp add: box_settled_def)
next
  case (Cons spec specs)
  then obtain b where b: "merge_event a binary timeout box spec = Ok b" "merge_events a binary timeout specs b = Ok box'"
    by (auto simp: and_then_eq_Ok)
  note e = merge_event_Ok [OF b(1) Cons.prems(2)]
  have IH: "box_settled a binary timeout specs box' \<and> is_obj box'
    \<and> (\<forall>k. k \<notin> es_event ` set specs \<longrightarrow> hj_get box' k = hj_get b k)"
    using Cons.IH [OF b(2) e(3)] Cons.prems(3) by simp
  moreover have "es_event spec \<notin> es_event ` set specs"
    using Cons.prems(3) by simp
  ultimately have "hj_get box' (es_event spec) = hj_get b (es_event spec)"
    by simp
  then have "\<exists>items. hj_get box' (es_event spec) = Some (Arr items) \<and> settled a binary timeout spec items"
    using e(1) merge_list_settled by metis
  moreover have "hj_get box' k = hj_get box k" if "k \<notin> es_event ` set (spec # specs)" for k
    using that IH e(2) [of k] by simp
  ultimately show ?case
    using IH by (simp add: box_settled_def)
qed

lemma merge_events_stable:
  "box_settled a binary timeout specs box \<Longrightarrow> merge_events a binary timeout specs box = Ok box"
proof (induction specs)
  case (Cons spec specs)
  then show ?case
    using merge_event_stable by (fastforce simp: box_settled_def)
qed simp

section \<open>The adapters\<close>

text \<open>What the table's JSON adapters have in common.\<close>

definition spec_ok :: "event_spec \<Rightarrow> bool" where
  "spec_ok spec \<longleftrightarrow> from_utf8 (es_event spec) \<and> (\<forall>m. es_matcher spec = Some m \<longrightarrow> from_utf8 m)"

definition adapter_ok :: "adapter \<Rightarrow> string \<Rightarrow> bool" where
  "adapter_ok a key \<longleftrightarrow> from_utf8 key \<and> distinct (map es_event (ad_events a)) \<and> ad_events a \<noteq> []
     \<and> list_all spec_ok (ad_events a)"

lemma table_ok:
  assumes "a \<in> set ADAPTERS" and "ad_format a = JsonFormat key scope timeout"
  shows "adapter_ok a key"
proof -
  have "\<forall>a \<in> set ADAPTERS. case ad_format a of JsonFormat key _ _ \<Rightarrow> adapter_ok a key | Plugin \<Rightarrow> True"
    by (simp add: ADAPTERS_def adapter_ok_def spec_ok_def group_event_def flat_event_def from_utf8_def byte_def)
  then show ?thesis
    using assms by fastforce
qed

lemma good_merge_event:
  assumes "merge_event a binary timeout box spec = Ok box'" and "good d box" and "is_obj box"
    and "d + 5 < MAX_DEPTH" and "from_utf8 binary" and "spec_ok spec"
  shows "good d box'"
proof -
  obtain flds where b: "box = Obj flds"
    using assms(3) by (auto simp: is_obj_def)
  have empty: "good (Suc d) (Arr [])"
    using assms(4) by (simp add: good_scalar)
  have *: "good d (hj_set b (es_event spec) (Arr (merge_list a spec binary timeout items)))"
    if "good d b" "is_obj b" "good (Suc d) (Arr items)" for b items
    using that assms(4-6) by (auto simp: is_obj_def spec_ok_def intro!: good_Obj_set good_merge_list)
  show ?thesis
  proof (cases "hj_get box (es_event spec) = None")
    case True
    have "good d (hj_set box (es_event spec) (Arr []))"
      using assms(2,6) empty b by (auto simp: spec_ok_def intro!: good_Obj_set)
    then show ?thesis
      using assms(1,3) True * [OF _ _ empty]
      by (auto simp: merge_event_def get_set_obj)
  next
    case False
    then obtain items where i: "hj_get box (es_event spec) = Some (Arr items)"
      "box' = hj_set box (es_event spec) (Arr (merge_list a spec binary timeout items))"
      using assms(1) by (auto simp: merge_event_def split: option.split_asm hjson.split_asm)
    then show ?thesis
      using * [OF assms(2,3) good_get [OF assms(2) i(1)]] by simp
  qed
qed

lemma good_merge_events:
  assumes "merge_events a binary timeout specs box = Ok box'" and "good d box" and "is_obj box"
    and "d + 5 < MAX_DEPTH" and "from_utf8 binary" and "list_all spec_ok specs"
  shows "good d box'"
  using assms
proof (induction specs arbitrary: box)
  case (Cons spec specs)
  then obtain b where b: "merge_event a binary timeout box spec = Ok b" "merge_events a binary timeout specs b = Ok box'"
    by (auto simp: and_then_eq_Ok)
  show ?case
    by (rule Cons.IH [OF b(2)])
      (use Cons.prems good_merge_event [OF b(1)] merge_event_Ok(3) [OF b(1)] in auto)
qed simp

section \<open>Merging a configuration\<close>

definition root_settled :: "adapter \<Rightarrow> string \<Rightarrow> string \<Rightarrow> u32 option \<Rightarrow> hjson \<Rightarrow> bool" where
  "root_settled a key binary timeout root \<longleftrightarrow>
     (\<exists>box. is_obj root \<and> hj_get root key = Some box \<and> is_obj box \<and> box_settled a binary timeout (ad_events a) box)"

lemma hook_container_Ok:
  "hook_container root key = Ok c \<Longrightarrow> is_obj root \<and> hj_get root key = c \<and> (\<forall>box. c = Some box \<longrightarrow> is_obj box)"
  by (auto simp: hook_container_def is_obj_def split: hjson.split_asm option.split_asm)

lemma hook_container_obj:
  "is_obj root \<Longrightarrow> hj_get root key = Some box \<Longrightarrow> is_obj box \<Longrightarrow> hook_container root key = Ok (Some box)"
  by (auto simp: hook_container_def is_obj_def)

lemma merge_parts:
  assumes "merge a root binary = Ok root'" and "ad_format a = JsonFormat key scope timeout"
  obtains root1 box box' where "is_obj root" "is_obj root1" "is_obj box"
    "hj_get root key = None \<and> root1 = hj_set root key (Obj []) \<and> box = Obj []
      \<or> hj_get root key = Some box \<and> root1 = root"
    "hj_get root1 key = Some box" "merge_events a binary timeout (ad_events a) box = Ok box'"
    "root' = hj_set root1 key box'"
proof -
  obtain c where c: "hook_container root key = Ok c"
    using assms by (auto simp: merge_def and_then_eq_Ok)
  note k = hook_container_Ok [OF c]
  show ?thesis
  proof (cases c)
    case None
    then have "hj_get (hj_set root key (Obj [])) key = Some (Obj [])"
      using k by (simp add: get_set_obj)
    then show ?thesis
      using assms k None that [of "hj_set root key (Obj [])" "Obj []"]
      by (auto simp: merge_def and_then_eq_Ok)
  next
    case (Some box)
    then show ?thesis
      using assms k that [of root box] by (auto simp: merge_def and_then_eq_Ok)
  qed
qed

lemma merge_settled:
  assumes "merge a root binary = Ok root'" and "ad_format a = JsonFormat key scope timeout"
    and "adapter_ok a key"
  shows "root_settled a key binary timeout root'"
proof -
  obtain root1 box box' where r: "is_obj root1" "is_obj box"
    "merge_events a binary timeout (ad_events a) box = Ok box'" "root' = hj_set root1 key box'"
    using merge_parts [OF assms(1,2)] by metis
  then have "box_settled a binary timeout (ad_events a) box' \<and> is_obj box'"
    using merge_events_Ok [OF r(3,2)] assms(3) by (simp add: adapter_ok_def)
  then show ?thesis
    using r by (simp add: root_settled_def get_set_obj)
qed

lemma merge_stable:
  assumes "root_settled a key binary timeout root" and "ad_format a = JsonFormat key scope timeout"
  shows "merge a root binary = Ok root"
  using assms
  by (auto simp: root_settled_def merge_def hook_container_obj merge_events_stable hj_set_same)

lemma good_merge:
  assumes "merge a root binary = Ok root'" and "ad_format a = JsonFormat key scope timeout"
    and "adapter_ok a key" and "good 0 root" and "from_utf8 binary"
  shows "good 0 root'"
proof -
  obtain root1 box box' where r: "is_obj root" "is_obj root1" "is_obj box"
    "hj_get root key = None \<and> root1 = hj_set root key (Obj []) \<and> box = Obj []
      \<or> hj_get root key = Some box \<and> root1 = root"
    "hj_get root1 key = Some box" "merge_events a binary timeout (ad_events a) box = Ok box'"
    "root' = hj_set root1 key box'"
    by (rule merge_parts [OF assms(1,2)])
  have key: "from_utf8 key"
    using assms(3) by (simp add: adapter_ok_def)
  have "good (Suc 0) (Obj [])"
    by (simp add: good_scalar MAX_DEPTH_def)
  then have root1: "good 0 root1"
    using r(1,4) assms(4) key by (auto simp: is_obj_def intro!: good_Obj_set)
  have "good (Suc 0) box'"
    using good_merge_events [OF r(6) good_get [OF root1 r(5)] r(3) _ assms(5)] assms(3)
    by (simp add: adapter_ok_def MAX_DEPTH_def)
  then show ?thesis
    using root1 r(2,7) key by (auto simp: is_obj_def intro!: good_Obj_set)
qed

section \<open>Inspecting\<close>

text \<open>What a command that names this program is judged to be, by whether the program exists.\<close>

definition no_binary :: "string \<Rightarrow> string" where
  "no_binary b = ''binary '' @ b @ '' does not exist''"

definition named_state :: "string \<Rightarrow> (string \<Rightarrow> bool) \<Rightarrow> event_state" where
  "named_state b exists = (if exists b then EventOk else EventOutdated (no_binary b))"

lemma judge_pointed:
  assumes "pointed (command_line b n act) t h" and "n = slug g" and "plain_path n b"
  shows "handler_command h = Some (command_line b n act)"
    and "judge (command_line b n act) n act b exists = named_state b exists"
  using assms parse_our_command [OF assms(2,3)]
  by (simp_all add: pointed_def handler_command_def as_str_def judge_def named_state_def no_binary_def)

lemma settled_verdict:
  assumes "settled a b t spec items" and "plain_path (ad_slug a) b"
  shows "event_verdict (ad_slug a) (es_activity spec) b exists items = named_state b exists"
proof -
  let ?n = "ad_slug a" and ?act = "es_activity spec"
  let ?see = "see_handler ?n ?act b exists"
  have n: "?n = slug (ad_agent a)"
    by (simp add: ad_slug_def)
  have see: "?see h (bad, ok) = (if \<not> ours ?n h then (bad, ok) else if exists b then (bad, True)
      else (case bad of None \<Rightarrow> Some (no_binary b) | Some w \<Rightarrow> Some w, ok))"
    if "h \<in> set (handlers items)" for h bad ok
  proof (cases "ours ?n h")
    case True
    then have "pointed (command_line b ?n ?act) t h"
      using assms(1) that by (simp add: settled_def)
    note j = judge_pointed [OF this n assms(2)]
    show ?thesis
      using True j(2) [of exists] by (simp add: see_handler_def j(1) our_command named_state_def)
  next
    case False
    moreover have "handler_command h \<noteq> None"
      using that by (rule handlers_are)
    ultimately show ?thesis
      by (auto simp: see_handler_def ours_def)
  qed
  have good: "fold ?see hs (None, ok) = (None, ok \<or> list_ex (ours ?n) hs)"
    if "set hs \<subseteq> set (handlers items)" "exists b" for hs ok
    using that by (induction hs arbitrary: ok) (auto simp: see)
  have bad: "fold ?see hs (bad, False)
      = (if bad = None \<and> list_ex (ours ?n) hs then Some (no_binary b) else bad, False)"
    if "set hs \<subseteq> set (handlers items)" "\<not> exists b" for hs bad
    using that by (induction hs arbitrary: bad) (auto simp: see)
  have "list_ex (ours ?n) (handlers items)"
    using assms(1) by (auto simp: settled_def list_ex_iff)
  then show ?thesis
    using good [of "handlers items" False] bad [of "handlers items" None]
    by (auto simp: event_verdict_def named_state_def)
qed

lemma collect_Ok_all: "(\<And>x. x \<in> set xs \<Longrightarrow> f x = Ok (g x)) \<Longrightarrow> collect (map f xs) = Ok (map g xs)"
  by (induction xs) auto

lemma settled_inspect:
  assumes "root_settled a key b timeout root" and "ad_format a = JsonFormat key scope timeout"
    and "plain_path (ad_slug a) b"
  shows "inspect_json a root b exists = Ok (map (\<lambda>spec. (es_event spec, named_state b exists)) (ad_events a))"
proof -
  obtain box where box: "is_obj root" "hj_get root key = Some box" "is_obj box"
    "box_settled a b timeout (ad_events a) box"
    using assms(1) by (auto simp: root_settled_def)
  have "and_then (event_list (Some box) (es_event spec)) (\<lambda>items.
      Ok (es_event spec, event_verdict (ad_slug a) (es_activity spec) b exists items))
      = Ok (es_event spec, named_state b exists)"
    if "spec \<in> set (ad_events a)" for spec
    using that box(4) settled_verdict [where exists = exists, OF _ assms(3)]
    by (fastforce simp: box_settled_def event_list_def)
  then show ?thesis
    using assms(2) hook_container_obj [OF box(1-3)] by (simp add: inspect_json_def collect_Ok_all)
qed

text \<open>The state of a configuration all of whose events are as an install leaves them.\<close>

definition settled_state :: "adapter \<Rightarrow> string \<Rightarrow> (string \<Rightarrow> bool) \<Rightarrow> hook_state" where
  "settled_state a b exists =
     (if exists b then Installed
      else Outdated (case ad_format a of
          Plugin \<Rightarrow> no_binary b
        | JsonFormat _ _ _ \<Rightarrow> join_with '', '' (map es_event (ad_events a)) @ '': '' @ no_binary b))"

lemma complaints:
  "fold complain (map (\<lambda>spec. (es_event spec, EventOutdated why)) specs) [(why, events)]
     = [(why, events @ map es_event specs)]"
  by (induction specs arbitrary: events) (simp_all add: complain_def)

lemma summarize_settled:
  assumes "ad_events a \<noteq> []" and "ad_format a = JsonFormat key scope timeout"
  shows "summarize (map (\<lambda>spec. (es_event spec, named_state b exists)) (ad_events a)) = settled_state a b exists"
proof -
  let ?specs = "ad_events a"
  have missing: "filter (\<lambda>s. snd s = EventMissing) (map (\<lambda>spec. (es_event spec, named_state b exists)) specs) = []" for specs
    by (induction specs) (auto simp: named_state_def)
  have "fold complain (map (\<lambda>spec. (es_event spec, EventOk)) specs) [] = []" for specs
    by (induction specs) (auto simp: complain_def)
  moreover obtain x xs where "?specs = x # xs"
    using assms(1) by (cases ?specs) simp
  then have "fold complain (map (\<lambda>spec. (es_event spec, EventOutdated why)) ?specs) [] = [(why, map es_event ?specs)]" for why
    using complaints [of why xs "[es_event x]"] by (simp add: complain_def)
  ultimately show ?thesis
    using assms missing [of ?specs]
    by (cases "exists b") (simp_all add: summarize_def settled_state_def named_state_def)
qed

section \<open>Installing\<close>

text \<open>The configuration file after an edit.\<close>

definition after :: "string option \<Rightarrow> edit \<Rightarrow> string option" where
  "after existing e = (case e of Unchanged \<Rightarrow> existing | Write text \<Rightarrow> Some text | Delete \<Rightarrow> None)"

text \<open>A configuration whose file is within the reader's limit.\<close>

definition readable_size :: "string option \<Rightarrow> bool" where
  "readable_size text \<longleftrightarrow> (\<forall>t. text = Some t \<longrightarrow> length t \<le> MAX_BYTES)"

definition valid_text :: "string option \<Rightarrow> bool" where
  "valid_text text \<longleftrightarrow> (\<forall>t. text = Some t \<longrightarrow> from_utf8 t)"

lemma read_json_Ok: "read_json t = Ok root \<longleftrightarrow> hj_parse t = Ok root"
  by (auto simp: read_json_def map_err_def split: res.split)

lemma parse_good: "hj_parse t = Ok root \<Longrightarrow> from_utf8 t \<Longrightarrow> good 0 root"
  using document_good(1) [of t root]
  by (auto simp: hj_parse_def parse_limited_def split: res.split_asm if_split_asm)

lemma parse_pretty: "good 0 root \<Longrightarrow> length (pretty root) \<le> MAX_BYTES \<Longrightarrow> hj_parse (pretty root) = Ok root"
  by (simp add: hj_parse_def parse_limited_document pretty_document)

text \<open>What a JSON install leaves: the merged configuration, in the file.\<close>

lemma install_json:
  assumes "hook_install a existing b = Ok e" and "ad_format a = JsonFormat key scope timeout"
    and "adapter_ok a key" and "from_utf8 b" and "valid_text existing" and "readable_size (after existing e)"
  obtains t root' where "after existing e = Some t" "hj_parse t = Ok root'"
    "root_settled a key b timeout root'" "scope = WholeFile \<Longrightarrow> merge a (Obj []) b = Ok root'"
proof -
  obtain parsed root root' where p: "read_existing existing = Ok parsed"
    and r: "root = (case (parsed, scope) of (Some r, Shared) \<Rightarrow> r | (Some r, OwnKey) \<Rightarrow> r | _ \<Rightarrow> Obj [])"
    and m: "merge a root b = Ok root'"
    and e: "e = (if parsed = Some root' then Unchanged else Write (pretty root'))"
    using assms(1,2) by (auto simp: hook_install_def and_then_eq_Ok Let_def split: if_split_asm)
  have "good 0 r" if "parsed = Some r" for r
    using p that assms(5) parse_good
    by (auto simp: read_existing_def and_then_eq_Ok read_json_Ok valid_text_def split: option.split_asm)
  moreover have "good 0 (Obj [])"
    by (simp add: good_scalar MAX_DEPTH_def)
  ultimately have "good 0 root"
    unfolding r by (auto split: option.split scope.split)
  then have g: "good 0 root'"
    using good_merge [OF m assms(2,3)] assms(4) by blast
  have s: "root_settled a key b timeout root'"
    by (rule merge_settled [OF m assms(2,3)])
  have w: "merge a (Obj []) b = Ok root'" if "scope = WholeFile"
    using m that unfolding r by (cases parsed) auto
  show thesis
  proof (cases "parsed = Some root'")
    case True
    then obtain t where "existing = Some t" "hj_parse t = Ok root'"
      using p by (auto simp: read_existing_def and_then_eq_Ok read_json_Ok split: option.split_asm)
    then show thesis
      using that [of t root'] s w True e by (simp add: after_def)
  next
    case False
    then have "after existing e = Some (pretty root')"
      by (simp add: e after_def)
    moreover from this have "hj_parse (pretty root') = Ok root'"
      using parse_pretty [OF g] assms(6) by (simp add: readable_size_def)
    ultimately show thesis
      using that s w by blast
  qed
qed

lemma install_settled:
  assumes "a \<in> set ADAPTERS" and "from_utf8 b" and "valid_text existing"
    and "hook_install a existing b = Ok e" and "readable_size (after existing e)"
  shows "hook_install a (after existing e) b = Ok Unchanged
    \<and> (plain_path (ad_slug a) b \<longrightarrow>
      hook_classify a (after existing e) b exists = Ok (settled_state a b exists))"
proof (cases "ad_format a")
  case Plugin
  then have "after existing e = Some (plugin_source b)"
    using assms(4)
    by (auto simp: hook_install_def after_def Let_def split: option.split_asm if_split_asm)
  then show ?thesis
    using Plugin by (simp add: hook_install_def hook_classify_def settled_state_def no_binary_def)
next
  case (JsonFormat key scope timeout)
  note ok = table_ok [OF assms(1) JsonFormat]
  obtain t root' where r: "after existing e = Some t" "hj_parse t = Ok root'"
    "root_settled a key b timeout root'" "scope = WholeFile \<Longrightarrow> merge a (Obj []) b = Ok root'"
    by (rule install_json [OF assms(4) JsonFormat ok assms(2,3,5)], rule that)
  have "hook_install a (Some t) b = Ok Unchanged"
    using r(2,4) merge_stable [OF r(3) JsonFormat] JsonFormat
    by (cases scope) (simp_all add: hook_install_def read_existing_def read_json_def map_err_def)
  moreover have "hook_classify a (Some t) b exists = Ok (settled_state a b exists)" if "plain_path (ad_slug a) b"
  proof -
    have "inspect_json a root' b exists = Ok (map (\<lambda>spec. (es_event spec, named_state b exists)) (ad_events a))"
      using settled_inspect [where exists = exists, OF r(3) JsonFormat that] .
    then show ?thesis
      using r(2) ok JsonFormat summarize_settled [OF _ JsonFormat]
      by (simp add: hook_classify_def classify_json_def adapter_ok_def)
  qed
  ultimately show ?thesis
    using r(1) by simp
qed

text \<open>
  C14. Installing settles. For every agent of the table, whatever UTF-8 text its configuration holds:
  when an install succeeds and what it leaves is within the reader's size limit, a second install
  changes nothing. And when the program's path does not itself contain the text that marks our
  commands, the configuration is then classified as installed if the program exists, and otherwise
  as outdated, in every event, with the message that the program does not exist.
\<close>

theorem install_settles:
  assumes "a \<in> set ADAPTERS" and "from_utf8 b" and "valid_text existing"
    and "hook_install a existing b = Ok e" and "readable_size (after existing e)"
  shows "hook_install a (after existing e) b = Ok Unchanged
    \<and> (plain_path (ad_slug a) b \<longrightarrow>
      hook_classify a (after existing e) b exists = Ok (settled_state a b exists))"
  using install_settled [OF assms] .

text \<open>The Gemini configuration of a user with a setting of their own.\<close>

definition gemini :: adapter where
  "gemini = ADAPTERS ! 3"

definition sample_binary :: string where
  "sample_binary = ''/opt/it'' @ [CHR 0x27] @ ''s/cyd-host''"

lemmas gemini_unfold = gemini_def ADAPTERS_def group_event_def flat_event_def ad_slug_def

lemma sample_parse: "hj_parse ''{\"x\":1}'' = Ok (Obj [(''x'', Num ''1'')])"
  by (simp add: hj_parse_def parse_limited_def hj_document_def hj_value.simps hj_fields.simps hj_key_def
      hj_next_def hj_scalar_def hj_number_def hj_minus_def hj_int_def hj_fraction_def hj_exponent_def
      hj_digits_def hj_string.simps skip_char is_json_ws_def strip_prefix_def is_ascii_digit_def
      char_len_def cont_byte_def byte_def MAX_DEPTH_def MAX_BYTES_def hj_skip_ws_def)

lemma sample_merge:
  "\<exists>v. merge gemini (Obj [(''x'', Num ''1'')]) sample_binary = Ok v \<and> length (pretty v) \<le> MAX_BYTES"
  by (simp add: merge_def gemini_unfold hook_container_def hj_get_def hj_set_def merge_event_def merge_list_def
      handlers_def new_entry_def command_line_def quote_path_def sample_binary_def strip_prefix_def
      pretty_def write_string_def write_char_def hj_indent_def byte_def MAX_BYTES_def)

lemma install_settles_witness:
  "\<exists>t. hook_install gemini (Some ''{\"x\":1}'') sample_binary = Ok (Write t)
     \<and> hook_install gemini (Some t) sample_binary = Ok Unchanged
     \<and> hook_classify gemini (Some t) sample_binary (\<lambda>p. p = sample_binary) = Ok Installed
     \<and> (\<exists>why. hook_classify gemini (Some t) sample_binary (\<lambda>p. False) = Ok (Outdated why))"
proof -
  obtain v where v: "merge gemini (Obj [(''x'', Num ''1'')]) sample_binary = Ok v" "length (pretty v) \<le> MAX_BYTES"
    using sample_merge by blast
  moreover have fmt: "ad_format gemini = JsonFormat ''cyd-activity'' OwnKey None"
    by (simp add: gemini_unfold)
  moreover have "v \<noteq> Obj [(''x'', Num ''1'')]"
    using merge_settled [OF v(1) fmt] table_ok [OF _ fmt] 
    by (auto simp: root_settled_def hj_get_def gemini_def ADAPTERS_def)
  ultimately have e: "hook_install gemini (Some ''{\"x\":1}'') sample_binary = Ok (Write (pretty v))"
    by (simp add: hook_install_def read_existing_def read_json_def map_err_def sample_parse)
  have "gemini \<in> set ADAPTERS"
    by (simp add: gemini_def ADAPTERS_def)
  moreover have "from_utf8 sample_binary" "valid_text (Some ''{\"x\":1}'')"
    by (simp_all add: sample_binary_def valid_text_def from_utf8_def byte_def)
  moreover have "readable_size (after (Some ''{\"x\":1}'') (Write (pretty v)))"
    using v(2) by (simp add: readable_size_def after_def)
  moreover have "plain_path (ad_slug gemini) sample_binary"
    by (simp add: plain_path_def contains_def marker_def gemini_unfold sample_binary_def strip_prefix_def)
  ultimately show ?thesis
    using e install_settles [OF _ _ _ e, of "\<lambda>p. p = sample_binary"] install_settles [OF _ _ _ e, of "\<lambda>p. False"]
    by (auto simp: after_def settled_state_def)
qed

end
