(* ===== verification/Hook_Remove.thy ===== *)
theory Hook_Remove
  imports Hook_Install
begin

text \<open>
  What belongs to others. Installing and removing change only our handlers: the other settings of a
  configuration, the other events and the other handlers of our events are what they were, in their
  order; and after a removal no handler of ours is left.
\<close>

section \<open>Stripping\<close>

lemma hj_set_set: "hj_set (hj_set v key x) key y = hj_set v key y"
proof -
  have "set_field key y (set_field key x flds) = set_field key y flds" for flds
    by (induction flds) auto
  then show ?thesis
    by (simp add: hj_set_def split: hjson.split)
qed

definition inner_list :: "hjson \<Rightarrow> hjson list option" where
  "inner_list item = (case hj_get item ''hooks'' of Some (Arr inner) \<Rightarrow> Some inner | _ \<Rightarrow> None)"

lemma inner_list_Some: "inner_list item = Some inner \<longleftrightarrow> hj_get item ''hooks'' = Some (Arr inner)"
  by (auto simp: inner_list_def split: option.split hjson.split)

text \<open>The three kinds of item: a handler, a group with a list, anything else.\<close>

lemma item_cases [case_names Handler Group Other]:
  obtains "handler_command item \<noteq> None"
  | inner where "handler_command item = None" "inner_list item = Some inner"
  | "handler_command item = None" "inner_list item = None"
  by (cases "inner_list item") auto

lemma strip_handler:
  "handler_command item \<noteq> None \<Longrightarrow> strip_item n item = (if ours n item then (None, True) else (Some item, False))"
  by (simp add: strip_item_def)

lemma strip_group:
  assumes "handler_command item = None" and "inner_list item = Some inner"
  shows "strip_item n item =
    (let kept = filter (\<lambda>h. \<not> ours n h) inner in
     if length kept \<noteq> length inner then (if kept = [] then None else Some (hj_set item ''hooks'' (Arr kept)), True)
     else (Some item, False))"
  using assms by (simp add: strip_item_def inner_list_Some)

lemma strip_other:
  "handler_command item = None \<Longrightarrow> inner_list item = None \<Longrightarrow> strip_item n item = (Some item, False)"
  by (auto simp: strip_item_def inner_list_def split: option.split hjson.split)

lemma group_set:
  assumes "handler_command item = None" and "inner_list item = Some inner"
  shows "handler_command (hj_set item ''hooks'' (Arr kept)) = None"
    and "inner_list (hj_set item ''hooks'' (Arr kept)) = Some kept"
proof -
  obtain flds where "item = Obj flds"
    using assms(2) hj_get_Some unfolding inner_list_Some by blast
  then show "handler_command (hj_set item ''hooks'' (Arr kept)) = None"
    "inner_list (hj_set item ''hooks'' (Arr kept)) = Some kept"
    using assms by (simp_all add: handler_command_set inner_list_Some)
qed

lemma filter_full: "length (filter P xs) = length xs \<longleftrightarrow> filter P xs = xs"
  by (metis filter_True length_filter_less not_less_iff_gr_or_eq)

lemma item_handlers_inner:
  "handler_command item = None \<Longrightarrow>
     item_handlers item = (case inner_list item of None \<Rightarrow> [] | Some inner \<Rightarrow> filter (\<lambda>h. handler_command h \<noteq> None) inner)"
  by (auto simp: item_handlers_def inner_list_def split: option.split hjson.split)

text \<open>Stripping a stripped item changes nothing, and finds nothing of ours.\<close>

lemma strip_item_again:
  assumes "fst (strip_item n item) = Some item'"
  shows "strip_item n item' = (Some item', False)"
    and "\<forall>h \<in> set (item_handlers item'). \<not> ours n h"
proof -
  have "strip_item n item' = (Some item', False) \<and> (\<forall>h \<in> set (item_handlers item'). \<not> ours n h)"
  proof (cases item rule: item_cases)
    case Handler
    then show ?thesis
      using assms by (auto simp: strip_handler item_handlers_def split: if_split_asm)
  next
    case (Group inner)
    let ?kept = "filter (\<lambda>h. \<not> ours n h) inner"
    have item': "item' = (if length ?kept \<noteq> length inner then hj_set item ''hooks'' (Arr ?kept) else item)"
      using assms strip_group [OF Group, of n] by (auto simp: Let_def split: if_split_asm)
    have g: "handler_command item' = None" "inner_list item' = Some ?kept"
      using group_set [OF Group, of ?kept] Group item' by (auto simp: filter_full)
    then show ?thesis
      using strip_group [OF g, of n] by (auto simp: item_handlers_inner)
  next
    case Other
    then show ?thesis
      using assms strip_other [OF Other, of n] by (auto simp: item_handlers_inner)
  qed
  then show "strip_item n item' = (Some item', False)" "\<forall>h \<in> set (item_handlers item'). \<not> ours n h"
    by auto
qed

lemma strip_item_untouched: "\<not> snd (strip_item n item) \<Longrightarrow> strip_item n item = (Some item, False)"
  by (cases item rule: item_cases) (auto simp: strip_handler strip_group strip_other Let_def split: if_split_asm)

section \<open>Merging leaves the others\<close>

lemma strip_repointed:
  assumes "\<And>h. ours n (f h) = ours n h" and "\<And>h. \<not> ours n h \<Longrightarrow> f h = h"
    and "\<And>h. handler_command (f h) = None \<longleftrightarrow> handler_command h = None"
  shows "fst (strip_item n (map_item f item)) = fst (strip_item n item)"
proof (cases item rule: item_cases)
  case Handler
  then show ?thesis
    using assms by (auto simp: map_item_def strip_handler)
next
  case (Group inner)
  let ?g = "\<lambda>h. if handler_command h \<noteq> None then f h else h"
  define inner' where "inner' = map ?g inner"
  have m: "map_item f item = hj_set item ''hooks'' (Arr inner')"
    using Group by (simp add: map_item_def inner_list_Some inner'_def)
  have o: "ours n (?g h) = ours n h" for h
    using assms(1) by simp
  have k: "filter (\<lambda>h. \<not> ours n h) inner' = filter (\<lambda>h. \<not> ours n h) inner"
    unfolding inner'_def using o assms(2) by (induction inner) auto
  have l: "length inner' = length inner"
    by (simp add: inner'_def)
  note g = group_set [OF Group, of inner']
  show ?thesis
  proof (cases "filter (\<lambda>h. \<not> ours n h) inner = inner")
    case True
    then have "?g h = h" if "h \<in> set inner" for h
      using that assms(2) by (metis filter_id_conv)
    then have "map_item f item = item"
      using Group m by (simp add: inner'_def map_idI hj_set_same inner_list_Some)
    then show ?thesis by simp
  next
    case False
    then have "length (filter (\<lambda>h. \<not> ours n h) inner) \<noteq> length inner"
      by (simp add: filter_full)
    then show ?thesis
      unfolding m strip_group [OF Group, of n] strip_group [OF g, of n] k l
      by (simp add: Let_def hj_set_set)
  qed
next
  case Other
  then have "map_item f item = item"
    by (auto simp: map_item_def inner_list_def split: option.split_asm hjson.split_asm option.split)
  then show ?thesis by simp
qed

lemma strip_new_entry: "fst (strip_item (ad_slug a) (new_entry a spec b t)) = None"
proof -
  let ?h = "our_handler a spec b t"
  have h: "fst (strip_item (ad_slug a) ?h) = None"
    by (simp add: strip_handler our_handler_command our_handler_ours)
  let ?g = "Obj ((case es_matcher spec of None \<Rightarrow> [] | Some m \<Rightarrow> [(''matcher'', Str m)]) @ [(''hooks'', Arr [?h])])"
  have "handler_command ?g = None" "inner_list ?g = Some [?h]"
    by (simp_all add: handler_command_def inner_list_Some hj_get_def split: option.split)
  from strip_group [OF this, of "ad_slug a"] have "fst (strip_item (ad_slug a) ?g) = None"
    by (simp add: our_handler_ours)
  then show ?thesis
    using h by (simp add: new_entry_eq split: hook_shape.split)
qed

lemma map_filter_Cons: "List.map_filter f (x # xs) = (case f x of None \<Rightarrow> [] | Some y \<Rightarrow> [y]) @ List.map_filter f xs"
  by (cases "f x") (simp_all add: List.map_filter_def)

lemma map_filter_append: "List.map_filter f (xs @ ys) = List.map_filter f xs @ List.map_filter f ys"
  by (simp add: List.map_filter_def)

lemma strip_merge_list:
  "fst (strip_ours (ad_slug a) (merge_list a spec b t items)) = fst (strip_ours (ad_slug a) items)"
proof -
  let ?n = "ad_slug a" and ?f = "repoint (ad_slug a) (command_line b (ad_slug a) (es_activity spec)) t"
  have s: "fst (strip_item ?n (map_item ?f item)) = fst (strip_item ?n item)" for item
    by (rule strip_repointed) (simp_all add: ours_repoint repoint_other repoint_handler)
  have "List.map_filter (\<lambda>item. fst (strip_item ?n item)) (map (map_item ?f) items)
      = List.map_filter (\<lambda>item. fst (strip_item ?n item)) items"
    by (simp add: List.map_filter_def filter_map comp_def s)
  then show ?thesis
    by (simp add: strip_ours_def merge_list_def Let_def map_filter_append map_filter_Cons strip_new_entry
        List.map_filter_def)
qed

section \<open>What belongs to others\<close>

text \<open>An event's value without our handlers, an absent event being an empty list, and the other settings.\<close>

definition event_view :: "string \<Rightarrow> hjson \<Rightarrow> hjson" where
  "event_view n v = (case v of Arr items \<Rightarrow> Arr (fst (strip_ours n items)) | _ \<Rightarrow> v)"

definition theirs :: "string \<Rightarrow> hjson option \<Rightarrow> string \<Rightarrow> hjson" where
  "theirs n box event =
     (case box of None \<Rightarrow> Arr []
      | Some b \<Rightarrow> (case hj_get b event of None \<Rightarrow> Arr [] | Some v \<Rightarrow> event_view n v))"

definition other_settings :: "string \<Rightarrow> hjson \<Rightarrow> (string \<times> hjson) list" where
  "other_settings key root = (case root of Obj flds \<Rightarrow> filter (\<lambda>f. fst f \<noteq> key) flds | _ \<Rightarrow> [])"

lemma other_settings_set: "other_settings key (hj_set root key v) = other_settings key root"
  by (simp add: other_settings_def hj_set_def filter_set_field split: hjson.split)

lemma other_settings_remove: "other_settings key (fst (hj_remove root key)) = other_settings key root"
  by (simp add: other_settings_def hj_remove_def Let_def split: hjson.split)

lemma event_view_Arr [simp]: "event_view n (Arr items) = Arr (fst (strip_ours n items))"
  by (simp add: event_view_def)

lemma strip_ours_Nil [simp]: "strip_ours n [] = ([], False)"
  by (simp add: strip_ours_def List.map_filter_def)

subsection \<open>Installing\<close>

lemma theirs_merge_event:
  assumes "merge_event a b t box spec = Ok box'" and "is_obj box"
  shows "theirs (ad_slug a) (Some box') e = theirs (ad_slug a) (Some box) e"
proof (cases "e = es_event spec")
  case True
  obtain items where i: "hj_get box (es_event spec) = Some (Arr items) \<or> hj_get box (es_event spec) = None \<and> items = []"
    "hj_get box' (es_event spec) = Some (Arr (merge_list a spec b t items))"
    using merge_event_Ok(1) [OF assms] by blast
  then show ?thesis
    using True by (auto simp: theirs_def strip_merge_list)
next
  case False
  then show ?thesis
    using merge_event_Ok(2) [OF assms False] by (simp add: theirs_def)
qed

lemma theirs_merge_events:
  "merge_events a b t specs box = Ok box' \<Longrightarrow> is_obj box \<Longrightarrow>
     theirs (ad_slug a) (Some box') e = theirs (ad_slug a) (Some box) e"
proof (induction specs arbitrary: box)
  case (Cons spec specs)
  then obtain c where c: "merge_event a b t box spec = Ok c" "merge_events a b t specs c = Ok box'"
    by (auto simp: and_then_eq_Ok)
  show ?case
    using Cons.IH [OF c(2)] merge_event_Ok(3) [OF c(1)] theirs_merge_event [OF c(1)] Cons.prems(2) by simp
qed simp

lemma merge_leaves_others:
  assumes "merge a root b = Ok root'" and "ad_format a = JsonFormat key scope t"
  shows "other_settings key root' = other_settings key root"
    and "theirs (ad_slug a) (hj_get root' key) e = theirs (ad_slug a) (hj_get root key) e"
proof -
  obtain root1 box box' where r: "is_obj root" "is_obj root1" "is_obj box"
    "hj_get root key = None \<and> root1 = hj_set root key (Obj []) \<and> box = Obj []
      \<or> hj_get root key = Some box \<and> root1 = root"
    "hj_get root1 key = Some box" "merge_events a b t (ad_events a) box = Ok box'"
    "root' = hj_set root1 key box'"
    by (rule merge_parts [OF assms])
  show "other_settings key root' = other_settings key root"
    using r(4,7) by (auto simp: other_settings_set)
  have "theirs (ad_slug a) (Some (Obj [])) e = theirs (ad_slug a) None e"
    by (simp add: theirs_def hj_get_def)
  then show "theirs (ad_slug a) (hj_get root' key) e = theirs (ad_slug a) (hj_get root key) e"
    using theirs_merge_events [OF r(6,3)] r by (auto simp: get_set_obj)
qed

subsection \<open>Removing\<close>

lemma strip_ours_again:
  "strip_ours n (fst (strip_ours n items)) = (fst (strip_ours n items), False)"
  "\<forall>h \<in> set (handlers (fst (strip_ours n items))). \<not> ours n h"
proof -
  have s: "strip_item n x = (Some x, False)" "\<forall>h \<in> set (item_handlers x). \<not> ours n h"
    if x: "x \<in> set (fst (strip_ours n items))" for x
  proof -
    obtain item where "fst (strip_item n item) = Some x"
      using x unfolding strip_ours_def List.map_filter_def by auto
    then show "strip_item n x = (Some x, False)" "\<forall>h \<in> set (item_handlers x). \<not> ours n h"
      using strip_item_again by blast+
  qed
  let ?kept = "fst (strip_ours n items)"
  have "filter (\<lambda>item. fst (strip_item n item) \<noteq> None) ?kept = ?kept"
    "map (the \<circ> (\<lambda>item. fst (strip_item n item))) ?kept = ?kept"
    using s(1) by (auto simp: filter_id_conv intro: map_idI)
  then have "List.map_filter (\<lambda>item. fst (strip_item n item)) ?kept = ?kept"
    by (simp only: List.map_filter_def)
  moreover have "\<not> list_ex (\<lambda>item. snd (strip_item n item)) ?kept"
    using s(1) by (auto simp: list_ex_iff)
  ultimately show "strip_ours n ?kept = (?kept, False)"
    unfolding strip_ours_def [of n ?kept] by simp
  show "\<forall>h \<in> set (handlers ?kept). \<not> ours n h"
    using s(2) by (auto simp: handlers_def)
qed

lemma strip_ours_untouched:
  assumes "\<not> snd (strip_ours n items)"
  shows "fst (strip_ours n items) = items"
proof -
  have "strip_item n item = (Some item, False)" if "item \<in> set items" for item
    using assms that strip_item_untouched by (auto simp: strip_ours_def list_ex_iff)
  then have "List.map_filter (\<lambda>item. fst (strip_item n item)) items = items"
    by (induction items) (auto simp: map_filter_Cons List.map_filter_def)
  then show ?thesis
    by (simp add: strip_ours_def)
qed

text \<open>A stripped field: gone when its list came out empty, else its view.\<close>

lemma strip_field_fst:
  "fst (strip_field n f) = (if snd (strip_field n f) \<and> event_view n (snd f) = Arr [] then None
     else Some (fst f, event_view n (snd f)))"
  using strip_ours_untouched [of n] by (cases "snd f"; cases f) (auto simp: strip_field_def event_view_def split: prod.splits)

lemma event_view_again [simp]: "event_view n (event_view n v) = event_view n v"
  by (cases v) (simp_all add: event_view_def strip_ours_again(1))

text \<open>What a field of that key is after the stripping, the keys being distinct.\<close>

lemma find_strip:
  assumes "distinct (map fst flds)"
  shows "find (\<lambda>f. fst f = e) (List.map_filter (\<lambda>f. fst (strip_field n f)) flds) =
    (case find (\<lambda>f. fst f = e) flds of None \<Rightarrow> None | Some f \<Rightarrow> fst (strip_field n f))"
  using assms
proof (induction flds)
  case Nil
  show ?case by (simp add: List.map_filter_def)
next
  case (Cons f flds)
  have none: "find (\<lambda>f. fst f = e) flds = None" if "fst f = e"
    using Cons.prems that unfolding find_None_iff
    by (metis distinct.simps(2) imageI list.simps(9) list.set_map)
  show ?case
    using Cons none by (auto simp: map_filter_Cons strip_field_fst)
qed

lemma theirs_strip_fields:
  assumes "distinct (map fst flds)"
  shows "theirs n (Some (Obj (fst (strip_fields n flds)))) e = theirs n (Some (Obj flds)) e"
  using find_strip [OF assms, of e n]
  by (auto simp: theirs_def hj_get_def strip_fields_def strip_field_fst split: option.split)

subsection \<open>The whole configuration\<close>

definition stripped :: "string \<Rightarrow> hjson option \<Rightarrow> bool" where
  "stripped n box \<longleftrightarrow> (\<forall>b e v. box = Some b \<longrightarrow> hj_get b e = Some v \<longrightarrow> event_view n v = v)"

lemma hj_get_find: "hj_get (Obj flds) e = map_option snd (find (\<lambda>f. fst f = e) flds)"
  by (simp add: hj_get_def)

lemma stripped_fields:
  assumes "distinct (map fst flds)"
  shows "stripped n (Some (Obj (fst (strip_fields n flds))))"
  using find_strip [OF assms, of _ n]
  by (auto simp: stripped_def hj_get_find strip_fields_def strip_field_fst split: option.split_asm if_split_asm)

lemma strip_fields_untouched:
  assumes "\<not> snd (strip_fields n flds)"
  shows "fst (strip_fields n flds) = flds"
proof -
  have "fst (strip_field n f) = Some f" if "f \<in> set flds" for f
  proof -
    have "\<not> snd (strip_field n f)"
      using assms that by (auto simp: strip_fields_def list_ex_iff)
    moreover from this have "event_view n (snd f) = snd f"
      by (cases "snd f") (simp_all add: strip_field_def event_view_def case_prod_beta strip_ours_untouched)
    ultimately show ?thesis
      by (simp add: strip_field_fst)
  qed
  then have "List.map_filter (\<lambda>f. fst (strip_field n f)) flds = flds"
    by (induction flds) (auto simp: map_filter_Cons List.map_filter_def)
  then show ?thesis
    by (simp add: strip_fields_def)
qed

lemma stripped_untouched:
  assumes "stripped n (Some (Obj flds))" and "distinct (map fst flds)"
  shows "\<not> snd (strip_fields n flds)"
proof -
  have "\<not> snd (strip_field n f)" if f: "f \<in> set flds" for f
  proof -
    obtain e v where e: "f = (e, v)"
      by (cases f)
    have "find (\<lambda>f. fst f = e) flds = Some (e, v)"
      using f assms(2) unfolding e by (induction flds) (auto simp: image_iff)
    then have "event_view n v = v"
      using assms(1) by (auto simp: stripped_def hj_get_find)
    then show ?thesis
      unfolding e using strip_ours_again(1) [of n]
      by (cases v) (auto simp: strip_field_def event_view_def split: prod.splits, metis snd_conv fst_conv)
  qed
  then show ?thesis
    by (auto simp: strip_fields_def list_ex_iff)
qed

lemma good_strip_fields:
  assumes "good d (Obj flds)"
  shows "good d (Obj (fst (strip_fields n flds)))"
proof -
  note d = good_depth [OF assms]
  have item: "good e item'" if "good e item" "fst (strip_item n item) = Some item'" for e item item'
  proof (cases item rule: item_cases)
    case (Group inner)
    obtain fs where i: "item = Obj fs" "hj_get item ''hooks'' = Some (Arr inner)"
      using Group(2) hj_get_Some unfolding inner_list_Some by blast
    let ?kept = "filter (\<lambda>h. \<not> ours n h) inner"
    have "good (Suc e) (Arr ?kept)"
      using good_get [OF that(1) i(2)] good_depth [of "Suc e" "Arr inner"] by (auto simp: good_scalar)
    then have "good e (hj_set item ''hooks'' (Arr ?kept))"
      using that(1) unfolding i(1) by (intro good_Obj_set) (auto simp: from_utf8_lit byte_def)
    then show ?thesis
      using that strip_group [OF Group, of n] by (auto simp: Let_def split: if_split_asm)
  qed (use that in \<open>auto simp: strip_handler strip_other split: if_split_asm\<close>)
  have view: "good e (event_view n v)" if "good e v" for e v
  proof (cases v)
    case (Arr items)
    then show ?thesis
      using that item good_depth [OF that]
      by (fastforce simp: good_scalar strip_ours_def List.map_filter_def)
  qed (use that in \<open>simp_all add: event_view_def\<close>)
  have "map fst (fst (strip_fields n flds)) = map fst (filter (\<lambda>f. fst (strip_field n f) \<noteq> None) flds)"
    by (induction flds) (auto simp: strip_fields_def map_filter_Cons strip_field_fst List.map_filter_def)
  then have "distinct (map fst (fst (strip_fields n flds)))"
    using assms by (simp add: good_scalar [OF d] distinct_map inj_on_def)
  moreover have "from_utf8 (fst f) \<and> good (Suc d) (snd f)" if f: "f \<in> set (fst (strip_fields n flds))" for f
  proof -
    obtain g where "g \<in> set flds" "f = (fst g, event_view n (snd g))"
      using f by (auto simp: strip_fields_def List.map_filter_def strip_field_fst split: if_split_asm)
    then show ?thesis
      using assms view by (auto simp: good_scalar [OF d])
  qed
  ultimately show ?thesis
    by (simp add: good_scalar [OF d])
qed

lemma remove_set: "fst (hj_remove (hj_set v key x) key) = fst (hj_remove v key)"
  by (simp add: hj_remove_def hj_set_def Let_def filter_set_field split: hjson.split)

lemma remove_shared_facts:
  assumes "good 0 root" and "hook_container root key = Ok c" and "remove_shared n key root = (root', removed)"
    and "from_utf8 key"
  shows "other_settings key root' = other_settings key root"
    and "theirs n (hj_get root' key) e = theirs n c e"
    and "stripped n (hj_get root' key)"
    and "\<not> removed \<longrightarrow> root' = root"
    and "good 0 root'" and "is_obj root'" and "\<forall>box. hj_get root' key = Some box \<longrightarrow> is_obj box"
proof -
  note k = hook_container_Ok [OF assms(2)]
  obtain rf where rf: "root = Obj rf"
    using k by (auto simp: is_obj_def)
  have "other_settings key root' = other_settings key root \<and> theirs n (hj_get root' key) e = theirs n c e
    \<and> stripped n (hj_get root' key) \<and> (\<not> removed \<longrightarrow> root' = root) \<and> good 0 root' \<and> is_obj root'
    \<and> (\<forall>box. hj_get root' key = Some box \<longrightarrow> is_obj box)"
  proof (cases c)
    case None
    then show ?thesis
      using k assms by (simp add: remove_shared_def stripped_def)
  next
    case (Some box)
    then obtain flds where b: "hj_get root key = Some (Obj flds)" "box = Obj flds"
      using k by (auto simp: is_obj_def)
    have g: "good (Suc 0) (Obj flds)"
      using good_get assms(1) b(1) by blast
    then have d: "distinct (map fst flds)"
      using good_depth [OF g] by (simp add: good_scalar)
    let ?kept = "fst (strip_fields n flds)"
    have r: "removed = snd (strip_fields n flds)"
      "root' = (if removed \<and> ?kept = [] then fst (hj_remove root key) else hj_set root key (Obj ?kept))"
      using assms(3) b(1) by (auto simp: remove_shared_def Let_def remove_set split: prod.split_asm if_split_asm)
    have gone: "hj_get (fst (hj_remove root key)) key = None" "good 0 (fst (hj_remove root key))"
      using assms(1) unfolding rf
      by (auto simp: hj_remove_def Let_def hj_get_find find_None_iff good_scalar MAX_DEPTH_def
          distinct_map inj_on_def)
    have keep: "good 0 (hj_set root key (Obj ?kept))"
      using assms(1,4) good_strip_fields [OF g] unfolding rf by (intro good_Obj_set) simp_all
    have t: "theirs n (Some (Obj ?kept)) e = theirs n c e"
      using theirs_strip_fields [OF d] Some b(2) by simp
    show ?thesis
    proof (cases "removed \<and> ?kept = []")
      case True
      then have "theirs n None e = theirs n c e"
        using t by (simp add: theirs_def hj_get_def)
      then show ?thesis
        using True r gone by (simp add: other_settings_def stripped_def rf hj_remove_def Let_def)
    next
      case False
      then have "root' = hj_set root key (Obj ?kept)"
        using r(2) by argo
      moreover have "\<not> removed \<longrightarrow> hj_set root key (Obj ?kept) = root"
        using r(1) strip_fields_untouched [of n flds] b(1) by (simp add: hj_set_same)
      ultimately show ?thesis
        using k keep t stripped_fields [OF d] by (simp add: other_settings_set get_set_obj)
    qed
  qed
  then show "other_settings key root' = other_settings key root" "theirs n (hj_get root' key) e = theirs n c e"
    "stripped n (hj_get root' key)" "\<not> removed \<longrightarrow> root' = root"
    "good 0 root'" "is_obj root'" "\<forall>box. hj_get root' key = Some box \<longrightarrow> is_obj box"
    by blast+
qed

end
