(* ===== verification/Hook_Edits.thy ===== *)
theory Hook_Edits
  imports Hook_Remove
begin

text \<open>
  The two edits of a configuration file as a user sees them: whatever is installed or removed, what
  belongs to others stays, and a removal leaves nothing of ours.
\<close>

section \<open>Removing from a file\<close>

text \<open>What a file's text says after an edit; a deleted file says nothing.\<close>

definition says :: "string option \<Rightarrow> hjson \<Rightarrow> bool" where
  "says t root \<longleftrightarrow> (case t of None \<Rightarrow> root = Obj [] | Some t \<Rightarrow> hj_parse t = Ok root)"

lemma hj_remove_facts:
  assumes "good 0 root" and "is_obj root" and "hj_remove root key = (root', removed)"
  shows "hj_get root' key = None" and "good 0 root'" and "is_obj root'" and "\<not> removed \<longrightarrow> root' = root"
    and "other_settings key root' = other_settings key root"
proof -
  obtain flds where r: "root = Obj flds"
    using assms(2) by (auto simp: is_obj_def)
  have e: "root' = Obj (filter (\<lambda>f. fst f \<noteq> key) flds)"
    "removed = (length (filter (\<lambda>f. fst f \<noteq> key) flds) \<noteq> length flds)"
    using assms(3) by (auto simp: r hj_remove_def Let_def)
  show "hj_get root' key = None" "is_obj root'" "other_settings key root' = other_settings key root"
    by (auto simp: e r hj_get_find find_None_iff other_settings_def)
  show "\<not> removed \<longrightarrow> root' = root"
    by (simp add: e r filter_full)
  show "good 0 root'"
    using assms(1) by (auto simp: e r good_scalar MAX_DEPTH_def distinct_map inj_on_def)
qed

text \<open>The configuration that a JSON removal leaves.\<close>

lemma remove_json:
  assumes "hook_remove a (Some t) = Ok e" and "ad_format a = JsonFormat key scope tm" and "scope \<noteq> WholeFile"
    and "adapter_ok a key" and "from_utf8 t" and "readable_size (after (Some t) e)"
  obtains root root' where "hj_parse t = Ok root" "hook_container root key = Ok (hj_get root key)"
    "says (after (Some t) e) root'"
    "good 0 root'" "is_obj root'" "\<forall>box. hj_get root' key = Some box \<longrightarrow> is_obj box"
    "stripped (ad_slug a) (hj_get root' key)"
    "other_settings key root' = other_settings key root"
    "scope = Shared \<Longrightarrow> \<forall>ev. theirs (ad_slug a) (hj_get root' key) ev = theirs (ad_slug a) (hj_get root key) ev"
    "scope = OwnKey \<Longrightarrow> hj_get root' key = None"
proof -
  obtain root c where p: "hj_parse t = Ok root" and c: "hook_container root key = Ok c"
    and e': "(let (root, removed) = (if scope = OwnKey then hj_remove root key
                                     else remove_shared (ad_slug a) key root)
              in if \<not> removed then Ok Unchanged
                 else if is_empty_object root then Ok Delete
                 else Ok (Write (pretty root))) = (Ok e :: (edit, config_error) res)"
    using assms(1-3) by (auto simp: hook_remove_def and_then_eq_Ok read_json_Ok)
  obtain root' removed where r: "(root', removed) = (if scope = OwnKey then hj_remove root key
                                     else remove_shared (ad_slug a) key root)"
    by (metis surj_pair)
  have e: "e = (if \<not> removed then Unchanged else if is_empty_object root' then Delete else Write (pretty root'))"
    using e' unfolding r [symmetric] by (simp split: if_split_asm)
  note k = hook_container_Ok [OF c]
  have g: "good 0 root"
    by (rule parse_good [OF p assms(5)])
  have key: "from_utf8 key"
    using assms(4) by (simp add: adapter_ok_def)
  have f: "good 0 root' \<and> is_obj root' \<and> (\<not> removed \<longrightarrow> root' = root)
      \<and> other_settings key root' = other_settings key root
      \<and> (\<forall>box. hj_get root' key = Some box \<longrightarrow> is_obj box) \<and> stripped (ad_slug a) (hj_get root' key)
      \<and> (scope = OwnKey \<longrightarrow> hj_get root' key = None)
      \<and> (scope = Shared \<longrightarrow> (\<forall>ev. theirs (ad_slug a) (hj_get root' key) ev = theirs (ad_slug a) (hj_get root key) ev))"
  proof (cases "scope = OwnKey")
    case True
    then show ?thesis
      using hj_remove_facts [OF g, of key root' removed] k r by (simp add: stripped_def)
  next
    case False
    then have s: "scope = Shared" "remove_shared (ad_slug a) key root = (root', removed)"
      using assms(3) r by (cases scope; simp)+
    show ?thesis
      using remove_shared_facts [OF g c s(2) key] s(1) k by simp
  qed
  have "says (after (Some t) e) root'"
  proof (cases "removed \<and> \<not> is_empty_object root'")
    case True
    then have "after (Some t) e = Some (pretty root')"
      by (simp add: e after_def)
    then show ?thesis
      using parse_pretty [of root'] f assms(6) by (simp add: says_def readable_size_def)
  next
    case False
    then show ?thesis
      using f p by (auto simp: says_def e after_def is_empty_object_def)
  qed
  then show thesis
    using that [OF p, of root'] f c k by simp
qed

text \<open>
  C13. What belongs to others is never touched. For every agent whose configuration is shared with
  others, whatever UTF-8 text it holds, an install or a removal that succeeds leaves the other
  top-level settings as they were, in their order; in a shared file it also leaves every event's
  value as it was, except for our own handlers and groups emptied by their removal.
\<close>

theorem others_are_untouched:
  assumes "a \<in> set ADAPTERS" and "ad_format a = JsonFormat key scope tm" and "scope \<noteq> WholeFile"
    and "from_utf8 b" and "from_utf8 t"
    and "hook_install a (Some t) b = Ok e \<or> hook_remove a (Some t) = Ok e"
    and "readable_size (after (Some t) e)"
  shows "\<exists>root root'. hj_parse t = Ok root \<and> says (after (Some t) e) root'
    \<and> other_settings key root' = other_settings key root
    \<and> (scope = Shared \<longrightarrow> (\<forall>event. theirs (ad_slug a) (hj_get root' key) event
                                   = theirs (ad_slug a) (hj_get root key) event))"
  using assms(6)
proof
  note ok = table_ok [OF assms(1,2)]
  assume "hook_remove a (Some t) = Ok e"
  from remove_json [OF this assms(2,3) ok assms(5,7)] show ?thesis
    by metis
next
  note ok = table_ok [OF assms(1,2)]
  assume i: "hook_install a (Some t) b = Ok e"
  then obtain root where p: "hj_parse t = Ok root" and i': "and_then (merge a root b)
      (\<lambda>root'. if Some root = Some root' then Ok Unchanged else Ok (Write (pretty root'))) = Ok e"
    using assms(2,3)
    by (cases scope) (auto simp: hook_install_def read_existing_def read_json_Ok and_then_eq_Ok)
  then obtain root' where m: "merge a root b = Ok root'"
    and e: "e = (if root = root' then Unchanged else Write (pretty root'))"
    by (cases "merge a root b") (auto split: if_split_asm)
  have "good 0 root'"
    using good_merge [OF m assms(2) ok parse_good [OF p assms(5)] assms(4)] .
  then have "says (after (Some t) e) root'"
    using p parse_pretty assms(7) by (auto simp: e says_def after_def readable_size_def)
  then show ?thesis
    using p merge_leaves_others [OF m assms(2)] by blast
qed

section \<open>Nothing of ours is left\<close>

lemma stripped_list:
  assumes "stripped n box" and "event_list box ev = Ok items"
  shows "\<forall>h \<in> set (handlers items). \<not> ours n h"
proof (cases "items = []")
  case False
  then obtain bx where "box = Some bx" "hj_get bx ev = Some (Arr items)"
    using assms(2) by (auto simp: event_list_def split: option.split_asm hjson.split_asm)
  then have "event_view n (Arr items) = Arr items"
    using assms(1) unfolding stripped_def by blast
  then have "fst (strip_ours n items) = items"
    by simp
  then show ?thesis
    using strip_ours_again(2) [of n items] by simp
qed (simp add: handlers_def)

lemma missing_verdict:
  assumes "\<forall>h \<in> set (handlers items). \<not> ours n h"
  shows "event_verdict n act b exists items = EventMissing"
proof -
  have "see_handler n act b exists h s = s" if "h \<in> set (handlers items)" for h s
    using assms that handlers_are [OF that] by (cases s) (auto simp: see_handler_def ours_def)
  then have "fold (see_handler n act b exists) hs s = s" if "set hs \<subseteq> set (handlers items)" for hs s
    using that by (induction hs) auto
  then show ?thesis
    by (simp add: event_verdict_def)
qed

lemma event_list_Err: "event_list box ev = Err x \<Longrightarrow> x = EventNotList ev"
  by (auto simp: event_list_def split: option.split_asm hjson.split_asm)

lemma event_list_total: "event_list box ev \<noteq> Panic"
  by (auto simp: event_list_def split: option.split hjson.split)

text \<open>An event whose value is no list is one in the other's view too.\<close>

lemma event_list_theirs:
  assumes "theirs n box ev = theirs n box' ev"
  shows "(event_list box ev = Err (EventNotList ev)) = (event_list box' ev = Err (EventNotList ev))"
proof -
  have "(event_list box ev = Err (EventNotList ev)) = (\<nexists>items. theirs n box ev = Arr items)" for box
    by (auto simp: event_list_def theirs_def event_view_def split: option.split hjson.split)
  then show ?thesis
    using assms by simp
qed

lemma collect_first_error:
  assumes "collect (map f xs) = Err e" and "\<And>x y. x \<in> set xs \<Longrightarrow> f x = Err y \<Longrightarrow> g x = Err y"
    and "\<And>x y. x \<in> set xs \<Longrightarrow> f x = Ok y \<Longrightarrow> is_ok (g x)"
  shows "collect (map g xs) = Err e"
  using assms
proof (induction xs)
  case (Cons x xs)
  show ?case
  proof (cases "f x")
    case (Ok y)
    then have "collect (map f xs) = Err e"
      using Cons.prems(1) by (auto simp: and_then_eq_Err)
    moreover obtain z where "g x = Ok z"
      using Cons.prems(3) [of x] Ok by (auto simp: is_ok_iff)
    ultimately show ?thesis
      using Cons by simp
  next
    case (Err y)
    then show ?thesis
      using Cons.prems(1) Cons.prems(2) [of x y] by simp
  qed (use Cons.prems(1) in simp)
qed simp

lemma collect_all_Ok: "(\<And>x. x \<in> set xs \<Longrightarrow> is_ok (f x)) \<Longrightarrow> \<exists>ys. collect (map f xs) = Ok ys"
proof (induction xs)
  case (Cons x xs)
  then obtain y ys where "f x = Ok y" "collect (map f xs) = Ok ys"
    by (fastforce simp: is_ok_iff)
  then show ?case by simp
qed simp

lemma summarize_missing: "\<forall>s \<in> set states. snd s = EventMissing \<Longrightarrow> summarize states = NotInstalled"
proof -
  assume "\<forall>s \<in> set states. snd s = EventMissing"
  then have "filter (\<lambda>s. snd s = EventMissing) states = states"
    by simp
  then show ?thesis
    by (simp add: summarize_def)
qed

lemma collect_in: "collect (map f xs) = Ok ys \<Longrightarrow> \<forall>y \<in> set ys. \<exists>x \<in> set xs. f x = Ok y"
  by (induction xs arbitrary: ys) (fastforce simp: and_then_eq_Ok)+

text \<open>The inspection of an event, as \<open>inspect_json\<close> does it.\<close>

definition inspect_event ::
    "adapter \<Rightarrow> hjson option \<Rightarrow> string \<Rightarrow> (string \<Rightarrow> bool) \<Rightarrow> event_spec \<Rightarrow> (string \<times> event_state, config_error) res" where
  "inspect_event a box b exists spec =
     and_then (event_list box (es_event spec)) (\<lambda>items.
     Ok (es_event spec, event_verdict (ad_slug a) (es_activity spec) b exists items))"

lemma inspect_json_events:
  assumes "ad_format a = JsonFormat key scope tm" and "hook_container root key = Ok box"
  shows "inspect_json a root b exists = collect (map (inspect_event a box b exists) (ad_events a))"
  using assms by (simp add: inspect_json_def inspect_event_def [abs_def])

lemma inspect_event_cases:
  "inspect_event a box b exists spec = Err (EventNotList (es_event spec)) \<and>
     event_list box (es_event spec) = Err (EventNotList (es_event spec))
   \<or> (\<exists>items. event_list box (es_event spec) = Ok items \<and> inspect_event a box b exists spec =
        Ok (es_event spec, event_verdict (ad_slug a) (es_activity spec) b exists items))"
  using event_list_Err event_list_total
  by (cases "event_list box (es_event spec)") (fastforce simp: inspect_event_def)+

lemma stripped_missing:
  assumes "stripped (ad_slug a) box" and "inspect_event a box b exists spec = Ok s"
  shows "snd s = EventMissing"
  using assms missing_verdict stripped_list [OF assms(1)]
  by (fastforce simp: inspect_event_def and_then_eq_Ok)

text \<open>
  A stripped configuration is classified as not installed, unless an event's value is no list; then
  so is the one it came from.
\<close>

lemma stripped_classified:
  assumes "ad_format a = JsonFormat key scope tm"
    and "hook_container root key = Ok box" and "hook_container root' key = Ok box'"
    and "stripped (ad_slug a) box'"
    and "box' = None \<or> (\<forall>ev. theirs (ad_slug a) box' ev = theirs (ad_slug a) box ev)"
  shows "(\<exists>states. inspect_json a root' b exists = Ok states \<and> summarize states = NotInstalled)
    \<or> (\<exists>ev. inspect_json a root' b exists = Err (EventNotList ev) \<and> inspect_json a root b exists = Err (EventNotList ev))"
proof (cases "\<forall>spec \<in> set (ad_events a). is_ok (inspect_event a box' b exists spec)")
  case True
  then obtain states where s: "collect (map (inspect_event a box' b exists) (ad_events a)) = Ok states"
    using collect_all_Ok [of "ad_events a" "inspect_event a box' b exists"] by auto
  then have "\<forall>s \<in> set states. snd s = EventMissing"
    using collect_in [OF s] stripped_missing [where exists = exists, OF assms(4)] by blast
  then show ?thesis
    using s inspect_json_events [OF assms(1,3)] summarize_missing by auto
next
  case False
  then have t: "theirs (ad_slug a) box' ev = theirs (ad_slug a) box ev" for ev
    using assms(5) by (auto simp: inspect_event_def event_list_def)
  have same: "inspect_event a box' b exists spec = Err (EventNotList (es_event spec)) \<longleftrightarrow>
      inspect_event a box b exists spec = Err (EventNotList (es_event spec))" for spec
    using inspect_event_cases [of a box' b exists spec] inspect_event_cases [of a box b exists spec]
      event_list_theirs [OF t, of "es_event spec"] by auto
  obtain e where e: "collect (map (inspect_event a box' b exists) (ad_events a)) = Err e"
    and not_list: "\<exists>ev. e = EventNotList ev"
  proof -
    have "\<exists>ev. collect (map (inspect_event a box' b exists) specs) = Err (EventNotList ev)"
      if "\<exists>spec \<in> set specs. \<not> is_ok (inspect_event a box' b exists spec)" for specs
      using that
    proof (induction specs)
      case (Cons spec specs)
      show ?case
      proof (cases "is_ok (inspect_event a box' b exists spec)")
        case True
        then obtain s where "inspect_event a box' b exists spec = Ok s"
          by (auto simp: is_ok_iff)
        moreover obtain ev where "collect (map (inspect_event a box' b exists) specs) = Err (EventNotList ev)"
          using Cons True by auto
        ultimately show ?thesis by simp
      next
        case False
        then show ?thesis
          using inspect_event_cases [of a box' b exists spec] by auto
      qed
    qed simp
    then show thesis
      using False that by blast
  qed
  have "collect (map (inspect_event a box b exists) (ad_events a)) = Err e"
  proof (rule collect_first_error [OF e])
    fix spec y
    show "inspect_event a box' b exists spec = Err y \<Longrightarrow> inspect_event a box b exists spec = Err y"
      using same [of spec] inspect_event_cases [of a box' b exists spec] by auto
    show "inspect_event a box' b exists spec = Ok y \<Longrightarrow> is_ok (inspect_event a box b exists spec)" for y
      using same [of spec] inspect_event_cases [of a box b exists spec] by (auto simp: is_ok_iff)
  qed
  then show ?thesis
    using e not_list inspect_json_events [OF assms(1,3)] inspect_json_events [OF assms(1,2)] by auto
qed

lemma remove_again:
  assumes "hj_parse t = Ok root" and "ad_format a = JsonFormat key scope tm" and "scope \<noteq> WholeFile"
    and "good 0 root" and "hook_container root key = Ok (hj_get root key)"
    and "stripped (ad_slug a) (hj_get root key)" and "scope = OwnKey \<Longrightarrow> hj_get root key = None"
  shows "hook_remove a (Some t) = Ok Unchanged"
proof -
  note k = hook_container_Ok [OF assms(5)]
  have "\<not> snd (if scope = OwnKey then hj_remove root key else remove_shared (ad_slug a) key root)"
  proof (cases "hj_get root key")
    case None
    then show ?thesis
      using k by (auto simp: is_obj_def hj_remove_def remove_shared_def Let_def hj_get_find find_None_iff
          filter_full filter_id_conv)
  next
    case (Some box)
    then obtain flds where b: "box = Obj flds" "scope \<noteq> OwnKey"
      using k assms(7) by (auto simp: is_obj_def)
    have "distinct (map fst flds)"
      using good_get [OF assms(4) Some] good_depth b(1) by (fastforce simp: good_scalar)
    then have "\<not> snd (strip_fields (ad_slug a) flds)"
      using stripped_untouched assms(6) Some b(1) by auto
    then show ?thesis
      using Some b by (simp add: remove_shared_def case_prod_beta Let_def)
  qed
  then show ?thesis
    using assms(1-3,5)
    by (simp add: hook_remove_def read_json_def map_err_def case_prod_beta split: if_split_asm)
qed

text \<open>
  C15. A removal is complete. For every agent, whatever UTF-8 text its configuration holds: after a
  removal that succeeds, a second one changes nothing and the hooks are classified as not installed;
  the one exception is a configuration that was unreadable before for an event whose value is no
  list, and is unreadable for the same event afterwards.
\<close>

theorem removal_is_complete:
  assumes "a \<in> set ADAPTERS" and "valid_text existing"
    and "hook_remove a existing = Ok e" and "readable_size (after existing e)"
  shows "hook_remove a (after existing e) = Ok Unchanged
    \<and> (hook_classify a (after existing e) b exists = Ok NotInstalled
       \<or> (\<exists>event. hook_classify a (after existing e) b exists = Ok (Unreadable (EventNotList event))
                 \<and> hook_classify a existing b exists = Ok (Unreadable (EventNotList event))))"
proof (cases "after existing e")
  case None
  then show ?thesis
    by (simp add: hook_remove_def hook_classify_def)
next
  case t': (Some t')
  then obtain t key scope tm where t: "existing = Some t" "from_utf8 t" and f: "ad_format a = JsonFormat key scope tm"
    and w: "scope \<noteq> WholeFile"
    using assms(2,3)
    by (cases existing; cases "ad_format a")
      (auto simp: hook_remove_def after_def valid_text_def split: if_split_asm)
  have e: "hook_remove a (Some t) = Ok e" "readable_size (after (Some t) e)"
    using assms(3,4) t by simp_all
  obtain root root' where r: "hj_parse t = Ok root" "hook_container root key = Ok (hj_get root key)"
    "says (after (Some t) e) root'"
    "good 0 root'" "is_obj root'" "\<forall>box. hj_get root' key = Some box \<longrightarrow> is_obj box"
    "stripped (ad_slug a) (hj_get root' key)"
    "scope = Shared \<Longrightarrow> \<forall>ev. theirs (ad_slug a) (hj_get root' key) ev = theirs (ad_slug a) (hj_get root key) ev"
    "scope = OwnKey \<Longrightarrow> hj_get root' key = None"
    using remove_json [OF e(1) f w table_ok [OF assms(1) f] t(2) e(2)] by metis
  have p: "hj_parse t' = Ok root'"
    using r(3) t' t(1) by (simp add: says_def)
  have c: "hook_container root' key = Ok (hj_get root' key)"
    using r(5,6) by (cases "hj_get root' key") (auto simp: hook_container_def is_obj_def)
  have "hj_get root' key = None \<or> (\<forall>ev. theirs (ad_slug a) (hj_get root' key) ev = theirs (ad_slug a) (hj_get root key) ev)"
    using r(8,9) w by (cases scope) auto
  from stripped_classified [where exists = exists and b = b, OF f r(2) c r(7) this] show ?thesis
    using remove_again [OF p f w r(4) c r(7,9)] t' t(1) f p r(1)
    by (auto simp: hook_classify_def classify_json_def)
qed

section \<open>Concrete configurations\<close>

text \<open>A Claude configuration with a setting, a foreign hook and one of ours for another program.\<close>

definition claude :: adapter where
  "claude = ADAPTERS ! 1"

definition shared_config :: hjson where
  "shared_config = Obj [(''model'', Str ''opus''),
     (''hooks'', Obj [(''Stop'', Arr [
        Obj [(''hooks'', Arr [Obj [(''command'', Str ''say done'')],
                              Obj [(''command'', Str ''/old/cyd agent-event claude idle'')]])],
        Obj [(''command'', Str ''/old/cyd agent-event claude idle'')]])])]"

definition stripped_config :: hjson where
  "stripped_config = Obj [(''model'', Str ''opus''),
     (''hooks'', Obj [(''Stop'', Arr [Obj [(''hooks'', Arr [Obj [(''command'', Str ''say done'')]])]])])]"

lemma config_texts:
  "from_utf8 (pretty shared_config)" "length (pretty shared_config) \<le> MAX_BYTES"
  "length (pretty stripped_config) \<le> MAX_BYTES"
  by (simp_all add: shared_config_def stripped_config_def pretty_def write_string_def write_char_def hj_indent_def
      byte_def MAX_BYTES_def from_utf8_def)

lemma good_shared_config: "good 0 shared_config"
  by (simp add: good_def shared_config_def MAX_DEPTH_def from_utf8_def byte_def numeral_eq_Suc)

lemma shared_config_read: "hj_parse (pretty shared_config) = Ok shared_config"
  by (rule parse_pretty [OF good_shared_config config_texts(2)])

lemmas hook_eval = hj_get_def hj_set_def handler_command_def as_str_def ours_def is_ours_def contains_def marker_def
  strip_prefix_def strip_ours_def strip_item_def strip_field_def strip_fields_def List.map_filter_def Let_def

lemma claude_remove: "hook_remove claude (Some (pretty shared_config)) = Ok (Write (pretty stripped_config))"
proof -
  have f: "ad_format claude = JsonFormat ''hooks'' Shared (Some 5)" "ad_slug claude = ''claude''"
    by (simp_all add: claude_def ADAPTERS_def ad_slug_def)
  have "hook_container shared_config ''hooks'' = Ok (hj_get shared_config ''hooks'')"
    by (simp add: hook_container_def shared_config_def hj_get_def)
  moreover have "remove_shared ''claude'' ''hooks'' shared_config = (stripped_config, True)"
    by (simp add: remove_shared_def shared_config_def stripped_config_def hook_eval)
  moreover have "\<not> is_empty_object stripped_config"
    by (simp add: is_empty_object_def stripped_config_def)
  ultimately show ?thesis
    by (simp add: hook_remove_def f read_json_def map_err_def shared_config_read)
qed

lemma claude_in_table: "claude \<in> set ADAPTERS" and claude_format: "ad_format claude = JsonFormat ''hooks'' Shared (Some 5)"
  by (simp_all add: claude_def ADAPTERS_def)

lemma claude_after: "readable_size (after (Some (pretty shared_config)) (Write (pretty stripped_config)))"
  by (simp add: readable_size_def after_def config_texts)

lemma others_are_untouched_witness:
  "\<exists>root'. hj_parse (pretty stripped_config) = Ok root'
     \<and> other_settings ''hooks'' root' = [(''model'', Str ''opus'')]
     \<and> theirs (ad_slug claude) (hj_get root' ''hooks'') ''Stop''
       = Arr [Obj [(''hooks'', Arr [Obj [(''command'', Str ''say done'')]])]]"
proof -
  have n: "ad_slug claude = ''claude''"
    by (simp add: claude_def ADAPTERS_def ad_slug_def)
  have "other_settings ''hooks'' shared_config = [(''model'', Str ''opus'')]"
    by (simp add: other_settings_def shared_config_def)
  moreover have "theirs ''claude'' (hj_get shared_config ''hooks'') ''Stop''
      = Arr [Obj [(''hooks'', Arr [Obj [(''command'', Str ''say done'')]])]]"
    by (simp add: theirs_def event_view_def shared_config_def hook_eval)
  ultimately show ?thesis
    using others_are_untouched [OF claude_in_table claude_format _ from_utf8_Nil config_texts(1)
        disjI2 [OF claude_remove] claude_after] shared_config_read
    by (auto simp: says_def after_def n)
qed

lemma removal_is_complete_witness:
  "hook_remove claude (Some (pretty stripped_config)) = Ok Unchanged
   \<and> (hook_classify claude (Some (pretty stripped_config)) [] (\<lambda>_. True) = Ok NotInstalled
      \<or> (\<exists>event. hook_classify claude (Some (pretty stripped_config)) [] (\<lambda>_. True) = Ok (Unreadable (EventNotList event))))"
  using removal_is_complete [OF claude_in_table _ claude_remove claude_after, of "[]" "\<lambda>_. True"] config_texts(1)
  by (auto simp: valid_text_def after_def)

end
