(* ===== verification/Hook_Output.thy ===== *)
theory Hook_Output
  imports Hook_Install
begin

text \<open>
  What the hook commands write is text: the JSON of a well-formed value and the plugin of a program's
  path are UTF-8, and compact JSON is one line.
\<close>

section \<open>JSON\<close>

lemma ascii_utf8: "list_all (\<lambda>c. byte c < 128) s \<Longrightarrow> from_utf8 s"
  using from_utf8_drop_ascii [of s "[]"] by simp

lemma hex_lower_ascii: "n < 16 \<Longrightarrow> 0x20 \<le> byte (hex_lower n) \<and> byte (hex_lower n) < 128"
  by (auto simp: hex_lower_def byte_char_of)

lemma write_char_ascii: "byte c < 128 \<Longrightarrow> list_all (\<lambda>c. 0x20 \<le> byte c \<and> byte c < 128) (write_char c)"
  using hex_lower_ascii by (auto simp: write_char_def byte_def)

lemma write_char_plain: "list_all (\<lambda>c. 0x20 \<le> byte c) (write_char c)"
proof (cases "byte c < 128")
  case True
  then show ?thesis using write_char_ascii [OF True] by (auto simp: list_all_iff)
next
  case False
  then show ?thesis by (simp add: write_char_high)
qed

lemma written_chars_utf8:
  assumes "from_utf8 t"
  shows "from_utf8 (concat (map write_char t))"
  using assms
proof (induction t rule: utf8_induct)
  case (Char c r)
  let ?n = "char_len c - 1"
  have split: "concat (map write_char (c # r)) = concat (map write_char (c # take ?n r)) @ concat (map write_char (drop ?n r))"
    by (metis append_Cons append_take_drop_id concat_append map_append)
  have first: "from_utf8 (concat (map write_char (c # take ?n r)))"
  proof (cases "byte c < 128")
    case True
    then have "?n = 0" by (simp add: char_len_def)
    then show ?thesis
      using write_char_ascii [OF True] by (auto intro!: ascii_utf8 simp: list_all_iff)
  next
    case False
    then have q: "map write_char (c # take ?n r) = map (\<lambda>x. [x]) (c # take ?n r)"
      using utf8_first(5) [OF Char.hyps] write_char_high by auto
    have "concat (map write_char (c # take ?n r)) = c # take ?n r"
      unfolding q by (simp add: concat_map_singleton)
    then show ?thesis using utf8_first(3) [OF Char.hyps] by simp
  qed
  show ?case
    unfolding split by (simp only: from_utf8_append [OF first] Char.IH)
qed simp

lemma write_string_utf8: "from_utf8 t \<Longrightarrow> from_utf8 (write_string t)"
  using written_chars_utf8 [of t] by (simp add: write_string_def from_utf8_append byte_def)

abbreviation printable :: "char \<Rightarrow> bool" where
  "printable c \<equiv> 0x20 \<le> byte c \<and> byte c < 128"

lemma printable_utf8: "list_all printable s \<Longrightarrow> from_utf8 s"
  by (rule ascii_utf8) (auto simp: list_all_iff)

lemma digits_printable: "digits s \<Longrightarrow> list_all printable s"
  by (auto simp: digits_def is_ascii_digit_def list_all_iff)

lemma number_printable:
  assumes "number_text t"
  shows "list_all printable t"
proof -
  obtain m i f e where t: "t = m @ i @ f @ e" and m: "m = [] \<or> m = ''-''"
    and p: "int_text i" "fraction_text f" "exponent_text e"
    using assms by (auto simp: number_text_def)
  have "list_all printable m" "list_all printable i"
    using m p(1) digits_printable by (auto simp: int_text_def byte_def)
  moreover have "list_all printable f"
    using p(2) digits_printable [of "tl f"] by (cases f) (auto simp: fraction_text_def byte_def)
  moreover have "list_all printable e"
    using p(3) digits_printable [of "tl e"] digits_printable [of "tl (tl e)"]
    by (cases e; cases "tl e") (auto simp: exponent_text_def byte_def)
  ultimately show ?thesis by (simp add: t)
qed

lemma indent_printable: "list_all printable (hj_indent d)"
  by (auto simp: hj_indent_def list_all_iff byte_def)

lemma rows_utf8: "list_all from_utf8 rows \<Longrightarrow> from_utf8 (hj_rows d rows)"
  by (induction d rows rule: hj_rows.induct)
    (auto simp: from_utf8_append printable_utf8 [OF indent_printable] byte_def)

lemma write_value_utf8: "json_ok v \<Longrightarrow> from_utf8 (write_value v d)"
proof (induction v d rule: write_value.induct)
  case (5 items d)
  then have "list_all from_utf8 (map (\<lambda>item. write_value item (d + 1)) items)"
    by (cases items) (auto simp: list_all_iff)
  then show ?case
    using rows_utf8 [of "map (\<lambda>item. write_value item (d + 1)) items" "d + 1"]
    by (simp add: from_utf8_append printable_utf8 [OF indent_printable] byte_def)
next
  case (6 flds d)
  let ?rows = "map (\<lambda>f. write_string (fst f) @ '': '' @ write_value (snd f) (d + 1)) flds"
  have "list_all from_utf8 ?rows"
    using 6 by (cases flds) (auto simp: list_all_iff from_utf8_append write_string_utf8 byte_def)
  then show ?case
    using rows_utf8 [of ?rows "d + 1"]
    by (simp add: from_utf8_append printable_utf8 [OF indent_printable] byte_def)
qed (auto simp: byte_def write_string_utf8 intro: printable_utf8 number_printable)

lemma pretty_utf8: "good 0 v \<Longrightarrow> from_utf8 (pretty v)"
  by (simp add: pretty_def from_utf8_append write_value_utf8 good_def byte_def)

text \<open>Compact JSON has no control character, so no line break.\<close>

abbreviation plain_text :: "string \<Rightarrow> bool" where
  "plain_text s \<equiv> list_all (\<lambda>c. 0x20 \<le> byte c) s"

lemma write_string_plain: "plain_text (write_string t)"
  using write_char_plain by (induction t) (auto simp: write_string_def byte_def)

lemma commas_plain: "list_all plain_text ss \<Longrightarrow> plain_text (comma_list ss)"
  by (induction ss rule: comma_list.induct) (auto simp: byte_def)

lemma write_compact_plain: "json_ok v \<Longrightarrow> plain_text (write_compact v)"
proof (induction v rule: write_compact.induct)
  case (1 items)
  then show ?case
    using commas_plain [of "map write_compact items"] by (simp add: list_all_iff byte_def)
next
  case (2 flds)
  have "list_all plain_text (map (\<lambda>f. write_string (fst f) @ '':'' @ write_compact (snd f)) flds)"
    using 2 write_string_plain by (auto simp: list_all_iff byte_def)
  from commas_plain [OF this] show ?case by (simp add: byte_def)
qed (use number_printable write_string_plain in \<open>auto simp: byte_def list_all_iff\<close>)

section \<open>The plugin\<close>

lemma first_conts:
  assumes "from_utf8 (c # r)"
  shows "\<forall>d \<in> set (take (char_len c - 1) r). cont_byte (byte d)"
proof -
  consider "byte c < 128" | "194 \<le> byte c \<and> byte c < 224"
    | "224 \<le> byte c \<and> byte c < 240" | "240 \<le> byte c \<and> byte c < 245"
    using assms by (fastforce simp: from_utf8_def split: if_split_asm)
  then show ?thesis
  proof cases
    case 2
    then show ?thesis
      using assms by (cases r) (auto simp: from_utf8_def char_len_def split: if_split_asm)
  next
    case 3
    then show ?thesis
      using assms by (cases r; cases "tl r") (auto simp: from_utf8_def char_len_def cont_byte_def split: if_split_asm)
  next
    case 4
    then show ?thesis
      using assms
      by (cases r; cases "tl r"; cases "tl (tl r)") (auto simp: from_utf8_def char_len_def cont_byte_def split: if_split_asm)
  qed (simp add: char_len_def)
qed

lemma js_escape_copied:
  assumes "128 \<le> byte c" and "c \<noteq> CHR 0xE2"
  shows "js_escape (c # s) = c # js_escape s"
proof -
  have "c \<noteq> CHR 0x22" "c \<noteq> CHR 0x5C" "c \<noteq> CHR 0x7F" "\<not> byte c < 0x20"
    using assms by (auto simp: byte_def)
  then show ?thesis using assms(2) by (simp add: strip_prefix_def)
qed

lemma js_escape_conts: "\<forall>d \<in> set q. cont_byte (byte d) \<Longrightarrow> js_escape (q @ s) = q @ js_escape s"
proof (induction q)
  case (Cons c q)
  then have "128 \<le> byte c" "c \<noteq> CHR 0xE2" by (auto simp: cont_byte_def byte_def)
  from js_escape_copied [OF this] show ?case using Cons by simp
qed simp

lemma js_hex_printable: "n < 65536 \<Longrightarrow> list_all printable (js_hex n)"
  using hex_lower_ascii by (simp add: js_hex_def byte_def)

lemma js_escape_utf8: "from_utf8 s \<Longrightarrow> from_utf8 (js_escape s)"
proof (induction s rule: utf8_induct)
  case (Char c r)
  let ?n = "char_len c - 1"
  have hex: "from_utf8 (js_hex n @ t) = from_utf8 t" if "n < 65536" for n t
    by (rule from_utf8_append [OF printable_utf8 [OF js_hex_printable [OF that]]])
  show ?case
  proof (cases "byte c < 128")
    case True
    then have "?n = 0" "c \<noteq> CHR 0xE2" by (auto simp: char_len_def byte_def)
    then show ?thesis
      using Char.IH True hex [of "byte c"] by (auto simp: strip_prefix_def byte_def)
  next
    case False
    have whole: "from_utf8 (c # take ?n r @ t) = from_utf8 t" for t
      using from_utf8_append [OF utf8_first(3) [OF Char.hyps], of t] by simp
    show ?thesis
    proof (cases "c = CHR 0xE2 \<and> (\<exists>x r'. r = CHR 0x80 # x # r' \<and> x \<in> {CHR 0xA8, CHR 0xA9})")
      case True
      then obtain x r' where r: "c = CHR 0xE2" "r = CHR 0x80 # x # r'" "x \<in> {CHR 0xA8, CHR 0xA9}" by blast
      moreover have "?n = 2" using r by (simp add: char_len_def byte_def)
      ultimately show ?thesis
        using Char.IH hex [of "0x2028"] hex [of "0x2029"]
        by (auto simp: strip_prefix_def byte_def)
    next
      case not_line: False
      have "js_escape (c # r) = c # js_escape r"
      proof (cases "c = CHR 0xE2")
        case True
        have "strip_prefix [CHR 0xE2, CHR 0x80, CHR 0xA8] (c # r) = None"
          "strip_prefix [CHR 0xE2, CHR 0x80, CHR 0xA9] (c # r) = None"
          using not_line True
          by (cases "strip_prefix [CHR 0xE2, CHR 0x80, CHR 0xA8] (c # r)"; cases "strip_prefix [CHR 0xE2, CHR 0x80, CHR 0xA9] (c # r)";
              auto simp: strip_prefix_Some)+
        then show ?thesis using True by (simp add: byte_def)
      qed (use False js_escape_copied in simp)
      also have "\<dots> = c # take ?n r @ js_escape (drop ?n r)"
        using js_escape_conts [OF first_conts [OF Char.hyps], of "drop ?n r"] by simp
      finally show ?thesis using whole Char.IH by simp
    qed
  qed
qed simp

lemma replace_utf8:
  "from_utf8 to \<Longrightarrow> list_all (\<lambda>c. byte c < 128) s \<Longrightarrow> from_utf8 (replace_all pat to s)"
proof (induction pat to s rule: replace_all.induct)
  case (2 pat to c s)
  have "list_all (\<lambda>c. byte c < 128) (drop (length pat - 1) s)"
    using "2.prems"(2) by (auto simp: list_all_iff dest: in_set_dropD)
  then show ?case
    using 2 by (auto simp: from_utf8_append)
qed simp

lemma template_ascii: "list_all (\<lambda>c. byte c < 128) PLUGIN_TEMPLATE"
  unfolding PLUGIN_TEMPLATE_def TEMPLATE_LINES_def by (simp add: byte_def)

lemma plugin_utf8: "from_utf8 b \<Longrightarrow> from_utf8 (plugin_source b)"
  unfolding plugin_source_def by (rule replace_utf8 [OF js_escape_utf8 template_ascii])

lemma install_utf8:
  assumes "hook_install a existing b = Ok e" and "a \<in> set ADAPTERS" and "from_utf8 b" and "valid_text existing"
  shows "valid_text (after existing e)"
proof (cases "ad_format a")
  case Plugin
  then show ?thesis
    using assms plugin_utf8 [OF assms(3)]
    by (auto simp: hook_install_def after_def valid_text_def Let_def split: option.split_asm if_split_asm)
next
  case (JsonFormat key scope timeout)
  have ok: "adapter_ok a key" using table_ok [OF assms(2) JsonFormat] by simp
  obtain parsed root root' where p: "read_existing existing = Ok parsed"
    and r: "root = (case (parsed, scope) of (Some r, Shared) \<Rightarrow> r | (Some r, OwnKey) \<Rightarrow> r | _ \<Rightarrow> Obj [])"
    and m: "merge a root b = Ok root'"
    and e: "e = (if parsed = Some root' then Unchanged else Write (pretty root'))"
    using assms(1) JsonFormat by (auto simp: hook_install_def and_then_eq_Ok Let_def split: if_split_asm)
  have "good 0 r" if "parsed = Some r" for r
    using p that assms(4) parse_good
    by (auto simp: read_existing_def and_then_eq_Ok read_json_Ok valid_text_def split: option.split_asm)
  moreover have "good 0 (Obj [])"
    by (simp add: good_scalar MAX_DEPTH_def)
  ultimately have "good 0 root"
    unfolding r by (auto split: option.split scope.split)
  then have "from_utf8 (pretty root')"
    using good_merge [OF m JsonFormat ok] assms(3) pretty_utf8 by blast
  then show ?thesis using e assms(4) by (auto simp: after_def valid_text_def)
qed

end
