(* ===== verification/Hook_Commands_Correct.thy ===== *)
theory Hook_Commands_Correct
  imports Hook_Commands Hook_Files_Crash Hook_Edits Hook_Output
begin

text \<open>
  The \<open>hooks\<close> commands as a whole: what only looks changes nothing, only hooks of ours are ever
  trusted, an installation is all or nothing at every moment, and after one that succeeds the status
  says so.
\<close>

section \<open>Looking\<close>

text \<open>What an action leaves as it was, as a view of the world.\<close>

definition leaves :: "('w \<Rightarrow> 'v) \<Rightarrow> ('w \<Rightarrow> 'r \<times> 'w) \<Rightarrow> bool" where
  "leaves v m \<longleftrightarrow> (\<forall>w. v (snd (m w)) = v w)"

lemma leaves_pure [simp]: "leaves v (return x)" "leaves v (refuse e)" "leaves v abort"
  by (simp_all add: leaves_def return_def refuse_def abort_def)

lemma leaves_bind: "leaves v m \<Longrightarrow> (\<And>x. leaves v (f x)) \<Longrightarrow> leaves v (bind_act m f)"
  by (auto simp: leaves_def bind_act_def split: prod.split res.split) (metis snd_conv)+

lemma leaves_outcome: "leaves v m \<Longrightarrow> leaves v (outcome m)"
  by (auto simp: leaves_def outcome_def split: prod.split) (metis snd_conv)

lemma leaves_on_error: "leaves v m \<Longrightarrow> leaves v (on_error f m)"
  by (auto simp: leaves_def on_error_def split: prod.split) (metis snd_conv)

lemma leaves_if: "(b \<Longrightarrow> leaves v m) \<Longrightarrow> (\<not> b \<Longrightarrow> leaves v m') \<Longrightarrow> leaves v (if b then m else m')"
  by simp

lemma leaves_res:
  "(\<And>x. r = Ok x \<Longrightarrow> leaves v (f x)) \<Longrightarrow> (\<And>e. r = Err e \<Longrightarrow> leaves v (g e)) \<Longrightarrow> leaves v h
    \<Longrightarrow> leaves v (case r of Ok x \<Rightarrow> f x | Err e \<Rightarrow> g e | Panic \<Rightarrow> h)"
  by (cases r) auto

lemma leaves_io_error:
  "leaves v m \<Longrightarrow> leaves v a \<Longrightarrow> (\<And>n. leaves v (b n))
    \<Longrightarrow> leaves v (case e of NotFound \<Rightarrow> m | AlreadyExists \<Rightarrow> a | OtherIo n \<Rightarrow> b n)"
  by (cases e) auto

lemmas leaves_rules = leaves_pure leaves_bind leaves_outcome leaves_on_error leaves_if leaves_res leaves_io_error

text \<open>Everything but the calls the system has served.\<close>

definition standing :: "host \<Rightarrow> disk \<times> disk list \<times> (string \<times> string) list list" where
  "standing w = (wo_disk w, wo_past w, ho_granted w)"

lemma leaves_ask: "leaves standing (ask f)"
  by (auto simp: leaves_def ask_def sys_call_def Let_def nothing_def advance_def standing_def
      split: list.split fate.split)

lemma leaves_read_config: "leaves standing (read_config p)"
  unfolding read_config_def open_file_def read_all_def Let_def
  by (intro leaves_rules leaves_ask)

lemma leaves_judge_text: "leaves standing (judge_text cx a existing)"
  by (auto simp: leaves_def judge_text_def split: res.split)

lemma leaves_listed: "(\<And>r. leaves v (f r)) \<Longrightarrow> leaves v (listed cx f)"
  unfolding listed_def by (intro leaves_rules)

lemma leaves_installed: "leaves standing (agent_installed cx a)"
  unfolding agent_installed_def is_dir_def by (intro leaves_rules leaves_ask)

lemma leaves_status: "leaves standing (status_one cx a trust)"
  unfolding status_one_def read_state_def trust_line_def
  by (intro leaves_rules leaves_listed leaves_installed leaves_read_config leaves_judge_text)

lemma leaves_dry_trust: "leaves standing (with_trust cx a True trust ls)"
  unfolding with_trust_def by simp

lemma leaves_dry_install: "leaves standing (install_one cx a True trust)"
  unfolding install_one_def install_edit_def if_True
  by (intro leaves_rules leaves_installed leaves_read_config leaves_judge_text leaves_dry_trust)

lemma leaves_dry_remove: "leaves standing (remove_one cx a True)"
  unfolding remove_one_def remove_edit_def if_True
  by (intro leaves_rules leaves_installed leaves_read_config)

lemma leaves_execute: "(\<And>a. leaves v (run_one args cx a)) \<Longrightarrow> leaves v (execute_all args cx as)"
proof (induction as)
  case (Cons a as)
  show ?case
    unfolding execute_all.simps by (intro leaves_bind Cons leaves_pure)
qed simp

text \<open>
  A status and a dry run leave the disk as it is, at every moment, and grant no trust in Codex, for
  any agents and any pattern of failing calls.
\<close>

theorem looking_changes_nothing:
  assumes "ha_action args = StatusAction \<or> ha_dry_run args"
  shows "standing (snd (hooks_execute args cx w)) = standing w"
proof -
  have "leaves standing (run_one args cx a)" for a
    using assms leaves_status leaves_dry_install leaves_dry_remove
    by (cases "ha_action args") (auto simp: run_one_def)
  then show ?thesis
    using leaves_execute unfolding hooks_execute_def leaves_def by blast
qed

section \<open>Trust\<close>

definition adds :: "((string \<times> string) list \<Rightarrow> bool) \<Rightarrow> 'a command \<Rightarrow> bool" where
  "adds G m \<longleftrightarrow> (\<forall>w. \<exists>gs. ho_granted (snd (m w)) = ho_granted w @ gs \<and> (\<forall>g \<in> set gs. G g))"

lemma adds_leaves: "leaves ho_granted m \<Longrightarrow> adds G m"
  by (simp add: leaves_def adds_def)

lemma adds_bind:
  assumes "adds G m" and "\<And>x. adds G (f x)"
  shows "adds G (bind_act m f)"
  unfolding adds_def
proof
  fix w
  obtain r w1 where m: "m w = (r, w1)" by fastforce
  obtain gs where gs: "ho_granted w1 = ho_granted w @ gs" "\<forall>g \<in> set gs. G g"
    using assms(1) m unfolding adds_def by (metis snd_conv)
  show "\<exists>gs. ho_granted (snd (bind_act m f w)) = ho_granted w @ gs \<and> (\<forall>g \<in> set gs. G g)"
  proof (cases r)
    case (Ok x)
    then obtain gs' where "ho_granted (snd (f x w1)) = ho_granted w1 @ gs'" "\<forall>g \<in> set gs'. G g"
      using assms(2) unfolding adds_def by metis
    then show ?thesis
      using gs m Ok by (intro exI [of _ "gs @ gs'"]) (auto simp: bind_act_def)
  qed (use gs m in \<open>auto simp: bind_act_def\<close>)
qed

lemma adds_res:
  "(\<And>x. r = Ok x \<Longrightarrow> adds G (f x)) \<Longrightarrow> (\<And>e. r = Err e \<Longrightarrow> adds G (g e)) \<Longrightarrow> adds G h
    \<Longrightarrow> adds G (case r of Ok x \<Rightarrow> f x | Err e \<Rightarrow> g e | Panic \<Rightarrow> h)"
  by (cases r) auto

lemma adds_if: "(b \<Longrightarrow> adds G m) \<Longrightarrow> (\<not> b \<Longrightarrow> adds G m') \<Longrightarrow> adds G (if b then m else m')"
  by simp

text \<open>The file access grants nothing.\<close>

lemma leaves_sys_call [simp]: "leaves ho_granted (sys_call op part)"
  by (auto simp: leaves_def sys_call_def Let_def advance_def split: list.split fate.split prod.split)

lemma leaves_by_world: "(\<And>w. leaves v (m w)) \<Longrightarrow> leaves v (\<lambda>w. m w w)"
  by (simp add: leaves_def)

lemma leaves_calls [simp]:
  "leaves ho_granted (ask f)" "leaves ho_granted (create_new p mode)" "leaves ho_granted (create_truncate p mode)"
  "leaves ho_granted (write_all p t)" "leaves ho_granted (copy_all p q)" "leaves ho_granted (set_mode p mode)"
  "leaves ho_granted (sync_all p)" "leaves ho_granted (rename p q)" "leaves ho_granted (remove_file p)"
  "leaves ho_granted (mkdir p mode)"
  unfolding ask_def create_new_def [abs_def] create_truncate_def [abs_def] write_all_def copy_all_def set_mode_def
    sync_all_def rename_def remove_file_def mkdir_def [abs_def]
  by simp_all (rule leaves_by_world, rule leaves_sys_call)+

lemma leaves_is_dir [simp]: "leaves ho_granted (is_dir p)"
  unfolding is_dir_def by (intro leaves_rules leaves_calls)

lemma leaves_make_dirs: "leaves ho_granted (make_dirs mode rp :: (unit, io_error, \<lparr>ho_granted :: (string \<times> string) list list\<rparr>) act)"
proof (induction rp)
  case (Cons c up)
  show ?case
    unfolding make_dirs.simps if_dir_def by (intro leaves_rules leaves_calls leaves_is_dir Cons)
qed simp

lemma leaves_backup: "leaves ho_granted (backup_from p stamp attempts :: path command)"
proof (induction attempts)
  case (Cons n rest)
  show ?case
    unfolding backup_from.simps Let_def open_file_def source_mode_def handle_mode_def
    by (intro leaves_rules leaves_calls Cons)
qed simp

lemma leaves_edit:
  "leaves v m \<Longrightarrow> leaves v m' \<Longrightarrow> (\<And>t. leaves v (f t))
    \<Longrightarrow> leaves v (case e of Unchanged \<Rightarrow> m | Write t \<Rightarrow> f t | Delete \<Rightarrow> m')"
  by (cases e) auto

lemma leaves_node:
  "leaves v m \<Longrightarrow> leaves v m' \<Longrightarrow> leaves v (case x of File c m s \<Rightarrow> m' | Dir m \<Rightarrow> m' | Link t \<Rightarrow> m)"
  by (cases x) auto

lemma leaves_hook_apply: "leaves ho_granted (hook_apply pid p e config_dir stamp :: path option command)"
proof -
  have existing: "leaves ho_granted (back_up_existing q stamp x :: path option command)" for q x
    unfolding back_up_existing_def backup_def by (cases x) (auto intro!: leaves_rules leaves_backup)
  have real: "leaves ho_granted (real_path q)" for q
    unfolding real_path_def lstat_def canonicalize_def by (intro leaves_rules leaves_node leaves_calls)
  show ?thesis
    unfolding hook_apply_def replace_file_def stat_def delete_file_def ensure_dir_def write_atomic_def write_temp_def
    by (intro leaves_rules leaves_calls leaves_is_dir leaves_make_dirs leaves_edit existing real)
qed

lemma leaves_reading: "leaves ho_granted (read_config p)"
  unfolding read_config_def open_file_def read_all_def Let_def
  by (intro leaves_rules leaves_calls)

lemma leaves_judging: "leaves ho_granted (judge_text cx a existing)"
  by (auto simp: leaves_def judge_text_def split: res.split)

lemma leaves_finding: "leaves ho_granted (agent_installed cx a)"
  unfolding agent_installed_def by simp

text \<open>A hook of ours, as Codex lists it, that it would not run.\<close>

definition untrusted_of_ours :: "hook_context \<Rightarrow> string \<times> string \<Rightarrow> bool" where
  "untrusted_of_ours cx g \<longleftrightarrow>
     (\<exists>hooks h. cx_list cx = Ok hooks \<and> h \<in> set hooks \<and> ch_ours h \<and> ch_trust_status h \<in> {''untrusted'', ''modified''}
        \<and> ch_current_hash h \<noteq> [] \<and> g = (ch_key h, ch_current_hash h))"

abbreviation grants_ours :: "hook_context \<Rightarrow> (string \<times> string) list \<Rightarrow> bool" where
  "grants_ours cx g \<equiv> list_all (untrusted_of_ours cx) g"

lemma adds_grant: "adds (grants_ours cx) (grant_trust cx)"
proof -
  have granted: "adds (grants_ours cx) (record_grant (needs_grant hooks))" if "cx_list cx = Ok hooks" for hooks
    using that by (auto simp: adds_def record_grant_def list_all_iff needs_grant_def untrusted_of_ours_def)
  have pure: "adds (grants_ours cx) (return x)" "adds (grants_ours cx) abort" for x :: line
    by (simp_all add: adds_leaves)
  show ?thesis
    unfolding grant_trust_def listed_def Let_def
    by (intro adds_if adds_res adds_bind granted pure)
qed

lemma adds_install:
  assumes "\<And>ls. adds G (with_trust cx a dry_run trust ls)"
  shows "adds G (install_one cx a dry_run trust)"
proof -
  have pure: "adds G (return x)" "adds G abort" for x :: command_outcome
    by (simp_all add: adds_leaves)
  have applied: "adds G (outcome (hook_apply pid p e d s) :: ((path option, file_error) res) command)" for pid p e d s
    by (intro adds_leaves leaves_outcome leaves_hook_apply)
  show ?thesis
    unfolding install_one_def install_edit_def
    by (intro adds_if adds_res adds_bind assms pure applied adds_leaves [OF leaves_finding]
        adds_leaves [OF leaves_judging] adds_leaves [OF leaves_outcome [OF leaves_reading]])
qed

lemma adds_execute: "(\<And>a. a \<in> set as \<Longrightarrow> adds G (run_one args cx a)) \<Longrightarrow> adds G (execute_all args cx as)"
proof (induction as)
  case (Cons a as)
  show ?case
    unfolding execute_all.simps by (intro adds_bind Cons adds_leaves leaves_pure) (auto intro: Cons.prems)
qed (simp add: adds_leaves)

text \<open>The command asks Codex to trust hooks.\<close>

definition trusting :: "hook_args \<Rightarrow> bool" where
  "trusting args \<longleftrightarrow> ha_action args = InstallAction \<and> ha_trust args \<and> \<not> ha_dry_run args
     \<and> (\<exists>a \<in> set (ha_adapters args). ad_agent a = Codex)"

text \<open>
  C19. Trust in Codex is recorded only by an installation with that option and not as a dry run, and only
  for hooks that Codex lists as ours and would not run, with the hash it lists for them.
\<close>

theorem only_our_hooks_are_trusted:
  "\<exists>grants. ho_granted (snd (hooks_execute args cx w)) = ho_granted w @ grants
     \<and> (grants \<noteq> [] \<longrightarrow> trusting args)
     \<and> (\<forall>g \<in> set grants. \<forall>h \<in> set g. untrusted_of_ours cx h)"
proof -
  let ?G = "\<lambda>g. trusting args \<and> grants_ours cx g"
  have "adds ?G (run_one args cx a)" if a: "a \<in> set (ha_adapters args)" for a
  proof -
    have pure: "adds ?G (return x)" for x :: command_outcome by (simp add: adds_leaves)
    have trust: "adds ?G (with_trust cx a (ha_dry_run args) (ha_trust args) ls)" if "ha_action args = InstallAction" for ls
    proof (cases "trusting args")
      case True
      then have "?G = grants_ours cx" by (intro ext) simp
      then show ?thesis
        unfolding with_trust_def by (intro adds_if adds_bind pure) (simp add: adds_grant)
    next
      case False
      then have "\<not> (ha_trust args \<and> ad_agent a = Codex \<and> \<not> ha_dry_run args)"
        using that a by (auto simp: trusting_def)
      then show ?thesis unfolding with_trust_def by (auto intro: pure)
    qed
    have "adds ?G (status_one cx a t)" for t
      by (rule adds_leaves) (use leaves_status in \<open>auto simp: leaves_def standing_def\<close>)
    moreover have "adds ?G (remove_one cx a d)" for d
      unfolding remove_one_def remove_edit_def
      by (intro adds_leaves leaves_rules leaves_finding leaves_reading leaves_hook_apply)
    ultimately show ?thesis
      using adds_install [OF trust] by (cases "ha_action args") (simp_all add: run_one_def)
  qed
  then have "adds ?G (hooks_execute args cx)"
    unfolding hooks_execute_def by (rule adds_execute)
  then show ?thesis
    unfolding adds_def list_all_iff by (metis list.set_intros(1) neq_Nil_conv)
qed

section \<open>Installing and removing\<close>

text \<open>What a reader of the configuration has before an edit.\<close>

definition read_as :: "disk \<Rightarrow> path \<Rightarrow> string option \<Rightarrow> bool" where
  "read_as d p existing \<longleftrightarrow>
     (case existing of
        None \<Rightarrow> seen d p = None
      | Some t \<Rightarrow> (\<exists>m s. seen d p = Some (File t m s)) \<and> from_utf8 t \<and> length t \<le> MAX_BYTES)"

text \<open>The edit the action of a command decides on for a configuration.\<close>

definition decides :: "hook_args \<Rightarrow> hook_context \<Rightarrow> adapter \<Rightarrow> string option \<Rightarrow> edit \<Rightarrow> bool" where
  "decides args cx a existing e \<longleftrightarrow>
     (case ha_action args of
        StatusAction \<Rightarrow> False
      | InstallAction \<Rightarrow> hook_install a existing (cx_binary cx) = Ok e
      | RemoveAction \<Rightarrow> hook_remove a existing = Ok e)"

lemma runs_read_config:
  "runs (\<lambda>d. d = d0) (read_config p) (\<lambda>r d. d = d0 \<and> (\<forall>existing. r = Ok existing \<longrightarrow> read_as d0 p existing)) R"
proof -
  let ?opened = "\<lambda>r d. d = d0 \<and> (case r of Ok q \<Rightarrow> \<exists>x. found d0 p = Ok (q, x) | Err NotFound \<Rightarrow> seen d0 p = None | _ \<Rightarrow> True)"
  let ?Q = "\<lambda>r d. d = d0 \<and> (\<forall>existing. r = Ok existing \<longrightarrow> read_as d0 p existing)"
  have opened: "runs (\<lambda>d. d = d0) (outcome (open_file p) :: ((path, io_error) res, file_error, 'x) act)
      (\<lambda>r d. case r of Ok x \<Rightarrow> ?opened x d | Err e \<Rightarrow> ?Q (Err e) d | Panic \<Rightarrow> ?Q Panic d) R"
    unfolding open_file_def
    by (rule runs_outcome, rule runs_ask)
      (auto simp: and_then_eq_Ok seen_def split: res.split prod.split io_error.split)
  have content: "runs (\<lambda>d. d = d0 \<and> (\<exists>x. found d0 p = Ok (q, x))) (on_error f (read_all q) :: (string, file_error, 'x) act)
      (\<lambda>r d. case r of Ok t \<Rightarrow> d = d0 \<and> (\<exists>m s. seen d0 p = Some (File t m s)) | Err e \<Rightarrow> ?Q (Err e) d | Panic \<Rightarrow> ?Q Panic d) R" for q f
    unfolding read_all_def
    by (rule runs_on_error, rule runs_ask) (auto dest!: found_end split: option.split node.split)
  have kept: "runs (\<lambda>d. d = d0 \<and> (\<exists>m s. seen d0 p = Some (File t m s)))
      (let bytes = take (MAX_BYTES + 1) t in
         if MAX_BYTES < length bytes then refuse (TooLarge p)
         else if \<not> from_utf8 bytes then refuse (NotUtf8 p)
         else return (Some bytes)) ?Q R" for t
  proof (cases "length t \<le> MAX_BYTES")
    case True
    then show ?thesis
      unfolding Let_def by (intro runs_if runs_refuse runs_return) (auto simp: read_as_def)
  next
    case False
    then show ?thesis unfolding Let_def by (auto intro!: runs_refuse)
  qed
  have body: "runs (\<lambda>d. d = d0 \<and> (\<exists>x. found d0 p = Ok (q, x)))
      (bind_act (on_error (CannotRead p) (read_all q)) (\<lambda>text.
         let bytes = take (MAX_BYTES + 1) text in
         if MAX_BYTES < length bytes then refuse (TooLarge p)
         else if \<not> from_utf8 bytes then refuse (NotUtf8 p)
         else return (Some bytes))) ?Q R" for q
    by (rule runs_bind [OF content kept])
  show ?thesis
    unfolding read_config_def
  proof (rule runs_bind [OF opened])
    fix r :: "(path, io_error) res"
    show "runs (?opened r) (case r of
       Err NotFound \<Rightarrow> return None
     | Err e \<Rightarrow> refuse (CannotRead p e)
     | Panic \<Rightarrow> abort
     | Ok q \<Rightarrow>
         bind_act (on_error (CannotRead p) (read_all q)) (\<lambda>text.
         let bytes = take (MAX_BYTES + 1) text in
         if MAX_BYTES < length bytes then refuse (TooLarge p)
         else if \<not> from_utf8 bytes then refuse (NotUtf8 p)
         else return (Some bytes))) ?Q R"
    proof (cases r)
      case (Ok q)
      then show ?thesis using body by simp
    next
      case (Err e)
      then show ?thesis
        by (cases e) (auto intro!: runs_return runs_refuse simp: read_as_def)
    qed (auto intro!: runs_abort)
  qed
qed

text \<open>What a command may do to the configuration, and what its first line says it did.\<close>

definition new_config :: "hook_args \<Rightarrow> hook_context \<Rightarrow> adapter \<Rightarrow> disk \<Rightarrow> disk \<Rightarrow> bool" where
  "new_config args cx a d0 d \<longleftrightarrow>
     (\<exists>existing e. read_as d0 (cx_file cx a) existing \<and> decides args cx a existing e \<and> e \<noteq> Unchanged
        \<and> becomes e (seen d (cx_file cx a)))"

definition whole :: "hook_args \<Rightarrow> hook_context \<Rightarrow> adapter \<Rightarrow> disk \<Rightarrow> disk \<Rightarrow> bool" where
  "whole args cx a d0 d \<longleftrightarrow>
     (seen d (cx_file cx a) = seen d0 (cx_file cx a) \<or> new_config args cx a d0 d)
     \<and> (\<forall>x. d0 x \<noteq> None \<longrightarrow> \<not> place d0 (cx_file cx a) x \<longrightarrow> d x = d0 x)"

definition says_changed :: "command_outcome \<Rightarrow> bool" where
  "says_changed o' \<longleftrightarrow> (case co_lines o' of InstalledIn _ # _ \<Rightarrow> True | RemovedFrom _ _ # _ \<Rightarrow> True | _ \<Rightarrow> False)"

definition told :: "hook_args \<Rightarrow> hook_context \<Rightarrow> adapter \<Rightarrow> disk \<Rightarrow> command_outcome \<Rightarrow> disk \<Rightarrow> bool" where
  "told args cx a d0 o' d \<longleftrightarrow>
     (if says_changed o' then co_fine o' \<and> new_config args cx a d0 d
      else seen d (cx_file cx a) = seen d0 (cx_file cx a)
        \<and> ((\<exists>ls. co_lines o' = AlreadyInstalled # ls)
           \<longrightarrow> (\<exists>existing. read_as d0 (cx_file cx a) existing \<and> decides args cx a existing Unchanged)))"

definition still :: "host \<Rightarrow> disk \<times> disk list" where
  "still w = (wo_disk w, wo_past w)"

lemma runs_leaves:
  assumes "leaves still m"
  shows "runs P m (\<lambda>r d. P d) R"
proof (rule runsI)
  fix w r w'
  assume p: "P (wo_disk w)" and m: "m w = (r, w')"
  have "still (snd (m w)) = still w" using assms unfolding leaves_def by blast
  then have "wo_disk w' = wo_disk w" "wo_past w' = wo_past w" using m by (simp_all add: still_def)
  then show "P (wo_disk w') \<and> (\<exists>ds. wo_past w' = ds @ wo_past w \<and> (\<forall>d \<in> set ds. R d))"
    using p by simp
qed

lemma leaves_grant: "leaves still (grant_trust cx)"
proof -
  have "leaves still (record_grant g)" for g
    by (simp add: leaves_def record_grant_def still_def)
  then show ?thesis
    unfolding grant_trust_def Let_def by (intro leaves_rules leaves_listed)
qed

lemma standing_still: "leaves standing m \<Longrightarrow> leaves still m"
  by (simp add: leaves_def standing_def still_def)

lemma runs_with_trust:
  assumes "ls \<noteq> []"
  shows "runs P (with_trust cx a dry_run trust ls)
    (\<lambda>r d. P d \<and> (\<forall>o'. r = Ok o' \<longrightarrow> co_fine o' \<and> (\<exists>l. co_lines o' = ls @ l))) R"
proof -
  have "runs P (bind_act (grant_trust cx) (\<lambda>l. return (done_with a (ls @ [l]) True)))
      (\<lambda>r d. P d \<and> (\<forall>o'. r = Ok o' \<longrightarrow> co_fine o' \<and> (\<exists>l. co_lines o' = ls @ l))) R"
    by (rule runs_then [OF runs_leaves [OF leaves_grant] _ _ _ _ runs_return]) (auto simp: done_with_def)
  moreover have "runs P (return (done_with a (ls @ l) True))
      (\<lambda>r d. P d \<and> (\<forall>o'. r = Ok o' \<longrightarrow> co_fine o' \<and> (\<exists>l. co_lines o' = ls @ l))) R" for l
    by (rule runs_return) (auto simp: done_with_def)
  from this this [of "[]"] show ?thesis
    unfolding with_trust_def by (intro runs_if calculation) simp_all
qed

lemma runs_installed: "runs P (agent_installed cx a) (\<lambda>r d. P d) R"
  unfolding agent_installed_def is_dir_def
  by (rule runs_bind [where M = "\<lambda>_. P"]) (auto intro!: runs_outcome runs_ask runs_return split: res.split)

lemma runs_after_trust:
  assumes "ls \<noteq> []" and "\<And>o' d l. P d \<Longrightarrow> co_fine o' \<Longrightarrow> co_lines o' = ls @ l \<Longrightarrow> told args cx a d0 o' d"
  shows "runs P (with_trust cx a dry_run trust ls) (\<lambda>r d. \<forall>o'. r = Ok o' \<longrightarrow> told args cx a d0 o' d) R"
  by (rule runs_mono [OF runs_with_trust [OF assms(1), where P = P]]) (use assms(2) in auto)

lemma runs_result:
  "runs P m Q R \<Longrightarrow> (\<And>w r w'. m w = (r, w') \<Longrightarrow> F r) \<Longrightarrow> runs P m (\<lambda>r d. Q r d \<and> F r) R"
  by (auto simp: runs_def)

text \<open>The edit of a configuration that was read, and the answers of the two actions.\<close>

lemma runs_edit:
  assumes "temp_free (cx_pid cx) d0 (cx_file cx a)" and "\<not> dangling d0 (cx_file cx a)"
    and "read_as d0 (cx_file cx a) existing" and "decides args cx a existing e" and "e \<noteq> Unchanged"
  shows "runs (\<lambda>d. d = d0) (outcome (hook_apply (cx_pid cx) (cx_file cx a) e dir stamp) :: ((path option, file_error) res) command)
    (\<lambda>r d. case r of Ok r' \<Rightarrow> if is_ok r' then new_config args cx a d0 d else seen d (cx_file cx a) = seen d0 (cx_file cx a) | _ \<Rightarrow> False)
    (whole args cx a d0)"
proof (rule runs_outcome, rule runs_mono [OF runs_hook_apply [OF assms(1,2)]])
  fix d assume "old_or_new d0 (cx_file cx a) e d"
  then show "whole args cx a d0 d"
    using assms(3-5) by (auto simp: whole_def old_or_new_def new_config_def)
qed (use assms(3-5) in \<open>auto simp: new_config_def split: if_split_asm\<close>)

lemma runs_run_one:
  assumes "temp_free (cx_pid cx) d0 (cx_file cx a)" and "\<not> dangling d0 (cx_file cx a)"
  shows "runs (\<lambda>d. d = d0) (run_one args cx a)
    (\<lambda>r d. \<forall>o'. r = Ok o' \<longrightarrow> told args cx a d0 o' d) (whole args cx a d0)" (is "runs ?P _ ?Q ?R")
proof -
  let ?file = "cx_file cx a"
  have plain: "told args cx a d0 (done_with a (l # ls) fine) d0"
    if "\<not> says_changed (done_with a (l # ls) fine)" "l \<noteq> AlreadyInstalled" for l ls fine
    using that by (simp add: told_def done_with_def)
  have stop: "runs ?P (return (done_with a [l] fine)) ?Q ?R"
    if "\<not> says_changed (done_with a [l] fine)" "l \<noteq> AlreadyInstalled" for l fine
    using plain [OF that] by (auto intro!: runs_return)
  have aborted: "runs ?P abort ?Q ?R" by (auto intro!: runs_abort)
  have status: "runs ?P (status_one cx a trust) ?Q ?R" for trust
  proof -
    have line: "\<exists>s ls fine. o' = done_with a (StateLine s # ls) fine"
      if "status_one cx a trust w = (Ok o', w')" for o' w w'
      using that
      by (auto simp: status_one_def bind_act_def return_def split: prod.split_asm res.split_asm if_split_asm)
    have "runs ?P (status_one cx a trust) (\<lambda>r d. d = d0 \<and> (\<forall>o'. r = Ok o' \<longrightarrow> (\<exists>s ls fine. o' = done_with a (StateLine s # ls) fine))) ?R"
      by (rule runs_result [OF runs_leaves [OF standing_still [OF leaves_status]]]) (use line in blast)
    then show ?thesis
      by (rule runs_mono) (auto simp: told_def says_changed_def done_with_def)
  qed
  have trusted: "runs ?P (with_trust cx a dry_run trust [WouldWrite p s]) ?Q ?R" for dry_run trust p s
    by (rule runs_after_trust) (auto simp: told_def says_changed_def)
  have changed: "runs (new_config args cx a d0) (with_trust cx a dry_run trust (InstalledIn p # ls)) ?Q ?R" for dry_run trust p ls
    by (rule runs_after_trust) (auto simp: told_def says_changed_def)
  have failed: "runs (\<lambda>d. seen d ?file = seen d0 ?file) (return (done_with a [CommandFailed why] False)) ?Q ?R" for why
    by (rule runs_return) (auto simp: told_def says_changed_def done_with_def)
  let ?done = "\<lambda>r d. if is_ok r then new_config args cx a d0 d else seen d ?file = seen d0 ?file"
  have applied: "runs ?P (bind_act (outcome (hook_apply (cx_pid cx) ?file e dir stamp)) f) ?Q ?R"
    if "read_as d0 ?file existing" "decides args cx a existing e" "e \<noteq> Unchanged" "\<And>r. runs (?done r) (f r) ?Q ?R"
    for existing e dir stamp and f :: "(path option, file_error) res \<Rightarrow> command_outcome command"
    by (rule runs_then [OF runs_edit [OF assms that(1-3)] _ _ _ _ that(4)]) auto
  have install_tail: "runs ?P (install_edit cx a (ha_dry_run args) (ha_trust args) existing e) ?Q ?R"
    if r: "read_as d0 ?file existing" "decides args cx a existing e" for existing e
  proof (cases "e = Unchanged")
    case True
    have "runs ?P (with_trust cx a (ha_dry_run args) (ha_trust args) [AlreadyInstalled]) ?Q ?R"
      by (rule runs_after_trust) (use r True in \<open>auto simp: told_def says_changed_def\<close>)
    then show ?thesis using True by (simp add: install_edit_def)
  next
    case False
    have "runs (?done r) (case r of
          Ok bk \<Rightarrow> with_trust cx a (ha_dry_run args) (ha_trust args) (InstalledIn ?file # (case bk of None \<Rightarrow> [] | Some b \<Rightarrow> [BackupAt b]))
        | Err why \<Rightarrow> return (done_with a [CommandFailed why] False)
        | Panic \<Rightarrow> abort) ?Q ?R" for r
      using changed failed by (cases r) (auto intro: runs_abort)
    note write_it = applied [OF r False this]
    have judged: "runs ?P (bind_act (judge_text cx a existing) (\<lambda>before. with_trust cx a d t [WouldWrite ?file before])) ?Q ?R" for d t
      by (rule runs_then [OF runs_leaves [OF standing_still [OF leaves_judge_text]] _ _ _ _ trusted]) auto
    show ?thesis unfolding install_edit_def if_not_P [OF False] by (intro runs_if write_it judged)
  qed
  have remove_tail: "runs ?P (remove_edit cx a (ha_dry_run args) e) ?Q ?R"
    if r: "read_as d0 ?file existing" "decides args cx a existing e" for existing e
  proof (cases "e = Unchanged \<or> ha_dry_run args")
    case True
    then show ?thesis
      using stop [of NoneOfOurs True] stop [of "WouldRemove ?file" True]
      by (auto simp: remove_edit_def says_changed_def done_with_def)
  next
    case False
    then have e: "e \<noteq> Unchanged" by simp
    have "runs (?done r) (case r of
          Ok bk \<Rightarrow> return (done_with a [RemovedFrom ?file bk] True)
        | Err why \<Rightarrow> return (done_with a [CommandFailed why] False)
        | Panic \<Rightarrow> abort) ?Q ?R" for r
      using failed by (cases r) (auto intro!: runs_abort runs_return simp: told_def says_changed_def done_with_def)
    from applied [OF r e this] show ?thesis using False by (simp add: remove_edit_def)
  qed
  have stop: "runs ?P (return (done_with a [l] fine)) ?Q ?R" if "l \<in> {AgentSkipped, NothingToRemove} \<union> range LeftAlone" for l fine
    by (rule stop) (use that in \<open>auto simp: says_changed_def done_with_def\<close>)
  have read: "runs ?P (bind_act (agent_installed cx a) (\<lambda>installed. if \<not> installed then return (done_with a [l] True)
      else bind_act (outcome (read_config ?file)) (\<lambda>r. case r of
         Err why \<Rightarrow> return (done_with a [LeftAlone (FileWhy why)] False)
       | Panic \<Rightarrow> abort
       | Ok existing \<Rightarrow>
           (case decide existing of
              Err why \<Rightarrow> return (done_with a [LeftAlone (ConfigWhy why)] False)
            | Panic \<Rightarrow> abort
            | Ok e \<Rightarrow> tail existing e)))) ?Q ?R"
    if "l \<in> {AgentSkipped, NothingToRemove}"
      and "\<And>existing e. read_as d0 ?file existing \<Longrightarrow> decide existing = Ok e \<Longrightarrow> runs ?P (tail existing e) ?Q ?R"
    for l and decide :: "string option \<Rightarrow> (edit, config_error) res"
      and tail :: "string option \<Rightarrow> edit \<Rightarrow> command_outcome command"
  proof -
    have left: "runs ?P (return (done_with a [LeftAlone why] fine)) ?Q ?R" for why fine
      by (rule stop) simp
    let ?read = "\<lambda>r d. d = d0 \<and> (\<forall>existing. r = Ok existing \<longrightarrow> read_as d0 ?file existing)"
    have decided: "runs (?read r) (case r of
         Err why \<Rightarrow> return (done_with a [LeftAlone (FileWhy why)] False)
       | Panic \<Rightarrow> abort
       | Ok existing \<Rightarrow>
           (case decide existing of
              Err why \<Rightarrow> return (done_with a [LeftAlone (ConfigWhy why)] False)
            | Panic \<Rightarrow> abort
            | Ok e \<Rightarrow> tail existing e)) ?Q ?R" for r
    proof (cases r)
      case (Ok existing)
      have "runs (\<lambda>d. d = d0 \<and> read_as d0 ?file existing) (case decide existing of
              Err why \<Rightarrow> return (done_with a [LeftAlone (ConfigWhy why)] False)
            | Panic \<Rightarrow> abort
            | Ok e \<Rightarrow> tail existing e) ?Q ?R"
        by (rule runs_fact, cases "decide existing") (use that(2) left aborted in auto)
      then show ?thesis using Ok by simp
    next
      case (Err why)
      then show ?thesis using left by simp
    next
      case Panic
      then show ?thesis using aborted by simp
    qed
    have has_read: "runs ?P (outcome (read_config ?file) :: ((string option, file_error) res) command)
        (\<lambda>r d. case r of Ok r' \<Rightarrow> ?read r' d | _ \<Rightarrow> False) ?R"
      by (rule runs_outcome, rule runs_mono [OF runs_read_config [of d0 ?file]]) auto
    have "runs ?P (bind_act (outcome (read_config ?file)) (\<lambda>r. case r of
         Err why \<Rightarrow> return (done_with a [LeftAlone (FileWhy why)] False)
       | Panic \<Rightarrow> abort
       | Ok existing \<Rightarrow>
           (case decide existing of
              Err why \<Rightarrow> return (done_with a [LeftAlone (ConfigWhy why)] False)
            | Panic \<Rightarrow> abort
            | Ok e \<Rightarrow> tail existing e))) ?Q ?R"
      by (rule runs_then [OF has_read _ _ _ _ decided]) auto
    then have branch: "runs ?P (if \<not> installed then return (done_with a [l] True)
      else bind_act (outcome (read_config ?file)) (\<lambda>r. case r of
         Err why \<Rightarrow> return (done_with a [LeftAlone (FileWhy why)] False)
       | Panic \<Rightarrow> abort
       | Ok existing \<Rightarrow>
           (case decide existing of
              Err why \<Rightarrow> return (done_with a [LeftAlone (ConfigWhy why)] False)
            | Panic \<Rightarrow> abort
            | Ok e \<Rightarrow> tail existing e))) ?Q ?R" for installed
      using stop [of l True] that(1) by (intro runs_if) auto
    show ?thesis
      by (rule runs_then [OF runs_installed [of ?P cx a ?R] _ _ _ _ branch]) auto
  qed
  show ?thesis
    using status read [of AgentSkipped "\<lambda>existing. hook_install a existing (cx_binary cx)", OF _ install_tail]
      read [of NothingToRemove "hook_remove a" "\<lambda>_. remove_edit cx a (ha_dry_run args)", OF _ remove_tail]
    by (cases "ha_action args") (auto simp: run_one_def install_one_def remove_one_def decides_def)
qed

text \<open>
  C16. Whatever calls fail, at every moment of a command for one agent, and so after a crash at any moment,
  the configuration is the old one or exactly what installing or removing makes of its text, and the
  other files are untouched; and the outcome that is printed says which of the two it is.
\<close>

theorem configs_change_as_a_whole:
  assumes "temp_free (cx_pid cx) (wo_disk w) (cx_file cx a)" and "\<not> dangling (wo_disk w) (cx_file cx a)"
    and "wo_past w = []" and "run_one args cx a w = (r, w')"
  shows "(\<forall>d \<in> set (wo_past w'). whole args cx a (wo_disk w) d)
    \<and> (\<forall>o'. r = Ok o' \<longrightarrow> told args cx a (wo_disk w) o' (wo_disk w'))"
  using runsD [OF runs_run_one [OF assms(1,2)] refl assms(4)] assms(3) by auto

section \<open>Status after an installation\<close>

lemma install_not_delete: "hook_install a existing b \<noteq> Ok Delete"
  by (auto simp: hook_install_def and_then_eq_Ok Let_def split: format.split option.split if_split_asm)

lemma install_new: "hook_install a None b \<noteq> Ok Unchanged"
  by (auto simp: hook_install_def and_then_eq_Ok read_existing_def Let_def split: format.split if_split_asm)

lemma read_config_served:
  assumes "wo_luck w = []" and "seen (wo_disk w) p = Some (File t m s)" and "length t \<le> MAX_BYTES" and "from_utf8 t"
  shows "read_config p w = (Ok (Some t), w)"
proof -
  obtain q where q: "found (wo_disk w) p = Ok (q, File t m s)"
    using assms(2) by (auto simp: seen_def split: res.split_asm)
  then have "wo_disk w q = Some (File t m s)" using found_end by blast
  moreover have "w\<lparr>wo_luck := []\<rparr> = w" using assms(1) by simp
  ultimately show ?thesis
    using assms q
    by (simp add: read_config_def bind_act_def outcome_def on_error_def open_file_def read_all_def ask_works
        return_def)
qed

lemma status_served:
  assumes "wo_luck w = []" and "has_dir (wo_disk w) (cx_dir cx a)"
    and "seen (wo_disk w) (cx_file cx a) = Some (File t m s)" and "length t \<le> MAX_BYTES" and "from_utf8 t"
    and "hook_classify a (Some t) (cx_binary cx) (binary_exists (wo_disk w)) = Ok state"
  shows "fst (status_one cx a False w) = Ok (done_with a [StateLine (Judged state)] (is_fine state))"
proof -
  have "w\<lparr>wo_luck := []\<rparr> = w" using assms(1) by simp
  then have "agent_installed cx a w = (Ok True, w)"
    using assms(1,2) by (simp add: agent_installed_def is_dir_def bind_act_def outcome_def ask_works return_def)
  then have "read_state cx a w = (Ok (Judged state), w)"
    using read_config_served [OF assms(1,3,4,5)] assms(6)
    by (simp add: read_state_def bind_act_def outcome_def judge_text_def)
  then show ?thesis
    by (simp add: status_one_def bind_act_def return_def judged_fine_def)
qed

text \<open>
  C17. When an installation says that it installed the hooks, or that they are installed already, then a
  status afterwards says that they are installed and fine if the program they name exists, and that
  they are outdated and not fine if it does not, as the installation's warning announces. This is so
  for a program whose path is UTF-8 and does not contain the text that marks our commands, when no
  call of the status fails, the agent's directory is there and the configuration is within the
  reader's size limit; the name of the temporary was free, and the configuration no dangling link.
\<close>

theorem a_reported_install_is_seen:
  assumes "a \<in> set ADAPTERS" and "from_utf8 (cx_binary cx)" and "plain_path (ad_slug a) (cx_binary cx)"
    and "temp_free (cx_pid cx) (wo_disk w) (cx_file cx a)" and "\<not> dangling (wo_disk w) (cx_file cx a)"
    and "ha_action args = InstallAction" and "run_one args cx a w = (Ok o', w')"
    and "says_changed o' \<or> (\<exists>ls. co_lines o' = AlreadyInstalled # ls)"
    and "wo_luck w' = []" and "has_dir (wo_disk w') (cx_dir cx a)"
    and "\<And>t m s. seen (wo_disk w') (cx_file cx a) = Some (File t m s) \<Longrightarrow> length t \<le> MAX_BYTES"
  shows "if binary_exists (wo_disk w') (cx_binary cx)
    then fst (status_one cx a False w') = Ok (done_with a [StateLine (Judged Installed)] True)
    else \<exists>why. fst (status_one cx a False w') = Ok (done_with a [StateLine (Judged (Outdated why))] False)"
proof -
  let ?file = "cx_file cx a"
  have "told args cx a (wo_disk w) o' (wo_disk w')"
    using runsD(1) [OF runs_run_one [OF assms(4,5)] refl assms(7)] by simp
  then obtain existing e t m s where r: "read_as (wo_disk w) ?file existing" "hook_install a existing (cx_binary cx) = Ok e"
    and t: "after existing e = Some t" "seen (wo_disk w') ?file = Some (File t m s)"
  proof (cases "says_changed o'")
    case True
    then obtain existing e where "read_as (wo_disk w) ?file existing" "hook_install a existing (cx_binary cx) = Ok e"
      "e \<noteq> Unchanged" "becomes e (seen (wo_disk w') ?file)"
      using \<open>told args cx a (wo_disk w) o' (wo_disk w')\<close> assms(6) by (auto simp: told_def new_config_def decides_def)
    then show ?thesis
      using that install_not_delete by (cases e) (auto simp: becomes_def after_def)
  next
    case False
    then obtain existing where e: "read_as (wo_disk w) ?file existing" "hook_install a existing (cx_binary cx) = Ok Unchanged"
      "seen (wo_disk w') ?file = seen (wo_disk w) ?file"
      using \<open>told args cx a (wo_disk w) o' (wo_disk w')\<close> assms(6,8) by (auto simp: told_def decides_def)
    then obtain t where "existing = Some t" using install_new by (cases existing) auto
    then show ?thesis
      using that [OF e(1,2)] e by (auto simp: read_as_def after_def)
  qed
  have v: "valid_text existing" using r(1) by (auto simp: read_as_def valid_text_def split: option.split_asm)
  have small: "length t \<le> MAX_BYTES" using assms(11) t(2) .
  have "from_utf8 t" using install_utf8 [OF r(2) assms(1,2) v] t(1) by (simp add: valid_text_def)
  moreover have "hook_classify a (Some t) (cx_binary cx) (binary_exists (wo_disk w'))
      = Ok (settled_state a (cx_binary cx) (binary_exists (wo_disk w')))"
    using install_settled [OF assms(1,2) v r(2)] t(1) small assms(3) by (simp add: readable_size_def)
  ultimately have "fst (status_one cx a False w')
      = Ok (done_with a [StateLine (Judged (settled_state a (cx_binary cx) (binary_exists (wo_disk w'))))]
          (is_fine (settled_state a (cx_binary cx) (binary_exists (wo_disk w')))))"
    by (rule status_served [OF assms(9,10) t(2) small])
  then show ?thesis
    unfolding settled_state_def is_fine_def
    by (cases "binary_exists (wo_disk w') (cx_binary cx)") auto
qed

text \<open>A home in which OpenCode's plugin is installed, and Codex with a configuration of ours.\<close>

definition opencode :: adapter where
  "opencode = ADAPTERS ! 4"

definition settled_context :: hook_context where
  "settled_context = \<lparr>cx_home = [''h''], cx_binary = ''/b'', cx_seconds = 0, cx_pid = 7,
     cx_list = Ok [\<lparr>ch_key = ''a'', ch_trust_status = ''untrusted'', ch_current_hash = ''1'', ch_ours = True\<rparr>,
                   \<lparr>ch_key = ''b'', ch_trust_status = ''untrusted'', ch_current_hash = ''2'', ch_ours = False\<rparr>],
     cx_grant = (\<lambda>_. Ok ())\<rparr>"

definition settled_home :: host where
  "settled_home =
     \<lparr>wo_disk = [cx_dir settled_context opencode \<mapsto> Dir 493,
        cx_file settled_context opencode \<mapsto> File (plugin_source ''/b'') 420 True, [''b''] \<mapsto> File [] 493 True],
      wo_past = [], wo_luck = [], wo_umask = 18, ho_granted = []\<rparr>"

definition installing :: hook_args where
  "installing = \<lparr>ha_action = InstallAction, ha_adapters = [opencode], ha_binary = None, ha_dry_run = False,
     ha_trust = True, ha_check = False\<rparr>"

lemma opencode_facts:
  "opencode \<in> set ADAPTERS" "ad_slug opencode = ''opencode''" "ad_format opencode = Plugin" "ad_agent opencode = OpenCode"
  "cx_dir settled_context opencode = [''h'', ''.config'', ''opencode'']"
  "cx_file settled_context opencode = [''h'', ''.config'', ''opencode'', ''plugins'', ''cyd-system-monitor.js'']"
  by (simp_all add: opencode_def ADAPTERS_def ad_slug_def cx_dir_def cx_file_def under_def settled_context_def)

lemma replace_length: "length (replace_all pat to s) \<le> length s * Suc (length to)"
proof (induction pat to s rule: replace_all.induct)
  case (2 pat to c s)
  have "length (drop (length pat - 1) s) * Suc (length to) \<le> length s * Suc (length to)"
    by (intro mult_right_mono) auto
  then show ?case using 2 by (auto split: if_split)
qed simp

lemma plugin_small: "length (plugin_source ''/b'') \<le> MAX_BYTES"
proof -
  have "js_escape ''/b'' = ''/b''" by (simp add: byte_def strip_prefix_def)
  moreover have "length PLUGIN_TEMPLATE \<le> 2000"
    unfolding PLUGIN_TEMPLATE_def TEMPLATE_LINES_def by simp
  ultimately show ?thesis
    using replace_length [of PLUGIN_PLACEHOLDER "''/b''" PLUGIN_TEMPLATE]
    by (simp add: plugin_source_def MAX_BYTES_def)
qed

lemma settled_disk:
  "wo_disk settled_home (cx_dir settled_context opencode) = Some (Dir 493)"
  "wo_disk settled_home (cx_file settled_context opencode) = Some (File (plugin_source ''/b'') 420 True)"
  "wo_disk settled_home [''b''] = Some (File [] 493 True)"
  by (simp_all add: settled_home_def opencode_facts)

lemma settled_follow:
  "found (wo_disk settled_home) (cx_dir settled_context opencode) = Ok (cx_dir settled_context opencode, Dir 493)"
  "found (wo_disk settled_home) (cx_file settled_context opencode)
     = Ok (cx_file settled_context opencode, File (plugin_source ''/b'') 420 True)"
  "found (wo_disk settled_home) [''b''] = Ok ([''b''], File [] 493 True)"
  using settled_disk by (simp_all add: found_def numeral_eq_Suc)

lemma settled_read:
  "read_config (cx_file settled_context opencode) settled_home = (Ok (Some (plugin_source ''/b'')), settled_home)"
  using settled_follow(2) plugin_small plugin_utf8 [of "''/b''"]
  by (intro read_config_served) (simp_all add: settled_home_def seen_def byte_def)

lemma settled_install:
  "run_one installing settled_context opencode settled_home
    = (Ok (done_with opencode [AlreadyInstalled] True), settled_home)"
proof -
  have served: "wo_luck settled_home = []" "settled_home\<lparr>wo_luck := []\<rparr> = settled_home"
    by (simp_all add: settled_home_def)
  have "has_dir (wo_disk settled_home) (cx_dir settled_context opencode)"
    by (simp add: has_dir_def settled_follow)
  then have "agent_installed settled_context opencode settled_home = (Ok True, settled_home)"
    using served by (simp add: agent_installed_def is_dir_def bind_act_def outcome_def ask_works return_def)
  moreover have "hook_install opencode (Some (plugin_source ''/b'')) (cx_binary settled_context) = Ok Unchanged"
    by (simp add: hook_install_def opencode_facts settled_context_def)
  ultimately show ?thesis
    using settled_read
    by (simp add: run_one_def installing_def install_one_def bind_act_def outcome_def install_edit_def with_trust_def
        opencode_facts(4) return_def)
qed

lemma settled_ready:
  "temp_free 7 (wo_disk settled_home) (cx_file settled_context opencode)"
  "\<not> dangling (wo_disk settled_home) (cx_file settled_context opencode)"
  "seen (wo_disk settled_home) (cx_file settled_context opencode) = Some (File (plugin_source ''/b'') 420 True)"
  using settled_follow(2)
  by (auto simp: temp_free_def place_def dangling_def seen_def)
    (auto simp: settled_home_def opencode_facts temp_path_def with_file_name_def file_name_def)

lemma a_reported_install_is_seen_witness:
  "fst (status_one settled_context opencode False settled_home)
     = Ok (done_with opencode [StateLine (Judged Installed)] True)"
proof -
  have "binary_exists (wo_disk settled_home) (cx_binary settled_context)"
    using settled_follow(3) by (simp add: binary_exists_def settled_context_def)
  moreover have "if binary_exists (wo_disk settled_home) (cx_binary settled_context)
    then fst (status_one settled_context opencode False settled_home)
      = Ok (done_with opencode [StateLine (Judged Installed)] True)
    else \<exists>why. fst (status_one settled_context opencode False settled_home)
      = Ok (done_with opencode [StateLine (Judged (Outdated why))] False)"
  proof (rule a_reported_install_is_seen [OF opencode_facts(1) _ _ _ settled_ready(2) _ settled_install])
    show "plain_path (ad_slug opencode) (cx_binary settled_context)"
      by (simp add: plain_path_def marker_def contains_def settled_context_def opencode_facts strip_prefix_def)
    show "temp_free (cx_pid settled_context) (wo_disk settled_home) (cx_file settled_context opencode)"
      using settled_ready(1) by (simp add: settled_context_def)
    show "has_dir (wo_disk settled_home) (cx_dir settled_context opencode)"
      by (simp add: has_dir_def settled_follow)
    show "length t \<le> MAX_BYTES" if "seen (wo_disk settled_home) (cx_file settled_context opencode) = Some (File t m s)" for t m s
      using that settled_ready(3) plugin_small by simp
  qed (simp_all add: settled_context_def byte_def installing_def done_with_def settled_home_def)
  ultimately show ?thesis
    by simp
qed

lemma configs_change_as_a_whole_witness:
  "told installing settled_context opencode (wo_disk settled_home) (done_with opencode [AlreadyInstalled] True) (wo_disk settled_home)"
  using configs_change_as_a_whole [OF _ settled_ready(2) _ settled_install] settled_ready(1)
  by (simp add: settled_context_def settled_home_def)

lemma looking_changes_nothing_witness:
  "standing (snd (hooks_execute (installing\<lparr>ha_dry_run := True\<rparr>) settled_context settled_home)) = standing settled_home"
  by (rule looking_changes_nothing) simp

text \<open>An agent of Codex whose file is settled, so that only the trust is left to do.\<close>

definition codex_settled :: adapter where
  "codex_settled = opencode\<lparr>ad_agent := Codex\<rparr>"

definition trusting_args :: hook_args where
  "trusting_args = installing\<lparr>ha_adapters := [codex_settled]\<rparr>"

lemma trusting_run:
  "hooks_execute trusting_args settled_context settled_home
    = (Ok [done_with codex_settled [AlreadyInstalled, TrustedHooks 1] True],
       settled_home\<lparr>ho_granted := [[(''a'', ''1'')]]\<rparr>)"
proof -
  have served: "wo_luck settled_home = []" "settled_home\<lparr>wo_luck := []\<rparr> = settled_home" "ho_granted settled_home = []"
    by (simp_all add: settled_home_def)
  have same: "cx_dir settled_context codex_settled = cx_dir settled_context opencode"
    "cx_file settled_context codex_settled = cx_file settled_context opencode"
    by (simp_all add: cx_dir_def cx_file_def codex_settled_def)
  have "has_dir (wo_disk settled_home) (cx_dir settled_context opencode)"
    by (simp add: has_dir_def settled_follow)
  then have "agent_installed settled_context codex_settled settled_home = (Ok True, settled_home)"
    using served by (simp add: agent_installed_def is_dir_def bind_act_def outcome_def ask_works return_def same)
  moreover have "hook_install codex_settled (Some (plugin_source ''/b'')) (cx_binary settled_context) = Ok Unchanged"
    by (simp add: hook_install_def codex_settled_def opencode_facts settled_context_def)
  moreover have "grant_trust settled_context settled_home
      = (Ok (TrustedHooks 1), settled_home\<lparr>ho_granted := [[(''a'', ''1'')]]\<rparr>)"
    using served(3)
    by (simp add: grant_trust_def listed_def settled_context_def needs_grant_def bind_act_def record_grant_def return_def)
  ultimately show ?thesis
    using settled_read
    by (simp add: hooks_execute_def trusting_args_def run_one_def installing_def install_one_def bind_act_def outcome_def
        install_edit_def with_trust_def return_def same) (simp add: codex_settled_def done_with_def)
qed

lemma only_our_hooks_are_trusted_witness:
  "ho_granted (snd (hooks_execute trusting_args settled_context settled_home)) = [[(''a'', ''1'')]]
   \<and> trusting trusting_args \<and> untrusted_of_ours settled_context (''a'', ''1'')"
proof -
  have "ho_granted settled_home = []" by (simp add: settled_home_def)
  then show ?thesis
    using only_our_hooks_are_trusted [of trusting_args settled_context settled_home]
    by (simp add: trusting_run)
qed

end
