(* ===== verification/Hook_Codex_Correct.thy ===== *)
theory Hook_Codex_Correct
  imports Hook_Codex Hook_Output
begin

text \<open>
  The exchange with Codex's app server: what is sent, one line of JSON for each message and in the
  order of the protocol, which line is taken for the reply, and how long the wait lasts.
\<close>

section \<open>What is sent\<close>

definition as_line :: "hjson \<Rightarrow> string" where
  "as_line message = compact message @ [CHR 0x0A]"

definition call_message :: "nat \<Rightarrow> string \<Rightarrow> hjson \<Rightarrow> hjson" where
  "call_message n name params = Obj [(''id'', Num (nat_str n)), (''method'', Str name), (''params'', params)]"

text \<open>The messages of an exchange that ends with one request.\<close>

definition exchange :: "string \<Rightarrow> hjson \<Rightarrow> hjson list" where
  "exchange version final =
     [call_message 0 ''initialize'' (Obj [(''clientInfo'', Obj [(''name'', Str ''cyd-host''), (''version'', Str version)])]),
      Obj [(''method'', Str ''initialized'')], final]"

definition sent_in_order :: "hjson list \<Rightarrow> string list \<Rightarrow> bool" where
  "sent_in_order messages sent \<longleftrightarrow> (\<exists>n \<le> length messages. sent = map as_line (take n messages))"

lemma send_step:
  assumes "send message s = (r, s')"
  shows "se_sent s' = se_sent s @ (if r = Ok () then [as_line message] else [])" and "r = Ok () \<or> r = Err ClosedItsInput"
  using assms by (auto simp: send_def as_line_def split: if_split_asm)

lemma request_step:
  assumes "hx_request n name params s = (r, s')"
  shows "se_sent s' = se_sent s @ [as_line (call_message n name params)]
    \<or> se_sent s' = se_sent s \<and> \<not> is_ok r"
  using assms
  by (auto simp: hx_request_def send_def as_line_def call_message_def hx_object_def split: if_split_asm prod.split_asm)

lemma start_step:
  assumes "start_session version s = (r, s')"
  shows "\<exists>n \<le> 2. se_sent s' = map as_line (take n (exchange version final)) \<and> (is_ok r \<longrightarrow> n = 2)"
proof -
  let ?info = "hx_object [(''clientInfo'', hx_object [(''name'', Str ''cyd-host''), (''version'', Str version)])]"
  let ?s = "s\<lparr>se_now := 0, se_deadline := TIMEOUT, se_sent := []\<rparr>"
  obtain r1 s1 where q: "hx_request 0 ''initialize'' ?info ?s = (r1, s1)" by fastforce
  have one: "se_sent s1 = map as_line (take 1 (exchange version final)) \<or> se_sent s1 = [] \<and> \<not> is_ok r1"
    using request_step [OF q] by (simp add: exchange_def hx_object_def)
  show ?thesis
  proof (cases r1)
    case (Ok v)
    then have "send (hx_object [(''method'', Str ''initialized'')]) s1 = (r, s')"
      using assms q by (simp add: start_session_def Let_def)
    note two = send_step [OF this]
    show ?thesis
      using one two Ok
      by (cases "r = Ok ()") (auto simp: exchange_def hx_object_def numeral_2_eq_2 intro: exI [of _ 1] exI [of _ "Suc (Suc 0)"])
  next
    case (Err e)
    then have "s' = s1" "r = Err e"
      using assms q by (auto simp: start_session_def Let_def)
    then show ?thesis using one by (auto intro: exI [of _ 1] exI [of _ 0])
  next
    case Panic
    then have "s' = s1" "r = Panic"
      using assms q by (auto simp: start_session_def Let_def)
    then show ?thesis using one by (auto intro: exI [of _ 1] exI [of _ 0])
  qed
qed

lemma exchange_length: "length (exchange version final) = 3"
  by (simp add: exchange_def)

lemma last_step:
  assumes "se_sent s = map as_line (take 2 (exchange version (call_message n name params)))"
    and "hx_request n name params s = (r, s')"
  shows "sent_in_order (exchange version (call_message n name params)) (se_sent s')"
proof -
  let ?m = "exchange version (call_message n name params)"
  have "se_sent s' = map as_line (take 3 ?m) \<or> se_sent s' = map as_line (take 2 ?m)"
    using request_step [OF assms(2)] assms(1) by (auto simp: exchange_def numeral_3_eq_3 numeral_2_eq_2)
  then show ?thesis
    unfolding sent_in_order_def exchange_length by (auto intro: exI [of _ 3] exI [of _ 2])
qed

lemma started:
  assumes "start_session version s = (r, s')"
  shows "sent_in_order (exchange version final) (se_sent s')"
    and "is_ok r \<Longrightarrow> se_sent s' = map as_line (take 2 (exchange version final))"
proof -
  obtain n where n: "n \<le> 2" "se_sent s' = map as_line (take n (exchange version final))" "is_ok r \<longrightarrow> n = 2"
    using start_step [OF assms, of final] by blast
  then have "n \<le> length (exchange version final)" by (simp add: exchange_length)
  then show "sent_in_order (exchange version final) (se_sent s')"
    using n(2) unfolding sent_in_order_def by blast
  show "is_ok r \<Longrightarrow> se_sent s' = map as_line (take 2 (exchange version final))"
    using n by simp
qed

definition list_request :: "string \<Rightarrow> hjson" where
  "list_request home = call_message 1 ''hooks/list'' (Obj [(''cwds'', Arr [Str home])])"

definition grant_request :: "(string \<times> string) list \<Rightarrow> hjson" where
  "grant_request grants = call_message 2 ''config/batchWrite'' (grant_params grants)"

lemma app_list_sends:
  assumes "app_list version home (Some s) = (r, Some s')"
  shows "sent_in_order (exchange version (list_request home)) (se_sent s')"
proof -
  obtain r1 s1 where one: "start_session version s = (r1, s1)" by fastforce
  obtain r2 s2 where two: "hx_request 1 ''hooks/list'' (Obj [(''cwds'', Arr [Str home])]) s1 = (r2, s2)" by fastforce
  have "s' = s1 \<or> is_ok r1 \<and> s' = s2"
    using assms one two by (cases r1) (auto simp: app_list_def hx_object_def split: if_split_asm)
  then show ?thesis
    using started [OF one] last_step [OF _ two] unfolding list_request_def by blast
qed

lemma app_grant_sends:
  assumes "from_utf8 home" and "app_grant version home grants (Some s) = (r, Some s')"
  shows "sent_in_order (exchange version (grant_request grants)) (se_sent s')"
proof -
  obtain r1 s1 where one: "start_session version s = (r1, s1)" by fastforce
  obtain r2 s2 where two: "hx_request 2 ''config/batchWrite'' (grant_params grants) s1 = (r2, s2)" by fastforce
  have "s' = s1 \<or> is_ok r1 \<and> s' = s2"
    using assms one two by (cases r1) (auto simp: app_grant_def)
  then show ?thesis
    using started [OF one] last_step [OF _ two] unfolding grant_request_def by blast
qed

text \<open>The messages are well-formed, so each is one line that reads back as itself.\<close>

definition message_ok :: "hjson \<Rightarrow> bool" where
  "message_ok m \<longleftrightarrow> list_all (\<lambda>c. 0x20 \<le> byte c) (compact m)
     \<and> (\<forall>n. length (compact m) \<le> n \<longrightarrow> parse_limited (compact m) n = Ok m)"

lemma good_message: "good 0 m \<Longrightarrow> message_ok m"
  using write_compact_plain compact_document parse_limited_document
  by (simp add: message_ok_def compact_def good_def)

lemma digit_number:
  assumes "is_ascii_digit c"
  shows "number_text [c]"
proof -
  have "[c] = [] @ [c] @ [] @ []" "int_text [c]" "fraction_text []" "exponent_text []"
    using assms by (auto simp: int_text_def digits_def fraction_text_def exponent_text_def)
  then show ?thesis unfolding number_text_def by blast
qed

lemma nat_str_number: "n < 10 \<Longrightarrow> number_text (nat_str n)"
  using digit_number nat_str_digits [of n] by (simp add: nat_str.simps)

lemma good_exchange:
  assumes "from_utf8 version" and "good 0 final" and "m \<in> set (exchange version final)"
  shows "good 0 m"
  using assms nat_str_number [of 0]
  by (auto simp: exchange_def call_message_def good_scalar MAX_DEPTH_def byte_def)

text \<open>
  C0. Whatever the server answers, a listing and a grant send the handshake and then their one request,
  in this order and a beginning of it where the exchange breaks off; each message is one line
  without control characters, and a reader of the line gets the message back.
\<close>

theorem exchanges_are_lines_of_json:
  assumes "from_utf8 version" and "from_utf8 home" and "distinct (map fst grants)"
    and "\<forall>g \<in> set grants. from_utf8 (fst g) \<and> from_utf8 (snd g)"
    and "app_list version home (Some s) = (r, Some s1)"
    and "app_grant version home grants (Some s) = (r', Some s2)"
  shows "sent_in_order (exchange version (list_request home)) (se_sent s1)
    \<and> sent_in_order (exchange version (grant_request grants)) (se_sent s2)
    \<and> list_all message_ok (exchange version (list_request home) @ exchange version (grant_request grants))"
proof -
  have "good 0 (list_request home)" "good 0 (grant_request grants)"
    using assms(2,3,4) nat_str_number
    by (auto simp: list_request_def grant_request_def call_message_def grant_params_def hx_object_def good_scalar
        MAX_DEPTH_def byte_def comp_def)
  then show ?thesis
    using app_list_sends [OF assms(5)] app_grant_sends [OF assms(2,6)] good_exchange [OF assms(1)] good_message
    by (auto simp: list_all_iff)
qed

section \<open>The reply\<close>

text \<open>
  C0. A request succeeds only with the result of the first line that is an answer to it: all lines before
  it are not JSON or carry another identity, and it is JSON within the bound with the identity of
  the request, without an error, and with that result.
\<close>

theorem the_first_reply_counts:
  assumes "fst (await_answer name n cost deadline now q) = Ok v"
  shows "\<exists>noise t line rest message.
      q = noise @ (t, Some line) # rest
    \<and> (\<forall>x \<in> set noise. \<exists>l. snd x = Some l \<and> hx_answer name n l = None)
    \<and> parse_limited line MAX_REPLY_BYTES = Ok message
    \<and> hj_get message ''id'' = Some (Num (nat_str n)) \<and> hj_get message ''error'' = None
    \<and> hj_get message ''result'' = Some v"
  using assms
proof (induction q arbitrary: now)
  case (Cons x q)
  obtain t y where x: "x = (t, y)" by fastforce
  show ?case
  proof (cases "now < t \<and> deadline < t \<or> y = None")
    case False
    then obtain line where y: "y = Some line" by auto
    show ?thesis
    proof (cases "hx_answer name n line")
      case None
      then obtain noise t' line' rest message where ih: "q = noise @ (t', Some line') # rest"
        "\<forall>x \<in> set noise. \<exists>l. snd x = Some l \<and> hx_answer name n l = None"
        "parse_limited line' MAX_REPLY_BYTES = Ok message"
        "hj_get message ''id'' = Some (Num (nat_str n))" "hj_get message ''error'' = None"
        "hj_get message ''result'' = Some v"
        using Cons False x y by fastforce
      then show ?thesis
        using x y None by (intro exI [of _ "x # noise"]) auto
    next
      case (Some r)
      then have "r = Ok v" using Cons.prems False x y by auto
      then show ?thesis
        using Some x y
        by (intro exI [of _ "[]"])
          (auto simp: hx_answer_def ok_or_eq_Ok split: res.split_asm if_split_asm option.split_asm)
    qed
  qed (use Cons.prems x in \<open>auto split: if_split_asm\<close>)
qed simp

section \<open>The time it takes\<close>

lemma noise_answer: "hx_answer name n [] = None"
  by (simp add: hx_answer_def parse_limited_def hj_document_def hj_value.simps hj_skip_ws_def hj_fail_def MAX_REPLY_BYTES_def)

lemma await_noise:
  "await_answer name n cost deadline now (replicate k (0, Some []) @ q) = await_answer name n cost deadline (now + k * cost) q"
  by (induction k arbitrary: now) (simp_all add: noise_answer algebra_simps)

definition null_reply :: hjson where
  "null_reply = Obj [(''id'', Num ''2''), (''result'', Null)]"

lemma null_reply_answer: "hx_answer name 2 (compact null_reply) = Some (Ok Null)"
proof -
  have one: "nat_str 2 = ''2''" by code_simp
  have "good 0 null_reply"
    using nat_str_number [of 2] one by (simp add: null_reply_def good_scalar MAX_DEPTH_def byte_def)
  moreover have "length (compact null_reply) \<le> MAX_REPLY_BYTES"
    by (simp add: null_reply_def compact_def write_string_def write_char_def byte_def MAX_REPLY_BYTES_def)
  ultimately have "parse_limited (compact null_reply) MAX_REPLY_BYTES = Ok null_reply"
    by (intro parse_limited_document compact_document)
  then show ?thesis
    unfolding hx_answer_def one by (simp add: null_reply_def hj_get_def)
qed

definition flood :: "nat \<Rightarrow> (nat \<times> string option) list" where
  "flood k = replicate k (0, Some []) @ [(0, Some (compact null_reply))]"

lemma flood_answer: "await_answer name 2 cost deadline now (flood k) = (Ok Null, now + k * cost + cost, [])"
  by (simp add: flood_def await_noise null_reply_answer)

text \<open>
  C39. Lines that wait are taken whatever the time: a server that writes faster than its lines are handled
  is listened to past any bound, and its answer is still accepted.
\<close>

theorem the_wait_has_no_bound:
  "fst (await_answer name 2 1 TIMEOUT 0 (flood k)) = Ok Null
   \<and> k < fst (snd (await_answer name 2 1 TIMEOUT 0 (flood k)))"
  by (simp add: flood_answer)

lemma the_first_reply_counts_witness:
  "\<exists>noise t line rest message.
      flood 2 = noise @ (t, Some line) # rest
    \<and> (\<forall>x \<in> set noise. \<exists>l. snd x = Some l \<and> hx_answer ''config/batchWrite'' 2 l = None)
    \<and> parse_limited line MAX_REPLY_BYTES = Ok message
    \<and> hj_get message ''id'' = Some (Num (nat_str 2)) \<and> hj_get message ''error'' = None
    \<and> hj_get message ''result'' = Some Null"
  by (rule the_first_reply_counts [where cost = 1 and deadline = TIMEOUT and now = 0]) (simp add: flood_answer)

definition a_run :: session where
  "a_run = \<lparr>se_lines = [], se_now = 0, se_deadline = 0, se_cost = 1, se_sent = [], se_closed = 9\<rparr>"

lemma exchanges_are_lines_of_json_witness:
  "list_all message_ok (exchange ''0.1.0'' (grant_request [(''k'', ''sha256:1'')]))"
proof -
  obtain r0 s0 where s: "start_session ''0.1.0'' a_run = (r0, s0)" by fastforce
  have home: "from_utf8 ''/h''" by (simp add: byte_def)
  obtain r s1 where l: "app_list ''0.1.0'' ''/h'' (Some a_run) = (r, Some s1)"
    using s home by (cases r0; cases "hx_request 1 ''hooks/list'' (hx_object [(''cwds'', Arr [Str ''/h''])]) s0") (simp_all add: app_list_def)
  obtain r' s2 where g: "app_grant ''0.1.0'' ''/h'' [(''k'', ''sha256:1'')] (Some a_run) = (r', Some s2)"
    using s home by (cases r0; cases "hx_request 2 ''config/batchWrite'' (grant_params [(''k'', ''sha256:1'')]) s0") (simp_all add: app_grant_def)
  from exchanges_are_lines_of_json [OF _ _ _ _ l g] show ?thesis
    by (simp add: byte_def)
qed

end
