(* ===== verification/Mac_Network.thy ===== *)
theory Mac_Network
  imports Network_Metrics
begin

text \<open>
  The view of the network on a Mac, \<^verbatim>\<open>platform-macos/src/network.rs\<close>: the parsers of the kernel's
  buffers (interface counters, the routing table, link addresses), the kind of an interface, and the
  view that a collection works on. What the system calls return is an input; numbers in the buffers
  are little-endian, the byte order of the machine.
\<close>

section \<open>The buffers\<close>

definition RTF_UP :: u32 where "RTF_UP = 0x1"
definition RTF_REJECT :: u32 where "RTF_REJECT = 0x8"
definition RTF_BLACKHOLE :: u32 where "RTF_BLACKHOLE = 0x1000"
definition RTF_IFSCOPE :: u32 where "RTF_IFSCOPE = 0x01000000"
definition RTA_DST :: u32 where "RTA_DST = 0x1"
definition RTA_NETMASK :: u32 where "RTA_NETMASK = 0x4"
definition RTAX_MAX :: nat where "RTAX_MAX = 8"
definition AF_INET :: u8 where "AF_INET = 2"
definition AF_INET6 :: u8 where "AF_INET6 = 30"
definition AF_LINK :: u8 where "AF_LINK = 18"
definition RT_MSGHDR_LEN :: nat where "RT_MSGHDR_LEN = 92"
definition DATA64_IBYTES :: nat where "DATA64_IBYTES = 64"
definition DATA64_OBYTES :: nat where "DATA64_OBYTES = 72"
definition MAX_MSG_LEN :: nat where "MAX_MSG_LEN = 8192"
definition IFMIB_DATA :: nat where "IFMIB_DATA = 52"
definition IFMIB_LEN :: nat where "IFMIB_LEN = IFMIB_DATA + 128"

text \<open>\<open>get\<close> with a range; the value of bytes, the lowest first. A signed number is its bits.\<close>

definition get_range :: "bytes \<Rightarrow> nat \<Rightarrow> nat \<Rightarrow> bytes option" where
  "get_range b from to = (if from \<le> to \<and> to \<le> length b then Some (take (to - from) (drop from b)) else None)"

definition get_byte :: "bytes \<Rightarrow> nat \<Rightarrow> u8 option" where
  "get_byte b at = (if at < length b then Some (b ! at) else None)"

definition ne_value :: "bytes \<Rightarrow> 'a::len word" where
  "ne_value b = be_value (rev b)"

definition u16_at :: "bytes \<Rightarrow> nat \<Rightarrow> u16 option" where
  "u16_at b at = map_option ne_value (get_range b at (at + 2))"

definition i32_at :: "bytes \<Rightarrow> nat \<Rightarrow> u32 option" where
  "i32_at b at = map_option ne_value (get_range b at (at + 4))"

definition u64_at :: "bytes \<Rightarrow> nat \<Rightarrow> u64 option" where
  "u64_at b at = map_option ne_value (get_range b at (at + 8))"

lemma get_range_bound: "get_range b from to = Some x \<Longrightarrow> to \<le> length b"
  by (simp add: get_range_def split: if_split_asm)

text \<open>\<open>messages\<close> from a position: it ends at the first length that is not one.\<close>

function messages_from :: "bytes \<Rightarrow> nat \<Rightarrow> bytes list" where
  "messages_from buf at =
     (case u16_at buf at of
        None \<Rightarrow> []
      | Some n \<Rightarrow>
          (let len = unat n in
           if \<not> (4 \<le> len \<and> len \<le> MAX_MSG_LEN) \<or> length buf < at + len then []
           else take len (drop at buf) # messages_from buf (at + len)))"
  by auto
termination messages_from
  by (relation "measure (\<lambda>(buf, at). length buf - at)") (auto simp: u16_at_def get_range_def split: if_split_asm)

declare messages_from.simps [simp del]

definition messages :: "bytes \<Rightarrow> bytes list" where
  "messages buf = messages_from buf 0"

definition parse_ifmib :: "bytes \<Rightarrow> interface_counters option" where
  "parse_ifmib buf =
     (if length buf < IFMIB_LEN then None
      else
        (case u64_at buf (IFMIB_DATA + DATA64_IBYTES) of
           None \<Rightarrow> None
         | Some rx \<Rightarrow>
             (case u64_at buf (IFMIB_DATA + DATA64_OBYTES) of
                None \<Rightarrow> None
              | Some tx \<Rightarrow> Some \<lparr>ic_rx_bytes = rx, ic_tx_bytes = tx\<rparr>)))"

section \<open>Routes\<close>

text \<open>
  The socket addresses of a message, one slot for each bit of its address mask; nothing when the
  message ends before an address begins.
\<close>

fun socket_addresses :: "bytes \<Rightarrow> u32 \<Rightarrow> nat \<Rightarrow> nat list \<Rightarrow> bytes option list option" where
  "socket_addresses m addrs at [] = Some []"
| "socket_addresses m addrs at (n # bits) =
     (if addrs AND push_bit n 1 = 0 then map_option (Cons None) (socket_addresses m addrs at bits)
      else
        (case get_byte m at of
           None \<Rightarrow> None
         | Some b \<Rightarrow>
             (let len = unat b;
                  advance = (if len = 0 then 4 else (len + 3) div 4 * 4)
              in case get_range m at (min (at + max len 1) (length m)) of
                   None \<Rightarrow> None
                 | Some sa \<Rightarrow> map_option (Cons (Some sa)) (socket_addresses m addrs (at + advance) bits))))"

definition zero_from :: "bytes \<Rightarrow> nat \<Rightarrow> bool" where
  "zero_from sa from = list_all (\<lambda>b. b = 0) (drop from sa)"

definition dst_is_default :: "bytes \<Rightarrow> bool" where
  "dst_is_default dst =
     (case get_byte dst 1 of
        None \<Rightarrow> False
      | Some family \<Rightarrow>
          if family = AF_INET then zero_from dst 4
          else if family = AF_INET6 then zero_from dst 8
          else False)"

definition mask_is_zero :: "u32 \<Rightarrow> bytes \<Rightarrow> bytes option \<Rightarrow> bool" where
  "mask_is_zero addrs dst slot =
     (if addrs AND RTA_NETMASK = 0 then True
      else zero_from (case slot of None \<Rightarrow> [] | Some netmask \<Rightarrow> netmask)
             (if get_byte dst 1 = Some AF_INET6 then 8 else 4))"

text \<open>What one message adds to the list of default routes; the \<open>expect\<close> is the panic.\<close>

definition route_in :: "bytes \<Rightarrow> ((u32 \<times> bool) option, unit) res" where
  "route_in m =
     (case (u16_at m 4, i32_at m 8, i32_at m 12) of
        (Some index, Some flags, Some addrs) \<Rightarrow>
          if length m < RT_MSGHDR_LEN \<or> flags AND RTF_UP = 0 \<or> flags AND (RTF_REJECT OR RTF_BLACKHOLE) \<noteq> 0
             \<or> addrs AND RTA_DST = 0
          then Ok None
          else
            (case socket_addresses m addrs RT_MSGHDR_LEN [0..<RTAX_MAX] of
               None \<Rightarrow> Ok None
             | Some slots \<Rightarrow>
                 (case slots ! 0 of
                    None \<Rightarrow> Panic
                  | Some dst \<Rightarrow>
                      Ok (if dst_is_default dst \<and> mask_is_zero addrs dst (slots ! 2)
                          then Some (ucast index, flags AND RTF_IFSCOPE \<noteq> 0) else None)))
      | _ \<Rightarrow> Ok None)"

definition parse_default_routes :: "bytes \<Rightarrow> ((u32 \<times> bool) list, unit) res" where
  "parse_default_routes buf =
     and_then (collect (map route_in (messages buf))) (\<lambda>rs. Ok (List.map_filter id rs))"

section \<open>Interfaces\<close>

definition parse_link_address :: "bytes \<Rightarrow> bytes option" where
  "parse_link_address sa =
     (if get_byte sa 1 \<noteq> Some AF_LINK then None
      else
        (case (get_byte sa 5, get_byte sa 6) of
           (Some name_len, Some addr_len) \<Rightarrow>
             if addr_len \<noteq> 6 then None
             else
               (case get_range sa (8 + unat name_len) (8 + unat name_len + 6) of
                  None \<Rightarrow> None
                | Some mac \<Rightarrow> if mac = replicate 6 0 then None else Some mac)
         | _ \<Rightarrow> None))"

definition all_digits :: "string \<Rightarrow> bool" where
  "all_digits rest = list_all is_ascii_digit rest"

definition is_tunnel_name :: "string \<Rightarrow> bool" where
  "is_tunnel_name name =
     list_ex (\<lambda>p. case strip_prefix p name of None \<Rightarrow> False | Some rest \<Rightarrow> all_digits rest)
       [''utun'', ''ipsec'', ''ppp'', ''gif'', ''stf'', ''tun'']"

datatype sc_type = ScWifi | ScEthernet | ScOther

definition classify_interface :: "string \<Rightarrow> bool \<Rightarrow> (string \<rightharpoonup> sc_type) \<Rightarrow> if_kind" where
  "classify_interface name is_loopback sc =
     (if is_loopback \<or> (strip_prefix ''lo'' name \<noteq> None \<and> all_digits (drop 2 name)) then IfLoopback
      else if is_tunnel_name name then IfTunnel
      else
        (case sc name of
           Some ScWifi \<Rightarrow> IfWifi
         | Some ScEthernet \<Rightarrow> IfEthernet
         | _ \<Rightarrow> IfOther))"

text \<open>\<open>system_configuration_types\<close>: the listed interfaces with the name and the type of each, where it has them.\<close>

definition sc_type_of :: "string \<Rightarrow> sc_type" where
  "sc_type_of kind =
     (if kind = ''IEEE80211'' then ScWifi else if kind = ''Ethernet'' then ScEthernet else ScOther)"

definition sc_types :: "(string option \<times> string option) list \<Rightarrow> string \<rightharpoonup> sc_type" where
  "sc_types all =
     fold (\<lambda>i out. case i of (Some name, Some kind) \<Rightarrow> out(name \<mapsto> sc_type_of kind) | _ \<Rightarrow> out) all Map.empty"

text \<open>
  An entry of \<open>getifaddrs\<close>: its name and its address where it has them. An address has as many
  bytes as its first byte says, two at least.
\<close>

record if_entry =
  ie_name :: "string option"
  ie_flags :: u32
  ie_addr :: "bytes option"

record link_interface =
  li_name :: string
  li_index :: u32
  li_up_running :: bool
  li_loopback :: bool
  li_mac :: "bytes option"

definition IFF_UP :: u32 where "IFF_UP = 0x1"
definition IFF_LOOPBACK :: u32 where "IFF_LOOPBACK = 0x8"
definition IFF_RUNNING :: u32 where "IFF_RUNNING = 0x40"

definition link_of_entry :: "if_entry \<Rightarrow> link_interface option" where
  "link_of_entry e =
     (case (ie_addr e, ie_name e) of
        (Some addr, Some name) \<Rightarrow>
          (let sa = take (max (unat (addr ! 0)) 2) addr in
           if sa ! 1 \<noteq> AF_LINK \<or> length sa < 8 then None
           else Some
             \<lparr>li_name = name, li_index = ucast (ne_value [sa ! 2, sa ! 3] :: u16),
              li_up_running = (ie_flags e AND (IFF_UP OR IFF_RUNNING) = IFF_UP OR IFF_RUNNING),
              li_loopback = (ie_flags e AND IFF_LOOPBACK \<noteq> 0),
              li_mac = parse_link_address sa\<rparr>)
      | _ \<Rightarrow> None)"

definition link_interfaces :: "if_entry list option \<Rightarrow> link_interface list option" where
  "link_interfaces entries = map_option (List.map_filter link_of_entry) entries"

text \<open>\<open>MediaQuery::active\<close>: the status that the query of a name gives, where it succeeds.\<close>

definition media_active :: "(string \<Rightarrow> u32 option) \<Rightarrow> string \<Rightarrow> bool" where
  "media_active ask_status name =
     (if 16 \<le> length name then False
      else
        (case ask_status name of
           None \<Rightarrow> False
         | Some status \<Rightarrow> status AND 1 \<noteq> 0 \<and> status AND 2 \<noteq> 0))"

section \<open>The view\<close>

definition SC_REFRESH_MS :: nat where
  "SC_REFRESH_MS = 30000"

record mac_network =
  mn_sc :: "string \<rightharpoonup> sc_type"
  mn_sc_read_at :: "nat option"

definition mac_new :: mac_network where
  "mac_new = \<lparr>mn_sc = Map.empty, mn_sc_read_at = None\<rparr>"

text \<open>
  What the system answers in one reading: the interfaces it lists and when it had listed them, the
  entries of \<open>getifaddrs\<close>, the media queries where a socket could be opened, the counters of an
  interface and the routing table of a family.
\<close>

record mac_answers =
  ma_listed :: "(string option \<times> string option) list"
  ma_listed_at :: nat
  ma_entries :: "if_entry list option"
  ma_media :: "(string \<Rightarrow> u32 option) option"
  ma_ifdata :: "u32 \<Rightarrow> bytes option"
  ma_dump :: "u8 \<Rightarrow> bytes option"

definition refresh_types :: "nat \<Rightarrow> mac_answers \<Rightarrow> mac_network \<Rightarrow> mac_network" where
  "refresh_types now ans s =
     (if (case mn_sc_read_at s of None \<Rightarrow> True | Some t \<Rightarrow> SC_REFRESH_MS \<le> now - t)
      then s\<lparr>mn_sc := sc_types (ma_listed ans), mn_sc_read_at := Some (ma_listed_at ans)\<rparr>
      else s)"

definition interface_of_link :: "mac_answers \<Rightarrow> (string \<rightharpoonup> sc_type) \<Rightarrow> link_interface \<Rightarrow> interface_info" where
  "interface_of_link ans sc l =
     (let kind = classify_interface (li_name l) (li_loopback l) sc in
      \<lparr>if_name = li_name l, if_index = li_index l, if_kind = kind, if_up_running = li_up_running l,
       if_link_active = (li_up_running l \<and> kind \<in> {IfWifi, IfEthernet}
         \<and> (case ma_media ans of None \<Rightarrow> False | Some m \<Rightarrow> media_active m (li_name l))),
       if_station = (if kind = IfWifi then li_mac l else None),
       if_counters = (if li_up_running l
         then (case ma_ifdata ans (li_index l) of None \<Rightarrow> None | Some b \<Rightarrow> parse_ifmib b)
         else None)\<rparr>)"

definition named_route :: "interface_info list \<Rightarrow> u32 \<times> bool \<Rightarrow> default_route option" where
  "named_route interfaces r =
     map_option (\<lambda>i. \<lparr>rt_interface = if_name i, rt_scoped = snd r\<rparr>)
       (find (\<lambda>i. if_index i = fst r) interfaces)"

definition family_routes :: "mac_answers \<Rightarrow> interface_info list \<Rightarrow> u8 \<Rightarrow> (default_route list, unit) res" where
  "family_routes ans interfaces family =
     (case ma_dump ans family of
        None \<Rightarrow> Ok []
      | Some buf \<Rightarrow>
          and_then (parse_default_routes buf) (\<lambda>rs.
          Ok (List.map_filter (named_route interfaces) rs)))"

definition mac_read :: "nat \<Rightarrow> mac_answers \<Rightarrow> mac_network \<Rightarrow> (system_view option, unit) res \<times> mac_network" where
  "mac_read now ans s =
     (let s = refresh_types now ans s in
      case link_interfaces (ma_entries ans) of
        None \<Rightarrow> (Ok None, s)
      | Some links \<Rightarrow>
          (let interfaces = sort_key if_index (map (interface_of_link ans (mn_sc s)) links) in
           (and_then (collect (map (family_routes ans interfaces) [AF_INET, AF_INET6])) (\<lambda>rs.
            Ok (Some \<lparr>sv_interfaces = interfaces, sv_default_routes = concat rs\<rparr>)), s)))"

definition mac_invalidate :: "mac_network \<Rightarrow> mac_network" where
  "mac_invalidate s = s\<lparr>mn_sc_read_at := None\<rparr>"

end
