(* ===== verification/Mac_Network_Correct.thy ===== *)
theory Mac_Network_Correct
  imports Mac_Network Network_Correct
begin

text \<open>
  What the parsers of \<open>Mac_Network\<close> make of the kernel's buffers: a routing table as the kernel lays it
  out is read back, whatever bytes come nothing panics, and the view that is built is consistent.
\<close>

section \<open>Reading numbers\<close>

definition ne_bytes :: "nat \<Rightarrow> 'a::len word \<Rightarrow> bytes" where
  "ne_bytes n v = rev (be_bytes n v)"

lemma length_ne_bytes [simp]: "length (ne_bytes n v) = n"
  by (simp add: ne_bytes_def)

lemma ne_value_bytes:
  fixes v :: "'a::len word"
  assumes "LENGTH('a) \<le> 8 * n"
  shows "ne_value (ne_bytes n v) = v"
  using assms by (simp add: ne_value_def ne_bytes_def be_value_be_bytes_full)

lemma get_range_here: "n = length pre \<Longrightarrow> k = n + length x \<Longrightarrow> get_range (pre @ x @ post) n k = Some x"
  by (simp add: get_range_def)

lemma u16_here: "n = length pre \<Longrightarrow> u16_at (pre @ ne_bytes 2 v @ post) n = Some v"
  by (simp add: u16_at_def get_range_here ne_value_bytes)

lemma i32_here: "n = length pre \<Longrightarrow> i32_at (pre @ ne_bytes 4 v @ post) n = Some v"
  by (simp add: i32_at_def get_range_here ne_value_bytes)

section \<open>The messages of a buffer\<close>

definition message_ok :: "bytes \<Rightarrow> bool" where
  "message_ok m \<longleftrightarrow> u16_at m 0 = Some (of_nat (length m)) \<and> 4 \<le> length m \<and> length m \<le> MAX_MSG_LEN"

lemma u16_at_part:
  assumes "2 \<le> length m"
  shows "u16_at (pre @ m @ post) (length pre) = u16_at m 0"
  using assms by (simp add: u16_at_def get_range_def numeral_2_eq_2)

lemma messages_from_concat:
  "list_all message_ok ms \<Longrightarrow> messages_from (pre @ concat ms) (length pre) = ms"
proof (induction ms arbitrary: pre)
  case Nil
  then show ?case by (simp add: messages_from.simps [of pre] u16_at_def get_range_def)
next
  case (Cons m ms)
  then have m: "u16_at m 0 = Some (of_nat (length m))" "4 \<le> length m" "length m \<le> MAX_MSG_LEN"
    by (simp_all add: message_ok_def)
  then have "unat (of_nat (length m) :: u16) = length m"
    by (simp add: unat_of_nat MAX_MSG_LEN_def)
  moreover have "u16_at (pre @ m @ concat ms) (length pre) = Some (of_nat (length m))"
    using m u16_at_part [of m pre] by simp
  moreover have "messages_from (pre @ m @ concat ms) (length pre + length m) = ms"
    using Cons.IH [of "pre @ m"] Cons.prems by simp
  ultimately show ?case
    using m by (subst messages_from.simps) simp
qed

section \<open>Socket addresses\<close>

text \<open>An address says its own length, or is empty; addresses are padded to four bytes.\<close>

definition address_ok :: "bytes \<Rightarrow> bool" where
  "address_ok sa \<longleftrightarrow> sa \<noteq> [] \<and> (unat (hd sa) = length sa \<or> sa = [0])"

definition padding :: "nat \<Rightarrow> nat" where
  "padding n = (n + 3) div 4 * 4 - n"

definition slot_bytes :: "bytes option \<Rightarrow> bytes" where
  "slot_bytes slot = (case slot of None \<Rightarrow> [] | Some sa \<Rightarrow> sa @ replicate (padding (length sa)) 0)"

fun address_mask :: "nat \<Rightarrow> bytes option list \<Rightarrow> u32" where
  "address_mask n [] = 0"
| "address_mask n (slot # slots) =
     (if slot = None then 0 else push_bit n 1) OR address_mask (Suc n) slots"

lemma bit_address_mask:
  "n + length slots \<le> 32 \<Longrightarrow>
    bit (address_mask n slots) j \<longleftrightarrow> n \<le> j \<and> j < n + length slots \<and> slots ! (j - n) \<noteq> None"
proof (induction slots arbitrary: n)
  case (Cons slot slots)
  have one: "bit (push_bit n 1 :: u32) j \<longleftrightarrow> j = n"
    using Cons.prems by (auto simp: push_bit_eq_mult bit_exp_iff)
  have tail: "bit (address_mask (Suc n) slots) j
      \<longleftrightarrow> Suc n \<le> j \<and> j < Suc n + length slots \<and> slots ! (j - Suc n) \<noteq> None"
    using Cons by simp
  have "bit (address_mask n (slot # slots)) j \<longleftrightarrow> slot \<noteq> None \<and> j = n \<or> bit (address_mask (Suc n) slots) j"
  proof (cases "slot = None")
    case False
    then have "address_mask n (slot # slots) = push_bit n 1 OR address_mask (Suc n) slots"
      by (simp only: address_mask.simps if_False)
    then show ?thesis using one False by (simp only: bit_or_iff) simp
  qed simp
  then have step: "bit (address_mask n (slot # slots)) j \<longleftrightarrow> slot \<noteq> None \<and> j = n
      \<or> Suc n \<le> j \<and> j < Suc n + length slots \<and> slots ! (j - Suc n) \<noteq> None"
    unfolding tail .
  show ?case
  proof (cases "n < j")
    case True
    then have "j - n = Suc (j - Suc n)" by simp
    then show ?thesis using True step by simp
  qed (use step in \<open>cases "j = n"; simp\<close>)
qed simp

lemma socket_addresses_read:
  assumes "list_all (\<lambda>s. case s of None \<Rightarrow> True | Some sa \<Rightarrow> address_ok sa) slots"
    and "\<And>i. i < length slots \<Longrightarrow> bit addrs (n + i) \<longleftrightarrow> slots ! i \<noteq> None"
  shows "socket_addresses (pre @ concat (map slot_bytes slots)) addrs (length pre) [n..<n + length slots] = Some slots"
  using assms
proof (induction slots arbitrary: pre n)
  case (Cons slot slots)
  have up: "[n..<n + length (slot # slots)] = n # [Suc n..<Suc n + length slots]"
    using upt_conv_Cons [of n "n + length (slot # slots)"] by simp
  have bits: "bit addrs (Suc n + i) \<longleftrightarrow> slots ! i \<noteq> None" if "i < length slots" for i
    using Cons.prems(2) [of "Suc i"] that by simp
  have flag: "addrs AND push_bit n 1 = 0 \<longleftrightarrow> slot = None"
    using Cons.prems(2) [of 0] bit_iff_and_push_bit_not_eq_0 [of addrs n] by (cases "addrs AND push_bit n 1 = 0") simp_all
  note IH = Cons.IH [OF _ bits]
  show ?case
  proof (cases slot)
    case None
    then show ?thesis
      using IH [of pre] Cons.prems(1) flag unfolding up by (simp add: slot_bytes_def del: upt_Suc)
  next
    case (Some sa)
    then have sa: "sa \<noteq> []" "unat (hd sa) = length sa \<or> sa = [0]"
      using Cons.prems(1) by (auto simp: address_ok_def)
    let ?len = "unat (hd sa)"
    let ?m = "pre @ concat (map slot_bytes (slot # slots))"
    have m: "?m = (pre @ slot_bytes slot) @ concat (map slot_bytes slots)" by simp
    have head: "get_byte ?m (length pre) = Some (hd sa)"
      using sa(1) Some by (simp add: get_byte_def slot_bytes_def nth_append hd_conv_nth)
    have size: "max ?len 1 = length sa"
      using sa by (cases sa) auto
    have step: "(if ?len = 0 then 4 else (?len + 3) div 4 * 4) = length (slot_bytes slot)"
    proof (cases "?len = 0")
      case True
      then show ?thesis using sa size Some by (auto simp: slot_bytes_def padding_def)
    next
      case False
      then have "?len = length sa" using size by simp
      then show ?thesis using False Some by (simp add: slot_bytes_def padding_def)
    qed
    have "get_range ?m (length pre) (min (length pre + max ?len 1) (length ?m)) = Some sa"
      unfolding size using Some by (simp add: get_range_def slot_bytes_def)
    then show ?thesis
      using IH [of "pre @ slot_bytes slot"] Cons.prems(1) flag head step Some
      unfolding up by (simp add: m [symmetric] Let_def del: upt_Suc)
  qed
qed simp

section \<open>The routing table\<close>

text \<open>
  A route as the kernel writes it: the header with the length, the interface, the flags and the
  mask of the addresses that follow, and the addresses in their slots.
\<close>

record route_entry =
  re_kind :: bytes
  re_index :: u16
  re_pad :: bytes
  re_flags :: u32
  re_more :: bytes
  re_slots :: "bytes option list"

definition route_size :: "route_entry \<Rightarrow> nat" where
  "route_size e = RT_MSGHDR_LEN + length (concat (map slot_bytes (re_slots e)))"

definition route_bytes :: "route_entry \<Rightarrow> bytes" where
  "route_bytes e =
     ne_bytes 2 (of_nat (route_size e) :: u16) @ re_kind e @ ne_bytes 2 (re_index e) @ re_pad e
     @ ne_bytes 4 (re_flags e) @ ne_bytes 4 (address_mask 0 (re_slots e)) @ re_more e
     @ concat (map slot_bytes (re_slots e))"

definition route_ok :: "route_entry \<Rightarrow> bool" where
  "route_ok e \<longleftrightarrow> length (re_kind e) = 2 \<and> length (re_pad e) = 2 \<and> length (re_more e) = 76
     \<and> length (re_slots e) = RTAX_MAX
     \<and> list_all (\<lambda>s. case s of None \<Rightarrow> True | Some sa \<Rightarrow> address_ok sa) (re_slots e)
     \<and> route_size e \<le> MAX_MSG_LEN"

text \<open>A route that counts: up, neither reject nor blackhole, to no particular address of IPv4 or IPv6.\<close>

definition address_start :: "bytes \<Rightarrow> nat" where
  "address_start dst = (if get_byte dst 1 = Some AF_INET6 then 8 else 4)"

definition default_entry :: "route_entry \<Rightarrow> bool" where
  "default_entry e \<longleftrightarrow> bit (re_flags e) 0 \<and> \<not> bit (re_flags e) 3 \<and> \<not> bit (re_flags e) 12
     \<and> (\<exists>dst. re_slots e ! 0 = Some dst \<and> get_byte dst 1 \<in> {Some AF_INET, Some AF_INET6}
          \<and> (\<forall>b \<in> set (drop (address_start dst) dst). b = 0)
          \<and> (\<forall>netmask. re_slots e ! 2 = Some netmask \<longrightarrow> (\<forall>b \<in> set (drop (address_start dst) netmask). b = 0)))"

definition entry_result :: "route_entry \<Rightarrow> u32 \<times> bool" where
  "entry_result e = (ucast (re_index e), bit (re_flags e) 24)"

lemma flag_and: "f AND push_bit n 1 = 0 \<longleftrightarrow> \<not> bit f n"
  using bit_iff_and_push_bit_not_eq_0 [of f n] by blast

lemma route_flags:
  "f AND RTF_UP = 0 \<longleftrightarrow> \<not> bit f 0"
  "f AND (RTF_REJECT OR RTF_BLACKHOLE) = 0 \<longleftrightarrow> \<not> bit f 3 \<and> \<not> bit f 12"
  "f AND RTF_IFSCOPE = 0 \<longleftrightarrow> \<not> bit f 24"
  "f AND RTA_DST = 0 \<longleftrightarrow> \<not> bit f 0"
  "f AND RTA_NETMASK = 0 \<longleftrightarrow> \<not> bit f 2"
proof -
  have n: "RTF_UP = push_bit 0 1" "RTF_IFSCOPE = push_bit 24 1" "RTA_DST = push_bit 0 1" "RTA_NETMASK = push_bit 2 1"
    "RTF_REJECT = push_bit 3 1" "RTF_BLACKHOLE = push_bit 12 1"
    by (simp_all add: RTF_UP_def RTF_IFSCOPE_def RTA_DST_def RTA_NETMASK_def RTF_REJECT_def RTF_BLACKHOLE_def)
  have either: "f AND (a OR b) = 0 \<longleftrightarrow> f AND a = 0 \<and> f AND b = 0" for a b :: u32
    by (auto simp: bit_eq_iff bit_simps)
  show "f AND (RTF_REJECT OR RTF_BLACKHOLE) = 0 \<longleftrightarrow> \<not> bit f 3 \<and> \<not> bit f 12"
    unfolding n either flag_and ..
  show "f AND RTF_UP = 0 \<longleftrightarrow> \<not> bit f 0" "f AND RTF_IFSCOPE = 0 \<longleftrightarrow> \<not> bit f 24"
    "f AND RTA_DST = 0 \<longleftrightarrow> \<not> bit f 0" "f AND RTA_NETMASK = 0 \<longleftrightarrow> \<not> bit f 2"
    unfolding n flag_and by (rule refl)+
qed

lemma length_route_bytes: "route_ok e \<Longrightarrow> length (route_bytes e) = route_size e"
  by (simp add: route_bytes_def route_ok_def route_size_def RT_MSGHDR_LEN_def)

lemma route_message: "route_ok e \<Longrightarrow> message_ok (route_bytes e)"
  using u16_here [of 0 "[]" "of_nat (route_size e)"]
  by (simp add: message_ok_def length_route_bytes) (simp add: route_bytes_def route_ok_def route_size_def RT_MSGHDR_LEN_def)

lemma route_header:
  assumes "route_ok e"
  shows "u16_at (route_bytes e) 4 = Some (re_index e)" "i32_at (route_bytes e) 8 = Some (re_flags e)"
    "i32_at (route_bytes e) 12 = Some (address_mask 0 (re_slots e))"
proof -
  let ?a = "ne_bytes 2 (of_nat (route_size e) :: u16) @ re_kind e"
  let ?b = "?a @ ne_bytes 2 (re_index e) @ re_pad e"
  let ?c = "?b @ ne_bytes 4 (re_flags e)"
  have len: "4 = length ?a" "8 = length ?b" "12 = length ?c" using assms by (simp_all add: route_ok_def)
  show "u16_at (route_bytes e) 4 = Some (re_index e)"
    using u16_here [OF len(1)] by (simp add: route_bytes_def)
  show "i32_at (route_bytes e) 8 = Some (re_flags e)"
    using i32_here [OF len(2)] by (simp add: route_bytes_def)
  show "i32_at (route_bytes e) 12 = Some (address_mask 0 (re_slots e))"
    using i32_here [OF len(3)] by (simp add: route_bytes_def)
qed

lemma route_slots:
  assumes "route_ok e"
  shows "socket_addresses (route_bytes e) (address_mask 0 (re_slots e)) RT_MSGHDR_LEN [0..<RTAX_MAX] = Some (re_slots e)"
proof -
  let ?h = "ne_bytes 2 (of_nat (route_size e) :: u16) @ re_kind e @ ne_bytes 2 (re_index e) @ re_pad e
     @ ne_bytes 4 (re_flags e) @ ne_bytes 4 (address_mask 0 (re_slots e)) @ re_more e"
  have e: "length ?h = RT_MSGHDR_LEN" "length (re_slots e) = RTAX_MAX"
    "list_all (\<lambda>s. case s of None \<Rightarrow> True | Some sa \<Rightarrow> address_ok sa) (re_slots e)"
    using assms by (simp_all add: route_ok_def RT_MSGHDR_LEN_def)
  have "bit (address_mask 0 (re_slots e)) i \<longleftrightarrow> re_slots e ! i \<noteq> None" if "i < length (re_slots e)" for i
    using that bit_address_mask [of 0 "re_slots e" i] e(2) by (simp add: RTAX_MAX_def)
  then show ?thesis
    using socket_addresses_read [OF e(3), of _ 0 ?h] e(1,2) by (simp add: route_bytes_def)
qed

lemma route_in_bytes:
  assumes "route_ok e"
  shows "route_in (route_bytes e) = Ok (if default_entry e then Some (entry_result e) else None)"
proof -
  let ?mask = "address_mask 0 (re_slots e)"
  have size: "\<not> length (route_bytes e) < RT_MSGHDR_LEN"
    using assms by (simp add: length_route_bytes route_size_def)
  have bits: "bit ?mask 0 \<longleftrightarrow> re_slots e ! 0 \<noteq> None" "bit ?mask 2 \<longleftrightarrow> re_slots e ! 2 \<noteq> None"
    using assms bit_address_mask [of 0 "re_slots e"] by (simp_all add: route_ok_def RTAX_MAX_def)
  show ?thesis
    using size bits
    by (auto simp: route_in_def route_header [OF assms] route_flags route_slots [OF assms] default_entry_def
        entry_result_def dst_is_default_def mask_is_zero_def zero_from_def list_all_iff address_start_def
        AF_INET_def AF_INET6_def split: option.split)
qed

lemma filter_results: "List.map_filter id (map (\<lambda>e. if P e then Some (f e) else None) es) = map f (filter P es)"
  by (induction es) (simp_all add: List.map_filter_def)

text \<open>
  C21. A routing table is read back. Whatever routes the kernel writes into a dump, with any addresses
  in any slots, the parser finds exactly the default ones among them, in their order, each with its
  interface and whether it is bound to it.
\<close>

theorem routing_table_is_read:
  assumes "list_all route_ok es"
  shows "parse_default_routes (concat (map route_bytes es)) = Ok (map entry_result (filter default_entry es))"
proof -
  have "list_all message_ok (map route_bytes es)"
    using assms by (auto simp: list_all_iff route_message)
  then have "messages (concat (map route_bytes es)) = map route_bytes es"
    using messages_from_concat [of "map route_bytes es" "[]"] by (simp add: messages_def)
  moreover have "map route_in (map route_bytes es)
      = map Ok (map (\<lambda>e. if default_entry e then Some (entry_result e) else None) es)"
    using assms by (auto simp: list_all_iff route_in_bytes)
  ultimately show ?thesis
    unfolding parse_default_routes_def by (simp add: filter_results del: map_map)
qed

text \<open>A table with a bound default route of IPv6, one to a network, and one that is down.\<close>

definition a_route :: "u16 \<Rightarrow> u32 \<Rightarrow> bytes \<Rightarrow> bytes option \<Rightarrow> route_entry" where
  "a_route index flags dst netmask =
     \<lparr>re_kind = [5, 4], re_index = index, re_pad = [0, 0], re_flags = flags, re_more = replicate 76 0,
      re_slots = [Some dst, Some [0], netmask, None, None, None, None, None]\<rparr>"

lemma a_route_ok:
  "address_ok dst \<Longrightarrow> (\<And>m. netmask = Some m \<Longrightarrow> address_ok m) \<Longrightarrow> length dst \<le> 255
    \<Longrightarrow> (\<And>m. netmask = Some m \<Longrightarrow> length m \<le> 255) \<Longrightarrow> route_ok (a_route index flags dst netmask)"
  by (cases netmask)
    (auto simp: route_ok_def a_route_def RTAX_MAX_def address_ok_def route_size_def slot_bytes_def padding_def
      RT_MSGHDR_LEN_def MAX_MSG_LEN_def)

theorem routing_table_is_read_witness:
  "parse_default_routes (concat (map route_bytes
      [a_route 14 (1 OR push_bit 24 1) (28 # 30 # replicate 26 0) (Some [0]),
       a_route 9 1 (16 # 2 # 0 # 0 # 192 # replicate 11 0) None,
       a_route 5 2 (16 # 2 # replicate 14 0) None])) = Ok [(14, True)]"
proof -
  let ?es = "[a_route 14 (1 OR push_bit 24 1) (28 # 30 # replicate 26 0) (Some [0]),
       a_route 9 1 (16 # 2 # 0 # 0 # 192 # replicate 11 0) None,
       a_route 5 2 (16 # 2 # replicate 14 0) None]"
  have "list_all route_ok ?es"
    unfolding list.pred_inject by (intro conjI TrueI a_route_ok) (auto simp: address_ok_def)
  from routing_table_is_read [OF this] show ?thesis
    by (simp add: a_route_def default_entry_def entry_result_def get_byte_def AF_INET_def AF_INET6_def
        address_start_def bit_simps)
qed

section \<open>The view\<close>

lemma socket_addresses_first:
  assumes "addrs AND RTA_DST \<noteq> 0" and "socket_addresses m addrs at [0..<RTAX_MAX] = Some slots"
  shows "slots ! 0 \<noteq> None"
proof -
  have "[0..<RTAX_MAX] = 0 # [1..<RTAX_MAX]" by (simp add: RTAX_MAX_def upt_rec)
  then show ?thesis
    using assms by (auto simp: RTA_DST_def Let_def split: option.split_asm)
qed

lemma route_in_Ok: "\<exists>x. route_in m = Ok x"
  by (auto simp: route_in_def dest: socket_addresses_first [rotated] split: option.split)

lemma collect_Ok: "(\<And>x. x \<in> set xs \<Longrightarrow> \<exists>y. f x = Ok y) \<Longrightarrow> \<exists>ys. collect (map f xs) = Ok ys"
  by (induction xs) (auto, fastforce)

lemma parse_default_routes_Ok: "\<exists>rs. parse_default_routes buf = Ok rs"
  using collect_Ok [of "messages buf" route_in] route_in_Ok by (auto simp: parse_default_routes_def)

lemma parse_link_address_length: "parse_link_address sa = Some mac \<Longrightarrow> length mac = 6 \<and> mac \<noteq> replicate 6 0"
  by (auto simp: parse_link_address_def get_range_def split: option.split_asm if_split_asm)

lemma link_of_entry_mac:
  assumes "link_of_entry e = Some l" and "li_mac l = Some mac"
  shows "length mac = 6 \<and> mac \<noteq> replicate 6 0"
proof -
  obtain sa where "li_mac l = parse_link_address sa"
    using assms(1) by (auto simp: link_of_entry_def Let_def split: option.split_asm if_split_asm)
  then show ?thesis using assms(2) parse_link_address_length by metis
qed

lemma set_map_filter: "set (List.map_filter f xs) = {y. \<exists>x \<in> set xs. f x = Some y}"
  by (force simp: List.map_filter_def)

text \<open>What every view says: its interfaces are in the order of their numbers, its routes are on them.\<close>

definition view_consistent :: "system_view \<Rightarrow> bool" where
  "view_consistent v \<longleftrightarrow> sorted (map if_index (sv_interfaces v))
     \<and> (\<forall>r \<in> set (sv_default_routes v). \<exists>i \<in> set (sv_interfaces v). if_name i = rt_interface r)
     \<and> (\<forall>i \<in> set (sv_interfaces v).
          (if_link_active i \<longrightarrow> if_up_running i \<and> if_kind i \<in> {IfWifi, IfEthernet})
        \<and> (if_counters i \<noteq> None \<longrightarrow> if_up_running i)
        \<and> (\<forall>mac. if_station i = Some mac \<longrightarrow> if_kind i = IfWifi \<and> length mac = 6 \<and> mac \<noteq> replicate 6 0))"

definition named_once :: "mac_answers \<Rightarrow> bool" where
  "named_once ans \<longleftrightarrow>
     (case link_interfaces (ma_entries ans) of None \<Rightarrow> True | Some links \<Rightarrow> distinct (map li_name links))"

lemma family_routes_named:
  "family_routes ans interfaces family = Ok rs \<Longrightarrow> r \<in> set rs \<Longrightarrow> \<exists>i \<in> set interfaces. if_name i = rt_interface r"
  by (auto simp: family_routes_def and_then_eq_Ok set_map_filter named_route_def dest!: find_SomeD split: option.split_asm)
    blast

lemma family_routes_Ok: "\<exists>rs. family_routes ans interfaces family = Ok rs"
proof (cases "ma_dump ans family")
  case (Some buf)
  then show ?thesis using parse_default_routes_Ok [of buf] by (auto simp: family_routes_def)
qed (simp add: family_routes_def)

lemma mac_read_view:
  assumes "link_interfaces (ma_entries ans) = Some links"
  shows "\<exists>v. fst (mac_read now ans s) = Ok (Some v)
    \<and> sv_interfaces v = sort_key if_index (map (interface_of_link ans (mn_sc (refresh_types now ans s))) links)
    \<and> (\<forall>r \<in> set (sv_default_routes v). \<exists>i \<in> set (sv_interfaces v). if_name i = rt_interface r)"
proof -
  define ifs where "ifs = sort_key if_index (map (interface_of_link ans (mn_sc (refresh_types now ans s))) links)"
  obtain rs where rs: "collect (map (family_routes ans ifs) [AF_INET, AF_INET6]) = Ok rs"
    using collect_Ok [of "[AF_INET, AF_INET6]" "family_routes ans ifs", OF family_routes_Ok] by blast
  then have families: "map (family_routes ans ifs) [AF_INET, AF_INET6] = map Ok rs"
    by (simp only: collect_eq_Ok)
  have "\<exists>i \<in> set ifs. if_name i = rt_interface r" if "q \<in> set rs" "r \<in> set q" for q r
  proof -
    have "Ok q \<in> family_routes ans ifs ` set [AF_INET, AF_INET6]"
      using that(1) families by (metis imageI list.set_map)
    then obtain f where "family_routes ans ifs f = Ok q" by auto
    then show ?thesis using family_routes_named that(2) by blast
  qed
  moreover have "fst (mac_read now ans s) = Ok (Some \<lparr>sv_interfaces = ifs, sv_default_routes = concat rs\<rparr>)"
    unfolding mac_read_def Let_def assms option.case ifs_def [symmetric] rs by simp
  ultimately show ?thesis unfolding ifs_def by auto
qed

lemma interface_names: "map if_name (map (interface_of_link ans sc) links) = map li_name links"
  by (simp add: interface_of_link_def Let_def comp_def)

text \<open>
  C22. Whatever the system answers makes a view. Where the kernel names no link twice, a reading never
  panics, whatever bytes the routing table and the counters are; the view is consistent, its
  default routes are on listed interfaces, and the collector turns it into a second of traffic and
  Wi-Fi that is well-formed.
\<close>

theorem any_answers_make_a_view:
  assumes "named_once ans" and "ctx_ok (cr_context latest)"
  shows "\<exists>v g samplers'. fst (mac_read now ans s) = Ok v
    \<and> (\<forall>w. v = Some w \<longrightarrow> view_consistent w \<and> view_ok w)
    \<and> net_collect samplers v latest t = Ok (ms_available g, samplers')
    \<and> traffic_ok (ng_traffic g) \<and> wifi_ok (ng_wifi g)"
proof -
  obtain v where v: "fst (mac_read now ans s) = Ok v" "\<And>w. v = Some w \<Longrightarrow> view_consistent w \<and> view_ok w"
  proof (cases "link_interfaces (ma_entries ans)")
    case None
    then show ?thesis using that [of None] by (simp add: mac_read_def Let_def)
  next
    case (Some links)
    let ?info = "interface_of_link ans (mn_sc (refresh_types now ans s))"
    obtain w where w: "fst (mac_read now ans s) = Ok (Some w)"
      "sv_interfaces w = sort_key if_index (map ?info links)"
      "\<forall>r \<in> set (sv_default_routes w). \<exists>i \<in> set (sv_interfaces w). if_name i = rt_interface r"
      using mac_read_view [OF Some, of now s] by blast
    have mac: "length mac = 6 \<and> mac \<noteq> replicate 6 0" if l: "l \<in> set links" "li_mac l = Some mac" for l mac
    proof -
      obtain e where "link_of_entry e = Some l"
        using l(1) Some by (auto simp: link_interfaces_def set_map_filter)
      then show ?thesis using l(2) link_of_entry_mac by blast
    qed
    have infos: "set (sv_interfaces w) = ?info ` set links" using w(2) by simp
    have "(if_link_active i \<longrightarrow> if_up_running i \<and> if_kind i \<in> {IfWifi, IfEthernet})
        \<and> (if_counters i \<noteq> None \<longrightarrow> if_up_running i)
        \<and> (\<forall>mac. if_station i = Some mac \<longrightarrow> if_kind i = IfWifi \<and> length mac = 6 \<and> mac \<noteq> replicate 6 0)"
      if i: "i \<in> set (sv_interfaces w)" for i
    proof -
      obtain l where l: "l \<in> set links" "i = ?info l" using i unfolding infos by blast
      then show ?thesis
        using mac [OF l(1)] by (simp add: interface_of_link_def Let_def)
    qed
    moreover have "sorted (map if_index (sv_interfaces w))"
      unfolding w(2) by (rule sorted_sort_key)
    ultimately have consistent: "view_consistent w"
      unfolding view_consistent_def using w(3) by blast
    have "distinct (map if_name (sv_interfaces w)) \<longleftrightarrow> distinct (map if_name (map ?info links))"
      unfolding w(2) distinct_map [of if_name] distinct_sort set_sort ..
    also have "\<dots> \<longleftrightarrow> distinct (map li_name links)"
      unfolding interface_names ..
    finally have "distinct (map if_name (sv_interfaces w))"
      using assms(1) Some by (simp add: named_once_def)
    then have "view_ok w"
      using consistent by (auto simp: view_ok_def distinct_names_def view_consistent_def mac_ok_def)
    then show ?thesis using that [of "Some w"] w(1) consistent by simp
  qed
  show ?thesis
    by (rule net_collect_ok [OF _ assms(2), of v samplers t]) (use v in blast)+
qed

text \<open>A Mac on Wi-Fi whose buffers are garbage.\<close>

definition garbage :: mac_answers where
  "garbage =
     \<lparr>ma_listed = [(Some ''en0'', Some ''IEEE80211'')], ma_listed_at = 5,
      ma_entries = Some [\<lparr>ie_name = Some ''en0'', ie_flags = 0x41,
        ie_addr = Some [20, 18, 4, 0, 6, 3, 6, 0, 101, 110, 48, 2, 0, 0, 0, 0, 1, 0, 0, 0]\<rparr>],
      ma_media = Some (\<lambda>_. Some 3), ma_ifdata = (\<lambda>_. Some [1]), ma_dump = (\<lambda>_. Some (replicate 64 255))\<rparr>"

theorem any_answers_make_a_view_witness:
  "\<exists>v g samplers'. fst (mac_read 5 garbage mac_new) = Ok v
    \<and> net_collect Map.empty v sample_context 1000 = Ok (ms_available g, samplers')
    \<and> traffic_ok (ng_traffic g) \<and> wifi_ok (ng_wifi g)"
proof -
  have "named_once garbage"
    by (simp add: named_once_def garbage_def link_interfaces_def List.map_filter_def split: option.split)
  moreover have "ctx_ok (cr_context sample_context)"
    using ctx_ok_unavailable by (simp add: sample_context_def)
  ultimately show ?thesis
    using any_answers_make_a_view [of garbage sample_context 5 mac_new Map.empty 1000] by blast
qed

end
