(* ===== verification/Spec2Isabelle.thy ===== *)
theory Spec2Isabelle
  imports Integrity Sample_Cache Disk_Names Link_Correct Daemon_Handler Hook_Commands_Correct Hook_Codex_Correct
    Mac_Network_Correct
begin

text \<open>
  The host of a system monitor: a Rust program that reads the metrics of a Mac once a second and
  sends them over a serial line to a small display. This library models the code under
  \<^verbatim>\<open>src/host\<close> and proves it correct. Names follow the code; a name that clashes with one of HOL
  has a prefix (\<open>hc_\<close> for the methods of \<^verbatim>\<open>HostClient\<close>, \<open>rcv_\<close> for \<^verbatim>\<open>SessionReceiver\<close>, \<open>ms_\<close>
  for \<^verbatim>\<open>MetricSample\<close>, and so on). Machine integers are words of their width and wrap or saturate
  as the code's do; a \<^verbatim>\<open>Result\<close> is \<open>res\<close> with constructors \<open>Ok\<close>, \<open>Err\<close> and \<open>Panic\<close>, so an
  unwinding call is a value too; a mutable receiver is passed in and returned; \<^verbatim>\<open>&str\<close> and
  \<^verbatim>\<open>[u8]\<close> are lists of bytes (characters 0 to 255 for text, \<open>u8\<close> for the wire).

  \<^bold>\<open>The parts of the program and their theories.\<close>

  \<^item> The wire protocol, \<^verbatim>\<open>protocol/src/lib.rs\<close>. \<open>Cbor\<close> has the heads, byte strings, bounded
    skipping and the CRC-32; \<open>Messages\<close> the message types; \<open>Encode\<close> and \<open>Decode\<close> every encoder
    and decoder, branch by branch. \<open>Readers\<close>, \<open>Groups_Codec\<close>, \<open>Body_Codec\<close>, \<open>Skip_Codec\<close>,
    \<open>Envelope_Codec\<close> and \<open>Control_Codec\<close> show what each reader does on what each writer wrote
    and \<open>Codec_Correct\<close> puts them together, with the one value the encoder lets through and no
    decoder takes; \<open>Integrity\<close> shows that the CRC finds every burst of
    four bytes; \<open>Panics\<close> that no decoder panics but for one unchecked addition. \<open>Frame_Stream\<close>
    is the byte-stream framer and \<open>Session\<close> the receiver's sequence gate.

  \<^item> The connection, \<^verbatim>\<open>transport/src/client.rs\<close>: \<open>Host_Client\<close> is the state machine from Hello to
    the live connection and its operations; \<open>Client_Runs\<close> has its runs.

  \<^item> The pure metrics, \<^verbatim>\<open>metrics/src\<close>: \<open>Samplers\<close> (CPU share and byte rates, \<^verbatim>\<open>lib.rs\<close> and
    \<^verbatim>\<open>storage.rs\<close>), \<open>Sample_Cache\<close> (\<^verbatim>\<open>cache.rs\<close>), \<open>Disk_Names\<close> (\<^verbatim>\<open>storage.rs\<close>), \<open>Flat_Json\<close>
    (\<^verbatim>\<open>flat_json.rs\<close>), \<open>Wifi_Context\<close> (\<^verbatim>\<open>wifi_context.rs\<close>), \<open>Network_Metrics\<close> with
    \<open>Network_Correct\<close> (\<^verbatim>\<open>network.rs\<close>), \<open>Battery_Charge\<close> (\<^verbatim>\<open>battery.rs\<close>) and \<open>Agents\<close> with
    \<open>Agents_Correct\<close> (\<^verbatim>\<open>agents.rs\<close>). \<open>Rust_Text\<close> has the operations on text they share.

  \<^item> The collectors, \<^verbatim>\<open>platform-macos/src\<close>: \<open>Collectors\<close> models the five that keep state or check
    a reading (CPU, memory, storage, agents, battery) over what the system answers;
    \<open>Collectors_Correct\<close> states what the \<^verbatim>\<open>Collector\<close> trait promises as the locale \<open>collector\<close>
    and interprets it on each; \<open>Battery_Runs\<close> has the interleavings of the battery's collector
    with the threads that run the slow profiler. \<open>Mac_Network\<close> is \<^verbatim>\<open>network.rs\<close>: the parsers of the
    kernel's buffers and the view of the network; \<open>Mac_Network_Correct\<close> shows that a routing table is
    read back and that any answers of the system make a view the collector can work on.

  \<^item> The groups of a snapshot, \<^verbatim>\<open>hostcore/src/groups\<close> and \<^verbatim>\<open>link.rs\<close>: \<open>Metric_Groups\<close> maps one
    second of each collector to its wire group; \<open>Metric_Groups_Correct\<close> shows that whatever the
    collectors have been through, the next snapshot is one the encoder accepts and the receiver
    understands, and that what is not available is never sent as a number.

  \<^item> The link, \<^verbatim>\<open>hostcore/src/link.rs\<close>: \<open>Link\<close> is connecting, commands and the serving of one
    snapshot a second, over the client and the collectors; \<open>Link_Correct\<close> has what a served link
    keeps (frames in sequence, one identity for a command and the reply that has it, nothing
    measured across a sleep that is noticed, and which one is not),
    \<open>Link_Dial\<close> what connecting gives away and what a pairing rests on. \<open>Identity_File\<close> is
    \<^verbatim>\<open>identity.rs\<close>, with reads and writes that may fail.

  \<^item> The local sockets: \<open>Line_Reader\<close> splits a stream into bounded lines (\<^verbatim>\<open>platform-macos/src/ipc.rs\<close>);
    \<open>Control_Requests\<close> and \<open>Control_Socket\<close> are the requests, replies, connections and slots of
    \<^verbatim>\<open>hostcore/src/control.rs\<close>; \<open>Provider_Socket\<close> is \<^verbatim>\<open>platform-macos/src/wifi_context_server.rs\<close>.

  \<^item> The daemon, \<^verbatim>\<open>hostcore/src/daemon.rs\<close>: \<open>Supervisor\<close> is the thread that picks a port, connects,
    serves and answers commands, over the link and the identity file. \<open>Supervisor_Correct\<close> shows that
    its status is that of the link and that every command is answered; \<open>Supervisor_Safety\<close> when it
    leaves a display alone; \<open>Daemon_Handler\<close> is the status and the hand-over of commands, with a
    grammar of JSON, independent of the code, for what it writes.

  \<^item> The hooks of the agents, \<^verbatim>\<open>cli/src/hooks\<close>: \<open>Hook_Json\<close> is the strict JSON reader and writer
    (\<^verbatim>\<open>json.rs\<close>) over the characters of \<open>Utf8_Text\<close>, \<open>Hook_Json_Correct\<close> its round trip and safety;
    \<open>Hook_Adapters\<close> is the table of agents, the classification and the edits (\<^verbatim>\<open>adapters.rs\<close>).
    \<open>Hook_Text\<close> shows that our command lines are recognised, \<open>Hook_Merge\<close> and \<open>Hook_Install\<close> what an
    install leaves, \<open>Hook_Remove\<close> and \<open>Hook_Edits\<close> that what belongs to others is never touched and
    that a removal is complete. \<open>Disk\<close> is a disk whose calls may fail, with every state it has been in;
    \<open>Hook_Files\<close> reads, backs up and replaces a configuration over it (\<^verbatim>\<open>files.rs\<close>), \<open>Hook_Files_Safe\<close>
    and \<open>Hook_Files_Crash\<close> show what is on the disk at every moment and which failing call costs the
    backup, \<open>Hook_Stamp\<close> that the name of a
    backup carries the calendar's date. \<open>Hook_Codex\<close> with \<open>Hook_Codex_Correct\<close> is the exchange with
    the app server of Codex (\<^verbatim>\<open>codex.rs\<close>), \<open>Hook_Commands\<close> with \<open>Hook_Commands_Correct\<close> the commands
    \<^verbatim>\<open>status\<close>, \<^verbatim>\<open>install\<close> and \<^verbatim>\<open>remove\<close> over all of these (\<^verbatim>\<open>mod.rs\<close>); \<open>Hook_Output\<close> shows that what
    they write is UTF-8.

  \<^bold>\<open>How state and operations correspond.\<close> A struct is a record with the struct's fields; an
  operation takes the record and what the environment answers in that call (the bytes read, the
  counters of the kernel, the clock) and returns its result with the new record. Time is the
  argument \<open>now_ms\<close> the code passes too. The battery's background threads are a list of running
  threads in the record: ending one is a step of its own, so any interleaving is a run. A hash map
  is a function to an option; the code never iterates one. The hook commands are actions on a world: the
  disk, its past states, and a list of fates that says which calls the system refuses, so that a
  statement over all worlds covers every pattern of failures and a crash at every moment.

  \<^bold>\<open>What the lemmas show.\<close> For each component an invariant and that every operation keeps it; the
  result on every branch, errors included; then the properties, each after a text that states it.
  Round trips are shown of the codec, the framer, the one-line JSON and the event files; bounds of
  frames, buffers, JSON fields, nesting and percentages; refinement of the cache to a specification that
  remembers only the last good answer; equivalence of the path matcher and of the chunked readers
  with their plain descriptions; safety and liveness of the handshake, the session gate, the Wi-Fi
  permission and the profiler's threads. A property with hypotheses is followed by a witness, an
  instance where they hold.

  \<^bold>\<open>Loops that wait.\<close> The loops of the link, of the sockets and of the supervisor wait for a clock, a
  port or a peer. Each is a function over the list of what the environment answers, one entry for
  each turn; a result says that the list ended while the loop was still going (\<open>LinkGoing\<close>,
  \<open>ServeGoing\<close>, \<open>SupBusy\<close>), so a statement over all lists covers a run of any length.

  \<^bold>\<open>Bounds and termination.\<close> Every definition is total. The framer's loop is well-founded as
  each turn drops a byte; \<open>skip_value\<close> has the code's own depth bound (there is no other fuel), and
  the chain of backing stores the code's four turns. The hooks' JSON reader calls itself on what its
  own calls left, and ends because every value takes at least a byte; its depth bound is the code's. Times, sequence numbers and counters keep their
  width; where a statement needs that they do not wrap it says so.

  \<^bold>\<open>Not modelled.\<close> Foreign calls (Mach, sysctl, IOKit, libproc, CoreFoundation, sockets, the
  serial port) answer as inputs of the model; the file system is modelled for the hook commands only. The battery profile parser turns JSON numbers
  into floating-point ones and the log lines format them; both are left out. Starting the daemon
  (its lock, its log, its threads), the service's property list and the arguments of the other
  commands are left out. The firmware (C++), the settings
  application (Swift) and the build tools are other programs.
\<close>

end
